(* ===== verification/Primitives.thy ===== *)
theory Primitives
  imports Qzt_Prelude
begin

text \<open>
  The error type of the library (src/src/error.rs) and the conversions and range helpers
  every other module uses (src/src/primitives.rs). \<open>usize\<close> is 64 bits wide, as on every
  platform the project builds for, so \<open>u64_to_usize\<close> never fails; a length is a natural
  number, so \<open>usize_to_u64\<close> keeps its failure branch.
\<close>

datatype ErrorKind =
    KindUnexpectedEof
  | KindInvalidInput
  | KindOther nat

datatype QztError =
    InvalidMagic
  | UnsupportedVersion
  | InvalidHeader
  | InvalidFooterTrailer
  | InvalidFooterPayload
  | NonCanonicalCbor
  | DuplicateCborKey
  | FooterChecksumMismatch
  | FinalFileSizeMismatch
  | ContainerIdMismatch
  | MetadataChecksumMismatch
  | MetadataInvalid
  | DuplicateDocumentId
  | VersionMismatch
  | NewlineModeMismatch
  | IndexRootChecksumMismatch
  | MissingRequiredBlock
  | UnknownRequiredBlock
  | DocumentNotFound
  | InvalidFlags
  | ChunkTableChecksumMismatch
  | ChunkTableInvalid
  | ChunkCountMismatch
  | ChunkSizeMismatch
  | PhysicalRangeOutOfBounds
  | LogicalRangeOutOfBounds
  | InvalidUtf8
  | InvalidUtf8Boundary
  | LineOutOfRange
  | MissingDictionary
  | DictionaryChecksumMismatch
  | CompressedChunkChecksumMismatch
  | UncompressedChunkChecksumMismatch
  | ZstdEncodeError
  | ZstdDecodeError
  | ContainerCorrupt
  | ResourceLimitExceeded
  | RangeOverlap
  | UnexpectedEof
  | NonEmptyWriterSink
  | WriterAlreadyFinished
  | VerifiedChecksumMismatch
  | BenchmarkMetricsMismatch
  | Io ErrorKind
  | UnsupportedIndexMode string

type_synonym 'a result = "QztError + 'a"

definition usize_to_u64 :: "usize \<Rightarrow> u64 result" where
  "usize_to_u64 value = (if value < u64_end then Ok value else Err ResourceLimitExceeded)"

definition u64_to_usize :: "u64 \<Rightarrow> usize result" where
  "u64_to_usize value = (if value < u64_end then Ok value else Err ResourceLimitExceeded)"

definition read_u16_le :: "bytes \<Rightarrow> u16 result" where
  "read_u16_le bs = (if length bs = 2 then Ok (le_val bs) else Err UnexpectedEof)"

definition read_u32_le :: "bytes \<Rightarrow> u32 result" where
  "read_u32_le bs = (if length bs = 4 then Ok (le_val bs) else Err UnexpectedEof)"

definition read_u64_le :: "bytes \<Rightarrow> u64 result" where
  "read_u64_le bs = (if length bs = 8 then Ok (le_val bs) else Err UnexpectedEof)"

definition checked_logical_end :: "u64 \<Rightarrow> u64 \<Rightarrow> u64 result" where
  "checked_logical_end offset len = ok_or (checked_add offset len) LogicalRangeOutOfBounds"

definition checked_physical_end :: "u64 \<Rightarrow> u64 \<Rightarrow> u64 result" where
  "checked_physical_end offset len = ok_or (checked_add offset len) PhysicalRangeOutOfBounds"

section \<open>Lemmas\<close>

lemma usize_to_u64_Ok_iff [width_simps]:
  "usize_to_u64 n = Ok v \<longleftrightarrow> v = n \<and> n < u64_end"
  by (auto simp: usize_to_u64_def)

lemma u64_to_usize_Ok_iff [width_simps]:
  "u64_to_usize n = Ok v \<longleftrightarrow> v = n \<and> n < u64_end"
  by (auto simp: u64_to_usize_def)

lemma checked_logical_end_Ok_iff [width_simps]:
  "checked_logical_end a b = Ok c \<longleftrightarrow> c = a + b \<and> a + b < u64_end"
  by (auto simp: checked_logical_end_def result_simps width_simps)

lemma checked_physical_end_Ok_iff [width_simps]:
  "checked_physical_end a b = Ok c \<longleftrightarrow> c = a + b \<and> a + b < u64_end"
  by (auto simp: checked_physical_end_def result_simps width_simps)

lemma usize_to_u64_small [simp]: "n < u64_end \<Longrightarrow> usize_to_u64 n = Ok n"
  by (simp add: usize_to_u64_def)

lemma u64_to_usize_small [simp]: "n < u64_end \<Longrightarrow> u64_to_usize n = Ok n"
  by (simp add: u64_to_usize_def)

lemma checked_logical_end_small [simp]:
  "a + b < u64_end \<Longrightarrow> checked_logical_end a b = Ok (a + b)"
  by (simp add: checked_logical_end_def checked_add_def)

lemma checked_physical_end_small [simp]:
  "a + b < u64_end \<Longrightarrow> checked_physical_end a b = Ok (a + b)"
  by (simp add: checked_physical_end_def checked_add_def)

lemma u64_end_pow: "u64_end = 256 ^ 8"
  by (simp add: u64_end_def)

lemma u32_end_pow: "u32_end = 256 ^ 4"
  by (simp add: u32_end_def)

lemma le_val_u64 [simp]: "length bs = 8 \<Longrightarrow> le_val bs < u64_end"
  using le_val_bound [of bs] by (simp add: u64_end_pow)

lemma le_val_u32 [simp]: "length bs = 4 \<Longrightarrow> le_val bs < u32_end"
  using le_val_bound [of bs] by (simp add: u32_end_pow)

lemma read_u64_le_bytes: "v < u64_end \<Longrightarrow> read_u64_le (le_bytes 8 v) = Ok v"
  unfolding u64_end_pow by (simp only: read_u64_le_def length_le_bytes le_val_le_bytes refl if_True)

lemma read_u32_le_bytes: "v < u32_end \<Longrightarrow> read_u32_le (le_bytes 4 v) = Ok v"
  unfolding u32_end_pow by (simp only: read_u32_le_def length_le_bytes le_val_le_bytes refl if_True)

lemma read_u16_le_bytes: "v < 65536 \<Longrightarrow> read_u16_le (le_bytes 2 v) = Ok v"
  using le_val_le_bytes [of v 2] by (simp add: read_u16_le_def)

lemma read_u64_le_Ok_iff: "read_u64_le bs = Ok v \<longleftrightarrow> length bs = 8 \<and> v < u64_end \<and> bs = le_bytes 8 v"
proof
  assume "read_u64_le bs = Ok v"
  then have "length bs = 8" "v = le_val bs" by (auto simp: read_u64_le_def split: if_splits)
  then show "length bs = 8 \<and> v < u64_end \<and> bs = le_bytes 8 v"
    using le_bytes_le_val [of bs] by simp
next
  assume "length bs = 8 \<and> v < u64_end \<and> bs = le_bytes 8 v"
  then show "read_u64_le bs = Ok v" using read_u64_le_bytes by blast
qed

lemma read_u32_le_Ok_iff: "read_u32_le bs = Ok v \<longleftrightarrow> length bs = 4 \<and> v < u32_end \<and> bs = le_bytes 4 v"
proof
  assume "read_u32_le bs = Ok v"
  then have "length bs = 4" "v = le_val bs" by (auto simp: read_u32_le_def split: if_splits)
  then show "length bs = 4 \<and> v < u32_end \<and> bs = le_bytes 4 v"
    using le_bytes_le_val [of bs] by simp
next
  assume "length bs = 4 \<and> v < u32_end \<and> bs = le_bytes 4 v"
  then show "read_u32_le bs = Ok v" using read_u32_le_bytes by blast
qed

end
