(* ===== verification/Codec.thy ===== *)
theory Codec
  imports Primitives
begin

text \<open>
  The third-party code the container relies on, as a record of functions, and the chunk codec
  built on it (src/src/codec.rs). \<open>blake3_hash\<close> is \<open>blake3::hash\<close>; the three \<open>hasher\<close> fields are
  the streaming \<open>blake3::Hasher\<close>, whose state type is a parameter; \<open>zstd_encode_all\<close> is
  \<open>zstd::stream::encode_all\<close> with \<open>None\<close> for an error; \<open>zstd_decoder\<close> is
  \<open>zstd::stream::Decoder::with_dictionary\<close>: \<open>None\<close> when the decoder cannot be opened, otherwise
  the bytes it yields and whether reading past them fails. What the code relies on of these
  functions is named below and is a hypothesis wherever it is needed.
\<close>

record 'h ext =
  blake3_hash :: "bytes \<Rightarrow> bytes"
  hasher_new :: 'h
  hasher_update :: "'h \<Rightarrow> bytes \<Rightarrow> 'h"
  hasher_finalize :: "'h \<Rightarrow> bytes"
  zstd_encode_all :: "bytes \<Rightarrow> i32 \<Rightarrow> bytes option"
  zstd_decoder :: "bytes \<Rightarrow> bytes \<Rightarrow> (bytes \<times> bool) option"

text \<open>A digest has 32 bytes, and hashing in pieces is hashing the concatenation.\<close>

definition blake3_documented :: "('h, 'x) ext_scheme \<Rightarrow> bool" where
  "blake3_documented X \<longleftrightarrow>
     (\<forall>bs. length (blake3_hash X bs) = 32) \<and>
     (\<forall>parts. hasher_finalize X (foldl (hasher_update X) (hasher_new X) parts) = blake3_hash X (concat parts))"

text \<open>A frame decodes, without a dictionary, to the bytes it was made from.\<close>

definition zstd_documented :: "('h, 'x) ext_scheme \<Rightarrow> bool" where
  "zstd_documented X \<longleftrightarrow>
     (\<forall>input level frame. zstd_encode_all X input level = Some frame \<longrightarrow>
        zstd_decoder X frame [] = Some (input, False))"

text \<open>\<open>reader.take(limit).read_to_end()\<close> on a stream of bytes that may end in an error.\<close>

definition take_read_to_end :: "bytes \<times> bool \<Rightarrow> u64 \<Rightarrow> bytes option" where
  "take_read_to_end stream limit =
     (case stream of (out, fails) \<Rightarrow>
       if limit \<le> length out then Some (take limit out)
       else if fails then None else Some out)"

definition encode_chunk :: "('h, 'x) ext_scheme \<Rightarrow> bytes \<Rightarrow> i32 \<Rightarrow> bytes result" where
  "encode_chunk X input level = ok_or (zstd_encode_all X input level) ZstdEncodeError"

definition decode_chunk :: "('h, 'x) ext_scheme \<Rightarrow> bytes \<Rightarrow> bytes \<Rightarrow> u64 \<Rightarrow> bytes result" where
  "decode_chunk X compressed dictionary expected_size =
     rbind (ok_or (zstd_decoder X compressed dictionary) ZstdDecodeError) (\<lambda>decoder.
     rbind (u64_to_usize expected_size) (\<lambda>capacity.
     rbind (ok_or (checked_add expected_size 1) ResourceLimitExceeded) (\<lambda>read_limit.
     rbind (ok_or (take_read_to_end decoder read_limit) ZstdDecodeError) (\<lambda>decoded.
     rbind (usize_to_u64 (length decoded)) (\<lambda>n.
     if n > expected_size then Err ResourceLimitExceeded else Ok decoded)))))"

section \<open>Lemmas\<close>

lemma decode_chunk_bound: "decode_chunk X c d n = Ok out \<Longrightarrow> length out \<le> n"
  by (auto simp: decode_chunk_def rbind_Ok_iff width_simps split: if_splits)

lemma decode_chunk_Ok_iff:
  assumes "n + 1 < u64_end"
  shows "decode_chunk X c d n = Ok out \<longleftrightarrow> zstd_decoder X c d = Some (out, False) \<and> length out \<le> n"
proof (cases "zstd_decoder X c d")
  case (Some s)
  obtain os f where s: "s = (os, f)" by (cases s)
  have a: "checked_add n 1 = Some (n + 1)" "u64_to_usize n = Ok n" using assms by (simp_all add: checked_add_def)
  show ?thesis
  proof (cases "n + 1 \<le> length os")
    case True
    then have "take_read_to_end s (n + 1) = Some (take (n + 1) os)" by (simp add: take_read_to_end_def s)
    then have "decode_chunk X c d n = Err ResourceLimitExceeded"
      using True assms by (simp add: decode_chunk_def Some a [simplified])
    then show ?thesis using True by (auto simp: Some s)
  next
    case False
    then have t: "take_read_to_end s (n + 1) = (if f then None else Some os)" and l: "length os \<le> n"
      by (simp_all add: take_read_to_end_def s)
    have "decode_chunk X c d n = (if f then Err ZstdDecodeError else Ok os)"
      using l assms by (simp add: decode_chunk_def Some a [simplified] t [simplified])
    then show ?thesis using l by (auto simp: Some s)
  qed
qed (simp add: decode_chunk_def)

lemma blake3_length: "blake3_documented X \<Longrightarrow> length (blake3_hash X bs) = 32"
  by (simp add: blake3_documented_def)

lemma blake3_stream: "blake3_documented X \<Longrightarrow>
   hasher_finalize X (foldl (hasher_update X) (hasher_new X) parts) = blake3_hash X (concat parts)"
  by (simp add: blake3_documented_def)

section \<open>A concrete instance\<close>

text \<open>
  Functions that satisfy the documented behaviour, for evaluating the model on examples: a
  position-weighted sum as digest, and frames that store the input behind a marker byte.
\<close>

definition toy_hash :: "bytes \<Rightarrow> bytes" where
  "toy_hash bs = le_bytes 32 (foldl (\<lambda>h b. h * 257 + unat b + 1) 0 bs)"

definition toy_ext :: "bytes ext" where
  "toy_ext = \<lparr>blake3_hash = toy_hash, hasher_new = [], hasher_update = (\<lambda>h bs. h @ bs),
     hasher_finalize = toy_hash, zstd_encode_all = (\<lambda>input level. Some (0x28 # input)),
     zstd_decoder = (\<lambda>frame dictionary. case frame of [] \<Rightarrow> None
        | b # bs \<Rightarrow> if b = 0x28 then Some (bs, False) else None)\<rparr>"

lemma toy_blake3: "blake3_documented toy_ext"
proof -
  have "foldl (@) acc parts = acc @ concat parts" for acc and parts :: "bytes list"
    by (induction parts arbitrary: acc) auto
  then show ?thesis by (simp add: blake3_documented_def toy_ext_def toy_hash_def)
qed

lemma toy_zstd: "zstd_documented toy_ext"
  by (simp add: zstd_documented_def toy_ext_def)

text \<open>
  Decoding is bounded. Whatever the compressed bytes, a decoded chunk is never longer
  than the declared size, and a chunk of the declared size made by the encoder decodes to
  the bytes it was made from, provided zstd round-trips.
\<close>

theorem decode_chunk_bounded_roundtrip:
  assumes "zstd_documented X" and "encode_chunk X input level = Ok frame" and "length input + 1 < u64_end"
  shows "decode_chunk X frame [] (length input) = Ok input \<and>
     (\<forall>c d n out. decode_chunk X c d n = Ok out \<longrightarrow> length out \<le> n)"
proof -
  have "zstd_decoder X frame [] = Some (input, False)"
    using assms(1,2) by (auto simp: zstd_documented_def encode_chunk_def result_simps)
  then show ?thesis using assms(3) decode_chunk_bound by (simp add: decode_chunk_Ok_iff) blast
qed

theorem decode_chunk_bounded_roundtrip_witness:
  "decode_chunk toy_ext [0x28, 1, 2, 3] [] 3 = Ok [1, 2, 3]"
  using decode_chunk_bounded_roundtrip [OF toy_zstd, of "[1, 2, 3]" 0 "[0x28, 1, 2, 3]"]
  by (simp add: encode_chunk_def toy_ext_def u64_end_def numeral_3_eq_3)

end
