(* ===== verification/Fixed_Codec.thy ===== *)
theory Fixed_Codec
  imports Primitives
begin

text \<open>
  Fixed-width records. The container stores its header, its trailer and the entries of its
  chunk table as byte arrays of a constant width with every field at a constant offset. The
  operations on such buffers (\<open>copy_from_slice\<close> into a sub-range, \<open>chunks_exact\<close>) are defined
  here, and the contract of a fixed-width codec is the locale \<open>fixed_codec\<close>: what one record
  needs is assumed, and the facts on tables of records are proved once inside it.
\<close>

section \<open>Buffers\<close>

text \<open>\<open>buf[a..a + src.len()].copy_from_slice(src)\<close>, for a range inside the buffer.\<close>

definition copy_at :: "usize \<Rightarrow> bytes \<Rightarrow> bytes \<Rightarrow> bytes" where
  "copy_at a src buf = take a buf @ src @ drop (a + length src) buf"

text \<open>\<open>bytes.chunks_exact(n)\<close>: the whole chunks of width \<open>n\<close>, without the remainder.\<close>

function chunks_exact :: "usize \<Rightarrow> 'a list \<Rightarrow> 'a list list" where
  "chunks_exact n xs =
     (if n = 0 \<or> length xs < n then [] else take n xs # chunks_exact n (drop n xs))"
  by pat_completeness auto
termination by (relation "measure (length \<circ> snd)") auto

declare chunks_exact.simps [simp del]

named_theorems slice_simps \<open>reading the fields of a buffer built by appending\<close>

lemma slice_append_right [slice_simps]:
  "length xs \<le> a \<Longrightarrow> slice (xs @ ys) a b = slice ys (a - length xs) (b - length xs)"
  by (simp add: slice_def)

lemma slice_append_left [slice_simps]:
  "b \<le> length xs \<Longrightarrow> slice (xs @ ys) a b = slice xs a b"
  by (cases "a \<le> b") (auto simp: slice_def)

lemma slice_whole [slice_simps]: "b = length xs \<Longrightarrow> slice xs 0 b = xs"
  by simp

lemma copy_at_skip [slice_simps]:
  "length xs \<le> a \<Longrightarrow> copy_at a src (xs @ ys) = xs @ copy_at (a - length xs) src ys"
  by (simp add: copy_at_def)

lemma copy_at_zeros [slice_simps]:
  "length src \<le> n \<Longrightarrow> copy_at 0 src (replicate n 0) = src @ replicate (n - length src) 0"
  by (simp add: copy_at_def)

lemma slice_splits:
  assumes "a \<le> b" and "length xs = b"
  shows "slice xs a b = drop a xs"
  using assms by (simp add: slice_def)

lemma eq_append_slice:
  assumes "slice xs a b = ys" and "drop b xs = zs" and "a \<le> b"
  shows "drop a xs = ys @ zs"
proof -
  have "drop a xs = take (b - a) (drop a xs) @ drop (b - a) (drop a xs)" by (rule append_take_drop_id [symmetric])
  also have "\<dots> = slice xs a b @ drop b xs" using assms(3) by (simp add: slice_def)
  finally show ?thesis using assms by simp
qed

lemma chunks_exact_Nil [simp]: "chunks_exact n [] = []"
  by (subst chunks_exact.simps) auto

lemma chunks_exact_append:
  assumes "length x = n" and "0 < n"
  shows "chunks_exact n (x @ xs) = x # chunks_exact n xs"
  using assms by (subst chunks_exact.simps) auto

lemma chunks_exact_concat:
  assumes "\<And>x. x \<in> set xss \<Longrightarrow> length x = n" and "0 < n"
  shows "chunks_exact n (concat xss) = xss"
  using assms by (induction xss) (auto simp: chunks_exact_append)

lemma concat_chunks_exact:
  assumes "n dvd length xs" and "0 < n"
  shows "concat (chunks_exact n xs) = xs \<and> (\<forall>x \<in> set (chunks_exact n xs). length x = n)"
  using assms
proof (induction n xs rule: chunks_exact.induct)
  case (1 n xs)
  show ?case
  proof (cases "length xs < n")
    case True
    then have "xs = []" using 1(2) by (auto dest: dvd_imp_le)
    then show ?thesis by simp
  next
    case False
    then have d: "n dvd length (drop n xs)" using 1(2) by (simp add: dvd_diff_nat)
    have "\<not> (n = 0 \<or> length xs < n)" using False 1(3) by simp
    note IH = 1(1) [OF this d 1(3), THEN conjunct1] 1(1) [OF this d 1(3), THEN conjunct2]
    have step: "chunks_exact n xs = take n xs # chunks_exact n (drop n xs)"
      using False 1(3) by (simp add: chunks_exact.simps [of n xs])
    have "concat (chunks_exact n xs) = xs" by (simp add: step IH(1))
    moreover have "length (take n xs) = n" using False by simp
    ultimately show ?thesis using IH(2) unfolding step list.set by blast
  qed
qed

lemma length_chunks_exact:
  assumes "n dvd length xs" and "0 < n"
  shows "length (chunks_exact n xs) = length xs div n"
proof -
  have c: "concat (chunks_exact n xs) = xs" "\<forall>x \<in> set (chunks_exact n xs). length x = n"
    using concat_chunks_exact [OF assms] by auto
  have "sum_list (map length yss) = length yss * n" if "\<forall>y \<in> set yss. length y = n" for yss :: "'a list list"
    using that by (induction yss) auto
  from this [OF c(2)] have "length xs = length (chunks_exact n xs) * n" using c(1) by (metis length_concat)
  then show ?thesis using assms(2) by simp
qed

section \<open>The contract of a fixed-width codec\<close>

locale fixed_codec =
  fixes width :: nat and wf :: "'a \<Rightarrow> bool"
    and encode :: "'a \<Rightarrow> bytes" and decode :: "bytes \<Rightarrow> 'a result"
  assumes width_pos: "0 < width"
    and encode_width: "wf x \<Longrightarrow> length (encode x) = width"
    and decode_encode: "wf x \<Longrightarrow> decode (encode x) = Ok x"
    and decode_sound: "decode bs = Ok x \<Longrightarrow> wf x \<and> encode x = bs"
begin

lemma decode_Ok_iff: "decode bs = Ok x \<longleftrightarrow> wf x \<and> bs = encode x"
  using decode_encode decode_sound by blast

lemma decode_width: "decode bs = Ok x \<Longrightarrow> length bs = width"
  using decode_sound encode_width by blast

lemma encode_inj: "wf x \<Longrightarrow> wf y \<Longrightarrow> encode x = encode y \<Longrightarrow> x = y"
  by (metis decode_encode sum.inject(2))

lemma decode_table:
  assumes "width dvd length bs"
  shows "rmap decode (chunks_exact width bs) = Ok xs \<longleftrightarrow>
     (\<forall>x \<in> set xs. wf x) \<and> bs = concat (map encode xs)"
proof
  assume "rmap decode (chunks_exact width bs) = Ok xs"
  then have "list_all2 (\<lambda>c x. wf x \<and> c = encode x) (chunks_exact width bs) xs"
    by (simp add: rmap_Ok_iff decode_Ok_iff)
  then have "(\<forall>x \<in> set xs. wf x) \<and> chunks_exact width bs = map encode xs"
    by (induction rule: list_all2_induct) auto
  then show "(\<forall>x \<in> set xs. wf x) \<and> bs = concat (map encode xs)"
    using concat_chunks_exact [OF assms width_pos] by metis
next
  assume xs: "(\<forall>x \<in> set xs. wf x) \<and> bs = concat (map encode xs)"
  then have "chunks_exact width bs = map encode xs"
    using encode_width width_pos by (auto intro!: chunks_exact_concat)
  with xs show "rmap decode (chunks_exact width bs) = Ok xs"
    by (auto simp: rmap_Ok_iff list_all2_map1 decode_encode intro!: list_all2_refl list.rel_refl_strong)
qed

lemma table_length:
  assumes "\<forall>x \<in> set xs. wf x"
  shows "length (concat (map encode xs)) = width * length xs"
  using assms by (induction xs) (auto simp: encode_width)

end

end
