(* ===== verification/Io.thy ===== *)
theory Io
  imports Codec Fixed_Codec
begin

text \<open>
  Positioned reads (src/src/io.rs). The trait \<open>ReadAt\<close> has one operation; a reader is that
  operation: it takes an offset and the length of the buffer and returns the bytes that fill
  it. The two implementations of the source are the in-memory slice and, on unix, the file,
  whose \<open>FileExt::read_at\<close> may return fewer bytes than asked and is a parameter.
\<close>

type_synonym reader = "u64 \<Rightarrow> usize \<Rightarrow> ErrorKind + bytes"

definition BUFFER_SIZE :: usize where
  "BUFFER_SIZE = 64 * 1024"

definition slice_read_exact_at :: "bytes \<Rightarrow> reader" where
  "slice_read_exact_at self offset n =
     (if offset \<ge> u64_end then Err KindInvalidInput
      else
        rbind (ok_or (checked_add offset n) KindInvalidInput) (\<lambda>e.
        ok_or (get_slice self offset e) KindUnexpectedEof))"

function file_read_exact_at :: "reader \<Rightarrow> reader" where
  "file_read_exact_at read_at current n =
     (if n = 0 then Ok []
      else
        rbind (read_at current n) (\<lambda>read.
        if read = [] then Err KindUnexpectedEof
        else
          rbind (ok_or (checked_add current (length read)) KindInvalidInput) (\<lambda>next.
          rbind (file_read_exact_at read_at next (n - length read)) (\<lambda>rest.
          Ok (read @ rest)))))"
  by pat_completeness auto
termination
  by (relation "measure (\<lambda>(read_at, current, n). n)") (auto simp: length_greater_0_conv [symmetric] simp del: length_greater_0_conv)

declare file_read_exact_at.simps [simp del]

function hash_loop :: "('h, 'x) ext_scheme \<Rightarrow> reader \<Rightarrow> 'h \<Rightarrow> u64 \<Rightarrow> u64 \<Rightarrow> ErrorKind + 'h" where
  "hash_loop X source hasher position remaining =
     (if remaining = 0 then Ok hasher
      else
        let read_len = min remaining BUFFER_SIZE in
        rbind (source position read_len) (\<lambda>buffer.
        rbind (ok_or (checked_add position read_len) KindInvalidInput) (\<lambda>next.
        hash_loop X source (hasher_update X hasher buffer) next (remaining - read_len))))"
  by pat_completeness auto
termination
  by (relation "measure (\<lambda>(X, source, hasher, position, remaining). remaining)") (auto simp: BUFFER_SIZE_def)

declare hash_loop.simps [simp del]

definition hash_read_at_range :: "('h, 'x) ext_scheme \<Rightarrow> reader \<Rightarrow> u64 \<Rightarrow> u64 \<Rightarrow> ErrorKind + 'h" where
  "hash_read_at_range X source offset sz = hash_loop X source (hasher_new X) offset sz"

section \<open>What a reader promises\<close>

text \<open>A slice or a vector of bytes is never longer than \<open>isize::MAX\<close>.\<close>

definition isize_end :: nat where
  "isize_end = 2 ^ 63"

lemma isize_u64: "n < isize_end \<Longrightarrow> n < u64_end"
  by (simp add: isize_end_def u64_end_def)

locale byte_source =
  fixes read_exact_at :: reader and contents :: bytes
  assumes read_inside: "length contents < isize_end \<Longrightarrow> off + n \<le> length contents \<Longrightarrow>
      read_exact_at off n = Ok (slice contents off (off + n))"
    and read_outside: "length contents < isize_end \<Longrightarrow> length contents < off + n \<Longrightarrow> 0 < n \<Longrightarrow> off + n < u64_end \<Longrightarrow>
      read_exact_at off n = Err KindUnexpectedEof"
begin

lemma hash_loop_pieces:
  assumes "length contents < isize_end" and "position + remaining \<le> length contents"
  shows "\<exists>pieces. concat pieces = slice contents position (position + remaining) \<and>
     hash_loop X read_exact_at h position remaining = Ok (foldl (hasher_update X) h pieces)"
  using assms(2)
proof (induction remaining arbitrary: position h rule: less_induct)
  case (less remaining)
  show ?case
  proof (cases "remaining = 0")
    case True
    then show ?thesis by (auto simp: hash_loop.simps intro: exI [of _ "[]"])
  next
    case False
    define k where "k = min remaining BUFFER_SIZE"
    have k: "0 < k" "k \<le> remaining" using False by (auto simp: k_def BUFFER_SIZE_def)
    have c: "checked_add position k = Some (position + k)"
      using assms(1) less.prems k isize_u64 [of "length contents"] by (simp add: checked_add_def)
    have r: "read_exact_at position k = Ok (slice contents position (position + k))"
      using assms(1) less.prems k by (intro read_inside) auto
    obtain pieces where p: "concat pieces = slice contents (position + k) (position + k + (remaining - k))"
      "hash_loop X read_exact_at (hasher_update X h (slice contents position (position + k))) (position + k) (remaining - k)
         = Ok (foldl (hasher_update X) (hasher_update X h (slice contents position (position + k))) pieces)"
      using less.IH [of "remaining - k" "position + k"] less.prems k False by fastforce
    have "hash_loop X read_exact_at h position remaining
        = Ok (foldl (hasher_update X) h (slice contents position (position + k) # pieces))"
      using False c r p(2) by (subst hash_loop.simps) (simp add: Let_def k_def [symmetric])
    moreover have "concat (slice contents position (position + k) # pieces) = slice contents position (position + remaining)"
      using p(1) k by (simp add: slice_append_self)
    ultimately show ?thesis by blast
  qed
qed

lemma hash_range:
  assumes "length contents < isize_end" and "blake3_documented X" and "off + n \<le> length contents"
  shows "\<exists>h. hash_read_at_range X read_exact_at off n = Ok h \<and>
     hasher_finalize X h = blake3_hash X (slice contents off (off + n))"
  using hash_loop_pieces [OF assms(1,3), of X "hasher_new X"] blake3_stream [OF assms(2)]
  by (auto simp: hash_read_at_range_def)

end

text \<open>The slice keeps the promise.\<close>

interpretation slice_source: byte_source "slice_read_exact_at contents" contents for contents
proof unfold_locales
  fix off n
  assume "length contents < isize_end" "off + n \<le> length contents"
  then show "slice_read_exact_at contents off n = Ok (slice contents off (off + n))"
    using isize_u64 [of "length contents"] by (simp add: slice_read_exact_at_def checked_add_def get_slice_def)
next
  fix off n
  assume "length contents < isize_end" "length contents < off + n" "0 < n" "off + n < u64_end"
  then show "slice_read_exact_at contents off n = Err KindUnexpectedEof"
    by (simp add: slice_read_exact_at_def checked_add_def get_slice_def)
qed

text \<open>
  \<open>FileExt::read_at\<close> on an unchanging file: at least one and at most \<open>n\<close> bytes from the
  offset while there are any, none from the end of the file on.
\<close>

definition positioned_reads :: "reader \<Rightarrow> bytes \<Rightarrow> bool" where
  "positioned_reads read_at contents \<longleftrightarrow>
     (\<forall>off n. 0 < n \<and> off < length contents \<longrightarrow>
        (\<exists>k. 0 < k \<and> k \<le> n \<and> off + k \<le> length contents \<and> read_at off n = Ok (slice contents off (off + k)))) \<and>
     (\<forall>off n. length contents \<le> off \<longrightarrow> read_at off n = Ok [])"

text \<open>The file loop keeps the promise, however short the reads are.\<close>

lemma file_read_step:
  assumes "0 < n" and "read_at current n = Ok r" and "r \<noteq> []" and "current + length r < u64_end"
  shows "file_read_exact_at read_at current n =
     rbind (file_read_exact_at read_at (current + length r) (n - length r)) (\<lambda>rest. Ok (r @ rest))"
  using assms by (subst file_read_exact_at.simps) (simp add: checked_add_def)

lemma positioned_reads_some:
  assumes "positioned_reads read_at contents" and "0 < n" and "off < length contents"
  obtains r where "read_at off n = Ok r" and "r \<noteq> []" and "length r \<le> n"
    and "off + length r \<le> length contents" and "r = slice contents off (off + length r)"
proof -
  obtain k where k: "0 < k" "k \<le> n" "off + k \<le> length contents" "read_at off n = Ok (slice contents off (off + k))"
    using assms unfolding positioned_reads_def by blast
  have l: "length (slice contents off (off + k)) = k" using k(3) by simp
  then have "slice contents off (off + k) \<noteq> []" using k(1) by (metis less_irrefl list.size(3))
  then show thesis using k l by (intro that [of "slice contents off (off + k)"]) (simp_all only: not_False_eq_True)
qed

lemma file_read_inside:
  assumes "positioned_reads read_at contents" and "length contents < isize_end" and "off + n \<le> length contents"
  shows "file_read_exact_at read_at off n = Ok (slice contents off (off + n))"
  using assms(3)
proof (induction n arbitrary: off rule: less_induct)
  case (less n)
  show ?case
  proof (cases "n = 0")
    case True
    then show ?thesis by (simp add: file_read_exact_at.simps)
  next
    case False
    with less.prems obtain r where r: "read_at off n = Ok r" "r \<noteq> []" "length r \<le> n"
      "off + length r \<le> length contents" "r = slice contents off (off + length r)"
      using positioned_reads_some [OF assms(1), of n off] by force
    have "n - length r < n" using r(2) False by (cases r) auto
    then have "file_read_exact_at read_at (off + length r) (n - length r)
        = Ok (slice contents (off + length r) (off + length r + (n - length r)))"
      using r less.prems by (intro less.IH) auto
    moreover have "off + length r < u64_end" using r(4) assms(2) isize_u64 [of "length contents"] by simp
    ultimately have "file_read_exact_at read_at off n = Ok (r @ slice contents (off + length r) (off + n))"
      using r False by (simp add: file_read_step [of n read_at off r])
    also have "r @ slice contents (off + length r) (off + n) = slice contents off (off + n)"
      using slice_append_self [of off "off + length r" "off + n" contents] r(3,5) by simp
    finally show ?thesis .
  qed
qed

lemma file_read_outside:
  assumes "positioned_reads read_at contents" and "length contents < isize_end"
    and "length contents < off + n" and "0 < n" and "off + n < u64_end"
  shows "file_read_exact_at read_at off n = Err KindUnexpectedEof"
  using assms(3-)
proof (induction n arbitrary: off rule: less_induct)
  case (less n)
  show ?case
  proof (cases "off < length contents")
    case True
    with less.prems obtain r where r: "read_at off n = Ok r" "r \<noteq> []" "length r \<le> n" "off + length r \<le> length contents"
      using positioned_reads_some [OF assms(1), of n off] by blast
    have "n - length r < n" using r(2) less.prems by (cases r) auto
    moreover have "0 < n - length r" using r less.prems by linarith
    ultimately have "file_read_exact_at read_at (off + length r) (n - length r) = Err KindUnexpectedEof"
      using r less.prems by (intro less.IH) auto
    then show ?thesis using less.prems r by (simp add: file_read_step [of n read_at off r])
  next
    case False
    then have "read_at off n = Ok []" using assms(1) by (auto simp: positioned_reads_def)
    then show ?thesis using less.prems by (subst file_read_exact_at.simps) simp
  qed
qed

lemma file_byte_source:
  "positioned_reads read_at contents \<Longrightarrow> byte_source (file_read_exact_at read_at) contents"
  by unfold_locales (simp_all add: file_read_inside file_read_outside)

section \<open>Properties\<close>

text \<open>
  C34: reading a range in full and hashing it in 64 KiB pieces. For a file whose positioned
  reads may be short, every range inside the file is read exactly, every range past its end
  is the end-of-file error, and the digest of a range computed piece by piece is the BLAKE3
  digest of the bytes of that range.
\<close>

theorem positioned_range_exact:
  assumes "positioned_reads read_at contents" and "length contents < isize_end" and "blake3_documented X"
  shows "(off + n \<le> length contents \<longrightarrow>
       file_read_exact_at read_at off n = Ok (slice contents off (off + n)) \<and>
       (\<exists>h. hash_read_at_range X (file_read_exact_at read_at) off n = Ok h \<and>
          hasher_finalize X h = blake3_hash X (slice contents off (off + n)))) \<and>
     (length contents < off + n \<and> 0 < n \<and> off + n < u64_end \<longrightarrow>
       file_read_exact_at read_at off n = Err KindUnexpectedEof)"
  using byte_source.hash_range [OF file_byte_source [OF assms(1)] assms(2,3)]
    file_read_inside [OF assms(1,2)] file_read_outside [OF assms(1,2)]
  by blast

text \<open>A file that gives at most three bytes at a time.\<close>

definition short_reads :: "bytes \<Rightarrow> reader" where
  "short_reads contents off n = Ok (take (min n 3) (drop off contents))"

lemma short_reads_positioned: "positioned_reads (short_reads contents) contents"
proof -
  have "\<exists>k. 0 < k \<and> k \<le> n \<and> off + k \<le> length contents \<and> short_reads contents off n = Ok (slice contents off (off + k))"
    if "0 < n" "off < length contents" for off n
    using that by (intro exI [of _ "min (min n 3) (length contents - off)"]) (auto simp: short_reads_def slice_def min_def)
  then show ?thesis by (auto simp: positioned_reads_def short_reads_def)
qed

theorem positioned_range_exact_witness:
  "file_read_exact_at (short_reads [1, 2, 3, 4, 5, 6, 7, 8]) 1 5 = Ok [2, 3, 4, 5, 6] \<and>
   file_read_exact_at (short_reads [1, 2, 3, 4, 5, 6, 7, 8]) 5 9 = Err KindUnexpectedEof"
  using positioned_range_exact [OF short_reads_positioned [of "[1, 2, 3, 4, 5, 6, 7, 8]"] _ toy_blake3, of 1 5]
    positioned_range_exact [OF short_reads_positioned [of "[1, 2, 3, 4, 5, 6, 7, 8]"] _ toy_blake3, of 5 9]
  by (simp add: isize_end_def u64_end_def slice_def)

end
