(* ===== verification/Fixed.thy ===== *)
theory Fixed
  imports Fixed_Codec "HOL-Library.Product_Lexorder" "HOL-Library.Multiset"
begin

text \<open>
  The fixed structures of a container (src/src/fixed.rs, with the constants of
  src/src/format.rs): the 128-byte header, the 64-byte footer trailer, and the check that the
  physical ranges a container declares lie inside the file and are disjoint. An array field
  \<open>[u8; N]\<close> is a byte list, whose length is part of the well-formedness of the record, as are
  the widths of the integer fields.
\<close>

definition MAGIC :: bytes where
  "MAGIC = [0x51, 0x5A, 0x54, 0x00, 0x54, 0x58, 0x54, 0x31]"

definition TRAILER_MAGIC :: bytes where
  "TRAILER_MAGIC = [0x51, 0x5A, 0x54, 0x54, 0x41, 0x49, 0x4C, 0x31]"

definition MAJOR_VERSION :: u16 where
  "MAJOR_VERSION = 0"

definition MINOR_VERSION :: u16 where
  "MINOR_VERSION = 1"

definition HEADER_LEN :: usize where
  "HEADER_LEN = 128"

definition FOOTER_TRAILER_LEN :: usize where
  "FOOTER_TRAILER_LEN = 64"

section \<open>Prologue\<close>

definition decode_fixed_prologue ::
  "bytes \<Rightarrow> bytes \<Rightarrow> usize \<Rightarrow> QztError \<Rightarrow> QztError \<Rightarrow> unit result"
where
  "decode_fixed_prologue bs expected_magic expected_length length_error magic_error =
     (if slice bs 0 8 \<noteq> expected_magic then Err magic_error
      else
        rbind (read_u16_le (slice bs 8 10)) (\<lambda>major.
        rbind (read_u16_le (slice bs 10 12)) (\<lambda>minor.
        if major \<noteq> MAJOR_VERSION \<or> minor \<noteq> MINOR_VERSION then Err UnsupportedVersion
        else
          rbind (read_u32_le (slice bs 12 16)) (\<lambda>header_length.
          rbind (if expected_length < u32_end then Ok expected_length else Err length_error)
            (\<lambda>expected_len.
          if header_length \<noteq> expected_len then Err length_error else Ok ())))))"

definition encode_fixed_prologue :: "bytes \<Rightarrow> u32 \<Rightarrow> bytes \<Rightarrow> bytes" where
  "encode_fixed_prologue magic len =
     copy_at 12 (le_bytes 4 len) \<circ> copy_at 10 (le_bytes 2 MINOR_VERSION) \<circ>
     copy_at 8 (le_bytes 2 MAJOR_VERSION) \<circ> copy_at 0 magic"

section \<open>Header\<close>

record Header =
  metadata_offset :: u64
  metadata_size :: u64
  index_hint_offset :: u64
  h_container_id :: bytes

definition Header_decode :: "bytes \<Rightarrow> Header result" where
  "Header_decode bs =
     (if length bs \<noteq> HEADER_LEN then Err InvalidHeader
      else
        rbind (decode_fixed_prologue bs MAGIC HEADER_LEN InvalidHeader InvalidMagic) (\<lambda>_.
        rbind (read_u64_le (slice bs 16 24)) (\<lambda>header_flags.
        if header_flags \<noteq> 0 then Err InvalidFlags
        else if \<exists>byte \<in> set (slice bs 64 128). byte \<noteq> 0 then Err InvalidHeader
        else
          rbind (read_u64_le (slice bs 24 32)) (\<lambda>mo.
          rbind (read_u64_le (slice bs 32 40)) (\<lambda>ms.
          rbind (read_u64_le (slice bs 40 48)) (\<lambda>ih.
          Ok \<lparr>metadata_offset = mo, metadata_size = ms, index_hint_offset = ih,
              h_container_id = slice bs 48 64\<rparr>))))))"

definition Header_encode :: "Header \<Rightarrow> bytes" where
  "Header_encode self =
     (let bs = replicate HEADER_LEN 0;
          bs = encode_fixed_prologue MAGIC HEADER_LEN bs;
          bs = copy_at 24 (le_bytes 8 (metadata_offset self)) bs;
          bs = copy_at 32 (le_bytes 8 (metadata_size self)) bs;
          bs = copy_at 40 (le_bytes 8 (index_hint_offset self)) bs
      in copy_at 48 (h_container_id self) bs)"

definition Header_wf :: "Header \<Rightarrow> bool" where
  "Header_wf h \<longleftrightarrow> metadata_offset h < u64_end \<and> metadata_size h < u64_end \<and>
     index_hint_offset h < u64_end \<and> length (h_container_id h) = 16"

section \<open>Footer trailer\<close>

record FooterTrailer =
  footer_payload_offset :: u64
  footer_payload_size :: u64
  footer_payload_checksum_blake3 :: bytes

definition FooterTrailer_decode :: "bytes \<Rightarrow> FooterTrailer result" where
  "FooterTrailer_decode bs =
     (if length bs \<noteq> FOOTER_TRAILER_LEN then Err InvalidFooterTrailer
      else
        rbind (decode_fixed_prologue bs TRAILER_MAGIC FOOTER_TRAILER_LEN
                 InvalidFooterTrailer InvalidFooterTrailer) (\<lambda>_.
        rbind (read_u64_le (slice bs 16 24)) (\<lambda>po.
        rbind (read_u64_le (slice bs 24 32)) (\<lambda>ps.
        Ok \<lparr>footer_payload_offset = po, footer_payload_size = ps,
            footer_payload_checksum_blake3 = slice bs 32 64\<rparr>))))"

definition FooterTrailer_encode :: "FooterTrailer \<Rightarrow> bytes" where
  "FooterTrailer_encode self =
     (let bs = replicate FOOTER_TRAILER_LEN 0;
          bs = encode_fixed_prologue TRAILER_MAGIC FOOTER_TRAILER_LEN bs;
          bs = copy_at 16 (le_bytes 8 (footer_payload_offset self)) bs;
          bs = copy_at 24 (le_bytes 8 (footer_payload_size self)) bs
      in copy_at 32 (footer_payload_checksum_blake3 self) bs)"

definition FooterTrailer_wf :: "FooterTrailer \<Rightarrow> bool" where
  "FooterTrailer_wf t \<longleftrightarrow> footer_payload_offset t < u64_end \<and> footer_payload_size t < u64_end \<and>
     length (footer_payload_checksum_blake3 t) = 32"

section \<open>Physical ranges\<close>

record PhysicalRange =
  pr_offset :: u64
  pr_size :: u64

definition PhysicalRange_new :: "u64 \<Rightarrow> u64 \<Rightarrow> PhysicalRange" where
  "PhysicalRange_new off sz = \<lparr>pr_offset = off, pr_size = sz\<rparr>"

definition PhysicalRange_end :: "PhysicalRange \<Rightarrow> u64 result" where
  "PhysicalRange_end self = checked_physical_end (pr_offset self) (pr_size self)"

definition is_inside_file :: "PhysicalRange \<Rightarrow> u64 \<Rightarrow> bool result" where
  "is_inside_file self final_file_size =
     rbind (PhysicalRange_end self) (\<lambda>e. Ok (e \<le> final_file_size))"

definition overlaps :: "PhysicalRange \<Rightarrow> PhysicalRange \<Rightarrow> bool result" where
  "overlaps self other =
     rbind (PhysicalRange_end self) (\<lambda>self_end.
     rbind (PhysicalRange_end other) (\<lambda>other_end.
     Ok (pr_offset self < other_end \<and> pr_offset other < self_end)))"

definition check_range :: "u64 \<Rightarrow> PhysicalRange \<Rightarrow> unit result" where
  "check_range final_file_size rng =
     (let header = PhysicalRange_new 0 HEADER_LEN;
          footer_trailer =
            PhysicalRange_new (final_file_size - FOOTER_TRAILER_LEN) FOOTER_TRAILER_LEN in
      rbind (is_inside_file rng final_file_size) (\<lambda>inside.
      if \<not> inside then Err PhysicalRangeOutOfBounds
      else
        rbind (overlaps rng header) (\<lambda>oh.
        if oh then Err RangeOverlap
        else
          rbind (overlaps rng footer_trailer) (\<lambda>ot.
          if ot then Err RangeOverlap else Ok ()))))"

fun check_adjacent :: "PhysicalRange list \<Rightarrow> unit result" where
  "check_adjacent (r # s # rs) =
     rbind (overlaps r s) (\<lambda>o1. if o1 then Err RangeOverlap else check_adjacent (s # rs))"
| "check_adjacent _ = Ok ()"

definition validate_physical_ranges :: "u64 \<Rightarrow> PhysicalRange list \<Rightarrow> unit result" where
  "validate_physical_ranges final_file_size ranges =
     (if final_file_size < HEADER_LEN + FOOTER_TRAILER_LEN then Err InvalidFooterTrailer
      else
        rbind (rfold (\<lambda>_ rng. check_range final_file_size rng) () ranges) (\<lambda>_.
        check_adjacent (sort_key (\<lambda>rng. (pr_offset rng, pr_size rng)) ranges)))"

section \<open>Layout of the fixed structures\<close>

lemmas fixed_consts = MAGIC_def TRAILER_MAGIC_def MAJOR_VERSION_def MINOR_VERSION_def HEADER_LEN_def
  FOOTER_TRAILER_LEN_def

lemma length_MAGIC [simp]: "length MAGIC = 8" "length TRAILER_MAGIC = 8"
  by (simp_all add: fixed_consts)

lemma prologue_layout:
  assumes "length magic = 8" and "16 \<le> n"
  shows "encode_fixed_prologue magic len (replicate n 0) =
     magic @ le_bytes 2 MAJOR_VERSION @ le_bytes 2 MINOR_VERSION @ le_bytes 4 len @ replicate (n - 16) 0"
  using assms by (simp add: encode_fixed_prologue_def slice_simps)

lemma zeros_split: "m + k = n \<Longrightarrow> replicate n (0 :: u8) = replicate m 0 @ replicate k 0"
  by (metis replicate_add)

lemma le_bytes_0: "le_bytes n 0 = replicate n 0"
  by (induction n) auto

lemma Header_layout:
  assumes "Header_wf h"
  shows "Header_encode h = MAGIC @ le_bytes 2 MAJOR_VERSION @ le_bytes 2 MINOR_VERSION @
     le_bytes 4 HEADER_LEN @ le_bytes 8 0 @ le_bytes 8 (metadata_offset h) @ le_bytes 8 (metadata_size h) @
     le_bytes 8 (index_hint_offset h) @ h_container_id h @ replicate 64 0"
proof -
  have z: "replicate 112 (0 :: u8) = le_bytes 8 0 @ replicate 104 0"
    unfolding le_bytes_0 by (rule zeros_split) simp
  have "encode_fixed_prologue MAGIC HEADER_LEN (replicate HEADER_LEN 0) =
      MAGIC @ le_bytes 2 MAJOR_VERSION @ le_bytes 2 MINOR_VERSION @ le_bytes 4 HEADER_LEN @
      le_bytes 8 0 @ replicate 104 0"
    by (simp add: prologue_layout HEADER_LEN_def z)
  then show ?thesis using assms
    by (simp add: Header_encode_def Header_wf_def slice_simps)
qed

lemma FooterTrailer_layout:
  assumes "FooterTrailer_wf t"
  shows "FooterTrailer_encode t = TRAILER_MAGIC @ le_bytes 2 MAJOR_VERSION @ le_bytes 2 MINOR_VERSION @
     le_bytes 4 FOOTER_TRAILER_LEN @ le_bytes 8 (footer_payload_offset t) @
     le_bytes 8 (footer_payload_size t) @ footer_payload_checksum_blake3 t"
  using assms
  by (simp add: FooterTrailer_encode_def FooterTrailer_wf_def prologue_layout FOOTER_TRAILER_LEN_def slice_simps)

lemma prologue_Ok_iff:
  assumes "expected_length < u32_end" and "16 \<le> length bs"
  shows "decode_fixed_prologue bs magic expected_length le me = Ok () \<longleftrightarrow>
     slice bs 0 8 = magic \<and> slice bs 8 10 = le_bytes 2 MAJOR_VERSION \<and>
     slice bs 10 12 = le_bytes 2 MINOR_VERSION \<and> slice bs 12 16 = le_bytes 4 expected_length"
proof -
  have r2: "read_u16_le cs = Ok v \<longleftrightarrow> length cs = 2 \<and> v = le_val cs" for cs v
    by (auto simp: read_u16_le_def)
  have v2: "le_val cs = v \<longleftrightarrow> cs = le_bytes 2 v" if "length cs = 2" "v < 65536" for cs v
    using le_bytes_le_val [of cs] le_val_le_bytes [of v 2] that by auto
  show ?thesis
    using assms
    by (auto simp: decode_fixed_prologue_def rbind_Ok_iff r2 read_u32_le_Ok_iff result_simps v2
        MAJOR_VERSION_def MINOR_VERSION_def)
qed

lemma fields_of:
  "drop a bs = slice bs a b @ drop b bs" if "a \<le> b" for bs :: bytes
  using eq_append_slice [OF refl refl that] .

lemma Header_decode_sound:
  assumes "Header_decode bs = Ok h"
  shows "Header_wf h \<and> Header_encode h = bs"
proof -
  have len: "length bs = 128" and pro: "decode_fixed_prologue bs MAGIC HEADER_LEN InvalidHeader InvalidMagic = Ok ()"
    and fl: "read_u64_le (slice bs 16 24) = Ok 0" and z: "\<forall>byte \<in> set (slice bs 64 128). byte = 0"
    and mo: "read_u64_le (slice bs 24 32) = Ok (metadata_offset h)"
    and ms: "read_u64_le (slice bs 32 40) = Ok (metadata_size h)"
    and ih: "read_u64_le (slice bs 40 48) = Ok (index_hint_offset h)"
    and cid: "slice bs 48 64 = h_container_id h"
    using assms by (auto simp: Header_decode_def HEADER_LEN_def rbind_Ok_iff split: if_splits)
  have wf: "Header_wf h"
    using mo ms ih cid [symmetric] len by (simp add: Header_wf_def read_u64_le_Ok_iff)
  have "slice bs 64 128 = replicate 64 0"
    using z len by (intro replicate_eqI) auto
  moreover have "drop 128 bs = []" using len by simp
  ultimately have "drop 64 bs = replicate 64 0" using fields_of [of 64 128 bs] by simp
  moreover have "16 \<le> length bs" "HEADER_LEN < u32_end" using len by (simp_all add: HEADER_LEN_def u32_end_def)
  ultimately have "drop 0 bs = Header_encode h"
    using pro fl mo ms ih cid unfolding Header_layout [OF wf]
    by (simp only: prologue_Ok_iff read_u64_le_Ok_iff fields_of [of 0 8] fields_of [of 8 10]
        fields_of [of 10 12] fields_of [of 12 16] fields_of [of 16 24] fields_of [of 24 32]
        fields_of [of 32 40] fields_of [of 40 48] fields_of [of 48 64])
  with wf show ?thesis by simp
qed

lemma Header_decode_encode:
  assumes "Header_wf h"
  shows "Header_decode (Header_encode h) = Ok h"
proof -
  have len: "length (Header_encode h) = 128"
    using assms by (simp add: Header_layout Header_wf_def)
  have "decode_fixed_prologue (Header_encode h) MAGIC HEADER_LEN InvalidHeader InvalidMagic = Ok ()"
    using assms len by (subst prologue_Ok_iff) (simp_all add: Header_layout slice_simps HEADER_LEN_def u32_end_def)
  with assms len show ?thesis
    by (simp add: Header_decode_def HEADER_LEN_def)
       (simp add: Header_layout slice_simps Header_wf_def read_u64_le_bytes u64_end_def)
qed

lemma FooterTrailer_decode_sound:
  assumes "FooterTrailer_decode bs = Ok t"
  shows "FooterTrailer_wf t \<and> FooterTrailer_encode t = bs"
proof -
  have len: "length bs = 64"
    and pro: "decode_fixed_prologue bs TRAILER_MAGIC FOOTER_TRAILER_LEN InvalidFooterTrailer InvalidFooterTrailer = Ok ()"
    and po: "read_u64_le (slice bs 16 24) = Ok (footer_payload_offset t)"
    and ps: "read_u64_le (slice bs 24 32) = Ok (footer_payload_size t)"
    and ck: "slice bs 32 64 = footer_payload_checksum_blake3 t"
    using assms by (auto simp: FooterTrailer_decode_def FOOTER_TRAILER_LEN_def rbind_Ok_iff split: if_splits)
  have wf: "FooterTrailer_wf t"
    using po ps ck [symmetric] len by (simp add: FooterTrailer_wf_def read_u64_le_Ok_iff)
  have "drop 64 bs = []" "16 \<le> length bs" "FOOTER_TRAILER_LEN < u32_end"
    using len by (simp_all add: FOOTER_TRAILER_LEN_def u32_end_def)
  then have "drop 0 bs = FooterTrailer_encode t"
    using pro po ps ck unfolding FooterTrailer_layout [OF wf]
    by (simp only: prologue_Ok_iff read_u64_le_Ok_iff fields_of [of 0 8] fields_of [of 8 10]
        fields_of [of 10 12] fields_of [of 12 16] fields_of [of 16 24] fields_of [of 24 32]
        fields_of [of 32 64]) simp
  with wf show ?thesis by simp
qed

lemma FooterTrailer_decode_encode:
  assumes "FooterTrailer_wf t"
  shows "FooterTrailer_decode (FooterTrailer_encode t) = Ok t"
proof -
  have len: "length (FooterTrailer_encode t) = 64"
    using assms by (simp add: FooterTrailer_layout FooterTrailer_wf_def)
  have "decode_fixed_prologue (FooterTrailer_encode t) TRAILER_MAGIC FOOTER_TRAILER_LEN
      InvalidFooterTrailer InvalidFooterTrailer = Ok ()"
    using assms len
    by (subst prologue_Ok_iff) (simp_all add: FooterTrailer_layout slice_simps FOOTER_TRAILER_LEN_def u32_end_def)
  with assms len show ?thesis
    by (simp add: FooterTrailer_decode_def FOOTER_TRAILER_LEN_def)
       (simp add: FooterTrailer_layout slice_simps FooterTrailer_wf_def read_u64_le_bytes u64_end_def)
qed

interpretation header: fixed_codec HEADER_LEN Header_wf Header_encode Header_decode
proof unfold_locales
  show "length (Header_encode h) = HEADER_LEN" if "Header_wf h" for h
    using that by (simp add: Header_layout Header_wf_def HEADER_LEN_def)
qed (simp_all add: HEADER_LEN_def Header_decode_encode Header_decode_sound)

interpretation trailer: fixed_codec FOOTER_TRAILER_LEN FooterTrailer_wf FooterTrailer_encode FooterTrailer_decode
proof unfold_locales
  show "length (FooterTrailer_encode t) = FOOTER_TRAILER_LEN" if "FooterTrailer_wf t" for t
    using that by (simp add: FooterTrailer_layout FooterTrailer_wf_def FOOTER_TRAILER_LEN_def)
qed (simp_all add: FOOTER_TRAILER_LEN_def FooterTrailer_decode_encode FooterTrailer_decode_sound)

section \<open>Disjointness of physical ranges\<close>

text \<open>The range ends before the other begins, or the other way round.\<close>

definition separated :: "PhysicalRange \<Rightarrow> PhysicalRange \<Rightarrow> bool" where
  "separated r s \<longleftrightarrow> pr_offset r + pr_size r \<le> pr_offset s \<or> pr_offset s + pr_size s \<le> pr_offset r"

abbreviation in_width :: "PhysicalRange \<Rightarrow> bool" where
  "in_width r \<equiv> pr_offset r + pr_size r < u64_end"

lemma overlaps_eq: "in_width r \<Longrightarrow> in_width s \<Longrightarrow> overlaps r s = Ok (\<not> separated r s)"
  by (auto simp: overlaps_def PhysicalRange_end_def separated_def)

lemma check_range_Ok_iff:
  assumes "HEADER_LEN + FOOTER_TRAILER_LEN \<le> n" and "n < u64_end"
  shows "check_range n r = Ok () \<longleftrightarrow> pr_offset r + pr_size r \<le> n \<and>
     separated r (PhysicalRange_new 0 HEADER_LEN) \<and>
     separated r (PhysicalRange_new (n - FOOTER_TRAILER_LEN) FOOTER_TRAILER_LEN)"
  using assms
  by (auto simp: check_range_def Let_def rbind_Ok_iff is_inside_file_def overlaps_def PhysicalRange_end_def
      PhysicalRange_new_def separated_def width_simps HEADER_LEN_def FOOTER_TRAILER_LEN_def split: if_splits)

lemma rfold_unit_Ok_iff: "rfold (\<lambda>_ x. f x) () xs = Ok () \<longleftrightarrow> (\<forall>x \<in> set xs. f x = Ok ())"
  by (induction xs) (auto simp: rbind_Ok_iff)

lemma separated_ordered:
  "(pr_offset r, pr_size r) \<le> (pr_offset s, pr_size s) \<Longrightarrow>
   separated r s \<longleftrightarrow> pr_offset r + pr_size r \<le> pr_offset s"
  by (auto simp: separated_def less_eq_prod_def less_prod_def)

lemma sorted_wrt_separated:
  assumes "sorted (map (\<lambda>r. (pr_offset r, pr_size r)) rs)"
  shows "sorted_wrt (\<lambda>r s. pr_offset r + pr_size r \<le> pr_offset s) rs \<longleftrightarrow> sorted_wrt separated rs"
  using assms by (induction rs) (auto simp: separated_ordered)

lemma check_adjacent_sorted:
  assumes "sorted (map (\<lambda>r. (pr_offset r, pr_size r)) rs)" and "\<forall>r \<in> set rs. in_width r"
  shows "check_adjacent rs = Ok () \<longleftrightarrow> sorted_wrt (\<lambda>r s. pr_offset r + pr_size r \<le> pr_offset s) rs"
  using assms
proof (induction rs)
  case (Cons r rs)
  show ?case
  proof (cases rs)
    case (Cons s rest)
    have "separated r s \<longleftrightarrow> pr_offset r + pr_size r \<le> pr_offset s"
      using Cons.prems(1) by (simp add: Cons separated_ordered)
    moreover have "sorted_wrt (\<lambda>r s. pr_offset r + pr_size r \<le> pr_offset s) (r # rs) \<longleftrightarrow>
        pr_offset r + pr_size r \<le> pr_offset s \<and> sorted_wrt (\<lambda>r s. pr_offset r + pr_size r \<le> pr_offset s) rs"
      by (fastforce simp: Cons)
    ultimately show ?thesis using Cons.prems Cons.IH by (simp add: Cons overlaps_eq)
  qed simp
qed simp

lemma separated_sym: "separated r s \<longleftrightarrow> separated s r"
  by (auto simp: separated_def)

text \<open>For a symmetric relation the order of the list does not matter.\<close>

lemma sorted_wrt_sym_perm:
  assumes "mset xs = mset ys" and "\<And>x y. R x y \<longleftrightarrow> R y x"
  shows "sorted_wrt R xs \<longleftrightarrow> sorted_wrt R ys"
proof -
  have imp: "sorted_wrt R us" if "mset us = mset vs" "sorted_wrt R vs" for us vs
    using that
  proof (induction us arbitrary: vs)
    case (Cons u us)
    then have "u \<in> set vs" by (metis list.set_intros(1) set_mset_mset)
    then obtain ps qs where vs: "vs = ps @ u # qs" by (meson split_list)
    then have m: "mset us = mset (ps @ qs)" using Cons.prems(1) by simp
    moreover have "sorted_wrt R (ps @ qs)" using Cons.prems(2) by (simp add: vs sorted_wrt_append)
    ultimately have "sorted_wrt R us" by (rule Cons.IH)
    moreover have "\<forall>w \<in> set us. R u w"
    proof
      fix w assume "w \<in> set us"
      then have "w \<in> set ps \<union> set qs" using m by (metis set_append set_mset_mset)
      then show "R u w" using Cons.prems(2) assms(2) by (auto simp: vs sorted_wrt_append)
    qed
    ultimately show ?case by simp
  qed simp
  show ?thesis using imp assms(1) by metis
qed

lemma validate_physical_ranges_Ok_iff:
  assumes "n < u64_end"
  shows "validate_physical_ranges n rs = Ok () \<longleftrightarrow>
     HEADER_LEN + FOOTER_TRAILER_LEN \<le> n \<and>
     (\<forall>r \<in> set rs. pr_offset r + pr_size r \<le> n \<and> separated r (PhysicalRange_new 0 HEADER_LEN) \<and>
        separated r (PhysicalRange_new (n - FOOTER_TRAILER_LEN) FOOTER_TRAILER_LEN)) \<and>
     sorted_wrt separated rs"
proof (cases "HEADER_LEN + FOOTER_TRAILER_LEN \<le> n")
  case True
  let ?srt = "sort_key (\<lambda>r. (pr_offset r, pr_size r)) rs"
  have "check_adjacent ?srt = Ok () \<longleftrightarrow> sorted_wrt separated rs" if "\<forall>r \<in> set rs. pr_offset r + pr_size r \<le> n"
    using that assms
    by (subst check_adjacent_sorted; force simp: sorted_wrt_separated
        intro!: sorted_wrt_sym_perm separated_sym)
  then show ?thesis
    using True check_range_Ok_iff [OF True assms]
    by (auto simp: validate_physical_ranges_def rbind_Ok_iff rfold_unit_Ok_iff)
qed (simp add: validate_physical_ranges_def)

section \<open>Properties\<close>

text \<open>
  C39: the header is a fixed-width bijective code. A byte string decodes to a header if and
  only if the header is well formed and the byte string is its encoding; so decoding
  accepts no header with a wrong magic, version, length, flag or reserved byte, and loses
  no field.
\<close>

theorem Header_decode_iff: "Header_decode bs = Ok h \<longleftrightarrow> Header_wf h \<and> bs = Header_encode h"
  by (rule header.decode_Ok_iff)

text \<open>
  The footer trailer is a fixed-width bijective code in the same sense.
\<close>

theorem FooterTrailer_decode_iff:
  "FooterTrailer_decode bs = Ok t \<longleftrightarrow> FooterTrailer_wf t \<and> bs = FooterTrailer_encode t"
  by (rule trailer.decode_Ok_iff)

text \<open>
  C24: the physical range check is exact. For a file size that fits 64 bits the check passes
  if and only if the file has room for header and trailer, every range ends inside the
  file, no range meets the header or the trailer, and any two ranges at different positions
  of the list are disjoint (the check itself only compares neighbours in sorted order).
\<close>

theorem validate_physical_ranges_exact:
  assumes "n < u64_end"
  shows "validate_physical_ranges n rs = Ok () \<longleftrightarrow>
     192 \<le> n \<and>
     (\<forall>r \<in> set rs. pr_offset r + pr_size r \<le> n \<and>
        (pr_offset r + pr_size r = 0 \<or> 128 \<le> pr_offset r) \<and>
        (pr_offset r + pr_size r \<le> n - 64 \<or> n \<le> pr_offset r)) \<and>
     (\<forall>j < length rs. \<forall>i < j.
        pr_offset (rs ! i) + pr_size (rs ! i) \<le> pr_offset (rs ! j) \<or>
        pr_offset (rs ! j) + pr_size (rs ! j) \<le> pr_offset (rs ! i))"
  unfolding validate_physical_ranges_Ok_iff [OF assms] sorted_wrt_iff_nth_less separated_def
  by (auto simp: PhysicalRange_new_def HEADER_LEN_def FOOTER_TRAILER_LEN_def)

theorem validate_physical_ranges_exact_witness:
  "validate_physical_ranges 300 [\<lparr>pr_offset = 200, pr_size = 36\<rparr>, \<lparr>pr_offset = 128, pr_size = 72\<rparr>] = Ok () \<and>
   validate_physical_ranges 300 [\<lparr>pr_offset = 199, pr_size = 36\<rparr>, \<lparr>pr_offset = 128, pr_size = 72\<rparr>] \<noteq> Ok ()"
proof -
  have "(300 :: nat) < u64_end" by (simp add: u64_end_def)
  note ex = validate_physical_ranges_exact [OF this]
  have "validate_physical_ranges 300 [\<lparr>pr_offset = 200, pr_size = 36\<rparr>, \<lparr>pr_offset = 128, pr_size = 72\<rparr>] = Ok ()"
    unfolding ex by (auto simp: less_Suc_eq)
  moreover have "validate_physical_ranges 300 [\<lparr>pr_offset = 199, pr_size = 36\<rparr>, \<lparr>pr_offset = 128, pr_size = 72\<rparr>] \<noteq> Ok ()"
    unfolding ex by (auto intro!: exI [of _ 1] simp: less_Suc_eq)
  ultimately show ?thesis ..
qed

end
