(* ===== verification/Utf8.thy ===== *)
theory Utf8
  imports Primitives
begin

text \<open>
  The UTF-8 validity test of the Rust standard library (\<open>std::str::from_utf8\<close>), which the
  chunker, the CBOR reader and the verifier call: a byte sequence is valid when it is a
  concatenation of well-formed encodings of Unicode scalar values (no overlong form, no
  surrogate, nothing above U+10FFFF). \<open>utf8_len\<close> gives the length of the well-formed
  scalar at the head of the input, and 0 when there is none.
\<close>

definition is_cont :: "u8 \<Rightarrow> bool" where
  "is_cont b \<longleftrightarrow> 0x80 \<le> b \<and> b \<le> 0xBF"

definition utf8_len2 :: "u8 \<Rightarrow> u8 \<Rightarrow> bool" where
  "utf8_len2 b0 b1 \<longleftrightarrow> 0xC2 \<le> b0 \<and> b0 \<le> 0xDF \<and> is_cont b1"

definition utf8_len3 :: "u8 \<Rightarrow> u8 \<Rightarrow> u8 \<Rightarrow> bool" where
  "utf8_len3 b0 b1 b2 \<longleftrightarrow>
     0xE0 \<le> b0 \<and> b0 \<le> 0xEF \<and> is_cont b1 \<and> is_cont b2 \<and>
     (b0 = 0xE0 \<longrightarrow> 0xA0 \<le> b1) \<and> (b0 = 0xED \<longrightarrow> b1 \<le> 0x9F)"

definition utf8_len4 :: "u8 \<Rightarrow> u8 \<Rightarrow> u8 \<Rightarrow> u8 \<Rightarrow> bool" where
  "utf8_len4 b0 b1 b2 b3 \<longleftrightarrow>
     0xF0 \<le> b0 \<and> b0 \<le> 0xF4 \<and> is_cont b1 \<and> is_cont b2 \<and> is_cont b3 \<and>
     (b0 = 0xF0 \<longrightarrow> 0x90 \<le> b1) \<and> (b0 = 0xF4 \<longrightarrow> b1 \<le> 0x8F)"

fun utf8_len :: "bytes \<Rightarrow> nat" where
  "utf8_len [] = 0"
| "utf8_len (b0 # bs) =
     (if b0 < 0x80 then 1
      else if 1 \<le> length bs \<and> utf8_len2 b0 (bs ! 0) then 2
      else if 2 \<le> length bs \<and> utf8_len3 b0 (bs ! 0) (bs ! 1) then 3
      else if 3 \<le> length bs \<and> utf8_len4 b0 (bs ! 0) (bs ! 1) (bs ! 2) then 4
      else 0)"

function valid_utf8 :: "bytes \<Rightarrow> bool" where
  "valid_utf8 bs =
     (if bs = [] then True
      else if utf8_len bs = 0 then False
      else valid_utf8 (drop (utf8_len bs) bs))"
  by pat_completeness auto
termination
  by (relation "measure length") auto

declare valid_utf8.simps [simp del]

definition from_utf8 :: "bytes \<Rightarrow> string option" where
  "from_utf8 bs = (if valid_utf8 bs then Some (string_of_bytes bs) else None)"

section \<open>Lemmas\<close>

lemma valid_utf8_Nil [simp]: "valid_utf8 []"
  by (simp add: valid_utf8.simps)

lemma utf8_len_le: "utf8_len bs \<le> length bs"
  by (cases bs) auto

lemma utf8_len_le4: "utf8_len bs \<le> 4"
  by (cases bs) auto

lemma utf8_len_take:
  assumes "0 < utf8_len bs" and "utf8_len bs \<le> i"
  shows "utf8_len (take i bs) = utf8_len bs"
proof (cases bs)
  case Nil
  then show ?thesis by simp
next
  case (Cons b0 rest)
  from assms obtain j where j: "i = Suc j" by (cases i) auto
  show ?thesis
    using assms unfolding Cons j by (auto split: if_splits)
qed

lemma utf8_len_append:
  assumes "0 < utf8_len bs"
  shows "utf8_len (bs @ cs) = utf8_len bs"
  using assms by (cases bs) (auto simp: nth_append split: if_splits)

text \<open>Inside a scalar there are only continuation bytes; a scalar never starts with one.\<close>

lemma utf8_len_cont:
  assumes "0 < i" and "i < utf8_len bs"
  shows "is_cont (bs ! i)"
proof (cases bs)
  case (Cons b0 rest)
  have "i = 1 \<or> i = 2 \<or> i = 3"
    using assms utf8_len_le4 [of bs] by linarith
  with assms show ?thesis
    unfolding Cons
    by (auto simp: utf8_len2_def utf8_len3_def utf8_len4_def numeral_2_eq_2 numeral_3_eq_3
             split: if_splits)
qed (use assms in simp)

lemma utf8_len_head:
  assumes "0 < utf8_len bs"
  shows "\<not> is_cont (hd bs)"
  using assms
  by (cases bs)
     (auto simp: is_cont_def utf8_len2_def utf8_len3_def utf8_len4_def word_le_nat_alt
        word_less_nat_alt split: if_splits)

lemma utf8_len_multi:
  assumes "1 < utf8_len bs"
  shows "0xC2 \<le> hd bs"
  using assms
  by (cases bs)
     (auto simp: utf8_len2_def utf8_len3_def utf8_len4_def word_le_nat_alt split: if_splits)

lemma valid_utf8_append: "valid_utf8 bs \<Longrightarrow> valid_utf8 cs \<Longrightarrow> valid_utf8 (bs @ cs)"
proof (induction bs rule: valid_utf8.induct)
  case (1 bs)
  show ?case
  proof (cases "bs = []")
    case True
    with "1.prems" show ?thesis by simp
  next
    case False
    with "1.prems"(1) have k: "0 < utf8_len bs" and v: "valid_utf8 (drop (utf8_len bs) bs)"
      by (auto simp: valid_utf8.simps [of bs] split: if_splits)
    have "valid_utf8 (drop (utf8_len bs) bs @ cs)"
      using "1.IH" False k v "1.prems"(2) by simp
    then show ?thesis
      using False k utf8_len_le [of bs]
      by (simp add: valid_utf8.simps [of "bs @ cs"] utf8_len_append)
  qed
qed

text \<open>
  A valid sequence cut at an index that does not hold a continuation byte has two valid
  parts.
\<close>

lemma valid_utf8_split:
  assumes "valid_utf8 bs" and "i \<le> length bs" and "i < length bs \<Longrightarrow> \<not> is_cont (bs ! i)"
  shows "valid_utf8 (take i bs) \<and> valid_utf8 (drop i bs)"
  using assms
proof (induction bs arbitrary: i rule: valid_utf8.induct)
  case (1 bs)
  show ?case
  proof (cases "bs = [] \<or> i = 0")
    case True
    with "1.prems" show ?thesis by auto
  next
    case False
    let ?k = "utf8_len bs"
    have k: "0 < ?k" and v: "valid_utf8 (drop ?k bs)"
      using False "1.prems"(1) by (auto simp: valid_utf8.simps [of bs] split: if_splits)
    have ki: "?k \<le> i"
    proof (rule ccontr)
      assume "\<not> ?k \<le> i"
      then have lt: "i < ?k" by simp
      then have "i < length bs" using utf8_len_le [of bs] by simp
      moreover have "is_cont (bs ! i)" using utf8_len_cont lt False by simp
      ultimately show False using "1.prems"(3) by simp
    qed
    let ?rest = "drop ?k bs"
    have "valid_utf8 (take (i - ?k) ?rest) \<and> valid_utf8 (drop (i - ?k) ?rest)"
      using "1.IH" [of "i - ?k"] False k v ki "1.prems"(2,3) utf8_len_le [of bs] by auto
    then have a: "valid_utf8 (drop ?k (take i bs))" and b: "valid_utf8 (drop i bs)"
      using ki by (auto simp: drop_take)
    have "take i bs \<noteq> []" using False by simp
    then have "valid_utf8 (take i bs)"
      using a k ki by (simp add: valid_utf8.simps [of "take i bs"] utf8_len_take)
    with b show ?thesis by simp
  qed
qed

text \<open>
  In a valid sequence there is a boundary within any four consecutive positions: from an
  index that holds a continuation byte the start of its scalar is at most three bytes back
  and is a lead byte.
\<close>

lemma valid_utf8_boundary_near:
  assumes "valid_utf8 bs" and "i < length bs" and "is_cont (bs ! i)"
  shows "\<exists>j. j < i \<and> i \<le> j + 3 \<and> \<not> is_cont (bs ! j) \<and> 0xC2 \<le> bs ! j"
  using assms
proof (induction bs arbitrary: i rule: valid_utf8.induct)
  case (1 bs)
  let ?k = "utf8_len bs"
  have ne: "bs \<noteq> []" using "1.prems"(2) by auto
  have k: "0 < ?k" and v: "valid_utf8 (drop ?k bs)"
    using ne "1.prems"(1) by (auto simp: valid_utf8.simps [of bs] split: if_splits)
  show ?case
  proof (cases "i < ?k")
    case True
    have h: "\<not> is_cont (bs ! 0)" using utf8_len_head [OF k] ne by (simp add: hd_conv_nth)
    have i0: "0 < i" using h "1.prems"(3) by (cases i) auto
    then have "1 < ?k" using True by simp
    then have "0xC2 \<le> bs ! 0" using utf8_len_multi [of bs] ne by (simp add: hd_conv_nth)
    moreover have "i \<le> 0 + 3" using True utf8_len_le4 [of bs] by simp
    ultimately show ?thesis using i0 h by blast
  next
    case False
    have "\<exists>j. j < i - ?k \<and> i - ?k \<le> j + 3 \<and> \<not> is_cont (drop ?k bs ! j) \<and> 0xC2 \<le> drop ?k bs ! j"
      using "1.IH" [of "i - ?k"] ne k v False "1.prems"(2,3) by auto
    then obtain j where "j < i - ?k" "i - ?k \<le> j + 3" "\<not> is_cont (bs ! (?k + j))" "0xC2 \<le> bs ! (?k + j)"
      using "1.prems"(2) utf8_len_le [of bs] by auto
    then show ?thesis using False by (intro exI [of _ "?k + j"]) auto
  qed
qed

text \<open>A continuation byte follows a byte outside ASCII.\<close>

lemma valid_utf8_before_cont:
  assumes "valid_utf8 bs" and "i < length bs" and "is_cont (bs ! i)"
  shows "0 < i \<and> 0x80 \<le> bs ! (i - 1)"
  using assms
proof (induction bs arbitrary: i rule: valid_utf8.induct)
  case (1 bs)
  let ?k = "utf8_len bs"
  have ne: "bs \<noteq> []" using "1.prems"(2) by auto
  have k: "0 < ?k" and v: "valid_utf8 (drop ?k bs)"
    using ne "1.prems"(1) by (auto simp: valid_utf8.simps [of bs] split: if_splits)
  show ?case
  proof (cases "i < ?k")
    case True
    have "\<not> is_cont (bs ! 0)" using utf8_len_head [OF k] ne by (simp add: hd_conv_nth)
    then have i0: "0 < i" using "1.prems"(3) by (cases i) auto
    show ?thesis
    proof (cases "i = 1")
      case one: True
      then have "0xC2 \<le> bs ! 0" using utf8_len_multi [of bs] True ne by (simp add: hd_conv_nth)
      then show ?thesis using one by (simp add: word_le_nat_alt)
    next
      case False
      then have "is_cont (bs ! (i - 1))" using utf8_len_cont [of "i - 1" bs] True i0 by simp
      then show ?thesis using i0 by (simp add: is_cont_def)
    qed
  next
    case False
    have "0 < i - ?k \<and> 0x80 \<le> drop ?k bs ! (i - ?k - 1)"
      using "1.IH" [of "i - ?k"] ne k v False "1.prems"(2,3) by auto
    then show ?thesis using False "1.prems"(2) utf8_len_le [of bs] by auto
  qed
qed

text \<open>The mask test of the source for a continuation byte.\<close>

lemma cont_mask: "b AND 0xC0 = 0x80 \<longleftrightarrow> is_cont b" for b :: u8
proof -
  have "unat (b AND 0xC0) = 64 * (unat b div 64)"
  proof -
    have "unat (b AND 0xC0) = unat b AND 0xC0" by (simp add: unsigned_and_eq)
    also have "\<dots> = 64 * (unat b div 64 AND 3)"
      by (simp add: and_rec [of "unat b"] and_rec [of "unat b div 2"] and_rec [of "unat b div 4"]
          and_rec [of "unat b div 8"] and_rec [of "unat b div 16"] and_rec [of "unat b div 32"] div_mult2_eq [symmetric])
    also have "unat b div 64 AND 3 = unat b div 64"
    proof -
      have "unat b div 64 AND 3 = unat b div 64 mod 4"
        using take_bit_eq_mask [of 2 "unat b div 64"] by (simp add: take_bit_eq_mod mask_eq_exp_minus_1)
      moreover have "unat b div 64 < 4" using unat_byte_less [of b] by linarith
      ultimately show ?thesis by simp
    qed
    finally show ?thesis .
  qed
  then have "b AND 0xC0 = 0x80 \<longleftrightarrow> 64 * (unat b div 64) = 128"
    by (simp add: word_unat_eq_iff)
  also have "\<dots> \<longleftrightarrow> is_cont b"
    by (auto simp: is_cont_def word_le_nat_alt)
  finally show ?thesis .
qed

lemma from_utf8_Some_iff [result_simps]:
  "from_utf8 bs = Some s \<longleftrightarrow> valid_utf8 bs \<and> s = string_of_bytes bs"
  by (auto simp: from_utf8_def)

end
