(* ===== verification/Cbor.thy ===== *)
theory Cbor
  imports Utf8
begin

text \<open>
  The deterministic CBOR profile of the container (src/src/cbor.rs): the value model, the
  size and budget accounting used by writers, the encoder, and the validating parser with
  its byte, item and nesting budgets. A Rust \<open>String\<close> is its UTF-8 byte sequence, kept as
  a \<^typ>\<open>string\<close>. The parser is a record of its four fields and every method takes it and
  returns it updated. Failing allocations (\<open>try_reserve_exact\<close>) are not modelled.
\<close>

record CborLimits =
  max_allocation :: u64
  max_items :: u64

definition MAX_NESTING_DEPTH :: u64 where
  "MAX_NESTING_DEPTH = 64"

definition CborLimits_default :: CborLimits where
  "CborLimits_default = \<lparr>max_allocation = 16 * 1024 * 1024, max_items = 1000000\<rparr>"

datatype CborValue =
    Integer i128
  | Bytes bytes
  | Text string
  | Array "CborValue list"
  | CMap "(CborValue \<times> CborValue) list"
  | CBool bool
  | CNull

record CborUsage =
  usage_items :: u64
  usage_allocation :: u64
  usage_encoded_bytes :: u64

definition CborUsage_add :: "CborUsage \<Rightarrow> CborUsage \<Rightarrow> CborUsage result" where
  "CborUsage_add self other =
     rbind (ok_or (checked_add (usage_items self) (usage_items other)) ResourceLimitExceeded) (\<lambda>i.
     rbind (ok_or (checked_add (usage_allocation self) (usage_allocation other)) ResourceLimitExceeded) (\<lambda>a.
     rbind (ok_or (checked_add (usage_encoded_bytes self) (usage_encoded_bytes other)) ResourceLimitExceeded) (\<lambda>b.
     Ok \<lparr>usage_items = i, usage_allocation = a, usage_encoded_bytes = b\<rparr>)))"

definition CborUsage_enforce :: "CborUsage \<Rightarrow> CborLimits \<Rightarrow> u64 \<Rightarrow> unit result" where
  "CborUsage_enforce self limits max_block_bytes =
     (if usage_items self > max_items limits \<or> usage_allocation self > max_allocation limits
         \<or> usage_encoded_bytes self > max_block_bytes
      then Err ResourceLimitExceeded else Ok ())"

definition head_len :: "u64 \<Rightarrow> u64" where
  "head_len value =
     (if value \<le> 23 then 1 else if value \<le> 0xff then 2 else if value \<le> 0xffff then 3
      else if value \<le> 0xffffffff then 5 else 9)"

text \<open>\<open>u64::try_from\<close> of a wide integer.\<close>

definition u64_try_from :: "i128 \<Rightarrow> u64 option" where
  "u64_try_from v = (if 0 \<le> v \<and> nat v < u64_end then Some (nat v) else None)"

text \<open>The argument encoded for a negative integer: \<open>-(value + 1)\<close>.\<close>

definition negative_argument :: "i128 \<Rightarrow> u64 option" where
  "negative_argument v = u64_try_from (- (v + 1))"

definition payload_usage :: "usize \<Rightarrow> CborUsage result" where
  "payload_usage n =
     rbind (usize_to_u64 n) (\<lambda>len.
     rbind (ok_or (checked_add (head_len len) len) ResourceLimitExceeded) (\<lambda>b.
     Ok \<lparr>usage_items = 1, usage_allocation = len, usage_encoded_bytes = b\<rparr>))"

fun measure_value :: "CborValue \<Rightarrow> CborUsage result" where
  "measure_value (Integer value) =
     rbind (if value \<ge> 0 then ok_or (u64_try_from value) ResourceLimitExceeded
            else ok_or (negative_argument value) ResourceLimitExceeded) (\<lambda>argument.
     Ok \<lparr>usage_items = 1, usage_allocation = 0, usage_encoded_bytes = head_len argument\<rparr>)"
| "measure_value (Bytes bs) = payload_usage (length bs)"
| "measure_value (Text s) = payload_usage (length s)"
| "measure_value (Array values) =
     rbind (usize_to_u64 (length values)) (\<lambda>len.
     rfold (\<lambda>usage child. rbind (measure_value child) (CborUsage_add usage))
       \<lparr>usage_items = 1, usage_allocation = 0, usage_encoded_bytes = head_len len\<rparr> values)"
| "measure_value (CMap entries) =
     rbind (usize_to_u64 (length entries)) (\<lambda>len.
     rfold (\<lambda>usage (k, v).
         rbind (measure_value k) (\<lambda>key_usage.
         rbind (ok_or (checked_add (usage_allocation usage) (usage_encoded_bytes key_usage))
                  ResourceLimitExceeded) (\<lambda>a.
         rbind (CborUsage_add (usage\<lparr>usage_allocation := a\<rparr>) key_usage) (\<lambda>usage'.
         rbind (measure_value v) (CborUsage_add usage')))))
       \<lparr>usage_items = 1, usage_allocation = 0, usage_encoded_bytes = head_len len\<rparr> entries)"
| "measure_value (CBool b) =
     Ok \<lparr>usage_items = 1, usage_allocation = 0, usage_encoded_bytes = 1\<rparr>"
| "measure_value CNull =
     Ok \<lparr>usage_items = 1, usage_allocation = 0, usage_encoded_bytes = 1\<rparr>"

section \<open>Encoder\<close>

definition encode_type_and_argument :: "u8 \<Rightarrow> u64 \<Rightarrow> bytes" where
  "encode_type_and_argument major value =
     (let prefix = push_bit 5 major in
      if value \<le> 23 then [prefix OR word_of_nat value]
      else if value \<le> 0xff then [prefix OR 0x18, word_of_nat value]
      else if value \<le> 0xffff then (prefix OR 0x19) # be_bytes 2 value
      else if value \<le> 0xffffffff then (prefix OR 0x1a) # be_bytes 4 value
      else (prefix OR 0x1b) # be_bytes 8 value)"

text \<open>\<open>windows(2)\<close> over the sorted entries, comparing the key bytes.\<close>

fun has_adjacent_equal_keys :: "(bytes \<times> bytes) list \<Rightarrow> bool" where
  "has_adjacent_equal_keys (x # y # xs) \<longleftrightarrow> fst x = fst y \<or> has_adjacent_equal_keys (y # xs)"
| "has_adjacent_equal_keys _ \<longleftrightarrow> False"

fun encode_value :: "CborValue \<Rightarrow> bytes result" where
  "encode_value (Integer value) =
     (if value \<ge> 0
      then rbind (ok_or (u64_try_from value) ResourceLimitExceeded) (\<lambda>n.
           Ok (encode_type_and_argument 0 n))
      else rbind (ok_or (negative_argument value) ResourceLimitExceeded) (\<lambda>n.
           Ok (encode_type_and_argument 1 n)))"
| "encode_value (Bytes bs) =
     rbind (usize_to_u64 (length bs)) (\<lambda>len. Ok (encode_type_and_argument 2 len @ bs))"
| "encode_value (Text s) =
     rbind (usize_to_u64 (length s)) (\<lambda>len. Ok (encode_type_and_argument 3 len @ as_bytes s))"
| "encode_value (Array values) =
     rbind (usize_to_u64 (length values)) (\<lambda>len.
     rbind (rmap encode_value values) (\<lambda>encoded.
     Ok (encode_type_and_argument 4 len @ concat encoded)))"
| "encode_value (CMap entries) =
     rbind (usize_to_u64 (length entries)) (\<lambda>len.
     rbind (rmap (\<lambda>(k, v). rbind (encode_value k) (\<lambda>key_bytes.
                           rbind (encode_value v) (\<lambda>value_bytes. Ok (key_bytes, value_bytes))))
              entries) (\<lambda>encoded_entries.
     let sorted_entries = sort_key fst encoded_entries in
     if has_adjacent_equal_keys sorted_entries then Err DuplicateCborKey
     else Ok (encode_type_and_argument 5 len @ concat (map (\<lambda>(k, v). k @ v) sorted_entries))))"
| "encode_value (CBool b) = Ok [if b then 0xf5 else 0xf4]"
| "encode_value CNull = Ok [0xf6]"

definition encode_deterministic :: "CborValue \<Rightarrow> bytes result" where
  "encode_deterministic value = encode_value value"

section \<open>Parser\<close>

record Parser =
  p_input :: bytes
  p_offset :: usize
  remaining_allocation :: u64
  remaining_items :: u64

definition read_u8 :: "Parser \<Rightarrow> (u8 \<times> Parser) result" where
  "read_u8 p =
     rbind (ok_or (get (p_input p) (p_offset p)) UnexpectedEof) (\<lambda>b.
     Ok (b, p\<lparr>p_offset := p_offset p + 1\<rparr>))"

definition read_exact :: "usize \<Rightarrow> Parser \<Rightarrow> (bytes \<times> Parser) result" where
  "read_exact len p =
     rbind (ok_or (checked_add (p_offset p) len) ResourceLimitExceeded) (\<lambda>e.
     rbind (ok_or (get_slice (p_input p) (p_offset p) e) UnexpectedEof) (\<lambda>bs.
     Ok (bs, p\<lparr>p_offset := e\<rparr>)))"

definition consume_allocation :: "usize \<Rightarrow> Parser \<Rightarrow> Parser result" where
  "consume_allocation len p =
     rbind (usize_to_u64 len) (\<lambda>n.
     rbind (ok_or (checked_sub (remaining_allocation p) n) ResourceLimitExceeded) (\<lambda>r.
     Ok (p\<lparr>remaining_allocation := r\<rparr>)))"

definition depth_next :: "u64 \<Rightarrow> u64 result" where
  "depth_next depth = ok_or (checked_add depth 1) ResourceLimitExceeded"

definition read_argument :: "u8 \<Rightarrow> Parser \<Rightarrow> (u64 \<times> Parser) result" where
  "read_argument additional p =
     (if additional \<le> 23 then Ok (unat additional, p)
      else if additional = 24 then
        rbind (read_u8 p) (\<lambda>(b, p).
        if unat b < 24 then Err NonCanonicalCbor else Ok (unat b, p))
      else if additional = 25 then
        rbind (read_exact 2 p) (\<lambda>(bs, p).
        if be_val bs \<le> 0xff then Err NonCanonicalCbor else Ok (be_val bs, p))
      else if additional = 26 then
        rbind (read_exact 4 p) (\<lambda>(bs, p).
        if be_val bs \<le> 0xffff then Err NonCanonicalCbor else Ok (be_val bs, p))
      else if additional = 27 then
        rbind (read_exact 8 p) (\<lambda>(bs, p).
        if be_val bs \<le> 0xffffffff then Err NonCanonicalCbor else Ok (be_val bs, p))
      else Err NonCanonicalCbor)"

definition read_len :: "u8 \<Rightarrow> u64 \<Rightarrow> Parser \<Rightarrow> (usize \<times> Parser) result" where
  "read_len additional max_len p =
     rbind (read_argument additional p) (\<lambda>(len, p).
     if len > max_len \<or> len \<ge> u64_end then Err ResourceLimitExceeded
     else rbind (u64_to_usize len) (\<lambda>n. Ok (n, p)))"

definition parse_bytes :: "u8 \<Rightarrow> Parser \<Rightarrow> (CborValue \<times> Parser) result" where
  "parse_bytes additional p =
     rbind (read_len additional (remaining_allocation p) p) (\<lambda>(len, p).
     rbind (consume_allocation len p) (\<lambda>p.
     rbind (read_exact len p) (\<lambda>(bs, p).
     Ok (Bytes bs, p))))"

definition parse_text :: "u8 \<Rightarrow> Parser \<Rightarrow> (CborValue \<times> Parser) result" where
  "parse_text additional p =
     rbind (read_len additional (remaining_allocation p) p) (\<lambda>(len, p).
     rbind (consume_allocation len p) (\<lambda>p.
     rbind (read_exact len p) (\<lambda>(bs, p).
     rbind (ok_or (from_utf8 bs) InvalidUtf8) (\<lambda>text.
     Ok (Text text, p)))))"

definition parse_simple :: "u8 \<Rightarrow> CborValue result" where
  "parse_simple additional =
     (if additional = 20 then Ok (CBool False)
      else if additional = 21 then Ok (CBool True)
      else if additional = 22 then Ok CNull
      else Err NonCanonicalCbor)"

text \<open>
  The loops of \<open>parse_array\<close> and \<open>parse_map\<close>, over the parser of one child value. The map
  loop carries the bytes of the previous key.
\<close>

fun array_loop ::
  "(Parser \<Rightarrow> (CborValue \<times> Parser) result) \<Rightarrow> nat \<Rightarrow> Parser \<Rightarrow> (CborValue list \<times> Parser) result"
where
  "array_loop child 0 p = Ok ([], p)"
| "array_loop child (Suc n) p =
     rbind (child p) (\<lambda>(v, p).
     rbind (array_loop child n p) (\<lambda>(vs, p).
     Ok (v # vs, p)))"

fun map_loop ::
  "(Parser \<Rightarrow> (CborValue \<times> Parser) result) \<Rightarrow> nat \<Rightarrow> bytes option \<Rightarrow> Parser
     \<Rightarrow> ((CborValue \<times> CborValue) list \<times> Parser) result"
where
  "map_loop child 0 previous p = Ok ([], p)"
| "map_loop child (Suc n) previous p =
     (let key_start = p_offset p in
      rbind (child p) (\<lambda>(key, p).
      rbind (consume_allocation (p_offset p - key_start) p) (\<lambda>p.
      let key_bytes = slice (p_input p) key_start (p_offset p) in
      if previous = Some key_bytes then Err DuplicateCborKey
      else if (case previous of None \<Rightarrow> False | Some prev \<Rightarrow> key_bytes < prev)
      then Err NonCanonicalCbor
      else
        rbind (child p) (\<lambda>(value, p).
        rbind (map_loop child n (Some key_bytes) p) (\<lambda>(entries, p).
        Ok ((key, value) # entries, p))))))"

definition parse_array ::
  "(Parser \<Rightarrow> (CborValue \<times> Parser) result) \<Rightarrow> u8 \<Rightarrow> Parser \<Rightarrow> (CborValue \<times> Parser) result"
where
  "parse_array child additional p =
     rbind (read_len additional (remaining_items p) p) (\<lambda>(len, p).
     rbind (array_loop child len p) (\<lambda>(values, p).
     Ok (Array values, p)))"

definition parse_map ::
  "(Parser \<Rightarrow> (CborValue \<times> Parser) result) \<Rightarrow> u8 \<Rightarrow> Parser \<Rightarrow> (CborValue \<times> Parser) result"
where
  "parse_map child additional p =
     (let max_entries = remaining_items p div 2 in
      rbind (read_len additional max_entries p) (\<lambda>(len, p).
      rbind (map_loop child len None p) (\<lambda>(entries, p).
      Ok (CMap entries, p))))"

lemma parse_array_cong [fundef_cong]:
  assumes "a = b" and "p = q" and "\<And>x. f x = g x"
  shows "parse_array f a p = parse_array g b q"
proof -
  have "f = g" using assms(3) by (rule ext)
  with assms(1,2) show ?thesis by simp
qed

lemma parse_map_cong [fundef_cong]:
  assumes "a = b" and "p = q" and "\<And>x. f x = g x"
  shows "parse_map f a p = parse_map g b q"
proof -
  have "f = g" using assms(3) by (rule ext)
  with assms(1,2) show ?thesis by simp
qed

function (sequential) parse_value :: "u64 \<Rightarrow> Parser \<Rightarrow> (CborValue \<times> Parser) result" where
  "parse_value depth p =
     (if depth > MAX_NESTING_DEPTH then Err ResourceLimitExceeded
      else
        rbind (ok_or (checked_sub (remaining_items p) 1) ResourceLimitExceeded) (\<lambda>r.
        rbind (read_u8 (p\<lparr>remaining_items := r\<rparr>)) (\<lambda>(initial, p).
        let major = drop_bit 5 initial; additional = initial AND 0x1f in
        if major = 0 then
          rbind (read_argument additional p) (\<lambda>(n, p). Ok (Integer (int n), p))
        else if major = 1 then
          rbind (read_argument additional p) (\<lambda>(n, p). Ok (Integer (-1 - int n), p))
        else if major = 2 then parse_bytes additional p
        else if major = 3 then parse_text additional p
        else if major = 4 then
          parse_array (\<lambda>q. rbind (depth_next depth) (\<lambda>d. parse_value d q)) additional p
        else if major = 5 then
          parse_map (\<lambda>q. rbind (depth_next depth) (\<lambda>d. parse_value d q)) additional p
        else if major = 6 then Err NonCanonicalCbor
        else rbind (parse_simple additional) (\<lambda>v. Ok (v, p)))))"
  by pat_completeness auto
termination
  by (relation "measure (\<lambda>(depth, p). Suc MAX_NESTING_DEPTH - depth)")
     (auto simp: depth_next_def result_simps width_simps)

declare parse_value.simps [simp del]

definition validate_deterministic_with_limits :: "bytes \<Rightarrow> CborLimits \<Rightarrow> CborValue result" where
  "validate_deterministic_with_limits input limits =
     rbind (parse_value 0 \<lparr>p_input = input, p_offset = 0,
              remaining_allocation = max_allocation limits, remaining_items = max_items limits\<rparr>)
       (\<lambda>(value, parser).
     if p_offset parser \<noteq> length input then Err NonCanonicalCbor else Ok value)"

definition validate_deterministic :: "bytes \<Rightarrow> CborValue result" where
  "validate_deterministic input = validate_deterministic_with_limits input CborLimits_default"

section \<open>Closed text-key schemas\<close>

record TextKeySchema =
  schema_required :: "string list"
  schema_optional :: "string list"
  allow_unknown :: bool

fun check_known_keys :: "TextKeySchema \<Rightarrow> (CborValue \<times> CborValue) list \<Rightarrow> unit result" where
  "check_known_keys schema [] = Ok ()"
| "check_known_keys schema ((Text key, _) # entries) =
     (if \<not> (key \<in> set (schema_required schema) \<or> key \<in> set (schema_optional schema))
         \<and> \<not> allow_unknown schema
      then Err MetadataInvalid else check_known_keys schema entries)"
| "check_known_keys schema (_ # entries) = Err MetadataInvalid"

definition validate_text_key_schema_with_limits ::
  "bytes \<Rightarrow> TextKeySchema \<Rightarrow> CborLimits \<Rightarrow> CborValue result"
where
  "validate_text_key_schema_with_limits input schema limits =
     rbind (validate_deterministic_with_limits input limits) (\<lambda>value.
     case value of
       CMap entries \<Rightarrow>
         if \<exists>required \<in> set (schema_required schema). \<forall>e \<in> set entries. fst e \<noteq> Text required
         then Err MetadataInvalid
         else rbind (check_known_keys schema entries) (\<lambda>_. Ok value)
     | _ \<Rightarrow> Err MetadataInvalid)"

definition validate_text_key_schema :: "bytes \<Rightarrow> TextKeySchema \<Rightarrow> CborValue result" where
  "validate_text_key_schema input schema =
     validate_text_key_schema_with_limits input schema CborLimits_default"

end
