(* ===== verification/Chunk_Table.thy ===== *)
theory Chunk_Table
  imports Fixed
begin

text \<open>
  The chunk table (src/src/chunk_table.rs): the fixed 128-byte entry, the binary search by
  end offset, and the structural validation of a whole table block.
\<close>

definition CHUNK_ENTRY_LEN :: usize where
  "CHUNK_ENTRY_LEN = 128"

definition STARTS_WITH_LINE_CONTINUATION :: u32 where
  "STARTS_WITH_LINE_CONTINUATION = 1"

record ChunkEntry =
  chunk_id :: u64
  physical_offset :: u64
  compressed_size :: u64
  logical_offset :: u64
  uncompressed_size :: u64
  first_line :: u64
  line_count :: u64
  dictionary_id :: u32
  flags :: u32
  compressed_checksum_blake3 :: bytes
  uncompressed_checksum_blake3 :: bytes

definition ChunkEntry_encode :: "ChunkEntry \<Rightarrow> bytes" where
  "ChunkEntry_encode self =
     (let bs = replicate CHUNK_ENTRY_LEN 0;
          bs = copy_at 0 (le_bytes 8 (chunk_id self)) bs;
          bs = copy_at 8 (le_bytes 8 (physical_offset self)) bs;
          bs = copy_at 16 (le_bytes 8 (compressed_size self)) bs;
          bs = copy_at 24 (le_bytes 8 (logical_offset self)) bs;
          bs = copy_at 32 (le_bytes 8 (uncompressed_size self)) bs;
          bs = copy_at 40 (le_bytes 8 (first_line self)) bs;
          bs = copy_at 48 (le_bytes 8 (line_count self)) bs;
          bs = copy_at 56 (le_bytes 4 (dictionary_id self)) bs;
          bs = copy_at 60 (le_bytes 4 (flags self)) bs;
          bs = copy_at 64 (compressed_checksum_blake3 self) bs
      in copy_at 96 (uncompressed_checksum_blake3 self) bs)"

definition ChunkEntry_decode :: "bytes \<Rightarrow> ChunkEntry result" where
  "ChunkEntry_decode bs =
     (if length bs \<noteq> CHUNK_ENTRY_LEN then Err ChunkTableInvalid
      else
        rbind (read_u64_le (slice bs 0 8)) (\<lambda>ci.
        rbind (read_u64_le (slice bs 8 16)) (\<lambda>po.
        rbind (read_u64_le (slice bs 16 24)) (\<lambda>cs.
        rbind (read_u64_le (slice bs 24 32)) (\<lambda>lo.
        rbind (read_u64_le (slice bs 32 40)) (\<lambda>us.
        rbind (read_u64_le (slice bs 40 48)) (\<lambda>fl.
        rbind (read_u64_le (slice bs 48 56)) (\<lambda>lc.
        rbind (read_u32_le (slice bs 56 60)) (\<lambda>di.
        rbind (read_u32_le (slice bs 60 64)) (\<lambda>fg.
        Ok \<lparr>chunk_id = ci, physical_offset = po, compressed_size = cs, logical_offset = lo,
            uncompressed_size = us, first_line = fl, line_count = lc, dictionary_id = di, flags = fg,
            compressed_checksum_blake3 = slice bs 64 96,
            uncompressed_checksum_blake3 = slice bs 96 128\<rparr>))))))))))"

definition ChunkEntry_wf :: "ChunkEntry \<Rightarrow> bool" where
  "ChunkEntry_wf e \<longleftrightarrow> chunk_id e < u64_end \<and> physical_offset e < u64_end \<and> compressed_size e < u64_end \<and>
     logical_offset e < u64_end \<and> uncompressed_size e < u64_end \<and> first_line e < u64_end \<and>
     line_count e < u64_end \<and> dictionary_id e < u32_end \<and> flags e < u32_end \<and>
     length (compressed_checksum_blake3 e) = 32 \<and> length (uncompressed_checksum_blake3 e) = 32"

section \<open>Search by end offset\<close>

function partition_loop ::
  "ChunkEntry list \<Rightarrow> u64 \<Rightarrow> (ChunkEntry \<Rightarrow> u64 result) \<Rightarrow> usize \<Rightarrow> usize \<Rightarrow> usize result"
where
  "partition_loop entries target end_of low high =
     (if low < high then
        let mid = low + (high - low) div 2 in
        rbind (end_of (entries ! mid)) (\<lambda>e.
        if e \<le> target then partition_loop entries target end_of (mid + 1) high
        else partition_loop entries target end_of low mid)
      else Ok low)"
  by pat_completeness auto
termination
  by (relation "measure (\<lambda>(entries, target, end_of, low, high). high - low)") auto

declare partition_loop.simps [simp del]

definition partition_by_end ::
  "ChunkEntry list \<Rightarrow> u64 \<Rightarrow> (ChunkEntry \<Rightarrow> u64 result) \<Rightarrow> usize result"
where
  "partition_by_end entries target end_of = partition_loop entries target end_of 0 (length entries)"

definition entry_logical_end :: "ChunkEntry \<Rightarrow> u64 result" where
  "entry_logical_end entry = checked_logical_end (logical_offset entry) (uncompressed_size entry)"

definition chunk_index_for_logical_offset :: "ChunkEntry list \<Rightarrow> u64 \<Rightarrow> usize result" where
  "chunk_index_for_logical_offset entries offset = partition_by_end entries offset entry_logical_end"

section \<open>Validation of a table block\<close>

text \<open>The bitwise complement of a 32-bit value.\<close>

definition u32_not :: "u32 \<Rightarrow> u32" where
  "u32_not v = u32_end - 1 - v"

record TableState =
  expected_logical_offset :: u64
  expected_first_line :: u64
  total_uncompressed_size :: u64
  total_line_count :: u64

definition validate_entry :: "TableState \<Rightarrow> nat \<times> ChunkEntry \<Rightarrow> TableState result" where
  "validate_entry st ie =
     (case ie of (index, entry) \<Rightarrow>
       rbind (usize_to_u64 index) (\<lambda>id.
       if chunk_id entry \<noteq> id then Err ChunkTableInvalid
       else if logical_offset entry \<noteq> expected_logical_offset st then Err ChunkTableInvalid
       else if first_line entry \<noteq> expected_first_line st then Err ChunkTableInvalid
       else if compressed_size entry = 0 \<or> uncompressed_size entry = 0 then Err ChunkSizeMismatch
       else if line_count entry > uncompressed_size entry then Err ChunkTableInvalid
       else if flags entry AND u32_not STARTS_WITH_LINE_CONTINUATION \<noteq> 0 then Err InvalidFlags
       else
         rbind (ok_or (checked_add (expected_logical_offset st) (uncompressed_size entry))
                  LogicalRangeOutOfBounds) (\<lambda>elo.
         rbind (ok_or (checked_add (expected_first_line st) (line_count entry))
                  LogicalRangeOutOfBounds) (\<lambda>efl.
         rbind (ok_or (checked_add (total_uncompressed_size st) (uncompressed_size entry))
                  LogicalRangeOutOfBounds) (\<lambda>tus.
         rbind (ok_or (checked_add (total_line_count st) (line_count entry))
                  LogicalRangeOutOfBounds) (\<lambda>tlc.
         Ok \<lparr>expected_logical_offset = elo, expected_first_line = efl,
             total_uncompressed_size = tus, total_line_count = tlc\<rparr>))))))"

definition validate_chunk_table_block ::
  "bytes \<Rightarrow> u64 \<Rightarrow> u64 \<Rightarrow> u64 \<Rightarrow> ChunkEntry list result"
where
  "validate_chunk_table_block bs chunk_count original_size lines =
     (if length bs mod CHUNK_ENTRY_LEN \<noteq> 0 then Err ChunkTableInvalid
      else
        rbind (usize_to_u64 (length bs div CHUNK_ENTRY_LEN)) (\<lambda>actual_count.
        if actual_count \<noteq> chunk_count then Err ChunkCountMismatch
        else if original_size = 0 then
          (if chunk_count \<noteq> 0 \<or> lines \<noteq> 0 \<or> bs \<noteq> [] then Err ChunkCountMismatch else Ok [])
        else if chunk_count = 0 then Err ChunkCountMismatch
        else if lines > original_size then Err ChunkTableInvalid
        else
          rbind (rmap ChunkEntry_decode (chunks_exact CHUNK_ENTRY_LEN bs)) (\<lambda>entries.
          rbind (rfold validate_entry
                  \<lparr>expected_logical_offset = 0, expected_first_line = 0,
                   total_uncompressed_size = 0, total_line_count = 0\<rparr>
                  (enumerate 0 entries)) (\<lambda>st.
          if total_uncompressed_size st \<noteq> original_size \<or> total_line_count st \<noteq> lines
          then Err ChunkSizeMismatch else Ok entries))))"

section \<open>The entry is a fixed-width code\<close>

lemma ChunkEntry_layout:
  assumes "ChunkEntry_wf e"
  shows "ChunkEntry_encode e = le_bytes 8 (chunk_id e) @ le_bytes 8 (physical_offset e) @
     le_bytes 8 (compressed_size e) @ le_bytes 8 (logical_offset e) @ le_bytes 8 (uncompressed_size e) @
     le_bytes 8 (first_line e) @ le_bytes 8 (line_count e) @ le_bytes 4 (dictionary_id e) @
     le_bytes 4 (flags e) @ compressed_checksum_blake3 e @ uncompressed_checksum_blake3 e"
  using assms
  by (simp add: ChunkEntry_encode_def ChunkEntry_wf_def CHUNK_ENTRY_LEN_def slice_simps)

lemma ChunkEntry_decode_sound:
  assumes "ChunkEntry_decode bs = Ok e"
  shows "ChunkEntry_wf e \<and> ChunkEntry_encode e = bs"
proof -
  have len: "length bs = 128"
    and fs: "read_u64_le (slice bs 0 8) = Ok (chunk_id e)"
      "read_u64_le (slice bs 8 16) = Ok (physical_offset e)"
      "read_u64_le (slice bs 16 24) = Ok (compressed_size e)"
      "read_u64_le (slice bs 24 32) = Ok (logical_offset e)"
      "read_u64_le (slice bs 32 40) = Ok (uncompressed_size e)"
      "read_u64_le (slice bs 40 48) = Ok (first_line e)"
      "read_u64_le (slice bs 48 56) = Ok (line_count e)"
      "read_u32_le (slice bs 56 60) = Ok (dictionary_id e)"
      "read_u32_le (slice bs 60 64) = Ok (flags e)"
    and cc: "slice bs 64 96 = compressed_checksum_blake3 e"
      "slice bs 96 128 = uncompressed_checksum_blake3 e"
    using assms by (auto simp: ChunkEntry_decode_def CHUNK_ENTRY_LEN_def rbind_Ok_iff split: if_splits)
  have wf: "ChunkEntry_wf e"
    using fs cc [symmetric] len by (simp add: ChunkEntry_wf_def read_u64_le_Ok_iff read_u32_le_Ok_iff)
  have "drop 128 bs = []" using len by simp
  then have "drop 0 bs = ChunkEntry_encode e"
    using fs cc unfolding ChunkEntry_layout [OF wf]
    by (simp only: read_u64_le_Ok_iff read_u32_le_Ok_iff fields_of [of 0 8] fields_of [of 8 16]
        fields_of [of 16 24] fields_of [of 24 32] fields_of [of 32 40] fields_of [of 40 48]
        fields_of [of 48 56] fields_of [of 56 60] fields_of [of 60 64] fields_of [of 64 96]
        fields_of [of 96 128]) simp
  with wf show ?thesis by simp
qed

lemma ChunkEntry_decode_encode: "ChunkEntry_wf e \<Longrightarrow> ChunkEntry_decode (ChunkEntry_encode e) = Ok e"
  by (simp add: ChunkEntry_decode_def ChunkEntry_layout CHUNK_ENTRY_LEN_def ChunkEntry_wf_def)
     (simp add: slice_simps read_u64_le_bytes read_u32_le_bytes)

interpretation entry: fixed_codec CHUNK_ENTRY_LEN ChunkEntry_wf ChunkEntry_encode ChunkEntry_decode
proof unfold_locales
  show "length (ChunkEntry_encode e) = CHUNK_ENTRY_LEN" if "ChunkEntry_wf e" for e
    using that by (simp add: ChunkEntry_layout ChunkEntry_wf_def CHUNK_ENTRY_LEN_def)
qed (simp_all add: CHUNK_ENTRY_LEN_def ChunkEntry_decode_encode ChunkEntry_decode_sound)

section \<open>Binary search\<close>

lemma partition_loop_correct:
  assumes "\<And>i. i < length es \<Longrightarrow> end_of (es ! i) = Ok (e i)"
    and "\<And>i j. i \<le> j \<Longrightarrow> j < length es \<Longrightarrow> e i \<le> e j"
    and "low \<le> high" and "high \<le> length es"
    and "\<And>i. i < low \<Longrightarrow> e i \<le> target" and "\<And>i. high \<le> i \<Longrightarrow> i < length es \<Longrightarrow> target < e i"
  shows "\<exists>k. partition_loop es target end_of low high = Ok k \<and> k \<le> length es \<and>
     (\<forall>i < k. e i \<le> target) \<and> (\<forall>i. k \<le> i \<longrightarrow> i < length es \<longrightarrow> target < e i)"
  using assms
proof (induction es target end_of low high rule: partition_loop.induct)
  case (1 es target end_of low high)
  show ?case
  proof (cases "low < high")
    case True
    define mid where "mid = low + (high - low) div 2"
    have mid: "low \<le> mid" "mid < high" using True by (auto simp: mid_def)
    then have em: "end_of (es ! mid) = Ok (e mid)" using 1(3,6) by simp
    show ?thesis
    proof (cases "e mid \<le> target")
      case le: True
      have "e i \<le> target" if "i < mid + 1" for i
        using 1(4) [of i mid] that mid 1(6) le by simp
      then have "\<exists>k. partition_loop es target end_of (mid + 1) high = Ok k \<and> k \<le> length es \<and>
         (\<forall>i < k. e i \<le> target) \<and> (\<forall>i. k \<le> i \<longrightarrow> i < length es \<longrightarrow> target < e i)"
        using True mid 1(3-8) le em by (intro 1(1) [OF True mid_def]) auto
      then show ?thesis
        using True em le by (subst partition_loop.simps) (simp add: mid_def [symmetric])
    next
      case gt: False
      have "target < e i" if "mid \<le> i" "i < length es" for i
        using 1(4) [of mid i] that gt by simp
      then have "\<exists>k. partition_loop es target end_of low mid = Ok k \<and> k \<le> length es \<and>
         (\<forall>i < k. e i \<le> target) \<and> (\<forall>i. k \<le> i \<longrightarrow> i < length es \<longrightarrow> target < e i)"
        using True mid 1(3-8) gt em by (intro 1(2) [OF True mid_def]) auto
      then show ?thesis
        using True em gt by (subst partition_loop.simps) (simp add: mid_def [symmetric])
    qed
  next
    case False
    then have "partition_loop es target end_of low high = Ok low"
      by (simp add: partition_loop.simps)
    then show ?thesis using False 1(5-8) by auto
  qed
qed

lemma partition_by_end_correct:
  assumes "\<And>i. i < length es \<Longrightarrow> end_of (es ! i) = Ok (e i)"
    and "\<And>i j. i \<le> j \<Longrightarrow> j < length es \<Longrightarrow> e i \<le> e j"
  obtains k where "partition_by_end es target end_of = Ok k" and "k \<le> length es"
    and "\<And>i. i < k \<Longrightarrow> e i \<le> target" and "\<And>i. k \<le> i \<Longrightarrow> i < length es \<Longrightarrow> target < e i"
proof -
  have "\<exists>k. partition_loop es target end_of 0 (length es) = Ok k \<and> k \<le> length es \<and>
     (\<forall>i < k. e i \<le> target) \<and> (\<forall>i. k \<le> i \<longrightarrow> i < length es \<longrightarrow> target < e i)"
    by (rule partition_loop_correct) (use assms in auto)
  then show thesis using that unfolding partition_by_end_def by blast
qed

section \<open>Layout of a table\<close>

text \<open>
  What a valid table promises: entry \<open>i\<close> has identifier \<open>i\<close>, starts where the entries
  before it end, both in bytes and in lines, is not empty, has at most one line start per
  byte, and carries no unknown flag.
\<close>

definition chunk_layout :: "ChunkEntry list \<Rightarrow> bool" where
  "chunk_layout es \<longleftrightarrow> (\<forall>i < length es. let e = es ! i in
     chunk_id e = i \<and>
     logical_offset e = sum_list (map uncompressed_size (take i es)) \<and>
     first_line e = sum_list (map line_count (take i es)) \<and>
     0 < compressed_size e \<and> 0 < uncompressed_size e \<and>
     line_count e \<le> uncompressed_size e \<and> flags e \<le> STARTS_WITH_LINE_CONTINUATION)"

text \<open>The same, entry by entry, from a given position.\<close>

fun layout_from :: "nat \<Rightarrow> nat \<Rightarrow> nat \<Rightarrow> ChunkEntry list \<Rightarrow> bool" where
  "layout_from n a b [] \<longleftrightarrow> True"
| "layout_from n a b (e # es) \<longleftrightarrow>
     chunk_id e = n \<and> logical_offset e = a \<and> first_line e = b \<and>
     0 < compressed_size e \<and> 0 < uncompressed_size e \<and> line_count e \<le> uncompressed_size e \<and>
     flags e \<le> 1 \<and> layout_from (n + 1) (a + uncompressed_size e) (b + line_count e) es"

lemma layout_from_nth:
  "layout_from n a b es \<longleftrightarrow> (\<forall>i < length es. let e = es ! i in
     chunk_id e = n + i \<and> logical_offset e = a + sum_list (map uncompressed_size (take i es)) \<and>
     first_line e = b + sum_list (map line_count (take i es)) \<and>
     0 < compressed_size e \<and> 0 < uncompressed_size e \<and>
     line_count e \<le> uncompressed_size e \<and> flags e \<le> 1)"
  by (induction es arbitrary: n a b) (auto simp: All_less_Suc2 Let_def add.assoc)

lemma layout_from_0: "layout_from 0 0 0 es \<longleftrightarrow> chunk_layout es"
  by (simp add: layout_from_nth chunk_layout_def STARTS_WITH_LINE_CONTINUATION_def)

lemma and_not_1: "v AND u32_not STARTS_WITH_LINE_CONTINUATION = 0 \<longleftrightarrow> v \<le> 1" if "v < u32_end"
proof -
  have "u32_not STARTS_WITH_LINE_CONTINUATION = 2 * mask 31"
    by (simp add: u32_not_def STARTS_WITH_LINE_CONTINUATION_def u32_end_def mask_eq_exp_minus_1)
  then have "v AND u32_not STARTS_WITH_LINE_CONTINUATION = 2 * ((v div 2) AND mask 31)"
    by (simp add: and_rec [of v "2 * mask 31"])
  also have "(v div 2) AND mask 31 = v div 2"
    using that by (simp add: take_bit_eq_mask [symmetric] take_bit_eq_mod u32_end_def)
  finally show ?thesis by auto
qed

abbreviation table_state :: "nat \<Rightarrow> nat \<Rightarrow> TableState" where
  "table_state a b \<equiv> \<lparr>expected_logical_offset = a, expected_first_line = b,
     total_uncompressed_size = a, total_line_count = b\<rparr>"

lemma validate_entry_Ok_iff:
  assumes "ChunkEntry_wf e"
  shows "validate_entry (table_state a b) (n, e) = Ok st \<longleftrightarrow>
     layout_from n a b [e] \<and> n < u64_end \<and> a + uncompressed_size e < u64_end \<and>
     b + line_count e < u64_end \<and> st = table_state (a + uncompressed_size e) (b + line_count e)"
  using assms
  by (auto simp: validate_entry_def rbind_Ok_iff result_simps width_simps and_not_1 ChunkEntry_wf_def)

lemma validate_entries_Ok_iff:
  assumes "\<forall>e \<in> set es. ChunkEntry_wf e" and "a < u64_end" and "b < u64_end" and "n \<le> u64_end"
  shows "rfold validate_entry (table_state a b) (enumerate n es) = Ok st \<longleftrightarrow>
     layout_from n a b es \<and> n + length es \<le> u64_end \<and>
     a + sum_list (map uncompressed_size es) < u64_end \<and> b + sum_list (map line_count es) < u64_end \<and>
     st = table_state (a + sum_list (map uncompressed_size es)) (b + sum_list (map line_count es))"
  using assms
proof (induction es arbitrary: n a b)
  case (Cons e es)
  let ?a = "a + uncompressed_size e" and ?b = "b + line_count e"
  have IH: "rfold validate_entry (table_state ?a ?b) (enumerate (Suc n) es) = Ok st \<longleftrightarrow>
     layout_from (Suc n) ?a ?b es \<and> Suc n + length es \<le> u64_end \<and>
     ?a + sum_list (map uncompressed_size es) < u64_end \<and> ?b + sum_list (map line_count es) < u64_end \<and>
     st = table_state (?a + sum_list (map uncompressed_size es)) (?b + sum_list (map line_count es))"
    if "?a < u64_end" "?b < u64_end" "n < u64_end"
    using Cons.prems that by (intro Cons.IH) auto
  have wf: "ChunkEntry_wf e" using Cons.prems by simp
  show ?case
    unfolding enumerate_simps rfold.simps rbind_Ok_iff validate_entry_Ok_iff [OF wf]
    using IH by (auto simp: add.assoc)
qed auto

lemma layout_sums:
  assumes "layout_from n a b es"
  shows "sum_list (map line_count es) \<le> sum_list (map uncompressed_size es)"
    and "sum_list (map uncompressed_size es) = 0 \<longleftrightarrow> es = []"
  using assms by (induction n a b es rule: layout_from.induct) auto

lemma validate_chunk_table_block_Ok_iff:
  assumes "os < u64_end"
  shows "validate_chunk_table_block bs cc os ls = Ok es \<longleftrightarrow>
     (\<forall>e \<in> set es. ChunkEntry_wf e) \<and> bs = concat (map ChunkEntry_encode es) \<and>
     length es = cc \<and> cc < u64_end \<and> chunk_layout es \<and>
     sum_list (map uncompressed_size es) = os \<and> sum_list (map line_count es) = ls"
    (is "?L \<longleftrightarrow> ?R")
proof
  assume L: ?L
  then have d: "CHUNK_ENTRY_LEN dvd length bs" and cc: "length bs div CHUNK_ENTRY_LEN = cc" "cc < u64_end"
    by (auto simp: validate_chunk_table_block_def rbind_Ok_iff width_simps split: if_splits)
  show ?R
  proof (cases "os = 0")
    case True
    then show ?thesis using L
      by (auto simp: validate_chunk_table_block_def rbind_Ok_iff width_simps chunk_layout_def
          CHUNK_ENTRY_LEN_def split: if_splits)
  next
    case False
    then obtain st where dec: "rmap ChunkEntry_decode (chunks_exact CHUNK_ENTRY_LEN bs) = Ok es"
      and st: "rfold validate_entry (table_state 0 0) (enumerate 0 es) = Ok st"
      and tot: "total_uncompressed_size st = os" "total_line_count st = ls"
      using L by (auto simp: validate_chunk_table_block_def rbind_Ok_iff split: if_splits)
    have wf: "\<forall>e \<in> set es. ChunkEntry_wf e" and bs: "bs = concat (map ChunkEntry_encode es)"
      using dec unfolding entry.decode_table [OF d] by auto
    have "length es = cc"
      using entry.table_length [OF wf] cc bs entry.width_pos by simp
    then show ?thesis
      using st tot wf bs cc(2)
      by (simp add: validate_entries_Ok_iff [OF wf] layout_from_0 u64_end_def)
  qed
next
  assume R: ?R
  then have len: "length bs = CHUNK_ENTRY_LEN * cc" and d: "CHUNK_ENTRY_LEN dvd length bs"
    using entry.table_length [of es] by auto
  have lay: "layout_from 0 0 0 es" using R by (simp add: layout_from_0)
  have "rmap ChunkEntry_decode (chunks_exact CHUNK_ENTRY_LEN bs) = Ok es"
    unfolding entry.decode_table [OF d] using R by blast
  moreover have "rfold validate_entry (table_state 0 0) (enumerate 0 es) = Ok (table_state os ls)"
    using R assms lay layout_sums(1) [OF lay] by (subst validate_entries_Ok_iff) auto
  ultimately show ?L
    using R len d layout_sums [OF lay] entry.width_pos
    by (auto simp: validate_chunk_table_block_def)
qed

text \<open>Searching a valid table by byte or by line.\<close>

lemma sum_take_Suc: "i < length es \<Longrightarrow> sum_list (map f (take (Suc i) es)) = sum_list (map f (take i es)) + f (es ! i)"
  for f :: "'a \<Rightarrow> nat"
  by (simp add: take_Suc_conv_app_nth)

lemma sum_take_mono: "i \<le> j \<Longrightarrow> sum_list (map f (take i es)) \<le> sum_list (map f (take j es))"
  for f :: "'a \<Rightarrow> nat"
proof (induction j)
  case (Suc j)
  then show ?case
    by (cases "j < length es") (auto simp: le_Suc_eq sum_take_Suc)
qed simp

lemma sum_take_le: "sum_list (map f (take i es)) \<le> sum_list (map f es)"
  for f :: "'a \<Rightarrow> nat"
  using sum_take_mono [of i "max i (length es)" f es] by simp

lemma layout_nth:
  assumes "chunk_layout es" and "i < length es"
  shows "chunk_id (es ! i) = i" and "logical_offset (es ! i) = sum_list (map uncompressed_size (take i es))"
    and "first_line (es ! i) = sum_list (map line_count (take i es))"
    and "0 < uncompressed_size (es ! i)" and "0 < compressed_size (es ! i)"
    and "line_count (es ! i) \<le> uncompressed_size (es ! i)"
  using assms by (simp_all add: chunk_layout_def Let_def)

lemma layout_end:
  assumes "chunk_layout es" and "i < length es"
  shows "logical_offset (es ! i) + uncompressed_size (es ! i) = sum_list (map uncompressed_size (take (Suc i) es))"
    and "first_line (es ! i) + line_count (es ! i) = sum_list (map line_count (take (Suc i) es))"
  using assms by (simp_all add: layout_nth sum_take_Suc)

definition entry_line_end :: "ChunkEntry \<Rightarrow> u64 result" where
  "entry_line_end entry = checked_logical_end (first_line entry) (line_count entry)"

lemma partition_prefix_sums:
  fixes f :: "ChunkEntry \<Rightarrow> nat"
  assumes "\<And>i. i < length es \<Longrightarrow> end_of (es ! i) = Ok (sum_list (map f (take (Suc i) es)))"
  obtains k where "partition_by_end es target end_of = Ok k" and "k \<le> length es"
    and "sum_list (map f (take k es)) \<le> target"
    and "k < length es \<Longrightarrow> target < sum_list (map f (take (Suc k) es))"
proof (rule partition_by_end_correct [where es = es and end_of = end_of and target = target
      and e = "\<lambda>i. sum_list (map f (take (Suc i) es))"])
  fix k assume k: "partition_by_end es target end_of = Ok k" "k \<le> length es"
    and lo: "\<And>i. i < k \<Longrightarrow> sum_list (map f (take (Suc i) es)) \<le> target"
    and hi: "\<And>i. k \<le> i \<Longrightarrow> i < length es \<Longrightarrow> target < sum_list (map f (take (Suc i) es))"
  have "sum_list (map f (take k es)) \<le> target" using lo [of "k - 1"] by (cases k) auto
  then show thesis using that k hi by blast
qed (use assms in \<open>auto intro: sum_take_mono\<close>)

lemma chunk_index_search:
  assumes "chunk_layout es" and "sum_list (map uncompressed_size es) < u64_end"
  obtains k where "chunk_index_for_logical_offset es offset = Ok k" and "k \<le> length es"
    and "sum_list (map uncompressed_size (take k es)) \<le> offset"
    and "k < length es \<Longrightarrow> offset < sum_list (map uncompressed_size (take (Suc k) es))"
proof (rule partition_prefix_sums [where es = es and end_of = entry_logical_end and target = offset
      and f = uncompressed_size])
  fix i assume "i < length es"
  then show "entry_logical_end (es ! i) = Ok (sum_list (map uncompressed_size (take (Suc i) es)))"
    using assms sum_take_le [of uncompressed_size "Suc i" es]
    by (simp add: entry_logical_end_def layout_end)
qed (use that in \<open>auto simp: chunk_index_for_logical_offset_def\<close>)

section \<open>Properties\<close>

text \<open>
  C25: table validation is exact. For a declared original size that fits 64 bits, a block is
  accepted with result \<open>es\<close> if and only if it is the concatenation of the encodings of \<open>es\<close>,
  the number of entries is the declared one, the entries are laid out without gap or
  overlap from byte 0 and line 0 (each non-empty, with its own index and no unknown flag),
  and their sizes and line counts add up to the declared totals.
\<close>

theorem validate_chunk_table_block_exact:
  assumes "os < u64_end"
  shows "validate_chunk_table_block bs cc os ls = Ok es \<longleftrightarrow>
     (\<forall>e \<in> set es. ChunkEntry_wf e) \<and> bs = concat (map ChunkEntry_encode es) \<and>
     length es = cc \<and> cc < u64_end \<and> chunk_layout es \<and>
     sum_list (map uncompressed_size es) = os \<and> sum_list (map line_count es) = ls"
  using assms by (rule validate_chunk_table_block_Ok_iff)

definition sample_entry :: "nat \<Rightarrow> nat \<Rightarrow> nat \<Rightarrow> nat \<Rightarrow> nat \<Rightarrow> ChunkEntry" where
  "sample_entry i off sz l n = \<lparr>chunk_id = i, physical_offset = 128 + off, compressed_size = sz,
     logical_offset = off, uncompressed_size = sz, first_line = l, line_count = n, dictionary_id = 0,
     flags = 0, compressed_checksum_blake3 = replicate 32 1, uncompressed_checksum_blake3 = replicate 32 2\<rparr>"

definition sample_table :: "ChunkEntry list" where
  "sample_table = [sample_entry 0 0 4 0 2, sample_entry 1 4 6 2 3]"

lemma sample_table_wf: "\<forall>e \<in> set sample_table. ChunkEntry_wf e"
  by (simp add: sample_table_def sample_entry_def ChunkEntry_wf_def u64_end_def u32_end_def)

lemma sample_table_layout: "chunk_layout sample_table"
  by (simp add: layout_from_0 [symmetric] sample_table_def sample_entry_def)

lemma sample_table_sums: "sum_list (map uncompressed_size sample_table) = 10"
  "sum_list (map line_count sample_table) = 5" "length sample_table = 2"
  by (simp_all add: sample_table_def sample_entry_def)

theorem validate_chunk_table_block_exact_witness:
  "validate_chunk_table_block (concat (map ChunkEntry_encode sample_table)) 2 10 5 = Ok sample_table"
  by (subst validate_chunk_table_block_exact)
     (use sample_table_wf sample_table_layout sample_table_sums in \<open>auto simp: u64_end_def\<close>)

text \<open>
  The binary search over a validated table always returns, and finds the one chunk that
  holds a given byte: an offset below the original size is mapped to the entry whose
  half-open range contains it, any other offset to the number of entries.
\<close>

theorem chunk_index_for_logical_offset_finds:
  assumes "os < u64_end" and "validate_chunk_table_block bs cc os ls = Ok es"
  shows "\<exists>k. chunk_index_for_logical_offset es offset = Ok k \<and>
     (if offset < os
      then k < length es \<and> logical_offset (es ! k) \<le> offset \<and>
           offset < logical_offset (es ! k) + uncompressed_size (es ! k)
      else k = length es)"
proof -
  have lay: "chunk_layout es" and tot: "sum_list (map uncompressed_size es) = os"
    using assms by (simp_all add: validate_chunk_table_block_Ok_iff)
  obtain k where k: "chunk_index_for_logical_offset es offset = Ok k" "k \<le> length es"
    "sum_list (map uncompressed_size (take k es)) \<le> offset"
    "k < length es \<Longrightarrow> offset < sum_list (map uncompressed_size (take (Suc k) es))"
    using chunk_index_search [OF lay] tot assms(1) by metis
  have "k < length es \<longleftrightarrow> offset < os"
    using k sum_take_le [of uncompressed_size "Suc k" es] tot
    by (cases "k < length es") auto
  then show ?thesis
    using k lay by (auto simp: layout_nth layout_end intro!: exI [of _ k])
       (metis layout_end(1) layout_nth(2))
qed

theorem chunk_index_for_logical_offset_finds_witness:
  "chunk_index_for_logical_offset sample_table 5 = Ok 1"
proof -
  have v: "validate_chunk_table_block (concat (map ChunkEntry_encode sample_table)) 2 10 5 = Ok sample_table"
    by (subst validate_chunk_table_block_Ok_iff)
       (use sample_table_wf sample_table_layout sample_table_sums in \<open>auto simp: u64_end_def\<close>)
  have "(10 :: nat) < u64_end" by (simp add: u64_end_def)
  from chunk_index_for_logical_offset_finds [OF this v, of 5]
  obtain k where "chunk_index_for_logical_offset sample_table 5 = Ok k" "k < 2"
    "5 < logical_offset (sample_table ! k) + uncompressed_size (sample_table ! k)"
    by (auto simp: sample_table_sums)
  then show ?thesis
    by (cases k) (auto simp: sample_table_def sample_entry_def)
qed

end
