(* ===== verification/Limits.thy ===== *)
theory Limits
  imports Cbor Chunk_Table
begin

text \<open>
  The resource limits of readers and writers (src/src/limits.rs).
\<close>

record ResourceLimits =
  max_compressed_chunk_size :: u64
  max_uncompressed_chunk_size :: u64
  max_dictionary_size :: u64
  max_index_block_size :: u64
  max_dense_line_index_allocation :: u64
  max_preview_bytes :: u64
  max_cbor_allocation :: u64
  max_cbor_items :: u64

definition ResourceLimits_default :: ResourceLimits where
  "ResourceLimits_default =
     \<lparr>max_compressed_chunk_size = 72 * 1024 * 1024,
      max_uncompressed_chunk_size = 64 * 1024 * 1024,
      max_dictionary_size = 16 * 1024 * 1024,
      max_index_block_size = 64 * 1024 * 1024,
      max_dense_line_index_allocation = 256 * 1024 * 1024,
      max_preview_bytes = 1024 * 1024,
      max_cbor_allocation = 16 * 1024 * 1024,
      max_cbor_items = 1000000\<rparr>"

definition enforce_index_block_size :: "ResourceLimits \<Rightarrow> u64 \<Rightarrow> unit result" where
  "enforce_index_block_size self sz =
     (if sz > max_index_block_size self then Err ResourceLimitExceeded else Ok ())"

definition enforce_chunk_table_entries :: "ResourceLimits \<Rightarrow> usize \<Rightarrow> unit result" where
  "enforce_chunk_table_entries self n =
     rbind (ok_or (checked_mul n CHUNK_ENTRY_LEN) ResourceLimitExceeded) (\<lambda>bs.
     enforce_index_block_size self bs)"

definition enforce_chunk_sizes :: "ResourceLimits \<Rightarrow> u64 \<Rightarrow> u64 \<Rightarrow> unit result" where
  "enforce_chunk_sizes self compressed uncompressed =
     (if compressed > max_compressed_chunk_size self \<or> uncompressed > max_uncompressed_chunk_size self
      then Err ResourceLimitExceeded else Ok ())"

definition enforce_dense_allocation :: "ResourceLimits \<Rightarrow> u64 \<Rightarrow> unit result" where
  "enforce_dense_allocation self bs =
     (if bs > max_dense_line_index_allocation self then Err ResourceLimitExceeded else Ok ())"

definition cbor_limits :: "ResourceLimits \<Rightarrow> CborLimits" where
  "cbor_limits self = \<lparr>max_allocation = max_cbor_allocation self, max_items = max_cbor_items self\<rparr>"

lemma enforce_index_block_size_Ok_iff [width_simps]:
  "enforce_index_block_size l n = Ok () \<longleftrightarrow> n \<le> max_index_block_size l"
  by (auto simp: enforce_index_block_size_def)

lemma enforce_chunk_sizes_Ok_iff [width_simps]:
  "enforce_chunk_sizes l c u = Ok () \<longleftrightarrow> c \<le> max_compressed_chunk_size l \<and> u \<le> max_uncompressed_chunk_size l"
  by (auto simp: enforce_chunk_sizes_def)

lemma enforce_dense_allocation_Ok_iff [width_simps]:
  "enforce_dense_allocation l n = Ok () \<longleftrightarrow> n \<le> max_dense_line_index_allocation l"
  by (auto simp: enforce_dense_allocation_def)

lemma enforce_chunk_table_entries_Ok_iff [width_simps]:
  "enforce_chunk_table_entries l n = Ok () \<longleftrightarrow>
     n * CHUNK_ENTRY_LEN < u64_end \<and> n * CHUNK_ENTRY_LEN \<le> max_index_block_size l"
  by (auto simp: enforce_chunk_table_entries_def rbind_Ok_iff result_simps width_simps)

lemma enforce_chunk_table_entries_Err:
  "enforce_chunk_table_entries l n \<noteq> Ok () \<Longrightarrow> enforce_chunk_table_entries l n = Err ResourceLimitExceeded"
  by (auto simp: enforce_chunk_table_entries_def enforce_index_block_size_def checked_mul_def split: if_splits)

end
