(* ===== verification/Chunker.thy ===== *)
theory Chunker
  imports Limits
begin

text \<open>
  Deterministic chunk planning (src/src/chunker.rs): where the writer cuts the input into
  chunks, and the line metadata it derives for each. Indexing the input past its end would
  panic; every access below is inside the input on the paths the planner takes. The sum
  \<open>start + max_chunk_size\<close> is not checked in the source: it wraps at the width of \<open>usize\<close>
  in a release build, and so it does here.
\<close>

record ChunkerOptions =
  target_chunk_size :: usize
  max_chunk_size :: usize

definition ChunkerOptions_validate :: "ChunkerOptions \<Rightarrow> unit result" where
  "ChunkerOptions_validate self =
     (if target_chunk_size self = 0 \<or> max_chunk_size self = 0 then Err ResourceLimitExceeded
      else if target_chunk_size self > max_chunk_size self then Err ResourceLimitExceeded
      else Ok ())"

datatype NewlineMode = NewlineNone | Lf | Crlf | Mixed

definition from_counts :: "u64 \<Rightarrow> u64 \<Rightarrow> NewlineMode" where
  "from_counts lf_count crlf_count =
     (case (lf_count > 0, crlf_count > 0) of
        (False, False) \<Rightarrow> NewlineNone
      | (True, False) \<Rightarrow> Lf
      | (False, True) \<Rightarrow> Crlf
      | (True, True) \<Rightarrow> Mixed)"

fun NewlineMode_as_str :: "NewlineMode \<Rightarrow> string" where
  "NewlineMode_as_str NewlineNone = ''none''"
| "NewlineMode_as_str Lf = ''lf''"
| "NewlineMode_as_str Crlf = ''crlf''"
| "NewlineMode_as_str Mixed = ''mixed''"

record PlannedChunk =
  pc_chunk_id :: u64
  pc_logical_offset :: u64
  pc_uncompressed_size :: u64
  pc_first_line :: u64
  pc_line_count :: u64
  pc_flags :: u32

record ChunkPlan =
  plan_chunk_list :: "PlannedChunk list"
  plan_line_count :: u64
  plan_newline_mode :: NewlineMode

abbreviation LF :: u8 where "LF \<equiv> 10"
abbreviation CR :: u8 where "CR \<equiv> 13"

section \<open>Boundaries\<close>

definition splits_crlf :: "bytes \<Rightarrow> usize \<Rightarrow> bool" where
  "splits_crlf input e \<longleftrightarrow>
     e > 0 \<and> e < length input \<and> input ! (e - 1) = CR \<and> input ! e = LF"

definition is_utf8_boundary :: "bytes \<Rightarrow> usize \<Rightarrow> bool" where
  "is_utf8_boundary input index \<longleftrightarrow>
     index = 0 \<or> index = length input \<or>
     (case get input index of None \<Rightarrow> False | Some byte \<Rightarrow> byte AND 0xC0 \<noteq> 0x80)"

definition last_line_boundary :: "bytes \<Rightarrow> usize \<Rightarrow> usize \<Rightarrow> usize option" where
  "last_line_boundary input start e =
     (let boundary = foldl (\<lambda>boundary cursor.
            if input ! cursor = LF then Some (cursor + 1) else boundary) None [start ..< e] in
      case boundary of
        None \<Rightarrow> None
      | Some candidate \<Rightarrow>
          if candidate > start \<and> \<not> splits_crlf input candidate then Some candidate else None)"

definition previous_valid_split :: "bytes \<Rightarrow> usize \<Rightarrow> usize \<Rightarrow> usize option" where
  "previous_valid_split input start max_end =
     find (\<lambda>candidate. is_utf8_boundary input candidate \<and> \<not> splits_crlf input candidate)
       (rev [start + 1 ..< max_end + 1])"

definition choose_chunk_end :: "bytes \<Rightarrow> usize \<Rightarrow> ChunkerOptions \<Rightarrow> usize result" where
  "choose_chunk_end input start options =
     (let remaining = length input - start in
      if remaining \<le> target_chunk_size options then Ok (length input)
      else
        let target_end = start + target_chunk_size options;
            max_end = min ((start + max_chunk_size options) mod u64_end) (length input) in
        case last_line_boundary input start target_end of
          Some line_end \<Rightarrow> Ok line_end
        | None \<Rightarrow>
            (case last_line_boundary input start max_end of
               Some line_end \<Rightarrow> Ok line_end
             | None \<Rightarrow> ok_or (previous_valid_split input start max_end) ResourceLimitExceeded))"

section \<open>Lines\<close>

definition lower_bound :: "usize list \<Rightarrow> usize \<Rightarrow> usize" where
  "lower_bound values target = length (takeWhile (\<lambda>value. value < target) values)"

record LineInfo =
  li_line_starts :: "usize list"
  li_newline_mode :: NewlineMode

definition line_step :: "bytes \<Rightarrow> usize list \<times> u64 \<times> u64 \<Rightarrow> usize \<Rightarrow> usize list \<times> u64 \<times> u64" where
  "line_step input st index =
     (case st of (line_starts, lf_count, crlf_count) \<Rightarrow>
       if input ! index \<noteq> LF then st
       else
         let (lf_count, crlf_count) =
               (if index > 0 \<and> input ! (index - 1) = CR then (lf_count, crlf_count + 1)
                else (lf_count + 1, crlf_count)) in
         ((if index + 1 < length input then line_starts @ [index + 1] else line_starts),
          lf_count, crlf_count))"

definition LineInfo_from_bytes :: "bytes \<Rightarrow> LineInfo" where
  "LineInfo_from_bytes input =
     (if input = [] then \<lparr>li_line_starts = [], li_newline_mode = NewlineNone\<rparr>
      else
        case foldl (line_step input) ([0], 0, 0) [0 ..< length input] of
          (line_starts, lf_count, crlf_count) \<Rightarrow>
            \<lparr>li_line_starts = line_starts, li_newline_mode = from_counts lf_count crlf_count\<rparr>)"

section \<open>Planning\<close>

definition planned_chunk :: "bytes \<Rightarrow> usize list \<Rightarrow> usize \<Rightarrow> usize \<Rightarrow> usize \<Rightarrow> PlannedChunk result" where
  "planned_chunk input line_starts id0 start e =
     (let first_line = lower_bound line_starts start;
          line_end = lower_bound line_starts e;
          flags = (if start > 0 \<and> input ! (start - 1) \<noteq> LF then STARTS_WITH_LINE_CONTINUATION else 0) in
      rbind (usize_to_u64 id0) (\<lambda>id.
      rbind (usize_to_u64 start) (\<lambda>lo.
      rbind (usize_to_u64 (e - start)) (\<lambda>us.
      rbind (usize_to_u64 first_line) (\<lambda>fl.
      rbind (usize_to_u64 (line_end - first_line)) (\<lambda>lc.
      Ok \<lparr>pc_chunk_id = id, pc_logical_offset = lo, pc_uncompressed_size = us,
          pc_first_line = fl, pc_line_count = lc, pc_flags = flags\<rparr>))))))"

function plan_loop ::
  "bytes \<Rightarrow> ChunkerOptions \<Rightarrow> usize list \<Rightarrow> usize \<Rightarrow> PlannedChunk list \<Rightarrow> PlannedChunk list result"
where
  "plan_loop input options line_starts start chunks =
     (if start < length input then
        rbind (ok_or (checked_add (length chunks) 1) ResourceLimitExceeded) (\<lambda>n.
        rbind (enforce_chunk_table_entries ResourceLimits_default n) (\<lambda>_.
        rbind (choose_chunk_end input start options) (\<lambda>e.
        if e \<le> start then Err ResourceLimitExceeded
        else
          rbind (planned_chunk input line_starts (length chunks) start e) (\<lambda>chunk.
          plan_loop input options line_starts e (chunks @ [chunk])))))
      else Ok chunks)"
  by pat_completeness auto
termination
  by (relation "measure (\<lambda>(input, options, line_starts, start, chunks). length input - start)") auto

declare plan_loop.simps [simp del]

definition plan_chunks :: "bytes \<Rightarrow> ChunkerOptions \<Rightarrow> ChunkPlan result" where
  "plan_chunks input options =
     rbind (ChunkerOptions_validate options) (\<lambda>_.
     rbind (ok_or (from_utf8 input) InvalidUtf8) (\<lambda>_.
     let line_info = LineInfo_from_bytes input in
     if input = [] then
       Ok \<lparr>plan_chunk_list = [], plan_line_count = 0, plan_newline_mode = li_newline_mode line_info\<rparr>
     else
       rbind (plan_loop input options (li_line_starts line_info) 0 []) (\<lambda>chunks.
       rbind (usize_to_u64 (length (li_line_starts line_info))) (\<lambda>lines.
       Ok \<lparr>plan_chunk_list = chunks, plan_line_count = lines,
           plan_newline_mode = li_newline_mode line_info\<rparr>))))"

section \<open>Cuts\<close>

text \<open>A position where a chunk may end: between two characters and not inside CR LF.\<close>

definition good_cut :: "bytes \<Rightarrow> usize \<Rightarrow> bool" where
  "good_cut input e \<longleftrightarrow> is_utf8_boundary input e \<and> \<not> splits_crlf input e"

lemma is_utf8_boundary_iff:
  "is_utf8_boundary input i \<longleftrightarrow> i = 0 \<or> i = length input \<or> i < length input \<and> \<not> is_cont (input ! i)"
  by (auto simp: is_utf8_boundary_def get_def cont_mask)

lemma valid_utf8_slice:
  assumes "valid_utf8 input" and "is_utf8_boundary input a" and "is_utf8_boundary input b" and "a \<le> b"
  shows "valid_utf8 (slice input a b)"
proof -
  have le: "a \<le> length input" "b \<le> length input"
    using assms(2,3) by (auto simp: is_utf8_boundary_iff)
  have na: "\<not> is_cont (input ! a)" if "a < length input"
    using assms(1,2) that valid_utf8_before_cont [of input a] by (auto simp: is_utf8_boundary_iff)
  then have v: "valid_utf8 (drop a input)" using valid_utf8_split assms(1) le(1) by blast
  have "\<not> is_cont (input ! b)" if "b < length input"
    using assms(1,3) that valid_utf8_before_cont [of input b] by (auto simp: is_utf8_boundary_iff)
  then have "b - a < length (drop a input) \<Longrightarrow> \<not> is_cont (drop a input ! (b - a))"
    using assms(4) by simp
  then have "valid_utf8 (take (b - a) (drop a input))"
    using valid_utf8_split [OF v, of "b - a"] le by auto
  then show ?thesis by (simp add: slice_def)
qed

lemma foldl_last:
  assumes "foldl (\<lambda>b c. if P c then Some (c + 1) else b) None [s ..< e] = r"
  shows "case r of None \<Rightarrow> \<forall>c. s \<le> c \<longrightarrow> c < e \<longrightarrow> \<not> P c
     | Some k \<Rightarrow> s < k \<and> k \<le> e \<and> P (k - 1) \<and> (\<forall>c. k \<le> c \<longrightarrow> c < e \<longrightarrow> \<not> P c)"
  using assms
proof (induction e arbitrary: r)
  case (Suc e)
  show ?case
  proof (cases "s \<le> e")
    case True
    have "\<not> P c" if "c < Suc e" "c \<noteq> e \<Longrightarrow> \<not> P c" "\<not> P e" for c
      using that by (cases "c = e") auto
    then show ?thesis
      using Suc.IH [OF refl] Suc.prems True
      by (auto split: option.splits if_splits simp: less_Suc_eq)
  next
    case False
    then show ?thesis using Suc.prems by auto
  qed
qed auto

lemma last_line_boundary_Some:
  assumes "last_line_boundary input s e = Some k"
  shows "s < k \<and> k \<le> e \<and> input ! (k - 1) = LF"
  using assms foldl_last [OF refl, where P = "\<lambda>c. input ! c = LF" and s = s and e = e]
  by (auto simp: last_line_boundary_def Let_def split: option.splits if_splits)

lemma good_cut_after_LF:
  assumes "valid_utf8 input" and "0 < k" and "k \<le> length input" and "input ! (k - 1) = LF"
  shows "good_cut input k"
proof -
  have "\<not> is_cont (input ! k)" if "k < length input"
    using valid_utf8_before_cont [OF assms(1) that] assms(4) by (auto simp: word_le_nat_alt)
  then show ?thesis
    using assms by (auto simp: good_cut_def is_utf8_boundary_iff splits_crlf_def)
qed

lemma find_SomeD: "find P xs = Some x \<Longrightarrow> x \<in> set xs \<and> P x"
  by (induction xs) (auto split: if_splits)

lemma previous_valid_split_Some:
  assumes "previous_valid_split input s m = Some k"
  shows "s < k \<and> k \<le> m \<and> good_cut input k"
proof -
  have "k \<in> set (rev [s + 1 ..< m + 1]) \<and> good_cut input k"
    using find_SomeD [OF assms [unfolded previous_valid_split_def]] by (simp add: good_cut_def)
  then show ?thesis by auto
qed

lemma choose_chunk_end_sound:
  assumes "choose_chunk_end input start options = Ok e"
    and "start < length input" and "valid_utf8 input" and "ChunkerOptions_validate options = Ok ()"
  shows "start < e \<and> e \<le> length input \<and> e - start \<le> max_chunk_size options \<and> good_cut input e"
proof -
  let ?t = "start + target_chunk_size options"
  let ?m = "min ((start + max_chunk_size options) mod u64_end) (length input)"
  have opt: "target_chunk_size options \<le> max_chunk_size options"
    using assms(4) by (auto simp: ChunkerOptions_validate_def split: if_splits)
  have m: "(start + max_chunk_size options) mod u64_end \<le> start + max_chunk_size options"
    by (rule mod_less_eq_dividend)
  have LF: "good_cut input k" if "last_line_boundary input start b = Some k" "b \<le> length input" for k b
    using last_line_boundary_Some [OF that(1)] that(2) assms(3) by (intro good_cut_after_LF) auto
  consider (all) "length input - start \<le> target_chunk_size options" "e = length input"
    | (target) "length input - start > target_chunk_size options" "last_line_boundary input start ?t = Some e"
    | (max) "last_line_boundary input start ?m = Some e"
    | (split) "previous_valid_split input start ?m = Some e"
    using assms(1)
    by (auto simp: choose_chunk_end_def Let_def result_simps split: if_splits option.splits)
  then show ?thesis
  proof cases
    case all
    then show ?thesis using assms(2) opt by (auto simp: good_cut_def is_utf8_boundary_iff splits_crlf_def)
  next
    case target
    then show ?thesis using last_line_boundary_Some [OF target(2)] LF [OF target(2)] opt by auto
  next
    case max
    then have "start < e" "e \<le> (start + max_chunk_size options) mod u64_end" "e \<le> length input" "good_cut input e"
      using last_line_boundary_Some [OF max] LF [OF max] by auto
    then show ?thesis using order_trans [OF _ m, of e] by auto
  next
    case split
    then show ?thesis using previous_valid_split_Some [OF split] order_trans [OF _ m, of e] by auto
  qed
qed

lemma choose_chunk_end_total:
  assumes "start < length input" and "valid_utf8 input" and "ChunkerOptions_validate options = Ok ()"
    and "4 \<le> max_chunk_size options" and "length input + max_chunk_size options < u64_end"
  shows "is_ok (choose_chunk_end input start options)"
proof -
  let ?m = "min (start + max_chunk_size options) (length input)"
  have wrap: "(start + max_chunk_size options) mod u64_end = start + max_chunk_size options"
    using assms(1,5) by simp
  have "\<exists>k \<in> set (rev [start + 1 ..< ?m + 1]). good_cut input k"
  proof (cases "?m = length input")
    case True
    then show ?thesis using assms(1)
      by (intro bexI [of _ "length input"]) (auto simp: good_cut_def is_utf8_boundary_iff splits_crlf_def)
  next
    case False
    define c where "c = start + max_chunk_size options"
    have c: "?m = c" "c < length input" "start + 4 \<le> c" using False assms(4) by (auto simp: c_def)
    show ?thesis
    proof (cases "is_cont (input ! c)")
      case True
      obtain j where j: "j < c" "c \<le> j + 3" "\<not> is_cont (input ! j)" "0xC2 \<le> input ! j"
        using valid_utf8_boundary_near [OF assms(2) c(2) True] by auto
      then have "good_cut input j"
        using c by (auto simp: good_cut_def is_utf8_boundary_iff splits_crlf_def word_le_nat_alt)
      then show ?thesis using j c by (intro bexI [of _ j]) auto
    next
      case False
      show ?thesis
      proof (cases "splits_crlf input c")
        case True
        then have "good_cut input (c - 1)"
          using c by (auto simp: good_cut_def is_utf8_boundary_iff splits_crlf_def is_cont_def word_le_nat_alt)
        then show ?thesis using c by (intro bexI [of _ "c - 1"]) auto
      next
        case nocrlf: False
        then have "good_cut input c"
          using False c by (auto simp: good_cut_def is_utf8_boundary_iff)
        then show ?thesis using c by (intro bexI [of _ c]) auto
      qed
    qed
  qed
  then have "previous_valid_split input start ?m \<noteq> None"
    unfolding previous_valid_split_def find_None_iff by (auto simp: good_cut_def)
  then show ?thesis
    by (auto simp: choose_chunk_end_def Let_def wrap split: option.splits)
qed

section \<open>Line starts\<close>

definition is_line_start :: "bytes \<Rightarrow> usize \<Rightarrow> bool" where
  "is_line_start input i \<longleftrightarrow> i = 0 \<or> input ! (i - 1) = LF"

text \<open>Number of line starts in \<open>[a, b)\<close>, and the two kinds of newline.\<close>

definition lines_in :: "bytes \<Rightarrow> usize \<Rightarrow> usize \<Rightarrow> nat" where
  "lines_in input a b = length (filter (is_line_start input) [a ..< b])"

definition ends_crlf :: "bytes \<Rightarrow> usize \<Rightarrow> bool" where
  "ends_crlf input i \<longleftrightarrow> input ! i = LF \<and> 0 < i \<and> input ! (i - 1) = CR"

definition ends_lf :: "bytes \<Rightarrow> usize \<Rightarrow> bool" where
  "ends_lf input i \<longleftrightarrow> input ! i = LF \<and> \<not> (0 < i \<and> input ! (i - 1) = CR)"

lemma lines_in_append: "a \<le> b \<Longrightarrow> b \<le> c \<Longrightarrow> lines_in input a b + lines_in input b c = lines_in input a c"
  by (simp add: lines_in_def flip: length_append filter_append) (metis le_add_diff_inverse upt_add_eq_append)

lemma line_step_foldl:
  assumes "input \<noteq> []" and "n \<le> length input"
  shows "foldl (line_step input) ([0], 0, 0) [0 ..< n] =
     (filter (is_line_start input) [0 ..< min (n + 1) (length input)],
      length (filter (ends_lf input) [0 ..< n]), length (filter (ends_crlf input) [0 ..< n]))"
  using assms(2)
proof (induction n)
  case 0
  then show ?case using assms(1) by (cases input) (auto simp: is_line_start_def)
next
  case (Suc n)
  then have IH: "foldl (line_step input) ([0], 0, 0) [0 ..< n] =
     (filter (is_line_start input) [0 ..< n + 1],
      length (filter (ends_lf input) [0 ..< n]), length (filter (ends_crlf input) [0 ..< n]))" by simp
  have "foldl (line_step input) ([0], 0, 0) [0 ..< Suc n] = line_step input
     (filter (is_line_start input) [0 ..< n + 1],
      length (filter (ends_lf input) [0 ..< n]), length (filter (ends_crlf input) [0 ..< n])) n"
    by (simp add: IH)
  also have "\<dots> = (filter (is_line_start input) [0 ..< min (Suc n + 1) (length input)],
      length (filter (ends_lf input) [0 ..< Suc n]), length (filter (ends_crlf input) [0 ..< Suc n]))"
  proof -
    have snoc: "filter Q [0 ..< Suc n] = filter Q [0 ..< n] @ (if Q n then [n] else [])" for Q
      by simp
    have mn: "[0 ..< min (Suc n + 1) (length input)] = (if Suc n < length input then [0 ..< n + 1] @ [Suc n] else [0 ..< n + 1])"
      using Suc.prems by (auto simp: min_def)
    show ?thesis
      unfolding snoc [of "ends_lf input"] snoc [of "ends_crlf input"] mn
      by (auto simp: line_step_def is_line_start_def ends_lf_def ends_crlf_def Let_def)
  qed
  finally show ?case .
qed

lemma LineInfo_from_bytes_eq:
  "LineInfo_from_bytes input =
     \<lparr>li_line_starts = filter (is_line_start input) [0 ..< length input],
      li_newline_mode = from_counts (length (filter (ends_lf input) [0 ..< length input]))
        (length (filter (ends_crlf input) [0 ..< length input]))\<rparr>"
proof (cases "input = []")
  case False
  then show ?thesis
    using line_step_foldl [of input "length input"] by (simp add: LineInfo_from_bytes_def)
qed (simp add: LineInfo_from_bytes_def from_counts_def)

lemma takeWhile_less_filter:
  assumes "t \<le> n"
  shows "takeWhile (\<lambda>v. v < t) (filter P [0 ..< n]) = filter P [0 ..< t]"
proof -
  have "filter P [0 ..< n] = filter P [0 ..< t] @ filter P [t ..< n]"
    using assms by (metis filter_append le_add_diff_inverse upt_add_eq_append zero_le)
  moreover have "takeWhile (\<lambda>v. v < t) (filter P [t ..< n]) = []"
    by (auto simp: takeWhile_eq_Nil_iff dest: hd_in_set)
  ultimately show ?thesis by (simp add: takeWhile_append)
qed

lemma lower_bound_lines:
  "t \<le> length input \<Longrightarrow>
   lower_bound (filter (is_line_start input) [0 ..< length input]) t = lines_in input 0 t"
  by (simp add: lower_bound_def takeWhile_less_filter lines_in_def)

section \<open>The planned chunks\<close>

fun planned_from :: "bytes \<Rightarrow> ChunkerOptions \<Rightarrow> nat \<Rightarrow> usize \<Rightarrow> PlannedChunk list \<Rightarrow> bool" where
  "planned_from input options n start [] \<longleftrightarrow> start = length input"
| "planned_from input options n start (c # cs) \<longleftrightarrow>
     (let e = start + pc_uncompressed_size c in
      pc_chunk_id c = n \<and> pc_logical_offset c = start \<and>
      0 < pc_uncompressed_size c \<and> pc_uncompressed_size c \<le> max_chunk_size options \<and>
      e \<le> length input \<and> good_cut input e \<and>
      pc_first_line c = lines_in input 0 start \<and> pc_line_count c = lines_in input start e \<and>
      pc_flags c = (if is_line_start input start then 0 else STARTS_WITH_LINE_CONTINUATION) \<and>
      planned_from input options (n + 1) e cs)"

lemma planned_chunk_sound:
  assumes "planned_chunk input (filter (is_line_start input) [0 ..< length input]) n start e = Ok c"
    and "start < e" and "e \<le> length input"
  shows "pc_chunk_id c = n \<and> pc_logical_offset c = start \<and> pc_uncompressed_size c = e - start \<and>
     pc_first_line c = lines_in input 0 start \<and> pc_line_count c = lines_in input start e \<and>
     pc_flags c = (if is_line_start input start then 0 else STARTS_WITH_LINE_CONTINUATION)"
  using assms lines_in_append [of 0 start e input]
  by (auto simp: planned_chunk_def Let_def rbind_Ok_iff width_simps lower_bound_lines is_line_start_def)

lemma planned_chunk_total:
  assumes "start < e" and "e \<le> length input" and "length input < u64_end" and "n < u64_end"
  shows "is_ok (planned_chunk input (filter (is_line_start input) [0 ..< length input]) n start e)"
proof -
  have "lines_in input 0 t \<le> t" for t
    using length_filter_le [of "is_line_start input" "[0 ..< t]"] by (simp add: lines_in_def)
  then have "lines_in input 0 t < u64_end" if "t \<le> e" for t
    using that assms(2,3) by (meson le_less_trans order_trans)
  moreover from this [of e] have "lines_in input 0 e - k < u64_end" for k
    by (auto intro: le_less_trans [OF diff_le_self])
  ultimately show ?thesis using assms
    by (auto simp: planned_chunk_def Let_def lower_bound_lines)
qed

lemma plan_loop_sound:
  assumes "plan_loop input options (filter (is_line_start input) [0 ..< length input]) start chunks = Ok cs"
    and "start \<le> length input" and "valid_utf8 input" and "ChunkerOptions_validate options = Ok ()"
  shows "\<exists>new. cs = chunks @ new \<and> planned_from input options (length chunks) start new"
  using assms
proof (induction input options "filter (is_line_start input) [0 ..< length input]" start chunks
    rule: plan_loop.induct)
  case (1 input options start chunks)
  let ?ls = "filter (is_line_start input) [0 ..< length input]"
  show ?case
  proof (cases "start < length input")
    case True
    from "1.prems"(1) True obtain n e c where
      n: "checked_add (length chunks) 1 = Some n" "enforce_chunk_table_entries ResourceLimits_default n = Ok ()"
      and e: "choose_chunk_end input start options = Ok e" and "\<not> e \<le> start"
      and c: "planned_chunk input ?ls (length chunks) start e = Ok c"
      and rest: "plan_loop input options ?ls e (chunks @ [c]) = Ok cs"
      by (subst (asm) plan_loop.simps) (auto simp: rbind_Ok_iff result_simps)
    have ce: "start < e \<and> e \<le> length input \<and> e - start \<le> max_chunk_size options \<and> good_cut input e"
      using choose_chunk_end_sound [OF e True "1.prems"(3,4)] .
    obtain new where new: "cs = (chunks @ [c]) @ new" "planned_from input options (length (chunks @ [c])) e new"
      using "1.hyps" [OF True _ n(2) e _ c rest] n(1) ce "1.prems"(3,4) by auto
    then have "planned_from input options (length chunks) start (c # new)"
      using planned_chunk_sound [OF c] ce by (simp add: Let_def)
    then show ?thesis using new(1) by (intro exI [of _ "c # new"]) simp
  next
    case False
    then show ?thesis using "1.prems" by (subst (asm) plan_loop.simps) auto
  qed
qed

definition table_capacity :: nat where
  "table_capacity = 524288"

lemma default_capacity:
  "enforce_chunk_table_entries ResourceLimits_default n = Ok () \<longleftrightarrow> n \<le> table_capacity"
  by (auto simp: enforce_chunk_table_entries_Ok_iff ResourceLimits_default_def CHUNK_ENTRY_LEN_def
      u64_end_def table_capacity_def)

section \<open>The greedy cuts\<close>

text \<open>
  Where the chunks of a text end, without the loops that search for the places. A chunk
  takes the rest of the text when that is not longer than the target; otherwise it ends at
  the last line end within the target, failing that at the last line end within the maximal
  size, and failing that at the last place within the maximal size where the text may be cut.
\<close>

definition greatest :: "(nat \<Rightarrow> bool) \<Rightarrow> nat \<Rightarrow> bool" where
  "greatest P e \<longleftrightarrow> P e \<and> (\<forall>k. P k \<longrightarrow> k \<le> e)"

definition line_end_within :: "bytes \<Rightarrow> usize \<Rightarrow> usize \<Rightarrow> usize \<Rightarrow> bool" where
  "line_end_within input start b e \<longleftrightarrow> start < e \<and> e \<le> b \<and> input ! (e - 1) = LF"

definition good_cut_within :: "bytes \<Rightarrow> usize \<Rightarrow> usize \<Rightarrow> usize \<Rightarrow> bool" where
  "good_cut_within input start b e \<longleftrightarrow> start < e \<and> e \<le> b \<and> good_cut input e"

definition greedy_cut :: "bytes \<Rightarrow> ChunkerOptions \<Rightarrow> usize \<Rightarrow> usize \<Rightarrow> bool" where
  "greedy_cut input options start e \<longleftrightarrow>
     (let target = start + target_chunk_size options;
          limit = min (start + max_chunk_size options) (length input) in
      if length input \<le> target then e = length input
      else if \<exists>k. line_end_within input start target k then greatest (line_end_within input start target) e
      else if \<exists>k. line_end_within input start limit k then greatest (line_end_within input start limit) e
      else greatest (good_cut_within input start limit) e)"

fun greedy_cuts :: "bytes \<Rightarrow> ChunkerOptions \<Rightarrow> usize \<Rightarrow> usize list \<Rightarrow> bool" where
  "greedy_cuts input options start [] \<longleftrightarrow> start = length input"
| "greedy_cuts input options start (e # es) \<longleftrightarrow>
     start < length input \<and> greedy_cut input options start e \<and> greedy_cuts input options e es"

lemma greatest_unique: "greatest P a \<Longrightarrow> greatest P b \<Longrightarrow> a = b"
  by (auto simp: greatest_def intro: le_antisym)

lemma greedy_cut_unique:
  "greedy_cut input options start a \<Longrightarrow> greedy_cut input options start b \<Longrightarrow> a = b"
  by (auto simp: greedy_cut_def Let_def intro: greatest_unique split: if_splits)

lemma greedy_cuts_unique:
  assumes "greedy_cuts input options start es" and "greedy_cuts input options start es'"
  shows "es = es'"
  using assms
proof (induction es arbitrary: start es')
  case Nil
  then show ?case by (cases es') auto
next
  case (Cons e es)
  then show ?case by (cases es') (auto dest: greedy_cut_unique)
qed

lemma last_line_boundary_greatest:
  "case last_line_boundary input start b of
     None \<Rightarrow> \<not> (\<exists>k. line_end_within input start b k)
   | Some e \<Rightarrow> greatest (line_end_within input start b) e"
proof -
  have crlf: "\<not> splits_crlf input k" if "input ! (k - 1) = LF" for k
    using that by (simp add: splits_crlf_def)
  have before: "k \<le> e" if "\<forall>c. e \<le> c \<longrightarrow> c < b \<longrightarrow> input ! c \<noteq> LF" "line_end_within input start b k" for k e
    using that(2) that(1) [rule_format, of "k - 1"] by (force simp: line_end_within_def)
  have none: "\<not> line_end_within input start b k" if "\<forall>c. start \<le> c \<longrightarrow> c < b \<longrightarrow> input ! c \<noteq> LF" for k
    using that [rule_format, of "k - 1"] by (auto simp: line_end_within_def)
  define r where "r = foldl (\<lambda>boundary cursor. if input ! cursor = LF then Some (cursor + 1) else boundary)
    None [start ..< b]"
  note last = foldl_last [OF r_def [symmetric]]
  show ?thesis
  proof (cases r)
    case None
    then have "last_line_boundary input start b = None"
      by (simp add: last_line_boundary_def r_def [symmetric])
    then show ?thesis using last None none by simp
  next
    case (Some e)
    then have e: "start < e" "e \<le> b" "input ! (e - 1) = LF" "\<forall>c. e \<le> c \<longrightarrow> c < b \<longrightarrow> input ! c \<noteq> LF"
      using last by auto
    then have "last_line_boundary input start b = Some e"
      using Some crlf [of e] by (simp add: last_line_boundary_def r_def [symmetric])
    then show ?thesis using e before [OF e(4)] by (simp add: greatest_def line_end_within_def)
  qed
qed

lemma find_rev_upt:
  assumes "find P (rev [a ..< b]) = Some e"
  shows "P e \<and> a \<le> e \<and> e < b \<and> (\<forall>k. P k \<longrightarrow> a \<le> k \<longrightarrow> k < b \<longrightarrow> k \<le> e)"
  using assms
proof (induction b)
  case (Suc b)
  then show ?case by (cases "a \<le> b") (auto split: if_splits simp: less_Suc_eq)
qed simp

lemma previous_valid_split_greatest:
  assumes "previous_valid_split input start b = Some e"
  shows "greatest (good_cut_within input start b) e"
  using find_rev_upt [OF assms [unfolded previous_valid_split_def]]
  by (auto simp: greatest_def good_cut_within_def good_cut_def)

lemma choose_chunk_end_greedy:
  assumes "choose_chunk_end input start options = Ok e"
    and "start < length input" and "length input + max_chunk_size options < u64_end"
  shows "greedy_cut input options start e"
proof -
  have wrap: "(start + max_chunk_size options) mod u64_end = start + max_chunk_size options"
    using assms(2,3) by simp
  let ?target = "start + target_chunk_size options"
  let ?limit = "min (start + max_chunk_size options) (length input)"
  have le: "length input - start \<le> target_chunk_size options \<longleftrightarrow> length input \<le> ?target"
    using assms(2) by auto
  have ex: "\<exists>k. P k" if "greatest P k" for P k using that by (auto simp: greatest_def)
  show ?thesis
    using assms(1) last_line_boundary_greatest [of input start ?target]
      last_line_boundary_greatest [of input start ?limit] previous_valid_split_greatest [of input start ?limit e]
    unfolding choose_chunk_end_def greedy_cut_def Let_def wrap le
    by (auto simp: result_simps dest: ex split: if_splits option.splits)
qed

lemma greedy_cuts_ex:
  assumes "start \<le> length input" and "valid_utf8 input" and "ChunkerOptions_validate options = Ok ()"
    and "4 \<le> max_chunk_size options" and "length input + max_chunk_size options < u64_end"
  shows "\<exists>es. greedy_cuts input options start es"
  using assms(1)
proof (induction "length input - start" arbitrary: start rule: less_induct)
  case less
  show ?case
  proof (cases "start < length input")
    case True
    obtain e where e: "choose_chunk_end input start options = Ok e"
      using choose_chunk_end_total [OF True assms(2-5)] by (auto simp: is_ok_iff)
    have "start < e" "e \<le> length input"
      using choose_chunk_end_sound [OF e True assms(2,3)] by auto
    then obtain es where "greedy_cuts input options e es"
      using less.hyps [of e] True by (blast intro: diff_less_mono2)
    then show ?thesis
      using True choose_chunk_end_greedy [OF e True assms(5)] by (intro exI [of _ "e # es"]) simp
  next
    case False
    then show ?thesis using less.prems by (intro exI [of _ "[]"]) simp
  qed
qed

definition pc_end :: "PlannedChunk \<Rightarrow> u64" where
  "pc_end c = pc_logical_offset c + pc_uncompressed_size c"

lemma plan_loop_greedy:
  assumes "greedy_cuts input options start es" and "length chunks \<le> table_capacity"
    and "valid_utf8 input" and "ChunkerOptions_validate options = Ok ()"
    and "4 \<le> max_chunk_size options" and "length input + max_chunk_size options < u64_end"
  shows "if length chunks + length es \<le> table_capacity
     then \<exists>new. plan_loop input options (filter (is_line_start input) [0 ..< length input]) start chunks =
       Ok (chunks @ new) \<and> map pc_end new = es
     else plan_loop input options (filter (is_line_start input) [0 ..< length input]) start chunks =
       Err ResourceLimitExceeded"
  using assms(1,2)
proof (induction es arbitrary: start chunks)
  case Nil
  then show ?case by (subst plan_loop.simps) auto
next
  case (Cons e es)
  let ?ls = "filter (is_line_start input) [0 ..< length input]"
  have start: "start < length input" using Cons.prems by simp
  have n: "checked_add (length chunks) 1 = Some (length chunks + 1)" "length chunks < u64_end"
    using Cons.prems(2) by (auto simp: checked_add_def table_capacity_def u64_end_def)
  show ?case
  proof (cases "length chunks + 1 \<le> table_capacity")
    case False
    then have "enforce_chunk_table_entries ResourceLimits_default (length chunks + 1) = Err ResourceLimitExceeded"
      using enforce_chunk_table_entries_Err default_capacity by auto
    then have "plan_loop input options ?ls start chunks = Err ResourceLimitExceeded"
      using start n by (subst plan_loop.simps) auto
    then show ?thesis using False by auto
  next
    case True
    then have room: "enforce_chunk_table_entries ResourceLimits_default (length chunks + 1) = Ok ()"
      using default_capacity by simp
    obtain e' where e': "choose_chunk_end input start options = Ok e'"
      using choose_chunk_end_total [OF start assms(3-6)] by (auto simp: is_ok_iff)
    with greedy_cut_unique choose_chunk_end_greedy [OF e' start assms(6)] Cons.prems(1)
    have e: "choose_chunk_end input start options = Ok e" by auto
    have ce: "start < e" "e \<le> length input"
      using choose_chunk_end_sound [OF e start assms(3,4)] by auto
    obtain c where c: "planned_chunk input ?ls (length chunks) start e = Ok c"
      using planned_chunk_total [OF ce _ n(2)] assms(6) by (auto simp: is_ok_iff)
    have step: "plan_loop input options ?ls start chunks = plan_loop input options ?ls e (chunks @ [c])"
      using start n room e ce c by (subst plan_loop.simps) simp
    have "pc_end c = e" using planned_chunk_sound [OF c ce] ce by (simp add: pc_end_def)
    then show ?thesis
      using Cons.IH [of e "chunks @ [c]"] Cons.prems(1) True
      unfolding step by (auto split: if_splits)
  qed
qed

definition chunk_ok :: "bytes \<Rightarrow> ChunkerOptions \<Rightarrow> PlannedChunk \<Rightarrow> bool" where
  "chunk_ok input options c \<longleftrightarrow>
     (let start = pc_logical_offset c; e = start + pc_uncompressed_size c in
      0 < pc_uncompressed_size c \<and> pc_uncompressed_size c \<le> max_chunk_size options \<and>
      e \<le> length input \<and> good_cut input e \<and>
      pc_first_line c = lines_in input 0 start \<and> pc_line_count c = lines_in input start e \<and>
      pc_flags c = (if is_line_start input start then 0 else STARTS_WITH_LINE_CONTINUATION))"

lemma planned_from_nth:
  assumes "planned_from input options n start cs" and "i < length cs"
  shows "pc_chunk_id (cs ! i) = n + i \<and>
     pc_logical_offset (cs ! i) = start + sum_list (map pc_uncompressed_size (take i cs)) \<and>
     chunk_ok input options (cs ! i)"
  using assms
proof (induction cs arbitrary: n start i)
  case (Cons c cs)
  show ?case
  proof (cases i)
    case 0
    then show ?thesis using Cons.prems by (simp add: chunk_ok_def Let_def)
  next
    case (Suc j)
    then show ?thesis using Cons.prems Cons.IH [of "n + 1" "start + pc_uncompressed_size c" j]
      by (simp add: Let_def add.assoc)
  qed
qed simp

lemma planned_from_concat:
  assumes "planned_from input options n start cs" and "start \<le> length input"
  shows "concat (map (\<lambda>c. slice input (pc_logical_offset c) (pc_logical_offset c + pc_uncompressed_size c)) cs) =
    drop start input"
  using assms
proof (induction cs arbitrary: n start)
  case (Cons c cs)
  then show ?case
    by (auto simp: Let_def eq_append_slice [OF refl refl, symmetric])
qed simp

lemma planned_from_start_cut:
  assumes "planned_from input options n start cs" and "i < length cs" and "is_utf8_boundary input start"
  shows "is_utf8_boundary input (pc_logical_offset (cs ! i))"
  using assms
proof (induction cs arbitrary: n start i)
  case (Cons c cs)
  then show ?case by (cases i) (auto simp: Let_def good_cut_def)
qed simp

lemma planned_from_lines:
  assumes "planned_from input options n start cs" and "start \<le> length input"
  shows "sum_list (map pc_line_count cs) = lines_in input start (length input)"
  using assms
proof (induction cs arbitrary: n start)
  case Nil
  then show ?case by (simp add: lines_in_def)
next
  case (Cons c cs)
  then show ?case
    using lines_in_append [of start "start + pc_uncompressed_size c" "length input" input]
    by (auto simp: Let_def)
qed

lemma plan_chunks_Ok:
  assumes "plan_chunks input options = Ok plan"
  shows "valid_utf8 input" and "ChunkerOptions_validate options = Ok ()"
    and "planned_from input options 0 0 (plan_chunk_list plan)"
    and "plan_line_count plan = lines_in input 0 (length input)"
    and "plan_newline_mode plan = from_counts (length (filter (ends_lf input) [0 ..< length input]))
        (length (filter (ends_crlf input) [0 ..< length input]))"
proof -
  have v: "valid_utf8 input" "ChunkerOptions_validate options = Ok ()"
    using assms by (auto simp: plan_chunks_def rbind_Ok_iff result_simps)
  have "planned_from input options 0 0 cs"
    if "plan_loop input options (filter (is_line_start input) [0 ..< length input]) 0 [] = Ok cs" for cs
    using plan_loop_sound [OF that] v by auto
  then show "planned_from input options 0 0 (plan_chunk_list plan)"
    and "plan_line_count plan = lines_in input 0 (length input)"
    and "plan_newline_mode plan = from_counts (length (filter (ends_lf input) [0 ..< length input]))
        (length (filter (ends_crlf input) [0 ..< length input]))"
    using assms v
    by (auto simp: plan_chunks_def rbind_Ok_iff result_simps width_simps LineInfo_from_bytes_eq Let_def
        lines_in_def from_counts_def split: if_splits)
qed (use assms in \<open>auto simp: plan_chunks_def rbind_Ok_iff result_simps\<close>)

lemma plan_chunks_greedy:
  assumes cuts: "greedy_cuts input options 0 cuts"
    and "valid_utf8 input" and "ChunkerOptions_validate options = Ok ()"
    and "4 \<le> max_chunk_size options" and "length input + max_chunk_size options < u64_end"
  shows "if length cuts \<le> table_capacity
     then \<exists>plan. plan_chunks input options = Ok plan \<and> map pc_end (plan_chunk_list plan) = cuts
     else plan_chunks input options = Err ResourceLimitExceeded"
proof -
  let ?ls = "filter (is_line_start input) [0 ..< length input]"
  have "length ?ls \<le> length input"
    using length_filter_le [of "is_line_start input" "[0 ..< length input]"] by simp
  then have lines: "usize_to_u64 (length ?ls) = Ok (length ?ls)" using assms(5) by simp
  have loop: "if length cuts \<le> table_capacity
      then \<exists>new. plan_loop input options ?ls 0 [] = Ok new \<and> map pc_end new = cuts
      else plan_loop input options ?ls 0 [] = Err ResourceLimitExceeded"
    using plan_loop_greedy [OF cuts _ assms(2-5), of "[]", unfolded append_Nil list.size add_0, OF le0] .
  have "cuts = []" if "input = []" using cuts that by (cases cuts) auto
  then show ?thesis
    using loop assms(2,3) lines
    by (auto simp: plan_chunks_def from_utf8_def LineInfo_from_bytes_eq Let_def split: if_splits)
qed

section \<open>Properties\<close>

definition sample_options :: ChunkerOptions where
  "sample_options = \<lparr>target_chunk_size = 4, max_chunk_size = 5\<rparr>"

text \<open>The text \<open>ab\<close>, carriage return, line feed, e acute, \<open>cd\<close>, line feed.\<close>

definition sample_text :: bytes where
  "sample_text = [0x61, 0x62, CR, LF, 0xC3, 0xA9, 0x63, 0x64, LF]"

lemma sample_text_valid: "valid_utf8 sample_text"
  by (simp add: sample_text_def valid_utf8.simps utf8_len2_def is_cont_def)

text \<open>
  C16: a plan is a partition of the input. The chunks, in order and numbered from 0, are
  consecutive slices that concatenate to the input; none is empty or larger than the
  maximal chunk size; each is valid UTF-8 on its own; and no cut separates a carriage
  return from its line feed.
\<close>

theorem plan_chunks_partition:
  assumes "plan_chunks input options = Ok plan"
  shows "concat (map (\<lambda>c. slice input (pc_logical_offset c) (pc_logical_offset c + pc_uncompressed_size c))
       (plan_chunk_list plan)) = input \<and>
     (\<forall>i < length (plan_chunk_list plan). let c = plan_chunk_list plan ! i; e = pc_logical_offset c + pc_uncompressed_size c in
        pc_chunk_id c = i \<and>
        pc_logical_offset c = sum_list (map pc_uncompressed_size (take i (plan_chunk_list plan))) \<and>
        0 < pc_uncompressed_size c \<and> pc_uncompressed_size c \<le> max_chunk_size options \<and>
        valid_utf8 (slice input (pc_logical_offset c) e) \<and>
        \<not> (e < length input \<and> input ! (e - 1) = CR \<and> input ! e = LF))"
proof -
  note ok = plan_chunks_Ok [OF assms]
  have "valid_utf8 (slice input (pc_logical_offset c) (pc_logical_offset c + pc_uncompressed_size c))"
    if "i < length (plan_chunk_list plan)" "c = plan_chunk_list plan ! i" for i c
    using that planned_from_nth [OF ok(3) that(1)] planned_from_start_cut [OF ok(3) that(1)] ok(1)
    by (intro valid_utf8_slice) (auto simp: chunk_ok_def Let_def good_cut_def is_utf8_boundary_iff)
  moreover have "\<not> (e < length input \<and> input ! (e - 1) = CR \<and> input ! e = LF)"
    if "i < length (plan_chunk_list plan)" "c = plan_chunk_list plan ! i"
      "e = pc_logical_offset c + pc_uncompressed_size c" for i c e
    using planned_from_nth [OF ok(3) that(1)] that(2,3)
    by (auto simp: chunk_ok_def Let_def good_cut_def splits_crlf_def)
  ultimately show ?thesis
    using planned_from_concat [OF ok(3)] planned_from_nth [OF ok(3)] unfolding chunk_ok_def Let_def
    by (simp only: drop_0) simp
qed

text \<open>
  C28: the line metadata of a plan is exact. A line starts at byte 0 and after every line
  feed. For each chunk the first line is the number of line starts before the chunk, the
  line count is the number of line starts in it, and the continuation flag is set exactly
  when the chunk does not begin at a line start; the counts add up to the number of lines
  of the whole input, and the newline mode says which of the two newline forms occur.
\<close>

theorem plan_chunks_lines:
  assumes "plan_chunks input options = Ok plan"
  shows "(\<forall>c \<in> set (plan_chunk_list plan).
        pc_first_line c = lines_in input 0 (pc_logical_offset c) \<and>
        pc_line_count c = lines_in input (pc_logical_offset c) (pc_logical_offset c + pc_uncompressed_size c) \<and>
        pc_flags c = (if is_line_start input (pc_logical_offset c) then 0 else 1)) \<and>
     sum_list (map pc_line_count (plan_chunk_list plan)) = plan_line_count plan \<and>
     plan_line_count plan = lines_in input 0 (length input) \<and>
     plan_newline_mode plan =
       (case (\<exists>i < length input. ends_lf input i, \<exists>i < length input. ends_crlf input i) of
          (False, False) \<Rightarrow> NewlineNone | (True, False) \<Rightarrow> Lf | (False, True) \<Rightarrow> Crlf | (True, True) \<Rightarrow> Mixed)"
proof -
  note ok = plan_chunks_Ok [OF assms]
  have some: "0 < length (filter P [0 ..< n]) \<longleftrightarrow> (\<exists>i < n. P i)" for P n
    by (auto simp: length_greater_0_conv filter_empty_conv simp del: length_0_conv)
  have "chunk_ok input options c" if "c \<in> set (plan_chunk_list plan)" for c
    using that planned_from_nth [OF ok(3)] by (auto simp: in_set_conv_nth)
  then show ?thesis
    using ok(4) planned_from_lines [OF ok(3)] unfolding ok(5) from_counts_def some
    by (auto simp: chunk_ok_def Let_def STARTS_WITH_LINE_CONTINUATION_def)
qed

text \<open>
  C29: planning is the greedy cut of the text, and it fails only for want of table entries. For
  valid UTF-8 input, valid options with a maximal chunk size of at least four bytes, and sizes
  whose sum \<open>length + max_chunk_size\<close> does not wrap, exactly one list of cuts is greedy: each
  chunk takes the rest of the text when it fits the target, else ends at the last line end
  within the target, else at the last line end within the maximal size, else at the last
  place within it that splits no character and no CR LF. When that list has at most 524288
  cuts, the planner returns a plan whose chunks end exactly there; when it has more, the
  planner reports the resource limit of the default chunk table.
\<close>

theorem plan_chunks_total:
  assumes "valid_utf8 input" and "ChunkerOptions_validate options = Ok ()"
    and "4 \<le> max_chunk_size options" and "length input + max_chunk_size options < u64_end"
  shows "\<exists>cuts. (\<forall>es. greedy_cuts input options 0 es \<longleftrightarrow> es = cuts) \<and>
     (if length cuts \<le> 524288
      then \<exists>plan. plan_chunks input options = Ok plan \<and>
        map (\<lambda>c. pc_logical_offset c + pc_uncompressed_size c) (plan_chunk_list plan) = cuts
      else plan_chunks input options = Err ResourceLimitExceeded)"
proof -
  obtain cuts where cuts: "greedy_cuts input options 0 cuts"
    using greedy_cuts_ex [OF _ assms] by auto
  then show ?thesis
    using plan_chunks_greedy [OF cuts assms] greedy_cuts_unique unfolding pc_end_def table_capacity_def
    by (intro exI [of _ cuts]) blast
qed

text \<open>The sample is cut after its CR LF; the rest exceeds the target, and ends with its line feed.\<close>

lemma sample_greedy_cuts: "greedy_cuts sample_text sample_options 0 [4, 9]"
proof -
  have "greatest (line_end_within sample_text 0 4) 4" "greatest (line_end_within sample_text 4 9) 9"
    by (auto simp: greatest_def line_end_within_def sample_text_def)
  moreover have "\<not> line_end_within sample_text 4 8 k" for k
  proof
    assume "line_end_within sample_text 4 8 k"
    then have "k \<in> {5, 6, 7, 8}" "sample_text ! (k - 1) = LF" by (auto simp: line_end_within_def)
    then show False by (auto simp: sample_text_def)
  qed
  moreover have "\<exists>k. line_end_within sample_text 0 4 k" "\<exists>k. line_end_within sample_text 4 9 k"
    using calculation(1,2) by (auto simp: greatest_def)
  moreover have "length sample_text = 9" by (simp add: sample_text_def)
  ultimately show ?thesis by (auto simp: greedy_cut_def Let_def sample_options_def)
qed

theorem plan_chunks_total_witness:
  "\<exists>plan. plan_chunks sample_text sample_options = Ok plan \<and>
     map (\<lambda>c. pc_logical_offset c + pc_uncompressed_size c) (plan_chunk_list plan) = [4, 9]"
proof -
  have "length sample_text + max_chunk_size sample_options < u64_end"
    by (simp add: sample_text_def sample_options_def u64_end_def)
  moreover have "ChunkerOptions_validate sample_options = Ok ()" "4 \<le> max_chunk_size sample_options"
    by (simp_all add: sample_options_def ChunkerOptions_validate_def)
  ultimately obtain cuts where cuts: "\<forall>es. greedy_cuts sample_text sample_options 0 es \<longleftrightarrow> es = cuts"
    "if length cuts \<le> 524288
      then \<exists>plan. plan_chunks sample_text sample_options = Ok plan \<and>
        map (\<lambda>c. pc_logical_offset c + pc_uncompressed_size c) (plan_chunk_list plan) = cuts
      else plan_chunks sample_text sample_options = Err ResourceLimitExceeded"
    using plan_chunks_total [OF sample_text_valid] by blast
  have "cuts = [4, 9]" using cuts(1) [rule_format, of "[4, 9]"] sample_greedy_cuts by blast
  with cuts(2) show ?thesis by simp
qed

lemma sample_plan:
  obtains plan where "plan_chunks sample_text sample_options = Ok plan" and "map pc_end (plan_chunk_list plan) = [4, 9]"
  using plan_chunks_greedy [OF sample_greedy_cuts sample_text_valid] that
  by (auto simp: sample_options_def sample_text_def ChunkerOptions_validate_def table_capacity_def u64_end_def)

lemma sample_plan_ex: "\<exists>plan. plan_chunks sample_text sample_options = Ok plan"
  by (rule sample_plan) blast

theorem plan_chunks_partition_witness:
  "\<exists>plan. plan_chunks sample_text sample_options = Ok plan \<and>
     concat (map (\<lambda>c. slice sample_text (pc_logical_offset c) (pc_logical_offset c + pc_uncompressed_size c))
       (plan_chunk_list plan)) = sample_text"
  using sample_plan_ex plan_chunks_partition by blast

theorem plan_chunks_lines_witness:
  "\<exists>plan. plan_chunks sample_text sample_options = Ok plan \<and> plan_line_count plan = 2"
proof -
  obtain plan where p: "plan_chunks sample_text sample_options = Ok plan" using sample_plan_ex ..
  have "lines_in sample_text 0 (length sample_text) = 2"
    by (simp add: lines_in_def is_line_start_def sample_text_def upt_rec)
  with plan_chunks_lines [OF p] p show ?thesis by auto
qed

end
