(* ===== verification/Dense_Line_Index.thy ===== *)
theory Dense_Line_Index
  imports Chunker
begin

text \<open>
  The dense line index (src/src/dense_line_index.rs): for every chunk the offsets of the
  lines that start in it, stored as variable-length integers of the differences. The cursor
  of the source is returned updated; failing allocations (\<open>reserve_exact\<close>) are not modelled.
  A \<open>DenseLineEntry\<close> takes 32 bytes (a \<open>u64\<close> and a three-word vector) and a \<open>u64\<close> 8.
\<close>

record DenseLineEntry =
  dl_chunk_id :: u64
  dl_line_start_offsets :: "u64 list"

record DenseLineIndex =
  dense_entries :: "DenseLineEntry list"

definition SIZE_OF_DENSE_LINE_ENTRY :: usize where
  "SIZE_OF_DENSE_LINE_ENTRY = 32"

definition SIZE_OF_U64 :: usize where
  "SIZE_OF_U64 = 8"

section \<open>Variable-length integers\<close>

function write_varuint :: "u64 \<Rightarrow> bytes" where
  "write_varuint value =
     (if value \<ge> 0x80
      then ((word_of_nat value AND 0x7f) OR 0x80) # write_varuint (drop_bit 7 value)
      else [word_of_nat value])"
  by pat_completeness auto
termination
  by (relation "measure id") (auto simp: drop_bit_eq_div)

declare write_varuint.simps [simp del]

function varuint_len :: "u64 \<Rightarrow> u64" where
  "varuint_len value = (if value \<ge> 0x80 then varuint_len (drop_bit 7 value) + 1 else 1)"
  by pat_completeness auto
termination
  by (relation "measure id") (auto simp: drop_bit_eq_div)

declare varuint_len.simps [simp del]

function read_varuint_loop :: "bytes \<Rightarrow> usize \<Rightarrow> u64 \<Rightarrow> u32 \<Rightarrow> nat \<Rightarrow> (u64 \<times> usize) result" where
  "read_varuint_loop bs cursor value shift len =
     rbind (ok_or (get bs cursor) UnexpectedEof) (\<lambda>byte.
     let cursor = cursor + 1; len = len + 1 in
     if shift = 63 \<and> byte AND 0x7f > 1 then Err ChunkTableInvalid
     else if shift \<ge> 64 then Err ChunkTableInvalid
     else
       let value = value OR (push_bit shift (unat (byte AND 0x7f)) mod u64_end) in
       if byte AND 0x80 = 0 then
         (if len > 1 \<and> byte = 0 then Err ChunkTableInvalid else Ok (value, cursor))
       else
         let shift = shift + 7 in
         if shift > 63 then Err ChunkTableInvalid
         else read_varuint_loop bs cursor value shift len)"
  by pat_completeness auto
termination
  by (relation "measure (\<lambda>(bs, cursor, value, shift, len). 64 - shift)") auto

declare read_varuint_loop.simps [simp del]

definition read_varuint :: "bytes \<Rightarrow> usize \<Rightarrow> (u64 \<times> usize) result" where
  "read_varuint bs cursor = read_varuint_loop bs cursor 0 0 0"

section \<open>Index operations\<close>

definition allocation_bytes :: "usize \<Rightarrow> usize \<Rightarrow> u64 result" where
  "allocation_bytes size_of_T n =
     rbind (ok_or (checked_mul n size_of_T) ResourceLimitExceeded) usize_to_u64"

definition line_start_offsets :: "bytes \<Rightarrow> u32 \<Rightarrow> u64 list result" where
  "line_start_offsets decoded flags0 =
     (let starts = (if flags0 AND STARTS_WITH_LINE_CONTINUATION = 0 \<and> decoded \<noteq> [] then [0] else []) in
      rfold (\<lambda>starts index.
          if decoded ! index = LF \<and> index + 1 < length decoded
          then rbind (usize_to_u64 (index + 1)) (\<lambda>n. Ok (starts @ [n]))
          else Ok starts)
        starts [0 ..< length decoded])"

definition requested_allocation_for_chunks :: "ChunkEntry list \<Rightarrow> u64 result" where
  "requested_allocation_for_chunks chunk_entries =
     rbind (allocation_bytes SIZE_OF_DENSE_LINE_ENTRY (length chunk_entries)) (\<lambda>requested.
     rfold (\<lambda>requested entry.
         rbind (u64_to_usize (line_count entry)) (\<lambda>n.
         rbind (allocation_bytes SIZE_OF_U64 n) (\<lambda>b.
         ok_or (checked_add requested b) ResourceLimitExceeded)))
       requested chunk_entries)"

definition offset_delta :: "nat \<Rightarrow> u64 \<Rightarrow> u64 \<Rightarrow> u64 result" where
  "offset_delta index previous offset =
     (if index = 0 then Ok offset else ok_or (checked_sub offset previous) ChunkTableInvalid)"

definition encoded_size_entry :: "u64 \<Rightarrow> DenseLineEntry \<Rightarrow> u64 result" where
  "encoded_size_entry sz entry =
     rbind (usize_to_u64 (length (dl_line_start_offsets entry))) (\<lambda>offset_count.
     rbind (ok_or (checked_add sz (varuint_len (dl_chunk_id entry))) ResourceLimitExceeded) (\<lambda>n.
     rbind (ok_or (checked_add n (varuint_len offset_count)) ResourceLimitExceeded) (\<lambda>sz.
     rbind (rfold (\<lambda>(sz, previous) (index, offset).
         rbind (offset_delta index previous offset) (\<lambda>delta.
         rbind (ok_or (checked_add sz (varuint_len delta)) ResourceLimitExceeded) (\<lambda>sz.
         Ok (sz, offset)))) (sz, 0) (enumerate 0 (dl_line_start_offsets entry))) (\<lambda>(sz, _).
     Ok sz))))"

definition encoded_size :: "DenseLineIndex \<Rightarrow> u64 result" where
  "encoded_size self =
     rbind (usize_to_u64 (length (dense_entries self))) (\<lambda>n.
     rfold encoded_size_entry (varuint_len n) (dense_entries self))"

definition from_original_entry :: "bytes \<Rightarrow> ChunkEntry \<Rightarrow> DenseLineEntry result" where
  "from_original_entry input entry =
     rbind (map_err (\<lambda>_. ContainerCorrupt) (u64_to_usize (logical_offset entry))) (\<lambda>start.
     rbind (map_err (\<lambda>_. ContainerCorrupt) (u64_to_usize (uncompressed_size entry))) (\<lambda>sz.
     rbind (ok_or (checked_add start sz) ContainerCorrupt) (\<lambda>e.
     rbind (ok_or (get_slice input start e) ContainerCorrupt) (\<lambda>decoded.
     rbind (line_start_offsets decoded (flags entry)) (\<lambda>offsets.
     if length offsets \<noteq> line_count entry then Err ChunkTableInvalid
     else Ok \<lparr>dl_chunk_id = chunk_id entry, dl_line_start_offsets = offsets\<rparr>)))))"

definition from_original_bytes :: "bytes \<Rightarrow> ChunkEntry list \<Rightarrow> DenseLineIndex result" where
  "from_original_bytes input chunk_entries =
     rbind (rmap (from_original_entry input) chunk_entries) (\<lambda>entries.
     Ok \<lparr>dense_entries = entries\<rparr>)"

definition encode_entry :: "DenseLineEntry \<Rightarrow> bytes result" where
  "encode_entry entry =
     rbind (usize_to_u64 (length (dl_line_start_offsets entry))) (\<lambda>n.
     rbind (rfold (\<lambda>(bs, previous) (index, offset).
         rbind (offset_delta index previous offset) (\<lambda>delta.
         Ok (bs @ write_varuint delta, offset)))
       (write_varuint (dl_chunk_id entry) @ write_varuint n, 0)
       (enumerate 0 (dl_line_start_offsets entry))) (\<lambda>(bs, _).
     Ok bs))"

definition DenseLineIndex_encode :: "DenseLineIndex \<Rightarrow> bytes result" where
  "DenseLineIndex_encode self =
     rbind (usize_to_u64 (length (dense_entries self))) (\<lambda>n.
     rfold (\<lambda>bs entry. rbind (encode_entry entry) (\<lambda>b. Ok (bs @ b)))
       (write_varuint n) (dense_entries self))"

definition decode_offset ::
  "bytes \<Rightarrow> u64 \<Rightarrow> u64 list \<times> u64 \<times> usize \<Rightarrow> nat \<Rightarrow> (u64 list \<times> u64 \<times> usize) result"
where
  "decode_offset bs chunk_size st index =
     (case st of (offsets, previous, cursor) \<Rightarrow>
       rbind (read_varuint bs cursor) (\<lambda>(delta, cursor).
       rbind (if index = 0 then Ok delta else ok_or (checked_add previous delta) ChunkTableInvalid)
         (\<lambda>offset.
       if index > 0 \<and> offset \<le> previous then Err ChunkTableInvalid
       else if offset \<ge> chunk_size then Err ChunkTableInvalid
       else Ok (offsets @ [offset], offset, cursor))))"

definition decode_chunk_entry ::
  "bytes \<Rightarrow> u64 \<Rightarrow> DenseLineEntry list \<times> u64 \<times> usize \<Rightarrow> ChunkEntry
     \<Rightarrow> (DenseLineEntry list \<times> u64 \<times> usize) result"
where
  "decode_chunk_entry bs max_alloc st expected =
     (case st of (entries, requested, cursor) \<Rightarrow>
       rbind (read_varuint bs cursor) (\<lambda>(id, cursor).
       if id \<noteq> chunk_id expected then Err ChunkTableInvalid
       else
         rbind (read_varuint bs cursor) (\<lambda>(offset_count, cursor).
         if offset_count \<noteq> line_count expected then Err ChunkTableInvalid
         else if offset_count > uncompressed_size expected then Err ChunkTableInvalid
         else
           rbind (usize_to_u64 (length bs - cursor)) (\<lambda>left.
           if offset_count > left then Err UnexpectedEof
           else
             rbind (u64_to_usize offset_count) (\<lambda>offset_count.
             rbind (allocation_bytes SIZE_OF_U64 offset_count) (\<lambda>b.
             rbind (ok_or (checked_add requested b) ResourceLimitExceeded) (\<lambda>requested.
             if requested > max_alloc then Err ResourceLimitExceeded
             else
               rbind (rfold (decode_offset bs (uncompressed_size expected)) ([], 0, cursor)
                        [0 ..< offset_count]) (\<lambda>(offsets, _, cursor).
               Ok (entries @ [\<lparr>dl_chunk_id = id, dl_line_start_offsets = offsets\<rparr>],
                   requested, cursor)))))))))"

definition decode_for_chunks_with_limit ::
  "bytes \<Rightarrow> ChunkEntry list \<Rightarrow> u64 \<Rightarrow> DenseLineIndex result"
where
  "decode_for_chunks_with_limit bs chunk_entries max_alloc =
     rbind (read_varuint bs 0) (\<lambda>(entry_count, cursor).
     rbind (usize_to_u64 (length chunk_entries)) (\<lambda>n.
     if entry_count \<noteq> n then Err ChunkTableInvalid
     else
       rbind (usize_to_u64 ((length bs - cursor) div 2)) (\<lambda>half.
       if entry_count > half then Err UnexpectedEof
       else
         rbind (allocation_bytes SIZE_OF_DENSE_LINE_ENTRY (length chunk_entries)) (\<lambda>requested.
         if requested > max_alloc then Err ResourceLimitExceeded
         else
           rbind (rfold (decode_chunk_entry bs max_alloc) ([], requested, cursor) chunk_entries)
             (\<lambda>(entries, _, cursor).
           if cursor \<noteq> length bs then Err ChunkTableInvalid
           else Ok \<lparr>dense_entries = entries\<rparr>)))))"

definition decode_for_chunks :: "bytes \<Rightarrow> ChunkEntry list \<Rightarrow> DenseLineIndex result" where
  "decode_for_chunks bs chunk_entries =
     decode_for_chunks_with_limit bs chunk_entries
       (max_dense_line_index_allocation ResourceLimits_default)"

definition line_start_offset :: "DenseLineIndex \<Rightarrow> usize \<Rightarrow> usize \<Rightarrow> u64 result" where
  "line_start_offset self chunk_index local_line_index =
     (case get (dense_entries self) chunk_index of
        None \<Rightarrow> Err LineOutOfRange
      | Some entry \<Rightarrow> ok_or (get (dl_line_start_offsets entry) local_line_index) LineOutOfRange)"

definition verify_chunk :: "DenseLineIndex \<Rightarrow> usize \<Rightarrow> bytes \<Rightarrow> u32 \<Rightarrow> unit result" where
  "verify_chunk self chunk_index decoded flags0 =
     rbind (line_start_offsets decoded flags0) (\<lambda>expected.
     rbind (ok_or (get (dense_entries self) chunk_index) ChunkTableInvalid) (\<lambda>actual.
     if dl_line_start_offsets actual \<noteq> expected then Err ChunkTableInvalid else Ok ()))"

section \<open>Bytes at a position\<close>

definition bytes_at :: "bytes \<Rightarrow> usize \<Rightarrow> bytes \<Rightarrow> bool" where
  "bytes_at bs c ws \<longleftrightarrow> (\<exists>xs ys. bs = xs @ ws @ ys \<and> length xs = c)"

lemma bytes_at_Nil [simp]: "bytes_at bs c [] \<longleftrightarrow> c \<le> length bs"
  unfolding bytes_at_def by (auto, metis append_take_drop_id length_take min.absorb2)

lemma bytes_at_append: "bytes_at bs c (us @ vs) \<longleftrightarrow> bytes_at bs c us \<and> bytes_at bs (c + length us) vs"
proof
  assume "bytes_at bs c (us @ vs)"
  then obtain xs ys where "bs = xs @ (us @ vs) @ ys" "length xs = c" by (auto simp: bytes_at_def)
  then have "bs = xs @ us @ (vs @ ys)" "bs = (xs @ us) @ vs @ ys" "length (xs @ us) = c + length us" by simp_all
  then show "bytes_at bs c us \<and> bytes_at bs (c + length us) vs"
    unfolding bytes_at_def using \<open>length xs = c\<close> by blast
next
  assume "bytes_at bs c us \<and> bytes_at bs (c + length us) vs"
  then obtain xs ys xs' ys' where 1: "bs = xs @ us @ ys" "length xs = c"
    and 2: "bs = xs' @ vs @ ys'" "length xs' = c + length us" unfolding bytes_at_def by blast
  then have "xs' = xs @ us" by (metis append.assoc append_eq_append_conv length_append)
  then show "bytes_at bs c (us @ vs)" unfolding bytes_at_def using 1 2 by auto
qed

lemma bytes_at_single: "bytes_at bs c [b] \<longleftrightarrow> get bs c = Some b"
proof
  assume "get bs c = Some b"
  then have "bs = take c bs @ [b] @ drop (Suc c) bs" "length (take c bs) = c"
    by (auto simp: get_Some_iff id_take_nth_drop)
  then show "bytes_at bs c [b]" unfolding bytes_at_def by blast
qed (auto simp: bytes_at_def get_def)

lemma bytes_at_Cons: "bytes_at bs c (b # vs) \<longleftrightarrow> get bs c = Some b \<and> bytes_at bs (c + 1) vs"
  using bytes_at_append [of bs c "[b]" vs] by (simp add: bytes_at_single)

lemma bytes_at_length: "bytes_at bs c ws \<Longrightarrow> c + length ws \<le> length bs"
  by (auto simp: bytes_at_def)

lemma bytes_at_whole: "bytes_at bs 0 ws \<and> length ws = length bs \<longleftrightarrow> ws = bs"
  by (auto simp: bytes_at_def)

section \<open>Variable-length integers are canonical\<close>

lemma byte_low7: "unat (b AND 0x7f) = unat b mod 128" for b :: u8
proof -
  have "b AND 0x7f = take_bit 7 b" unfolding take_bit_eq_mask by (simp add: mask_eq_exp_minus_1)
  then have "unat (b AND 0x7f) = take_bit 7 (unat b)" by (simp only: unsigned_take_bit_eq)
  then show ?thesis by (simp add: take_bit_eq_mod)
qed

lemma byte_high: "b AND 0x80 = 0 \<longleftrightarrow> unat b < 128" for b :: u8
proof -
  have "unat (b AND 0x80) = unat b AND 128" by (simp add: unsigned_and_eq)
  also have "\<dots> = 128 * (unat b div 128 AND 1)"
    by (simp add: and_rec [of "unat b"] and_rec [of "unat b div 2"] and_rec [of "unat b div 4"]
        and_rec [of "unat b div 8"] and_rec [of "unat b div 16"] and_rec [of "unat b div 32"]
        and_rec [of "unat b div 64"] div_mult2_eq [symmetric])
  also have "unat b div 128 AND 1 = unat b div 128"
  proof -
    have "unat b div 128 < 2" using unat_byte_less [of b] by linarith
    then show ?thesis by (simp add: and_one_eq)
  qed
  finally have "unat (b AND 0x80) = 128 * (unat b div 128)" .
  then have "b AND 0x80 = 0 \<longleftrightarrow> 128 * (unat b div 128) = 0" by (simp add: word_unat_eq_iff)
  then show ?thesis by auto
qed

lemma or_push_bit: "x < 2 ^ n \<Longrightarrow> x OR push_bit n y = x + 2 ^ n * y" for x y :: nat
proof -
  assume x: "x < 2 ^ n"
  then have "x = take_bit n x" by (simp add: take_bit_eq_mod)
  moreover have "take_bit n x OR push_bit n y = take_bit n x + push_bit n y"
    by (rule disjunctive_add [symmetric]) (auto simp: bit_simps)
  ultimately show ?thesis by (metis mult.commute push_bit_eq_mult)
qed

lemma varuint_byte: "unat ((word_of_nat v AND 0x7f) OR 0x80 :: u8) = v mod 128 + 128"
proof -
  have x: "unat (word_of_nat v AND 0x7f :: u8) = v mod 128"
    by (simp add: byte_low7 unat_byte_of_nat mod_mod_cancel)
  have "unat ((word_of_nat v AND 0x7f) OR 0x80 :: u8) = (v mod 128) OR 128"
    by (simp add: unsigned_or_eq x)
  also have "\<dots> = v mod 128 + 128"
    using or_push_bit [of "v mod 128" 7 1] by simp
  finally show ?thesis .
qed

definition varuint_at :: "bytes \<Rightarrow> usize \<Rightarrow> u64 \<Rightarrow> usize \<Rightarrow> bool" where
  "varuint_at bs c w c' \<longleftrightarrow> bytes_at bs c (write_varuint w) \<and> c' = c + length (write_varuint w)"

lemma varuint_at_step:
  "varuint_at bs c w c' \<longleftrightarrow>
     (\<exists>b. get bs c = Some b \<and>
        (if unat b < 128 then w = unat b \<and> c' = c + 1
         else \<exists>w'. w' \<noteq> 0 \<and> w = unat b - 128 + 128 * w' \<and> varuint_at bs (c + 1) w' c'))"
proof (cases "w \<ge> 0x80")
  case False
  then have "write_varuint w = [word_of_nat w]" by (subst write_varuint.simps) simp
  moreover have "(word_of_nat w :: u8) = b \<longleftrightarrow> unat b = w" for b
    using False by (auto simp: word_unat_eq_iff unat_byte_of_nat)
  ultimately show ?thesis
    using False by (auto simp: varuint_at_def bytes_at_single get_Some_iff split: if_splits)
next
  case True
  let ?h = "(word_of_nat w AND 0x7f) OR 0x80 :: u8"
  have wv: "write_varuint w = ?h # write_varuint (w div 128)"
    using True by (subst write_varuint.simps) (simp add: drop_bit_eq_div)
  have h: "?h = b \<longleftrightarrow> unat b = w mod 128 + 128" for b
    by (auto simp: word_unat_eq_iff varuint_byte)
  have w': "w' \<noteq> 0 \<and> w = unat b - 128 + 128 * w' \<longleftrightarrow> w' = w div 128 \<and> unat b = w mod 128 + 128"
    if "128 \<le> unat b" for w' and b :: u8
  proof -
    have "unat b - 128 < 128" using unat_byte_less [of b] that by linarith
    then have "w = unat b - 128 + 128 * w' \<longleftrightarrow> w' = w div 128 \<and> unat b - 128 = w mod 128"
      by (auto simp: div_mult_mod_eq)
    then show ?thesis using that True by auto
  qed
  have "varuint_at bs c w c' \<longleftrightarrow>
      (\<exists>b. get bs c = Some b \<and> unat b = w mod 128 + 128 \<and> varuint_at bs (c + 1) (w div 128) c')"
    unfolding varuint_at_def wv bytes_at_Cons using h by (auto simp: get_Some_iff)
  also have "\<dots> \<longleftrightarrow> (\<exists>b. get bs c = Some b \<and>
        (if unat b < 128 then w = unat b \<and> c' = c + 1
         else \<exists>w'. w' \<noteq> 0 \<and> w = unat b - 128 + 128 * w' \<and> varuint_at bs (c + 1) w' c'))"
    using True w' by (auto simp: not_less) (metis (no_types, lifting) le_add2 linorder_not_less)+
  finally show ?thesis .
qed

lemma read_varuint_loop_iff:
  assumes "k \<le> 9" and "val < 2 ^ (7 * k)"
  shows "read_varuint_loop bs c val (7 * k) k = Ok (v, c') \<longleftrightarrow>
     (\<exists>w. v = val + 2 ^ (7 * k) * w \<and> v < u64_end \<and> varuint_at bs c w c' \<and> (0 < k \<longrightarrow> w \<noteq> 0))"
  using assms
proof (induction "9 - k" arbitrary: k val c)
  case less: 0
  then have k: "k = 9" by simp
  show ?case
  proof (cases "get bs c")
    case None
    then show ?thesis by (subst read_varuint_loop.simps) (auto simp: varuint_at_step [of bs c])
  next
    case (Some b)
    have v: "val + 2 ^ 63 * w < u64_end \<longleftrightarrow> w \<le> 1" for w
      using less.prems(2) by (auto simp: k u64_end_def)
    have nz: "b = 0 \<longleftrightarrow> unat b = 0" by (simp add: word_unat_eq_iff)
    have gt: "b AND 0x7f > 1 \<longleftrightarrow> unat b mod 128 > 1" by (simp add: word_less_nat_alt byte_low7)
    have orv: "val OR push_bit 63 (unat b mod 128) mod u64_end = val + 2 ^ 63 * (unat b mod 128)"
      if "unat b mod 128 \<le> 1"
      using that or_push_bit [of val 63 "unat b mod 128"] less.prems(2)
      by (auto simp: k u64_end_def push_bit_eq_mult)
    show ?thesis
    proof (cases "unat b < 128")
      case True
      then show ?thesis
        using Some orv v [of "unat b"]
        by (subst read_varuint_loop.simps)
           (auto simp: k Let_def gt byte_high byte_low7 nz varuint_at_step [of bs c])
    next
      case False
      have "\<not> val + 2 ^ 63 * (unat b - 128 + 128 * w') < u64_end" if "w' \<noteq> 0" for w'
        using v [of "unat b - 128 + 128 * w'"] that by auto
      then show ?thesis
        using Some False
        by (subst read_varuint_loop.simps)
           (auto simp: k Let_def gt byte_high byte_low7 nz varuint_at_step [of bs c])
    qed
  qed
next
  case (Suc n)
  then have k: "k \<le> 8" by simp
  show ?case
  proof (cases "get bs c")
    case None
    then show ?thesis by (subst read_varuint_loop.simps) (auto simp: varuint_at_step [of bs c])
  next
    case (Some b)
    let ?x = "unat b mod 128"
    have nz: "b = 0 \<longleftrightarrow> unat b = 0" by (simp add: word_unat_eq_iff)
    have p: "(2 :: nat) ^ (7 * k) * 128 \<le> 2 ^ 63"
      using k power_increasing [of "7 * k + 7" 63 "2 :: nat"] by (simp add: power_add)
    have x: "2 ^ (7 * k) * ?x + 2 ^ (7 * k) \<le> 2 ^ (7 * k) * 128"
      using mult_le_mono2 [of "?x + 1" 128 "2 ^ (7 * k)"] by simp
    have lt: "val + 2 ^ (7 * k) * ?x < 2 ^ (7 * (k + 1))"
    proof -
      have "val + 2 ^ (7 * k) * ?x < 2 ^ (7 * k) * 128" using x Suc.prems(2) by linarith
      then show ?thesis by (simp add: power_add)
    qed
    have small: "val + 2 ^ (7 * k) * ?x < u64_end"
    proof -
      have "val + 2 ^ (7 * k) * ?x < 2 ^ 63" using x p Suc.prems(2) by linarith
      then show ?thesis by (simp add: u64_end_def)
    qed
    have orv: "val OR push_bit (7 * k) ?x mod u64_end = val + 2 ^ (7 * k) * ?x"
    proof -
      have "push_bit (7 * k) ?x = 2 ^ (7 * k) * ?x" by (simp add: push_bit_eq_mult)
      then have "push_bit (7 * k) ?x mod u64_end = push_bit (7 * k) ?x" using small by simp
      then show ?thesis using or_push_bit [OF Suc.prems(2), of ?x] by simp
    qed
    have k7: "7 * k \<noteq> 63" "\<not> 7 * k \<ge> 64" "\<not> 7 * k + 7 > 63" using k by auto
    show ?thesis
    proof (cases "unat b < 128")
      case True
      then have xb: "?x = unat b" by simp
      have "read_varuint_loop bs c val (7 * k) k =
          (if 0 < k \<and> unat b = 0 then Err ChunkTableInvalid else Ok (val + 2 ^ (7 * k) * unat b, c + 1))"
        using Some orv k7 True unfolding xb
        by (cases "k = 0"; subst read_varuint_loop.simps; simp add: Let_def byte_high byte_low7 nz)
      moreover have "varuint_at bs c w c' \<longleftrightarrow> w = unat b \<and> c' = c + 1" for w
        unfolding varuint_at_step [of bs c] using Some True by simp
      ultimately show ?thesis using small unfolding xb by auto
    next
      case False
      have "unat b - 128 < 128" using unat_byte_less [of b] False by linarith
      then have x128: "?x = unat b - 128" using False by (simp add: le_mod_geq)
      have "read_varuint_loop bs c val (7 * k) k = Ok (v, c') \<longleftrightarrow>
          read_varuint_loop bs (c + 1) (val + 2 ^ (7 * k) * ?x) (7 * (k + 1)) (k + 1) = Ok (v, c')"
        using Some False k7 orv
        by (subst read_varuint_loop.simps) (simp add: Let_def byte_high byte_low7 add.commute)
      also have "\<dots> \<longleftrightarrow> (\<exists>w'. v = val + 2 ^ (7 * k) * ?x + 2 ^ (7 * (k + 1)) * w' \<and> v < u64_end \<and>
          varuint_at bs (c + 1) w' c' \<and> (0 < k + 1 \<longrightarrow> w' \<noteq> 0))"
        using Suc k lt by (intro Suc.hyps(1)) auto
      also have "\<dots> \<longleftrightarrow> (\<exists>w. v = val + 2 ^ (7 * k) * w \<and> v < u64_end \<and> varuint_at bs c w c' \<and> (0 < k \<longrightarrow> w \<noteq> 0))"
      proof -
        have e: "val + 2 ^ (7 * k) * ?x + 2 ^ (7 * (k + 1)) * w' = val + 2 ^ (7 * k) * (?x + 128 * w')" for w'
          by (simp add: power_add algebra_simps)
        have st: "varuint_at bs c w c' \<longleftrightarrow> (\<exists>w'. w' \<noteq> 0 \<and> w = ?x + 128 * w' \<and> varuint_at bs (c + 1) w' c')" for w
          unfolding varuint_at_step [of bs c] using Some False x128 by simp
        show ?thesis unfolding e st by auto
      qed
      finally show ?thesis .
    qed
  qed
qed

lemma read_varuint_iff:
  "read_varuint bs c = Ok (v, c') \<longleftrightarrow> v < u64_end \<and> varuint_at bs c v c'"
  using read_varuint_loop_iff [of 0 0 bs c v c'] by (auto simp: read_varuint_def)

lemma varuint_len_eq: "varuint_len v = length (write_varuint v)"
proof (induction v rule: varuint_len.induct)
  case (1 v)
  then show ?case by (simp add: varuint_len.simps [of v] write_varuint.simps [of v])
qed

lemma write_varuint_nonempty: "1 \<le> length (write_varuint v)"
  by (subst write_varuint.simps) simp

section \<open>The encoding in closed form\<close>

fun write_deltas :: "u64 \<Rightarrow> u64 list \<Rightarrow> bytes" where
  "write_deltas p [] = []"
| "write_deltas p (o1 # os) = write_varuint (o1 - p) @ write_deltas o1 os"

definition entry_bytes :: "DenseLineEntry \<Rightarrow> bytes" where
  "entry_bytes e = write_varuint (dl_chunk_id e) @ write_varuint (length (dl_line_start_offsets e)) @
     write_deltas 0 (dl_line_start_offsets e)"

lemma offset_delta_Ok_iff:
  "(k = 0 \<longrightarrow> p = 0) \<Longrightarrow> offset_delta k p o1 = Ok d \<longleftrightarrow> p \<le> o1 \<and> d = o1 - p"
  by (auto simp: offset_delta_def result_simps width_simps)

lemma encode_offsets_Ok_iff:
  assumes "k = 0 \<longrightarrow> p = 0"
  shows "rfold (\<lambda>(bs, previous) (index, offset).
         rbind (offset_delta index previous offset) (\<lambda>delta.
         Ok (bs @ write_varuint delta, offset))) (acc, p) (enumerate k os) = Ok st \<longleftrightarrow>
     sorted (p # os) \<and> st = (acc @ write_deltas p os, last (p # os))"
  using assms
proof (induction os arbitrary: k p acc)
  case (Cons o1 os)
  show ?case
    using Cons.prems Cons.IH [of "Suc k" o1]
    by (auto simp: rbind_Ok_iff offset_delta_Ok_iff)
qed auto

lemma encode_entry_Ok_iff:
  "encode_entry e = Ok bs \<longleftrightarrow>
     length (dl_line_start_offsets e) < u64_end \<and> sorted (dl_line_start_offsets e) \<and> bs = entry_bytes e"
  by (auto simp: encode_entry_def rbind_Ok_iff width_simps encode_offsets_Ok_iff entry_bytes_def)

lemma encode_entries_Ok_iff:
  "rfold (\<lambda>bs entry. rbind (encode_entry entry) (\<lambda>b. Ok (bs @ b))) acc es = Ok bs \<longleftrightarrow>
     (\<forall>e \<in> set es. length (dl_line_start_offsets e) < u64_end \<and> sorted (dl_line_start_offsets e)) \<and>
     bs = acc @ concat (map entry_bytes es)"
  by (induction es arbitrary: acc) (auto simp: rbind_Ok_iff encode_entry_Ok_iff)

lemma DenseLineIndex_encode_Ok_iff:
  "DenseLineIndex_encode idx = Ok bs \<longleftrightarrow>
     length (dense_entries idx) < u64_end \<and>
     (\<forall>e \<in> set (dense_entries idx).
        length (dl_line_start_offsets e) < u64_end \<and> sorted (dl_line_start_offsets e)) \<and>
     bs = write_varuint (length (dense_entries idx)) @ concat (map entry_bytes (dense_entries idx))"
  by (auto simp: DenseLineIndex_encode_def rbind_Ok_iff width_simps encode_entries_Ok_iff)

section \<open>The decoder in closed form\<close>

lemma length_write_deltas: "length os \<le> length (write_deltas p os)"
proof (induction os arbitrary: p)
  case (Cons o1 os)
  show ?case using add_mono [OF write_varuint_nonempty [of "o1 - p"] Cons.IH [of o1]] by simp
qed simp

lemma length_entry_bytes: "2 \<le> length (entry_bytes e)"
  using write_varuint_nonempty [of "dl_chunk_id e"] write_varuint_nonempty [of "length (dl_line_start_offsets e)"]
  by (simp add: entry_bytes_def)

lemma decode_offset_Ok_iff:
  assumes "k = 0 \<longrightarrow> p = 0" and "sz \<le> u64_end"
  shows "decode_offset bs sz (acc, p, c) k = Ok st \<longleftrightarrow>
     (\<exists>o1 c'. st = (acc @ [o1], o1, c') \<and> varuint_at bs c (o1 - p) c' \<and> (0 < k \<longrightarrow> p < o1) \<and> o1 < sz)"
  (is "?L \<longleftrightarrow> ?R")
proof
  assume ?L
  then obtain delta c' o1 where "varuint_at bs c delta c'" "o1 = p + delta"
    "st = (acc @ [o1], o1, c')" "0 < k \<longrightarrow> p < o1" "o1 < sz"
    using assms(1)
    by (cases "k = 0") (auto simp: decode_offset_def rbind_Ok_iff read_varuint_iff result_simps width_simps)
  then show ?R by auto
next
  assume ?R
  then obtain o1 c' where st: "st = (acc @ [o1], o1, c')" "varuint_at bs c (o1 - p) c'"
    "0 < k \<longrightarrow> p < o1" "o1 < sz" by auto
  then have "read_varuint bs c = Ok (o1 - p, c')" using assms(2) by (simp add: read_varuint_iff)
  then show ?L using st assms by (auto simp: decode_offset_def checked_add_def)
qed

lemma decode_offsets_Ok_iff:
  assumes "k = 0 \<longrightarrow> p = 0" and "sz \<le> u64_end" and "k \<le> n" and "c \<le> length bs"
  shows "rfold (decode_offset bs sz) (acc, p, c) [k ..< n] = Ok st \<longleftrightarrow>
     (\<exists>os. length os = n - k \<and> st = (acc @ os, last (p # os), c + length (write_deltas p os)) \<and>
        bytes_at bs c (write_deltas p os) \<and> sorted_wrt (<) os \<and> (0 < k \<longrightarrow> (\<forall>o1 \<in> set os. p < o1)) \<and>
        (\<forall>o1 \<in> set os. o1 < sz))"
  using assms
proof (induction "n - k" arbitrary: k p c acc)
  case 0
  then show ?case by auto
next
  case (Suc m)
  then have kn: "k < n" "m = n - Suc k" "Suc k \<le> n" by auto
  have IH: "rfold (decode_offset bs sz) (acc', o1, c') [Suc k ..< n] = Ok st \<longleftrightarrow>
     (\<exists>os. length os = n - Suc k \<and> st = (acc' @ os, last (o1 # os), c' + length (write_deltas o1 os)) \<and>
        bytes_at bs c' (write_deltas o1 os) \<and> sorted_wrt (<) os \<and> (\<forall>o2 \<in> set os. o1 < o2) \<and>
        (\<forall>o2 \<in> set os. o2 < sz))" if "c' \<le> length bs" for acc' o1 c'
    using Suc.hyps(1) [OF kn(2), of o1 c' acc'] Suc.prems(2) kn(3) that by simp
  have c': "c' \<le> length bs" if "varuint_at bs c w c'" for w c'
    using that bytes_at_length by (auto simp: varuint_at_def)
  show ?case (is "?L \<longleftrightarrow> ?R")
  proof
    assume ?L
    then obtain o1 c' where o1: "varuint_at bs c (o1 - p) c'" "0 < k \<longrightarrow> p < o1" "o1 < sz"
      and rest: "rfold (decode_offset bs sz) (acc @ [o1], o1, c') [Suc k ..< n] = Ok st"
      using kn(1) by (auto simp: upt_conv_Cons rbind_Ok_iff decode_offset_Ok_iff [OF Suc.prems(1,2)])
    from rest [unfolded IH [OF c' [OF o1(1)]]] obtain os where os: "length os = n - Suc k"
      "st = ((acc @ [o1]) @ os, last (o1 # os), c' + length (write_deltas o1 os))"
      "bytes_at bs c' (write_deltas o1 os)" "sorted_wrt (<) os" "\<forall>o2 \<in> set os. o1 < o2" "\<forall>o2 \<in> set os. o2 < sz"
      by blast
    show ?R
      by (rule exI [of _ "o1 # os"])
         (use o1 os kn in \<open>auto simp: varuint_at_def bytes_at_append\<close>)
  next
    assume ?R
    then obtain os' where os': "length os' = n - k" and st: "st = (acc @ os', last (p # os'), c + length (write_deltas p os'))"
      "bytes_at bs c (write_deltas p os')" "sorted_wrt (<) os'" "0 < k \<longrightarrow> (\<forall>o1 \<in> set os'. p < o1)"
      "\<forall>o1 \<in> set os'. o1 < sz" by blast
    obtain o1 os where os: "os' = o1 # os" using os' kn(1) by (cases os') auto
    let ?c = "c + length (write_varuint (o1 - p))"
    have v: "varuint_at bs c (o1 - p) ?c" using st(2) by (simp add: os varuint_at_def bytes_at_append)
    have "rfold (decode_offset bs sz) (acc @ [o1], o1, ?c) [Suc k ..< n] = Ok st"
      unfolding IH [OF c' [OF v]] using st os' by (intro exI [of _ os]) (auto simp: os bytes_at_append)
    moreover have "decode_offset bs sz (acc, p, c) k = Ok (acc @ [o1], o1, ?c)"
      unfolding decode_offset_Ok_iff [OF Suc.prems(1,2)] using v st by (auto simp: os)
    ultimately show ?L using kn(1) by (simp add: upt_conv_Cons)
  qed
qed

text \<open>What an index entry promises about its chunk.\<close>

definition entry_matches :: "DenseLineEntry \<Rightarrow> ChunkEntry \<Rightarrow> bool" where
  "entry_matches e ce \<longleftrightarrow> dl_chunk_id e = chunk_id ce \<and> length (dl_line_start_offsets e) = line_count ce \<and>
     line_count ce \<le> uncompressed_size ce \<and> sorted_wrt (<) (dl_line_start_offsets e) \<and>
     (\<forall>o1 \<in> set (dl_line_start_offsets e). o1 < uncompressed_size ce)"

lemma allocation_u64_Ok_iff: "allocation_bytes SIZE_OF_U64 n = Ok b \<longleftrightarrow> b = 8 * n \<and> 8 * n < u64_end"
  by (auto simp: allocation_bytes_def SIZE_OF_U64_def rbind_Ok_iff result_simps width_simps)

lemma allocation_entry_Ok_iff:
  "allocation_bytes SIZE_OF_DENSE_LINE_ENTRY n = Ok b \<longleftrightarrow> b = 32 * n \<and> 32 * n < u64_end"
  by (auto simp: allocation_bytes_def SIZE_OF_DENSE_LINE_ENTRY_def rbind_Ok_iff result_simps width_simps)

lemma decode_chunk_entry_Ok_iff:
  assumes "ChunkEntry_wf ce" and "length bs < u64_end"
  shows "decode_chunk_entry bs m (es, r, c) ce = Ok st \<longleftrightarrow>
     (\<exists>e. st = (es @ [e], r + 8 * line_count ce, c + length (entry_bytes e)) \<and>
        bytes_at bs c (entry_bytes e) \<and> entry_matches e ce \<and>
        r + 8 * line_count ce \<le> m \<and> r + 8 * line_count ce < u64_end)"
  (is "?L \<longleftrightarrow> ?R")
proof -
  let ?n = "line_count ce" and ?sz = "uncompressed_size ce"
  have wf: "chunk_id ce < u64_end" "?n < u64_end" "?sz \<le> u64_end" using assms(1) by (auto simp: ChunkEntry_wf_def)
  let ?c1 = "c + length (write_varuint (chunk_id ce))"
  let ?c2 = "?c1 + length (write_varuint ?n)"
  have "?L \<longleftrightarrow> bytes_at bs c (write_varuint (chunk_id ce)) \<and> bytes_at bs ?c1 (write_varuint ?n) \<and>
      ?n \<le> ?sz \<and> ?n \<le> length bs - ?c2 \<and> r + 8 * ?n < u64_end \<and> r + 8 * ?n \<le> m \<and>
      (\<exists>offs p' c'. rfold (decode_offset bs ?sz) ([], 0, ?c2) [0 ..< ?n] = Ok (offs, p', c') \<and>
        st = (es @ [\<lparr>dl_chunk_id = chunk_id ce, dl_line_start_offsets = offs\<rparr>], r + 8 * ?n, c'))"
    using wf(1,2) assms(2)
    by (auto simp: decode_chunk_entry_def rbind_Ok_iff read_varuint_iff varuint_at_def result_simps width_simps
        allocation_u64_Ok_iff)
  also have "\<dots> \<longleftrightarrow> ?R"
  proof (cases "bytes_at bs c (write_varuint (chunk_id ce)) \<and> bytes_at bs ?c1 (write_varuint ?n)")
    case True
    then have c2: "?c2 \<le> length bs" using bytes_at_length by blast
    show ?thesis (is "?A \<longleftrightarrow> ?R")
    proof
      assume A: ?A
      then obtain offs p' c' where f: "rfold (decode_offset bs ?sz) ([], 0, ?c2) [0 ..< ?n] = Ok (offs, p', c')"
        and st: "st = (es @ [\<lparr>dl_chunk_id = chunk_id ce, dl_line_start_offsets = offs\<rparr>], r + 8 * ?n, c')" by blast
      from f have "length offs = ?n" "c' = ?c2 + length (write_deltas 0 offs)" "bytes_at bs ?c2 (write_deltas 0 offs)"
        "sorted_wrt (<) offs" "\<forall>o1 \<in> set offs. o1 < ?sz"
        using c2 wf(3) by (auto simp: decode_offsets_Ok_iff)
      then show ?R using A True
        by (intro exI [of _ "\<lparr>dl_chunk_id = chunk_id ce, dl_line_start_offsets = offs\<rparr>"])
           (auto simp: st entry_bytes_def entry_matches_def bytes_at_append)
    next
      assume ?R
      then obtain e where e: "st = (es @ [e], r + 8 * ?n, c + length (entry_bytes e))" "bytes_at bs c (entry_bytes e)"
        "entry_matches e ce" "r + 8 * ?n \<le> m" "r + 8 * ?n < u64_end" by blast
      let ?offs = "dl_line_start_offsets e"
      have ee: "e = \<lparr>dl_chunk_id = chunk_id ce, dl_line_start_offsets = ?offs\<rparr>" and n: "length ?offs = ?n"
        using e(3) by (auto simp: entry_matches_def)
      have d: "bytes_at bs ?c2 (write_deltas 0 ?offs)" and ce': "c + length (entry_bytes e) = ?c2 + length (write_deltas 0 ?offs)"
        using e(2,3) by (auto simp: entry_bytes_def entry_matches_def bytes_at_append add.assoc)
      have "rfold (decode_offset bs ?sz) ([], 0, ?c2) [0 ..< ?n] = Ok (?offs, last (0 # ?offs), ?c2 + length (write_deltas 0 ?offs))"
        using c2 wf(3) d e(3) by (subst decode_offsets_Ok_iff) (auto simp: entry_matches_def)
      moreover have "?n \<le> length bs - ?c2"
        using bytes_at_length [OF d] length_write_deltas [of ?offs 0] n by linarith
      ultimately show ?A using True e ee ce' by (auto simp: entry_matches_def)
    qed
  next
    case False
    then show ?thesis by (auto simp: entry_bytes_def entry_matches_def bytes_at_append)
  qed
  finally show ?thesis .
qed

lemma decode_chunk_entries_Ok_iff:
  assumes "\<forall>ce \<in> set ces. ChunkEntry_wf ce" and "length bs < u64_end" and "r \<le> m" and "r < u64_end"
    and "c \<le> length bs"
  shows "rfold (decode_chunk_entry bs m) (acc, r, c) ces = Ok st \<longleftrightarrow>
     (\<exists>es. st = (acc @ es, r + 8 * sum_list (map line_count ces), c + length (concat (map entry_bytes es))) \<and>
        bytes_at bs c (concat (map entry_bytes es)) \<and> list_all2 entry_matches es ces \<and>
        r + 8 * sum_list (map line_count ces) \<le> m \<and> r + 8 * sum_list (map line_count ces) < u64_end)"
  using assms
proof (induction ces arbitrary: acc r c)
  case Nil
  then show ?case by auto
next
  case (Cons ce ces)
  let ?r = "r + 8 * line_count ce"
  have wf: "ChunkEntry_wf ce" using Cons.prems(1) by simp
  have IH: "rfold (decode_chunk_entry bs m) (acc', ?r, c') ces = Ok st \<longleftrightarrow>
     (\<exists>es. st = (acc' @ es, ?r + 8 * sum_list (map line_count ces), c' + length (concat (map entry_bytes es))) \<and>
        bytes_at bs c' (concat (map entry_bytes es)) \<and> list_all2 entry_matches es ces \<and>
        ?r + 8 * sum_list (map line_count ces) \<le> m \<and> ?r + 8 * sum_list (map line_count ces) < u64_end)"
    if "?r \<le> m" "?r < u64_end" "c' \<le> length bs" for acc' c'
    using Cons.prems that by (intro Cons.IH) auto
  show ?case (is "?L \<longleftrightarrow> ?R")
  proof
    assume ?L
    then obtain e where e: "bytes_at bs c (entry_bytes e)" "entry_matches e ce" "?r \<le> m" "?r < u64_end"
      and rest: "rfold (decode_chunk_entry bs m) (acc @ [e], ?r, c + length (entry_bytes e)) ces = Ok st"
      by (auto simp: rbind_Ok_iff decode_chunk_entry_Ok_iff [OF wf assms(2)])
    from rest [unfolded IH [OF e(3,4) bytes_at_length [OF e(1)]]]
    obtain es where "st = ((acc @ [e]) @ es, ?r + 8 * sum_list (map line_count ces),
          c + length (entry_bytes e) + length (concat (map entry_bytes es)))"
        "bytes_at bs (c + length (entry_bytes e)) (concat (map entry_bytes es))" "list_all2 entry_matches es ces"
        "?r + 8 * sum_list (map line_count ces) \<le> m" "?r + 8 * sum_list (map line_count ces) < u64_end" by blast
    with e show ?R
      by (intro exI [of _ "e # es"]) (auto simp: bytes_at_append algebra_simps)
  next
    assume ?R
    then obtain es' where es': "list_all2 entry_matches es' (ce # ces)" "bytes_at bs c (concat (map entry_bytes es'))"
      "st = (acc @ es', r + 8 * sum_list (map line_count (ce # ces)), c + length (concat (map entry_bytes es')))"
      "r + 8 * sum_list (map line_count (ce # ces)) \<le> m" "r + 8 * sum_list (map line_count (ce # ces)) < u64_end"
      by blast
    then obtain e es where es: "es' = e # es" "entry_matches e ce" "list_all2 entry_matches es ces"
      by (auto simp: list_all2_Cons2)
    have e: "bytes_at bs c (entry_bytes e)" "?r \<le> m" "?r < u64_end"
      using es' by (auto simp: es(1) bytes_at_append)
    have "rfold (decode_chunk_entry bs m) (acc @ [e], ?r, c + length (entry_bytes e)) ces = Ok st"
      unfolding IH [OF e(2,3) bytes_at_length [OF e(1)]]
      using es' es by (intro exI [of _ es]) (auto simp: bytes_at_append algebra_simps)
    moreover have "decode_chunk_entry bs m (acc, r, c) ce = Ok (acc @ [e], ?r, c + length (entry_bytes e))"
      unfolding decode_chunk_entry_Ok_iff [OF wf assms(2)] using e es by blast
    ultimately show ?L by simp
  qed
qed

lemma requested_allocation_Ok_iff:
  assumes "\<forall>ce \<in> set ces. ChunkEntry_wf ce"
  shows "requested_allocation_for_chunks ces = Ok r \<longleftrightarrow>
     r = 32 * length ces + 8 * sum_list (map line_count ces) \<and> r < u64_end"
proof -
  have "rfold (\<lambda>requested entry. rbind (u64_to_usize (line_count entry)) (\<lambda>n.
         rbind (allocation_bytes SIZE_OF_U64 n) (\<lambda>b. ok_or (checked_add requested b) ResourceLimitExceeded)))
       q ces = Ok r \<longleftrightarrow> r = q + 8 * sum_list (map line_count ces) \<and> r < u64_end" if "q < u64_end" for q
    using assms that
    by (induction ces arbitrary: q)
       (auto simp: rbind_Ok_iff width_simps allocation_u64_Ok_iff result_simps ChunkEntry_wf_def)
  then show ?thesis
    by (auto simp: requested_allocation_for_chunks_def rbind_Ok_iff allocation_entry_Ok_iff)
qed

lemma entry_matches_encodable:
  "list_all2 entry_matches es ces \<Longrightarrow> \<forall>ce \<in> set ces. ChunkEntry_wf ce \<Longrightarrow>
   \<forall>e \<in> set es. length (dl_line_start_offsets e) < u64_end \<and> sorted (dl_line_start_offsets e)"
  by (induction rule: list_all2_induct)
     (auto simp: entry_matches_def ChunkEntry_wf_def strict_sorted_iff)

lemma length_entries: "2 * length es \<le> length (concat (map entry_bytes es))"
proof (induction es)
  case (Cons e es)
  show ?case using add_mono [OF length_entry_bytes [of e] Cons.IH] by simp
qed simp

lemma decode_for_chunks_Ok_iff:
  assumes wf: "\<forall>ce \<in> set ces. ChunkEntry_wf ce" and len: "length bs < u64_end" and n: "length ces < u64_end"
  shows "decode_for_chunks_with_limit bs ces m = Ok idx \<longleftrightarrow>
     DenseLineIndex_encode idx = Ok bs \<and> list_all2 entry_matches (dense_entries idx) ces \<and>
     (\<exists>r \<le> m. requested_allocation_for_chunks ces = Ok r)"
  (is "?L \<longleftrightarrow> ?R")
proof -
  let ?n = "length ces" and ?c = "length (write_varuint (length ces))"
  have idx: "\<lparr>dense_entries = es\<rparr> = idx \<longleftrightarrow> es = dense_entries idx" for es
    by (cases idx) auto
  have "?L \<longleftrightarrow> bytes_at bs 0 (write_varuint ?n) \<and> ?n \<le> (length bs - ?c) div 2 \<and> 32 * ?n < u64_end \<and> 32 * ?n \<le> m \<and>
      (\<exists>r' c'. rfold (decode_chunk_entry bs m) ([], 32 * ?n, ?c) ces = Ok (dense_entries idx, r', c') \<and> c' = length bs)"
    using len n
    by (auto simp: decode_for_chunks_with_limit_def rbind_Ok_iff read_varuint_iff varuint_at_def width_simps
        result_simps allocation_entry_Ok_iff idx)
  also have "\<dots> \<longleftrightarrow> ?R"
  proof
    assume L: "bytes_at bs 0 (write_varuint ?n) \<and> ?n \<le> (length bs - ?c) div 2 \<and> 32 * ?n < u64_end \<and> 32 * ?n \<le> m \<and>
      (\<exists>r' c'. rfold (decode_chunk_entry bs m) ([], 32 * ?n, ?c) ces = Ok (dense_entries idx, r', c') \<and> c' = length bs)"
    then have c: "?c \<le> length bs" using bytes_at_length by fastforce
    from L c have es: "bytes_at bs ?c (concat (map entry_bytes (dense_entries idx)))"
      "list_all2 entry_matches (dense_entries idx) ces" "length bs = ?c + length (concat (map entry_bytes (dense_entries idx)))"
      "32 * ?n + 8 * sum_list (map line_count ces) \<le> m" "32 * ?n + 8 * sum_list (map line_count ces) < u64_end"
      by (auto simp: decode_chunk_entries_Ok_iff [OF wf len])
    have "write_varuint ?n @ concat (map entry_bytes (dense_entries idx)) = bs"
      using L es(1) by (subst bytes_at_whole [symmetric]) (simp add: bytes_at_append es(3))
    moreover have "length (dense_entries idx) = ?n" using es(2) by (rule list_all2_lengthD)
    ultimately show ?R
      using es n entry_matches_encodable [OF es(2) wf] requested_allocation_Ok_iff [OF wf]
      by (auto simp: DenseLineIndex_encode_Ok_iff)
  next
    assume R: ?R
    then have m: "list_all2 entry_matches (dense_entries idx) ces" by blast
    then have ln: "length (dense_entries idx) = ?n" by (rule list_all2_lengthD)
    have bs: "bs = write_varuint ?n @ concat (map entry_bytes (dense_entries idx))"
      using R ln by (simp add: DenseLineIndex_encode_Ok_iff)
    have r: "32 * ?n + 8 * sum_list (map line_count ces) \<le> m" "32 * ?n + 8 * sum_list (map line_count ces) < u64_end"
      using R requested_allocation_Ok_iff [OF wf] by auto
    have at: "bytes_at bs 0 (write_varuint ?n)" "bytes_at bs ?c (concat (map entry_bytes (dense_entries idx)))"
      using bytes_at_whole [of bs bs] unfolding bs by (simp_all add: bytes_at_append)
    have "?n \<le> (length bs - ?c) div 2"
      using length_entries [of "dense_entries idx"] ln by (simp add: bs)
    moreover have "rfold (decode_chunk_entry bs m) ([], 32 * ?n, ?c) ces =
        Ok (dense_entries idx, 32 * ?n + 8 * sum_list (map line_count ces), length bs)"
      using r at m by (subst decode_chunk_entries_Ok_iff [OF wf len]) (auto simp: bs)
    ultimately show "bytes_at bs 0 (write_varuint ?n) \<and> ?n \<le> (length bs - ?c) div 2 \<and> 32 * ?n < u64_end \<and> 32 * ?n \<le> m \<and>
      (\<exists>r' c'. rfold (decode_chunk_entry bs m) ([], 32 * ?n, ?c) ces = Ok (dense_entries idx, r', c') \<and> c' = length bs)"
      using at r by auto
  qed
  finally show ?thesis .
qed

section \<open>Size of the encoding\<close>

lemma write_varuint_length: "length (write_varuint v) \<le> v + 1"
proof (induction v rule: write_varuint.induct)
  case (1 v)
  show ?case
  proof (cases "v \<ge> 0x80")
    case True
    then have "length (write_varuint (drop_bit 7 v)) \<le> drop_bit 7 v + 1" by (rule 1)
    moreover have "drop_bit 7 v + 1 \<le> v" using True by (simp add: drop_bit_eq_div)
    ultimately show ?thesis using True by (simp add: write_varuint.simps [of v])
  qed (simp add: write_varuint.simps [of v])
qed

lemma write_varuint_small: "v < u64_end \<Longrightarrow> length (write_varuint v) < u64_end"
proof (cases "v \<ge> 0x80")
  case True
  assume "v < u64_end"
  moreover have "length (write_varuint v) \<le> drop_bit 7 v + 2"
    using True write_varuint_length [of "drop_bit 7 v"] by (simp add: write_varuint.simps [of v])
  moreover have "drop_bit 7 v + 2 \<le> v + 1" using True by (simp add: drop_bit_eq_div)
  moreover have "drop_bit 7 v + 2 \<le> v" using True by (simp add: drop_bit_eq_div)
  ultimately show ?thesis by linarith
qed (simp add: write_varuint.simps [of v] u64_end_def)

lemma size_offsets_Ok_iff:
  assumes "k = 0 \<longrightarrow> p = 0" and "n < u64_end"
  shows "rfold (\<lambda>(sz, previous) (index, offset).
         rbind (offset_delta index previous offset) (\<lambda>delta.
         rbind (ok_or (checked_add sz (length (write_varuint delta))) ResourceLimitExceeded) (\<lambda>sz.
         Ok (sz, offset)))) (n, p) (enumerate k os) = Ok st \<longleftrightarrow>
     sorted (p # os) \<and> n + length (write_deltas p os) < u64_end \<and> st = (n + length (write_deltas p os), last (p # os))"
  using assms
proof (induction os arbitrary: k p n)
  case (Cons o1 os)
  have srt: "sorted (p # o1 # os) \<longleftrightarrow> p \<le> o1 \<and> sorted (o1 # os)" by auto
  show ?case
    unfolding srt
    using Cons.prems Cons.IH [of "Suc k" o1 "n + length (write_varuint (o1 - p))"]
    by (auto simp: rbind_Ok_iff offset_delta_Ok_iff result_simps width_simps simp del: sorted_wrt.simps)
qed auto

lemma encoded_size_entry_Ok_iff:
  assumes "n < u64_end"
  shows "encoded_size_entry n e = Ok m \<longleftrightarrow>
     length (dl_line_start_offsets e) < u64_end \<and> sorted (dl_line_start_offsets e) \<and>
     m = n + length (entry_bytes e) \<and> m < u64_end"
  using assms
  by (auto simp: encoded_size_entry_def rbind_Ok_iff result_simps width_simps varuint_len_eq
      size_offsets_Ok_iff entry_bytes_def)

lemma encoded_size_Ok_iff:
  "encoded_size idx = Ok n \<longleftrightarrow> (\<exists>bs. DenseLineIndex_encode idx = Ok bs \<and> n = length bs \<and> length bs < u64_end)"
proof -
  have f: "rfold encoded_size_entry a es = Ok n \<longleftrightarrow>
      (\<forall>e \<in> set es. length (dl_line_start_offsets e) < u64_end \<and> sorted (dl_line_start_offsets e)) \<and>
      n = a + length (concat (map entry_bytes es)) \<and> n < u64_end" if "a < u64_end" for a es n
    using that by (induction es arbitrary: a) (auto simp: rbind_Ok_iff encoded_size_entry_Ok_iff)
  have "varuint_len k < u64_end" if "k < u64_end" for k
    using that by (simp add: varuint_len_eq write_varuint_small)
  then show ?thesis
    by (auto simp: encoded_size_def rbind_Ok_iff width_simps f DenseLineIndex_encode_Ok_iff varuint_len_eq)
qed

section \<open>Line starts of a chunk\<close>

definition starts_line :: "bytes \<Rightarrow> u32 \<Rightarrow> nat \<Rightarrow> bool" where
  "starts_line decoded fl i \<longleftrightarrow> (if i = 0 then even fl else decoded ! (i - 1) = LF)"

lemma line_start_offsets_loop:
  assumes "length decoded < u64_end" and "n \<le> length decoded" and "decoded \<noteq> []"
  shows "rfold (\<lambda>starts index.
          if decoded ! index = LF \<and> index + 1 < length decoded
          then rbind (usize_to_u64 (index + 1)) (\<lambda>n. Ok (starts @ [n]))
          else Ok starts)
        (filter (starts_line decoded fl) [0 ..< 1]) [0 ..< n] =
     Ok (filter (starts_line decoded fl) [0 ..< min (n + 1) (length decoded)])"
  using assms(2)
proof (induction n)
  case 0
  then show ?case using assms(3) by (cases decoded) auto
next
  case (Suc n)
  have mn: "[0 ..< min (n + 1) (length decoded)] = [0 ..< n + 1]"
    "[0 ..< min (Suc n + 1) (length decoded)] = (if Suc n < length decoded then [0 ..< n + 1] @ [Suc n] else [0 ..< n + 1])"
    using Suc.prems by (auto simp: min_def)
  let ?f = "\<lambda>starts index.
          if decoded ! index = LF \<and> index + 1 < length decoded
          then rbind (usize_to_u64 (index + 1)) (\<lambda>n. Ok (starts @ [n]))
          else Ok starts"
  have "rfold ?f (filter (starts_line decoded fl) [0 ..< 1]) [0 ..< Suc n] =
      rbind (rfold ?f (filter (starts_line decoded fl) [0 ..< 1]) [0 ..< n]) (\<lambda>s'. ?f s' n)"
    unfolding upt_Suc_append [OF le0] rfold_append rfold.simps rbind_Ok_right ..
  also have "\<dots> = ?f (filter (starts_line decoded fl) [0 ..< n + 1]) n"
    using Suc by (simp only: mn(1) [symmetric] Suc_leD rbind.simps)
  also have "\<dots> = Ok (filter (starts_line decoded fl) [0 ..< min (Suc n + 1) (length decoded)])"
    unfolding mn(2) using assms(1) by (auto simp: starts_line_def)
  finally show ?case .
qed

lemma line_start_offsets_eq:
  assumes "length decoded < u64_end"
  shows "line_start_offsets decoded fl = Ok (filter (starts_line decoded fl) [0 ..< length decoded])"
proof (cases "decoded = []")
  case False
  have "(if fl AND STARTS_WITH_LINE_CONTINUATION = 0 \<and> decoded \<noteq> [] then [0] else []) =
      filter (starts_line decoded fl) [0 ..< 1]"
    using False by (simp add: starts_line_def STARTS_WITH_LINE_CONTINUATION_def and_one_eq even_iff_mod_2_eq_zero)
  then show ?thesis
    using line_start_offsets_loop [OF assms order_refl False, of fl]
    unfolding line_start_offsets_def Let_def by simp
qed (simp add: line_start_offsets_def)

lemma starts_line_slice:
  assumes "a + i < b" and "b \<le> length input" and "even fl \<longleftrightarrow> is_line_start input a"
  shows "starts_line (slice input a b) fl i \<longleftrightarrow> is_line_start input (a + i)"
  using assms by (cases i) (auto simp: starts_line_def is_line_start_def nth_slice)

lemma filter_shift: "filter P [a ..< b] = map ((+) a) (filter (\<lambda>i. P (a + i)) [0 ..< b - a])"
proof -
  have "[a ..< b] = map ((+) a) [0 ..< b - a]" by (cases "a \<le> b") (auto intro: nth_equalityI)
  then show ?thesis by (simp add: filter_map comp_def)
qed

lemma slice_line_starts:
  assumes "a \<le> b" and "b \<le> length input" and "length input < u64_end"
    and "even fl \<longleftrightarrow> is_line_start input a"
  shows "line_start_offsets (slice input a b) fl =
     Ok (map (\<lambda>i. i - a) (filter (is_line_start input) [a ..< b]))"
proof -
  have "filter (starts_line (slice input a b) fl) [0 ..< b - a] = filter (\<lambda>i. is_line_start input (a + i)) [0 ..< b - a]"
    using assms(2,4) by (intro filter_cong refl starts_line_slice) auto
  moreover have "length (slice input a b) = b - a" using assms(1,2) by simp
  ultimately show ?thesis
    using assms(2,3) by (simp add: line_start_offsets_eq filter_shift [of _ a b] comp_def)
qed

text \<open>A chunk entry that carries the metadata of a planned chunk.\<close>

definition entry_of_plan :: "ChunkEntry \<Rightarrow> PlannedChunk \<Rightarrow> bool" where
  "entry_of_plan e c \<longleftrightarrow> chunk_id e = pc_chunk_id c \<and> logical_offset e = pc_logical_offset c \<and>
     uncompressed_size e = pc_uncompressed_size c \<and> first_line e = pc_first_line c \<and>
     line_count e = pc_line_count c \<and> flags e = pc_flags c"

definition dense_of :: "bytes \<Rightarrow> ChunkEntry \<Rightarrow> DenseLineEntry" where
  "dense_of input e = \<lparr>dl_chunk_id = chunk_id e,
     dl_line_start_offsets = map (\<lambda>i. i - logical_offset e)
       (filter (is_line_start input) [logical_offset e ..< logical_offset e + uncompressed_size e])\<rparr>"

lemma from_original_bytes_entry:
  assumes "chunk_ok input options c" and "entry_of_plan e c" and "length input < u64_end"
  shows "from_original_entry input e = Ok (dense_of input e)"
proof -
  let ?a = "logical_offset e" and ?b = "logical_offset e + uncompressed_size e"
  have ab: "?a \<le> ?b" "?b \<le> length input" and fl: "even (flags e) \<longleftrightarrow> is_line_start input ?a"
    and n: "line_count e = lines_in input ?a ?b"
    using assms(1,2) by (auto simp: chunk_ok_def entry_of_plan_def Let_def STARTS_WITH_LINE_CONTINUATION_def)
  have w: "?b < u64_end" using ab assms(3) by simp
  show ?thesis
    using slice_line_starts [OF ab assms(3) fl] w ab n
    by (simp add: from_original_entry_def checked_add_def get_slice_def lines_in_def dense_of_def)
qed

lemma dense_of_matches:
  assumes "chunk_ok input options c" and "entry_of_plan e c"
  shows "entry_matches (dense_of input e) e"
proof -
  let ?a = "logical_offset e" and ?b = "logical_offset e + uncompressed_size e"
  have n: "line_count e = lines_in input ?a ?b"
    using assms by (auto simp: chunk_ok_def entry_of_plan_def Let_def)
  moreover have "lines_in input ?a ?b \<le> uncompressed_size e"
    using length_filter_le [of "is_line_start input" "[?a ..< ?b]"] by (simp add: lines_in_def)
  moreover have "sorted_wrt (<) (map (\<lambda>i. i - ?a) (filter P [?a ..< n]))" for P n
    by (induction n) (auto simp: sorted_wrt_append)
  ultimately show ?thesis by (auto simp: entry_matches_def dense_of_def lines_in_def)
qed

lemma from_original_bytes_planned:
  assumes "plan_chunks input options = Ok plan" and "list_all2 entry_of_plan es (plan_chunk_list plan)"
    and "length input < u64_end"
  shows "from_original_bytes input es = Ok \<lparr>dense_entries = map (dense_of input) es\<rparr>"
    and "list_all2 entry_matches (map (dense_of input) es) es"
proof -
  have ok: "\<exists>c. chunk_ok input options c \<and> entry_of_plan e c" if mem: "e \<in> set es" for e
  proof -
    obtain i where i: "i < length es" "e = es ! i" using mem by (metis in_set_conv_nth)
    then have "entry_of_plan e (plan_chunk_list plan ! i)" "i < length (plan_chunk_list plan)"
      using assms(2) by (auto simp: list_all2_conv_all_nth)
    then show ?thesis using planned_from_nth [OF plan_chunks_Ok(3) [OF assms(1)]] by blast
  qed
  have "rmap (from_original_entry input) es = Ok (map (dense_of input) es)"
  proof (rule rmap_map_Ok)
    fix e assume "e \<in> set es"
    then obtain c where "chunk_ok input options c" "entry_of_plan e c" using ok by blast
    then show "from_original_entry input e = Ok (dense_of input e)"
      using assms(3) by (rule from_original_bytes_entry)
  qed
  then show "from_original_bytes input es = Ok \<lparr>dense_entries = map (dense_of input) es\<rparr>"
    by (simp add: from_original_bytes_def)
  show "list_all2 entry_matches (map (dense_of input) es) es"
    unfolding list_all2_map1
  proof (rule list.rel_refl_strong)
    fix e assume "e \<in> set es"
    then obtain c where "chunk_ok input options c" "entry_of_plan e c" using ok by blast
    then show "entry_matches (dense_of input e) e" by (rule dense_of_matches)
  qed
qed

section \<open>Properties\<close>

text \<open>
  The variable-length integers are canonical. Reading at a position succeeds with a
  value if and only if the value fits 64 bits and the bytes there are exactly the ones the
  writer produces for it; so there is one accepted encoding per value.
\<close>

theorem read_varuint_canonical:
  "read_varuint bs c = Ok (v, c') \<longleftrightarrow>
     v < 2 ^ 64 \<and> c' = c + varuint_len v \<and> c' \<le> length bs \<and> slice bs c c' = write_varuint v"
proof -
  have "bytes_at bs c ws \<longleftrightarrow> c + length ws \<le> length bs \<and> slice bs c (c + length ws) = ws" for ws
  proof
    assume "bytes_at bs c ws"
    then show "c + length ws \<le> length bs \<and> slice bs c (c + length ws) = ws"
      by (auto simp: bytes_at_def slice_def)
  next
    assume a: "c + length ws \<le> length bs \<and> slice bs c (c + length ws) = ws"
    have "bs = take c bs @ slice bs c (c + length ws) @ drop (c + length ws) bs"
      using fields_of [of c "c + length ws" bs] by (metis append_take_drop_id le_add1)
    with a show "bytes_at bs c ws" unfolding bytes_at_def by (intro exI) auto
  qed
  then show ?thesis
    by (auto simp: read_varuint_iff varuint_at_def varuint_len_eq u64_end_def)
qed

text \<open>
  C26: decoding the dense line index is exactly inverse to encoding. For well-formed chunk
  entries the decoder returns an index if and only if the bytes are the encoding of that
  index, the index has one entry per chunk whose identifier and count agree with the chunk,
  with strictly ascending offsets inside the chunk, and the memory requested for it is
  within the limit.
\<close>

theorem dense_index_decode_exact:
  assumes "\<forall>ce \<in> set ces. ChunkEntry_wf ce" and "length bs < u64_end" and "length ces < u64_end"
  shows "decode_for_chunks_with_limit bs ces m = Ok idx \<longleftrightarrow>
     DenseLineIndex_encode idx = Ok bs \<and>
     list_all2 (\<lambda>e ce. dl_chunk_id e = chunk_id ce \<and> length (dl_line_start_offsets e) = line_count ce \<and>
        line_count ce \<le> uncompressed_size ce \<and> sorted_wrt (<) (dl_line_start_offsets e) \<and>
        (\<forall>o1 \<in> set (dl_line_start_offsets e). o1 < uncompressed_size ce)) (dense_entries idx) ces \<and>
     (\<exists>r \<le> m. requested_allocation_for_chunks ces = Ok r)"
  using decode_for_chunks_Ok_iff [OF assms] by (simp add: entry_matches_def [abs_def])

definition sample_index :: DenseLineIndex where
  "sample_index = \<lparr>dense_entries = [\<lparr>dl_chunk_id = 0, dl_line_start_offsets = [0, 3]\<rparr>,
     \<lparr>dl_chunk_id = 1, dl_line_start_offsets = [1, 2, 5]\<rparr>]\<rparr>"

theorem dense_index_decode_exact_witness:
  "\<exists>bs. decode_for_chunks_with_limit bs sample_table 104 = Ok sample_index"
proof -
  let ?bs = "write_varuint (length (dense_entries sample_index)) @ concat (map entry_bytes (dense_entries sample_index))"
  have l: "length (write_varuint v) = 1" if "v < 128" for v
    using that by (simp add: write_varuint.simps)
  have bs: "DenseLineIndex_encode sample_index = Ok ?bs"
    unfolding DenseLineIndex_encode_Ok_iff by (simp add: sample_index_def u64_end_def)
  have len: "length ?bs < u64_end"
    by (simp add: sample_index_def entry_bytes_def l u64_end_def)
  have "requested_allocation_for_chunks sample_table = Ok 104"
    unfolding requested_allocation_Ok_iff [OF sample_table_wf] by (simp add: sample_table_sums u64_end_def)
  then have "decode_for_chunks_with_limit ?bs sample_table 104 = Ok sample_index"
    by (subst dense_index_decode_exact [OF sample_table_wf len])
       (use bs in \<open>auto simp: u64_end_def sample_table_sums\<close>,
        auto simp: sample_index_def sample_table_def sample_entry_def)
  then show ?thesis ..
qed

lemma dense_of_verifies:
  assumes "i < length es" and "logical_offset (es ! i) + uncompressed_size (es ! i) \<le> length input"
    and "even (flags (es ! i)) \<longleftrightarrow> is_line_start input (logical_offset (es ! i))" and "length input < u64_end"
  shows "verify_chunk \<lparr>dense_entries = map (dense_of input) es\<rparr> i
     (slice input (logical_offset (es ! i)) (logical_offset (es ! i) + uncompressed_size (es ! i))) (flags (es ! i)) = Ok ()"
  using slice_line_starts [OF _ assms(2,4,3)] assms(1) by (simp add: verify_chunk_def get_def dense_of_def)

text \<open>
  C27: the index built from the original bytes is right. For chunk entries that carry the
  metadata of a plan of the input, building succeeds; entry \<open>i\<close> lists exactly the line
  starts inside chunk \<open>i\<close>, relative to the chunk; every chunk verifies against it; and the
  size computed in advance is the length of its encoding.
\<close>

theorem dense_index_of_plan:
  assumes "plan_chunks input options = Ok plan" and "list_all2 entry_of_plan es (plan_chunk_list plan)"
    and "length input < u64_end"
  shows "\<exists>idx. from_original_bytes input es = Ok idx \<and> length (dense_entries idx) = length es \<and>
     (\<forall>i < length es. let a = logical_offset (es ! i); b = a + uncompressed_size (es ! i) in
        dl_line_start_offsets (dense_entries idx ! i) = map (\<lambda>j. j - a) (filter (is_line_start input) [a ..< b]) \<and>
        verify_chunk idx i (slice input a b) (flags (es ! i)) = Ok ()) \<and>
     (\<forall>bs. DenseLineIndex_encode idx = Ok bs \<longrightarrow> length bs < 2 ^ 64 \<longrightarrow> encoded_size idx = Ok (length bs))"
proof -
  let ?idx = "\<lparr>dense_entries = map (dense_of input) es\<rparr>"
  have ver: "verify_chunk ?idx i (slice input a b) (flags (es ! i)) = Ok ()"
    if i: "i < length es" and a: "a = logical_offset (es ! i)" and b: "b = a + uncompressed_size (es ! i)" for i a b
  proof -
    have "entry_of_plan (es ! i) (plan_chunk_list plan ! i)" "i < length (plan_chunk_list plan)"
      using i assms(2) by (auto simp: list_all2_conv_all_nth)
    then have "b \<le> length input" "even (flags (es ! i)) \<longleftrightarrow> is_line_start input a"
      using planned_from_nth [OF plan_chunks_Ok(3) [OF assms(1)], of i] a b
      by (auto simp: chunk_ok_def entry_of_plan_def Let_def STARTS_WITH_LINE_CONTINUATION_def)
    then show ?thesis using dense_of_verifies [OF i _ _ assms(3)] a b by simp
  qed
  show ?thesis
    using from_original_bytes_planned(1) [OF assms] ver
    by (intro exI [of _ ?idx]) (auto simp: Let_def dense_of_def encoded_size_Ok_iff u64_end_def)
qed

definition sample_entry_of :: "PlannedChunk \<Rightarrow> ChunkEntry" where
  "sample_entry_of c = (sample_entry (pc_chunk_id c) (pc_logical_offset c) (pc_uncompressed_size c)
     (pc_first_line c) (pc_line_count c))\<lparr>flags := pc_flags c\<rparr>"

theorem dense_index_of_plan_witness:
  "\<exists>plan idx. plan_chunks sample_text sample_options = Ok plan \<and>
     from_original_bytes sample_text (map sample_entry_of (plan_chunk_list plan)) = Ok idx"
proof -
  obtain plan where p: "plan_chunks sample_text sample_options = Ok plan" using sample_plan_ex ..
  have "list_all2 entry_of_plan (map sample_entry_of (plan_chunk_list plan)) (plan_chunk_list plan)"
    by (auto simp: list_all2_map1 entry_of_plan_def sample_entry_of_def sample_entry_def intro!: list.rel_refl_strong)
  from dense_index_of_plan [OF p this] p show ?thesis
    by (auto simp: sample_text_def u64_end_def)
qed

end
