(* ===== verification/Cbor_Correct.thy ===== *)
theory Cbor_Correct
  imports Cbor "HOL-Library.Multiset"
begin

text \<open>
  Correctness of the CBOR module: the size and budget accounting in closed form, that the
  parser accepts exactly the bytes the encoder produces, and that the budgets the parser
  charges are the ones the writer measures.
\<close>

section \<open>Specification functions\<close>

definition enc :: "CborValue \<Rightarrow> bytes" where
  "enc v = (case encode_value v of Inl _ \<Rightarrow> [] | Inr bs \<Rightarrow> bs)"

definition int_argument :: "i128 \<Rightarrow> nat" where
  "int_argument v = (if v \<ge> 0 then nat v else nat (- (v + 1)))"

fun cbor_items :: "CborValue \<Rightarrow> nat" where
  "cbor_items (Array vs) = 1 + sum_list (map cbor_items vs)"
| "cbor_items (CMap es) = 1 + sum_list (map (\<lambda>(k, v). cbor_items k + cbor_items v) es)"
| "cbor_items _ = 1"

fun cbor_size :: "CborValue \<Rightarrow> nat" where
  "cbor_size (Integer n) = head_len (int_argument n)"
| "cbor_size (Bytes bs) = head_len (length bs) + length bs"
| "cbor_size (Text s) = head_len (length s) + length s"
| "cbor_size (Array vs) = head_len (length vs) + sum_list (map cbor_size vs)"
| "cbor_size (CMap es) =
     head_len (length es) + sum_list (map (\<lambda>(k, v). cbor_size k + cbor_size v) es)"
| "cbor_size _ = 1"

fun cbor_alloc :: "CborValue \<Rightarrow> nat" where
  "cbor_alloc (Bytes bs) = length bs"
| "cbor_alloc (Text s) = length s"
| "cbor_alloc (Array vs) = sum_list (map cbor_alloc vs)"
| "cbor_alloc (CMap es) =
     sum_list (map (\<lambda>(k, v). cbor_size k + cbor_alloc k + cbor_alloc v) es)"
| "cbor_alloc _ = 0"

text \<open>Levels of nesting below a value.\<close>

fun nesting :: "CborValue \<Rightarrow> nat" where
  "nesting (Array vs) = foldr (\<lambda>v m. max (Suc (nesting v)) m) vs 0"
| "nesting (CMap es) = foldr (\<lambda>(k, v) m. max (max (Suc (nesting k)) (Suc (nesting v))) m) es 0"
| "nesting _ = 0"

text \<open>Every text is a Rust string, that is, valid UTF-8.\<close>

fun texts_valid :: "CborValue \<Rightarrow> bool" where
  "texts_valid (Text s) \<longleftrightarrow> valid_utf8 (as_bytes s)"
| "texts_valid (Array vs) \<longleftrightarrow> (\<forall>v \<in> set vs. texts_valid v)"
| "texts_valid (CMap es) \<longleftrightarrow> (\<forall>e \<in> set es. texts_valid (fst e) \<and> texts_valid (snd e))"
| "texts_valid _ \<longleftrightarrow> True"

text \<open>The keys of every map are in strictly ascending order of their encodings.\<close>

fun key_sorted :: "CborValue \<Rightarrow> bool" where
  "key_sorted (Array vs) \<longleftrightarrow> (\<forall>v \<in> set vs. key_sorted v)"
| "key_sorted (CMap es) \<longleftrightarrow> sorted_wrt (<) (map (enc \<circ> fst) es) \<and>
     (\<forall>e \<in> set es. key_sorted (fst e) \<and> key_sorted (snd e))"
| "key_sorted _ \<longleftrightarrow> True"

text \<open>The value with the entries of every map sorted by encoded key.\<close>

fun canon :: "CborValue \<Rightarrow> CborValue" where
  "canon (Array vs) = Array (map canon vs)"
| "canon (CMap es) = CMap (sort_key (enc \<circ> fst) (map (\<lambda>(k, v). (canon k, canon v)) es))"
| "canon v = v"

text \<open>Structural induction with the children of arrays and maps as list elements.\<close>

lemma CborValue_induct [case_names Integer Bytes Text Array CMap CBool CNull]:
  assumes "\<And>n. P (Integer n)" and "\<And>bs. P (Bytes bs)" and "\<And>s. P (Text s)"
    and "\<And>vs. (\<And>v. v \<in> set vs \<Longrightarrow> P v) \<Longrightarrow> P (Array vs)"
    and "\<And>es. (\<And>k v. (k, v) \<in> set es \<Longrightarrow> P k) \<Longrightarrow> (\<And>k v. (k, v) \<in> set es \<Longrightarrow> P v) \<Longrightarrow> P (CMap es)"
    and "\<And>b. P (CBool b)" and "P CNull"
  shows "P x"
proof (induction x)
  case (CMap es)
  show ?case
    by (rule assms(5)) (use CMap in \<open>fastforce simp: prod_set_simps\<close>)+
qed (use assms in auto)

section \<open>Encoded size and measured usage\<close>

lemma enc_Ok [simp]: "encode_value v = Ok bs \<Longrightarrow> enc v = bs"
  by (simp add: enc_def)

lemma length_encode_type_and_argument [simp]:
  "length (encode_type_and_argument m n) = head_len n"
  by (simp add: encode_type_and_argument_def head_len_def Let_def)

lemma head_len_bounds: "1 \<le> head_len n" "head_len n \<le> 9"
  by (auto simp: head_len_def)

lemma sum_list_sort_key:
  fixes g :: "'a \<Rightarrow> nat"
  shows "sum_list (map g (sort_key f xs)) = sum_list (map g xs)"
  by (metis mset_map mset_sort sum_mset_sum_list)

lemma length_concat_pairs: "length (concat (map (\<lambda>(k, v). k @ v) ps)) =
    sum_list (map (\<lambda>(k, v). length k + length v) ps)"
  by (induction ps) auto

lemma rmap_pair_Ok:
  "rmap (\<lambda>(k, v). rbind (f k) (\<lambda>a. rbind (g v) (\<lambda>b. Ok (a, b)))) es = Ok ps \<longleftrightarrow>
   list_all2 (\<lambda>e p. f (fst e) = Ok (fst p) \<and> g (snd e) = Ok (snd p)) es ps"
  by (auto simp: rmap_Ok_iff rbind_Ok_iff list_all2_conv_all_nth split_beta prod_eq_iff)

lemma encode_pairs_enc:
  assumes "list_all2 (\<lambda>e p. encode_value (fst e) = Ok (fst p) \<and> encode_value (snd e) = Ok (snd p)) es ps"
  shows "ps = map (\<lambda>(k, v). (enc k, enc v)) es"
  using assms by (induction rule: list_all2_induct) (auto simp: prod_eq_iff split_beta)

lemma encode_list_enc:
  assumes "list_all2 (\<lambda>v b. encode_value v = Ok b) vs bss"
  shows "bss = map enc vs"
  using assms by (induction rule: list_all2_induct) auto

text \<open>When the parts encode, the encoding is the one given by \<^const>\<open>enc\<close>.\<close>

lemma encode_Array_iff:
  "encode_value (Array vs) = Ok bs \<longleftrightarrow>
     length vs < u64_end \<and> (\<forall>v \<in> set vs. is_ok (encode_value v)) \<and>
     bs = encode_type_and_argument 4 (length vs) @ concat (map enc vs)"
proof -
  have "rmap encode_value vs = Ok bss \<longleftrightarrow> (\<forall>v \<in> set vs. is_ok (encode_value v)) \<and> bss = map enc vs" for bss
    by (auto simp: rmap_Ok_iff list_all2_conv_all_nth is_ok_iff in_set_conv_nth intro: nth_equalityI)
       (metis enc_Ok nth_mem)+
  then show ?thesis by (auto simp: rbind_Ok_iff width_simps)
qed

lemma encode_CMap_iff:
  "encode_value (CMap es) = Ok bs \<longleftrightarrow>
     length es < u64_end \<and> (\<forall>e \<in> set es. is_ok (encode_value (fst e)) \<and> is_ok (encode_value (snd e))) \<and>
     \<not> has_adjacent_equal_keys (sort_key fst (map (\<lambda>(k, v). (enc k, enc v)) es)) \<and>
     bs = encode_type_and_argument 5 (length es) @
          concat (map (\<lambda>(k, v). k @ v) (sort_key fst (map (\<lambda>(k, v). (enc k, enc v)) es)))"
proof -
  have "rmap (\<lambda>(k, v). rbind (encode_value k) (\<lambda>a. rbind (encode_value v) (\<lambda>b. Ok (a, b)))) es = Ok ps \<longleftrightarrow>
      (\<forall>e \<in> set es. is_ok (encode_value (fst e)) \<and> is_ok (encode_value (snd e))) \<and>
      ps = map (\<lambda>(k, v). (enc k, enc v)) es" for ps
    unfolding rmap_pair_Ok
  proof
    assume l: "list_all2 (\<lambda>e p. encode_value (fst e) = Ok (fst p) \<and> encode_value (snd e) = Ok (snd p)) es ps"
    then have "\<forall>e \<in> set es. is_ok (encode_value (fst e)) \<and> is_ok (encode_value (snd e))"
      by (induction rule: list_all2_induct) auto
    with encode_pairs_enc [OF l]
    show "(\<forall>e \<in> set es. is_ok (encode_value (fst e)) \<and> is_ok (encode_value (snd e))) \<and>
      ps = map (\<lambda>(k, v). (enc k, enc v)) es" by blast
  next
    assume "(\<forall>e \<in> set es. is_ok (encode_value (fst e)) \<and> is_ok (encode_value (snd e))) \<and>
      ps = map (\<lambda>(k, v). (enc k, enc v)) es"
    then show "list_all2 (\<lambda>e p. encode_value (fst e) = Ok (fst p) \<and> encode_value (snd e) = Ok (snd p)) es ps"
      by (auto simp: list_all2_map2 list_all2_same enc_def split_beta is_ok_def split: sum.splits)
  qed
  then show ?thesis by (auto simp: rbind_Ok_iff width_simps Let_def split: if_splits)
qed

lemma encode_Integer_iff:
  "encode_value (Integer v) = Ok bs \<longleftrightarrow> int_argument v < u64_end \<and>
     bs = encode_type_and_argument (if v \<ge> 0 then 0 else 1) (int_argument v)"
  by (auto simp: rbind_Ok_iff ok_or_Ok_iff u64_try_from_def negative_argument_def int_argument_def
      split: if_splits)

lemma encode_Bytes_iff:
  "encode_value (Bytes b) = Ok bs \<longleftrightarrow> length b < u64_end \<and>
     bs = encode_type_and_argument 2 (length b) @ b"
  by (auto simp: rbind_Ok_iff width_simps)

lemma encode_Text_iff:
  "encode_value (Text s) = Ok bs \<longleftrightarrow> length s < u64_end \<and>
     bs = encode_type_and_argument 3 (length s) @ as_bytes s"
  by (auto simp: rbind_Ok_iff width_simps)

lemmas encode_iffs =
  encode_Integer_iff encode_Bytes_iff encode_Text_iff encode_Array_iff encode_CMap_iff

lemma encode_length: "encode_value v = Ok bs \<Longrightarrow> length bs = cbor_size v"
proof (induction v arbitrary: bs rule: CborValue_induct)
  case (Integer x)
  then show ?case by (simp add: encode_Integer_iff del: encode_value.simps)
next
  case (Array vs)
  from Array.prems have ok: "\<forall>v \<in> set vs. is_ok (encode_value v)"
    and bs: "bs = encode_type_and_argument 4 (length vs) @ concat (map enc vs)"
    by (auto simp only: encode_Array_iff)
  have "sum_list (map (length \<circ> enc) vs) = sum_list (map cbor_size vs)"
    using ok Array.IH by (intro arg_cong [where f = sum_list] map_cong) (auto simp: is_ok_iff)
  then show ?case by (simp add: bs length_concat)
next
  case (CMap es)
  from CMap.prems have ok: "\<forall>e \<in> set es. is_ok (encode_value (fst e)) \<and> is_ok (encode_value (snd e))"
    and bs: "bs = encode_type_and_argument 5 (length es) @
          concat (map (\<lambda>(k, v). k @ v) (sort_key fst (map (\<lambda>(k, v). (enc k, enc v)) es)))"
    by (auto simp only: encode_CMap_iff)
  have part: "length (enc (fst e)) + length (enc (snd e)) = cbor_size (fst e) + cbor_size (snd e)"
    if "e \<in> set es" for e
    using ok that CMap.IH [of "fst e" "snd e"] by (fastforce simp: is_ok_iff)
  let ?ps = "map (\<lambda>(k, v). (enc k, enc v)) es"
  have "sum_list (map (\<lambda>(k, v). length k + length v) (sort_key fst ?ps)) =
      sum_list (map (\<lambda>(k, v). length k + length v) ?ps)"
    by (rule sum_list_sort_key)
  also have "\<dots> = sum_list (map (\<lambda>(k, v). cbor_size k + cbor_size v) es)"
    using part unfolding map_map
    by (intro arg_cong [where f = sum_list] map_cong) (auto simp: split_beta)
  finally show ?case by (simp add: bs length_concat_pairs)
qed (auto simp: rbind_Ok_iff width_simps)

text \<open>
  Where the measured usage fits in 64 bits, it is the sum over the value; and it is reported
  whenever it fits.
\<close>

abbreviation usage_of :: "CborValue \<Rightarrow> CborUsage" where
  "usage_of v \<equiv> \<lparr>usage_items = cbor_items v, usage_allocation = cbor_alloc v,
     usage_encoded_bytes = cbor_size v\<rparr>"

lemma CborUsage_add_Ok_iff:
  "CborUsage_add a b = Ok c \<longleftrightarrow>
     usage_items c = usage_items a + usage_items b \<and>
     usage_allocation c = usage_allocation a + usage_allocation b \<and>
     usage_encoded_bytes c = usage_encoded_bytes a + usage_encoded_bytes b \<and>
     usage_items c < u64_end \<and> usage_allocation c < u64_end \<and> usage_encoded_bytes c < u64_end"
  by (cases c) (auto simp: CborUsage_add_def result_simps width_simps)

lemma usage_array_loop:
  assumes "\<And>v u. v \<in> set vs \<Longrightarrow> measure_value v = Ok u \<Longrightarrow> u = usage_of v"
    and "rfold (\<lambda>usage child. rbind (measure_value child) (CborUsage_add usage)) u vs = Ok u'"
  shows "usage_items u' = usage_items u + sum_list (map cbor_items vs) \<and>
     usage_allocation u' = usage_allocation u + sum_list (map cbor_alloc vs) \<and>
     usage_encoded_bytes u' = usage_encoded_bytes u + sum_list (map cbor_size vs)"
  using assms
proof (induction vs arbitrary: u)
  case (Cons v vs)
  from Cons.prems(2) obtain vu u1 where
    vu: "measure_value v = Ok vu" and u1: "CborUsage_add u vu = Ok u1"
    and rest: "rfold (\<lambda>usage child. rbind (measure_value child) (CborUsage_add usage)) u1 vs = Ok u'"
    by (auto simp: rbind_Ok_iff)
  have "vu = usage_of v" using Cons.prems(1) [of v] vu by simp
  with Cons.IH [OF _ rest] Cons.prems(1) u1 show ?case
    by (auto simp: CborUsage_add_Ok_iff)
qed simp

lemma usage_map_loop:
  assumes "\<And>k v u. (k, v) \<in> set es \<Longrightarrow> measure_value k = Ok u \<Longrightarrow> u = usage_of k"
    and "\<And>k v u. (k, v) \<in> set es \<Longrightarrow> measure_value v = Ok u \<Longrightarrow> u = usage_of v"
    and "rfold (\<lambda>usage (k, v).
         rbind (measure_value k) (\<lambda>key_usage.
         rbind (ok_or (checked_add (usage_allocation usage) (usage_encoded_bytes key_usage))
                  ResourceLimitExceeded) (\<lambda>a.
         rbind (CborUsage_add (usage\<lparr>usage_allocation := a\<rparr>) key_usage) (\<lambda>usage'.
         rbind (measure_value v) (CborUsage_add usage'))))) u es = Ok u'"
  shows "usage_items u' = usage_items u + sum_list (map (\<lambda>(k, v). cbor_items k + cbor_items v) es) \<and>
     usage_allocation u' =
       usage_allocation u + sum_list (map (\<lambda>(k, v). cbor_size k + cbor_alloc k + cbor_alloc v) es) \<and>
     usage_encoded_bytes u' =
       usage_encoded_bytes u + sum_list (map (\<lambda>(k, v). cbor_size k + cbor_size v) es)"
  using assms
proof (induction es arbitrary: u)
  case (Cons e es)
  obtain k v where e: "e = (k, v)" by (cases e)
  from Cons.prems(3) obtain ku a u1 vu u2 where
    ku: "measure_value k = Ok ku" and a: "a = usage_allocation u + usage_encoded_bytes ku"
    and u1: "CborUsage_add (u\<lparr>usage_allocation := a\<rparr>) ku = Ok u1"
    and vu: "measure_value v = Ok vu" and u2: "CborUsage_add u1 vu = Ok u2"
    and rest: "rfold (\<lambda>usage (k, v).
         rbind (measure_value k) (\<lambda>key_usage.
         rbind (ok_or (checked_add (usage_allocation usage) (usage_encoded_bytes key_usage))
                  ResourceLimitExceeded) (\<lambda>a.
         rbind (CborUsage_add (usage\<lparr>usage_allocation := a\<rparr>) key_usage) (\<lambda>usage'.
         rbind (measure_value v) (CborUsage_add usage'))))) u2 es = Ok u'"
    unfolding e by (auto simp: rbind_Ok_iff result_simps width_simps)
  have k: "ku = usage_of k" and v: "vu = usage_of v"
    using Cons.prems(1) [of k v ku] Cons.prems(2) [of k v vu] ku vu by (auto simp: e)
  have "\<And>k v u. (k, v) \<in> set es \<Longrightarrow> measure_value k = Ok u \<Longrightarrow> u = usage_of k"
    and "\<And>k v u. (k, v) \<in> set es \<Longrightarrow> measure_value v = Ok u \<Longrightarrow> u = usage_of v"
    using Cons.prems(1,2) by (meson list.set_intros(2))+
  note IH = Cons.IH [OF this rest]
  from IH u1 u2 show ?case
    by (simp add: CborUsage_add_Ok_iff e a k v)
qed simp

lemma measure_value_usage: "measure_value v = Ok u \<Longrightarrow> u = usage_of v"
proof (induction v arbitrary: u rule: CborValue_induct)
  case (Integer x)
  then show ?case
    by (auto simp: rbind_Ok_iff ok_or_Ok_iff u64_try_from_def negative_argument_def int_argument_def
        split: if_splits)
next
  case (Array vs)
  from Array.prems have "rfold (\<lambda>usage child. rbind (measure_value child) (CborUsage_add usage))
      \<lparr>usage_items = 1, usage_allocation = 0, usage_encoded_bytes = head_len (length vs)\<rparr> vs = Ok u"
    by (auto simp: rbind_Ok_iff width_simps)
  from usage_array_loop [OF Array.IH this] show ?case
    by (auto intro!: CborUsage.equality)
next
  case (CMap es)
  define u0 where "u0 = \<lparr>usage_items = (1::nat), usage_allocation = 0,
      usage_encoded_bytes = head_len (length es)\<rparr>"
  from CMap.prems have "rfold (\<lambda>usage (k, v).
         rbind (measure_value k) (\<lambda>key_usage.
         rbind (ok_or (checked_add (usage_allocation usage) (usage_encoded_bytes key_usage))
                  ResourceLimitExceeded) (\<lambda>a.
         rbind (CborUsage_add (usage\<lparr>usage_allocation := a\<rparr>) key_usage) (\<lambda>usage'.
         rbind (measure_value v) (CborUsage_add usage'))))) u0 es = Ok u"
    by (auto simp: rbind_Ok_iff width_simps u0_def)
  from usage_map_loop [OF CMap.IH this] show ?case
    by (auto intro!: CborUsage.equality simp: u0_def)
qed (auto simp: payload_usage_def result_simps width_simps)

section \<open>Heads\<close>

text \<open>The initial byte holds the major type in its high three bits and the additional
  information in its low five.\<close>

lemma mask_31: "(0x1f :: u8) = mask 5"
  by (simp add: mask_eq_exp_minus_1)

lemma small_drop_bit: "c \<le> (0x1f :: u8) \<Longrightarrow> drop_bit 5 c = 0"
proof -
  assume "c \<le> 0x1f"
  then have "unat c div 2 ^ 5 = 0" by (simp add: word_le_nat_alt)
  then have "unat (drop_bit 5 c) = 0" by (simp only: unat_drop_bit_eq, simp only: drop_bit_eq_div)
  then show ?thesis by (simp only: unat_eq_zero)
qed

lemma initial_additional:
  assumes "c \<le> (0x1f :: u8)"
  shows "(push_bit 5 a OR c) AND 0x1f = c"
proof -
  have "take_bit 5 c = c"
    using small_drop_bit [OF assms] by (simp add: take_bit_eq_self_iff_drop_bit_eq_0)
  then show ?thesis
    unfolding mask_31 take_bit_eq_mask [symmetric] by (simp add: take_bit_push_bit)
qed

lemma major_shift:
  assumes "a < (8 :: u8)"
  shows "drop_bit 5 (push_bit 5 a) = a"
proof -
  have "unat a < 8" using assms by (simp add: word_less_nat_alt)
  then have "take_bit 8 (unat a * 2 ^ 5) div 2 ^ 5 = unat a" by (simp add: take_bit_eq_mod)
  then have "unat (drop_bit 5 (push_bit 5 a)) = unat a"
    by (simp only: unat_drop_bit_eq unsigned_push_bit_eq, simp only: drop_bit_eq_div push_bit_eq_mult) simp
  then show ?thesis by (simp only: word_unat_eq_iff)
qed

lemma initial_major:
  assumes "c \<le> (0x1f :: u8)" and "a < (8 :: u8)"
  shows "drop_bit 5 (push_bit 5 a OR c) = a"
  using small_drop_bit [OF assms(1)] major_shift [OF assms(2)] by simp

lemma initial_split: "push_bit 5 (drop_bit 5 b) OR (b AND 0x1f) = (b :: u8)"
  unfolding mask_31 take_bit_eq_mask [symmetric]
  by (rule bit_eqI) (auto simp: bit_simps)

section \<open>Reading at an offset\<close>

text \<open>\<open>has_bytes p bs\<close>: the input continues with \<open>bs\<close> at the parser's offset.\<close>

definition has_bytes :: "Parser \<Rightarrow> bytes \<Rightarrow> bool" where
  "has_bytes p bs \<longleftrightarrow> p_offset p + length bs \<le> length (p_input p) \<and>
     slice (p_input p) (p_offset p) (p_offset p + length bs) = bs"

text \<open>The parser after \<open>n\<close> bytes, \<open>a\<close> allocated bytes and \<open>i\<close> items.\<close>

definition advance :: "Parser \<Rightarrow> nat \<Rightarrow> nat \<Rightarrow> nat \<Rightarrow> Parser" where
  "advance p n a i = p\<lparr>p_offset := p_offset p + n,
     remaining_allocation := remaining_allocation p - a, remaining_items := remaining_items p - i\<rparr>"

lemma advance_simps [simp]:
  "p_input (advance p n a i) = p_input p"
  "p_offset (advance p n a i) = p_offset p + n"
  "remaining_allocation (advance p n a i) = remaining_allocation p - a"
  "remaining_items (advance p n a i) = remaining_items p - i"
  by (simp_all add: advance_def)

lemma advance_advance [simp]:
  "advance (advance p n a i) n' a' i' = advance p (n + n') (a + a') (i + i')"
  by (simp add: advance_def)

lemma advance_0 [simp]: "advance p 0 0 0 = p"
  by (simp add: advance_def)

lemma has_bytes_Nil [simp]: "has_bytes p [] \<longleftrightarrow> p_offset p \<le> length (p_input p)"
  by (simp add: has_bytes_def)

lemma has_bytes_append:
  "has_bytes p (xs @ ys) \<longleftrightarrow> has_bytes p xs \<and> has_bytes (advance p (length xs) a i) ys"
proof -
  let ?in = "p_input p" and ?o = "p_offset p" and ?m = "length xs" and ?n = "length ys"
  have "slice ?in ?o (?o + ?m + ?n) = slice ?in ?o (?o + ?m) @ slice ?in (?o + ?m) (?o + ?m + ?n)"
    by (rule slice_append_self [symmetric]) auto
  then show ?thesis
    by (auto simp: has_bytes_def add.assoc append_eq_append_conv)
qed

lemma has_bytes_Cons:
  "has_bytes p (x # ys) \<longleftrightarrow> has_bytes p [x] \<and> has_bytes (advance p 1 a i) ys"
  using has_bytes_append [of p "[x]" ys a i] by simp

lemma has_bytes_ConsI: "has_bytes p [x] \<Longrightarrow> has_bytes (advance p 1 0 0) ys \<Longrightarrow> has_bytes p (x # ys)"
  using has_bytes_Cons [of p x ys 0 0] by blast

lemma has_bytes_ConsD: "has_bytes p (x # ys) \<Longrightarrow> has_bytes p [x] \<and> has_bytes (advance p 1 0 0) ys"
  using has_bytes_Cons [of p x ys 0 0] by blast

lemma has_bytes_advance [simp]: "has_bytes (advance p 0 a i) bs = has_bytes p bs"
  by (simp add: has_bytes_def)

lemma has_bytes_items [simp]: "has_bytes (p\<lparr>remaining_items := r\<rparr>) bs = has_bytes p bs"
  by (simp add: has_bytes_def)

lemma has_bytes_budgets: "has_bytes (advance p n a i) bs = has_bytes (advance p n 0 0) bs"
  by (simp add: has_bytes_def)

lemma slice_Suc: "o' < length xs \<Longrightarrow> slice xs o' (Suc o') = [xs ! o']"
  by (simp add: slice_def take_Suc_conv_app_nth Cons_nth_drop_Suc [symmetric])

lemma read_u8_Ok_iff:
  "read_u8 p = Ok (b, p') \<longleftrightarrow> has_bytes p [b] \<and> p' = advance p 1 0 0"
  by (auto simp: read_u8_def result_simps has_bytes_def slice_Suc advance_def)

lemma read_exact_Ok_iff:
  "read_exact n p = Ok (bs, p') \<longleftrightarrow>
     has_bytes p bs \<and> length bs = n \<and> p_offset p + n < u64_end \<and> p' = advance p n 0 0"
  by (auto simp: read_exact_def result_simps width_simps has_bytes_def advance_def)

lemma consume_allocation_Ok_iff:
  "consume_allocation n p = Ok p' \<longleftrightarrow>
     n < u64_end \<and> n \<le> remaining_allocation p \<and> p' = advance p 0 n 0"
  by (auto simp: consume_allocation_def result_simps width_simps advance_def)

text \<open>The initial byte and its argument are the encoded head, and only that.\<close>

lemma read_head_sound:
  assumes "has_bytes p [b]" and "read_argument (b AND 0x1f) (advance p 1 0 0) = Ok (n, p')"
  shows "n < u64_end \<and> has_bytes p (encode_type_and_argument (drop_bit 5 b) n) \<and>
     p' = advance p (head_len n) 0 0"
proof -
  define a where "a = b AND 0x1f"
  have b: "push_bit 5 (drop_bit 5 b) OR a = b" unfolding a_def by (rule initial_split)
  let ?q = "advance p 1 0 0"
  consider (small) "a \<le> 23" | (w1) "a = 24" | (w2) "a = 25" | (w4) "a = 26" | (w8) "a = 27"
    using assms(2) unfolding a_def [symmetric] read_argument_def by (auto split: if_splits)
  then show ?thesis
  proof cases
    case small
    then have n: "n = unat a" and p': "p' = ?q" using assms(2) by (auto simp: read_argument_def a_def)
    have "n \<le> 23" using small n by (simp add: word_le_nat_alt)
    with b n p' assms(1) show ?thesis
      by (simp add: encode_type_and_argument_def Let_def head_len_def u64_end_def)
  next
    case w1
    then obtain c where c: "has_bytes ?q [c]" "n = unat c" "24 \<le> n" "p' = advance p 2 0 0"
      using assms(2) unfolding a_def [symmetric]
      by (auto simp: read_argument_def rbind_Ok_iff read_u8_Ok_iff split: if_splits prod.splits)
    have "n \<le> 255" using unat_byte_less [of c] c by linarith
    moreover have "has_bytes p (b # [c])" using assms(1) c(1) by (rule has_bytes_ConsI)
    ultimately show ?thesis
      using b c w1 by (simp add: encode_type_and_argument_def Let_def head_len_def u64_end_def)
  next
    case w2
    then obtain cs where c: "has_bytes ?q cs" "length cs = 2" "n = be_val cs" "255 < n" "p' = advance p 3 0 0"
      using assms(2) unfolding a_def [symmetric]
      by (auto simp: read_argument_def rbind_Ok_iff read_exact_Ok_iff split: if_splits prod.splits)
    have "n < 65536" and "be_bytes 2 n = cs"
      using be_val_bound [of cs] be_bytes_be_val [of cs] c by auto
    moreover have "has_bytes p (b # cs)" using assms(1) c(1) by (rule has_bytes_ConsI)
    ultimately show ?thesis
      using b c w2 by (simp add: encode_type_and_argument_def Let_def head_len_def u64_end_def)
  next
    case w4
    then obtain cs where c: "has_bytes ?q cs" "length cs = 4" "n = be_val cs" "65535 < n" "p' = advance p 5 0 0"
      using assms(2) unfolding a_def [symmetric]
      by (auto simp: read_argument_def rbind_Ok_iff read_exact_Ok_iff split: if_splits prod.splits)
    have "n < 4294967296" and "be_bytes 4 n = cs"
      using be_val_bound [of cs] be_bytes_be_val [of cs] c by auto
    moreover have "has_bytes p (b # cs)" using assms(1) c(1) by (rule has_bytes_ConsI)
    ultimately show ?thesis
      using b c w4 by (simp add: encode_type_and_argument_def Let_def head_len_def u64_end_def)
  next
    case w8
    then obtain cs where c: "has_bytes ?q cs" "length cs = 8" "n = be_val cs" "4294967295 < n" "p' = advance p 9 0 0"
      using assms(2) unfolding a_def [symmetric]
      by (auto simp: read_argument_def rbind_Ok_iff read_exact_Ok_iff split: if_splits prod.splits)
    have "n < u64_end" and "be_bytes 8 n = cs"
      using be_val_bound [of cs] be_bytes_be_val [of cs] c by (auto simp: u64_end_pow)
    moreover have "has_bytes p (b # cs)" using assms(1) c(1) by (rule has_bytes_ConsI)
    ultimately show ?thesis
      using b c w8 by (simp add: encode_type_and_argument_def Let_def head_len_def)
  qed
qed

lemma read_argument_wide:
  "read_argument 24 p = rbind (read_u8 p) (\<lambda>(b, p).
     if unat b < 24 then Err NonCanonicalCbor else Ok (unat b, p))"
  "read_argument 25 p = rbind (read_exact 2 p) (\<lambda>(bs, p).
     if be_val bs \<le> 0xff then Err NonCanonicalCbor else Ok (be_val bs, p))"
  "read_argument 26 p = rbind (read_exact 4 p) (\<lambda>(bs, p).
     if be_val bs \<le> 0xffff then Err NonCanonicalCbor else Ok (be_val bs, p))"
  "read_argument 27 p = rbind (read_exact 8 p) (\<lambda>(bs, p).
     if be_val bs \<le> 0xffffffff then Err NonCanonicalCbor else Ok (be_val bs, p))"
  by (simp_all add: read_argument_def word_le_nat_alt)

lemma read_head_complete:
  assumes "has_bytes p (encode_type_and_argument m n)" and "n < u64_end" and "m < 8"
    and "length (p_input p) < u64_end"
  shows "\<exists>b. has_bytes p [b] \<and> drop_bit 5 b = m \<and>
     read_argument (b AND 0x1f) (advance p 1 0 0) = Ok (n, advance p (head_len n) 0 0)"
proof -
  let ?q = "advance p 1 0 0"
  have len: "p_offset p + head_len n \<le> length (p_input p)"
    using assms(1) by (simp add: has_bytes_def)
  have wide: "\<exists>b. has_bytes p [b] \<and> drop_bit 5 b = m \<and> (b AND 0x1f) = a \<and> has_bytes ?q bs"
    if "encode_type_and_argument m n = (push_bit 5 m OR a) # bs" and "a \<le> 0x1f" for a bs
  proof -
    have "has_bytes p ((push_bit 5 m OR a) # bs)" using assms(1) that(1) by simp
    from has_bytes_ConsD [OF this] initial_major [OF that(2) assms(3)] initial_additional [OF that(2)]
    show ?thesis by blast
  qed
  consider "n \<le> 23" | "23 < n" "n \<le> 255" | "255 < n" "n \<le> 65535" | "65535 < n" "n \<le> 4294967295"
    | "4294967295 < n" by linarith
  then show ?thesis
  proof cases
    case 1
    then have u: "unat (word_of_nat n :: u8) = n" by (simp add: unat_byte_of_nat)
    with 1 have "(word_of_nat n :: u8) \<le> 23" by (simp add: word_le_nat_alt)
    with wide [of "word_of_nat n" "[]"] 1 u show ?thesis
      by (auto simp: encode_type_and_argument_def Let_def head_len_def read_argument_def word_le_nat_alt)
  next
    case 2
    then have u: "unat (word_of_nat n :: u8) = n" by (simp add: unat_byte_of_nat)
    from wide [of 24 "[word_of_nat n]"] 2 obtain b where
      "has_bytes p [b]" "drop_bit 5 b = m" "b AND 0x1f = 24" "has_bytes ?q [word_of_nat n]"
      by (auto simp: encode_type_and_argument_def Let_def)
    with 2 u show ?thesis
      by (intro exI [of _ b])
         (auto simp: read_argument_wide head_len_def read_u8_Ok_iff [THEN iffD2])
  next
    case 3
    from wide [of 25 "be_bytes 2 n"] 3 obtain b where
      "has_bytes p [b]" "drop_bit 5 b = m" "b AND 0x1f = 25" "has_bytes ?q (be_bytes 2 n)"
      by (auto simp: encode_type_and_argument_def Let_def)
    with 3 len assms(4) be_val_be_bytes [of n 2] show ?thesis
      by (intro exI [of _ b])
         (auto simp: read_argument_wide head_len_def rbind_Ok_iff read_exact_Ok_iff
           intro!: exI [of _ "be_bytes 2 n"])
  next
    case 4
    from wide [of 26 "be_bytes 4 n"] 4 obtain b where
      "has_bytes p [b]" "drop_bit 5 b = m" "b AND 0x1f = 26" "has_bytes ?q (be_bytes 4 n)"
      by (auto simp: encode_type_and_argument_def Let_def)
    with 4 len assms(4) be_val_be_bytes [of n 4] show ?thesis
      by (intro exI [of _ b])
         (auto simp: read_argument_wide head_len_def rbind_Ok_iff read_exact_Ok_iff
           intro!: exI [of _ "be_bytes 4 n"])
  next
    case 5
    from wide [of 27 "be_bytes 8 n"] 5 obtain b where
      "has_bytes p [b]" "drop_bit 5 b = m" "b AND 0x1f = 27" "has_bytes ?q (be_bytes 8 n)"
      by (auto simp: encode_type_and_argument_def Let_def)
    moreover have "be_val (be_bytes 8 n) = n"
      using be_val_be_bytes [of n 8] assms(2) by (simp add: u64_end_pow)
    ultimately show ?thesis
      using 5 len assms(4)
      by (intro exI [of _ b])
         (auto simp: read_argument_wide head_len_def rbind_Ok_iff read_exact_Ok_iff
           intro!: exI [of _ "be_bytes 8 n"])
  qed
qed

section \<open>The parser accepts exactly the encoder's output\<close>

definition parsed :: "Parser \<Rightarrow> CborValue \<Rightarrow> Parser \<Rightarrow> bool" where
  "parsed p v p' \<longleftrightarrow> is_ok (encode_value v) \<and> has_bytes p (enc v) \<and>
     texts_valid v \<and> key_sorted v \<and>
     cbor_alloc v \<le> remaining_allocation p \<and> cbor_items v \<le> remaining_items p \<and>
     p' = advance p (cbor_size v) (cbor_alloc v) (cbor_items v)"

lemma length_enc: "is_ok (encode_value v) \<Longrightarrow> length (enc v) = cbor_size v"
  by (auto simp: is_ok_iff encode_length)

lemma encode_enc: "is_ok (encode_value v) \<Longrightarrow> encode_value v = Ok (enc v)"
  by (auto simp: is_ok_iff)

lemma array_loop_sound:
  assumes "\<And>q w q'. child q = Ok (w, q') \<Longrightarrow> parsed q w q' \<and> Q w"
    and "array_loop child n p = Ok (vs, p')" and "p_offset p \<le> length (p_input p)"
  shows "length vs = n \<and>
     (\<forall>v \<in> set vs. is_ok (encode_value v) \<and> texts_valid v \<and> key_sorted v \<and> Q v) \<and>
     has_bytes p (concat (map enc vs)) \<and>
     sum_list (map cbor_alloc vs) \<le> remaining_allocation p \<and>
     sum_list (map cbor_items vs) \<le> remaining_items p \<and>
     p' = advance p (sum_list (map cbor_size vs)) (sum_list (map cbor_alloc vs))
       (sum_list (map cbor_items vs))"
  using assms(2,3)
proof (induction n arbitrary: p vs)
  case (Suc n)
  from Suc.prems(1) obtain w q ws where w: "child p = Ok (w, q)"
    and ws: "array_loop child n q = Ok (ws, p')" and vs: "vs = w # ws"
    by (auto simp: rbind_Ok_iff)
  from assms(1) [OF w] have pw: "parsed p w q" and "Q w" by auto
  then have q: "q = advance p (cbor_size w) (cbor_alloc w) (cbor_items w)"
    and ok: "is_ok (encode_value w)" and hb: "has_bytes p (enc w)" by (auto simp: parsed_def)
  have "p_offset q \<le> length (p_input q)"
    using hb length_enc [OF ok] by (simp add: q has_bytes_def)
  note IH = Suc.IH [OF ws this]
  have "has_bytes p (enc w @ concat (map enc ws))"
    using hb IH length_enc [OF ok]
    by (simp add: has_bytes_append [of p "enc w" _ "cbor_alloc w" "cbor_items w"] q)
  with IH pw \<open>Q w\<close> show ?case
    by (auto simp: vs q parsed_def)
qed simp

lemma map_loop_sound:
  assumes "\<And>q w q'. child q = Ok (w, q') \<Longrightarrow> parsed q w q' \<and> Q w"
    and "map_loop child n prev p = Ok (es, p')" and "p_offset p \<le> length (p_input p)"
  shows "length es = n \<and>
     (\<forall>e \<in> set es. is_ok (encode_value (fst e)) \<and> texts_valid (fst e) \<and> key_sorted (fst e) \<and> Q (fst e) \<and>
        is_ok (encode_value (snd e)) \<and> texts_valid (snd e) \<and> key_sorted (snd e) \<and> Q (snd e)) \<and>
     has_bytes p (concat (map (\<lambda>(k, v). enc k @ enc v) es)) \<and>
     sorted_wrt (<) (map (enc \<circ> fst) es) \<and>
     (\<forall>k b. prev = Some k \<longrightarrow> b \<in> set (map (enc \<circ> fst) es) \<longrightarrow> k < b) \<and>
     sum_list (map (\<lambda>(k, v). cbor_size k + cbor_alloc k + cbor_alloc v) es) \<le> remaining_allocation p \<and>
     sum_list (map (\<lambda>(k, v). cbor_items k + cbor_items v) es) \<le> remaining_items p \<and>
     p' = advance p (sum_list (map (\<lambda>(k, v). cbor_size k + cbor_size v) es))
       (sum_list (map (\<lambda>(k, v). cbor_size k + cbor_alloc k + cbor_alloc v) es))
       (sum_list (map (\<lambda>(k, v). cbor_items k + cbor_items v) es))"
  using assms(2,3)
proof (induction n arbitrary: p es prev)
  case (Suc n)
  from Suc.prems(1) obtain k q1 q2 v q3 es' kb where
    k: "child p = Ok (k, q1)" and c: "consume_allocation (p_offset q1 - p_offset p) q1 = Ok q2"
    and kb: "kb = slice (p_input q2) (p_offset p) (p_offset q2)"
    and ne: "prev \<noteq> Some kb" and lt: "\<And>pk. prev = Some pk \<Longrightarrow> \<not> kb < pk"
    and v: "child q2 = Ok (v, q3)" and rest: "map_loop child n (Some kb) q3 = Ok (es', p')"
    and es: "es = (k, v) # es'"
    by (auto simp: rbind_Ok_iff Let_def split: if_splits option.splits)
  have pk: "parsed p k q1" "Q k" and pv: "parsed q2 v q3" "Q v"
    using assms(1) k v by auto
  have okk: "is_ok (encode_value k)" and okv: "is_ok (encode_value v)"
    using pk(1) pv(1) by (auto simp: parsed_def)
  have q1: "q1 = advance p (cbor_size k) (cbor_alloc k) (cbor_items k)"
    using pk(1) by (simp add: parsed_def)
  have q2: "q2 = advance p (cbor_size k) (cbor_alloc k + cbor_size k) (cbor_items k)"
    and ck: "cbor_size k \<le> remaining_allocation p - cbor_alloc k"
    using c by (auto simp: consume_allocation_Ok_iff q1)
  have q3: "q3 = advance p (cbor_size k + cbor_size v) (cbor_alloc k + cbor_size k + cbor_alloc v)
      (cbor_items k + cbor_items v)"
    using pv(1) by (simp add: parsed_def q2)
  have hk: "has_bytes p (enc k)" and hv: "has_bytes q2 (enc v)"
    using pk(1) pv(1) by (auto simp: parsed_def)
  have kb': "kb = enc k"
    using hk length_enc [OF okk] by (simp add: kb q2 has_bytes_def)
  have "p_offset q3 \<le> length (p_input q3)"
    using hv length_enc [OF okv] by (simp add: q2 q3 has_bytes_def)
  note IH = Suc.IH [OF rest this]
  have "has_bytes p (enc k @ enc v)"
    using hk hv length_enc [OF okk]
    by (simp add: has_bytes_append [of p "enc k" _ "cbor_alloc k + cbor_size k" "cbor_items k"] q2)
  then have hb: "has_bytes p ((enc k @ enc v) @ concat (map (\<lambda>(k, v). enc k @ enc v) es'))"
    using IH length_enc [OF okk] length_enc [OF okv]
    by (subst has_bytes_append [of p "enc k @ enc v" _ "cbor_alloc k + cbor_size k + cbor_alloc v"
          "cbor_items k + cbor_items v"]) (simp add: q3)
  have above: "\<forall>b \<in> set (map (enc \<circ> fst) es'). enc k < b"
    using IH by (simp add: kb')
  have first: "pk < enc k" if "prev = Some pk" for pk
    using ne lt [OF that] that by (simp add: kb')
  have "\<forall>pk b. prev = Some pk \<longrightarrow> b \<in> set (map (enc \<circ> fst) es) \<longrightarrow> pk < b"
    using first above by (auto simp: es)
  moreover have "sorted_wrt (<) (map (enc \<circ> fst) es)"
    using IH above by (simp add: es comp_def)
  ultimately show ?case
    using IH hb pk pv ck okk okv
    by (auto simp: es q2 q3 parsed_def algebra_simps)
qed simp

lemma sort_key_strict:
  assumes "sorted_wrt (<) (map f xs)"
  shows "sort_key f xs = xs"
proof -
  have "sorted (map f xs)"
    using assms by (rule sorted_wrt_mono_rel [rotated]) auto
  then show ?thesis by (rule sort_key_id_if_sorted)
qed

lemma no_adjacent_equal:
  "sorted_wrt (<) (map fst ps) \<Longrightarrow> \<not> has_adjacent_equal_keys ps"
  by (induction ps rule: has_adjacent_equal_keys.induct) auto

lemma encode_sorted_map:
  assumes "sorted_wrt (<) (map (enc \<circ> fst) es)" and "length es < u64_end"
    and "\<forall>e \<in> set es. is_ok (encode_value (fst e)) \<and> is_ok (encode_value (snd e))"
  shows "encode_value (CMap es) =
     Ok (encode_type_and_argument 5 (length es) @ concat (map (\<lambda>(k, v). enc k @ enc v) es))"
proof -
  let ?ps = "map (\<lambda>(k, v). (enc k, enc v)) es"
  have s: "sorted_wrt (<) (map fst ?ps)"
    using assms(1) by (simp add: comp_def split_beta)
  then have "sort_key fst ?ps = ?ps" by (rule sort_key_strict)
  moreover have "map (\<lambda>(k, v). k @ v) ?ps = map (\<lambda>(k, v). enc k @ enc v) es" by auto
  ultimately show ?thesis
    using assms(2,3) no_adjacent_equal [OF s] by (simp only: encode_CMap_iff simp_thms)
qed

text \<open>
  Soundness: whatever the parser returns, the bytes it consumed are the encoding of that
  value, the value is canonical, and the budgets were charged what the value measures.
\<close>

lemma foldr_max_le:
  "foldr (\<lambda>x m. max (f x) m) xs 0 \<le> (c :: nat) \<longleftrightarrow> (\<forall>x \<in> set xs. f x \<le> c)"
  by (induction xs) auto

lemma nesting_Array_le: "nesting (Array vs) \<le> c \<longleftrightarrow> (\<forall>v \<in> set vs. Suc (nesting v) \<le> c)"
  by (simp add: foldr_max_le)

lemma nesting_CMap_le:
  "nesting (CMap es) \<le> c \<longleftrightarrow> (\<forall>e \<in> set es. Suc (nesting (fst e)) \<le> c \<and> Suc (nesting (snd e)) \<le> c)"
  by (induction es) (auto simp: split_beta)

lemma read_len_Ok_iff:
  "read_len a m p = Ok (n, p') \<longleftrightarrow> read_argument a p = Ok (n, p') \<and> n \<le> m \<and> n < u64_end"
  by (cases "read_argument a p") (auto simp: read_len_def width_simps split: if_splits)

text \<open>One level of the parser: what follows the initial byte \<open>b\<close>.\<close>

definition parse_major :: "u64 \<Rightarrow> u8 \<times> Parser \<Rightarrow> (CborValue \<times> Parser) result" where
  "parse_major d = (\<lambda>(b, q).
     let major = drop_bit 5 b; additional = b AND 0x1f;
         child = (\<lambda>q. rbind (depth_next d) (\<lambda>d. parse_value d q)) in
     if major = 0 then rbind (read_argument additional q) (\<lambda>(n, q). Ok (Integer (int n), q))
     else if major = 1 then rbind (read_argument additional q) (\<lambda>(n, q). Ok (Integer (-1 - int n), q))
     else if major = 2 then parse_bytes additional q
     else if major = 3 then parse_text additional q
     else if major = 4 then parse_array child additional q
     else if major = 5 then parse_map child additional q
     else if major = 6 then Err NonCanonicalCbor
     else rbind (parse_simple additional) (\<lambda>v. Ok (v, q)))"

lemma parse_value_step:
  "parse_value d p = Ok (v, p') \<longleftrightarrow>
     d \<le> MAX_NESTING_DEPTH \<and> 1 \<le> remaining_items p \<and>
     (\<exists>b. has_bytes p [b] \<and> parse_major d (b, advance p 1 0 1) = Ok (v, p'))"
proof -
  have r: "read_u8 (p\<lparr>remaining_items := remaining_items p - 1\<rparr>) = Ok bq \<longleftrightarrow>
      (\<exists>b. has_bytes p [b] \<and> bq = (b, advance p 1 0 1))" for bq
    by (cases bq) (auto simp: read_u8_Ok_iff advance_def)
  have "parse_value d p =
     (if d > MAX_NESTING_DEPTH then Err ResourceLimitExceeded
      else rbind (ok_or (checked_sub (remaining_items p) 1) ResourceLimitExceeded) (\<lambda>r.
           rbind (read_u8 (p\<lparr>remaining_items := r\<rparr>)) (parse_major d)))"
    unfolding parse_value.simps [of d p] parse_major_def Let_def by simp
  then show ?thesis
    by (auto simp: if_Err_Ok_iff rbind_Ok_iff ok_or_Ok_iff checked_sub_Some_iff r not_less
        simp del: One_nat_def)
qed

lemma int_argument_of_nat [simp]: "int_argument (int n) = n"
  by (simp add: int_argument_def)

lemma int_argument_neg [simp]: "int_argument (-1 - int n) = n"
  by (simp add: int_argument_def)

text \<open>The argument of the head is read after the item was charged.\<close>

lemma read_head_sound':
  assumes "has_bytes p [b]" and "read_argument (b AND 0x1f) (advance p 1 0 1) = Ok (n, p')"
  shows "n < u64_end \<and> has_bytes p (encode_type_and_argument (drop_bit 5 b) n) \<and>
     p' = advance p (head_len n) 0 1"
proof -
  let ?p = "advance p 0 0 1"
  have "has_bytes ?p [b]" using assms(1) by simp
  from read_head_sound [OF this, of n p'] assms(2) show ?thesis by simp
qed

lemma parse_payload_sound:
  assumes "has_bytes p [b]" and "1 \<le> remaining_items p"
  shows "drop_bit 5 b = 2 \<Longrightarrow> parse_bytes (b AND 0x1f) (advance p 1 0 1) = Ok (v, p') \<Longrightarrow>
      parsed p v p' \<and> nesting v = 0"
    and "drop_bit 5 b = 3 \<Longrightarrow> parse_text (b AND 0x1f) (advance p 1 0 1) = Ok (v, p') \<Longrightarrow>
      parsed p v p' \<and> nesting v = 0"
proof -
  let ?q = "advance p 1 0 1"
  have payload: "\<exists>bs. has_bytes p (encode_type_and_argument (drop_bit 5 b) (length bs) @ bs) \<and>
      length bs < u64_end \<and> length bs \<le> remaining_allocation p \<and>
      r = (bs, advance p (head_len (length bs) + length bs) (length bs) 1)"
    if read: "rbind (read_len (b AND 0x1f) (remaining_allocation ?q) ?q) (\<lambda>(len, p).
        rbind (consume_allocation len p) (\<lambda>p. read_exact len p)) = Ok r" for r
  proof -
    obtain n q1 q2 where n: "read_argument (b AND 0x1f) ?q = Ok (n, q1)" "n < u64_end"
      and c: "consume_allocation n q1 = Ok q2" and e: "read_exact n q2 = Ok r"
      using read by (auto simp: rbind_Ok_iff read_len_Ok_iff)
    obtain bs q3 where r: "r = (bs, q3)" by (cases r)
    have h: "has_bytes p (encode_type_and_argument (drop_bit 5 b) n)" "q1 = advance p (head_len n) 0 1"
      using read_head_sound' [OF assms(1) n(1)] by auto
    have q2: "q2 = advance p (head_len n) n 1" "n \<le> remaining_allocation p"
      using c h(2) by (auto simp: consume_allocation_Ok_iff)
    have "has_bytes q2 bs" "length bs = n" "q3 = advance p (head_len n + n) n 1"
      using e by (auto simp: r read_exact_Ok_iff q2)
    with h(1) q2 n(2) show ?thesis
      by (intro exI [of _ bs]) (simp add: r has_bytes_append [of p _ _ n 1])
  qed
  show "drop_bit 5 b = 2 \<Longrightarrow> parse_bytes (b AND 0x1f) ?q = Ok (v, p') \<Longrightarrow> parsed p v p' \<and> nesting v = 0"
  proof -
    assume m: "drop_bit 5 b = 2" and "parse_bytes (b AND 0x1f) ?q = Ok (v, p')"
    then obtain bs where r: "rbind (read_len (b AND 0x1f) (remaining_allocation ?q) ?q) (\<lambda>(len, p).
        rbind (consume_allocation len p) (\<lambda>p. read_exact len p)) = Ok (bs, p')" and v: "v = Bytes bs"
      by (auto simp: parse_bytes_def rbind_Ok_iff split_beta)
    from payload [OF r] show ?thesis
      using m assms(2) by (auto simp: parsed_def v enc_def)
  qed
  show "drop_bit 5 b = 3 \<Longrightarrow> parse_text (b AND 0x1f) ?q = Ok (v, p') \<Longrightarrow> parsed p v p' \<and> nesting v = 0"
  proof -
    assume m: "drop_bit 5 b = 3" and "parse_text (b AND 0x1f) ?q = Ok (v, p')"
    then obtain bs where r: "rbind (read_len (b AND 0x1f) (remaining_allocation ?q) ?q) (\<lambda>(len, p).
        rbind (consume_allocation len p) (\<lambda>p. read_exact len p)) = Ok (bs, p')"
      and v: "v = Text (string_of_bytes bs)" and u: "valid_utf8 bs"
      by (auto simp: parse_text_def rbind_Ok_iff split_beta ok_or_Ok_iff from_utf8_Some_iff)
    from payload [OF r] show ?thesis
      using m assms(2) u by (auto simp: parsed_def v enc_def)
  qed
qed

lemma major_lt: "drop_bit 5 (b :: u8) < 8"
proof -
  have "unat b < 8 * 2 ^ 5" by simp
  then have "unat b div 2 ^ 5 < 8" by (rule less_mult_imp_div_less)
  then have "unat (drop_bit 5 b) < 8"
    by (simp only: unat_drop_bit_eq, simp only: drop_bit_eq_div)
  then show ?thesis by (simp only: word_less_nat_alt) simp
qed

lemma major_cases:
  assumes "m < (8 :: u8)"
  shows "m = 0 \<or> m = 1 \<or> m = 2 \<or> m = 3 \<or> m = 4 \<or> m = 5 \<or> m = 6 \<or> m = 7"
proof -
  have "unat m < 8" using assms by (simp add: word_less_nat_alt)
  then have "unat m = 0 \<or> unat m = 1 \<or> unat m = 2 \<or> unat m = 3 \<or> unat m = 4 \<or> unat m = 5
      \<or> unat m = 6 \<or> unat m = 7" by linarith
  then show ?thesis by (simp add: word_unat_eq_iff)
qed

text \<open>The outcome of one level, by major type.\<close>

lemma parse_major_cases:
  assumes "parse_major d (b, q) = Ok (v, p')"
  obtains (uint) n where "drop_bit 5 b = 0" "read_argument (b AND 0x1f) q = Ok (n, p')" "v = Integer (int n)"
    | (nint) n where "drop_bit 5 b = 1" "read_argument (b AND 0x1f) q = Ok (n, p')" "v = Integer (-1 - int n)"
    | (bstr) "drop_bit 5 b = 2" "parse_bytes (b AND 0x1f) q = Ok (v, p')"
    | (tstr) "drop_bit 5 b = 3" "parse_text (b AND 0x1f) q = Ok (v, p')"
    | (arr) "drop_bit 5 b = 4"
        "parse_array (\<lambda>q. rbind (depth_next d) (\<lambda>d. parse_value d q)) (b AND 0x1f) q = Ok (v, p')"
    | (map) "drop_bit 5 b = 5"
        "parse_map (\<lambda>q. rbind (depth_next d) (\<lambda>d. parse_value d q)) (b AND 0x1f) q = Ok (v, p')"
    | (simple) "drop_bit 5 b = 7" "parse_simple (b AND 0x1f) = Ok v" "p' = q"
proof -
  define mj where "mj = drop_bit 5 b"
  define ad where "ad = b AND 0x1f"
  note body = assms [unfolded parse_major_def Let_def split mj_def [symmetric] ad_def [symmetric]]
  have "mj < 8" unfolding mj_def by (rule major_lt)
  from major_cases [OF this] consider "mj = 0" | "mj = 1" | "mj = 2" | "mj = 3" | "mj = 4"
    | "mj = 5" | "mj = 6" | "mj = 7" by blast
  then show thesis
  proof cases
    case 1
    with body show thesis using that(1) by (auto simp: rbind_Ok_iff mj_def ad_def)
  next
    case 2
    with body show thesis using that(2) by (auto simp: rbind_Ok_iff mj_def ad_def)
  next
    case 3
    with body show thesis using that(3) by (simp add: mj_def ad_def)
  next
    case 4
    with body show thesis using that(4) by (simp add: mj_def ad_def)
  next
    case 5
    with body show thesis using that(5) by (simp add: mj_def ad_def)
  next
    case 6
    with body show thesis using that(6) by (simp add: mj_def ad_def)
  next
    case 7
    with body show thesis by simp
  next
    case 8
    with body show thesis using that(7) by (auto simp: rbind_Ok_iff mj_def ad_def)
  qed
qed

lemma parse_value_sound:
  "parse_value d p = Ok (v, p') \<Longrightarrow> parsed p v p' \<and> d + nesting v \<le> MAX_NESTING_DEPTH"
proof (induction "Suc MAX_NESTING_DEPTH - d" arbitrary: d p v p' rule: less_induct)
  case less
  define child where "child = (\<lambda>q. rbind (depth_next d) (\<lambda>d. parse_value d q))"
  define q where "q = advance p 1 0 1"
  from less.prems obtain b where d: "d \<le> MAX_NESTING_DEPTH" and items: "1 \<le> remaining_items p"
    and hb: "has_bytes p [b]" and body: "parse_major d (b, q) = Ok (v, p')"
    by (auto simp: parse_value_step [of d p] q_def)
  have sub: "parsed r w r' \<and> Suc d + nesting w \<le> MAX_NESTING_DEPTH" if "child r = Ok (w, r')" for r w r'
  proof -
    have "parse_value (Suc d) r = Ok (w, r')"
      using that by (auto simp: child_def depth_next_def rbind_Ok_iff ok_or_Ok_iff width_simps)
    then show ?thesis using less.hyps [of "Suc d"] d by auto
  qed
  note head = read_head_sound' [OF hb, folded q_def]
  from body show ?case
  proof (cases rule: parse_major_cases)
    case uint
    from head [OF uint(2)] show ?thesis
      using d items uint by (auto simp: parsed_def enc_def u64_try_from_def)
  next
    case nint
    from head [OF nint(2)] show ?thesis
      using d items nint by (auto simp: parsed_def enc_def negative_argument_def u64_try_from_def)
  next
    case bstr
    with parse_payload_sound(1) [OF hb items, folded q_def] d show ?thesis by auto
  next
    case tstr
    with parse_payload_sound(2) [OF hb items, folded q_def] d show ?thesis by auto
  next
    case arr
    then obtain n q1 vs where n: "read_argument (b AND 0x1f) q = Ok (n, q1)"
      and l: "array_loop child n q1 = Ok (vs, p')" and v: "v = Array vs"
      by (auto simp: parse_array_def child_def rbind_Ok_iff read_len_Ok_iff)
    have h: "n < u64_end" "has_bytes p (encode_type_and_argument 4 n)" "q1 = advance p (head_len n) 0 1"
      using head [OF n] arr(1) by auto
    have "p_offset q1 \<le> length (p_input q1)" using h(2) by (simp add: h(3) has_bytes_def)
    note loop = array_loop_sound [where Q = "\<lambda>w. Suc d + nesting w \<le> MAX_NESTING_DEPTH", OF sub l this]
    then have e: "encode_value v = Ok (encode_type_and_argument 4 n @ concat (map enc vs))"
      using h(1) by (auto simp: v encode_Array_iff simp del: encode_value.simps)
    have "has_bytes p (encode_type_and_argument 4 n @ concat (map enc vs))"
      using h loop by (simp add: has_bytes_append [of p _ _ 0 1])
    moreover have "nesting v \<le> MAX_NESTING_DEPTH - d"
      unfolding v nesting_Array_le using loop by auto
    ultimately show ?thesis
      using loop d h(3) items e [unfolded v] enc_Ok [OF e [unfolded v]]
      by (auto simp: parsed_def v simp del: nesting.simps encode_value.simps)
  next
    case map
    then obtain n q1 es where n: "read_argument (b AND 0x1f) q = Ok (n, q1)"
      and l: "map_loop child n None q1 = Ok (es, p')" and v: "v = CMap es"
      by (auto simp: parse_map_def child_def rbind_Ok_iff read_len_Ok_iff)
    have h: "n < u64_end" "has_bytes p (encode_type_and_argument 5 n)" "q1 = advance p (head_len n) 0 1"
      using head [OF n] map(1) by auto
    have "p_offset q1 \<le> length (p_input q1)" using h(2) by (simp add: h(3) has_bytes_def)
    note loop = map_loop_sound [where Q = "\<lambda>w. Suc d + nesting w \<le> MAX_NESTING_DEPTH", OF sub l this]
    then have e: "encode_value v =
        Ok (encode_type_and_argument 5 n @ concat (List.map (\<lambda>(k, v). enc k @ enc v) es))"
      using h(1) encode_sorted_map [of es] by (auto simp: v simp del: encode_value.simps)
    have "has_bytes p (encode_type_and_argument 5 n @ concat (List.map (\<lambda>(k, v). enc k @ enc v) es))"
      using h loop by (simp add: has_bytes_append [of p _ _ 0 1])
    moreover have "nesting v \<le> MAX_NESTING_DEPTH - d"
      unfolding v nesting_CMap_le using loop by fastforce
    ultimately show ?thesis
      using loop d h(3) items e [unfolded v] enc_Ok [OF e [unfolded v]]
      by (auto simp: parsed_def v simp del: nesting.simps encode_value.simps)
  next
    case simple
    then have "b = push_bit 5 7 OR (b AND 0x1f)" using initial_split [of b] by metis
    with simple hb d items show ?thesis
      by (auto simp: parse_simple_def parsed_def enc_def q_def split: if_splits)
  qed
qed

text \<open>
  Completeness: on the encoding of a canonical value the parser returns that value, if the
  nesting and the budgets allow it.
\<close>

definition reads :: "(Parser \<Rightarrow> (CborValue \<times> Parser) result) \<Rightarrow> CborValue \<Rightarrow> bool" where
  "reads child w \<longleftrightarrow> (\<forall>q. has_bytes q (enc w) \<longrightarrow> length (p_input q) < u64_end \<longrightarrow>
     cbor_alloc w \<le> remaining_allocation q \<longrightarrow> cbor_items w \<le> remaining_items q \<longrightarrow>
     child q = Ok (w, advance q (cbor_size w) (cbor_alloc w) (cbor_items w)))"

lemma array_loop_complete:
  assumes "\<forall>w \<in> set vs. reads child w \<and> is_ok (encode_value w)"
    and "has_bytes p (concat (map enc vs))" and "length (p_input p) < u64_end"
    and "sum_list (map cbor_alloc vs) \<le> remaining_allocation p"
    and "sum_list (map cbor_items vs) \<le> remaining_items p"
  shows "array_loop child (length vs) p =
     Ok (vs, advance p (sum_list (map cbor_size vs)) (sum_list (map cbor_alloc vs))
       (sum_list (map cbor_items vs)))"
  using assms
proof (induction vs arbitrary: p)
  case (Cons w ws)
  let ?q = "advance p (cbor_size w) (cbor_alloc w) (cbor_items w)"
  have len: "length (enc w) = cbor_size w" using Cons.prems(1) by (auto intro: length_enc)
  have hb: "has_bytes p (enc w)" "has_bytes ?q (concat (map enc ws))"
    using Cons.prems(2) len
    by (auto simp: has_bytes_append [of p "enc w" _ "cbor_alloc w" "cbor_items w"])
  have w: "child p = Ok (w, ?q)"
    using Cons.prems hb by (auto simp: reads_def)
  have "array_loop child (length ws) ?q = Ok (ws, advance ?q (sum_list (map cbor_size ws))
      (sum_list (map cbor_alloc ws)) (sum_list (map cbor_items ws)))"
    using Cons.prems hb by (intro Cons.IH) auto
  with w show ?case by simp
qed simp

lemma map_loop_complete:
  assumes "\<forall>e \<in> set es. reads child (fst e) \<and> is_ok (encode_value (fst e)) \<and>
       reads child (snd e) \<and> is_ok (encode_value (snd e))"
    and "has_bytes p (concat (map (\<lambda>(k, v). enc k @ enc v) es))" and "length (p_input p) < u64_end"
    and "sorted_wrt (<) (map (enc \<circ> fst) es)"
    and "\<And>pk e. prev = Some pk \<Longrightarrow> e \<in> set es \<Longrightarrow> pk < enc (fst e)"
    and "sum_list (map (\<lambda>(k, v). cbor_size k + cbor_alloc k + cbor_alloc v) es) \<le> remaining_allocation p"
    and "sum_list (map (\<lambda>(k, v). cbor_items k + cbor_items v) es) \<le> remaining_items p"
  shows "map_loop child (length es) prev p =
     Ok (es, advance p (sum_list (map (\<lambda>(k, v). cbor_size k + cbor_size v) es))
       (sum_list (map (\<lambda>(k, v). cbor_size k + cbor_alloc k + cbor_alloc v) es))
       (sum_list (map (\<lambda>(k, v). cbor_items k + cbor_items v) es)))"
  using assms
proof (induction es arbitrary: p prev)
  case (Cons e es)
  obtain k v where e: "e = (k, v)" by (cases e)
  have okk: "is_ok (encode_value k)" and okv: "is_ok (encode_value v)"
    using Cons.prems(1) by (auto simp: e)
  let ?q1 = "advance p (cbor_size k) (cbor_alloc k) (cbor_items k)"
  let ?q2 = "advance p (cbor_size k) (cbor_size k + cbor_alloc k) (cbor_items k)"
  let ?q3 = "advance p (cbor_size k + cbor_size v) (cbor_size k + cbor_alloc k + cbor_alloc v)
      (cbor_items k + cbor_items v)"
  have hk: "has_bytes p (enc k)" and hv: "has_bytes ?q2 (enc v)"
    and hr: "has_bytes ?q3 (concat (map (\<lambda>(k, v). enc k @ enc v) es))"
    using Cons.prems(2) length_enc [OF okk] length_enc [OF okv]
    by (auto simp: e has_bytes_append [of p "enc k" _ "cbor_size k + cbor_alloc k" "cbor_items k"]
        has_bytes_append [of ?q2 "enc v" _ "cbor_alloc v" "cbor_items v"])
  have alloc: "cbor_size k + cbor_alloc k + cbor_alloc v +
      sum_list (map (\<lambda>(k, v). cbor_size k + cbor_alloc k + cbor_alloc v) es) \<le> remaining_allocation p"
    and items: "cbor_items k + cbor_items v + sum_list (map (\<lambda>(k, v). cbor_items k + cbor_items v) es)
      \<le> remaining_items p"
    using Cons.prems(6,7) by (simp_all add: e)
  have size: "cbor_size k < u64_end"
    using hk Cons.prems(3) length_enc [OF okk] by (auto simp: has_bytes_def)
  have k: "child p = Ok (k, ?q1)"
    using Cons.prems(1,3) hk alloc items by (auto simp: e reads_def)
  have c: "consume_allocation (cbor_size k) ?q1 = Ok ?q2"
    using alloc size by (auto simp: consume_allocation_Ok_iff add.commute)
  have v: "child ?q2 = Ok (v, ?q3)"
    using Cons.prems(1,3) hv alloc items by (auto simp: e reads_def)
  have kb: "slice (p_input p) (p_offset p) (p_offset p + cbor_size k) = enc k"
    using hk length_enc [OF okk] by (simp add: has_bytes_def)
  have prev: "prev \<noteq> Some (enc k)" "\<And>pk. prev = Some pk \<Longrightarrow> \<not> enc k < pk"
    using Cons.prems(5) [of _ e] by (fastforce simp: e)+
  have "map_loop child (length es) (Some (enc k)) ?q3 =
     Ok (es, advance ?q3 (sum_list (map (\<lambda>(k, v). cbor_size k + cbor_size v) es))
       (sum_list (map (\<lambda>(k, v). cbor_size k + cbor_alloc k + cbor_alloc v) es))
       (sum_list (map (\<lambda>(k, v). cbor_items k + cbor_items v) es)))"
    using Cons.prems(1,3,4) hr alloc items by (intro Cons.IH) (auto simp: e)
  with k c v prev show ?case
    by (auto simp: e kb Let_def algebra_simps split: option.splits)
qed simp

lemma cbor_items_pos: "1 \<le> cbor_items v"
  by (cases v) auto

lemma length_le_items: "length vs \<le> sum_list (map cbor_items vs)"
proof (induction vs)
  case (Cons v vs)
  with cbor_items_pos [of v] show ?case by simp
qed simp

lemma length_le_pair_items: "2 * length es \<le> sum_list (map (\<lambda>(k, v). cbor_items k + cbor_items v) es)"
proof (induction es)
  case (Cons e es)
  with cbor_items_pos [of "fst e"] cbor_items_pos [of "snd e"] show ?case by (simp add: split_beta)
qed simp

text \<open>The head of the encoding selects the branch of the parser.\<close>

lemma parse_head:
  assumes "has_bytes p (encode_type_and_argument m n @ rest)" and "n < u64_end" and "m < 8"
    and "length (p_input p) < u64_end" and "d \<le> MAX_NESTING_DEPTH" and "1 \<le> remaining_items p"
    and "\<And>b. drop_bit 5 b = m \<Longrightarrow>
       read_argument (b AND 0x1f) (advance p 1 0 1) = Ok (n, advance p (head_len n) 0 1) \<Longrightarrow>
       has_bytes (advance p (head_len n) 0 1) rest \<Longrightarrow>
       parse_major d (b, advance p 1 0 1) = Ok (v, p')"
  shows "parse_value d p = Ok (v, p')"
proof -
  have hb: "has_bytes p (encode_type_and_argument m n)" "has_bytes (advance p (head_len n) 0 1) rest"
    using assms(1) by (auto simp: has_bytes_append [of p _ rest 0 1])
  let ?p = "advance p 0 0 1"
  have "has_bytes ?p (encode_type_and_argument m n)" using hb(1) by simp
  from read_head_complete [OF this assms(2,3)] assms(4)
  obtain b where "has_bytes p [b]" "drop_bit 5 b = m"
    "read_argument (b AND 0x1f) (advance p 1 0 1) = Ok (n, advance p (head_len n) 0 1)" by auto
  with assms(5-7) hb(2) show ?thesis
    unfolding parse_value_step by blast
qed

lemma parse_value_complete:
  assumes "is_ok (encode_value v)" and "texts_valid v" and "key_sorted v"
    and "d + nesting v \<le> MAX_NESTING_DEPTH"
  shows "reads (parse_value d) v"
  using assms
proof (induction v arbitrary: d rule: CborValue_induct)
  case (Integer x)
  show ?case unfolding reads_def
  proof (intro allI impI)
    fix q assume q: "has_bytes q (enc (Integer x))" "length (p_input q) < u64_end"
      "cbor_items (Integer x) \<le> remaining_items q"
    define m :: u8 where "m = (if x \<ge> 0 then 0 else 1)"
    have e: "enc (Integer x) = encode_type_and_argument m (int_argument x)"
      and n: "int_argument x < u64_end"
      using encode_enc [OF Integer.prems(1)] unfolding encode_Integer_iff by (auto simp: m_def)
    have "x = (if m = 0 then int (int_argument x) else - 1 - int (int_argument x))" "m = 0 \<or> m = 1"
      by (auto simp: m_def int_argument_def)
    then have "parse_value d q = Ok (Integer x, advance q (head_len (int_argument x)) 0 1)"
      using q n Integer.prems(4) unfolding e
      by (intro parse_head [of q m "int_argument x" "[]"])
         (auto simp: parse_major_def word_less_nat_alt)
    then show "parse_value d q = Ok (Integer x, advance q (cbor_size (Integer x))
        (cbor_alloc (Integer x)) (cbor_items (Integer x)))" by simp
  qed
next
  case (Bytes bs)
  show ?case unfolding reads_def
  proof (intro allI impI)
    fix q assume q: "has_bytes q (enc (Bytes bs))" "length (p_input q) < u64_end"
      "cbor_items (Bytes bs) \<le> remaining_items q" "cbor_alloc (Bytes bs) \<le> remaining_allocation q"
    have n: "length bs < u64_end" and e: "enc (Bytes bs) = encode_type_and_argument 2 (length bs) @ bs"
      using encode_enc [OF Bytes.prems(1)] unfolding encode_Bytes_iff by auto
    have o: "p_offset q + head_len (length bs) + length bs \<le> length (p_input q)"
      using q(1) by (simp add: e has_bytes_def)
    show "parse_value d q = Ok (Bytes bs, advance q (cbor_size (Bytes bs))
        (cbor_alloc (Bytes bs)) (cbor_items (Bytes bs)))"
      using q n o Bytes.prems(4) unfolding e
      by (intro parse_head [of q 2 "length bs" bs])
         (auto simp: parse_major_def parse_bytes_def read_len_def consume_allocation_def
           read_exact_def checked_sub_def checked_add_def get_slice_def has_bytes_def advance_def)
  qed
next
  case (Text s)
  show ?case unfolding reads_def
  proof (intro allI impI)
    fix q assume q: "has_bytes q (enc (Text s))" "length (p_input q) < u64_end"
      "cbor_items (Text s) \<le> remaining_items q" "cbor_alloc (Text s) \<le> remaining_allocation q"
    have n: "length s < u64_end" and e: "enc (Text s) = encode_type_and_argument 3 (length s) @ as_bytes s"
      using encode_enc [OF Text.prems(1)] unfolding encode_Text_iff by auto
    have o: "p_offset q + head_len (length s) + length s \<le> length (p_input q)"
      using q(1) by (simp add: e has_bytes_def)
    show "parse_value d q = Ok (Text s, advance q (cbor_size (Text s))
        (cbor_alloc (Text s)) (cbor_items (Text s)))"
      using q n o Text.prems(2,4) unfolding e
      by (intro parse_head [of q 3 "length s" "as_bytes s"])
         (auto simp: parse_major_def parse_text_def read_len_def consume_allocation_def from_utf8_def
           read_exact_def checked_sub_def checked_add_def get_slice_def has_bytes_def advance_def)
  qed
next
  case (Array vs)
  have ok: "length vs < u64_end" "\<forall>v \<in> set vs. is_ok (encode_value v)"
    and e: "enc (Array vs) = encode_type_and_argument 4 (length vs) @ concat (map enc vs)"
    using encode_enc [OF Array.prems(1)] unfolding encode_Array_iff by auto
  have nest: "\<forall>v \<in> set vs. Suc d + nesting v \<le> MAX_NESTING_DEPTH"
    using Array.prems(4) nesting_Array_le [of vs "MAX_NESTING_DEPTH - d"] by fastforce
  have "reads (\<lambda>q. rbind (depth_next d) (\<lambda>d. parse_value d q)) w" if "w \<in> set vs" for w
  proof -
    have "reads (parse_value (Suc d)) w"
      using that ok nest Array.prems(2,3) by (intro Array.IH) auto
    then show ?thesis
      using Array.prems(4)
      by (simp add: reads_def depth_next_def checked_add_def MAX_NESTING_DEPTH_def u64_end_def)
  qed
  note child = this
  show ?case unfolding reads_def
  proof (intro allI impI)
    fix q assume q: "has_bytes q (enc (Array vs))" "length (p_input q) < u64_end"
      "cbor_items (Array vs) \<le> remaining_items q" "cbor_alloc (Array vs) \<le> remaining_allocation q"
    let ?q = "advance q (head_len (length vs)) 0 1"
    show "parse_value d q = Ok (Array vs, advance q (cbor_size (Array vs))
        (cbor_alloc (Array vs)) (cbor_items (Array vs)))"
    proof (rule parse_head [of q 4 "length vs" "concat (map enc vs)"])
      fix b assume m: "drop_bit 5 b = (4 :: u8)"
        and r: "read_argument (b AND 0x1f) (advance q 1 0 1) = Ok (length vs, ?q)"
        and hb: "has_bytes ?q (concat (map enc vs))"
      have "array_loop (\<lambda>q. rbind (depth_next d) (\<lambda>d. parse_value d q)) (length vs) ?q =
          Ok (vs, advance ?q (sum_list (map cbor_size vs)) (sum_list (map cbor_alloc vs))
            (sum_list (map cbor_items vs)))"
        using child ok hb q by (intro array_loop_complete) auto
      then show "parse_major d (b, advance q 1 0 1) = Ok (Array vs, advance q (cbor_size (Array vs))
        (cbor_alloc (Array vs)) (cbor_items (Array vs)))"
        using m r ok(1) q(3) length_le_items [of vs]
        by (simp add: parse_major_def parse_array_def read_len_def)
    qed (use q ok Array.prems(4) in \<open>auto simp: e simp del: nesting.simps\<close>)
  qed
next
  case (CMap es)
  have srt: "sorted_wrt (<) (map (enc \<circ> fst) es)" using CMap.prems(3) by simp
  have ok: "length es < u64_end"
      "\<forall>e \<in> set es. is_ok (encode_value (fst e)) \<and> is_ok (encode_value (snd e))"
    using encode_enc [OF CMap.prems(1)] unfolding encode_CMap_iff by auto
  have e: "enc (CMap es) = encode_type_and_argument 5 (length es) @ concat (map (\<lambda>(k, v). enc k @ enc v) es)"
    using encode_sorted_map [OF srt ok] by (rule enc_Ok)
  have nest: "\<forall>e \<in> set es. Suc d + nesting (fst e) \<le> MAX_NESTING_DEPTH \<and>
      Suc d + nesting (snd e) \<le> MAX_NESTING_DEPTH"
    using CMap.prems(4) nesting_CMap_le [of es "MAX_NESTING_DEPTH - d"] by fastforce
  have lift: "reads (\<lambda>q. rbind (depth_next d) (\<lambda>d. parse_value d q)) w"
    if "reads (parse_value (Suc d)) w" for w
    using that CMap.prems(4)
    by (simp add: reads_def depth_next_def checked_add_def MAX_NESTING_DEPTH_def u64_end_def)
  have child: "\<forall>e \<in> set es. reads (\<lambda>q. rbind (depth_next d) (\<lambda>d. parse_value d q)) (fst e) \<and>
      reads (\<lambda>q. rbind (depth_next d) (\<lambda>d. parse_value d q)) (snd e)"
  proof
    fix e assume "e \<in> set es"
    with ok(2) nest CMap.prems(2,3) CMap.IH [of "fst e" "snd e" "Suc d"]
    show "reads (\<lambda>q. rbind (depth_next d) (\<lambda>d. parse_value d q)) (fst e) \<and>
      reads (\<lambda>q. rbind (depth_next d) (\<lambda>d. parse_value d q)) (snd e)"
      by (auto intro!: lift)
  qed
  show ?case unfolding reads_def
  proof (intro allI impI)
    fix q assume q: "has_bytes q (enc (CMap es))" "length (p_input q) < u64_end"
      "cbor_items (CMap es) \<le> remaining_items q" "cbor_alloc (CMap es) \<le> remaining_allocation q"
    let ?q = "advance q (head_len (length es)) 0 1"
    show "parse_value d q = Ok (CMap es, advance q (cbor_size (CMap es))
        (cbor_alloc (CMap es)) (cbor_items (CMap es)))"
    proof (rule parse_head [of q 5 "length es" "concat (map (\<lambda>(k, v). enc k @ enc v) es)"])
      fix b assume m: "drop_bit 5 b = (5 :: u8)"
        and r: "read_argument (b AND 0x1f) (advance q 1 0 1) = Ok (length es, ?q)"
        and hb: "has_bytes ?q (concat (map (\<lambda>(k, v). enc k @ enc v) es))"
      have "map_loop (\<lambda>q. rbind (depth_next d) (\<lambda>d. parse_value d q)) (length es) None ?q =
          Ok (es, advance ?q (sum_list (map (\<lambda>(k, v). cbor_size k + cbor_size v) es))
            (sum_list (map (\<lambda>(k, v). cbor_size k + cbor_alloc k + cbor_alloc v) es))
            (sum_list (map (\<lambda>(k, v). cbor_items k + cbor_items v) es)))"
        using child ok hb q srt by (intro map_loop_complete) auto
      then show "parse_major d (b, advance q 1 0 1) = Ok (CMap es, advance q (cbor_size (CMap es))
        (cbor_alloc (CMap es)) (cbor_items (CMap es)))"
        using m r ok(1) q(3) length_le_pair_items [of es]
        by (simp add: parse_major_def parse_map_def read_len_def Let_def)
    qed (use q ok CMap.prems(4) in \<open>auto simp: e simp del: nesting.simps\<close>)
  qed
next
  case (CBool b)
  show ?case using CBool
    by (auto simp: reads_def enc_def parse_value_step parse_major_def parse_simple_def
        intro!: exI [of _ "if b then 0xf5 else 0xf4 :: u8"])
next
  case CNull
  show ?case using CNull
    by (auto simp: reads_def enc_def parse_value_step parse_major_def parse_simple_def
        intro!: exI [of _ "0xf6 :: u8"])
qed

section \<open>Canonical order of map entries\<close>

lemma map_insort_key: "map f (insort_key (g \<circ> f) x xs) = insort_key g (f x) (map f xs)"
  by (induction xs) auto

lemma map_sort_key: "map f (sort_key (g \<circ> f) xs) = sort_key g (map f xs)"
  by (induction xs) (auto simp: map_insort_key simp del: comp_apply)

lemma sorted_strict:
  "sorted (map fst ps) \<Longrightarrow> \<not> has_adjacent_equal_keys ps \<Longrightarrow> sorted_wrt (<) (map fst ps)"
proof (induction ps rule: has_adjacent_equal_keys.induct)
  case (1 x y xs)
  then have xy: "fst x < fst y" and rest: "sorted_wrt (<) (map fst (y # xs))" by auto
  then have "\<forall>z \<in> set (map fst (y # xs)). fst x < z" by auto
  with rest show ?case by simp
qed auto

lemma canon_CMap:
  fixes es :: "(CborValue \<times> CborValue) list"
  defines "xs \<equiv> map (\<lambda>(k, v). (canon k, canon v)) es"
  shows "canon (CMap es) = CMap (sort_key (enc \<circ> fst) xs)"
  by (simp add: xs_def)

lemma canon_correct:
  assumes "is_ok (encode_value v)"
  shows "encode_value (canon v) = encode_value v \<and> key_sorted (canon v)"
  using assms
proof (induction v rule: CborValue_induct)
  case (Array vs)
  have ok: "length vs < u64_end" "\<forall>v \<in> set vs. is_ok (encode_value v)"
    and e: "enc (Array vs) = encode_type_and_argument 4 (length vs) @ concat (map enc vs)"
    using encode_enc [OF Array.prems] unfolding encode_Array_iff by auto
  have IH: "encode_value (canon v) = encode_value v" "key_sorted (canon v)" if "v \<in> set vs" for v
    using Array.IH ok(2) that by auto
  have "map enc (map canon vs) = map enc vs" using IH(1) by (auto simp: enc_def)
  moreover have "\<forall>v \<in> set (map canon vs). is_ok (encode_value v)" using ok(2) IH(1) by auto
  ultimately have "encode_value (canon (Array vs)) = Ok (enc (Array vs))"
    unfolding canon.simps encode_Array_iff e using ok(1) by (simp del: map_map map_eq_conv)
  then have "encode_value (canon (Array vs)) = encode_value (Array vs)"
    using encode_enc [OF Array.prems] by metis
  moreover have "key_sorted (canon (Array vs))" using IH(2) by simp
  ultimately show ?case ..
next
  case (CMap es)
  let ?pair = "\<lambda>(k, v). (enc k, enc v)"
  define xs where "xs = map (\<lambda>(k, v). (canon k, canon v)) es"
  define ys where "ys = sort_key (enc \<circ> fst) xs"
  have ok: "length es < u64_end"
      "\<forall>e \<in> set es. is_ok (encode_value (fst e)) \<and> is_ok (encode_value (snd e))"
    and nd: "\<not> has_adjacent_equal_keys (sort_key fst (map ?pair es))"
    and e: "enc (CMap es) = encode_type_and_argument 5 (length es) @
          concat (map (\<lambda>(k, v). k @ v) (sort_key fst (map ?pair es)))"
    using encode_enc [OF CMap.prems] unfolding encode_CMap_iff by auto
  have IH: "encode_value (canon (fst e)) = encode_value (fst e)" "key_sorted (canon (fst e))"
    "encode_value (canon (snd e)) = encode_value (snd e)" "key_sorted (canon (snd e))"
    if "e \<in> set es" for e
    using CMap.IH [of "fst e" "snd e"] ok(2) that by auto
  have pairs: "map ?pair xs = map ?pair es"
    using IH(1,3) by (auto simp: xs_def enc_def split_beta)
  have "map ?pair ys = map ?pair (sort_key (fst \<circ> ?pair) xs)"
    by (simp add: ys_def comp_def split_beta)
  also have "\<dots> = sort_key fst (map ?pair xs)"
    by (rule map_sort_key)
  finally have sp: "map ?pair ys = sort_key fst (map ?pair es)"
    by (simp add: pairs)
  have "sorted_wrt (<) (map fst (map ?pair ys))"
    unfolding sp using nd by (intro sorted_strict) auto
  then have srt: "sorted_wrt (<) (map (enc \<circ> fst) ys)"
    by (simp add: comp_def split_beta)
  have set_ys: "set ys = set xs" and len: "length ys = length es" by (simp_all add: ys_def xs_def)
  have oky: "\<forall>e \<in> set ys. is_ok (encode_value (fst e)) \<and> is_ok (encode_value (snd e))"
    unfolding set_ys using ok(2) IH(1,3) by (auto simp: xs_def)
  have "map (\<lambda>(k, v). enc k @ enc v) ys = map (\<lambda>(k, v). k @ v) (map ?pair ys)" by auto
  then have "encode_value (CMap ys) = Ok (enc (CMap es))"
    using encode_sorted_map [OF srt _ oky] ok(1) by (simp add: e len sp del: encode_value.simps)
  then have "encode_value (CMap ys) = encode_value (CMap es)"
    using encode_enc [OF CMap.prems] by metis
  moreover have c: "canon (CMap es) = CMap ys" by (simp add: ys_def xs_def)
  moreover have "\<forall>e \<in> set ys. key_sorted (fst e) \<and> key_sorted (snd e)"
    unfolding set_ys using IH(2,4) by (auto simp: xs_def)
  ultimately show ?case unfolding c key_sorted.simps using srt by blast
qed auto

text \<open>Reordering changes no measure of the value.\<close>

lemma canon_measures:
  "cbor_items (canon v) = cbor_items v \<and> cbor_size (canon v) = cbor_size v \<and>
   cbor_alloc (canon v) = cbor_alloc v \<and> texts_valid (canon v) = texts_valid v"
proof (induction v rule: CborValue_induct)
  case (Array vs)
  then have "map (cbor_items \<circ> canon) vs = map cbor_items vs"
    "map (cbor_size \<circ> canon) vs = map cbor_size vs" "map (cbor_alloc \<circ> canon) vs = map cbor_alloc vs"
    by auto
  then show ?case using Array by (auto simp del: map_eq_conv)
next
  case (CMap es)
  let ?c = "\<lambda>(k, v). (canon k, canon v)"
  have "map (\<lambda>(k, v). cbor_items k + cbor_items v) (map ?c es) = map (\<lambda>(k, v). cbor_items k + cbor_items v) es"
    "map (\<lambda>(k, v). cbor_size k + cbor_size v) (map ?c es) = map (\<lambda>(k, v). cbor_size k + cbor_size v) es"
    "map (\<lambda>(k, v). cbor_size k + cbor_alloc k + cbor_alloc v) (map ?c es) =
     map (\<lambda>(k, v). cbor_size k + cbor_alloc k + cbor_alloc v) es"
    using CMap.IH by fastforce+
  moreover have "(\<forall>e \<in> set (map ?c es). texts_valid (fst e) \<and> texts_valid (snd e)) =
      (\<forall>e \<in> set es. texts_valid (fst e) \<and> texts_valid (snd e))"
    using CMap.IH by fastforce
  ultimately show ?case by (simp add: sum_list_sort_key del: map_map map_eq_conv)
qed auto

lemma canon_nesting: "nesting (canon v) = nesting v"
proof (induction v rule: CborValue_induct)
  case (Array vs)
  have "nesting (canon (Array vs)) \<le> c \<longleftrightarrow> nesting (Array vs) \<le> c" for c
    unfolding canon.simps nesting_Array_le using Array by auto
  then show ?case by (meson le_antisym le_refl)
next
  case (CMap es)
  have "nesting (canon (CMap es)) \<le> c \<longleftrightarrow> nesting (CMap es) \<le> c" for c
    unfolding canon.simps nesting_CMap_le using CMap by fastforce
  then show ?case by (meson le_antisym le_refl)
qed auto

section \<open>Validation against the encoder\<close>

text \<open>
  A parse that ends at the end of the input consumed the encoding of its value, whatever
  the length of the input.
\<close>

lemma validate_sound:
  assumes "validate_deterministic_with_limits input limits = Ok v"
  shows "encode_value v = Ok input \<and> texts_valid v \<and> key_sorted v \<and> nesting v \<le> MAX_NESTING_DEPTH \<and>
     cbor_items v \<le> max_items limits \<and> cbor_alloc v \<le> max_allocation limits"
proof -
  let ?p = "\<lparr>p_input = input, p_offset = 0, remaining_allocation = max_allocation limits,
     remaining_items = max_items limits\<rparr>"
  obtain p' where r: "parse_value 0 ?p = Ok (v, p')" and o: "p_offset p' = length input"
    using assms by (auto simp: validate_deterministic_with_limits_def rbind_Ok_iff split: if_splits)
  from parse_value_sound [OF r] have s: "parsed ?p v p'" and n: "nesting v \<le> MAX_NESTING_DEPTH" by auto
  then have ok: "is_ok (encode_value v)" and "cbor_size v = length input" using o by (auto simp: parsed_def)
  then have "enc v = input"
    using s length_enc [OF ok] by (simp add: parsed_def has_bytes_def)
  with s n encode_enc [OF ok] show ?thesis by (auto simp: parsed_def)
qed

lemma validate_Ok_iff:
  assumes "length input < u64_end"
  shows "validate_deterministic_with_limits input limits = Ok v \<longleftrightarrow>
     encode_value v = Ok input \<and> texts_valid v \<and> key_sorted v \<and> nesting v \<le> MAX_NESTING_DEPTH \<and>
     cbor_items v \<le> max_items limits \<and> cbor_alloc v \<le> max_allocation limits"
    (is "?L \<longleftrightarrow> ?R")
proof
  assume R: ?R
  let ?p = "\<lparr>p_input = input, p_offset = 0, remaining_allocation = max_allocation limits,
     remaining_items = max_items limits\<rparr>"
  have "has_bytes ?p (enc v)" and "cbor_size v = length input"
    using R encode_length by (auto simp: has_bytes_def)
  with R assms parse_value_complete [of v 0]
  show ?L by (auto simp: reads_def validate_deterministic_with_limits_def)
qed (rule validate_sound)

lemma validate_encoded:
  assumes "encode_value v = Ok bs" and "texts_valid v" and "nesting v \<le> MAX_NESTING_DEPTH"
    and "length bs < u64_end"
    and "cbor_items v \<le> max_items limits" and "cbor_alloc v \<le> max_allocation limits"
  shows "validate_deterministic_with_limits bs limits = Ok (canon v)"
proof -
  have "is_ok (encode_value v)" using assms(1) by simp
  then show ?thesis
    using assms canon_correct [of v] canon_measures [of v] canon_nesting [of v]
    by (simp add: validate_Ok_iff)
qed

section \<open>Encodings determine their values\<close>

text \<open>
  Every encoding is a head, a major type with an argument, and a body. Heads are prefix-free,
  so values with sorted keys whose encodings start the same input are the same value, however
  deep they are nested.
\<close>

lemma head_prefix_inj:
  assumes "encode_type_and_argument m n @ r = encode_type_and_argument m' n' @ r'"
    and "m < 8" and "m' < 8" and "n < u64_end" and "n' < u64_end"
  shows "m = m' \<and> n = n' \<and> r = r'"
proof -
  let ?p = "\<lparr>p_input = take 9 (encode_type_and_argument m n @ r), p_offset = 0, remaining_allocation = 0, remaining_items = 0\<rparr>"
  have l: "length (p_input ?p) < u64_end" by (rule le_less_trans [of _ 9]) (simp_all add: u64_end_def)
  have "has_bytes ?p (encode_type_and_argument m n)"
    using head_len_bounds(2) [of n] by (auto simp: has_bytes_def slice_def min_def)
  moreover have "has_bytes ?p (encode_type_and_argument m' n')"
    unfolding assms(1) using head_len_bounds(2) [of n'] by (auto simp: has_bytes_def slice_def min_def)
  ultimately obtain b b' where b: "has_bytes ?p [b]" "drop_bit 5 b = m"
      "read_argument (b AND 0x1f) (advance ?p 1 0 0) = Ok (n, advance ?p (head_len n) 0 0)"
    and b': "has_bytes ?p [b']" "drop_bit 5 b' = m'"
      "read_argument (b' AND 0x1f) (advance ?p 1 0 0) = Ok (n', advance ?p (head_len n') 0 0)"
    using read_head_complete [OF _ assms(4,2) l] read_head_complete [OF _ assms(5,3) l] by blast
  have "b = b'" using b(1) b'(1) by (simp add: has_bytes_def)
  then have "m = m' \<and> n = n'" using b b' by simp
  then show ?thesis using assms(1) by simp
qed

fun value_head :: "CborValue \<Rightarrow> u8 \<times> nat" where
  "value_head (Integer n) = (if n \<ge> 0 then 0 else 1, int_argument n)"
| "value_head (Bytes bs) = (2, length bs)"
| "value_head (Text s) = (3, length s)"
| "value_head (Array vs) = (4, length vs)"
| "value_head (CMap es) = (5, length es)"
| "value_head (CBool b) = (7, if b then 21 else 20)"
| "value_head CNull = (7, 22)"

fun value_body :: "CborValue \<Rightarrow> bytes" where
  "value_body (Bytes bs) = bs"
| "value_body (Text s) = as_bytes s"
| "value_body (Array vs) = concat (map enc vs)"
| "value_body (CMap es) = concat (map (\<lambda>(k, v). enc k @ enc v) es)"
| "value_body _ = []"

lemma enc_head_body:
  assumes "is_ok (encode_value v)" and "key_sorted v"
  shows "enc v = encode_type_and_argument (fst (value_head v)) (snd (value_head v)) @ value_body v"
    and "fst (value_head v) < 8" and "snd (value_head v) < u64_end"
proof -
  note e = encode_enc [OF assms(1)]
  have "enc v = encode_type_and_argument (fst (value_head v)) (snd (value_head v)) @ value_body v \<and>
    snd (value_head v) < u64_end"
  proof (cases v)
    case (CMap es)
    then have "length es < u64_end" "\<forall>e \<in> set es. is_ok (encode_value (fst e)) \<and> is_ok (encode_value (snd e))"
      using e unfolding CMap encode_CMap_iff by blast+
    then show ?thesis
      using CMap assms(2) encode_sorted_map [of es] e by (simp del: encode_value.simps)
  qed (use e in \<open>simp_all only: encode_iffs value_head.simps value_body.simps fst_conv snd_conv append_Nil2,
      simp_all add: encode_type_and_argument_def u64_end_def enc_def\<close>)
  then show "enc v = encode_type_and_argument (fst (value_head v)) (snd (value_head v)) @ value_body v"
    "snd (value_head v) < u64_end" by simp_all
  show "fst (value_head v) < 8" by (cases v) simp_all
qed

lemma concat_map_prefix_inj:
  assumes "length xs = length ys" and "concat (map f xs) @ r = concat (map f ys) @ r'"
    and "\<And>x y s s'. x \<in> set xs \<Longrightarrow> y \<in> set ys \<Longrightarrow> f x @ s = f y @ s' \<Longrightarrow> x = y \<and> s = s'"
  shows "xs = ys \<and> r = r'"
  using assms
proof (induction xs ys rule: list_induct2)
  case (Cons x xs y ys)
  have "x = y" "concat (map f xs) @ r = concat (map f ys) @ r'"
    using Cons.prems(1) Cons.prems(2) [of x y "concat (map f xs) @ r" "concat (map f ys) @ r'"] by auto
  then show ?case using Cons.IH Cons.prems(2) by auto
qed simp

lemma enc_same_parts:
  assumes "enc v @ r = enc w @ r'" and "is_ok (encode_value v)" and "is_ok (encode_value w)"
    and "key_sorted v" and "key_sorted w"
  shows "value_head v = value_head w" and "value_body v @ r = value_body w @ r'"
  using assms(1) head_prefix_inj [OF _ enc_head_body(2) [OF assms(2,4)] enc_head_body(2) [OF assms(3,5)]
      enc_head_body(3) [OF assms(2,4)] enc_head_body(3) [OF assms(3,5)]]
  unfolding enc_head_body(1) [OF assms(2,4)] enc_head_body(1) [OF assms(3,5)] append_assoc
  by (simp_all add: prod_eq_iff)

lemma encode_parts:
  "is_ok (encode_value (Array vs)) \<Longrightarrow> v \<in> set vs \<Longrightarrow> is_ok (encode_value v)"
  "is_ok (encode_value (CMap es)) \<Longrightarrow> (k, v) \<in> set es \<Longrightarrow> is_ok (encode_value k) \<and> is_ok (encode_value v)"
  unfolding is_ok_iff [of "encode_value (Array vs)"] is_ok_iff [of "encode_value (CMap es)"] encode_iffs by auto

lemma enc_prefix_inj:
  assumes "enc v @ r = enc w @ r'" and "is_ok (encode_value v)" and "is_ok (encode_value w)"
    and "key_sorted v" and "key_sorted w"
  shows "v = w \<and> r = r'"
  using assms
proof (induction v arbitrary: w r r' rule: CborValue_induct)
  case (Integer n)
  then show ?case using enc_same_parts [OF Integer]
    by (cases w) (auto simp: int_argument_def split: if_splits)
next
  case (Bytes bs)
  then show ?case using enc_same_parts [OF Bytes] by (cases w) (auto split: if_splits)
next
  case (Text s)
  then show ?case using enc_same_parts [OF Text] by (cases w) (auto split: if_splits)
next
  case (Array vs)
  obtain ws where w: "w = Array ws" "length vs = length ws" and b: "concat (map enc vs) @ r = concat (map enc ws) @ r'"
    using enc_same_parts [OF Array.prems] by (cases w) (auto split: if_splits)
  have inj: "x = y \<and> s = s'" if "x \<in> set vs" "y \<in> set ws" "enc x @ s = enc y @ s'" for x y s s'
    using Array.IH [OF that(1,3)] encode_parts(1) [OF Array.prems(2) that(1)]
      encode_parts(1) [OF Array.prems(3) [unfolded w(1)] that(2)] Array.prems(4,5) that(1,2) w(1) by simp
  have "vs = ws \<and> r = r'" by (rule concat_map_prefix_inj [OF w(2) b]) (rule inj)
  then show ?case using w(1) by blast
next
  case (CMap es)
  obtain fs where w: "w = CMap fs" "length es = length fs"
    and b: "concat (map (\<lambda>(k, v). enc k @ enc v) es) @ r = concat (map (\<lambda>(k, v). enc k @ enc v) fs) @ r'"
    using enc_same_parts [OF CMap.prems] by (cases w) (auto split: if_splits)
  have inj: "x = y \<and> s = s'" if "x \<in> set es" "y \<in> set fs"
      "(case x of (k, v) \<Rightarrow> enc k @ enc v) @ s = (case y of (k, v) \<Rightarrow> enc k @ enc v) @ s'" for x y s s'
  proof -
    obtain k v k' v' where xy: "x = (k, v)" "y = (k', v')" by (metis surj_pair)
    have ok: "is_ok (encode_value k)" "is_ok (encode_value v)" "is_ok (encode_value k')" "is_ok (encode_value v')"
      using encode_parts(2) [OF CMap.prems(2), of k v] encode_parts(2) [OF CMap.prems(3) [unfolded w(1)], of k' v'] that xy
      by simp_all
    have ks: "key_sorted k" "key_sorted v" "key_sorted k'" "key_sorted v'"
      using CMap.prems(4,5) w(1) that(1,2) xy by auto
    have "k = k' \<and> enc v @ s = enc v' @ s'"
      using that xy by (intro CMap.IH(1) [OF _ _ ok(1,3) ks(1,3)]) simp_all
    then show ?thesis using CMap.IH(2) [of k v s v' s'] that(1) xy ok ks by simp
  qed
  have "es = fs \<and> r = r'" by (rule concat_map_prefix_inj [OF w(2) b]) (rule inj)
  then show ?case using w(1) by blast
next
  case (CBool b)
  then show ?case using enc_same_parts [OF CBool] by (cases w) (auto split: if_splits)
next
  case CNull
  then show ?case using enc_same_parts [OF CNull] by (cases w) (auto split: if_splits)
qed

lemma validate_encoded_value:
  assumes "encode_value v = Ok bs" and "validate_deterministic_with_limits bs limits = Ok w"
  shows "w = canon v"
proof -
  have v: "encode_value (canon v) = Ok bs" "key_sorted (canon v)" using canon_correct [of v] assms(1) by simp_all
  have w: "encode_value w = Ok bs" "key_sorted w" using validate_sound [OF assms(2)] by simp_all
  show ?thesis using enc_prefix_inj [of w "[]" "canon v" "[]"] v w by simp
qed

section \<open>Order of entries\<close>

text \<open>Entries in another order have the same encoding.\<close>

lemma distinct_keys_inj:
  assumes "\<not> has_adjacent_equal_keys (sort_key fst ps)"
  shows "distinct (map fst ps)"
proof -
  have "sorted_wrt (<) (map fst (sort_key fst ps))" using assms by (intro sorted_strict) auto
  then have "distinct (map fst (sort_key fst ps))" by (simp add: strict_sorted_iff)
  moreover have "mset (map fst (sort_key fst ps)) = mset (map fst ps)" by simp
  ultimately show ?thesis by (metis mset_eq_imp_distinct_iff)
qed

lemma sort_key_perm:
  assumes "mset ps = mset qs" and "distinct (map fst ps)"
  shows "sort_key fst ps = sort_key fst qs"
proof (rule map_sorted_distinct_set_unique [where f = fst])
  have s: "set ps = set qs" using assms(1) by (metis set_mset_mset)
  have d: "distinct (map fst xs)" if "mset xs = mset ps" for xs
    using that assms(2) by (metis mset_eq_imp_distinct_iff mset_map)
  show "distinct (map fst (sort_key fst ps))" "distinct (map fst (sort_key fst qs))"
    using d assms(1) by auto
  show "inj_on fst (set (sort_key fst ps) \<union> set (sort_key fst qs))"
    using assms(2) s by (simp add: distinct_map)
  show "set (sort_key fst ps) = set (sort_key fst qs)" using s by simp
qed simp_all

lemma encode_permuted:
  assumes "mset es = mset es'" and "encode_value (CMap es) = Ok bs"
  shows "encode_value (CMap es') = Ok bs"
proof -
  let ?pair = "\<lambda>(k, v). (enc k, enc v)"
  have s: "set es' = set es" and l: "length es' = length es"
    using assms(1) by (metis set_mset_mset, metis size_mset)
  have m: "mset (map ?pair es) = mset (map ?pair es')" using assms(1) by simp
  have "sort_key fst (map ?pair es') = sort_key fst (map ?pair es)"
    using sort_key_perm [OF m distinct_keys_inj] assms(2) unfolding encode_CMap_iff by metis
  then show ?thesis using assms(2) unfolding encode_CMap_iff s l by metis
qed

lemma check_known_keys_Ok_iff:
  "check_known_keys schema es = Ok () \<longleftrightarrow>
     (\<forall>e \<in> set es. \<exists>key. fst e = Text key \<and>
        (allow_unknown schema \<or> key \<in> set (schema_required schema) \<or> key \<in> set (schema_optional schema)))"
  by (induction schema es rule: check_known_keys.induct) auto

text \<open>The measured size is a 64-bit number.\<close>

lemma head_len_small [simp]: "head_len n < u64_end"
  using head_len_bounds [of n] by (auto simp: u64_end_def elim: le_less_trans)

lemma measure_value_small: "measure_value v = Ok u \<Longrightarrow> usage_encoded_bytes u < u64_end"
proof (cases v)
  case (Array vs)
  assume "measure_value v = Ok u"
  then show ?thesis unfolding Array
    by (auto simp: rbind_Ok_iff CborUsage_add_Ok_iff
        elim!: rfold_invariant [where P = "\<lambda>u. usage_encoded_bytes u < u64_end"])
next
  case (CMap es)
  assume "measure_value v = Ok u"
  then show ?thesis unfolding CMap
    by (auto simp: rbind_Ok_iff CborUsage_add_Ok_iff
        elim!: rfold_invariant [where P = "\<lambda>u. usage_encoded_bytes u < u64_end"])
qed (auto simp: rbind_Ok_iff payload_usage_def result_simps width_simps, auto simp: u64_end_def)

section \<open>Properties\<close>

definition sample_value :: CborValue where
  "sample_value = CMap [(Integer 2, CBool True), (Integer 1, Array [Bytes [7], CNull])]"

definition sample_bytes :: bytes where
  "sample_bytes = [0xa2, 1, 0x82, 0x41, 7, 0xf6, 2, 0xf5]"

lemma sample_encode: "encode_deterministic sample_value = Ok sample_bytes"
  by (simp add: encode_deterministic_def sample_value_def sample_bytes_def u64_try_from_def
      encode_type_and_argument_def u64_end_def)

lemma sample_measure: "measure_value sample_value =
    Ok \<lparr>usage_items = 7, usage_allocation = 3, usage_encoded_bytes = 8\<rparr>"
  by (simp add: sample_value_def u64_try_from_def payload_usage_def head_len_def u64_end_def
      CborUsage_add_def checked_add_def)

lemma sample_validate: "validate_deterministic sample_bytes = Ok (canon sample_value)"
  unfolding validate_deterministic_def
  by (rule validate_encoded)
    (use sample_encode in \<open>simp_all add: encode_deterministic_def, simp_all add: sample_value_def sample_bytes_def
      MAX_NESTING_DEPTH_def u64_end_def CborLimits_default_def head_len_def int_argument_def\<close>)

text \<open>
  C22: the validating parser accepts canonical bytes only. If it accepts an input under any
  limits, re-encoding the value it returned gives back exactly that input; so no two
  different inputs decode to the same value.
\<close>

theorem validate_then_encode:
  assumes "validate_deterministic_with_limits input limits = Ok v"
  shows "encode_deterministic v = Ok input"
  using validate_sound [OF assms] by (simp add: encode_deterministic_def)

theorem validate_then_encode_witness:
  "encode_deterministic (canon sample_value) = Ok sample_bytes"
  using sample_validate unfolding validate_deterministic_def by (rule validate_then_encode)

text \<open>
  C23: the writer's budget measurement decides exactly whether the reader accepts. For a value
  with well-formed texts that the encoder accepts, the parser accepts the encoding if and only
  if \<open>CborUsage::enforce\<close> accepts the measured usage and the value is nested at most 64 levels
  deep, which the measurement does not check; and then it returns the value with its map
  entries in canonical order.
\<close>

theorem measured_usage_decides_validation:
  assumes "encode_deterministic v = Ok bs" and "measure_value v = Ok u" and "texts_valid v"
  shows "(CborUsage_enforce u limits (length bs) = Ok () \<and> nesting v \<le> MAX_NESTING_DEPTH \<longleftrightarrow>
      validate_deterministic_with_limits bs limits = Ok (canon v)) \<and>
     (is_ok (CborUsage_enforce u limits (length bs)) \<and> nesting v \<le> MAX_NESTING_DEPTH \<longleftrightarrow>
      is_ok (validate_deterministic_with_limits bs limits))"
proof -
  have e: "encode_value v = Ok bs" using assms(1) by (simp add: encode_deterministic_def)
  have u: "u = usage_of v" using measure_value_usage [OF assms(2)] .
  have len: "length bs < u64_end"
    using encode_length [OF e] measure_value_small [OF assms(2)] u by simp
  have enf: "CborUsage_enforce u limits (length bs) = Ok () \<longleftrightarrow>
      cbor_items v \<le> max_items limits \<and> cbor_alloc v \<le> max_allocation limits"
    using encode_length [OF e] by (auto simp: CborUsage_enforce_def u)
  have "is_ok (encode_value v)" using e by simp
  note c = canon_correct [OF this] canon_measures [of v] canon_nesting [of v]
  have 1: "CborUsage_enforce u limits (length bs) = Ok () \<and> nesting v \<le> MAX_NESTING_DEPTH \<longleftrightarrow>
     validate_deterministic_with_limits bs limits = Ok (canon v)"
    using validate_encoded [OF e assms(3) _ len] validate_sound [of bs limits "canon v"] c
    unfolding enf by auto
  moreover have "is_ok (CborUsage_enforce u limits (length bs)) \<and> nesting v \<le> MAX_NESTING_DEPTH \<longleftrightarrow>
     is_ok (validate_deterministic_with_limits bs limits)"
    using 1 validate_encoded_value [OF e] by (auto simp: is_ok_iff)
  ultimately show ?thesis by blast
qed

text \<open>Within the budgets, over them, and within them but 65 arrays deep.\<close>

definition deep_value :: CborValue where
  "deep_value = ((\<lambda>v. Array [v]) ^^ 65) CNull"

lemma deep_arrays:
  "encode_value (((\<lambda>v. Array [v]) ^^ n) CNull) = Ok (replicate n 0x81 @ [0xf6])"
  "nesting (((\<lambda>v. Array [v]) ^^ n) CNull) = n" "texts_valid (((\<lambda>v. Array [v]) ^^ n) CNull)"
  by (induction n) (simp_all add: encode_type_and_argument_def u64_end_def)

lemma deep_measure: "n < 100 \<Longrightarrow> measure_value (((\<lambda>v. Array [v]) ^^ n) CNull) =
    Ok \<lparr>usage_items = n + 1, usage_allocation = 0, usage_encoded_bytes = n + 1\<rparr>"
  by (induction n) (simp_all add: CborUsage_add_def checked_add_def u64_end_def head_len_def)

theorem measured_usage_decides_validation_witness:
  "validate_deterministic_with_limits sample_bytes \<lparr>max_allocation = 3, max_items = 7\<rparr> =
      Ok (canon sample_value) \<and>
   \<not> is_ok (validate_deterministic_with_limits sample_bytes \<lparr>max_allocation = 3, max_items = 6\<rparr>) \<and>
   \<not> is_ok (validate_deterministic_with_limits (replicate 65 0x81 @ [0xf6]) CborLimits_default)"
proof -
  have s: "texts_valid sample_value" "nesting sample_value \<le> MAX_NESTING_DEPTH"
    by (simp_all add: sample_value_def MAX_NESTING_DEPTH_def)
  note w = measured_usage_decides_validation [OF sample_encode sample_measure s(1)]
  have "\<not> is_ok (validate_deterministic_with_limits (replicate 65 0x81 @ [0xf6]) CborLimits_default)"
    using measured_usage_decides_validation [of deep_value "replicate 65 0x81 @ [0xf6]" _ CborLimits_default]
      deep_arrays [of 65] deep_measure [of 65]
    by (simp add: deep_value_def encode_deterministic_def MAX_NESTING_DEPTH_def)
  then show ?thesis
    using w [of "\<lparr>max_allocation = 3, max_items = 7\<rparr>"] w [of "\<lparr>max_allocation = 3, max_items = 6\<rparr>"] s(2)
    by (simp add: CborUsage_enforce_def sample_bytes_def)
qed

text \<open>
  C37: the resource limits bound what the parser builds. Whatever input it accepts, the value
  has at most \<open>max_items\<close> data items, its strings and map keys take at most \<open>max_allocation\<close>
  bytes, it is nested at most 64 levels deep, every text in it is valid UTF-8, and the keys
  of every map are strictly ascending in their encoded form, hence without duplicates.
\<close>

theorem validated_value_within_limits:
  assumes "validate_deterministic_with_limits input limits = Ok v"
  shows "cbor_items v \<le> max_items limits \<and> cbor_alloc v \<le> max_allocation limits \<and>
     nesting v \<le> 64 \<and> texts_valid v \<and> key_sorted v"
  using validate_sound [OF assms] by (simp add: MAX_NESTING_DEPTH_def)

theorem validated_value_within_limits_witness:
  "cbor_items (canon sample_value) \<le> max_items CborLimits_default \<and> key_sorted (canon sample_value)"
  using validated_value_within_limits [OF sample_validate [unfolded validate_deterministic_def]] by simp

text \<open>
  The encoder is deterministic in the sense of the format: a map given with its entries
  in any other order has the same encoding, and that encoding is as long as the size the
  writer measured beforehand.
\<close>

theorem encode_deterministic_order_independent:
  assumes "encode_deterministic (CMap es) = Ok bs" and "mset es' = mset es"
    and "measure_value (CMap es) = Ok u"
  shows "encode_deterministic (CMap es') = Ok bs \<and> usage_encoded_bytes u = length bs"
  using encode_permuted [of es es' bs] encode_length [of "CMap es" bs] measure_value_usage [OF assms(3)] assms(1,2)
  by (simp add: encode_deterministic_def del: encode_value.simps)

theorem encode_deterministic_order_independent_witness:
  "encode_deterministic (CMap [(Integer 1, Array [Bytes [7], CNull]), (Integer 2, CBool True)]) = Ok sample_bytes"
  using encode_deterministic_order_independent
    [OF sample_encode [unfolded sample_value_def]
        _ sample_measure [unfolded sample_value_def],
     of "[(Integer 1, Array [Bytes [7], CNull]), (Integer 2, CBool True)]"]
  by (simp del: encode_value.simps)

text \<open>
  A closed text-key schema accepts exactly the canonical maps that hold every required
  key, whose keys are all texts and, unless unknown keys are allowed, all listed in the
  schema; the value returned is the one the parser returned.
\<close>

theorem validate_text_key_schema_iff:
  "validate_text_key_schema_with_limits input schema limits = Ok v \<longleftrightarrow>
     validate_deterministic_with_limits input limits = Ok v \<and>
     (\<exists>es. v = CMap es \<and>
        Text ` set (schema_required schema) \<subseteq> fst ` set es \<and>
        fst ` set es \<subseteq> range Text \<and>
        (allow_unknown schema \<or>
         fst ` set es \<subseteq> Text ` (set (schema_required schema) \<union> set (schema_optional schema))))"
proof -
  have known: "check_known_keys schema es = Ok () \<longleftrightarrow> fst ` set es \<subseteq> range Text \<and>
        (allow_unknown schema \<or>
         fst ` set es \<subseteq> Text ` (set (schema_required schema) \<union> set (schema_optional schema)))" for es
    unfolding check_known_keys_Ok_iff by (auto; blast)
  have req: "\<not> (\<exists>required \<in> set (schema_required schema). \<forall>e \<in> set es. fst e \<noteq> Text required) \<longleftrightarrow>
      Text ` set (schema_required schema) \<subseteq> fst ` set es" for es :: "(CborValue \<times> CborValue) list"
    by (force simp: image_iff)
  have body: "(case w of
       CMap es \<Rightarrow> if \<exists>required \<in> set (schema_required schema). \<forall>e \<in> set es. fst e \<noteq> Text required
         then Err MetadataInvalid else rbind (check_known_keys schema es) (\<lambda>_. Ok w)
     | _ \<Rightarrow> Err MetadataInvalid) = Ok v \<longleftrightarrow>
      w = v \<and> (\<exists>es. v = CMap es \<and> Text ` set (schema_required schema) \<subseteq> fst ` set es \<and>
        check_known_keys schema es = Ok ())" for w
  proof (cases w)
    case (CMap es)
    show ?thesis
      unfolding CMap CborValue.case if_Err_Ok_iff req rbind_Ok_iff by auto
  qed auto
  show ?thesis
    unfolding validate_text_key_schema_with_limits_def rbind_Ok_iff body known by simp
qed

end
