(* ===== verification/Schema.thy ===== *)
theory Schema
  imports Cbor_Correct Limits Codec
begin

text \<open>
  The CBOR blocks of a container (src/src/schema.rs): checksums, footer payload, metadata,
  index root, dictionary block and document index, each with its encoder and its validating
  decoder, and the accessors on text-keyed maps they share. A fixed array \<open>[u8; N]\<close> is a byte
  list; \<open>required_bstr\<close> checks its length.
\<close>

definition SCHEMA_FOOTER :: string where "SCHEMA_FOOTER = ''qzt.footer.v1''"
definition SCHEMA_METADATA :: string where "SCHEMA_METADATA = ''qzt.metadata.v1''"
definition SCHEMA_INDEX_ROOT :: string where "SCHEMA_INDEX_ROOT = ''qzt.index-root.v1''"
definition SCHEMA_DICTIONARY :: string where "SCHEMA_DICTIONARY = ''qzt.dictionary.v1''"
definition SCHEMA_DOCUMENT_INDEX :: string where "SCHEMA_DOCUMENT_INDEX = ''qzt.document-index.v1''"
definition CHECKSUM_ALGORITHM_BLAKE3 :: string where "CHECKSUM_ALGORITHM_BLAKE3 = ''blake3''"
definition CHUNK_TABLE_TYPE :: string where "CHUNK_TABLE_TYPE = ''chunk_table''"
definition CHUNK_TABLE_CODEC :: string where "CHUNK_TABLE_CODEC = ''qzt-ctbl-fixed-v1''"
definition DICTIONARY_TYPE :: string where "DICTIONARY_TYPE = ''dictionary''"
definition DICTIONARY_CODEC :: string where "DICTIONARY_CODEC = ''qzt-dict-cbor-v1''"
definition DENSE_LINE_INDEX_TYPE :: string where "DENSE_LINE_INDEX_TYPE = ''dense_line_index''"
definition DENSE_LINE_INDEX_CODEC :: string where "DENSE_LINE_INDEX_CODEC = ''qzt-line-delta-varint-v1''"
definition DOCUMENT_INDEX_TYPE :: string where "DOCUMENT_INDEX_TYPE = ''document_index''"
definition DOCUMENT_INDEX_CODEC :: string where "DOCUMENT_INDEX_CODEC = ''qzt-doc-index-cbor-v1''"

type_synonym entries = "(CborValue \<times> CborValue) list"

section \<open>Accessors on text-keyed maps\<close>

definition text_pair :: "string \<Rightarrow> CborValue \<Rightarrow> CborValue \<times> CborValue" where
  "text_pair key v = (Text key, v)"

definition u64_value :: "u64 \<Rightarrow> CborValue" where
  "u64_value v = Integer (int v)"

definition version_value :: CborValue where
  "version_value = Array [Integer 0, Integer 1]"

fun as_map :: "CborValue \<Rightarrow> QztError \<Rightarrow> entries result" where
  "as_map (CMap es) err = Ok es"
| "as_map _ err = Err err"

fun field :: "entries \<Rightarrow> string \<Rightarrow> QztError \<Rightarrow> CborValue result" where
  "field [] key err = Err err"
| "field ((Text text, v) # es) key err = (if text = key then Ok v else field es key err)"
| "field (_ # es) key err = field es key err"

definition required_map :: "entries \<Rightarrow> string \<Rightarrow> QztError \<Rightarrow> entries result" where
  "required_map es key err = rbind (field es key err) (\<lambda>v. as_map v err)"

definition required_array :: "entries \<Rightarrow> string \<Rightarrow> QztError \<Rightarrow> CborValue list result" where
  "required_array es key err =
     rbind (field es key err) (\<lambda>v. case v of Array vs \<Rightarrow> Ok vs | _ \<Rightarrow> Err err)"

definition required_text :: "entries \<Rightarrow> string \<Rightarrow> QztError \<Rightarrow> string result" where
  "required_text es key err =
     rbind (field es key err) (\<lambda>v. case v of Text s \<Rightarrow> Ok s | _ \<Rightarrow> Err err)"

definition required_bool :: "entries \<Rightarrow> string \<Rightarrow> QztError \<Rightarrow> bool result" where
  "required_bool es key err =
     rbind (field es key err) (\<lambda>v. case v of CBool b \<Rightarrow> Ok b | _ \<Rightarrow> Err err)"

definition required_u64_with_overflow ::
  "entries \<Rightarrow> string \<Rightarrow> QztError \<Rightarrow> QztError \<Rightarrow> u64 result"
where
  "required_u64_with_overflow es key err overflow_error =
     rbind (field es key err) (\<lambda>v. case v of
         Integer n \<Rightarrow> if n < 0 then Err err else ok_or (u64_try_from n) overflow_error
       | _ \<Rightarrow> Err err)"

definition required_u64 :: "entries \<Rightarrow> string \<Rightarrow> QztError \<Rightarrow> u64 result" where
  "required_u64 es key err = required_u64_with_overflow es key err err"

definition i32_try_from :: "i128 \<Rightarrow> i32 option" where
  "i32_try_from n = (if - (2 ^ 31) \<le> n \<and> n < 2 ^ 31 then Some n else None)"

definition required_i32 :: "entries \<Rightarrow> string \<Rightarrow> QztError \<Rightarrow> i32 result" where
  "required_i32 es key err =
     rbind (field es key err) (\<lambda>v. case v of
         Integer n \<Rightarrow> ok_or (i32_try_from n) err
       | _ \<Rightarrow> Err err)"

definition required_bytes :: "entries \<Rightarrow> string \<Rightarrow> QztError \<Rightarrow> bytes result" where
  "required_bytes es key err =
     rbind (field es key err) (\<lambda>v. case v of Bytes bs \<Rightarrow> Ok bs | _ \<Rightarrow> Err err)"

definition required_bstr :: "nat \<Rightarrow> entries \<Rightarrow> string \<Rightarrow> QztError \<Rightarrow> bytes result" where
  "required_bstr N es key err =
     rbind (field es key err) (\<lambda>v. case v of
         Bytes bs \<Rightarrow> if length bs = N then Ok bs else Err err
       | _ \<Rightarrow> Err err)"

definition required_bstr16 :: "entries \<Rightarrow> string \<Rightarrow> QztError \<Rightarrow> bytes result" where
  "required_bstr16 es key err = required_bstr 16 es key err"

definition required_bstr32 :: "entries \<Rightarrow> string \<Rightarrow> QztError \<Rightarrow> bytes result" where
  "required_bstr32 es key err = required_bstr 32 es key err"

fun reject_unknown_keys :: "entries \<Rightarrow> string list \<Rightarrow> QztError \<Rightarrow> unit result" where
  "reject_unknown_keys [] allowed err = Ok ()"
| "reject_unknown_keys ((Text key, _) # es) allowed err =
     (if key \<notin> set allowed then Err err else reject_unknown_keys es allowed err)"
| "reject_unknown_keys (_ # es) allowed err = Err err"

definition expect_text_field :: "entries \<Rightarrow> string \<Rightarrow> string \<Rightarrow> QztError \<Rightarrow> unit result" where
  "expect_text_field es key expected err =
     rbind (required_text es key err) (\<lambda>s. if s \<noteq> expected then Err err else Ok ())"

definition expect_bool_field :: "entries \<Rightarrow> string \<Rightarrow> bool \<Rightarrow> QztError \<Rightarrow> unit result" where
  "expect_bool_field es key expected err =
     rbind (required_bool es key err) (\<lambda>b. if b \<noteq> expected then Err err else Ok ())"

definition expect_version_field :: "entries \<Rightarrow> QztError \<Rightarrow> unit result" where
  "expect_version_field es err =
     rbind (field es ''format_version'' err) (\<lambda>v. case v of
         Array vs \<Rightarrow> if vs = [Integer 0, Integer 1] then Ok () else Err err
       | _ \<Rightarrow> Err err)"

definition decode_prologue :: "bytes \<Rightarrow> string list \<Rightarrow> string \<Rightarrow> QztError \<Rightarrow> CborValue result" where
  "decode_prologue bs allowed_keys expected_schema err =
     rbind (validate_deterministic bs) (\<lambda>v.
     rbind (as_map v err) (\<lambda>es.
     rbind (reject_unknown_keys es allowed_keys err) (\<lambda>_.
     rbind (expect_text_field es ''schema'' expected_schema err) (\<lambda>_.
     rbind (expect_version_field es err) (\<lambda>_.
     Ok v)))))"

section \<open>Checksums and block references\<close>

record Checksum =
  cs_algorithm :: string
  cs_value :: bytes

definition Checksum_blake3 :: "('h, 'x) ext_scheme \<Rightarrow> bytes \<Rightarrow> Checksum" where
  "Checksum_blake3 X bs = \<lparr>cs_algorithm = CHECKSUM_ALGORITHM_BLAKE3, cs_value = blake3_hash X bs\<rparr>"

definition Checksum_from_hasher :: "('h, 'x) ext_scheme \<Rightarrow> 'h \<Rightarrow> Checksum" where
  "Checksum_from_hasher X hasher =
     \<lparr>cs_algorithm = CHECKSUM_ALGORITHM_BLAKE3, cs_value = hasher_finalize X hasher\<rparr>"

definition Checksum_from_raw_bytes :: "bytes \<Rightarrow> Checksum" where
  "Checksum_from_raw_bytes v = \<lparr>cs_algorithm = CHECKSUM_ALGORITHM_BLAKE3, cs_value = v\<rparr>"

definition checksum_value :: "Checksum \<Rightarrow> CborValue" where
  "checksum_value c =
     CMap [text_pair ''algorithm'' (Text (cs_algorithm c)), text_pair ''value'' (Bytes (cs_value c))]"

definition required_checksum :: "entries \<Rightarrow> string \<Rightarrow> QztError \<Rightarrow> Checksum result" where
  "required_checksum es key err =
     rbind (required_map es key err) (\<lambda>checksum.
     rbind (reject_unknown_keys checksum [''algorithm'', ''value''] err) (\<lambda>_.
     rbind (required_text checksum ''algorithm'' err) (\<lambda>algorithm.
     if algorithm \<noteq> CHECKSUM_ALGORITHM_BLAKE3 then Err err
     else rbind (required_bstr32 checksum ''value'' err) (\<lambda>v. Ok (Checksum_from_raw_bytes v)))))"

definition optional_checksum :: "entries \<Rightarrow> string \<Rightarrow> QztError \<Rightarrow> Checksum option result" where
  "optional_checksum es key err =
     (if \<not> (\<exists>e \<in> set es. fst e = Text key) then Ok None
      else rbind (required_checksum es key err) (\<lambda>c. Ok (Some c)))"

record BlockRef =
  br_offset :: u64
  br_size :: u64
  br_checksum :: Checksum

definition block_ref_value :: "BlockRef \<Rightarrow> CborValue" where
  "block_ref_value block =
     CMap [text_pair ''offset'' (u64_value (br_offset block)),
           text_pair ''size'' (u64_value (br_size block)),
           text_pair ''checksum'' (checksum_value (br_checksum block))]"

definition required_block_ref :: "entries \<Rightarrow> string \<Rightarrow> QztError \<Rightarrow> BlockRef result" where
  "required_block_ref es key err =
     rbind (required_map es key err) (\<lambda>block.
     rbind (reject_unknown_keys block [''offset'', ''size'', ''checksum''] err) (\<lambda>_.
     rbind (required_u64 block ''offset'' err) (\<lambda>off.
     rbind (required_u64 block ''size'' err) (\<lambda>sz.
     rbind (required_checksum block ''checksum'' err) (\<lambda>c.
     Ok \<lparr>br_offset = off, br_size = sz, br_checksum = c\<rparr>)))))"

section \<open>Footer payload\<close>

record FooterPayload =
  fp_container_id :: bytes
  fp_index_root :: BlockRef
  fp_metadata :: BlockRef
  fp_final_file_size :: u64
  fp_footer_flags :: u64
  fp_container_checksum :: "Checksum option"

definition footer_value :: "FooterPayload \<Rightarrow> CborValue" where
  "footer_value self =
     CMap ([text_pair ''schema'' (Text SCHEMA_FOOTER),
            text_pair ''format_version'' version_value,
            text_pair ''container_id'' (Bytes (fp_container_id self)),
            text_pair ''index_root'' (block_ref_value (fp_index_root self)),
            text_pair ''metadata'' (block_ref_value (fp_metadata self)),
            text_pair ''final_file_size'' (u64_value (fp_final_file_size self)),
            text_pair ''footer_flags'' (u64_value (fp_footer_flags self))] @
           (case fp_container_checksum self of
              None \<Rightarrow> [] | Some c \<Rightarrow> [text_pair ''container_checksum'' (checksum_value c)]))"

definition FooterPayload_encode :: "FooterPayload \<Rightarrow> bytes result" where
  "FooterPayload_encode self = encode_deterministic (footer_value self)"

definition FooterPayload_decode :: "bytes \<Rightarrow> FooterPayload result" where
  "FooterPayload_decode bs =
     rbind (decode_prologue bs
       [''schema'', ''format_version'', ''container_id'', ''index_root'', ''metadata'', ''final_file_size'',
        ''footer_flags'', ''created_at_unix_ms'', ''writer'', ''container_checksum'']
       SCHEMA_FOOTER InvalidFooterPayload) (\<lambda>v.
     rbind (as_map v InvalidFooterPayload) (\<lambda>es.
     rbind (required_u64 es ''footer_flags'' InvalidFooterPayload) (\<lambda>ff.
     if ff \<noteq> 0 then Err InvalidFlags
     else
       rbind (required_bstr16 es ''container_id'' InvalidFooterPayload) (\<lambda>cid.
       rbind (required_block_ref es ''index_root'' InvalidFooterPayload) (\<lambda>ir.
       rbind (required_block_ref es ''metadata'' InvalidFooterPayload) (\<lambda>md.
       rbind (required_u64 es ''final_file_size'' InvalidFooterPayload) (\<lambda>ffs.
       rbind (optional_checksum es ''container_checksum'' InvalidFooterPayload) (\<lambda>cc.
       Ok \<lparr>fp_container_id = cid, fp_index_root = ir, fp_metadata = md, fp_final_file_size = ffs,
           fp_footer_flags = ff, fp_container_checksum = cc\<rparr>))))))))"

section \<open>Metadata\<close>

record Metadata =
  md_container_id :: bytes
  md_original_size :: u64
  md_original_checksum :: Checksum
  md_newline_mode :: string
  md_line_count :: u64
  md_zstd_level :: i32
  md_target_chunk_size :: u64
  md_max_chunk_size :: u64
  md_dictionary_mode :: string
  md_profile :: string
  md_dense_line_index :: bool
  md_document_index :: bool

record MetadataOptions =
  mo_zstd_level :: i32
  mo_target_chunk_size :: u64
  mo_max_chunk_size :: u64
  mo_dictionary_mode :: string
  mo_profile :: string
  mo_dense_line_index :: bool
  mo_document_index :: bool

definition MetadataOptions_default :: MetadataOptions where
  "MetadataOptions_default =
     \<lparr>mo_zstd_level = 0, mo_target_chunk_size = 4 * 1024 * 1024, mo_max_chunk_size = 16 * 1024 * 1024,
      mo_dictionary_mode = ''none'', mo_profile = ''core'', mo_dense_line_index = False,
      mo_document_index = False\<rparr>"

definition Metadata_for_source_with_options ::
  "bytes \<Rightarrow> u64 \<Rightarrow> Checksum \<Rightarrow> string \<Rightarrow> u64 \<Rightarrow> MetadataOptions \<Rightarrow> Metadata"
where
  "Metadata_for_source_with_options cid original_size original_checksum newline_mode lines options =
     \<lparr>md_container_id = cid, md_original_size = original_size, md_original_checksum = original_checksum,
      md_newline_mode = newline_mode, md_line_count = lines, md_zstd_level = mo_zstd_level options,
      md_target_chunk_size = mo_target_chunk_size options, md_max_chunk_size = mo_max_chunk_size options,
      md_dictionary_mode = mo_dictionary_mode options, md_profile = mo_profile options,
      md_dense_line_index = mo_dense_line_index options, md_document_index = mo_document_index options\<rparr>"

definition Metadata_for_source :: "bytes \<Rightarrow> u64 \<Rightarrow> Checksum \<Rightarrow> string \<Rightarrow> u64 \<Rightarrow> Metadata" where
  "Metadata_for_source cid original_size original_checksum newline_mode lines =
     Metadata_for_source_with_options cid original_size original_checksum newline_mode lines MetadataOptions_default"

definition Metadata_empty :: "('h, 'x) ext_scheme \<Rightarrow> bytes \<Rightarrow> Metadata" where
  "Metadata_empty X cid =
     Metadata_for_source_with_options cid 0 (Checksum_blake3 X []) ''none'' 0 MetadataOptions_default"

definition metadata_value :: "Metadata \<Rightarrow> CborValue" where
  "metadata_value self =
     CMap [text_pair ''schema'' (Text SCHEMA_METADATA),
       text_pair ''format'' (Text ''qzt''),
       text_pair ''format_version'' version_value,
       text_pair ''container_id'' (Bytes (md_container_id self)),
       text_pair ''identity'' (CMap
         [text_pair ''name'' CNull,
          text_pair ''profile'' (Text (md_profile self)),
          text_pair ''created_by'' (Text ''qzt''),
          text_pair ''created_at_unix_ms'' CNull]),
       text_pair ''source'' (CMap
         [text_pair ''media_type'' (Text ''text''),
          text_pair ''encoding'' (Text ''utf-8''),
          text_pair ''original_size'' (u64_value (md_original_size self)),
          text_pair ''original_checksum'' (checksum_value (md_original_checksum self)),
          text_pair ''newline_mode'' (Text (md_newline_mode self)),
          text_pair ''line_count'' (u64_value (md_line_count self))]),
       text_pair ''compression'' (CMap
         [text_pair ''codec'' (Text ''zstd''),
          text_pair ''zstd_level'' (Integer (md_zstd_level self)),
          text_pair ''independent_frames'' (CBool True),
          text_pair ''zstd_frame_checksum'' (CBool False),
          text_pair ''dictionary_mode'' (Text (md_dictionary_mode self))]),
       text_pair ''chunking'' (CMap
         [text_pair ''target_chunk_size'' (u64_value (md_target_chunk_size self)),
          text_pair ''max_chunk_size'' (u64_value (md_max_chunk_size self)),
          text_pair ''boundary'' (Text ''line-preferred''),
          text_pair ''utf8_boundary_required'' (CBool True)]),
       text_pair ''indexes'' (CMap
         [text_pair ''chunk_table'' (CBool True),
          text_pair ''sparse_line_index'' (CBool True),
          text_pair ''dense_line_index'' (CBool (md_dense_line_index self)),
          text_pair ''document_index'' (CBool (md_document_index self)),
          text_pair ''token_index'' (CBool False),
          text_pair ''ngram_index'' (CBool False),
          text_pair ''vector_index'' (CBool False)]),
       text_pair ''integrity'' (CMap
         [text_pair ''compressed_chunk_checksum'' (Text CHECKSUM_ALGORITHM_BLAKE3),
          text_pair ''uncompressed_chunk_checksum'' (Text CHECKSUM_ALGORITHM_BLAKE3),
          text_pair ''index_checksum'' (Text CHECKSUM_ALGORITHM_BLAKE3)]),
       text_pair ''compatibility'' (CMap
         [text_pair ''qzt_is_zst_stream'' (CBool False),
          text_pair ''chunks_are_independent_zstd_frames'' (CBool True)])]"

definition Metadata_encode :: "Metadata \<Rightarrow> bytes result" where
  "Metadata_encode self = encode_deterministic (metadata_value self)"

text \<open>The checks and fields of each section of the metadata map, in the order of the source.\<close>

definition metadata_check_identity :: "entries \<Rightarrow> unit result" where
  "metadata_check_identity identity =
     reject_unknown_keys identity [''name'', ''profile'', ''created_by'', ''created_at_unix_ms''] MetadataInvalid"

definition metadata_check_source :: "entries \<Rightarrow> unit result" where
  "metadata_check_source source =
     rbind (reject_unknown_keys source
       [''media_type'', ''encoding'', ''original_size'', ''original_checksum'', ''newline_mode'', ''line_count'']
       MetadataInvalid) (\<lambda>_.
     rbind (expect_text_field source ''media_type'' ''text'' MetadataInvalid) (\<lambda>_.
     expect_text_field source ''encoding'' ''utf-8'' MetadataInvalid))"

definition metadata_check_compression :: "entries \<Rightarrow> unit result" where
  "metadata_check_compression compression =
     rbind (reject_unknown_keys compression
       [''codec'', ''zstd_level'', ''independent_frames'', ''zstd_frame_checksum'', ''dictionary_mode'']
       MetadataInvalid) (\<lambda>_.
     rbind (expect_text_field compression ''codec'' ''zstd'' MetadataInvalid) (\<lambda>_.
     rbind (expect_bool_field compression ''independent_frames'' True MetadataInvalid) (\<lambda>_.
     expect_bool_field compression ''zstd_frame_checksum'' False MetadataInvalid)))"

definition metadata_check_chunking :: "entries \<Rightarrow> unit result" where
  "metadata_check_chunking chunking =
     rbind (reject_unknown_keys chunking
       [''target_chunk_size'', ''max_chunk_size'', ''boundary'', ''utf8_boundary_required'']
       MetadataInvalid) (\<lambda>_.
     rbind (expect_bool_field chunking ''utf8_boundary_required'' True MetadataInvalid) (\<lambda>_.
     expect_text_field chunking ''boundary'' ''line-preferred'' MetadataInvalid))"

definition metadata_check_indexes :: "entries \<Rightarrow> unit result" where
  "metadata_check_indexes indexes =
     rbind (reject_unknown_keys indexes
       [''chunk_table'', ''sparse_line_index'', ''dense_line_index'', ''document_index'', ''token_index'',
        ''ngram_index'', ''vector_index''] MetadataInvalid) (\<lambda>_.
     rbind (expect_bool_field indexes ''chunk_table'' True MetadataInvalid) (\<lambda>_.
     rbind (expect_bool_field indexes ''sparse_line_index'' True MetadataInvalid) (\<lambda>_.
     rbind (expect_bool_field indexes ''token_index'' False MetadataInvalid) (\<lambda>_.
     rbind (expect_bool_field indexes ''ngram_index'' False MetadataInvalid) (\<lambda>_.
     expect_bool_field indexes ''vector_index'' False MetadataInvalid)))))"

definition metadata_check_integrity :: "entries \<Rightarrow> unit result" where
  "metadata_check_integrity integrity =
     rbind (reject_unknown_keys integrity
       [''compressed_chunk_checksum'', ''uncompressed_chunk_checksum'', ''index_checksum'']
       MetadataInvalid) (\<lambda>_.
     rbind (expect_text_field integrity ''compressed_chunk_checksum'' CHECKSUM_ALGORITHM_BLAKE3 MetadataInvalid) (\<lambda>_.
     rbind (expect_text_field integrity ''uncompressed_chunk_checksum'' CHECKSUM_ALGORITHM_BLAKE3 MetadataInvalid) (\<lambda>_.
     expect_text_field integrity ''index_checksum'' CHECKSUM_ALGORITHM_BLAKE3 MetadataInvalid)))"

definition metadata_check_compatibility :: "entries \<Rightarrow> unit result" where
  "metadata_check_compatibility compatibility =
     rbind (reject_unknown_keys compatibility
       [''qzt_is_zst_stream'', ''chunks_are_independent_zstd_frames''] MetadataInvalid) (\<lambda>_.
     rbind (expect_bool_field compatibility ''qzt_is_zst_stream'' False MetadataInvalid) (\<lambda>_.
     expect_bool_field compatibility ''chunks_are_independent_zstd_frames'' True MetadataInvalid))"

definition Metadata_decode :: "bytes \<Rightarrow> Metadata result" where
  "Metadata_decode bs =
     rbind (decode_prologue bs
       [''schema'', ''format'', ''format_version'', ''container_id'', ''identity'', ''source'', ''compression'',
        ''chunking'', ''indexes'', ''integrity'', ''compatibility'']
       SCHEMA_METADATA MetadataInvalid) (\<lambda>v.
     rbind (as_map v MetadataInvalid) (\<lambda>es.
     rbind (expect_text_field es ''format'' ''qzt'' MetadataInvalid) (\<lambda>_.
     rbind (required_map es ''identity'' MetadataInvalid) (\<lambda>identity.
     rbind (metadata_check_identity identity) (\<lambda>_.
     rbind (required_map es ''source'' MetadataInvalid) (\<lambda>source.
     rbind (metadata_check_source source) (\<lambda>_.
     rbind (required_map es ''compression'' MetadataInvalid) (\<lambda>compression.
     rbind (metadata_check_compression compression) (\<lambda>_.
     rbind (required_map es ''chunking'' MetadataInvalid) (\<lambda>chunking.
     rbind (metadata_check_chunking chunking) (\<lambda>_.
     rbind (required_map es ''indexes'' MetadataInvalid) (\<lambda>indexes.
     rbind (metadata_check_indexes indexes) (\<lambda>_.
     rbind (required_map es ''integrity'' MetadataInvalid) (\<lambda>integrity.
     rbind (metadata_check_integrity integrity) (\<lambda>_.
     rbind (required_map es ''compatibility'' MetadataInvalid) (\<lambda>compatibility.
     rbind (metadata_check_compatibility compatibility) (\<lambda>_.
     rbind (required_text source ''newline_mode'' MetadataInvalid) (\<lambda>newline_mode.
     if newline_mode \<notin> {''none'', ''lf'', ''crlf'', ''mixed''} then Err MetadataInvalid else
     rbind (required_text compression ''dictionary_mode'' MetadataInvalid) (\<lambda>dictionary_mode.
     if dictionary_mode \<notin> {''none'', ''embedded''} then Err MetadataInvalid else
     rbind (required_text identity ''profile'' MetadataInvalid) (\<lambda>profile.
     if profile \<notin> {''minimal'', ''core'', ''log'', ''archive'', ''memory''} then Err MetadataInvalid else
     rbind (required_i32 compression ''zstd_level'' MetadataInvalid) (\<lambda>zstd_level.
     rbind (required_u64 chunking ''target_chunk_size'' MetadataInvalid) (\<lambda>target.
     rbind (required_u64 chunking ''max_chunk_size'' MetadataInvalid) (\<lambda>maxsz.
     if target = 0 \<or> maxsz = 0 \<or> target > maxsz then Err MetadataInvalid else
     rbind (required_bstr16 es ''container_id'' MetadataInvalid) (\<lambda>cid.
     rbind (required_u64 source ''original_size'' MetadataInvalid) (\<lambda>original_size.
     rbind (required_checksum source ''original_checksum'' MetadataInvalid) (\<lambda>original_checksum.
     rbind (required_u64 source ''line_count'' MetadataInvalid) (\<lambda>lines.
     rbind (required_bool indexes ''dense_line_index'' MetadataInvalid) (\<lambda>dense.
     rbind (required_bool indexes ''document_index'' MetadataInvalid) (\<lambda>docs.
     Ok \<lparr>md_container_id = cid, md_original_size = original_size, md_original_checksum = original_checksum,
         md_newline_mode = newline_mode, md_line_count = lines, md_zstd_level = zstd_level,
         md_target_chunk_size = target, md_max_chunk_size = maxsz, md_dictionary_mode = dictionary_mode,
         md_profile = profile, md_dense_line_index = dense, md_document_index = docs\<rparr>
     )))))))))))))))))))))))))))))"

section \<open>Index root\<close>

record BlockDescriptor =
  bd_block_type :: string
  bd_required :: bool
  bd_offset :: u64
  bd_size :: u64
  bd_codec :: string
  bd_checksum :: Checksum
  bd_flags :: u64

definition BlockDescriptor_new ::
  "string \<Rightarrow> bool \<Rightarrow> string \<Rightarrow> u64 \<Rightarrow> u64 \<Rightarrow> Checksum \<Rightarrow> BlockDescriptor"
where
  "BlockDescriptor_new block_type required codec off sz c =
     \<lparr>bd_block_type = block_type, bd_required = required, bd_offset = off, bd_size = sz,
      bd_codec = codec, bd_checksum = c, bd_flags = 0\<rparr>"

definition BlockDescriptor_chunk_table :: "u64 \<Rightarrow> u64 \<Rightarrow> Checksum \<Rightarrow> BlockDescriptor" where
  "BlockDescriptor_chunk_table off sz c =
     BlockDescriptor_new CHUNK_TABLE_TYPE True CHUNK_TABLE_CODEC off sz c"

definition BlockDescriptor_dictionary :: "u64 \<Rightarrow> u64 \<Rightarrow> Checksum \<Rightarrow> BlockDescriptor" where
  "BlockDescriptor_dictionary off sz c =
     BlockDescriptor_new DICTIONARY_TYPE False DICTIONARY_CODEC off sz c"

definition BlockDescriptor_dense_line_index :: "u64 \<Rightarrow> u64 \<Rightarrow> Checksum \<Rightarrow> BlockDescriptor" where
  "BlockDescriptor_dense_line_index off sz c =
     BlockDescriptor_new DENSE_LINE_INDEX_TYPE False DENSE_LINE_INDEX_CODEC off sz c"

definition BlockDescriptor_document_index :: "u64 \<Rightarrow> u64 \<Rightarrow> Checksum \<Rightarrow> BlockDescriptor" where
  "BlockDescriptor_document_index off sz c =
     BlockDescriptor_new DOCUMENT_INDEX_TYPE False DOCUMENT_INDEX_CODEC off sz c"

definition block_descriptor_value :: "BlockDescriptor \<Rightarrow> CborValue" where
  "block_descriptor_value block =
     CMap [text_pair ''type'' (Text (bd_block_type block)),
           text_pair ''required'' (CBool (bd_required block)),
           text_pair ''offset'' (u64_value (bd_offset block)),
           text_pair ''size'' (u64_value (bd_size block)),
           text_pair ''codec'' (Text (bd_codec block)),
           text_pair ''checksum'' (checksum_value (bd_checksum block)),
           text_pair ''flags'' (u64_value (bd_flags block))]"

definition decode_block_descriptor :: "CborValue \<Rightarrow> BlockDescriptor result" where
  "decode_block_descriptor v =
     rbind (as_map v ContainerCorrupt) (\<lambda>es.
     rbind (reject_unknown_keys es
       [''type'', ''required'', ''offset'', ''size'', ''codec'', ''checksum'', ''flags''] ContainerCorrupt) (\<lambda>_.
     rbind (required_text es ''type'' ContainerCorrupt) (\<lambda>block_type.
     rbind (required_bool es ''required'' ContainerCorrupt) (\<lambda>required.
     rbind (required_u64 es ''flags'' ContainerCorrupt) (\<lambda>fl.
     if fl \<noteq> 0 then Err InvalidFlags
     else if required \<and> block_type \<noteq> CHUNK_TABLE_TYPE then Err UnknownRequiredBlock
     else
       rbind (required_u64 es ''offset'' ContainerCorrupt) (\<lambda>off.
       rbind (required_u64 es ''size'' ContainerCorrupt) (\<lambda>sz.
       rbind (required_text es ''codec'' ContainerCorrupt) (\<lambda>codec.
       rbind (required_checksum es ''checksum'' ContainerCorrupt) (\<lambda>c.
       Ok \<lparr>bd_block_type = block_type, bd_required = required, bd_offset = off, bd_size = sz,
           bd_codec = codec, bd_checksum = c, bd_flags = fl\<rparr>)))))))))"

record IndexRoot =
  ir_container_id :: bytes
  ir_blocks :: "BlockDescriptor list"
  ir_original_size :: u64
  ir_original_checksum :: Checksum
  ir_chunk_count :: u64
  ir_line_count :: u64

definition index_root_value :: "IndexRoot \<Rightarrow> CborValue" where
  "index_root_value self =
     CMap [text_pair ''schema'' (Text SCHEMA_INDEX_ROOT),
           text_pair ''format_version'' version_value,
           text_pair ''container_id'' (Bytes (ir_container_id self)),
           text_pair ''blocks'' (Array (map block_descriptor_value (ir_blocks self))),
           text_pair ''content'' (CMap
             [text_pair ''original_size'' (u64_value (ir_original_size self)),
              text_pair ''original_checksum'' (checksum_value (ir_original_checksum self)),
              text_pair ''chunk_count'' (u64_value (ir_chunk_count self)),
              text_pair ''line_count'' (u64_value (ir_line_count self))])]"

definition IndexRoot_encode :: "IndexRoot \<Rightarrow> bytes result" where
  "IndexRoot_encode self = encode_deterministic (index_root_value self)"

definition is_required_chunk_table :: "BlockDescriptor \<Rightarrow> bool" where
  "is_required_chunk_table block \<longleftrightarrow> bd_required block \<and> bd_block_type block = CHUNK_TABLE_TYPE"

definition IndexRoot_decode :: "bytes \<Rightarrow> IndexRoot result" where
  "IndexRoot_decode bs =
     rbind (decode_prologue bs [''schema'', ''format_version'', ''container_id'', ''blocks'', ''content'']
       SCHEMA_INDEX_ROOT ContainerCorrupt) (\<lambda>v.
     rbind (as_map v ContainerCorrupt) (\<lambda>es.
     rbind (required_array es ''blocks'' ContainerCorrupt) (\<lambda>vs.
     rbind (rmap decode_block_descriptor vs) (\<lambda>blocks.
     let required_chunk_tables = length (filter is_required_chunk_table blocks) in
     if required_chunk_tables = 0 then Err MissingRequiredBlock
     else if required_chunk_tables \<noteq> 1 then Err ContainerCorrupt
     else
       rbind (required_map es ''content'' ContainerCorrupt) (\<lambda>content.
       rbind (reject_unknown_keys content
         [''original_size'', ''original_checksum'', ''chunk_count'', ''line_count''] ContainerCorrupt) (\<lambda>_.
       rbind (required_bstr16 es ''container_id'' ContainerCorrupt) (\<lambda>cid.
       rbind (required_u64 content ''original_size'' ContainerCorrupt) (\<lambda>original_size.
       rbind (required_checksum content ''original_checksum'' ContainerCorrupt) (\<lambda>original_checksum.
       rbind (required_u64 content ''chunk_count'' ContainerCorrupt) (\<lambda>chunks.
       rbind (required_u64 content ''line_count'' ContainerCorrupt) (\<lambda>lines.
       Ok \<lparr>ir_container_id = cid, ir_blocks = blocks, ir_original_size = original_size,
           ir_original_checksum = original_checksum, ir_chunk_count = chunks, ir_line_count = lines\<rparr>)))))))))))"

definition chunk_table_block :: "IndexRoot \<Rightarrow> BlockDescriptor result" where
  "chunk_table_block self = ok_or (find is_required_chunk_table (ir_blocks self)) MissingRequiredBlock"

definition validate_source_consistency :: "Metadata \<Rightarrow> IndexRoot \<Rightarrow> unit result" where
  "validate_source_consistency metadata index_root =
     (if md_container_id metadata \<noteq> ir_container_id index_root then Err ContainerIdMismatch
      else if md_original_size metadata \<noteq> ir_original_size index_root \<or>
              md_original_checksum metadata \<noteq> ir_original_checksum index_root \<or>
              md_line_count metadata \<noteq> ir_line_count index_root
      then Err MetadataInvalid else Ok ())"

section \<open>Dictionary block\<close>

record DictionaryEntry =
  de_dictionary_id :: u32
  de_codec :: string
  de_bytes :: bytes
  de_checksum :: Checksum

record DictionaryBlock =
  db_container_id :: bytes
  db_dictionaries :: "DictionaryEntry list"

definition dictionary_entry_value :: "DictionaryEntry \<Rightarrow> CborValue" where
  "dictionary_entry_value entry =
     CMap [text_pair ''dictionary_id'' (Integer (int (de_dictionary_id entry))),
           text_pair ''codec'' (Text (de_codec entry)),
           text_pair ''bytes'' (Bytes (de_bytes entry)),
           text_pair ''checksum'' (checksum_value (de_checksum entry))]"

definition dictionary_block_value :: "DictionaryBlock \<Rightarrow> CborValue" where
  "dictionary_block_value self =
     CMap [text_pair ''schema'' (Text SCHEMA_DICTIONARY),
           text_pair ''format_version'' version_value,
           text_pair ''container_id'' (Bytes (db_container_id self)),
           text_pair ''dictionaries'' (Array (map dictionary_entry_value (db_dictionaries self)))]"

definition DictionaryBlock_encode :: "DictionaryBlock \<Rightarrow> bytes result" where
  "DictionaryBlock_encode self = encode_deterministic (dictionary_block_value self)"

definition decode_dictionary_entry ::
  "('h, 'x) ext_scheme \<Rightarrow> CborValue \<Rightarrow> u64 \<Rightarrow> DictionaryEntry result"
where
  "decode_dictionary_entry X v max_size =
     rbind (as_map v ContainerCorrupt) (\<lambda>es.
     rbind (reject_unknown_keys es [''dictionary_id'', ''codec'', ''bytes'', ''checksum''] ContainerCorrupt) (\<lambda>_.
     rbind (required_u64 es ''dictionary_id'' ContainerCorrupt) (\<lambda>n.
     if n \<ge> u32_end then Err ContainerCorrupt
     else if n = 0 then Err ContainerCorrupt
     else
       rbind (required_text es ''codec'' ContainerCorrupt) (\<lambda>codec.
       if codec \<noteq> ''zstd'' then Err ContainerCorrupt
       else
         rbind (required_bytes es ''bytes'' ContainerCorrupt) (\<lambda>bs.
         rbind (usize_to_u64 (length bs)) (\<lambda>len.
         if len > max_size then Err ResourceLimitExceeded
         else
           rbind (required_checksum es ''checksum'' ContainerCorrupt) (\<lambda>c.
           if Checksum_blake3 X bs \<noteq> c then Err DictionaryChecksumMismatch
           else Ok \<lparr>de_dictionary_id = n, de_codec = codec, de_bytes = bs, de_checksum = c\<rparr>)))))))"

definition decode_dictionary_step ::
  "('h, 'x) ext_scheme \<Rightarrow> u64 \<Rightarrow> DictionaryEntry list \<times> u32 set \<Rightarrow> CborValue
     \<Rightarrow> (DictionaryEntry list \<times> u32 set) result"
where
  "decode_dictionary_step X max_size st v =
     (case st of (decoded, seen) \<Rightarrow>
       rbind (decode_dictionary_entry X v max_size) (\<lambda>entry.
       if de_dictionary_id entry \<in> seen then Err ContainerCorrupt
       else Ok (decoded @ [entry], insert (de_dictionary_id entry) seen)))"

definition DictionaryBlock_decode_with_limits ::
  "('h, 'x) ext_scheme \<Rightarrow> bytes \<Rightarrow> u64 \<Rightarrow> DictionaryBlock result"
where
  "DictionaryBlock_decode_with_limits X bs max_size =
     rbind (decode_prologue bs [''schema'', ''format_version'', ''container_id'', ''dictionaries'']
       SCHEMA_DICTIONARY ContainerCorrupt) (\<lambda>v.
     rbind (as_map v ContainerCorrupt) (\<lambda>es.
     rbind (required_array es ''dictionaries'' ContainerCorrupt) (\<lambda>vs.
     rbind (rfold (decode_dictionary_step X max_size) ([], {}) vs) (\<lambda>(decoded, _).
     rbind (required_bstr16 es ''container_id'' ContainerCorrupt) (\<lambda>cid.
     Ok \<lparr>db_container_id = cid, db_dictionaries = decoded\<rparr>)))))"

section \<open>Document index\<close>

record DocumentEntry =
  doc_id :: string
  doc_id_hash :: bytes
  doc_logical_offset :: u64
  doc_byte_length :: u64
  doc_first_line :: u64
  doc_line_count :: u64
  doc_chunk_start :: u64
  doc_chunk_end :: u64
  doc_checksum :: Checksum

record DocumentIndex =
  di_container_id :: bytes
  di_documents :: "DocumentEntry list"

definition DocumentEntry_new ::
  "('h, 'x) ext_scheme \<Rightarrow> string \<Rightarrow> u64 \<Rightarrow> u64 \<Rightarrow> u64 \<Rightarrow> u64 \<Rightarrow> u64 \<Rightarrow> u64 \<Rightarrow> Checksum \<Rightarrow> DocumentEntry"
where
  "DocumentEntry_new X did off len fl lc cs ce c =
     \<lparr>doc_id = did, doc_id_hash = take 16 (blake3_hash X (as_bytes did)), doc_logical_offset = off,
      doc_byte_length = len, doc_first_line = fl, doc_line_count = lc, doc_chunk_start = cs,
      doc_chunk_end = ce, doc_checksum = c\<rparr>"

definition document_entry_value :: "DocumentEntry \<Rightarrow> CborValue" where
  "document_entry_value entry =
     CMap [text_pair ''doc_id'' (Text (doc_id entry)),
           text_pair ''doc_id_hash'' (Bytes (doc_id_hash entry)),
           text_pair ''logical_offset'' (u64_value (doc_logical_offset entry)),
           text_pair ''byte_length'' (u64_value (doc_byte_length entry)),
           text_pair ''first_line'' (u64_value (doc_first_line entry)),
           text_pair ''line_count'' (u64_value (doc_line_count entry)),
           text_pair ''chunk_start'' (u64_value (doc_chunk_start entry)),
           text_pair ''chunk_end'' (u64_value (doc_chunk_end entry)),
           text_pair ''checksum'' (checksum_value (doc_checksum entry)),
           text_pair ''metadata'' (CMap [])]"

definition decode_document_entry :: "CborValue \<Rightarrow> DocumentEntry result" where
  "decode_document_entry v =
     rbind (as_map v ContainerCorrupt) (\<lambda>es.
     rbind (reject_unknown_keys es
       [''doc_id'', ''doc_id_hash'', ''logical_offset'', ''byte_length'', ''first_line'', ''line_count'',
        ''chunk_start'', ''chunk_end'', ''checksum'', ''metadata''] ContainerCorrupt) (\<lambda>_.
     rbind (required_map es ''metadata'' ContainerCorrupt) (\<lambda>_.
     rbind (required_text es ''doc_id'' ContainerCorrupt) (\<lambda>did.
     rbind (required_bstr16 es ''doc_id_hash'' ContainerCorrupt) (\<lambda>hash.
     rbind (required_u64 es ''logical_offset'' ContainerCorrupt) (\<lambda>off.
     rbind (required_u64 es ''byte_length'' ContainerCorrupt) (\<lambda>len.
     rbind (required_u64 es ''first_line'' ContainerCorrupt) (\<lambda>fl.
     rbind (required_u64 es ''line_count'' ContainerCorrupt) (\<lambda>lc.
     rbind (required_u64 es ''chunk_start'' ContainerCorrupt) (\<lambda>cs.
     rbind (required_u64 es ''chunk_end'' ContainerCorrupt) (\<lambda>ce.
     rbind (required_checksum es ''checksum'' ContainerCorrupt) (\<lambda>c.
     Ok \<lparr>doc_id = did, doc_id_hash = hash, doc_logical_offset = off, doc_byte_length = len,
         doc_first_line = fl, doc_line_count = lc, doc_chunk_start = cs, doc_chunk_end = ce,
         doc_checksum = c\<rparr>))))))))))))"

definition value_with_documents :: "DocumentIndex \<Rightarrow> CborValue list \<Rightarrow> CborValue" where
  "value_with_documents self documents =
     CMap [text_pair ''schema'' (Text SCHEMA_DOCUMENT_INDEX),
           text_pair ''format_version'' version_value,
           text_pair ''container_id'' (Bytes (di_container_id self)),
           text_pair ''documents'' (Array documents)]"

fun any_repeated :: "string set \<Rightarrow> string list \<Rightarrow> bool" where
  "any_repeated seen [] = False"
| "any_repeated seen (d # ds) = (if d \<in> seen then True else any_repeated (insert d seen) ds)"

definition validate_unique_doc_ids :: "DocumentIndex \<Rightarrow> unit result" where
  "validate_unique_doc_ids self =
     (if any_repeated {} (map doc_id (di_documents self)) then Err DuplicateDocumentId else Ok ())"

definition DocumentIndex_encode :: "DocumentIndex \<Rightarrow> bytes result" where
  "DocumentIndex_encode self =
     rbind (validate_unique_doc_ids self) (\<lambda>_.
     encode_deterministic (value_with_documents self (map document_entry_value (di_documents self))))"

definition DocumentIndex_decode :: "bytes \<Rightarrow> DocumentIndex result" where
  "DocumentIndex_decode bs =
     rbind (decode_prologue bs [''schema'', ''format_version'', ''container_id'', ''documents'']
       SCHEMA_DOCUMENT_INDEX ContainerCorrupt) (\<lambda>v.
     rbind (as_map v ContainerCorrupt) (\<lambda>es.
     rbind (required_array es ''documents'' ContainerCorrupt) (\<lambda>vs.
     rbind (rmap decode_document_entry vs) (\<lambda>documents.
     rbind (required_bstr16 es ''container_id'' ContainerCorrupt) (\<lambda>cid.
     let index = \<lparr>di_container_id = cid, di_documents = documents\<rparr> in
     rbind (map_err (\<lambda>_. ContainerCorrupt) (validate_unique_doc_ids index)) (\<lambda>_.
     Ok index))))))"

definition preflight_document_ids ::
  "('h, 'x) ext_scheme \<Rightarrow> string list \<Rightarrow> ResourceLimits \<Rightarrow> unit result"
where
  "preflight_document_ids X ids limits =
     rbind (usize_to_u64 (length ids)) (\<lambda>n.
     rbind (measure_value (value_with_documents
        \<lparr>di_container_id = replicate 16 0, di_documents = []\<rparr> [])) (\<lambda>base.
     rbind (measure_value (document_entry_value
        (DocumentEntry_new X [] 0 0 0 0 0 0 (Checksum_blake3 X [])))) (\<lambda>per_document.
     rbind (ok_or (Option.bind (checked_mul (usage_items per_document) n)
              (\<lambda>k. checked_add k (usage_items base))) ResourceLimitExceeded) (\<lambda>items.
     if items > max_cbor_items limits then Err ResourceLimitExceeded
     else
       rbind (ok_or (Option.bind (checked_mul (usage_allocation per_document) n)
                (\<lambda>k. checked_add k (usage_allocation base))) ResourceLimitExceeded) (\<lambda>fixed_allocation.
       rbind (rfold (\<lambda>allocation did.
           rbind (usize_to_u64 (length did)) (\<lambda>len.
           rbind (ok_or (checked_add allocation len) ResourceLimitExceeded) (\<lambda>allocation.
           if allocation > max_cbor_allocation limits then Err ResourceLimitExceeded else Ok allocation)))
         fixed_allocation ids) (\<lambda>_.
       Ok ()))))))"

definition validate_for_writer :: "DocumentIndex \<Rightarrow> ResourceLimits \<Rightarrow> unit result" where
  "validate_for_writer self limits =
     (let climits = \<lparr>max_allocation = max_cbor_allocation limits, max_items = max_cbor_items limits\<rparr> in
      rbind (usize_to_u64 (length (di_documents self))) (\<lambda>n.
      if n > max_cbor_items limits then Err ResourceLimitExceeded
      else
        rbind (measure_value (value_with_documents self [])) (\<lambda>usage.
        rbind (ok_or (checked_add (usage_encoded_bytes usage) (head_len n - head_len 0))
                 ResourceLimitExceeded) (\<lambda>encoded.
        let usage = usage\<lparr>usage_encoded_bytes := encoded\<rparr> in
        rbind (CborUsage_enforce usage climits (max_index_block_size limits)) (\<lambda>_.
        rbind (rfold (\<lambda>usage document.
            rbind (usize_to_u64 (length (doc_id document))) (\<lambda>len.
            if len > max_cbor_allocation limits - usage_allocation usage then Err ResourceLimitExceeded
            else
              rbind (measure_value (document_entry_value document)) (\<lambda>u.
              rbind (CborUsage_add usage u) (\<lambda>usage.
              rbind (CborUsage_enforce usage climits (max_index_block_size limits)) (\<lambda>_.
              Ok usage)))))
          usage (di_documents self)) (\<lambda>_.
        Ok ()))))))"

end
