(* ===== verification/Schema_Correct.thy ===== *)
theory Schema_Correct
  imports Schema
begin

text \<open>
  Correctness of the schema blocks: what an encoder writes, its decoder reads back. The
  parser returns a map with its entries in canonical order; the accessors find the same
  fields there, because the keys of a block are distinct texts.
\<close>

declare enc_Ok [simp del]

section \<open>ASCII literals\<close>

definition ascii :: "string \<Rightarrow> bool" where
  "ascii s \<longleftrightarrow> (\<forall>c \<in> set s. \<not> digit7 c)"

lemma ascii_simps [simp]: "ascii []" "ascii (c # s) \<longleftrightarrow> \<not> digit7 c \<and> ascii s"
  by (auto simp: ascii_def)

lemma ascii_byte: "\<not> digit7 c \<Longrightarrow> byte_of_char c < 0x80"
proof -
  assume "\<not> digit7 c"
  then have "of_char c < (128 :: nat)" by (cases c) (auto simp: of_char_Char)
  then show ?thesis by (simp add: byte_of_char_def word_less_nat_alt unat_byte_of_nat)
qed

lemma ascii_valid: "ascii s \<Longrightarrow> valid_utf8 (as_bytes s)"
proof (induction s)
  case Nil
  then show ?case by (simp add: as_bytes_def)
next
  case (Cons c s)
  then show ?case using ascii_byte [of c] by (simp add: as_bytes_def valid_utf8.simps)
qed

section \<open>Encodable values\<close>

lemma head_len_mono: "m \<le> n \<Longrightarrow> head_len m \<le> head_len n"
  by (auto simp: head_len_def)

lemma enc_Text_inj:
  assumes "length s < u64_end" and "length t < u64_end" and "enc (Text s) = enc (Text t)"
  shows "s = t"
proof -
  have e: "encode_type_and_argument 3 (length s) @ as_bytes s = encode_type_and_argument 3 (length t) @ as_bytes t"
    using assms by (simp add: enc_def)
  then have "head_len (length s) + length s = head_len (length t) + length t"
    by (metis length_append length_as_bytes length_encode_type_and_argument)
  then have "length s = length t"
    using head_len_mono [of "length s" "length t"] head_len_mono [of "length t" "length s"] by linarith
  with e show ?thesis by simp
qed

definition text_keys :: "entries \<Rightarrow> bool" where
  "text_keys es \<longleftrightarrow> distinct (map fst es) \<and> (\<forall>e \<in> set es. \<exists>t. fst e = Text t \<and> length t < u64_end \<and> ascii t)"

lemma encode_text_map_ok:
  assumes "text_keys es" and "length es < u64_end" and "\<forall>e \<in> set es. is_ok (encode_value (snd e))"
  shows "is_ok (encode_value (CMap es))"
proof -
  have ok: "\<forall>e \<in> set es. is_ok (encode_value (fst e)) \<and> is_ok (encode_value (snd e))"
    using assms(1,3) by (auto simp: text_keys_def)
  have "inj_on enc (fst ` set es)"
  proof (rule inj_onI)
    fix k k' assume "k \<in> fst ` set es" "k' \<in> fst ` set es" and e: "enc k = enc k'"
    then obtain t t' where "k = Text t" "k' = Text t'" "length t < u64_end" "length t' < u64_end"
      using assms(1) unfolding text_keys_def by blast
    with e enc_Text_inj show "k = k'" by blast
  qed
  then have "distinct (map (enc \<circ> fst) es)"
    using assms(1) by (auto simp: text_keys_def distinct_map comp_inj_on)
  then have "distinct (map fst (map (\<lambda>(k, v). (enc k, enc v)) es))"
    by (simp add: comp_def split_beta)
  moreover have "mset (map fst (sort_key fst ps)) = mset (map fst ps)" for ps :: "(bytes \<times> bytes) list"
    by simp
  ultimately have "distinct (map fst (sort_key fst (map (\<lambda>(k, v). (enc k, enc v)) es)))"
    using mset_eq_imp_distinct_iff by blast
  moreover have "distinct (map fst ps) \<Longrightarrow> \<not> has_adjacent_equal_keys ps" for ps
    by (induction ps rule: has_adjacent_equal_keys.induct) auto
  ultimately show ?thesis
    using ok assms(2) unfolding is_ok_iff encode_CMap_iff by blast
qed

lemma encode_array_ok:
  "length vs < u64_end \<Longrightarrow> \<forall>v \<in> set vs. is_ok (encode_value v) \<Longrightarrow> is_ok (encode_value (Array vs))"
  unfolding is_ok_iff [of "encode_value (Array vs)"] encode_Array_iff by blast

lemma cbor_size_bound: "cbor_size v \<le> 9 * cbor_items v + cbor_alloc v"
proof (induction v rule: CborValue_induct)
  case (Array vs)
  have "sum_list (map cbor_size vs) \<le> sum_list (map (\<lambda>v. 9 * cbor_items v + cbor_alloc v) vs)"
    using Array by (intro sum_list_mono) auto
  also have "\<dots> = 9 * sum_list (map cbor_items vs) + sum_list (map cbor_alloc vs)"
    by (simp add: sum_list_addf sum_list_const_mult)
  finally show ?case using head_len_bounds [of "length vs"] by simp
next
  case (CMap es)
  have "sum_list (map (\<lambda>(k, v). cbor_size k + cbor_size v) es) \<le>
      sum_list (map (\<lambda>(k, v). 9 * (cbor_items k + cbor_items v) + (cbor_size k + cbor_alloc k + cbor_alloc v)) es)"
    using CMap by (intro sum_list_mono) (fastforce intro: add_mono)
  also have "\<dots> = 9 * sum_list (map (\<lambda>(k, v). cbor_items k + cbor_items v) es) +
      sum_list (map (\<lambda>(k, v). cbor_size k + cbor_alloc k + cbor_alloc v) es)"
    by (induction es) auto
  finally show ?case using head_len_bounds [of "length es"] by simp
qed (simp_all add: head_len_bounds)

text \<open>Values within the default budgets are encoded and accepted.\<close>

definition decodable :: "CborValue \<Rightarrow> bool" where
  "decodable v \<longleftrightarrow> is_ok (encode_value v) \<and> texts_valid v \<and> nesting v \<le> MAX_NESTING_DEPTH \<and>
     cbor_items v \<le> max_items CborLimits_default \<and> cbor_alloc v \<le> max_allocation CborLimits_default"

lemma decodable_validates:
  assumes "decodable v"
  shows "encode_deterministic v = Ok (enc v)" and "validate_deterministic (enc v) = Ok (canon v)"
proof -
  have e: "encode_value v = Ok (enc v)" using assms by (simp add: decodable_def encode_enc)
  then show "encode_deterministic v = Ok (enc v)" by (simp add: encode_deterministic_def)
  have "length (enc v) = cbor_size v" using encode_length [OF e] .
  also have "\<dots> < u64_end"
    using assms cbor_size_bound [of v] by (simp add: decodable_def CborLimits_default_def u64_end_def)
  finally show "validate_deterministic (enc v) = Ok (canon v)"
    using assms e by (simp add: validate_deterministic_def decodable_def validate_encoded)
qed

section \<open>Canonical maps\<close>

definition centries :: "entries \<Rightarrow> entries" where
  "centries es = sort_key (enc \<circ> fst) (map (\<lambda>(k, v). (canon k, canon v)) es)"

lemma canon_CMap_centries [simp]: "canon (CMap es) = CMap (centries es)"
  by (simp add: centries_def)

declare canon.simps(2) [simp del]

lemma field_map_of: "field es key err = ok_or (map_of es (Text key)) err"
  by (induction es key err rule: field.induct) auto

lemma map_of_perm:
  assumes "mset xs = mset ys" and "distinct (map fst xs)"
  shows "map_of xs = map_of ys"
proof -
  have "distinct (map fst ys)" using assms by (metis mset_eq_imp_distinct_iff mset_map)
  moreover have "set xs = set ys" using assms(1) by (metis set_mset_mset)
  ultimately show ?thesis using assms(2) by (intro map_of_inject_set [THEN iffD2]) auto
qed

lemma canon_keys: "text_keys es \<Longrightarrow> map (\<lambda>(k, v). (canon k, canon v)) es = map (\<lambda>(k, v). (k, canon v)) es"
  by (force simp: text_keys_def)

lemma map_of_centries:
  assumes "text_keys es"
  shows "map_of (centries es) k = map_option canon (map_of es k)"
proof -
  have d: "distinct (map fst (map (\<lambda>(k, v). (k, canon v)) es))"
    using assms by (simp add: text_keys_def comp_def split_beta)
  have "map_of (centries es) = map_of (map (\<lambda>(k, v). (k, canon v)) es)"
    unfolding centries_def canon_keys [OF assms] by (rule map_of_perm [symmetric]) (use d in auto)
  then show ?thesis by (simp add: map_of_map)
qed

lemma field_centries:
  "text_keys es \<Longrightarrow> field (centries es) key err = ok_or (map_option canon (map_of es (Text key))) err"
  by (simp add: field_map_of map_of_centries)

lemma set_centries: "text_keys es \<Longrightarrow> fst ` set (centries es) = fst ` set es"
proof -
  assume t: "text_keys es"
  have "set (centries es) = set (map (\<lambda>(k, v). (k, canon v)) es)"
    unfolding centries_def canon_keys [OF t] by simp
  then show ?thesis by force
qed

lemma reject_unknown_keys_Ok_iff:
  "reject_unknown_keys es allowed err = Ok () \<longleftrightarrow> fst ` set es \<subseteq> Text ` set allowed"
  by (induction es allowed err rule: reject_unknown_keys.induct) auto

lemma reject_centries:
  "text_keys es \<Longrightarrow> reject_unknown_keys (centries es) allowed err = Ok () \<longleftrightarrow> fst ` set es \<subseteq> Text ` set allowed"
  by (simp add: reject_unknown_keys_Ok_iff set_centries)

lemma u64_value_canon [simp]: "canon (u64_value n) = Integer (int n)"
  by (simp add: u64_value_def)

lemma u64_try_from_int [simp]: "n < u64_end \<Longrightarrow> u64_try_from (int n) = Some n"
  by (simp add: u64_try_from_def)

lemma u64_try_from_0 [simp]: "u64_try_from 0 = Some 0"
  by (simp add: u64_try_from_def u64_end_def)

lemmas accessor_defs = required_map_def required_array_def required_text_def required_bool_def
  required_u64_def required_u64_with_overflow_def required_i32_def required_bytes_def required_bstr_def
  required_bstr16_def required_bstr32_def expect_text_field_def expect_bool_field_def
  expect_version_field_def

section \<open>Well-formed parts\<close>

named_theorems encodable \<open>values the encoder accepts\<close>

lemma ok_simple [encodable]:
  "is_ok (encode_value (CBool b))" "is_ok (encode_value CNull)"
  "length bs < u64_end \<Longrightarrow> is_ok (encode_value (Bytes bs))"
  "length t < u64_end \<Longrightarrow> is_ok (encode_value (Text t))"
  "n < u64_end \<Longrightarrow> is_ok (encode_value (u64_value n))"
  by (simp_all add: u64_value_def u64_try_from_def)

lemma ok_i32 [encodable]: "- (2 ^ 31) \<le> n \<Longrightarrow> n < 2 ^ 31 \<Longrightarrow> is_ok (encode_value (Integer n))"
  by (auto simp: u64_try_from_def negative_argument_def u64_end_def nat_less_iff)

lemma ok_version [encodable]: "is_ok (encode_value version_value)"
  by (simp add: version_value_def u64_try_from_def u64_end_def)

definition Checksum_wf :: "Checksum \<Rightarrow> bool" where
  "Checksum_wf c \<longleftrightarrow> cs_algorithm c = CHECKSUM_ALGORITHM_BLAKE3 \<and> length (cs_value c) = 32"

definition BlockRef_wf :: "BlockRef \<Rightarrow> bool" where
  "BlockRef_wf b \<longleftrightarrow> br_offset b < u64_end \<and> br_size b < u64_end \<and> Checksum_wf (br_checksum b)"

lemma Checksum_eq: "Checksum_wf c \<Longrightarrow> Checksum_from_raw_bytes (cs_value c) = c"
  by (cases c) (simp add: Checksum_wf_def Checksum_from_raw_bytes_def)

lemmas text_keys_simps = text_keys_def text_pair_def u64_end_def

lemma checksum_keys: "text_keys [text_pair ''algorithm'' a, text_pair ''value'' b]"
  by (simp add: text_keys_simps)

lemma ok_checksum [encodable]: "Checksum_wf c \<Longrightarrow> is_ok (encode_value (checksum_value c))"
  unfolding checksum_value_def
  by (rule encode_text_map_ok [OF checksum_keys])
     (auto simp: text_pair_def Checksum_wf_def CHECKSUM_ALGORITHM_BLAKE3_def u64_end_def)

lemma checksum_measures:
  assumes "Checksum_wf c"
  shows "texts_valid (checksum_value c)" "nesting (checksum_value c) = 1"
    "cbor_items (checksum_value c) = 5" "cbor_alloc (checksum_value c) = 68"
  using assms
  by (simp_all add: checksum_value_def text_pair_def Checksum_wf_def CHECKSUM_ALGORITHM_BLAKE3_def ascii_valid head_len_def)

lemma required_checksum_centries:
  assumes "text_keys es" and "map_of es (Text key) = Some (checksum_value c)" and "Checksum_wf c"
  shows "required_checksum (centries es) key err = Ok c"
proof -
  let ?es = "[text_pair ''algorithm'' (Text (cs_algorithm c)), text_pair ''value'' (Bytes (cs_value c))]"
  have k: "text_keys ?es" by (rule checksum_keys)
  have "required_map (centries es) key err = Ok (centries ?es)"
    by (simp add: required_map_def field_centries [OF assms(1)] assms(2) checksum_value_def)
  moreover have "reject_unknown_keys (centries ?es) [''algorithm'', ''value''] err = Ok ()"
    unfolding reject_centries [OF k] by (simp add: text_pair_def)
  ultimately show ?thesis
    using assms(3) Checksum_eq [OF assms(3)]
    by (simp add: required_checksum_def accessor_defs field_centries [OF k])
       (simp add: text_pair_def Checksum_wf_def accessor_defs field_centries [OF checksum_keys [unfolded text_pair_def]])
qed

lemma block_ref_keys: "text_keys [text_pair ''offset'' a, text_pair ''size'' b, text_pair ''checksum'' c]"
  by (simp add: text_keys_simps)

lemma ok_block_ref [encodable]: "BlockRef_wf b \<Longrightarrow> is_ok (encode_value (block_ref_value b))"
  unfolding block_ref_value_def
  by (rule encode_text_map_ok [OF block_ref_keys])
     (auto simp: text_pair_def BlockRef_wf_def simp del: encode_value.simps intro: encodable, simp add: u64_end_def)

lemma block_ref_measures:
  assumes "BlockRef_wf b"
  shows "texts_valid (block_ref_value b)" "nesting (block_ref_value b) = 2"
    "cbor_items (block_ref_value b) = 11" "cbor_alloc (block_ref_value b) = 107"
  using assms checksum_measures [of "br_checksum b"]
  by (simp_all add: block_ref_value_def text_pair_def u64_value_def BlockRef_wf_def ascii_valid head_len_def)

lemma required_block_ref_centries:
  assumes "text_keys es" and "map_of es (Text key) = Some (block_ref_value b)" and "BlockRef_wf b"
  shows "required_block_ref (centries es) key err = Ok b"
proof -
  let ?es = "[text_pair ''offset'' (u64_value (br_offset b)), text_pair ''size'' (u64_value (br_size b)),
    text_pair ''checksum'' (checksum_value (br_checksum b))]"
  have k: "text_keys ?es" by (rule block_ref_keys)
  have "required_map (centries es) key err = Ok (centries ?es)"
    by (simp add: required_map_def field_centries [OF assms(1)] assms(2) block_ref_value_def)
  moreover have "reject_unknown_keys (centries ?es) [''offset'', ''size'', ''checksum''] err = Ok ()"
    unfolding reject_centries [OF k] by (simp add: text_pair_def)
  moreover have "required_checksum (centries ?es) ''checksum'' err = Ok (br_checksum b)"
    using assms(3) by (intro required_checksum_centries [OF k]) (simp_all add: text_pair_def BlockRef_wf_def)
  ultimately show ?thesis
    using assms(3)
    by (simp add: required_block_ref_def accessor_defs field_centries [OF k])
       (simp add: text_pair_def BlockRef_wf_def)
qed

section \<open>Footer payload\<close>

definition FooterPayload_wf :: "FooterPayload \<Rightarrow> bool" where
  "FooterPayload_wf f \<longleftrightarrow> length (fp_container_id f) = 16 \<and> BlockRef_wf (fp_index_root f) \<and>
     BlockRef_wf (fp_metadata f) \<and> fp_final_file_size f < u64_end \<and> fp_footer_flags f = 0 \<and>
     (case fp_container_checksum f of None \<Rightarrow> True | Some c \<Rightarrow> Checksum_wf c)"

definition footer_entries :: "FooterPayload \<Rightarrow> entries" where
  "footer_entries f = (case footer_value f of CMap es \<Rightarrow> es | _ \<Rightarrow> [])"

lemma footer_entries_eq: "footer_value f = CMap (footer_entries f)"
  by (simp add: footer_entries_def footer_value_def)

lemma footer_keys: "text_keys (footer_entries f)"
  by (cases "fp_container_checksum f") (simp_all add: footer_entries_def footer_value_def text_keys_simps)

lemma footer_lookups:
  "map_of (footer_entries f) (Text ''schema'') = Some (Text SCHEMA_FOOTER)"
  "map_of (footer_entries f) (Text ''format_version'') = Some version_value"
  "map_of (footer_entries f) (Text ''container_id'') = Some (Bytes (fp_container_id f))"
  "map_of (footer_entries f) (Text ''index_root'') = Some (block_ref_value (fp_index_root f))"
  "map_of (footer_entries f) (Text ''metadata'') = Some (block_ref_value (fp_metadata f))"
  "map_of (footer_entries f) (Text ''final_file_size'') = Some (u64_value (fp_final_file_size f))"
  "map_of (footer_entries f) (Text ''footer_flags'') = Some (u64_value (fp_footer_flags f))"
  "map_of (footer_entries f) (Text ''container_checksum'') = map_option checksum_value (fp_container_checksum f)"
  by (cases "fp_container_checksum f"; simp add: footer_entries_def footer_value_def text_pair_def)+

lemma footer_decodable:
  assumes "FooterPayload_wf f"
  shows "decodable (footer_value f)"
proof -
  have "is_ok (encode_value (footer_value f))"
    unfolding footer_entries_eq
  proof (rule encode_text_map_ok [OF footer_keys])
    show "length (footer_entries f) < u64_end"
      by (cases "fp_container_checksum f") (simp_all add: footer_entries_def footer_value_def u64_end_def)
    show "\<forall>e \<in> set (footer_entries f). is_ok (encode_value (snd e))"
      using assms
      by (cases "fp_container_checksum f")
         (auto simp: footer_entries_def footer_value_def text_pair_def FooterPayload_wf_def SCHEMA_FOOTER_def
            simp del: encode_value.simps intro!: encodable, auto simp: u64_end_def)
  qed
  then show ?thesis
    using assms block_ref_measures [of "fp_index_root f"] block_ref_measures [of "fp_metadata f"] checksum_measures
    by (cases "fp_container_checksum f")
       (simp_all add: decodable_def footer_value_def text_pair_def u64_value_def version_value_def
          FooterPayload_wf_def SCHEMA_FOOTER_def ascii_valid head_len_def MAX_NESTING_DEPTH_def CborLimits_default_def)
qed

lemma decode_prologue_centries:
  assumes "decodable (CMap es)" and "text_keys es" and "fst ` set es \<subseteq> Text ` set allowed"
    and "map_of es (Text ''schema'') = Some (Text schema)"
    and "map_of es (Text ''format_version'') = Some version_value"
  shows "decode_prologue (enc (CMap es)) allowed schema err = Ok (CMap (centries es))"
proof -
  have "validate_deterministic (enc (CMap es)) = Ok (CMap (centries es))"
    using decodable_validates(2) [OF assms(1)] by simp
  moreover have "reject_unknown_keys (centries es) allowed err = Ok ()"
    using assms(2,3) by (simp add: reject_centries)
  ultimately show ?thesis
    by (simp add: decode_prologue_def accessor_defs field_centries [OF assms(2)] assms(4,5) version_value_def)
qed

lemma optional_checksum_centries:
  assumes "text_keys es" and "map_of es (Text key) = map_option checksum_value c"
    and "case c of None \<Rightarrow> True | Some c \<Rightarrow> Checksum_wf c"
  shows "optional_checksum (centries es) key err = Ok c"
proof -
  have "(\<exists>e \<in> set (centries es). fst e = Text key) \<longleftrightarrow> Text key \<in> fst ` set es"
  proof -
    have "(\<exists>e \<in> set (centries es). fst e = Text key) \<longleftrightarrow> Text key \<in> fst ` set (centries es)" by force
    then show ?thesis by (simp only: set_centries [OF assms(1)])
  qed
  also have "\<dots> \<longleftrightarrow> c \<noteq> None"
    using assms(2) map_of_eq_None_iff [of es "Text key"] by (cases c) auto
  finally show ?thesis
    using assms required_checksum_centries [OF assms(1)]
    by (cases c) (auto simp: optional_checksum_def)
qed

lemma footer_roundtrip:
  assumes "FooterPayload_wf f"
  shows "FooterPayload_encode f = Ok (enc (footer_value f))"
    and "FooterPayload_decode (enc (footer_value f)) = Ok f"
proof -
  show "FooterPayload_encode f = Ok (enc (footer_value f))"
    using decodable_validates(1) [OF footer_decodable [OF assms]] by (simp add: FooterPayload_encode_def)
  have d: "decodable (CMap (footer_entries f))"
    using footer_decodable [OF assms] by (simp add: footer_entries_eq)
  have k: "fst ` set (footer_entries f) \<subseteq> Text ` set [''schema'', ''format_version'', ''container_id'',
      ''index_root'', ''metadata'', ''final_file_size'', ''footer_flags'', ''created_at_unix_ms'', ''writer'',
      ''container_checksum'']"
    by (cases "fp_container_checksum f") (simp_all add: footer_entries_def footer_value_def text_pair_def)
  note look = field_centries [OF footer_keys] footer_lookups
  show "FooterPayload_decode (enc (footer_value f)) = Ok f"
    using assms
    by (simp add: footer_entries_eq FooterPayload_decode_def FooterPayload_wf_def
        decode_prologue_centries [OF d footer_keys k footer_lookups(1,2)]
        required_block_ref_centries [OF footer_keys] optional_checksum_centries [OF footer_keys]
        accessor_defs look)
qed

section \<open>Metadata\<close>

definition Metadata_wf :: "Metadata \<Rightarrow> bool" where
  "Metadata_wf m \<longleftrightarrow> length (md_container_id m) = 16 \<and> md_original_size m < u64_end \<and>
     Checksum_wf (md_original_checksum m) \<and> md_newline_mode m \<in> {''none'', ''lf'', ''crlf'', ''mixed''} \<and>
     md_line_count m < u64_end \<and> - (2 ^ 31) \<le> md_zstd_level m \<and> md_zstd_level m < 2 ^ 31 \<and>
     0 < md_target_chunk_size m \<and> md_target_chunk_size m \<le> md_max_chunk_size m \<and>
     md_max_chunk_size m < u64_end \<and> md_dictionary_mode m \<in> {''none'', ''embedded''} \<and>
     md_profile m \<in> {''minimal'', ''core'', ''log'', ''archive'', ''memory''}"

text \<open>The sections of the metadata map.\<close>

definition section_of :: "Metadata \<Rightarrow> string \<Rightarrow> entries" where
  "section_of m key = (case metadata_value m of
     CMap es \<Rightarrow> (case map_of es (Text key) of Some (CMap s) \<Rightarrow> s | _ \<Rightarrow> []) | _ \<Rightarrow> [])"

definition metadata_entries :: "Metadata \<Rightarrow> entries" where
  "metadata_entries m = (case metadata_value m of CMap es \<Rightarrow> es | _ \<Rightarrow> [])"

lemma metadata_entries_eq: "metadata_value m = CMap (metadata_entries m)"
  by (simp add: metadata_entries_def metadata_value_def)

lemma sections:
  "section_of m ''identity'' = [text_pair ''name'' CNull, text_pair ''profile'' (Text (md_profile m)),
     text_pair ''created_by'' (Text ''qzt''), text_pair ''created_at_unix_ms'' CNull]"
  "section_of m ''source'' = [text_pair ''media_type'' (Text ''text''), text_pair ''encoding'' (Text ''utf-8''),
     text_pair ''original_size'' (u64_value (md_original_size m)),
     text_pair ''original_checksum'' (checksum_value (md_original_checksum m)),
     text_pair ''newline_mode'' (Text (md_newline_mode m)), text_pair ''line_count'' (u64_value (md_line_count m))]"
  "section_of m ''compression'' = [text_pair ''codec'' (Text ''zstd''), text_pair ''zstd_level'' (Integer (md_zstd_level m)),
     text_pair ''independent_frames'' (CBool True), text_pair ''zstd_frame_checksum'' (CBool False),
     text_pair ''dictionary_mode'' (Text (md_dictionary_mode m))]"
  "section_of m ''chunking'' = [text_pair ''target_chunk_size'' (u64_value (md_target_chunk_size m)),
     text_pair ''max_chunk_size'' (u64_value (md_max_chunk_size m)), text_pair ''boundary'' (Text ''line-preferred''),
     text_pair ''utf8_boundary_required'' (CBool True)]"
  "section_of m ''indexes'' = [text_pair ''chunk_table'' (CBool True), text_pair ''sparse_line_index'' (CBool True),
     text_pair ''dense_line_index'' (CBool (md_dense_line_index m)), text_pair ''document_index'' (CBool (md_document_index m)),
     text_pair ''token_index'' (CBool False), text_pair ''ngram_index'' (CBool False), text_pair ''vector_index'' (CBool False)]"
  "section_of m ''integrity'' = [text_pair ''compressed_chunk_checksum'' (Text CHECKSUM_ALGORITHM_BLAKE3),
     text_pair ''uncompressed_chunk_checksum'' (Text CHECKSUM_ALGORITHM_BLAKE3),
     text_pair ''index_checksum'' (Text CHECKSUM_ALGORITHM_BLAKE3)]"
  "section_of m ''compatibility'' = [text_pair ''qzt_is_zst_stream'' (CBool False),
     text_pair ''chunks_are_independent_zstd_frames'' (CBool True)]"
  by (simp_all add: section_of_def metadata_value_def text_pair_def)

lemma metadata_lookups:
  "map_of (metadata_entries m) (Text ''schema'') = Some (Text SCHEMA_METADATA)"
  "map_of (metadata_entries m) (Text ''format_version'') = Some version_value"
  "map_of (metadata_entries m) (Text ''format'') = Some (Text ''qzt'')"
  "map_of (metadata_entries m) (Text ''container_id'') = Some (Bytes (md_container_id m))"
  "map_of (metadata_entries m) (Text ''identity'') = Some (CMap (section_of m ''identity''))"
  "map_of (metadata_entries m) (Text ''source'') = Some (CMap (section_of m ''source''))"
  "map_of (metadata_entries m) (Text ''compression'') = Some (CMap (section_of m ''compression''))"
  "map_of (metadata_entries m) (Text ''chunking'') = Some (CMap (section_of m ''chunking''))"
  "map_of (metadata_entries m) (Text ''indexes'') = Some (CMap (section_of m ''indexes''))"
  "map_of (metadata_entries m) (Text ''integrity'') = Some (CMap (section_of m ''integrity''))"
  "map_of (metadata_entries m) (Text ''compatibility'') = Some (CMap (section_of m ''compatibility''))"
  by (simp_all add: section_of_def metadata_entries_def metadata_value_def text_pair_def)

lemma metadata_keys: "text_keys (metadata_entries m)"
  by (simp add: metadata_entries_def metadata_value_def text_keys_simps)

lemma section_keys:
  "text_keys (section_of m ''identity'')" "text_keys (section_of m ''source'')"
  "text_keys (section_of m ''compression'')" "text_keys (section_of m ''chunking'')"
  "text_keys (section_of m ''indexes'')" "text_keys (section_of m ''integrity'')"
  "text_keys (section_of m ''compatibility'')"
  by (simp_all add: sections text_keys_simps)

lemma sections_encodable:
  assumes "Metadata_wf m"
  shows "is_ok (encode_value (CMap (section_of m ''identity'')))" "is_ok (encode_value (CMap (section_of m ''source'')))"
    "is_ok (encode_value (CMap (section_of m ''compression'')))" "is_ok (encode_value (CMap (section_of m ''chunking'')))"
    "is_ok (encode_value (CMap (section_of m ''indexes'')))" "is_ok (encode_value (CMap (section_of m ''integrity'')))"
    "is_ok (encode_value (CMap (section_of m ''compatibility'')))"
proof -
  have len: "length (section_of m k) < u64_end" if "k \<in> {''identity'', ''source'', ''compression'', ''chunking'',
      ''indexes'', ''integrity'', ''compatibility''}" for k
    using that by (auto simp: sections u64_end_def)
  have wf: "md_newline_mode m \<in> {''none'', ''lf'', ''crlf'', ''mixed''}" "md_dictionary_mode m \<in> {''none'', ''embedded''}"
    "md_profile m \<in> {''minimal'', ''core'', ''log'', ''archive'', ''memory''}"
    using assms by (simp_all add: Metadata_wf_def)
  have short: "length (md_newline_mode m) < u64_end" "length (md_dictionary_mode m) < u64_end" "length (md_profile m) < u64_end"
    using wf by (auto simp: u64_end_def)
  have fields: "md_original_size m < u64_end" "md_line_count m < u64_end" "md_target_chunk_size m < u64_end"
    "md_max_chunk_size m < u64_end" "Checksum_wf (md_original_checksum m)"
    "- (2 ^ 31) \<le> md_zstd_level m" "md_zstd_level m < 2 ^ 31"
    using assms by (auto simp: Metadata_wf_def)
  note ok = ok_i32 [OF fields(6,7)] ok_checksum [OF fields(5)] short fields(1-4)
  note lit_defs = text_pair_def ok_simple u64_end_def CHECKSUM_ALGORITHM_BLAKE3_def
  have vals: "\<forall>e \<in> set (section_of m ''identity''). is_ok (encode_value (snd e))"
    "\<forall>e \<in> set (section_of m ''source''). is_ok (encode_value (snd e))"
    "\<forall>e \<in> set (section_of m ''compression''). is_ok (encode_value (snd e))"
    "\<forall>e \<in> set (section_of m ''chunking''). is_ok (encode_value (snd e))"
    "\<forall>e \<in> set (section_of m ''indexes''). is_ok (encode_value (snd e))"
    "\<forall>e \<in> set (section_of m ''integrity''). is_ok (encode_value (snd e))"
    "\<forall>e \<in> set (section_of m ''compatibility''). is_ok (encode_value (snd e))"
    unfolding sections using ok by (simp_all add: lit_defs del: encode_value.simps)
  show "is_ok (encode_value (CMap (section_of m ''identity'')))"
    by (rule encode_text_map_ok [OF section_keys(1) len vals(1)]) simp
  show "is_ok (encode_value (CMap (section_of m ''source'')))"
    by (rule encode_text_map_ok [OF section_keys(2) len vals(2)]) simp
  show "is_ok (encode_value (CMap (section_of m ''compression'')))"
    by (rule encode_text_map_ok [OF section_keys(3) len vals(3)]) simp
  show "is_ok (encode_value (CMap (section_of m ''chunking'')))"
    by (rule encode_text_map_ok [OF section_keys(4) len vals(4)]) simp
  show "is_ok (encode_value (CMap (section_of m ''indexes'')))"
    by (rule encode_text_map_ok [OF section_keys(5) len vals(5)]) simp
  show "is_ok (encode_value (CMap (section_of m ''integrity'')))"
    by (rule encode_text_map_ok [OF section_keys(6) len vals(6)]) simp
  show "is_ok (encode_value (CMap (section_of m ''compatibility'')))"
    by (rule encode_text_map_ok [OF section_keys(7) len vals(7)]) simp
qed

lemma metadata_encodable:
  assumes "Metadata_wf m"
  shows "is_ok (encode_value (metadata_value m))"
  unfolding metadata_entries_eq
proof (rule encode_text_map_ok [OF metadata_keys])
  show "length (metadata_entries m) < u64_end"
    by (simp add: metadata_entries_def metadata_value_def u64_end_def)
  have "length (md_container_id m) = 16" using assms by (simp add: Metadata_wf_def)
  with sections_encodable [OF assms] ok_version show "\<forall>e \<in> set (metadata_entries m). is_ok (encode_value (snd e))"
    unfolding sections
    by (simp add: metadata_entries_def metadata_value_def text_pair_def ok_simple SCHEMA_METADATA_def u64_end_def
        del: encode_value.simps)
qed

lemma metadata_texts:
  assumes "Metadata_wf m"
  shows "ascii (md_newline_mode m)" "ascii (md_dictionary_mode m)" "ascii (md_profile m)"
    "length (md_newline_mode m) \<le> 5" "length (md_dictionary_mode m) \<le> 8" "length (md_profile m) \<le> 7"
proof -
  have wf: "md_newline_mode m \<in> {''none'', ''lf'', ''crlf'', ''mixed''}" "md_dictionary_mode m \<in> {''none'', ''embedded''}"
    "md_profile m \<in> {''minimal'', ''core'', ''log'', ''archive'', ''memory''}"
    using assms by (simp_all add: Metadata_wf_def)
  show "ascii (md_newline_mode m)" "length (md_newline_mode m) \<le> 5" using wf(1) by auto
  show "ascii (md_dictionary_mode m)" "length (md_dictionary_mode m) \<le> 8" using wf(2) by auto
  show "ascii (md_profile m)" "length (md_profile m) \<le> 7" using wf(3) by auto
qed

lemma metadata_decodable:
  assumes "Metadata_wf m"
  shows "decodable (metadata_value m)"
proof -
  have c: "Checksum_wf (md_original_checksum m)" and i: "length (md_container_id m) = 16"
    using assms by (simp_all add: Metadata_wf_def)
  show ?thesis
    using metadata_encodable [OF assms] metadata_texts [OF assms] checksum_measures [OF c] i
    by (simp add: decodable_def metadata_value_def text_pair_def u64_value_def version_value_def
        SCHEMA_METADATA_def CHECKSUM_ALGORITHM_BLAKE3_def ascii_valid head_len_def MAX_NESTING_DEPTH_def
        CborLimits_default_def del: encode_value.simps)
qed

lemma section_lookups:
  "map_of (section_of m ''identity'') (Text ''profile'') = Some (Text (md_profile m))"
  "map_of (section_of m ''source'') (Text ''media_type'') = Some (Text ''text'')"
  "map_of (section_of m ''source'') (Text ''encoding'') = Some (Text ''utf-8'')"
  "map_of (section_of m ''source'') (Text ''original_size'') = Some (u64_value (md_original_size m))"
  "map_of (section_of m ''source'') (Text ''original_checksum'') = Some (checksum_value (md_original_checksum m))"
  "map_of (section_of m ''source'') (Text ''newline_mode'') = Some (Text (md_newline_mode m))"
  "map_of (section_of m ''source'') (Text ''line_count'') = Some (u64_value (md_line_count m))"
  "map_of (section_of m ''compression'') (Text ''codec'') = Some (Text ''zstd'')"
  "map_of (section_of m ''compression'') (Text ''zstd_level'') = Some (Integer (md_zstd_level m))"
  "map_of (section_of m ''compression'') (Text ''independent_frames'') = Some (CBool True)"
  "map_of (section_of m ''compression'') (Text ''zstd_frame_checksum'') = Some (CBool False)"
  "map_of (section_of m ''compression'') (Text ''dictionary_mode'') = Some (Text (md_dictionary_mode m))"
  "map_of (section_of m ''chunking'') (Text ''target_chunk_size'') = Some (u64_value (md_target_chunk_size m))"
  "map_of (section_of m ''chunking'') (Text ''max_chunk_size'') = Some (u64_value (md_max_chunk_size m))"
  "map_of (section_of m ''chunking'') (Text ''boundary'') = Some (Text ''line-preferred'')"
  "map_of (section_of m ''chunking'') (Text ''utf8_boundary_required'') = Some (CBool True)"
  "map_of (section_of m ''indexes'') (Text ''chunk_table'') = Some (CBool True)"
  "map_of (section_of m ''indexes'') (Text ''sparse_line_index'') = Some (CBool True)"
  "map_of (section_of m ''indexes'') (Text ''dense_line_index'') = Some (CBool (md_dense_line_index m))"
  "map_of (section_of m ''indexes'') (Text ''document_index'') = Some (CBool (md_document_index m))"
  "map_of (section_of m ''indexes'') (Text ''token_index'') = Some (CBool False)"
  "map_of (section_of m ''indexes'') (Text ''ngram_index'') = Some (CBool False)"
  "map_of (section_of m ''indexes'') (Text ''vector_index'') = Some (CBool False)"
  "map_of (section_of m ''integrity'') (Text ''compressed_chunk_checksum'') = Some (Text CHECKSUM_ALGORITHM_BLAKE3)"
  "map_of (section_of m ''integrity'') (Text ''uncompressed_chunk_checksum'') = Some (Text CHECKSUM_ALGORITHM_BLAKE3)"
  "map_of (section_of m ''integrity'') (Text ''index_checksum'') = Some (Text CHECKSUM_ALGORITHM_BLAKE3)"
  "map_of (section_of m ''compatibility'') (Text ''qzt_is_zst_stream'') = Some (CBool False)"
  "map_of (section_of m ''compatibility'') (Text ''chunks_are_independent_zstd_frames'') = Some (CBool True)"
  by (simp_all add: sections text_pair_def)

lemmas section_fields = field_centries [OF section_keys(1)] field_centries [OF section_keys(2)]
  field_centries [OF section_keys(3)] field_centries [OF section_keys(4)] field_centries [OF section_keys(5)]
  field_centries [OF section_keys(6)] field_centries [OF section_keys(7)] section_lookups

lemma metadata_checks:
  "metadata_check_identity (centries (section_of m ''identity'')) = Ok ()"
  "metadata_check_source (centries (section_of m ''source'')) = Ok ()"
  "metadata_check_compression (centries (section_of m ''compression'')) = Ok ()"
  "metadata_check_chunking (centries (section_of m ''chunking'')) = Ok ()"
  "metadata_check_indexes (centries (section_of m ''indexes'')) = Ok ()"
  "metadata_check_integrity (centries (section_of m ''integrity'')) = Ok ()"
  "metadata_check_compatibility (centries (section_of m ''compatibility'')) = Ok ()"
proof -
  note keys = section_keys [THEN reject_centries, THEN iffD2]
  show "metadata_check_identity (centries (section_of m ''identity'')) = Ok ()"
    unfolding metadata_check_identity_def by (rule keys(1)) (simp add: sections text_pair_def)
  have r: "reject_unknown_keys (centries (section_of m ''source''))
      [''media_type'', ''encoding'', ''original_size'', ''original_checksum'', ''newline_mode'', ''line_count'']
      MetadataInvalid = Ok ()"
    by (rule keys(2)) (simp add: sections text_pair_def)
  show "metadata_check_source (centries (section_of m ''source'')) = Ok ()"
    by (simp add: metadata_check_source_def r accessor_defs section_fields)
  have r: "reject_unknown_keys (centries (section_of m ''compression''))
      [''codec'', ''zstd_level'', ''independent_frames'', ''zstd_frame_checksum'', ''dictionary_mode'']
      MetadataInvalid = Ok ()"
    by (rule keys(3)) (simp add: sections text_pair_def)
  show "metadata_check_compression (centries (section_of m ''compression'')) = Ok ()"
    by (simp add: metadata_check_compression_def r accessor_defs section_fields)
  have r: "reject_unknown_keys (centries (section_of m ''chunking''))
      [''target_chunk_size'', ''max_chunk_size'', ''boundary'', ''utf8_boundary_required''] MetadataInvalid = Ok ()"
    by (rule keys(4)) (simp add: sections text_pair_def)
  show "metadata_check_chunking (centries (section_of m ''chunking'')) = Ok ()"
    by (simp add: metadata_check_chunking_def r accessor_defs section_fields)
  have r: "reject_unknown_keys (centries (section_of m ''indexes''))
      [''chunk_table'', ''sparse_line_index'', ''dense_line_index'', ''document_index'', ''token_index'',
       ''ngram_index'', ''vector_index''] MetadataInvalid = Ok ()"
    by (rule keys(5)) (simp add: sections text_pair_def)
  show "metadata_check_indexes (centries (section_of m ''indexes'')) = Ok ()"
    by (simp add: metadata_check_indexes_def r accessor_defs section_fields)
  have r: "reject_unknown_keys (centries (section_of m ''integrity''))
      [''compressed_chunk_checksum'', ''uncompressed_chunk_checksum'', ''index_checksum''] MetadataInvalid = Ok ()"
    by (rule keys(6)) (simp add: sections text_pair_def)
  show "metadata_check_integrity (centries (section_of m ''integrity'')) = Ok ()"
    by (simp add: metadata_check_integrity_def r accessor_defs section_fields)
  have r: "reject_unknown_keys (centries (section_of m ''compatibility''))
      [''qzt_is_zst_stream'', ''chunks_are_independent_zstd_frames''] MetadataInvalid = Ok ()"
    by (rule keys(7)) (simp add: sections text_pair_def)
  show "metadata_check_compatibility (centries (section_of m ''compatibility'')) = Ok ()"
    by (simp add: metadata_check_compatibility_def r accessor_defs section_fields)
qed

lemma metadata_roundtrip:
  assumes "Metadata_wf m"
  shows "Metadata_encode m = Ok (enc (metadata_value m))"
    and "Metadata_decode (enc (metadata_value m)) = Ok m"
proof -
  show "Metadata_encode m = Ok (enc (metadata_value m))"
    using decodable_validates(1) [OF metadata_decodable [OF assms]] by (simp add: Metadata_encode_def)
  have d: "decodable (CMap (metadata_entries m))"
    using metadata_decodable [OF assms] by (simp add: metadata_entries_eq)
  have k: "fst ` set (metadata_entries m) \<subseteq> Text ` set [''schema'', ''format'', ''format_version'', ''container_id'',
      ''identity'', ''source'', ''compression'', ''chunking'', ''indexes'', ''integrity'', ''compatibility'']"
    by (simp add: metadata_entries_def metadata_value_def text_pair_def)
  have wf: "md_original_size m < u64_end" "md_line_count m < u64_end" "md_target_chunk_size m < u64_end"
    "md_max_chunk_size m < u64_end" "length (md_container_id m) = 16"
    "i32_try_from (md_zstd_level m) = Some (md_zstd_level m)"
    "\<not> (md_target_chunk_size m = 0 \<or> md_max_chunk_size m = 0 \<or> md_max_chunk_size m < md_target_chunk_size m)"
    and modes: "md_newline_mode m \<in> {''none'', ''lf'', ''crlf'', ''mixed''}" "md_dictionary_mode m \<in> {''none'', ''embedded''}"
      "md_profile m \<in> {''minimal'', ''core'', ''log'', ''archive'', ''memory''}"
    using assms by (auto simp: Metadata_wf_def i32_try_from_def)
  have cs: "required_checksum (centries (section_of m ''source'')) ''original_checksum'' MetadataInvalid = Ok (md_original_checksum m)"
    using assms by (intro required_checksum_centries [OF section_keys(2)]) (simp_all add: section_lookups Metadata_wf_def)
  show "Metadata_decode (enc (metadata_value m)) = Ok m"
    using wf modes cs
    by (simp add: metadata_entries_eq Metadata_decode_def
        decode_prologue_centries [OF d metadata_keys k metadata_lookups(1,2)]
        metadata_checks accessor_defs field_centries [OF metadata_keys] metadata_lookups section_fields
        del: insert_iff)
qed

section \<open>Index root\<close>

definition BlockDescriptor_wf :: "BlockDescriptor \<Rightarrow> bool" where
  "BlockDescriptor_wf b \<longleftrightarrow> valid_utf8 (as_bytes (bd_block_type b)) \<and> length (bd_block_type b) < u64_end \<and>
     valid_utf8 (as_bytes (bd_codec b)) \<and> length (bd_codec b) < u64_end \<and>
     bd_offset b < u64_end \<and> bd_size b < u64_end \<and> Checksum_wf (bd_checksum b) \<and> bd_flags b = 0 \<and>
     (bd_required b \<longrightarrow> bd_block_type b = CHUNK_TABLE_TYPE)"

definition descriptor_entries :: "BlockDescriptor \<Rightarrow> entries" where
  "descriptor_entries b = [text_pair ''type'' (Text (bd_block_type b)),
     text_pair ''required'' (CBool (bd_required b)), text_pair ''offset'' (u64_value (bd_offset b)),
     text_pair ''size'' (u64_value (bd_size b)), text_pair ''codec'' (Text (bd_codec b)),
     text_pair ''checksum'' (checksum_value (bd_checksum b)), text_pair ''flags'' (u64_value (bd_flags b))]"

lemma descriptor_value_eq: "block_descriptor_value b = CMap (descriptor_entries b)"
  by (simp add: block_descriptor_value_def descriptor_entries_def)

lemma descriptor_keys: "text_keys (descriptor_entries b)"
  by (simp add: descriptor_entries_def text_keys_simps)

lemma descriptor_lookups:
  "map_of (descriptor_entries b) (Text ''type'') = Some (Text (bd_block_type b))"
  "map_of (descriptor_entries b) (Text ''required'') = Some (CBool (bd_required b))"
  "map_of (descriptor_entries b) (Text ''offset'') = Some (u64_value (bd_offset b))"
  "map_of (descriptor_entries b) (Text ''size'') = Some (u64_value (bd_size b))"
  "map_of (descriptor_entries b) (Text ''codec'') = Some (Text (bd_codec b))"
  "map_of (descriptor_entries b) (Text ''checksum'') = Some (checksum_value (bd_checksum b))"
  "map_of (descriptor_entries b) (Text ''flags'') = Some (u64_value (bd_flags b))"
  by (simp_all add: descriptor_entries_def text_pair_def)

lemma ok_descriptor [encodable]: "BlockDescriptor_wf b \<Longrightarrow> is_ok (encode_value (block_descriptor_value b))"
  unfolding descriptor_value_eq
  by (rule encode_text_map_ok [OF descriptor_keys])
     (auto simp: descriptor_entries_def text_pair_def BlockDescriptor_wf_def simp del: encode_value.simps
        intro: encodable, simp_all add: u64_end_def u64_value_def u64_try_from_def)

lemma descriptor_measures:
  assumes "BlockDescriptor_wf b"
  shows "texts_valid (block_descriptor_value b)" "nesting (block_descriptor_value b) = 2"
  using assms checksum_measures [of "bd_checksum b"]
  by (simp_all add: block_descriptor_value_def text_pair_def u64_value_def BlockDescriptor_wf_def ascii_valid)

lemma decode_descriptor:
  assumes "BlockDescriptor_wf b"
  shows "decode_block_descriptor (canon (block_descriptor_value b)) = Ok b"
proof -
  have r: "reject_unknown_keys (centries (descriptor_entries b))
      [''type'', ''required'', ''offset'', ''size'', ''codec'', ''checksum'', ''flags''] ContainerCorrupt = Ok ()"
    unfolding reject_centries [OF descriptor_keys] by (simp add: descriptor_entries_def text_pair_def)
  have c: "required_checksum (centries (descriptor_entries b)) ''checksum'' ContainerCorrupt = Ok (bd_checksum b)"
    using assms by (intro required_checksum_centries [OF descriptor_keys])
      (simp_all add: descriptor_lookups BlockDescriptor_wf_def)
  show ?thesis
    using assms
    by (simp add: descriptor_value_eq decode_block_descriptor_def r c accessor_defs BlockDescriptor_wf_def
        field_centries [OF descriptor_keys] descriptor_lookups)
qed

definition IndexRoot_wf :: "IndexRoot \<Rightarrow> bool" where
  "IndexRoot_wf r \<longleftrightarrow> length (ir_container_id r) = 16 \<and> (\<forall>b \<in> set (ir_blocks r). BlockDescriptor_wf b) \<and>
     length (filter is_required_chunk_table (ir_blocks r)) = 1 \<and> ir_original_size r < u64_end \<and>
     Checksum_wf (ir_original_checksum r) \<and> ir_chunk_count r < u64_end \<and> ir_line_count r < u64_end"

definition content_entries :: "IndexRoot \<Rightarrow> entries" where
  "content_entries r = [text_pair ''original_size'' (u64_value (ir_original_size r)),
     text_pair ''original_checksum'' (checksum_value (ir_original_checksum r)),
     text_pair ''chunk_count'' (u64_value (ir_chunk_count r)), text_pair ''line_count'' (u64_value (ir_line_count r))]"

definition root_entries :: "IndexRoot \<Rightarrow> entries" where
  "root_entries r = [text_pair ''schema'' (Text SCHEMA_INDEX_ROOT), text_pair ''format_version'' version_value,
     text_pair ''container_id'' (Bytes (ir_container_id r)),
     text_pair ''blocks'' (Array (map block_descriptor_value (ir_blocks r))),
     text_pair ''content'' (CMap (content_entries r))]"

lemma root_value_eq: "index_root_value r = CMap (root_entries r)"
  by (simp add: index_root_value_def root_entries_def content_entries_def)

lemma root_keys: "text_keys (root_entries r)" "text_keys (content_entries r)"
  by (simp_all add: root_entries_def content_entries_def text_keys_simps)

lemma root_lookups:
  "map_of (root_entries r) (Text ''schema'') = Some (Text SCHEMA_INDEX_ROOT)"
  "map_of (root_entries r) (Text ''format_version'') = Some version_value"
  "map_of (root_entries r) (Text ''container_id'') = Some (Bytes (ir_container_id r))"
  "map_of (root_entries r) (Text ''blocks'') = Some (Array (map block_descriptor_value (ir_blocks r)))"
  "map_of (root_entries r) (Text ''content'') = Some (CMap (content_entries r))"
  "map_of (content_entries r) (Text ''original_size'') = Some (u64_value (ir_original_size r))"
  "map_of (content_entries r) (Text ''original_checksum'') = Some (checksum_value (ir_original_checksum r))"
  "map_of (content_entries r) (Text ''chunk_count'') = Some (u64_value (ir_chunk_count r))"
  "map_of (content_entries r) (Text ''line_count'') = Some (u64_value (ir_line_count r))"
  by (simp_all add: root_entries_def content_entries_def text_pair_def)

lemma nesting_Array_all: "\<forall>v \<in> set vs. nesting v \<le> n \<Longrightarrow> nesting (Array vs) \<le> Suc n"
  by (induction vs) auto

definition within_default_budget :: "CborValue \<Rightarrow> bool" where
  "within_default_budget v \<longleftrightarrow> cbor_items v \<le> 1000000 \<and> cbor_alloc v \<le> 16777216"

lemma root_decodable:
  assumes "IndexRoot_wf r" and "within_default_budget (index_root_value r)"
  shows "decodable (index_root_value r)"
proof -
  have n: "length (ir_blocks r) < u64_end"
    using assms(2) length_le_items [of "map block_descriptor_value (ir_blocks r)"]
    by (simp add: within_default_budget_def index_root_value_def text_pair_def u64_end_def)
  have blocks: "is_ok (encode_value (Array (map block_descriptor_value (ir_blocks r))))"
    using n assms(1) by (intro encode_array_ok) (auto simp: IndexRoot_wf_def intro: encodable)
  have content: "is_ok (encode_value (CMap (content_entries r)))"
    by (rule encode_text_map_ok [OF root_keys(2)])
       (use assms(1) in \<open>auto simp: content_entries_def text_pair_def IndexRoot_wf_def simp del: encode_value.simps
          intro: encodable\<close>, simp add: u64_end_def)
  have "is_ok (encode_value (index_root_value r))"
    unfolding root_value_eq
    by (rule encode_text_map_ok [OF root_keys(1)])
       (use assms(1) blocks content in \<open>auto simp: root_entries_def text_pair_def IndexRoot_wf_def SCHEMA_INDEX_ROOT_def
          simp del: encode_value.simps intro!: encodable\<close>, auto simp: u64_end_def)
  moreover have "nesting (index_root_value r) \<le> 64"
  proof -
    have "nesting (Array (map block_descriptor_value (ir_blocks r))) \<le> 3"
      using nesting_Array_all [of "map block_descriptor_value (ir_blocks r)" 2] descriptor_measures(2) assms(1)
      by (auto simp: IndexRoot_wf_def)
    moreover have "nesting (CMap (content_entries r)) = 2"
      using assms(1) checksum_measures [of "ir_original_checksum r"]
      by (simp add: content_entries_def text_pair_def u64_value_def IndexRoot_wf_def)
    ultimately show ?thesis
      by (simp add: root_value_eq root_entries_def text_pair_def version_value_def del: nesting.simps(1))
         (simp add: version_value_def)
  qed
  moreover have "texts_valid (index_root_value r)"
    using assms(1) descriptor_measures(1) checksum_measures(1)
    by (auto simp: index_root_value_def text_pair_def u64_value_def version_value_def IndexRoot_wf_def ascii_valid
        SCHEMA_INDEX_ROOT_def)
  ultimately show ?thesis
    using assms(2) by (simp add: decodable_def within_default_budget_def MAX_NESTING_DEPTH_def CborLimits_default_def)
qed

lemma root_roundtrip:
  assumes "IndexRoot_wf r" and "within_default_budget (index_root_value r)"
  shows "IndexRoot_encode r = Ok (enc (index_root_value r))"
    and "IndexRoot_decode (enc (index_root_value r)) = Ok r"
proof -
  show "IndexRoot_encode r = Ok (enc (index_root_value r))"
    using decodable_validates(1) [OF root_decodable [OF assms]] by (simp add: IndexRoot_encode_def)
  have d: "decodable (CMap (root_entries r))" using root_decodable [OF assms] by (simp add: root_value_eq)
  have k: "fst ` set (root_entries r) \<subseteq> Text ` set [''schema'', ''format_version'', ''container_id'', ''blocks'', ''content'']"
    by (simp add: root_entries_def text_pair_def)
  have kc: "reject_unknown_keys (centries (content_entries r))
      [''original_size'', ''original_checksum'', ''chunk_count'', ''line_count''] ContainerCorrupt = Ok ()"
    unfolding reject_centries [OF root_keys(2)] by (simp add: content_entries_def text_pair_def)
  have c: "required_checksum (centries (content_entries r)) ''original_checksum'' ContainerCorrupt = Ok (ir_original_checksum r)"
    using assms(1) by (intro required_checksum_centries [OF root_keys(2)]) (simp_all add: root_lookups IndexRoot_wf_def)
  have b: "rmap decode_block_descriptor (map canon (map block_descriptor_value (ir_blocks r))) = Ok (ir_blocks r)"
    using assms(1) decode_descriptor
    by (auto simp: rmap_Ok_iff list_all2_map1 IndexRoot_wf_def intro!: list.rel_refl_strong)
  have "filter is_required_chunk_table (ir_blocks r) \<noteq> []" using assms(1) by (auto simp: IndexRoot_wf_def)
  then show "IndexRoot_decode (enc (index_root_value r)) = Ok r"
    using assms(1) b
    by (simp add: root_value_eq IndexRoot_decode_def decode_prologue_centries [OF d root_keys(1) k root_lookups(1,2)]
        accessor_defs field_centries [OF root_keys(1)] field_centries [OF root_keys(2)] root_lookups kc c
        IndexRoot_wf_def Let_def)
qed

section \<open>Document index\<close>

definition DocumentEntry_wf :: "DocumentEntry \<Rightarrow> bool" where
  "DocumentEntry_wf d \<longleftrightarrow> valid_utf8 (as_bytes (doc_id d)) \<and> length (doc_id d) < u64_end \<and>
     length (doc_id_hash d) = 16 \<and> doc_logical_offset d < u64_end \<and> doc_byte_length d < u64_end \<and>
     doc_first_line d < u64_end \<and> doc_line_count d < u64_end \<and> doc_chunk_start d < u64_end \<and>
     doc_chunk_end d < u64_end \<and> Checksum_wf (doc_checksum d)"

definition document_entries :: "DocumentEntry \<Rightarrow> entries" where
  "document_entries d = (case document_entry_value d of CMap es \<Rightarrow> es | _ \<Rightarrow> [])"

lemma document_value_eq: "document_entry_value d = CMap (document_entries d)"
  by (simp add: document_entry_value_def document_entries_def)

lemma document_keys: "text_keys (document_entries d)"
  by (simp add: document_entries_def document_entry_value_def text_keys_simps)

lemma document_lookups:
  "map_of (document_entries d) (Text ''doc_id'') = Some (Text (doc_id d))"
  "map_of (document_entries d) (Text ''doc_id_hash'') = Some (Bytes (doc_id_hash d))"
  "map_of (document_entries d) (Text ''logical_offset'') = Some (u64_value (doc_logical_offset d))"
  "map_of (document_entries d) (Text ''byte_length'') = Some (u64_value (doc_byte_length d))"
  "map_of (document_entries d) (Text ''first_line'') = Some (u64_value (doc_first_line d))"
  "map_of (document_entries d) (Text ''line_count'') = Some (u64_value (doc_line_count d))"
  "map_of (document_entries d) (Text ''chunk_start'') = Some (u64_value (doc_chunk_start d))"
  "map_of (document_entries d) (Text ''chunk_end'') = Some (u64_value (doc_chunk_end d))"
  "map_of (document_entries d) (Text ''checksum'') = Some (checksum_value (doc_checksum d))"
  "map_of (document_entries d) (Text ''metadata'') = Some (CMap [])"
  by (simp_all add: document_entries_def document_entry_value_def text_pair_def)

lemma ok_document [encodable]: "DocumentEntry_wf d \<Longrightarrow> is_ok (encode_value (document_entry_value d))"
proof -
  assume wf: "DocumentEntry_wf d"
  have e: "is_ok (encode_value (CMap []))" by (simp add: u64_end_def)
  show ?thesis
    unfolding document_value_eq
    by (rule encode_text_map_ok [OF document_keys])
       (use wf e in \<open>auto simp: document_entries_def document_entry_value_def text_pair_def DocumentEntry_wf_def
          simp del: encode_value.simps intro!: encodable\<close>, auto simp: u64_end_def)
qed

lemma document_measures:
  assumes "DocumentEntry_wf d"
  shows "texts_valid (document_entry_value d)" "nesting (document_entry_value d) = 2"
  using assms checksum_measures [of "doc_checksum d"]
  by (simp_all add: document_entry_value_def text_pair_def u64_value_def DocumentEntry_wf_def ascii_valid)

lemma decode_document:
  assumes "DocumentEntry_wf d"
  shows "decode_document_entry (canon (document_entry_value d)) = Ok d"
proof -
  have r: "reject_unknown_keys (centries (document_entries d))
      [''doc_id'', ''doc_id_hash'', ''logical_offset'', ''byte_length'', ''first_line'', ''line_count'',
       ''chunk_start'', ''chunk_end'', ''checksum'', ''metadata''] ContainerCorrupt = Ok ()"
    unfolding reject_centries [OF document_keys]
    by (simp add: document_entries_def document_entry_value_def text_pair_def)
  have c: "required_checksum (centries (document_entries d)) ''checksum'' ContainerCorrupt = Ok (doc_checksum d)"
    using assms by (intro required_checksum_centries [OF document_keys])
      (simp_all add: document_lookups DocumentEntry_wf_def)
  show ?thesis
    using assms
    by (simp add: document_value_eq decode_document_entry_def r c accessor_defs DocumentEntry_wf_def
        field_centries [OF document_keys] document_lookups)
qed

lemma any_repeated_iff: "any_repeated seen ds \<longleftrightarrow> \<not> distinct ds \<or> set ds \<inter> seen \<noteq> {}"
  by (induction seen ds rule: any_repeated.induct) auto

lemma validate_unique_Ok_iff:
  "validate_unique_doc_ids idx = Ok () \<longleftrightarrow> distinct (map doc_id (di_documents idx))"
  by (simp add: validate_unique_doc_ids_def any_repeated_iff)

definition DocumentIndex_wf :: "DocumentIndex \<Rightarrow> bool" where
  "DocumentIndex_wf idx \<longleftrightarrow> length (di_container_id idx) = 16 \<and> (\<forall>d \<in> set (di_documents idx). DocumentEntry_wf d) \<and>
     distinct (map doc_id (di_documents idx))"

definition document_index_value :: "DocumentIndex \<Rightarrow> CborValue" where
  "document_index_value idx = value_with_documents idx (map document_entry_value (di_documents idx))"

definition docs_entries :: "DocumentIndex \<Rightarrow> entries" where
  "docs_entries idx = [text_pair ''schema'' (Text SCHEMA_DOCUMENT_INDEX), text_pair ''format_version'' version_value,
     text_pair ''container_id'' (Bytes (di_container_id idx)),
     text_pair ''documents'' (Array (map document_entry_value (di_documents idx)))]"

lemma docs_value_eq: "document_index_value idx = CMap (docs_entries idx)"
  by (simp add: document_index_value_def value_with_documents_def docs_entries_def)

lemma docs_keys: "text_keys (docs_entries idx)"
  by (simp add: docs_entries_def text_keys_simps)

lemma docs_lookups:
  "map_of (docs_entries idx) (Text ''schema'') = Some (Text SCHEMA_DOCUMENT_INDEX)"
  "map_of (docs_entries idx) (Text ''format_version'') = Some version_value"
  "map_of (docs_entries idx) (Text ''container_id'') = Some (Bytes (di_container_id idx))"
  "map_of (docs_entries idx) (Text ''documents'') = Some (Array (map document_entry_value (di_documents idx)))"
  by (simp_all add: docs_entries_def text_pair_def)

lemma docs_decodable:
  assumes "DocumentIndex_wf idx" and "within_default_budget (document_index_value idx)"
  shows "decodable (document_index_value idx)"
proof -
  have n: "length (di_documents idx) < u64_end"
    using assms(2) length_le_items [of "map document_entry_value (di_documents idx)"]
    by (simp add: within_default_budget_def docs_value_eq docs_entries_def text_pair_def u64_end_def)
  have docs: "is_ok (encode_value (Array (map document_entry_value (di_documents idx))))"
    using n assms(1) by (intro encode_array_ok) (auto simp: DocumentIndex_wf_def intro: encodable)
  have "is_ok (encode_value (document_index_value idx))"
    unfolding docs_value_eq
    by (rule encode_text_map_ok [OF docs_keys])
       (use assms(1) docs in \<open>auto simp: docs_entries_def text_pair_def DocumentIndex_wf_def SCHEMA_DOCUMENT_INDEX_def
          simp del: encode_value.simps intro!: encodable\<close>, auto simp: u64_end_def)
  moreover have "nesting (Array (map document_entry_value (di_documents idx))) \<le> 3"
    using nesting_Array_all [of "map document_entry_value (di_documents idx)" 2] document_measures(2) assms(1)
    by (auto simp: DocumentIndex_wf_def)
  then have "nesting (document_index_value idx) \<le> 64"
    by (simp add: docs_value_eq docs_entries_def text_pair_def version_value_def del: nesting.simps(1))
       (simp add: version_value_def)
  moreover have "texts_valid (document_index_value idx)"
    using assms(1) document_measures(1)
    by (auto simp: docs_value_eq docs_entries_def text_pair_def version_value_def DocumentIndex_wf_def ascii_valid
        SCHEMA_DOCUMENT_INDEX_def)
  ultimately show ?thesis
    using assms(2) by (simp add: decodable_def within_default_budget_def MAX_NESTING_DEPTH_def CborLimits_default_def)
qed

lemma docs_roundtrip:
  assumes "DocumentIndex_wf idx" and "within_default_budget (document_index_value idx)"
  shows "DocumentIndex_encode idx = Ok (enc (document_index_value idx))"
    and "DocumentIndex_decode (enc (document_index_value idx)) = Ok idx"
proof -
  have u: "validate_unique_doc_ids idx = Ok ()" using assms(1) by (simp add: validate_unique_Ok_iff DocumentIndex_wf_def)
  show "DocumentIndex_encode idx = Ok (enc (document_index_value idx))"
    using decodable_validates(1) [OF docs_decodable [OF assms]] u
    by (simp add: DocumentIndex_encode_def document_index_value_def)
  have d: "decodable (CMap (docs_entries idx))" using docs_decodable [OF assms] by (simp add: docs_value_eq)
  have k: "fst ` set (docs_entries idx) \<subseteq> Text ` set [''schema'', ''format_version'', ''container_id'', ''documents'']"
    by (simp add: docs_entries_def text_pair_def)
  have b: "rmap decode_document_entry (map canon (map document_entry_value (di_documents idx))) = Ok (di_documents idx)"
    using assms(1) decode_document
    by (auto simp: rmap_Ok_iff list_all2_map1 DocumentIndex_wf_def intro!: list.rel_refl_strong)
  have u': "validate_unique_doc_ids \<lparr>di_container_id = c, di_documents = di_documents idx\<rparr> = Ok ()" for c
    using u by (simp add: validate_unique_Ok_iff)
  show "DocumentIndex_decode (enc (document_index_value idx)) = Ok idx"
    unfolding docs_value_eq
    using assms(1) b u'
    by (simp add: docs_value_eq DocumentIndex_decode_def decode_prologue_centries [OF d docs_keys k docs_lookups(1,2)]
        accessor_defs field_centries [OF docs_keys] docs_lookups DocumentIndex_wf_def Let_def)
qed

text \<open>The incremental measurement of the writer is the measurement of the whole block.\<close>

lemma writer_usage_fold:
  assumes "rfold (\<lambda>usage document.
            rbind (usize_to_u64 (length (doc_id document))) (\<lambda>len.
            if len > m - usage_allocation usage then Err ResourceLimitExceeded
            else
              rbind (measure_value (document_entry_value document)) (\<lambda>u.
              rbind (CborUsage_add usage u) (\<lambda>usage.
              rbind (CborUsage_enforce usage climits block) (\<lambda>_.
              Ok usage))))) u ds = Ok u'"
    and "CborUsage_enforce u climits block = Ok ()"
  shows "CborUsage_enforce u' climits block = Ok () \<and>
     usage_items u' = usage_items u + sum_list (map (cbor_items \<circ> document_entry_value) ds) \<and>
     usage_allocation u' = usage_allocation u + sum_list (map (cbor_alloc \<circ> document_entry_value) ds) \<and>
     usage_encoded_bytes u' = usage_encoded_bytes u + sum_list (map (cbor_size \<circ> document_entry_value) ds)"
  using assms
proof (induction ds arbitrary: u)
  case (Cons d ds)
  from Cons.prems(1) obtain du u1 where du: "measure_value (document_entry_value d) = Ok du"
    and u1: "CborUsage_add u du = Ok u1" "CborUsage_enforce u1 climits block = Ok ()"
    and rest: "rfold (\<lambda>usage document.
            rbind (usize_to_u64 (length (doc_id document))) (\<lambda>len.
            if len > m - usage_allocation usage then Err ResourceLimitExceeded
            else
              rbind (measure_value (document_entry_value document)) (\<lambda>u.
              rbind (CborUsage_add usage u) (\<lambda>usage.
              rbind (CborUsage_enforce usage climits block) (\<lambda>_.
              Ok usage))))) u1 ds = Ok u'"
    by (auto simp: rbind_Ok_iff result_simps)
  have "du = usage_of (document_entry_value d)" using du by (rule measure_value_usage)
  then show ?case
    using Cons.IH [OF rest u1(2)] u1(1) by (simp add: CborUsage_add_Ok_iff)
qed simp

lemma validate_for_writer_Ok:
  assumes "validate_for_writer idx limits = Ok ()"
  shows "cbor_items (document_index_value idx) \<le> max_cbor_items limits"
    and "cbor_alloc (document_index_value idx) \<le> max_cbor_allocation limits"
    and "cbor_size (document_index_value idx) \<le> max_index_block_size limits"
proof -
  let ?climits = "\<lparr>max_allocation = max_cbor_allocation limits, max_items = max_cbor_items limits\<rparr>"
  let ?n = "length (di_documents idx)"
  from assms obtain u e u' where u: "measure_value (value_with_documents idx []) = Ok u"
    and e: "e = usage_encoded_bytes u + (head_len ?n - head_len 0)"
    and enf: "CborUsage_enforce (u\<lparr>usage_encoded_bytes := e\<rparr>) ?climits (max_index_block_size limits) = Ok ()"
    and f: "rfold (\<lambda>usage document.
            rbind (usize_to_u64 (length (doc_id document))) (\<lambda>len.
            if len > max_cbor_allocation limits - usage_allocation usage then Err ResourceLimitExceeded
            else
              rbind (measure_value (document_entry_value document)) (\<lambda>u.
              rbind (CborUsage_add usage u) (\<lambda>usage.
              rbind (CborUsage_enforce usage ?climits (max_index_block_size limits)) (\<lambda>_.
              Ok usage))))) (u\<lparr>usage_encoded_bytes := e\<rparr>) (di_documents idx) = Ok u'"
    unfolding validate_for_writer_def Let_def
    by (auto simp: rbind_Ok_iff result_simps width_simps simp del: measure_value.simps)
  have ue: "u = usage_of (value_with_documents idx [])" using u by (rule measure_value_usage)
  have "1 \<le> head_len ?n" by (rule head_len_bounds)
  then show "cbor_items (document_index_value idx) \<le> max_cbor_items limits"
    and "cbor_alloc (document_index_value idx) \<le> max_cbor_allocation limits"
    and "cbor_size (document_index_value idx) \<le> max_index_block_size limits"
    using writer_usage_fold [OF f enf] e
    by (auto simp: ue CborUsage_enforce_def document_index_value_def value_with_documents_def text_pair_def
        head_len_def [of 0] split: if_splits)
qed

section \<open>Properties\<close>

text \<open>
  A footer payload survives the container. Encoding any well-formed payload (identifier
  of 16 bytes, 64-bit fields, BLAKE3 checksums of 32 bytes, no flags) succeeds, and decoding
  the bytes returns it unchanged, the optional container checksum included.
\<close>

theorem FooterPayload_roundtrip:
  assumes "FooterPayload_wf f"
  shows "\<exists>bs. FooterPayload_encode f = Ok bs \<and> FooterPayload_decode bs = Ok f"
  using footer_roundtrip [OF assms] by blast

text \<open>
  C32: metadata survives the container. Encoding any well-formed metadata succeeds, and
  decoding the bytes passes every check of the decoder and returns it unchanged.
\<close>

theorem Metadata_roundtrip:
  assumes "Metadata_wf m"
  shows "\<exists>bs. Metadata_encode m = Ok bs \<and> Metadata_decode bs = Ok m"
  using metadata_roundtrip [OF assms] by blast

definition sample_checksum :: Checksum where
  "sample_checksum = \<lparr>cs_algorithm = ''blake3'', cs_value = replicate 32 7\<rparr>"

definition sample_footer :: FooterPayload where
  "sample_footer = \<lparr>fp_container_id = replicate 16 1,
     fp_index_root = \<lparr>br_offset = 200, br_size = 50, br_checksum = sample_checksum\<rparr>,
     fp_metadata = \<lparr>br_offset = 128, br_size = 72, br_checksum = sample_checksum\<rparr>,
     fp_final_file_size = 1000, fp_footer_flags = 0, fp_container_checksum = Some sample_checksum\<rparr>"

theorem FooterPayload_roundtrip_witness:
  "\<exists>bs. FooterPayload_encode sample_footer = Ok bs \<and> FooterPayload_decode bs = Ok sample_footer"
  by (rule FooterPayload_roundtrip)
     (simp add: sample_footer_def FooterPayload_wf_def BlockRef_wf_def Checksum_wf_def sample_checksum_def
        CHECKSUM_ALGORITHM_BLAKE3_def u64_end_def)

definition sample_metadata :: Metadata where
  "sample_metadata = Metadata_for_source (replicate 16 1) 10 sample_checksum ''lf'' 2"

theorem Metadata_roundtrip_witness:
  "\<exists>bs. Metadata_encode sample_metadata = Ok bs \<and> Metadata_decode bs = Ok sample_metadata"
  by (rule Metadata_roundtrip)
     (simp add: sample_metadata_def Metadata_for_source_def Metadata_for_source_with_options_def
        MetadataOptions_default_def Metadata_wf_def Checksum_wf_def sample_checksum_def
        CHECKSUM_ALGORITHM_BLAKE3_def u64_end_def)

text \<open>
  C31: an index root survives the container. For a well-formed index root within the default
  CBOR budgets (one required chunk table; no other required block), encoding succeeds and
  decoding the bytes returns it, and its chunk table block is found.
\<close>

theorem IndexRoot_roundtrip:
  assumes "IndexRoot_wf r" and "within_default_budget (index_root_value r)"
  shows "\<exists>bs b. IndexRoot_encode r = Ok bs \<and> IndexRoot_decode bs = Ok r \<and>
     chunk_table_block r = Ok b \<and> b \<in> set (ir_blocks r) \<and> bd_block_type b = CHUNK_TABLE_TYPE"
proof -
  have "filter is_required_chunk_table (ir_blocks r) \<noteq> []" using assms(1) by (auto simp: IndexRoot_wf_def)
  then have "\<exists>b \<in> set (ir_blocks r). is_required_chunk_table b" by (auto simp: filter_empty_conv)
  then obtain b where f: "find is_required_chunk_table (ir_blocks r) = Some b"
    by (cases "find is_required_chunk_table (ir_blocks r)") (auto simp: find_None_iff)
  then have "b \<in> set (ir_blocks r) \<and> is_required_chunk_table b"
    by (induction "ir_blocks r" arbitrary: r) (auto simp: find_Some_iff)
  then show ?thesis
    using root_roundtrip [OF assms] f by (auto simp: chunk_table_block_def is_required_chunk_table_def)
qed

definition sample_root :: IndexRoot where
  "sample_root = \<lparr>ir_container_id = replicate 16 1,
     ir_blocks = [BlockDescriptor_chunk_table 128 256 sample_checksum], ir_original_size = 10,
     ir_original_checksum = sample_checksum, ir_chunk_count = 2, ir_line_count = 5\<rparr>"

theorem IndexRoot_roundtrip_witness:
  "\<exists>bs. IndexRoot_encode sample_root = Ok bs \<and> IndexRoot_decode bs = Ok sample_root"
proof -
  have "IndexRoot_wf sample_root"
    by (simp add: sample_root_def IndexRoot_wf_def BlockDescriptor_wf_def BlockDescriptor_chunk_table_def
        BlockDescriptor_new_def CHUNK_TABLE_TYPE_def CHUNK_TABLE_CODEC_def ascii_valid Checksum_wf_def
        sample_checksum_def CHECKSUM_ALGORITHM_BLAKE3_def u64_end_def is_required_chunk_table_def)
  moreover have "within_default_budget (index_root_value sample_root)"
    by (simp add: within_default_budget_def index_root_value_def sample_root_def text_pair_def u64_value_def
        version_value_def block_descriptor_value_def checksum_value_def BlockDescriptor_chunk_table_def
        BlockDescriptor_new_def CHUNK_TABLE_TYPE_def CHUNK_TABLE_CODEC_def sample_checksum_def SCHEMA_INDEX_ROOT_def
        head_len_def)
  ultimately show ?thesis using IndexRoot_roundtrip by blast
qed

text \<open>
  C30: the writer's checks of a document index decide what the reader accepts. Take an index
  whose fields are in range (16-byte identifiers, valid identifier texts, 32-byte BLAKE3
  checksums) and limits whose CBOR budgets are no larger than the defaults the decoder uses.
  When the incremental check accepts the index, its identifiers decide the rest: if they are
  distinct the uniqueness check passes, encoding succeeds within the block size limit and
  decoding returns the index; if one occurs twice, the uniqueness check and the encoder both
  report the duplicate.
\<close>

definition DocumentIndex_fields :: "DocumentIndex \<Rightarrow> bool" where
  "DocumentIndex_fields idx \<longleftrightarrow>
     length (di_container_id idx) = 16 \<and> list_all DocumentEntry_wf (di_documents idx)"

theorem document_index_writer_reader:
  assumes "DocumentIndex_fields idx" and "validate_for_writer idx limits = Ok ()"
    and "max_cbor_items limits \<le> 1000000" and "max_cbor_allocation limits \<le> 16777216"
  shows "if distinct (map doc_id (di_documents idx))
     then validate_unique_doc_ids idx = Ok () \<and>
       (\<exists>bs. DocumentIndex_encode idx = Ok bs \<and> length bs \<le> max_index_block_size limits \<and>
         DocumentIndex_decode bs = Ok idx)
     else validate_unique_doc_ids idx = Err DuplicateDocumentId \<and>
       DocumentIndex_encode idx = Err DuplicateDocumentId"
proof (cases "distinct (map doc_id (di_documents idx))")
  case True
  with assms(1) have wf: "DocumentIndex_wf idx"
    by (auto simp: DocumentIndex_wf_def DocumentIndex_fields_def list_all_iff)
  note v = validate_for_writer_Ok [OF assms(2)]
  have b: "within_default_budget (document_index_value idx)"
    using v assms(3,4) by (simp add: within_default_budget_def)
  have "encode_value (document_index_value idx) = Ok (enc (document_index_value idx))"
    using docs_decodable [OF wf b] by (simp add: decodable_def encode_enc)
  then have "length (enc (document_index_value idx)) \<le> max_index_block_size limits"
    using encode_length v(3) by metis
  then show ?thesis using docs_roundtrip [OF wf b] True by (auto simp: validate_unique_Ok_iff)
next
  case False
  then have "validate_unique_doc_ids idx = Err DuplicateDocumentId"
    by (simp add: validate_unique_doc_ids_def any_repeated_iff)
  then show ?thesis using False by (simp add: DocumentIndex_encode_def)
qed

definition sample_documents :: DocumentIndex where
  "sample_documents = \<lparr>di_container_id = replicate 16 1,
     di_documents = [DocumentEntry_new toy_ext ''a'' 0 4 0 2 0 1 sample_checksum]\<rparr>"

text \<open>The sample, once with one entry and once with that entry repeated.\<close>

definition repeated_documents :: DocumentIndex where
  "repeated_documents = sample_documents\<lparr>di_documents := di_documents sample_documents @ di_documents sample_documents\<rparr>"

theorem document_index_writer_reader_witness:
  "(\<exists>bs. DocumentIndex_encode sample_documents = Ok bs \<and> DocumentIndex_decode bs = Ok sample_documents) \<and>
   DocumentIndex_encode repeated_documents = Err DuplicateDocumentId"
proof -
  have h: "length (blake3_hash toy_ext bs) = 32" for bs using toy_blake3 by (rule blake3_length)
  have f: "DocumentIndex_fields sample_documents" "DocumentIndex_fields repeated_documents"
    by (simp_all add: repeated_documents_def sample_documents_def DocumentIndex_fields_def DocumentEntry_wf_def
        DocumentEntry_new_def ascii_valid Checksum_wf_def sample_checksum_def CHECKSUM_ALGORITHM_BLAKE3_def
        u64_end_def h)
  have "validate_for_writer sample_documents ResourceLimits_default = Ok ()"
    "validate_for_writer repeated_documents ResourceLimits_default = Ok ()"
    by (simp_all add: validate_for_writer_def Let_def repeated_documents_def sample_documents_def
        DocumentEntry_new_def value_with_documents_def document_entry_value_def text_pair_def version_value_def
        checksum_value_def sample_checksum_def u64_value_def u64_try_from_def payload_usage_def CborUsage_add_def
        CborUsage_enforce_def checked_add_def u64_end_def head_len_def ResourceLimits_default_def
        SCHEMA_DOCUMENT_INDEX_def h)
  then show ?thesis
    using document_index_writer_reader [OF f(1), of ResourceLimits_default]
      document_index_writer_reader [OF f(2), of ResourceLimits_default]
    by (auto simp: ResourceLimits_default_def sample_documents_def repeated_documents_def)
qed

end
