(* ===== verification/Skeleton.thy ===== *)
theory Skeleton
  imports Io Fixed Dense_Line_Index Schema_Correct
begin

text \<open>
  Opening a container (src/src/skeleton.rs): header, trailer, footer payload, metadata, index
  root and chunk table are located, checked and cross-checked, then the optional dictionary,
  dense line index and document index blocks are read. The source has the opener twice, over
  bytes in memory and over a positioned reader; both are translated, and shown to agree.
\<close>

record SkeletonSummary =
  ss_container_id :: bytes
  ss_original_size :: u64
  ss_chunk_count :: u64
  ss_line_count :: u64

record SkeletonDetails =
  sk_summary :: SkeletonSummary
  sk_chunk_entries :: "ChunkEntry list"
  sk_metadata :: Metadata
  sk_footer_payload :: FooterPayload
  sk_footer_payload_offset :: u64
  sk_dictionaries :: "DictionaryEntry list"
  sk_dense_line_index :: "DenseLineIndex option"
  sk_document_index :: "DocumentIndex option"
  sk_document_lookup :: "string \<rightharpoonup> usize"

text \<open>\<open>lookup.entry(key).or_insert(index)\<close>.\<close>

definition or_insert :: "(string \<rightharpoonup> usize) \<Rightarrow> string \<Rightarrow> usize \<Rightarrow> (string \<rightharpoonup> usize)" where
  "or_insert lookup key index = (case lookup key of Some _ \<Rightarrow> lookup | None \<Rightarrow> lookup(key \<mapsto> index))"

definition build_document_lookup :: "DocumentIndex option \<Rightarrow> (string \<rightharpoonup> usize)" where
  "build_document_lookup document_index =
     (case document_index of
        None \<Rightarrow> Map.empty
      | Some di \<Rightarrow> foldl (\<lambda>lookup (index, document). or_insert lookup (doc_id document) index)
                    Map.empty (enumerate 0 (di_documents di)))"

section \<open>Locating blocks\<close>

definition slice_physical :: "bytes \<Rightarrow> PhysicalRange \<Rightarrow> bytes result" where
  "slice_physical bs rng =
     rbind (checked_physical_end (pr_offset rng) (pr_size rng)) (\<lambda>e.
     if e > length bs then Err PhysicalRangeOutOfBounds
     else
       rbind (if pr_offset rng < u64_end then Ok (pr_offset rng) else Err PhysicalRangeOutOfBounds) (\<lambda>start.
       rbind (if e < u64_end then Ok e else Err PhysicalRangeOutOfBounds) (\<lambda>e.
       ok_or (get_slice bs start e) PhysicalRangeOutOfBounds)))"

definition slice_block_ref :: "bytes \<Rightarrow> BlockRef \<Rightarrow> bytes result" where
  "slice_block_ref bs block = slice_physical bs (PhysicalRange_new (br_offset block) (br_size block))"

definition read_exact_at_qzt :: "reader \<Rightarrow> u64 \<Rightarrow> usize \<Rightarrow> bytes result" where
  "read_exact_at_qzt reader offset n =
     map_err (\<lambda>kind. case kind of KindUnexpectedEof \<Rightarrow> UnexpectedEof | _ \<Rightarrow> ContainerCorrupt)
       (reader offset n)"

text \<open>\<open>try_reserve_exact\<close> refuses a capacity above \<open>isize::MAX\<close>; an exhausted allocator is outside the model.\<close>

definition try_reserve_exact :: "usize \<Rightarrow> unit option" where
  "try_reserve_exact n = (if n < isize_end then Some () else None)"

definition read_physical_at :: "reader \<Rightarrow> u64 \<Rightarrow> PhysicalRange \<Rightarrow> bytes result" where
  "read_physical_at reader final_file_size rng =
     rbind (checked_physical_end (pr_offset rng) (pr_size rng)) (\<lambda>e.
     if e > final_file_size then Err PhysicalRangeOutOfBounds
     else
       rbind (u64_to_usize (pr_size rng)) (\<lambda>len.
       rbind (ok_or (try_reserve_exact len) ResourceLimitExceeded) (\<lambda>_.
       read_exact_at_qzt reader (pr_offset rng) len)))"

definition read_block_ref_at :: "reader \<Rightarrow> u64 \<Rightarrow> BlockRef \<Rightarrow> bytes result" where
  "read_block_ref_at reader final_file_size block =
     read_physical_at reader final_file_size (PhysicalRange_new (br_offset block) (br_size block))"

section \<open>Optional blocks, from bytes\<close>

definition blocks_of_type :: "string \<Rightarrow> IndexRoot \<Rightarrow> BlockDescriptor list" where
  "blocks_of_type block_type index_root = filter (\<lambda>block. bd_block_type block = block_type) (ir_blocks index_root)"

text \<open>The inner loop over the entries of one dictionary block.\<close>

definition push_dictionary :: "DictionaryEntry list \<Rightarrow> DictionaryEntry \<Rightarrow> DictionaryEntry list result" where
  "push_dictionary dictionaries entry =
     (if \<exists>existing \<in> set dictionaries. de_dictionary_id existing = de_dictionary_id entry
      then Err ContainerCorrupt else Ok (dictionaries @ [entry]))"

definition parse_dictionary_blocks ::
  "('h, 'x) ext_scheme \<Rightarrow> bytes \<Rightarrow> IndexRoot \<Rightarrow> bytes \<Rightarrow> ResourceLimits \<Rightarrow> DictionaryEntry list result"
where
  "parse_dictionary_blocks X bs index_root cid limits =
     rfold (\<lambda>dictionaries descriptor.
       if bd_required descriptor \<or> bd_codec descriptor \<noteq> ''qzt-dict-cbor-v1'' then Err ContainerCorrupt
       else
         rbind (enforce_index_block_size limits (bd_size descriptor)) (\<lambda>_.
         rbind (slice_physical bs (PhysicalRange_new (bd_offset descriptor) (bd_size descriptor))) (\<lambda>dictionary_bytes.
         if Checksum_blake3 X dictionary_bytes \<noteq> bd_checksum descriptor then Err DictionaryChecksumMismatch
         else
           rbind (validate_deterministic_with_limits dictionary_bytes (cbor_limits limits)) (\<lambda>_.
           rbind (DictionaryBlock_decode_with_limits X dictionary_bytes (max_dictionary_size limits)) (\<lambda>block.
           if db_container_id block \<noteq> cid then Err ContainerIdMismatch
           else rfold push_dictionary dictionaries (db_dictionaries block))))))
     [] (blocks_of_type ''dictionary'' index_root)"

definition validate_required_dictionaries :: "ChunkEntry list \<Rightarrow> DictionaryEntry list \<Rightarrow> unit result" where
  "validate_required_dictionaries chunk_entries dictionaries =
     rfold (\<lambda>_ entry.
       if dictionary_id entry = 0 then Ok ()
       else if \<not> (\<exists>dictionary \<in> set dictionaries. de_dictionary_id dictionary = dictionary_id entry)
       then Err MissingDictionary else Ok ()) () chunk_entries"

definition parse_dense_line_index ::
  "('h, 'x) ext_scheme \<Rightarrow> bytes \<Rightarrow> IndexRoot \<Rightarrow> ChunkEntry list \<Rightarrow> ResourceLimits \<Rightarrow> DenseLineIndex option result"
where
  "parse_dense_line_index X bs index_root chunk_entries limits =
     rfold (\<lambda>dense descriptor.
       if bd_required descriptor \<or> bd_codec descriptor \<noteq> ''qzt-line-delta-varint-v1'' then Err ChunkTableInvalid
       else if dense \<noteq> None then Err ChunkTableInvalid
       else
         rbind (slice_physical bs (PhysicalRange_new (bd_offset descriptor) (bd_size descriptor))) (\<lambda>dense_bytes.
         if Checksum_blake3 X dense_bytes \<noteq> bd_checksum descriptor then Err ChunkTableChecksumMismatch
         else
           rbind (decode_for_chunks_with_limit dense_bytes chunk_entries (max_dense_line_index_allocation limits)) (\<lambda>idx.
           Ok (Some idx))))
     None (blocks_of_type ''dense_line_index'' index_root)"

definition parse_document_index ::
  "('h, 'x) ext_scheme \<Rightarrow> bytes \<Rightarrow> IndexRoot \<Rightarrow> bytes \<Rightarrow> ResourceLimits \<Rightarrow> DocumentIndex option result"
where
  "parse_document_index X bs index_root cid limits =
     rfold (\<lambda>document_index descriptor.
       if bd_required descriptor \<or> bd_codec descriptor \<noteq> ''qzt-doc-index-cbor-v1'' then Err ContainerCorrupt
       else if document_index \<noteq> None then Err ContainerCorrupt
       else
         rbind (slice_physical bs (PhysicalRange_new (bd_offset descriptor) (bd_size descriptor))) (\<lambda>document_bytes.
         if Checksum_blake3 X document_bytes \<noteq> bd_checksum descriptor then Err ContainerCorrupt
         else
           rbind (validate_deterministic_with_limits document_bytes (cbor_limits limits)) (\<lambda>_.
           rbind (DocumentIndex_decode document_bytes) (\<lambda>block.
           if di_container_id block \<noteq> cid then Err ContainerIdMismatch
           else Ok (Some block)))))
     None (blocks_of_type ''document_index'' index_root)"

section \<open>Optional blocks, from a reader\<close>

definition parse_dictionary_blocks_at ::
  "('h, 'x) ext_scheme \<Rightarrow> reader \<Rightarrow> u64 \<Rightarrow> IndexRoot \<Rightarrow> bytes \<Rightarrow> ResourceLimits \<Rightarrow> DictionaryEntry list result"
where
  "parse_dictionary_blocks_at X reader final_file_size index_root cid limits =
     rfold (\<lambda>dictionaries descriptor.
       if bd_required descriptor \<or> bd_codec descriptor \<noteq> ''qzt-dict-cbor-v1'' then Err ContainerCorrupt
       else
         rbind (enforce_index_block_size limits (bd_size descriptor)) (\<lambda>_.
         rbind (read_physical_at reader final_file_size
                  (PhysicalRange_new (bd_offset descriptor) (bd_size descriptor))) (\<lambda>dictionary_bytes.
         if Checksum_blake3 X dictionary_bytes \<noteq> bd_checksum descriptor then Err DictionaryChecksumMismatch
         else
           rbind (validate_deterministic_with_limits dictionary_bytes (cbor_limits limits)) (\<lambda>_.
           rbind (DictionaryBlock_decode_with_limits X dictionary_bytes (max_dictionary_size limits)) (\<lambda>block.
           if db_container_id block \<noteq> cid then Err ContainerIdMismatch
           else rfold push_dictionary dictionaries (db_dictionaries block))))))
     [] (blocks_of_type ''dictionary'' index_root)"

definition parse_dense_line_index_at ::
  "('h, 'x) ext_scheme \<Rightarrow> reader \<Rightarrow> u64 \<Rightarrow> IndexRoot \<Rightarrow> ChunkEntry list \<Rightarrow> ResourceLimits
     \<Rightarrow> DenseLineIndex option result"
where
  "parse_dense_line_index_at X reader final_file_size index_root chunk_entries limits =
     rfold (\<lambda>dense descriptor.
       if bd_required descriptor \<or> bd_codec descriptor \<noteq> ''qzt-line-delta-varint-v1'' then Err ChunkTableInvalid
       else if dense \<noteq> None then Err ChunkTableInvalid
       else
         rbind (read_physical_at reader final_file_size
                  (PhysicalRange_new (bd_offset descriptor) (bd_size descriptor))) (\<lambda>dense_bytes.
         if Checksum_blake3 X dense_bytes \<noteq> bd_checksum descriptor then Err ChunkTableChecksumMismatch
         else
           rbind (decode_for_chunks_with_limit dense_bytes chunk_entries (max_dense_line_index_allocation limits)) (\<lambda>idx.
           Ok (Some idx))))
     None (blocks_of_type ''dense_line_index'' index_root)"

definition parse_document_index_at ::
  "('h, 'x) ext_scheme \<Rightarrow> reader \<Rightarrow> u64 \<Rightarrow> IndexRoot \<Rightarrow> bytes \<Rightarrow> ResourceLimits \<Rightarrow> DocumentIndex option result"
where
  "parse_document_index_at X reader final_file_size index_root cid limits =
     rfold (\<lambda>document_index descriptor.
       if bd_required descriptor \<or> bd_codec descriptor \<noteq> ''qzt-doc-index-cbor-v1'' then Err ContainerCorrupt
       else if document_index \<noteq> None then Err ContainerCorrupt
       else
         rbind (read_physical_at reader final_file_size
                  (PhysicalRange_new (bd_offset descriptor) (bd_size descriptor))) (\<lambda>document_bytes.
         if Checksum_blake3 X document_bytes \<noteq> bd_checksum descriptor then Err ContainerCorrupt
         else
           rbind (validate_deterministic_with_limits document_bytes (cbor_limits limits)) (\<lambda>_.
           rbind (DocumentIndex_decode document_bytes) (\<lambda>block.
           if di_container_id block \<noteq> cid then Err ContainerIdMismatch
           else Ok (Some block)))))
     None (blocks_of_type ''document_index'' index_root)"

section \<open>Opening\<close>

text \<open>The ranges whose disjointness is checked, in the order the source collects them.\<close>

definition physical_ranges ::
  "Header \<Rightarrow> FooterTrailer \<Rightarrow> FooterPayload \<Rightarrow> IndexRoot \<Rightarrow> BlockDescriptor \<Rightarrow> ChunkEntry list \<Rightarrow> PhysicalRange list"
where
  "physical_ranges header trailer footer_payload index_root chunk_table chunk_entries =
     [PhysicalRange_new (metadata_offset header) (metadata_size header),
      PhysicalRange_new (br_offset (fp_index_root footer_payload)) (br_size (fp_index_root footer_payload)),
      PhysicalRange_new (footer_payload_offset trailer) (footer_payload_size trailer),
      PhysicalRange_new (bd_offset chunk_table) (bd_size chunk_table)] @
     map (\<lambda>block. PhysicalRange_new (bd_offset block) (bd_size block))
       (filter (\<lambda>block. bd_block_type block \<notin> {''metadata'', ''chunk_table''}) (ir_blocks index_root)) @
     map (\<lambda>entry. PhysicalRange_new (physical_offset entry) (compressed_size entry)) chunk_entries"

definition skeleton_details ::
  "Header \<Rightarrow> FooterTrailer \<Rightarrow> FooterPayload \<Rightarrow> Metadata \<Rightarrow> IndexRoot \<Rightarrow> ChunkEntry list \<Rightarrow>
   DictionaryEntry list \<Rightarrow> DenseLineIndex option \<Rightarrow> DocumentIndex option \<Rightarrow> SkeletonDetails"
where
  "skeleton_details header trailer footer_payload metadata index_root chunk_entries dictionaries dense documents =
     \<lparr>sk_summary = \<lparr>ss_container_id = h_container_id header, ss_original_size = ir_original_size index_root,
        ss_chunk_count = ir_chunk_count index_root, ss_line_count = ir_line_count index_root\<rparr>,
      sk_chunk_entries = chunk_entries, sk_metadata = metadata, sk_footer_payload = footer_payload,
      sk_footer_payload_offset = footer_payload_offset trailer, sk_dictionaries = dictionaries,
      sk_dense_line_index = dense, sk_document_index = documents,
      sk_document_lookup = build_document_lookup documents\<rparr>"

definition open_skeleton_details_with_limits ::
  "('h, 'x) ext_scheme \<Rightarrow> bytes \<Rightarrow> ResourceLimits \<Rightarrow> SkeletonDetails result"
where
  "open_skeleton_details_with_limits X bs limits =
     (if length bs < HEADER_LEN then Err InvalidHeader
      else if length bs < HEADER_LEN + FOOTER_TRAILER_LEN then Err InvalidFooterTrailer
      else
        rbind (usize_to_u64 (length bs)) (\<lambda>final_file_size.
        rbind (Header_decode (slice bs 0 HEADER_LEN)) (\<lambda>header.
        rbind (FooterTrailer_decode (slice bs (length bs - FOOTER_TRAILER_LEN) (length bs))) (\<lambda>trailer.
        rbind (slice_physical bs
          (PhysicalRange_new (footer_payload_offset trailer) (footer_payload_size trailer))) (\<lambda>footer_payload_bytes.
        if cs_value (Checksum_blake3 X footer_payload_bytes) \<noteq> footer_payload_checksum_blake3 trailer
        then Err FooterChecksumMismatch else
        rbind (validate_deterministic_with_limits footer_payload_bytes (cbor_limits limits)) (\<lambda>_.
        rbind (FooterPayload_decode footer_payload_bytes) (\<lambda>footer_payload.
        if fp_final_file_size footer_payload \<noteq> final_file_size then Err FinalFileSizeMismatch else
        if fp_container_id footer_payload \<noteq> h_container_id header then Err ContainerIdMismatch else
        if br_offset (fp_metadata footer_payload) \<noteq> metadata_offset header \<or>
           br_size (fp_metadata footer_payload) \<noteq> metadata_size header then Err MetadataInvalid else
        rbind (enforce_index_block_size limits (br_size (fp_metadata footer_payload))) (\<lambda>_.
        rbind (slice_block_ref bs (fp_metadata footer_payload)) (\<lambda>metadata_bytes.
        if Checksum_blake3 X metadata_bytes \<noteq> br_checksum (fp_metadata footer_payload)
        then Err MetadataChecksumMismatch else
        rbind (validate_deterministic_with_limits metadata_bytes (cbor_limits limits)) (\<lambda>_.
        rbind (Metadata_decode metadata_bytes) (\<lambda>metadata.
        if md_container_id metadata \<noteq> h_container_id header then Err ContainerIdMismatch else
        rbind (enforce_index_block_size limits (br_size (fp_index_root footer_payload))) (\<lambda>_.
        rbind (slice_block_ref bs (fp_index_root footer_payload)) (\<lambda>index_root_bytes.
        if Checksum_blake3 X index_root_bytes \<noteq> br_checksum (fp_index_root footer_payload)
        then Err IndexRootChecksumMismatch else
        rbind (validate_deterministic_with_limits index_root_bytes (cbor_limits limits)) (\<lambda>_.
        rbind (IndexRoot_decode index_root_bytes) (\<lambda>index_root.
        rbind (validate_source_consistency metadata index_root) (\<lambda>_.
        rbind (chunk_table_block index_root) (\<lambda>chunk_table.
        if bd_codec chunk_table \<noteq> ''qzt-ctbl-fixed-v1'' then Err ChunkTableInvalid else
        rbind (rfold (\<lambda>_ block. enforce_index_block_size limits (bd_size block)) () (ir_blocks index_root)) (\<lambda>_.
        rbind (slice_physical bs
          (PhysicalRange_new (bd_offset chunk_table) (bd_size chunk_table))) (\<lambda>chunk_table_bytes.
        if Checksum_blake3 X chunk_table_bytes \<noteq> bd_checksum chunk_table then Err ChunkTableChecksumMismatch else
        rbind (validate_chunk_table_block chunk_table_bytes (ir_chunk_count index_root)
          (ir_original_size index_root) (ir_line_count index_root)) (\<lambda>chunk_entries.
        rbind (rfold (\<lambda>_ entry. enforce_chunk_sizes limits (compressed_size entry) (uncompressed_size entry)) ()
          chunk_entries) (\<lambda>_.
        rbind (validate_physical_ranges final_file_size
          (physical_ranges header trailer footer_payload index_root chunk_table chunk_entries)) (\<lambda>_.
        rbind (parse_dictionary_blocks X bs index_root (h_container_id header) limits) (\<lambda>dictionaries.
        rbind (validate_required_dictionaries chunk_entries dictionaries) (\<lambda>_.
        rbind (parse_dense_line_index X bs index_root chunk_entries limits) (\<lambda>dense_line_index.
        rbind (parse_document_index X bs index_root (h_container_id header) limits) (\<lambda>document_index.
        Ok (skeleton_details header trailer footer_payload metadata index_root chunk_entries dictionaries
              dense_line_index document_index)))))))))))))))))))))))))))"

definition open_skeleton_details :: "('h, 'x) ext_scheme \<Rightarrow> bytes \<Rightarrow> SkeletonDetails result" where
  "open_skeleton_details X bs = open_skeleton_details_with_limits X bs ResourceLimits_default"

definition open_skeleton :: "('h, 'x) ext_scheme \<Rightarrow> bytes \<Rightarrow> SkeletonSummary result" where
  "open_skeleton X bs = rbind (open_skeleton_details X bs) (\<lambda>details. Ok (sk_summary details))"

definition open_skeleton_details_read_at ::
  "('h, 'x) ext_scheme \<Rightarrow> reader \<Rightarrow> u64 \<Rightarrow> ResourceLimits \<Rightarrow> SkeletonDetails result"
where
  "open_skeleton_details_read_at X reader final_file_size limits =
     (if final_file_size < HEADER_LEN then Err InvalidHeader
      else if final_file_size < HEADER_LEN + FOOTER_TRAILER_LEN then Err InvalidFooterTrailer
      else
        rbind (read_exact_at_qzt reader 0 HEADER_LEN) (\<lambda>header_bytes.
        rbind (Header_decode header_bytes) (\<lambda>header.
        rbind (ok_or (checked_sub final_file_size FOOTER_TRAILER_LEN) InvalidFooterTrailer) (\<lambda>trailer_offset.
        rbind (read_exact_at_qzt reader trailer_offset FOOTER_TRAILER_LEN) (\<lambda>trailer_bytes.
        rbind (FooterTrailer_decode trailer_bytes) (\<lambda>trailer.
        rbind (read_physical_at reader final_file_size
          (PhysicalRange_new (footer_payload_offset trailer) (footer_payload_size trailer))) (\<lambda>footer_payload_bytes.
        if cs_value (Checksum_blake3 X footer_payload_bytes) \<noteq> footer_payload_checksum_blake3 trailer
        then Err FooterChecksumMismatch else
        rbind (validate_deterministic_with_limits footer_payload_bytes (cbor_limits limits)) (\<lambda>_.
        rbind (FooterPayload_decode footer_payload_bytes) (\<lambda>footer_payload.
        if fp_final_file_size footer_payload \<noteq> final_file_size then Err FinalFileSizeMismatch else
        if fp_container_id footer_payload \<noteq> h_container_id header then Err ContainerIdMismatch else
        if br_offset (fp_metadata footer_payload) \<noteq> metadata_offset header \<or>
           br_size (fp_metadata footer_payload) \<noteq> metadata_size header then Err MetadataInvalid else
        rbind (enforce_index_block_size limits (br_size (fp_metadata footer_payload))) (\<lambda>_.
        rbind (read_block_ref_at reader final_file_size (fp_metadata footer_payload)) (\<lambda>metadata_bytes.
        if Checksum_blake3 X metadata_bytes \<noteq> br_checksum (fp_metadata footer_payload)
        then Err MetadataChecksumMismatch else
        rbind (validate_deterministic_with_limits metadata_bytes (cbor_limits limits)) (\<lambda>_.
        rbind (Metadata_decode metadata_bytes) (\<lambda>metadata.
        if md_container_id metadata \<noteq> h_container_id header then Err ContainerIdMismatch else
        rbind (enforce_index_block_size limits (br_size (fp_index_root footer_payload))) (\<lambda>_.
        rbind (read_block_ref_at reader final_file_size (fp_index_root footer_payload)) (\<lambda>index_root_bytes.
        if Checksum_blake3 X index_root_bytes \<noteq> br_checksum (fp_index_root footer_payload)
        then Err IndexRootChecksumMismatch else
        rbind (validate_deterministic_with_limits index_root_bytes (cbor_limits limits)) (\<lambda>_.
        rbind (IndexRoot_decode index_root_bytes) (\<lambda>index_root.
        rbind (validate_source_consistency metadata index_root) (\<lambda>_.
        rbind (chunk_table_block index_root) (\<lambda>chunk_table.
        if bd_codec chunk_table \<noteq> ''qzt-ctbl-fixed-v1'' then Err ChunkTableInvalid else
        rbind (rfold (\<lambda>_ block. enforce_index_block_size limits (bd_size block)) () (ir_blocks index_root)) (\<lambda>_.
        rbind (read_physical_at reader final_file_size
          (PhysicalRange_new (bd_offset chunk_table) (bd_size chunk_table))) (\<lambda>chunk_table_bytes.
        if Checksum_blake3 X chunk_table_bytes \<noteq> bd_checksum chunk_table then Err ChunkTableChecksumMismatch else
        rbind (validate_chunk_table_block chunk_table_bytes (ir_chunk_count index_root)
          (ir_original_size index_root) (ir_line_count index_root)) (\<lambda>chunk_entries.
        rbind (rfold (\<lambda>_ entry. enforce_chunk_sizes limits (compressed_size entry) (uncompressed_size entry)) ()
          chunk_entries) (\<lambda>_.
        rbind (validate_physical_ranges final_file_size
          (physical_ranges header trailer footer_payload index_root chunk_table chunk_entries)) (\<lambda>_.
        rbind (parse_dictionary_blocks_at X reader final_file_size index_root (h_container_id header) limits) (\<lambda>dictionaries.
        rbind (validate_required_dictionaries chunk_entries dictionaries) (\<lambda>_.
        rbind (parse_dense_line_index_at X reader final_file_size index_root chunk_entries limits) (\<lambda>dense_line_index.
        rbind (parse_document_index_at X reader final_file_size index_root (h_container_id header) limits) (\<lambda>document_index.
        Ok (skeleton_details header trailer footer_payload metadata index_root chunk_entries dictionaries
              dense_line_index document_index)))))))))))))))))))))))))))))"

section \<open>Writing\<close>

fun footer_fixed_point_loop ::
  "nat \<Rightarrow> bytes \<Rightarrow> BlockRef \<Rightarrow> BlockRef \<Rightarrow> u64 \<Rightarrow> Checksum option \<Rightarrow> u64 \<Rightarrow> FooterPayload result"
where
  "footer_fixed_point_loop 0 cid index_root metadata off container_checksum final_file_size = Err ContainerCorrupt"
| "footer_fixed_point_loop (Suc rounds) cid index_root metadata off container_checksum final_file_size =
     (let candidate = \<lparr>fp_container_id = cid, fp_index_root = index_root, fp_metadata = metadata,
            fp_final_file_size = final_file_size, fp_footer_flags = 0, fp_container_checksum = container_checksum\<rparr> in
      rbind (FooterPayload_encode candidate) (\<lambda>encoded.
      rbind (usize_to_u64 (length encoded)) (\<lambda>sz.
      rbind (ok_or (Option.bind (checked_add off sz) (\<lambda>v. checked_add v FOOTER_TRAILER_LEN))
               PhysicalRangeOutOfBounds) (\<lambda>next.
      if next = final_file_size then Ok candidate
      else footer_fixed_point_loop rounds cid index_root metadata off container_checksum next))))"

definition fixed_point_footer_payload ::
  "bytes \<Rightarrow> BlockRef \<Rightarrow> BlockRef \<Rightarrow> u64 \<Rightarrow> Checksum option \<Rightarrow> FooterPayload result"
where
  "fixed_point_footer_payload cid index_root metadata off container_checksum =
     footer_fixed_point_loop 8 cid index_root metadata off container_checksum 0"

definition write_empty_container :: "('h, 'x) ext_scheme \<Rightarrow> bytes \<Rightarrow> bytes result" where
  "write_empty_container X cid =
     (let metadata = Metadata_empty X cid in
      rbind (Metadata_encode metadata) (\<lambda>metadata_bytes.
      let md_off = HEADER_LEN in
      rbind (usize_to_u64 (length metadata_bytes)) (\<lambda>md_size.
      let chunk_table_bytes = [] in
      rbind (ok_or (checked_add md_off md_size) PhysicalRangeOutOfBounds) (\<lambda>chunk_table_offset.
      let chunk_table_size = 0;
          chunk_table_checksum = Checksum_blake3 X chunk_table_bytes;
          index_root = \<lparr>ir_container_id = cid,
            ir_blocks = [BlockDescriptor_chunk_table chunk_table_offset chunk_table_size chunk_table_checksum],
            ir_original_size = md_original_size metadata,
            ir_original_checksum = md_original_checksum metadata,
            ir_chunk_count = 0, ir_line_count = md_line_count metadata\<rparr> in
      rbind (IndexRoot_encode index_root) (\<lambda>index_root_bytes.
      rbind (ok_or (checked_add chunk_table_offset chunk_table_size) PhysicalRangeOutOfBounds) (\<lambda>index_root_offset.
      rbind (usize_to_u64 (length index_root_bytes)) (\<lambda>index_root_size.
      rbind (ok_or (checked_add index_root_offset index_root_size) PhysicalRangeOutOfBounds) (\<lambda>payload_offset.
      let index_root_ref = \<lparr>br_offset = index_root_offset, br_size = index_root_size,
            br_checksum = Checksum_blake3 X index_root_bytes\<rparr>;
          metadata_ref = \<lparr>br_offset = md_off, br_size = md_size,
            br_checksum = Checksum_blake3 X metadata_bytes\<rparr> in
      rbind (fixed_point_footer_payload cid index_root_ref metadata_ref payload_offset None) (\<lambda>footer_payload.
      rbind (FooterPayload_encode footer_payload) (\<lambda>footer_payload_bytes.
      rbind (usize_to_u64 (length footer_payload_bytes)) (\<lambda>payload_size.
      let footer_trailer = \<lparr>footer_payload_offset = payload_offset, footer_payload_size = payload_size,
            footer_payload_checksum_blake3 = cs_value (Checksum_blake3 X footer_payload_bytes)\<rparr>;
          header = \<lparr>metadata_offset = md_off, metadata_size = md_size,
            index_hint_offset = index_root_offset, h_container_id = cid\<rparr> in
      Ok (Header_encode header @ metadata_bytes @ chunk_table_bytes @ index_root_bytes @
          footer_payload_bytes @ FooterTrailer_encode footer_trailer))))))))))))"

end
