(* ===== verification/Skeleton_Correct.thy ===== *)
theory Skeleton_Correct
  imports Skeleton
begin

text \<open>
  Correctness of the opener: the two openers agree over every byte source, an accepted
  container has a consistent chunk table with disjoint blocks and matching checksums, the
  footer's fixed point is always found, and the empty container that is written is opened.
\<close>

section \<open>Document lookup\<close>

lemma or_insert_apply:
  "or_insert m key i k = (case m k of Some v \<Rightarrow> Some v | None \<Rightarrow> if k = key then Some i else None)"
  by (auto simp: or_insert_def split: option.splits)

lemma lookup_fold:
  "foldl (\<lambda>m (i, d). or_insert m (doc_id d) i) m (enumerate n ds) k =
     (case m k of Some v \<Rightarrow> Some v
      | None \<Rightarrow> map_option (\<lambda>(i, d). i) (find (\<lambda>(i, d). doc_id d = k) (enumerate n ds)))"
  by (induction ds arbitrary: m n) (auto simp: or_insert_apply split: option.splits)

lemma ex_nat_split: "(\<exists>j. Q j) \<longleftrightarrow> Q 0 \<or> (\<exists>j. Q (Suc j))"
  by (metis not0_implies_Suc)

lemma find_enumerate:
  "map_option (\<lambda>(i, d). i) (find (\<lambda>(i, d). P d) (enumerate n ds)) = Some i \<longleftrightarrow>
     (\<exists>j. i = n + j \<and> j < length ds \<and> P (ds ! j) \<and> (\<forall>k < j. \<not> P (ds ! k)))"
proof (induction ds arbitrary: n)
  case (Cons d ds)
  then show ?case
    by (subst ex_nat_split) (auto simp: All_less_Suc2)
qed auto

section \<open>Blocks of a byte source\<close>

lemma slice_physical_Ok_iff:
  "slice_physical bs r = Ok out \<longleftrightarrow> pr_offset r + pr_size r \<le> length bs \<and>
     pr_offset r + pr_size r < u64_end \<and> out = slice bs (pr_offset r) (pr_offset r + pr_size r)"
  by (auto simp: slice_physical_def rbind_Ok_iff result_simps width_simps)

context byte_source
begin

lemma read_physical:
  assumes "length contents < isize_end"
  shows "read_physical_at read_exact_at (length contents) r = slice_physical contents r"
proof (cases "pr_offset r + pr_size r < u64_end \<and> pr_offset r + pr_size r \<le> length contents")
  case True
  then have "read_exact_at (pr_offset r) (pr_size r) = Ok (slice contents (pr_offset r) (pr_offset r + pr_size r))"
    using assms read_inside by blast
  then show ?thesis using True assms
    by (simp add: read_physical_at_def slice_physical_def checked_physical_end_def checked_add_def
        try_reserve_exact_def read_exact_at_qzt_def get_slice_def u64_to_usize_def)
next
  case False
  then show ?thesis
    by (auto simp: read_physical_at_def slice_physical_def checked_physical_end_def checked_add_def)
qed

lemma read_block_ref:
  "length contents < isize_end \<Longrightarrow>
   read_block_ref_at read_exact_at (length contents) b = slice_block_ref contents b"
  by (simp add: read_block_ref_at_def slice_block_ref_def read_physical)

lemma optional_blocks:
  assumes "length contents < isize_end"
  shows "parse_dictionary_blocks_at X read_exact_at (length contents) r cid l = parse_dictionary_blocks X contents r cid l"
    and "parse_dense_line_index_at X read_exact_at (length contents) r es l = parse_dense_line_index X contents r es l"
    and "parse_document_index_at X read_exact_at (length contents) r cid l = parse_document_index X contents r cid l"
  unfolding parse_dictionary_blocks_at_def parse_dictionary_blocks_def parse_dense_line_index_at_def
    parse_dense_line_index_def parse_document_index_at_def parse_document_index_def read_physical [OF assms]
  by (rule refl)+

lemma read_fixed:
  assumes "length contents < isize_end" and "off + n \<le> length contents"
  shows "read_exact_at_qzt read_exact_at off n = Ok (slice contents off (off + n))"
  using read_inside [OF assms] by (simp add: read_exact_at_qzt_def)

lemma open_read_at:
  assumes "length contents < isize_end"
  shows "open_skeleton_details_read_at X read_exact_at (length contents) limits =
     open_skeleton_details_with_limits X contents limits"
proof (cases "length contents < HEADER_LEN + FOOTER_TRAILER_LEN")
  case True
  then show ?thesis by (simp add: open_skeleton_details_read_at_def open_skeleton_details_with_limits_def)
next
  case False
  then have h: "read_exact_at_qzt read_exact_at 0 HEADER_LEN = Ok (slice contents 0 HEADER_LEN)"
    and t: "read_exact_at_qzt read_exact_at (length contents - FOOTER_TRAILER_LEN) FOOTER_TRAILER_LEN
        = Ok (slice contents (length contents - FOOTER_TRAILER_LEN) (length contents))"
    and s: "checked_sub (length contents) FOOTER_TRAILER_LEN = Some (length contents - FOOTER_TRAILER_LEN)"
    and u: "usize_to_u64 (length contents) = Ok (length contents)"
    using read_fixed [OF assms, of 0 HEADER_LEN]
      read_fixed [OF assms, of "length contents - FOOTER_TRAILER_LEN" FOOTER_TRAILER_LEN]
      isize_u64 [OF assms] by (simp_all add: checked_sub_def usize_to_u64_def)
  show ?thesis
    unfolding open_skeleton_details_read_at_def open_skeleton_details_with_limits_def
      read_physical [OF assms] read_block_ref [OF assms] optional_blocks [OF assms]
      h t s u rbind.simps ok_or_Some ..
qed

end

section \<open>The footer's fixed point\<close>

definition footer_candidate :: "bytes \<Rightarrow> BlockRef \<Rightarrow> BlockRef \<Rightarrow> Checksum option \<Rightarrow> u64 \<Rightarrow> FooterPayload" where
  "footer_candidate cid ir md cc n = \<lparr>fp_container_id = cid, fp_index_root = ir, fp_metadata = md,
     fp_final_file_size = n, fp_footer_flags = 0, fp_container_checksum = cc\<rparr>"

text \<open>How many wider CBOR heads there are.\<close>

definition width_rank :: "nat \<Rightarrow> nat" where
  "width_rank w = (if w = 1 then 4 else if w = 2 then 3 else if w = 3 then 2 else if w = 5 then 1 else 0)"

lemma footer_size:
  "cbor_size (footer_value (footer_candidate cid ir md cc n)) =
   cbor_size (footer_value (footer_candidate cid ir md cc 0)) + (head_len n - 1)"
  by (cases cc) (auto simp: footer_value_def footer_candidate_def text_pair_def u64_value_def int_argument_def head_len_def)

lemma footer_size_bound:
  assumes "FooterPayload_wf f"
  shows "cbor_size (footer_value f) < 4096"
proof -
  have "9 * cbor_items (footer_value f) + cbor_alloc (footer_value f) < 4096"
    using assms block_ref_measures [of "fp_index_root f"] block_ref_measures [of "fp_metadata f"] checksum_measures
    by (cases "fp_container_checksum f")
       (simp_all add: footer_value_def text_pair_def u64_value_def version_value_def FooterPayload_wf_def SCHEMA_FOOTER_def
          head_len_def)
  then show ?thesis using cbor_size_bound [of "footer_value f"] by linarith
qed

text \<open>One round of the loop, for a candidate that can be encoded.\<close>

lemma fixed_point_round:
  assumes "FooterPayload_wf (footer_candidate cid ir md cc n)"
    and "next = off + cbor_size (footer_value (footer_candidate cid ir md cc n)) + 64" and "next < u64_end"
  shows "footer_fixed_point_loop (Suc k) cid ir md off cc n =
     (if next = n then Ok (footer_candidate cid ir md cc n) else footer_fixed_point_loop k cid ir md off cc next)"
proof -
  have d: "decodable (footer_value (footer_candidate cid ir md cc n))" using assms(1) by (rule footer_decodable)
  have e: "FooterPayload_encode (footer_candidate cid ir md cc n) = Ok (enc (footer_value (footer_candidate cid ir md cc n)))"
    using assms(1) by (rule footer_roundtrip)
  have l: "length (enc (footer_value (footer_candidate cid ir md cc n))) = cbor_size (footer_value (footer_candidate cid ir md cc n))"
    using d by (intro length_enc) (simp add: decodable_def)
  show ?thesis using assms(2,3) e
    by (simp add: footer_candidate_def [symmetric] l usize_to_u64_def checked_add_def FOOTER_TRAILER_LEN_def)
qed

text \<open>
  The encoded size depends on the stored file size only through the width of its CBOR head,
  so successive candidates never shrink and change at most once per head width.
\<close>

lemma fixed_point_converges:
  assumes "base = off + cbor_size (footer_value (footer_candidate cid ir md cc 0)) + 63"
    and "\<And>n. n < u64_end \<Longrightarrow> FooterPayload_wf (footer_candidate cid ir md cc n)"
    and "base + 9 < u64_end"
  shows "\<exists>n. fixed_point_footer_payload cid ir md off cc = Ok (footer_candidate cid ir md cc n) \<and> n = base + head_len n"
proof -
  have step: "footer_fixed_point_loop (Suc k) cid ir md off cc n =
     (if base + head_len n = n then Ok (footer_candidate cid ir md cc n)
      else footer_fixed_point_loop k cid ir md off cc (base + head_len n))" if "n < u64_end" for n k
    using fixed_point_round [OF assms(2) [OF that], of "base + head_len n" off k] assms(1,3)
      head_len_bounds [of n] by (simp add: footer_size [of cid ir md cc n])
  let ?s = "\<lambda>n. base + head_len n"
  have less: "?s n < u64_end" for n using head_len_bounds(2) [of n] assms(3) by linarith
  have rank: "width_rank (head_len b) < width_rank (head_len a)"
    if "head_len a \<noteq> head_len b" "a \<le> b" for a b
    using that by (auto simp: head_len_def width_rank_def split: if_splits)
  have iter: "\<exists>n. footer_fixed_point_loop (Suc k) cid ir md off cc (?s m) = Ok (footer_candidate cid ir md cc n) \<and> n = ?s n"
    if "width_rank (head_len m) \<le> k" "m \<le> ?s m" for m k
    using that
  proof (induction k arbitrary: m)
    case 0
    then have "head_len (?s m) = head_len m" using rank [of m "?s m"] by fastforce
    then show ?case using step [OF less [of m]] by auto
  next
    case (Suc k)
    show ?case
    proof (cases "head_len (?s m) = head_len m")
      case True
      then show ?thesis using step [OF less [of m]] by auto
    next
      case False
      then have "width_rank (head_len (?s m)) \<le> k" using rank [of m "?s m"] Suc.prems by fastforce
      moreover have "?s m \<le> ?s (?s m)" using head_len_mono [OF Suc.prems(2)] by simp
      ultimately show ?thesis using Suc.IH [of "?s m"] step [OF less [of m], of "Suc k"] False by auto
    qed
  qed
  have "footer_fixed_point_loop (Suc 7) cid ir md off cc 0 = footer_fixed_point_loop (Suc 6) cid ir md off cc (?s 0)"
    using step [of 0 7] assms(1) head_len_bounds(1) [of 0] less [of 0] by simp
  moreover have "\<exists>n. footer_fixed_point_loop (Suc 6) cid ir md off cc (?s 0) = Ok (footer_candidate cid ir md cc n) \<and> n = ?s n"
    by (rule iter) (simp_all add: width_rank_def head_len_def)
  ultimately show ?thesis by (simp add: fixed_point_footer_payload_def)
qed

section \<open>What the opener accepts\<close>

text \<open>The bytes \<open>b\<close> are stored at the given offset with the given size.\<close>

definition stored :: "bytes \<Rightarrow> u64 \<Rightarrow> u64 \<Rightarrow> bytes \<Rightarrow> bool" where
  "stored bs off sz b \<longleftrightarrow> off + sz \<le> length bs \<and> b = slice bs off (off + sz)"

definition accepts_cbor :: "ResourceLimits \<Rightarrow> bytes \<Rightarrow> bool" where
  "accepts_cbor limits b \<longleftrightarrow> is_ok (validate_deterministic_with_limits b (cbor_limits limits))"

text \<open>
  The fixed structures, footer payload, metadata, index root and chunk table of a container,
  as a predicate on the whole file.
\<close>

definition container_parts ::
  "('h, 'x) ext_scheme \<Rightarrow> bytes \<Rightarrow> ResourceLimits \<Rightarrow> Header \<Rightarrow> FooterTrailer \<Rightarrow> FooterPayload \<Rightarrow> Metadata \<Rightarrow>
   IndexRoot \<Rightarrow> BlockDescriptor \<Rightarrow> ChunkEntry list \<Rightarrow> bool"
where
  "container_parts X bs limits h t f m r ct es \<longleftrightarrow>
     192 \<le> length bs \<and> length bs < u64_end \<and>
     Header_wf h \<and> slice bs 0 128 = Header_encode h \<and>
     FooterTrailer_wf t \<and> slice bs (length bs - 64) (length bs) = FooterTrailer_encode t \<and>
     (\<exists>fb mb rb cb.
        stored bs (footer_payload_offset t) (footer_payload_size t) fb \<and>
        blake3_hash X fb = footer_payload_checksum_blake3 t \<and> accepts_cbor limits fb \<and> FooterPayload_decode fb = Ok f \<and>
        stored bs (br_offset (fp_metadata f)) (br_size (fp_metadata f)) mb \<and>
        Checksum_blake3 X mb = br_checksum (fp_metadata f) \<and> accepts_cbor limits mb \<and> Metadata_decode mb = Ok m \<and>
        stored bs (br_offset (fp_index_root f)) (br_size (fp_index_root f)) rb \<and>
        Checksum_blake3 X rb = br_checksum (fp_index_root f) \<and> accepts_cbor limits rb \<and> IndexRoot_decode rb = Ok r \<and>
        stored bs (bd_offset ct) (bd_size ct) cb \<and> Checksum_blake3 X cb = bd_checksum ct \<and>
        validate_chunk_table_block cb (ir_chunk_count r) (ir_original_size r) (ir_line_count r) = Ok es) \<and>
     fp_final_file_size f = length bs \<and> fp_container_id f = h_container_id h \<and>
     br_offset (fp_metadata f) = metadata_offset h \<and> br_size (fp_metadata f) = metadata_size h \<and>
     br_size (fp_metadata f) \<le> max_index_block_size limits \<and> br_size (fp_index_root f) \<le> max_index_block_size limits \<and>
     md_container_id m = h_container_id h \<and> ir_container_id r = h_container_id h \<and>
     md_original_size m = ir_original_size r \<and> md_original_checksum m = ir_original_checksum r \<and>
     md_line_count m = ir_line_count r \<and>
     chunk_table_block r = Ok ct \<and> bd_codec ct = ''qzt-ctbl-fixed-v1'' \<and>
     (\<forall>b \<in> set (ir_blocks r). bd_size b \<le> max_index_block_size limits) \<and>
     (\<forall>e \<in> set es. compressed_size e \<le> max_compressed_chunk_size limits \<and>
        uncompressed_size e \<le> max_uncompressed_chunk_size limits) \<and>
     validate_physical_ranges (length bs) (physical_ranges h t f r ct es) = Ok ()"

lemma container_partsI:
  assumes "192 \<le> length bs" and "length bs < u64_end" and "Header_wf h" and "slice bs 0 128 = Header_encode h"
    and "FooterTrailer_wf t" and "slice bs (length bs - 64) (length bs) = FooterTrailer_encode t"
    and "stored bs (footer_payload_offset t) (footer_payload_size t) fb"
    and "blake3_hash X fb = footer_payload_checksum_blake3 t" and "accepts_cbor limits fb" and "FooterPayload_decode fb = Ok f"
    and "stored bs (br_offset (fp_metadata f)) (br_size (fp_metadata f)) mb"
    and "Checksum_blake3 X mb = br_checksum (fp_metadata f)" and "accepts_cbor limits mb" and "Metadata_decode mb = Ok m"
    and "stored bs (br_offset (fp_index_root f)) (br_size (fp_index_root f)) rb"
    and "Checksum_blake3 X rb = br_checksum (fp_index_root f)" and "accepts_cbor limits rb" and "IndexRoot_decode rb = Ok r"
    and "stored bs (bd_offset ct) (bd_size ct) cb" and "Checksum_blake3 X cb = bd_checksum ct"
    and "validate_chunk_table_block cb (ir_chunk_count r) (ir_original_size r) (ir_line_count r) = Ok es"
    and "fp_final_file_size f = length bs" and "fp_container_id f = h_container_id h"
    and "br_offset (fp_metadata f) = metadata_offset h" and "br_size (fp_metadata f) = metadata_size h"
    and "br_size (fp_metadata f) \<le> max_index_block_size limits" and "br_size (fp_index_root f) \<le> max_index_block_size limits"
    and "md_container_id m = h_container_id h" and "ir_container_id r = h_container_id h"
    and "md_original_size m = ir_original_size r" and "md_original_checksum m = ir_original_checksum r"
    and "md_line_count m = ir_line_count r" and "chunk_table_block r = Ok ct" and "bd_codec ct = ''qzt-ctbl-fixed-v1''"
    and "\<forall>b \<in> set (ir_blocks r). bd_size b \<le> max_index_block_size limits"
    and "\<forall>e \<in> set es. compressed_size e \<le> max_compressed_chunk_size limits \<and>
        uncompressed_size e \<le> max_uncompressed_chunk_size limits"
    and "validate_physical_ranges (length bs) (physical_ranges h t f r ct es) = Ok ()"
  shows "container_parts X bs limits h t f m r ct es"
proof -
  have "\<exists>fb mb rb cb.
        stored bs (footer_payload_offset t) (footer_payload_size t) fb \<and>
        blake3_hash X fb = footer_payload_checksum_blake3 t \<and> accepts_cbor limits fb \<and> FooterPayload_decode fb = Ok f \<and>
        stored bs (br_offset (fp_metadata f)) (br_size (fp_metadata f)) mb \<and>
        Checksum_blake3 X mb = br_checksum (fp_metadata f) \<and> accepts_cbor limits mb \<and> Metadata_decode mb = Ok m \<and>
        stored bs (br_offset (fp_index_root f)) (br_size (fp_index_root f)) rb \<and>
        Checksum_blake3 X rb = br_checksum (fp_index_root f) \<and> accepts_cbor limits rb \<and> IndexRoot_decode rb = Ok r \<and>
        stored bs (bd_offset ct) (bd_size ct) cb \<and> Checksum_blake3 X cb = bd_checksum ct \<and>
        validate_chunk_table_block cb (ir_chunk_count r) (ir_original_size r) (ir_line_count r) = Ok es"
    using assms(7-21) by blast
  then show ?thesis unfolding container_parts_def using assms by (intro conjI) assumption+
qed

lemma slice_stored:
  "length bs < u64_end \<Longrightarrow> slice_physical bs (PhysicalRange_new off sz) = Ok b \<longleftrightarrow> stored bs off sz b"
  "length bs < u64_end \<Longrightarrow> slice_block_ref bs br = Ok b \<longleftrightarrow> stored bs (br_offset br) (br_size br) b"
  by (auto simp: slice_block_ref_def slice_physical_Ok_iff PhysicalRange_new_def stored_def)

lemma validate_source_consistency_Ok_iff:
  "validate_source_consistency m r = Ok u \<longleftrightarrow> md_container_id m = ir_container_id r \<and>
     md_original_size m = ir_original_size r \<and> md_original_checksum m = ir_original_checksum r \<and>
     md_line_count m = ir_line_count r"
  by (auto simp: validate_source_consistency_def)

text \<open>The optional blocks, read after the parts are in place.\<close>

definition optional_parts ::
  "('h, 'x) ext_scheme \<Rightarrow> bytes \<Rightarrow> ResourceLimits \<Rightarrow> bytes \<Rightarrow> IndexRoot \<Rightarrow> ChunkEntry list \<Rightarrow>
   DictionaryEntry list \<Rightarrow> DenseLineIndex option \<Rightarrow> DocumentIndex option \<Rightarrow> bool"
where
  "optional_parts X bs limits cid r es dicts dense docs \<longleftrightarrow>
     parse_dictionary_blocks X bs r cid limits = Ok dicts \<and> validate_required_dictionaries es dicts = Ok () \<and>
     parse_dense_line_index X bs r es limits = Ok dense \<and> parse_document_index X bs r cid limits = Ok docs"

lemmas open_conv = rfold_unit_Ok_iff enforce_index_block_size_Ok_iff enforce_chunk_sizes_Ok_iff

lemma open_complete:
  assumes "container_parts X bs limits h t f m r ct es"
    and "optional_parts X bs limits (h_container_id h) r es dicts dense docs"
  shows "open_skeleton_details_with_limits X bs limits = Ok (skeleton_details h t f m r es dicts dense docs)"
proof -
  have len: "192 \<le> length bs" "length bs < u64_end" using assms(1) by (simp_all add: container_parts_def)
  then have lens: "\<not> length bs < HEADER_LEN" "\<not> length bs < HEADER_LEN + FOOTER_TRAILER_LEN"
      "usize_to_u64 (length bs) = Ok (length bs)"
    by (simp_all add: fixed_consts usize_to_u64_def)
  have hd: "Header_decode (slice bs 0 HEADER_LEN) = Ok h"
    and tr: "FooterTrailer_decode (slice bs (length bs - FOOTER_TRAILER_LEN) (length bs)) = Ok t"
    using assms(1) by (simp_all add: container_parts_def header.decode_Ok_iff trailer.decode_Ok_iff fixed_consts)
  obtain fb mb rb cb where blocks:
      "slice_physical bs (PhysicalRange_new (footer_payload_offset t) (footer_payload_size t)) = Ok fb"
      "slice_block_ref bs (fp_metadata f) = Ok mb" "slice_block_ref bs (fp_index_root f) = Ok rb"
      "slice_physical bs (PhysicalRange_new (bd_offset ct) (bd_size ct)) = Ok cb"
    and sums: "cs_value (Checksum_blake3 X fb) = footer_payload_checksum_blake3 t"
      "Checksum_blake3 X mb = br_checksum (fp_metadata f)" "Checksum_blake3 X rb = br_checksum (fp_index_root f)"
      "Checksum_blake3 X cb = bd_checksum ct"
    and cbor: "accepts_cbor limits fb" "accepts_cbor limits mb" "accepts_cbor limits rb"
    and dec: "FooterPayload_decode fb = Ok f" "Metadata_decode mb = Ok m" "IndexRoot_decode rb = Ok r"
      "validate_chunk_table_block cb (ir_chunk_count r) (ir_original_size r) (ir_line_count r) = Ok es"
    using assms(1) len(2) by (auto simp: container_parts_def slice_stored Checksum_blake3_def)
  obtain fv mv rv where val: "validate_deterministic_with_limits fb (cbor_limits limits) = Ok fv"
      "validate_deterministic_with_limits mb (cbor_limits limits) = Ok mv"
      "validate_deterministic_with_limits rb (cbor_limits limits) = Ok rv"
    using cbor by (auto simp: accepts_cbor_def is_ok_iff)
  have folds: "rfold (\<lambda>_ block. enforce_index_block_size limits (bd_size block)) () (ir_blocks r) = Ok ()"
      "rfold (\<lambda>_ entry. enforce_chunk_sizes limits (compressed_size entry) (uncompressed_size entry)) () es = Ok ()"
      "enforce_index_block_size limits (br_size (fp_metadata f)) = Ok ()"
      "enforce_index_block_size limits (br_size (fp_index_root f)) = Ok ()"
      "validate_source_consistency m r = Ok ()"
    using assms(1) by (simp_all add: container_parts_def open_conv validate_source_consistency_Ok_iff)
  have eqs: "fp_final_file_size f = length bs" "fp_container_id f = h_container_id h"
      "br_offset (fp_metadata f) = metadata_offset h" "br_size (fp_metadata f) = metadata_size h"
      "md_container_id m = h_container_id h" "chunk_table_block r = Ok ct" "bd_codec ct = ''qzt-ctbl-fixed-v1''"
      "validate_physical_ranges (length bs) (physical_ranges h t f r ct es) = Ok ()"
    using assms(1) by (simp_all add: container_parts_def)
  note opt = assms(2) [unfolded optional_parts_def]
  show ?thesis
    unfolding open_skeleton_details_with_limits_def lens hd tr blocks sums val dec folds eqs
      opt [THEN conjunct1] opt [THEN conjunct2, THEN conjunct1] opt [THEN conjunct2, THEN conjunct2, THEN conjunct1]
      opt [THEN conjunct2, THEN conjunct2, THEN conjunct2] rbind.simps if_False not_True_eq_False simp_thms
    using lens folds(3) eqs(4) by simp
qed

lemma open_Ok_iff:
  "open_skeleton_details_with_limits X bs limits = Ok d \<longleftrightarrow>
     (\<exists>h t f m r ct es dicts dense docs. container_parts X bs limits h t f m r ct es \<and>
        optional_parts X bs limits (h_container_id h) r es dicts dense docs \<and>
        d = skeleton_details h t f m r es dicts dense docs)"
proof (cases "192 \<le> length bs \<and> length bs < u64_end")
  case True
  then have lens: "\<not> length bs < HEADER_LEN" "\<not> length bs < HEADER_LEN + FOOTER_TRAILER_LEN"
      "usize_to_u64 (length bs) = Ok (length bs)"
    by (simp_all add: fixed_consts usize_to_u64_def)
  show ?thesis
  proof
    assume "open_skeleton_details_with_limits X bs limits = Ok d"
    then show "\<exists>h t f m r ct es dicts dense docs. container_parts X bs limits h t f m r ct es \<and>
        optional_parts X bs limits (h_container_id h) r es dicts dense docs \<and>
        d = skeleton_details h t f m r es dicts dense docs"
      unfolding open_skeleton_details_with_limits_def lens if_False rbind.simps rbind_Ok_iff if_Err_Ok_iff
        header.decode_Ok_iff trailer.decode_Ok_iff slice_stored [OF conjunct2 [OF True]] validate_source_consistency_Ok_iff
      apply (elim exE conjE)
      subgoal for h t fb u1 f u2 mb u3 m u4 rb u5 r u6 ct u7 cb es u8 u9 dicts u10 dense docs
        using True
        by (intro exI [of _ h] exI [of _ t] exI [of _ f] exI [of _ m] exI [of _ r] exI [of _ ct] exI [of _ es]
              exI [of _ dicts] exI [of _ dense] exI [of _ docs])
           (simp add: container_parts_def optional_parts_def accepts_cbor_def is_ok_iff open_conv Checksum_blake3_def
              fixed_consts, blast)
      done
  next
    assume "\<exists>h t f m r ct es dicts dense docs. container_parts X bs limits h t f m r ct es \<and>
        optional_parts X bs limits (h_container_id h) r es dicts dense docs \<and>
        d = skeleton_details h t f m r es dicts dense docs"
    then obtain h t f m r ct es dicts dense docs where p: "container_parts X bs limits h t f m r ct es"
      and o: "optional_parts X bs limits (h_container_id h) r es dicts dense docs"
      and d: "d = skeleton_details h t f m r es dicts dense docs"
      by blast
    show "open_skeleton_details_with_limits X bs limits = Ok d"
      unfolding d by (rule open_complete [OF p o])
  qed
next
  case False
  then show ?thesis
    by (auto simp: open_skeleton_details_with_limits_def container_parts_def fixed_consts usize_to_u64_def)
qed

section \<open>Consequences of opening\<close>

lemma push_dictionaries_distinct:
  "rfold push_dictionary ds es = Ok ds' \<Longrightarrow> distinct (map de_dictionary_id ds) \<Longrightarrow> distinct (map de_dictionary_id ds')"
  by (erule rfold_invariant) (auto simp: push_dictionary_def image_iff split: if_splits, metis)

lemma parse_dictionary_blocks_distinct:
  assumes "parse_dictionary_blocks X bs r cid limits = Ok ds"
  shows "distinct (map de_dictionary_id ds)"
  using assms unfolding parse_dictionary_blocks_def
  by (rule rfold_invariant) (auto simp: rbind_Ok_iff dest: push_dictionaries_distinct split: if_splits)

lemma validate_required_dictionaries_Ok_iff:
  "validate_required_dictionaries es ds = Ok () \<longleftrightarrow>
     (\<forall>e \<in> set es. dictionary_id e = 0 \<or> (\<exists>d \<in> set ds. de_dictionary_id d = dictionary_id e))"
  unfolding validate_required_dictionaries_def rfold_unit_Ok_iff by auto

lemma slice_physical_length:
  "slice_physical bs rng = Ok b \<Longrightarrow> length b < u64_end"
  by (auto simp: slice_physical_Ok_iff)

lemma parse_dense_line_index_matches:
  assumes "parse_dense_line_index X bs r es limits = Ok dense" and "\<forall>e \<in> set es. ChunkEntry_wf e"
    and "length es < u64_end"
  shows "case dense of None \<Rightarrow> True | Some idx \<Rightarrow> list_all2 entry_matches (dense_entries idx) es"
  using assms(1) unfolding parse_dense_line_index_def
  by (rule rfold_invariant)
     (auto simp: rbind_Ok_iff decode_for_chunks_Ok_iff [OF assms(2) _ assms(3)] slice_physical_length split: if_splits)

lemma DocumentIndex_decode_unique:
  "DocumentIndex_decode b = Ok di \<Longrightarrow> distinct (map doc_id (di_documents di))"
  by (auto simp: DocumentIndex_decode_def rbind_Ok_iff Let_def result_simps validate_unique_Ok_iff)

lemma parse_document_index_distinct:
  assumes "parse_document_index X bs r cid limits = Ok docs"
  shows "case docs of None \<Rightarrow> True
     | Some di \<Rightarrow> di_container_id di = cid \<and> distinct (map doc_id (di_documents di))"
  using assms unfolding parse_document_index_def
  by (rule rfold_invariant) (auto simp: rbind_Ok_iff DocumentIndex_decode_unique split: if_splits)

lemma required_u64_bound:
  assumes "required_u64 es key err = Ok n"
  shows "n < u64_end"
proof -
  obtain v where "(case v of Integer n \<Rightarrow> if n < 0 then Err err else ok_or (u64_try_from n) err | _ \<Rightarrow> Err err) = Ok n"
    using assms by (auto simp: required_u64_def required_u64_with_overflow_def rbind_Ok_iff)
  then show ?thesis by (cases v) (auto simp: result_simps u64_try_from_def split: if_splits)
qed

lemma IndexRoot_decode_sizes:
  assumes "IndexRoot_decode b = Ok r"
  shows "ir_original_size r < u64_end" and "ir_line_count r < u64_end"
  using assms by (auto simp: IndexRoot_decode_def rbind_Ok_iff Let_def dest: required_u64_bound split: if_splits)

lemma container_parts_table:
  assumes "container_parts X bs limits h t f m r ct es"
  shows "\<forall>e \<in> set es. ChunkEntry_wf e" and "chunk_layout es" and "length es = ir_chunk_count r"
    and "length es < u64_end" and "sum_list (map uncompressed_size es) = ir_original_size r"
    and "sum_list (map line_count es) = ir_line_count r" and "ir_original_size r < u64_end"
proof -
  obtain rb cb where d: "IndexRoot_decode rb = Ok r"
    and v: "validate_chunk_table_block cb (ir_chunk_count r) (ir_original_size r) (ir_line_count r) = Ok es"
    using assms by (auto simp: container_parts_def)
  show o: "ir_original_size r < u64_end" by (rule IndexRoot_decode_sizes [OF d])
  show "\<forall>e \<in> set es. ChunkEntry_wf e" "chunk_layout es" "length es = ir_chunk_count r" "length es < u64_end"
      "sum_list (map uncompressed_size es) = ir_original_size r" "sum_list (map line_count es) = ir_line_count r"
    using v unfolding validate_chunk_table_block_Ok_iff [OF o] by auto
qed

text \<open>Where the data of a chunk lies in the file.\<close>

abbreviation entry_range :: "ChunkEntry \<Rightarrow> PhysicalRange" where
  "entry_range e \<equiv> PhysicalRange_new (physical_offset e) (compressed_size e)"

lemma container_parts_ranges:
  assumes "container_parts X bs limits h t f m r ct es"
  shows "\<forall>e \<in> set es. 128 \<le> physical_offset e \<and> physical_offset e + compressed_size e \<le> length bs - 64"
    and "sorted_wrt separated (map entry_range es)"
    and "\<forall>e \<in> set es. \<forall>rng \<in> {PhysicalRange_new (br_offset (fp_metadata f)) (br_size (fp_metadata f)),
        PhysicalRange_new (br_offset (fp_index_root f)) (br_size (fp_index_root f)),
        PhysicalRange_new (footer_payload_offset t) (footer_payload_size t),
        PhysicalRange_new (bd_offset ct) (bd_size ct)}. separated rng (entry_range e)"
proof -
  have n: "length bs < u64_end" and v: "validate_physical_ranges (length bs) (physical_ranges h t f r ct es) = Ok ()"
    and h: "br_offset (fp_metadata f) = metadata_offset h" "br_size (fp_metadata f) = metadata_size h"
    using assms by (simp_all add: container_parts_def)
  note v = v [unfolded validate_physical_ranges_Ok_iff [OF n]]
  have pos: "0 < compressed_size e" if "e \<in> set es" for e
    using that container_parts_table(2) [OF assms] by (auto simp: chunk_layout_def in_set_conv_nth Let_def)
  show "\<forall>e \<in> set es. 128 \<le> physical_offset e \<and> physical_offset e + compressed_size e \<le> length bs - 64"
  proof
    fix e
    assume e: "e \<in> set es"
    then have "entry_range e \<in> set (physical_ranges h t f r ct es)" by (simp add: physical_ranges_def)
    then show "128 \<le> physical_offset e \<and> physical_offset e + compressed_size e \<le> length bs - 64"
      using v pos [OF e] by (fastforce simp: separated_def PhysicalRange_new_def fixed_consts)
  qed
  show "sorted_wrt separated (map entry_range es)"
    using v by (simp add: physical_ranges_def sorted_wrt_append)
  show "\<forall>e \<in> set es. \<forall>rng \<in> {PhysicalRange_new (br_offset (fp_metadata f)) (br_size (fp_metadata f)),
        PhysicalRange_new (br_offset (fp_index_root f)) (br_size (fp_index_root f)),
        PhysicalRange_new (footer_payload_offset t) (footer_payload_size t),
        PhysicalRange_new (bd_offset ct) (bd_size ct)}. separated rng (entry_range e)"
    using v by (simp add: physical_ranges_def sorted_wrt_append h)
qed

section \<open>The empty container\<close>

lemma stored_append: "stored (xs @ b @ ys) off sz b" if "off = length xs" "sz = length b"
  using that by (simp add: stored_def slice_simps)

lemma metadata_size_bound:
  assumes "Metadata_wf m"
  shows "cbor_size (metadata_value m) < 8192"
proof -
  have c: "Checksum_wf (md_original_checksum m)" and i: "length (md_container_id m) = 16"
    using assms by (simp_all add: Metadata_wf_def)
  have "9 * cbor_items (metadata_value m) + cbor_alloc (metadata_value m) < 8192"
    using metadata_texts [OF assms] checksum_measures [OF c] i
    by (simp add: metadata_value_def text_pair_def u64_value_def version_value_def
        SCHEMA_METADATA_def CHECKSUM_ALGORITHM_BLAKE3_def head_len_def)
  then show ?thesis using cbor_size_bound [of "metadata_value m"] by linarith
qed

lemma Checksum_blake3_wf: "blake3_documented X \<Longrightarrow> Checksum_wf (Checksum_blake3 X bs)"
  by (simp add: Checksum_wf_def Checksum_blake3_def blake3_length)

lemma Metadata_empty_wf:
  assumes "blake3_documented X" and "length cid = 16"
  shows "Metadata_wf (Metadata_empty X cid)"
  using assms Checksum_blake3_wf [OF assms(1)]
  by (simp add: Metadata_wf_def Metadata_empty_def Metadata_for_source_with_options_def MetadataOptions_default_def
      u64_end_def)

text \<open>The index root of a container with one chunk table and nothing else.\<close>

lemma table_only_root:
  assumes "IndexRoot_wf r" and "ir_blocks r = [BlockDescriptor_chunk_table off sz c]"
  shows "within_default_budget (index_root_value r)" and "cbor_size (index_root_value r) < 8192"
proof -
  have w: "Checksum_wf c" "Checksum_wf (ir_original_checksum r)" "length (ir_container_id r) = 16"
    using assms by (simp_all add: IndexRoot_wf_def BlockDescriptor_wf_def BlockDescriptor_chunk_table_def BlockDescriptor_new_def)
  have m: "cbor_items (index_root_value r) < 100" "cbor_alloc (index_root_value r) < 1000"
    using checksum_measures [OF w(1)] checksum_measures [OF w(2)] w(3)
    by (simp_all add: index_root_value_def assms(2) block_descriptor_value_def BlockDescriptor_chunk_table_def
        BlockDescriptor_new_def text_pair_def u64_value_def version_value_def SCHEMA_INDEX_ROOT_def
        CHUNK_TABLE_TYPE_def CHUNK_TABLE_CODEC_def head_len_def)
  then show "within_default_budget (index_root_value r)" by (simp add: within_default_budget_def)
  show "cbor_size (index_root_value r) < 8192" using m cbor_size_bound [of "index_root_value r"] by linarith
qed

lemma decodable_accepts:
  assumes "decodable v"
  shows "accepts_cbor ResourceLimits_default (enc v)"
proof -
  have "cbor_limits ResourceLimits_default = CborLimits_default"
    by (simp add: cbor_limits_def ResourceLimits_default_def CborLimits_default_def)
  then show ?thesis using decodable_validates(2) [OF assms]
    by (simp add: accepts_cbor_def validate_deterministic_def)
qed

lemma fixed_point_footer:
  assumes "length cid = 16" and "BlockRef_wf ir" and "BlockRef_wf md"
    and "case cc of None \<Rightarrow> True | Some c \<Rightarrow> Checksum_wf c" and "off + 4168 < u64_end"
  obtains f where "fixed_point_footer_payload cid ir md off cc = Ok f" and "FooterPayload_wf f"
    and "f = footer_candidate cid ir md cc (off + length (enc (footer_value f)) + 64)"
    and "FooterPayload_encode f = Ok (enc (footer_value f))" and "length (enc (footer_value f)) < 4096"
proof -
  have wf: "FooterPayload_wf (footer_candidate cid ir md cc n)" if "n < u64_end" for n
    using that assms by (simp add: FooterPayload_wf_def footer_candidate_def)
  have z: "cbor_size (footer_value (footer_candidate cid ir md cc 0)) < 4096"
    using footer_size_bound [OF wf [of 0]] by (simp add: u64_end_def)
  obtain n where n: "fixed_point_footer_payload cid ir md off cc = Ok (footer_candidate cid ir md cc n)"
    and e: "n = off + cbor_size (footer_value (footer_candidate cid ir md cc 0)) + 63 + head_len n"
    using fixed_point_converges [OF refl wf, of off] z assms(5) by auto
  let ?f = "footer_candidate cid ir md cc n"
  have w: "FooterPayload_wf ?f" using wf [of n] e z assms(5) head_len_bounds [of n] by linarith
  have l: "length (enc (footer_value ?f)) = cbor_size (footer_value ?f)"
    using footer_decodable [OF w] by (intro length_enc) (simp add: decodable_def)
  have "n = off + length (enc (footer_value ?f)) + 64"
    using e head_len_bounds [of n] by (simp add: l footer_size [of cid ir md cc n])
  then have c: "?f = footer_candidate cid ir md cc (off + length (enc (footer_value ?f)) + 64)" by (rule arg_cong)
  show thesis
    using that [OF n w c footer_roundtrip(1) [OF w]] footer_size_bound [OF w] l by simp
qed

lemma write_empty_container_layout:
  assumes "blake3_documented X" and "length cid = 16"
  obtains m r f mb rb fb h t where
    "write_empty_container X cid = Ok (Header_encode h @ mb @ rb @ fb @ FooterTrailer_encode t)"
    and "m = Metadata_empty X cid" and "mb = enc (metadata_value m)" and "rb = enc (index_root_value r)"
    and "fb = enc (footer_value f)" and "length mb < 8192" and "length rb < 8192" and "length fb < 4096"
    and "r = \<lparr>ir_container_id = cid, ir_blocks = [BlockDescriptor_chunk_table (128 + length mb) 0 (Checksum_blake3 X [])],
           ir_original_size = 0, ir_original_checksum = Checksum_blake3 X [], ir_chunk_count = 0, ir_line_count = 0\<rparr>"
    and "IndexRoot_wf r" and "FooterPayload_wf f"
    and "f = footer_candidate cid \<lparr>br_offset = 128 + length mb, br_size = length rb, br_checksum = Checksum_blake3 X rb\<rparr>
           \<lparr>br_offset = 128, br_size = length mb, br_checksum = Checksum_blake3 X mb\<rparr> None
           (128 + length mb + length rb + length fb + 64)"
    and "h = \<lparr>metadata_offset = 128, metadata_size = length mb, index_hint_offset = 128 + length mb, h_container_id = cid\<rparr>"
    and "t = \<lparr>footer_payload_offset = 128 + length mb + length rb, footer_payload_size = length fb,
           footer_payload_checksum_blake3 = blake3_hash X fb\<rparr>"
proof -
  define m where "m = Metadata_empty X cid"
  have mw: "Metadata_wf m" unfolding m_def by (rule Metadata_empty_wf [OF assms])
  define mb where "mb = enc (metadata_value m)"
  have mo: "md_original_size m = 0" "md_line_count m = 0" "md_original_checksum m = Checksum_blake3 X []"
    by (simp_all add: m_def Metadata_empty_def Metadata_for_source_with_options_def)
  have ml: "length mb < 8192"
    using metadata_decodable [OF mw] metadata_size_bound [OF mw] by (simp add: mb_def length_enc decodable_def)
  define r where "r = \<lparr>ir_container_id = cid,
      ir_blocks = [BlockDescriptor_chunk_table (128 + length mb) 0 (Checksum_blake3 X [])],
      ir_original_size = 0, ir_original_checksum = Checksum_blake3 X [], ir_chunk_count = 0, ir_line_count = 0\<rparr>"
  have rw: "IndexRoot_wf r"
    using assms(2) ml Checksum_blake3_wf [OF assms(1)]
    by (simp add: IndexRoot_wf_def r_def BlockDescriptor_wf_def BlockDescriptor_chunk_table_def BlockDescriptor_new_def
        CHUNK_TABLE_TYPE_def CHUNK_TABLE_CODEC_def ascii_valid is_required_chunk_table_def u64_end_def)
  have rt: "ir_blocks r = [BlockDescriptor_chunk_table (128 + length mb) 0 (Checksum_blake3 X [])]" by (simp add: r_def)
  define rb where "rb = enc (index_root_value r)"
  have rl: "length rb < 8192"
    using root_decodable [OF rw table_only_root(1) [OF rw rt]] table_only_root(2) [OF rw rt]
    by (simp add: rb_def length_enc decodable_def)
  let ?ir = "\<lparr>br_offset = 128 + length mb, br_size = length rb, br_checksum = Checksum_blake3 X rb\<rparr>"
  let ?md = "\<lparr>br_offset = 128, br_size = length mb, br_checksum = Checksum_blake3 X mb\<rparr>"
  have refs: "BlockRef_wf ?ir" "BlockRef_wf ?md" "128 + length mb + length rb + 4168 < u64_end"
    using ml rl Checksum_blake3_wf [OF assms(1)] by (simp_all add: BlockRef_wf_def u64_end_def)
  have none: "case None of None \<Rightarrow> True | Some c \<Rightarrow> Checksum_wf c" by simp
  obtain f where f: "fixed_point_footer_payload cid ?ir ?md (128 + length mb + length rb) None = Ok f" "FooterPayload_wf f"
      "f = footer_candidate cid ?ir ?md None (128 + length mb + length rb + length (enc (footer_value f)) + 64)"
      "FooterPayload_encode f = Ok (enc (footer_value f))" "length (enc (footer_value f)) < 4096"
    by (rule fixed_point_footer [OF assms(2) refs(1,2) none refs(3)])
  define fb where "fb = enc (footer_value f)"
  define h where "h = \<lparr>metadata_offset = 128, metadata_size = length mb, index_hint_offset = 128 + length mb, h_container_id = cid\<rparr>"
  define t where "t = \<lparr>footer_payload_offset = 128 + length mb + length rb, footer_payload_size = length fb,
      footer_payload_checksum_blake3 = blake3_hash X fb\<rparr>"
  have w: "write_empty_container X cid = Ok (Header_encode h @ mb @ rb @ fb @ FooterTrailer_encode t)"
  proof -
    have e: "Metadata_encode m = Ok mb" "IndexRoot_encode r = Ok rb" "FooterPayload_encode f = Ok fb"
      using metadata_roundtrip(1) [OF mw] root_roundtrip(1) [OF rw table_only_root(1) [OF rw rt]] f(4)
      by (simp_all add: mb_def rb_def fb_def)
    have u: "usize_to_u64 (length mb) = Ok (length mb)" "usize_to_u64 (length rb) = Ok (length rb)"
        "usize_to_u64 (length fb) = Ok (length fb)"
      using ml rl f(5) by (simp_all add: usize_to_u64_def u64_end_def fb_def)
    have a: "checked_add 128 (length mb) = Some (128 + length mb)" "checked_add (128 + length mb) 0 = Some (128 + length mb)"
        "checked_add (128 + length mb) (length rb) = Some (128 + length mb + length rb)"
      using ml rl by (simp_all add: checked_add_def u64_end_def)
    show ?thesis
      unfolding write_empty_container_def Let_def HEADER_LEN_def m_def [symmetric] e(1) rbind.simps u(1) a(1) ok_or_Some mo
        r_def [symmetric] e(2) a(2) u(2) a(3) f(1) e(3) u(3)
      by (simp add: h_def t_def Checksum_blake3_def)
  qed
  show thesis
    by (rule that [OF w m_def mb_def rb_def fb_def ml rl f(5) [folded fb_def] r_def rw f(2) f(3) [folded fb_def] h_def t_def])
qed

lemma slice_append_mid: "a = length xs \<Longrightarrow> b = length xs + length ys \<Longrightarrow> slice (xs @ ys @ zs) a b = ys"
  by (simp add: slice_def)

lemma slice_append_end: "a = length xs \<Longrightarrow> b = length xs + length ys \<Longrightarrow> slice (xs @ ys) a b = ys"
  by (simp add: slice_def)

lemma empty_container_parts:
  assumes "blake3_documented X" and "length cid = 16"
  obtains bs h t f m r ct where "write_empty_container X cid = Ok bs"
    and "container_parts X bs ResourceLimits_default h t f m r ct []" and "ir_blocks r = [ct]"
    and "bd_block_type ct = CHUNK_TABLE_TYPE" and "h_container_id h = cid"
    and "ir_original_size r = 0" and "ir_chunk_count r = 0" and "ir_line_count r = 0"
    and "m = Metadata_empty X cid" and "fp_container_checksum f = None" and "length bs < 65536"
proof (rule write_empty_container_layout [OF assms])
  fix m r f mb rb fb h t
  assume w: "write_empty_container X cid = Ok (Header_encode h @ mb @ rb @ fb @ FooterTrailer_encode t)"
    and m: "m = Metadata_empty X cid" and mb: "mb = enc (metadata_value m)" and rb: "rb = enc (index_root_value r)"
    and fb: "fb = enc (footer_value f)" and ml: "length mb < 8192" and rl: "length rb < 8192" and fl: "length fb < 4096"
    and r: "r = \<lparr>ir_container_id = cid, ir_blocks = [BlockDescriptor_chunk_table (128 + length mb) 0 (Checksum_blake3 X [])],
           ir_original_size = 0, ir_original_checksum = Checksum_blake3 X [], ir_chunk_count = 0, ir_line_count = 0\<rparr>"
    and rw: "IndexRoot_wf r" and fw: "FooterPayload_wf f"
    and f: "f = footer_candidate cid \<lparr>br_offset = 128 + length mb, br_size = length rb, br_checksum = Checksum_blake3 X rb\<rparr>
           \<lparr>br_offset = 128, br_size = length mb, br_checksum = Checksum_blake3 X mb\<rparr> None
           (128 + length mb + length rb + length fb + 64)"
    and h: "h = \<lparr>metadata_offset = 128, metadata_size = length mb, index_hint_offset = 128 + length mb, h_container_id = cid\<rparr>"
    and t: "t = \<lparr>footer_payload_offset = 128 + length mb + length rb, footer_payload_size = length fb,
           footer_payload_checksum_blake3 = blake3_hash X fb\<rparr>"
  define ct where "ct = BlockDescriptor_chunk_table (128 + length mb) 0 (Checksum_blake3 X [])"
  define bs where "bs = Header_encode h @ mb @ rb @ fb @ FooterTrailer_encode t"
  have hw: "Header_wf h" using ml assms(2) by (simp add: Header_wf_def h u64_end_def)
  have tw: "FooterTrailer_wf t" using ml rl fl assms(1) by (simp add: FooterTrailer_wf_def t u64_end_def blake3_length)
  have len: "length (Header_encode h) = 128" "length (FooterTrailer_encode t) = 64"
    using header.encode_width [OF hw] trailer.encode_width [OF tw] by (simp_all add: fixed_consts)
  then have bl: "length bs = 128 + length mb + length rb + length fb + 64" by (simp add: bs_def)
  have mw: "Metadata_wf m" unfolding m by (rule Metadata_empty_wf [OF assms])
  have rt: "ir_blocks r = [BlockDescriptor_chunk_table (128 + length mb) 0 (Checksum_blake3 X [])]" by (simp add: r)
  note rd = table_only_root(1) [OF rw rt]
  have acc: "accepts_cbor ResourceLimits_default fb" "accepts_cbor ResourceLimits_default mb"
      "accepts_cbor ResourceLimits_default rb"
    unfolding fb mb rb using footer_decodable [OF fw] metadata_decodable [OF mw] root_decodable [OF rw rd]
    by (auto intro: decodable_accepts)
  have dec: "FooterPayload_decode fb = Ok f" "Metadata_decode mb = Ok m" "IndexRoot_decode rb = Ok r"
    unfolding fb mb rb using footer_roundtrip(2) [OF fw] metadata_roundtrip(2) [OF mw] root_roundtrip(2) [OF rw rd] by auto
  have st: "stored bs 128 (length mb) mb" "stored bs (128 + length mb) (length rb) rb"
      "stored bs (128 + length mb + length rb) (length fb) fb" "stored bs (128 + length mb) 0 []"
    using stored_append [of 128 "Header_encode h" "length mb" mb "rb @ fb @ FooterTrailer_encode t"]
      stored_append [of "128 + length mb" "Header_encode h @ mb" "length rb" rb "fb @ FooterTrailer_encode t"]
      stored_append [of "128 + length mb + length rb" "Header_encode h @ mb @ rb" "length fb" fb "FooterTrailer_encode t"]
    by (simp_all add: bs_def len stored_def)
  have ends: "slice bs 0 128 = Header_encode h" "slice bs (length bs - 64) (length bs) = FooterTrailer_encode t"
    using slice_append_end [of "length bs - 64" "Header_encode h @ mb @ rb @ fb" "length bs" "FooterTrailer_encode t"] bl
    by (simp_all add: bs_def len slice_simps)
  have tab: "validate_chunk_table_block [] 0 0 0 = Ok []"
    by (subst validate_chunk_table_block_Ok_iff) (auto simp: u64_end_def chunk_layout_def)
  have cc: "chunk_table_block r = Ok ct" "bd_codec ct = ''qzt-ctbl-fixed-v1''" "bd_block_type ct = CHUNK_TABLE_TYPE"
    by (simp_all add: chunk_table_block_def r ct_def is_required_chunk_table_def BlockDescriptor_chunk_table_def
        BlockDescriptor_new_def CHUNK_TABLE_TYPE_def CHUNK_TABLE_CODEC_def)
  have ranges: "physical_ranges h t f r ct [] = [PhysicalRange_new 128 (length mb), PhysicalRange_new (128 + length mb) (length rb),
      PhysicalRange_new (128 + length mb + length rb) (length fb), PhysicalRange_new (128 + length mb) 0]"
    by (simp add: physical_ranges_def h t f r ct_def footer_candidate_def BlockDescriptor_chunk_table_def
        BlockDescriptor_new_def CHUNK_TABLE_TYPE_def)
  have "validate_physical_ranges (length bs) (physical_ranges h t f r ct []) = Ok ()"
    unfolding ranges using ml rl fl
    by (subst validate_physical_ranges_Ok_iff) (auto simp: bl separated_def PhysicalRange_new_def fixed_consts u64_end_def)
  moreover have "fp_final_file_size f = length bs" "fp_container_id f = cid" "br_offset (fp_metadata f) = 128"
      "br_size (fp_metadata f) = length mb" "br_checksum (fp_metadata f) = Checksum_blake3 X mb"
      "br_offset (fp_index_root f) = 128 + length mb" "br_size (fp_index_root f) = length rb"
      "br_checksum (fp_index_root f) = Checksum_blake3 X rb"
    by (simp_all only: f footer_candidate_def FooterPayload.simps BlockRef.simps bl)
  moreover have "footer_payload_offset t = 128 + length mb + length rb" "footer_payload_size t = length fb"
      "footer_payload_checksum_blake3 t = blake3_hash X fb" "metadata_offset h = 128" "metadata_size h = length mb"
      "h_container_id h = cid"
    by (simp_all only: t h FooterTrailer.simps Header.simps)
  moreover have "md_container_id m = cid" "md_original_size m = 0" "md_line_count m = 0"
      "md_original_checksum m = Checksum_blake3 X []"
    by (simp_all add: m Metadata_empty_def Metadata_for_source_with_options_def)
  moreover have "ir_container_id r = cid" "ir_original_size r = 0" "ir_original_checksum r = Checksum_blake3 X []"
      "ir_chunk_count r = 0" "ir_line_count r = 0" "ir_blocks r = [ct]"
    by (simp_all add: r ct_def)
  moreover have "bd_offset ct = 128 + length mb" "bd_size ct = 0" "bd_checksum ct = Checksum_blake3 X []"
    by (simp_all add: ct_def BlockDescriptor_chunk_table_def BlockDescriptor_new_def)
  moreover have "length mb \<le> max_index_block_size ResourceLimits_default"
      "length rb \<le> max_index_block_size ResourceLimits_default" "192 \<le> length bs" "length bs < u64_end"
    using ml rl fl by (simp_all add: ResourceLimits_default_def bl u64_end_def)
  ultimately have "container_parts X bs ResourceLimits_default h t f m r ct []"
    using hw tw ends acc dec st tab cc
    by (intro container_partsI [of bs h t fb X ResourceLimits_default f mb m rb r ct "[]" "[]"]) simp_all
  moreover have "fp_container_checksum f = None" by (simp only: f footer_candidate_def FooterPayload.simps)
  moreover have "length bs < 65536" using ml rl fl bl by simp
  ultimately show thesis using that [of bs h t f m r ct] w cc(3) m by (simp add: bs_def r h ct_def)
qed

lemma empty_container_opens:
  assumes "blake3_documented X" and "length cid = 16"
  obtains bs d where "write_empty_container X cid = Ok bs" and "open_skeleton_details X bs = Ok d"
    and "sk_summary d = \<lparr>ss_container_id = cid, ss_original_size = 0, ss_chunk_count = 0, ss_line_count = 0\<rparr>"
    and "sk_chunk_entries d = []" and "sk_metadata d = Metadata_empty X cid" and "sk_dense_line_index d = None"
    and "sk_document_index d = None" and "fp_container_checksum (sk_footer_payload d) = None"
    and "length bs < 65536"
proof (rule empty_container_parts [OF assms])
  fix bs h t f m r ct
  assume w: "write_empty_container X cid = Ok bs" and p: "container_parts X bs ResourceLimits_default h t f m r ct []"
    and b: "ir_blocks r = [ct]" "bd_block_type ct = CHUNK_TABLE_TYPE" and h: "h_container_id h = cid"
    and z: "ir_original_size r = 0" "ir_chunk_count r = 0" "ir_line_count r = 0" "m = Metadata_empty X cid"
      "fp_container_checksum f = None" "length bs < 65536"
  have "optional_parts X bs ResourceLimits_default (h_container_id h) r [] [] None None"
    using b by (simp add: optional_parts_def parse_dictionary_blocks_def parse_dense_line_index_def
        parse_document_index_def blocks_of_type_def CHUNK_TABLE_TYPE_def validate_required_dictionaries_def)
  from open_complete [OF p this] show thesis
    using that [OF w] h z by (simp add: open_skeleton_details_def skeleton_details_def)
qed

lemma opened_facts:
  assumes "open_skeleton_details_with_limits X bs limits = Ok d"
  shows "chunk_layout (sk_chunk_entries d)"
    and "length (sk_chunk_entries d) = ss_chunk_count (sk_summary d) \<and>
       sum_list (map uncompressed_size (sk_chunk_entries d)) = ss_original_size (sk_summary d) \<and>
       sum_list (map line_count (sk_chunk_entries d)) = ss_line_count (sk_summary d)"
    and "\<forall>e \<in> set (sk_chunk_entries d). 128 \<le> physical_offset e \<and>
       physical_offset e + compressed_size e \<le> length bs - 64 \<and>
       compressed_size e \<le> max_compressed_chunk_size limits \<and> uncompressed_size e \<le> max_uncompressed_chunk_size limits"
    and "\<forall>j < length (sk_chunk_entries d). \<forall>i < j.
       let a = sk_chunk_entries d ! i; b = sk_chunk_entries d ! j in
       physical_offset a + compressed_size a \<le> physical_offset b \<or> physical_offset b + compressed_size b \<le> physical_offset a"
    and "fp_container_id (sk_footer_payload d) = ss_container_id (sk_summary d) \<and>
       md_container_id (sk_metadata d) = ss_container_id (sk_summary d) \<and>
       md_original_size (sk_metadata d) = ss_original_size (sk_summary d) \<and>
       md_line_count (sk_metadata d) = ss_line_count (sk_summary d) \<and>
       fp_final_file_size (sk_footer_payload d) = length bs"
    and "\<exists>mb rb. let f = sk_footer_payload d in
       stored bs (br_offset (fp_metadata f)) (br_size (fp_metadata f)) mb \<and> Checksum_blake3 X mb = br_checksum (fp_metadata f) \<and>
       stored bs (br_offset (fp_index_root f)) (br_size (fp_index_root f)) rb \<and> Checksum_blake3 X rb = br_checksum (fp_index_root f)"
    and "distinct (map de_dictionary_id (sk_dictionaries d)) \<and>
       (\<forall>e \<in> set (sk_chunk_entries d). dictionary_id e = 0 \<or> (\<exists>y \<in> set (sk_dictionaries d). de_dictionary_id y = dictionary_id e))"
    and "case sk_dense_line_index d of None \<Rightarrow> True
       | Some idx \<Rightarrow> list_all2 entry_matches (dense_entries idx) (sk_chunk_entries d)"
    and "case sk_document_index d of None \<Rightarrow> True | Some di \<Rightarrow> distinct (map doc_id (di_documents di))"
proof -
  obtain h t f m r ct es dicts dense docs where p: "container_parts X bs limits h t f m r ct es"
    and o: "optional_parts X bs limits (h_container_id h) r es dicts dense docs"
    and d: "d = skeleton_details h t f m r es dicts dense docs"
    using assms unfolding open_Ok_iff by blast
  note proj = d [unfolded skeleton_details_def]
  note tab = container_parts_table [OF p]
  note rng = container_parts_ranges [OF p]
  note opt = o [unfolded optional_parts_def]
  show "chunk_layout (sk_chunk_entries d)" using tab by (simp add: proj)
  show "length (sk_chunk_entries d) = ss_chunk_count (sk_summary d) \<and>
       sum_list (map uncompressed_size (sk_chunk_entries d)) = ss_original_size (sk_summary d) \<and>
       sum_list (map line_count (sk_chunk_entries d)) = ss_line_count (sk_summary d)"
    using tab by (simp add: proj)
  show "\<forall>e \<in> set (sk_chunk_entries d). 128 \<le> physical_offset e \<and>
       physical_offset e + compressed_size e \<le> length bs - 64 \<and>
       compressed_size e \<le> max_compressed_chunk_size limits \<and> uncompressed_size e \<le> max_uncompressed_chunk_size limits"
    using rng(1) p by (simp add: proj container_parts_def)
  show "\<forall>j < length (sk_chunk_entries d). \<forall>i < j.
       let a = sk_chunk_entries d ! i; b = sk_chunk_entries d ! j in
       physical_offset a + compressed_size a \<le> physical_offset b \<or> physical_offset b + compressed_size b \<le> physical_offset a"
    using rng(2) by (simp add: proj sorted_wrt_iff_nth_less separated_def PhysicalRange_new_def Let_def)
  show "fp_container_id (sk_footer_payload d) = ss_container_id (sk_summary d) \<and>
       md_container_id (sk_metadata d) = ss_container_id (sk_summary d) \<and>
       md_original_size (sk_metadata d) = ss_original_size (sk_summary d) \<and>
       md_line_count (sk_metadata d) = ss_line_count (sk_summary d) \<and>
       fp_final_file_size (sk_footer_payload d) = length bs"
    using p by (simp add: proj container_parts_def)
  show "\<exists>mb rb. let f = sk_footer_payload d in
       stored bs (br_offset (fp_metadata f)) (br_size (fp_metadata f)) mb \<and> Checksum_blake3 X mb = br_checksum (fp_metadata f) \<and>
       stored bs (br_offset (fp_index_root f)) (br_size (fp_index_root f)) rb \<and> Checksum_blake3 X rb = br_checksum (fp_index_root f)"
    using p by (auto simp: proj container_parts_def)
  show "distinct (map de_dictionary_id (sk_dictionaries d)) \<and>
       (\<forall>e \<in> set (sk_chunk_entries d). dictionary_id e = 0 \<or> (\<exists>y \<in> set (sk_dictionaries d). de_dictionary_id y = dictionary_id e))"
    using opt parse_dictionary_blocks_distinct [of X bs r "h_container_id h" limits dicts]
    by (simp add: proj validate_required_dictionaries_Ok_iff)
  show "case sk_dense_line_index d of None \<Rightarrow> True
       | Some idx \<Rightarrow> list_all2 entry_matches (dense_entries idx) (sk_chunk_entries d)"
    using opt parse_dense_line_index_matches [of X bs r es limits dense] tab by (cases dense) (simp_all add: proj)
  show "case sk_document_index d of None \<Rightarrow> True | Some di \<Rightarrow> distinct (map doc_id (di_documents di))"
    using opt parse_document_index_distinct [of X bs r "h_container_id h" limits docs]
    by (cases docs) (simp_all add: proj)
qed

text \<open>
  The lookup table built at open maps a name to the first position with that name in the
  index, and to nothing when no document has it.
\<close>

lemma lookup_first:
  "build_document_lookup (Some di) key = Some i \<longleftrightarrow>
     i < length (di_documents di) \<and> doc_id (di_documents di ! i) = key \<and>
     (\<forall>j < i. doc_id (di_documents di ! j) \<noteq> key)"
proof -
  have "build_document_lookup (Some di) key =
      map_option (\<lambda>(i, d). i) (find (\<lambda>(i, d). doc_id d = key) (enumerate 0 (di_documents di)))"
    by (simp add: build_document_lookup_def lookup_fold)
  then show ?thesis
    using find_enumerate [of "\<lambda>d. doc_id d = key" 0 "di_documents di" i] by simp
qed

section \<open>Properties\<close>

text \<open>
  C33: the opener over a positioned reader and the opener over bytes in memory agree. For a
  file whose positioned reads may be short, and for the in-memory slice, opening through the
  reader gives the same details or the same error as opening the contents.
\<close>

theorem open_read_at_equals_open_bytes:
  assumes "positioned_reads read_at contents" and "length contents < 2 ^ 63"
  shows "open_skeleton_details_read_at X (file_read_exact_at read_at) (length contents) limits =
       open_skeleton_details_with_limits X contents limits \<and>
     open_skeleton_details_read_at X (slice_read_exact_at contents) (length contents) limits =
       open_skeleton_details_with_limits X contents limits"
proof -
  have l: "length contents < isize_end" using assms(2) by (simp add: isize_end_def)
  show ?thesis
    by (rule conjI [OF byte_source.open_read_at [OF file_byte_source [OF assms(1)] l] slice_source.open_read_at [OF l]])
qed

text \<open>
  C4: what an accepted container guarantees. Whatever the bytes, if the opener succeeds then
  the chunk entries tile the original bytes and lines of the summary, respect the chunk size
  limits, lie after the header and before the trailer and are pairwise disjoint in the file;
  the identifiers of header, footer, metadata and summary agree; the stored size is the file
  size; metadata block and index root have the checksums the footer stores; dictionary
  identifiers are unique and every dictionary a chunk needs is present; a dense line index
  matches the chunk table; and document identifiers are unique.
\<close>

theorem open_skeleton_sound:
  assumes "open_skeleton_details_with_limits X bs limits = Ok d"
  shows "(chunk_layout (sk_chunk_entries d)) \<and>
     (length (sk_chunk_entries d) = ss_chunk_count (sk_summary d) \<and>
       sum_list (map uncompressed_size (sk_chunk_entries d)) = ss_original_size (sk_summary d) \<and>
       sum_list (map line_count (sk_chunk_entries d)) = ss_line_count (sk_summary d)) \<and>
     (\<forall>e \<in> set (sk_chunk_entries d). 128 \<le> physical_offset e \<and>
       physical_offset e + compressed_size e \<le> length bs - 64 \<and>
       compressed_size e \<le> max_compressed_chunk_size limits \<and> uncompressed_size e \<le> max_uncompressed_chunk_size limits) \<and>
     (\<forall>j < length (sk_chunk_entries d). \<forall>i < j.
       let a = sk_chunk_entries d ! i; b = sk_chunk_entries d ! j in
       physical_offset a + compressed_size a \<le> physical_offset b \<or> physical_offset b + compressed_size b \<le> physical_offset a) \<and>
     (fp_container_id (sk_footer_payload d) = ss_container_id (sk_summary d) \<and>
       md_container_id (sk_metadata d) = ss_container_id (sk_summary d) \<and>
       md_original_size (sk_metadata d) = ss_original_size (sk_summary d) \<and>
       md_line_count (sk_metadata d) = ss_line_count (sk_summary d) \<and>
       fp_final_file_size (sk_footer_payload d) = length bs) \<and>
     (\<exists>mb rb. let f = sk_footer_payload d in
       stored bs (br_offset (fp_metadata f)) (br_size (fp_metadata f)) mb \<and> Checksum_blake3 X mb = br_checksum (fp_metadata f) \<and>
       stored bs (br_offset (fp_index_root f)) (br_size (fp_index_root f)) rb \<and> Checksum_blake3 X rb = br_checksum (fp_index_root f)) \<and>
     (distinct (map de_dictionary_id (sk_dictionaries d)) \<and>
       (\<forall>e \<in> set (sk_chunk_entries d). dictionary_id e = 0 \<or> (\<exists>y \<in> set (sk_dictionaries d). de_dictionary_id y = dictionary_id e))) \<and>
     (case sk_dense_line_index d of None \<Rightarrow> True
       | Some idx \<Rightarrow> list_all2 entry_matches (dense_entries idx) (sk_chunk_entries d)) \<and>
     (case sk_document_index d of None \<Rightarrow> True | Some di \<Rightarrow> distinct (map doc_id (di_documents di)))"
  by (intro conjI opened_facts [OF assms])

text \<open>
  C35: the footer's self-reference is always resolved. For well-formed block references and an
  offset with room for the footer, the bounded search for the final file size never runs out
  of rounds: it returns a payload that can be encoded and whose stored file size is the offset
  plus its own encoded length plus the trailer.
\<close>

theorem fixed_point_footer_payload_converges:
  assumes "length cid = 16" and "BlockRef_wf ir" and "BlockRef_wf md"
    and "case cc of None \<Rightarrow> True | Some c \<Rightarrow> Checksum_wf c" and "off + 4168 < 2 ^ 64"
  shows "\<exists>f fb. fixed_point_footer_payload cid ir md off cc = Ok f \<and> FooterPayload_encode f = Ok fb \<and>
     fp_final_file_size f = off + length fb + 64 \<and> fp_container_id f = cid \<and> fp_index_root f = ir \<and>
     fp_metadata f = md \<and> fp_container_checksum f = cc \<and> FooterPayload_decode fb = Ok f"
proof -
  have "off + 4168 < u64_end" using assms(5) by (simp add: u64_end_def)
  from fixed_point_footer [OF assms(1-4) this] obtain f where
    "fixed_point_footer_payload cid ir md off cc = Ok f" and w: "FooterPayload_wf f"
    and f: "f = footer_candidate cid ir md cc (off + length (enc (footer_value f)) + 64)"
    and "FooterPayload_encode f = Ok (enc (footer_value f))" by metis
  moreover have "fp_final_file_size f = off + length (enc (footer_value f)) + 64" "fp_container_id f = cid"
      "fp_index_root f = ir" "fp_metadata f = md" "fp_container_checksum f = cc"
    by (subst f, simp add: footer_candidate_def)+
  ultimately show ?thesis using footer_roundtrip(2) [OF w] by blast
qed

theorem fixed_point_footer_payload_converges_witness:
  "\<exists>f. fixed_point_footer_payload (replicate 16 1) (fp_index_root sample_footer) (fp_metadata sample_footer) 65000 None = Ok f \<and>
     fp_container_id f = replicate 16 1"
  using fixed_point_footer_payload_converges [of "replicate 16 1" "fp_index_root sample_footer" "fp_metadata sample_footer" None 65000]
  by (auto simp: BlockRef_wf_def sample_footer_def sample_checksum_def Checksum_wf_def CHECKSUM_ALGORITHM_BLAKE3_def u64_end_def)

text \<open>
  C36: the empty container is a container. With a 16-byte identifier it is always written, and
  opening it succeeds with that identifier and with no bytes, chunks or lines.
\<close>

theorem write_empty_container_opens:
  assumes "blake3_documented X" and "length cid = 16"
  shows "\<exists>bs. write_empty_container X cid = Ok bs \<and>
     open_skeleton X bs = Ok \<lparr>ss_container_id = cid, ss_original_size = 0, ss_chunk_count = 0, ss_line_count = 0\<rparr>"
  by (rule empty_container_opens [OF assms]) (auto simp: open_skeleton_def)

theorem write_empty_container_opens_witness:
  "\<exists>bs. write_empty_container toy_ext (replicate 16 9) = Ok bs \<and> is_ok (open_skeleton toy_ext bs)"
  using write_empty_container_opens [OF toy_blake3, of "replicate 16 9"] by (auto simp: is_ok_iff)

end
