(* ===== verification/Reader.thy ===== *)
theory Reader
  imports Skeleton_Correct
begin

text \<open>
  Reading a container (src/src/reader.rs): the in-memory reader and the positioned reader with
  every operation, the one-entry decode cache, and deep verification with its streaming text
  analysis and its single-pass document hashing. Indexing a decoded chunk past its end would
  panic in the source; the accesses below are inside the chunk because a decoded chunk has the
  size its table entry states. An operation that takes \<open>&mut\<close> returns the new state beside
  its result, also when it fails.
\<close>

section \<open>Reports\<close>

record QztInfo =
  info_container_id :: bytes
  info_original_size :: u64
  info_chunk_count :: u64
  info_line_count :: u64

record RangeReadMetrics =
  rm_decoded_chunks :: u64
  rm_decoded_bytes :: u64
  rm_compressed_bytes :: u64

record RangeReadReport =
  rr_bytes :: bytes
  rr_metrics :: RangeReadMetrics

datatype VerifyLevel = Quick | Normal | Deep

datatype PrefixChecksumStatus = PrefixAbsent | PresentUnchecked | Verified

fun PrefixChecksumStatus_as_str :: "PrefixChecksumStatus \<Rightarrow> string" where
  "PrefixChecksumStatus_as_str PrefixAbsent = ''absent''"
| "PrefixChecksumStatus_as_str PresentUnchecked = ''present_unchecked''"
| "PrefixChecksumStatus_as_str Verified = ''verified''"

datatype IndexVerificationStatus = IndexAbsent | StoredBlockVerified | SourceChecked

fun IndexVerificationStatus_as_str :: "IndexVerificationStatus \<Rightarrow> string" where
  "IndexVerificationStatus_as_str IndexAbsent = ''absent''"
| "IndexVerificationStatus_as_str StoredBlockVerified = ''stored_block_verified''"
| "IndexVerificationStatus_as_str SourceChecked = ''source_checked''"

record VerifyReport =
  vr_level :: VerifyLevel
  vr_checked_chunks :: u64
  vr_compressed_checksum_chunks :: u64
  vr_decoded_chunks :: u64
  vr_decoded_bytes :: u64
  vr_original_checksum_verified :: bool
  vr_container_checksum_status :: PrefixChecksumStatus
  vr_dense_line_index_status :: IndexVerificationStatus
  vr_document_index_status :: IndexVerificationStatus

fun index_status :: "bool \<Rightarrow> bool \<Rightarrow> IndexVerificationStatus" where
  "index_status False _ = IndexAbsent"
| "index_status True False = StoredBlockVerified"
| "index_status True True = SourceChecked"

definition report_for_level :: "SkeletonDetails \<Rightarrow> VerifyLevel \<Rightarrow> u64 \<Rightarrow> VerifyReport" where
  "report_for_level details level decoded =
     (let payload_checked = (level \<noteq> Quick); deep = (level = Deep) in
      \<lparr>vr_level = level,
       vr_checked_chunks = ss_chunk_count (sk_summary details),
       vr_compressed_checksum_chunks = (if payload_checked then ss_chunk_count (sk_summary details) else 0),
       vr_decoded_chunks = (if deep then ss_chunk_count (sk_summary details) else 0),
       vr_decoded_bytes = decoded,
       vr_original_checksum_verified = deep,
       vr_container_checksum_status =
         (case (fp_container_checksum (sk_footer_payload details), payload_checked) of
            (None, _) \<Rightarrow> PrefixAbsent
          | (Some _, False) \<Rightarrow> PresentUnchecked
          | (Some _, True) \<Rightarrow> Verified),
       vr_dense_line_index_status = index_status (sk_dense_line_index details \<noteq> None) deep,
       vr_document_index_status = index_status (sk_document_index details \<noteq> None) deep\<rparr>)"

section \<open>The decode cache\<close>

record ChunkDecodeCache =
  cc_chunk_id :: "u64 option"
  cc_decoded :: bytes
  cc_physical_decoded_bytes :: u64
  cc_decoded_chunks :: u64
  cc_compressed_bytes :: u64

type_synonym decoder = "ChunkEntry \<Rightarrow> bytes result"

definition ChunkDecodeCache_new :: ChunkDecodeCache where
  "ChunkDecodeCache_new = \<lparr>cc_chunk_id = None, cc_decoded = [], cc_physical_decoded_bytes = 0,
     cc_decoded_chunks = 0, cc_compressed_bytes = 0\<rparr>"

definition decoded_entry :: "ChunkDecodeCache \<Rightarrow> ChunkEntry \<Rightarrow> decoder \<Rightarrow> bytes result \<times> ChunkDecodeCache" where
  "decoded_entry self entry decode_entry =
     (if cc_chunk_id self \<noteq> Some (chunk_id entry) then
        (case decode_entry entry of
           Inl err \<Rightarrow> (Err err, self)
         | Inr decoded \<Rightarrow>
             let self = self\<lparr>cc_decoded := decoded, cc_chunk_id := Some (chunk_id entry)\<rparr> in
             (case checked_add (cc_physical_decoded_bytes self) (uncompressed_size entry) of
                None \<Rightarrow> (Err ResourceLimitExceeded, self)
              | Some n \<Rightarrow>
                  let self = self\<lparr>cc_physical_decoded_bytes := n\<rparr> in
                  (case checked_add (cc_decoded_chunks self) 1 of
                     None \<Rightarrow> (Err ResourceLimitExceeded, self)
                   | Some n \<Rightarrow>
                       let self = self\<lparr>cc_decoded_chunks := n\<rparr> in
                       (case checked_add (cc_compressed_bytes self) (compressed_size entry) of
                          None \<Rightarrow> (Err ResourceLimitExceeded, self)
                        | Some n \<Rightarrow>
                            let self = self\<lparr>cc_compressed_bytes := n\<rparr> in (Ok (cc_decoded self), self)))))
      else (Ok (cc_decoded self), self))"

text \<open>The preflight of a span of chunks: the first cap that would be passed, if any.\<close>

fun search_limit_loop ::
  "ChunkEntry list \<Rightarrow> u64 option \<Rightarrow> u64 \<Rightarrow> u64 \<Rightarrow> u64 \<Rightarrow> u64 \<Rightarrow> string option result"
where
  "search_limit_loop [] cached bs chunks max_bytes max_chunks = Ok None"
| "search_limit_loop (entry # span) cached bs chunks max_bytes max_chunks =
     (if cached \<noteq> Some (chunk_id entry) then
        rbind (ok_or (checked_add bs (uncompressed_size entry)) ResourceLimitExceeded) (\<lambda>bs.
        if bs > max_bytes then Ok (Some ''max_physical_decoded_bytes'')
        else
          rbind (ok_or (checked_add chunks 1) ResourceLimitExceeded) (\<lambda>chunks.
          if chunks > max_chunks then Ok (Some ''max_physical_decoded_chunks'')
          else search_limit_loop span (Some (chunk_id entry)) bs chunks max_bytes max_chunks))
      else search_limit_loop span cached bs chunks max_bytes max_chunks)"

definition search_limit_for_span ::
  "ChunkDecodeCache \<Rightarrow> ChunkEntry list \<Rightarrow> u64 \<Rightarrow> u64 \<Rightarrow> u64 \<Rightarrow> u64 \<Rightarrow> string option result"
where
  "search_limit_for_span self entries chunk_start chunk_end max_bytes max_chunks =
     rbind (u64_to_usize chunk_start) (\<lambda>start.
     rbind (u64_to_usize chunk_end) (\<lambda>e.
     rbind (ok_or (get_slice entries start e) ChunkTableInvalid) (\<lambda>span.
     search_limit_loop span (cc_chunk_id self) (cc_physical_decoded_bytes self) (cc_decoded_chunks self)
       max_bytes max_chunks)))"

section \<open>Ranges\<close>

text \<open>The loop over the chunks that meet \<open>[offset, end)\<close>, from a given index on.\<close>

fun read_range_loop ::
  "ChunkEntry list \<Rightarrow> u64 \<Rightarrow> u64 \<Rightarrow> decoder \<Rightarrow> bytes \<Rightarrow> ChunkDecodeCache \<Rightarrow> bytes result \<times> ChunkDecodeCache"
where
  "read_range_loop [] offset e decode_entry output cache = (Ok output, cache)"
| "read_range_loop (entry # rest) offset e decode_entry output cache =
     (case checked_logical_end (logical_offset entry) (uncompressed_size entry) of
        Inl err \<Rightarrow> (Err err, cache)
      | Inr chunk_end \<Rightarrow>
          if logical_offset entry \<ge> e then (Ok output, cache)
          else
            (case decoded_entry cache entry decode_entry of
               (Inl err, cache) \<Rightarrow> (Err err, cache)
             | (Inr decoded, cache) \<Rightarrow>
                 let copy_start = max offset (logical_offset entry);
                     copy_end = min e chunk_end in
                 (case rbind (u64_to_usize (copy_start - logical_offset entry)) (\<lambda>local_start.
                       rbind (u64_to_usize (copy_end - logical_offset entry)) (\<lambda>local_end.
                       Ok (slice decoded local_start local_end))) of
                    Inl err \<Rightarrow> (Err err, cache)
                  | Inr part \<Rightarrow> read_range_loop rest offset e decode_entry (output @ part) cache)))"

definition read_range_from_entries_cached ::
  "ChunkEntry list \<Rightarrow> u64 \<Rightarrow> u64 \<Rightarrow> u64 \<Rightarrow> ChunkDecodeCache \<Rightarrow> decoder \<Rightarrow> bytes result \<times> ChunkDecodeCache"
where
  "read_range_from_entries_cached entries original_size offset len cache decode_entry =
     (case checked_logical_end offset len of
        Inl err \<Rightarrow> (Err err, cache)
      | Inr e \<Rightarrow>
          if e > original_size then (Err LogicalRangeOutOfBounds, cache)
          else if len = 0 then (Ok [], cache)
          else
            (case chunk_index_for_logical_offset entries offset of
               Inl err \<Rightarrow> (Err err, cache)
             | Inr index \<Rightarrow>
                 (case read_range_loop (drop index entries) offset e decode_entry [] cache of
                    (Inl err, cache) \<Rightarrow> (Err err, cache)
                  | (Inr output, cache) \<Rightarrow>
                      (rbind (usize_to_u64 (length output)) (\<lambda>n.
                       if n \<noteq> len then Err ContainerCorrupt else Ok output), cache))))"

definition read_range_with_metrics_from_entries ::
  "ChunkEntry list \<Rightarrow> u64 \<Rightarrow> u64 \<Rightarrow> u64 \<Rightarrow> decoder \<Rightarrow> RangeReadReport result"
where
  "read_range_with_metrics_from_entries entries original_size offset len decode_entry =
     (case read_range_from_entries_cached entries original_size offset len ChunkDecodeCache_new decode_entry of
        (r, cache) \<Rightarrow>
          rbind r (\<lambda>bs.
          Ok \<lparr>rr_bytes = bs, rr_metrics = \<lparr>rm_decoded_chunks = cc_decoded_chunks cache,
                rm_decoded_bytes = cc_physical_decoded_bytes cache,
                rm_compressed_bytes = cc_compressed_bytes cache\<rparr>\<rparr>))"

definition read_range_from_entries ::
  "ChunkEntry list \<Rightarrow> u64 \<Rightarrow> u64 \<Rightarrow> u64 \<Rightarrow> decoder \<Rightarrow> bytes result"
where
  "read_range_from_entries entries original_size offset len decode_entry =
     rbind (read_range_with_metrics_from_entries entries original_size offset len decode_entry) (\<lambda>report.
     Ok (rr_bytes report))"

section \<open>Lines\<close>

definition line_start_chunk_index :: "ChunkEntry list \<Rightarrow> u64 \<Rightarrow> usize result" where
  "line_start_chunk_index entries line_zero_based =
     rbind (partition_by_end entries line_zero_based
              (\<lambda>entry. checked_logical_end (first_line entry) (line_count entry))) (\<lambda>low.
     rbind (ok_or (get entries low) LineOutOfRange) (\<lambda>entry.
     rbind (checked_logical_end (first_line entry) (line_count entry)) (\<lambda>line_end.
     if first_line entry \<le> line_zero_based \<and> line_zero_based < line_end then Ok low else Err LineOutOfRange)))"

definition local_line_starts :: "bytes \<Rightarrow> u32 \<Rightarrow> usize list" where
  "local_line_starts decoded flags0 =
     (let starts = (if flags0 AND STARTS_WITH_LINE_CONTINUATION = 0 \<and> decoded \<noteq> [] then [0] else []) in
      foldl (\<lambda>starts index.
          if decoded ! index = LF \<and> index + 1 < length decoded then starts @ [index + 1] else starts)
        starts [0 ..< length decoded])"

text \<open>The bytes appended, and whether a line feed was among them.\<close>

fun append_until_lf_loop :: "bytes \<Rightarrow> bytes \<Rightarrow> bool \<times> bytes" where
  "append_until_lf_loop [] output = (False, output)"
| "append_until_lf_loop (byte # rest) output =
     (if byte = LF then (True, output @ [byte]) else append_until_lf_loop rest (output @ [byte]))"

definition append_until_lf :: "bytes \<Rightarrow> usize \<Rightarrow> bytes \<Rightarrow> bool \<times> bytes" where
  "append_until_lf decoded start output = append_until_lf_loop (drop start decoded) output"

fun read_line_loop :: "ChunkEntry list \<Rightarrow> decoder \<Rightarrow> bytes \<Rightarrow> bytes result" where
  "read_line_loop [] decode_entry output = Ok output"
| "read_line_loop (entry # rest) decode_entry output =
     rbind (decode_entry entry) (\<lambda>decoded.
     case append_until_lf decoded 0 output of
       (True, output) \<Rightarrow> Ok output
     | (False, output) \<Rightarrow> read_line_loop rest decode_entry output)"

definition read_line_from_entries :: "SkeletonDetails \<Rightarrow> u64 \<Rightarrow> decoder \<Rightarrow> bytes result" where
  "read_line_from_entries details line_zero_based decode_entry =
     (if line_zero_based \<ge> ss_line_count (sk_summary details) then Err LineOutOfRange
      else
        rbind (line_start_chunk_index (sk_chunk_entries details) line_zero_based) (\<lambda>start_index.
        rbind (ok_or (get (sk_chunk_entries details) start_index) LineOutOfRange) (\<lambda>start_entry.
        rbind (decode_entry start_entry) (\<lambda>start_decoded.
        rbind (map_err (\<lambda>_. LineOutOfRange) (u64_to_usize (line_zero_based - first_line start_entry))) (\<lambda>local_index.
        rbind (case sk_dense_line_index details of
                 Some dense \<Rightarrow> rbind (line_start_offset dense start_index local_index) u64_to_usize
               | None \<Rightarrow> ok_or (get (local_line_starts start_decoded (flags start_entry)) local_index) LineOutOfRange)
          (\<lambda>local_start.
        case append_until_lf start_decoded local_start [] of
          (True, output) \<Rightarrow> Ok output
        | (False, output) \<Rightarrow>
            read_line_loop (drop (start_index + 1) (sk_chunk_entries details)) decode_entry output))))))"

section \<open>Chunks and documents\<close>

definition decode_compressed_entry ::
  "('h, 'x) ext_scheme \<Rightarrow> ChunkEntry \<Rightarrow> bytes \<Rightarrow> DictionaryEntry list \<Rightarrow> bytes result"
where
  "decode_compressed_entry X entry compressed dictionaries =
     (if cs_value (Checksum_blake3 X compressed) \<noteq> compressed_checksum_blake3 entry
      then Err CompressedChunkChecksumMismatch
      else
        rbind (if dictionary_id entry = 0 then Ok []
               else ok_or (map_option de_bytes
                      (find (\<lambda>dictionary. de_dictionary_id dictionary = dictionary_id entry) dictionaries))
                    MissingDictionary) (\<lambda>dictionary.
        rbind (decode_chunk X compressed dictionary (uncompressed_size entry)) (\<lambda>decoded.
        rbind (usize_to_u64 (length decoded)) (\<lambda>n.
        if n \<noteq> uncompressed_size entry then Err ChunkSizeMismatch
        else if cs_value (Checksum_blake3 X decoded) \<noteq> uncompressed_checksum_blake3 entry
        then Err UncompressedChunkChecksumMismatch
        else Ok decoded))))"

definition find_document :: "SkeletonDetails \<Rightarrow> string \<Rightarrow> DocumentEntry result" where
  "find_document details did =
     rbind (ok_or (sk_document_index details) MissingRequiredBlock) (\<lambda>document_index.
     rbind (ok_or (sk_document_lookup details did) DocumentNotFound) (\<lambda>index.
     ok_or (get (di_documents document_index) index) DocumentNotFound))"

definition verify_expected_checksum :: "('h, 'x) ext_scheme \<Rightarrow> bytes \<Rightarrow> Checksum \<Rightarrow> unit result" where
  "verify_expected_checksum X bs expected =
     (if cs_algorithm expected \<noteq> CHECKSUM_ALGORITHM_BLAKE3 then Err ContainerCorrupt
      else if Checksum_blake3 X bs \<noteq> expected then Err VerifiedChecksumMismatch else Ok ())"

definition document_chunk_range :: "ChunkEntry list \<Rightarrow> u64 \<Rightarrow> u64 \<Rightarrow> (u64 \<times> u64) result" where
  "document_chunk_range chunk_entries offset len =
     (if len = 0 then Ok (0, 0)
      else
        rbind (checked_logical_end offset len) (\<lambda>e.
        rbind (chunk_index_for_logical_offset chunk_entries offset) (\<lambda>first_index.
        rbind (chunk_index_for_logical_offset chunk_entries (e - 1)) (\<lambda>last_index.
        rbind (ok_or (get chunk_entries first_index) ChunkTableInvalid) (\<lambda>first.
        rbind (ok_or (get chunk_entries last_index) ChunkTableInvalid) (\<lambda>last.
        rbind (ok_or (checked_add (chunk_id last) 1) ChunkTableInvalid) (\<lambda>last_exclusive.
        Ok (chunk_id first, last_exclusive))))))))"

section \<open>Streaming text analysis\<close>

record StreamingTextAnalysis =
  ta_line_starts_seen :: u64
  ta_lf_count :: u64
  ta_crlf_count :: u64
  ta_previous_byte :: "u8 option"

definition StreamingTextAnalysis_new :: StreamingTextAnalysis where
  "StreamingTextAnalysis_new =
     \<lparr>ta_line_starts_seen = 0, ta_lf_count = 0, ta_crlf_count = 0, ta_previous_byte = None\<rparr>"

definition text_update_byte :: "StreamingTextAnalysis \<Rightarrow> u8 \<Rightarrow> StreamingTextAnalysis result" where
  "text_update_byte self byte =
     rbind (if byte = LF then
              (if ta_previous_byte self = Some CR then
                 rbind (ok_or (checked_add (ta_crlf_count self) 1) ResourceLimitExceeded) (\<lambda>n.
                 Ok (self\<lparr>ta_crlf_count := n\<rparr>))
               else
                 rbind (ok_or (checked_add (ta_lf_count self) 1) ResourceLimitExceeded) (\<lambda>n.
                 Ok (self\<lparr>ta_lf_count := n\<rparr>)))
            else Ok self) (\<lambda>self.
     Ok (self\<lparr>ta_previous_byte := Some byte\<rparr>))"

definition StreamingTextAnalysis_update :: "StreamingTextAnalysis \<Rightarrow> bytes \<Rightarrow> u32 \<Rightarrow> StreamingTextAnalysis result" where
  "StreamingTextAnalysis_update self decoded flags0 =
     (let starts = local_line_starts decoded flags0 in
      rbind (usize_to_u64 (length starts)) (\<lambda>n.
      rbind (ok_or (checked_add (ta_line_starts_seen self) n) ResourceLimitExceeded) (\<lambda>seen.
      rfold text_update_byte (self\<lparr>ta_line_starts_seen := seen\<rparr>) decoded)))"

definition StreamingTextAnalysis_newline_mode :: "StreamingTextAnalysis \<Rightarrow> string" where
  "StreamingTextAnalysis_newline_mode self =
     NewlineMode_as_str (from_counts (ta_lf_count self) (ta_crlf_count self))"

section \<open>Single-pass document hashing\<close>

record PendingDocument =
  pd_index :: usize
  pd_start :: u64
  pd_end :: u64

record 'h ActiveDocument =
  ad_index :: usize
  ad_start :: u64
  ad_end :: u64
  ad_hasher :: 'h

record 'h DocumentHasher =
  dh_pending :: "PendingDocument list"
  dh_next :: usize
  dh_active :: "'h ActiveDocument list"
  dh_results :: "usize \<rightharpoonup> bytes"

definition DocumentHasher_new :: "DocumentIndex \<Rightarrow> 'h DocumentHasher" where
  "DocumentHasher_new document_index =
     (let pending = map (\<lambda>(index, document). \<lparr>pd_index = index, pd_start = doc_logical_offset document,
            pd_end = saturating_add (doc_logical_offset document) (doc_byte_length document)\<rparr>)
          (filter (\<lambda>(_, document). doc_byte_length document > 0) (enumerate 0 (di_documents document_index)))
      in \<lparr>dh_pending = sort_key (\<lambda>p. (pd_start p, pd_index p)) pending, dh_next = 0, dh_active = [],
          dh_results = Map.empty\<rparr>)"

text \<open>The \<open>while let\<close> loop that activates the documents starting before the end of the chunk.\<close>

function activate ::
  "('h, 'x) ext_scheme \<Rightarrow> PendingDocument list \<Rightarrow> u64 \<Rightarrow> usize \<Rightarrow> 'h ActiveDocument list
     \<Rightarrow> usize \<times> 'h ActiveDocument list"
where
  "activate X pending chunk_end next active =
     (case get pending next of
        None \<Rightarrow> (next, active)
      | Some p \<Rightarrow>
          if pd_start p \<ge> chunk_end then (next, active)
          else activate X pending chunk_end (next + 1)
                 (active @ [\<lparr>ad_index = pd_index p, ad_start = pd_start p, ad_end = pd_end p,
                             ad_hasher = hasher_new X\<rparr>]))"
  by pat_completeness auto
termination
  by (relation "measure (\<lambda>(X, pending, chunk_end, next, active). length pending - next)")
     (auto simp: get_Some_iff)

declare activate.simps [simp del]

definition feed_active ::
  "('h, 'x) ext_scheme \<Rightarrow> u64 \<Rightarrow> u64 \<Rightarrow> bytes \<Rightarrow> 'h ActiveDocument list \<times> (usize \<rightharpoonup> bytes)
     \<Rightarrow> 'h ActiveDocument \<Rightarrow> ('h ActiveDocument list \<times> (usize \<rightharpoonup> bytes)) result"
where
  "feed_active X chunk_offset chunk_end decoded st document =
     (case st of (still_active, results) \<Rightarrow>
       let lower = max chunk_offset (ad_start document);
           upper = min chunk_end (ad_end document) in
       rbind (if lower < upper then
                rbind (u64_to_usize (lower - chunk_offset)) (\<lambda>local_start.
                rbind (u64_to_usize (upper - chunk_offset)) (\<lambda>local_end.
                rbind (ok_or (get_slice decoded local_start local_end) ContainerCorrupt) (\<lambda>part.
                Ok (document\<lparr>ad_hasher := hasher_update X (ad_hasher document) part\<rparr>))))
              else Ok document) (\<lambda>document.
       if ad_end document \<le> chunk_end
       then Ok (still_active, results(ad_index document \<mapsto> hasher_finalize X (ad_hasher document)))
       else Ok (still_active @ [document], results)))"

definition DocumentHasher_feed ::
  "('h, 'x) ext_scheme \<Rightarrow> 'h DocumentHasher \<Rightarrow> u64 \<Rightarrow> bytes \<Rightarrow> 'h DocumentHasher result"
where
  "DocumentHasher_feed X self chunk_offset decoded =
     rbind (usize_to_u64 (length decoded)) (\<lambda>chunk_len.
     rbind (ok_or (checked_add chunk_offset chunk_len) ResourceLimitExceeded) (\<lambda>chunk_end.
     case activate X (dh_pending self) chunk_end (dh_next self) (dh_active self) of (next, active) \<Rightarrow>
     rbind (rfold (feed_active X chunk_offset chunk_end decoded) ([], dh_results self) active)
       (\<lambda>(still_active, results).
     Ok (self\<lparr>dh_next := next, dh_active := still_active, dh_results := results\<rparr>))))"

section \<open>Deep verification\<close>

definition verify_document ::
  "('h, 'x) ext_scheme \<Rightarrow> u64 \<Rightarrow> u64 \<Rightarrow> ChunkEntry list \<Rightarrow> (usize \<rightharpoonup> bytes) \<Rightarrow> nat \<times> DocumentEntry \<Rightarrow> unit result"
where
  "verify_document X original_size lines chunk_entries document_hashes indexed =
     (case indexed of (index, document) \<Rightarrow>
       rbind (checked_logical_end (doc_logical_offset document) (doc_byte_length document)) (\<lambda>e.
       if e > original_size then Err LogicalRangeOutOfBounds
       else
         rbind (checked_logical_end (doc_first_line document) (doc_line_count document)) (\<lambda>line_end.
         if line_end > lines then Err LineOutOfRange
         else if doc_id_hash document \<noteq> take 16 (blake3_hash X (as_bytes (doc_id document))) then Err ContainerCorrupt
         else
           rbind (if doc_byte_length document = 0 then Ok (Checksum_blake3 X [])
                  else rbind (ok_or (document_hashes index) ContainerCorrupt) (\<lambda>v. Ok (Checksum_from_raw_bytes v)))
             (\<lambda>actual.
           if actual \<noteq> doc_checksum document then Err ContainerCorrupt
           else
             rbind (document_chunk_range chunk_entries (doc_logical_offset document) (doc_byte_length document))
               (\<lambda>(chunk_start, chunk_end).
             if doc_chunk_start document \<noteq> chunk_start \<or> doc_chunk_end document \<noteq> chunk_end
             then Err ChunkTableInvalid else Ok ())))))"

definition verify_document_index_ranges ::
  "('h, 'x) ext_scheme \<Rightarrow> DocumentIndex \<Rightarrow> u64 \<Rightarrow> u64 \<Rightarrow> ChunkEntry list \<Rightarrow> (usize \<rightharpoonup> bytes) \<Rightarrow> unit result"
where
  "verify_document_index_ranges X document_index original_size lines chunk_entries document_hashes =
     rfold (\<lambda>_ indexed. verify_document X original_size lines chunk_entries document_hashes indexed) ()
       (enumerate 0 (di_documents document_index))"

record 'h DeepState =
  ds_original_hasher :: 'h
  ds_text :: StreamingTextAnalysis
  ds_document_hasher :: "'h DocumentHasher option"
  ds_decoded_bytes :: u64

definition verify_deep_entry ::
  "('h, 'x) ext_scheme \<Rightarrow> SkeletonDetails \<Rightarrow> decoder \<Rightarrow> 'h DeepState \<Rightarrow> nat \<times> ChunkEntry \<Rightarrow> 'h DeepState result"
where
  "verify_deep_entry X details decode_entry st indexed =
     (case indexed of (chunk_index, entry) \<Rightarrow>
       let expected_flags = (if logical_offset entry > 0 \<and> ta_previous_byte (ds_text st) \<noteq> Some LF
                             then STARTS_WITH_LINE_CONTINUATION else 0) in
       if flags entry \<noteq> expected_flags then Err ChunkTableInvalid
       else if first_line entry \<noteq> ta_line_starts_seen (ds_text st) then Err ChunkTableInvalid
       else
         rbind (decode_entry entry) (\<lambda>decoded.
         rbind (ok_or (from_utf8 decoded) InvalidUtf8) (\<lambda>_.
         rbind (case sk_dense_line_index details of
                  Some dense \<Rightarrow> verify_chunk dense chunk_index decoded (flags entry)
                | None \<Rightarrow> Ok ()) (\<lambda>_.
         rbind (usize_to_u64 (length (local_line_starts decoded (flags entry)))) (\<lambda>chunk_line_count.
         if line_count entry \<noteq> chunk_line_count then Err ChunkTableInvalid
         else
           rbind (StreamingTextAnalysis_update (ds_text st) decoded (flags entry)) (\<lambda>text.
           rbind (case ds_document_hasher st of
                    Some hasher \<Rightarrow>
                      rbind (DocumentHasher_feed X hasher (logical_offset entry) decoded) (\<lambda>h. Ok (Some h))
                  | None \<Rightarrow> Ok None) (\<lambda>document_hasher.
           rbind (usize_to_u64 (length decoded)) (\<lambda>n.
           rbind (ok_or (checked_add (ds_decoded_bytes st) n) ResourceLimitExceeded) (\<lambda>decoded_bytes.
           Ok \<lparr>ds_original_hasher = hasher_update X (ds_original_hasher st) decoded, ds_text = text,
               ds_document_hasher = document_hasher, ds_decoded_bytes = decoded_bytes\<rparr>)))))))))"

definition verify_deep_entries ::
  "('h, 'x) ext_scheme \<Rightarrow> SkeletonDetails \<Rightarrow> decoder \<Rightarrow> VerifyReport result"
where
  "verify_deep_entries X details decode_entry =
     rbind (rfold (verify_deep_entry X details decode_entry)
        \<lparr>ds_original_hasher = hasher_new X, ds_text = StreamingTextAnalysis_new,
         ds_document_hasher = map_option DocumentHasher_new (sk_document_index details), ds_decoded_bytes = 0\<rparr>
        (enumerate 0 (sk_chunk_entries details))) (\<lambda>st.
     if ds_decoded_bytes st \<noteq> ss_original_size (sk_summary details) then Err ChunkSizeMismatch
     else if Checksum_from_hasher X (ds_original_hasher st) \<noteq> md_original_checksum (sk_metadata details)
     then Err UncompressedChunkChecksumMismatch
     else if ta_line_starts_seen (ds_text st) \<noteq> md_line_count (sk_metadata details) then Err ContainerCorrupt
     else if StreamingTextAnalysis_newline_mode (ds_text st) \<noteq> md_newline_mode (sk_metadata details)
     then Err NewlineModeMismatch
     else
       rbind (case sk_document_index details of
                Some document_index \<Rightarrow>
                  verify_document_index_ranges X document_index (ss_original_size (sk_summary details))
                    (md_line_count (sk_metadata details)) (sk_chunk_entries details)
                    (case ds_document_hasher st of Some hasher \<Rightarrow> dh_results hasher | None \<Rightarrow> Map.empty)
              | None \<Rightarrow> Ok ()) (\<lambda>_.
       Ok (report_for_level details Deep (ds_decoded_bytes st))))"

section \<open>Export\<close>

text \<open>\<open>write_all\<close> of the output, a parameter: its outcome and the output afterwards.\<close>

type_synonym 'w write_all = "'w \<Rightarrow> bytes \<Rightarrow> (ErrorKind + unit) \<times> 'w"

fun export_loop :: "decoder \<Rightarrow> 'w write_all \<Rightarrow> ChunkEntry list \<Rightarrow> 'w \<Rightarrow> unit result \<times> 'w" where
  "export_loop decode_entry write_all [] writer = (Ok (), writer)"
| "export_loop decode_entry write_all (entry # rest) writer =
     (case decode_entry entry of
        Inl err \<Rightarrow> (Err err, writer)
      | Inr decoded \<Rightarrow>
          (case write_all writer decoded of
             (Inl kind, writer) \<Rightarrow> (Err (Io kind), writer)
           | (Inr _, writer) \<Rightarrow> export_loop decode_entry write_all rest writer))"

text \<open>\<open>Vec<u8>\<close> as an output never fails.\<close>

definition vec_write_all :: "bytes write_all" where
  "vec_write_all writer bs = (Ok (), writer @ bs)"

section \<open>The in-memory reader\<close>

record QztReader =
  qr_bytes :: bytes
  qr_details :: SkeletonDetails

definition QztReader_open :: "('h, 'x) ext_scheme \<Rightarrow> bytes \<Rightarrow> QztReader result" where
  "QztReader_open X bs = rbind (open_skeleton_details X bs) (\<lambda>details. Ok \<lparr>qr_bytes = bs, qr_details = details\<rparr>)"

definition QztReader_open_with_limits :: "('h, 'x) ext_scheme \<Rightarrow> bytes \<Rightarrow> ResourceLimits \<Rightarrow> QztReader result" where
  "QztReader_open_with_limits X bs limits =
     rbind (open_skeleton_details_with_limits X bs limits) (\<lambda>details. Ok \<lparr>qr_bytes = bs, qr_details = details\<rparr>)"

definition QztReader_info :: "QztReader \<Rightarrow> QztInfo" where
  "QztReader_info self =
     (let s = sk_summary (qr_details self) in
      \<lparr>info_container_id = ss_container_id s, info_original_size = ss_original_size s,
       info_chunk_count = ss_chunk_count s, info_line_count = ss_line_count s\<rparr>)"

definition QztReader_slice_physical :: "QztReader \<Rightarrow> PhysicalRange \<Rightarrow> bytes result" where
  "QztReader_slice_physical self rng =
     rbind (checked_physical_end (pr_offset rng) (pr_size rng)) (\<lambda>e.
     if e > length (qr_bytes self) then Err PhysicalRangeOutOfBounds
     else
       rbind (if pr_offset rng < u64_end then Ok (pr_offset rng) else Err PhysicalRangeOutOfBounds) (\<lambda>start.
       rbind (if e < u64_end then Ok e else Err PhysicalRangeOutOfBounds) (\<lambda>e.
       ok_or (get_slice (qr_bytes self) start e) PhysicalRangeOutOfBounds)))"

definition QztReader_decode_entry :: "('h, 'x) ext_scheme \<Rightarrow> QztReader \<Rightarrow> decoder" where
  "QztReader_decode_entry X self entry =
     rbind (QztReader_slice_physical self (PhysicalRange_new (physical_offset entry) (compressed_size entry)))
       (\<lambda>compressed. decode_compressed_entry X entry compressed (sk_dictionaries (qr_details self)))"

definition QztReader_export_to ::
  "('h, 'x) ext_scheme \<Rightarrow> QztReader \<Rightarrow> 'w write_all \<Rightarrow> 'w \<Rightarrow> unit result \<times> 'w"
where
  "QztReader_export_to X self write_all writer =
     export_loop (QztReader_decode_entry X self) write_all (sk_chunk_entries (qr_details self)) writer"

definition QztReader_export_all :: "('h, 'x) ext_scheme \<Rightarrow> QztReader \<Rightarrow> bytes result" where
  "QztReader_export_all X self =
     (case QztReader_export_to X self vec_write_all [] of (r, output) \<Rightarrow> rbind r (\<lambda>_. Ok output))"

definition QztReader_read_range :: "('h, 'x) ext_scheme \<Rightarrow> QztReader \<Rightarrow> u64 \<Rightarrow> u64 \<Rightarrow> bytes result" where
  "QztReader_read_range X self offset len =
     read_range_from_entries (sk_chunk_entries (qr_details self)) (ss_original_size (sk_summary (qr_details self)))
       offset len (QztReader_decode_entry X self)"

definition QztReader_read_range_with_metrics ::
  "('h, 'x) ext_scheme \<Rightarrow> QztReader \<Rightarrow> u64 \<Rightarrow> u64 \<Rightarrow> RangeReadReport result"
where
  "QztReader_read_range_with_metrics X self offset len =
     read_range_with_metrics_from_entries (sk_chunk_entries (qr_details self))
       (ss_original_size (sk_summary (qr_details self))) offset len (QztReader_decode_entry X self)"

definition QztReader_read_text_range :: "('h, 'x) ext_scheme \<Rightarrow> QztReader \<Rightarrow> u64 \<Rightarrow> u64 \<Rightarrow> string result" where
  "QztReader_read_text_range X self offset len =
     rbind (QztReader_read_range X self offset len) (\<lambda>bs. ok_or (from_utf8 bs) InvalidUtf8Boundary)"

definition QztReader_read_range_verified ::
  "('h, 'x) ext_scheme \<Rightarrow> QztReader \<Rightarrow> u64 \<Rightarrow> u64 \<Rightarrow> Checksum \<Rightarrow> bytes result"
where
  "QztReader_read_range_verified X self offset len expected =
     rbind (QztReader_read_range X self offset len) (\<lambda>bs.
     rbind (verify_expected_checksum X bs expected) (\<lambda>_. Ok bs))"

definition QztReader_read_document :: "('h, 'x) ext_scheme \<Rightarrow> QztReader \<Rightarrow> string \<Rightarrow> bytes result" where
  "QztReader_read_document X self did =
     rbind (find_document (qr_details self) did) (\<lambda>document.
     QztReader_read_range X self (doc_logical_offset document) (doc_byte_length document))"

definition QztReader_read_document_verified ::
  "('h, 'x) ext_scheme \<Rightarrow> QztReader \<Rightarrow> string \<Rightarrow> Checksum \<Rightarrow> bytes result"
where
  "QztReader_read_document_verified X self did expected =
     rbind (QztReader_read_document X self did) (\<lambda>bs.
     rbind (verify_expected_checksum X bs expected) (\<lambda>_. Ok bs))"

definition QztReader_read_line_raw :: "('h, 'x) ext_scheme \<Rightarrow> QztReader \<Rightarrow> u64 \<Rightarrow> bytes result" where
  "QztReader_read_line_raw X self line_zero_based =
     read_line_from_entries (qr_details self) line_zero_based (QztReader_decode_entry X self)"

definition QztReader_read_line_text :: "('h, 'x) ext_scheme \<Rightarrow> QztReader \<Rightarrow> u64 \<Rightarrow> string result" where
  "QztReader_read_line_text X self line_zero_based =
     rbind (QztReader_read_line_raw X self line_zero_based) (\<lambda>bs. ok_or (from_utf8 bs) InvalidUtf8)"

definition QztReader_verify_normal :: "('h, 'x) ext_scheme \<Rightarrow> QztReader \<Rightarrow> VerifyReport result" where
  "QztReader_verify_normal X self =
     rbind (rfold (\<lambda>_ entry.
         rbind (QztReader_slice_physical self (PhysicalRange_new (physical_offset entry) (compressed_size entry)))
           (\<lambda>compressed.
         if cs_value (Checksum_blake3 X compressed) \<noteq> compressed_checksum_blake3 entry
         then Err CompressedChunkChecksumMismatch else Ok ()))
       () (sk_chunk_entries (qr_details self))) (\<lambda>_.
     rbind (case fp_container_checksum (sk_footer_payload (qr_details self)) of
              Some expected \<Rightarrow>
                rbind (if sk_footer_payload_offset (qr_details self) < u64_end
                       then Ok (sk_footer_payload_offset (qr_details self)) else Err PhysicalRangeOutOfBounds) (\<lambda>e.
                rbind (ok_or (get_slice (qr_bytes self) 0 e) PhysicalRangeOutOfBounds) (\<lambda>prefix.
                if Checksum_blake3 X prefix \<noteq> expected then Err ContainerCorrupt else Ok ()))
            | None \<Rightarrow> Ok ()) (\<lambda>_.
     Ok (report_for_level (qr_details self) Normal 0)))"

definition QztReader_verify_deep :: "('h, 'x) ext_scheme \<Rightarrow> QztReader \<Rightarrow> VerifyReport result" where
  "QztReader_verify_deep X self =
     rbind (QztReader_verify_normal X self) (\<lambda>_.
     verify_deep_entries X (qr_details self) (QztReader_decode_entry X self))"

fun QztReader_verify :: "('h, 'x) ext_scheme \<Rightarrow> QztReader \<Rightarrow> VerifyLevel \<Rightarrow> VerifyReport result" where
  "QztReader_verify X self Quick = Ok (report_for_level (qr_details self) Quick 0)"
| "QztReader_verify X self Normal = QztReader_verify_normal X self"
| "QztReader_verify X self Deep = QztReader_verify_deep X self"

definition QztReader_read_range_cached ::
  "('h, 'x) ext_scheme \<Rightarrow> QztReader \<Rightarrow> u64 \<Rightarrow> u64 \<Rightarrow> ChunkDecodeCache \<Rightarrow> bytes result \<times> ChunkDecodeCache"
where
  "QztReader_read_range_cached X self offset len cache =
     read_range_from_entries_cached (sk_chunk_entries (qr_details self))
       (ss_original_size (sk_summary (qr_details self))) offset len cache (QztReader_decode_entry X self)"

definition QztReader_footer_checksum :: "('h, 'x) ext_scheme \<Rightarrow> QztReader \<Rightarrow> Checksum result" where
  "QztReader_footer_checksum X self =
     rbind (ok_or (checked_sub (length (qr_bytes self)) FOOTER_TRAILER_LEN) InvalidFooterTrailer) (\<lambda>e.
     rbind (u64_to_usize (sk_footer_payload_offset (qr_details self))) (\<lambda>start.
     rbind (ok_or (get_slice (qr_bytes self) start e) InvalidFooterPayload) (\<lambda>footer.
     Ok (Checksum_blake3 X footer))))"

section \<open>The positioned reader\<close>

record QztFileReader =
  fr_source :: reader
  fr_len :: u64
  fr_details :: SkeletonDetails

definition QztFileReader_open_read_at_with_limits ::
  "('h, 'x) ext_scheme \<Rightarrow> reader \<Rightarrow> u64 \<Rightarrow> ResourceLimits \<Rightarrow> QztFileReader result"
where
  "QztFileReader_open_read_at_with_limits X source len limits =
     rbind (open_skeleton_details_read_at X source len limits) (\<lambda>details.
     Ok \<lparr>fr_source = source, fr_len = len, fr_details = details\<rparr>)"

definition QztFileReader_open_read_at :: "('h, 'x) ext_scheme \<Rightarrow> reader \<Rightarrow> u64 \<Rightarrow> QztFileReader result" where
  "QztFileReader_open_read_at X source len =
     QztFileReader_open_read_at_with_limits X source len ResourceLimits_default"

definition QztFileReader_into_inner :: "QztFileReader \<Rightarrow> reader" where
  "QztFileReader_into_inner self = fr_source self"

definition QztFileReader_info :: "QztFileReader \<Rightarrow> QztInfo" where
  "QztFileReader_info self =
     (let s = sk_summary (fr_details self) in
      \<lparr>info_container_id = ss_container_id s, info_original_size = ss_original_size s,
       info_chunk_count = ss_chunk_count s, info_line_count = ss_line_count s\<rparr>)"

definition QztFileReader_read_physical :: "QztFileReader \<Rightarrow> PhysicalRange \<Rightarrow> bytes result" where
  "QztFileReader_read_physical self rng =
     rbind (checked_physical_end (pr_offset rng) (pr_size rng)) (\<lambda>e.
     if e > fr_len self then Err PhysicalRangeOutOfBounds
     else
       rbind (u64_to_usize (pr_size rng)) (\<lambda>len.
       map_err (\<lambda>kind. case kind of KindUnexpectedEof \<Rightarrow> UnexpectedEof | _ \<Rightarrow> ContainerCorrupt)
         (fr_source self (pr_offset rng) len)))"

definition hash_physical_range :: "('h, 'x) ext_scheme \<Rightarrow> QztFileReader \<Rightarrow> u64 \<Rightarrow> u64 \<Rightarrow> Checksum result" where
  "hash_physical_range X self start e =
     (if e > fr_len self \<or> start > e then Err PhysicalRangeOutOfBounds
      else
        rbind (map_err (\<lambda>kind. case kind of KindUnexpectedEof \<Rightarrow> UnexpectedEof | _ \<Rightarrow> ContainerCorrupt)
          (hash_read_at_range X (fr_source self) start (e - start))) (\<lambda>hasher.
        Ok (Checksum_from_hasher X hasher)))"

definition hash_physical_prefix :: "('h, 'x) ext_scheme \<Rightarrow> QztFileReader \<Rightarrow> u64 \<Rightarrow> Checksum result" where
  "hash_physical_prefix X self e = hash_physical_range X self 0 e"

definition QztFileReader_decode_entry :: "('h, 'x) ext_scheme \<Rightarrow> QztFileReader \<Rightarrow> decoder" where
  "QztFileReader_decode_entry X self entry =
     rbind (QztFileReader_read_physical self (PhysicalRange_new (physical_offset entry) (compressed_size entry)))
       (\<lambda>compressed. decode_compressed_entry X entry compressed (sk_dictionaries (fr_details self)))"

definition QztFileReader_export_to ::
  "('h, 'x) ext_scheme \<Rightarrow> QztFileReader \<Rightarrow> 'w write_all \<Rightarrow> 'w \<Rightarrow> unit result \<times> 'w"
where
  "QztFileReader_export_to X self write_all writer =
     export_loop (QztFileReader_decode_entry X self) write_all (sk_chunk_entries (fr_details self)) writer"

definition QztFileReader_export_all :: "('h, 'x) ext_scheme \<Rightarrow> QztFileReader \<Rightarrow> bytes result" where
  "QztFileReader_export_all X self =
     (case QztFileReader_export_to X self vec_write_all [] of (r, output) \<Rightarrow> rbind r (\<lambda>_. Ok output))"

definition QztFileReader_read_range :: "('h, 'x) ext_scheme \<Rightarrow> QztFileReader \<Rightarrow> u64 \<Rightarrow> u64 \<Rightarrow> bytes result" where
  "QztFileReader_read_range X self offset len =
     read_range_from_entries (sk_chunk_entries (fr_details self)) (ss_original_size (sk_summary (fr_details self)))
       offset len (QztFileReader_decode_entry X self)"

definition QztFileReader_read_range_with_metrics ::
  "('h, 'x) ext_scheme \<Rightarrow> QztFileReader \<Rightarrow> u64 \<Rightarrow> u64 \<Rightarrow> RangeReadReport result"
where
  "QztFileReader_read_range_with_metrics X self offset len =
     read_range_with_metrics_from_entries (sk_chunk_entries (fr_details self))
       (ss_original_size (sk_summary (fr_details self))) offset len (QztFileReader_decode_entry X self)"

definition QztFileReader_read_text_range :: "('h, 'x) ext_scheme \<Rightarrow> QztFileReader \<Rightarrow> u64 \<Rightarrow> u64 \<Rightarrow> string result" where
  "QztFileReader_read_text_range X self offset len =
     rbind (QztFileReader_read_range X self offset len) (\<lambda>bs. ok_or (from_utf8 bs) InvalidUtf8Boundary)"

definition QztFileReader_read_range_verified ::
  "('h, 'x) ext_scheme \<Rightarrow> QztFileReader \<Rightarrow> u64 \<Rightarrow> u64 \<Rightarrow> Checksum \<Rightarrow> bytes result"
where
  "QztFileReader_read_range_verified X self offset len expected =
     rbind (QztFileReader_read_range X self offset len) (\<lambda>bs.
     rbind (verify_expected_checksum X bs expected) (\<lambda>_. Ok bs))"

definition QztFileReader_read_document :: "('h, 'x) ext_scheme \<Rightarrow> QztFileReader \<Rightarrow> string \<Rightarrow> bytes result" where
  "QztFileReader_read_document X self did =
     rbind (find_document (fr_details self) did) (\<lambda>document.
     QztFileReader_read_range X self (doc_logical_offset document) (doc_byte_length document))"

definition QztFileReader_read_document_verified ::
  "('h, 'x) ext_scheme \<Rightarrow> QztFileReader \<Rightarrow> string \<Rightarrow> Checksum \<Rightarrow> bytes result"
where
  "QztFileReader_read_document_verified X self did expected =
     rbind (QztFileReader_read_document X self did) (\<lambda>bs.
     rbind (verify_expected_checksum X bs expected) (\<lambda>_. Ok bs))"

definition QztFileReader_read_line_raw :: "('h, 'x) ext_scheme \<Rightarrow> QztFileReader \<Rightarrow> u64 \<Rightarrow> bytes result" where
  "QztFileReader_read_line_raw X self line_zero_based =
     read_line_from_entries (fr_details self) line_zero_based (QztFileReader_decode_entry X self)"

definition QztFileReader_read_line_text :: "('h, 'x) ext_scheme \<Rightarrow> QztFileReader \<Rightarrow> u64 \<Rightarrow> string result" where
  "QztFileReader_read_line_text X self line_zero_based =
     rbind (QztFileReader_read_line_raw X self line_zero_based) (\<lambda>bs. ok_or (from_utf8 bs) InvalidUtf8)"

definition QztFileReader_verify_normal :: "('h, 'x) ext_scheme \<Rightarrow> QztFileReader \<Rightarrow> VerifyReport result" where
  "QztFileReader_verify_normal X self =
     rbind (rfold (\<lambda>_ entry.
         rbind (checked_physical_end (physical_offset entry) (compressed_size entry)) (\<lambda>e.
         rbind (hash_physical_range X self (physical_offset entry) e) (\<lambda>actual.
         if cs_value actual \<noteq> compressed_checksum_blake3 entry
         then Err CompressedChunkChecksumMismatch else Ok ())))
       () (sk_chunk_entries (fr_details self))) (\<lambda>_.
     rbind (case fp_container_checksum (sk_footer_payload (fr_details self)) of
              Some expected \<Rightarrow>
                rbind (hash_physical_prefix X self (sk_footer_payload_offset (fr_details self))) (\<lambda>actual.
                if actual \<noteq> expected then Err ContainerCorrupt else Ok ())
            | None \<Rightarrow> Ok ()) (\<lambda>_.
     Ok (report_for_level (fr_details self) Normal 0)))"

definition QztFileReader_verify_deep :: "('h, 'x) ext_scheme \<Rightarrow> QztFileReader \<Rightarrow> VerifyReport result" where
  "QztFileReader_verify_deep X self =
     rbind (QztFileReader_verify_normal X self) (\<lambda>_.
     verify_deep_entries X (fr_details self) (QztFileReader_decode_entry X self))"

fun QztFileReader_verify :: "('h, 'x) ext_scheme \<Rightarrow> QztFileReader \<Rightarrow> VerifyLevel \<Rightarrow> VerifyReport result" where
  "QztFileReader_verify X self Quick = Ok (report_for_level (fr_details self) Quick 0)"
| "QztFileReader_verify X self Normal = QztFileReader_verify_normal X self"
| "QztFileReader_verify X self Deep = QztFileReader_verify_deep X self"

definition QztFileReader_read_range_cached ::
  "('h, 'x) ext_scheme \<Rightarrow> QztFileReader \<Rightarrow> u64 \<Rightarrow> u64 \<Rightarrow> ChunkDecodeCache \<Rightarrow> bytes result \<times> ChunkDecodeCache"
where
  "QztFileReader_read_range_cached X self offset len cache =
     read_range_from_entries_cached (sk_chunk_entries (fr_details self))
       (ss_original_size (sk_summary (fr_details self))) offset len cache (QztFileReader_decode_entry X self)"

definition QztFileReader_footer_checksum :: "('h, 'x) ext_scheme \<Rightarrow> QztFileReader \<Rightarrow> Checksum result" where
  "QztFileReader_footer_checksum X self =
     rbind (ok_or (checked_sub (fr_len self) FOOTER_TRAILER_LEN) InvalidFooterTrailer) (\<lambda>e.
     hash_physical_range X self (sk_footer_payload_offset (fr_details self)) e)"

end
