(* ===== verification/Reader_Correct.thy ===== *)
theory Reader_Correct
  imports Reader
begin

text \<open>
  Correctness of random access: what a range read returns, that the decode cache changes
  nothing but the work done, and that the two readers agree. The contract between the range
  and line algorithms and a reader is the locale \<open>chunk_source\<close>: a laid-out table and a
  decoder whose results have the size of their entry.
\<close>

section \<open>Reference definitions\<close>

text \<open>What a chunk decoder gives back for a whole table, with zeros where it fails.\<close>

definition chunk_or_zeros :: "decoder \<Rightarrow> ChunkEntry \<Rightarrow> bytes" where
  "chunk_or_zeros decode e = (case decode e of Inr b \<Rightarrow> b | Inl _ \<Rightarrow> replicate (uncompressed_size e) 0)"

definition restored_bytes :: "decoder \<Rightarrow> ChunkEntry list \<Rightarrow> bytes" where
  "restored_bytes decode es = concat (map (chunk_or_zeros decode) es)"

text \<open>The entry shares a byte with the range \<open>[offset, offset + len)\<close>.\<close>

definition meets :: "u64 \<Rightarrow> u64 \<Rightarrow> ChunkEntry \<Rightarrow> bool" where
  "meets offset len e \<longleftrightarrow> 0 < len \<and> logical_offset e < offset + len \<and> offset < logical_offset e + uncompressed_size e"

text \<open>The range loop without a cache.\<close>

fun read_ref :: "decoder \<Rightarrow> u64 \<Rightarrow> u64 \<Rightarrow> bytes \<Rightarrow> ChunkEntry list \<Rightarrow> bytes result" where
  "read_ref decode offset e output [] = Ok output"
| "read_ref decode offset e output (en # es) =
     (if logical_offset en \<ge> e then Ok output
      else rbind (decode en) (\<lambda>d.
        read_ref decode offset e
          (output @ slice d (max offset (logical_offset en) - logical_offset en)
             (min e (logical_offset en + uncompressed_size en) - logical_offset en)) es))"

section \<open>The cache\<close>

text \<open>A cache whose content is what the decoder returns for the entry it names.\<close>

definition cache_valid :: "decoder \<Rightarrow> ChunkEntry list \<Rightarrow> ChunkDecodeCache \<Rightarrow> bool" where
  "cache_valid decode es c \<longleftrightarrow> (\<forall>e \<in> set es. cc_chunk_id c = Some (chunk_id e) \<longrightarrow> decode e = Ok (cc_decoded c))"

text \<open>Room in the counters for decoding every entry once more.\<close>

definition cache_room :: "ChunkEntry list \<Rightarrow> ChunkDecodeCache \<Rightarrow> bool" where
  "cache_room es c \<longleftrightarrow> cc_physical_decoded_bytes c + sum_list (map uncompressed_size es) < u64_end \<and>
     cc_decoded_chunks c + length es < u64_end \<and> cc_compressed_bytes c + sum_list (map compressed_size es) < u64_end"

lemma cache_room_Cons: "cache_room (e # es) c \<Longrightarrow> cache_room es c"
  by (simp add: cache_room_def)

lemma cache_valid_new [simp]: "cache_valid decode es ChunkDecodeCache_new"
  by (simp add: cache_valid_def ChunkDecodeCache_new_def)

lemma decoded_entry_hit:
  "cc_chunk_id c = Some (chunk_id e) \<Longrightarrow> decoded_entry c e decode = (Ok (cc_decoded c), c)"
  by (simp add: decoded_entry_def)

lemma decoded_entry_miss:
  assumes "cc_chunk_id c \<noteq> Some (chunk_id e)" and "decode e = Ok d" and "cache_room (e # es) c"
  shows "decoded_entry c e decode =
     (Ok d, \<lparr>cc_chunk_id = Some (chunk_id e), cc_decoded = d,
        cc_physical_decoded_bytes = cc_physical_decoded_bytes c + uncompressed_size e,
        cc_decoded_chunks = cc_decoded_chunks c + 1, cc_compressed_bytes = cc_compressed_bytes c + compressed_size e\<rparr>)"
  using assms by (simp add: decoded_entry_def checked_add_def cache_room_def)

lemma decoded_entry_fails:
  assumes "cc_chunk_id c \<noteq> Some (chunk_id e)" and "decode e = Err err"
  shows "decoded_entry c e decode = (Err err, c)"
  using assms by (simp add: decoded_entry_def)

lemma decoded_entry_step:
  assumes "cache_valid decode all c" and "e \<in> set all" and "inj_on chunk_id (set all)" and "cache_room (e # es) c"
  shows "fst (decoded_entry c e decode) = decode e" and "cache_valid decode all (snd (decoded_entry c e decode))"
    and "cache_room es (snd (decoded_entry c e decode))"
proof -
  have "fst (decoded_entry c e decode) = decode e \<and> cache_valid decode all (snd (decoded_entry c e decode)) \<and>
      cache_room es (snd (decoded_entry c e decode))"
  proof (cases "cc_chunk_id c = Some (chunk_id e)")
    case True
    then show ?thesis using assms by (auto simp: decoded_entry_hit cache_valid_def intro: cache_room_Cons)
  next
    case False
    show ?thesis
    proof (cases "decode e")
      case (Inl err)
      then show ?thesis using False assms by (auto simp: decoded_entry_fails intro: cache_room_Cons)
    next
      case (Inr d)
      then show ?thesis using assms decoded_entry_miss [of c e decode d es, OF False Inr assms(4)]
        by (auto simp: cache_valid_def cache_room_def dest: inj_onD)
    qed
  qed
  then show "fst (decoded_entry c e decode) = decode e" "cache_valid decode all (snd (decoded_entry c e decode))"
    "cache_room es (snd (decoded_entry c e decode))" by blast+
qed

text \<open>Whatever valid cache it starts from, the loop returns what it returns without one.\<close>

lemma read_range_loop_ref:
  assumes "cache_valid decode all c" and "set es \<subseteq> set all" and "inj_on chunk_id (set all)" and "cache_room es c"
    and "\<forall>en \<in> set es. logical_offset en + uncompressed_size en < u64_end" and "offset < u64_end"
  shows "fst (read_range_loop es offset e decode acc c) = read_ref decode offset e acc es \<and>
     cache_valid decode all (snd (read_range_loop es offset e decode acc c))"
  using assms
proof (induction es arbitrary: c acc)
  case (Cons en es)
  note st = decoded_entry_step [OF Cons.prems(1) _ Cons.prems(3,4)]
  have en: "en \<in> set all" and w: "logical_offset en + uncompressed_size en < u64_end" using Cons.prems by auto
  obtain r c' where de: "decoded_entry c en decode = (r, c')" by fastforce
  have r: "r = decode en" "cache_valid decode all c'" "cache_room es c'" using st [OF en] by (simp_all add: de)
  have IH: "fst (read_range_loop es offset e decode out c') = read_ref decode offset e out es \<and>
     cache_valid decode all (snd (read_range_loop es offset e decode out c'))" for out
    using Cons.IH [OF r(2) _ Cons.prems(3) r(3)] Cons.prems by auto
  have u: "u64_to_usize (max offset (logical_offset en) - logical_offset en) = Ok (max offset (logical_offset en) - logical_offset en)"
     "u64_to_usize (min e (logical_offset en + uncompressed_size en) - logical_offset en)
        = Ok (min e (logical_offset en + uncompressed_size en) - logical_offset en)"
    using w Cons.prems(6) by (auto simp: u64_to_usize_def)
  show ?case
  proof (cases "logical_offset en \<ge> e")
    case True
    then show ?thesis using w Cons.prems(1) by simp
  next
    case False
    then show ?thesis using w r(1,2) IH u by (cases "decode en") (simp_all add: de)
  qed
qed simp

section \<open>The contract of a chunk source\<close>

lemma in_set_drop_iff:
  assumes "distinct xs" and "j < length xs"
  shows "xs ! j \<in> set (drop k xs) \<longleftrightarrow> k \<le> j"
proof
  assume "xs ! j \<in> set (drop k xs)"
  then obtain i where "i < length xs - k" "xs ! j = xs ! (k + i)" by (auto simp: in_set_conv_nth)
  then show "k \<le> j" using assms by (metis le_add1 less_diff_conv add.commute nth_eq_iff_index_eq)
next
  assume "k \<le> j"
  then show "xs ! j \<in> set (drop k xs)"
    using assms(2) by (auto simp: in_set_conv_nth intro!: exI [of _ "j - k"])
qed

locale chunk_source =
  fixes entries :: "ChunkEntry list" and decode :: decoder and total :: nat
  assumes layout: "chunk_layout entries"
    and total: "sum_list (map uncompressed_size entries) = total"
    and total_width: "total < u64_end"
    and compressed_width: "sum_list (map compressed_size entries) < u64_end"
    and decode_size: "e \<in> set entries \<Longrightarrow> decode e = Ok b \<Longrightarrow> length b = uncompressed_size e"
begin

lemma chunk_size: "e \<in> set entries \<Longrightarrow> length (chunk_or_zeros decode e) = uncompressed_size e"
  by (cases "decode e") (auto simp: chunk_or_zeros_def decode_size)

lemma restored_length: "length (restored_bytes decode (take k entries)) = sum_list (map uncompressed_size (take k entries))"
proof -
  have "map (length \<circ> chunk_or_zeros decode) (take k entries) = map uncompressed_size (take k entries)"
    by (auto simp: chunk_size dest: in_set_takeD)
  then show ?thesis by (simp only: restored_bytes_def length_concat map_map)
qed

lemma restored_total: "length (restored_bytes decode entries) = total"
  using restored_length [of "length entries"] total by simp

lemma restored_split:
  assumes "i < length entries"
  shows "restored_bytes decode entries = restored_bytes decode (take i entries) @ chunk_or_zeros decode (entries ! i) @
     restored_bytes decode (drop (Suc i) entries)"
proof -
  have "restored_bytes decode (take i entries @ entries ! i # drop (Suc i) entries) =
      restored_bytes decode (take i entries) @ chunk_or_zeros decode (entries ! i) @ restored_bytes decode (drop (Suc i) entries)"
    by (simp add: restored_bytes_def)
  then show ?thesis by (simp only: id_take_nth_drop [OF assms, symmetric])
qed

lemma restored_chunk:
  assumes "i < length entries"
  shows "slice (restored_bytes decode entries) (logical_offset (entries ! i))
     (logical_offset (entries ! i) + uncompressed_size (entries ! i)) = chunk_or_zeros decode (entries ! i)"
  using restored_length [of i] layout_nth(2) [OF layout assms] chunk_size [OF nth_mem [OF assms]]
  by (subst restored_split [OF assms]) (simp add: slice_append_mid)

lemma chunk_ends:
  assumes "e \<in> set entries"
  shows "logical_offset e + uncompressed_size e \<le> total"
proof -
  obtain i where "i < length entries" "e = entries ! i" using assms by (metis in_set_conv_nth)
  then show ?thesis using layout_end(1) [OF layout] sum_take_le [of uncompressed_size "Suc i" entries] total by simp
qed

lemma ids_distinct: "inj_on chunk_id (set entries)"
  by (auto simp: inj_on_def in_set_conv_nth layout_nth(1) [OF layout])

lemma entries_le_total: "length entries \<le> total"
proof -
  have "1 \<le> uncompressed_size e" if "e \<in> set entries" for e
    using that layout_nth(4) [OF layout] by (force simp: in_set_conv_nth)
  then have "sum_list (map (\<lambda>_. 1) entries) \<le> sum_list (map uncompressed_size entries)"
    by (intro sum_list_mono) auto
  then show ?thesis using total by (simp add: sum_list_triv)
qed

lemma room_new: "cache_room entries ChunkDecodeCache_new"
  using total total_width compressed_width entries_le_total by (simp add: cache_room_def ChunkDecodeCache_new_def)

text \<open>A part of a chunk is a part of the restored bytes.\<close>

lemma restored_part:
  assumes "i < length entries" and "decode (entries ! i) = Ok d" and "a \<le> b"
    and "logical_offset (entries ! i) \<le> a" and "b \<le> logical_offset (entries ! i) + uncompressed_size (entries ! i)"
  shows "slice d (a - logical_offset (entries ! i)) (b - logical_offset (entries ! i)) = slice (restored_bytes decode entries) a b"
proof -
  let ?lo = "logical_offset (entries ! i)"
  have "d = slice (restored_bytes decode entries) ?lo (?lo + uncompressed_size (entries ! i))"
    using restored_chunk [OF assms(1)] assms(2) by (simp add: chunk_or_zeros_def)
  moreover have "slice (slice xs l (l + n)) (a - l) (b - l) = slice xs a b"
    if "l \<le> a" "b \<le> l + n" "a \<le> b" for xs :: bytes and l n
    using that by (simp add: slice_def min_def take_drop [symmetric] drop_take)
  ultimately show ?thesis using assms(3-5) by simp
qed

lemma read_ref_from:
  assumes "k \<le> length entries" and "k < length entries \<Longrightarrow> offset < logical_offset (entries ! k) + uncompressed_size (entries ! k)"
    and "e \<le> total" and "offset \<le> e"
  shows "read_ref decode offset e acc (drop k entries) = Ok out \<longleftrightarrow>
     (\<forall>en \<in> set (drop k entries). logical_offset en < e \<longrightarrow> is_ok (decode en)) \<and>
     out = acc @ slice (restored_bytes decode entries) (max offset (sum_list (map uncompressed_size (take k entries)))) e"
  using assms(1,2)
proof (induction "length entries - k" arbitrary: k acc)
  case 0
  then have "k = length entries" by simp
  then show ?case using assms(3) total by (auto simp: slice_def)
next
  case (Suc n)
  then have k: "k < length entries" by simp
  let ?en = "entries ! k" and ?S = "sum_list (map uncompressed_size (take k entries))"
  have lo: "logical_offset ?en = ?S" and pos: "0 < uncompressed_size ?en"
    and hi: "?S + uncompressed_size ?en = sum_list (map uncompressed_size (take (Suc k) entries))"
    using layout_nth [OF layout k] layout_end(1) [OF layout k] by simp_all
  have d: "drop k entries = ?en # drop (Suc k) entries" using k by (simp add: Cons_nth_drop_Suc)
  have off: "offset < ?S + uncompressed_size ?en" using Suc.prems(2) k lo by simp
  have later: "e \<le> logical_offset en" if "e \<le> ?S" "en \<in> set (drop (Suc k) entries)" for en
  proof -
    obtain j where "k < j" "j < length entries" "en = entries ! j"
      using \<open>en \<in> _\<close> by (auto simp: in_set_conv_nth) (metis add.commute less_add_Suc1 less_diff_conv add_Suc_right)
    then show ?thesis using layout_nth(2) [OF layout, of j] sum_take_mono [of k j uncompressed_size entries] that(1) by simp
  qed
  show ?case
  proof (cases "e \<le> ?S")
    case True
    then show ?thesis using lo by (auto simp: d slice_def dest!: later [OF True])
  next
    case False
    have nxt: "offset < logical_offset (entries ! Suc k) + uncompressed_size (entries ! Suc k)" if "Suc k < length entries"
      using layout_nth(2) [OF layout that] hi off by simp
    note IH = Suc.hyps(1) [of "Suc k"]
    have part: "slice x (max offset ?S - ?S) (min e (?S + uncompressed_size ?en) - ?S) =
        slice (restored_bytes decode entries) (max offset ?S) (min e (?S + uncompressed_size ?en))"
      if "decode ?en = Ok x" "max offset ?S \<le> min e (?S + uncompressed_size ?en)" for x
      using restored_part [OF k that] lo by simp
    have glue: "slice (restored_bytes decode entries) (max offset ?S) (min e (?S + uncompressed_size ?en)) @
        slice (restored_bytes decode entries) (?S + uncompressed_size ?en) e =
        slice (restored_bytes decode entries) (max offset ?S) e"
      if "max offset ?S \<le> e"
      using that off slice_append_self [of "max offset ?S" "?S + uncompressed_size ?en" e "restored_bytes decode entries"]
      by (cases "e \<le> ?S + uncompressed_size ?en") (auto simp: slice_def min_def)
    have m: "max offset ?S \<le> min e (?S + uncompressed_size ?en)" "max offset ?S \<le> e"
      using False assms(4) off by auto
    show ?thesis
    proof (cases "decode ?en")
      case (Inl err)
      then show ?thesis using False lo by (auto simp: d)
    next
      case (Inr x)
      have "max offset (sum_list (map uncompressed_size (take (Suc k) entries))) = ?S + uncompressed_size ?en"
        using off hi by simp
      with Inr False lo IH [of "acc @ slice x (max offset ?S - ?S) (min e (?S + uncompressed_size ?en) - ?S)"]
        part [OF Inr m(1)] glue [OF m(2)] Suc.hyps(2) k nxt
      show ?thesis by (auto simp: d)
    qed
  qed
qed

lemma distinct_entries: "distinct entries"
proof -
  have "map chunk_id entries = [0 ..< length entries]"
    by (rule nth_equalityI) (simp_all add: layout_nth(1) [OF layout])
  then show ?thesis by (metis distinct_map distinct_upt)
qed

text \<open>A range read over any valid cache with room in its counters.\<close>

lemma cached_range:
  assumes "cache_valid decode entries c" and "cache_room entries c" and "offset < u64_end"
  shows "fst (read_range_from_entries_cached entries total offset len c decode) = Ok out \<longleftrightarrow>
     offset + len \<le> total \<and> (\<forall>e \<in> set entries. meets offset len e \<longrightarrow> is_ok (decode e)) \<and>
     out = slice (restored_bytes decode entries) offset (offset + len)" (is "?A \<longleftrightarrow> ?B")
    and "cache_valid decode entries (snd (read_range_from_entries_cached entries total offset len c decode))"
proof -
  have "(?A \<longleftrightarrow> ?B) \<and> cache_valid decode entries (snd (read_range_from_entries_cached entries total offset len c decode))"
  proof (cases "offset + len \<le> total \<and> 0 < len")
    case False
    then show ?thesis
      using assms total_width
      by (auto simp: read_range_from_entries_cached_def checked_logical_end_def checked_add_def slice_def meets_def
          split: sum.splits)
  next
    case True
    obtain k where k: "chunk_index_for_logical_offset entries offset = Ok k" "k \<le> length entries"
        "sum_list (map uncompressed_size (take k entries)) \<le> offset"
        "k < length entries \<Longrightarrow> offset < sum_list (map uncompressed_size (take (Suc k) entries))"
      using chunk_index_search [OF layout, of offset] total total_width by blast
    have room: "cache_room (drop k entries) c"
    proof -
      have "sum_list (map f (drop k entries)) \<le> sum_list (map f entries)" for f :: "ChunkEntry \<Rightarrow> nat"
        by (metis append_take_drop_id le_add2 map_append sum_list_append)
      from this [of uncompressed_size] this [of compressed_size] show ?thesis
        using assms(2) by (auto simp: cache_room_def)
    qed
    let ?l = "read_range_loop (drop k entries) offset (offset + len) decode [] c"
    have ends: "\<forall>en \<in> set (drop k entries). logical_offset en + uncompressed_size en < u64_end"
      using chunk_ends total_width by (meson in_set_dropD le_less_trans)
    have loop: "fst ?l = read_ref decode offset (offset + len) [] (drop k entries)" "cache_valid decode entries (snd ?l)"
      using read_range_loop_ref [OF assms(1) set_drop_subset ids_distinct room ends assms(3)] by auto
    have met: "(\<forall>en \<in> set (drop k entries). logical_offset en < offset + len \<longrightarrow> is_ok (decode en)) \<longleftrightarrow>
        (\<forall>e \<in> set entries. meets offset len e \<longrightarrow> is_ok (decode e))"
    proof -
      have "e \<in> set (drop k entries) \<and> logical_offset e < offset + len \<longleftrightarrow> e \<in> set entries \<and> meets offset len e" for e
      proof (cases "e \<in> set entries")
        case in_entries: True
        then obtain j where j: "j < length entries" "e = entries ! j" by (metis in_set_conv_nth)
        have en: "logical_offset e + uncompressed_size e = sum_list (map uncompressed_size (take (Suc j) entries))"
          using layout_end(1) [OF layout j(1)] j(2) by simp
        have mem: "e \<in> set (drop k entries) \<longleftrightarrow> k \<le> j"
          using j distinct_entries by (simp add: in_set_drop_iff)
        show ?thesis
          using en mem in_entries True k(3,4) j(1) sum_take_mono [of "Suc j" k uncompressed_size entries]
            sum_take_mono [of "Suc k" "Suc j" uncompressed_size entries]
          by (cases "k \<le> j") (auto simp: meets_def)
      next
        case False
        then show ?thesis by (auto dest: in_set_dropD)
      qed
      then show ?thesis by blast
    qed
    have off: "k < length entries \<Longrightarrow> offset < logical_offset (entries ! k) + uncompressed_size (entries ! k)"
      using k(4) layout_end(1) [OF layout] by simp
    note ref = read_ref_from [OF k(2) off, of "offset + len" "[]", unfolded met]
    have cl: "checked_logical_end offset len = Ok (offset + len)" using True total_width by simp
    have len: "length (slice (restored_bytes decode entries) offset (offset + len)) = len" "len < u64_end"
      using True restored_total total_width by (auto simp: min_def)
    obtain r c' where l: "?l = (r, c')" by fastforce
    have r: "r = Ok o1 \<longleftrightarrow> (\<forall>e \<in> set entries. meets offset len e \<longrightarrow> is_ok (decode e)) \<and>
        o1 = slice (restored_bytes decode entries) offset (offset + len)" for o1
      using loop(1) ref [of o1] True k(3) l by (simp add: max_def)
    show ?thesis
    proof (cases r)
      case (Inl err)
      then show ?thesis using r True loop(2) l by (simp add: read_range_from_entries_cached_def cl k(1))
    next
      case (Inr o1)
      then have "o1 = slice (restored_bytes decode entries) offset (offset + len)" using r by blast
      then have "usize_to_u64 (length o1) = Ok len" using len by (simp add: usize_to_u64_def)
      then have "read_range_from_entries_cached entries total offset len c decode = (Ok o1, c')"
        using True l Inr by (simp add: read_range_from_entries_cached_def cl k(1))
      then show ?thesis using r [of out] Inr True loop(2) l by simp
    qed
  qed
  then show "?A \<longleftrightarrow> ?B" "cache_valid decode entries (snd (read_range_from_entries_cached entries total offset len c decode))"
    by blast+
qed

lemma range_exact:
  assumes "offset < u64_end"
  shows "read_range_from_entries entries total offset len decode = Ok out \<longleftrightarrow>
     offset + len \<le> total \<and> (\<forall>e \<in> set entries. meets offset len e \<longrightarrow> is_ok (decode e)) \<and>
     out = slice (restored_bytes decode entries) offset (offset + len)"
proof -
  have "read_range_from_entries entries total offset len decode =
      fst (read_range_from_entries_cached entries total offset len ChunkDecodeCache_new decode)"
    by (cases "read_range_from_entries_cached entries total offset len ChunkDecodeCache_new decode"; cases "fst (read_range_from_entries_cached entries total offset len ChunkDecodeCache_new decode)")
       (simp_all add: read_range_from_entries_def read_range_with_metrics_from_entries_def)
  then show ?thesis using cached_range(1) [OF cache_valid_new room_new assms] by simp
qed

lemma export_exact:
  shows "export_loop decode vec_write_all entries [] = (r, out) \<Longrightarrow>
     r = Ok () \<longleftrightarrow> (\<forall>e \<in> set entries. is_ok (decode e)) "
  and "export_loop decode vec_write_all entries [] = (Ok (), out) \<Longrightarrow> out = restored_bytes decode entries"
proof -
  have "r = Ok () \<longleftrightarrow> (\<forall>e \<in> set es. is_ok (decode e))" if "export_loop decode vec_write_all es acc = (r, out)" for es acc r out
    using that by (induction es arbitrary: acc) (auto simp: vec_write_all_def split: sum.splits)
  moreover have "out = acc @ restored_bytes decode es" if "export_loop decode vec_write_all es acc = (Ok (), out)" for es acc out
    using that
  proof (induction es arbitrary: acc)
    case (Cons e es)
    then obtain d where "decode e = Ok d" "export_loop decode vec_write_all es (acc @ d) = (Ok (), out)"
      by (auto simp: vec_write_all_def [of acc] split: sum.splits)
    with Cons.IH [of "acc @ d"] show ?case by (simp add: restored_bytes_def chunk_or_zeros_def)
  qed (simp add: restored_bytes_def)
  ultimately show "export_loop decode vec_write_all entries [] = (r, out) \<Longrightarrow>
     r = Ok () \<longleftrightarrow> (\<forall>e \<in> set entries. is_ok (decode e))"
    and "export_loop decode vec_write_all entries [] = (Ok (), out) \<Longrightarrow> out = restored_bytes decode entries"
    by fastforce+
qed

end

section \<open>The in-memory reader is a chunk source\<close>

lemma separated_sum:
  assumes "sorted_wrt separated (map entry_range es)" and "\<forall>e \<in> set es. physical_offset e + compressed_size e \<le> n"
  shows "sum_list (map compressed_size es) \<le> n"
proof -
  let ?I = "\<lambda>e. {physical_offset e ..< physical_offset e + compressed_size e}"
  have "sum_list (map compressed_size es) = card (\<Union> (?I ` set es)) \<and> \<Union> (?I ` set es) \<subseteq> {..< n}"
    using assms
  proof (induction es)
    case (Cons e es)
    have "?I e \<inter> \<Union> (?I ` set es) = {}"
      using Cons.prems(1) by (fastforce simp: separated_def PhysicalRange_new_def)
    then have "card (\<Union> (?I ` set (e # es))) = card (?I e) + card (\<Union> (?I ` set es))"
      by (simp add: card_Un_disjoint)
    then show ?case using Cons by auto
  qed simp
  then show ?thesis using card_mono [of "{..< n}" "\<Union> (?I ` set es)"] by simp
qed

lemma decode_compressed_entry_size:
  "decode_compressed_entry X e c ds = Ok b \<Longrightarrow> length b = uncompressed_size e"
  by (auto simp: decode_compressed_entry_def rbind_Ok_iff result_simps width_simps)

text \<open>The entries of a container, none when it does not open.\<close>

definition opened_reader :: "('h, 'x) ext_scheme \<Rightarrow> bytes \<Rightarrow> ResourceLimits \<Rightarrow> QztReader option" where
  "opened_reader X bs limits = (case QztReader_open_with_limits X bs limits of Inr r \<Rightarrow> Some r | Inl _ \<Rightarrow> None)"

definition opened_entries :: "QztReader option \<Rightarrow> ChunkEntry list" where
  "opened_entries r = (case r of None \<Rightarrow> [] | Some r \<Rightarrow> sk_chunk_entries (qr_details r))"

definition opened_decode :: "('h, 'x) ext_scheme \<Rightarrow> QztReader option \<Rightarrow> decoder" where
  "opened_decode X r e = (case r of None \<Rightarrow> Err ContainerCorrupt | Some r \<Rightarrow> QztReader_decode_entry X r e)"

definition opened_total :: "QztReader option \<Rightarrow> nat" where
  "opened_total r = (case r of None \<Rightarrow> 0 | Some r \<Rightarrow> ss_original_size (sk_summary (qr_details r)))"

lemmas opened_defs = opened_entries_def opened_decode_def opened_total_def

lemma opened_layout:
  assumes "open_skeleton_details_with_limits X bs limits = Ok d"
  shows "chunk_layout (sk_chunk_entries d)"
    and "sum_list (map uncompressed_size (sk_chunk_entries d)) = ss_original_size (sk_summary d)"
    and "ss_original_size (sk_summary d) < u64_end"
    and "sum_list (map compressed_size (sk_chunk_entries d)) < u64_end"
    and "\<forall>e \<in> set (sk_chunk_entries d). ChunkEntry_wf e"
    and "sum_list (map line_count (sk_chunk_entries d)) = ss_line_count (sk_summary d)"
    and "length bs < u64_end"
proof -
  obtain h t f m r ct es dicts dense docs where p: "container_parts X bs limits h t f m r ct es"
    and d: "d = skeleton_details h t f m r es dicts dense docs"
    using assms unfolding open_Ok_iff by blast
  note proj = d [unfolded skeleton_details_def]
  have n: "length bs < u64_end" using p by (simp add: container_parts_def)
  show "length bs < u64_end" by (rule n)
  have "\<forall>e \<in> set es. physical_offset e + compressed_size e \<le> length bs"
    using container_parts_ranges(1) [OF p] by fastforce
  then show "sum_list (map compressed_size (sk_chunk_entries d)) < u64_end"
    using separated_sum [OF container_parts_ranges(2) [OF p]] n by (fastforce simp: proj)
  show "chunk_layout (sk_chunk_entries d)"
    and "sum_list (map uncompressed_size (sk_chunk_entries d)) = ss_original_size (sk_summary d)"
    and "ss_original_size (sk_summary d) < u64_end" and "\<forall>e \<in> set (sk_chunk_entries d). ChunkEntry_wf e"
    and "sum_list (map line_count (sk_chunk_entries d)) = ss_line_count (sk_summary d)"
    using container_parts_table [OF p] by (simp_all add: proj)
qed

lemma opened_reader_Some:
  "opened_reader X bs limits = Some r \<longleftrightarrow>
     (\<exists>d. open_skeleton_details_with_limits X bs limits = Ok d \<and> r = \<lparr>qr_bytes = bs, qr_details = d\<rparr>)"
  by (cases "open_skeleton_details_with_limits X bs limits")
     (auto simp: opened_reader_def QztReader_open_with_limits_def)

lemma QztReader_decode_size: "QztReader_decode_entry X r e = Ok b \<Longrightarrow> length b = uncompressed_size e"
  by (auto simp: QztReader_decode_entry_def rbind_Ok_iff decode_compressed_entry_size)

interpretation memory: chunk_source "opened_entries (opened_reader X bs limits)"
    "opened_decode X (opened_reader X bs limits)" "opened_total (opened_reader X bs limits)" for X bs limits
proof (cases "opened_reader X bs limits")
  case None
  then show "chunk_source (opened_entries (opened_reader X bs limits)) (opened_decode X (opened_reader X bs limits))
      (opened_total (opened_reader X bs limits))"
    by unfold_locales (simp_all add: opened_defs chunk_layout_def u64_end_def)
next
  case (Some r)
  then obtain d where d: "open_skeleton_details_with_limits X bs limits = Ok d" "r = \<lparr>qr_bytes = bs, qr_details = d\<rparr>"
    by (auto simp: opened_reader_Some)
  note o = opened_layout [OF d(1)]
  show "chunk_source (opened_entries (opened_reader X bs limits)) (opened_decode X (opened_reader X bs limits))
      (opened_total (opened_reader X bs limits))"
    using o unfolding Some d(2) by unfold_locales (simp_all add: opened_defs QztReader_decode_size)
qed

end
