(* ===== verification/Reader_Lines.thy ===== *)
theory Reader_Lines
  imports Reader_Correct
begin

text \<open>
  Reading lines. The reference is a definition of the lines of a text that knows nothing of
  chunks; the locale \<open>text_source\<close> extends a chunk source by what deep verification checks
  (every chunk decodes, flags and line counts are those of the text, a dense line index lists
  the line starts), and there reading a line is the reference.
\<close>

section \<open>The lines of a text\<close>

definition line_starts :: "bytes \<Rightarrow> usize list" where
  "line_starts data = filter (is_line_start data) [0 ..< length data]"

text \<open>Everything up to and including the first line feed.\<close>

definition through_lf :: "bytes \<Rightarrow> bytes" where
  "through_lf xs = takeWhile (\<lambda>b. b \<noteq> LF) xs @ (if LF \<in> set xs then [LF] else [])"

definition nth_line :: "bytes \<Rightarrow> nat \<Rightarrow> bytes" where
  "nth_line data n = through_lf (drop (line_starts data ! n) data)"

lemma through_lf_append:
  "through_lf (xs @ ys) = (if LF \<in> set xs then through_lf xs else xs @ through_lf ys)"
  by (auto simp: through_lf_def takeWhile_append)

lemma through_lf_all: "LF \<notin> set xs \<Longrightarrow> through_lf xs = xs"
  by (auto simp: through_lf_def)

lemma append_until_lf_eq: "append_until_lf_loop xs acc = (LF \<in> set xs, acc @ through_lf xs)"
  by (induction xs arbitrary: acc) (auto simp: through_lf_def)

lemma lines_in_whole: "length (line_starts data) = lines_in data 0 (length data)"
  by (simp add: line_starts_def lines_in_def)

lemma line_starts_split:
  assumes "a \<le> b" and "b \<le> length data"
  shows "line_starts data = filter (is_line_start data) [0 ..< a] @ filter (is_line_start data) [a ..< b] @
     filter (is_line_start data) [b ..< length data]"
proof -
  have "[0 ..< length data] = [0 ..< a] @ [a ..< b] @ [b ..< length data]"
    using upt_add_eq_append [of 0 a "b - a"] upt_add_eq_append [of 0 b "length data - b"] assms by simp
  then show ?thesis by (simp only: line_starts_def filter_append)
qed

lemma line_starts_nth:
  assumes "a \<le> b" and "b \<le> length data" and "lines_in data 0 a \<le> n" and "n < lines_in data 0 b"
  shows "filter (is_line_start data) [a ..< b] ! (n - lines_in data 0 a) = line_starts data ! n"
    and "n - lines_in data 0 a < length (filter (is_line_start data) [a ..< b])"
proof -
  have "lines_in data 0 a + lines_in data a b = lines_in data 0 b" using assms(1) by (simp add: lines_in_append)
  then show "n - lines_in data 0 a < length (filter (is_line_start data) [a ..< b])"
    using assms(3,4) by (simp add: lines_in_def)
  then show "filter (is_line_start data) [a ..< b] ! (n - lines_in data 0 a) = line_starts data ! n"
    using assms(3) by (subst line_starts_split [OF assms(1,2)]) (simp add: nth_append lines_in_def)
qed

section \<open>Local line starts\<close>

lemma rfold_foldl: "(\<And>s x. x \<in> set xs \<Longrightarrow> f s x = Ok (g s x)) \<Longrightarrow> rfold f s xs = Ok (foldl g s xs)"
  by (induction xs arbitrary: s) auto

lemma local_line_starts_offsets:
  assumes "length d < u64_end"
  shows "line_start_offsets d fl = Ok (local_line_starts d fl)"
  using assms unfolding line_start_offsets_def local_line_starts_def Let_def
  by (intro rfold_foldl) (simp add: usize_to_u64_def)

lemma local_line_starts_slice:
  assumes "a \<le> b" and "b \<le> length data" and "length data < u64_end" and "even fl \<longleftrightarrow> is_line_start data a"
  shows "local_line_starts (slice data a b) fl = map (\<lambda>i. i - a) (filter (is_line_start data) [a ..< b])"
  using slice_line_starts [OF assms] local_line_starts_offsets [of "slice data a b" fl] assms(2,3) by simp

section \<open>A source of text\<close>

locale text_source = chunk_source +
  fixes dense :: "DenseLineIndex option"
  assumes all_decode: "e \<in> set entries \<Longrightarrow> is_ok (decode e)"
    and flags_match: "e \<in> set entries \<Longrightarrow>
      even (flags e) \<longleftrightarrow> is_line_start (restored_bytes decode entries) (logical_offset e)"
    and lines_match: "e \<in> set entries \<Longrightarrow> line_count e =
      lines_in (restored_bytes decode entries) (logical_offset e) (logical_offset e + uncompressed_size e)"
    and dense_match: "dense = Some idx \<Longrightarrow> i < length entries \<Longrightarrow>
      verify_chunk idx i (chunk_or_zeros decode (entries ! i)) (flags (entries ! i)) = Ok ()"
begin

abbreviation text_bytes :: bytes where
  "text_bytes \<equiv> restored_bytes decode entries"

lemma text_length: "length text_bytes = total"
  by (rule restored_total)

lemma decode_chunk_or_zeros: "e \<in> set entries \<Longrightarrow> decode e = Ok (chunk_or_zeros decode e)"
  using all_decode [of e] by (auto simp: chunk_or_zeros_def is_ok_iff)

lemma first_line_eq:
  assumes "k \<le> length entries"
  shows "sum_list (map line_count (take k entries)) = lines_in text_bytes 0 (sum_list (map uncompressed_size (take k entries)))"
  using assms
proof (induction k)
  case (Suc k)
  then have k: "k < length entries" by simp
  show ?case
    using Suc lines_match [OF nth_mem [OF k]] layout_nth(2) [OF layout k] layout_end(1) [OF layout k]
    by (simp add: sum_take_Suc [OF k] lines_in_append)
qed (simp add: lines_in_def)

lemma line_total: "sum_list (map line_count entries) = lines_in text_bytes 0 total"
  using first_line_eq [of "length entries"] total by simp

lemma lines_le_total: "sum_list (map line_count entries) \<le> total"
  unfolding line_total lines_in_def by (metis diff_zero length_filter_le length_upt)

lemma line_chunk:
  assumes "n < lines_in text_bytes 0 total"
  obtains k where "line_start_chunk_index entries n = Ok k" and "k < length entries"
    and "first_line (entries ! k) = lines_in text_bytes 0 (logical_offset (entries ! k))"
    and "first_line (entries ! k) \<le> n" and "n < first_line (entries ! k) + line_count (entries ! k)"
proof -
  have ends: "checked_logical_end (first_line (entries ! i)) (line_count (entries ! i))
      = Ok (sum_list (map line_count (take (Suc i) entries)))" if "i < length entries" for i
    using that layout_end(2) [OF layout that] sum_take_le [of line_count "Suc i" entries] lines_le_total total_width
    by simp
  obtain k where k: "partition_by_end entries n (\<lambda>entry. checked_logical_end (first_line entry) (line_count entry)) = Ok k"
      "k \<le> length entries" "sum_list (map line_count (take k entries)) \<le> n"
      "k < length entries \<Longrightarrow> n < sum_list (map line_count (take (Suc k) entries))"
    by (rule partition_prefix_sums [where es = entries and f = line_count and target = n
          and end_of = "\<lambda>entry. checked_logical_end (first_line entry) (line_count entry)"]) (auto simp: ends)
  have lt: "k < length entries"
    using k(2,3) assms line_total by (cases "k = length entries") auto
  note lk = layout_nth(2,3) [OF layout lt] layout_end(2) [OF layout lt] k(3) k(4) [OF lt]
  have "line_start_chunk_index entries n = Ok k"
    using k(1) lt lk ends [OF lt] by (simp add: line_start_chunk_index_def get_def)
  then show thesis using that [OF _ lt] lk first_line_eq [of k] lt by simp
qed

lemma read_line_rest:
  "k \<le> length entries \<Longrightarrow> read_line_loop (drop k entries) decode acc =
     Ok (acc @ through_lf (restored_bytes decode (drop k entries)))"
proof (induction "length entries - k" arbitrary: k acc)
  case 0
  then show ?case by (simp add: restored_bytes_def through_lf_def)
next
  case (Suc m)
  then have k: "k < length entries" by simp
  then have d: "drop k entries = entries ! k # drop (Suc k) entries" by (simp add: Cons_nth_drop_Suc)
  show ?case
    using Suc k decode_chunk_or_zeros [OF nth_mem [OF k]]
    by (simp add: d append_until_lf_def append_until_lf_eq restored_bytes_def through_lf_append through_lf_all)
qed

lemma read_line_exact:
  assumes "sk_chunk_entries details = entries" and "ss_line_count (sk_summary details) = lines_in text_bytes 0 total"
    and "sk_dense_line_index details = dense"
  shows "read_line_from_entries details n decode =
     (if n < length (line_starts text_bytes) then Ok (nth_line text_bytes n) else Err LineOutOfRange)"
proof (cases "n < lines_in text_bytes 0 total")
  case False
  then show ?thesis by (simp add: read_line_from_entries_def assms lines_in_whole text_length)
next
  case True
  obtain k where k: "line_start_chunk_index entries n = Ok k" "k < length entries"
      "first_line (entries ! k) = lines_in text_bytes 0 (logical_offset (entries ! k))"
      "first_line (entries ! k) \<le> n" "n < first_line (entries ! k) + line_count (entries ! k)"
    by (rule line_chunk [OF True])
  let ?e = "entries ! k" and ?a = "logical_offset (entries ! k)"
  let ?b = "?a + uncompressed_size ?e" and ?d = "chunk_or_zeros decode (entries ! k)"
  have e: "?e \<in> set entries" using k(2) by simp
  have b: "?b \<le> total" by (rule chunk_ends [OF e])
  have dd: "?d = slice text_bytes ?a ?b" using restored_chunk [OF k(2)] by simp
  have nl: "lines_in text_bytes 0 ?a \<le> n" "n < lines_in text_bytes 0 ?b"
    using k(3-5) lines_match [OF e] lines_in_append [of 0 ?a ?b text_bytes] by simp_all
  let ?s = "line_starts text_bytes ! n"
  have fs: "filter (is_line_start text_bytes) [?a ..< ?b] ! (n - first_line ?e) = ?s"
    "n - first_line ?e < length (filter (is_line_start text_bytes) [?a ..< ?b])"
    using line_starts_nth [of ?a ?b text_bytes n] nl b k(3) by (simp_all add: text_length)
  have s: "?a \<le> ?s" "?s < ?b"
    using nth_mem [OF fs(2)] unfolding fs(1) by auto
  have ls: "local_line_starts ?d (flags ?e) = map (\<lambda>i. i - ?a) (filter (is_line_start text_bytes) [?a ..< ?b])"
    unfolding dd using flags_match [OF e] b total_width by (intro local_line_starts_slice) (simp_all add: text_length)
  have ls_n: "get (local_line_starts ?d (flags ?e)) (n - first_line ?e) = Some (?s - ?a)"
    using fs by (simp add: ls get_def)
  have start: "(case dense of
        Some dense \<Rightarrow> rbind (line_start_offset dense k (n - first_line ?e)) u64_to_usize
      | None \<Rightarrow> ok_or (get (local_line_starts ?d (flags ?e)) (n - first_line ?e)) LineOutOfRange) = Ok (?s - ?a)"
  proof (cases dense)
    case None
    then show ?thesis using ls_n by simp
  next
    case (Some idx)
    have "length ?d < u64_end" using chunk_size [OF e] b total_width by simp
    then have "line_start_offsets ?d (flags ?e) = Ok (local_line_starts ?d (flags ?e))" by (rule local_line_starts_offsets)
    then obtain actual where "get (dense_entries idx) k = Some actual"
        "dl_line_start_offsets actual = local_line_starts ?d (flags ?e)"
      using dense_match [OF Some k(2)] by (auto simp: verify_chunk_def rbind_Ok_iff result_simps)
    then show ?thesis using Some ls_n s b total_width by (simp add: line_start_offset_def u64_to_usize_def)
  qed
  have w: "n - first_line ?e < u64_end" using True total_width lines_le_total line_total by linarith
  have tail: "drop ?s text_bytes = drop (?s - ?a) ?d @ restored_bytes decode (drop (Suc k) entries)"
    using restored_length [of k] layout_nth(2) [OF layout k(2)] s chunk_size [OF e]
    by (subst restored_split [OF k(2)]) simp
  have "read_line_from_entries details n decode =
      (if LF \<in> set (drop (?s - ?a) ?d) then Ok (through_lf (drop (?s - ?a) ?d))
       else read_line_loop (drop (Suc k) entries) decode (through_lf (drop (?s - ?a) ?d)))"
    using True k(1,2) start decode_chunk_or_zeros [OF e] w
    by (simp add: read_line_from_entries_def assms get_def append_until_lf_def append_until_lf_eq)
  then show ?thesis
    using True k(2) tail read_line_rest [of "Suc k"]
    by (simp add: nth_line_def through_lf_append through_lf_all lines_in_whole text_length)
qed

end

end
