(* ===== verification/Reader_Verify.thy ===== *)
theory Reader_Verify
  imports Reader_Lines
begin

text \<open>
  Soundness of deep verification: when it succeeds, every chunk decodes to valid UTF-8, the
  flags, line counts, newline mode, dense line index and checksums recorded in the container
  are those of the restored text, and every document has the checksum its entry states,
  although documents are hashed in one pass over the chunks.
\<close>

lemma rfold_enumerate_induct:
  assumes "rfold f s (enumerate 0 xs) = Ok s'" and "P 0 s"
    and "\<And>k u u'. k < length xs \<Longrightarrow> P k u \<Longrightarrow> f u (k, xs ! k) = Ok u' \<Longrightarrow> P (Suc k) u'"
  shows "P (length xs) s'"
proof -
  have "P (n + length ys) s'" if "rfold f s (enumerate n ys) = Ok s'" "P n s" "ys = drop n xs" "n \<le> length xs" for n ys s
    using that
  proof (induction ys arbitrary: n s)
    case (Cons y ys)
    then have n: "n < length xs" by (metis drop_all leI list.distinct(1))
    then have y: "y = xs ! n" "ys = drop (Suc n) xs" using Cons.prems(3) by (metis Cons_nth_drop_Suc list.inject)+
    obtain u where "f s (n, y) = Ok u" "rfold f u (enumerate (Suc n) ys) = Ok s'"
      using Cons.prems(1) by (auto simp: rbind_Ok_iff)
    then show ?case using Cons.IH [where n = "Suc n" and s = u] assms(3) [OF n Cons.prems(2)] y n by auto
  qed simp
  from this [where n = 0 and ys = xs and s = s] show ?thesis using assms(1,2) by simp
qed

section \<open>Text analysis\<close>

text \<open>The analysis has seen exactly the bytes \<open>p\<close>.\<close>

definition text_seen :: "bytes \<Rightarrow> StreamingTextAnalysis \<Rightarrow> bool" where
  "text_seen p st \<longleftrightarrow> ta_lf_count st = length (filter (ends_lf p) [0 ..< length p]) \<and>
     ta_crlf_count st = length (filter (ends_crlf p) [0 ..< length p]) \<and>
     ta_previous_byte st = (if p = [] then None else Some (last p))"

lemma ends_append:
  "i < length p \<Longrightarrow> ends_lf (p @ q) i \<longleftrightarrow> ends_lf p i" "i < length p \<Longrightarrow> ends_crlf (p @ q) i \<longleftrightarrow> ends_crlf p i"
  by (auto simp: ends_lf_def ends_crlf_def nth_append)

lemma ends_snoc:
  "ends_lf (p @ [b]) (length p) \<longleftrightarrow> b = LF \<and> \<not> (p \<noteq> [] \<and> last p = CR)"
  "ends_crlf (p @ [b]) (length p) \<longleftrightarrow> b = LF \<and> p \<noteq> [] \<and> last p = CR"
  by (auto simp: ends_lf_def ends_crlf_def nth_append last_conv_nth)

lemma ends_counts:
  "length (filter (ends_lf (p @ [b])) [0 ..< Suc (length p)]) =
     length (filter (ends_lf p) [0 ..< length p]) + (if ends_lf (p @ [b]) (length p) then 1 else 0)"
  "length (filter (ends_crlf (p @ [b])) [0 ..< Suc (length p)]) =
     length (filter (ends_crlf p) [0 ..< length p]) + (if ends_crlf (p @ [b]) (length p) then 1 else 0)"
proof -
  have "filter (ends_lf (p @ [b])) [0 ..< length p] = filter (ends_lf p) [0 ..< length p]"
    "filter (ends_crlf (p @ [b])) [0 ..< length p] = filter (ends_crlf p) [0 ..< length p]"
    by (intro filter_cong refl, simp add: ends_append)+
  then show "length (filter (ends_lf (p @ [b])) [0 ..< Suc (length p)]) =
     length (filter (ends_lf p) [0 ..< length p]) + (if ends_lf (p @ [b]) (length p) then 1 else 0)"
    "length (filter (ends_crlf (p @ [b])) [0 ..< Suc (length p)]) =
     length (filter (ends_crlf p) [0 ..< length p]) + (if ends_crlf (p @ [b]) (length p) then 1 else 0)"
    by simp_all
qed

lemma text_update_byte_seen:
  assumes "text_seen p st" and "text_update_byte st b = Ok st'"
  shows "text_seen (p @ [b]) st' \<and> ta_line_starts_seen st' = ta_line_starts_seen st"
proof (cases "b = LF")
  case True
  then show ?thesis
    using assms ends_snoc [of p b]
    by (cases "p \<noteq> [] \<and> last p = CR")
       (auto simp: text_update_byte_def text_seen_def rbind_Ok_iff result_simps width_simps ends_counts simp del: upt_Suc split: if_splits)
next
  case False
  then show ?thesis
    using assms ends_snoc [of p b]
    by (auto simp: text_update_byte_def text_seen_def ends_counts simp del: upt_Suc)
qed

lemma text_update_bytes_seen:
  "rfold text_update_byte st xs = Ok st' \<Longrightarrow> text_seen p st \<Longrightarrow>
     text_seen (p @ xs) st' \<and> ta_line_starts_seen st' = ta_line_starts_seen st"
proof (induction xs arbitrary: st p)
  case (Cons x xs)
  then obtain u where "text_update_byte st x = Ok u" "rfold text_update_byte u xs = Ok st'" by (auto simp: rbind_Ok_iff)
  with Cons.IH [of u "p @ [x]"] text_update_byte_seen [OF Cons.prems(2), of x u] show ?case by simp
qed simp

lemma text_update_seen:
  assumes "StreamingTextAnalysis_update st d fl = Ok st'" and "text_seen p st"
  shows "text_seen (p @ d) st'" and "ta_line_starts_seen st' = ta_line_starts_seen st + length (local_line_starts d fl)"
proof -
  obtain seen where s: "seen = ta_line_starts_seen st + length (local_line_starts d fl)"
    "rfold text_update_byte (st\<lparr>ta_line_starts_seen := seen\<rparr>) d = Ok st'"
    using assms(1) by (auto simp: StreamingTextAnalysis_update_def Let_def rbind_Ok_iff result_simps width_simps)
  have "text_seen p (st\<lparr>ta_line_starts_seen := seen\<rparr>)" using assms(2) by (simp add: text_seen_def)
  from text_update_bytes_seen [OF s(2) this]
  show "text_seen (p @ d) st'" "ta_line_starts_seen st' = ta_line_starts_seen st + length (local_line_starts d fl)"
    using s(1) by simp_all
qed

section \<open>Document hashing\<close>

text \<open>
  After the first \<open>n\<close> bytes of \<open>data\<close>: finished documents have the digest of their range,
  active ones have been fed their range so far, and the ones not yet activated start later.
\<close>

definition fed :: "('h, 'x) ext_scheme \<Rightarrow> bytes \<Rightarrow> bytes \<Rightarrow> 'h \<Rightarrow> bool" where
  "fed X data bs h \<longleftrightarrow> (\<exists>pieces. h = foldl (hasher_update X) (hasher_new X) pieces \<and> concat pieces = bs)"

definition hashed ::
  "('h, 'x) ext_scheme \<Rightarrow> bytes \<Rightarrow> PendingDocument list \<Rightarrow> (usize \<rightharpoonup> bytes) \<Rightarrow> bool"
where
  "hashed X data ps results \<longleftrightarrow> (\<forall>i v. results i = Some v \<longrightarrow>
     (\<exists>p \<in> set ps. pd_index p = i \<and> v = blake3_hash X (slice data (pd_start p) (pd_end p))))"

definition active_ok :: "('h, 'x) ext_scheme \<Rightarrow> bytes \<Rightarrow> PendingDocument list \<Rightarrow> nat \<Rightarrow> 'h ActiveDocument \<Rightarrow> bool" where
  "active_ok X data ps n a \<longleftrightarrow>
     (\<exists>p \<in> set ps. ad_index a = pd_index p \<and> ad_start a = pd_start p \<and> ad_end a = pd_end p) \<and>
     fed X data (slice data (ad_start a) (min n (ad_end a))) (ad_hasher a)"

definition hasher_ok :: "('h, 'x) ext_scheme \<Rightarrow> bytes \<Rightarrow> nat \<Rightarrow> 'h DocumentHasher \<Rightarrow> bool" where
  "hasher_ok X data n dh \<longleftrightarrow> sorted (map pd_start (dh_pending dh)) \<and>
     (\<forall>i. dh_next dh \<le> i \<and> i < length (dh_pending dh) \<longrightarrow> n \<le> pd_start (dh_pending dh ! i)) \<and>
     (\<forall>a \<in> set (dh_active dh). active_ok X data (dh_pending dh) n a) \<and>
     hashed X data (dh_pending dh) (dh_results dh)"

lemma slice_glue:
  assumes "c \<le> c'"
  shows "slice data s (min c e) @ slice data (max c s) (min c' e) = slice data s (min c' e)"
proof (cases "s \<le> c")
  case True
  then show ?thesis
    using assms slice_append_self [of s c "min c' e" data] by (cases "e \<le> c") (auto simp: slice_def min_def max_def)
next
  case False
  then show ?thesis by (auto simp: slice_def min_def max_def)
qed

lemma fed_update:
  "fed X data bs h \<Longrightarrow> fed X data (bs @ part) (hasher_update X h part)"
  unfolding fed_def by (metis concat.simps(1,2) concat_append append_Nil2 foldl_Cons foldl_Nil foldl_append)

lemma fed_finalize: "fed X data bs h \<Longrightarrow> blake3_documented X \<Longrightarrow> hasher_finalize X h = blake3_hash X bs"
  by (auto simp: fed_def blake3_stream)

lemma feed_active_ok:
  assumes "active_ok X data ps c a" and "hashed X data ps results" and "blake3_documented X"
    and "d = slice data c c'" and "c \<le> c'" and "c' \<le> length data" and "length data < u64_end"
  shows "\<exists>sa rs. feed_active X c c' d (still, results) a = Ok (still @ sa, rs) \<and>
     (\<forall>a' \<in> set sa. active_ok X data ps c' a') \<and> hashed X data ps rs"
proof -
  let ?lo = "max c (ad_start a)" and ?hi = "min c' (ad_end a)"
  let ?new = "if ?lo < ?hi then a\<lparr>ad_hasher := hasher_update X (ad_hasher a) (slice data ?lo ?hi)\<rparr> else a"
  obtain p where p: "p \<in> set ps" "ad_index a = pd_index p" "ad_start a = pd_start p" "ad_end a = pd_end p"
    and f: "fed X data (slice data (ad_start a) (min c (ad_end a))) (ad_hasher a)"
    using assms(1) by (auto simp: active_ok_def)
  have part: "get_slice d (?lo - c) (?hi - c) = Some (slice data ?lo ?hi)" if "?lo < ?hi"
    using that assms(4-6) by (auto simp: get_slice_def slice_def take_drop [symmetric] drop_take min_def max_def)
  have w: "?lo - c < u64_end" "?hi - c < u64_end" if "?lo < ?hi" using that assms(6,7) by auto
  have new: "fed X data (slice data (ad_start a) ?hi) (ad_hasher ?new)"
    using fed_update [OF f, of "slice data ?lo ?hi"] f slice_glue [OF assms(5), of data "ad_start a" "ad_end a"]
    by (auto simp: slice_def split: if_splits)
  have new_fields: "ad_index ?new = ad_index a" "ad_start ?new = ad_start a" "ad_end ?new = ad_end a" by auto
  have step: "feed_active X c c' d (still, results) a =
      (if ad_end a \<le> c' then Ok (still, results(ad_index a \<mapsto> hasher_finalize X (ad_hasher ?new)))
       else Ok (still @ [?new], results))"
    using part w by (auto simp: feed_active_def Let_def u64_to_usize_def)
  show ?thesis
  proof (cases "ad_end a \<le> c'")
    case True
    have "hasher_finalize X (ad_hasher ?new) = blake3_hash X (slice data (pd_start p) (pd_end p))"
      using fed_finalize [OF new assms(3)] True p(3,4) by (simp only: min_absorb2)
    then show ?thesis
      using step True assms(2) p by (intro exI [of _ "[]"]) (auto simp: hashed_def)
  next
    case False
    have "active_ok X data ps c' ?new"
      using new False p new_fields by (auto simp: active_ok_def)
    then show ?thesis using step False assms(2) by (intro exI [of _ "[?new]"]) auto
  qed
qed

lemma feed_all_ok:
  assumes "\<forall>a \<in> set as. active_ok X data ps c a" and "hashed X data ps results" and "blake3_documented X"
    and "d = slice data c c'" and "c \<le> c'" and "c' \<le> length data" and "length data < u64_end"
    and "\<forall>a \<in> set still. active_ok X data ps c' a"
  shows "\<exists>sa rs. rfold (feed_active X c c' d) (still, results) as = Ok (sa, rs) \<and>
     (\<forall>a' \<in> set sa. active_ok X data ps c' a') \<and> hashed X data ps rs"
  using assms(1,2,8)
proof (induction as arbitrary: still results)
  case (Cons a as)
  obtain sa rs where s: "feed_active X c c' d (still, results) a = Ok (still @ sa, rs)"
    "\<forall>a' \<in> set sa. active_ok X data ps c' a'" "hashed X data ps rs"
    using feed_active_ok [of X data ps c a results d c' still] Cons.prems assms(3-7) by auto
  then show ?case using Cons.IH [of rs "still @ sa"] Cons.prems by auto
qed auto

lemma activate_ok:
  assumes "activate X ps c' next as = (next', as')" and "sorted (map pd_start ps)"
    and "\<forall>i. next \<le> i \<and> i < length ps \<longrightarrow> c \<le> pd_start (ps ! i)" and "\<forall>a \<in> set as. active_ok X data ps c a"
  shows "(\<forall>i. next' \<le> i \<and> i < length ps \<longrightarrow> c' \<le> pd_start (ps ! i)) \<and> (\<forall>a \<in> set as'. active_ok X data ps c a)"
  using assms(1,3,4)
proof (induction "length ps - next" arbitrary: "next" as)
  case 0
  then show ?case by (subst (asm) activate.simps) (auto simp: get_def)
next
  case (Suc m)
  then have n: "next < length ps" by simp
  let ?p = "ps ! next"
  show ?case
  proof (cases "pd_start ?p \<ge> c'")
    case True
    have "c' \<le> pd_start (ps ! i)" if "next \<le> i" "i < length ps" for i
      using sorted_nth_mono [OF assms(2), of "next" i] that n True by simp
    then show ?thesis using Suc.prems True n by (subst (asm) activate.simps) (auto simp: get_def)
  next
    case False
    let ?a = "\<lparr>ad_index = pd_index ?p, ad_start = pd_start ?p, ad_end = pd_end ?p, ad_hasher = hasher_new X\<rparr>"
    have "slice data (pd_start ?p) (min c (pd_end ?p)) = []" using Suc.prems(2) n by (auto simp: slice_def)
    then have ok: "active_ok X data ps c ?a"
      using n by (auto simp: active_ok_def fed_def intro!: bexI [of _ ?p] exI [of _ "[]"])
    have act: "activate X ps c' (Suc next) (as @ [?a]) = (next', as')"
      using Suc.prems(1) False n by (subst (asm) activate.simps) (auto simp: get_def)
    have m: "m = length ps - Suc next" using Suc.hyps(2) by simp
    have later: "\<forall>i. Suc next \<le> i \<and> i < length ps \<longrightarrow> c \<le> pd_start (ps ! i)" using Suc.prems(2) by simp
    have "\<forall>a \<in> set (as @ [?a]). active_ok X data ps c a" using Suc.prems(3) ok by simp
    then show ?thesis by (rule Suc.hyps(1) [OF m act later])
  qed
qed

lemma DocumentHasher_feed_ok:
  assumes "hasher_ok X data c dh" and "blake3_documented X" and "d = slice data c (c + length d)"
    and "c + length d \<le> length data" and "length data < u64_end"
  obtains dh' where "DocumentHasher_feed X dh c d = Ok dh'" and "hasher_ok X data (c + length d) dh'"
    and "dh_pending dh' = dh_pending dh"
proof -
  let ?c' = "c + length d"
  obtain next' as' where a: "activate X (dh_pending dh) ?c' (dh_next dh) (dh_active dh) = (next', as')" by fastforce
  note h = assms(1) [unfolded hasher_ok_def]
  have ok: "(\<forall>i. next' \<le> i \<and> i < length (dh_pending dh) \<longrightarrow> ?c' \<le> pd_start (dh_pending dh ! i))"
    "\<forall>a \<in> set as'. active_ok X data (dh_pending dh) c a"
    using activate_ok [OF a, of c data] h by auto
  obtain sa rs where f: "rfold (feed_active X c ?c' d) ([], dh_results dh) as' = Ok (sa, rs)"
    "\<forall>a' \<in> set sa. active_ok X data (dh_pending dh) ?c' a'" "hashed X data (dh_pending dh) rs"
    using feed_all_ok [OF ok(2) _ assms(2,3) _ assms(4,5), of "dh_results dh" "[]"] h by auto
  have "DocumentHasher_feed X dh c d = Ok (dh\<lparr>dh_next := next', dh_active := sa, dh_results := rs\<rparr>)"
    using a f(1) assms(4,5) by (simp add: DocumentHasher_feed_def usize_to_u64_def checked_add_def)
  then show thesis using that f ok(1) h by (simp add: hasher_ok_def)
qed

text \<open>The documents to hash, as byte spans in the order of their start.\<close>

definition document_spans :: "DocumentIndex \<Rightarrow> PendingDocument list" where
  "document_spans di = dh_pending (DocumentHasher_new di :: unit DocumentHasher)"

lemma DocumentHasher_new_pending: "dh_pending (DocumentHasher_new di) = document_spans di"
  by (simp add: document_spans_def DocumentHasher_new_def Let_def)

lemma DocumentHasher_new_ok: "hasher_ok X data 0 (DocumentHasher_new di)"
proof -
  have "sorted (map pd_start (sort_key (\<lambda>p. (pd_start p, pd_index p)) ps))" for ps
  proof -
    have "sorted (map (\<lambda>p. (pd_start p, pd_index p)) (sort_key (\<lambda>p. (pd_start p, pd_index p)) ps))" by simp
    then show ?thesis by (induction "sort_key (\<lambda>p. (pd_start p, pd_index p)) ps") (auto simp: sorted_wrt_map less_eq_prod_def elim!: sorted_wrt_mono_rel [rotated])
  qed
  then show ?thesis by (simp add: hasher_ok_def DocumentHasher_new_def Let_def hashed_def)
qed

section \<open>Deep verification\<close>

text \<open>What has been established for one entry against the text \<open>data\<close>.\<close>

definition entry_verified :: "decoder \<Rightarrow> DenseLineIndex option \<Rightarrow> bytes \<Rightarrow> nat \<Rightarrow> ChunkEntry \<Rightarrow> bool" where
  "entry_verified decode dense data i e \<longleftrightarrow>
     is_ok (decode e) \<and> valid_utf8 (chunk_or_zeros decode e) \<and>
     (even (flags e) \<longleftrightarrow> is_line_start data (logical_offset e)) \<and>
     line_count e = lines_in data (logical_offset e) (logical_offset e + uncompressed_size e) \<and>
     (case dense of None \<Rightarrow> True | Some idx \<Rightarrow> verify_chunk idx i (chunk_or_zeros decode e) (flags e) = Ok ())"

definition deep_invariant ::
  "('h, 'x) ext_scheme \<Rightarrow> SkeletonDetails \<Rightarrow> decoder \<Rightarrow> nat \<Rightarrow> 'h DeepState \<Rightarrow> bool"
where
  "deep_invariant X details decode k st \<longleftrightarrow>
     (let es = sk_chunk_entries details; data = restored_bytes decode es; seen = restored_bytes decode (take k es) in
      (\<forall>i < k. entry_verified decode (sk_dense_line_index details) data i (es ! i)) \<and>
      fed X data seen (ds_original_hasher st) \<and> text_seen seen (ds_text st) \<and>
      ta_line_starts_seen (ds_text st) = lines_in data 0 (length seen) \<and>
      rel_option (\<lambda>di dh. hasher_ok X data (length seen) dh \<and> dh_pending dh = document_spans di)
        (sk_document_index details) (ds_document_hasher st) \<and>
      ds_decoded_bytes st = length seen)"

text \<open>A document entry describes the bytes it names.\<close>

definition document_matches :: "('h, 'x) ext_scheme \<Rightarrow> bytes \<Rightarrow> DocumentEntry \<Rightarrow> bool" where
  "document_matches X data d \<longleftrightarrow> doc_logical_offset d + doc_byte_length d \<le> length data \<and>
     doc_first_line d + doc_line_count d \<le> length (line_starts data) \<and>
     doc_id_hash d = take 16 (blake3_hash X (as_bytes (doc_id d))) \<and>
     doc_checksum d = Checksum_blake3 X
       (slice data (doc_logical_offset d) (doc_logical_offset d + doc_byte_length d))"

lemma document_spans_entry:
  assumes "p \<in> set (document_spans di)"
  shows "pd_index p < length (di_documents di)"
    and "pd_start p = doc_logical_offset (di_documents di ! pd_index p)"
    and "pd_end p = saturating_add (doc_logical_offset (di_documents di ! pd_index p)) (doc_byte_length (di_documents di ! pd_index p))"
proof -
  obtain i d where "(i, d) \<in> set (enumerate 0 (di_documents di))" "p = \<lparr>pd_index = i, pd_start = doc_logical_offset d,
      pd_end = saturating_add (doc_logical_offset d) (doc_byte_length d)\<rparr>"
    using assms by (auto simp: document_spans_def DocumentHasher_new_def Let_def)
  then show "pd_index p < length (di_documents di)" "pd_start p = doc_logical_offset (di_documents di ! pd_index p)"
    "pd_end p = saturating_add (doc_logical_offset (di_documents di ! pd_index p)) (doc_byte_length (di_documents di ! pd_index p))"
    by (auto simp: in_set_enumerate_eq)
qed

lemma verify_document_index_ranges_matches:
  assumes "verify_document_index_ranges X di osz lines es results = Ok ()"
    and "hashed X data (document_spans di) results" and "length data = osz" and "length (line_starts data) = lines"
  shows "\<forall>d \<in> set (di_documents di). document_matches X data d"
proof
  fix d
  assume "d \<in> set (di_documents di)"
  then obtain i where i: "i < length (di_documents di)" "d = di_documents di ! i" by (metis in_set_conv_nth)
  then have "(i, d) \<in> set (enumerate 0 (di_documents di))" by (simp add: in_set_enumerate_eq)
  then have v: "verify_document X osz lines es results (i, d) = Ok ()"
    using assms(1) unfolding verify_document_index_ranges_def rfold_unit_Ok_iff by blast
  note v = v [unfolded verify_document_def prod.case rbind_Ok_iff if_Err_Ok_iff]
  from v have w: "doc_logical_offset d + doc_byte_length d < u64_end" "doc_logical_offset d + doc_byte_length d \<le> osz"
      "doc_first_line d + doc_line_count d \<le> lines" "doc_id_hash d = take 16 (blake3_hash X (as_bytes (doc_id d)))"
    by (auto simp: width_simps)
  have "doc_checksum d = Checksum_blake3 X (slice data (doc_logical_offset d) (doc_logical_offset d + doc_byte_length d))"
  proof (cases "doc_byte_length d = 0")
    case True
    then show ?thesis using v by auto
  next
    case False
    then obtain h where h: "results i = Some h" "Checksum_from_raw_bytes h = doc_checksum d"
      using v by (auto simp: rbind_Ok_iff result_simps)
    then obtain p where p: "p \<in> set (document_spans di)" "pd_index p = i" "h = blake3_hash X (slice data (pd_start p) (pd_end p))"
      using assms(2) by (auto simp: hashed_def)
    have "pd_end p = doc_logical_offset d + doc_byte_length d"
      using document_spans_entry(3) [OF p(1)] p(2) i w(1) by (simp add: saturating_add_def)
    then show ?thesis
      using h(2) p document_spans_entry(2) [OF p(1)] i by (simp add: Checksum_from_raw_bytes_def Checksum_blake3_def)
  qed
  then show "document_matches X data d" using w assms(3,4) by (simp add: document_matches_def)
qed

context chunk_source
begin

lemma deep_step:
  assumes "sk_chunk_entries details = entries" and "blake3_documented X" and "k < length entries"
    and inv: "deep_invariant X details decode k st"
    and step: "verify_deep_entry X details decode st (k, entries ! k) = Ok st'"
  shows "deep_invariant X details decode (Suc k) st'"
proof -
  let ?e = "entries ! k" and ?data = "restored_bytes decode entries" and ?seen = "restored_bytes decode (take k entries)"
  let ?lo = "logical_offset ?e"
  let ?hi = "?lo + uncompressed_size ?e"
  have e: "?e \<in> set entries" using assms(3) by simp
  note inv = inv [unfolded deep_invariant_def Let_def assms(1)]
  have lo: "?lo = length ?seen" using layout_nth(2) [OF layout assms(3)] restored_length [of k] by simp
  have hi: "?hi \<le> length ?data" using chunk_ends [OF e] restored_total by simp
  note st = step [unfolded verify_deep_entry_def Let_def prod.case rbind_Ok_iff if_Err_Ok_iff]
  obtain d ta dh where fl: "flags ?e = (if ?lo > 0 \<and> ta_previous_byte (ds_text st) \<noteq> Some LF
        then STARTS_WITH_LINE_CONTINUATION else 0)"
    and d: "decode ?e = Ok d" and u: "valid_utf8 d"
    and dense: "case sk_dense_line_index details of Some dense \<Rightarrow> verify_chunk dense k d (flags ?e) = Ok () | None \<Rightarrow> True"
    and lc: "line_count ?e = length (local_line_starts d (flags ?e))"
    and tx: "StreamingTextAnalysis_update (ds_text st) d (flags ?e) = Ok ta"
    and dh: "(case ds_document_hasher st of Some hasher \<Rightarrow>
        rbind (DocumentHasher_feed X hasher ?lo d) (\<lambda>h. Ok (Some h)) | None \<Rightarrow> Ok None) = Ok dh"
    and st': "st' = \<lparr>ds_original_hasher = hasher_update X (ds_original_hasher st) d, ds_text = ta,
        ds_document_hasher = dh, ds_decoded_bytes = ds_decoded_bytes st + length d\<rparr>"
    using st by (auto simp: result_simps width_simps split: option.splits)
  have cz: "chunk_or_zeros decode ?e = d" using d by (simp add: chunk_or_zeros_def)
  have dl: "length d = uncompressed_size ?e" by (rule decode_size [OF e d])
  have ds: "d = slice ?data ?lo ?hi" using restored_chunk [OF assms(3)] cz by simp
  have seen': "restored_bytes decode (take (Suc k) entries) = ?seen @ d"
    using cz assms(3) by (simp add: restored_bytes_def take_Suc_conv_app_nth)
  have start: "even (flags ?e) \<longleftrightarrow> is_line_start ?data ?lo"
  proof -
    have "?data ! (?lo - 1) = last ?seen" if "0 < ?lo"
      using that lo by (subst restored_split [OF assms(3)]) (auto simp: nth_append last_conv_nth)
    then show ?thesis
      using fl inv lo by (auto simp: is_line_start_def text_seen_def STARTS_WITH_LINE_CONTINUATION_def)
  qed
  have starts: "local_line_starts d (flags ?e) = map (\<lambda>i. i - ?lo) (filter (is_line_start ?data) [?lo ..< ?hi])"
    unfolding ds using start hi restored_total total_width by (intro local_line_starts_slice) simp_all
  have lines: "line_count ?e = lines_in ?data ?lo ?hi" using lc starts by (simp add: lines_in_def)
  have docs: "rel_option (\<lambda>di dh. hasher_ok X ?data (length ?seen + length d) dh \<and>
      dh_pending dh = document_spans di) (sk_document_index details) dh"
  proof (cases "ds_document_hasher st")
    case None
    then show ?thesis using inv dh by auto
  next
    case (Some h)
    then obtain di where di: "sk_document_index details = Some di" "hasher_ok X ?data ?lo h"
        "dh_pending h = document_spans di"
      using inv lo by (auto simp: option_rel_Some2)
    have "d = slice ?data ?lo (?lo + length d)" "?lo + length d \<le> length ?data" "length ?data < u64_end"
      using ds dl hi restored_total total_width by simp_all
    from DocumentHasher_feed_ok [OF di(2) assms(2) this] obtain h' where
      "DocumentHasher_feed X h ?lo d = Ok h'" "hasher_ok X ?data (?lo + length d) h'" "dh_pending h' = dh_pending h" by metis
    then show ?thesis using dh Some di lo by auto
  qed
  have "entry_verified decode (sk_dense_line_index details) ?data k ?e"
    using d u start lines dense cz by (auto simp: entry_verified_def split: option.splits)
  then have "\<forall>i < Suc k. entry_verified decode (sk_dense_line_index details) ?data i (entries ! i)"
    using inv by (auto simp: less_Suc_eq)
  moreover have "fed X ?data (?seen @ d) (ds_original_hasher st')" using fed_update inv by (auto simp: st')
  moreover have "text_seen (?seen @ d) (ds_text st')" using text_update_seen(1) [OF tx] inv by (auto simp: st')
  moreover have "ta_line_starts_seen (ds_text st') = lines_in ?data 0 (length (?seen @ d))"
    using text_update_seen(2) [OF tx, of ?seen] inv lines lc lo dl by (simp add: st' lines_in_append)
  ultimately show ?thesis
    using docs inv by (simp add: deep_invariant_def assms(1) seen' st')
qed

lemma deep_all:
  assumes "sk_chunk_entries details = entries" and "blake3_documented X"
    and "rfold (verify_deep_entry X details decode)
        \<lparr>ds_original_hasher = hasher_new X, ds_text = StreamingTextAnalysis_new,
         ds_document_hasher = map_option DocumentHasher_new (sk_document_index details), ds_decoded_bytes = 0\<rparr>
        (enumerate 0 entries) = Ok st"
  shows "deep_invariant X details decode (length entries) st"
  using assms(3)
proof (rule rfold_enumerate_induct)
  show "deep_invariant X details decode 0 \<lparr>ds_original_hasher = hasher_new X, ds_text = StreamingTextAnalysis_new,
         ds_document_hasher = map_option DocumentHasher_new (sk_document_index details), ds_decoded_bytes = 0\<rparr>"
    by (cases "sk_document_index details")
       (auto simp: deep_invariant_def Let_def restored_bytes_def fed_def text_seen_def StreamingTextAnalysis_new_def
          lines_in_def DocumentHasher_new_ok DocumentHasher_new_pending intro!: exI [of _ "[]"])
qed (rule deep_step [OF assms(1,2)])

lemma deep_sound:
  assumes "sk_chunk_entries details = entries" and "ss_original_size (sk_summary details) = total"
    and "blake3_documented X" and ok: "verify_deep_entries X details decode = Ok report"
  shows "text_source entries decode total (sk_dense_line_index details)"
    and "valid_utf8 (restored_bytes decode entries)"
    and "Checksum_blake3 X (restored_bytes decode entries) = md_original_checksum (sk_metadata details)"
    and "lines_in (restored_bytes decode entries) 0 total = md_line_count (sk_metadata details)"
    and "NewlineMode_as_str (li_newline_mode (LineInfo_from_bytes (restored_bytes decode entries))) =
       md_newline_mode (sk_metadata details)"
    and "\<forall>di. sk_document_index details = Some di \<longrightarrow> (\<forall>d \<in> set (di_documents di).
       document_matches X (restored_bytes decode entries) d)"
    and "report = report_for_level details Deep total"
proof -
  let ?data = "restored_bytes decode entries"
  note ok = ok [unfolded verify_deep_entries_def rbind_Ok_iff if_Err_Ok_iff assms(1,2)]
  obtain st where fold: "rfold (verify_deep_entry X details decode)
        \<lparr>ds_original_hasher = hasher_new X, ds_text = StreamingTextAnalysis_new,
         ds_document_hasher = map_option DocumentHasher_new (sk_document_index details), ds_decoded_bytes = 0\<rparr>
        (enumerate 0 entries) = Ok st"
    and fin: "ds_decoded_bytes st = total" "Checksum_from_hasher X (ds_original_hasher st) = md_original_checksum (sk_metadata details)"
      "ta_line_starts_seen (ds_text st) = md_line_count (sk_metadata details)"
      "StreamingTextAnalysis_newline_mode (ds_text st) = md_newline_mode (sk_metadata details)"
      "report = report_for_level details Deep (ds_decoded_bytes st)"
    and docs: "case sk_document_index details of Some di \<Rightarrow>
        verify_document_index_ranges X di total (md_line_count (sk_metadata details)) entries
          (case ds_document_hasher st of Some hasher \<Rightarrow> dh_results hasher | None \<Rightarrow> Map.empty) = Ok () | None \<Rightarrow> True"
    using ok by (auto split: option.splits)
  note inv = deep_all [OF assms(1,3) fold, unfolded deep_invariant_def Let_def assms(1), simplified]
  have ver: "entry_verified decode (sk_dense_line_index details) ?data i (entries ! i)" if "i < length entries" for i
    using inv that by blast
  have all: "\<exists>i < length entries. e = entries ! i" if "e \<in> set entries" for e using that by (metis in_set_conv_nth)
  show "text_source entries decode total (sk_dense_line_index details)"
  proof unfold_locales
    fix e
    assume "e \<in> set entries"
    then obtain i where "i < length entries" "e = entries ! i" using all by blast
    with ver show "is_ok (decode e)" "even (flags e) \<longleftrightarrow> is_line_start ?data (logical_offset e)"
      "line_count e = lines_in ?data (logical_offset e) (logical_offset e + uncompressed_size e)"
      by (auto simp: entry_verified_def)
  next
    fix idx i
    assume "sk_dense_line_index details = Some idx" "i < length entries"
    with ver [of i] show "verify_chunk idx i (chunk_or_zeros decode (entries ! i)) (flags (entries ! i)) = Ok ()"
      by (simp add: entry_verified_def)
  qed
  have "valid_utf8 (concat (map (chunk_or_zeros decode) es))" if "set es \<subseteq> set entries" for es
    using that
  proof (induction es)
    case (Cons e es)
    then obtain i where "i < length entries" "e = entries ! i" using all by auto
    with Cons ver show ?case by (auto simp: entry_verified_def intro!: valid_utf8_append)
  qed simp
  then show "valid_utf8 ?data" by (simp add: restored_bytes_def)
  show "Checksum_blake3 X ?data = md_original_checksum (sk_metadata details)"
    using fin(2) inv fed_finalize [of X ?data ?data "ds_original_hasher st"] assms(3)
    by (simp add: Checksum_from_hasher_def Checksum_blake3_def)
  show "lines_in ?data 0 total = md_line_count (sk_metadata details)"
    using fin(3) inv restored_total by simp
  show "NewlineMode_as_str (li_newline_mode (LineInfo_from_bytes ?data)) = md_newline_mode (sk_metadata details)"
    using fin(4) inv by (simp add: StreamingTextAnalysis_newline_mode_def LineInfo_from_bytes_eq text_seen_def)
  show "report = report_for_level details Deep total" using fin by simp
  show "\<forall>di. sk_document_index details = Some di \<longrightarrow> (\<forall>d \<in> set (di_documents di). document_matches X ?data d)"
  proof (intro allI impI)
    fix di
    assume di: "sk_document_index details = Some di"
    then obtain dh where dh: "ds_document_hasher st = Some dh" "hashed X ?data (document_spans di) (dh_results dh)"
      using inv by (auto simp: option_rel_Some1 hasher_ok_def)
    moreover have "length (line_starts ?data) = md_line_count (sk_metadata details)"
      using fin(3) inv restored_total by (simp add: lines_in_whole)
    ultimately show "\<forall>d \<in> set (di_documents di). document_matches X ?data d"
      using docs di by (intro verify_document_index_ranges_matches [OF _ dh(2) restored_total]) simp_all
  qed
qed

end

end
