(* ===== verification/Reader_Access.thy ===== *)
theory Reader_Access
  imports Reader_Verify
begin

text \<open>
  What the two readers promise their callers: random access agrees with a full export, the
  decode cache only saves work and its counters say exactly how much was done, the positioned
  reader behaves as the in-memory one, and a container that passes deep verification is read
  line by line as its text.
\<close>

section \<open>Work of a range read\<close>

lemma filter_takeWhile_sorted:
  fixes f :: "'a \<Rightarrow> nat"
  shows "sorted (map f xs) \<Longrightarrow> filter (\<lambda>x. f x < b) xs = takeWhile (\<lambda>x. f x < b) xs"
proof (induction xs)
  case (Cons x xs)
  show ?case
  proof (cases "f x < b")
    case False
    then have "\<forall>y \<in> set xs. \<not> f y < b" using Cons.prems by (auto intro: less_le_trans)
    then show ?thesis using False by (simp add: filter_empty_conv)
  qed (use Cons in simp)
qed simp

text \<open>A successful loop over entries the cache does not hold decodes each of them once.\<close>

lemma read_range_loop_work:
  assumes "read_range_loop es offset e decode acc c = (Ok out, c')" and "distinct (map chunk_id es)"
    and "\<forall>en \<in> set es. cc_chunk_id c \<noteq> Some (chunk_id en)"
  shows "let ds = takeWhile (\<lambda>en. logical_offset en < e) es in
     cc_decoded_chunks c' = cc_decoded_chunks c + length ds \<and>
     cc_physical_decoded_bytes c' = cc_physical_decoded_bytes c + sum_list (map uncompressed_size ds) \<and>
     cc_compressed_bytes c' = cc_compressed_bytes c + sum_list (map compressed_size ds)"
  using assms
proof (induction es arbitrary: acc c)
  case (Cons en es)
  show ?case
  proof (cases "logical_offset en < e")
    case False
    then show ?thesis using Cons.prems(1) by (auto split: sum.splits)
  next
    case True
    obtain dd c1 out1 where d: "decoded_entry c en decode = (Ok dd, c1)"
        "read_range_loop es offset e decode out1 c1 = (Ok out, c')"
      using Cons.prems(1) True by (auto simp: Let_def split: sum.splits prod.splits)
    have c1: "cc_chunk_id c1 = Some (chunk_id en)" "cc_decoded_chunks c1 = cc_decoded_chunks c + 1"
      "cc_physical_decoded_bytes c1 = cc_physical_decoded_bytes c + uncompressed_size en"
      "cc_compressed_bytes c1 = cc_compressed_bytes c + compressed_size en"
      using d(1) Cons.prems(3)
      by (auto simp: decoded_entry_def Let_def width_simps split: sum.splits option.splits if_splits)
    have "\<forall>x \<in> set es. cc_chunk_id c1 \<noteq> Some (chunk_id x)" using c1(1) Cons.prems(2) by auto
    from Cons.IH [OF d(2) _ this] c1 True Cons.prems(2) show ?thesis by (simp add: Let_def)
  qed
qed simp

text \<open>Whatever happens, a loop adds at most every entry once to the counters.\<close>

definition spent_at_most :: "nat \<Rightarrow> nat \<Rightarrow> nat \<Rightarrow> ChunkDecodeCache \<Rightarrow> ChunkDecodeCache \<Rightarrow> bool" where
  "spent_at_most n b z c c' \<longleftrightarrow> cc_decoded_chunks c' \<le> cc_decoded_chunks c + n \<and>
     cc_physical_decoded_bytes c' \<le> cc_physical_decoded_bytes c + b \<and> cc_compressed_bytes c' \<le> cc_compressed_bytes c + z"

lemma spent_refl [simp]: "spent_at_most n b z c c"
  by (simp add: spent_at_most_def)

lemma decoded_entry_spent: "spent_at_most 1 (uncompressed_size e) (compressed_size e) c (snd (decoded_entry c e decode))"
  by (auto simp: decoded_entry_def spent_at_most_def Let_def checked_add_def split: sum.splits option.splits)

lemma read_range_loop_spent:
  "spent_at_most (length es) (sum_list (map uncompressed_size es)) (sum_list (map compressed_size es))
     c (snd (read_range_loop es offset e decode acc c))"
proof (induction es arbitrary: acc c)
  case (Cons en es)
  obtain r c1 where d: "decoded_entry c en decode = (r, c1)" by fastforce
  have s: "spent_at_most 1 (uncompressed_size en) (compressed_size en) c c1"
    using decoded_entry_spent [of en c decode] d by simp
  have "spent_at_most (Suc (length es)) (uncompressed_size en + sum_list (map uncompressed_size es))
      (compressed_size en + sum_list (map compressed_size es)) c (snd (read_range_loop es offset e decode a c1))" for a
    using s Cons.IH [of c1 a] by (simp add: spent_at_most_def)
  moreover have "spent_at_most (Suc (length es)) (uncompressed_size en + sum_list (map uncompressed_size es))
      (compressed_size en + sum_list (map compressed_size es)) c c1"
    using s by (simp add: spent_at_most_def)
  ultimately show ?case using d by (auto simp: Let_def split: sum.splits)
qed simp

text \<open>A sequence of reads through one cache.\<close>

fun cached_reads :: "(u64 \<Rightarrow> u64 \<Rightarrow> ChunkDecodeCache \<Rightarrow> bytes result \<times> ChunkDecodeCache) \<Rightarrow> (u64 \<times> u64) list \<Rightarrow>
    ChunkDecodeCache \<Rightarrow> bytes result list" where
  "cached_reads rd [] c = []"
| "cached_reads rd ((offset, len) # qs) c = (case rd offset len c of (r, c) \<Rightarrow> r # cached_reads rd qs c)"

context chunk_source
begin

lemma out_of_bounds:
  "total < offset + len \<Longrightarrow>
     read_range_from_entries_cached entries total offset len c decode = (Err LogicalRangeOutOfBounds, c)"
  using total_width by (simp add: read_range_from_entries_cached_def checked_logical_end_def checked_add_def)

lemma empty_read: "offset \<le> total \<Longrightarrow> read_range_from_entries_cached entries total offset 0 c decode = (Ok [], c)"
  using total_width by (simp add: read_range_from_entries_cached_def checked_logical_end_def checked_add_def)

lemmas no_loop = out_of_bounds empty_read

lemma loop_entry:
  assumes "offset + len \<le> total" and "0 < len"
  obtains k where "chunk_index_for_logical_offset entries offset = Ok k" and "k \<le> length entries"
    and "filter (meets offset len) entries = takeWhile (\<lambda>e. logical_offset e < offset + len) (drop k entries)"
proof -
  obtain k where k: "chunk_index_for_logical_offset entries offset = Ok k" "k \<le> length entries"
      "sum_list (map uncompressed_size (take k entries)) \<le> offset"
      "k < length entries \<Longrightarrow> offset < sum_list (map uncompressed_size (take (Suc k) entries))"
    using chunk_index_search [OF layout, of offset] total total_width by blast
  have before: "\<not> meets offset len e" if mem: "e \<in> set (take k entries)" for e
  proof -
    obtain j where "j < length (take k entries)" "e = take k entries ! j"
      using mem unfolding in_set_conv_nth by blast
    then have "j < k" "e = entries ! j" by simp_all
    then show ?thesis
      using layout_end(1) [OF layout, of j] k(2,3) sum_take_mono [of "Suc j" k uncompressed_size entries]
      by (simp add: meets_def)
  qed
  have after: "meets offset len e \<longleftrightarrow> logical_offset e < offset + len" if mem: "e \<in> set (drop k entries)" for e
  proof -
    obtain j where j: "j < length entries - k" "e = drop k entries ! j"
      using mem by (metis in_set_conv_nth length_drop)
    then have e: "e = entries ! (k + j)" "k + j < length entries" using k(2) by simp_all
    then show ?thesis
      using layout_end(1) [OF layout, of "k + j"] k(4) assms(2)
        sum_take_mono [of "Suc k" "Suc (k + j)" uncompressed_size entries]
      by (simp add: meets_def)
  qed
  have "sorted (map logical_offset entries)"
    unfolding sorted_iff_nth_mono using layout_nth(2) [OF layout] by (auto intro: sum_take_mono)
  then have "sorted (map logical_offset (drop k entries))" by (simp add: drop_map [symmetric])
  have "filter (meets offset len) entries = filter (meets offset len) (take k entries @ drop k entries)"
    by (simp only: append_take_drop_id)
  also have "\<dots> = filter (\<lambda>e. logical_offset e < offset + len) (drop k entries)"
    using before after unfolding filter_append by (simp add: filter_False cong: filter_cong)
  also have "\<dots> = takeWhile (\<lambda>e. logical_offset e < offset + len) (drop k entries)"
    by (rule filter_takeWhile_sorted) fact
  finally show thesis by (rule that [OF k(1,2)])
qed

lemma sum_drop_le: "sum_list (map f (drop k xs)) \<le> (sum_list (map f xs) :: nat)"
  by (metis append_take_drop_id le_add2 map_append sum_list_append)

lemma room_drop: "cache_room entries c \<Longrightarrow> cache_room (drop k entries) c"
  using sum_drop_le [of uncompressed_size k entries] sum_drop_le [of compressed_size k entries]
  by (auto simp: cache_room_def)

lemma cached_unfold:
  assumes "offset + len \<le> total" and "0 < len" and "chunk_index_for_logical_offset entries offset = Ok k"
  shows "read_range_from_entries_cached entries total offset len c decode =
     (case read_range_loop (drop k entries) offset (offset + len) decode [] c of
        (Inl err, c) \<Rightarrow> (Err err, c)
      | (Inr out, c) \<Rightarrow> (rbind (usize_to_u64 (length out)) (\<lambda>n. if n \<noteq> len then Err ContainerCorrupt else Ok out), c))"
  using assms total_width by (simp add: read_range_from_entries_cached_def checked_logical_end_def checked_add_def)

lemma cached_fst:
  assumes "offset + len \<le> total" and "0 < len" and "chunk_index_for_logical_offset entries offset = Ok k"
  shows "fst (read_range_from_entries_cached entries total offset len c decode) =
     rbind (fst (read_range_loop (drop k entries) offset (offset + len) decode [] c)) (\<lambda>out.
     rbind (usize_to_u64 (length out)) (\<lambda>n. if n \<noteq> len then Err ContainerCorrupt else Ok out))"
  unfolding cached_unfold [OF assms] by (auto split: prod.splits sum.splits)

text \<open>The cache changes nothing but the work.\<close>

lemma cached_same:
  assumes "cache_valid decode entries c" and "cache_room entries c" and "offset < u64_end"
  shows "fst (read_range_from_entries_cached entries total offset len c decode) =
     read_range_from_entries entries total offset len decode"
proof -
  have fresh: "read_range_from_entries entries total offset len decode =
      fst (read_range_from_entries_cached entries total offset len ChunkDecodeCache_new decode)" for offset len
    by (cases "read_range_from_entries_cached entries total offset len ChunkDecodeCache_new decode";
        cases "fst (read_range_from_entries_cached entries total offset len ChunkDecodeCache_new decode)")
       (simp_all add: read_range_from_entries_def read_range_with_metrics_from_entries_def)
  show ?thesis
  proof (cases "offset + len \<le> total \<and> 0 < len")
    case False
    then show ?thesis unfolding fresh by (cases "offset + len \<le> total") (auto simp: no_loop)
  next
    case True
    then obtain k where k: "chunk_index_for_logical_offset entries offset = Ok k" using loop_entry by metis
    have ends: "\<forall>en \<in> set (drop k entries). logical_offset en + uncompressed_size en < u64_end"
      using chunk_ends total_width by (meson in_set_dropD le_less_trans)
    have "fst (read_range_loop (drop k entries) offset (offset + len) decode [] c) =
        fst (read_range_loop (drop k entries) offset (offset + len) decode [] ChunkDecodeCache_new)"
      using read_range_loop_ref [OF _ set_drop_subset ids_distinct room_drop ends assms(3)] assms(1,2)
        cache_valid_new room_new by metis
    then show ?thesis using True by (simp add: fresh cached_fst [OF _ _ k])
  qed
qed

lemma cached_spent:
  "spent_at_most (length entries) total (sum_list (map compressed_size entries)) c
     (snd (read_range_from_entries_cached entries total offset len c decode))"
proof (cases "offset + len \<le> total \<and> 0 < len")
  case False
  then show ?thesis by (cases "offset + len \<le> total") (simp_all add: no_loop)
next
  case True
  then obtain k where k: "chunk_index_for_logical_offset entries offset = Ok k" using loop_entry by metis
  have "spent_at_most (length entries) total (sum_list (map compressed_size entries)) c
      (snd (read_range_loop (drop k entries) offset (offset + len) decode [] c))"
    using read_range_loop_spent [of "drop k entries" c offset "offset + len" decode "[]"] total
      sum_drop_le [of uncompressed_size k entries] sum_drop_le [of compressed_size k entries]
      diff_le_self [of "length entries" k]
    unfolding spent_at_most_def length_drop by linarith
  then show ?thesis
    using True by (auto simp: cached_unfold [OF _ _ k] split: prod.splits sum.splits)
qed

lemma cached_reads_same:
  assumes "cache_valid decode entries c" and "\<forall>(offset, len) \<in> set qs. offset < u64_end"
    and "cc_decoded_chunks c + length qs * length entries < u64_end"
    and "cc_physical_decoded_bytes c + length qs * total < u64_end"
    and "cc_compressed_bytes c + length qs * sum_list (map compressed_size entries) < u64_end"
  shows "cached_reads (\<lambda>offset len c. read_range_from_entries_cached entries total offset len c decode) qs c =
     map (\<lambda>(offset, len). read_range_from_entries entries total offset len decode) qs"
  using assms
proof (induction qs arbitrary: c)
  case (Cons q qs)
  obtain offset len where q: "q = (offset, len)" by fastforce
  obtain r c1 where rd: "read_range_from_entries_cached entries total offset len c decode = (r, c1)" by fastforce
  have room: "cache_room entries c" using Cons.prems(3-5) total by (simp add: cache_room_def)
  have off: "offset < u64_end" using Cons.prems(2) q by simp
  have same: "r = read_range_from_entries entries total offset len decode" "cache_valid decode entries c1"
    using cached_same [OF Cons.prems(1) room off, of len] cached_range(2) [OF Cons.prems(1) room off, of len] rd by simp_all
  have spent: "spent_at_most (length entries) total (sum_list (map compressed_size entries)) c c1"
    using cached_spent [of c offset len] rd by simp
  show ?case
    using Cons.IH [OF same(2)] Cons.prems(2-5) spent same(1) rd q by (simp add: spent_at_most_def)
qed simp

text \<open>The metrics of a read that succeeds.\<close>

lemma metrics_exact:
  assumes "read_range_with_metrics_from_entries entries total offset len decode = Ok report" and "offset < u64_end"
  shows "rr_metrics report = \<lparr>rm_decoded_chunks = length (filter (meets offset len) entries),
     rm_decoded_bytes = sum_list (map uncompressed_size (filter (meets offset len) entries)),
     rm_compressed_bytes = sum_list (map compressed_size (filter (meets offset len) entries))\<rparr>"
proof -
  obtain out c where rd: "read_range_from_entries_cached entries total offset len ChunkDecodeCache_new decode = (Ok out, c)"
    and rep: "rr_metrics report = \<lparr>rm_decoded_chunks = cc_decoded_chunks c,
        rm_decoded_bytes = cc_physical_decoded_bytes c, rm_compressed_bytes = cc_compressed_bytes c\<rparr>"
    using assms(1) by (auto simp: read_range_with_metrics_from_entries_def rbind_Ok_iff split: prod.splits)
  have bounds: "offset + len \<le> total" using rd out_of_bounds [of offset len ChunkDecodeCache_new] by (cases "offset + len \<le> total") auto
  show ?thesis
  proof (cases "len = 0")
    case True
    then show ?thesis using rd rep bounds by (auto simp: no_loop meets_def ChunkDecodeCache_new_def)
  next
    case False
    then have len: "0 < len" by simp
    obtain k where k: "chunk_index_for_logical_offset entries offset = Ok k"
        "filter (meets offset len) entries = takeWhile (\<lambda>e. logical_offset e < offset + len) (drop k entries)"
      using loop_entry [OF bounds len] by metis
    obtain out1 where lp: "read_range_loop (drop k entries) offset (offset + len) decode [] ChunkDecodeCache_new = (Ok out1, c)"
      using rd unfolding cached_unfold [OF bounds len k(1)] by (auto split: prod.splits sum.splits)
    have "distinct (map chunk_id entries)" using distinct_entries ids_distinct by (simp add: distinct_map)
    then have ids: "distinct (map chunk_id (drop k entries))" by (simp add: drop_map [symmetric])
    have "\<forall>en \<in> set (drop k entries). cc_chunk_id ChunkDecodeCache_new \<noteq> Some (chunk_id en)"
      by (simp add: ChunkDecodeCache_new_def)
    from read_range_loop_work [OF lp ids this] show ?thesis
      by (simp add: rep k(2) Let_def ChunkDecodeCache_new_def)
  qed
qed

end

section \<open>The positioned reader\<close>

lemma accepts_cbor_Nil: "\<not> accepts_cbor limits []"
  unfolding accepts_cbor_def validate_deterministic_with_limits_def
  by (subst parse_value.simps) (auto simp: read_u8_def get_def rbind_Ok_iff result_simps is_ok_iff)

lemma opened_compressed:
  assumes "open_skeleton_details_with_limits X bs limits = Ok d"
  shows "sum_list (map compressed_size (sk_chunk_entries d)) \<le> length bs"
proof -
  obtain h t f m r ct es dicts dense docs where p: "container_parts X bs limits h t f m r ct es"
    and d: "d = skeleton_details h t f m r es dicts dense docs"
    using assms unfolding open_Ok_iff by blast
  have "\<forall>e \<in> set es. physical_offset e + compressed_size e \<le> length bs"
    using container_parts_ranges(1) [OF p] by fastforce
  then show ?thesis using separated_sum [OF container_parts_ranges(2) [OF p]] by (simp add: d skeleton_details_def)
qed

lemma opened_footer_offset:
  assumes "open_skeleton_details_with_limits X bs limits = Ok d"
  shows "192 \<le> length bs" and "sk_footer_payload_offset d \<le> length bs - 64"
proof -
  obtain h t f m r ct es dicts dense docs where p: "container_parts X bs limits h t f m r ct es"
    and d: "d = skeleton_details h t f m r es dicts dense docs"
    using assms unfolding open_Ok_iff by blast
  have n: "length bs < u64_end" "192 \<le> length bs" using p by (simp_all add: container_parts_def)
  show "192 \<le> length bs" by (rule n)
  have "validate_physical_ranges (length bs) (physical_ranges h t f r ct es) = Ok ()"
    using p by (simp add: container_parts_def)
  then have sep: "separated (PhysicalRange_new (footer_payload_offset t) (footer_payload_size t))
      (PhysicalRange_new (length bs - 64) 64)" "footer_payload_offset t + footer_payload_size t \<le> length bs"
    unfolding validate_physical_ranges_Ok_iff [OF n(1)] physical_ranges_def
    by (simp_all add: fixed_consts PhysicalRange_new_def)
  obtain fb where fb: "stored bs (footer_payload_offset t) (footer_payload_size t) fb" "accepts_cbor limits fb"
    using p unfolding container_parts_def by blast
  have "fb \<noteq> []" using fb(2) accepts_cbor_Nil by blast
  then have "0 < footer_payload_size t" using fb(1) by (cases "footer_payload_size t") (auto simp: stored_def)
  then have "footer_payload_offset t \<le> length bs - 64"
    using sep n(2) by (auto simp: separated_def PhysicalRange_new_def)
  then show "sk_footer_payload_offset d \<le> length bs - 64" by (simp add: d skeleton_details_def)
qed

text \<open>Reading and hashing through a source that keeps its promise.\<close>

context byte_source
begin

lemma read_physical_agrees:
  assumes "length contents < isize_end"
  shows "QztFileReader_read_physical \<lparr>fr_source = read_exact_at, fr_len = length contents, fr_details = d\<rparr> rng =
     QztReader_slice_physical \<lparr>qr_bytes = contents, qr_details = d\<rparr> rng"
proof (cases "pr_offset rng + pr_size rng \<le> length contents")
  case True
  then show ?thesis
    using assms isize_u64 [OF assms(1)] read_inside [of "pr_offset rng" "pr_size rng"]
    by (simp add: QztFileReader_read_physical_def QztReader_slice_physical_def checked_physical_end_def checked_add_def
        u64_to_usize_def get_slice_def)
next
  case False
  then show ?thesis
    by (auto simp: QztFileReader_read_physical_def QztReader_slice_physical_def checked_physical_end_def checked_add_def)
qed

lemma hash_physical_agrees:
  assumes "length contents < isize_end" and "blake3_documented X" and "start \<le> e" and "e \<le> length contents"
  shows "hash_physical_range X \<lparr>fr_source = read_exact_at, fr_len = length contents, fr_details = d\<rparr> start e =
     Ok (Checksum_blake3 X (slice contents start e))"
proof -
  obtain h where "hash_read_at_range X read_exact_at start (e - start) = Ok h"
      "hasher_finalize X h = blake3_hash X (slice contents start e)"
    using hash_range [OF assms(1,2), of start "e - start"] assms(3,4) by auto
  then show ?thesis
    using assms(3,4) by (simp add: hash_physical_range_def Checksum_from_hasher_def Checksum_blake3_def)
qed

lemma decode_agrees:
  assumes "length contents < isize_end"
  shows "QztFileReader_decode_entry X \<lparr>fr_source = read_exact_at, fr_len = length contents, fr_details = d\<rparr> =
     QztReader_decode_entry X \<lparr>qr_bytes = contents, qr_details = d\<rparr>"
  using read_physical_agrees [OF assms]
  by (intro ext) (simp add: QztFileReader_decode_entry_def QztReader_decode_entry_def)

lemma verify_normal_agrees:
  assumes "length contents < isize_end" and "blake3_documented X"
    and "open_skeleton_details_with_limits X contents limits = Ok d"
  shows "QztFileReader_verify_normal X \<lparr>fr_source = read_exact_at, fr_len = length contents, fr_details = d\<rparr> =
     QztReader_verify_normal X \<lparr>qr_bytes = contents, qr_details = d\<rparr>"
proof -
  let ?f = "\<lparr>fr_source = read_exact_at, fr_len = length contents, fr_details = d\<rparr>"
  let ?r = "\<lparr>qr_bytes = contents, qr_details = d\<rparr>"
  have u: "length contents < u64_end" by (rule isize_u64 [OF assms(1)])
  have entry: "rbind (checked_physical_end (physical_offset e) (compressed_size e)) (\<lambda>x.
        rbind (hash_physical_range X ?f (physical_offset e) x) (\<lambda>actual.
        if cs_value actual \<noteq> compressed_checksum_blake3 e then Err CompressedChunkChecksumMismatch else Ok ())) =
      rbind (QztReader_slice_physical ?r (PhysicalRange_new (physical_offset e) (compressed_size e))) (\<lambda>compressed.
        if cs_value (Checksum_blake3 X compressed) \<noteq> compressed_checksum_blake3 e
        then Err CompressedChunkChecksumMismatch else Ok ())"
    if "e \<in> set (sk_chunk_entries d)" for e
  proof -
    have "physical_offset e + compressed_size e \<le> length contents" using opened_facts(3) [OF assms(3)] that by fastforce
    then show ?thesis
      using u hash_physical_agrees [OF assms(1,2), of "physical_offset e" "physical_offset e + compressed_size e" d]
      by (simp add: QztReader_slice_physical_def checked_physical_end_def checked_add_def PhysicalRange_new_def get_slice_def)
  qed
  have prefix: "hash_physical_prefix X ?f (sk_footer_payload_offset d) =
      Ok (Checksum_blake3 X (slice contents 0 (sk_footer_payload_offset d)))"
    "get_slice contents 0 (sk_footer_payload_offset d) = Some (slice contents 0 (sk_footer_payload_offset d))"
    "sk_footer_payload_offset d < u64_end"
    using hash_physical_agrees [OF assms(1,2), of 0 "sk_footer_payload_offset d" d] opened_footer_offset [OF assms(3)] u
    by (simp_all add: hash_physical_prefix_def get_slice_def)
  show ?thesis
    using entry prefix
    by (simp add: QztFileReader_verify_normal_def QztReader_verify_normal_def cong: rfold_cong option.case_cong)
qed

lemma footer_checksum_agrees:
  assumes "length contents < isize_end" and "blake3_documented X"
    and "open_skeleton_details_with_limits X contents limits = Ok d"
  shows "QztFileReader_footer_checksum X \<lparr>fr_source = read_exact_at, fr_len = length contents, fr_details = d\<rparr> =
     QztReader_footer_checksum X \<lparr>qr_bytes = contents, qr_details = d\<rparr>"
proof -
  have "64 \<le> length contents" "sk_footer_payload_offset d \<le> length contents - 64" "length contents < u64_end"
    using opened_footer_offset [OF assms(3)] opened_layout(7) [OF assms(3)] by simp_all
  then show ?thesis
    using hash_physical_agrees [OF assms(1,2), of "sk_footer_payload_offset d" "length contents - 64" d]
    by (simp add: QztFileReader_footer_checksum_def QztReader_footer_checksum_def checked_sub_def FOOTER_TRAILER_LEN_def
        u64_to_usize_def get_slice_def)
qed

end

section \<open>Verified containers\<close>

text \<open>The reader of a container that opens and passes deep verification.\<close>

definition verified_reader :: "('h, 'x) ext_scheme \<Rightarrow> bytes \<Rightarrow> ResourceLimits \<Rightarrow> QztReader option" where
  "verified_reader X bs limits = (case opened_reader X bs limits of
     None \<Rightarrow> None | Some r \<Rightarrow> if blake3_documented X \<and> is_ok (QztReader_verify X r Deep) then Some r else None)"

definition opened_dense :: "QztReader option \<Rightarrow> DenseLineIndex option" where
  "opened_dense r = (case r of None \<Rightarrow> None | Some r \<Rightarrow> sk_dense_line_index (qr_details r))"

lemma verified_reader_Some:
  "verified_reader X bs limits = Some r \<longleftrightarrow>
     opened_reader X bs limits = Some r \<and> blake3_documented X \<and> is_ok (QztReader_verify X r Deep)"
  by (auto simp: verified_reader_def split: option.splits if_splits)

lemma verified_deep:
  assumes "verified_reader X bs limits = Some r"
  obtains report where "chunk_source (opened_entries (Some r)) (opened_decode X (Some r)) (opened_total (Some r))"
    and "QztReader_verify X r Deep = Ok report"
    and "verify_deep_entries X (qr_details r) (opened_decode X (Some r)) = Ok report" and "blake3_documented X"
proof -
  have o: "opened_reader X bs limits = Some r" "blake3_documented X" and v: "is_ok (QztReader_verify X r Deep)"
    using assms by (simp_all add: verified_reader_Some)
  have cs: "chunk_source (opened_entries (Some r)) (opened_decode X (Some r)) (opened_total (Some r))"
    using memory.chunk_source_axioms [of X bs limits] unfolding o(1) .
  have eq: "opened_decode X (Some r) = QztReader_decode_entry X r" by (intro ext) (simp add: opened_defs)
  from v obtain report where "QztReader_verify X r Deep = Ok report" by (auto simp: is_ok_iff)
  then show thesis
    using that [OF cs _ _ o(2)] by (auto simp: QztReader_verify_deep_def rbind_Ok_iff eq)
qed

interpretation verified: text_source "opened_entries (verified_reader X bs limits)"
    "opened_decode X (verified_reader X bs limits)" "opened_total (verified_reader X bs limits)"
    "opened_dense (verified_reader X bs limits)" for X bs limits
proof (cases "verified_reader X bs limits")
  case None
  then show "text_source (opened_entries (verified_reader X bs limits)) (opened_decode X (verified_reader X bs limits))
      (opened_total (verified_reader X bs limits)) (opened_dense (verified_reader X bs limits))"
    by unfold_locales (simp_all add: opened_defs opened_dense_def chunk_layout_def u64_end_def)
next
  case (Some r)
  obtain report where v: "chunk_source (opened_entries (Some r)) (opened_decode X (Some r)) (opened_total (Some r))"
      "verify_deep_entries X (qr_details r) (opened_decode X (Some r)) = Ok report" "blake3_documented X"
    using verified_deep [OF Some] by metis
  from chunk_source.deep_sound(1) [OF v(1) _ _ v(3,2)]
  show "text_source (opened_entries (verified_reader X bs limits)) (opened_decode X (verified_reader X bs limits))
      (opened_total (verified_reader X bs limits)) (opened_dense (verified_reader X bs limits))"
    by (simp add: Some opened_defs opened_dense_def)
qed

text \<open>The lines of a text, one after the other, are the text.\<close>

lemma through_lf_split:
  assumes "data \<noteq> []"
  obtains l rest where "data = l @ rest" and "l = through_lf data" and "l \<noteq> []"
    and "line_starts data = 0 # map (\<lambda>i. i + length l) (line_starts rest)"
proof -
  define l where "l = through_lf data"
  define rest where "rest = drop (length l) data"
  have tw: "data = takeWhile (\<lambda>b. b \<noteq> LF) data @ dropWhile (\<lambda>b. b \<noteq> LF) data" by simp
  have split: "data = l @ rest \<and> l \<noteq> [] \<and> (\<forall>i < length l. l ! i = LF \<longleftrightarrow> rest \<noteq> [] \<and> i = length l - 1 \<or> LF \<in> set data \<and> i = length l - 1)"
  proof (cases "LF \<in> set data")
    case False
    then have "l = data" by (simp add: l_def through_lf_all)
    then show ?thesis using False assms by (auto simp: rest_def dest: nth_mem)
  next
    case True
    then obtain ys zs where d: "data = ys @ LF # zs" "LF \<notin> set ys" by (meson split_list_first)
    then have "takeWhile (\<lambda>b. b \<noteq> LF) data = ys" by (auto simp: takeWhile_append)
    then have l: "l = ys @ [LF]" using True by (simp add: l_def through_lf_def)
    then show ?thesis using d True by (auto simp: rest_def nth_append dest: nth_mem)
  qed
  have first: "filter (is_line_start data) [0 ..< length l] = [0]"
  proof -
    have "is_line_start data i \<longleftrightarrow> i = 0" if "i < length l" for i
    proof (cases i)
      case (Suc j)
      then have "data ! j = l ! j" "l ! j \<noteq> LF" using split that by (auto simp: nth_append)
      then show ?thesis using Suc by (simp add: is_line_start_def)
    qed (simp add: is_line_start_def)
    then have "filter (is_line_start data) [0 ..< length l] = filter (\<lambda>i. i = 0) [0 ..< length l]"
      by (intro filter_cong) auto
    also have "\<dots> = [0]" using split by (simp add: upt_conv_Cons filter_empty_conv)
    finally show ?thesis .
  qed
  have later: "is_line_start data (i + length l) \<longleftrightarrow> is_line_start rest i" if "i < length rest" for i
  proof (cases i)
    case 0
    have "rest \<noteq> []" using that by auto
    then have "data ! (length l - 1) = LF" using split by (metis diff_less length_greater_0_conv nth_append zero_less_one)
    then show ?thesis using 0 by (simp add: is_line_start_def)
  next
    case (Suc j)
    then show ?thesis using split by (auto simp: is_line_start_def nth_append)
  qed
  have "[0 ..< length data] = [0 ..< length l] @ map (\<lambda>i. i + length l) [0 ..< length rest]"
    using split upt_add_eq_append [of 0 "length l" "length rest"] by (simp add: map_add_upt add.commute)
  then have "line_starts data = filter (is_line_start data) [0 ..< length l] @
      map (\<lambda>i. i + length l) (filter (\<lambda>i. is_line_start data (i + length l)) [0 ..< length rest])"
    by (simp add: line_starts_def filter_map comp_def)
  also have "filter (\<lambda>i. is_line_start data (i + length l)) [0 ..< length rest] = line_starts rest"
    unfolding line_starts_def using later by (intro filter_cong) auto
  finally have "line_starts data = 0 # map (\<lambda>i. i + length l) (line_starts rest)"
    unfolding first append_Cons append_Nil .
  with split l_def show thesis using that by blast
qed

lemma lines_concat: "concat (map (nth_line data) [0 ..< length (line_starts data)]) = data"
proof (induction "length data" arbitrary: data rule: less_induct)
  case less
  show ?case
  proof (cases "data = []")
    case False
    obtain l rest where d: "data = l @ rest" "l = through_lf data" "l \<noteq> []"
        "line_starts data = 0 # map (\<lambda>i. i + length l) (line_starts rest)"
      using through_lf_split [OF False] by metis
    have "nth_line data (Suc n) = nth_line rest n" if "n < length (line_starts rest)" for n
      using that by (simp add: nth_line_def d(4)) (simp add: d(1))
    then have "map (nth_line data) (map Suc [0 ..< length (line_starts rest)]) = map (nth_line rest) [0 ..< length (line_starts rest)]"
      by simp
    moreover have "nth_line data 0 = l" using d(2) by (simp add: nth_line_def d(4))
    moreover have "[0 ..< length (line_starts data)] = 0 # map Suc [0 ..< length (line_starts rest)]"
      by (simp add: d(4) upt_conv_Cons map_Suc_upt del: upt_Suc)
    ultimately have "concat (map (nth_line data) [0 ..< length (line_starts data)]) =
        l @ concat (map (nth_line rest) [0 ..< length (line_starts rest)])"
      by (simp only: list.map concat.simps)
    then show ?thesis using less [of rest] d(1,3) by simp
  qed (simp add: line_starts_def)
qed

section \<open>Properties\<close>

lemma open_reader_conv:
  "QztReader_open_with_limits X bs limits = Ok r \<longleftrightarrow> opened_reader X bs limits = Some r"
  by (auto simp: opened_reader_def split: sum.splits)

lemma QztReader_info_sizes [simp]:
  "info_original_size (QztReader_info r) = ss_original_size (sk_summary (qr_details r))"
  "info_line_count (QztReader_info r) = ss_line_count (sk_summary (qr_details r))"
  "info_chunk_count (QztReader_info r) = ss_chunk_count (sk_summary (qr_details r))"
  by (simp_all add: QztReader_info_def Let_def)

lemma opened_Some_defs:
  "opened_entries (Some r) = sk_chunk_entries (qr_details r)" "opened_decode X (Some r) = QztReader_decode_entry X r"
  "opened_total (Some r) = ss_original_size (sk_summary (qr_details r))"
  "opened_dense (Some r) = sk_dense_line_index (qr_details r)"
  by (auto simp: opened_defs opened_dense_def intro!: ext)

lemma export_all_Ok_iff:
  assumes "QztReader_open_with_limits X bs limits = Ok r"
  shows "QztReader_export_all X r = Ok data \<longleftrightarrow>
     (\<forall>e \<in> set (sk_chunk_entries (qr_details r)). is_ok (QztReader_decode_entry X r e)) \<and>
     data = restored_bytes (QztReader_decode_entry X r) (sk_chunk_entries (qr_details r))"
proof -
  have o: "opened_reader X bs limits = Some r" using assms by (simp add: open_reader_conv)
  note ex = memory.export_exact(1) [of X bs limits, unfolded o opened_Some_defs]
    memory.export_exact(2) [of X bs limits, unfolded o opened_Some_defs]
  obtain res out where e: "export_loop (QztReader_decode_entry X r) vec_write_all (sk_chunk_entries (qr_details r)) [] = (res, out)"
    by fastforce
  have "QztReader_export_all X r = rbind res (\<lambda>_. Ok out)"
    by (simp add: QztReader_export_all_def QztReader_export_to_def e)
  then show ?thesis using ex(1) [OF e] ex(2) [of out] e by (cases res) auto
qed

lemma read_range_exact_iff:
  assumes "QztReader_open_with_limits X bs limits = Ok r" and "offset < u64_end"
  shows "QztReader_read_range X r offset len = Ok out \<longleftrightarrow>
       offset + len \<le> ss_original_size (sk_summary (qr_details r)) \<and>
       (\<forall>e \<in> set (sk_chunk_entries (qr_details r)). meets offset len e \<longrightarrow> is_ok (QztReader_decode_entry X r e)) \<and>
       out = slice (restored_bytes (QztReader_decode_entry X r) (sk_chunk_entries (qr_details r))) offset (offset + len)"
    and "ss_original_size (sk_summary (qr_details r)) < offset + len \<Longrightarrow>
       QztReader_read_range X r offset len = Err LogicalRangeOutOfBounds"
proof -
  have o: "opened_reader X bs limits = Some r" using assms(1) by (simp add: open_reader_conv)
  show "QztReader_read_range X r offset len = Ok out \<longleftrightarrow>
       offset + len \<le> ss_original_size (sk_summary (qr_details r)) \<and>
       (\<forall>e \<in> set (sk_chunk_entries (qr_details r)). meets offset len e \<longrightarrow> is_ok (QztReader_decode_entry X r e)) \<and>
       out = slice (restored_bytes (QztReader_decode_entry X r) (sk_chunk_entries (qr_details r))) offset (offset + len)"
    using memory.range_exact [of offset X bs limits, unfolded o opened_Some_defs] assms(2)
    by (simp add: QztReader_read_range_def)
  assume "ss_original_size (sk_summary (qr_details r)) < offset + len"
  then show "QztReader_read_range X r offset len = Err LogicalRangeOutOfBounds"
    using memory.out_of_bounds [of X bs limits, unfolded o opened_Some_defs]
    by (simp add: QztReader_read_range_def read_range_from_entries_def read_range_with_metrics_from_entries_def)
qed

text \<open>
  C13: random access agrees with a full export, and damage stays local. A range read succeeds
  exactly when the range lies inside the original bytes and every chunk that shares a byte
  with it decodes; it then returns that range of the restored bytes, whatever the state of
  the other chunks. A range outside is an out-of-bounds error, without wrap-around at 64 bits.
  When a full export succeeds, it is the restored bytes.
\<close>

theorem read_range_exact:
  assumes "QztReader_open_with_limits X bs limits = Ok r" and "offset < 2 ^ 64"
  shows "let whole = restored_bytes (QztReader_decode_entry X r) (sk_chunk_entries (qr_details r)) in
     (QztReader_read_range X r offset len = Ok out \<longleftrightarrow>
       offset + len \<le> info_original_size (QztReader_info r) \<and>
       (\<forall>e \<in> set (sk_chunk_entries (qr_details r)). meets offset len e \<longrightarrow> is_ok (QztReader_decode_entry X r e)) \<and>
       out = slice whole offset (offset + len)) \<and>
     (info_original_size (QztReader_info r) < offset + len \<longrightarrow>
       QztReader_read_range X r offset len = Err LogicalRangeOutOfBounds) \<and>
     (QztReader_export_all X r = Ok data \<longrightarrow> data = whole \<and> length data = info_original_size (QztReader_info r))"
proof -
  have off: "offset < u64_end" using assms(2) by (simp add: u64_end_def)
  have "length (restored_bytes (QztReader_decode_entry X r) (sk_chunk_entries (qr_details r))) =
      info_original_size (QztReader_info r)"
    using memory.restored_total [of X bs limits] assms(1) by (simp add: open_reader_conv opened_Some_defs)
  then show ?thesis
    using read_range_exact_iff [OF assms(1) off] export_all_Ok_iff [OF assms(1)] by (auto simp: Let_def)
qed

text \<open>
  C18: the decode cache changes nothing but the work. Any sequence of range reads through one
  cache, started empty, returns result by result what the reads return without a cache, errors
  included, as long as the totals fit the cache's 64-bit counters.
\<close>

theorem cached_reads_equal:
  assumes "QztReader_open_with_limits X bs limits = Ok r" and "\<forall>(offset, len) \<in> set qs. offset < 2 ^ 64"
    and "length qs * length bs < 2 ^ 64" and "length qs * info_original_size (QztReader_info r) < 2 ^ 64"
  shows "cached_reads (QztReader_read_range_cached X r) qs ChunkDecodeCache_new =
     map (\<lambda>(offset, len). QztReader_read_range X r offset len) qs"
proof -
  have o: "opened_reader X bs limits = Some r" using assms(1) by (simp add: open_reader_conv)
  obtain d where d: "open_skeleton_details_with_limits X bs limits = Ok d" "qr_details r = d"
    using o by (auto simp: opened_reader_Some)
  have "length (sk_chunk_entries d) \<le> ss_original_size (sk_summary d)"
    using memory.entries_le_total [of X bs limits, unfolded o opened_Some_defs] d(2) by simp
  then have n: "length qs * length (sk_chunk_entries d) < u64_end"
    using assms(4) d(2) by (simp add: u64_end_def) (meson le_less_trans mult_le_mono2)
  have "sum_list (map compressed_size (sk_chunk_entries d)) \<le> length bs"
    using opened_compressed [OF d(1)] .
  then have z: "length qs * sum_list (map compressed_size (sk_chunk_entries d)) < u64_end"
    using assms(3) by (simp add: u64_end_def) (meson le_less_trans mult_le_mono2)
  have q: "\<forall>(offset, len) \<in> set qs. offset < u64_end" using assms(2) by (simp add: u64_end_def)
  have fn: "QztReader_read_range_cached X r = (\<lambda>offset len c. read_range_from_entries_cached (sk_chunk_entries d)
      (ss_original_size (sk_summary d)) offset len c (QztReader_decode_entry X r))"
    by (intro ext) (simp add: QztReader_read_range_cached_def d(2))
  have "cached_reads (\<lambda>offset len c. read_range_from_entries_cached (sk_chunk_entries d)
        (ss_original_size (sk_summary d)) offset len c (QztReader_decode_entry X r)) qs ChunkDecodeCache_new =
      map (\<lambda>(offset, len). read_range_from_entries (sk_chunk_entries d) (ss_original_size (sk_summary d)) offset len
        (QztReader_decode_entry X r)) qs"
    by (rule memory.cached_reads_same [of X bs limits, unfolded o opened_Some_defs d(2), OF cache_valid_new q])
       (use n z assms(4) d(2) in \<open>simp_all add: ChunkDecodeCache_new_def u64_end_def\<close>)
  then show ?thesis by (simp add: fn QztReader_read_range_def d(2))
qed

text \<open>
  C40: the metrics of a range read are exact. When a read with metrics succeeds, its bytes are
  those of the plain read, and the counters are the number, the uncompressed and the compressed
  bytes of exactly the chunks that share a byte with the range: no chunk is decoded twice and
  none outside the range is touched.
\<close>

theorem read_range_metrics_exact:
  assumes "QztReader_open_with_limits X bs limits = Ok r" and "offset < 2 ^ 64"
    and "QztReader_read_range_with_metrics X r offset len = Ok report"
  shows "let used = filter (meets offset len) (sk_chunk_entries (qr_details r)) in
     QztReader_read_range X r offset len = Ok (rr_bytes report) \<and>
     rr_metrics report = \<lparr>rm_decoded_chunks = length used, rm_decoded_bytes = sum_list (map uncompressed_size used),
       rm_compressed_bytes = sum_list (map compressed_size used)\<rparr>"
proof -
  have o: "opened_reader X bs limits = Some r" using assms(1) by (simp add: open_reader_conv)
  show ?thesis
    using memory.metrics_exact [of X bs limits, unfolded o opened_Some_defs] assms(2,3)
    by (simp add: QztReader_read_range_with_metrics_def QztReader_read_range_def read_range_from_entries_def Let_def u64_end_def)
qed

lemma verified_facts:
  assumes "QztReader_open_with_limits X bs limits = Ok r" and "blake3_documented X"
    and "QztReader_verify X r Deep = Ok report"
  shows "verified_reader X bs limits = Some r"
    and "QztReader_export_all X r = Ok (restored_bytes (QztReader_decode_entry X r) (sk_chunk_entries (qr_details r)))"
    and "sk_document_lookup (qr_details r) = build_document_lookup (sk_document_index (qr_details r))"
    and "ss_line_count (sk_summary (qr_details r)) =
       length (line_starts (restored_bytes (QztReader_decode_entry X r) (sk_chunk_entries (qr_details r))))"
proof -
  have o: "opened_reader X bs limits = Some r" using assms(1) by (simp add: open_reader_conv)
  show v: "verified_reader X bs limits = Some r" using o assms(2,3) by (simp add: verified_reader_Some is_ok_iff)
  show "QztReader_export_all X r = Ok (restored_bytes (QztReader_decode_entry X r) (sk_chunk_entries (qr_details r)))"
    using verified.all_decode [of _ X bs limits, unfolded v opened_Some_defs] by (simp add: export_all_Ok_iff [OF assms(1)])
  obtain d where d: "open_skeleton_details_with_limits X bs limits = Ok d" "qr_details r = d"
    using o by (auto simp: opened_reader_Some)
  show "sk_document_lookup (qr_details r) = build_document_lookup (sk_document_index (qr_details r))"
    using d unfolding open_Ok_iff by (auto simp: skeleton_details_def)
  show "ss_line_count (sk_summary (qr_details r)) =
       length (line_starts (restored_bytes (QztReader_decode_entry X r) (sk_chunk_entries (qr_details r))))"
    using verified.line_total [of X bs limits, unfolded v opened_Some_defs] opened_layout(6) [OF d(1)] d(2)
      verified.text_length [of X bs limits, unfolded v opened_Some_defs]
    by (simp add: lines_in_whole)
qed

text \<open>
  C3: deep verification is sound. When it succeeds, a full export succeeds, and the exported
  bytes are valid UTF-8, have the size, the line count, the newline mode and the BLAKE3
  checksum the container records; every document entry names a range inside them, with the
  checksum and the name hash it records; and the report counts every byte.
\<close>

theorem verify_deep_sound:
  assumes "QztReader_open_with_limits X bs limits = Ok r" and "blake3_documented X"
    and "QztReader_verify X r Deep = Ok report"
  shows "\<exists>data. QztReader_export_all X r = Ok data \<and> valid_utf8 data \<and>
     length data = info_original_size (QztReader_info r) \<and>
     length (line_starts data) = info_line_count (QztReader_info r) \<and>
     NewlineMode_as_str (li_newline_mode (LineInfo_from_bytes data)) = md_newline_mode (sk_metadata (qr_details r)) \<and>
     Checksum_blake3 X data = md_original_checksum (sk_metadata (qr_details r)) \<and>
     (\<forall>di. sk_document_index (qr_details r) = Some di \<longrightarrow> (\<forall>d \<in> set (di_documents di). document_matches X data d)) \<and>
     report = report_for_level (qr_details r) Deep (length data)"
proof -
  note f = verified_facts [OF assms]
  obtain rep where v: "chunk_source (opened_entries (Some r)) (opened_decode X (Some r)) (opened_total (Some r))"
      "QztReader_verify X r Deep = Ok rep" "verify_deep_entries X (qr_details r) (opened_decode X (Some r)) = Ok rep"
    using verified_deep [OF f(1)] by metis
  note deep = chunk_source.deep_sound [OF v(1) _ _ assms(2) v(3), unfolded opened_Some_defs, OF refl refl]
  have "length (restored_bytes (QztReader_decode_entry X r) (sk_chunk_entries (qr_details r))) =
      ss_original_size (sk_summary (qr_details r))"
    using verified.text_length [of X bs limits, unfolded f(1) opened_Some_defs] .
  moreover have "rep = report" using v(2) assms(3) by simp
  ultimately show ?thesis
    using f(2,4) deep(2,3,5,6,7)
    by (intro exI [of _ "restored_bytes (QztReader_decode_entry X r) (sk_chunk_entries (qr_details r))"]) simp
qed

lemma verify_deep_matches:
  assumes "QztReader_open_with_limits X bs limits = Ok r" and "blake3_documented X"
    and "QztReader_verify X r Deep = Ok report" and "QztReader_export_all X r = Ok data"
    and "sk_document_index (qr_details r) = Some di"
  shows "\<forall>d \<in> set (di_documents di). document_matches X data d"
proof -
  note f = verified_facts [OF assms(1-3)]
  obtain rep where v: "chunk_source (opened_entries (Some r)) (opened_decode X (Some r)) (opened_total (Some r))"
      "verify_deep_entries X (qr_details r) (opened_decode X (Some r)) = Ok rep"
    using verified_deep [OF f(1)] by metis
  from chunk_source.deep_sound(6) [OF v(1) _ _ assms(2) v(2), unfolded opened_Some_defs, OF refl refl] f(2) assms(4,5)
  show ?thesis by simp
qed

text \<open>
  C5: reading by line number, a refinement of the lines of the text. On a container that
  passes deep verification, reading a line returns the line of the exported text with that
  number, found through the chunk table and the dense line index or by scanning a chunk and
  joined across chunk boundaries; a number past the last line is an error; and the lines in
  order are the whole text.
\<close>

theorem read_line_refines_text:
  assumes "QztReader_open_with_limits X bs limits = Ok r" and "blake3_documented X"
    and "QztReader_verify X r Deep = Ok report" and "QztReader_export_all X r = Ok data"
  shows "(\<forall>n. QztReader_read_line_raw X r n =
       (if n < info_line_count (QztReader_info r) then Ok (nth_line data n) else Err LineOutOfRange)) \<and>
     concat (map (nth_line data) [0 ..< info_line_count (QztReader_info r)]) = data"
proof -
  note f = verified_facts [OF assms(1-3)]
  have data: "data = restored_bytes (QztReader_decode_entry X r) (sk_chunk_entries (qr_details r))"
    using f(2) assms(4) by simp
  have lc: "ss_line_count (sk_summary (qr_details r)) = lines_in data 0 (ss_original_size (sk_summary (qr_details r)))"
    using f(4) verified.text_length [of X bs limits, unfolded f(1) opened_Some_defs]
    by (simp add: data lines_in_whole)
  have "QztReader_read_line_raw X r n = (if n < length (line_starts data) then Ok (nth_line data n) else Err LineOutOfRange)" for n
    using verified.read_line_exact [of "qr_details r" X bs limits n, unfolded f(1) opened_Some_defs] lc
    by (simp add: QztReader_read_line_raw_def data)
  then show ?thesis using f(4) data lines_concat [of data] by simp
qed

lemma find_document_entry:
  assumes "sk_document_lookup d = build_document_lookup (sk_document_index d)" and "sk_document_index d = Some di"
    and "distinct (map doc_id (di_documents di))"
  shows "e \<in> set (di_documents di) \<Longrightarrow> find_document d (doc_id e) = Ok e"
    and "key \<notin> doc_id ` set (di_documents di) \<Longrightarrow> find_document d key = Err DocumentNotFound"
proof -
  have lk: "build_document_lookup (Some di) k = Some i \<longleftrightarrow>
      i < length (di_documents di) \<and> doc_id (di_documents di ! i) = k \<and> (\<forall>j < i. doc_id (di_documents di ! j) \<noteq> k)" for k i
    using lookup_first [of di k i] .
  show "find_document d (doc_id e) = Ok e" if e: "e \<in> set (di_documents di)"
  proof -
    obtain i where i: "i < length (di_documents di)" "e = di_documents di ! i" using e by (metis in_set_conv_nth)
    then have "build_document_lookup (Some di) (doc_id e) = Some i"
      unfolding lk using assms(3) by (auto simp: distinct_conv_nth)
    then show ?thesis using i assms(1,2) by (simp add: find_document_def get_def)
  qed
  show "find_document d key = Err DocumentNotFound" if "key \<notin> doc_id ` set (di_documents di)"
  proof -
    have "build_document_lookup (Some di) key = None"
      using that lk [of key] by (metis image_eqI not_None_eq nth_mem)
    then show ?thesis using assms(1,2) by (simp add: find_document_def)
  qed
qed

text \<open>
  C19: documents by name. On a container that passes deep verification, reading a document by
  its name returns the range of the exported text its entry records. The verified read returns
  the same bytes when the expected checksum is the one of the entry, and otherwise reports a
  corrupt container for an algorithm other than BLAKE3 and a mismatch for another BLAKE3 value.
  A name the index does not have is reported as such, and so is a missing index.
\<close>

theorem read_document_exact:
  assumes "QztReader_open_with_limits X bs limits = Ok r" and "blake3_documented X"
    and "QztReader_verify X r Deep = Ok report" and "QztReader_export_all X r = Ok data"
  shows "case sk_document_index (qr_details r) of
     None \<Rightarrow> QztReader_read_document X r key = Err MissingRequiredBlock
   | Some di \<Rightarrow>
       (\<forall>e \<in> set (di_documents di).
         QztReader_read_document X r (doc_id e) =
           Ok (slice data (doc_logical_offset e) (doc_logical_offset e + doc_byte_length e)) \<and>
         (\<forall>expected. QztReader_read_document_verified X r (doc_id e) expected =
            (if expected = doc_checksum e
             then Ok (slice data (doc_logical_offset e) (doc_logical_offset e + doc_byte_length e))
             else if cs_algorithm expected = ''blake3'' then Err VerifiedChecksumMismatch
             else Err ContainerCorrupt))) \<and>
       (key \<notin> doc_id ` set (di_documents di) \<longrightarrow> QztReader_read_document X r key = Err DocumentNotFound)"
proof (cases "sk_document_index (qr_details r)")
  case None
  then show ?thesis by (simp add: QztReader_read_document_def find_document_def)
next
  case (Some di)
  note f = verified_facts [OF assms(1-3)]
  obtain d where d: "open_skeleton_details_with_limits X bs limits = Ok d" "qr_details r = d"
    using f(1) by (auto simp: verified_reader_Some opened_reader_Some)
  have dist: "distinct (map doc_id (di_documents di))" using opened_facts(9) [OF d(1)] Some d(2) by simp
  note find = find_document_entry [OF f(3) Some dist]
  have match: "document_matches X data e" if "e \<in> set (di_documents di)" for e
    using verify_deep_matches [OF assms Some] that by blast
  have size: "length data = ss_original_size (sk_summary (qr_details r))"
    and whole: "data = restored_bytes (QztReader_decode_entry X r) (sk_chunk_entries (qr_details r))"
    using f(2) assms(4) verified.text_length [of X bs limits, unfolded f(1) opened_Some_defs] by simp_all
  have rd: "QztReader_read_document X r (doc_id e) =
      Ok (slice data (doc_logical_offset e) (doc_logical_offset e + doc_byte_length e))"
    if e: "e \<in> set (di_documents di)" for e
  proof -
    have b: "doc_logical_offset e + doc_byte_length e \<le> ss_original_size (sk_summary (qr_details r))"
      using match [OF e] size by (simp add: document_matches_def)
    then have "doc_logical_offset e < u64_end" using opened_layout(3) [OF d(1)] d(2) by simp
    with b show ?thesis
      using find(1) [OF e] read_range_exact_iff(1) [OF assms(1)] whole
        verified.all_decode [of _ X bs limits, unfolded f(1) opened_Some_defs]
      by (simp add: QztReader_read_document_def)
  qed
  have "QztReader_read_document_verified X r (doc_id e) expected =
      (if expected = doc_checksum e
       then Ok (slice data (doc_logical_offset e) (doc_logical_offset e + doc_byte_length e))
       else if cs_algorithm expected = ''blake3'' then Err VerifiedChecksumMismatch else Err ContainerCorrupt)"
    if "e \<in> set (di_documents di)" for e expected
    using rd [OF that] match [OF that]
    by (auto simp: QztReader_read_document_verified_def verify_expected_checksum_def document_matches_def
        Checksum_blake3_def CHECKSUM_ALGORITHM_BLAKE3_def)
  then show ?thesis using rd find(2) Some by (auto simp: QztReader_read_document_def)
qed

text \<open>
  C12: the positioned reader is the in-memory reader. Over a file whose positioned reads may be
  short, opening fails with the same error or succeeds with the same details, and then every
  operation (information, export to any output, range reads plain, cached, with metrics, as
  text and verified, documents, lines, verification at every level, the footer checksum)
  returns what the reader of the same bytes in memory returns.
\<close>

theorem file_reader_equals_reader:
  assumes "positioned_reads read_at contents" and "length contents < 2 ^ 63" and "blake3_documented X"
  shows "case QztReader_open_with_limits X contents limits of
     Inl err \<Rightarrow> QztFileReader_open_read_at_with_limits X (file_read_exact_at read_at) (length contents) limits = Err err
   | Inr r \<Rightarrow> (\<exists>f. QztFileReader_open_read_at_with_limits X (file_read_exact_at read_at) (length contents) limits = Ok f \<and>
       QztFileReader_info f = QztReader_info r \<and>
       QztFileReader_export_to X f write_all w = QztReader_export_to X r write_all w \<and>
       QztFileReader_export_all X f = QztReader_export_all X r \<and>
       QztFileReader_read_range X f offset len = QztReader_read_range X r offset len \<and>
       QztFileReader_read_range_with_metrics X f offset len = QztReader_read_range_with_metrics X r offset len \<and>
       QztFileReader_read_range_cached X f offset len cache = QztReader_read_range_cached X r offset len cache \<and>
       QztFileReader_read_text_range X f offset len = QztReader_read_text_range X r offset len \<and>
       QztFileReader_read_range_verified X f offset len expected = QztReader_read_range_verified X r offset len expected \<and>
       QztFileReader_read_document X f key = QztReader_read_document X r key \<and>
       QztFileReader_read_document_verified X f key expected = QztReader_read_document_verified X r key expected \<and>
       QztFileReader_read_line_raw X f n = QztReader_read_line_raw X r n \<and>
       QztFileReader_read_line_text X f n = QztReader_read_line_text X r n \<and>
       QztFileReader_verify X f level = QztReader_verify X r level \<and>
       QztFileReader_footer_checksum X f = QztReader_footer_checksum X r)"
proof (cases "open_skeleton_details_with_limits X contents limits")
  have l: "length contents < isize_end" using assms(2) by (simp add: isize_end_def)
  note src = file_byte_source [OF assms(1)]
  note op = byte_source.open_read_at [OF src l, of X limits]
  {
    case (Inl err)
    then show ?thesis by (simp add: QztReader_open_with_limits_def QztFileReader_open_read_at_with_limits_def op)
  next
    case (Inr d)
    let ?f = "\<lparr>fr_source = file_read_exact_at read_at, fr_len = length contents, fr_details = d\<rparr>"
    let ?r = "\<lparr>qr_bytes = contents, qr_details = d\<rparr>"
    note dec = byte_source.decode_agrees [OF src l, of X d]
    have ver: "QztFileReader_verify_normal X ?f = QztReader_verify_normal X ?r"
      by (rule byte_source.verify_normal_agrees [OF src l assms(3) Inr])
    have "QztFileReader_verify X ?f level = QztReader_verify X ?r level"
      by (cases level) (simp_all add: ver QztFileReader_verify_deep_def QztReader_verify_deep_def dec)
    moreover have "QztFileReader_footer_checksum X ?f = QztReader_footer_checksum X ?r"
      by (rule byte_source.footer_checksum_agrees [OF src l assms(3) Inr])
    moreover have rd: "QztFileReader_read_range X ?f = QztReader_read_range X ?r"
      by (intro ext) (simp add: QztFileReader_read_range_def QztReader_read_range_def dec)
    moreover have "QztFileReader_export_to X ?f write_all w = QztReader_export_to X ?r write_all w"
      by (simp add: QztFileReader_export_to_def QztReader_export_to_def dec)
    moreover have "QztFileReader_export_all X ?f = QztReader_export_all X ?r"
      by (simp add: QztFileReader_export_all_def QztReader_export_all_def QztFileReader_export_to_def
          QztReader_export_to_def dec)
    moreover have doc: "QztFileReader_read_document X ?f key = QztReader_read_document X ?r key"
      by (simp add: QztFileReader_read_document_def QztReader_read_document_def rd)
    moreover have line: "QztFileReader_read_line_raw X ?f n = QztReader_read_line_raw X ?r n"
      by (simp add: QztFileReader_read_line_raw_def QztReader_read_line_raw_def dec)
    ultimately show ?thesis
      by (simp add: Inr QztReader_open_with_limits_def QztFileReader_open_read_at_with_limits_def op
          QztFileReader_info_def QztReader_info_def QztFileReader_read_range_with_metrics_def
          QztReader_read_range_with_metrics_def QztFileReader_read_range_cached_def QztReader_read_range_cached_def
          QztFileReader_read_text_range_def QztReader_read_text_range_def QztFileReader_read_range_verified_def
          QztReader_read_range_verified_def QztFileReader_read_document_verified_def QztReader_read_document_verified_def
          QztFileReader_read_line_text_def QztReader_read_line_text_def dec)
  }
qed

end
