(* ===== verification/Writer.thy ===== *)
theory Writer
  imports Reader_Access
begin

text \<open>
  Writing a container in memory (src/src/writer.rs): the options and their validation, the
  builder, the packing of an input into chunks, the generation and check of a document index,
  and the assembly of the container. The streaming writer is in \<open>Stream_Writer\<close>. An index into
  a list past its end would panic in the source; every such access below is inside the list.
\<close>

section \<open>Options\<close>

record DocumentSpan =
  span_doc_id :: string
  span_logical_offset :: u64
  span_byte_length :: u64

definition DocumentSpan_new :: "string \<Rightarrow> u64 \<Rightarrow> u64 \<Rightarrow> DocumentSpan" where
  "DocumentSpan_new did off len = \<lparr>span_doc_id = did, span_logical_offset = off, span_byte_length = len\<rparr>"

record WriterOptions =
  wo_chunker :: ChunkerOptions
  wo_zstd_level :: i32

definition WriterOptions_default :: WriterOptions where
  "WriterOptions_default =
     \<lparr>wo_chunker = \<lparr>target_chunk_size = 4 * 1024 * 1024, max_chunk_size = 16 * 1024 * 1024\<rparr>, wo_zstd_level = 0\<rparr>"

definition validate_writer_options_with_limits :: "WriterOptions \<Rightarrow> ResourceLimits \<Rightarrow> unit result" where
  "validate_writer_options_with_limits options limits =
     rbind (ChunkerOptions_validate (wo_chunker options)) (\<lambda>_.
     rbind (usize_to_u64 (max_chunk_size (wo_chunker options))) (\<lambda>n.
     enforce_chunk_sizes limits 0 n))"

definition validate_writer_options :: "WriterOptions \<Rightarrow> unit result" where
  "validate_writer_options options = validate_writer_options_with_limits options ResourceLimits_default"

definition check_chunk_table_size_with_limits :: "usize \<Rightarrow> ResourceLimits \<Rightarrow> unit result" where
  "check_chunk_table_size_with_limits entry_count limits = enforce_chunk_table_entries limits entry_count"

definition check_chunk_table_size :: "usize \<Rightarrow> unit result" where
  "check_chunk_table_size entry_count = check_chunk_table_size_with_limits entry_count ResourceLimits_default"

definition check_writer_cbor_block_with_limits :: "bytes \<Rightarrow> ResourceLimits \<Rightarrow> unit result" where
  "check_writer_cbor_block_with_limits bs limits =
     rbind (usize_to_u64 (length bs)) (\<lambda>n.
     rbind (enforce_index_block_size limits n) (\<lambda>_.
     rbind (validate_deterministic_with_limits bs (cbor_limits limits)) (\<lambda>_.
     Ok ())))"

definition check_writer_cbor_block :: "bytes \<Rightarrow> unit result" where
  "check_writer_cbor_block bs = check_writer_cbor_block_with_limits bs ResourceLimits_default"

definition check_dense_allocation_with_limits :: "ChunkEntry list \<Rightarrow> ResourceLimits \<Rightarrow> unit result" where
  "check_dense_allocation_with_limits entries limits =
     rbind (requested_allocation_for_chunks entries) (\<lambda>n. enforce_dense_allocation limits n)"

definition check_dense_allocation :: "ChunkEntry list \<Rightarrow> unit result" where
  "check_dense_allocation entries = check_dense_allocation_with_limits entries ResourceLimits_default"

definition validate_profile :: "string \<Rightarrow> unit result" where
  "validate_profile profile =
     (if profile \<in> {''minimal'', ''core'', ''log'', ''archive'', ''memory''} then Ok () else Err MetadataInvalid)"

definition container_id_from_hash :: "bytes \<Rightarrow> bytes" where
  "container_id_from_hash hash = take 16 hash"

definition container_id_from_input :: "('h, 'x) ext_scheme \<Rightarrow> bytes \<Rightarrow> bytes" where
  "container_id_from_input X input = container_id_from_hash (blake3_hash X input)"

section \<open>The document index\<close>

function document_chunk_loop :: "ChunkEntry list \<Rightarrow> u64 \<Rightarrow> usize \<Rightarrow> usize \<Rightarrow> usize result" where
  "document_chunk_loop entries offset low high =
     (if low < high then
        let mid = low + (high - low) div 2 in
        rbind (checked_logical_end (logical_offset (entries ! mid)) (uncompressed_size (entries ! mid))) (\<lambda>chunk_end.
        if chunk_end \<le> offset then document_chunk_loop entries offset (mid + 1) high
        else document_chunk_loop entries offset low mid)
      else Ok low)"
  by pat_completeness auto
termination
  by (relation "measure (\<lambda>(entries, offset, low, high). high - low)") auto

declare document_chunk_loop.simps [simp del]

definition document_chunk_index :: "ChunkEntry list \<Rightarrow> u64 \<Rightarrow> usize result" where
  "document_chunk_index entries offset = document_chunk_loop entries offset 0 (length entries)"

definition writer_document_chunk_range :: "ChunkEntry list \<Rightarrow> u64 \<Rightarrow> u64 \<Rightarrow> (u64 \<times> u64) result" where
  "writer_document_chunk_range entries offset len =
     (if len = 0 then Ok (0, 0)
      else
        rbind (checked_logical_end offset len) (\<lambda>e.
        rbind (document_chunk_index entries offset) (\<lambda>first_index.
        rbind (ok_or (get entries first_index) ChunkTableInvalid) (\<lambda>first.
        rbind (ok_or (checked_sub e 1) ChunkTableInvalid) (\<lambda>last_offset.
        rbind (document_chunk_index entries last_offset) (\<lambda>last_index.
        rbind (ok_or (get entries last_index) ChunkTableInvalid) (\<lambda>last.
        rbind (ok_or (checked_add (chunk_id last) 1) ChunkTableInvalid) (\<lambda>chunk_end.
        Ok (chunk_id first, chunk_end)))))))))"

text \<open>The names seen, the ranges, and the two events of every span.\<close>

type_synonym line_event = "usize \<times> usize \<times> bool"

definition span_step ::
  "u64 \<Rightarrow> string set \<times> (usize \<times> usize) list \<times> line_event list \<Rightarrow> usize \<times> DocumentSpan \<Rightarrow>
   (string set \<times> (usize \<times> usize) list \<times> line_event list) result"
where
  "span_step input_len st entry =
     (case st of (seen, ranges, line_events) \<Rightarrow> case entry of (index, span) \<Rightarrow>
       if span_doc_id span \<in> seen then Err DuplicateDocumentId
       else
         rbind (checked_logical_end (span_logical_offset span) (span_byte_length span)) (\<lambda>e.
         if e > input_len then Err LogicalRangeOutOfBounds
         else
           rbind (u64_to_usize (span_logical_offset span)) (\<lambda>start.
           rbind (u64_to_usize e) (\<lambda>e.
           Ok (insert (span_doc_id span) seen, ranges @ [(start, e)],
               line_events @ [(start, index, False), (e, index, True)])))))"

function advance_newlines :: "bytes \<Rightarrow> usize \<Rightarrow> usize \<Rightarrow> u64 \<Rightarrow> (usize \<times> u64) result" where
  "advance_newlines input offset input_cursor newline_count =
     (if input_cursor < offset then
        rbind (if input ! input_cursor = LF then ok_or (checked_add newline_count 1) ResourceLimitExceeded
               else Ok newline_count) (\<lambda>newline_count.
        advance_newlines input offset (input_cursor + 1) newline_count)
      else Ok (input_cursor, newline_count))"
  by pat_completeness auto
termination
  by (relation "measure (\<lambda>(input, offset, input_cursor, newline_count). offset - input_cursor)") auto

declare advance_newlines.simps [simp del]

definition event_step ::
  "bytes \<Rightarrow> (u64 \<times> u64) list \<times> usize \<times> u64 \<Rightarrow> line_event \<Rightarrow> ((u64 \<times> u64) list \<times> usize \<times> u64) result"
where
  "event_step input st event =
     (case st of (line_prefixes, input_cursor, newline_count) \<Rightarrow> case event of (offset, span_index, is_end) \<Rightarrow>
       rbind (advance_newlines input offset input_cursor newline_count) (\<lambda>(input_cursor, newline_count).
       let p = line_prefixes ! span_index in
       Ok ((if is_end then line_prefixes[span_index := (fst p, newline_count)]
            else line_prefixes[span_index := (newline_count, snd p)]), input_cursor, newline_count)))"

definition build_document ::
  "('h, 'x) ext_scheme \<Rightarrow> bytes \<Rightarrow> ChunkEntry list \<Rightarrow> (usize \<times> usize) list \<Rightarrow> (u64 \<times> u64) list \<Rightarrow>
   usize \<times> DocumentSpan \<Rightarrow> DocumentEntry result"
where
  "build_document X input entries ranges line_prefixes entry =
     (case entry of (index, span) \<Rightarrow> case ranges ! index of (start, e) \<Rightarrow>
       rbind (ok_or (get_slice input start e) LogicalRangeOutOfBounds) (\<lambda>bs.
       case line_prefixes ! index of (line_first, newline_end) \<Rightarrow>
       rbind (ok_or (checked_sub newline_end line_first) ResourceLimitExceeded) (\<lambda>span_newline_count.
       rbind (if bs = [] then Ok 0
              else if last bs = LF then Ok span_newline_count
              else ok_or (checked_add span_newline_count 1) ResourceLimitExceeded) (\<lambda>lines.
       rbind (writer_document_chunk_range entries (span_logical_offset span) (span_byte_length span))
         (\<lambda>(chunk_start, chunk_end).
       Ok (DocumentEntry_new X (span_doc_id span) (span_logical_offset span) (span_byte_length span)
             line_first lines chunk_start chunk_end (Checksum_blake3 X bs)))))))"

definition build_document_index ::
  "('h, 'x) ext_scheme \<Rightarrow> DocumentSpan list \<Rightarrow> bytes \<Rightarrow> bytes \<Rightarrow> ChunkEntry list \<Rightarrow> DocumentIndex result"
where
  "build_document_index X spans input cid entries =
     rbind (preflight_document_ids X (map span_doc_id spans) ResourceLimits_default) (\<lambda>_.
     rbind (usize_to_u64 (length input)) (\<lambda>input_len.
     rbind (rfold (span_step input_len) ({}, [], []) (enumerate 0 spans)) (\<lambda>(seen, ranges, line_events).
     rbind (rfold (event_step input) (replicate (length spans) (0, 0), 0, 0) (sort line_events))
       (\<lambda>(line_prefixes, _).
     rbind (rmap (build_document X input entries ranges line_prefixes) (enumerate 0 spans)) (\<lambda>documents.
     Ok \<lparr>di_container_id = cid, di_documents = documents\<rparr>)))))"

section \<open>Assembly\<close>

text \<open>\<open>Option::transpose\<close>\<close>

fun transpose :: "'a result option \<Rightarrow> 'a option result" where
  "transpose None = Ok None"
| "transpose (Some (Inl err)) = Err err"
| "transpose (Some (Inr x)) = Ok (Some x)"

record OptionalBlocks =
  ob_dense_line_index :: "DenseLineIndex option"
  ob_document_index :: "DocumentIndex option"
  ob_profile :: string
  ob_writer_options :: WriterOptions

text \<open>\<open>None\<close> extends by nothing.\<close>

definition opt_bytes :: "bytes option \<Rightarrow> bytes" where
  "opt_bytes b = (case b of None \<Rightarrow> [] | Some bs \<Rightarrow> bs)"

definition opt_size :: "bytes option \<Rightarrow> u64 result" where
  "opt_size b = rbind (transpose (map_option (\<lambda>bs. usize_to_u64 (length bs)) b)) (\<lambda>n.
     Ok (case n of None \<Rightarrow> 0 | Some n \<Rightarrow> n))"

definition assemble_container ::
  "('h, 'x) ext_scheme \<Rightarrow> bytes \<Rightarrow> bytes \<Rightarrow> ChunkPlan \<Rightarrow> bytes list \<Rightarrow> ChunkEntry list \<Rightarrow> OptionalBlocks \<Rightarrow> bytes result"
where
  "assemble_container X input cid plan compressed_chunks entries optional =
     (if length compressed_chunks \<noteq> length entries then Err ContainerCorrupt
      else
        rbind (if entries = [] then Ok HEADER_LEN
               else ok_or (checked_add (physical_offset (last entries)) (compressed_size (last entries)))
                      PhysicalRangeOutOfBounds) (\<lambda>md_off.
        rbind (usize_to_u64 (length input)) (\<lambda>input_len.
        rbind (usize_to_u64 (target_chunk_size (wo_chunker (ob_writer_options optional)))) (\<lambda>target.
        rbind (usize_to_u64 (max_chunk_size (wo_chunker (ob_writer_options optional)))) (\<lambda>maximum.
        let metadata = Metadata_for_source_with_options cid input_len (Checksum_blake3 X input)
              (NewlineMode_as_str (plan_newline_mode plan)) (plan_line_count plan)
              \<lparr>mo_zstd_level = wo_zstd_level (ob_writer_options optional), mo_target_chunk_size = target,
               mo_max_chunk_size = maximum, mo_dictionary_mode = ''none'', mo_profile = ob_profile optional,
               mo_dense_line_index = (ob_dense_line_index optional \<noteq> None),
               mo_document_index = (ob_document_index optional \<noteq> None)\<rparr> in
        rbind (Metadata_encode metadata) (\<lambda>metadata_bytes.
        rbind (usize_to_u64 (length metadata_bytes)) (\<lambda>md_size.
        rbind (check_writer_cbor_block metadata_bytes) (\<lambda>_.
        rbind (case ob_dense_line_index optional of
                 Some index \<Rightarrow>
                   rbind (encoded_size index) (\<lambda>n.
                   if n > max_index_block_size ResourceLimits_default then Err ResourceLimitExceeded else Ok ())
               | None \<Rightarrow> Ok ()) (\<lambda>_.
        rbind (transpose (map_option DenseLineIndex_encode (ob_dense_line_index optional))) (\<lambda>dense_bytes.
        rbind (ok_or (checked_add md_off md_size) PhysicalRangeOutOfBounds) (\<lambda>dense_off.
        rbind (opt_size dense_bytes) (\<lambda>dense_size.
        rbind (transpose (map_option DocumentIndex_encode (ob_document_index optional))) (\<lambda>document_bytes.
        rbind (case document_bytes of Some bs \<Rightarrow> check_writer_cbor_block bs | None \<Rightarrow> Ok ()) (\<lambda>_.
        rbind (ok_or (checked_add dense_off dense_size) PhysicalRangeOutOfBounds) (\<lambda>document_off.
        rbind (opt_size document_bytes) (\<lambda>document_size.
        let chunk_table_bytes = concat (map ChunkEntry_encode entries) in
        rbind (ok_or (checked_add document_off document_size) PhysicalRangeOutOfBounds) (\<lambda>table_off.
        rbind (usize_to_u64 (length chunk_table_bytes)) (\<lambda>table_size.
        rbind (case dense_bytes of
                 Some bs \<Rightarrow> rbind (usize_to_u64 (length bs)) (\<lambda>n.
                   Ok [BlockDescriptor_dense_line_index dense_off n (Checksum_blake3 X bs)])
               | None \<Rightarrow> Ok []) (\<lambda>dense_blocks.
        rbind (case document_bytes of
                 Some bs \<Rightarrow> rbind (usize_to_u64 (length bs)) (\<lambda>n.
                   Ok [BlockDescriptor_document_index document_off n (Checksum_blake3 X bs)])
               | None \<Rightarrow> Ok []) (\<lambda>document_blocks.
        rbind (usize_to_u64 (length entries)) (\<lambda>chunk_count.
        let index_root = \<lparr>ir_container_id = cid,
              ir_blocks = [BlockDescriptor_chunk_table table_off table_size (Checksum_blake3 X chunk_table_bytes)] @
                dense_blocks @ document_blocks,
              ir_original_size = md_original_size metadata, ir_original_checksum = md_original_checksum metadata,
              ir_chunk_count = chunk_count, ir_line_count = md_line_count metadata\<rparr> in
        rbind (IndexRoot_encode index_root) (\<lambda>index_root_bytes.
        rbind (check_writer_cbor_block index_root_bytes) (\<lambda>_.
        rbind (ok_or (checked_add table_off table_size) PhysicalRangeOutOfBounds) (\<lambda>root_off.
        rbind (usize_to_u64 (length index_root_bytes)) (\<lambda>root_size.
        rbind (ok_or (checked_add root_off root_size) PhysicalRangeOutOfBounds) (\<lambda>payload_off.
        let header = \<lparr>metadata_offset = md_off, metadata_size = md_size, index_hint_offset = root_off,
              h_container_id = cid\<rparr>;
            prefix = Header_encode header @ concat compressed_chunks @ metadata_bytes @ opt_bytes dense_bytes @
              opt_bytes document_bytes @ chunk_table_bytes @ index_root_bytes in
        rbind (fixed_point_footer_payload cid
                 \<lparr>br_offset = root_off, br_size = root_size, br_checksum = Checksum_blake3 X index_root_bytes\<rparr>
                 \<lparr>br_offset = md_off, br_size = md_size, br_checksum = Checksum_blake3 X metadata_bytes\<rparr>
                 payload_off (Some (Checksum_blake3 X prefix))) (\<lambda>footer_payload.
        rbind (FooterPayload_encode footer_payload) (\<lambda>footer_bytes.
        rbind (check_writer_cbor_block footer_bytes) (\<lambda>_.
        rbind (usize_to_u64 (length footer_bytes)) (\<lambda>footer_size.
        Ok (prefix @ footer_bytes @
            FooterTrailer_encode \<lparr>footer_payload_offset = payload_off, footer_payload_size = footer_size,
              footer_payload_checksum_blake3 = cs_value (Checksum_blake3 X footer_bytes)\<rparr>)))))))))))))))))))))))))))))))"

section \<open>Packing\<close>

datatype DenseLineIndexMode = Omit | Generate | GenerateIfAtLeast u64 | Override DenseLineIndex

definition MEMORY_PROFILE_DENSE_LINE_INDEX_MIN_LINES :: u64 where
  "MEMORY_PROFILE_DENSE_LINE_INDEX_MIN_LINES = 2048"

text \<open>The chunks compressed so far, their entries, and where the next one goes.\<close>

definition pack_chunk ::
  "('h, 'x) ext_scheme \<Rightarrow> bytes \<Rightarrow> WriterOptions \<Rightarrow> bytes list \<times> ChunkEntry list \<times> u64 \<Rightarrow> PlannedChunk \<Rightarrow>
   (bytes list \<times> ChunkEntry list \<times> u64) result"
where
  "pack_chunk X input options st chunk =
     (case st of (compressed_chunks, entries, physical) \<Rightarrow>
       rbind (u64_to_usize (pc_logical_offset chunk)) (\<lambda>start.
       rbind (u64_to_usize (pc_uncompressed_size chunk)) (\<lambda>n.
       rbind (ok_or (checked_add start n) ResourceLimitExceeded) (\<lambda>e.
       rbind (ok_or (get_slice input start e) ContainerCorrupt) (\<lambda>uncompressed.
       rbind (encode_chunk X uncompressed (wo_zstd_level options)) (\<lambda>compressed.
       if compressed = [] then Err ChunkSizeMismatch
       else
         rbind (usize_to_u64 (length compressed)) (\<lambda>csize.
         rbind (enforce_chunk_sizes ResourceLimits_default csize (pc_uncompressed_size chunk)) (\<lambda>_.
         let entry = \<lparr>chunk_id = pc_chunk_id chunk, physical_offset = physical, compressed_size = csize,
               logical_offset = pc_logical_offset chunk, uncompressed_size = pc_uncompressed_size chunk,
               first_line = pc_first_line chunk, line_count = pc_line_count chunk, dictionary_id = 0,
               flags = pc_flags chunk,
               compressed_checksum_blake3 = cs_value (Checksum_blake3 X compressed),
               uncompressed_checksum_blake3 = cs_value (Checksum_blake3 X uncompressed)\<rparr> in
         rbind (ok_or (checked_add physical csize) PhysicalRangeOutOfBounds) (\<lambda>physical.
         Ok (compressed_chunks @ [compressed], entries @ [entry], physical))))))))))"

definition pack_bytes_internal ::
  "('h, 'x) ext_scheme \<Rightarrow> bytes \<Rightarrow> bytes \<Rightarrow> WriterOptions \<Rightarrow> DenseLineIndexMode \<Rightarrow> DocumentIndex option \<Rightarrow>
   DocumentSpan list option \<Rightarrow> string \<Rightarrow> bool \<Rightarrow> bytes result"
where
  "pack_bytes_internal X input cid options dense_mode document_index doc_spans profile verify_document_index =
     rbind (validate_writer_options options) (\<lambda>_.
     rbind (validate_profile profile) (\<lambda>_.
     if profile = ''memory'' \<and> document_index = None \<and> doc_spans = None then Err MetadataInvalid
     else
       rbind (case document_index of
                Some index \<Rightarrow>
                  rbind (validate_for_writer index ResourceLimits_default) (\<lambda>_. validate_unique_doc_ids index)
              | None \<Rightarrow> Ok ()) (\<lambda>_.
       rbind (plan_chunks input (wo_chunker options)) (\<lambda>plan.
       rbind (check_chunk_table_size (length (plan_chunk_list plan))) (\<lambda>_.
       rbind (rfold (pack_chunk X input options) ([], [], HEADER_LEN) (plan_chunk_list plan))
         (\<lambda>(compressed_chunks, entries, _).
       rbind (case dense_mode of
                Omit \<Rightarrow> Ok None
              | Generate \<Rightarrow>
                  rbind (check_dense_allocation entries) (\<lambda>_.
                  rbind (from_original_bytes input entries) (\<lambda>index. Ok (Some index)))
              | GenerateIfAtLeast min_lines \<Rightarrow>
                  if plan_line_count plan \<ge> min_lines then
                    rbind (check_dense_allocation entries) (\<lambda>_.
                    rbind (from_original_bytes input entries) (\<lambda>index. Ok (Some index)))
                  else Ok None
              | Override dense \<Rightarrow> Ok (Some dense)) (\<lambda>dense.
       rbind (transpose (map_option (\<lambda>spans. build_document_index X spans input cid entries) doc_spans))
         (\<lambda>generated.
       let documents = (case generated of Some index \<Rightarrow> Some index | None \<Rightarrow> document_index) in
       rbind (case documents of
                Some index \<Rightarrow>
                  rbind (validate_for_writer index ResourceLimits_default) (\<lambda>_.
                  if verify_document_index \<and> generated = None then
                    rbind (build_document_index X
                        (map (\<lambda>d. DocumentSpan_new (doc_id d) (doc_logical_offset d) (doc_byte_length d))
                          (di_documents index)) input cid entries) (\<lambda>rebuilt.
                    if rebuilt \<noteq> index then Err ContainerCorrupt else Ok ())
                  else Ok ())
              | None \<Rightarrow> Ok ()) (\<lambda>_.
       assemble_container X input cid plan compressed_chunks entries
         \<lparr>ob_dense_line_index = dense, ob_document_index = documents, ob_profile = profile,
          ob_writer_options = options\<rparr>)))))))))"

definition pack_bytes_with_container_id :: "('h, 'x) ext_scheme \<Rightarrow> bytes \<Rightarrow> bytes \<Rightarrow> WriterOptions \<Rightarrow> bytes result" where
  "pack_bytes_with_container_id X input cid options =
     pack_bytes_internal X input cid options Omit None None ''core'' True"

definition pack_bytes :: "('h, 'x) ext_scheme \<Rightarrow> bytes \<Rightarrow> WriterOptions \<Rightarrow> bytes result" where
  "pack_bytes X input options = pack_bytes_with_container_id X input (container_id_from_input X input) options"

definition pack_bytes_with_dense_line_index_override ::
  "('h, 'x) ext_scheme \<Rightarrow> bytes \<Rightarrow> bytes \<Rightarrow> WriterOptions \<Rightarrow> DenseLineIndex \<Rightarrow> bytes result"
where
  "pack_bytes_with_dense_line_index_override X input cid options dense =
     pack_bytes_internal X input cid options (Override dense) None None ''core'' True"

definition pack_bytes_with_document_index_override ::
  "('h, 'x) ext_scheme \<Rightarrow> bytes \<Rightarrow> bytes \<Rightarrow> WriterOptions \<Rightarrow> DocumentIndex \<Rightarrow> bytes result"
where
  "pack_bytes_with_document_index_override X input cid options index =
     pack_bytes_internal X input cid options Omit (Some index) None ''core'' False"

definition export_all :: "('h, 'x) ext_scheme \<Rightarrow> bytes \<Rightarrow> bytes result" where
  "export_all X container = rbind (QztReader_open X container) (QztReader_export_all X)"

section \<open>The builder\<close>

record WriterBuilder =
  wb_options :: WriterOptions
  wb_profile :: string
  wb_dense_line_index :: "bool option"
  wb_container_id :: "bytes option"
  wb_document_index :: "DocumentIndex option"
  wb_document_spans :: "DocumentSpan list option"

definition WriterBuilder_new :: WriterBuilder where
  "WriterBuilder_new = \<lparr>wb_options = WriterOptions_default, wb_profile = ''core'', wb_dense_line_index = None,
     wb_container_id = None, wb_document_index = None, wb_document_spans = None\<rparr>"

definition WriterBuilder_options :: "WriterBuilder \<Rightarrow> WriterOptions \<Rightarrow> WriterBuilder" where
  "WriterBuilder_options self options = self\<lparr>wb_options := options\<rparr>"

definition WriterBuilder_container_id :: "WriterBuilder \<Rightarrow> bytes \<Rightarrow> WriterBuilder" where
  "WriterBuilder_container_id self cid = self\<lparr>wb_container_id := Some cid\<rparr>"

definition WriterBuilder_profile :: "WriterBuilder \<Rightarrow> string \<Rightarrow> WriterBuilder" where
  "WriterBuilder_profile self profile = self\<lparr>wb_profile := profile\<rparr>"

definition WriterBuilder_dense_line_index :: "WriterBuilder \<Rightarrow> bool \<Rightarrow> WriterBuilder" where
  "WriterBuilder_dense_line_index self enabled = self\<lparr>wb_dense_line_index := Some enabled\<rparr>"

definition WriterBuilder_document_index :: "WriterBuilder \<Rightarrow> DocumentIndex \<Rightarrow> WriterBuilder" where
  "WriterBuilder_document_index self index = self\<lparr>wb_document_index := Some index, wb_document_spans := None\<rparr>"

definition WriterBuilder_document_spans :: "WriterBuilder \<Rightarrow> DocumentSpan list \<Rightarrow> WriterBuilder" where
  "WriterBuilder_document_spans self spans = self\<lparr>wb_document_spans := Some spans, wb_document_index := None\<rparr>"

definition WriterBuilder_pack :: "('h, 'x) ext_scheme \<Rightarrow> WriterBuilder \<Rightarrow> bytes \<Rightarrow> bytes result" where
  "WriterBuilder_pack X self input =
     rbind (validate_writer_options (wb_options self)) (\<lambda>_.
     rbind (case wb_document_index self of
              Some index \<Rightarrow> validate_for_writer index ResourceLimits_default | None \<Rightarrow> Ok ()) (\<lambda>_.
     rbind (case wb_document_spans self of
              Some spans \<Rightarrow> preflight_document_ids X (map span_doc_id spans) ResourceLimits_default
            | None \<Rightarrow> Ok ()) (\<lambda>_.
     rbind (case (wb_container_id self, wb_document_index self) of
              (Some configured, Some index) \<Rightarrow>
                if configured \<noteq> di_container_id index then Err ContainerIdMismatch else Ok configured
            | (Some configured, None) \<Rightarrow> Ok configured
            | (None, Some index) \<Rightarrow> Ok (di_container_id index)
            | (None, None) \<Rightarrow> Ok (container_id_from_input X input)) (\<lambda>cid.
     let dense_mode = (case wb_dense_line_index self of
           Some True \<Rightarrow> Generate
         | None \<Rightarrow> if wb_profile self = ''memory''
             then GenerateIfAtLeast MEMORY_PROFILE_DENSE_LINE_INDEX_MIN_LINES else Omit
         | Some False \<Rightarrow> Omit) in
     pack_bytes_internal X input cid (wb_options self) dense_mode (wb_document_index self) (wb_document_spans self)
       (wb_profile self) True))))"

end
