(* ===== verification/Writer_Correct.thy ===== *)
theory Writer_Correct
  imports Writer
begin

text \<open>
  Correctness of the in-memory writer: whatever it returns, the default reader opens, exports
  to the original bytes and verifies at every level.
\<close>

section \<open>Packed chunks\<close>

text \<open>The compressed chunks and entries for a list of planned chunks, stored from \<open>p\<close> on.\<close>

fun packed_from ::
  "('h, 'x) ext_scheme \<Rightarrow> bytes \<Rightarrow> i32 \<Rightarrow> nat \<Rightarrow> PlannedChunk list \<Rightarrow> bytes list \<Rightarrow> ChunkEntry list \<Rightarrow> bool"
where
  "packed_from X input level p [] cs es \<longleftrightarrow> cs = [] \<and> es = []"
| "packed_from X input level p (c # chunks) cs es \<longleftrightarrow>
     (\<exists>z cs' e es'. cs = z # cs' \<and> es = e # es' \<and>
       (let u = slice input (pc_logical_offset c) (pc_logical_offset c + pc_uncompressed_size c) in
        zstd_encode_all X u level = Some z \<and> z \<noteq> [] \<and> p + length z < u64_end \<and>
        length z \<le> max_compressed_chunk_size ResourceLimits_default \<and>
        pc_uncompressed_size c \<le> max_uncompressed_chunk_size ResourceLimits_default \<and>
        pc_logical_offset c + pc_uncompressed_size c \<le> length input \<and>
        entry_of_plan e c \<and> physical_offset e = p \<and> compressed_size e = length z \<and> dictionary_id e = 0 \<and>
        compressed_checksum_blake3 e = blake3_hash X z \<and> uncompressed_checksum_blake3 e = blake3_hash X u) \<and>
       packed_from X input level (p + length z) chunks cs' es')"

lemma pack_chunk_Ok:
  assumes "pack_chunk X input options (cs, es, p) c = Ok st"
  obtains z e where "st = (cs @ [z], es @ [e], p + length z)"
    and "packed_from X input (wo_zstd_level options) p [c] [z] [e]"
proof -
  let ?u = "slice input (pc_logical_offset c) (pc_logical_offset c + pc_uncompressed_size c)"
  let ?e = "\<lambda>z. \<lparr>chunk_id = pc_chunk_id c, physical_offset = p, compressed_size = length z,
    logical_offset = pc_logical_offset c, uncompressed_size = pc_uncompressed_size c,
    first_line = pc_first_line c, line_count = pc_line_count c, dictionary_id = 0, flags = pc_flags c,
    compressed_checksum_blake3 = blake3_hash X z, uncompressed_checksum_blake3 = blake3_hash X ?u\<rparr>"
  obtain z where "zstd_encode_all X ?u (wo_zstd_level options) = Some z" "z \<noteq> []" "p + length z < u64_end"
      "length z \<le> max_compressed_chunk_size ResourceLimits_default"
      "pc_uncompressed_size c \<le> max_uncompressed_chunk_size ResourceLimits_default"
      "pc_logical_offset c + pc_uncompressed_size c \<le> length input" "st = (cs @ [z], es @ [?e z], p + length z)"
    using assms
    by (auto simp: pack_chunk_def rbind_Ok_iff result_simps width_simps encode_chunk_def Checksum_blake3_def Let_def
        split: if_splits)
  then show thesis using that [of z "?e z"] by (simp add: entry_of_plan_def Let_def)
qed

lemma pack_loop_Ok:
  assumes "rfold (pack_chunk X input options) (cs, es, p) chunks = Ok (cs', es', p')"
  shows "\<exists>cs1 es1. cs' = cs @ cs1 \<and> es' = es @ es1 \<and>
     packed_from X input (wo_zstd_level options) p chunks cs1 es1 \<and> p' = p + length (concat cs1)"
  using assms
proof (induction chunks arbitrary: cs es p)
  case (Cons c chunks)
  then obtain st where st: "pack_chunk X input options (cs, es, p) c = Ok st"
    "rfold (pack_chunk X input options) st chunks = Ok (cs', es', p')" by (auto simp: rbind_Ok_iff)
  obtain z e where z: "st = (cs @ [z], es @ [e], p + length z)"
    "packed_from X input (wo_zstd_level options) p [c] [z] [e]" by (rule pack_chunk_Ok [OF st(1)])
  obtain cs1 es1 where "cs' = (cs @ [z]) @ cs1" "es' = (es @ [e]) @ es1"
    "packed_from X input (wo_zstd_level options) (p + length z) chunks cs1 es1"
    "p' = p + length z + length (concat cs1)"
    using Cons.IH [of "cs @ [z]" "es @ [e]" "p + length z"] st(2) z(1) by auto
  then show ?case using z(2) by (intro exI [of _ "z # cs1"] exI [of _ "e # es1"]) auto
qed simp

lemma packed_lengths:
  "packed_from X input level p chunks cs es \<Longrightarrow> length cs = length chunks \<and> length es = length chunks"
  by (induction X input level p chunks cs es rule: packed_from.induct) auto

lemma packed_plan: "packed_from X input level p chunks cs es \<Longrightarrow> list_all2 entry_of_plan es chunks"
  by (induction X input level p chunks cs es rule: packed_from.induct) (auto simp: Let_def)

text \<open>Everything about one entry.\<close>

lemma packed_nth:
  assumes "packed_from X input level p chunks cs es" and "i < length es"
  shows "physical_offset (es ! i) = p + length (concat (take i cs))" and "compressed_size (es ! i) = length (cs ! i)"
    and "zstd_encode_all X (slice input (logical_offset (es ! i)) (logical_offset (es ! i) + uncompressed_size (es ! i)))
       level = Some (cs ! i)"
    and "cs ! i \<noteq> []" and "physical_offset (es ! i) + compressed_size (es ! i) < u64_end"
    and "compressed_size (es ! i) \<le> max_compressed_chunk_size ResourceLimits_default"
    and "uncompressed_size (es ! i) \<le> max_uncompressed_chunk_size ResourceLimits_default"
    and "logical_offset (es ! i) + uncompressed_size (es ! i) \<le> length input"
    and "dictionary_id (es ! i) = 0" and "compressed_checksum_blake3 (es ! i) = blake3_hash X (cs ! i)"
    and "uncompressed_checksum_blake3 (es ! i) =
       blake3_hash X (slice input (logical_offset (es ! i)) (logical_offset (es ! i) + uncompressed_size (es ! i)))"
proof -
  have "physical_offset (es ! i) = p + length (concat (take i cs)) \<and> compressed_size (es ! i) = length (cs ! i) \<and>
    zstd_encode_all X (slice input (logical_offset (es ! i)) (logical_offset (es ! i) + uncompressed_size (es ! i)))
       level = Some (cs ! i) \<and> cs ! i \<noteq> [] \<and> physical_offset (es ! i) + compressed_size (es ! i) < u64_end \<and>
    compressed_size (es ! i) \<le> max_compressed_chunk_size ResourceLimits_default \<and>
    uncompressed_size (es ! i) \<le> max_uncompressed_chunk_size ResourceLimits_default \<and>
    logical_offset (es ! i) + uncompressed_size (es ! i) \<le> length input \<and>
    dictionary_id (es ! i) = 0 \<and> compressed_checksum_blake3 (es ! i) = blake3_hash X (cs ! i) \<and>
    uncompressed_checksum_blake3 (es ! i) =
       blake3_hash X (slice input (logical_offset (es ! i)) (logical_offset (es ! i) + uncompressed_size (es ! i)))"
    using assms
  proof (induction chunks arbitrary: p cs es i)
    case (Cons c chunks)
    then obtain z cs' e es' where *: "cs = z # cs'" "es = e # es'" "packed_from X input level (p + length z) chunks cs' es'"
      by auto
    show ?case
    proof (cases i)
      case 0
      then show ?thesis using Cons.prems(1) * by (auto simp: Let_def entry_of_plan_def)
    next
      case (Suc j)
      then show ?thesis using Cons.IH [OF *(3), of j] Cons.prems(2) * by simp
    qed
  qed simp
  then show "physical_offset (es ! i) = p + length (concat (take i cs))" and "compressed_size (es ! i) = length (cs ! i)"
    and "zstd_encode_all X (slice input (logical_offset (es ! i)) (logical_offset (es ! i) + uncompressed_size (es ! i)))
       level = Some (cs ! i)"
    and "cs ! i \<noteq> []" and "physical_offset (es ! i) + compressed_size (es ! i) < u64_end"
    and "compressed_size (es ! i) \<le> max_compressed_chunk_size ResourceLimits_default"
    and "uncompressed_size (es ! i) \<le> max_uncompressed_chunk_size ResourceLimits_default"
    and "logical_offset (es ! i) + uncompressed_size (es ! i) \<le> length input"
    and "dictionary_id (es ! i) = 0" and "compressed_checksum_blake3 (es ! i) = blake3_hash X (cs ! i)"
    and "uncompressed_checksum_blake3 (es ! i) =
       blake3_hash X (slice input (logical_offset (es ! i)) (logical_offset (es ! i) + uncompressed_size (es ! i)))"
    by blast+
qed

text \<open>The entries of a plan are a valid table of the whole input.\<close>

lemma plan_layout:
  assumes "planned_from input options n start chunks" and "list_all2 entry_of_plan es chunks"
    and "\<forall>e \<in> set es. 0 < compressed_size e"
  shows "layout_from n start (lines_in input 0 start) es"
  using assms
proof (induction chunks arbitrary: n start es)
  case (Cons c chunks)
  then obtain e es' where es: "es = e # es'" "entry_of_plan e c" "list_all2 entry_of_plan es' chunks"
    by (auto simp: list_all2_Cons2)
  let ?e = "start + pc_uncompressed_size c"
  have c: "pc_line_count c = lines_in input start ?e" "planned_from input options (n + 1) ?e chunks"
    using Cons.prems(1) by (simp_all add: Let_def)
  have "layout_from (n + 1) ?e (lines_in input 0 ?e) es'" using Cons.IH [OF c(2) es(3)] Cons.prems(3) es(1) by simp
  moreover have "lines_in input 0 start + pc_line_count c = lines_in input 0 ?e"
    using c(1) lines_in_append [of 0 start ?e input] by simp
  moreover have "lines_in input start ?e \<le> pc_uncompressed_size c"
    using length_filter_le [of "is_line_start input" "[start ..< ?e]"] by (simp add: lines_in_def)
  ultimately show ?case
    using Cons.prems(1,3) es(1,2) c(1) by (simp add: Let_def entry_of_plan_def STARTS_WITH_LINE_CONTINUATION_def)
qed simp

lemma packed_table:
  assumes "plan_chunks input options = Ok plan" and "packed_from X input level p (plan_chunk_list plan) cs es"
    and "length input < u64_end" and "blake3_documented X"
  shows "chunk_layout es" and "sum_list (map uncompressed_size es) = length input"
    and "sum_list (map line_count es) = plan_line_count plan" and "\<forall>e \<in> set es. ChunkEntry_wf e"
    and "concat (map (\<lambda>e. slice input (logical_offset e) (logical_offset e + uncompressed_size e)) es) = input"
proof -
  note plan = plan_chunks_Ok [OF assms(1)] and nth = packed_nth [OF assms(2)]
  note all2 = packed_plan [OF assms(2)]
  have pos: "\<forall>e \<in> set es. 0 < compressed_size e"
    using nth(2,4) by (fastforce simp: in_set_conv_nth)
  show lay: "chunk_layout es"
    using plan_layout [OF plan(3) all2 pos] by (simp add: layout_from_0 [symmetric] lines_in_def)
  have "map uncompressed_size es = map pc_uncompressed_size (plan_chunk_list plan)"
      "map line_count es = map pc_line_count (plan_chunk_list plan)"
      "map logical_offset es = map pc_logical_offset (plan_chunk_list plan)"
    using all2 by (auto simp: list_all2_conv_all_nth entry_of_plan_def intro!: nth_equalityI)
  note maps = this
  have "map (\<lambda>e. slice input (logical_offset e) (logical_offset e + uncompressed_size e)) es =
      map (\<lambda>c. slice input (pc_logical_offset c) (pc_logical_offset c + pc_uncompressed_size c)) (plan_chunk_list plan)"
    using all2 by (auto simp: list_all2_conv_all_nth entry_of_plan_def intro!: nth_equalityI)
  then show cat: "concat (map (\<lambda>e. slice input (logical_offset e) (logical_offset e + uncompressed_size e)) es) = input"
    using planned_from_concat [OF plan(3)] by simp
  have "sum_list (map uncompressed_size es) =
      length (concat (map (\<lambda>e. slice input (logical_offset e) (logical_offset e + uncompressed_size e)) es))"
    unfolding length_concat map_map
  proof (intro arg_cong [where f = sum_list] map_cong refl)
    fix e
    assume "e \<in> set es"
    then have "logical_offset e + uncompressed_size e \<le> length input" using nth(8) by (auto simp: in_set_conv_nth)
    then show "uncompressed_size e =
        (length \<circ> (\<lambda>e. slice input (logical_offset e) (logical_offset e + uncompressed_size e))) e" by simp
  qed
  then show sum: "sum_list (map uncompressed_size es) = length input" unfolding cat .
  show "sum_list (map line_count es) = plan_line_count plan"
    using planned_from_lines [OF plan(3)] plan(4) maps(2) by simp
  show "\<forall>e \<in> set es. ChunkEntry_wf e"
  proof
    fix e
    assume "e \<in> set es"
    then obtain i where i: "i < length es" "e = es ! i" by (metis in_set_conv_nth)
    note l = lay [unfolded chunk_layout_def Let_def, rule_format, OF i(1)]
    have "i < length input"
    proof -
      have "1 \<le> uncompressed_size x" if "x \<in> set es" for x
        using that lay by (force simp: chunk_layout_def in_set_conv_nth Let_def)
      then have "sum_list (map (\<lambda>_. 1) es) \<le> sum_list (map uncompressed_size es)" by (intro sum_list_mono) auto
      then show ?thesis using i(1) sum by (simp add: sum_list_triv)
    qed
    moreover have "first_line e + line_count e \<le> length input"
    proof -
      have "first_line e + line_count e = sum_list (map line_count (take (Suc i) es))"
        using l i by (simp add: take_Suc_conv_app_nth)
      also have "\<dots> \<le> sum_list (map line_count es)" by (rule sum_take_le)
      also have "\<dots> \<le> sum_list (map uncompressed_size es)"
        using layout_sums(1) [OF lay [folded layout_from_0]] .
      finally show ?thesis using sum by simp
    qed
    ultimately show "ChunkEntry_wf e"
      using l i nth(5,8-11) [OF i(1)] assms(3,4)
      by (auto simp: ChunkEntry_wf_def blake3_length u32_end_def STARTS_WITH_LINE_CONTINUATION_def)
  qed
qed

section \<open>The assembled container\<close>

definition written_metadata :: "('h, 'x) ext_scheme \<Rightarrow> bytes \<Rightarrow> bytes \<Rightarrow> ChunkPlan \<Rightarrow> OptionalBlocks \<Rightarrow> Metadata" where
  "written_metadata X input cid plan optional =
     Metadata_for_source_with_options cid (length input) (Checksum_blake3 X input)
       (NewlineMode_as_str (plan_newline_mode plan)) (plan_line_count plan)
       \<lparr>mo_zstd_level = wo_zstd_level (ob_writer_options optional),
        mo_target_chunk_size = target_chunk_size (wo_chunker (ob_writer_options optional)),
        mo_max_chunk_size = max_chunk_size (wo_chunker (ob_writer_options optional)), mo_dictionary_mode = ''none'',
        mo_profile = ob_profile optional, mo_dense_line_index = (ob_dense_line_index optional \<noteq> None),
        mo_document_index = (ob_document_index optional \<noteq> None)\<rparr>"

text \<open>The index root over blocks stored one after the other from \<open>off\<close> on.\<close>

definition written_root ::
  "('h, 'x) ext_scheme \<Rightarrow> bytes \<Rightarrow> Metadata \<Rightarrow> ChunkEntry list \<Rightarrow> nat \<Rightarrow> bytes option \<Rightarrow> bytes option \<Rightarrow> IndexRoot"
where
  "written_root X cid m es off db ob =
     (let doc_off = off + length (opt_bytes db); table_off = doc_off + length (opt_bytes ob);
          tb = concat (map ChunkEntry_encode es) in
      \<lparr>ir_container_id = cid,
       ir_blocks = [BlockDescriptor_chunk_table table_off (length tb) (Checksum_blake3 X tb)] @
         (case db of Some b \<Rightarrow> [BlockDescriptor_dense_line_index off (length b) (Checksum_blake3 X b)] | None \<Rightarrow> []) @
         (case ob of Some b \<Rightarrow> [BlockDescriptor_document_index doc_off (length b) (Checksum_blake3 X b)] | None \<Rightarrow> []),
       ir_original_size = md_original_size m, ir_original_checksum = md_original_checksum m,
       ir_chunk_count = length es, ir_line_count = md_line_count m\<rparr>)"

text \<open>A container with all its parts.\<close>

definition assembled ::
  "('h, 'x) ext_scheme \<Rightarrow> bytes \<Rightarrow> bytes \<Rightarrow> ChunkPlan \<Rightarrow> bytes list \<Rightarrow> ChunkEntry list \<Rightarrow> OptionalBlocks \<Rightarrow>
   nat \<Rightarrow> bytes \<Rightarrow> bytes option \<Rightarrow> bytes option \<Rightarrow> bytes \<Rightarrow> FooterPayload \<Rightarrow> bytes \<Rightarrow> bytes \<Rightarrow> bool"
where
  "assembled X input cid plan cs es optional md_off mb db ob rb f fb bs \<longleftrightarrow>
     (let m = written_metadata X input cid plan optional;
          tb = concat (map ChunkEntry_encode es);
          r = written_root X cid m es (md_off + length mb) db ob;
          root_off = md_off + length mb + length (opt_bytes db) + length (opt_bytes ob) + length tb;
          prefix = Header_encode \<lparr>metadata_offset = md_off, metadata_size = length mb, index_hint_offset = root_off,
              h_container_id = cid\<rparr> @ concat cs @ mb @ opt_bytes db @ opt_bytes ob @ tb @ rb in
      md_off = (if es = [] then HEADER_LEN else physical_offset (last es) + compressed_size (last es)) \<and>
      length input < u64_end \<and>
      Metadata_encode m = Ok mb \<and> check_writer_cbor_block mb = Ok () \<and>
      (case ob_dense_line_index optional of None \<Rightarrow> True
       | Some index \<Rightarrow> \<exists>n. encoded_size index = Ok n \<and> n \<le> max_index_block_size ResourceLimits_default) \<and>
      transpose (map_option DenseLineIndex_encode (ob_dense_line_index optional)) = Ok db \<and>
      transpose (map_option DocumentIndex_encode (ob_document_index optional)) = Ok ob \<and>
      (case ob of None \<Rightarrow> True | Some b \<Rightarrow> check_writer_cbor_block b = Ok ()) \<and>
      IndexRoot_encode r = Ok rb \<and> check_writer_cbor_block rb = Ok () \<and> root_off + length rb < u64_end \<and>
      fixed_point_footer_payload cid
        \<lparr>br_offset = root_off, br_size = length rb, br_checksum = Checksum_blake3 X rb\<rparr>
        \<lparr>br_offset = md_off, br_size = length mb, br_checksum = Checksum_blake3 X mb\<rparr>
        (root_off + length rb) (Some (Checksum_blake3 X prefix)) = Ok f \<and>
      FooterPayload_encode f = Ok fb \<and> check_writer_cbor_block fb = Ok () \<and>
      bs = prefix @ fb @ FooterTrailer_encode \<lparr>footer_payload_offset = root_off + length rb,
        footer_payload_size = length fb, footer_payload_checksum_blake3 = blake3_hash X fb\<rparr>)"

lemma opt_size_Ok_iff: "opt_size b = Ok n \<longleftrightarrow> n = length (opt_bytes b) \<and> n < u64_end"
  by (cases b) (auto simp: opt_size_def opt_bytes_def rbind_Ok_iff usize_to_u64_def u64_end_def)

lemma opt_block_Ok_iff:
  "(case b of Some bs \<Rightarrow> rbind (usize_to_u64 (length bs)) (\<lambda>n. Ok [g n bs]) | None \<Rightarrow> Ok []) = Ok xs \<longleftrightarrow>
     (case b of None \<Rightarrow> True | Some bs \<Rightarrow> length bs < u64_end) \<and>
     xs = (case b of Some bs \<Rightarrow> [g (length bs) bs] | None \<Rightarrow> [])"
  by (cases b) (auto simp: rbind_Ok_iff width_simps)

lemma assemble_container_Ok:
  assumes "assemble_container X input cid plan cs es optional = Ok bs"
  shows "length cs = length es \<and>
     (\<exists>md_off mb db ob rb f fb. assembled X input cid plan cs es optional md_off mb db ob rb f fb bs)"
proof -
  note a = assms [unfolded assemble_container_def Let_def if_Err_Ok_iff rbind_Ok_iff ok_or_Ok_iff checked_add_Some_iff
      usize_to_u64_Ok_iff opt_size_Ok_iff opt_block_Ok_iff]
  show ?thesis
    using a unfolding assembled_def Let_def written_root_def written_metadata_def
    by (elim exE conjE) (simp only:, auto simp: Checksum_blake3_def result_simps width_simps split: option.splits if_splits)
qed

section \<open>Blocks one after the other\<close>

fun consecutive :: "nat \<Rightarrow> PhysicalRange list \<Rightarrow> bool" where
  "consecutive p [] \<longleftrightarrow> True"
| "consecutive p (r # rs) \<longleftrightarrow> pr_offset r = p \<and> consecutive (p + pr_size r) rs"

lemma consecutive_append:
  "consecutive p (xs @ ys) \<longleftrightarrow> consecutive p xs \<and> consecutive (p + sum_list (map pr_size xs)) ys"
  by (induction xs arbitrary: p) (auto simp: add.assoc)

lemma consecutive_inside:
  "consecutive p rs \<Longrightarrow> r \<in> set rs \<Longrightarrow> p \<le> pr_offset r \<and> pr_offset r + pr_size r \<le> p + sum_list (map pr_size rs)"
  by (induction rs arbitrary: p) fastforce+

lemma consecutive_separated: "consecutive p rs \<Longrightarrow> sorted_wrt separated rs"
proof (induction rs arbitrary: p)
  case (Cons r rs)
  then have "separated r x" if "x \<in> set rs" for x
    using consecutive_inside [of "p + pr_size r" rs x] that by (simp add: separated_def)
  then show ?case using Cons.IH [of "p + pr_size r"] Cons.prems by simp
qed simp

lemma consecutive_ranges_valid:
  assumes "consecutive HEADER_LEN rs" and "HEADER_LEN + sum_list (map pr_size rs) + FOOTER_TRAILER_LEN = n"
    and "n < u64_end" and "mset rs' = mset rs"
  shows "validate_physical_ranges n rs' = Ok ()"
proof -
  have "sorted_wrt separated rs'"
    using sorted_wrt_sym_perm [OF assms(4), of separated] consecutive_separated [OF assms(1)]
    by (auto simp: separated_def)
  moreover have "pr_offset r + pr_size r \<le> n - FOOTER_TRAILER_LEN \<and> HEADER_LEN \<le> pr_offset r" if "r \<in> set rs'" for r
    using consecutive_inside [OF assms(1), of r] that assms(2) mset_eq_setD [OF assms(4)] by auto
  ultimately show ?thesis
    using assms(2)
    by (subst validate_physical_ranges_Ok_iff [OF assms(3)])
       (fastforce simp: separated_def PhysicalRange_new_def fixed_consts)
qed

lemma packed_consecutive:
  "packed_from X input level p chunks cs es \<Longrightarrow>
     consecutive p (map entry_range es) \<and> sum_list (map pr_size (map entry_range es)) = length (concat cs)"
  by (induction X input level p chunks cs es rule: packed_from.induct) (auto simp: Let_def PhysicalRange_new_def)

lemma packed_end:
  assumes "packed_from X input level p chunks cs es" and "es \<noteq> []"
  shows "physical_offset (last es) + compressed_size (last es) = p + length (concat cs)"
proof -
  have l: "length cs = length es" "0 < length es" using packed_lengths [OF assms(1)] assms(2) by auto
  then have "cs = take (length es - 1) cs @ [cs ! (length es - 1)]"
    by (metis Suc_diff_1 diff_less take_Suc_conv_app_nth take_all_iff order_refl zero_less_one)
  then have "length (concat cs) = length (concat (take (length es - 1) cs)) + length (cs ! (length es - 1))"
    by (metis append_Nil2 concat.simps(1,2) concat_append length_append)
  then show ?thesis
    using packed_nth(1,2) [OF assms(1), of "length es - 1"] l assms(2) by (simp add: last_conv_nth)
qed

lemma check_writer_cbor_block_Ok_iff:
  "check_writer_cbor_block b = Ok () \<longleftrightarrow>
     length b \<le> max_index_block_size ResourceLimits_default \<and> accepts_cbor ResourceLimits_default b"
  by (auto simp: check_writer_cbor_block_def check_writer_cbor_block_with_limits_def accepts_cbor_def rbind_Ok_iff
      width_simps is_ok_iff ResourceLimits_default_def u64_end_def)

lemma written_metadata_wf:
  assumes "plan_chunks input (wo_chunker options) = Ok plan" and "validate_writer_options options = Ok ()"
    and "validate_profile (ob_profile optional) = Ok ()" and "ob_writer_options optional = options"
    and "blake3_documented X" and "length cid = 16" and "length input < u64_end"
    and "- (2 ^ 31) \<le> wo_zstd_level options" and "wo_zstd_level options < 2 ^ 31"
  shows "Metadata_wf (written_metadata X input cid plan optional)"
proof -
  have "plan_line_count plan \<le> length input"
    using plan_chunks_Ok(4) [OF assms(1)] length_filter_le [of "is_line_start input" "[0 ..< length input]"]
    by (simp add: lines_in_def)
  then show ?thesis
    using assms Checksum_blake3_wf [OF assms(5)]
    by (cases "plan_newline_mode plan")
       (auto simp: Metadata_wf_def written_metadata_def Metadata_for_source_with_options_def validate_profile_def
         validate_writer_options_def validate_writer_options_with_limits_def ChunkerOptions_validate_def rbind_Ok_iff
         width_simps split: if_splits)
qed

lemma written_root_wf:
  assumes "blake3_documented X" and "Metadata_wf m" and "length cid = 16" and "length es < u64_end"
    and "off + length (opt_bytes db) + length (opt_bytes ob) + length (concat (map ChunkEntry_encode es)) < u64_end"
  shows "IndexRoot_wf (written_root X cid m es off db ob)"
    and "within_default_budget (index_root_value (written_root X cid m es off db ob))"
proof -
  note c = Checksum_blake3_wf [OF assms(1)]
  show "IndexRoot_wf (written_root X cid m es off db ob)"
    using assms c
    by (cases db; cases ob)
       (auto simp: IndexRoot_wf_def written_root_def Let_def BlockDescriptor_wf_def BlockDescriptor_chunk_table_def
         BlockDescriptor_dense_line_index_def BlockDescriptor_document_index_def BlockDescriptor_new_def
         CHUNK_TABLE_TYPE_def CHUNK_TABLE_CODEC_def DENSE_LINE_INDEX_TYPE_def DENSE_LINE_INDEX_CODEC_def
         DOCUMENT_INDEX_TYPE_def DOCUMENT_INDEX_CODEC_def is_required_chunk_table_def Metadata_wf_def opt_bytes_def
         ascii_valid u64_end_def)
  show "within_default_budget (index_root_value (written_root X cid m es off db ob))"
    using assms(2,3) checksum_measures [OF c] checksum_measures [of "md_original_checksum m"]
    by (cases db; cases ob)
       (auto simp: within_default_budget_def index_root_value_def written_root_def Let_def block_descriptor_value_def
         BlockDescriptor_chunk_table_def BlockDescriptor_dense_line_index_def BlockDescriptor_document_index_def
         BlockDescriptor_new_def text_pair_def u64_value_def version_value_def SCHEMA_INDEX_ROOT_def
         CHUNK_TABLE_TYPE_def CHUNK_TABLE_CODEC_def DENSE_LINE_INDEX_TYPE_def DENSE_LINE_INDEX_CODEC_def
         DOCUMENT_INDEX_TYPE_def DOCUMENT_INDEX_CODEC_def head_len_def Metadata_wf_def)
qed

section \<open>The container is accepted\<close>

text \<open>A writer run that reached assembly, with what its input types guarantee.\<close>

definition written ::
  "('h, 'x) ext_scheme \<Rightarrow> bytes \<Rightarrow> bytes \<Rightarrow> WriterOptions \<Rightarrow> ChunkPlan \<Rightarrow> bytes list \<Rightarrow> ChunkEntry list \<Rightarrow>
   OptionalBlocks \<Rightarrow> bool"
where
  "written X input cid options plan cs es optional \<longleftrightarrow>
     plan_chunks input (wo_chunker options) = Ok plan \<and> validate_writer_options options = Ok () \<and>
     check_chunk_table_size (length (plan_chunk_list plan)) = Ok () \<and>
     packed_from X input (wo_zstd_level options) HEADER_LEN (plan_chunk_list plan) cs es \<and>
     validate_profile (ob_profile optional) = Ok () \<and> ob_writer_options optional = options \<and>
     (\<forall>idx. ob_dense_line_index optional = Some idx \<longrightarrow>
        check_dense_allocation es = Ok () \<and> from_original_bytes input es = Ok idx) \<and>
     (\<forall>di. ob_document_index optional = Some di \<longrightarrow> validate_for_writer di ResourceLimits_default = Ok () \<and>
        DocumentIndex_wf di \<and> di_container_id di = cid) \<and>
     blake3_documented X \<and> length cid = 16 \<and> - (2 ^ 31) \<le> wo_zstd_level options \<and> wo_zstd_level options < 2 ^ 31"

lemma transpose_Ok_iff:
  "transpose x = Ok y \<longleftrightarrow> (case x of None \<Rightarrow> y = None | Some r \<Rightarrow> \<exists>v. r = Ok v \<and> y = Some v)"
  by (cases x; cases "the x") auto

lemma written_table_length: "\<forall>e \<in> set es. ChunkEntry_wf e \<Longrightarrow> length (concat (map ChunkEntry_encode es)) = 128 * length es"
  by (induction es) (simp_all add: entry.encode_width CHUNK_ENTRY_LEN_def)

lemma written_sizes:
  assumes "written X input cid options plan cs es optional"
    and "assembled X input cid plan cs es optional md_off mb db ob rb f fb bs"
  shows "md_off = 128 + length (concat cs)"
    and "length (concat (map ChunkEntry_encode es)) \<le> max_index_block_size ResourceLimits_default"
    and "length (opt_bytes db) \<le> max_index_block_size ResourceLimits_default"
    and "length (opt_bytes ob) \<le> max_index_block_size ResourceLimits_default"
    and "length es < u64_end" and "length input < u64_end"
proof -
  note w = assms(1) [unfolded written_def] and a = assms(2) [unfolded assembled_def Let_def]
  have pk: "packed_from X input (wo_zstd_level options) HEADER_LEN (plan_chunk_list plan) cs es" using w by blast
  show "md_off = 128 + length (concat cs)"
    using a packed_end [OF pk] packed_lengths [OF pk] by (cases "es = []") (auto simp: fixed_consts)
  show in64: "length input < u64_end" using a by blast
  have wf: "\<forall>e \<in> set es. ChunkEntry_wf e"
    using packed_table(4) [OF _ pk in64] w by blast
  have tl: "length (concat (map ChunkEntry_encode es)) = 128 * length es"
    using written_table_length [OF wf] by simp
  have ck: "128 * length es \<le> max_index_block_size ResourceLimits_default" "128 * length es < u64_end"
    using w packed_lengths [OF pk]
    by (auto simp: check_chunk_table_size_def check_chunk_table_size_with_limits_def enforce_chunk_table_entries_def
        rbind_Ok_iff result_simps width_simps CHUNK_ENTRY_LEN_def mult.commute)
  show "length (concat (map ChunkEntry_encode es)) \<le> max_index_block_size ResourceLimits_default" using tl ck by simp
  show "length es < u64_end" using ck by simp
  show "length (opt_bytes ob) \<le> max_index_block_size ResourceLimits_default"
    using a by (cases ob) (auto simp: opt_bytes_def check_writer_cbor_block_Ok_iff)
  show "length (opt_bytes db) \<le> max_index_block_size ResourceLimits_default"
  proof (cases "ob_dense_line_index optional")
    case None
    then show ?thesis using a by (auto simp: opt_bytes_def transpose_Ok_iff)
  next
    case (Some idx)
    then obtain b n where b: "DenseLineIndex_encode idx = Ok b" "db = Some b" "encoded_size idx = Ok n"
        "n \<le> max_index_block_size ResourceLimits_default"
      using a by (auto simp: transpose_Ok_iff)
    then have "n = length b" by (simp add: encoded_size_Ok_iff)
    then show ?thesis using b by (simp add: opt_bytes_def)
  qed
qed

text \<open>The parts of the written container, as the opener sees them.\<close>

lemma written_parts:
  assumes wr: "written X input cid options plan cs es optional"
    and as: "assembled X input cid plan cs es optional md_off mb db ob rb f fb bs" and len: "length bs < isize_end"
  defines "m \<equiv> written_metadata X input cid plan optional"
  defines "tb \<equiv> concat (map ChunkEntry_encode es)"
  defines "r \<equiv> written_root X cid m es (md_off + length mb) db ob"
  defines "root_off \<equiv> md_off + length mb + length (opt_bytes db) + length (opt_bytes ob) + length tb"
  defines "h \<equiv> \<lparr>metadata_offset = md_off, metadata_size = length mb, index_hint_offset = root_off, h_container_id = cid\<rparr>"
  defines "prefix \<equiv> Header_encode h @ concat cs @ mb @ opt_bytes db @ opt_bytes ob @ tb @ rb"
  defines "t \<equiv> \<lparr>footer_payload_offset = root_off + length rb, footer_payload_size = length fb,
    footer_payload_checksum_blake3 = blake3_hash X fb\<rparr>"
  shows "Metadata_wf m" and "IndexRoot_wf r" and "FooterPayload_wf f"
    and "Metadata_decode mb = Ok m" and "IndexRoot_decode rb = Ok r" and "FooterPayload_decode fb = Ok f"
    and "f = footer_candidate cid \<lparr>br_offset = root_off, br_size = length rb, br_checksum = Checksum_blake3 X rb\<rparr>
       \<lparr>br_offset = md_off, br_size = length mb, br_checksum = Checksum_blake3 X mb\<rparr>
       (Some (Checksum_blake3 X prefix)) (length bs)"
    and "bs = prefix @ fb @ FooterTrailer_encode t" and "Header_wf h" and "FooterTrailer_wf t"
    and "length bs = root_off + length rb + length fb + 64" and "length prefix = root_off + length rb"
proof -
  note a = as [unfolded assembled_def Let_def, folded m_def, folded tb_def, folded r_def, folded root_off_def,
      folded h_def, folded prefix_def, folded t_def]
  note w = wr [unfolded written_def] and sz = written_sizes [OF wr as]
  have X: "blake3_documented X" and cid: "length cid = 16" using w by blast+
  have bs: "bs = prefix @ fb @ FooterTrailer_encode t" using a by blast
  show "bs = prefix @ fb @ FooterTrailer_encode t" by (rule bs)
  have off: "root_off + length rb < u64_end" using a by blast
  show mw: "Metadata_wf m"
    unfolding m_def using w sz(6) by (intro written_metadata_wf) auto
  have hw: "Header_wf h" using off cid by (simp add: Header_wf_def h_def root_off_def)
  then show "Header_wf h" .
  have hl: "length (Header_encode h) = 128" using header.encode_width [OF hw] by (simp add: fixed_consts)
  have pl: "length prefix = root_off + length rb"
    by (simp add: prefix_def hl root_off_def sz(1))
  then show "length prefix = root_off + length rb" .
  have lo: "root_off + length rb + length fb < isize_end" using len pl by (simp add: bs)
  have es: "length es < u64_end" by (rule sz)
  have rl: "md_off + length mb + length (opt_bytes db) + length (opt_bytes ob) + length (concat (map ChunkEntry_encode es)) < u64_end"
    using off by (simp add: root_off_def tb_def)
  show rw: "IndexRoot_wf r" unfolding r_def by (rule written_root_wf(1) [OF X mw cid es rl])
  have rb: "within_default_budget (index_root_value r)" unfolding r_def by (rule written_root_wf(2) [OF X mw cid es rl])
  have enc: "mb = enc (metadata_value m)" "rb = enc (index_root_value r)"
    using a metadata_roundtrip(1) [OF mw] root_roundtrip(1) [OF rw rb] by simp_all
  show "Metadata_decode mb = Ok m" "IndexRoot_decode rb = Ok r"
    unfolding enc by (rule metadata_roundtrip(2) [OF mw], rule root_roundtrip(2) [OF rw rb])
  let ?ir = "\<lparr>br_offset = root_off, br_size = length rb, br_checksum = Checksum_blake3 X rb\<rparr>"
  let ?md = "\<lparr>br_offset = md_off, br_size = length mb, br_checksum = Checksum_blake3 X mb\<rparr>"
  have refs: "BlockRef_wf ?ir" "BlockRef_wf ?md"
    using off Checksum_blake3_wf [OF X] by (simp_all add: BlockRef_wf_def root_off_def)
  have room: "root_off + length rb + 4168 < u64_end" using lo by (simp add: isize_end_def u64_end_def)
  obtain f' where f': "fixed_point_footer_payload cid ?ir ?md (root_off + length rb) (Some (Checksum_blake3 X prefix)) = Ok f'"
      "FooterPayload_wf f'" "f' = footer_candidate cid ?ir ?md (Some (Checksum_blake3 X prefix))
        (root_off + length rb + length (enc (footer_value f')) + 64)"
      "FooterPayload_encode f' = Ok (enc (footer_value f'))"
    using fixed_point_footer [OF cid refs _ room, of "Some (Checksum_blake3 X prefix)"] Checksum_blake3_wf [OF X] by auto
  have ff: "f' = f" "fb = enc (footer_value f)" using a f'(1,4) by auto
  show "FooterPayload_wf f" using f'(2) ff by simp
  show "FooterPayload_decode fb = Ok f" unfolding ff(2) using footer_roundtrip(2) f'(2) ff(1) by blast
  have tw: "FooterTrailer_wf t"
    using off lo X by (simp add: FooterTrailer_wf_def t_def blake3_length isize_end_def u64_end_def)
  then show "FooterTrailer_wf t" .
  have tl: "length (FooterTrailer_encode t) = 64" using trailer.encode_width [OF tw] by (simp add: fixed_consts)
  show bl: "length bs = root_off + length rb + length fb + 64" by (simp add: bs pl tl)
  show "f = footer_candidate cid ?ir ?md (Some (Checksum_blake3 X prefix)) (length bs)"
    using f'(3) unfolding ff bl .
qed

lemma accepts_written:
  assumes "check_writer_cbor_block b = Ok ()"
  shows "accepts_cbor ResourceLimits_default b" and "length b \<le> max_index_block_size ResourceLimits_default"
  using assms by (simp_all add: check_writer_cbor_block_Ok_iff)

lemma root_blocks:
  "chunk_table_block (written_root X cid m es off db ob) =
     Ok (BlockDescriptor_chunk_table (off + length (opt_bytes db) + length (opt_bytes ob))
       (length (concat (map ChunkEntry_encode es))) (Checksum_blake3 X (concat (map ChunkEntry_encode es))))"
  "filter (\<lambda>b. bd_block_type b \<notin> {''metadata'', ''chunk_table''}) (ir_blocks (written_root X cid m es off db ob)) =
     (case db of Some b \<Rightarrow> [BlockDescriptor_dense_line_index off (length b) (Checksum_blake3 X b)] | None \<Rightarrow> []) @
     (case ob of Some b \<Rightarrow> [BlockDescriptor_document_index (off + length (opt_bytes db)) (length b) (Checksum_blake3 X b)]
      | None \<Rightarrow> [])"
  "blocks_of_type ''dictionary'' (written_root X cid m es off db ob) = []"
  "blocks_of_type ''dense_line_index'' (written_root X cid m es off db ob) =
     (case db of Some b \<Rightarrow> [BlockDescriptor_dense_line_index off (length b) (Checksum_blake3 X b)] | None \<Rightarrow> [])"
  "blocks_of_type ''document_index'' (written_root X cid m es off db ob) =
     (case ob of Some b \<Rightarrow> [BlockDescriptor_document_index (off + length (opt_bytes db)) (length b) (Checksum_blake3 X b)]
      | None \<Rightarrow> [])"
  by (cases db; cases ob;
      simp add: written_root_def Let_def chunk_table_block_def is_required_chunk_table_def blocks_of_type_def
        BlockDescriptor_chunk_table_def BlockDescriptor_dense_line_index_def BlockDescriptor_document_index_def
        BlockDescriptor_new_def CHUNK_TABLE_TYPE_def DENSE_LINE_INDEX_TYPE_def DOCUMENT_INDEX_TYPE_def)+

lemma written_container_parts:
  assumes wr: "written X input cid options plan cs es optional"
    and as: "assembled X input cid plan cs es optional md_off mb db ob rb f fb bs" and len: "length bs < isize_end"
  defines "m \<equiv> written_metadata X input cid plan optional"
  defines "tb \<equiv> concat (map ChunkEntry_encode es)"
  defines "r \<equiv> written_root X cid m es (md_off + length mb) db ob"
  defines "root_off \<equiv> md_off + length mb + length (opt_bytes db) + length (opt_bytes ob) + length tb"
  defines "h \<equiv> \<lparr>metadata_offset = md_off, metadata_size = length mb, index_hint_offset = root_off, h_container_id = cid\<rparr>"
  defines "t \<equiv> \<lparr>footer_payload_offset = root_off + length rb, footer_payload_size = length fb,
    footer_payload_checksum_blake3 = blake3_hash X fb\<rparr>"
  shows "\<exists>ct. container_parts X bs ResourceLimits_default h t f m r ct es"
proof -
  note a = as [unfolded assembled_def Let_def, folded m_def, folded tb_def, folded r_def, folded root_off_def,
      folded h_def, folded t_def]
  note w = wr [unfolded written_def] and sz = written_sizes [OF wr as, folded tb_def]
  note p = written_parts [OF wr as len, folded m_def, folded tb_def, folded r_def, folded root_off_def,
      folded h_def, folded t_def]
  have X: "blake3_documented X" using w by blast
  have pk: "packed_from X input (wo_zstd_level options) HEADER_LEN (plan_chunk_list plan) cs es" using w by blast
  have pl: "plan_chunks input (wo_chunker options) = Ok plan" using w by blast
  define ct where "ct = BlockDescriptor_chunk_table (md_off + length mb + length (opt_bytes db) + length (opt_bytes ob))
    (length tb) (Checksum_blake3 X tb)"
  have n: "length bs < u64_end" by (rule isize_u64 [OF len])
  have hl: "length (Header_encode h) = 128" using header.encode_width [OF p(9)] by (simp add: fixed_consts)
  have tl: "length (FooterTrailer_encode t) = 64" using trailer.encode_width [OF p(10)] by (simp add: fixed_consts)
  have st: "stored bs md_off (length mb) mb" "stored bs root_off (length rb) rb"
      "stored bs (root_off + length rb) (length fb) fb" "stored bs (bd_offset ct) (bd_size ct) tb"
    using stored_append [of md_off "Header_encode h @ concat cs" "length mb" mb
        "opt_bytes db @ opt_bytes ob @ tb @ rb @ fb @ FooterTrailer_encode t"]
      stored_append [of root_off "Header_encode h @ concat cs @ mb @ opt_bytes db @ opt_bytes ob @ tb" "length rb" rb
        "fb @ FooterTrailer_encode t"]
      stored_append [of "root_off + length rb" "Header_encode h @ concat cs @ mb @ opt_bytes db @ opt_bytes ob @ tb @ rb"
        "length fb" fb "FooterTrailer_encode t"]
      stored_append [of "bd_offset ct" "Header_encode h @ concat cs @ mb @ opt_bytes db @ opt_bytes ob" "length tb" tb
        "rb @ fb @ FooterTrailer_encode t"]
    by (simp_all add: p(8) hl sz(1) root_off_def ct_def BlockDescriptor_chunk_table_def BlockDescriptor_new_def)
  have ends: "slice bs 0 128 = Header_encode h" "slice bs (length bs - 64) (length bs) = FooterTrailer_encode t"
    using slice_append_end [of "length bs - 64" "Header_encode h @ concat cs @ mb @ opt_bytes db @ opt_bytes ob @ tb @ rb @ fb"
        "length bs" "FooterTrailer_encode t"] p(11,12)
    by (simp_all add: p(8) hl tl slice_simps)
  have tab: "validate_chunk_table_block tb (length es) (length input) (plan_line_count plan) = Ok es"
    unfolding validate_chunk_table_block_Ok_iff [OF sz(6)]
    using packed_table [OF pl pk sz(6) X] sz(5) by (simp add: tb_def)
  have proj: "md_container_id m = cid" "md_original_size m = length input" "md_line_count m = plan_line_count plan"
      "md_original_checksum m = Checksum_blake3 X input"
      "ir_container_id r = cid" "ir_original_size r = length input" "ir_line_count r = plan_line_count plan"
      "ir_original_checksum r = Checksum_blake3 X input" "ir_chunk_count r = length es"
    by (simp_all add: m_def r_def written_metadata_def Metadata_for_source_with_options_def written_root_def Let_def)
  have fp: "fp_final_file_size f = length bs" "fp_container_id f = cid" "br_offset (fp_metadata f) = md_off"
      "br_size (fp_metadata f) = length mb" "br_checksum (fp_metadata f) = Checksum_blake3 X mb"
      "br_offset (fp_index_root f) = root_off" "br_size (fp_index_root f) = length rb"
      "br_checksum (fp_index_root f) = Checksum_blake3 X rb"
    by (subst p(7), simp add: footer_candidate_def)+
  have ct: "chunk_table_block r = Ok ct" "bd_codec ct = ''qzt-ctbl-fixed-v1''" "bd_checksum ct = Checksum_blake3 X tb"
    by (simp_all add: r_def root_blocks ct_def tb_def add.assoc BlockDescriptor_chunk_table_def BlockDescriptor_new_def
        CHUNK_TABLE_CODEC_def)
  have blocks: "\<forall>b \<in> set (ir_blocks r). bd_size b \<le> max_index_block_size ResourceLimits_default"
    using sz(2-4)
    by (cases db; cases ob) (auto simp: r_def written_root_def Let_def BlockDescriptor_chunk_table_def
      BlockDescriptor_dense_line_index_def BlockDescriptor_document_index_def BlockDescriptor_new_def opt_bytes_def tb_def)
  have chunks: "\<forall>e \<in> set es. compressed_size e \<le> max_compressed_chunk_size ResourceLimits_default \<and>
        uncompressed_size e \<le> max_uncompressed_chunk_size ResourceLimits_default"
    using packed_nth(6,7) [OF pk] by (auto simp: in_set_conv_nth)
  let ?opt = "(case db of Some b \<Rightarrow> [PhysicalRange_new (md_off + length mb) (length b)] | None \<Rightarrow> []) @
    (case ob of Some b \<Rightarrow> [PhysicalRange_new (md_off + length mb + length (opt_bytes db)) (length b)] | None \<Rightarrow> [])"
  let ?rs = "map entry_range es @ [PhysicalRange_new md_off (length mb)] @ ?opt @
    [PhysicalRange_new (bd_offset ct) (length tb), PhysicalRange_new root_off (length rb),
     PhysicalRange_new (root_off + length rb) (length fb)]"
  have ordered: "consecutive HEADER_LEN ?rs" "HEADER_LEN + sum_list (map pr_size ?rs) + FOOTER_TRAILER_LEN = length bs"
    using packed_consecutive [OF pk] p(11) sz(1)
    by (cases db; cases ob; simp add: consecutive_append PhysicalRange_new_def root_off_def ct_def opt_bytes_def fixed_consts
        BlockDescriptor_chunk_table_def BlockDescriptor_new_def comp_def)+
  have "mset (physical_ranges h t f r ct es) = mset ?rs"
    unfolding physical_ranges_def r_def root_blocks(2)
    by (cases db; cases ob) (simp_all add: fp h_def t_def ct_def tb_def BlockDescriptor_chunk_table_def
      BlockDescriptor_dense_line_index_def BlockDescriptor_document_index_def BlockDescriptor_new_def)
  then have "validate_physical_ranges (length bs) (physical_ranges h t f r ct es) = Ok ()"
    by (rule consecutive_ranges_valid [OF ordered n])
  then have "container_parts X bs ResourceLimits_default h t f m r ct es"
    using p(4-6,9,10) p(11) n ends st tab proj fp ct blocks chunks a accepts_written [of mb] accepts_written [of rb]
      accepts_written [of fb]
    by (intro container_partsI [of bs h t fb X ResourceLimits_default f mb m rb r ct tb es])
       (simp_all add: h_def t_def sz(1) root_off_def)
  then show ?thesis ..
qed

lemma storedI: "bs = xs @ b @ ys \<Longrightarrow> off = length xs \<Longrightarrow> sz = length b \<Longrightarrow> stored bs off sz b"
  by (simp add: stored_append)

lemma written_bytes:
  assumes "written X input cid options plan cs es optional"
    and "assembled X input cid plan cs es optional md_off mb db ob rb f fb bs" and "length bs < isize_end"
  obtains hb tr where "length hb = 128" and
    "bs = hb @ concat cs @ mb @ opt_bytes db @ opt_bytes ob @ concat (map ChunkEntry_encode es) @ rb @ fb @ tr"
proof -
  note p = written_parts [OF assms]
  show thesis using header.encode_width [OF p(9)] p(8) by (intro that) (simp_all add: fixed_consts)
qed

text \<open>The details the opener returns for a written container.\<close>

definition written_details ::
  "('h, 'x) ext_scheme \<Rightarrow> bytes \<Rightarrow> bytes \<Rightarrow> ChunkPlan \<Rightarrow> ChunkEntry list \<Rightarrow> OptionalBlocks \<Rightarrow> FooterPayload \<Rightarrow> nat \<Rightarrow>
   SkeletonDetails"
where
  "written_details X input cid plan es optional f off =
     \<lparr>sk_summary = \<lparr>ss_container_id = cid, ss_original_size = length input, ss_chunk_count = length es,
        ss_line_count = plan_line_count plan\<rparr>,
      sk_chunk_entries = es, sk_metadata = written_metadata X input cid plan optional, sk_footer_payload = f,
      sk_footer_payload_offset = off, sk_dictionaries = [], sk_dense_line_index = ob_dense_line_index optional,
      sk_document_index = ob_document_index optional, sk_document_lookup = build_document_lookup (ob_document_index optional)\<rparr>"

lemma written_opens:
  assumes wr: "written X input cid options plan cs es optional"
    and as: "assembled X input cid plan cs es optional md_off mb db ob rb f fb bs" and len: "length bs < isize_end"
  shows "open_skeleton_details_with_limits X bs ResourceLimits_default =
     Ok (written_details X input cid plan es optional f (length bs - 64 - length fb))"
proof -
  let ?m = "written_metadata X input cid plan optional" and ?tb = "concat (map ChunkEntry_encode es)"
  let ?r = "written_root X cid ?m es (md_off + length mb) db ob"
  let ?off = "md_off + length mb + length (opt_bytes db) + length (opt_bytes ob) + length ?tb"
  let ?h = "\<lparr>metadata_offset = md_off, metadata_size = length mb, index_hint_offset = ?off, h_container_id = cid\<rparr>"
  let ?t = "\<lparr>footer_payload_offset = ?off + length rb, footer_payload_size = length fb,
    footer_payload_checksum_blake3 = blake3_hash X fb\<rparr>"
  note a = as [unfolded assembled_def Let_def]
  note w = wr [unfolded written_def] and sz = written_sizes [OF wr as] and p = written_parts [OF wr as len]
  obtain ct where parts: "container_parts X bs ResourceLimits_default ?h ?t f ?m ?r ct es"
    using written_container_parts [OF wr as len] by blast
  have X: "blake3_documented X" and pl: "plan_chunks input (wo_chunker options) = Ok plan"
    and pk: "packed_from X input (wo_zstd_level options) HEADER_LEN (plan_chunk_list plan) cs es" using w by blast+
  have n: "length bs < u64_end" by (rule isize_u64 [OF len])
  obtain hb tr where hl: "length hb = 128" and
      bs: "bs = hb @ concat cs @ mb @ opt_bytes db @ opt_bytes ob @ ?tb @ rb @ fb @ tr"
    by (rule written_bytes [OF wr as len])
  have dense: "parse_dense_line_index X bs ?r es ResourceLimits_default = Ok (ob_dense_line_index optional)"
  proof (cases "ob_dense_line_index optional")
    case None
    then show ?thesis using a by (auto simp: parse_dense_line_index_def root_blocks transpose_Ok_iff)
  next
    case (Some idx)
    then obtain b where b: "DenseLineIndex_encode idx = Ok b" "db = Some b" using a by (auto simp: transpose_Ok_iff)
    have st: "slice_physical bs (PhysicalRange_new (md_off + length mb) (length b)) = Ok b"
      unfolding slice_stored(1) [OF n]
      by (rule storedI [of _ "hb @ concat cs @ mb" _ "opt_bytes ob @ ?tb @ rb @ fb @ tr"])
         (simp_all add: bs b(2) hl sz(1), simp add: opt_bytes_def)
    have fr: "check_dense_allocation es = Ok ()" "from_original_bytes input es = Ok idx" using w Some by blast+
    have idx: "idx = \<lparr>dense_entries = map (dense_of input) es\<rparr>" "list_all2 entry_matches (dense_entries idx) es"
      using from_original_bytes_planned [OF pl packed_plan [OF pk] sz(6)] fr(2) by auto
    have "length b < u64_end" using sz(3) b(2) by (simp add: opt_bytes_def ResourceLimits_default_def u64_end_def)
    moreover have "\<exists>r \<le> max_dense_line_index_allocation ResourceLimits_default. requested_allocation_for_chunks es = Ok r"
      using fr(1) by (auto simp: check_dense_allocation_def check_dense_allocation_with_limits_def rbind_Ok_iff width_simps)
    ultimately have "decode_for_chunks_with_limit b es (max_dense_line_index_allocation ResourceLimits_default) = Ok idx"
      using decode_for_chunks_Ok_iff [OF packed_table(4) [OF pl pk sz(6) X] _ sz(5)] b(1) idx(2) by blast
    then show ?thesis
      using Some b(2) st
      by (simp add: parse_dense_line_index_def root_blocks BlockDescriptor_dense_line_index_def BlockDescriptor_new_def
          DENSE_LINE_INDEX_CODEC_def)
  qed
  have docs: "parse_document_index X bs ?r cid ResourceLimits_default = Ok (ob_document_index optional)"
  proof (cases "ob_document_index optional")
    case None
    then show ?thesis using a by (auto simp: parse_document_index_def root_blocks transpose_Ok_iff)
  next
    case (Some di)
    then obtain b where b: "DocumentIndex_encode di = Ok b" "ob = Some b" using a by (auto simp: transpose_Ok_iff)
    have st: "slice_physical bs (PhysicalRange_new (md_off + length mb + length (opt_bytes db)) (length b)) = Ok b"
      unfolding slice_stored(1) [OF n]
      by (rule storedI [of _ "hb @ concat cs @ mb @ opt_bytes db" _ "?tb @ rb @ fb @ tr"])
         (simp_all add: bs b(2) hl sz(1), simp add: opt_bytes_def)
    have di: "validate_for_writer di ResourceLimits_default = Ok ()" "DocumentIndex_wf di" "di_container_id di = cid"
      using w Some by blast+
    have "within_default_budget (document_index_value di)"
      using validate_for_writer_Ok [OF di(1)] by (simp add: within_default_budget_def ResourceLimits_default_def)
    from docs_roundtrip [OF di(2) this] have "DocumentIndex_decode b = Ok di" using b(1) by simp
    moreover have "is_ok (validate_deterministic_with_limits b (cbor_limits ResourceLimits_default))"
      using a b(2) accepts_written(1) [of b] by (simp add: accepts_cbor_def)
    ultimately show ?thesis
      using Some b(2) st di(3)
      by (auto simp: parse_document_index_def root_blocks BlockDescriptor_document_index_def BlockDescriptor_new_def
          DOCUMENT_INDEX_CODEC_def is_ok_iff)
  qed
  have "validate_required_dictionaries es [] = Ok ()"
    using packed_nth(9) [OF pk] by (auto simp: validate_required_dictionaries_Ok_iff in_set_conv_nth)
  then have "optional_parts X bs ResourceLimits_default cid ?r es [] (ob_dense_line_index optional) (ob_document_index optional)"
    using dense docs by (simp add: optional_parts_def parse_dictionary_blocks_def root_blocks)
  then have "open_skeleton_details_with_limits X bs ResourceLimits_default =
      Ok (skeleton_details ?h ?t f ?m ?r es [] (ob_dense_line_index optional) (ob_document_index optional))"
    by (intro open_complete [OF parts]) simp
  moreover have "length bs - 64 - length fb = ?off + length rb" using p(11) by simp
  ultimately show ?thesis
    by (simp add: skeleton_details_def written_details_def written_root_def written_metadata_def
        Metadata_for_source_with_options_def Let_def)
qed

lemma written_decodes:
  assumes wr: "written X input cid options plan cs es optional"
    and as: "assembled X input cid plan cs es optional md_off mb db ob rb f fb bs" and len: "length bs < isize_end"
    and zs: "zstd_documented X" and i: "i < length es" and d: "sk_dictionaries d = []"
  shows "QztReader_decode_entry X \<lparr>qr_bytes = bs, qr_details = d\<rparr> (es ! i) =
     Ok (slice input (logical_offset (es ! i)) (logical_offset (es ! i) + uncompressed_size (es ! i)))"
    and "QztReader_slice_physical \<lparr>qr_bytes = bs, qr_details = d\<rparr>
       (PhysicalRange_new (physical_offset (es ! i)) (compressed_size (es ! i))) = Ok (cs ! i)"
proof -
  note w = wr [unfolded written_def] and sz = written_sizes [OF wr as] and p = written_parts [OF wr as len]
  have pk: "packed_from X input (wo_zstd_level options) HEADER_LEN (plan_chunk_list plan) cs es" using w by blast
  note nth = packed_nth [OF pk i]
  let ?e = "es ! i"
  let ?u = "slice input (logical_offset ?e) (logical_offset ?e + uncompressed_size ?e)"
  have n: "length bs < u64_end" by (rule isize_u64 [OF len])
  have ic: "i < length cs" using i packed_lengths [OF pk] by simp
  obtain hb tr where hl: "length hb = 128" and
      bs: "bs = hb @ concat cs @ mb @ opt_bytes db @ opt_bytes ob @ concat (map ChunkEntry_encode es) @ rb @ fb @ tr"
    by (rule written_bytes [OF wr as len])
  have "concat cs = concat (take i cs) @ cs ! i @ concat (drop (Suc i) cs)"
    using id_take_nth_drop [OF ic] by (metis concat.simps(2) concat_append)
  then have "stored bs (physical_offset ?e) (compressed_size ?e) (cs ! i)"
    using nth(1,2) hl by (intro storedI [of _ "hb @ concat (take i cs)"]) (simp_all add: bs fixed_consts)
  then show phys: "QztReader_slice_physical \<lparr>qr_bytes = bs, qr_details = d\<rparr>
       (PhysicalRange_new (physical_offset ?e) (compressed_size ?e)) = Ok (cs ! i)"
    using n by (auto simp: QztReader_slice_physical_def stored_def checked_physical_end_def checked_add_def
        PhysicalRange_new_def get_slice_def)
  have ul: "length ?u = uncompressed_size ?e" using nth(8) by simp
  have us: "uncompressed_size ?e < u64_end" using nth(8) sz(6) by simp
  have "decode_chunk X (cs ! i) [] (uncompressed_size ?e) = Ok ?u"
  proof -
    have enc: "encode_chunk X ?u (wo_zstd_level options) = Ok (cs ! i)" using nth(3) by (simp add: encode_chunk_def)
    then have "zstd_decoder X (cs ! i) [] = Some (?u, False)"
      using zs by (auto simp: zstd_documented_def encode_chunk_def result_simps)
    then show ?thesis using ul nth(7) by (subst decode_chunk_Ok_iff) (auto simp: ResourceLimits_default_def u64_end_def)
  qed
  then have "decode_compressed_entry X ?e (cs ! i) [] = Ok ?u"
    using nth(9-11) ul us by (simp add: decode_compressed_entry_def Checksum_blake3_def usize_to_u64_def)
  then show "QztReader_decode_entry X \<lparr>qr_bytes = bs, qr_details = d\<rparr> ?e = Ok ?u"
    using phys d by (simp add: QztReader_decode_entry_def)
qed

end
