(* ===== verification/Reader_Complete.thy ===== *)
theory Reader_Complete
  imports Reader_Verify
begin

text \<open>
  Completeness of deep verification: a container whose chunks, flags, line counts, indexes,
  checksums and documents are right is never rejected. Together with its soundness, deep
  verification accepts exactly the containers that describe their text.
\<close>

lemma rfold_enumerate_progress:
  assumes "P 0 s" and "\<And>k u. k < length xs \<Longrightarrow> P k u \<Longrightarrow> \<exists>u'. f u (k, xs ! k) = Ok u' \<and> P (Suc k) u'"
  shows "\<exists>s'. rfold f s (enumerate 0 xs) = Ok s' \<and> P (length xs) s'"
proof -
  have "\<exists>s'. rfold f s (enumerate n ys) = Ok s' \<and> P (n + length ys) s'" if "P n s" "ys = drop n xs" "n \<le> length xs" for n ys s
    using that
  proof (induction ys arbitrary: n s)
    case (Cons y ys)
    then have n: "n < length xs" by (metis drop_all leI list.distinct(1))
    then have y: "y = xs ! n" "ys = drop (Suc n) xs" using Cons.prems(2) by (metis Cons_nth_drop_Suc list.inject)+
    obtain u where u: "f s (n, y) = Ok u" "P (Suc n) u" using assms(2) [OF n Cons.prems(1)] y(1) by blast
    then show ?case using Cons.IH [OF u(2) y(2)] n by auto
  qed simp
  from this [where n = 0 and ys = xs and s = s] show ?thesis using assms(1) by simp
qed

section \<open>Text analysis never overflows\<close>

lemma text_seen_counts:
  assumes "text_seen p st"
  shows "ta_lf_count st \<le> length p" and "ta_crlf_count st \<le> length p"
  using assms length_filter_le [of "ends_lf p" "[0 ..< length p]"] length_filter_le [of "ends_crlf p" "[0 ..< length p]"]
  by (simp_all add: text_seen_def)

lemma text_update_bytes_total:
  assumes "text_seen p st" and "length p + length xs < u64_end"
  shows "\<exists>st'. rfold text_update_byte st xs = Ok st'"
  using assms
proof (induction xs arbitrary: p st)
  case (Cons x xs)
  have "ta_lf_count st + 1 < u64_end" "ta_crlf_count st + 1 < u64_end"
    using text_seen_counts [OF Cons.prems(1)] Cons.prems(2) by simp_all
  then obtain u where u: "text_update_byte st x = Ok u"
    by (cases "x = LF"; cases "ta_previous_byte st = Some CR") (simp_all add: text_update_byte_def checked_add_def)
  have "text_seen (p @ [x]) u" using text_update_byte_seen [OF Cons.prems(1) u] by simp
  from Cons.IH [OF this] u Cons.prems(2) show ?case by simp
qed simp

section \<open>Every document gets its digest\<close>

text \<open>An activated document is still active, past the bytes seen, or has its digest.\<close>

definition hasher_all :: "nat \<Rightarrow> 'h DocumentHasher \<Rightarrow> bool" where
  "hasher_all n dh \<longleftrightarrow> (\<forall>a \<in> set (dh_active dh). n < ad_end a) \<and>
     (\<forall>j < dh_next dh. j < length (dh_pending dh) \<longrightarrow>
        pd_index (dh_pending dh ! j) \<in> ad_index ` set (dh_active dh) \<union> dom (dh_results dh))"

lemma activate_all:
  assumes "activate X ps c' next as = (next', as')"
  shows "set as \<subseteq> set as' \<and> (\<forall>j < next'. j < length ps \<longrightarrow> j < next \<or> pd_index (ps ! j) \<in> ad_index ` set as')"
  using assms
proof (induction "length ps - next" arbitrary: "next" as)
  case 0
  then show ?case by (subst (asm) activate.simps) (auto simp: get_def)
next
  case (Suc m)
  then have n: "next < length ps" by simp
  let ?p = "ps ! next"
  let ?a = "\<lparr>ad_index = pd_index ?p, ad_start = pd_start ?p, ad_end = pd_end ?p, ad_hasher = hasher_new X\<rparr>"
  show ?case
  proof (cases "pd_start ?p \<ge> c'")
    case True
    then show ?thesis using Suc.prems n by (subst (asm) activate.simps) (auto simp: get_def)
  next
    case False
    have act: "activate X ps c' (Suc next) (as @ [?a]) = (next', as')"
      using Suc.prems(1) False n by (subst (asm) activate.simps) (auto simp: get_def)
    have m: "m = length ps - Suc next" using Suc.hyps(2) by simp
    have IH: "set (as @ [?a]) \<subseteq> set as' \<and>
        (\<forall>j < next'. j < length ps \<longrightarrow> j < Suc next \<or> pd_index (ps ! j) \<in> ad_index ` set as')"
      by (rule Suc.hyps(1) [OF m act])
    have "pd_index ?p \<in> ad_index ` set as'" using IH by force
    then show ?thesis using IH by (auto simp: less_Suc_eq)
  qed
qed

lemma feed_active_all:
  assumes "feed_active X c c' d (still, results) a = Ok (still', results')"
  shows "set still \<subseteq> set still' \<and> (\<forall>b \<in> set still'. b \<in> set still \<or> c' < ad_end b) \<and>
     dom results \<subseteq> dom results' \<and> ad_index a \<in> ad_index ` set still' \<union> dom results'"
proof -
  obtain a' where e: "(if max c (ad_start a) < min c' (ad_end a) then
       rbind (u64_to_usize (max c (ad_start a) - c)) (\<lambda>local_start.
       rbind (u64_to_usize (min c' (ad_end a) - c)) (\<lambda>local_end.
       rbind (ok_or (get_slice d local_start local_end) ContainerCorrupt) (\<lambda>part.
       Ok (a\<lparr>ad_hasher := hasher_update X (ad_hasher a) part\<rparr>)))) else Ok a) = Ok a'"
    and f: "(if ad_end a' \<le> c' then Ok (still, results(ad_index a' \<mapsto> hasher_finalize X (ad_hasher a')))
      else Ok (still @ [a'], results) :: _ result) = Ok (still', results')"
    using assms unfolding feed_active_def Let_def prod.case
    by (subst (asm) rbind_Ok_iff) (elim exE conjE, rule that, assumption+)
  have "ad_index a' = ad_index a" using e by (auto simp: rbind_Ok_iff result_simps split: if_split_asm)
  note a' = this f
  then show ?thesis by (cases "ad_end a' \<le> c'") auto
qed

lemma feed_all_all:
  assumes "rfold (feed_active X c c' d) (still, results) as = Ok (still', results')"
  shows "set still \<subseteq> set still' \<and> (\<forall>b \<in> set still'. b \<in> set still \<or> c' < ad_end b) \<and>
     dom results \<subseteq> dom results' \<and> ad_index ` set as \<subseteq> ad_index ` set still' \<union> dom results'"
  using assms
proof (induction as arbitrary: still results)
  case (Cons a as)
  then obtain st rs where s: "feed_active X c c' d (still, results) a = Ok (st, rs)"
    "rfold (feed_active X c c' d) (st, rs) as = Ok (still', results')" by (auto simp: rbind_Ok_iff)
  note h = feed_active_all [OF s(1)] and t = Cons.IH [OF s(2)]
  have hd: "ad_index a \<in> ad_index ` set still' \<union> dom results'"
    using h t by (meson Un_iff image_mono subsetD)
  show ?case
  proof (intro conjI)
    show "set still \<subseteq> set still'" "dom results \<subseteq> dom results'" using h t by (meson order_trans)+
    show "\<forall>b \<in> set still'. b \<in> set still \<or> c' < ad_end b" using h t by metis
    show "ad_index ` set (a # as) \<subseteq> ad_index ` set still' \<union> dom results'" using hd t by simp
  qed
qed auto

lemma DocumentHasher_feed_all:
  assumes "DocumentHasher_feed X dh c d = Ok dh'" and "hasher_all c dh"
  shows "hasher_all (c + length d) dh'"
proof -
  obtain next' as' where a: "activate X (dh_pending dh) (c + length d) (dh_next dh) (dh_active dh) = (next', as')" by fastforce
  obtain sa rs where f: "rfold (feed_active X c (c + length d) d) ([], dh_results dh) as' = Ok (sa, rs)"
    and dh': "dh' = dh\<lparr>dh_next := next', dh_active := sa, dh_results := rs\<rparr>"
    using assms(1) a by (auto simp: DocumentHasher_feed_def rbind_Ok_iff result_simps width_simps)
  note act = activate_all [OF a] and fed = feed_all_all [OF f]
  have "pd_index (dh_pending dh ! j) \<in> ad_index ` set sa \<union> dom rs" if "j < next'" "j < length (dh_pending dh)" for j
  proof (cases "j < dh_next dh")
    case True
    then have "pd_index (dh_pending dh ! j) \<in> ad_index ` set (dh_active dh) \<union> dom (dh_results dh)"
      using assms(2) that(2) by (simp add: hasher_all_def)
    then show ?thesis using act fed by blast
  next
    case False
    then have "pd_index (dh_pending dh ! j) \<in> ad_index ` set as'" using act that by blast
    then show ?thesis using fed by blast
  qed
  then show ?thesis using fed by (auto simp: hasher_all_def dh')
qed

lemma DocumentHasher_new_all: "hasher_all 0 (DocumentHasher_new di)"
  by (simp add: hasher_all_def DocumentHasher_new_def Let_def)

lemma document_spans_complete:
  assumes "i < length (di_documents di)" and "0 < doc_byte_length (di_documents di ! i)"
  shows "i \<in> pd_index ` set (document_spans di)"
proof -
  have "(i, di_documents di ! i) \<in> set (enumerate 0 (di_documents di))" using assms(1) by (simp add: in_set_enumerate_eq)
  then show ?thesis using assms(2) by (force simp: document_spans_def DocumentHasher_new_def Let_def)
qed

text \<open>At the end of the text every document that is not empty has the digest of its range.\<close>

lemma hasher_results:
  assumes "hasher_ok X data (length data) dh" and "hasher_all (length data) dh" and "dh_pending dh = document_spans di"
    and "i < length (di_documents di)" and "d = di_documents di ! i" and "0 < doc_byte_length d"
    and "doc_logical_offset d + doc_byte_length d \<le> length data" and "length data < u64_end"
  shows "dh_results dh i = Some (blake3_hash X (slice data (doc_logical_offset d) (doc_logical_offset d + doc_byte_length d)))"
proof -
  have sat: "saturating_add (doc_logical_offset d) (doc_byte_length d) = doc_logical_offset d + doc_byte_length d"
    using assms(7,8) by (simp add: saturating_add_def)
  obtain p where p: "p \<in> set (document_spans di)" "pd_index p = i"
    using document_spans_complete [OF assms(4)] assms(5,6) by auto
  then have pe: "pd_start p = doc_logical_offset d" "pd_end p = doc_logical_offset d + doc_byte_length d"
    using document_spans_entry [OF p(1)] assms(5) sat by simp_all
  obtain j where j: "j < length (document_spans di)" "p = document_spans di ! j" using p(1) by (metis in_set_conv_nth)
  have "j < dh_next dh"
  proof (rule ccontr)
    assume "\<not> j < dh_next dh"
    then have "length data \<le> pd_start p" using assms(1,3) j by (simp add: hasher_ok_def)
    then show False using pe assms(6,7) by simp
  qed
  then have "i \<in> ad_index ` set (dh_active dh) \<union> dom (dh_results dh)"
    using assms(2,3) j p(2) unfolding hasher_all_def by metis
  moreover have "i \<notin> ad_index ` set (dh_active dh)"
  proof
    assume "i \<in> ad_index ` set (dh_active dh)"
    then obtain a where a: "a \<in> set (dh_active dh)" "ad_index a = i" by blast
    then obtain q where q: "q \<in> set (document_spans di)" "pd_index q = i" "ad_end a = pd_end q"
      using assms(1,3) by (auto simp: hasher_ok_def active_ok_def)
    then have "pd_end q = doc_logical_offset d + doc_byte_length d"
      using document_spans_entry(3) [OF q(1)] assms(5) sat by simp
    then show False using assms(2,7) a(1) q(3) by (fastforce simp: hasher_all_def)
  qed
  ultimately obtain v where v: "dh_results dh i = Some v" by auto
  then obtain q where q: "q \<in> set (document_spans di)" "pd_index q = i" "v = blake3_hash X (slice data (pd_start q) (pd_end q))"
    using assms(1) unfolding hasher_ok_def hashed_def assms(3) by blast
  then show ?thesis using v document_spans_entry [OF q(1)] assms(5) sat by simp
qed

lemma lines_in_le: "lines_in data a b \<le> b - a"
  using length_filter_le [of "is_line_start data" "[a ..< b]"] by (simp add: lines_in_def)

section \<open>Deep verification accepts a described text\<close>

text \<open>The document's chunk range is the one its byte range gives.\<close>

definition document_placed :: "ChunkEntry list \<Rightarrow> DocumentEntry \<Rightarrow> bool" where
  "document_placed es d \<longleftrightarrow>
     document_chunk_range es (doc_logical_offset d) (doc_byte_length d) = Ok (doc_chunk_start d, doc_chunk_end d)"

context text_source
begin

lemma layout_flags: "k < length entries \<Longrightarrow> flags (entries ! k) \<le> STARTS_WITH_LINE_CONTINUATION"
  using layout by (simp add: chunk_layout_def Let_def)

lemma deep_progress:
  assumes "sk_chunk_entries details = entries" and "blake3_documented X" and "sk_dense_line_index details = dense"
    and "\<forall>e \<in> set entries. valid_utf8 (chunk_or_zeros decode e)" and "k < length entries"
    and inv: "deep_invariant X details decode k st"
    and all: "pred_option (hasher_all (length (restored_bytes decode (take k entries)))) (ds_document_hasher st)"
  shows "\<exists>st'. verify_deep_entry X details decode st (k, entries ! k) = Ok st' \<and>
     pred_option (hasher_all (length (restored_bytes decode (take (Suc k) entries)))) (ds_document_hasher st')"
proof -
  let ?e = "entries ! k" and ?data = "restored_bytes decode entries" and ?seen = "restored_bytes decode (take k entries)"
  let ?d = "chunk_or_zeros decode ?e"
  let ?lo = "logical_offset ?e"
  let ?hi = "?lo + uncompressed_size ?e"
  have e: "?e \<in> set entries" using assms(5) by simp
  note inv = inv [unfolded deep_invariant_def Let_def assms(1)]
  have lo: "?lo = length ?seen" using layout_nth(2) [OF layout assms(5)] restored_length [of k] by simp
  have hi: "?hi \<le> length ?data" using chunk_ends [OF e] restored_total by simp
  have dl: "length ?d = uncompressed_size ?e" by (rule chunk_size [OF e])
  have ds: "?d = slice ?data ?lo ?hi" using restored_chunk [OF assms(5)] by simp
  have lastb: "?data ! (?lo - 1) = last ?seen" if "0 < ?lo"
    using that lo by (subst restored_split [OF assms(5)]) (auto simp: nth_append last_conv_nth)
  have fl: "flags ?e = (if ?lo > 0 \<and> ta_previous_byte (ds_text st) \<noteq> Some LF then STARTS_WITH_LINE_CONTINUATION else 0)"
  proof -
    have "flags ?e = (if even (flags ?e) then 0 else STARTS_WITH_LINE_CONTINUATION)"
      using layout_flags [OF assms(5)] by (cases "flags ?e") (auto simp: STARTS_WITH_LINE_CONTINUATION_def)
    then show ?thesis
      using flags_match [OF e] lastb inv lo by (auto simp: is_line_start_def text_seen_def split: if_split_asm)
  qed
  have starts: "local_line_starts ?d (flags ?e) = map (\<lambda>i. i - ?lo) (filter (is_line_start ?data) [?lo ..< ?hi])"
    unfolding ds using flags_match [OF e] hi restored_total total_width by (intro local_line_starts_slice) simp_all
  have lc: "line_count ?e = length (local_line_starts ?d (flags ?e))"
    using lines_match [OF e] starts by (simp add: lines_in_def)
  have fline: "first_line ?e = ta_line_starts_seen (ds_text st)"
    using layout_nth(3) [OF layout assms(5)] first_line_eq [of k] assms(5) inv restored_length [of k] by simp
  have wd: "length ?seen + length ?d < u64_end" "lines_in ?data 0 (length ?seen) + line_count ?e < u64_end"
  proof -
    show "length ?seen + length ?d < u64_end" using hi lo dl restored_total total_width by simp
    then show "lines_in ?data 0 (length ?seen) + line_count ?e < u64_end"
      using lines_match [OF e] lo dl lines_in_append [of 0 ?lo ?hi ?data] lines_in_le [of ?data 0 ?hi] by simp
  qed
  obtain ta where ta: "StreamingTextAnalysis_update (ds_text st) ?d (flags ?e) = Ok ta"
  proof -
    have "text_seen ?seen ((ds_text st)\<lparr>ta_line_starts_seen := lines_in ?data 0 (length ?seen) + line_count ?e\<rparr>)"
      using inv by (simp add: text_seen_def)
    from text_update_bytes_total [OF this wd(1)] show thesis
      using that wd lc inv by (auto simp: StreamingTextAnalysis_update_def Let_def usize_to_u64_def checked_add_def)
  qed
  have dm: "(case sk_dense_line_index details of Some dn \<Rightarrow> verify_chunk dn k ?d (flags ?e) | None \<Rightarrow> Ok ()) = Ok ()"
    using dense_match [OF _ assms(5)] assms(3) by (cases dense) auto
  obtain dh where dh: "(case ds_document_hasher st of Some hasher \<Rightarrow>
        rbind (DocumentHasher_feed X hasher ?lo ?d) (\<lambda>h. Ok (Some h)) | None \<Rightarrow> Ok None) = Ok dh"
    and dha: "pred_option (hasher_all (?lo + length ?d)) dh"
  proof (cases "ds_document_hasher st")
    case None
    then show ?thesis using that [of None] by simp
  next
    case (Some h)
    then have "hasher_ok X ?data ?lo h" using inv lo by (auto simp: option_rel_Some2)
    moreover have "?d = slice ?data ?lo (?lo + length ?d)" "?lo + length ?d \<le> length ?data" "length ?data < u64_end"
      using ds dl hi restored_total total_width by simp_all
    ultimately obtain h' where h': "DocumentHasher_feed X h ?lo ?d = Ok h'"
      using DocumentHasher_feed_ok [OF _ assms(2)] by metis
    then show ?thesis using that [of "Some h'"] DocumentHasher_feed_all [OF h'] all lo Some by simp
  qed
  have "length (restored_bytes decode (take (Suc k) entries)) = ?lo + length ?d"
    using lo assms(5) by (simp add: restored_bytes_def take_Suc_conv_app_nth)
  then show ?thesis
    using fl fline decode_chunk_or_zeros [OF e] assms(4) e dm lc ta dh dha wd inv lo
    by (simp add: verify_deep_entry_def Let_def from_utf8_def usize_to_u64_def checked_add_def)
qed

lemma deep_run:
  assumes "sk_chunk_entries details = entries" and "blake3_documented X" and "sk_dense_line_index details = dense"
    and "\<forall>e \<in> set entries. valid_utf8 (chunk_or_zeros decode e)"
  shows "\<exists>st. rfold (verify_deep_entry X details decode)
        \<lparr>ds_original_hasher = hasher_new X, ds_text = StreamingTextAnalysis_new,
         ds_document_hasher = map_option DocumentHasher_new (sk_document_index details), ds_decoded_bytes = 0\<rparr>
        (enumerate 0 entries) = Ok st \<and> deep_invariant X details decode (length entries) st \<and>
     pred_option (hasher_all total) (ds_document_hasher st)"
proof -
  let ?P = "\<lambda>k st. deep_invariant X details decode k st \<and>
    pred_option (hasher_all (length (restored_bytes decode (take k entries)))) (ds_document_hasher st)"
  let ?init = "\<lparr>ds_original_hasher = hasher_new X, ds_text = StreamingTextAnalysis_new,
         ds_document_hasher = map_option DocumentHasher_new (sk_document_index details), ds_decoded_bytes = 0\<rparr>"
  have "?P 0 ?init"
    by (cases "sk_document_index details")
       (auto simp: deep_invariant_def Let_def restored_bytes_def fed_def text_seen_def StreamingTextAnalysis_new_def
          lines_in_def DocumentHasher_new_ok DocumentHasher_new_pending DocumentHasher_new_all intro!: exI [of _ "[]"])
  moreover have "\<exists>u'. verify_deep_entry X details decode u (k, entries ! k) = Ok u' \<and> ?P (Suc k) u'"
    if k: "k < length entries" and u: "?P k u" for k u
    using deep_progress [OF assms k conjunct1 [OF u] conjunct2 [OF u]] deep_step [OF assms(1,2) k conjunct1 [OF u]] by blast
  ultimately obtain st where "rfold (verify_deep_entry X details decode) ?init (enumerate 0 entries) = Ok st" "?P (length entries) st"
    using rfold_enumerate_progress [of ?P ?init entries "verify_deep_entry X details decode"] by blast
  then show ?thesis using restored_total by auto
qed

lemma documents_complete:
  assumes "blake3_documented X" and "hasher_ok X text_bytes total dh" and "hasher_all total dh"
    and "dh_pending dh = document_spans di" and "lines = length (line_starts text_bytes)"
    and "\<forall>d \<in> set (di_documents di). document_matches X text_bytes d \<and> document_placed entries d"
  shows "verify_document_index_ranges X di total lines entries (dh_results dh) = Ok ()"
  unfolding verify_document_index_ranges_def rfold_unit_Ok_iff
proof
  fix p
  assume "p \<in> set (enumerate 0 (di_documents di))"
  then obtain i d where p: "p = (i, d)" "i < length (di_documents di)" "d = di_documents di ! i"
    by (auto simp: in_set_conv_nth nth_enumerate_eq)
  have m: "document_matches X text_bytes d" "document_placed entries d" using assms(6) p(2,3) by simp_all
  note m = m [unfolded document_matches_def document_placed_def restored_total]
  have "lines \<le> total" using assms(5) restored_total length_filter_le [of "is_line_start text_bytes" "[0 ..< total]"]
    by (simp add: line_starts_def)
  then have w: "doc_logical_offset d + doc_byte_length d < u64_end" "doc_first_line d + doc_line_count d < u64_end"
    using m(1) assms(5) total_width by linarith+
  have "dh_results dh i = Some (blake3_hash X (slice text_bytes (doc_logical_offset d) (doc_logical_offset d + doc_byte_length d)))"
    if "0 < doc_byte_length d"
    using hasher_results [of X text_bytes, OF _ _ assms(4) p(2,3) that] assms(2,3) m(1) restored_total total_width by simp
  then show "verify_document X total lines entries (dh_results dh) p = Ok ()"
    using m w assms(5) p(1)
    by (cases "doc_byte_length d = 0")
       (auto simp: verify_document_def checked_logical_end_def checked_add_def Checksum_from_raw_bytes_def Checksum_blake3_def slice_def)
qed

lemma deep_complete:
  assumes "sk_chunk_entries details = entries" and "blake3_documented X" and "sk_dense_line_index details = dense"
    and "\<forall>e \<in> set entries. valid_utf8 (chunk_or_zeros decode e)"
    and "ss_original_size (sk_summary details) = total"
    and "Checksum_blake3 X text_bytes = md_original_checksum (sk_metadata details)"
    and "lines_in text_bytes 0 total = md_line_count (sk_metadata details)"
    and "NewlineMode_as_str (li_newline_mode (LineInfo_from_bytes text_bytes)) = md_newline_mode (sk_metadata details)"
    and "\<forall>di. sk_document_index details = Some di \<longrightarrow> (\<forall>d \<in> set (di_documents di).
       document_matches X text_bytes d \<and> document_placed entries d)"
  shows "verify_deep_entries X details decode = Ok (report_for_level details Deep total)"
proof -
  obtain st where st: "rfold (verify_deep_entry X details decode)
        \<lparr>ds_original_hasher = hasher_new X, ds_text = StreamingTextAnalysis_new,
         ds_document_hasher = map_option DocumentHasher_new (sk_document_index details), ds_decoded_bytes = 0\<rparr>
        (enumerate 0 entries) = Ok st" "deep_invariant X details decode (length entries) st"
     "pred_option (hasher_all total) (ds_document_hasher st)" using deep_run [OF assms(1-4)] by blast
  note inv = st(2) [unfolded deep_invariant_def Let_def assms(1), simplified]
  have ls: "length (line_starts text_bytes) = md_line_count (sk_metadata details)"
    using assms(7) restored_total by (simp add: lines_in_whole)
  have "(case sk_document_index details of Some di \<Rightarrow>
        verify_document_index_ranges X di total (md_line_count (sk_metadata details)) entries
          (case ds_document_hasher st of Some hasher \<Rightarrow> dh_results hasher | None \<Rightarrow> Map.empty) | None \<Rightarrow> Ok ()) = Ok ()"
  proof (cases "sk_document_index details")
    case (Some di)
    then obtain dh where dh: "ds_document_hasher st = Some dh" "hasher_ok X text_bytes total dh" "dh_pending dh = document_spans di"
      using inv restored_total by (auto simp: option_rel_Some1)
    then show ?thesis
      using documents_complete [OF assms(2) dh(2) _ dh(3) ls [symmetric]] st(3) assms(9) Some by simp
  qed simp
  moreover have "Checksum_from_hasher X (ds_original_hasher st) = md_original_checksum (sk_metadata details)"
    using assms(2,6) inv fed_finalize [of X text_bytes text_bytes "ds_original_hasher st"]
    by (simp add: Checksum_from_hasher_def Checksum_blake3_def)
  moreover have "StreamingTextAnalysis_newline_mode (ds_text st) = md_newline_mode (sk_metadata details)"
    using assms(8) inv by (simp add: StreamingTextAnalysis_newline_mode_def LineInfo_from_bytes_eq text_seen_def)
  ultimately show ?thesis
    using st(1) inv assms(1,5,7) restored_total by (cases "sk_document_index details") (simp_all add: verify_deep_entries_def)
qed

end

end
