(* ===== verification/Writer_Documents.thy ===== *)
theory Writer_Documents
  imports Writer_Correct Reader_Complete
begin

text \<open>
  The generated document index: the writer sorts the ends of all spans and counts line feeds
  in one pass over the input. Every entry it builds describes its bytes, its first line and
  its line count are those of the text, and its chunk range is the one the reader recomputes.
\<close>

section \<open>Line feeds and lines\<close>

definition lf_before :: "bytes \<Rightarrow> nat \<Rightarrow> nat" where
  "lf_before data n = length (filter (\<lambda>i. data ! i = LF) [0 ..< n])"

lemma lf_before_0 [simp]: "lf_before data 0 = 0"
  by (simp add: lf_before_def)

lemma lf_before_Suc: "lf_before data (Suc n) = lf_before data n + (if data ! n = LF then 1 else 0)"
  by (simp add: lf_before_def)

lemma lf_before_mono: "m \<le> n \<Longrightarrow> lf_before data m \<le> lf_before data n"
  by (induction n) (auto simp: lf_before_Suc le_Suc_eq)

lemma lf_before_le: "lf_before data n \<le> n"
  by (induction n) (auto simp: lf_before_Suc)

lemma lines_before: "lines_in data 0 (Suc n) = Suc (lf_before data n)"
  by (induction n) (auto simp: lines_in_def is_line_start_def lf_before_Suc)

lemma lines_in_mono: "a \<le> b \<Longrightarrow> lines_in data 0 a \<le> lines_in data 0 b"
  using lines_in_append [of 0 a b data] by simp

text \<open>Every line feed ends a line, and a byte after the last one is on one more line.\<close>

lemma lf_before_lines:
  assumes "e \<le> length data"
  shows "lf_before data e \<le> length (line_starts data)"
    and "0 < e \<Longrightarrow> data ! (e - 1) \<noteq> LF \<Longrightarrow> lf_before data e + 1 \<le> length (line_starts data)"
proof -
  have m: "lines_in data 0 e \<le> length (line_starts data)" using lines_in_mono [OF assms] by (simp add: lines_in_whole)
  show "lf_before data e \<le> length (line_starts data)"
    using m lines_before [of data "e - 1"] by (cases e) (auto simp: lf_before_Suc)
  assume "0 < e" "data ! (e - 1) \<noteq> LF"
  then show "lf_before data e + 1 \<le> length (line_starts data)"
    using m lines_before [of data "e - 1"] by (cases e) (auto simp: lf_before_Suc)
qed

section \<open>The events\<close>

lemma advance_newlines_Ok:
  "advance_newlines input offset cur n = Ok (cur', n') \<Longrightarrow> n = lf_before input cur \<Longrightarrow> cur \<le> offset \<Longrightarrow>
     cur' = offset \<and> n' = lf_before input offset"
proof (induction input offset cur n rule: advance_newlines.induct)
  case (1 input offset cur n)
  show ?case
  proof (cases "cur < offset")
    case False
    then show ?thesis using "1.prems" by (subst (asm) advance_newlines.simps) auto
  next
    case True
    obtain k where k: "(if input ! cur = LF then ok_or (checked_add n 1) ResourceLimitExceeded else Ok n) = Ok k"
      "advance_newlines input offset (cur + 1) k = Ok (cur', n')"
      using "1.prems"(1) True by (subst (asm) advance_newlines.simps) (auto simp: rbind_Ok_iff)
    have "k = lf_before input (cur + 1)"
      using k(1) "1.prems"(2) by (auto simp: lf_before_Suc width_simps result_simps split: if_splits)
    then show ?thesis using "1.IH" [OF True] k True by auto
  qed
qed

text \<open>The prefix counts of the processed events.\<close>

definition counted :: "bytes \<Rightarrow> line_event list \<Rightarrow> (u64 \<times> u64) list \<Rightarrow> bool" where
  "counted input evs prefixes \<longleftrightarrow> (\<forall>(off, i, b) \<in> set evs. i < length prefixes \<and>
     (if b then snd (prefixes ! i) else fst (prefixes ! i)) = lf_before input off)"

definition one_offset :: "line_event list \<Rightarrow> bool" where
  "one_offset evs \<longleftrightarrow> (\<forall>o1 o2 i b. (o1, i, b) \<in> set evs \<longrightarrow> (o2, i, b) \<in> set evs \<longrightarrow> o1 = o2)"

lemma event_step_Ok:
  assumes "event_step input (prefixes, cur, n) (off, i, b) = Ok (prefixes', cur', n')"
    and "n = lf_before input cur" and "cur \<le> off" and "counted input evs prefixes" and "i < length prefixes"
    and "one_offset (evs @ [(off, i, b)])"
  shows "cur' = off" and "n' = lf_before input off" and "counted input (evs @ [(off, i, b)]) prefixes'"
    and "length prefixes' = length prefixes"
proof -
  obtain c k where a: "advance_newlines input off cur n = Ok (c, k)"
    and r: "prefixes' = (if b then prefixes[i := (fst (prefixes ! i), k)] else prefixes[i := (k, snd (prefixes ! i))])"
      "cur' = c" "n' = k"
    using assms(1) by (auto simp: event_step_def rbind_Ok_iff Let_def)
  have ck: "c = off" "k = lf_before input off" using advance_newlines_Ok [OF a assms(2,3)] by simp_all
  show "cur' = off" "n' = lf_before input off" "length prefixes' = length prefixes" using r ck by simp_all
  have "(if b' then snd (prefixes' ! j) else fst (prefixes' ! j)) = lf_before input o' \<and> j < length prefixes'"
    if m: "(o', j, b') \<in> set (evs @ [(off, i, b)])" for o' j b'
  proof (cases "(j, b') = (i, b)")
    case True
    then have "o' = off" using m assms(6) by (auto simp: one_offset_def)
    then show ?thesis using True assms(5) r(1) ck by auto
  next
    case False
    then have "(o', j, b') \<in> set evs" using m by auto
    then have old: "(if b' then snd (prefixes ! j) else fst (prefixes ! j)) = lf_before input o'" "j < length prefixes"
      using assms(4) by (auto simp: counted_def)
    then show ?thesis using False r(1) by (cases "j = i"; cases b; cases b') auto
  qed
  then show "counted input (evs @ [(off, i, b)]) prefixes'" unfolding counted_def by blast
qed

lemma events_Ok:
  assumes "rfold (event_step input) (prefixes, cur, n) evs = Ok (prefixes', rest)"
    and "n = lf_before input cur" and "sorted (map fst evs)" and "\<forall>e \<in> set evs. cur \<le> fst e"
    and "counted input seen prefixes" and "\<forall>e \<in> set evs. fst (snd e) < length prefixes" and "one_offset (seen @ evs)"
  shows "counted input (seen @ evs) prefixes'"
  using assms
proof (induction evs arbitrary: prefixes cur n seen)
  case (Cons e evs)
  obtain off i b where e: "e = (off, i, b)" by (cases e)
  obtain p c k where s: "event_step input (prefixes, cur, n) (off, i, b) = Ok (p, c, k)"
    "rfold (event_step input) (p, c, k) evs = Ok (prefixes', rest)"
    using Cons.prems(1) e by (auto simp: rbind_Ok_iff)
  have o: "one_offset (seen @ [(off, i, b)])" using Cons.prems(7) e unfolding one_offset_def by auto
  have i: "i < length prefixes" and off: "cur \<le> off" using Cons.prems(4,6) e by simp_all
  note st = event_step_Ok [OF s(1) Cons.prems(2) off Cons.prems(5) i o]
  have "counted input ((seen @ [(off, i, b)]) @ evs) prefixes'"
  proof (rule Cons.IH)
    show "rfold (event_step input) (p, c, k) evs = Ok (prefixes', rest)" by (rule s(2))
    show "k = lf_before input c" "sorted (map fst evs)" using st Cons.prems(3) by simp_all
    show "\<forall>e \<in> set evs. c \<le> fst e" using st(1) Cons.prems(3) e by simp
    show "counted input (seen @ [(off, i, b)]) p" by (rule st(3))
    show "\<forall>e \<in> set evs. fst (snd e) < length p" using st(4) Cons.prems(6) by simp
    show "one_offset ((seen @ [(off, i, b)]) @ evs)" using Cons.prems(7) e by simp
  qed
  then show ?case using e by simp
qed simp

section \<open>The spans\<close>

text \<open>The ranges and events of a list of spans that passed the checks.\<close>

definition span_end :: "DocumentSpan \<Rightarrow> nat" where
  "span_end s = span_logical_offset s + span_byte_length s"

definition span_events :: "DocumentSpan list \<Rightarrow> line_event list" where
  "span_events spans = concat (map (\<lambda>(i, s). [(span_logical_offset s, i, False), (span_end s, i, True)]) (enumerate 0 spans))"

lemma spans_Ok:
  assumes "rfold (span_step n) ({}, [], []) (enumerate 0 spans) = Ok (seen, ranges, events)"
  shows "distinct (map span_doc_id spans)" and "\<forall>s \<in> set spans. span_end s \<le> n \<and> span_end s < u64_end"
    and "ranges = map (\<lambda>s. (span_logical_offset s, span_end s)) spans" and "events = span_events spans"
proof -
  let ?P = "\<lambda>k (seen, ranges, events). seen = set (map span_doc_id (take k spans)) \<and>
    distinct (map span_doc_id (take k spans)) \<and> (\<forall>s \<in> set (take k spans). span_end s \<le> n \<and> span_end s < u64_end) \<and>
    ranges = map (\<lambda>s. (span_logical_offset s, span_end s)) (take k spans) \<and> events = span_events (take k spans)"
  have "?P (length spans) (seen, ranges, events)"
  proof (rule rfold_enumerate_induct [OF assms])
    show "?P 0 ({}, [], [])" by (simp add: span_events_def)
  next
    fix k u u'
    assume k: "k < length spans" and u: "?P k u" and s: "span_step n u (k, spans ! k) = Ok u'"
    have t: "take (Suc k) spans = take k spans @ [spans ! k]" using k by (simp add: take_Suc_conv_app_nth)
    show "?P (Suc k) u'"
      using u s k by (cases u) (auto simp: t span_step_def span_events_def span_end_def enumerate_append_eq rbind_Ok_iff
          result_simps width_simps split: if_splits)
  qed
  then show "distinct (map span_doc_id spans)" "\<forall>s \<in> set spans. span_end s \<le> n \<and> span_end s < u64_end"
    "ranges = map (\<lambda>s. (span_logical_offset s, span_end s)) spans" "events = span_events spans" by simp_all
qed

lemma span_events_iff:
  "(off, i, b) \<in> set (span_events spans) \<longleftrightarrow>
     i < length spans \<and> off = (if b then span_end (spans ! i) else span_logical_offset (spans ! i))"
  by (auto simp: span_events_def in_set_enumerate_eq split: if_splits)

lemma prefixes_Ok:
  assumes "rfold (event_step input) (replicate (length spans) (0, 0), 0, 0) (sort (span_events spans)) = Ok (prefixes, rest)"
    and "i < length spans"
  shows "prefixes ! i = (lf_before input (span_logical_offset (spans ! i)), lf_before input (span_end (spans ! i)))"
proof -
  let ?evs = "sort (span_events spans)"
  have "sorted (map fst (sort evs))" for evs :: "line_event list"
    unfolding sorted_wrt_map by (rule sorted_wrt_mono_rel [OF _ sorted_sort]) (auto simp: less_eq_prod_def)
  then have "counted input ([] @ ?evs) prefixes"
    by (intro events_Ok [OF assms(1)]) (auto simp: counted_def one_offset_def span_events_iff)
  moreover have "(span_logical_offset (spans ! i), i, False) \<in> set ?evs" "(span_end (spans ! i), i, True) \<in> set ?evs"
    using assms(2) by (simp_all add: span_events_iff)
  ultimately show ?thesis by (fastforce simp: counted_def prod_eq_iff)
qed

section \<open>Chunk ranges\<close>

lemma document_chunk_loop_eq:
  "document_chunk_loop entries offset low high = partition_loop entries offset entry_logical_end low high"
proof (induction entries offset low high rule: document_chunk_loop.induct)
  case (1 entries offset low high)
  then show ?case
    by (subst document_chunk_loop.simps, subst partition_loop.simps)
       (auto simp: Let_def entry_logical_end_def [symmetric] intro!: rbind_cong)
qed

lemma document_chunk_index_eq: "document_chunk_index = chunk_index_for_logical_offset"
  by (intro ext) (simp add: document_chunk_index_def chunk_index_for_logical_offset_def partition_by_end_def document_chunk_loop_eq)

lemma writer_chunk_range_Ok_iff:
  "writer_document_chunk_range entries offset len = Ok p \<longleftrightarrow> document_chunk_range entries offset len = Ok p"
  by (auto simp: writer_document_chunk_range_def document_chunk_range_def document_chunk_index_eq rbind_Ok_iff
      result_simps checked_sub_def width_simps split: if_splits)

lemma document_chunk_range_width:
  assumes "document_chunk_range entries offset len = Ok (a, b)" and "chunk_layout entries" and "length entries < u64_end"
  shows "a < u64_end" and "b < u64_end"
proof -
  have "chunk_id (entries ! i) < u64_end" if "i < length entries" for i
    using assms(2,3) that layout_nth(1) [OF assms(2) that] by simp
  then show "a < u64_end" "b < u64_end"
    using assms(1) by (auto simp: document_chunk_range_def rbind_Ok_iff result_simps width_simps get_def u64_end_def split: if_splits)
qed

section \<open>The documents\<close>

text \<open>The entry that describes one span of the input.\<close>

definition span_entry ::
  "('h, 'x) ext_scheme \<Rightarrow> bytes \<Rightarrow> DocumentSpan \<Rightarrow> u64 \<Rightarrow> u64 \<Rightarrow> DocumentEntry"
where
  "span_entry X input s a b =
     (let bs = slice input (span_logical_offset s) (span_end s);
          n = lf_before input (span_end s) - lf_before input (span_logical_offset s) in
      DocumentEntry_new X (span_doc_id s) (span_logical_offset s) (span_byte_length s)
        (lf_before input (span_logical_offset s)) (if bs = [] then 0 else if last bs = LF then n else n + 1) a b
        (Checksum_blake3 X bs))"

lemma build_document_Ok:
  assumes "build_document X input entries ranges prefixes (i, s) = Ok d"
    and "ranges ! i = (span_logical_offset s, span_end s)"
    and "prefixes ! i = (lf_before input (span_logical_offset s), lf_before input (span_end s))"
  obtains a b where "d = span_entry X input s a b"
    and "document_chunk_range entries (span_logical_offset s) (span_byte_length s) = Ok (a, b)"
  using assms
  by (auto simp: build_document_def rbind_Ok_iff result_simps get_slice_def writer_chunk_range_Ok_iff span_entry_def Let_def
      width_simps split: if_splits)

lemma span_entry_matches:
  assumes "span_end s \<le> length input"
  shows "document_matches X input (span_entry X input s a b)"
proof -
  let ?bs = "slice input (span_logical_offset s) (span_end s)"
  have le: "span_logical_offset s \<le> span_end s" by (simp add: span_end_def)
  have n: "length ?bs = span_end s - span_logical_offset s" using assms by (simp add: slice_def)
  have "last ?bs = input ! (span_end s - 1)" if ne: "?bs \<noteq> []"
  proof -
    have "span_logical_offset s < span_end s" using ne n by (cases ?bs) auto
    then show ?thesis using assms n last_conv_nth [OF ne] by (simp add: slice_def)
  qed
  moreover have "0 < span_end s" if "?bs \<noteq> []" using that by (cases "span_end s") (auto simp: slice_def)
  ultimately have "doc_first_line (span_entry X input s a b) + doc_line_count (span_entry X input s a b) \<le> length (line_starts input)"
    using lf_before_lines [OF assms] lf_before_lines(1) [of "span_logical_offset s" input] assms le
      lf_before_mono [OF le, of input]
    by (auto simp: span_entry_def Let_def DocumentEntry_new_def)
  then show ?thesis
    using assms by (simp add: document_matches_def span_entry_def Let_def DocumentEntry_new_def span_end_def)
qed

lemma preflight_ids_short:
  assumes "preflight_document_ids X ids limits = Ok ()" and "did \<in> set ids"
  shows "length did < u64_end"
proof -
  have "length did < u64_end" if "rfold (\<lambda>al did. rbind (usize_to_u64 (length did)) (g al)) s ids = Ok s'" "did \<in> set ids"
    for g s s' ids using that by (induction ids arbitrary: s) (auto simp: rbind_Ok_iff width_simps result_simps)
  then show ?thesis using assms unfolding preflight_document_ids_def by (auto simp: rbind_Ok_iff split: if_splits)
qed

lemma build_document_index_spans:
  assumes "build_document_index X spans input cid entries = Ok di"
  shows "di_container_id di = cid" and "length (di_documents di) = length spans" and "distinct (map span_doc_id spans)"
    and "\<forall>i < length spans. span_end (spans ! i) \<le> length input \<and>
      (\<exists>a b. di_documents di ! i = span_entry X input (spans ! i) a b \<and>
         document_chunk_range entries (span_logical_offset (spans ! i)) (span_byte_length (spans ! i)) = Ok (a, b))"
    and "length input < u64_end" and "preflight_document_ids X (map span_doc_id spans) ResourceLimits_default = Ok ()"
proof -
  obtain seen ranges events prefixes rest docs where
    pre: "preflight_document_ids X (map span_doc_id spans) ResourceLimits_default = Ok ()"
    and n: "length input < u64_end"
    and sp: "rfold (span_step (length input)) ({}, [], []) (enumerate 0 spans) = Ok (seen, ranges, events)"
    and ev: "rfold (event_step input) (replicate (length spans) (0, 0), 0, 0) (sort events) = Ok (prefixes, rest)"
    and bd: "rmap (build_document X input entries ranges prefixes) (enumerate 0 spans) = Ok docs"
    and di: "di = \<lparr>di_container_id = cid, di_documents = docs\<rparr>"
    using assms by (auto simp: build_document_index_def rbind_Ok_iff width_simps result_simps)
  note s = spans_Ok [OF sp]
  have each: "\<exists>a b. docs ! i = span_entry X input (spans ! i) a b \<and>
      document_chunk_range entries (span_logical_offset (spans ! i)) (span_byte_length (spans ! i)) = Ok (a, b)"
    if i: "i < length spans" for i
  proof -
    have "build_document X input entries ranges prefixes (i, spans ! i) = Ok (docs ! i)"
      using rmap_Ok_nth [OF bd, of i] i by (simp add: nth_enumerate_eq)
    then show ?thesis
      by (rule build_document_Ok) (use i s(3) prefixes_Ok [OF ev [unfolded s(4)] i] in auto)
  qed
  show "di_container_id di = cid" "length (di_documents di) = length spans" "distinct (map span_doc_id spans)"
    "length input < u64_end" "preflight_document_ids X (map span_doc_id spans) ResourceLimits_default = Ok ()"
    using di rmap_Ok_length [OF bd] s(1) n pre by simp_all
  show "\<forall>i < length spans. span_end (spans ! i) \<le> length input \<and>
      (\<exists>a b. di_documents di ! i = span_entry X input (spans ! i) a b \<and>
         document_chunk_range entries (span_logical_offset (spans ! i)) (span_byte_length (spans ! i)) = Ok (a, b))"
    using each s(2) di by simp
qed

lemma build_document_index_Ok:
  assumes b: "build_document_index X spans input cid entries = Ok di" and "blake3_documented X" and "chunk_layout entries"
    and "length entries < u64_end" and "length cid = 16" and "\<forall>s \<in> set spans. valid_utf8 (as_bytes (span_doc_id s))"
  shows "di_container_id di = cid" and "DocumentIndex_wf di"
    and "\<forall>d \<in> set (di_documents di). document_matches X input d \<and> document_placed entries d"
    and "map doc_id (di_documents di) = map span_doc_id spans"
proof -
  note sp = build_document_index_spans [OF b]
  define docs where "docs = di_documents di"
  have di: "di_documents di = docs" and len: "length docs = length spans" using sp(2) by (simp_all add: docs_def)
  have each: "\<exists>a b. docs ! i = span_entry X input (spans ! i) a b \<and>
      document_chunk_range entries (span_logical_offset (spans ! i)) (span_byte_length (spans ! i)) = Ok (a, b)"
    and ends: "span_end (spans ! i) \<le> length input" if "i < length spans" for i
    using sp(4) that di by auto
  have n: "length input < u64_end" and pre: "preflight_document_ids X (map span_doc_id spans) ResourceLimits_default = Ok ()"
    by (rule sp)+
  show "di_container_id di = cid" by (rule sp)
  have "doc_id (docs ! i) = span_doc_id (spans ! i)" if "i < length spans" for i
    using each [OF that] by (auto simp: span_entry_def Let_def DocumentEntry_new_def)
  then show ids: "map doc_id (di_documents di) = map span_doc_id spans"
    using len di by (auto intro!: nth_equalityI)
  have "document_matches X input (docs ! i) \<and> document_placed entries (docs ! i)" if "i < length spans" for i
    using each [OF that] span_entry_matches [OF ends [OF that]]
    by (auto simp: document_placed_def span_entry_def Let_def DocumentEntry_new_def)
  then show m: "\<forall>d \<in> set (di_documents di). document_matches X input d \<and> document_placed entries d"
    using len di by (auto simp: in_set_conv_nth)
  have "DocumentEntry_wf (docs ! i)" if i: "i < length spans" for i
  proof -
    obtain a b where d: "docs ! i = span_entry X input (spans ! i) a b" and
      r: "document_chunk_range entries (span_logical_offset (spans ! i)) (span_byte_length (spans ! i)) = Ok (a, b)"
      using each [OF i] by blast
    note w = document_chunk_range_width [OF r assms(3,4)]
    have ms: "document_matches X input (docs ! i)" using m len di i by simp
    have "length (line_starts input) < u64_end" using lines_in_le [of input 0 "length input"] n by (simp add: lines_in_whole)
    moreover have "valid_utf8 (as_bytes (span_doc_id (spans ! i)))" "length (span_doc_id (spans ! i)) < u64_end"
      using assms(6) preflight_ids_short [OF pre] i by auto
    ultimately show ?thesis
      using ms w n assms(2) unfolding d
      by (auto simp: DocumentEntry_wf_def document_matches_def span_entry_def Let_def DocumentEntry_new_def blake3_length
          Checksum_wf_def Checksum_blake3_def)
  qed
  then have "\<forall>d \<in> set docs. DocumentEntry_wf d" using len by (auto simp: in_set_conv_nth)
  then show "DocumentIndex_wf di" using ids sp(1,3) assms(5) di by (simp add: DocumentIndex_wf_def)
qed

end
