(* ===== verification/Writer_Roundtrip.thy ===== *)
theory Writer_Roundtrip
  imports Writer_Documents
begin

text \<open>
  The round trip: whatever the builder returns, the default reader opens it, restores the
  input from it and accepts it at every verification level.
\<close>

section \<open>A run of the writer\<close>

text \<open>
  What the types of the arguments guarantee: identifiers are 16 bytes, strings are UTF-8, the
  compression level is a 32-bit integer.
\<close>

definition typed_documents :: "DocumentIndex option \<Rightarrow> DocumentSpan list option \<Rightarrow> bool" where
  "typed_documents index spans \<longleftrightarrow>
     (\<forall>di. index = Some di \<longrightarrow> length (di_container_id di) = 16 \<and> (\<forall>d \<in> set (di_documents di). valid_utf8 (as_bytes (doc_id d)))) \<and>
     (\<forall>ss. spans = Some ss \<longrightarrow> (\<forall>s \<in> set ss. valid_utf8 (as_bytes (span_doc_id s))))"

definition typed_level :: "WriterOptions \<Rightarrow> bool" where
  "typed_level options \<longleftrightarrow> - (2 ^ 31) \<le> wo_zstd_level options \<and> wo_zstd_level options < 2 ^ 31"

lemma ex_unit: "(\<exists>x. P x) \<longleftrightarrow> P ()"
  by (metis unit.exhaust)

lemma dense_mode_Ok:
  assumes "(case dense_mode of Omit \<Rightarrow> Ok None
      | Generate \<Rightarrow> rbind (check_dense_allocation es) (\<lambda>_. rbind (from_original_bytes input es) (\<lambda>index. Ok (Some index)))
      | GenerateIfAtLeast min_lines \<Rightarrow> if n \<ge> min_lines then
          rbind (check_dense_allocation es) (\<lambda>_. rbind (from_original_bytes input es) (\<lambda>index. Ok (Some index))) else Ok None
      | Override dense \<Rightarrow> Ok (Some dense)) = Ok dense" and "\<forall>idx. dense_mode \<noteq> Override idx"
  shows "\<forall>idx. dense = Some idx \<longrightarrow> check_dense_allocation es = Ok () \<and> from_original_bytes input es = Ok idx"
  using assms by (auto simp: rbind_Ok_iff split: DenseLineIndexMode.splits if_splits)

lemma pack_internal_Ok:
  assumes p: "pack_bytes_internal X input cid options dense_mode index spans profile True = Ok bs"
    and "\<forall>idx. dense_mode \<noteq> Override idx" and "blake3_documented X" and "length cid = 16"
    and "typed_level options" and "typed_documents index spans"
  obtains plan cs es optional md_off mb db ob rb f fb where "written X input cid options plan cs es optional"
    and "assembled X input cid plan cs es optional md_off mb db ob rb f fb bs"
    and "\<forall>di. ob_document_index optional = Some di \<longrightarrow>
      (\<forall>d \<in> set (di_documents di). document_matches X input d \<and> document_placed es d)"
    and "ob_profile optional = profile"
    and "\<forall>ss. spans = Some ss \<longrightarrow> (\<exists>di. ob_document_index optional = Some di \<and> build_document_index X ss input cid es = Ok di)"
proof -
  obtain plan cs es pos dense generated where
    v: "validate_writer_options options = Ok ()" "validate_profile profile = Ok ()"
      "plan_chunks input (wo_chunker options) = Ok plan" "check_chunk_table_size (length (plan_chunk_list plan)) = Ok ()"
    and pc: "rfold (pack_chunk X input options) ([], [], HEADER_LEN) (plan_chunk_list plan) = Ok (cs, es, pos)"
    and dm: "(case dense_mode of Omit \<Rightarrow> Ok None
      | Generate \<Rightarrow> rbind (check_dense_allocation es) (\<lambda>_. rbind (from_original_bytes input es) (\<lambda>index. Ok (Some index)))
      | GenerateIfAtLeast min_lines \<Rightarrow> if plan_line_count plan \<ge> min_lines then
          rbind (check_dense_allocation es) (\<lambda>_. rbind (from_original_bytes input es) (\<lambda>index. Ok (Some index))) else Ok None
      | Override dense \<Rightarrow> Ok (Some dense)) = Ok dense"
    and g: "transpose (map_option (\<lambda>spans. build_document_index X spans input cid es) spans) = Ok generated"
    and dc: "(case (case generated of Some index \<Rightarrow> Some index | None \<Rightarrow> index) of
        Some index \<Rightarrow> rbind (validate_for_writer index ResourceLimits_default) (\<lambda>_.
          if True \<and> generated = None then
            rbind (build_document_index X (map (\<lambda>d. DocumentSpan_new (doc_id d) (doc_logical_offset d) (doc_byte_length d))
                (di_documents index)) input cid es) (\<lambda>rebuilt.
            if rebuilt \<noteq> index then Err ContainerCorrupt else Ok ())
          else Ok ())
      | None \<Rightarrow> Ok ()) = Ok ()"
    and a: "assemble_container X input cid plan cs es \<lparr>ob_dense_line_index = dense,
        ob_document_index = (case generated of Some index \<Rightarrow> Some index | None \<Rightarrow> index),
        ob_profile = profile, ob_writer_options = options\<rparr> = Ok bs"
    using p unfolding pack_bytes_internal_def rbind_Ok_iff if_Err_Ok_iff Let_def ex_unit split_paired_Ex prod.case
    by (elim exE conjE) (rule that, assumption+)
  let ?docs = "case generated of Some index \<Rightarrow> Some index | None \<Rightarrow> index"
  let ?opt = "\<lparr>ob_dense_line_index = dense, ob_document_index = ?docs, ob_profile = profile, ob_writer_options = options\<rparr>"
  obtain md_off mb db ob rb f fb where as: "assembled X input cid plan cs es ?opt md_off mb db ob rb f fb bs"
    using assemble_container_Ok [OF a] by blast
  have n: "length input < u64_end" using as by (simp add: assembled_def Let_def)
  have pk: "packed_from X input (wo_zstd_level options) HEADER_LEN (plan_chunk_list plan) cs es"
    using pack_loop_Ok [OF pc] by auto
  have lay: "chunk_layout es" using packed_table(1) [OF v(3) pk n assms(3)] .
  have len: "length es < u64_end"
    using packed_lengths [OF pk] v(4)
    by (simp add: check_chunk_table_size_def check_chunk_table_size_with_limits_def default_capacity table_capacity_def u64_end_def)
  have built: "di_container_id di = cid \<and> DocumentIndex_wf di \<and>
      (\<forall>d \<in> set (di_documents di). document_matches X input d \<and> document_placed es d)"
    if "build_document_index X ss input cid es = Ok di" "\<forall>s \<in> set ss. valid_utf8 (as_bytes (span_doc_id s))" for ss di
    using build_document_index_Ok [OF that(1) assms(3) lay len assms(4) that(2)] by blast
  have docs: "validate_for_writer di ResourceLimits_default = Ok () \<and> di_container_id di = cid \<and> DocumentIndex_wf di \<and>
      (\<forall>d \<in> set (di_documents di). document_matches X input d \<and> document_placed es d)" if di: "?docs = Some di" for di
  proof (cases generated)
    case None
    then have "index = Some di" "validate_for_writer di ResourceLimits_default = Ok ()"
      "build_document_index X (map (\<lambda>d. DocumentSpan_new (doc_id d) (doc_logical_offset d) (doc_byte_length d))
                (di_documents di)) input cid es = Ok di"
      using di dc by (auto simp: rbind_Ok_iff split: if_splits)
    then show ?thesis
      using built [of "map (\<lambda>d. DocumentSpan_new (doc_id d) (doc_logical_offset d) (doc_byte_length d)) (di_documents di)" di]
        assms(6) by (auto simp: typed_documents_def DocumentSpan_new_def)
  next
    case (Some idx)
    then obtain ss where ss: "spans = Some ss" "build_document_index X ss input cid es = Ok di"
      using g di by (auto simp: transpose_Ok_iff split: option.splits)
    then show ?thesis using built [OF ss(2)] assms(6) dc Some di by (auto simp: typed_documents_def rbind_Ok_iff)
  qed
  have spanned: "\<forall>ss. spans = Some ss \<longrightarrow> (\<exists>di. ob_document_index ?opt = Some di \<and> build_document_index X ss input cid es = Ok di)"
    using g by (auto simp: transpose_Ok_iff)
  have "written X input cid options plan cs es ?opt"
    unfolding written_def using v pk dense_mode_Ok [OF dm assms(2)] docs assms(3-5) by (simp add: typed_level_def)
  then show thesis using as docs spanned by (intro that [of plan cs es ?opt]) simp_all
qed

section \<open>The text of a written container\<close>

lemma written_chunk:
  assumes "written X input cid options plan cs es optional" and "length input < u64_end" and "i < length es"
  shows "even (flags (es ! i)) \<longleftrightarrow> is_line_start input (logical_offset (es ! i))"
    and "line_count (es ! i) = lines_in input (logical_offset (es ! i)) (logical_offset (es ! i) + uncompressed_size (es ! i))"
    and "valid_utf8 (slice input (logical_offset (es ! i)) (logical_offset (es ! i) + uncompressed_size (es ! i)))"
proof -
  note w = assms(1) [unfolded written_def]
  note plan = plan_chunks_Ok [OF conjunct1 [OF w]]
  have pk: "packed_from X input (wo_zstd_level options) HEADER_LEN (plan_chunk_list plan) cs es" using w by blast
  have i: "i < length (plan_chunk_list plan)" using packed_lengths [OF pk] assms(3) by simp
  have e: "entry_of_plan (es ! i) (plan_chunk_list plan ! i)" using packed_plan [OF pk] assms(3) by (simp add: list_all2_conv_all_nth)
  note nth = planned_from_nth [OF plan(3) i]
  show "even (flags (es ! i)) \<longleftrightarrow> is_line_start input (logical_offset (es ! i))"
    "line_count (es ! i) = lines_in input (logical_offset (es ! i)) (logical_offset (es ! i) + uncompressed_size (es ! i))"
    using nth e by (auto simp: chunk_ok_def Let_def entry_of_plan_def STARTS_WITH_LINE_CONTINUATION_def)
  show "valid_utf8 (slice input (logical_offset (es ! i)) (logical_offset (es ! i) + uncompressed_size (es ! i)))"
    using nth e planned_from_start_cut [OF plan(3) i] plan(1)
    by (intro valid_utf8_slice) (auto simp: chunk_ok_def Let_def good_cut_def is_utf8_boundary_iff entry_of_plan_def)
qed

lemma written_reader:
  assumes wr: "written X input cid options plan cs es optional"
    and as: "assembled X input cid plan cs es optional md_off mb db ob rb f fb bs" and len: "length bs < isize_end"
    and zs: "zstd_documented X"
  defines "r \<equiv> \<lparr>qr_bytes = bs, qr_details = written_details X input cid plan es optional f (length bs - 64 - length fb)\<rparr>"
  shows "QztReader_open X bs = Ok r" and "restored_bytes (QztReader_decode_entry X r) es = input"
    and "text_source es (QztReader_decode_entry X r) (length input) (ob_dense_line_index optional)"
proof -
  have n: "length input < u64_end" using as by (simp add: assembled_def Let_def)
  note w = wr [unfolded written_def]
  have pc: "plan_chunks input (wo_chunker options) = Ok plan" "packed_from X input (wo_zstd_level options) HEADER_LEN (plan_chunk_list plan) cs es"
    "blake3_documented X" using w by blast+
  note table = packed_table [OF pc(1,2) n pc(3)]
  note op = written_opens [OF wr as len]
  show opn: "QztReader_open X bs = Ok r"
    using op by (simp add: QztReader_open_def QztReader_open_with_limits_def open_skeleton_details_def r_def)
  have dec: "QztReader_decode_entry X r (es ! i) = Ok (slice input (logical_offset (es ! i)) (logical_offset (es ! i) + uncompressed_size (es ! i)))"
    if "i < length es" for i
    unfolding r_def by (rule written_decodes(1) [OF wr as len zs that]) (simp add: written_details_def)
  have dec': "QztReader_decode_entry X r e = Ok (slice input (logical_offset e) (logical_offset e + uncompressed_size e))" if "e \<in> set es" for e
    using dec that by (metis in_set_conv_nth)
  then have cz: "chunk_or_zeros (QztReader_decode_entry X r) e = slice input (logical_offset e) (logical_offset e + uncompressed_size e)"
    if "e \<in> set es" for e using that by (simp add: chunk_or_zeros_def)
  show rest: "restored_bytes (QztReader_decode_entry X r) es = input"
    using table(5) cz by (simp add: restored_bytes_def cong: map_cong)
  have "chunk_source es (QztReader_decode_entry X r) (length input)"
  proof -
    have o: "opened_reader X bs ResourceLimits_default = Some r"
      using op by (simp add: opened_reader_Some r_def)
    show ?thesis
      using memory.chunk_source_axioms [of X bs ResourceLimits_default, unfolded o opened_Some_defs]
      by (simp add: r_def written_details_def)
  qed
  moreover have "text_source_axioms es (QztReader_decode_entry X r) (ob_dense_line_index optional)"
  proof
    fix e
    assume e: "e \<in> set es"
    then obtain i where i: "i < length es" "e = es ! i" by (metis in_set_conv_nth)
    show "is_ok (QztReader_decode_entry X r e)" using dec' [OF e] by simp
    show "even (flags e) \<longleftrightarrow> is_line_start (restored_bytes (QztReader_decode_entry X r) es) (logical_offset e)"
      "line_count e = lines_in (restored_bytes (QztReader_decode_entry X r) es) (logical_offset e) (logical_offset e + uncompressed_size e)"
      unfolding rest using written_chunk [OF wr n i(1)] i(2) by simp_all
  next
    fix idx i
    assume d: "ob_dense_line_index optional = Some idx" and i: "i < length es"
    then have "from_original_bytes input es = Ok idx" using w by blast
    then have "idx = \<lparr>dense_entries = map (dense_of input) es\<rparr>"
      using from_original_bytes_planned(1) [OF pc(1) packed_plan [OF pc(2)] n] by simp
    then show "verify_chunk idx i (chunk_or_zeros (QztReader_decode_entry X r) (es ! i)) (flags (es ! i)) = Ok ()"
      using dense_of_verifies [OF i packed_nth(8) [OF pc(2) i] written_chunk(1) [OF wr n i] n] cz i by simp
  qed
  ultimately show "text_source es (QztReader_decode_entry X r) (length input) (ob_dense_line_index optional)"
    by (rule text_source.intro)
qed

lemma written_verifies:
  assumes wr: "written X input cid options plan cs es optional"
    and as: "assembled X input cid plan cs es optional md_off mb db ob rb f fb bs" and len: "length bs < isize_end"
    and zs: "zstd_documented X"
    and docs: "\<forall>di. ob_document_index optional = Some di \<longrightarrow>
      (\<forall>d \<in> set (di_documents di). document_matches X input d \<and> document_placed es d)"
  defines "d \<equiv> written_details X input cid plan es optional f (length bs - 64 - length fb)"
  defines "r \<equiv> \<lparr>qr_bytes = bs, qr_details = d\<rparr>"
  shows "QztReader_verify X r Normal = Ok (report_for_level d Normal 0)"
    and "QztReader_verify X r Deep = Ok (report_for_level d Deep (length input))"
proof -
  have n: "length input < u64_end" using as by (simp add: assembled_def Let_def)
  note w = wr [unfolded written_def] and rd = written_reader [OF wr as len zs, folded d_def, folded r_def]
  have pc: "plan_chunks input (wo_chunker options) = Ok plan" "blake3_documented X"
    "packed_from X input (wo_zstd_level options) HEADER_LEN (plan_chunk_list plan) cs es" using w by blast+
  have sizes: "length bs - 64 - length fb \<le> length bs" "length bs < u64_end" using len by (simp_all add: isize_end_def u64_end_def)
  have norm: "QztReader_slice_physical r (PhysicalRange_new (physical_offset e) (compressed_size e)) = Ok c \<Longrightarrow>
      e \<in> set es \<Longrightarrow> compressed_checksum_blake3 e = blake3_hash X c" for e c
    using written_decodes(2) [OF wr as len zs, of _ d] packed_nth(10) [OF pc(3)]
    by (auto simp: in_set_conv_nth r_def d_def written_details_def)
  have phys: "is_ok (QztReader_slice_physical r (PhysicalRange_new (physical_offset e) (compressed_size e)))" if "e \<in> set es" for e
    using written_decodes(2) [OF wr as len zs, of _ d] that by (auto simp: in_set_conv_nth r_def d_def written_details_def)
  have chunks: "rfold (\<lambda>_ entry. rbind (QztReader_slice_physical r (PhysicalRange_new (physical_offset entry) (compressed_size entry)))
         (\<lambda>compressed. if cs_value (Checksum_blake3 X compressed) \<noteq> compressed_checksum_blake3 entry
         then Err CompressedChunkChecksumMismatch else Ok ())) () es = Ok ()"
    unfolding rfold_unit_Ok_iff using norm phys by (fastforce simp: is_ok_iff Checksum_blake3_def)
  let ?prefix = "take (length bs - 64 - length fb) bs"
  have pre: "fp_container_checksum f = Some (Checksum_blake3 X ?prefix)"
  proof -
    note parts = written_parts(7,8,11,12) [OF wr as len]
    obtain p tr where p: "fp_container_checksum f = Some (Checksum_blake3 X p)" "bs = p @ fb @ tr" "length p + length fb + 64 = length bs"
      by (rule that [OF _ parts(2)]) (use parts(1,3,4) in \<open>simp_all add: footer_candidate_def\<close>)
    then have "?prefix = p" by simp
    then show ?thesis using p(1) by simp
  qed
  have normal: "QztReader_verify_normal X r = Ok (report_for_level d Normal 0)"
    using chunks pre sizes by (simp add: QztReader_verify_normal_def r_def d_def written_details_def get_slice_def slice_def)
  then show "QztReader_verify X r Normal = Ok (report_for_level d Normal 0)" by simp
  have "verify_deep_entries X d (QztReader_decode_entry X r) = Ok (report_for_level d Deep (length input))"
  proof (rule text_source.deep_complete [OF rd(3) _ pc(2)])
    show "sk_chunk_entries d = es" "sk_dense_line_index d = ob_dense_line_index optional" "ss_original_size (sk_summary d) = length input"
      by (simp_all add: d_def written_details_def)
    have "valid_utf8 (chunk_or_zeros (QztReader_decode_entry X r) (es ! i))" if "i < length es" for i
      using written_chunk(3) [OF wr n that] written_decodes(1) [OF wr as len zs that, of d]
      by (simp add: chunk_or_zeros_def r_def d_def written_details_def)
    then show "\<forall>e \<in> set es. valid_utf8 (chunk_or_zeros (QztReader_decode_entry X r) e)" by (auto simp: in_set_conv_nth)
    have md: "sk_metadata d = written_metadata X input cid plan optional" by (simp add: d_def written_details_def)
    note plan = plan_chunks_Ok [OF pc(1)]
    show "Checksum_blake3 X (restored_bytes (QztReader_decode_entry X r) es) = md_original_checksum (sk_metadata d)"
      "lines_in (restored_bytes (QztReader_decode_entry X r) es) 0 (length input) = md_line_count (sk_metadata d)"
      "NewlineMode_as_str (li_newline_mode (LineInfo_from_bytes (restored_bytes (QztReader_decode_entry X r) es))) =
         md_newline_mode (sk_metadata d)"
      unfolding rd(2) md using plan
      by (simp_all add: written_metadata_def Metadata_for_source_with_options_def LineInfo_from_bytes_eq)
    show "\<forall>di. sk_document_index d = Some di \<longrightarrow> (\<forall>doc \<in> set (di_documents di).
       document_matches X (restored_bytes (QztReader_decode_entry X r) es) doc \<and> document_placed es doc)"
      unfolding rd(2) using docs by (simp add: d_def written_details_def)
  qed
  then show "QztReader_verify X r Deep = Ok (report_for_level d Deep (length input))"
    using normal by (simp add: QztReader_verify_deep_def r_def)
qed

end
