(* ===== verification/Writer_Total.thy ===== *)
theory Writer_Total
  imports Writer_Roundtrip
begin

text \<open>
  When the writer succeeds, and how long its containers are: the limits on chunks and index
  blocks bound every container it can return, and packing plain text fails only when the
  input or the options are not acceptable.
\<close>

section \<open>Bounds\<close>

lemma plan_loop_capacity:
  "plan_loop input options ls start chunks = Ok cs \<Longrightarrow> length chunks \<le> table_capacity \<Longrightarrow> length cs \<le> table_capacity"
proof (induction input options ls start chunks rule: plan_loop.induct)
  case (1 input options ls start chunks)
  show ?case
  proof (cases "start < length input")
    case False
    then show ?thesis using "1.prems" by (subst (asm) plan_loop.simps) simp
  next
    case True
    obtain e c where e: "enforce_chunk_table_entries ResourceLimits_default (length chunks + 1) = Ok ()"
      "choose_chunk_end input start options = Ok e" "start < e"
      "planned_chunk input ls (length chunks) start e = Ok c" "checked_add (length chunks) 1 = Some (length chunks + 1)"
      and l: "plan_loop input options ls e (chunks @ [c]) = Ok cs"
      using "1.prems"(1) True
      by (subst (asm) plan_loop.simps) (auto simp: rbind_Ok_iff result_simps checked_add_def split: if_splits)
    show ?thesis
      using "1.IH" [OF True _ _ e(2) _ e(4) l] e(1,3,5) by (simp add: default_capacity)
  qed
qed

lemma plan_capacity:
  assumes "plan_chunks input options = Ok plan"
  shows "length (plan_chunk_list plan) \<le> table_capacity"
  using assms plan_loop_capacity [of input options _ 0 "[]"]
  by (auto simp: plan_chunks_def rbind_Ok_iff Let_def split: if_splits)

lemma sum_list_bound: "(\<And>x. x \<in> set xs \<Longrightarrow> f x \<le> k) \<Longrightarrow> sum_list (map f xs) \<le> length xs * (k :: nat)"
  by (induction xs) fastforce+

lemma plan_input_bound:
  assumes "plan_chunks input options = Ok plan"
  shows "length input \<le> table_capacity * max_chunk_size options"
proof -
  note plan = plan_chunks_Ok [OF assms]
  let ?s = "\<lambda>c. slice input (pc_logical_offset c) (pc_logical_offset c + pc_uncompressed_size c)"
  have "length input = length (concat (map ?s (plan_chunk_list plan)))"
    using planned_from_concat [OF plan(3)] by simp
  also have "\<dots> = sum_list (map (length \<circ> ?s) (plan_chunk_list plan))" by (simp add: length_concat o_def)
  also have "\<dots> \<le> length (plan_chunk_list plan) * max_chunk_size options"
  proof (rule sum_list_bound)
    fix c
    assume "c \<in> set (plan_chunk_list plan)"
    then have "pc_uncompressed_size c \<le> max_chunk_size options"
      using planned_from_nth [OF plan(3)] by (auto simp: in_set_conv_nth chunk_ok_def Let_def)
    then show "(length \<circ> ?s) c \<le> max_chunk_size options" by (simp add: slice_def)
  qed
  also have "\<dots> \<le> table_capacity * max_chunk_size options" using plan_capacity [OF assms] by simp
  finally show ?thesis .
qed

lemma options_max: "validate_writer_options options = Ok () \<Longrightarrow> max_chunk_size (wo_chunker options) \<le> 67108864"
  by (auto simp: validate_writer_options_def validate_writer_options_with_limits_def rbind_Ok_iff width_simps
      ResourceLimits_default_def)

lemma packed_bound:
  assumes "packed_from X input level p chunks cs es"
  shows "length (concat cs) \<le> length chunks * 75497472"
proof -
  have l: "length cs = length chunks" "length es = length chunks" using packed_lengths [OF assms] by simp_all
  have "length z \<le> 75497472" if "z \<in> set cs" for z
    using that packed_nth(2,6) [OF assms] l by (auto simp: in_set_conv_nth ResourceLimits_default_def)
  then show ?thesis using sum_list_bound [of cs length 75497472] l(1) by (simp add: length_concat)
qed

lemma written_bounded:
  assumes "written X input cid options plan cs es optional"
    and "assembled X input cid plan cs es optional md_off mb db ob rb f fb bs"
  shows "length bs < 2 ^ 46" and "length bs < isize_end"
proof -
  note w = assms(1) [unfolded written_def] and sz = written_sizes [OF assms]
  have pk: "packed_from X input (wo_zstd_level options) HEADER_LEN (plan_chunk_list plan) cs es"
    and pl: "plan_chunks input (wo_chunker options) = Ok plan" and b3: "blake3_documented X" and c: "length cid = 16"
    using w by blast+
  have cs: "length (concat cs) \<le> 524288 * 75497472"
    using packed_bound [OF pk] plan_capacity [OF pl] by (simp add: table_capacity_def)
  have blk: "length mb \<le> 67108864" "length rb \<le> 67108864" "length fb \<le> 67108864"
    using assms(2) by (auto simp: assembled_def Let_def check_writer_cbor_block_Ok_iff ResourceLimits_default_def)
  have sz: "length (concat (map ChunkEntry_encode es)) \<le> 67108864" "length (opt_bytes db) \<le> 67108864"
    "length (opt_bytes ob) \<le> 67108864" using sz(2-4) by (simp_all add: ResourceLimits_default_def)
  obtain h t where bs: "bs = Header_encode h @ concat cs @ mb @ opt_bytes db @ opt_bytes ob @
      concat (map ChunkEntry_encode es) @ rb @ fb @ FooterTrailer_encode t" and wf: "Header_wf h" "FooterTrailer_wf t"
  proof
    let ?off = "md_off + length mb + length (opt_bytes db) + length (opt_bytes ob) + length (concat (map ChunkEntry_encode es))"
    let ?h = "\<lparr>metadata_offset = md_off, metadata_size = length mb, index_hint_offset = ?off, h_container_id = cid\<rparr>"
    let ?t = "\<lparr>footer_payload_offset = ?off + length rb, footer_payload_size = length fb,
        footer_payload_checksum_blake3 = blake3_hash X fb\<rparr>"
    have w64: "?off + length rb < u64_end" using assms(2) unfolding assembled_def Let_def by blast
    show "bs = Header_encode ?h @ concat cs @ mb @ opt_bytes db @ opt_bytes ob @
      concat (map ChunkEntry_encode es) @ rb @ fb @ FooterTrailer_encode ?t"
      using assms(2) unfolding assembled_def Let_def by simp
    show "Header_wf ?h" "FooterTrailer_wf ?t"
      using w64 c b3 blk by (simp_all add: Header_wf_def FooterTrailer_wf_def blake3_length u64_end_def del: length_concat)
  qed
  have "length bs = 192 + length (concat cs) + length mb + length (opt_bytes db) + length (opt_bytes ob) +
      length (concat (map ChunkEntry_encode es)) + length rb + length fb"
    using header.encode_width [OF wf(1)] trailer.encode_width [OF wf(2)] by (simp add: bs fixed_consts del: length_concat)
  then show "length bs < 2 ^ 46" using cs blk sz by simp
  then show "length bs < isize_end" by (simp add: isize_end_def)
qed

section \<open>Success\<close>

text \<open>What compression is relied on for: a chunk within the limit has a frame within the limit.\<close>

definition zstd_compresses :: "('h, 'x) ext_scheme \<Rightarrow> i32 \<Rightarrow> bool" where
  "zstd_compresses X level \<longleftrightarrow> (\<forall>u. length u \<le> 67108864 \<longrightarrow>
     (\<exists>z. zstd_encode_all X u level = Some z \<and> z \<noteq> [] \<and> length z \<le> 75497472))"

lemma pack_loop_total:
  assumes "zstd_compresses X (wo_zstd_level options)" and "length input < u64_end"
    and "\<forall>c \<in> set chunks. pc_logical_offset c + pc_uncompressed_size c \<le> length input \<and> pc_uncompressed_size c \<le> 67108864"
    and "p + length chunks * 75497472 < u64_end"
  shows "\<exists>cs' es' p'. rfold (pack_chunk X input options) (cs, es, p) chunks = Ok (cs', es', p')"
  using assms(3,4)
proof (induction chunks arbitrary: cs es p)
  case (Cons c chunks)
  let ?u = "slice input (pc_logical_offset c) (pc_logical_offset c + pc_uncompressed_size c)"
  have c: "pc_logical_offset c + pc_uncompressed_size c \<le> length input" "pc_uncompressed_size c \<le> 67108864"
    using Cons.prems(1) by simp_all
  then have "length ?u \<le> 67108864" by (simp add: slice_def)
  then obtain z where z: "zstd_encode_all X ?u (wo_zstd_level options) = Some z" "z \<noteq> []" "length z \<le> 75497472"
    using assms(1) unfolding zstd_compresses_def by blast
  obtain e where s: "pack_chunk X input options (cs, es, p) c = Ok (cs @ [z], es @ [e], p + length z)"
    using c z assms(2) Cons.prems(2)
    by (auto simp: pack_chunk_def get_slice_def encode_chunk_def enforce_chunk_sizes_def
        ResourceLimits_default_def checked_add_def u64_to_usize_def usize_to_u64_def Let_def)
  have "p + length z + length chunks * 75497472 < u64_end" using z(3) Cons.prems(2) by simp
  from Cons.IH [OF _ this] show ?case using s Cons.prems(1) by simp
qed simp

lemma check_block_enc: "decodable v \<Longrightarrow> length (enc v) < 8192 \<Longrightarrow> check_writer_cbor_block (enc v) = Ok ()"
  using decodable_accepts [of v] by (simp add: check_writer_cbor_block_Ok_iff ResourceLimits_default_def)

text \<open>The index root stays small whatever blocks it lists.\<close>

lemma written_root_size:
  assumes "blake3_documented X" and "Metadata_wf m" and "length cid = 16"
  shows "cbor_size (index_root_value (written_root X cid m es off db ob)) < 8192"
proof -
  let ?v = "index_root_value (written_root X cid m es off db ob)"
  have "cbor_items ?v < 200 \<and> cbor_alloc ?v < 2000"
    using assms(2,3) checksum_measures [OF Checksum_blake3_wf [OF assms(1)]] checksum_measures [of "md_original_checksum m"]
    by (cases db; cases ob)
       (auto simp: index_root_value_def written_root_def Let_def block_descriptor_value_def
         BlockDescriptor_chunk_table_def BlockDescriptor_dense_line_index_def BlockDescriptor_document_index_def
         BlockDescriptor_new_def text_pair_def u64_value_def version_value_def SCHEMA_INDEX_ROOT_def
         CHUNK_TABLE_TYPE_def CHUNK_TABLE_CODEC_def DENSE_LINE_INDEX_TYPE_def DENSE_LINE_INDEX_CODEC_def
         DOCUMENT_INDEX_TYPE_def DOCUMENT_INDEX_CODEC_def head_len_def Metadata_wf_def)
  then show ?thesis using cbor_size_bound [of ?v] by linarith
qed

text \<open>A document index the writer accepts has an encoding within the block limit.\<close>

definition document_block :: "DocumentIndex option \<Rightarrow> bytes option" where
  "document_block = map_option (\<lambda>di. enc (document_index_value di))"

lemma written_document_block:
  assumes "written X input cid options plan cs es optional"
  shows "transpose (map_option DocumentIndex_encode (ob_document_index optional)) = Ok (document_block (ob_document_index optional))"
    and "(case document_block (ob_document_index optional) of Some bs \<Rightarrow> check_writer_cbor_block bs | None \<Rightarrow> Ok ()) = Ok ()"
    and "length (opt_bytes (document_block (ob_document_index optional))) \<le> 67108864"
proof -
  have di: "DocumentIndex_encode di = Ok (enc (document_index_value di)) \<and> length (enc (document_index_value di)) \<le> 67108864 \<and>
      check_writer_cbor_block (enc (document_index_value di)) = Ok ()" if "ob_document_index optional = Some di" for di
  proof -
    have w: "validate_for_writer di ResourceLimits_default = Ok ()" "DocumentIndex_wf di"
      using assms that unfolding written_def by blast+
    note v = validate_for_writer_Ok [OF w(1)]
    have b: "within_default_budget (document_index_value di)"
      using v by (simp add: within_default_budget_def ResourceLimits_default_def)
    note dec = docs_decodable [OF w(2) b]
    have "length (enc (document_index_value di)) \<le> 67108864"
      using v(3) dec by (simp add: length_enc decodable_def ResourceLimits_default_def)
    then show ?thesis
      using docs_roundtrip(1) [OF w(2) b] decodable_accepts [OF dec]
      by (simp add: check_writer_cbor_block_Ok_iff ResourceLimits_default_def)
  qed
  show "transpose (map_option DocumentIndex_encode (ob_document_index optional)) = Ok (document_block (ob_document_index optional))"
    and "(case document_block (ob_document_index optional) of Some bs \<Rightarrow> check_writer_cbor_block bs | None \<Rightarrow> Ok ()) = Ok ()"
    and "length (opt_bytes (document_block (ob_document_index optional))) \<le> 67108864"
    using di by (cases "ob_document_index optional"; simp add: document_block_def opt_bytes_def)+
qed

text \<open>Assembly never fails, with or without documents.\<close>

lemma assemble_total:
  assumes wr: "written X input cid options plan cs es optional"
    and none: "ob_dense_line_index optional = None"
  shows "is_ok (assemble_container X input cid plan cs es optional)"
proof -
  note w = wr [unfolded written_def]
  have pk: "packed_from X input (wo_zstd_level options) HEADER_LEN (plan_chunk_list plan) cs es"
    and pl: "plan_chunks input (wo_chunker options) = Ok plan" and b3: "blake3_documented X" and c: "length cid = 16"
    and vo: "validate_writer_options options = Ok ()"
    using w by blast+
  have n: "length input < u64_end"
    using plan_input_bound [OF pl] options_max [OF vo] by (simp add: table_capacity_def u64_end_def)
  define m where "m = written_metadata X input cid plan optional"
  have mw: "Metadata_wf m"
    unfolding m_def by (rule written_metadata_wf [OF pl vo]) (use w n in auto)
  define mb where "mb = enc (metadata_value m)"
  have mb: "Metadata_encode m = Ok mb" "length mb < 8192" "check_writer_cbor_block mb = Ok ()"
  proof -
    show "Metadata_encode m = Ok mb" using metadata_roundtrip(1) [OF mw] by (simp add: mb_def)
    show l: "length mb < 8192"
      using metadata_decodable [OF mw] metadata_size_bound [OF mw] by (simp add: mb_def length_enc decodable_def)
    then show "check_writer_cbor_block mb = Ok ()" using check_block_enc [OF metadata_decodable [OF mw]] by (simp add: mb_def)
  qed
  have cs: "length (concat cs) \<le> 524288 * 75497472" and es: "length es \<le> 524288" "length cs = length es"
    using packed_bound [OF pk] plan_capacity [OF pl] packed_lengths [OF pk] by (simp_all add: table_capacity_def)
  define md_off where "md_off = 128 + length (concat cs)"
  have mo: "(if es = [] then Ok HEADER_LEN else ok_or (checked_add (physical_offset (last es)) (compressed_size (last es)))
      PhysicalRangeOutOfBounds) = Ok md_off"
    using packed_end [OF pk] es(2) cs by (auto simp: md_off_def fixed_consts checked_add_def u64_end_def)
  let ?tb = "concat (map ChunkEntry_encode es)"
  have tb: "length ?tb \<le> 67108864"
    using written_table_length [OF packed_table(4) [OF pl pk n b3]] es(1) by simp
  define ob where "ob = document_block (ob_document_index optional)"
  note ob = written_document_block [OF wr, folded ob_def]
  define r where "r = written_root X cid m es (md_off + length mb) None ob"
  have off: "md_off + length mb + length (opt_bytes None) + length (opt_bytes ob) + length ?tb < u64_end"
    using cs mb(2) tb ob(3) by (simp add: md_off_def opt_bytes_def [of None] u64_end_def)
  note rw = written_root_wf [OF b3 mw c _ off, folded r_def]
  have el: "length es < u64_end" using es by (simp add: u64_end_def)
  define rb where "rb = enc (index_root_value r)"
  have rb: "IndexRoot_encode r = Ok rb" "length rb < 8192" "check_writer_cbor_block rb = Ok ()"
  proof -
    note d = root_decodable [OF rw(1) [OF el] rw(2) [OF el]]
    show "IndexRoot_encode r = Ok rb" using root_roundtrip(1) [OF rw(1) [OF el] rw(2) [OF el]] by (simp add: rb_def)
    show l: "length rb < 8192" using d written_root_size [OF b3 mw c, of es "md_off + length mb" None ob, folded r_def]
      by (simp add: rb_def length_enc decodable_def)
    then show "check_writer_cbor_block rb = Ok ()" using check_block_enc [OF d] by (simp add: rb_def)
  qed
  define root_off where "root_off = md_off + length mb + length (opt_bytes ob) + length ?tb"
  let ?ir = "\<lparr>br_offset = root_off, br_size = length rb, br_checksum = Checksum_blake3 X rb\<rparr>"
  let ?md = "\<lparr>br_offset = md_off, br_size = length mb, br_checksum = Checksum_blake3 X mb\<rparr>"
  have refs: "BlockRef_wf ?ir" "BlockRef_wf ?md" "root_off + length rb + 4168 < u64_end"
    using mb(2) rb(2) cs tb ob(3) Checksum_blake3_wf [OF b3] by (simp_all add: BlockRef_wf_def u64_end_def root_off_def md_off_def)
  have footer: "\<exists>f. fixed_point_footer_payload cid ?ir ?md (root_off + length rb) (Some (Checksum_blake3 X pre)) = Ok f \<and>
      (\<exists>fb. FooterPayload_encode f = Ok fb \<and> check_writer_cbor_block fb = Ok () \<and> length fb < 4096)" for pre
  proof -
    obtain f where f: "fixed_point_footer_payload cid ?ir ?md (root_off + length rb) (Some (Checksum_blake3 X pre)) = Ok f"
      "FooterPayload_wf f" "FooterPayload_encode f = Ok (enc (footer_value f))" "length (enc (footer_value f)) < 4096"
      by (rule fixed_point_footer [OF c refs(1,2) _ refs(3), of "Some (Checksum_blake3 X pre)"])
         (simp add: Checksum_blake3_wf [OF b3])
    then show ?thesis using check_block_enc [OF footer_decodable [OF f(2)]] by auto
  qed
  have ch: "target_chunk_size (wo_chunker options) < u64_end" "max_chunk_size (wo_chunker options) < u64_end"
    using vo by (auto simp: validate_writer_options_def validate_writer_options_with_limits_def ChunkerOptions_validate_def
        rbind_Ok_iff width_simps split: if_splits)
  have o: "ob_writer_options optional = options" using w by blast
  have adds: "checked_add md_off (length mb) = Some (md_off + length mb)"
    "checked_add (md_off + length mb) 0 = Some (md_off + length mb)"
    "checked_add (md_off + length mb) (length (opt_bytes ob)) = Some (md_off + length mb + length (opt_bytes ob))"
    "checked_add (md_off + length mb + length (opt_bytes ob)) (length ?tb) = Some root_off"
    "checked_add root_off (length rb) = Some (root_off + length rb)"
    using refs(3) by (simp_all add: checked_add_def root_off_def)
  have us: "usize_to_u64 (length mb) = Ok (length mb)" "usize_to_u64 (length rb) = Ok (length rb)"
    "usize_to_u64 (length ?tb) = Ok (length ?tb)" "usize_to_u64 (length es) = Ok (length es)"
    "usize_to_u64 (length input) = Ok (length input)"
    using mb(2) rb(2) tb el n by (simp_all add: usize_to_u64_def u64_end_def del: length_concat)
  have os: "opt_size ob = Ok (length (opt_bytes ob))"
    using ob(3) by (cases ob) (simp_all add: opt_size_def opt_bytes_def u64_end_def)
  let ?blocks = "case ob of Some b \<Rightarrow> [BlockDescriptor_document_index (md_off + length mb) (length b) (Checksum_blake3 X b)] | None \<Rightarrow> []"
  have db: "(case ob of
        Some b \<Rightarrow> rbind (usize_to_u64 (length b)) (\<lambda>n. Ok [BlockDescriptor_document_index (md_off + length mb) n (Checksum_blake3 X b)])
      | None \<Rightarrow> Ok []) = Ok ?blocks"
    using ob(3) by (cases ob) (simp_all add: opt_bytes_def u64_end_def)
  have rr: "\<lparr>ir_container_id = cid, ir_blocks = [BlockDescriptor_chunk_table (md_off + length mb + length (opt_bytes ob)) (length ?tb)
        (Checksum_blake3 X ?tb)] @ ?blocks,
      ir_original_size = md_original_size m, ir_original_checksum = md_original_checksum m,
      ir_chunk_count = length es, ir_line_count = md_line_count m\<rparr> = r"
    by (simp add: r_def written_root_def Let_def opt_bytes_def [of None])
  obtain pre where pre: "pre = Header_encode \<lparr>metadata_offset = md_off, metadata_size = length mb, index_hint_offset = root_off,
      h_container_id = cid\<rparr> @ concat cs @ mb @ opt_bytes ob @ ?tb @ rb" by simp
  obtain f fb where f: "fixed_point_footer_payload cid ?ir ?md (root_off + length rb) (Some (Checksum_blake3 X pre)) = Ok f"
    "FooterPayload_encode f = Ok fb" "check_writer_cbor_block fb = Ok ()" "length fb < u64_end"
    using footer [of pre] by (fastforce simp: u64_end_def)
  have m': "Metadata_for_source_with_options cid (length input) (Checksum_blake3 X input)
       (NewlineMode_as_str (plan_newline_mode plan)) (plan_line_count plan)
       \<lparr>mo_zstd_level = wo_zstd_level options, mo_target_chunk_size = target_chunk_size (wo_chunker options),
        mo_max_chunk_size = max_chunk_size (wo_chunker options), mo_dictionary_mode = ''none'',
        mo_profile = ob_profile optional, mo_dense_line_index = False,
        mo_document_index = (ob_document_index optional \<noteq> None)\<rparr> = m"
    by (simp add: m_def written_metadata_def none o)
  show ?thesis
    unfolding assemble_container_def Let_def mo
    using es(2) ch us adds rr f pre mb rb none os db ob(1,2)
    by (simp add: o m' opt_size_def [of None] opt_bytes_def [of None] usize_to_u64_def del: length_concat not_None_eq)
qed

text \<open>Compressing the planned chunks succeeds, and so does everything after it.\<close>

lemma pack_chunks_succeed:
  assumes "blake3_documented X" and "zstd_compresses X (wo_zstd_level options)" and "typed_level options"
    and "validate_writer_options options = Ok ()" and "plan_chunks input (wo_chunker options) = Ok plan" and "length cid = 16"
  obtains cs es p where "check_chunk_table_size (length (plan_chunk_list plan)) = Ok ()"
    and "rfold (pack_chunk X input options) ([], [], HEADER_LEN) (plan_chunk_list plan) = Ok (cs, es, p)"
    and "packed_from X input (wo_zstd_level options) HEADER_LEN (plan_chunk_list plan) cs es"
    and "chunk_layout es" and "length es < u64_end"
    and "\<And>docs. \<forall>di. docs = Some di \<longrightarrow> validate_for_writer di ResourceLimits_default = Ok () \<and>
        DocumentIndex_wf di \<and> di_container_id di = cid \<Longrightarrow>
      is_ok (assemble_container X input cid plan cs es
        \<lparr>ob_dense_line_index = None, ob_document_index = docs, ob_profile = ''core'', ob_writer_options = options\<rparr>)"
proof -
  note plan = plan_chunks_Ok [OF assms(5)] and cap = plan_capacity [OF assms(5)] and mx = options_max [OF assms(4)]
  have n: "length input < u64_end" using plan_input_bound [OF assms(5)] mx by (simp add: table_capacity_def u64_end_def)
  have ck: "check_chunk_table_size (length (plan_chunk_list plan)) = Ok ()"
    using cap by (simp add: check_chunk_table_size_def check_chunk_table_size_with_limits_def default_capacity)
  have "\<forall>c \<in> set (plan_chunk_list plan). pc_logical_offset c + pc_uncompressed_size c \<le> length input \<and>
      pc_uncompressed_size c \<le> 67108864"
    using planned_from_nth [OF plan(3)] mx by (fastforce simp: in_set_conv_nth chunk_ok_def Let_def)
  moreover have "HEADER_LEN + length (plan_chunk_list plan) * 75497472 < u64_end"
    using cap by (simp add: table_capacity_def u64_end_def HEADER_LEN_def)
  ultimately obtain cs es p where pk: "rfold (pack_chunk X input options) ([], [], HEADER_LEN) (plan_chunk_list plan) = Ok (cs, es, p)"
    using pack_loop_total [OF assms(2) n] by blast
  have pf: "packed_from X input (wo_zstd_level options) HEADER_LEN (plan_chunk_list plan) cs es"
    using pack_loop_Ok [OF pk] by auto
  have es: "chunk_layout es" "length es < u64_end"
    using packed_table(1) [OF assms(5) pf n assms(1)] packed_lengths [OF pf] cap by (simp_all add: table_capacity_def u64_end_def)
  have "written X input cid options plan cs es
      \<lparr>ob_dense_line_index = None, ob_document_index = docs, ob_profile = ''core'', ob_writer_options = options\<rparr>"
    if "\<forall>di. docs = Some di \<longrightarrow> validate_for_writer di ResourceLimits_default = Ok () \<and>
        DocumentIndex_wf di \<and> di_container_id di = cid" for docs
    using that pf assms ck by (simp add: written_def validate_profile_def typed_level_def)
  then show thesis using that [OF ck pk pf es] assemble_total by (metis OptionalBlocks.select_convs(1))
qed

lemma pack_bytes_succeeds:
  assumes "blake3_documented X" and "zstd_compresses X (wo_zstd_level options)" and "typed_level options"
    and "validate_writer_options options = Ok ()" and "plan_chunks input (wo_chunker options) = Ok plan" and "length cid = 16"
  shows "is_ok (pack_bytes_with_container_id X input cid options)"
proof (rule pack_chunks_succeed [OF assms])
  fix cs es p
  assume ck: "check_chunk_table_size (length (plan_chunk_list plan)) = Ok ()"
    and pk: "rfold (pack_chunk X input options) ([], [], HEADER_LEN) (plan_chunk_list plan) = Ok (cs, es, p)"
    and a: "\<And>docs. \<forall>di. docs = Some di \<longrightarrow> validate_for_writer di ResourceLimits_default = Ok () \<and>
        DocumentIndex_wf di \<and> di_container_id di = cid \<Longrightarrow>
      is_ok (assemble_container X input cid plan cs es
        \<lparr>ob_dense_line_index = None, ob_document_index = docs, ob_profile = ''core'', ob_writer_options = options\<rparr>)"
  show ?thesis
    using assms(4,5) ck pk a [of None] by (simp add: pack_bytes_with_container_id_def pack_bytes_internal_def validate_profile_def)
qed

text \<open>With spans, what is left to check is that their index is built and accepted.\<close>

lemma pack_spans_succeeds:
  assumes "blake3_documented X" and "zstd_compresses X (wo_zstd_level options)" and "typed_level options"
    and "validate_writer_options options = Ok ()" and "plan_chunks input (wo_chunker options) = Ok plan" and "length cid = 16"
    and "\<forall>s \<in> set spans. valid_utf8 (as_bytes (span_doc_id s))"
    and built: "\<And>es. list_all2 entry_of_plan es (plan_chunk_list plan) \<Longrightarrow>
      \<exists>di. build_document_index X spans input cid es = Ok di \<and> validate_for_writer di ResourceLimits_default = Ok ()"
  shows "is_ok (pack_bytes_internal X input cid options Omit None (Some spans) ''core'' True)"
proof (rule pack_chunks_succeed [OF assms(1-6)])
  fix cs es p
  assume ck: "check_chunk_table_size (length (plan_chunk_list plan)) = Ok ()"
    and pk: "rfold (pack_chunk X input options) ([], [], HEADER_LEN) (plan_chunk_list plan) = Ok (cs, es, p)"
    and pf: "packed_from X input (wo_zstd_level options) HEADER_LEN (plan_chunk_list plan) cs es"
    and es: "chunk_layout es" "length es < u64_end"
    and a: "\<And>docs. \<forall>di. docs = Some di \<longrightarrow> validate_for_writer di ResourceLimits_default = Ok () \<and>
        DocumentIndex_wf di \<and> di_container_id di = cid \<Longrightarrow>
      is_ok (assemble_container X input cid plan cs es
        \<lparr>ob_dense_line_index = None, ob_document_index = docs, ob_profile = ''core'', ob_writer_options = options\<rparr>)"
  obtain di where di: "build_document_index X spans input cid es = Ok di" "validate_for_writer di ResourceLimits_default = Ok ()"
    using built [OF packed_plan [OF pf]] by blast
  note b = build_document_index_Ok [OF di(1) assms(1) es assms(6,7)]
  show ?thesis
    using assms(4,5) ck pk di a [of "Some di"] b(1,2) by (simp add: pack_bytes_internal_def validate_profile_def)
qed

section \<open>Properties\<close>

text \<open>What the types of a builder guarantee.\<close>

definition builder_typed :: "WriterBuilder \<Rightarrow> bool" where
  "builder_typed b \<longleftrightarrow> typed_level (wb_options b) \<and> typed_documents (wb_document_index b) (wb_document_spans b) \<and>
     (\<forall>cid. wb_container_id b = Some cid \<longrightarrow> length cid = 16)"

lemma builder_run:
  assumes "WriterBuilder_pack X b input = Ok bs" and "builder_typed b" and "blake3_documented X"
  obtains cid plan cs es optional md_off mb db ob rb f fb where "written X input cid (wb_options b) plan cs es optional"
    and "assembled X input cid plan cs es optional md_off mb db ob rb f fb bs"
    and "\<forall>di. ob_document_index optional = Some di \<longrightarrow>
      (\<forall>d \<in> set (di_documents di). document_matches X input d \<and> document_placed es d)"
    and "\<forall>ss. wb_document_spans b = Some ss \<longrightarrow>
      (\<exists>di. ob_document_index optional = Some di \<and> build_document_index X ss input cid es = Ok di)"
proof -
  let ?mode = "case wb_dense_line_index b of Some True \<Rightarrow> Generate
    | None \<Rightarrow> if wb_profile b = ''memory'' then GenerateIfAtLeast MEMORY_PROFILE_DENSE_LINE_INDEX_MIN_LINES else Omit
    | Some False \<Rightarrow> Omit"
  obtain cid where p: "pack_bytes_internal X input cid (wb_options b) ?mode (wb_document_index b) (wb_document_spans b)
      (wb_profile b) True = Ok bs" and c: "length cid = 16"
    using assms unfolding WriterBuilder_pack_def
    by (auto simp: rbind_Ok_iff builder_typed_def typed_documents_def container_id_from_input_def container_id_from_hash_def
        blake3_length split: option.splits if_splits)
  have "\<forall>idx. ?mode \<noteq> Override idx" by (simp split: option.splits bool.splits)
  from pack_internal_Ok [OF p this assms(3) c] show thesis
    using assms(2) that unfolding builder_typed_def by (metis (no_types))
qed

lemma QztReader_open_limits: "QztReader_open X bs = QztReader_open_with_limits X bs ResourceLimits_default"
  by (simp add: QztReader_open_def QztReader_open_with_limits_def open_skeleton_details_def)

lemma written_reads_documents:
  assumes wr: "written X input cid options plan cs es optional"
    and as: "assembled X input cid plan cs es optional md_off mb db ob rb f fb bs"
    and docs: "\<forall>di. ob_document_index optional = Some di \<longrightarrow>
      (\<forall>d \<in> set (di_documents di). document_matches X input d \<and> document_placed es d)"
    and "zstd_documented X"
  obtains r where "QztReader_open X bs = Ok r" and "QztReader_export_all X r = Ok input"
    and "\<And>level. is_ok (QztReader_verify X r level)" and "length bs < 2 ^ 46"
    and "sk_document_index (qr_details r) = ob_document_index optional" and "sk_chunk_entries (qr_details r) = es"
    and "info_original_size (QztReader_info r) = length input" and "info_line_count (QztReader_info r) = plan_line_count plan"
proof -
  note len = written_bounded [OF wr as]
  let ?r = "\<lparr>qr_bytes = bs, qr_details = written_details X input cid plan es optional f (length bs - 64 - length fb)\<rparr>"
  note rd = written_reader [OF wr as len(2) assms(4)] and ver = written_verifies [OF wr as len(2) assms(4) docs]
  have v: "is_ok (QztReader_verify X ?r level)" for level
    using ver by (cases level) simp_all
  have "QztReader_export_all X ?r = Ok input"
    using export_all_Ok_iff [OF rd(1) [unfolded QztReader_open_limits]] rd(2) text_source.all_decode [OF rd(3)]
    by (simp add: written_details_def)
  from that [OF rd(1) this v len(1)] show thesis by (simp add: written_details_def QztReader_info_def)
qed

lemma written_reads_back:
  assumes "written X input cid options plan cs es optional"
    and "assembled X input cid plan cs es optional md_off mb db ob rb f fb bs"
    and "\<forall>di. ob_document_index optional = Some di \<longrightarrow>
      (\<forall>d \<in> set (di_documents di). document_matches X input d \<and> document_placed es d)"
    and "zstd_documented X"
  shows "\<exists>r. QztReader_open X bs = Ok r \<and> QztReader_export_all X r = Ok input \<and>
     (\<forall>level. is_ok (QztReader_verify X r level)) \<and> length bs < 2 ^ 46"
  using written_reads_documents [OF assms] by metis

text \<open>
  C1: packing loses nothing and is accepted. Whatever a builder returns for an input, in any
  profile, with or without a dense line index and documents, the default reader opens, exports
  to exactly the input and verifies at every level, deep verification included; and the
  container is shorter than 2^46 bytes. The digest and compression libraries are assumed to
  behave as documented.
\<close>

theorem writer_roundtrip:
  assumes "WriterBuilder_pack X b input = Ok bs" and "builder_typed b" and "blake3_documented X" and "zstd_documented X"
  shows "\<exists>r. QztReader_open X bs = Ok r \<and> QztReader_export_all X r = Ok input \<and>
     (\<forall>level. is_ok (QztReader_verify X r level)) \<and> length bs < 2 ^ 46"
  by (rule builder_run [OF assms(1-3)]) (rule written_reads_back [OF _ _ _ assms(4)])

text \<open>
  C17: packing succeeds. For options the writer accepts and an input the planner can cut,
  packing returns a container, provided a chunk of at most 64 MiB compresses to a frame of at
  most 72 MiB: no overflow, no block limit and no footer that fails to settle gets in the way.
\<close>

theorem pack_bytes_total:
  assumes "blake3_documented X" and "zstd_compresses X (wo_zstd_level options)" and "typed_level options"
    and "validate_writer_options options = Ok ()" and "is_ok (plan_chunks input (wo_chunker options))"
  shows "is_ok (pack_bytes X input options)"
proof -
  obtain plan where "plan_chunks input (wo_chunker options) = Ok plan" using assms(5) by (auto simp: is_ok_iff)
  from pack_bytes_succeeds [OF assms(1-4) this] show ?thesis
    by (simp add: pack_bytes_def container_id_from_input_def container_id_from_hash_def blake3_length [OF assms(1)])
qed

text \<open>
  C14: a generated document index describes its spans. If it is built at all, the identifiers
  are the given ones and distinct, every entry has the checksum of its bytes, its first line
  is the number of line feeds before it, its line count is the number of lines it touches,
  and its chunk range is the one the reader derives.
\<close>

theorem build_document_index_exact:
  assumes "build_document_index X spans input cid entries = Ok di"
  shows "map doc_id (di_documents di) = map span_doc_id spans \<and> distinct (map span_doc_id spans) \<and>
     (\<forall>i < length spans. let s = spans ! i; d = di_documents di ! i;
        a = span_logical_offset s; e = a + span_byte_length s; bs = slice input a e in
        e \<le> length input \<and> doc_logical_offset d = a \<and> doc_byte_length d = span_byte_length s \<and>
        doc_checksum d = Checksum_blake3 X bs \<and> doc_first_line d = lf_before input a \<and>
        doc_line_count d = lf_before input e - lf_before input a + (if bs \<noteq> [] \<and> last bs \<noteq> LF then 1 else 0) \<and>
        document_chunk_range entries a (span_byte_length s) = Ok (doc_chunk_start d, doc_chunk_end d))"
proof -
  note b = build_document_index_spans [OF assms]
  have fields: "doc_id (span_entry X input s a b) = span_doc_id s" for s a b
    by (simp add: span_entry_def Let_def DocumentEntry_new_def)
  have ids: "map doc_id (di_documents di) = map span_doc_id spans"
    using b(2,4) by (intro nth_equalityI) (auto simp: fields)
  have lines: "doc_line_count (span_entry X input s a b) = lf_before input (span_end s) - lf_before input (span_logical_offset s) +
      (if slice input (span_logical_offset s) (span_end s) \<noteq> [] \<and> last (slice input (span_logical_offset s) (span_end s)) \<noteq> LF
       then 1 else 0)" if "span_end s \<le> length input" for s a b
  proof (cases "slice input (span_logical_offset s) (span_end s) = []")
    case True
    then have "span_end s \<le> span_logical_offset s" using that by (auto simp: slice_def)
    then show ?thesis using True lf_before_mono [of "span_end s" "span_logical_offset s" input]
      by (simp add: span_entry_def Let_def DocumentEntry_new_def)
  qed (simp add: span_entry_def Let_def DocumentEntry_new_def)
  show ?thesis
  proof (intro conjI ids b(3) allI impI)
    fix i
    assume "i < length spans"
    then obtain a e where i: "span_end (spans ! i) \<le> length input" "di_documents di ! i = span_entry X input (spans ! i) a e"
      "document_chunk_range entries (span_logical_offset (spans ! i)) (span_byte_length (spans ! i)) = Ok (a, e)"
      using b(4) by blast
    show "let s = spans ! i; d = di_documents di ! i; a = span_logical_offset s; e = a + span_byte_length s; bs = slice input a e in
        e \<le> length input \<and> doc_logical_offset d = a \<and> doc_byte_length d = span_byte_length s \<and>
        doc_checksum d = Checksum_blake3 X bs \<and> doc_first_line d = lf_before input a \<and>
        doc_line_count d = lf_before input e - lf_before input a + (if bs \<noteq> [] \<and> last bs \<noteq> LF then 1 else 0) \<and>
        document_chunk_range entries a (span_byte_length s) = Ok (doc_chunk_start d, doc_chunk_end d)"
      using i lines [OF i(1), of a e]
      by (simp add: Let_def span_end_def span_entry_def DocumentEntry_new_def del: One_nat_def)
  qed
qed

section \<open>Witnesses\<close>

definition sample_writer_options :: WriterOptions where
  "sample_writer_options = \<lparr>wo_chunker = sample_options, wo_zstd_level = 3\<rparr>"

lemma sample_writer_options_valid:
  "validate_writer_options sample_writer_options = Ok ()" "typed_level sample_writer_options"
  by (simp_all add: sample_writer_options_def sample_options_def validate_writer_options_def
      validate_writer_options_with_limits_def ChunkerOptions_validate_def enforce_chunk_sizes_def ResourceLimits_default_def
      usize_to_u64_def u64_end_def typed_level_def)

lemma toy_compresses: "zstd_compresses toy_ext level"
  by (simp add: zstd_compresses_def toy_ext_def)

theorem pack_bytes_total_witness: "is_ok (pack_bytes toy_ext sample_text sample_writer_options)"
  by (rule pack_bytes_total [OF toy_blake3 toy_compresses sample_writer_options_valid(2,1)])
     (use sample_plan_ex in \<open>auto simp: sample_writer_options_def is_ok_iff\<close>)

definition sample_builder :: WriterBuilder where
  "sample_builder = WriterBuilder_options WriterBuilder_new sample_writer_options"

lemma sample_packed: "\<exists>bs. WriterBuilder_pack toy_ext sample_builder sample_text = Ok bs"
proof -
  obtain plan where "plan_chunks sample_text (wo_chunker sample_writer_options) = Ok plan"
    using sample_plan_ex by (auto simp: sample_writer_options_def)
  from pack_bytes_succeeds [OF toy_blake3 toy_compresses sample_writer_options_valid(2,1) this,
      of "container_id_from_input toy_ext sample_text"]
  show ?thesis
    using sample_writer_options_valid(1)
    by (simp add: WriterBuilder_pack_def sample_builder_def WriterBuilder_options_def WriterBuilder_new_def is_ok_iff
        pack_bytes_with_container_id_def container_id_from_input_def container_id_from_hash_def blake3_length [OF toy_blake3])
qed

theorem writer_roundtrip_witness:
  "\<exists>bs r. WriterBuilder_pack toy_ext sample_builder sample_text = Ok bs \<and> QztReader_open toy_ext bs = Ok r \<and>
     QztReader_export_all toy_ext r = Ok sample_text"
proof -
  have "builder_typed sample_builder"
    using sample_writer_options_valid(2)
    by (simp add: builder_typed_def sample_builder_def WriterBuilder_options_def WriterBuilder_new_def typed_documents_def)
  then show ?thesis using sample_packed writer_roundtrip [OF _ _ toy_blake3 toy_zstd] by blast
qed

text \<open>The document of the last two bytes of \<open>a\<close>, line feed, \<open>b\<close>.\<close>

definition sample_span :: DocumentSpan where
  "sample_span = DocumentSpan_new ''a'' 1 2"

lemma sample_preflight: "preflight_document_ids toy_ext [''a''] ResourceLimits_default = Ok ()"
  using blake3_length [OF toy_blake3]
  by (simp add: preflight_document_ids_def document_entry_value_def DocumentEntry_new_def text_pair_def u64_value_def
      checksum_value_def Checksum_blake3_def CborUsage_add_def head_len_def checked_add_def usize_to_u64_def u64_end_def
      CHECKSUM_ALGORITHM_BLAKE3_def int_argument_def payload_usage_def u64_try_from_def value_with_documents_def
      version_value_def SCHEMA_DOCUMENT_INDEX_def checked_mul_def ResourceLimits_default_def)

lemma sample_advance:
  "advance_newlines [97, 10, 98] (Suc 0) 0 0 = Ok (Suc 0, 0)"
  "advance_newlines [97, 10, 98] (Suc (Suc (Suc 0))) (Suc 0) 0 = Ok (3, Suc 0)"
proof -
  show "advance_newlines [97, 10, 98] (Suc 0) 0 0 = Ok (Suc 0, 0)"
    by (subst advance_newlines.simps, simp, subst advance_newlines.simps, simp)
  show "advance_newlines [97, 10, 98] (Suc (Suc (Suc 0))) (Suc 0) 0 = Ok (3, Suc 0)"
    by (subst advance_newlines.simps, simp add: checked_add_def u64_end_def, subst advance_newlines.simps, simp,
        subst advance_newlines.simps, simp)
qed

lemma sample_index_built:
  "is_ok (build_document_index toy_ext [sample_span] [97, 10, 98] (replicate 16 1) [sample_entry 0 0 3 0 2])"
  using sample_preflight
  by (simp add: build_document_index_def sample_span_def DocumentSpan_new_def span_step_def event_step_def
      build_document_def usize_to_u64_def u64_to_usize_def checked_logical_end_def checked_add_def u64_end_def get_slice_def
      writer_document_chunk_range_def document_chunk_index_def document_chunk_loop.simps sample_entry_def get_def
      checked_sub_def less_eq_prod_def slice_def sample_advance Let_def)

theorem build_document_index_exact_witness:
  "\<exists>di. build_document_index toy_ext [sample_span] [97, 10, 98] (replicate 16 1) [sample_entry 0 0 3 0 2] = Ok di \<and>
     map doc_id (di_documents di) = [''a''] \<and> doc_first_line (di_documents di ! 0) = 0 \<and> doc_line_count (di_documents di ! 0) = 2"
proof -
  obtain di where di: "build_document_index toy_ext [sample_span] [97, 10, 98] (replicate 16 1) [sample_entry 0 0 3 0 2] = Ok di"
    using sample_index_built by (auto simp: is_ok_iff)
  have "lf_before [97, 10, 98] (Suc 0) = 0" "lf_before [97, 10, 98] (Suc (Suc (Suc 0))) = 1" by (simp_all add: lf_before_Suc)
  with build_document_index_exact [OF di] di show ?thesis
    by (simp add: sample_span_def DocumentSpan_new_def slice_def Let_def)
qed

end
