(* ===== verification/Stream_Writer.thy ===== *)
theory Stream_Writer
  imports Writer_Total
begin

text \<open>
  The streaming writer \<open>QztFileWriter\<close> (src/src/writer.rs): fragments are collected until a
  chunk can be cut, chunks are written as they are cut, and \<open>finish\<close> writes the index blocks,
  goes back for the header and reads the file again for its checksum. A method is an action:
  it takes the writer, gives an outcome, and gives the writer afterwards also when it fails.
  The sink is a parameter, a record of the operations of \<open>Read + Write + Seek\<close> the writer
  calls. The subtraction in \<open>push\<close> cannot go below zero (\<open>pending\<close> never exceeds the maximal
  chunk size between calls), and \<open>try_reserve\<close> fails above \<open>isize::MAX\<close> only.
\<close>

section \<open>Actions\<close>

type_synonym ('s, 'a) action = "'s \<Rightarrow> 'a result \<times> 's"

definition abind :: "('s, 'a) action \<Rightarrow> ('a \<Rightarrow> ('s, 'b) action) \<Rightarrow> ('s, 'b) action" where
  "abind m f s = (case m s of (Inl err, s') \<Rightarrow> (Inl err, s') | (Inr x, s') \<Rightarrow> f x s')"

definition alift :: "'a result \<Rightarrow> ('s, 'a) action" where
  "alift r s = (r, s)"

definition aupdate :: "('s \<Rightarrow> 's result) \<Rightarrow> ('s, unit) action" where
  "aupdate f s = (case f s of Inl err \<Rightarrow> (Inl err, s) | Inr s' \<Rightarrow> (Ok (), s'))"

definition awith :: "('s \<Rightarrow> ('s, 'a) action) \<Rightarrow> ('s, 'a) action" where
  "awith f s = f s s"

lemma abind_cong [fundef_cong]:
  "s = t \<Longrightarrow> m t = m' t \<Longrightarrow> (\<And>x s'. m' t = (Inr x, s') \<Longrightarrow> f x s' = f' x s') \<Longrightarrow> abind m f s = abind m' f' t"
  by (auto simp: abind_def split: prod.splits sum.splits)

lemma abind_Ok_iff: "abind m f s = (Inr y, t) \<longleftrightarrow> (\<exists>x s'. m s = (Inr x, s') \<and> f x s' = (Inr y, t))"
  by (auto simp: abind_def split: prod.splits sum.splits)

lemma alift_Ok_iff: "alift r s = (Inr y, t) \<longleftrightarrow> r = Ok y \<and> t = s"
  by (auto simp: alift_def)

lemma aupdate_Ok_iff: "aupdate f s = (Inr y, t) \<longleftrightarrow> f s = Ok t"
  by (auto simp: aupdate_def split: sum.splits)

lemmas action_Ok_iffs = abind_Ok_iff alift_Ok_iff aupdate_Ok_iff

section \<open>The sink\<close>

record 'w sink_ops =
  op_stream_position :: "'w \<Rightarrow> (ErrorKind + u64) \<times> 'w"
  op_seek_start :: "u64 \<Rightarrow> 'w \<Rightarrow> (ErrorKind + u64) \<times> 'w"
  op_seek_end :: "'w \<Rightarrow> (ErrorKind + u64) \<times> 'w"
  op_write_all :: "bytes \<Rightarrow> 'w \<Rightarrow> (ErrorKind + unit) \<times> 'w"
  op_flush :: "'w \<Rightarrow> (ErrorKind + unit) \<times> 'w"
  op_read_exact :: "usize \<Rightarrow> 'w \<Rightarrow> (ErrorKind + bytes) \<times> 'w"

text \<open>\<open>map_err(|error| QztError::Io(error.kind()))\<close>\<close>

definition io :: "('w \<Rightarrow> (ErrorKind + 'a) \<times> 'w) \<Rightarrow> ('w, 'a) action" where
  "io f w = (case f w of (Inl kind, w') \<Rightarrow> (Err (Io kind), w') | (Inr x, w') \<Rightarrow> (Ok x, w'))"

lemma io_Ok_iff: "io f w = (Inr x, w') \<longleftrightarrow> f w = (Inr x, w')"
  by (auto simp: io_def split: prod.splits sum.splits)

record ('w, 'h) QztFileWriter =
  fw_writer :: 'w
  fw_options :: WriterOptions
  fw_pending :: bytes
  fw_entries :: "ChunkEntry list"
  fw_input_hasher :: 'h
  fw_physical_offset :: u64
  fw_logical_offset :: u64
  fw_line_starts_seen :: u64
  fw_lf_count :: u64
  fw_crlf_count :: u64
  fw_previous_byte :: "u8 option"
  fw_finished :: bool
  fw_poisoned :: bool

text \<open>An operation on \<open>self.writer\<close>.\<close>

definition on_writer :: "('w \<Rightarrow> (ErrorKind + 'a) \<times> 'w) \<Rightarrow> (('w, 'h) QztFileWriter, 'a) action" where
  "on_writer f self = (case io f (fw_writer self) of (r, w) \<Rightarrow> (r, self\<lparr>fw_writer := w\<rparr>))"

lemma on_writer_Ok_iff:
  "on_writer f self = (Inr x, self') \<longleftrightarrow> (\<exists>w. f (fw_writer self) = (Inr x, w) \<and> self' = self\<lparr>fw_writer := w\<rparr>)"
  by (auto simp: on_writer_def io_def split: prod.splits sum.splits)

section \<open>Construction\<close>

definition QztFileWriter_new ::
  "('h, 'x) ext_scheme \<Rightarrow> 'w sink_ops \<Rightarrow> WriterOptions \<Rightarrow> ('w, ('w, 'h) QztFileWriter) action"
where
  "QztFileWriter_new X ops options =
     abind (alift (validate_writer_options options)) (\<lambda>_.
     abind (io (op_stream_position ops)) (\<lambda>original_position.
     abind (io (op_seek_end ops)) (\<lambda>len.
     if len \<noteq> 0 then
       abind (io (op_seek_start ops original_position)) (\<lambda>_. alift (Err NonEmptyWriterSink))
     else
       abind (io (op_seek_start ops 0)) (\<lambda>_.
       abind (io (op_write_all ops (replicate HEADER_LEN 0))) (\<lambda>_.
       \<lambda>writer. (Ok \<lparr>fw_writer = writer, fw_options = options, fw_pending = [], fw_entries = [],
           fw_input_hasher = hasher_new X, fw_physical_offset = HEADER_LEN, fw_logical_offset = 0,
           fw_line_starts_seen = 0, fw_lf_count = 0, fw_crlf_count = 0, fw_previous_byte = None,
           fw_finished = False, fw_poisoned = False\<rparr>, writer))))))"

section \<open>Cutting pending bytes\<close>

definition choose_non_final_chunk_end :: "bytes \<Rightarrow> usize \<Rightarrow> usize \<Rightarrow> usize result" where
  "choose_non_final_chunk_end input target_end max_end =
     (case last_line_boundary input 0 target_end of
        Some line_end \<Rightarrow> Ok line_end
      | None \<Rightarrow>
          (case last_line_boundary input 0 max_end of
             Some line_end \<Rightarrow> Ok line_end
           | None \<Rightarrow> ok_or (previous_valid_split input 0 max_end) ResourceLimitExceeded))"

definition choose_stream_chunk_end :: "bytes \<Rightarrow> ChunkerOptions \<Rightarrow> usize result" where
  "choose_stream_chunk_end input options =
     (let max_end = max_chunk_size options in
      if length input \<le> max_end then Err ResourceLimitExceeded
      else choose_non_final_chunk_end input (target_chunk_size options) max_end)"

definition choose_known_chunk_end :: "bytes \<Rightarrow> ChunkerOptions \<Rightarrow> usize result" where
  "choose_known_chunk_end input options =
     (if length input \<le> target_chunk_size options then Ok (length input)
      else
        let max_end = min (max_chunk_size options) (length input) in
        choose_non_final_chunk_end input (target_chunk_size options) max_end)"

section \<open>Emitting a chunk\<close>

fun update_newline_state :: "bytes \<Rightarrow> (('w, 'h) QztFileWriter, unit) action" where
  "update_newline_state [] self = (Ok (), self)"
| "update_newline_state (byte # bs) self =
     abind
       (if byte = LF then
          if fw_previous_byte self = Some CR then
            aupdate (\<lambda>self. rbind (ok_or (checked_add (fw_crlf_count self) 1) ResourceLimitExceeded) (\<lambda>n.
              Ok (self\<lparr>fw_crlf_count := n\<rparr>)))
          else
            aupdate (\<lambda>self. rbind (ok_or (checked_add (fw_lf_count self) 1) ResourceLimitExceeded) (\<lambda>n.
              Ok (self\<lparr>fw_lf_count := n\<rparr>)))
        else alift (Ok ()))
       (\<lambda>_ self. update_newline_state bs (self\<lparr>fw_previous_byte := Some byte\<rparr>)) self"

definition emit_chunk ::
  "('h, 'x) ext_scheme \<Rightarrow> 'w sink_ops \<Rightarrow> bytes \<Rightarrow> (('w, 'h) QztFileWriter, unit) action"
where
  "emit_chunk X ops uncompressed self =
     abind (alift (rbind (ok_or (checked_add (length (fw_entries self)) 1) ResourceLimitExceeded)
       check_chunk_table_size)) (\<lambda>_.
     abind (alift (rbind (usize_to_u64 (length uncompressed)) (enforce_chunk_sizes ResourceLimits_default 0))) (\<lambda>_.
     abind (alift (ok_or (from_utf8 uncompressed) InvalidUtf8)) (\<lambda>_.
     abind (alift (encode_chunk X uncompressed (wo_zstd_level (fw_options self)))) (\<lambda>compressed.
     if compressed = [] then alift (Err ChunkSizeMismatch)
     else
       abind (alift (usize_to_u64 (length compressed))) (\<lambda>csize.
       abind (alift (enforce_chunk_sizes ResourceLimits_default csize 0)) (\<lambda>_.
       let fl = (if fw_logical_offset self > 0 \<and> fw_previous_byte self \<noteq> Some LF
                 then STARTS_WITH_LINE_CONTINUATION else 0) in
       abind (alift (rbind (line_start_offsets uncompressed fl) (\<lambda>starts. usize_to_u64 (length starts)))) (\<lambda>lines.
       abind (alift (usize_to_u64 (length (fw_entries self)))) (\<lambda>id.
       abind (alift (usize_to_u64 (length uncompressed))) (\<lambda>usz.
       let entry = \<lparr>chunk_id = id, physical_offset = fw_physical_offset self, compressed_size = csize,
             logical_offset = fw_logical_offset self, uncompressed_size = usz,
             first_line = fw_line_starts_seen self, line_count = lines, dictionary_id = 0, flags = fl,
             compressed_checksum_blake3 = cs_value (Checksum_blake3 X compressed),
             uncompressed_checksum_blake3 = cs_value (Checksum_blake3 X uncompressed)\<rparr> in
       abind (on_writer (op_seek_start ops (fw_physical_offset self))) (\<lambda>_.
       abind (on_writer (op_write_all ops compressed)) (\<lambda>_.
       abind (update_newline_state uncompressed) (\<lambda>_.
       abind (aupdate (\<lambda>self. rbind (ok_or (checked_add (fw_line_starts_seen self) lines) ResourceLimitExceeded)
         (\<lambda>n. Ok (self\<lparr>fw_line_starts_seen := n\<rparr>)))) (\<lambda>_.
       abind (aupdate (\<lambda>self. rbind (ok_or (checked_add (fw_logical_offset self) usz) ResourceLimitExceeded)
         (\<lambda>n. Ok (self\<lparr>fw_logical_offset := n\<rparr>)))) (\<lambda>_.
       abind (aupdate (\<lambda>self. rbind (ok_or (checked_add (fw_physical_offset self) csize) PhysicalRangeOutOfBounds)
         (\<lambda>n. Ok (self\<lparr>fw_physical_offset := n\<rparr>)))) (\<lambda>_.
       aupdate (\<lambda>self. Ok (self\<lparr>fw_entries := fw_entries self @ [entry]\<rparr>)))))))))))))))))
     self"

definition emit_pending_chunk ::
  "('h, 'x) ext_scheme \<Rightarrow> 'w sink_ops \<Rightarrow> usize \<Rightarrow> (('w, 'h) QztFileWriter, unit) action"
where
  "emit_pending_chunk X ops e self =
     abind (alift (ok_or (get_slice (fw_pending self) 0 e) ResourceLimitExceeded)) (\<lambda>chunk.
     abind (emit_chunk X ops chunk) (\<lambda>_.
     aupdate (\<lambda>self. Ok (self\<lparr>fw_pending := drop e (fw_pending self)\<rparr>)))) self"

text \<open>Updating the newline state touches nothing else.\<close>

lemma update_newline_state_frame:
  "update_newline_state bs self = (r, self') \<Longrightarrow>
     self' = self\<lparr>fw_lf_count := fw_lf_count self', fw_crlf_count := fw_crlf_count self',
       fw_previous_byte := fw_previous_byte self'\<rparr>"
proof (induction bs arbitrary: self)
  case (Cons b bs)
  consider (err) "self' = self"
    | (ok) s where "update_newline_state bs (s\<lparr>fw_previous_byte := Some b\<rparr>) = (r, self')"
        "s = self\<lparr>fw_lf_count := fw_lf_count s, fw_crlf_count := fw_crlf_count s\<rparr>"
    using Cons.prems
    by (auto simp: abind_def aupdate_def alift_def checked_add_def split: if_splits prod.splits sum.splits)
  then show ?case
  proof cases
    case ok
    from Cons.IH [OF ok(1)] ok(2) show ?thesis by (cases self; cases self'; cases s) simp
  qed simp
qed simp

lemma update_newline_state_fields:
  assumes "update_newline_state bs self = (r, self')"
  shows "fw_writer self' = fw_writer self" and "fw_options self' = fw_options self" and "fw_pending self' = fw_pending self"
    and "fw_entries self' = fw_entries self" and "fw_input_hasher self' = fw_input_hasher self"
    and "fw_physical_offset self' = fw_physical_offset self" and "fw_logical_offset self' = fw_logical_offset self"
    and "fw_line_starts_seen self' = fw_line_starts_seen self" and "fw_finished self' = fw_finished self"
    and "fw_poisoned self' = fw_poisoned self"
  by (subst update_newline_state_frame [OF assms], simp)+

text \<open>Everything a successful emission did.\<close>

definition continuation_flag :: "('w, 'h) QztFileWriter \<Rightarrow> u32" where
  "continuation_flag self = (if fw_logical_offset self > 0 \<and> fw_previous_byte self \<noteq> Some LF
     then STARTS_WITH_LINE_CONTINUATION else 0)"

definition stream_entry :: "('h, 'x) ext_scheme \<Rightarrow> ('w, 'h) QztFileWriter \<Rightarrow> bytes \<Rightarrow> bytes \<Rightarrow> nat \<Rightarrow> ChunkEntry" where
  "stream_entry X self d z lines =
     \<lparr>chunk_id = length (fw_entries self), physical_offset = fw_physical_offset self, compressed_size = length z,
      logical_offset = fw_logical_offset self, uncompressed_size = length d, first_line = fw_line_starts_seen self,
      line_count = lines, dictionary_id = 0, flags = continuation_flag self,
      compressed_checksum_blake3 = blake3_hash X z, uncompressed_checksum_blake3 = blake3_hash X d\<rparr>"

lemma check_chunk_table_size_iff: "check_chunk_table_size n = Ok () \<longleftrightarrow> n \<le> table_capacity"
  by (simp add: check_chunk_table_size_def check_chunk_table_size_with_limits_def default_capacity)

lemma small_limits:
  "table_capacity < u64_end" "max_uncompressed_chunk_size ResourceLimits_default < u64_end"
  "max_compressed_chunk_size ResourceLimits_default < u64_end"
  by (simp_all add: table_capacity_def ResourceLimits_default_def u64_end_def)

lemma emit_chunk_run:
  "emit_chunk X ops d self = (Inr (), self') \<longleftrightarrow>
     (\<exists>z starts q w1 w2 s. Suc (length (fw_entries self)) \<le> table_capacity \<and>
        length d \<le> max_uncompressed_chunk_size ResourceLimits_default \<and> valid_utf8 d \<and>
        zstd_encode_all X d (wo_zstd_level (fw_options self)) = Some z \<and> z \<noteq> [] \<and>
        length z \<le> max_compressed_chunk_size ResourceLimits_default \<and>
        line_start_offsets d (continuation_flag self) = Ok starts \<and> length starts < u64_end \<and>
        op_seek_start ops (fw_physical_offset self) (fw_writer self) = (Inr q, w1) \<and>
        op_write_all ops z w1 = (Inr (), w2) \<and>
        update_newline_state d (self\<lparr>fw_writer := w2\<rparr>) = (Inr (), s) \<and>
        fw_line_starts_seen s + length starts < u64_end \<and> fw_logical_offset s + length d < u64_end \<and>
        fw_physical_offset s + length z < u64_end \<and>
        self' = s\<lparr>fw_line_starts_seen := fw_line_starts_seen s + length starts,
          fw_logical_offset := fw_logical_offset s + length d, fw_physical_offset := fw_physical_offset s + length z,
          fw_entries := fw_entries s @ [stream_entry X self d z (length starts)]\<rparr>)"
  (is "?l \<longleftrightarrow> ?r")
proof
  note steps = action_Ok_iffs on_writer_Ok_iff rbind_Ok_iff result_simps width_simps check_chunk_table_size_iff
    encode_chunk_def from_utf8_def Checksum_blake3_def stream_entry_def if_distribR
  {
    assume ?l
    then show ?r
      unfolding emit_chunk_def continuation_flag_def [symmetric] Let_def
      using small_limits by (clarsimp simp: steps split: if_split_asm)
  next
    assume ?r
    then obtain z starts q w1 w2 s where h: "Suc (length (fw_entries self)) \<le> table_capacity"
        "length d \<le> max_uncompressed_chunk_size ResourceLimits_default" "valid_utf8 d"
        "zstd_encode_all X d (wo_zstd_level (fw_options self)) = Some z" "z \<noteq> []"
        "length z \<le> max_compressed_chunk_size ResourceLimits_default"
        "line_start_offsets d (continuation_flag self) = Ok starts" "length starts < u64_end"
        "op_seek_start ops (fw_physical_offset self) (fw_writer self) = (Inr q, w1)" "op_write_all ops z w1 = (Inr (), w2)"
        "update_newline_state d (self\<lparr>fw_writer := w2\<rparr>) = (Inr (), s)"
        "fw_line_starts_seen s + length starts < u64_end" "fw_logical_offset s + length d < u64_end"
        "fw_physical_offset s + length z < u64_end"
      and e: "self' = s\<lparr>fw_line_starts_seen := fw_line_starts_seen s + length starts,
          fw_logical_offset := fw_logical_offset s + length d, fw_physical_offset := fw_physical_offset s + length z,
          fw_entries := fw_entries s @ [stream_entry X self d z (length starts)]\<rparr>" by blast
    have w: "Suc (length (fw_entries self)) < u64_end" "length (fw_entries self) < u64_end" "length d < u64_end" "length z < u64_end"
      using h(1,2,6) small_limits by simp_all
    have c: "check_chunk_table_size (Suc (length (fw_entries self))) = Ok ()"
        "enforce_chunk_sizes ResourceLimits_default 0 (length d) = Ok ()"
        "enforce_chunk_sizes ResourceLimits_default (length z) 0 = Ok ()"
      using h(1,2,6) by (simp_all add: check_chunk_table_size_iff enforce_chunk_sizes_Ok_iff)
    show ?l
      unfolding emit_chunk_def continuation_flag_def [symmetric] Let_def
      using h w c by (simp add: abind_def alift_def aupdate_def on_writer_def io_def encode_chunk_def from_utf8_def checked_add_def
          usize_to_u64_def stream_entry_def Checksum_blake3_def e)
  }
qed

lemma emit_chunk_Ok:
  assumes "emit_chunk X ops d self = (Inr u, self')"
  obtains z starts q w1 w2 s where "Suc (length (fw_entries self)) \<le> table_capacity"
    and "length d \<le> max_uncompressed_chunk_size ResourceLimits_default" and "valid_utf8 d"
    and "zstd_encode_all X d (wo_zstd_level (fw_options self)) = Some z" and "z \<noteq> []"
    and "length z \<le> max_compressed_chunk_size ResourceLimits_default"
    and "line_start_offsets d (continuation_flag self) = Ok starts"
    and "op_seek_start ops (fw_physical_offset self) (fw_writer self) = (Inr q, w1)" and "op_write_all ops z w1 = (Inr (), w2)"
    and "update_newline_state d (self\<lparr>fw_writer := w2\<rparr>) = (Inr (), s)"
    and "fw_line_starts_seen self + length starts < u64_end" and "fw_logical_offset self + length d < u64_end"
    and "fw_physical_offset self + length z < u64_end"
    and "self' = s\<lparr>fw_line_starts_seen := fw_line_starts_seen self + length starts,
          fw_logical_offset := fw_logical_offset self + length d, fw_physical_offset := fw_physical_offset self + length z,
          fw_entries := fw_entries self @ [stream_entry X self d z (length starts)]\<rparr>"
proof -
  obtain z starts q w1 w2 s where h: "Suc (length (fw_entries self)) \<le> table_capacity"
    "length d \<le> max_uncompressed_chunk_size ResourceLimits_default" "valid_utf8 d"
    "zstd_encode_all X d (wo_zstd_level (fw_options self)) = Some z" "z \<noteq> []"
    "length z \<le> max_compressed_chunk_size ResourceLimits_default"
    "line_start_offsets d (continuation_flag self) = Ok starts"
    "op_seek_start ops (fw_physical_offset self) (fw_writer self) = (Inr q, w1)" "op_write_all ops z w1 = (Inr (), w2)"
    and u: "update_newline_state d (self\<lparr>fw_writer := w2\<rparr>) = (Inr (), s)"
    and r: "fw_line_starts_seen s + length starts < u64_end" "fw_logical_offset s + length d < u64_end"
      "fw_physical_offset s + length z < u64_end"
      "self' = s\<lparr>fw_line_starts_seen := fw_line_starts_seen s + length starts,
          fw_logical_offset := fw_logical_offset s + length d, fw_physical_offset := fw_physical_offset s + length z,
          fw_entries := fw_entries s @ [stream_entry X self d z (length starts)]\<rparr>"
    using assms unfolding unit_eq [of u] emit_chunk_run by blast
  note f = update_newline_state_fields [OF u, simplified]
  show thesis by (rule that [OF h u]) (use r f in simp_all)
qed

text \<open>
  A chunk that was emitted is one more entry, never more than the table can hold: this is why
  the loops below end, whatever the cutting functions return.
\<close>

lemma emit_pending_chunk_entries:
  assumes "emit_pending_chunk X ops e self = (Inr u, self')"
  shows "length (fw_entries self') = Suc (length (fw_entries self))" and "Suc (length (fw_entries self)) \<le> table_capacity"
  using assms by (auto simp: emit_pending_chunk_def action_Ok_iffs elim!: emit_chunk_Ok)

section \<open>Pushing\<close>

text \<open>\<open>pending.try_reserve(additional)\<close>\<close>

definition try_reserve :: "usize \<Rightarrow> usize \<Rightarrow> unit option" where
  "try_reserve len additional = (if len + additional < isize_end then Some () else None)"

function push_loop ::
  "('h, 'x) ext_scheme \<Rightarrow> 'w sink_ops \<Rightarrow> bytes \<Rightarrow> (('w, 'h) QztFileWriter, unit) action"
where
  "push_loop X ops remaining self =
     (if remaining = [] then (Ok (), self)
      else
        let n = min (length remaining) (max_chunk_size (wo_chunker (fw_options self)) + 1 - length (fw_pending self)) in
        case try_reserve (length (fw_pending self)) n of
          None \<Rightarrow> (Err ResourceLimitExceeded, self)
        | Some _ \<Rightarrow>
            let self = self\<lparr>fw_pending := fw_pending self @ take n remaining\<rparr>;
                remaining = drop n remaining in
            if length (fw_pending self) > max_chunk_size (wo_chunker (fw_options self)) then
              (case choose_stream_chunk_end (fw_pending self) (wo_chunker (fw_options self)) of
                 Inl err \<Rightarrow> (Err err, self)
               | Inr e \<Rightarrow>
                   (case emit_pending_chunk X ops e self of
                      (Inl err, self) \<Rightarrow> (Err err, self)
                    | (Inr _, self) \<Rightarrow> push_loop X ops remaining self))
            else push_loop X ops remaining self)"
  by pat_completeness auto
termination
proof (relation "measure (\<lambda>(X, ops, remaining, self). length remaining + (table_capacity - length (fw_entries self)))",
    goal_cases)
  case (2 X ops remaining self n u self1 remaining1 e r self2 y)
  then have em: "emit_pending_chunk X ops e self1 = (Inr y, self2)" by simp
  show ?case using 2 emit_pending_chunk_entries [OF em] by simp
next
  case (3 X ops remaining self n u self1 remaining1)
  have "n \<noteq> 0" using 3 by (cases remaining) auto
  then show ?case using 3 by (cases remaining) simp_all
qed simp

declare push_loop.simps [simp del]

definition QztFileWriter_push ::
  "('h, 'x) ext_scheme \<Rightarrow> 'w sink_ops \<Rightarrow> bytes \<Rightarrow> (('w, 'h) QztFileWriter, unit) action"
where
  "QztFileWriter_push X ops bs self =
     (if fw_finished self \<or> fw_poisoned self then (Err WriterAlreadyFinished, self)
      else
        let self = self\<lparr>fw_input_hasher := hasher_update X (fw_input_hasher self) bs\<rparr> in
        case push_loop X ops bs self of
          (Inl err, self) \<Rightarrow> (Err err, self\<lparr>fw_poisoned := True\<rparr>)
        | (Inr _, self) \<Rightarrow> (Ok (), self))"

section \<open>Finishing\<close>

function hash_prefix_loop ::
  "('h, 'x) ext_scheme \<Rightarrow> 'w sink_ops \<Rightarrow> u64 \<Rightarrow> 'h \<Rightarrow> (('w, 'h) QztFileWriter, 'h) action"
where
  "hash_prefix_loop X ops remaining hasher self =
     (if remaining > 0 then
        (case u64_to_usize (min remaining (64 * 1024)) of
           Inl err \<Rightarrow> (Err err, self)
         | Inr chunk_len \<Rightarrow>
             (case on_writer (op_read_exact ops chunk_len) self of
                (Inl err, self) \<Rightarrow> (Err err, self)
              | (Inr bs, self) \<Rightarrow> hash_prefix_loop X ops (remaining - chunk_len) (hasher_update X hasher bs) self))
      else (Ok hasher, self))"
  by pat_completeness auto
termination
  by (relation "measure (\<lambda>(X, ops, remaining, hasher, self). remaining)") (auto simp: width_simps)

declare hash_prefix_loop.simps [simp del]

definition hash_prefix ::
  "('h, 'x) ext_scheme \<Rightarrow> 'w sink_ops \<Rightarrow> u64 \<Rightarrow> (('w, 'h) QztFileWriter, Checksum) action"
where
  "hash_prefix X ops prefix_len =
     abind (on_writer (op_seek_start ops 0)) (\<lambda>_.
     abind (hash_prefix_loop X ops prefix_len (hasher_new X)) (\<lambda>hasher.
     alift (Ok (Checksum_from_hasher X hasher))))"

function finish_loop :: "('h, 'x) ext_scheme \<Rightarrow> 'w sink_ops \<Rightarrow> (('w, 'h) QztFileWriter, unit) action" where
  "finish_loop X ops self =
     (if fw_pending self = [] then (Ok (), self)
      else
        (case choose_known_chunk_end (fw_pending self) (wo_chunker (fw_options self)) of
           Inl err \<Rightarrow> (Err err, self)
         | Inr e \<Rightarrow>
             (case emit_pending_chunk X ops e self of
                (Inl err, self) \<Rightarrow> (Err err, self)
              | (Inr _, self) \<Rightarrow> finish_loop X ops self)))"
  by pat_completeness auto
termination
proof (relation "measure (\<lambda>(X, ops, self). table_capacity - length (fw_entries self))", goal_cases)
  case (2 X ops self e r self' u)
  then have em: "emit_pending_chunk X ops e self = (Inr u, self')" by simp
  show ?case using emit_pending_chunk_entries [OF em] by simp
qed simp

declare finish_loop.simps [simp del]

definition finish_inner ::
  "('h, 'x) ext_scheme \<Rightarrow> 'w sink_ops \<Rightarrow> (('w, 'h) QztFileWriter, unit) action"
where
  "finish_inner X ops =
     abind (finish_loop X ops) (\<lambda>_. awith (\<lambda>self.
     let input_hash = hasher_finalize X (fw_input_hasher self);
         cid = container_id_from_hash input_hash;
         original_checksum = Checksum_from_raw_bytes input_hash;
         md_off = fw_physical_offset self in
     abind (alift (usize_to_u64 (target_chunk_size (wo_chunker (fw_options self))))) (\<lambda>target.
     abind (alift (usize_to_u64 (max_chunk_size (wo_chunker (fw_options self))))) (\<lambda>maximum.
     let metadata = Metadata_for_source_with_options cid (fw_logical_offset self) original_checksum
           (NewlineMode_as_str (from_counts (fw_lf_count self) (fw_crlf_count self))) (fw_line_starts_seen self)
           \<lparr>mo_zstd_level = wo_zstd_level (fw_options self), mo_target_chunk_size = target,
            mo_max_chunk_size = maximum, mo_dictionary_mode = ''none'', mo_profile = ''core'',
            mo_dense_line_index = False, mo_document_index = False\<rparr> in
     abind (alift (Metadata_encode metadata)) (\<lambda>metadata_bytes.
     abind (alift (usize_to_u64 (length metadata_bytes))) (\<lambda>md_size.
     abind (alift (check_writer_cbor_block metadata_bytes)) (\<lambda>_.
     abind (alift (ok_or (checked_add md_off md_size) PhysicalRangeOutOfBounds)) (\<lambda>table_off.
     let chunk_table_bytes = concat (map ChunkEntry_encode (fw_entries self)) in
     abind (alift (usize_to_u64 (length chunk_table_bytes))) (\<lambda>table_size.
     abind (alift (usize_to_u64 (length (fw_entries self)))) (\<lambda>chunk_count.
     let index_root = \<lparr>ir_container_id = cid,
           ir_blocks = [BlockDescriptor_chunk_table table_off table_size (Checksum_blake3 X chunk_table_bytes)],
           ir_original_size = md_original_size metadata, ir_original_checksum = md_original_checksum metadata,
           ir_chunk_count = chunk_count, ir_line_count = md_line_count metadata\<rparr> in
     abind (alift (IndexRoot_encode index_root)) (\<lambda>index_root_bytes.
     abind (alift (check_writer_cbor_block index_root_bytes)) (\<lambda>_.
     abind (alift (ok_or (checked_add table_off table_size) PhysicalRangeOutOfBounds)) (\<lambda>root_off.
     abind (alift (usize_to_u64 (length index_root_bytes))) (\<lambda>root_size.
     abind (alift (ok_or (checked_add root_off root_size) PhysicalRangeOutOfBounds)) (\<lambda>payload_off.
     let header = \<lparr>metadata_offset = md_off, metadata_size = md_size, index_hint_offset = root_off,
           h_container_id = cid\<rparr> in
     abind (on_writer (op_seek_start ops md_off)) (\<lambda>_.
     abind (on_writer (op_write_all ops metadata_bytes)) (\<lambda>_.
     abind (on_writer (op_write_all ops chunk_table_bytes)) (\<lambda>_.
     abind (on_writer (op_write_all ops index_root_bytes)) (\<lambda>_.
     abind (on_writer (op_seek_start ops 0)) (\<lambda>_.
     abind (on_writer (op_write_all ops (Header_encode header))) (\<lambda>_.
     abind (on_writer (op_stream_position ops)) (\<lambda>position.
     if position \<noteq> HEADER_LEN then alift (Err ContainerCorrupt)
     else
       abind (on_writer (op_flush ops)) (\<lambda>_.
       abind (hash_prefix X ops payload_off) (\<lambda>container_checksum.
       abind (alift (fixed_point_footer_payload cid
           \<lparr>br_offset = root_off, br_size = root_size, br_checksum = Checksum_blake3 X index_root_bytes\<rparr>
           \<lparr>br_offset = md_off, br_size = md_size, br_checksum = Checksum_blake3 X metadata_bytes\<rparr>
           payload_off (Some container_checksum))) (\<lambda>footer_payload.
       abind (alift (FooterPayload_encode footer_payload)) (\<lambda>footer_bytes.
       abind (alift (check_writer_cbor_block footer_bytes)) (\<lambda>_.
       abind (alift (usize_to_u64 (length footer_bytes))) (\<lambda>footer_size.
       let trailer = \<lparr>footer_payload_offset = payload_off, footer_payload_size = footer_size,
             footer_payload_checksum_blake3 = cs_value (Checksum_blake3 X footer_bytes)\<rparr> in
       abind (on_writer (op_seek_start ops payload_off)) (\<lambda>_.
       abind (on_writer (op_write_all ops footer_bytes)) (\<lambda>_.
       abind (on_writer (op_write_all ops (FooterTrailer_encode trailer))) (\<lambda>_.
       abind (on_writer (op_flush ops)) (\<lambda>_.
       abind (on_writer (op_seek_end ops)) (\<lambda>actual_size.
       alift (if actual_size \<noteq> fp_final_file_size footer_payload then Err FinalFileSizeMismatch else Ok ()))))))))))))))))))))))))))))))))))"

definition QztFileWriter_finish ::
  "('h, 'x) ext_scheme \<Rightarrow> 'w sink_ops \<Rightarrow> (('w, 'h) QztFileWriter, unit) action"
where
  "QztFileWriter_finish X ops self =
     (if fw_finished self \<or> fw_poisoned self then (Err WriterAlreadyFinished, self)
      else
        case finish_inner X ops self of
          (Inl err, self) \<Rightarrow> (Err err, self\<lparr>fw_poisoned := True\<rparr>)
        | (Inr _, self) \<Rightarrow> (Ok (), self\<lparr>fw_finished := True\<rparr>))"

definition QztFileWriter_into_inner :: "('w, 'h) QztFileWriter \<Rightarrow> 'w" where
  "QztFileWriter_into_inner self = fw_writer self"

end
