(* ===== verification/Stream_Cuts.thy ===== *)
theory Stream_Cuts
  imports Stream_Writer
begin

text \<open>
  Where the streaming writer cuts. It sees only the pending bytes, one more than the largest
  chunk while the input goes on, and all that is left at the end; the planner sees the whole
  input. Both choose the same cuts.
\<close>

section \<open>A window of the input\<close>

text \<open>Bytes \<open>[s, s + length d)\<close> of the input, up to its end or with one byte of lookahead past \<open>m\<close>.\<close>

definition window :: "bytes \<Rightarrow> nat \<Rightarrow> bytes \<Rightarrow> nat \<Rightarrow> bool" where
  "window input s d m \<longleftrightarrow> s + length d \<le> length input \<and> (\<forall>i < length d. d ! i = input ! (s + i)) \<and>
     m \<le> length d \<and> (m < length d \<or> s + length d = length input)"

lemma foldl_boundary_shift:
  assumes "\<forall>i < m. d ! i = input ! (s + i)"
  shows "foldl (\<lambda>b c. if input ! c = LF then Some (c + 1) else b) None [s ..< s + m] =
     map_option (\<lambda>k. s + k) (foldl (\<lambda>b c. if d ! c = LF then Some (c + 1) else b) None [0 ..< m])"
  using assms by (induction m) auto

lemma last_line_boundary_foldl:
  "last_line_boundary input s e = foldl (\<lambda>b c. if input ! c = LF then Some (c + 1) else b) None [s ..< e]"
  using foldl_last [OF refl, where P = "\<lambda>c. input ! c = LF" and s = s and e = e]
  by (auto simp: last_line_boundary_def Let_def splits_crlf_def split: option.splits)

lemma last_line_boundary_window:
  assumes "window input s d m'" and "m \<le> length d"
  shows "last_line_boundary input s (s + m) = map_option (\<lambda>k. s + k) (last_line_boundary d 0 m)"
  unfolding last_line_boundary_foldl
  using assms by (intro foldl_boundary_shift) (simp add: window_def)

lemma cut_window:
  assumes "window input s d m" and "0 < k" and "k \<le> m"
  shows "is_utf8_boundary input (s + k) \<longleftrightarrow> is_utf8_boundary d k" and "splits_crlf input (s + k) \<longleftrightarrow> splits_crlf d k"
proof -
  note w = assms(1) [unfolded window_def]
  have i: "d ! i = input ! (s + i)" if "i < length d" for i using w that by blast
  have e: "s + k = length input \<longleftrightarrow> k = length d" "s + k < length input \<longleftrightarrow> k < length d" using w assms(2,3) by auto
  show "is_utf8_boundary input (s + k) \<longleftrightarrow> is_utf8_boundary d k"
    using i [of k] e assms(2) by (auto simp: is_utf8_boundary_def get_def)
  have "s + k - 1 = s + (k - 1)" using assms(2) by simp
  then show "splits_crlf input (s + k) \<longleftrightarrow> splits_crlf d k"
    using i [of k] i [of "k - 1"] e assms(2) by (auto simp: splits_crlf_def)
qed

lemma find_map: "find P (map f xs) = map_option f (find (P \<circ> f) xs)"
  by (induction xs) auto

lemma find_cong_set: "(\<And>x. x \<in> set xs \<Longrightarrow> P x = Q x) \<Longrightarrow> find P xs = find Q xs"
  by (induction xs) auto

lemma previous_valid_split_window:
  assumes "window input s d m"
  shows "previous_valid_split input s (s + m) = map_option (\<lambda>k. s + k) (previous_valid_split d 0 m)"
proof -
  have "[s + 1 ..< s + m + 1] = map (\<lambda>k. s + k) [0 + 1 ..< m + 1]"
    by (intro nth_equalityI) (auto simp del: upt_Suc)
  then have "rev [s + 1 ..< s + m + 1] = map (\<lambda>k. s + k) (rev [0 + 1 ..< m + 1])" by (simp only: rev_map)
  moreover have "find ((\<lambda>c. is_utf8_boundary input c \<and> \<not> splits_crlf input c) \<circ> (\<lambda>k. s + k)) (rev [0 + 1 ..< m + 1]) =
      find (\<lambda>c. is_utf8_boundary d c \<and> \<not> splits_crlf d c) (rev [0 + 1 ..< m + 1])"
    by (rule find_cong_set) (auto simp: cut_window [OF assms])
  ultimately show ?thesis unfolding previous_valid_split_def find_map [symmetric] by (simp only: find_map)
qed

lemma choose_window:
  assumes "window input s d m" and "t \<le> length d"
  shows "rbind (choose_non_final_chunk_end d t m) (\<lambda>k. Ok (s + k)) =
     (case last_line_boundary input s (s + t) of Some line_end \<Rightarrow> Ok line_end
      | None \<Rightarrow> (case last_line_boundary input s (s + m) of Some line_end \<Rightarrow> Ok line_end
          | None \<Rightarrow> ok_or (previous_valid_split input s (s + m)) ResourceLimitExceeded))"
proof -
  have m: "m \<le> length d" using assms(1) by (simp add: window_def)
  show ?thesis
    unfolding choose_non_final_chunk_end_def last_line_boundary_window [OF assms] last_line_boundary_window [OF assms(1) m]
      previous_valid_split_window [OF assms(1)]
    by (cases "previous_valid_split d 0 m") (auto split: option.splits)
qed

text \<open>With a byte to spare the cut is final, whatever follows.\<close>

lemma choose_stream_chunk_end_eq:
  assumes "d = drop s input" and "max_chunk_size options < length d" and "target_chunk_size options \<le> max_chunk_size options"
    and "s + max_chunk_size options < u64_end"
  shows "choose_chunk_end (input @ ext) s options = rbind (choose_stream_chunk_end d options) (\<lambda>k. Ok (s + k))"
proof -
  have s: "s < length input" using assms(1,2) by (cases "s < length input") auto
  have w: "window (input @ ext) s d (max_chunk_size options)"
    using assms(1,2) s by (auto simp: window_def nth_append)
  have l: "s + length d = length input" using assms(1) s by simp
  have mn: "min ((s + max_chunk_size options) mod u64_end) (length (input @ ext)) = s + max_chunk_size options"
    using assms(2,4) l by simp
  have "\<not> length (input @ ext) - s \<le> target_chunk_size options" using assms(2,3) l by simp
  note nf = this
  show ?thesis
    unfolding choose_chunk_end_def Let_def mn if_not_P [OF nf(1)]
    using choose_window [OF w, of "target_chunk_size options"] assms(2,3) by (simp add: choose_stream_chunk_end_def Let_def)
qed

text \<open>At the end of the input the pending bytes are all there is.\<close>

lemma choose_known_chunk_end_eq:
  assumes "d = drop s input" and "s \<le> length input" and "target_chunk_size options \<le> max_chunk_size options"
    and "s + max_chunk_size options < u64_end"
  shows "choose_chunk_end input s options = rbind (choose_known_chunk_end d options) (\<lambda>k. Ok (s + k))"
proof (cases "length d \<le> target_chunk_size options")
  case True
  then show ?thesis using assms(1,2) by (simp add: choose_chunk_end_def choose_known_chunk_end_def)
next
  case False
  let ?m = "min (max_chunk_size options) (length d)"
  have w: "window input s d ?m" using assms(1,2) by (auto simp: window_def)
  have mn: "min ((s + max_chunk_size options) mod u64_end) (length input) = s + ?m" using assms by (auto simp: min_def)
  show ?thesis
    unfolding choose_chunk_end_def Let_def mn
    using choose_window [OF w, of "target_chunk_size options"] assms(1,2) False by (simp add: choose_known_chunk_end_def Let_def)
qed

lemma choose_non_final_bounds:
  assumes "choose_non_final_chunk_end d t m = Ok k" and "t \<le> m"
  shows "0 < k" and "k \<le> m"
proof -
  have "0 < k \<and> k \<le> m"
  proof (cases "last_line_boundary d 0 t")
    case (Some k')
    then show ?thesis using assms last_line_boundary_Some [OF Some] by (simp add: choose_non_final_chunk_end_def)
  next
    case None
    then show ?thesis
      using assms last_line_boundary_Some [of d 0 m] previous_valid_split_Some [of d 0 m]
      by (auto simp: choose_non_final_chunk_end_def result_simps split: option.splits)
  qed
  then show "0 < k" "k \<le> m" by simp_all
qed

lemma choose_stream_bounds:
  assumes "choose_stream_chunk_end d options = Ok k" and "target_chunk_size options \<le> max_chunk_size options"
  shows "0 < k" and "k \<le> max_chunk_size options" and "max_chunk_size options < length d"
  using assms choose_non_final_bounds [of d "target_chunk_size options" "max_chunk_size options" k]
  by (auto simp: choose_stream_chunk_end_def Let_def split: if_splits)

lemma choose_known_bounds:
  assumes "choose_known_chunk_end d options = Ok k" and "target_chunk_size options \<le> max_chunk_size options" and "d \<noteq> []"
  shows "0 < k" and "k \<le> length d"
  using assms choose_non_final_bounds [of d "target_chunk_size options" "min (max_chunk_size options) (length d)" k]
  by (auto simp: choose_known_chunk_end_def Let_def split: if_splits)

section \<open>Sequences of cuts\<close>

definition plan_of :: "bytes \<Rightarrow> nat \<Rightarrow> nat \<Rightarrow> nat \<Rightarrow> PlannedChunk" where
  "plan_of data n s e = \<lparr>pc_chunk_id = n, pc_logical_offset = s, pc_uncompressed_size = e - s,
     pc_first_line = lines_in data 0 s, pc_line_count = lines_in data s e,
     pc_flags = (if is_line_start data s then 0 else STARTS_WITH_LINE_CONTINUATION)\<rparr>"

text \<open>The chunks cut from \<open>s\<close> up to \<open>stop\<close>, where \<open>ends s e\<close> says that a chunk at \<open>s\<close> ends at \<open>e\<close>.\<close>

fun cuts :: "(nat \<Rightarrow> nat \<Rightarrow> bool) \<Rightarrow> bytes \<Rightarrow> nat \<Rightarrow> nat \<Rightarrow> PlannedChunk list \<Rightarrow> nat \<Rightarrow> bool" where
  "cuts ends data n s [] stop \<longleftrightarrow> s = stop"
| "cuts ends data n s (c # cs) stop \<longleftrightarrow>
     (\<exists>e. s < e \<and> e \<le> length data \<and> ends s e \<and> c = plan_of data n s e \<and> cuts ends data (Suc n) e cs stop)"

lemma cuts_snoc:
  assumes "cuts ends data n s chunks stop" and "stop < e" and "e \<le> length data" and "ends stop e"
  shows "cuts ends data n s (chunks @ [plan_of data (n + length chunks) stop e]) e"
  using assms(1)
proof (induction chunks arbitrary: n s)
  case (Cons c cs)
  then obtain e' where "s < e'" "e' \<le> length data" "ends s e'" "c = plan_of data n s e'" "cuts ends data (Suc n) e' cs stop" by auto
  with Cons.IH [of "Suc n" e'] show ?case by auto
qed (use assms in auto)

lemma is_line_start_append: "s < length data \<Longrightarrow> is_line_start (data @ ext) s \<longleftrightarrow> is_line_start data s"
  by (auto simp: is_line_start_def nth_append)

lemma lines_in_extend: "b \<le> length data \<Longrightarrow> lines_in (data @ ext) a b = lines_in data a b"
  unfolding lines_in_def by (intro arg_cong [where f = length] filter_cong refl) (auto simp: is_line_start_append)

lemma cuts_mono:
  assumes "cuts ends data n s chunks stop" and "\<And>a b. ends a b \<Longrightarrow> ends' a b"
  shows "cuts ends' (data @ ext) n s chunks stop"
  using assms(1)
proof (induction chunks arbitrary: n s)
  case (Cons c cs)
  then obtain e where e: "s < e" "e \<le> length data" "ends s e" "c = plan_of data n s e" "cuts ends data (Suc n) e cs stop" by auto
  have "plan_of (data @ ext) n s e = plan_of data n s e"
    using e(1,2) by (simp add: plan_of_def lines_in_extend is_line_start_append)
  then show ?case using e Cons.IH [OF e(5)] assms(2) by (auto intro!: exI [of _ e])
qed simp

lemma planned_chunk_eq:
  assumes "s < e" and "e \<le> length data" and "length data < u64_end" and "n < u64_end"
  shows "planned_chunk data (filter (is_line_start data) [0 ..< length data]) n s e = Ok (plan_of data n s e)"
proof -
  obtain c where c: "planned_chunk data (filter (is_line_start data) [0 ..< length data]) n s e = Ok c"
    using planned_chunk_total [OF assms] by (auto simp: is_ok_iff)
  have "c = plan_of data n s e"
    using planned_chunk_sound [OF c assms(1,2)] by (cases c) (auto simp: plan_of_def)
  then show ?thesis using c by simp
qed

text \<open>A complete sequence of the planner's cuts is what its loop returns.\<close>

lemma cuts_plan_loop:
  assumes "cuts (\<lambda>s e. choose_chunk_end data s options = Ok e) data (length acc) s chunks (length data)"
    and "length acc + length chunks \<le> table_capacity" and "length data < u64_end"
  shows "plan_loop data options (filter (is_line_start data) [0 ..< length data]) s acc = Ok (acc @ chunks)"
  using assms(1,2)
proof (induction chunks arbitrary: s acc)
  case Nil
  then show ?case by (subst plan_loop.simps) simp
next
  case (Cons c cs)
  then obtain e where e: "s < e" "e \<le> length data" "choose_chunk_end data s options = Ok e" "c = plan_of data (length acc) s e"
    "cuts (\<lambda>s e. choose_chunk_end data s options = Ok e) data (Suc (length acc)) e cs (length data)" by auto
  have n: "length acc < u64_end" "length acc + 1 < u64_end" "length acc + 1 \<le> table_capacity"
    using Cons.prems(2) small_limits by simp_all
  have "plan_loop data options (filter (is_line_start data) [0 ..< length data]) e (acc @ [c]) = Ok ((acc @ [c]) @ cs)"
    using Cons.IH [of "acc @ [c]" e] e(5) Cons.prems(2) by simp
  moreover have "enforce_chunk_table_entries ResourceLimits_default (length acc + 1) = Ok ()"
    using n(3) by (simp add: default_capacity)
  ultimately show ?case
    using e n planned_chunk_eq [OF e(1,2) assms(3) n(1)]
    by (subst plan_loop.simps) (simp add: checked_add_def)
qed

lemma cuts_stop: "cuts ends data n s chunks stop \<Longrightarrow> s \<le> length data \<Longrightarrow> s \<le> stop \<and> stop \<le> length data"
  by (induction chunks arbitrary: n s) (auto, force+)

text \<open>The planner run on the whole input.\<close>

lemma cuts_plan_chunks:
  assumes "cuts (\<lambda>s e. choose_chunk_end data s options = Ok e) data 0 0 chunks (length data)"
    and "length chunks \<le> table_capacity" and "length data < u64_end" and "valid_utf8 data"
    and "ChunkerOptions_validate options = Ok ()"
  obtains plan where "plan_chunks data options = Ok plan" and "plan_chunk_list plan = chunks"
proof (cases "data = []")
  case True
  then have "chunks = []" using assms(1) by (cases chunks) auto
  then show thesis using that True assms(5) by (simp add: plan_chunks_def from_utf8_def Let_def)
next
  case False
  let ?ls = "filter (is_line_start data) [0 ..< length data]"
  have l: "plan_loop data options ?ls 0 [] = Ok chunks"
    using cuts_plan_loop [where acc = "[]" and s = 0] assms by simp
  have "length ?ls < u64_end" using length_filter_le [of "is_line_start data" "[0 ..< length data]"] assms(3) by simp
  then show thesis
    using that False l assms(4,5)
    by (simp add: plan_chunks_def from_utf8_def LineInfo_from_bytes_eq Let_def usize_to_u64_def)
qed

end
