(* ===== verification/Stream_Correct.thy ===== *)
theory Stream_Correct
  imports Stream_Cuts
begin

text \<open>
  The streaming writer against the in-memory writer. What it relies on of its sink is the
  locale \<open>random_access_sink\<close>: an operation that succeeds does what a seekable file does, and
  nothing is said of when operations succeed. In the locale, a run that succeeds leaves in the
  sink exactly the container that packing the whole input at once gives, however the input was
  split into fragments.
\<close>

section \<open>The contract of a sink\<close>

definition write_at :: "nat \<Rightarrow> bytes \<Rightarrow> bytes \<Rightarrow> bytes" where
  "write_at p bs c = take p (c @ replicate (p - length c) 0) @ bs @ drop (p + length bs) c"

lemma write_at_end: "p = length c \<Longrightarrow> write_at p bs c = c @ bs"
  by (simp add: write_at_def)

lemma write_at_start: "length bs = length h \<Longrightarrow> write_at 0 bs (h @ c) = bs @ c"
  by (simp add: write_at_def)

locale random_access_sink =
  fixes ops :: "'w sink_ops" and contents :: "'w \<Rightarrow> bytes" and position :: "'w \<Rightarrow> nat"
  assumes position_law: "op_stream_position ops w = (Inr p, w') \<Longrightarrow>
      p = position w \<and> position w' = position w \<and> contents w' = contents w"
    and seek_law: "op_seek_start ops p w = (Inr q, w') \<Longrightarrow> position w' = p \<and> contents w' = contents w"
    and end_law: "op_seek_end ops w = (Inr n, w') \<Longrightarrow>
      n = length (contents w) \<and> position w' = n \<and> contents w' = contents w"
    and write_law: "op_write_all ops bs w = (Inr u, w') \<Longrightarrow>
      contents w' = write_at (position w) bs (contents w) \<and> position w' = position w + length bs"
    and flush_law: "op_flush ops w = (Inr u, w') \<Longrightarrow> position w' = position w \<and> contents w' = contents w"
    and read_law: "op_read_exact ops n w = (Inr bs, w') \<Longrightarrow>
      length bs = n \<and> bs = slice (contents w) (position w) (position w + n) \<and>
      position w' = position w + n \<and> contents w' = contents w"

section \<open>Helpers\<close>

lemma packed_append:
  "packed_from X input level p chunks cs es \<Longrightarrow> packed_from X input level (p + length (concat cs)) chunks' cs' es' \<Longrightarrow>
     packed_from X input level p (chunks @ chunks') (cs @ cs') (es @ es')"
proof (induction X input level p chunks cs es rule: packed_from.induct)
  case (2 X input level p c chunks cs es)
  then obtain z cs1 e es1 where s: "cs = z # cs1" "es = e # es1" "packed_from X input level p [c] [z] [e]"
    "packed_from X input level (p + length z) chunks cs1 es1" by (auto simp: Let_def)
  have "packed_from X input level (p + length z) (chunks @ chunks') (cs1 @ cs') (es1 @ es')"
    using "2.IH" [OF s(4)] "2.prems"(2) s(1) by (simp add: add.assoc)
  then show ?case using s(1-3) by (simp add: Let_def)
qed simp

lemma packed_extend:
  "packed_from X input level p chunks cs es \<Longrightarrow> packed_from X (input @ ext) level p chunks cs es"
proof (induction X input level p chunks cs es rule: packed_from.induct)
  case (2 X input level p c chunks cs es)
  then obtain z cs1 e es1 where s: "cs = z # cs1" "es = e # es1" "packed_from X input level p [c] [z] [e]"
    "packed_from X input level (p + length z) chunks cs1 es1" by (auto simp: Let_def)
  have "packed_from X (input @ ext) level (p + length z) chunks cs1 es1" using "2.IH" [OF s(4)] .
  moreover have "slice (input @ ext) a b = slice input a b" if "b \<le> length input" for a b
    using that by (simp add: slice_def)
  ultimately show ?case using s(1-3) by (auto simp: Let_def)
qed simp

text \<open>The newline counters as the text analysis of the reader.\<close>

definition analysis :: "('w, 'h) QztFileWriter \<Rightarrow> StreamingTextAnalysis" where
  "analysis self = \<lparr>ta_line_starts_seen = 0, ta_lf_count = fw_lf_count self, ta_crlf_count = fw_crlf_count self,
     ta_previous_byte = fw_previous_byte self\<rparr>"

lemma update_newline_state_analysis:
  "update_newline_state bs self = (Inr u, self') \<Longrightarrow> rfold text_update_byte (analysis self) bs = Ok (analysis self')"
proof (induction bs arbitrary: self)
  case (Cons b bs)
  obtain s where m: "(if b = LF then if fw_previous_byte self = Some CR then
            aupdate (\<lambda>self. rbind (ok_or (checked_add (fw_crlf_count self) 1) ResourceLimitExceeded) (\<lambda>n.
              Ok (self\<lparr>fw_crlf_count := n\<rparr>)))
          else aupdate (\<lambda>self. rbind (ok_or (checked_add (fw_lf_count self) 1) ResourceLimitExceeded) (\<lambda>n.
              Ok (self\<lparr>fw_lf_count := n\<rparr>)))
        else alift (Ok ())) self = (Inr (), s)"
    and s2: "update_newline_state bs (s\<lparr>fw_previous_byte := Some b\<rparr>) = (Inr u, self')"
    using Cons.prems unfolding update_newline_state.simps(2) abind_Ok_iff by auto
  have s1: "text_update_byte (analysis self) b = Ok (analysis (s\<lparr>fw_previous_byte := Some b\<rparr>))"
    using m by (auto simp: action_Ok_iffs rbind_Ok_iff result_simps text_update_byte_def analysis_def split: if_splits)
  note s = s1 s2
  then show ?case using Cons.IH [OF s(2)] by simp
qed simp

lemma slice_self_append: "slice (data @ ext) a (length data) = drop a data"
  by (simp add: slice_def)

section \<open>The state of a run\<close>

text \<open>
  The chunks cut so far, their frames in the sink behind the reserved header, and every
  counter, for an input that starts with \<open>data\<close>; \<open>data\<close> ends with the pending bytes.
\<close>

definition stream_state ::
  "('h, 'x) ext_scheme \<Rightarrow> (nat \<Rightarrow> nat \<Rightarrow> bool) \<Rightarrow> bytes \<Rightarrow> bytes \<Rightarrow> ('w, 'h) QztFileWriter \<Rightarrow> bool"
where
  "stream_state X ends content data self \<longleftrightarrow>
     (let start = fw_logical_offset self; options = fw_options self in
      \<exists>h chunks cs. length h = HEADER_LEN \<and> content = h @ concat cs \<and>
        fw_physical_offset self = HEADER_LEN + length (concat cs) \<and>
        cuts ends data 0 0 chunks start \<and>
        packed_from X data (wo_zstd_level options) HEADER_LEN chunks cs (fw_entries self) \<and>
        length chunks \<le> table_capacity \<and> start \<le> length data \<and> start \<le> length chunks * max_chunk_size (wo_chunker options) \<and>
        fw_pending self = drop start data \<and> fw_line_starts_seen self = lines_in data 0 start \<and>
        text_seen (take start data) (analysis self) \<and> valid_utf8 (take start data) \<and>
        validate_writer_options options = Ok ())"

lemma options_facts:
  assumes "validate_writer_options options = Ok ()"
  shows "target_chunk_size (wo_chunker options) \<le> max_chunk_size (wo_chunker options)" and "0 < target_chunk_size (wo_chunker options)"
    and "ChunkerOptions_validate (wo_chunker options) = Ok ()" and "max_chunk_size (wo_chunker options) \<le> 67108864"
  using assms options_max [OF assms]
  by (auto simp: validate_writer_options_def validate_writer_options_with_limits_def ChunkerOptions_validate_def rbind_Ok_iff
      split: if_splits)

text \<open>Neither offset comes near the width of 64 bits.\<close>

lemma stream_state_room:
  assumes "stream_state X ends content data self"
  shows "fw_logical_offset self + max_chunk_size (wo_chunker (fw_options self)) < u64_end"
    and "validate_writer_options (fw_options self) = Ok ()" and "fw_logical_offset self \<le> length data"
    and "fw_pending self = drop (fw_logical_offset self) data" and "fw_logical_offset self \<le> 2 ^ 45"
proof -
  obtain chunks :: "PlannedChunk list" where s: "length chunks \<le> table_capacity"
    "fw_logical_offset self \<le> length chunks * max_chunk_size (wo_chunker (fw_options self))"
    and v: "validate_writer_options (fw_options self) = Ok ()" "fw_logical_offset self \<le> length data"
      "fw_pending self = drop (fw_logical_offset self) data"
    using assms by (auto simp: stream_state_def Let_def)
  have m: "max_chunk_size (wo_chunker (fw_options self)) \<le> 67108864" using options_facts(4) [OF v(1)] .
  have "length chunks * max_chunk_size (wo_chunker (fw_options self)) \<le> 524288 * 67108864"
    using mult_le_mono [OF s(1) m] by (simp add: table_capacity_def)
  then show "fw_logical_offset self + max_chunk_size (wo_chunker (fw_options self)) < u64_end" "fw_logical_offset self \<le> 2 ^ 45"
    using s(2) m by (simp_all add: u64_end_def)
  show "validate_writer_options (fw_options self) = Ok ()" "fw_logical_offset self \<le> length data"
    "fw_pending self = drop (fw_logical_offset self) data" by (rule v)+
qed

text \<open>More input only adds pending bytes.\<close>

lemma stream_state_extend:
  assumes "stream_state X ends content data self" and "\<And>a b. ends a b \<Longrightarrow> ends' a b"
  shows "stream_state X ends' content (data @ ext) (self\<lparr>fw_pending := fw_pending self @ ext\<rparr>)"
proof -
  obtain h chunks cs where s: "length h = HEADER_LEN" "content = h @ concat cs"
      "fw_physical_offset self = HEADER_LEN + length (concat cs)" "length chunks \<le> table_capacity"
      "fw_logical_offset self \<le> length data" "fw_logical_offset self \<le> length chunks * max_chunk_size (wo_chunker (fw_options self))"
      "fw_pending self = drop (fw_logical_offset self) data" "fw_line_starts_seen self = lines_in data 0 (fw_logical_offset self)"
      "text_seen (take (fw_logical_offset self) data) (analysis self)" "valid_utf8 (take (fw_logical_offset self) data)"
      "validate_writer_options (fw_options self) = Ok ()"
    and c: "cuts ends data 0 0 chunks (fw_logical_offset self)"
    and p: "packed_from X data (wo_zstd_level (fw_options self)) HEADER_LEN chunks cs (fw_entries self)"
    using assms(1) unfolding stream_state_def Let_def by blast
  show ?thesis
    unfolding stream_state_def Let_def
    using s cuts_mono [OF c, of ends' ext] assms(2) packed_extend [OF p, of ext]
    by (intro exI [of _ h] exI [of _ chunks] exI [of _ cs]) (simp add: lines_in_extend analysis_def)
qed

lemma stream_state_mono:
  assumes "stream_state X ends content data self" and "\<And>a b. ends a b \<Longrightarrow> ends' a b"
  shows "stream_state X ends' content data self"
  using stream_state_extend [OF assms, where ext = "[]"] by simp

context random_access_sink
begin

text \<open>One emission advances the state by one chunk.\<close>

lemma emit_step:
  assumes st: "stream_state X ends (contents (fw_writer self)) data self"
    and em: "emit_pending_chunk X ops k self = (Inr u, self')"
    and k: "0 < k" "k \<le> max_chunk_size (wo_chunker (fw_options self))"
    and e: "ends (fw_logical_offset self) (fw_logical_offset self + k)"
  shows "stream_state X ends (contents (fw_writer self')) data self' \<and> fw_logical_offset self' = fw_logical_offset self + k \<and>
     fw_options self' = fw_options self \<and> fw_input_hasher self' = fw_input_hasher self \<and>
     fw_finished self' = fw_finished self \<and> fw_poisoned self' = fw_poisoned self"
proof -
  let ?s = "fw_logical_offset self" and ?e = "fw_logical_offset self + k"
  obtain h chunks cs where s: "length h = HEADER_LEN" "contents (fw_writer self) = h @ concat cs"
      "fw_physical_offset self = HEADER_LEN + length (concat cs)" "length chunks \<le> table_capacity"
      "?s \<le> length data" "?s \<le> length chunks * max_chunk_size (wo_chunker (fw_options self))"
      "fw_pending self = drop ?s data" "fw_line_starts_seen self = lines_in data 0 ?s"
      "text_seen (take ?s data) (analysis self)" "valid_utf8 (take ?s data)" "validate_writer_options (fw_options self) = Ok ()"
    and c: "cuts ends data 0 0 chunks ?s"
    and p: "packed_from X data (wo_zstd_level (fw_options self)) HEADER_LEN chunks cs (fw_entries self)"
    using st unfolding stream_state_def Let_def by blast
  obtain d s1 where d: "get_slice (fw_pending self) 0 k = Some d" and ec: "emit_chunk X ops d self = (Inr (), s1)"
    and self': "self' = s1\<lparr>fw_pending := drop k (fw_pending s1)\<rparr>"
    using em by (auto simp: emit_pending_chunk_def action_Ok_iffs result_simps)
  have kl: "?e \<le> length data" and dd: "d = slice data ?s ?e" and dl: "length d = k"
    using d s(5,7) by (auto simp: get_slice_def slice_def split: if_splits)
  from ec show ?thesis
  proof (rule emit_chunk_Ok)
    fix z starts q w1 w2 s2
    assume cap: "Suc (length (fw_entries self)) \<le> table_capacity"
      and h1: "length d \<le> max_uncompressed_chunk_size ResourceLimits_default" "valid_utf8 d"
        "zstd_encode_all X d (wo_zstd_level (fw_options self)) = Some z" "z \<noteq> []"
        "length z \<le> max_compressed_chunk_size ResourceLimits_default" "fw_physical_offset self + length z < u64_end"
      and starts: "line_start_offsets d (continuation_flag self) = Ok starts"
      and sk: "op_seek_start ops (fw_physical_offset self) (fw_writer self) = (Inr q, w1)"
      and wr: "op_write_all ops z w1 = (Inr (), w2)"
      and up: "update_newline_state d (self\<lparr>fw_writer := w2\<rparr>) = (Inr (), s2)"
      and w64: "fw_logical_offset self + length d < u64_end"
      and s1: "s1 = s2\<lparr>fw_line_starts_seen := fw_line_starts_seen self + length starts,
          fw_logical_offset := ?s + length d, fw_physical_offset := fw_physical_offset self + length z,
          fw_entries := fw_entries self @ [stream_entry X self d z (length starts)]\<rparr>"
    note f = update_newline_state_fields [OF up, simplified]
    have w2: "contents w2 = h @ concat cs @ z"
      using seek_law [OF sk] write_law [OF wr] s(1-3) by (simp add: write_at_end)
    have fl: "even (continuation_flag self) \<longleftrightarrow> is_line_start data ?s"
        "continuation_flag self = (if is_line_start data ?s then 0 else STARTS_WITH_LINE_CONTINUATION)"
    proof -
      have "?s \<noteq> 0 \<Longrightarrow> last (take ?s data) = data ! (?s - 1)" using s(5) by (subst last_conv_nth) auto
      then show "continuation_flag self = (if is_line_start data ?s then 0 else STARTS_WITH_LINE_CONTINUATION)"
        using s(5,9) k(1) kl by (auto simp: continuation_flag_def is_line_start_def text_seen_def analysis_def)
      then show "even (continuation_flag self) \<longleftrightarrow> is_line_start data ?s" by (simp add: STARTS_WITH_LINE_CONTINUATION_def)
    qed
    have starts: "length starts = lines_in data ?s ?e"
    proof -
      let ?p = "take ?e data"
      have pl: "length ?p = ?e" "?p @ drop ?e data = data" using kl by simp_all
      have "d = slice ?p ?s ?e" using dd by (simp add: slice_def drop_take)
      moreover have "is_line_start ?p ?s \<longleftrightarrow> is_line_start data ?s"
        using is_line_start_append [of ?s ?p "drop ?e data"] pl k(1) by simp
      ultimately have "local_line_starts d (continuation_flag self) = map (\<lambda>i. i - ?s) (filter (is_line_start ?p) [?s ..< ?e])"
        using fl(1) pl(1) w64 dl by (simp add: local_line_starts_slice)
      then have "length (local_line_starts d (continuation_flag self)) = lines_in ?p ?s ?e" by (simp add: lines_in_def)
      then have "length starts = lines_in ?p ?s ?e"
        using starts local_line_starts_offsets [of d "continuation_flag self"] w64 by simp
      then show ?thesis using lines_in_extend [of ?e ?p "drop ?e data" ?s] pl by simp
    qed
    let ?c = "plan_of data (length chunks) ?s ?e"
    have len: "length (fw_entries self) = length chunks" using packed_lengths [OF p] by simp
    have cuts: "cuts ends data 0 0 (chunks @ [?c]) ?e" using cuts_snoc [OF c _ kl e] k(1) by simp
    have "packed_from X data (wo_zstd_level (fw_options self)) (HEADER_LEN + length (concat cs)) [?c] [z]
        [stream_entry X self d z (length starts)]"
      using h1 s(3,8) kl dl dd fl(2) starts len
      by (simp add: Let_def plan_of_def stream_entry_def entry_of_plan_def)
    from packed_append [OF p this] have pk: "packed_from X data (wo_zstd_level (fw_options self)) HEADER_LEN (chunks @ [?c]) (cs @ [z])
        (fw_entries self @ [stream_entry X self d z (length starts)])" .
    have tk: "take ?e data = take ?s data @ d" using dd kl by (simp add: slice_def take_add)
    have seen: "text_seen (take ?e data) (analysis s2)"
    proof -
      have "rfold text_update_byte (analysis self) d = Ok (analysis s2)"
        using update_newline_state_analysis [OF up] by (simp add: analysis_def)
      from text_update_bytes_seen [OF this s(9)] show ?thesis using tk by simp
    qed
    have lines: "lines_in data 0 ?s + length starts = lines_in data 0 ?e" using starts lines_in_append [of 0 ?s ?e data] by simp
    have "stream_state X ends (contents (fw_writer self')) data self'"
      unfolding stream_state_def Let_def
      using s cuts pk cap len w2 tk seen lines kl dl h1(2) f valid_utf8_append [OF s(10) h1(2)] k(2)
      by (intro exI [of _ h] exI [of _ "chunks @ [?c]"] exI [of _ "cs @ [z]"])
         (simp add: self' s1 analysis_def drop_drop add.commute [of k] add.assoc)
    then show ?thesis using f dl by (simp add: self' s1)
  qed
qed

text \<open>Cuts that no further input can change, and cuts at the end of the input.\<close>

definition stable_cut :: "WriterOptions \<Rightarrow> bytes \<Rightarrow> nat \<Rightarrow> nat \<Rightarrow> bool" where
  "stable_cut options data s e \<longleftrightarrow> (\<forall>ext. choose_chunk_end (data @ ext) s (wo_chunker options) = Ok e)"

definition final_cut :: "WriterOptions \<Rightarrow> bytes \<Rightarrow> nat \<Rightarrow> nat \<Rightarrow> bool" where
  "final_cut options data s e \<longleftrightarrow> choose_chunk_end data s (wo_chunker options) = Ok e"

lemma stable_cut_extend: "stable_cut options data s e \<Longrightarrow> stable_cut options (data @ ext) s e"
  by (simp add: stable_cut_def)

lemma stable_cut_final: "stable_cut options data s e \<Longrightarrow> final_cut options data s e"
  unfolding stable_cut_def final_cut_def by (metis append_Nil2)

text \<open>Between two calls: nothing but pending bytes is missing from the sink.\<close>

definition open_run :: "('h, 'x) ext_scheme \<Rightarrow> bytes \<Rightarrow> ('w, 'h) QztFileWriter \<Rightarrow> bool" where
  "open_run X data self \<longleftrightarrow> stream_state X (stable_cut (fw_options self) data) (contents (fw_writer self)) data self \<and>
     length (fw_pending self) \<le> max_chunk_size (wo_chunker (fw_options self))"

text \<open>Emitting what \<open>push\<close> cuts from too many pending bytes.\<close>

lemma stream_emission:
  assumes st: "stream_state X (stable_cut (fw_options self) data) (contents (fw_writer self)) data self"
    and len: "max_chunk_size (wo_chunker (fw_options self)) < length (fw_pending self)"
      "length (fw_pending self) \<le> max_chunk_size (wo_chunker (fw_options self)) + 1"
    and k: "choose_stream_chunk_end (fw_pending self) (wo_chunker (fw_options self)) = Ok k"
    and em: "emit_pending_chunk X ops k self = (Inr u, self')"
  shows "open_run X data self' \<and> fw_options self' = fw_options self \<and> fw_input_hasher self' = fw_input_hasher self \<and>
     fw_finished self' = fw_finished self \<and> fw_poisoned self' = fw_poisoned self"
proof -
  note room = stream_state_room [OF st]
  note opt = options_facts(1) [OF room(2)]
  note kb = choose_stream_bounds [OF k opt]
  have cut: "stable_cut (fw_options self) data (fw_logical_offset self) (fw_logical_offset self + k)"
    unfolding stable_cut_def using choose_stream_chunk_end_eq [OF room(4) kb(3) opt room(1)] k by simp
  note step = emit_step [OF st em kb(1,2) cut]
  then have "stream_state X (stable_cut (fw_options self') data) (contents (fw_writer self')) data self'" by simp
  moreover from this have "length (fw_pending self') \<le> max_chunk_size (wo_chunker (fw_options self'))"
    using stream_state_room(4) [OF conjunct1 [OF step]] step room(4) kb(1) len(2) by simp
  ultimately show ?thesis using step by (simp add: open_run_def)
qed

lemma push_loop_sound_aux:
  assumes "push_loop X ops' remaining self = (Inr u, self')" and "ops' = ops" and "open_run X data self"
  shows "open_run X (data @ remaining) self' \<and> fw_options self' = fw_options self \<and>
     fw_input_hasher self' = fw_input_hasher self \<and> fw_finished self' = fw_finished self \<and> fw_poisoned self' = fw_poisoned self"
  using assms
proof (induction X ops' remaining self arbitrary: data rule: push_loop.induct)
  case (1 X ops' remaining self)
  let ?o = "fw_options self"
  let ?max = "max_chunk_size (wo_chunker ?o)"
  define n where "n = min (length remaining) (?max + 1 - length (fw_pending self))"
  define self1 where "self1 = self\<lparr>fw_pending := fw_pending self @ take n remaining\<rparr>"
  define rest where "rest = drop n remaining"
  define data1 where "data1 = data @ take n remaining"
  have st: "stream_state X (stable_cut ?o data) (contents (fw_writer self)) data self" and len: "length (fw_pending self) \<le> ?max"
    using "1.prems"(3) by (simp_all add: open_run_def)
  note run = "1.prems"(1) [unfolded push_loop.simps [of X ops' remaining self] Let_def, folded n_def, folded self1_def rest_def]
  show ?case
  proof (cases "remaining = []")
    case True
    then show ?thesis using run "1.prems"(3) by simp
  next
    case False
    obtain v where res: "try_reserve (length (fw_pending self)) n = Some v"
      using run False by (auto split: option.splits)
    have same: "fw_options self1 = ?o" "fw_writer self1 = fw_writer self" "fw_logical_offset self1 = fw_logical_offset self"
      "fw_input_hasher self1 = fw_input_hasher self" "fw_finished self1 = fw_finished self" "fw_poisoned self1 = fw_poisoned self"
      by (simp_all add: self1_def)
    have st': "stream_state X (stable_cut ?o data1) (contents (fw_writer self1)) data1 self1"
      using stream_state_extend [OF st, of "stable_cut ?o data1" "take n remaining"] stable_cut_extend
      by (simp add: self1_def data1_def)
    have data: "data1 @ rest = data @ remaining" by (simp add: data1_def rest_def)
    show ?thesis
    proof (cases "length (fw_pending self1) > ?max")
      case True
      obtain k u' self2 where k: "choose_stream_chunk_end (fw_pending self1) (wo_chunker ?o) = Ok k"
        and em: "emit_pending_chunk X ops k self1 = (Inr u', self2)" and more: "push_loop X ops rest self2 = (Inr u, self')"
        using run False res True unfolding "1.prems"(2) same by (auto split: sum.splits prod.splits)
      have "length (fw_pending self1) \<le> ?max + 1" using len by (simp add: self1_def n_def)
      note step = stream_emission [OF st' [folded same(1)], unfolded same, OF True this k em]
      then have run2: "open_run X data1 self2" by simp
      have "open_run X (data1 @ rest) self' \<and> fw_options self' = fw_options self2 \<and>
          fw_input_hasher self' = fw_input_hasher self2 \<and> fw_finished self' = fw_finished self2 \<and> fw_poisoned self' = fw_poisoned self2"
        by (rule "1.IH"(1) [OF False n_def res self1_def rest_def _ _ _ refl _ "1.prems"(2) run2])
           (use True k more same em [symmetric] "1.prems"(2) in simp_all)
      then show ?thesis using step data by simp
    next
      case nomore: False
      have more: "push_loop X ops rest self1 = (Inr u, self')"
        using run False res nomore unfolding "1.prems"(2) same by simp
      have run2: "open_run X data1 self1" using st' nomore same by (simp add: open_run_def)
      have "open_run X (data1 @ rest) self' \<and> fw_options self' = fw_options self1 \<and>
          fw_input_hasher self' = fw_input_hasher self1 \<and> fw_finished self' = fw_finished self1 \<and> fw_poisoned self' = fw_poisoned self1"
        by (rule "1.IH"(2) [OF False n_def res self1_def rest_def _ _ "1.prems"(2) run2])
           (use nomore more same "1.prems"(2) in simp_all)
      then show ?thesis using same data by simp
    qed
  qed
qed

lemmas push_loop_sound = push_loop_sound_aux [OF _ refl]

text \<open>At the end of the input the rest is cut the way the planner cuts it.\<close>

lemma finish_loop_sound:
  assumes "finish_loop X ops' self = (Inr u, self')" and "ops' = ops"
    and "stream_state X (final_cut (fw_options self) data) (contents (fw_writer self)) data self"
  shows "stream_state X (final_cut (fw_options self) data) (contents (fw_writer self')) data self' \<and> fw_pending self' = [] \<and>
     fw_options self' = fw_options self \<and> fw_input_hasher self' = fw_input_hasher self"
  using assms
proof (induction X ops' self rule: finish_loop.induct)
  case (1 X ops' self)
  note run = "1.prems"(1) [unfolded finish_loop.simps [of X ops' self]]
  show ?case
  proof (cases "fw_pending self = []")
    case True
    then show ?thesis using run "1.prems"(3) by simp
  next
    case False
    obtain k u' self2 where k: "choose_known_chunk_end (fw_pending self) (wo_chunker (fw_options self)) = Ok k"
      and em: "emit_pending_chunk X ops k self = (Inr u', self2)" and more: "finish_loop X ops self2 = (Inr u, self')"
      using run False unfolding "1.prems"(2) by (auto split: sum.splits prod.splits)
    note room = stream_state_room [OF "1.prems"(3)]
    note opt = options_facts(1) [OF room(2)]
    have kb: "0 < k" "k \<le> max_chunk_size (wo_chunker (fw_options self))"
      using choose_known_bounds [OF k opt False] k opt
        choose_non_final_bounds [of "fw_pending self" "target_chunk_size (wo_chunker (fw_options self))"
          "min (max_chunk_size (wo_chunker (fw_options self))) (length (fw_pending self))" k]
      by (auto simp: choose_known_chunk_end_def Let_def split: if_splits)
    have cut: "final_cut (fw_options self) data (fw_logical_offset self) (fw_logical_offset self + k)"
      unfolding final_cut_def using choose_known_chunk_end_eq [OF room(4,3) opt room(1)] k by simp
    from emit_step [OF "1.prems"(3) em kb cut] have step:
      "stream_state X (final_cut (fw_options self2) data) (contents (fw_writer self2)) data self2"
      "fw_options self2 = fw_options self" "fw_input_hasher self2 = fw_input_hasher self" by simp_all
    have "stream_state X (final_cut (fw_options self2) data) (contents (fw_writer self')) data self' \<and> fw_pending self' = [] \<and>
        fw_options self' = fw_options self2 \<and> fw_input_hasher self' = fw_input_hasher self2"
      by (rule "1.IH" [OF False k _ refl _ "1.prems"(2) step(1)]) (use em [symmetric] more "1.prems"(2) in simp_all)
    then show ?thesis using step by simp
  qed
qed

end

end
