(* ===== verification/Stream_Finish.thy ===== *)
theory Stream_Finish
  imports Stream_Correct
begin

text \<open>
  Finishing a streamed container: the blocks written behind the chunks, the header written
  over the reserved bytes and the checksum read back from the sink make up exactly the
  container that packing the input at once returns.
\<close>

section \<open>Packing runs\<close>

lemma packed_pack_loop:
  assumes "packed_from X input (wo_zstd_level options) p chunks cs es" and "length input < u64_end"
    and "\<forall>c \<in> set chunks. pc_logical_offset c + pc_uncompressed_size c \<le> length input"
  shows "rfold (pack_chunk X input options) (cs0, es0, p) chunks = Ok (cs0 @ cs, es0 @ es, p + length (concat cs))"
  using assms(1,3)
proof (induction chunks arbitrary: cs0 es0 p cs es)
  case (Cons c chunks)
  then obtain z cs1 e es1 where s: "cs = z # cs1" "es = e # es1" "packed_from X input (wo_zstd_level options) p [c] [z] [e]"
    "packed_from X input (wo_zstd_level options) (p + length z) chunks cs1 es1" by (auto simp: Let_def)
  have le: "pc_logical_offset c + pc_uncompressed_size c \<le> length input" using Cons.prems(2) by simp
  have w: "pc_logical_offset c < u64_end" "pc_uncompressed_size c < u64_end"
    "pc_logical_offset c + pc_uncompressed_size c < u64_end" using le assms(2) by simp_all
  have small: "length z < u64_end" using s(3) small_limits(3) by (simp add: Let_def)
  have "pack_chunk X input options (cs0, es0, p) c = Ok (cs0 @ [z], es0 @ [e], p + length z)"
    using s(3) le w small
    by (cases e) (auto simp: pack_chunk_def Let_def entry_of_plan_def get_slice_def encode_chunk_def u64_to_usize_def usize_to_u64_def
        checked_add_def enforce_chunk_sizes_def Checksum_blake3_def)
  then show ?case using Cons.IH [OF s(4), of "cs0 @ [z]" "es0 @ [e]"] Cons.prems(2) s(1,2) by simp
qed simp

lemma assembled_unique:
  assumes "assembled X input cid plan cs es optional md_off mb db ob rb f fb bs"
    and "assembled X input cid plan cs es optional md_off' mb' db' ob' rb' f' fb' bs'"
  shows "bs = bs'"
  using assms unfolding assembled_def Let_def by auto

section \<open>The steps of finishing\<close>

text \<open>The metadata and the index root of a streamed container, from the state after the last chunk.\<close>

definition stream_metadata :: "('h, 'x) ext_scheme \<Rightarrow> ('w, 'h) QztFileWriter \<Rightarrow> Metadata" where
  "stream_metadata X s =
     (let hash = hasher_finalize X (fw_input_hasher s) in
      Metadata_for_source_with_options (container_id_from_hash hash) (fw_logical_offset s) (Checksum_from_raw_bytes hash)
        (NewlineMode_as_str (from_counts (fw_lf_count s) (fw_crlf_count s))) (fw_line_starts_seen s)
        \<lparr>mo_zstd_level = wo_zstd_level (fw_options s), mo_target_chunk_size = target_chunk_size (wo_chunker (fw_options s)),
         mo_max_chunk_size = max_chunk_size (wo_chunker (fw_options s)), mo_dictionary_mode = ''none'', mo_profile = ''core'',
         mo_dense_line_index = False, mo_document_index = False\<rparr>)"

definition stream_table :: "('w, 'h) QztFileWriter \<Rightarrow> bytes" where
  "stream_table s = concat (map ChunkEntry_encode (fw_entries s))"

definition stream_root :: "('h, 'x) ext_scheme \<Rightarrow> ('w, 'h) QztFileWriter \<Rightarrow> bytes \<Rightarrow> IndexRoot" where
  "stream_root X s mb =
     \<lparr>ir_container_id = container_id_from_hash (hasher_finalize X (fw_input_hasher s)),
      ir_blocks = [BlockDescriptor_chunk_table (fw_physical_offset s + length mb) (length (stream_table s))
        (Checksum_blake3 X (stream_table s))],
      ir_original_size = md_original_size (stream_metadata X s), ir_original_checksum = md_original_checksum (stream_metadata X s),
      ir_chunk_count = length (fw_entries s), ir_line_count = md_line_count (stream_metadata X s)\<rparr>"


lemma abind_alift_iff: "abind (alift r) f s = (Inr y, t) \<longleftrightarrow> (\<exists>x. r = Ok x \<and> f x s = (Inr y, t))"
  by (auto simp: action_Ok_iffs)

lemma abind_writer_iff:
  "abind (on_writer op) f s = (Inr y, t) \<longleftrightarrow>
     (\<exists>x w. op (fw_writer s) = (Inr x, w) \<and> f x (s\<lparr>fw_writer := w\<rparr>) = (Inr y, t))"
  by (auto simp: action_Ok_iffs on_writer_Ok_iff)

lemma writer_twice: "s\<lparr>fw_writer := w\<rparr>\<lparr>fw_writer := w'\<rparr> = s\<lparr>fw_writer := w'\<rparr>" "fw_writer (s\<lparr>fw_writer := w\<rparr>) = w"
  by simp_all

lemma guard_iff: "(if c then alift (Err err) else m) s = (Inr y, t) \<longleftrightarrow> \<not> c \<and> m s = (Inr y, t)"
  by (auto simp: alift_def)


lemma finish_inner_steps:
  assumes "finish_inner X ops self = (Inr u, self')"
  obtains s mb rb f fb c q1 q2 q3 w1 w2 w3 w4 w5 w6 w7 w8 s9 w10 w11 w12 w13 w14 where
    "finish_loop X ops self = (Inr (), s)" and "Metadata_encode (stream_metadata X s) = Ok mb"
    and "check_writer_cbor_block mb = Ok ()" and "IndexRoot_encode (stream_root X s mb) = Ok rb"
    and "check_writer_cbor_block rb = Ok ()"
    and "fw_physical_offset s + length mb + length (stream_table s) + length rb < u64_end"
    and "op_seek_start ops (fw_physical_offset s) (fw_writer s) = (Inr q1, w1)" and "op_write_all ops mb w1 = (Inr (), w2)"
    and "op_write_all ops (stream_table s) w2 = (Inr (), w3)" and "op_write_all ops rb w3 = (Inr (), w4)"
    and "op_seek_start ops 0 w4 = (Inr q2, w5)"
    and "op_write_all ops (Header_encode \<lparr>metadata_offset = fw_physical_offset s, metadata_size = length mb,
        index_hint_offset = fw_physical_offset s + length mb + length (stream_table s),
        h_container_id = container_id_from_hash (hasher_finalize X (fw_input_hasher s))\<rparr>) w5 = (Inr (), w6)"
    and "op_stream_position ops w6 = (Inr HEADER_LEN, w7)" and "op_flush ops w7 = (Inr (), w8)"
    and "hash_prefix X ops (fw_physical_offset s + length mb + length (stream_table s) + length rb) (s\<lparr>fw_writer := w8\<rparr>) = (Inr c, s9)"
    and "fixed_point_footer_payload (container_id_from_hash (hasher_finalize X (fw_input_hasher s)))
        \<lparr>br_offset = fw_physical_offset s + length mb + length (stream_table s), br_size = length rb, br_checksum = Checksum_blake3 X rb\<rparr>
        \<lparr>br_offset = fw_physical_offset s, br_size = length mb, br_checksum = Checksum_blake3 X mb\<rparr>
        (fw_physical_offset s + length mb + length (stream_table s) + length rb) (Some c) = Ok f"
    and "FooterPayload_encode f = Ok fb" and "check_writer_cbor_block fb = Ok ()"
    and "op_seek_start ops (fw_physical_offset s + length mb + length (stream_table s) + length rb) (fw_writer s9) = (Inr q3, w10)"
    and "op_write_all ops fb w10 = (Inr (), w11)"
    and "op_write_all ops (FooterTrailer_encode \<lparr>footer_payload_offset = fw_physical_offset s + length mb + length (stream_table s) + length rb,
        footer_payload_size = length fb, footer_payload_checksum_blake3 = cs_value (Checksum_blake3 X fb)\<rparr>) w11 = (Inr (), w12)"
    and "op_flush ops w12 = (Inr (), w13)" and "op_seek_end ops w13 = (Inr (fp_final_file_size f), w14)"
    and "self' = s9\<lparr>fw_writer := w14\<rparr>"
proof -
  note run = assms [unfolded finish_inner_def abind_Ok_iff [of "finish_loop X ops"] awith_def Let_def]
  note run = run [unfolded abind_alift_iff abind_writer_iff guard_iff writer_twice usize_to_u64_Ok_iff ok_or_Ok_iff checked_add_Some_iff]
  note run = run [unfolded abind_Ok_iff [of "hash_prefix _ _ _"] abind_alift_iff abind_writer_iff guard_iff writer_twice
    usize_to_u64_Ok_iff ok_or_Ok_iff checked_add_Some_iff alift_Ok_iff if_Err_Ok_iff ex_unit not_not]
  from run show ?thesis
    by (elim exE conjE, hypsubst) (rule that [unfolded stream_metadata_def stream_table_def stream_root_def Let_def]; assumption)
qed

text \<open>The same steps, taken one after the other.\<close>

lemma finish_inner_run:
  assumes "target_chunk_size (wo_chunker (fw_options s)) < u64_end" and "max_chunk_size (wo_chunker (fw_options s)) < u64_end"
    and "length (fw_entries s) < u64_end" and "length fb < u64_end"
    and "finish_loop X ops self = (Inr (), s)" and "Metadata_encode (stream_metadata X s) = Ok mb"
    and "check_writer_cbor_block mb = Ok ()" and "IndexRoot_encode (stream_root X s mb) = Ok rb"
    and "check_writer_cbor_block rb = Ok ()"
    and "fw_physical_offset s + length mb + length (stream_table s) + length rb < u64_end"
    and "op_seek_start ops (fw_physical_offset s) (fw_writer s) = (Inr q1, w1)" and "op_write_all ops mb w1 = (Inr (), w2)"
    and "op_write_all ops (stream_table s) w2 = (Inr (), w3)" and "op_write_all ops rb w3 = (Inr (), w4)"
    and "op_seek_start ops 0 w4 = (Inr q2, w5)"
    and "op_write_all ops (Header_encode \<lparr>metadata_offset = fw_physical_offset s, metadata_size = length mb,
        index_hint_offset = fw_physical_offset s + length mb + length (stream_table s),
        h_container_id = container_id_from_hash (hasher_finalize X (fw_input_hasher s))\<rparr>) w5 = (Inr (), w6)"
    and "op_stream_position ops w6 = (Inr HEADER_LEN, w7)" and "op_flush ops w7 = (Inr (), w8)"
    and "hash_prefix X ops (fw_physical_offset s + length mb + length (stream_table s) + length rb) (s\<lparr>fw_writer := w8\<rparr>) = (Inr c, s9)"
    and "fixed_point_footer_payload (container_id_from_hash (hasher_finalize X (fw_input_hasher s)))
        \<lparr>br_offset = fw_physical_offset s + length mb + length (stream_table s), br_size = length rb, br_checksum = Checksum_blake3 X rb\<rparr>
        \<lparr>br_offset = fw_physical_offset s, br_size = length mb, br_checksum = Checksum_blake3 X mb\<rparr>
        (fw_physical_offset s + length mb + length (stream_table s) + length rb) (Some c) = Ok f"
    and "FooterPayload_encode f = Ok fb" and "check_writer_cbor_block fb = Ok ()"
    and "op_seek_start ops (fw_physical_offset s + length mb + length (stream_table s) + length rb) (fw_writer s9) = (Inr q3, w10)"
    and "op_write_all ops fb w10 = (Inr (), w11)"
    and "op_write_all ops (FooterTrailer_encode \<lparr>footer_payload_offset = fw_physical_offset s + length mb + length (stream_table s) + length rb,
        footer_payload_size = length fb, footer_payload_checksum_blake3 = cs_value (Checksum_blake3 X fb)\<rparr>) w11 = (Inr (), w12)"
    and "op_flush ops w12 = (Inr (), w13)" and "op_seek_end ops w13 = (Inr (fp_final_file_size f), w14)"
  shows "finish_inner X ops self = (Inr (), s9\<lparr>fw_writer := w14\<rparr>)"
proof -
  note steps = assms(5-) [unfolded stream_metadata_def stream_table_def stream_root_def Let_def]
  have w: "length mb < u64_end" "fw_physical_offset s + length mb < u64_end" "length (concat (map ChunkEntry_encode (fw_entries s))) < u64_end"
    "fw_physical_offset s + length mb + length (concat (map ChunkEntry_encode (fw_entries s))) < u64_end" "length rb < u64_end"
    using assms(10) by (simp_all add: stream_table_def del: length_concat)
  show ?thesis
    unfolding finish_inner_def abind_Ok_iff [of "finish_loop X ops"] awith_def Let_def
    by (rule exI, rule exI, rule conjI, rule steps(1))
      (simp add: steps w assms(1-4) abind_def alift_def on_writer_def io_def usize_to_u64_def checked_add_def del: length_concat)
qed

section \<open>Reading back\<close>

context random_access_sink
begin

lemma hash_prefix_loop_sound:
  assumes "hash_prefix_loop X ops' n h self = (Inr h', self')" and "ops' = ops" and "fed X d bs h"
  shows "fed X d (bs @ slice (contents (fw_writer self)) (position (fw_writer self)) (position (fw_writer self) + n)) h' \<and>
     contents (fw_writer self') = contents (fw_writer self) \<and> self' = self\<lparr>fw_writer := fw_writer self'\<rparr>"
  using assms
proof (induction X ops' n h self arbitrary: bs rule: hash_prefix_loop.induct)
  case (1 X ops' n h self)
  note run = "1.prems"(1) [unfolded hash_prefix_loop.simps [of X ops' n h self]]
  show ?case
  proof (cases "n > 0")
    case False
    then show ?thesis using run "1.prems"(3) by (simp add: slice_def)
  next
    case True
    obtain k part self2 where k: "u64_to_usize (min n (64 * 1024)) = Ok k" and rd: "on_writer (op_read_exact ops k) self = (Inr part, self2)"
      and more: "hash_prefix_loop X ops (n - k) (hasher_update X h part) self2 = (Inr h', self')"
      using run True unfolding "1.prems"(2) by (auto split: sum.splits prod.splits)
    have kn: "k \<le> n" using k by (auto simp: width_simps)
    obtain w where w: "op_read_exact ops k (fw_writer self) = (Inr part, w)" and self2: "self2 = self\<lparr>fw_writer := w\<rparr>"
      using rd by (auto simp: on_writer_Ok_iff)
    note law = read_law [OF w]
    have "fed X d (bs @ part) (hasher_update X h part)" by (rule fed_update [OF "1.prems"(3)])
    from "1.IH" [OF True k _ refl _ "1.prems"(2) this, of self2]
    have "fed X d ((bs @ part) @ slice (contents w) (position w) (position w + (n - k))) h' \<and>
        contents (fw_writer self') = contents w \<and> self' = self2\<lparr>fw_writer := fw_writer self'\<rparr>"
      using rd [symmetric] more "1.prems"(2) self2 by simp
    moreover have "part @ slice (contents (fw_writer self)) (position (fw_writer self) + k) (position (fw_writer self) + n) =
        slice (contents (fw_writer self)) (position (fw_writer self)) (position (fw_writer self) + n)"
      using law kn slice_append_self [of "position (fw_writer self)" "position (fw_writer self) + k" "position (fw_writer self) + n"]
      by simp
    ultimately show ?thesis using law kn self2 by simp
  qed
qed

lemma hash_prefix_sound:
  assumes "hash_prefix X ops n self = (Inr c, self')" and "blake3_documented X" and "n = length (contents (fw_writer self))"
  shows "c = Checksum_blake3 X (contents (fw_writer self))" and "contents (fw_writer self') = contents (fw_writer self)"
    and "self' = self\<lparr>fw_writer := fw_writer self'\<rparr>"
proof -
  obtain q w h where sk: "op_seek_start ops 0 (fw_writer self) = (Inr q, w)"
    and lp: "hash_prefix_loop X ops n (hasher_new X) (self\<lparr>fw_writer := w\<rparr>) = (Inr h, self')"
    and c: "c = Checksum_from_hasher X h"
    using assms(1) by (auto simp: hash_prefix_def action_Ok_iffs on_writer_Ok_iff)
  note law = seek_law [OF sk]
  have "fed X [] [] (hasher_new X)" by (auto simp: fed_def intro!: exI [of _ "[]"])
  note lp = hash_prefix_loop_sound [OF lp refl this]
  have "fed X [] (contents (fw_writer self)) h" using lp law assms(3) by (simp add: slice_def)
  then show "c = Checksum_blake3 X (contents (fw_writer self))"
    using fed_finalize [OF _ assms(2)] c by (simp add: Checksum_from_hasher_def Checksum_blake3_def)
  show "contents (fw_writer self') = contents (fw_writer self)" using lp law by simp
  show "self' = self\<lparr>fw_writer := fw_writer self'\<rparr>" using lp by (cases self; cases self') simp
qed

text \<open>When nothing is pending, the state is that of the in-memory writer before assembly.\<close>

definition core_blocks :: "WriterOptions \<Rightarrow> OptionalBlocks" where
  "core_blocks options = \<lparr>ob_dense_line_index = None, ob_document_index = None, ob_profile = ''core'', ob_writer_options = options\<rparr>"

lemma closed_state:
  assumes st: "stream_state X (final_cut (fw_options s) data) content data s" and "fw_pending s = []"
    and fd: "fed X d data (fw_input_hasher s)" and b3: "blake3_documented X" and lv: "typed_level (fw_options s)"
  obtains h plan cs where "length h = HEADER_LEN" and "content = h @ concat cs"
    and "fw_physical_offset s = HEADER_LEN + length (concat cs)"
    and "written X data (container_id_from_input X data) (fw_options s) plan cs (fw_entries s) (core_blocks (fw_options s))"
    and "stream_metadata X s = written_metadata X data (container_id_from_input X data) plan (core_blocks (fw_options s))"
    and "rfold (pack_chunk X data (fw_options s)) ([], [], HEADER_LEN) (plan_chunk_list plan) = Ok (cs, fw_entries s, fw_physical_offset s)"
    and "fw_physical_offset s = (if fw_entries s = [] then HEADER_LEN
           else physical_offset (last (fw_entries s)) + compressed_size (last (fw_entries s)))"
proof -
  obtain h chunks cs where s: "length h = HEADER_LEN" "content = h @ concat cs"
      "fw_physical_offset s = HEADER_LEN + length (concat cs)" "length chunks \<le> table_capacity"
      "fw_logical_offset s \<le> length data" "fw_pending s = drop (fw_logical_offset s) data"
      "fw_line_starts_seen s = lines_in data 0 (fw_logical_offset s)"
      "text_seen (take (fw_logical_offset s) data) (analysis s)" "valid_utf8 (take (fw_logical_offset s) data)"
      "validate_writer_options (fw_options s) = Ok ()"
    and c: "cuts (final_cut (fw_options s) data) data 0 0 chunks (fw_logical_offset s)"
    and p: "packed_from X data (wo_zstd_level (fw_options s)) HEADER_LEN chunks cs (fw_entries s)"
    using st unfolding stream_state_def Let_def by blast
  have len: "fw_logical_offset s = length data" using s(5,6) assms(2) by simp
  have n: "length data < u64_end" using stream_state_room(1) [OF st] len by simp
  obtain plan where plan: "plan_chunks data (wo_chunker (fw_options s)) = Ok plan" "plan_chunk_list plan = chunks"
    by (rule cuts_plan_chunks [OF _ s(4) n _ options_facts(3) [OF s(10)]])
       (use c s(9) len in \<open>simp_all add: final_cut_def [abs_def]\<close>)
  note ok = plan_chunks_Ok [OF plan(1)]
  have cid: "hasher_finalize X (fw_input_hasher s) = blake3_hash X data" by (rule fed_finalize [OF fd b3])
  have wr: "written X data (container_id_from_input X data) (fw_options s) plan cs (fw_entries s) (core_blocks (fw_options s))"
    using plan p s(4,10) b3 lv blake3_length [OF b3]
    by (simp add: written_def core_blocks_def check_chunk_table_size_iff validate_profile_def typed_level_def
        container_id_from_input_def container_id_from_hash_def)
  have md: "stream_metadata X s = written_metadata X data (container_id_from_input X data) plan (core_blocks (fw_options s))"
    using ok(4,5) s(7,8) len cid
    by (simp add: stream_metadata_def written_metadata_def core_blocks_def Let_def container_id_from_input_def text_seen_def analysis_def
        Checksum_from_raw_bytes_def Checksum_blake3_def)
  have "\<forall>c \<in> set chunks. pc_logical_offset c + pc_uncompressed_size c \<le> length data"
    using planned_from_nth [OF ok(3)] plan(2) by (fastforce simp: in_set_conv_nth chunk_ok_def Let_def)
  from packed_pack_loop [OF p n this] have pk: "rfold (pack_chunk X data (fw_options s)) ([], [], HEADER_LEN) (plan_chunk_list plan) =
      Ok (cs, fw_entries s, fw_physical_offset s)" using plan(2) s(3) by (simp del: length_concat)
  have "fw_physical_offset s = (if fw_entries s = [] then HEADER_LEN
           else physical_offset (last (fw_entries s)) + compressed_size (last (fw_entries s)))"
    using packed_end [OF p] packed_lengths [OF p] s(3) by (auto simp del: length_concat)
  with that s(1-3) wr md pk show thesis by blast
qed

text \<open>The in-memory writer from the same state.\<close>

lemma pack_bytes_assembled:
  assumes wr: "written X data (container_id_from_input X data) options plan cs es (core_blocks options)"
    and pk: "rfold (pack_chunk X data options) ([], [], HEADER_LEN) (plan_chunk_list plan) = Ok (cs, es, p)"
    and as: "assembled X data (container_id_from_input X data) plan cs es (core_blocks options) md_off mb db ob rb f fb bs"
  shows "pack_bytes X data options = Ok bs"
proof -
  obtain bs' where bs': "assemble_container X data (container_id_from_input X data) plan cs es (core_blocks options) = Ok bs'"
    using assemble_total [OF wr] by (auto simp: is_ok_iff core_blocks_def)
  then have "bs' = bs" using assemble_container_Ok [OF bs'] assembled_unique [OF as] by blast
  then show ?thesis
    using wr pk bs' by (simp add: pack_bytes_def pack_bytes_with_container_id_def pack_bytes_internal_def written_def core_blocks_def)
qed

text \<open>The state after the last chunk was cut.\<close>

lemma closed_run:
  assumes loop: "finish_loop X ops self = (Inr (), s)" and op: "open_run X data self"
    and fd: "fed X d data (fw_input_hasher self)" and b3: "blake3_documented X" and lv: "typed_level (fw_options self)"
  obtains h plan cs where "length h = HEADER_LEN" and "contents (fw_writer s) = h @ concat cs"
    and "fw_physical_offset s = HEADER_LEN + length (concat cs)"
    and "written X data (container_id_from_input X data) (fw_options self) plan cs (fw_entries s) (core_blocks (fw_options self))"
    and "stream_metadata X s = written_metadata X data (container_id_from_input X data) plan (core_blocks (fw_options self))"
    and "rfold (pack_chunk X data (fw_options self)) ([], [], HEADER_LEN) (plan_chunk_list plan) = Ok (cs, fw_entries s, fw_physical_offset s)"
    and "fw_physical_offset s = (if fw_entries s = [] then HEADER_LEN
           else physical_offset (last (fw_entries s)) + compressed_size (last (fw_entries s)))"
    and "container_id_from_hash (hasher_finalize X (fw_input_hasher s)) = container_id_from_input X data"
    and "length data < u64_end"
proof -
  have "stream_state X (final_cut (fw_options self) data) (contents (fw_writer self)) data self"
    by (rule stream_state_mono [OF conjunct1 [OF op [unfolded open_run_def]]]) (rule stable_cut_final)
  note st = finish_loop_sound [OF loop refl this]
  have opt: "fw_options s = fw_options self" "fw_input_hasher s = fw_input_hasher self" "fw_pending s = []" using st by simp_all
  have st': "stream_state X (final_cut (fw_options s) data) (contents (fw_writer s)) data s" using st opt(1) by simp
  have cid: "container_id_from_hash (hasher_finalize X (fw_input_hasher s)) = container_id_from_input X data"
    using fed_finalize [OF fd b3] opt(2) by (simp add: container_id_from_input_def)
  have n: "length data < u64_end" using stream_state_room(1,4,3) [OF st'] opt(3) by simp
  show thesis
    by (rule closed_state [OF st' opt(3) fd [folded opt(2)] b3 lv [folded opt(1)], unfolded opt(1)]) (rule that [OF _ _ _ _ _ _ _ cid n])
qed

text \<open>What the writes of \<open>finish\<close> leave in the sink.\<close>

lemma prefix_written:
  assumes "contents w = h @ c" and "length h = HEADER_LEN" and "p = HEADER_LEN + length c"
    and w1: "op_seek_start ops p w = (Inr q1, w1)" and w2: "op_write_all ops mb w1 = (Inr (), w2)"
    and w3: "op_write_all ops tb w2 = (Inr (), w3)" and w4: "op_write_all ops rb w3 = (Inr (), w4)"
    and w5: "op_seek_start ops 0 w4 = (Inr q2, w5)" and w6: "op_write_all ops hdr w5 = (Inr (), w6)" and "length hdr = HEADER_LEN"
  shows "contents w6 = hdr @ c @ mb @ tb @ rb" and "position w6 = HEADER_LEN"
proof -
  have "contents w4 = h @ c @ mb @ tb @ rb"
    using seek_law [OF w1] write_law [OF w2] write_law [OF w3] write_law [OF w4] assms(1-3) by (simp add: write_at_end)
  then show "contents w6 = hdr @ c @ mb @ tb @ rb" "position w6 = HEADER_LEN"
    using seek_law [OF w5] write_law [OF w6] assms(2,10) by (simp_all add: write_at_start)
qed

lemma trailer_written:
  assumes "contents w = pre" and "n = length pre" and w10: "op_seek_start ops n w = (Inr q, w10)"
    and w11: "op_write_all ops fb w10 = (Inr (), w11)" and w12: "op_write_all ops trl w11 = (Inr (), w12)"
    and w13: "op_flush ops w12 = (Inr (), w13)" and w14: "op_seek_end ops w13 = (Inr m, w14)"
  shows "contents w14 = pre @ fb @ trl" and "m = length (pre @ fb @ trl)"
  using seek_law [OF w10] write_law [OF w11] write_law [OF w12] flush_law [OF w13] end_law [OF w14] assms(1,2)
  by (simp_all add: write_at_end)

lemma finish_inner_sound:
  fixes X :: "('h, 'x) ext_scheme"
  assumes run: "finish_inner X ops self = (Inr u, self')" and op: "open_run X data self"
    and fd: "fed X d data (fw_input_hasher self)" and b3: "blake3_documented X" and lv: "typed_level (fw_options self)"
  shows "pack_bytes X data (fw_options self) = Ok (contents (fw_writer self'))"
  using run
proof (rule finish_inner_steps)
  fix s :: "('w, 'h) QztFileWriter" and mb rb :: bytes and f and fb :: bytes and c q1 q2 q3 w1 w2 w3 w4 w5 w6 w7 w8 s9 w10 w11 w12 w13 w14
  let ?o = "fw_options self" and ?cid = "container_id_from_input X data" and ?tb = "stream_table s"
  let ?cid' = "container_id_from_hash (hasher_finalize X (fw_input_hasher s))"
  let ?root = "fw_physical_offset s + length mb + length ?tb"
  let ?n = "?root + length rb"
  let ?hdr = "Header_encode \<lparr>metadata_offset = fw_physical_offset s, metadata_size = length mb, index_hint_offset = ?root,
        h_container_id = ?cid'\<rparr>"
  let ?trl = "FooterTrailer_encode \<lparr>footer_payload_offset = ?n, footer_payload_size = length fb,
        footer_payload_checksum_blake3 = cs_value (Checksum_blake3 X fb)\<rparr>"
  assume loop: "finish_loop X ops self = (Inr (), s)"
    and enc: "Metadata_encode (stream_metadata X s) = Ok mb" "check_writer_cbor_block mb = Ok ()"
      "IndexRoot_encode (stream_root X s mb) = Ok rb" "check_writer_cbor_block rb = Ok ()" "?n < u64_end"
    and w1: "op_seek_start ops (fw_physical_offset s) (fw_writer s) = (Inr q1, w1)" and w2: "op_write_all ops mb w1 = (Inr (), w2)"
    and w3: "op_write_all ops ?tb w2 = (Inr (), w3)" and w4: "op_write_all ops rb w3 = (Inr (), w4)"
    and w5: "op_seek_start ops 0 w4 = (Inr q2, w5)" and w6: "op_write_all ops ?hdr w5 = (Inr (), w6)"
    and w7: "op_stream_position ops w6 = (Inr HEADER_LEN, w7)" and w8: "op_flush ops w7 = (Inr (), w8)"
    and hp: "hash_prefix X ops ?n (s\<lparr>fw_writer := w8\<rparr>) = (Inr c, s9)"
    and foot: "fixed_point_footer_payload ?cid'
        \<lparr>br_offset = ?root, br_size = length rb, br_checksum = Checksum_blake3 X rb\<rparr>
        \<lparr>br_offset = fw_physical_offset s, br_size = length mb, br_checksum = Checksum_blake3 X mb\<rparr> ?n (Some c) = Ok f"
      "FooterPayload_encode f = Ok fb" "check_writer_cbor_block fb = Ok ()"
    and w10: "op_seek_start ops ?n (fw_writer s9) = (Inr q3, w10)" and w11: "op_write_all ops fb w10 = (Inr (), w11)"
    and w12: "op_write_all ops ?trl w11 = (Inr (), w12)" and w13: "op_flush ops w12 = (Inr (), w13)"
    and w14: "op_seek_end ops w13 = (Inr (fp_final_file_size f), w14)" and self': "self' = s9\<lparr>fw_writer := w14\<rparr>"
  obtain h plan cs where h: "length h = HEADER_LEN" and cont: "contents (fw_writer s) = h @ concat cs"
    and phys: "fw_physical_offset s = HEADER_LEN + length (concat cs)"
    and wr: "written X data ?cid ?o plan cs (fw_entries s) (core_blocks ?o)"
    and md: "stream_metadata X s = written_metadata X data ?cid plan (core_blocks ?o)"
    and pk: "rfold (pack_chunk X data ?o) ([], [], HEADER_LEN) (plan_chunk_list plan) = Ok (cs, fw_entries s, fw_physical_offset s)"
    and md_off: "fw_physical_offset s = (if fw_entries s = [] then HEADER_LEN
           else physical_offset (last (fw_entries s)) + compressed_size (last (fw_entries s)))"
    and cid: "?cid' = ?cid" and len: "length data < u64_end"
    by (rule closed_run [OF loop op fd b3 lv])
  have hdr: "length ?hdr = HEADER_LEN"
    by (rule header.encode_width) (use enc(5) cid wr in \<open>simp add: Header_wf_def written_def\<close>)
  let ?pre = "?hdr @ concat cs @ mb @ ?tb @ rb"
  have w8c: "contents w8 = ?pre"
    using prefix_written(1) [OF cont h phys w1 w2 w3 w4 w5 w6 hdr] position_law [OF w7] flush_law [OF w8] by simp
  have n: "?n = length ?pre" using phys hdr by simp
  note hp = hash_prefix_sound [OF hp b3]
  have c: "c = Checksum_blake3 X ?pre" and w9c: "contents (fw_writer s9) = ?pre"
    using hp(1,2) w8c n by (simp_all del: length_append length_concat)
  have final: "contents (fw_writer self') = ?pre @ fb @ ?trl"
    using trailer_written(1) [OF w9c n w10 w11 w12 w13 w14] self' by simp
  have root: "stream_root X s mb = written_root X ?cid (stream_metadata X s) (fw_entries s) (fw_physical_offset s + length mb) None None"
    using cid by (simp add: stream_root_def written_root_def stream_table_def opt_bytes_def Let_def)
  have "assembled X data ?cid plan cs (fw_entries s) (core_blocks ?o) (fw_physical_offset s) mb None None rb f fb
      (?pre @ fb @ ?trl)"
    unfolding assembled_def Let_def
    using enc foot c md md_off cid root len
    by (simp add: stream_table_def opt_bytes_def core_blocks_def Checksum_blake3_def del: length_concat length_append)
  from pack_bytes_assembled [OF wr pk this] final show ?thesis by simp
qed

end

end
