(* ===== verification/Stream_Progress.thy ===== *)
theory Stream_Progress
  imports Stream_Finish
begin

text \<open>
  The streaming writer succeeds. A sink that obeys its contract and does not fail, locale
  \<open>reliable_sink\<close>, is enough: whenever packing the whole input at once succeeds, so does every
  push of a fragment and the final \<open>finish\<close>.
\<close>

section \<open>The planner's cuts\<close>

lemma plan_loop_cuts:
  assumes "plan_loop data options (filter (is_line_start data) [0 ..< length data]) s acc = Ok chunks"
    and "s \<le> length data" and "valid_utf8 data" and "ChunkerOptions_validate options = Ok ()"
  shows "\<exists>new. chunks = acc @ new \<and>
     cuts (\<lambda>s e. choose_chunk_end data s options = Ok e) data (length acc) s new (length data)"
  using assms
proof (induction data options "filter (is_line_start data) [0 ..< length data]" s acc rule: plan_loop.induct)
  case (1 data options s acc)
  let ?ls = "filter (is_line_start data) [0 ..< length data]"
  show ?case
  proof (cases "s < length data")
    case False
    then show ?thesis using "1.prems" by (subst (asm) plan_loop.simps) simp
  next
    case True
    note run = "1.prems"(1) [unfolded plan_loop.simps [of data options ?ls s acc]]
    obtain n e c where n: "ok_or (checked_add (length acc) 1) ResourceLimitExceeded = Ok n"
      "enforce_chunk_table_entries ResourceLimits_default n = Ok ()" and e: "choose_chunk_end data s options = Ok e" "\<not> e \<le> s"
      and c: "planned_chunk data ?ls (length acc) s e = Ok c" and more: "plan_loop data options ?ls e (acc @ [c]) = Ok chunks"
      using run True by (auto simp: rbind_Ok_iff split: if_splits)
    have el: "s < e" "e \<le> length data" using choose_chunk_end_sound [OF e(1) True "1.prems"(3,4)] by simp_all
    have "c = plan_of data (length acc) s e" using planned_chunk_sound [OF c el] by (cases c) (auto simp: plan_of_def)
    moreover obtain new where "chunks = (acc @ [c]) @ new"
      "cuts (\<lambda>s e. choose_chunk_end data s options = Ok e) data (length (acc @ [c])) e new (length data)"
      using "1.hyps" [OF True n e c more el(2) "1.prems"(3,4)] by blast
    ultimately show ?thesis using el e by (intro exI [of _ "c # new"]) (auto intro!: exI [of _ e])
  qed
qed

lemma plan_chunks_cuts:
  assumes "plan_chunks data options = Ok plan"
  shows "cuts (\<lambda>s e. choose_chunk_end data s options = Ok e) data 0 0 (plan_chunk_list plan) (length data)"
proof (cases "data = []")
  case True
  then show ?thesis using assms by (auto simp: plan_chunks_def rbind_Ok_iff Let_def)
next
  case False
  then obtain chunks where "plan_loop data options (filter (is_line_start data) [0 ..< length data]) 0 [] = Ok chunks"
    "plan_chunk_list plan = chunks"
    using assms by (auto simp: plan_chunks_def rbind_Ok_iff Let_def LineInfo_from_bytes_eq)
  then show ?thesis using plan_loop_cuts plan_chunks_Ok(1,2) [OF assms] by fastforce
qed

lemma cuts_ordered: "cuts ends data n s chunks stop \<Longrightarrow> s \<le> stop"
  by (induction chunks arbitrary: n s) (auto, force)

text \<open>Cuts are determined, so a partial sequence of cuts is the beginning of the complete one.\<close>

lemma cuts_next:
  assumes "cuts ends data n s chunks stop" and "cuts ends data n s full (length data)" and "stop < length data"
    and "\<And>a b c. ends a b \<Longrightarrow> ends a c \<Longrightarrow> b = c"
  shows "\<exists>e. ends stop e \<and> stop < e \<and> e \<le> length data \<and> plan_of data (n + length chunks) stop e \<in> set full \<and>
     length chunks < length full"
  using assms(1,2)
proof (induction chunks arbitrary: n s full)
  case Nil
  then show ?case using assms(3) by (cases full) auto
next
  case (Cons c chunks)
  then obtain e where e: "s < e" "e \<le> length data" "ends s e" "cuts ends data (Suc n) e chunks stop" by auto
  have "s < length data" using e by simp
  then obtain c' full' where full: "full = c' # full'" using Cons.prems(2) by (cases full) auto
  then obtain e' where "ends s e'" "cuts ends data (Suc n) e' full' (length data)" using Cons.prems(2) by auto
  then have "cuts ends data (Suc n) e full' (length data)" using assms(4) e(3) by blast
  from Cons.IH [OF e(4) this] show ?case using full by auto
qed

section \<open>The counters do not overflow\<close>

lemma update_newline_state_total:
  "fw_lf_count self + length bs < u64_end \<Longrightarrow> fw_crlf_count self + length bs < u64_end \<Longrightarrow>
     \<exists>self'. update_newline_state bs self = (Inr (), self')"
proof (induction bs arbitrary: self)
  case (Cons b bs)
  define self1 where "self1 = (if b = LF then if fw_previous_byte self = Some CR then self\<lparr>fw_crlf_count := fw_crlf_count self + 1\<rparr>
    else self\<lparr>fw_lf_count := fw_lf_count self + 1\<rparr> else self)"
  have "\<exists>self'. update_newline_state bs (self1\<lparr>fw_previous_byte := Some b\<rparr>) = (Inr (), self')"
    by (rule Cons.IH) (use Cons.prems in \<open>auto simp: self1_def\<close>)
  moreover have "update_newline_state (b # bs) self = update_newline_state bs (self1\<lparr>fw_previous_byte := Some b\<rparr>)"
    using Cons.prems by (simp add: self1_def abind_def aupdate_def alift_def checked_add_def)
  ultimately show ?case by simp
qed simp

lemma local_line_starts_le: "length (local_line_starts d fl) \<le> Suc (length d)"
proof -
  have "length (foldl (\<lambda>starts i. if P i then starts @ [f i] else starts) xs is) \<le> length xs + length is" for P f and xs :: "nat list" and "is"
  proof (induction "is" arbitrary: xs)
    case (Cons i "is")
    show ?case using Cons.IH [of "xs @ [f i]"] Cons.IH [of xs] by auto
  qed simp
  then show ?thesis unfolding local_line_starts_def Let_def by (rule order_trans) simp
qed

section \<open>A sink that does not fail\<close>

locale reliable_sink = random_access_sink +
  assumes position_ok: "\<exists>p w'. op_stream_position ops w = (Inr p, w')"
    and seek_ok: "\<exists>q w'. op_seek_start ops p w = (Inr q, w')"
    and end_ok: "\<exists>n w'. op_seek_end ops w = (Inr n, w')"
    and write_ok: "\<exists>w'. op_write_all ops bs w = (Inr (), w')"
    and flush_ok: "\<exists>w'. op_flush ops w = (Inr (), w')"
    and read_ok: "position w + n \<le> length (contents w) \<Longrightarrow> \<exists>bs w'. op_read_exact ops n w = (Inr bs, w')"

text \<open>Every chunk of the plan has a frame the limits allow.\<close>

definition packable :: "('h, 'x) ext_scheme \<Rightarrow> WriterOptions \<Rightarrow> bytes \<Rightarrow> bool" where
  "packable X options data \<longleftrightarrow> (\<exists>plan. plan_chunks data (wo_chunker options) = Ok plan \<and>
     (\<forall>c \<in> set (plan_chunk_list plan). \<exists>z.
        zstd_encode_all X (slice data (pc_logical_offset c) (pc_logical_offset c + pc_uncompressed_size c)) (wo_zstd_level options) = Some z \<and>
        z \<noteq> [] \<and> length z \<le> max_compressed_chunk_size ResourceLimits_default))"

lemma packed_frames:
  "packed_from X data level p chunks cs es \<Longrightarrow> c \<in> set chunks \<Longrightarrow>
     \<exists>z. zstd_encode_all X (slice data (pc_logical_offset c) (pc_logical_offset c + pc_uncompressed_size c)) level = Some z \<and>
       z \<noteq> [] \<and> length z \<le> max_compressed_chunk_size ResourceLimits_default"
  by (induction X data level p chunks cs es rule: packed_from.induct) (auto simp: Let_def)

context reliable_sink
begin

lemma emit_progress:
  assumes st: "stream_state X ends (contents (fw_writer self)) data self"
    and k: "fw_logical_offset self + k \<le> length data" "k \<le> max_chunk_size (wo_chunker (fw_options self))"
    and cap: "Suc (length (fw_entries self)) \<le> table_capacity"
    and d: "d = slice data (fw_logical_offset self) (fw_logical_offset self + k)" "valid_utf8 d"
    and z: "zstd_encode_all X d (wo_zstd_level (fw_options self)) = Some z" "z \<noteq> []"
      "length z \<le> max_compressed_chunk_size ResourceLimits_default"
  shows "\<exists>self'. emit_pending_chunk X ops k self = (Inr (), self')"
proof -
  let ?s = "fw_logical_offset self"
  obtain chunks cs where s: "fw_physical_offset self = HEADER_LEN + length (concat cs)" "length chunks \<le> table_capacity"
      "fw_line_starts_seen self = lines_in data 0 ?s" "text_seen (take ?s data) (analysis self)"
    and p: "packed_from X data (wo_zstd_level (fw_options self)) HEADER_LEN chunks cs (fw_entries self)"
    using st unfolding stream_state_def Let_def by blast
  note room = stream_state_room [OF st] and opt = options_facts(4) [OF stream_state_room(2) [OF st]]
  have dl: "length d = k" using d(1) k(1) by simp
  have phys: "fw_physical_offset self + length z < u64_end"
  proof -
    have "length (concat cs) \<le> 524288 * 75497472"
      using packed_bound [OF p] mult_le_mono1 [OF s(2), of 75497472] by (simp add: table_capacity_def)
    moreover have "length z \<le> 75497472" using z(3) by (simp add: ResourceLimits_default_def)
    ultimately show ?thesis using s(1) by (simp add: u64_end_def HEADER_LEN_def)
  qed
  have w: "?s + length d < u64_end" "length d < u64_end" using room(1) k(2) dl by simp_all
  let ?starts = "local_line_starts d (continuation_flag self)"
  have starts: "line_start_offsets d (continuation_flag self) = Ok ?starts" by (rule local_line_starts_offsets [OF w(2)])
  have lines: "fw_line_starts_seen self + length ?starts < u64_end" "length ?starts < u64_end"
    using local_line_starts_le [of d "continuation_flag self"] s(3) lines_in_le [of data 0 ?s] room(5) dl k(2) opt
    by (simp_all add: u64_end_def)
  have counts: "fw_lf_count self \<le> ?s" "fw_crlf_count self \<le> ?s"
    using s(4) room(3) length_filter_le [of "ends_lf (take ?s data)" "[0 ..< ?s]"] length_filter_le [of "ends_crlf (take ?s data)" "[0 ..< ?s]"]
    by (simp_all add: text_seen_def analysis_def min_absorb2)
  obtain q w1 where w1: "op_seek_start ops (fw_physical_offset self) (fw_writer self) = (Inr q, w1)" using seek_ok by blast
  obtain w2 where w2: "op_write_all ops z w1 = (Inr (), w2)" using write_ok by blast
  obtain s2 where up: "update_newline_state d (self\<lparr>fw_writer := w2\<rparr>) = (Inr (), s2)"
    using update_newline_state_total [of "self\<lparr>fw_writer := w2\<rparr>" d] counts w(1) by auto
  note f = update_newline_state_fields [OF up, simplified]
  have lim: "length d \<le> max_uncompressed_chunk_size ResourceLimits_default" using dl k(2) opt by (simp add: ResourceLimits_default_def)
  have "\<exists>s3. emit_chunk X ops d self = (Inr (), s3)"
    unfolding emit_chunk_run using cap lim d(2) z starts lines w1 w2 up f w(1) phys by (intro exI conjI) (assumption | simp | rule refl)+
  moreover have "get_slice (fw_pending self) 0 k = Some d"
    using room(3,4) d(1) k(1) by (simp add: get_slice_def slice_def)
  ultimately show ?thesis by (auto simp: emit_pending_chunk_def action_Ok_iffs result_simps)
qed

text \<open>At a cut of the whole input, the next chunk can be emitted.\<close>

lemma next_emission:
  assumes pk: "packable X (fw_options self) (data @ ext)"
    and st: "stream_state X ends (contents (fw_writer self)) data self"
    and ends: "\<And>a b. ends a b \<Longrightarrow> choose_chunk_end (data @ ext) a (wo_chunker (fw_options self)) = Ok b"
    and more: "fw_logical_offset self < length (data @ ext)"
  obtains e z where "choose_chunk_end (data @ ext) (fw_logical_offset self) (wo_chunker (fw_options self)) = Ok e"
    and "fw_logical_offset self < e" and "e \<le> length (data @ ext)"
    and "e - fw_logical_offset self \<le> max_chunk_size (wo_chunker (fw_options self))"
    and "valid_utf8 (slice (data @ ext) (fw_logical_offset self) e)" and "Suc (length (fw_entries self)) \<le> table_capacity"
    and "zstd_encode_all X (slice (data @ ext) (fw_logical_offset self) e) (wo_zstd_level (fw_options self)) = Some z"
    and "z \<noteq> []" and "length z \<le> max_compressed_chunk_size ResourceLimits_default"
proof -
  let ?o = "fw_options self" and ?s = "fw_logical_offset self" and ?full = "data @ ext"
  let ?ends = "\<lambda>s e. choose_chunk_end ?full s (wo_chunker ?o) = Ok e"
  obtain plan where plan: "plan_chunks ?full (wo_chunker ?o) = Ok plan"
    and frames: "\<forall>c \<in> set (plan_chunk_list plan). \<exists>z.
        zstd_encode_all X (slice ?full (pc_logical_offset c) (pc_logical_offset c + pc_uncompressed_size c)) (wo_zstd_level ?o) = Some z \<and>
        z \<noteq> [] \<and> length z \<le> max_compressed_chunk_size ResourceLimits_default"
    using pk unfolding packable_def by blast
  obtain chunks cs where c: "cuts ends data 0 0 chunks ?s"
    and p: "packed_from X data (wo_zstd_level ?o) HEADER_LEN chunks cs (fw_entries self)"
    using st unfolding stream_state_def Let_def by blast
  have "cuts ?ends ?full 0 0 chunks ?s" by (rule cuts_mono [OF c ends])
  from cuts_next [OF this plan_chunks_cuts [OF plan] more]
  obtain e where e: "choose_chunk_end ?full ?s (wo_chunker ?o) = Ok e" "?s < e" "e \<le> length ?full"
    "plan_of ?full (length chunks) ?s e \<in> set (plan_chunk_list plan)" "length chunks < length (plan_chunk_list plan)" by auto
  note ok = plan_chunks_Ok [OF plan]
  obtain i where i: "i < length (plan_chunk_list plan)" "plan_chunk_list plan ! i = plan_of ?full (length chunks) ?s e"
    using e(4) by (auto simp: in_set_conv_nth)
  have u: "valid_utf8 (slice ?full ?s e)"
    using planned_from_nth [OF ok(3) i(1)] planned_from_start_cut [OF ok(3) i(1)] ok(1) i(2) e(2)
    by (intro valid_utf8_slice) (auto simp: chunk_ok_def Let_def good_cut_def is_utf8_boundary_iff plan_of_def)
  obtain z where z: "zstd_encode_all X (slice ?full ?s e) (wo_zstd_level ?o) = Some z" "z \<noteq> []"
      "length z \<le> max_compressed_chunk_size ResourceLimits_default"
    using bspec [OF frames e(4)] e(2) by (auto simp: plan_of_def)
  have "Suc (length (fw_entries self)) \<le> table_capacity"
    using packed_lengths [OF p] e(5) plan_capacity [OF plan] by simp
  moreover have "e - ?s \<le> max_chunk_size (wo_chunker ?o)"
    using choose_chunk_end_sound [OF e(1) more ok(1,2)] by simp
  ultimately show thesis using that e(1-3) u z by blast
qed

lemma push_loop_progress_aux:
  assumes "packable X (fw_options self) (data @ remaining @ ext)" and "ops' = ops" and "open_run X data self"
  shows "\<exists>self'. push_loop X ops' remaining self = (Inr (), self')"
  using assms
proof (induction X ops' remaining self arbitrary: data rule: push_loop.induct)
  case (1 X ops' remaining self)
  let ?o = "fw_options self"
  let ?max = "max_chunk_size (wo_chunker ?o)"
  define n where "n = min (length remaining) (?max + 1 - length (fw_pending self))"
  define self1 where "self1 = self\<lparr>fw_pending := fw_pending self @ take n remaining\<rparr>"
  define rest where "rest = drop n remaining"
  define data1 where "data1 = data @ take n remaining"
  have st: "stream_state X (stable_cut ?o data) (contents (fw_writer self)) data self" and len: "length (fw_pending self) \<le> ?max"
    using "1.prems"(3) by (simp_all add: open_run_def)
  note eq = push_loop.simps [of X ops' remaining self, unfolded Let_def, folded n_def, folded self1_def rest_def]
  have same: "fw_options self1 = ?o" "fw_writer self1 = fw_writer self" "fw_logical_offset self1 = fw_logical_offset self"
    by (simp_all add: self1_def)
  have st': "stream_state X (stable_cut ?o data1) (contents (fw_writer self1)) data1 self1"
    using stream_state_extend [OF st, of "stable_cut ?o data1" "take n remaining"] stable_cut_extend
    by (simp add: self1_def data1_def)
  have len1: "length (fw_pending self1) \<le> ?max + 1" using len by (simp add: self1_def n_def)
  have "data1 @ rest = data @ remaining" by (simp add: data1_def rest_def)
  then have pk: "packable X ?o (data1 @ rest @ ext)" using "1.prems"(1) by (metis append_assoc)
  have res: "try_reserve (length (fw_pending self)) n = Some ()"
    using len options_facts(4) [OF stream_state_room(2) [OF st]] by (simp add: try_reserve_def n_def isize_end_def)
  show ?case
  proof (cases "remaining = []")
    case True
    then show ?thesis by (simp add: push_loop.simps)
  next
    case False
    show ?thesis
    proof (cases "length (fw_pending self1) > ?max")
      case True
      note room = stream_state_room [OF st', unfolded same]
      note opt = options_facts(1) [OF room(2)]
      have "fw_logical_offset self1 < length (data1 @ rest @ ext)" using room(3,4) True same by simp
      then obtain e z where e: "choose_chunk_end (data1 @ rest @ ext) (fw_logical_offset self) (wo_chunker ?o) = Ok e"
        "fw_logical_offset self < e" "e - fw_logical_offset self \<le> ?max"
        and u: "valid_utf8 (slice (data1 @ rest @ ext) (fw_logical_offset self) e)" and cap: "Suc (length (fw_entries self1)) \<le> table_capacity"
        and z: "zstd_encode_all X (slice (data1 @ rest @ ext) (fw_logical_offset self) e) (wo_zstd_level ?o) = Some z" "z \<noteq> []"
          "length z \<le> max_compressed_chunk_size ResourceLimits_default"
        using next_emission [of X self1 data1 "rest @ ext" "stable_cut ?o data1", unfolded same, OF pk st' [unfolded same]] unfolding same stable_cut_def
        by blast
      define k where "k = e - fw_logical_offset self"
      have k: "choose_stream_chunk_end (fw_pending self1) (wo_chunker ?o) = Ok k"
        using choose_stream_chunk_end_eq [OF room(4) True opt room(1), of "rest @ ext", symmetric] e(1)
        by (auto simp: rbind_Ok_iff k_def)
      have ek: "e = fw_logical_offset self + k" "e \<le> length data1"
        using e(2,3) room(3,4) True by (simp_all add: k_def)
      have sl: "slice (data1 @ rest @ ext) (fw_logical_offset self) e = slice data1 (fw_logical_offset self) (fw_logical_offset self + k)"
        using ek by (simp add: slice_def)
      have "fw_logical_offset self1 + k \<le> length data1" "k \<le> max_chunk_size (wo_chunker (fw_options self1))"
        using ek e(3) same by (simp_all add: k_def)
      from emit_progress [OF st' this cap refl, unfolded same, OF u [unfolded sl] z [unfolded sl]]
      obtain self2 where em: "emit_pending_chunk X ops k self1 = (Inr (), self2)" ..
      have run2: "open_run X data1 self2" and o2: "fw_options self2 = ?o"
        using stream_emission [OF st' [folded same(1)], unfolded same, OF True len1 k em] same by simp_all
      have "\<exists>self'. push_loop X ops' rest self2 = (Inr (), self')"
        by (rule "1.IH"(1) [OF False n_def res self1_def rest_def _ _ _ refl _ "1.prems"(2) run2])
           (use True k same em [symmetric] o2 pk "1.prems"(2) in simp_all)
      then show ?thesis unfolding eq using False res True k em same "1.prems"(2) by simp
    next
      case nomore: False
      have run2: "open_run X data1 self1" using st' nomore same by (simp add: open_run_def)
      have "\<exists>self'. push_loop X ops' rest self1 = (Inr (), self')"
        by (rule "1.IH"(2) [OF False n_def res self1_def rest_def _ _ "1.prems"(2) run2])
           (use nomore same pk in simp_all)
      then show ?thesis unfolding eq using False res nomore same by simp
    qed
  qed
qed

lemmas push_loop_progress = push_loop_progress_aux [OF _ refl]

lemma finish_loop_progress:
  assumes "packable X (fw_options self) data" and "ops' = ops"
    and "stream_state X (final_cut (fw_options self) data) (contents (fw_writer self)) data self"
  shows "\<exists>self'. finish_loop X ops' self = (Inr (), self')"
  using assms
proof (induction X ops' self rule: finish_loop.induct)
  case (1 X ops' self)
  let ?o = "fw_options self" and ?s = "fw_logical_offset self"
  note st = "1.prems"(3)
  show ?case
  proof (cases "fw_pending self = []")
    case True
    then show ?thesis by (simp add: finish_loop.simps)
  next
    case False
    note room = stream_state_room [OF st]
    note opt = options_facts(1) [OF room(2)]
    have "?s < length (data @ [])" using room(3,4) False by simp
    then obtain e z where e: "choose_chunk_end data ?s (wo_chunker ?o) = Ok e" "?s < e" "e \<le> length data"
        "e - ?s \<le> max_chunk_size (wo_chunker ?o)"
      and u: "valid_utf8 (slice data ?s e)" and cap: "Suc (length (fw_entries self)) \<le> table_capacity"
      and z: "zstd_encode_all X (slice data ?s e) (wo_zstd_level ?o) = Some z" "z \<noteq> []"
        "length z \<le> max_compressed_chunk_size ResourceLimits_default"
      using next_emission [of X self data "[]" "final_cut ?o data"] "1.prems"(1) st unfolding append_Nil2 final_cut_def by blast
    define k where "k = e - ?s"
    have ek: "e = ?s + k" using e(2) by (simp add: k_def)
    have k: "choose_known_chunk_end (fw_pending self) (wo_chunker ?o) = Ok k"
      using choose_known_chunk_end_eq [OF room(4,3) opt room(1), symmetric] e(1) by (auto simp: rbind_Ok_iff k_def)
    obtain self2 where em: "emit_pending_chunk X ops k self = (Inr (), self2)"
      using emit_progress [OF st, of k, OF _ _ cap refl] e(3,4) u z ek by auto
    have cut: "final_cut ?o data ?s (?s + k)" using e(1) ek by (simp add: final_cut_def)
    have "0 < k" "k \<le> max_chunk_size (wo_chunker ?o)" using e(2,4) by (simp_all add: k_def)
    from emit_step [OF st em this cut] have step:
      "stream_state X (final_cut (fw_options self2) data) (contents (fw_writer self2)) data self2" "fw_options self2 = ?o" by simp_all
    have "\<exists>self'. finish_loop X ops' self2 = (Inr (), self')"
      by (rule "1.IH" [OF False k _ refl _ "1.prems"(2) step(1)]) (use em [symmetric] "1.prems" step(2) in simp_all)
    then show ?thesis
      unfolding finish_loop.simps [of X ops' self] using False k em "1.prems"(2) by simp
  qed
qed

lemma hash_prefix_loop_progress:
  assumes "ops' = ops" and "position (fw_writer self) + n \<le> length (contents (fw_writer self))" and "n < u64_end"
  shows "\<exists>h' self'. hash_prefix_loop X ops' n h self = (Inr h', self')"
  using assms
proof (induction X ops' n h self rule: hash_prefix_loop.induct)
  case (1 X ops' n h self)
  show ?case
  proof (cases "n > 0")
    case False
    then show ?thesis by (simp add: hash_prefix_loop.simps)
  next
    case True
    let ?k = "min n (64 * 1024)"
    have k: "u64_to_usize ?k = Ok ?k" using "1.prems"(3) by (simp add: u64_to_usize_def)
    obtain bs w where rd: "op_read_exact ops ?k (fw_writer self) = (Inr bs, w)"
      using read_ok [of "fw_writer self" ?k] "1.prems"(2) by fastforce
    have ow: "on_writer (op_read_exact ops' ?k) self = (Inr bs, self\<lparr>fw_writer := w\<rparr>)"
      using rd "1.prems"(1) by (simp add: on_writer_Ok_iff)
    have "\<exists>h' self'. hash_prefix_loop X ops' (n - ?k) (hasher_update X h bs) (self\<lparr>fw_writer := w\<rparr>) = (Inr h', self')"
      by (rule "1.IH" [OF True k ow [symmetric] refl "1.prems"(1)]) (use read_law [OF rd] "1.prems"(2,3) in auto)
    then show ?thesis unfolding hash_prefix_loop.simps [of X ops' n] using True k ow by simp
  qed
qed

lemma hash_prefix_progress:
  assumes "n = length (contents (fw_writer self))" and "n < u64_end"
  shows "\<exists>c self'. hash_prefix X ops n self = (Inr c, self')"
proof -
  obtain q w where sk: "op_seek_start ops 0 (fw_writer self) = (Inr q, w)" using seek_ok by blast
  obtain h s where "hash_prefix_loop X ops n (hasher_new X) (self\<lparr>fw_writer := w\<rparr>) = (Inr h, s)"
    using hash_prefix_loop_progress [OF refl, of "self\<lparr>fw_writer := w\<rparr>" n] seek_law [OF sk] assms by fastforce
  then show ?thesis using sk by (simp add: hash_prefix_def action_Ok_iffs on_writer_Ok_iff)
qed

lemma finish_inner_progress:
  fixes X :: "('h, 'x) ext_scheme"
  assumes op: "open_run X data self" and fd: "fed X d data (fw_input_hasher self)" and b3: "blake3_documented X"
    and lv: "typed_level (fw_options self)" and pk: "packable X (fw_options self) data"
  shows "\<exists>self'. finish_inner X ops self = (Inr (), self')"
proof -
  let ?o = "fw_options self" and ?cid = "container_id_from_input X data"
  have st0: "stream_state X (final_cut ?o data) (contents (fw_writer self)) data self"
    by (rule stream_state_mono [OF conjunct1 [OF op [unfolded open_run_def]]]) (rule stable_cut_final)
  obtain s where loop: "finish_loop X ops self = (Inr (), s)" using finish_loop_progress [OF pk refl st0] ..
  obtain h plan cs where h: "length h = HEADER_LEN" and cont: "contents (fw_writer s) = h @ concat cs"
    and phys: "fw_physical_offset s = HEADER_LEN + length (concat cs)"
    and wr: "written X data ?cid ?o plan cs (fw_entries s) (core_blocks ?o)"
    and md: "stream_metadata X s = written_metadata X data ?cid plan (core_blocks ?o)"
    and md_off: "fw_physical_offset s = (if fw_entries s = [] then HEADER_LEN
           else physical_offset (last (fw_entries s)) + compressed_size (last (fw_entries s)))"
    and cid: "container_id_from_hash (hasher_finalize X (fw_input_hasher s)) = ?cid"
    by (rule closed_run [OF loop op fd b3 lv])
  obtain bs where bs: "assemble_container X data ?cid plan cs (fw_entries s) (core_blocks ?o) = Ok bs"
    using assemble_total [OF wr] by (auto simp: is_ok_iff core_blocks_def)
  obtain off mb db ob rb f fb where as0: "assembled X data ?cid plan cs (fw_entries s) (core_blocks ?o) off mb db ob rb f fb bs"
    using assemble_container_Ok [OF bs] by (elim conjE exE)
  have "db = None" "ob = None" "off = fw_physical_offset s"
    using as0 md_off by (auto simp: assembled_def core_blocks_def Let_def)
  note as = as0 [unfolded this]
  let ?tb = "stream_table s"
  let ?root = "fw_physical_offset s + length mb + length ?tb"
  let ?n = "?root + length rb"
  let ?hdr = "Header_encode \<lparr>metadata_offset = fw_physical_offset s, metadata_size = length mb, index_hint_offset = ?root,
        h_container_id = ?cid\<rparr>"
  let ?trl = "FooterTrailer_encode \<lparr>footer_payload_offset = ?n, footer_payload_size = length fb,
        footer_payload_checksum_blake3 = cs_value (Checksum_blake3 X fb)\<rparr>"
  let ?pre = "?hdr @ concat cs @ mb @ ?tb @ rb"
  have root: "stream_root X s mb = written_root X ?cid (stream_metadata X s) (fw_entries s) (fw_physical_offset s + length mb) None None"
    using cid by (simp add: stream_root_def written_root_def stream_table_def opt_bytes_def Let_def)
  have val: "cs_value (Checksum_blake3 X fb) = blake3_hash X fb" by (simp add: Checksum_blake3_def)
  have a: "Metadata_encode (stream_metadata X s) = Ok mb" "check_writer_cbor_block mb = Ok ()"
      "IndexRoot_encode (stream_root X s mb) = Ok rb" "check_writer_cbor_block rb = Ok ()" "?n < u64_end"
      "fixed_point_footer_payload ?cid
        \<lparr>br_offset = ?root, br_size = length rb, br_checksum = Checksum_blake3 X rb\<rparr>
        \<lparr>br_offset = fw_physical_offset s, br_size = length mb, br_checksum = Checksum_blake3 X mb\<rparr> ?n
        (Some (Checksum_blake3 X ?pre)) = Ok f"
      "FooterPayload_encode f = Ok fb" "check_writer_cbor_block fb = Ok ()" "bs = ?pre @ fb @ ?trl"
    unfolding root val using as [unfolded assembled_def Let_def opt_bytes_def option.case list.size append_Nil add_0_right, folded stream_table_def md]
    by blast+
  note parts = written_parts [OF wr as written_bounded(2) [OF wr as]]
  have size: "fp_final_file_size f = length bs" using parts(7) by (simp add: footer_candidate_def)
  have hdr: "length ?hdr = HEADER_LEN"
    by (rule header.encode_width) (use a(5) wr in \<open>simp add: Header_wf_def written_def\<close>)
  have bounds: "target_chunk_size (wo_chunker (fw_options s)) < u64_end" "max_chunk_size (wo_chunker (fw_options s)) < u64_end"
    "length (fw_entries s) < u64_end" "length fb < u64_end"
  proof -
    have o: "fw_options s = ?o" using finish_loop_sound [OF loop refl st0] by simp
    have "validate_writer_options ?o = Ok ()" using wr by (simp add: written_def)
    note f = options_facts(1,4) [OF this]
    show "target_chunk_size (wo_chunker (fw_options s)) < u64_end" "max_chunk_size (wo_chunker (fw_options s)) < u64_end"
      using f o by (simp_all add: u64_end_def)
    show "length (fw_entries s) < u64_end" using written_sizes [OF wr as] by blast
    show "length fb < u64_end" using written_bounded(1) [OF wr as] a(9) by (simp add: u64_end_def)
  qed
  obtain q1 w1 where w1: "op_seek_start ops (fw_physical_offset s) (fw_writer s) = (Inr q1, w1)" using seek_ok by blast
  obtain w2 where w2: "op_write_all ops mb w1 = (Inr (), w2)" using write_ok by blast
  obtain w3 where w3: "op_write_all ops ?tb w2 = (Inr (), w3)" using write_ok by blast
  obtain w4 where w4: "op_write_all ops rb w3 = (Inr (), w4)" using write_ok by blast
  obtain q2 w5 where w5: "op_seek_start ops 0 w4 = (Inr q2, w5)" using seek_ok by blast
  obtain w6 where w6: "op_write_all ops ?hdr w5 = (Inr (), w6)" using write_ok by blast
  note pre = prefix_written [OF cont h phys w1 w2 w3 w4 w5 w6 hdr]
  obtain w7 where w7: "op_stream_position ops w6 = (Inr HEADER_LEN, w7)" using position_ok [of w6] position_law [of w6] pre(2) by fastforce
  obtain w8 where w8: "op_flush ops w7 = (Inr (), w8)" using flush_ok by blast
  have w8c: "contents (fw_writer (s\<lparr>fw_writer := w8\<rparr>)) = ?pre" using pre(1) position_law [OF w7] flush_law [OF w8] by simp
  have n: "?n = length ?pre" using phys hdr by simp
  obtain c s9 where hp: "hash_prefix X ops ?n (s\<lparr>fw_writer := w8\<rparr>) = (Inr c, s9)"
    using hash_prefix_progress [of ?n "s\<lparr>fw_writer := w8\<rparr>" X] w8c n a(5) by auto
  note hp' = hash_prefix_sound [OF hp b3, unfolded w8c, OF n]
  obtain q3 w10 where w10: "op_seek_start ops ?n (fw_writer s9) = (Inr q3, w10)" using seek_ok by blast
  obtain w11 where w11: "op_write_all ops fb w10 = (Inr (), w11)" using write_ok by blast
  obtain w12 where w12: "op_write_all ops ?trl w11 = (Inr (), w12)" using write_ok by blast
  obtain w13 where w13: "op_flush ops w12 = (Inr (), w13)" using flush_ok by blast
  obtain m w14 where w14: "op_seek_end ops w13 = (Inr m, w14)" using end_ok by blast
  have m: "m = fp_final_file_size f" using trailer_written(2) [OF hp'(2) n w10 w11 w12 w13 w14] size a(9) by simp
  have "finish_inner X ops self = (Inr (), s9\<lparr>fw_writer := w14\<rparr>)"
    by (rule finish_inner_run [OF bounds loop a(1-5) w1 w2 w3 w4 w5 w6 [folded cid] w7 w8 hp a(6) [folded hp'(1), folded cid] a(7,8) w10 w11 w12 w13
          w14 [unfolded m]])
  then show ?thesis ..
qed

end

end
