(* ===== verification/Stream_Properties.thy ===== *)
theory Stream_Properties
  imports Stream_Progress
begin

text \<open>
  What a client of the streaming writer gets. A client creates the writer on a sink, pushes
  fragments, finishes, and takes the sink back. The properties relate that to packing the
  concatenated fragments in memory, for every sink that obeys the contract and for the
  in-memory sink \<open>Cursor<Vec<u8>>\<close>, and describe the life cycle of the writer on a sink that may
  fail at any point.
\<close>

section \<open>A client\<close>

fun push_all :: "('h, 'x) ext_scheme \<Rightarrow> 'w sink_ops \<Rightarrow> bytes list \<Rightarrow> (('w, 'h) QztFileWriter, unit) action" where
  "push_all X ops [] self = (Ok (), self)"
| "push_all X ops (fragment # rest) self = abind (QztFileWriter_push X ops fragment) (\<lambda>_. push_all X ops rest) self"

definition write_stream ::
  "('h, 'x) ext_scheme \<Rightarrow> 'w sink_ops \<Rightarrow> WriterOptions \<Rightarrow> bytes list \<Rightarrow> ('w, unit) action"
where
  "write_stream X ops options fragments w =
     (case QztFileWriter_new X ops options w of
        (Inl err, w) \<Rightarrow> (Err err, w)
      | (Inr self, _) \<Rightarrow>
          (case abind (push_all X ops fragments) (\<lambda>_. QztFileWriter_finish X ops) self of
             (r, self) \<Rightarrow> (r, QztFileWriter_into_inner self)))"

lemma push_Ok_iff:
  "QztFileWriter_push X ops bs self = (Inr u, self') \<longleftrightarrow> \<not> fw_finished self \<and> \<not> fw_poisoned self \<and>
     push_loop X ops bs (self\<lparr>fw_input_hasher := hasher_update X (fw_input_hasher self) bs\<rparr>) = (Inr (), self')"
  by (auto simp: QztFileWriter_push_def Let_def split: prod.splits sum.splits)

lemma finish_Ok_iff:
  "QztFileWriter_finish X ops self = (Inr u, self') \<longleftrightarrow> \<not> fw_finished self \<and> \<not> fw_poisoned self \<and>
     (\<exists>s. finish_inner X ops self = (Inr (), s) \<and> self' = s\<lparr>fw_finished := True\<rparr>)"
  by (auto simp: QztFileWriter_finish_def split: prod.splits sum.splits)

lemma write_stream_Ok_iff:
  "write_stream X ops options fragments w = (Inr (), w') \<longleftrightarrow>
     (\<exists>self v s t. QztFileWriter_new X ops options w = (Inr self, v) \<and> push_all X ops fragments self = (Inr (), s) \<and>
        QztFileWriter_finish X ops s = (Inr (), t) \<and> w' = fw_writer t)"
  by (auto simp: write_stream_def abind_def QztFileWriter_into_inner_def split: prod.splits sum.splits)

section \<open>Runs on a sink that obeys its contract\<close>

definition accepting :: "('w, 'h) QztFileWriter \<Rightarrow> bool" where
  "accepting self \<longleftrightarrow> \<not> fw_finished self \<and> \<not> fw_poisoned self"

context random_access_sink
begin

text \<open>A writer that has been given \<open>data\<close> so far.\<close>

definition given :: "('h, 'x) ext_scheme \<Rightarrow> WriterOptions \<Rightarrow> bytes \<Rightarrow> ('w, 'h) QztFileWriter \<Rightarrow> bool" where
  "given X options data self \<longleftrightarrow> open_run X data self \<and> fed X [] data (fw_input_hasher self) \<and> fw_options self = options \<and>
     accepting self"

lemma open_run_hasher: "open_run X data (self\<lparr>fw_input_hasher := h\<rparr>) \<longleftrightarrow> open_run X data self"
  by (simp add: open_run_def stream_state_def analysis_def Let_def)

lemma new_given:
  assumes "QztFileWriter_new X ops options w = (Inr self, v)"
  shows "given X options [] self"
proof -
  obtain p w1 w2 q w3 where v: "validate_writer_options options = Ok ()"
    and w1: "op_stream_position ops w = (Inr p, w1)" and w2: "op_seek_end ops w1 = (Inr 0, w2)"
    and w3: "op_seek_start ops 0 w2 = (Inr q, w3)" and w4: "op_write_all ops (replicate HEADER_LEN 0) w3 = (Inr (), v)"
    and self: "self = \<lparr>fw_writer = v, fw_options = options, fw_pending = [], fw_entries = [],
           fw_input_hasher = hasher_new X, fw_physical_offset = HEADER_LEN, fw_logical_offset = 0,
           fw_line_starts_seen = 0, fw_lf_count = 0, fw_crlf_count = 0, fw_previous_byte = None,
           fw_finished = False, fw_poisoned = False\<rparr>"
    using assms unfolding QztFileWriter_new_def by (auto simp: action_Ok_iffs io_Ok_iff if_distribR split: if_splits)
  have "contents w3 = []" using position_law [OF w1] end_law [OF w2] seek_law [OF w3] by simp
  then have "contents v = replicate HEADER_LEN 0" using write_law [OF w4] seek_law [OF w3] by (simp add: write_at_def)
  then have "stream_state X ends (contents v) [] self" for ends
    unfolding stream_state_def Let_def using v
    by (intro exI [of _ "replicate HEADER_LEN 0"] exI [of _ "[]"])
       (simp add: self text_seen_def analysis_def lines_in_def valid_utf8.simps)
  then show ?thesis
    by (auto simp: given_def open_run_def accepting_def self fed_def intro!: exI [of _ "[]"])
qed

lemma push_given:
  assumes "QztFileWriter_push X ops bs self = (Inr u, self')" and "given X options data self"
  shows "given X options (data @ bs) self'"
proof -
  let ?s = "self\<lparr>fw_input_hasher := hasher_update X (fw_input_hasher self) bs\<rparr>"
  have "open_run X data ?s"
    using assms(2) by (simp add: given_def open_run_hasher)
  from push_loop_sound [OF _ this, of bs "()" self'] show ?thesis
    using assms fed_update [of X "[]" data "fw_input_hasher self" bs]
    by (simp add: push_Ok_iff given_def accepting_def)
qed

lemma push_all_given:
  "push_all X ops fragments self = (Inr u, self') \<Longrightarrow> given X options data self \<Longrightarrow> given X options (data @ concat fragments) self'"
proof (induction fragments arbitrary: self data)
  case (Cons f fragments)
  then obtain s where "QztFileWriter_push X ops f self = (Inr (), s)" "push_all X ops fragments s = (Inr u, self')"
    by (auto simp: abind_Ok_iff)
  then show ?case using Cons.IH [of s "data @ f"] push_given Cons.prems(2) by fastforce
qed simp

lemma stream_sound:
  assumes "write_stream X ops options fragments w = (Inr (), w')" and "blake3_documented X" and "typed_level options"
  shows "pack_bytes X (concat fragments) options = Ok (contents w')"
proof -
  obtain self v s t where n: "QztFileWriter_new X ops options w = (Inr self, v)"
    and p: "push_all X ops fragments self = (Inr (), s)" and f: "QztFileWriter_finish X ops s = (Inr (), t)" and w': "w' = fw_writer t"
    using assms(1) by (auto simp: write_stream_Ok_iff)
  have g: "given X options (concat fragments) s" using push_all_given [OF p new_given [OF n]] by simp
  obtain s' where s': "finish_inner X ops s = (Inr (), s')" "t = s'\<lparr>fw_finished := True\<rparr>" using f by (auto simp: finish_Ok_iff)
  from finish_inner_sound [OF s'(1), of "concat fragments" "[]"] g assms(2,3) show ?thesis
    by (simp add: given_def s' w')
qed

end

context reliable_sink
begin

lemma push_all_progress:
  assumes "given X options data self" and "packable X options (data @ concat fragments @ ext)"
  shows "\<exists>self'. push_all X ops fragments self = (Inr (), self')"
  using assms
proof (induction fragments arbitrary: self data)
  case (Cons f fragments)
  let ?s = "self\<lparr>fw_input_hasher := hasher_update X (fw_input_hasher self) f\<rparr>"
  have "open_run X data ?s" "fw_options ?s = options" "accepting self"
    using Cons.prems(1) by (simp_all add: given_def open_run_hasher)
  with push_loop_progress [of X ?s data f "concat fragments @ ext"] Cons.prems(2)
  obtain s where p: "QztFileWriter_push X ops f self = (Inr (), s)" by (auto simp: push_Ok_iff accepting_def)
  have "\<exists>self'. push_all X ops fragments s = (Inr (), self')"
    by (rule Cons.IH [OF push_given [OF p Cons.prems(1)]]) (use Cons.prems(2) in simp)
  then show ?case using p by (simp add: abind_def)
qed simp

lemma new_progress:
  assumes "contents w = []" and "validate_writer_options options = Ok ()"
  shows "\<exists>self v. QztFileWriter_new X ops options w = (Inr self, v)"
proof -
  obtain p w1 where w1: "op_stream_position ops w = (Inr p, w1)" using position_ok by blast
  obtain m w2 where w2: "op_seek_end ops w1 = (Inr m, w2)" using end_ok by blast
  obtain q w3 where w3: "op_seek_start ops 0 w2 = (Inr q, w3)" using seek_ok by blast
  obtain w4 where w4: "op_write_all ops (replicate HEADER_LEN 0) w3 = (Inr (), w4)" using write_ok by blast
  have "m = 0" using position_law [OF w1] end_law [OF w2] assms(1) by simp
  then show ?thesis
    using w1 w2 w3 w4 assms(2) unfolding QztFileWriter_new_def by (auto simp: abind_def alift_def io_def)
qed

lemma stream_complete:
  assumes "packable X options (concat fragments)" and "contents w = []" and "validate_writer_options options = Ok ()"
    and "blake3_documented X" and "typed_level options"
  shows "\<exists>w'. write_stream X ops options fragments w = (Inr (), w')"
proof -
  obtain self v where n: "QztFileWriter_new X ops options w = (Inr self, v)" using new_progress assms(2,3) by blast
  note g0 = new_given [OF n]
  obtain s where p: "push_all X ops fragments self = (Inr (), s)"
    using push_all_progress [OF g0, of fragments "[]"] assms(1) by auto
  have g: "given X options (concat fragments) s" using push_all_given [OF p g0] by simp
  obtain s' where "finish_inner X ops s = (Inr (), s')"
    using finish_inner_progress [of X "concat fragments" s "[]"] g assms(1,4,5) by (auto simp: given_def)
  then have "QztFileWriter_finish X ops s = (Inr (), s'\<lparr>fw_finished := True\<rparr>)"
    using g by (simp add: finish_Ok_iff given_def accepting_def)
  then show ?thesis using n p by (auto simp: write_stream_Ok_iff)
qed

text \<open>A sink with bytes in it is refused and left as it was.\<close>

lemma new_refuses:
  assumes "contents w \<noteq> []" and "validate_writer_options options = Ok ()"
  shows "\<exists>w'. QztFileWriter_new X ops options w = (Err NonEmptyWriterSink, w') \<and> contents w' = contents w \<and> position w' = position w"
proof -
  obtain p w1 where w1: "op_stream_position ops w = (Inr p, w1)" using position_ok by blast
  obtain m w2 where w2: "op_seek_end ops w1 = (Inr m, w2)" using end_ok by blast
  obtain q w3 where w3: "op_seek_start ops p w2 = (Inr q, w3)" using seek_ok by blast
  note laws = position_law [OF w1] end_law [OF w2] seek_law [OF w3]
  have "m \<noteq> 0" using laws assms(1) by simp
  then have "QztFileWriter_new X ops options w = (Err NonEmptyWriterSink, w3)"
    using w1 w2 w3 assms(2) unfolding QztFileWriter_new_def by (simp add: abind_def alift_def io_def)
  then show ?thesis using laws by auto
qed

end

text \<open>What packing in memory says about the chunks.\<close>

lemma pack_bytes_packable:
  assumes "pack_bytes X input options = Ok bs"
  shows "packable X options input" and "validate_writer_options options = Ok ()"
proof -
  obtain plan cs es p where v: "validate_writer_options options = Ok ()" "plan_chunks input (wo_chunker options) = Ok plan"
    and f: "rfold (pack_chunk X input options) ([], [], HEADER_LEN) (plan_chunk_list plan) = Ok (cs, es, p)"
    using assms
    by (auto simp: pack_bytes_def pack_bytes_with_container_id_def pack_bytes_internal_def rbind_Ok_iff result_simps split: if_splits)
  show "validate_writer_options options = Ok ()" by (rule v)
  show "packable X options input"
    unfolding packable_def using v(2) pack_loop_Ok [OF f] packed_frames by blast
qed

section \<open>The in-memory sink\<close>

text \<open>\<open>Cursor<Vec<u8>>\<close>: a write past the end fills the gap with zeros, and a read past the end fails.\<close>

record cursor =
  cur_bytes :: bytes
  cur_pos :: u64

definition cursor_ops :: "cursor sink_ops" where
  "cursor_ops = \<lparr>op_stream_position = (\<lambda>c. (Inr (cur_pos c), c)),
     op_seek_start = (\<lambda>p c. (Inr p, c\<lparr>cur_pos := p\<rparr>)),
     op_seek_end = (\<lambda>c. (Inr (length (cur_bytes c)), c\<lparr>cur_pos := length (cur_bytes c)\<rparr>)),
     op_write_all = (\<lambda>bs c. (Inr (), c\<lparr>cur_bytes := write_at (cur_pos c) bs (cur_bytes c), cur_pos := cur_pos c + length bs\<rparr>)),
     op_flush = (\<lambda>c. (Inr (), c)),
     op_read_exact = (\<lambda>n c.
       if cur_pos c + n \<le> length (cur_bytes c)
       then (Inr (slice (cur_bytes c) (cur_pos c) (cur_pos c + n)), c\<lparr>cur_pos := cur_pos c + n\<rparr>)
       else (Inl KindUnexpectedEof, c\<lparr>cur_pos := length (cur_bytes c)\<rparr>))\<rparr>"

interpretation cursor: reliable_sink cursor_ops cur_bytes cur_pos
  by unfold_locales (auto simp: cursor_ops_def split: if_splits)

section \<open>The life cycle\<close>

datatype call = Push bytes | Finish

definition run_call :: "('h, 'x) ext_scheme \<Rightarrow> 'w sink_ops \<Rightarrow> call \<Rightarrow> (('w, 'h) QztFileWriter, unit) action" where
  "run_call X ops c = (case c of Push bs \<Rightarrow> QztFileWriter_push X ops bs | Finish \<Rightarrow> QztFileWriter_finish X ops)"

fun run_calls ::
  "('h, 'x) ext_scheme \<Rightarrow> 'w sink_ops \<Rightarrow> call list \<Rightarrow> ('w, 'h) QztFileWriter \<Rightarrow> unit result list \<times> ('w, 'h) QztFileWriter"
where
  "run_calls X ops [] self = ([], self)"
| "run_calls X ops (c # cs) self =
     (let (r, self) = run_call X ops c self; (rs, self) = run_calls X ops cs self in (r # rs, self))"

lemma run_calls_refused:
  "\<not> accepting self \<Longrightarrow> run_calls X ops cs self = (replicate (length cs) (Err WriterAlreadyFinished), self)"
  by (induction cs)
     (auto simp: run_call_def accepting_def QztFileWriter_push_def QztFileWriter_finish_def split: call.splits)

lemma run_call_last:
  assumes "run_call X ops c self = (r, self')" and "r \<noteq> Ok () \<or> c = Finish"
  shows "\<not> accepting self'"
  using assms
  by (auto simp: run_call_def accepting_def QztFileWriter_push_def QztFileWriter_finish_def Let_def
      split: call.splits if_splits prod.splits sum.splits)

text \<open>The states a client can bring a writer into, whatever its sink does.\<close>

inductive reachable_writer :: "('h, 'x) ext_scheme \<Rightarrow> 'w sink_ops \<Rightarrow> WriterOptions \<Rightarrow> ('w, 'h) QztFileWriter \<Rightarrow> bool"
  for X ops options where
  created: "QztFileWriter_new X ops options w = (Inr self, w') \<Longrightarrow> reachable_writer X ops options self"
| called: "reachable_writer X ops options self \<Longrightarrow> run_call X ops c self = (r, self') \<Longrightarrow> reachable_writer X ops options self'"

definition within_bounds :: "WriterOptions \<Rightarrow> ('w, 'h) QztFileWriter \<Rightarrow> bool" where
  "within_bounds options self \<longleftrightarrow> fw_options self = options \<and> length (fw_entries self) \<le> table_capacity \<and>
     (accepting self \<longrightarrow> length (fw_pending self) \<le> max_chunk_size (wo_chunker options))"

lemma emit_pending_frame:
  assumes "emit_pending_chunk X ops k self = (Inr u, self')"
  shows "fw_options self' = fw_options self" and "fw_pending self' = drop k (fw_pending self)"
    and "fw_finished self' = fw_finished self" and "fw_poisoned self' = fw_poisoned self"
    and "length (fw_entries self') \<le> table_capacity"
proof -
  obtain d s where "emit_chunk X ops d self = (Inr (), s)" and self': "self' = s\<lparr>fw_pending := drop k (fw_pending s)\<rparr>"
    using assms by (auto simp: emit_pending_chunk_def action_Ok_iffs)
  then show "fw_options self' = fw_options self" "fw_pending self' = drop k (fw_pending self)"
    "fw_finished self' = fw_finished self" "fw_poisoned self' = fw_poisoned self"
    by (auto elim!: emit_chunk_Ok simp: update_newline_state_fields)
  show "length (fw_entries self') \<le> table_capacity" using emit_pending_chunk_entries [OF assms] by simp
qed

text \<open>What a failing call keeps: a predicate that every step keeps holds where the first step fails.\<close>

definition keeps :: "('s \<Rightarrow> bool) \<Rightarrow> ('s, 'a) action \<Rightarrow> bool" where
  "keeps P m \<longleftrightarrow> (\<forall>s. P s \<longrightarrow> P (snd (m s)))"

definition fails_in :: "('s \<Rightarrow> bool) \<Rightarrow> ('s, 'a) action \<Rightarrow> bool" where
  "fails_in P m \<longleftrightarrow> (\<forall>s err s'. P s \<longrightarrow> m s = (Inl err, s') \<longrightarrow> P s')"

lemma keeps_abind: "keeps P m \<Longrightarrow> (\<And>x. keeps P (f x)) \<Longrightarrow> keeps P (abind m f)"
  by (fastforce simp: keeps_def abind_def split: prod.splits sum.splits)

lemma keeps_alift: "keeps P (alift r)"
  by (simp add: keeps_def alift_def)

lemma keeps_aupdate: "(\<And>s s'. P s \<Longrightarrow> f s = Ok s' \<Longrightarrow> P s') \<Longrightarrow> keeps P (aupdate f)"
  by (auto simp: keeps_def aupdate_def split: sum.splits)

lemma fails_in_abind: "keeps P m \<Longrightarrow> (\<And>x. fails_in P (f x)) \<Longrightarrow> fails_in P (abind m f)"
  by (fastforce simp: fails_in_def keeps_def abind_def split: prod.splits sum.splits)

lemma keeps_awith: "(\<And>s. keeps P (f s)) \<Longrightarrow> keeps P (awith f)"
  by (simp add: keeps_def awith_def)

lemma keeps_if: "keeps P m \<Longrightarrow> keeps P m' \<Longrightarrow> keeps P (if c then m else m')"
  by simp

lemma fails_in_alift: "fails_in P (alift r)"
  by (simp add: fails_in_def alift_def)

lemma fails_in_total: "(\<And>s. \<exists>s'. f s = Ok s') \<Longrightarrow> fails_in P (aupdate f)"
  unfolding fails_in_def aupdate_def by (metis Pair_inject sum.case(2) sum.distinct(1))

lemma fails_in_if: "fails_in P m \<Longrightarrow> fails_in P m' \<Longrightarrow> fails_in P (if c then m else m')"
  by simp

definition frame :: "('w, 'h) QztFileWriter \<Rightarrow> ('w, 'h) QztFileWriter \<Rightarrow> bool" where
  "frame self s \<longleftrightarrow> fw_options s = fw_options self \<and> fw_entries s = fw_entries self"

lemma keeps_frame:
  "keeps (frame self) (on_writer f)" "keeps (frame self) (update_newline_state bs)"
  "keeps (frame self) (aupdate (\<lambda>s. rbind (r s) (\<lambda>n. Ok (s\<lparr>fw_line_starts_seen := n\<rparr>))))"
  "keeps (frame self) (aupdate (\<lambda>s. rbind (r s) (\<lambda>n. Ok (s\<lparr>fw_logical_offset := n\<rparr>))))"
  "keeps (frame self) (aupdate (\<lambda>s. rbind (r s) (\<lambda>n. Ok (s\<lparr>fw_physical_offset := n\<rparr>))))"
proof -
  show "keeps (frame self) (on_writer f)" by (auto simp: keeps_def frame_def on_writer_def split: prod.splits)
  show "keeps (frame self) (update_newline_state bs)"
    by (simp add: keeps_def frame_def update_newline_state_fields [OF prod.collapse [symmetric]])
qed (rule keeps_aupdate, auto simp: frame_def rbind_Ok_iff)+

lemma emit_pending_chunk_fails:
  assumes "emit_pending_chunk X ops k self = (Inl err, self')"
  shows "fw_options self' = fw_options self" and "fw_entries self' = fw_entries self"
proof -
  have emit: "emit_chunk X ops d self = (Inl e, s) \<Longrightarrow> frame self s" for d e s
  proof -
    assume "emit_chunk X ops d self = (Inl e, s)"
    moreover have "frame self self" by (simp add: frame_def)
    moreover have "\<exists>m. emit_chunk X ops d self = m self \<and> fails_in (frame self) m"
      unfolding emit_chunk_def Let_def
      by (rule exI, rule conjI, rule refl)
         (intro fails_in_abind fails_in_if fails_in_alift keeps_alift keeps_frame fails_in_total; simp)
    ultimately show "frame self s" unfolding fails_in_def by metis
  qed
  show "fw_options self' = fw_options self" "fw_entries self' = fw_entries self"
    using assms emit by (auto simp: emit_pending_chunk_def abind_def alift_def aupdate_def frame_def split: prod.splits sum.splits)
qed

text \<open>The loops, on any sink.\<close>

lemma push_loop_bounds:
  assumes "push_loop X ops remaining self = (r, self')" and "length (fw_entries self) \<le> table_capacity"
    and "length (fw_pending self) \<le> max_chunk_size (wo_chunker (fw_options self))"
    and "target_chunk_size (wo_chunker (fw_options self)) \<le> max_chunk_size (wo_chunker (fw_options self))"
  shows "fw_options self' = fw_options self \<and> length (fw_entries self') \<le> table_capacity \<and>
     (r = Ok () \<longrightarrow> length (fw_pending self') \<le> max_chunk_size (wo_chunker (fw_options self)))"
  using assms
proof (induction X ops remaining self rule: push_loop.induct)
  case (1 X ops remaining self)
  let ?max = "max_chunk_size (wo_chunker (fw_options self))"
  define n where "n = min (length remaining) (?max + 1 - length (fw_pending self))"
  define self1 where "self1 = self\<lparr>fw_pending := fw_pending self @ take n remaining\<rparr>"
  define rest where "rest = drop n remaining"
  note run = "1.prems"(1) [unfolded push_loop.simps [of X ops remaining self] Let_def, folded n_def, folded self1_def rest_def]
  have same: "fw_options self1 = fw_options self" "fw_entries self1 = fw_entries self" by (simp_all add: self1_def)
  have len1: "length (fw_pending self1) \<le> ?max + 1" using "1.prems"(3) by (simp add: self1_def n_def)
  show ?case
  proof (cases "remaining = [] \<or> try_reserve (length (fw_pending self)) n = None")
    case True
    then show ?thesis using run "1.prems" by (auto split: if_splits)
  next
    case False
    then have ne: "remaining \<noteq> []" and res: "try_reserve (length (fw_pending self)) n = Some ()" by auto
    consider (err) err where "?max < length (fw_pending self1)"
        "choose_stream_chunk_end (fw_pending self1) (wo_chunker (fw_options self1)) = Err err"
      | (emit) k r2 s2 where "?max < length (fw_pending self1)"
        "choose_stream_chunk_end (fw_pending self1) (wo_chunker (fw_options self1)) = Ok k" "emit_pending_chunk X ops k self1 = (r2, s2)"
      | (more) "length (fw_pending self1) \<le> ?max"
      by (cases "choose_stream_chunk_end (fw_pending self1) (wo_chunker (fw_options self1))"; cases "?max < length (fw_pending self1)")
         (auto, metis surj_pair)
    then show ?thesis
    proof cases
      case err
      then show ?thesis using run ne res same "1.prems"(2) by auto
    next
      case emit
      show ?thesis
      proof (cases r2)
        case (Inl e)
        then show ?thesis using run ne res same emit emit_pending_chunk_fails [of X ops k self1 e s2] "1.prems"(2) by auto
      next
        case (Inr u)
        note em = emit(3) [unfolded Inr] and k = emit(2) [unfolded same]
        note f = emit_pending_frame [OF em]
        have "length (fw_pending s2) \<le> ?max" using f(2) choose_stream_bounds(1) [OF k "1.prems"(4)] len1 by simp
        then show ?thesis
          using "1.IH"(1) [OF ne n_def res self1_def rest_def _ emit(2) em [symmetric] refl] run ne res same emit(1,2) em f(1,5) "1.prems"(4)
          by simp
      qed
    next
      case more
      then show ?thesis
        using "1.IH"(2) [OF ne n_def res self1_def rest_def] run ne res same "1.prems"(2,4) by simp
    qed
  qed
qed

lemma finish_loop_bounds:
  assumes "finish_loop X ops self = (r, self')" and "length (fw_entries self) \<le> table_capacity"
  shows "fw_options self' = fw_options self \<and> length (fw_entries self') \<le> table_capacity"
  using assms
proof (induction X ops self rule: finish_loop.induct)
  case (1 X ops self)
  note run = "1.prems"(1) [unfolded finish_loop.simps [of X ops self]]
  show ?case
  proof (cases "fw_pending self = [] \<or> (\<exists>e. choose_known_chunk_end (fw_pending self) (wo_chunker (fw_options self)) = Err e)")
    case True
    then show ?thesis using run "1.prems"(2) by (auto split: if_splits)
  next
    case False
    then obtain k where k: "choose_known_chunk_end (fw_pending self) (wo_chunker (fw_options self)) = Ok k"
      by (cases "choose_known_chunk_end (fw_pending self) (wo_chunker (fw_options self))") auto
    obtain r2 s2 where em: "emit_pending_chunk X ops k self = (r2, s2)" by fastforce
    show ?thesis
    proof (cases r2)
      case (Inl e)
      then show ?thesis using run False k em emit_pending_chunk_fails [of X ops k self e s2] "1.prems"(2) by auto
    next
      case (Inr u)
      note f = emit_pending_frame [OF em [unfolded Inr]]
      show ?thesis
        using "1.IH" [OF _ k em [unfolded Inr, symmetric] refl] run False k em Inr f(1,5) by auto
    qed
  qed
qed

lemma keeps_hash_prefix: "keeps (frame s) (hash_prefix X ops n)"
proof -
  have "frame s self \<Longrightarrow> frame s (snd (hash_prefix_loop X ops n h self))" for n h self
  proof (induction X ops n h self rule: hash_prefix_loop.induct)
    case (1 X ops n h self)
    have k: "frame s (snd (on_writer (op_read_exact ops k) self))" for k
      using keeps_frame(1) [of s "op_read_exact ops k"] "1.prems" by (simp add: keeps_def)
    show ?case
      using "1.prems" "1.IH" k
      by (subst hash_prefix_loop.simps) (auto split: sum.splits prod.splits, metis snd_conv, metis snd_conv)
  qed
  then have "keeps (frame s) (hash_prefix_loop X ops n h)" for h by (simp add: keeps_def)
  then show ?thesis unfolding hash_prefix_def by (intro keeps_abind keeps_frame keeps_alift)
qed

lemma finish_inner_bounds:
  assumes "finish_inner X ops self = (r, self')" and "length (fw_entries self) \<le> table_capacity"
  shows "fw_options self' = fw_options self \<and> length (fw_entries self') \<le> table_capacity"
proof -
  obtain r1 s where loop: "finish_loop X ops self = (r1, s)" by fastforce
  note b = finish_loop_bounds [OF loop assms(2)]
  show ?thesis
  proof (cases r1)
    case (Inl e)
    then show ?thesis using assms(1) loop b by (simp add: finish_inner_def abind_def)
  next
    case (Inr u)
    have "\<exists>m. finish_inner X ops = abind (finish_loop X ops) (\<lambda>_. m) \<and> keeps (frame s) m"
      by (rule exI, rule conjI, rule finish_inner_def, unfold Let_def)
         (intro keeps_awith keeps_abind keeps_alift keeps_frame keeps_hash_prefix keeps_if)
    then obtain m where m: "finish_inner X ops = abind (finish_loop X ops) (\<lambda>_. m)" "keeps (frame s) m" by blast
    have "frame s s" by (simp add: frame_def)
    then have "frame s self'" using assms(1) m loop Inr by (simp add: abind_def keeps_def) (metis snd_conv)
    then show ?thesis using b by (simp add: frame_def)
  qed
qed

inductive_cases reachable_writerE: "reachable_writer X ops options self"

lemma reachable_within_bounds:
  assumes "reachable_writer X ops options self"
  shows "within_bounds options self \<and> validate_writer_options options = Ok ()"
  using assms
proof (induction rule: reachable_writer.induct)
  case (created w self w')
  then show ?case
    unfolding QztFileWriter_new_def abind_Ok_iff
    by (clarsimp simp: within_bounds_def alift_Ok_iff abind_Ok_iff split: if_split_asm)
next
  case (called self c r self')
  note v = options_facts(1) [OF conjunct2 [OF called.IH]]
  have IH: "fw_options self = options" "length (fw_entries self) \<le> table_capacity"
    "accepting self \<Longrightarrow> length (fw_pending self) \<le> max_chunk_size (wo_chunker options)"
    using called.IH by (simp_all add: within_bounds_def)
  have "within_bounds options self'"
  proof (cases "accepting self")
    case False
    then show ?thesis using called.hyps(2) called.IH
      by (auto simp: run_call_def QztFileWriter_push_def QztFileWriter_finish_def accepting_def split: call.splits)
  next
    case True
    show ?thesis
    proof (cases c)
      case (Push bs)
      let ?s = "self\<lparr>fw_input_hasher := hasher_update X (fw_input_hasher self) bs\<rparr>"
      obtain r1 s1 where p: "push_loop X ops bs ?s = (r1, s1)" by fastforce
      from push_loop_bounds [OF p] IH True v
      have "fw_options s1 = options \<and> length (fw_entries s1) \<le> table_capacity \<and>
        (r1 = Ok () \<longrightarrow> length (fw_pending s1) \<le> max_chunk_size (wo_chunker options))" by simp
      then show ?thesis
        using called.hyps(2) True p Push
        by (auto simp: run_call_def QztFileWriter_push_def Let_def accepting_def within_bounds_def split: sum.splits)
    next
      case Finish
      obtain r1 s1 where p: "finish_inner X ops self = (r1, s1)" by fastforce
      from finish_inner_bounds [OF p IH(2)] show ?thesis
        using called.hyps(2) True p Finish IH(1)
        by (auto simp: run_call_def QztFileWriter_finish_def accepting_def within_bounds_def split: sum.splits)
    qed
  qed
  then show ?case using called.IH by simp
qed

section \<open>Properties\<close>

text \<open>
  C2: streaming equals packing. On an empty in-memory sink, a client that pushes any fragments
  of a text, cut anywhere, and finishes, succeeds exactly when packing the whole text at once
  succeeds, and then the sink holds exactly the bytes of that container.
\<close>

theorem stream_equals_pack:
  assumes "blake3_documented X" and "typed_level options"
  shows "(\<exists>c. write_stream X cursor_ops options fragments \<lparr>cur_bytes = [], cur_pos = 0\<rparr> = (Ok (), c) \<and> cur_bytes c = bs) \<longleftrightarrow>
     pack_bytes X (concat fragments) options = Ok bs"
proof
  assume "\<exists>c. write_stream X cursor_ops options fragments \<lparr>cur_bytes = [], cur_pos = 0\<rparr> = (Ok (), c) \<and> cur_bytes c = bs"
  then show "pack_bytes X (concat fragments) options = Ok bs" using cursor.stream_sound assms by blast
next
  assume p: "pack_bytes X (concat fragments) options = Ok bs"
  let ?c = "\<lparr>cur_bytes = [], cur_pos = 0\<rparr>"
  obtain c where c: "write_stream X cursor_ops options fragments ?c = (Ok (), c)"
    using cursor.stream_complete [OF pack_bytes_packable(1) [OF p] _ pack_bytes_packable(2) [OF p] assms, of ?c] by auto
  then show "\<exists>c. write_stream X cursor_ops options fragments ?c = (Ok (), c) \<and> cur_bytes c = bs"
    using cursor.stream_sound [OF c assms] p by auto
qed

text \<open>
  C11: whatever the sink, a finished stream is the container. On any sink whose successful
  operations do what a seekable file does, and which may fail whenever it likes, a client whose
  calls all succeed leaves in the sink a container that opens, exports to the concatenation of
  the fragments, and verifies at every level.
\<close>

theorem stream_roundtrip:
  assumes "random_access_sink ops contents position" and "write_stream X ops options fragments w = (Ok (), w')"
    and "blake3_documented X" and "zstd_documented X" and "typed_level options"
  shows "\<exists>r. QztReader_open X (contents w') = Ok r \<and> QztReader_export_all X r = Ok (concat fragments) \<and>
     (\<forall>level. is_ok (QztReader_verify X r level))"
proof -
  have p: "pack_bytes X (concat fragments) options = Ok (contents w')"
    by (rule random_access_sink.stream_sound [OF assms(1,2,3,5)])
  have cid: "length (container_id_from_input X (concat fragments)) = 16"
    by (simp add: container_id_from_input_def container_id_from_hash_def blake3_length [OF assms(3)])
  have typed: "typed_documents None None" "\<forall>idx. Omit \<noteq> Override idx" by (simp_all add: typed_documents_def)
  show ?thesis
    by (rule pack_internal_Ok [OF p [unfolded pack_bytes_def pack_bytes_with_container_id_def] typed(2) assms(3) cid assms(5) typed(1)])
       (drule (2) written_reads_back [OF _ _ _ assms(4)], blast)
qed

text \<open>
  C21: the writer stops for good. After a call that failed, and after \<open>finish\<close>, every further
  call, in any order and number, returns \<open>WriterAlreadyFinished\<close> and changes neither the writer
  nor its sink.
\<close>

theorem writer_stops:
  assumes "run_call X ops c self = (r, self')" and "r \<noteq> Ok () \<or> c = Finish"
  shows "run_calls X ops cs self' = (replicate (length cs) (Err WriterAlreadyFinished), self')"
  by (rule run_calls_refused [OF run_call_last [OF assms]])

text \<open>
  C20: the buffers stay bounded. In every state a client can reach, on any sink and after any
  failures, the chunk table is within its limit, and as long as the writer accepts input it
  holds back at most one maximal chunk of bytes; so the size of the next piece taken from a
  fragment, which the code computes with an unchecked subtraction, is never negative.
\<close>

theorem writer_bounded:
  assumes "reachable_writer X ops options self"
  shows "length (fw_entries self) \<le> table_capacity \<and> fw_options self = options \<and>
     (fw_finished self \<or> fw_poisoned self \<or>
      int (max_chunk_size (wo_chunker (fw_options self))) + 1 - int (length (fw_pending self)) > 0)"
  using reachable_within_bounds [OF assms] by (auto simp: within_bounds_def accepting_def)

section \<open>Witnesses\<close>

definition sample_fragments :: "bytes list" where
  "sample_fragments = [take 3 sample_text, [], drop 3 sample_text]"

lemma sample_stream:
  "\<exists>c. write_stream toy_ext cursor_ops sample_writer_options sample_fragments \<lparr>cur_bytes = [], cur_pos = 0\<rparr> = (Ok (), c)"
proof -
  obtain plan where plan: "plan_chunks sample_text (wo_chunker sample_writer_options) = Ok plan"
    using sample_plan_ex by (auto simp: sample_writer_options_def)
  obtain bs where "pack_bytes toy_ext sample_text sample_writer_options = Ok bs"
    using pack_bytes_succeeds [OF toy_blake3 toy_compresses sample_writer_options_valid(2,1) plan,
        of "container_id_from_input toy_ext sample_text"] blake3_length [OF toy_blake3]
    by (auto simp: is_ok_iff pack_bytes_def container_id_from_input_def container_id_from_hash_def)
  from pack_bytes_packable [OF this] show ?thesis
    using cursor.stream_complete [of toy_ext sample_writer_options sample_fragments "\<lparr>cur_bytes = [], cur_pos = 0\<rparr>"] toy_blake3
      sample_writer_options_valid
    by (simp add: sample_fragments_def)
qed

theorem stream_equals_pack_witness:
  "\<exists>c. write_stream toy_ext cursor_ops sample_writer_options sample_fragments \<lparr>cur_bytes = [], cur_pos = 0\<rparr> = (Ok (), c) \<and>
     pack_bytes toy_ext sample_text sample_writer_options = Ok (cur_bytes c)"
  using sample_stream stream_equals_pack [OF toy_blake3 sample_writer_options_valid(2), of sample_fragments]
  by (auto simp: sample_fragments_def)

theorem stream_roundtrip_witness:
  "\<exists>c r. write_stream toy_ext cursor_ops sample_writer_options sample_fragments \<lparr>cur_bytes = [], cur_pos = 0\<rparr> = (Ok (), c) \<and>
     QztReader_open toy_ext (cur_bytes c) = Ok r \<and> QztReader_export_all toy_ext r = Ok sample_text"
proof -
  obtain c where c: "write_stream toy_ext cursor_ops sample_writer_options sample_fragments \<lparr>cur_bytes = [], cur_pos = 0\<rparr> = (Ok (), c)"
    using sample_stream ..
  have txt_eq: "concat sample_fragments = sample_text" by (simp add: sample_fragments_def)
  from stream_roundtrip [OF cursor.random_access_sink_axioms c toy_blake3 toy_zstd sample_writer_options_valid(2)] c txt_eq
  show ?thesis by auto
qed

text \<open>A writer whose pending bytes are not UTF-8.\<close>

definition sample_stream_writer :: "(cursor, bytes) QztFileWriter" where
  "sample_stream_writer = \<lparr>fw_writer = \<lparr>cur_bytes = replicate HEADER_LEN 0, cur_pos = HEADER_LEN\<rparr>, fw_options = sample_writer_options,
     fw_pending = [255], fw_entries = [], fw_input_hasher = [255], fw_physical_offset = HEADER_LEN, fw_logical_offset = 0,
     fw_line_starts_seen = 0, fw_lf_count = 0, fw_crlf_count = 0, fw_previous_byte = None, fw_finished = False, fw_poisoned = False\<rparr>"

lemma sample_finish_fails:
  "run_call toy_ext cursor_ops Finish sample_stream_writer = (Err InvalidUtf8, sample_stream_writer\<lparr>fw_poisoned := True\<rparr>)"
proof -
  have "\<not> valid_utf8 [255]" "check_chunk_table_size (Suc 0) = Ok ()"
    by (simp_all add: valid_utf8.simps check_chunk_table_size_iff table_capacity_def)
  then have emit: "emit_chunk toy_ext cursor_ops [255] sample_stream_writer = (Err InvalidUtf8, sample_stream_writer)"
    unfolding emit_chunk_def
    by (simp add: abind_def [of "alift _"] alift_def checked_add_def usize_to_u64_def u64_end_def from_utf8_def enforce_chunk_sizes_def ResourceLimits_default_def sample_stream_writer_def)
  have "get_slice (fw_pending sample_stream_writer) 0 1 = Some [255]"
    by (simp add: sample_stream_writer_def get_slice_def slice_def)
  with emit have "emit_pending_chunk toy_ext cursor_ops 1 sample_stream_writer = (Err InvalidUtf8, sample_stream_writer)"
    by (simp add: emit_pending_chunk_def abind_def alift_def)
  then have "finish_loop toy_ext cursor_ops sample_stream_writer = (Err InvalidUtf8, sample_stream_writer)"
    by (subst finish_loop.simps)
       (simp add: sample_stream_writer_def choose_known_chunk_end_def sample_writer_options_def sample_options_def)
  then show ?thesis
    by (simp add: run_call_def QztFileWriter_finish_def finish_inner_def abind_def) (simp add: sample_stream_writer_def)
qed

theorem writer_stops_witness:
  "run_calls toy_ext cursor_ops [Finish, Push [97], Finish] sample_stream_writer =
     ([Err InvalidUtf8, Err WriterAlreadyFinished, Err WriterAlreadyFinished], sample_stream_writer\<lparr>fw_poisoned := True\<rparr>)"
  using writer_stops [OF sample_finish_fails, of "[Push [97], Finish]"] sample_finish_fails by simp

theorem writer_bounded_witness:
  "\<exists>self. reachable_writer toy_ext cursor_ops sample_writer_options self \<and> length (fw_entries self) \<le> table_capacity"
proof -
  obtain self w' where "QztFileWriter_new toy_ext cursor_ops sample_writer_options \<lparr>cur_bytes = [], cur_pos = 0\<rparr> = (Inr self, w')"
    using cursor.new_progress [of "\<lparr>cur_bytes = [], cur_pos = 0\<rparr>" sample_writer_options toy_ext] sample_writer_options_valid(1) by auto
  from reachable_writer.created [OF this] show ?thesis using writer_bounded by blast
qed

end
