(* ===== verification/Reader_Examples.thy ===== *)
theory Reader_Examples
  imports Writer_Total
begin

text \<open>
  A container with two chunks and a document, packed by the model of the writer with the
  concrete hash and compressor, and the theorems on the readers applied to it: every branch
  they describe is reached on real content.
\<close>

section \<open>The container\<close>

text \<open>
  The sample text with one document, five bytes from the second on: it crosses the boundary of
  the two chunks and ends with the character e acute.
\<close>

definition noted_span :: DocumentSpan where
  "noted_span = DocumentSpan_new ''a'' 1 5"

definition noted_builder :: WriterBuilder where
  "noted_builder = WriterBuilder_container_id (WriterBuilder_document_spans sample_builder [noted_span]) (replicate 16 1)"

definition noted_index :: "bytes \<Rightarrow> DocumentIndex" where
  "noted_index cid = \<lparr>di_container_id = cid,
     di_documents = [DocumentEntry_new toy_ext ''a'' 1 5 0 2 0 2 (Checksum_blake3 toy_ext [0x62, CR, LF, 0xC3, 0xA9])]\<rparr>"

lemma noted_advance:
  "advance_newlines sample_text (Suc 0) 0 0 = Ok (Suc 0, 0)"
  "advance_newlines sample_text 6 (Suc 0) 0 = Ok (6, 1)"
proof -
  have step: "advance_newlines sample_text b i n =
      (if i < b then advance_newlines sample_text b (i + 1) (if i < 9 \<and> sample_text ! i = LF then n + 1 else n) else Ok (i, n))"
    if "n < 9" "b \<le> 9" for b i n
    using that by (subst advance_newlines.simps) (auto simp: checked_add_def u64_end_def sample_text_def get_def)
  show "advance_newlines sample_text (Suc 0) 0 0 = Ok (Suc 0, 0)"
    by (simp add: step) (simp add: sample_text_def step)
  show "advance_newlines sample_text 6 (Suc 0) 0 = Ok (6, 1)"
    by (simp add: step) (simp add: sample_text_def step)
qed

lemma noted_entries:
  assumes "plan_chunks sample_text sample_options = Ok plan" and "map pc_end (plan_chunk_list plan) = [4, 9]"
    and "list_all2 entry_of_plan es (plan_chunk_list plan)"
  obtains e0 e1 where "es = [e0, e1]" and "chunk_id e0 = 0" and "chunk_id e1 = 1" and "logical_offset e0 = 0" and "uncompressed_size e0 = 4"
    and "logical_offset e1 = 4" and "uncompressed_size e1 = 5"
proof -
  obtain c0 c1 where c: "plan_chunk_list plan = [c0, c1]" "pc_end c0 = 4" "pc_end c1 = 9" using assms(2) by auto
  then show thesis
    using assms(3) plan_chunks_Ok(3) [OF assms(1)] that
    by (auto simp: list_all2_Cons2 entry_of_plan_def pc_end_def Let_def)
qed

lemma noted_index_built:
  assumes "plan_chunks sample_text sample_options = Ok plan" and "map pc_end (plan_chunk_list plan) = [4, 9]"
    and "list_all2 entry_of_plan es (plan_chunk_list plan)"
  shows "build_document_index toy_ext [noted_span] sample_text cid es = Ok (noted_index cid)"
proof (rule noted_entries [OF assms])
  fix e0 e1
  assume e: "es = [e0, e1]" "chunk_id e0 = 0" "chunk_id e1 = 1" "logical_offset e0 = 0" "uncompressed_size e0 = 4"
    "logical_offset e1 = 4" "uncompressed_size e1 = 5"
  have "writer_document_chunk_range es 1 5 = Ok (0, 2)"
    using e by (simp add: writer_document_chunk_range_def document_chunk_index_def document_chunk_loop.simps
        checked_logical_end_def checked_add_def checked_sub_def u64_end_def get_def)
  moreover have "get_slice sample_text 1 6 = Some [0x62, CR, LF, 0xC3, 0xA9]" "length sample_text = 9"
    by (simp_all add: get_slice_def slice_def sample_text_def)
  ultimately show ?thesis
    using sample_preflight noted_advance
    by (simp add: build_document_index_def noted_index_def noted_span_def DocumentSpan_new_def span_step_def event_step_def
        build_document_def checked_logical_end_def checked_add_def checked_sub_def u64_end_def less_eq_prod_def
        Let_def, simp add: numeral_2_eq_2)
qed

lemma noted_index_accepted: "length cid = 16 \<Longrightarrow> validate_for_writer (noted_index cid) ResourceLimits_default = Ok ()"
  using blake3_length [OF toy_blake3]
  by (simp add: validate_for_writer_def Let_def noted_index_def DocumentEntry_new_def value_with_documents_def
      document_entry_value_def text_pair_def version_value_def checksum_value_def Checksum_blake3_def u64_value_def
      u64_try_from_def payload_usage_def CborUsage_add_def CborUsage_enforce_def checked_add_def u64_end_def head_len_def
      ResourceLimits_default_def SCHEMA_DOCUMENT_INDEX_def CHECKSUM_ALGORITHM_BLAKE3_def)

lemma noted_typed: "builder_typed noted_builder"
  using sample_writer_options_valid(2)
  by (simp add: builder_typed_def noted_builder_def noted_span_def sample_builder_def WriterBuilder_options_def
      WriterBuilder_new_def WriterBuilder_container_id_def WriterBuilder_document_spans_def typed_documents_def
      DocumentSpan_new_def ascii_valid)

lemma noted_packed: "\<exists>bs. WriterBuilder_pack toy_ext noted_builder sample_text = Ok bs"
proof (rule sample_plan)
  fix plan
  assume p: "plan_chunks sample_text sample_options = Ok plan" "map pc_end (plan_chunk_list plan) = [4, 9]"
  have "is_ok (pack_bytes_internal toy_ext sample_text (replicate 16 1) sample_writer_options Omit None (Some [noted_span]) ''core'' True)"
    by (rule pack_spans_succeeds [OF toy_blake3 toy_compresses sample_writer_options_valid(2,1), of _ plan])
       (use p noted_index_built [OF p] noted_index_accepted in
         \<open>auto simp: sample_writer_options_def noted_span_def DocumentSpan_new_def ascii_valid\<close>)
  then show ?thesis
    using sample_writer_options_valid(1) sample_preflight
    by (simp add: WriterBuilder_pack_def noted_builder_def noted_span_def DocumentSpan_new_def sample_builder_def
        WriterBuilder_options_def WriterBuilder_new_def WriterBuilder_container_id_def WriterBuilder_document_spans_def is_ok_iff)
qed

lemma noted_lines: "lines_in sample_text 0 (length sample_text) = 2"
  by (simp add: lines_in_def is_line_start_def sample_text_def upt_rec)

abbreviation noted_bytes :: bytes where
  "noted_bytes \<equiv> [0x62, CR, LF, 0xC3, 0xA9]"

text \<open>What the theorems below need of it: it opens, verifies, exports the text and has the index.\<close>

definition noted_reader :: "bytes \<Rightarrow> QztReader \<Rightarrow> bool" where
  "noted_reader bs r \<longleftrightarrow> QztReader_open_with_limits toy_ext bs ResourceLimits_default = Ok r \<and>
     is_ok (QztReader_verify toy_ext r Deep) \<and> QztReader_export_all toy_ext r = Ok sample_text \<and> length bs < 2 ^ 46 \<and>
     info_original_size (QztReader_info r) = 9 \<and> info_line_count (QztReader_info r) = 2 \<and>
     (\<exists>di. sk_document_index (qr_details r) = Some di \<and>
       di_documents di = [DocumentEntry_new toy_ext ''a'' 1 5 0 2 0 2 (Checksum_blake3 toy_ext noted_bytes)]) \<and>
     (\<exists>e0 e1. sk_chunk_entries (qr_details r) = [e0, e1] \<and> logical_offset e0 = 0 \<and> uncompressed_size e0 = 4 \<and>
       logical_offset e1 = 4 \<and> uncompressed_size e1 = 5)"

lemma noted_container: "\<exists>bs r. WriterBuilder_pack toy_ext noted_builder sample_text = Ok bs \<and> noted_reader bs r"
proof -
  obtain bs where bs: "WriterBuilder_pack toy_ext noted_builder sample_text = Ok bs" using noted_packed ..
  have spans: "wb_document_spans noted_builder = Some [noted_span]" and opt: "wo_chunker (wb_options noted_builder) = sample_options"
    by (simp_all add: noted_builder_def sample_builder_def WriterBuilder_options_def WriterBuilder_container_id_def
        WriterBuilder_document_spans_def sample_writer_options_def WriterBuilder_new_def)
  show ?thesis
  proof (rule builder_run [OF bs noted_typed toy_blake3], rule sample_plan)
    fix cid plan cs es optional md_off mb db ob rb f fb plan'
    assume w: "written toy_ext sample_text cid (wb_options noted_builder) plan cs es optional"
      and a: "assembled toy_ext sample_text cid plan cs es optional md_off mb db ob rb f fb bs"
      and m: "\<forall>di. ob_document_index optional = Some di \<longrightarrow>
        (\<forall>d \<in> set (di_documents di). document_matches toy_ext sample_text d \<and> document_placed es d)"
      and s: "\<forall>ss. wb_document_spans noted_builder = Some ss \<longrightarrow>
        (\<exists>di. ob_document_index optional = Some di \<and> build_document_index toy_ext ss sample_text cid es = Ok di)"
      and p: "plan_chunks sample_text sample_options = Ok plan'" "map pc_end (plan_chunk_list plan') = [4, 9]"
    have same: "plan = plan'" using w p(1) by (simp add: written_def opt)
    have all2: "list_all2 entry_of_plan es (plan_chunk_list plan')"
      using w same packed_plan by (auto simp: written_def)
    obtain e0 e1 where e: "es = [e0, e1]" "logical_offset e0 = 0" "uncompressed_size e0 = 4"
      "logical_offset e1 = 4" "uncompressed_size e1 = 5" by (rule noted_entries [OF p all2])
    have lines: "plan_line_count plan = 2" using plan_chunks_Ok(4) [OF p(1)] noted_lines same by simp
    have idx: "ob_document_index optional = Some (noted_index cid)"
      using s spans noted_index_built [OF p all2] by auto
    obtain r where r: "QztReader_open toy_ext bs = Ok r" "QztReader_export_all toy_ext r = Ok sample_text"
      "\<And>level. is_ok (QztReader_verify toy_ext r level)" "length bs < 2 ^ 46"
      "sk_document_index (qr_details r) = ob_document_index optional" "sk_chunk_entries (qr_details r) = es"
      "info_original_size (QztReader_info r) = length sample_text" "info_line_count (QztReader_info r) = plan_line_count plan"
      by (rule written_reads_documents [OF w a m toy_zstd]) blast
    then have "noted_reader bs r"
      using r(3) [of Deep] lines idx e by (simp add: noted_reader_def QztReader_open_limits noted_index_def sample_text_def)
    then show ?thesis using bs by blast
  qed
qed

lemma noted_facts:
  assumes "noted_reader bs r"
  obtains report di e0 e1 where "QztReader_open_with_limits toy_ext bs ResourceLimits_default = Ok r"
    and "QztReader_verify toy_ext r Deep = Ok report" and "QztReader_export_all toy_ext r = Ok sample_text" and "length bs < 2 ^ 46"
    and "info_original_size (QztReader_info r) = 9" and "info_line_count (QztReader_info r) = 2"
    and "sk_document_index (qr_details r) = Some di"
    and "di_documents di = [DocumentEntry_new toy_ext ''a'' 1 5 0 2 0 2 (Checksum_blake3 toy_ext noted_bytes)]"
    and "sk_chunk_entries (qr_details r) = [e0, e1]" and "logical_offset e0 = 0" and "uncompressed_size e0 = 4"
    and "logical_offset e1 = 4" and "uncompressed_size e1 = 5"
  using assms unfolding noted_reader_def is_ok_iff by blast

lemma noted_slice: "slice sample_text 1 6 = noted_bytes"
  by (simp add: slice_def sample_text_def)

lemma noted_decodes:
  assumes "noted_reader bs r"
  shows "\<forall>e \<in> set (sk_chunk_entries (qr_details r)). is_ok (QztReader_decode_entry toy_ext r e)"
    and "restored_bytes (QztReader_decode_entry toy_ext r) (sk_chunk_entries (qr_details r)) = sample_text"
  using assms export_all_Ok_iff [of toy_ext bs ResourceLimits_default r sample_text] unfolding noted_reader_def by auto

lemma noted_read:
  assumes "noted_reader bs r"
  shows "QztReader_read_range toy_ext r 1 5 = Ok noted_bytes"
proof (rule noted_facts [OF assms])
  assume o: "QztReader_open_with_limits toy_ext bs ResourceLimits_default = Ok r" and "info_original_size (QztReader_info r) = 9"
  then show ?thesis
    using read_range_exact_iff(1) [OF o, of 1 5 noted_bytes] noted_decodes [OF assms] noted_slice
    by (simp add: QztReader_info_def Let_def u64_end_def)
qed

section \<open>The theorems at this container\<close>

lemma noted_details:
  assumes "noted_reader bs r"
  shows "open_skeleton_details_with_limits toy_ext bs ResourceLimits_default = Ok (qr_details r)"
  using assms by (auto simp: noted_reader_def open_reader_conv opened_reader_Some)

theorem open_skeleton_sound_witness:
  "\<exists>bs r. noted_reader bs r \<and> chunk_layout (sk_chunk_entries (qr_details r)) \<and>
     sum_list (map uncompressed_size (sk_chunk_entries (qr_details r))) = ss_original_size (sk_summary (qr_details r)) \<and>
     fp_final_file_size (sk_footer_payload (qr_details r)) = length bs"
proof -
  obtain bs r where c: "noted_reader bs r" using noted_container by blast
  show ?thesis using c open_skeleton_sound [OF noted_details [OF c]] by blast
qed

theorem open_read_at_equals_open_bytes_witness:
  "\<exists>bs r. noted_reader bs r \<and>
     open_skeleton_details_read_at toy_ext (file_read_exact_at (short_reads bs)) (length bs) ResourceLimits_default = Ok (qr_details r) \<and>
     open_skeleton_details_read_at toy_ext (slice_read_exact_at bs) (length bs) ResourceLimits_default = Ok (qr_details r)"
proof -
  obtain bs r where c: "noted_reader bs r" using noted_container by blast
  then have "length bs < 2 ^ 63" by (simp add: noted_reader_def)
  from open_read_at_equals_open_bytes [OF short_reads_positioned [of bs] this, of toy_ext ResourceLimits_default]
  show ?thesis using c noted_details [OF c] by auto
qed

theorem verify_deep_sound_witness:
  "\<exists>bs r data. noted_reader bs r \<and> QztReader_export_all toy_ext r = Ok data \<and> valid_utf8 data \<and> length data = 9 \<and>
     length (line_starts data) = 2 \<and> Checksum_blake3 toy_ext data = md_original_checksum (sk_metadata (qr_details r)) \<and>
     document_matches toy_ext data (DocumentEntry_new toy_ext ''a'' 1 5 0 2 0 2 (Checksum_blake3 toy_ext noted_bytes))"
proof -
  obtain bs r where c: "noted_reader bs r" using noted_container by blast
  show ?thesis
  proof (rule noted_facts [OF c])
    fix report di
    assume o: "QztReader_open_with_limits toy_ext bs ResourceLimits_default = Ok r"
      and v: "QztReader_verify toy_ext r Deep = Ok report"
      and i: "info_original_size (QztReader_info r) = 9" "info_line_count (QztReader_info r) = 2"
      and d: "sk_document_index (qr_details r) = Some di"
        "di_documents di = [DocumentEntry_new toy_ext ''a'' 1 5 0 2 0 2 (Checksum_blake3 toy_ext noted_bytes)]"
    show ?thesis using verify_deep_sound [OF o toy_blake3 v] c i d by (metis list.set_intros(1))
  qed
qed

theorem read_line_refines_text_witness:
  "\<exists>bs r. noted_reader bs r \<and> QztReader_read_line_raw toy_ext r 0 = Ok [0x61, 0x62, CR, LF] \<and>
     QztReader_read_line_raw toy_ext r 1 = Ok [0xC3, 0xA9, 0x63, 0x64, LF] \<and>
     QztReader_read_line_raw toy_ext r 2 = Err LineOutOfRange"
proof -
  obtain bs r where c: "noted_reader bs r" using noted_container by blast
  have l: "nth_line sample_text 0 = [0x61, 0x62, CR, LF]" "nth_line sample_text 1 = [0xC3, 0xA9, 0x63, 0x64, LF]"
    by (simp_all add: nth_line_def through_lf_def line_starts_def is_line_start_def sample_text_def upt_rec)
  show ?thesis
  proof (rule noted_facts [OF c])
    fix report
    assume o: "QztReader_open_with_limits toy_ext bs ResourceLimits_default = Ok r"
      and v: "QztReader_verify toy_ext r Deep = Ok report" "QztReader_export_all toy_ext r = Ok sample_text"
      and i: "info_line_count (QztReader_info r) = 2"
    show ?thesis using read_line_refines_text [OF o toy_blake3 v] c i l by (intro exI [of _ bs] exI [of _ r]) simp
  qed
qed

theorem read_range_exact_witness:
  "\<exists>bs r. noted_reader bs r \<and> QztReader_read_range toy_ext r 1 5 = Ok noted_bytes \<and>
     QztReader_read_range toy_ext r 5 5 = Err LogicalRangeOutOfBounds"
proof -
  obtain bs r where c: "noted_reader bs r" using noted_container by blast
  show ?thesis
  proof (rule noted_facts [OF c])
    assume o: "QztReader_open_with_limits toy_ext bs ResourceLimits_default = Ok r"
      and i: "info_original_size (QztReader_info r) = 9"
    show ?thesis
      using read_range_exact [OF o, of 1 5 noted_bytes] read_range_exact [OF o, of 5 5] c i noted_decodes [OF c] noted_slice
      by (intro exI [of _ bs] exI [of _ r]) (simp add: Let_def)
  qed
qed

theorem cached_reads_equal_witness:
  "\<exists>bs r. noted_reader bs r \<and>
     cached_reads (QztReader_read_range_cached toy_ext r) [(1, 5), (5, 5), (1, 5)] ChunkDecodeCache_new =
       [Ok noted_bytes, QztReader_read_range toy_ext r 5 5, Ok noted_bytes]"
proof -
  obtain bs r where c: "noted_reader bs r" using noted_container by blast
  show ?thesis
  proof (rule noted_facts [OF c])
    assume o: "QztReader_open_with_limits toy_ext bs ResourceLimits_default = Ok r"
      and i: "info_original_size (QztReader_info r) = 9" and l: "length bs < 2 ^ 46"
    show ?thesis
      using cached_reads_equal [OF o, of "[(1, 5), (5, 5), (1, 5)]"] c i l noted_read [OF c]
      by (intro exI [of _ bs] exI [of _ r]) simp
  qed
qed

theorem read_range_metrics_exact_witness:
  "\<exists>bs r report. noted_reader bs r \<and> QztReader_read_range_with_metrics toy_ext r 1 5 = Ok report \<and>
     rr_bytes report = noted_bytes \<and> rm_decoded_chunks (rr_metrics report) = 2 \<and> rm_decoded_bytes (rr_metrics report) = 9"
proof -
  obtain bs r where c: "noted_reader bs r" using noted_container by blast
  show ?thesis
  proof (rule noted_facts [OF c])
    fix e0 e1
    assume o: "QztReader_open_with_limits toy_ext bs ResourceLimits_default = Ok r"
      and e: "sk_chunk_entries (qr_details r) = [e0, e1]" "logical_offset e0 = 0" "uncompressed_size e0 = 4"
        "logical_offset e1 = 4" "uncompressed_size e1 = 5"
    obtain report where m: "QztReader_read_range_with_metrics toy_ext r 1 5 = Ok report"
      using noted_read [OF c]
      by (auto simp: QztReader_read_range_def QztReader_read_range_with_metrics_def read_range_from_entries_def
          read_range_with_metrics_from_entries_def rbind_Ok_iff split: prod.splits)
    show ?thesis
      using read_range_metrics_exact [OF o _ m] c m e noted_read [OF c]
      by (intro exI [of _ bs] exI [of _ r] exI [of _ report]) (simp add: Let_def meets_def)
  qed
qed

theorem file_reader_equals_reader_witness:
  "\<exists>f bs. WriterBuilder_pack toy_ext noted_builder sample_text = Ok bs \<and>
     QztFileReader_open_read_at_with_limits toy_ext (file_read_exact_at (short_reads bs)) (length bs)
        ResourceLimits_default = Ok f \<and> QztFileReader_export_all toy_ext f = Ok sample_text \<and>
     QztFileReader_read_range toy_ext f 1 5 = Ok noted_bytes"
proof -
  obtain bs r where w: "WriterBuilder_pack toy_ext noted_builder sample_text = Ok bs" and c: "noted_reader bs r"
    using noted_container by blast
  show ?thesis
  proof (rule noted_facts [OF c])
    assume o: "QztReader_open_with_limits toy_ext bs ResourceLimits_default = Ok r"
      and x: "QztReader_export_all toy_ext r = Ok sample_text" and l: "length bs < 2 ^ 46"
    have "length bs < 2 ^ 63" using l by simp
    note eq = file_reader_equals_reader [OF short_reads_positioned [of bs] this toy_blake3, where limits = ResourceLimits_default
      and offset = 1 and len = 5 and cache = ChunkDecodeCache_new and expected = "Checksum_blake3 toy_ext []" and key = "''a''"
      and n = 0 and level = Quick and write_all = vec_write_all and w = "[]"]
    show ?thesis using eq unfolding o sum.case x noted_read [OF c] using w by blast
  qed
qed

theorem read_document_exact_witness:
  "\<exists>bs r. noted_reader bs r \<and>
     QztReader_read_document toy_ext r ''a'' = Ok noted_bytes \<and>
     QztReader_read_document_verified toy_ext r ''a'' (Checksum_blake3 toy_ext noted_bytes) = Ok noted_bytes \<and>
     QztReader_read_document_verified toy_ext r ''a'' \<lparr>cs_algorithm = ''blake3'', cs_value = []\<rparr> = Err VerifiedChecksumMismatch \<and>
     QztReader_read_document_verified toy_ext r ''a'' \<lparr>cs_algorithm = ''md5'', cs_value = []\<rparr> = Err ContainerCorrupt \<and>
     QztReader_read_document toy_ext r ''b'' = Err DocumentNotFound"
proof -
  obtain bs r where c: "noted_reader bs r" using noted_container by blast
  show ?thesis
  proof (rule noted_facts [OF c])
    fix report di
    assume o: "QztReader_open_with_limits toy_ext bs ResourceLimits_default = Ok r"
      and v: "QztReader_verify toy_ext r Deep = Ok report" "QztReader_export_all toy_ext r = Ok sample_text"
      and d: "sk_document_index (qr_details r) = Some di"
        "di_documents di = [DocumentEntry_new toy_ext ''a'' 1 5 0 2 0 2 (Checksum_blake3 toy_ext noted_bytes)]"
    note x = read_document_exact [OF o toy_blake3 v, of "''b''", unfolded d(1) option.case d(2)]
    have "length (blake3_hash toy_ext bs) = 32" for bs using toy_blake3 by (rule blake3_length)
    then have h: "[] \<noteq> blake3_hash toy_ext bs" for bs by (metis list.size(3) zero_neq_numeral)
    have doc: "QztReader_read_document toy_ext r ''a'' = Ok (slice sample_text 1 6)"
      and ver: "QztReader_read_document_verified toy_ext r ''a'' expected =
        (if expected = Checksum_blake3 toy_ext noted_bytes then Ok (slice sample_text 1 6)
         else if cs_algorithm expected = ''blake3'' then Err VerifiedChecksumMismatch else Err ContainerCorrupt)" for expected
      using bspec [OF conjunct1 [OF x] list.set_intros(1)] by (simp_all add: DocumentEntry_new_def)
    have "QztReader_read_document toy_ext r ''b'' = Err DocumentNotFound"
      using conjunct2 [OF x] by (simp add: DocumentEntry_new_def)
    then show ?thesis
      using c doc ver h unfolding noted_slice
      by (intro exI [of _ bs] exI [of _ r]) (simp add: Checksum_blake3_def CHECKSUM_ALGORITHM_BLAKE3_def)
  qed
qed

end
