(* ===== verification/Postings.thy ===== *)
theory Postings
  imports Reader_Access
begin

text \<open>
  Posting lists of the search indexes (src/src/search.rs): strictly increasing line numbers,
  stored as variable-length differences, with skip points for long lists, and their
  intersection under a work budget. The copy of \<open>write_varuint\<close> and \<open>varuint_len\<close> in this file
  of the source is the one of the dense line index, and so are the definitions here; its
  reader is a different function. Failing allocations are not modelled.
\<close>

section \<open>Variable-length integers\<close>

text \<open>\<open>u64::checked_shl\<close>: bits shifted out are lost.\<close>

definition checked_shl :: "u64 \<Rightarrow> u32 \<Rightarrow> u64 option" where
  "checked_shl v shift = (if shift < 64 then Some (push_bit shift v mod u64_end) else None)"

function posting_varuint_loop :: "bytes \<Rightarrow> usize \<Rightarrow> usize \<Rightarrow> u64 \<Rightarrow> u32 \<Rightarrow> (u64 \<times> usize) result" where
  "posting_varuint_loop bs start cursor value shift =
     rbind (ok_or (get bs cursor) UnexpectedEof) (\<lambda>byte.
     let cursor = cursor + 1 in
     rbind (ok_or (checked_shl (unat (byte AND 0x7f)) shift) ContainerCorrupt) (\<lambda>b.
     let value = value OR b in
     if byte AND 0x80 = 0 then
       if write_varuint value \<noteq> slice bs start cursor then Err ContainerCorrupt else Ok (value, cursor)
     else
       let shift = shift + 7 in
       if shift > 63 then Err ContainerCorrupt
       else posting_varuint_loop bs start cursor value shift))"
  by pat_completeness auto
termination
  by (relation "measure (\<lambda>(bs, start, cursor, value, shift). 64 - shift)") auto

declare posting_varuint_loop.simps [simp del]

definition posting_varuint :: "bytes \<Rightarrow> usize \<Rightarrow> (u64 \<times> usize) result" where
  "posting_varuint bs cursor = posting_varuint_loop bs cursor cursor 0 0"

section \<open>Differences\<close>

definition posting_delta :: "usize \<Rightarrow> u64 \<Rightarrow> u64 \<Rightarrow> u64 result" where
  "posting_delta index previous v =
     (if index = 0 then Ok v
      else if v \<le> previous then Err ContainerCorrupt
      else ok_or (checked_sub v previous) ContainerCorrupt)"

definition encode_delta_varint_u64 :: "u64 list \<Rightarrow> bytes result" where
  "encode_delta_varint_u64 values =
     rbind (rfold (\<lambda>(bs, previous) (index, v).
         rbind (posting_delta index previous v) (\<lambda>delta.
         Ok (bs @ write_varuint delta, v))) ([], 0) (enumerate 0 values)) (\<lambda>(bs, _).
     Ok bs)"

definition encoded_delta_varint_size :: "u64 list \<Rightarrow> u64 result" where
  "encoded_delta_varint_size values =
     rbind (rfold (\<lambda>(sz, previous) (index, v).
         rbind (posting_delta index previous v) (\<lambda>delta.
         rbind (usize_to_u64 (varuint_len delta)) (\<lambda>n.
         rbind (ok_or (checked_add sz n) ResourceLimitExceeded) (\<lambda>sz.
         Ok (sz, v))))) (0, 0) (enumerate 0 values)) (\<lambda>(sz, _).
     Ok sz)"

text \<open>A read moves the cursor, so the loop ends.\<close>

lemma posting_varuint_loop_advances:
  "posting_varuint_loop bs start cursor val shift = Ok (v, c) \<Longrightarrow> cursor < c \<and> c \<le> length bs"
proof (induction bs start cursor val shift rule: posting_varuint_loop.induct)
  case (1 bs start cursor val shift)
  note run = "1.prems" [unfolded posting_varuint_loop.simps [of bs start cursor val shift]]
  obtain byte b where g: "get bs cursor = Some byte" and s: "checked_shl (unat (byte AND 0x7f)) shift = Some b"
    using run by (auto simp: rbind_Ok_iff result_simps Let_def)
  have l: "cursor < length bs" using g by (auto simp: get_def split: if_splits)
  show ?case
  proof (cases "byte AND 0x80 = 0")
    case True
    then show ?thesis using run g s l by (auto simp: Let_def split: if_splits)
  next
    case False
    then have "\<not> shift + 7 > 63" "posting_varuint_loop bs start (cursor + 1) (val OR b) (shift + 7) = Ok (v, c)"
      using run g s by (auto simp: Let_def split: if_splits)
    from "1.IH" [of byte "cursor + 1" b "val OR b" "shift + 7"] this g s False show ?thesis by simp
  qed
qed

lemma posting_varuint_advances: "posting_varuint bs cursor = Ok (v, c) \<Longrightarrow> cursor < c \<and> c \<le> length bs"
  unfolding posting_varuint_def by (rule posting_varuint_loop_advances)

function decode_delta_loop :: "bytes \<Rightarrow> u64 \<Rightarrow> usize \<Rightarrow> u64 list \<Rightarrow> u64 \<Rightarrow> u64 list result" where
  "decode_delta_loop bs max_values cursor values previous =
     (if cursor < length bs then
        rbind (usize_to_u64 (length values)) (\<lambda>n.
        if n \<ge> max_values then Err ResourceLimitExceeded
        else
          rbind (posting_varuint bs cursor) (\<lambda>(delta, cursor).
          rbind (if values = [] then Ok delta else ok_or (checked_add previous delta) ContainerCorrupt) (\<lambda>v.
          if values \<noteq> [] \<and> v \<le> previous then Err ContainerCorrupt
          else decode_delta_loop bs max_values cursor (values @ [v]) v)))
      else Ok values)"
  by pat_completeness auto
termination
  by (relation "measure (\<lambda>(bs, max_values, cursor, values, previous). length bs - cursor)")
     (auto dest!: posting_varuint_advances)

declare decode_delta_loop.simps [simp del]

definition decode_delta_varint_u64_with_limit :: "bytes \<Rightarrow> u64 \<Rightarrow> u64 list result" where
  "decode_delta_varint_u64_with_limit bs max_values = decode_delta_loop bs max_values 0 [] 0"

definition decode_delta_varint_u64 :: "bytes \<Rightarrow> u64 list result" where
  "decode_delta_varint_u64 bs = decode_delta_varint_u64_with_limit bs (u64_end - 1)"

section \<open>Skip points\<close>

record SkipPoint =
  sp_entry_index :: u64
  sp_granule_id :: u64
  sp_posting_byte_offset :: u64

definition skip_step ::
  "bytes \<Rightarrow> SkipPoint list \<times> usize \<times> u64 \<Rightarrow> usize \<times> u64 \<Rightarrow> (SkipPoint list \<times> usize \<times> u64) result"
where
  "skip_step encoded st entry =
     (case st of (points, cursor, previous) \<Rightarrow> case entry of (index, granule_id) \<Rightarrow>
       rbind (usize_to_u64 cursor) (\<lambda>byte_offset.
       rbind (if index > 0 \<and> index mod 128 = 0
              then rbind (usize_to_u64 index) (\<lambda>i. Ok (points @ [\<lparr>sp_entry_index = i, sp_granule_id = granule_id,
                     sp_posting_byte_offset = byte_offset\<rparr>]))
              else Ok points) (\<lambda>points.
       rbind (posting_varuint encoded cursor) (\<lambda>(delta, cursor).
       rbind (if index = 0 then Ok delta else ok_or (checked_add previous delta) ContainerCorrupt) (\<lambda>decoded.
       if decoded \<noteq> granule_id then Err ContainerCorrupt else Ok (points, cursor, decoded))))))"

definition build_skip_points :: "u64 list \<Rightarrow> bytes \<Rightarrow> SkipPoint list result" where
  "build_skip_points posting_list encoded =
     (if length posting_list < 1024 then Ok []
      else
        rbind (rfold (skip_step encoded) ([], 0, 0) (enumerate 0 posting_list)) (\<lambda>(points, cursor, _).
        if cursor \<noteq> length encoded then Err ContainerCorrupt else Ok points))"

section \<open>Intersection\<close>

definition charge_posting_work :: "u64 \<Rightarrow> u64 \<Rightarrow> u64 result" where
  "charge_posting_work work max_work =
     rbind (ok_or (checked_add work 1) ResourceLimitExceeded) (\<lambda>work.
     if work > max_work then Err ResourceLimitExceeded else Ok work)"

function intersect_loop ::
  "u64 list \<Rightarrow> u64 list \<Rightarrow> u64 \<Rightarrow> u64 list \<Rightarrow> usize \<Rightarrow> usize \<Rightarrow> u64 \<Rightarrow> (u64 list \<times> u64) result"
where
  "intersect_loop left right max_work output left_index right_index work =
     (if left_index < length left \<and> right_index < length right then
        rbind (charge_posting_work work max_work) (\<lambda>work.
        if left ! left_index < right ! right_index then
          intersect_loop left right max_work output (left_index + 1) right_index work
        else if left ! left_index > right ! right_index then
          intersect_loop left right max_work output left_index (right_index + 1) work
        else
          rbind (charge_posting_work work max_work) (\<lambda>work.
          intersect_loop left right max_work (output @ [left ! left_index]) (left_index + 1) (right_index + 1) work))
      else Ok (output, work))"
  by pat_completeness auto
termination
  by (relation "measure (\<lambda>(left, right, max_work, output, left_index, right_index, work).
      (length left - left_index) + (length right - right_index))") auto

declare intersect_loop.simps [simp del]

definition intersect_two_sorted :: "u64 list \<Rightarrow> u64 list \<Rightarrow> u64 \<Rightarrow> u64 \<Rightarrow> (u64 list \<times> u64) result" where
  "intersect_two_sorted left right work max_work = intersect_loop left right max_work [] 0 0 work"

fun intersect_rest :: "u64 list \<Rightarrow> u64 \<Rightarrow> u64 \<Rightarrow> u64 list list \<Rightarrow> u64 list result" where
  "intersect_rest current work max_work [] = Ok current"
| "intersect_rest current work max_work (posting_list # rest) =
     rbind (intersect_two_sorted current posting_list work max_work) (\<lambda>(current, work).
     if current = [] then Ok current else intersect_rest current work max_work rest)"

definition intersect_postings :: "u64 list list \<Rightarrow> u64 \<Rightarrow> u64 list result" where
  "intersect_postings posting_lists max_work =
     (case posting_lists of
        [] \<Rightarrow> Ok []
      | first # rest \<Rightarrow>
          rbind (usize_to_u64 (length first)) (\<lambda>work.
          if work > max_work then Err ResourceLimitExceeded
          else intersect_rest first work max_work rest))"

section \<open>The reader of variable-length integers\<close>

lemma posting_varuint_loop_agrees:
  assumes "read_varuint_loop bs cursor val shift len = Ok (v, c)"
  shows "posting_varuint_loop bs start cursor val shift =
     (if write_varuint v \<noteq> slice bs start c then Err ContainerCorrupt else Ok (v, c))"
  using assms
proof (induction bs cursor val shift len rule: read_varuint_loop.induct)
  case (1 bs cursor val shift len)
  note run = "1.prems" [unfolded read_varuint_loop.simps [of bs cursor val shift len]]
  obtain byte where g: "get bs cursor = Some byte" and sh: "shift < 64" "\<not> (shift = 63 \<and> byte AND 0x7f > 1)"
    using run by (auto simp: rbind_Ok_iff result_simps Let_def split: if_splits)
  let ?val = "val OR (push_bit shift (unat (byte AND 0x7f)) mod u64_end)"
  have cs: "checked_shl (unat (byte AND 0x7f)) shift = Some (push_bit shift (unat (byte AND 0x7f)) mod u64_end)"
    using sh by (simp add: checked_shl_def)
  show ?case
  proof (cases "byte AND 0x80 = 0")
    case True
    then have "v = ?val" "c = cursor + 1" using run g sh by (auto simp: Let_def split: if_splits)
    then show ?thesis using g cs True by (simp add: posting_varuint_loop.simps [of bs start cursor] Let_def)
  next
    case False
    then have more: "\<not> shift + 7 > 63" "read_varuint_loop bs (cursor + 1) ?val (shift + 7) (len + 1) = Ok (v, c)"
      using run g sh by (auto simp: Let_def split: if_splits)
    have "posting_varuint_loop bs start (cursor + 1) ?val (shift + 7) =
        (if write_varuint v \<noteq> slice bs start c then Err ContainerCorrupt else Ok (v, c))"
      using "1.IH" [of byte "cursor + 1" "len + 1" ?val "shift + 7"] g sh False more by auto
    then show ?thesis using g cs False more(1) by (simp add: posting_varuint_loop.simps [of bs start cursor] Let_def)
  qed
qed

lemma nat_or_less: "a < 2 ^ n \<Longrightarrow> b < 2 ^ n \<Longrightarrow> (a OR b :: nat) < 2 ^ n"
  by (simp add: take_bit_nat_eq_self_iff [symmetric] take_bit_or)

lemma posting_varuint_loop_sound:
  assumes "posting_varuint_loop bs start cursor val shift = Ok (v, c)" and "val < u64_end" and "start \<le> cursor"
  shows "v < u64_end \<and> write_varuint v = slice bs start c"
  using assms
proof (induction bs start cursor val shift rule: posting_varuint_loop.induct)
  case (1 bs start cursor val shift)
  note run = "1.prems"(1) [unfolded posting_varuint_loop.simps [of bs start cursor val shift]]
  obtain byte b where g: "get bs cursor = Some byte" and s: "checked_shl (unat (byte AND 0x7f)) shift = Some b"
    using run by (auto simp: rbind_Ok_iff result_simps Let_def)
  have b: "b < u64_end" using s by (auto simp: checked_shl_def u64_end_def split: if_splits)
  then have ob: "val OR b < u64_end" using "1.prems"(2) unfolding u64_end_def by (intro nat_or_less)
  show ?case
  proof (cases "byte AND 0x80 = 0")
    case True
    then show ?thesis using run g s ob by (auto simp: Let_def split: if_splits)
  next
    case False
    then have "\<not> shift + 7 > 63" "posting_varuint_loop bs start (cursor + 1) (val OR b) (shift + 7) = Ok (v, c)"
      using run g s by (auto simp: Let_def split: if_splits)
    from "1.IH" [of byte "cursor + 1" b "val OR b" "shift + 7"] this g s False ob "1.prems"(3) show ?thesis by simp
  qed
qed

lemma slice_bytes_at:
  assumes "c \<le> c'" and "c' \<le> length bs"
  shows "slice bs c c' = ws \<longleftrightarrow> bytes_at bs c ws \<and> c' = c + length ws"
proof
  assume ws: "slice bs c c' = ws"
  have "bs = take c bs @ slice bs c c' @ drop c' bs" "length (slice bs c c') = c' - c"
    using assms by (simp_all add: slice_def) (metis append_take_drop_id drop_drop le_add_diff_inverse2)
  with ws assms show "bytes_at bs c ws \<and> c' = c + length ws"
    unfolding bytes_at_def by (metis le_add_diff_inverse length_take min_absorb2 order_trans)
qed (auto simp: bytes_at_def slice_def)

text \<open>The two readers accept the same encodings.\<close>

lemma posting_varuint_iff: "posting_varuint bs c = Ok (v, c') \<longleftrightarrow> v < u64_end \<and> varuint_at bs c v c'"
proof
  assume r: "posting_varuint bs c = Ok (v, c')"
  note a = posting_varuint_advances [OF r]
  from posting_varuint_loop_sound [OF r [unfolded posting_varuint_def]] a show "v < u64_end \<and> varuint_at bs c v c'"
    using slice_bytes_at [of c c' bs "write_varuint v"] by (simp add: varuint_at_def u64_end_def)
next
  assume v: "v < u64_end \<and> varuint_at bs c v c'"
  then have "read_varuint_loop bs c 0 0 0 = Ok (v, c')" using read_varuint_iff by (simp add: read_varuint_def)
  from posting_varuint_loop_agrees [OF this, of c] v show "posting_varuint bs c = Ok (v, c')"
    using slice_bytes_at [of c c' bs "write_varuint v"] bytes_at_length [of bs c "write_varuint v"]
    by (auto simp: varuint_at_def posting_varuint_def)
qed

section \<open>Posting lists round trip\<close>

definition posting_ok :: "u64 list \<Rightarrow> bool" where
  "posting_ok vs \<longleftrightarrow> sorted_wrt (<) vs \<and> (\<forall>v \<in> set vs. v < u64_end)"

lemma posting_delta_Ok_iff:
  "posting_delta index previous v = Ok d \<longleftrightarrow> (index = 0 \<and> d = v \<or> index \<noteq> 0 \<and> previous < v \<and> d = v - previous)"
  by (auto simp: posting_delta_def result_simps width_simps)

lemma encode_loop_Ok_iff:
  assumes "k = 0 \<longrightarrow> p = 0"
  shows "rfold (\<lambda>(bs, previous) (index, v). rbind (posting_delta index previous v) (\<lambda>delta. Ok (bs @ write_varuint delta, v)))
       (acc, p) (enumerate k vs) = Ok st \<longleftrightarrow>
     (k \<noteq> 0 \<longrightarrow> (\<forall>v \<in> set vs. p < v)) \<and> sorted_wrt (<) vs \<and> st = (acc @ write_deltas p vs, last (p # vs))"
  using assms
proof (induction vs arbitrary: k p acc)
  case (Cons v vs)
  show ?case
    using Cons.prems Cons.IH [of "Suc k" v]
    by (cases "k = 0") (auto simp: rbind_Ok_iff posting_delta_Ok_iff)
qed auto

lemma encode_delta_Ok_iff: "encode_delta_varint_u64 vs = Ok bs \<longleftrightarrow> sorted_wrt (<) vs \<and> bs = write_deltas 0 vs"
  using encode_loop_Ok_iff [of 0 0 "[]" vs] by (auto simp: encode_delta_varint_u64_def rbind_Ok_iff)

lemma size_loop_Ok_iff:
  assumes "k = 0 \<longrightarrow> p = 0"
  shows "rfold (\<lambda>(sz, previous) (index, v). rbind (posting_delta index previous v) (\<lambda>delta.
         rbind (usize_to_u64 (varuint_len delta)) (\<lambda>n.
         rbind (ok_or (checked_add sz n) ResourceLimitExceeded) (\<lambda>sz. Ok (sz, v))))) (n, p) (enumerate k vs) = Ok st \<longleftrightarrow>
     (k \<noteq> 0 \<longrightarrow> (\<forall>v \<in> set vs. p < v)) \<and> sorted_wrt (<) vs \<and> (vs \<noteq> [] \<longrightarrow> n + length (write_deltas p vs) < u64_end) \<and>
     st = (n + length (write_deltas p vs), last (p # vs))"
  using assms
proof (induction vs arbitrary: k p n)
  case (Cons v vs)
  show ?case
    using Cons.prems Cons.IH [of "Suc k" v]
    by (cases "k = 0"; cases "vs = []")
       (auto simp: rbind_Ok_iff posting_delta_Ok_iff width_simps result_simps varuint_len_eq add.assoc)
qed auto

lemma encoded_size_Ok_iff':
  "encoded_delta_varint_size vs = Ok n \<longleftrightarrow> sorted_wrt (<) vs \<and> n = length (write_deltas 0 vs) \<and> n < u64_end"
  using size_loop_Ok_iff [of 0 0 0 vs] by (cases "vs = []") (auto simp: encoded_delta_varint_size_def rbind_Ok_iff u64_end_def)

lemma write_deltas_Nil_iff: "[] = write_deltas p vs \<longleftrightarrow> vs = []"
  using length_write_deltas [of vs p] by (cases vs) auto

lemma posting_varuint_drop:
  "posting_varuint bs c = Ok (d, c') \<longleftrightarrow>
     d < u64_end \<and> c' \<le> length bs \<and> drop c bs = write_varuint d @ drop c' bs \<and> c' = c + length (write_varuint d)"
proof -
  have "bytes_at bs c (write_varuint d) \<longleftrightarrow> c + length (write_varuint d) \<le> length bs \<and>
      drop c bs = write_varuint d @ drop (c + length (write_varuint d)) bs"
  proof
    assume "bytes_at bs c (write_varuint d)"
    then show "c + length (write_varuint d) \<le> length bs \<and> drop c bs = write_varuint d @ drop (c + length (write_varuint d)) bs"
      by (auto simp: bytes_at_def)
  next
    assume "c + length (write_varuint d) \<le> length bs \<and> drop c bs = write_varuint d @ drop (c + length (write_varuint d)) bs"
    then show "bytes_at bs c (write_varuint d)"
      unfolding bytes_at_def by (intro exI [of _ "take c bs"] exI [of _ "drop (c + length (write_varuint d)) bs"])
        (simp, metis append_take_drop_id)
  qed
  then show ?thesis by (auto simp: posting_varuint_iff varuint_at_def)
qed

lemma decode_delta_step:
  assumes "c < length bs" and "m < u64_end" and "acc = [] \<Longrightarrow> p = 0" and "length acc \<le> m"
  shows "decode_delta_loop bs m c acc p = Ok vs \<longleftrightarrow> length acc < m \<and> (\<exists>d c'. posting_varuint bs c = Ok (d, c') \<and> p + d < u64_end \<and>
        (acc \<noteq> [] \<longrightarrow> d \<noteq> 0) \<and> decode_delta_loop bs m c' (acc @ [p + d]) (p + d) = Ok vs)"
proof -
  have b: "posting_varuint bs c = Ok (d, c') \<Longrightarrow> d < u64_end" for d c' by (simp add: posting_varuint_iff)
  show ?thesis
  proof (cases "acc = []")
    case True
    then show ?thesis
      using assms b by (subst decode_delta_loop.simps) (auto simp: rbind_Ok_iff width_simps not_le u64_end_def split: if_splits)
  next
    case False
    then show ?thesis
      using assms by (subst decode_delta_loop.simps) (fastforce simp: rbind_Ok_iff width_simps result_simps not_le)
  qed
qed

text \<open>The values that a list of differences from \<open>p\<close> on stands for.\<close>

definition deltas_from :: "bytes \<Rightarrow> bool \<Rightarrow> u64 \<Rightarrow> u64 list \<Rightarrow> bool" where
  "deltas_from rest first p new \<longleftrightarrow> rest = write_deltas p new \<and> posting_ok new \<and> (\<not> first \<longrightarrow> (\<forall>v \<in> set new. p < v))"

lemma deltas_from_Nil: "deltas_from [] first p new \<longleftrightarrow> new = []"
  by (auto simp: deltas_from_def posting_ok_def write_deltas_Nil_iff)

lemma deltas_from_step:
  assumes "c < length bs" and "first \<Longrightarrow> p = 0"
  shows "deltas_from (drop c bs) first p new \<longleftrightarrow>
     (\<exists>d c' new'. posting_varuint bs c = Ok (d, c') \<and> p + d < u64_end \<and> (\<not> first \<longrightarrow> d \<noteq> 0) \<and> new = (p + d) # new' \<and>
        deltas_from (drop c' bs) False (p + d) new')"
proof
  assume l: "deltas_from (drop c bs) first p new"
  then obtain v new' where new: "new = v # new'" using assms(1) by (cases new) (auto simp: deltas_from_def)
  have pv: "p \<le> v" using l new assms(2) by (cases first) (auto simp: deltas_from_def)
  let ?d = "v - p"
  have "drop c bs = write_varuint ?d @ write_deltas v new'" using l new by (simp add: deltas_from_def)
  moreover from this have "write_deltas v new' = drop (c + length (write_varuint ?d)) bs"
    by (metis append_eq_conv_conj drop_drop add.commute)
  moreover have "c + length (write_varuint ?d) \<le> length bs" using calculation(1) assms(1) by (metis length_append length_drop le_add1 le_diff_conv2 less_imp_le add.commute)
  ultimately have "posting_varuint bs c = Ok (?d, c + length (write_varuint ?d))"
    using l new by (auto simp: posting_varuint_drop deltas_from_def posting_ok_def)
  then show "\<exists>d c' new'. posting_varuint bs c = Ok (d, c') \<and> p + d < u64_end \<and> (\<not> first \<longrightarrow> d \<noteq> 0) \<and> new = (p + d) # new' \<and>
        deltas_from (drop c' bs) False (p + d) new'"
    using l new pv \<open>write_deltas v new' = drop (c + length (write_varuint ?d)) bs\<close>
    by (intro exI [of _ ?d] exI [of _ "c + length (write_varuint ?d)"] exI [of _ new']) (auto simp: deltas_from_def posting_ok_def)
next
  assume "\<exists>d c' new'. posting_varuint bs c = Ok (d, c') \<and> p + d < u64_end \<and> (\<not> first \<longrightarrow> d \<noteq> 0) \<and> new = (p + d) # new' \<and>
        deltas_from (drop c' bs) False (p + d) new'"
  then show "deltas_from (drop c bs) first p new"
    by (fastforce simp: deltas_from_def posting_ok_def posting_varuint_drop)
qed

lemma decode_delta_loop_iff:
  assumes "c \<le> length bs" and "m < u64_end" and "length acc \<le> m" and "acc = [] \<Longrightarrow> p = 0"
  shows "decode_delta_loop bs m c acc p = Ok vs \<longleftrightarrow> (\<exists>new. vs = acc @ new \<and> deltas_from (drop c bs) (acc = []) p new \<and> length vs \<le> m)"
  using assms
proof (induction "length bs - c" arbitrary: c acc p rule: less_induct)
  case less
  show ?case
  proof (cases "c < length bs")
    case False
    then show ?thesis using less.prems by (subst decode_delta_loop.simps) (auto simp: deltas_from_Nil)
  next
    case True
    have IH: "decode_delta_loop bs m c' (acc @ [p + d]) (p + d) = Ok vs \<longleftrightarrow>
        (\<exists>new. vs = acc @ (p + d) # new \<and> deltas_from (drop c' bs) False (p + d) new \<and> length vs \<le> m)"
      if "posting_varuint bs c = Ok (d, c')" "length acc < m" for d c'
      using less.hyps [of c' "acc @ [p + d]" "p + d"] posting_varuint_advances [OF that(1)] that(2) less.prems True by auto
    show ?thesis
      using decode_delta_step [OF True less.prems(2,4,3), of vs] deltas_from_step [OF True less.prems(4)] IH
      by (auto; fastforce)
  qed
qed

lemma decode_delta_iff:
  assumes "m < u64_end"
  shows "decode_delta_varint_u64_with_limit bs m = Ok vs \<longleftrightarrow> posting_ok vs \<and> bs = write_deltas 0 vs \<and> length vs \<le> m"
  using decode_delta_loop_iff [of 0 bs m "[]" 0 vs] assms
  by (auto simp: decode_delta_varint_u64_with_limit_def deltas_from_def)

section \<open>Skip points are exact\<close>

lemma write_deltas_append: "write_deltas p (us @ vs) = write_deltas p us @ write_deltas (last (p # us)) vs"
  by (induction us arbitrary: p) auto

text \<open>The skip point at entry \<open>i\<close> of a list, if there is one.\<close>

definition skip_at :: "u64 list \<Rightarrow> nat \<Rightarrow> SkipPoint list" where
  "skip_at vs i = (if i > 0 \<and> i mod 128 = 0
     then [\<lparr>sp_entry_index = i, sp_granule_id = vs ! i, sp_posting_byte_offset = length (write_deltas 0 (take i vs))\<rparr>] else [])"

lemma skip_loop:
  assumes "posting_ok (us @ vs)" and "bs = write_deltas 0 (us @ vs)" and "length bs < u64_end"
    and "points = concat (map (skip_at (us @ vs)) [0 ..< length us])"
  shows "rfold (skip_step bs) (points, length (write_deltas 0 us), last (0 # us)) (enumerate (length us) vs) =
     Ok (concat (map (skip_at (us @ vs)) [0 ..< length (us @ vs)]), length bs, last (0 # us @ vs))"
  using assms
proof (induction vs arbitrary: us points)
  case (Cons v vs)
  let ?c = "length (write_deltas 0 us)" and ?p = "last (0 # us)" and ?bs = "write_deltas 0 (us @ v # vs)"
  have pv: "us = [] \<or> ?p < v" "v < u64_end"
    using Cons.prems(1) by (cases us rule: rev_cases; auto simp: posting_ok_def sorted_wrt_append)+
  have bs: "bs = write_deltas 0 us @ write_varuint (v - ?p) @ write_deltas v vs"
    using Cons.prems(2) by (simp add: write_deltas_append)
  have len: "length us \<le> ?c" by (rule length_write_deltas)
  have w: "?c < u64_end" "length us < u64_end" using Cons.prems(3) bs len by simp_all
  have rd: "posting_varuint bs ?c = Ok (v - ?p, ?c + length (write_varuint (v - ?p)))"
    using pv(2) by (auto simp: posting_varuint_drop bs)
  have c': "?c + length (write_varuint (v - ?p)) = length (write_deltas 0 (us @ [v]))" by (simp add: write_deltas_append)
  let ?points = "points @ skip_at (us @ v # vs) (length us)"
  have "skip_step bs (points, ?c, ?p) (length us, v) = Ok (?points, length (write_deltas 0 (us @ [v])), v)"
    using w pv rd c' by (auto simp: skip_step_def usize_to_u64_def checked_add_def skip_at_def)
  moreover have "rfold (skip_step bs) (?points, length (write_deltas 0 (us @ [v])), last (0 # us @ [v])) (enumerate (length (us @ [v])) vs) =
      Ok (concat (map (skip_at ((us @ [v]) @ vs)) [0 ..< length ((us @ [v]) @ vs)]), length bs, last (0 # (us @ [v]) @ vs))"
    by (rule Cons.IH) (use Cons.prems in auto)
  ultimately show ?case by simp
qed (auto simp: write_deltas_append)

lemma build_skip_points_exact:
  assumes "posting_ok vs" and "length (write_deltas 0 vs) < u64_end"
  shows "build_skip_points vs (write_deltas 0 vs) =
     Ok (if length vs < 1024 then [] else concat (map (skip_at vs) [0 ..< length vs]))"
  using skip_loop [of "[]" vs "write_deltas 0 vs" "[]"] assms by (simp add: build_skip_points_def)

section \<open>Intersections are exact\<close>

lemma intersect_loop_Ok:
  assumes "intersect_loop left right m out i j w = Ok (res, w')" and "sorted_wrt (<) left" and "sorted_wrt (<) right"
  shows "res = out @ filter (\<lambda>x. x \<in> set (drop j right)) (drop i left)"
  using assms
proof (induction left right m out i j w rule: intersect_loop.induct)
  case (1 left right m out i j w)
  note run = "1.prems"(1) [unfolded intersect_loop.simps [of left right m out i j w]]
  show ?case
  proof (cases "i < length left \<and> j < length right")
    case False
    then have "res = out" "drop i left = [] \<or> drop j right = []" using run by auto
    then show ?thesis by auto
  next
    case True
    then have l: "drop i left = left ! i # drop (Suc i) left" "drop j right = right ! j # drop (Suc j) right"
      by (simp_all add: Cons_nth_drop_Suc)
    have sl: "\<forall>x \<in> set (drop (Suc i) left). left ! i < x" "\<forall>x \<in> set (drop (Suc j) right). right ! j < x"
      using "1.prems"(2,3) sorted_wrt_drop [of "(<)" left i] sorted_wrt_drop [of "(<)" right j] l by simp_all
    obtain w1 where w1: "charge_posting_work w m = Ok w1" using run True by (auto simp: rbind_Ok_iff)
    consider (lt) "left ! i < right ! j" | (gt) "right ! j < left ! i" | (eq) "left ! i = right ! j" by fastforce
    then show ?thesis
    proof cases
      case lt
      then have "res = out @ filter (\<lambda>x. x \<in> set (drop j right)) (drop (i + 1) left)"
        using "1.IH"(1) [OF True w1] run True w1 "1.prems"(2,3) by simp
      moreover have "left ! i \<notin> set (drop j right)" using lt sl(2) l(2) by auto
      ultimately show ?thesis using l(1) by simp
    next
      case gt
      then have "res = out @ filter (\<lambda>x. x \<in> set (drop (j + 1) right)) (drop i left)"
        using "1.IH"(2) [OF True w1] run True w1 "1.prems"(2,3) by simp
      moreover have "right ! j \<notin> set (drop i left)" using gt sl(1) l(1) by auto
      ultimately show ?thesis using l(2) by (auto intro: filter_cong)
    next
      case eq
      then obtain w2 where w2: "charge_posting_work w1 m = Ok w2" using run True w1 by (auto simp: rbind_Ok_iff)
      have "res = (out @ [left ! i]) @ filter (\<lambda>x. x \<in> set (drop (j + 1) right)) (drop (i + 1) left)"
        using "1.IH"(3) [OF True w1 _ _ w2] eq run True w1 w2 "1.prems"(2,3) by simp
      moreover have "right ! j \<notin> set (drop (Suc i) left)" using eq sl(1) by auto
      ultimately show ?thesis using l eq by (auto intro: filter_cong)
    qed
  qed
qed

lemma intersect_rest_Ok:
  assumes "intersect_rest current w m rest = Ok res" and "sorted_wrt (<) current" and "\<forall>l \<in> set rest. sorted_wrt (<) l"
  shows "res = filter (\<lambda>x. \<forall>l \<in> set rest. x \<in> set l) current"
  using assms
proof (induction rest arbitrary: current w)
  case (Cons l rest)
  obtain c w1 where c: "intersect_two_sorted current l w m = Ok (c, w1)"
    and more: "if c = [] then res = [] else intersect_rest c w1 m rest = Ok res"
    using Cons.prems(1) by (auto simp: rbind_Ok_iff split: if_splits)
  have cf: "c = filter (\<lambda>x. x \<in> set l) current"
    using intersect_loop_Ok [OF c [unfolded intersect_two_sorted_def]] Cons.prems(2,3) by simp
  have "res = filter (\<lambda>x. \<forall>l \<in> set rest. x \<in> set l) c"
  proof (cases "c = []")
    case False
    then show ?thesis using more Cons.IH [of c w1] Cons.prems(2,3) cf by (simp add: sorted_wrt_filter)
  qed (use more in simp)
  then show ?case using cf by (simp add: conj_commute)
qed simp

lemma intersect_postings_Ok:
  assumes "intersect_postings (first # rest) m = Ok res" and "\<forall>l \<in> set (first # rest). sorted_wrt (<) l"
  shows "res = filter (\<lambda>x. \<forall>l \<in> set rest. x \<in> set l) first"
  using assms by (auto simp: intersect_postings_def rbind_Ok_iff dest!: intersect_rest_Ok split: if_splits)

end
