(* ===== verification/Search_Index.thy ===== *)
theory Search_Index
  imports Postings
begin

text \<open>
  The transient search indexes (src/src/search.rs): tokens and n-grams of a line, the builder
  that decodes a container chunk by chunk and keeps one unfinished line, its admission limits,
  the validation of granules and dictionaries, and the encoding of the posting lists. A
  \<open>BTreeMap\<close> is an association list ordered by its keys, a \<open>BTreeSet\<close> an ordered list; texts are
  their UTF-8 bytes. Failing allocations are not modelled.
\<close>

section \<open>Types\<close>

datatype SearchIndexSource = RawUtf8 | NormalizedUtf8

datatype PostingGranularity = Line

datatype NgramUnit = UnicodeScalar

record IndexBuildLimits =
  max_granules :: u64
  max_distinct_keys :: u64
  max_posting_ids :: u64
  max_key_bytes :: u64
  max_encoded_bytes :: u64

definition IndexBuildLimits_default :: IndexBuildLimits where
  "IndexBuildLimits_default = \<lparr>max_granules = 1000000, max_distinct_keys = 262144, max_posting_ids = 8000000,
     max_key_bytes = 16 * 1024 * 1024, max_encoded_bytes = 128 * 1024 * 1024\<rparr>"

record TokenIndexBuildOptions =
  to_source :: SearchIndexSource
  to_posting_granularity :: PostingGranularity
  to_max_line_bytes :: u64
  to_limits :: IndexBuildLimits

definition TokenIndexBuildOptions_default :: TokenIndexBuildOptions where
  "TokenIndexBuildOptions_default = \<lparr>to_source = RawUtf8, to_posting_granularity = Line,
     to_max_line_bytes = 16 * 1024 * 1024, to_limits = IndexBuildLimits_default\<rparr>"

record NgramIndexBuildOptions =
  no_source :: SearchIndexSource
  no_posting_granularity :: PostingGranularity
  no_max_line_bytes :: u64
  no_limits :: IndexBuildLimits
  no_n :: usize
  no_complete :: bool
  no_high_df_per_million :: u32

definition NgramIndexBuildOptions_default :: NgramIndexBuildOptions where
  "NgramIndexBuildOptions_default = \<lparr>no_source = RawUtf8, no_posting_granularity = Line,
     no_max_line_bytes = 16 * 1024 * 1024, no_limits = IndexBuildLimits_default, no_n = 3, no_complete = True,
     no_high_df_per_million = 200000\<rparr>"

record NgramDeclaration =
  nd_n :: usize
  nd_unit :: NgramUnit
  nd_normalization :: string
  nd_case_fold :: bool
  nd_boundary_mode :: string
  nd_boundary_window_bytes :: u64

record PlannerConfig =
  max_candidate_granules_default :: u64
  max_decoded_bytes_default :: u64
  pc_high_df_per_million :: u32

definition PlannerConfig_default :: PlannerConfig where
  "PlannerConfig_default = \<lparr>max_candidate_granules_default = 10000, max_decoded_bytes_default = 256 * 1024 * 1024,
     pc_high_df_per_million = 200000\<rparr>"

record SearchGranule =
  sg_granule_id :: u64
  sg_logical_offset :: u64
  sg_byte_length :: u64
  sg_chunk_start :: u64
  sg_chunk_end :: u64
  sg_first_line :: "u64 option"
  sg_line_count :: "u64 option"

record TermDictionaryEntry =
  te_key :: bytes
  te_key_hash :: bytes
  te_document_frequency :: u64
  te_granule_frequency :: u64
  te_posting_offset :: u64
  te_posting_size :: u64
  te_skip_offset :: u64
  te_skip_size :: u64
  te_flags :: u64

section \<open>Limits\<close>

text \<open>\<open>charge_build\<close> returns the increased counter.\<close>

definition charge_build :: "u64 \<Rightarrow> u64 \<Rightarrow> u64 \<Rightarrow> u64 result" where
  "charge_build v amount limit =
     rbind (ok_or (checked_add v amount) ResourceLimitExceeded) (\<lambda>n.
     if n > limit then Err ResourceLimitExceeded else Ok n)"

definition check_parts ::
  "IndexBuildLimits \<Rightarrow> SearchGranule list \<Rightarrow> TermDictionaryEntry list \<Rightarrow> u64 list list \<Rightarrow> unit result"
where
  "check_parts self granules terms postings =
     rbind (usize_to_u64 (length granules)) (\<lambda>n.
     rbind (charge_build 0 n (max_granules self)) (\<lambda>_.
     rbind (usize_to_u64 (length terms)) (\<lambda>n.
     rbind (charge_build 0 n (max_distinct_keys self)) (\<lambda>_.
     rbind (rfold (\<lambda>key_bytes term.
         rbind (usize_to_u64 (length (te_key term))) (\<lambda>n. charge_build key_bytes n (max_key_bytes self))) 0 terms) (\<lambda>_.
     rbind (rfold (\<lambda>count0 posting_list.
         rbind (usize_to_u64 (length posting_list)) (\<lambda>n. charge_build count0 n (max_posting_ids self))) 0 postings) (\<lambda>_.
     Ok ()))))))"

section \<open>Tokens\<close>

definition is_token_byte :: "u8 \<Rightarrow> bool" where
  "is_token_byte byte \<longleftrightarrow> (0x30 \<le> byte \<and> byte \<le> 0x39) \<or> (0x41 \<le> byte \<and> byte \<le> 0x5a) \<or> (0x61 \<le> byte \<and> byte \<le> 0x7a) \<or>
     byte = 0x5f \<or> byte = 0x2d"

definition is_ascii_uppercase :: "u8 \<Rightarrow> bool" where
  "is_ascii_uppercase byte \<longleftrightarrow> 0x41 \<le> byte \<and> byte \<le> 0x5a"

definition to_ascii_lowercase :: "u8 \<Rightarrow> u8" where
  "to_ascii_lowercase byte = (if is_ascii_uppercase byte then byte + 0x20 else byte)"

text \<open>\<open>while cursor < bytes.len() && p(bytes[cursor]) { cursor += 1; }\<close>\<close>

function skip_bytes :: "(u8 \<Rightarrow> bool) \<Rightarrow> bytes \<Rightarrow> usize \<Rightarrow> usize" where
  "skip_bytes p bs cursor = (if cursor < length bs \<and> p (bs ! cursor) then skip_bytes p bs (cursor + 1) else cursor)"
  by pat_completeness auto
termination
  by (relation "measure (\<lambda>(p, bs, cursor). length bs - cursor)") auto

declare skip_bytes.simps [simp del]

lemma skip_bytes_le: "cursor \<le> skip_bytes p bs cursor"
proof (induction p bs cursor rule: skip_bytes.induct)
  case (1 p bs cursor)
  show ?case using 1 by (subst skip_bytes.simps) auto
qed

lemma skip_bytes_progress: "cursor < length bs \<Longrightarrow> cursor < skip_bytes q bs (skip_bytes p bs cursor) \<or> \<not> p (bs ! cursor) \<and> \<not> q (bs ! cursor)"
proof -
  assume c: "cursor < length bs"
  show ?thesis
  proof (cases "p (bs ! cursor)")
    case True
    then have "skip_bytes p bs cursor = skip_bytes p bs (cursor + 1)" using c by (subst skip_bytes.simps) simp
    then show ?thesis using skip_bytes_le [of "cursor + 1" p bs] skip_bytes_le [of "skip_bytes p bs cursor" q bs] by simp
  next
    case False
    then have s: "skip_bytes p bs cursor = cursor" by (subst skip_bytes.simps) simp
    show ?thesis
    proof (cases "q (bs ! cursor)")
      case True
      then have "skip_bytes q bs cursor = skip_bytes q bs (cursor + 1)" using c by (subst skip_bytes.simps) simp
      then show ?thesis using s skip_bytes_le [of "cursor + 1" q bs] by simp
    qed (use False in simp)
  qed
qed

lemma token_measure:
  assumes "cursor < length bs" and "start = skip_bytes (\<lambda>b. \<not> is_token_byte b) bs cursor" and "e = skip_bytes is_token_byte bs start"
  shows "length bs - e < length bs - cursor"
  using skip_bytes_progress [OF assms(1), of is_token_byte "\<lambda>b. \<not> is_token_byte b"] assms by auto

section \<open>The keys of a line\<close>

datatype BuildKeys = Token | Ngram usize

record BuildMeter =
  bm_limits :: IndexBuildLimits
  bm_mode :: BuildKeys
  bm_keys :: u64
  bm_key_bytes :: u64
  bm_postings :: u64

type_synonym posting_map = "(bytes \<times> u64 list) list"

fun btree_get :: "posting_map \<Rightarrow> bytes \<Rightarrow> u64 list option" where
  "btree_get [] key = None"
| "btree_get ((k, v) # rest) key = (if k = key then Some v else btree_get rest key)"

fun btree_insert :: "posting_map \<Rightarrow> bytes \<Rightarrow> u64 list \<Rightarrow> posting_map" where
  "btree_insert [] key v = [(key, v)]"
| "btree_insert ((k, w) # rest) key v =
     (if key < k then (key, v) # (k, w) # rest
      else if key = k then (key, v) # rest
      else (k, w) # btree_insert rest key v)"

definition add_key ::
  "BuildMeter \<Rightarrow> posting_map \<Rightarrow> bytes \<Rightarrow> bool \<Rightarrow> u64 \<Rightarrow> (posting_map \<times> BuildMeter) result"
where
  "add_key self m key fold_case granule =
     rbind (usize_to_u64 (length key)) (\<lambda>n.
     if n > max_key_bytes (bm_limits self) then Err ResourceLimitExceeded
     else
       let key = (if fold_case \<and> list_ex is_ascii_uppercase key then map to_ascii_lowercase key else key) in
       case btree_get m key of
         Some posting_list \<Rightarrow>
           if posting_list \<noteq> [] \<and> last posting_list = granule then Ok (m, self)
           else
             rbind (charge_build (bm_postings self) 1 (max_posting_ids (bm_limits self))) (\<lambda>p.
             Ok (btree_insert m key (posting_list @ [granule]), self\<lparr>bm_postings := p\<rparr>))
       | None \<Rightarrow>
           rbind (charge_build (bm_keys self) 1 (max_distinct_keys (bm_limits self))) (\<lambda>k.
           rbind (usize_to_u64 (length key)) (\<lambda>n.
           rbind (charge_build (bm_key_bytes self) n (max_key_bytes (bm_limits self))) (\<lambda>b.
           rbind (charge_build (bm_postings self) 1 (max_posting_ids (bm_limits self))) (\<lambda>p.
           Ok (btree_insert m key [granule], self\<lparr>bm_keys := k, bm_key_bytes := b, bm_postings := p\<rparr>))))))"

function add_tokens ::
  "bytes \<Rightarrow> u64 \<Rightarrow> usize \<Rightarrow> posting_map \<times> BuildMeter \<Rightarrow> (posting_map \<times> BuildMeter) result"
where
  "add_tokens line_bytes granule_id cursor st =
     (if cursor < length line_bytes then
        let start = skip_bytes (\<lambda>b. \<not> is_token_byte b) line_bytes cursor;
            cursor = skip_bytes is_token_byte line_bytes start in
        if start < cursor then
          rbind (add_key (snd st) (fst st) (slice line_bytes start cursor) True granule_id) (\<lambda>st.
          add_tokens line_bytes granule_id cursor st)
        else add_tokens line_bytes granule_id cursor st
      else Ok st)"
  by pat_completeness auto
termination
  by (relation "measure (\<lambda>(line_bytes, granule_id, cursor, st). length line_bytes - cursor)")
     (rule wf_measure, unfold in_measure prod.case, (erule (2) token_measure)+)

declare add_tokens.simps [simp del]

text \<open>\<open>text.char_indices().map(|(offset, _)| offset)\<close> of a valid text\<close>

definition char_starts :: "bytes \<Rightarrow> usize list" where
  "char_starts bs = filter (\<lambda>i. \<not> is_cont (bs ! i)) [0 ..< length bs]"

definition add_ngrams ::
  "bytes \<Rightarrow> u64 \<Rightarrow> usize \<Rightarrow> posting_map \<times> BuildMeter \<Rightarrow> (posting_map \<times> BuildMeter) result"
where
  "add_ngrams line_bytes granule_id n st =
     rbind (ok_or (from_utf8 line_bytes) InvalidUtf8) (\<lambda>_.
     rfold (\<lambda>st (start, e). add_key (snd st) (fst st) (slice line_bytes start e) False granule_id)
       st (zip (char_starts line_bytes) (drop n (char_starts line_bytes @ [length line_bytes]))))"

section \<open>Granules\<close>

definition chunk_span_for_range :: "ChunkEntry list \<Rightarrow> u64 \<Rightarrow> u64 \<Rightarrow> (u64 \<times> u64) result" where
  "chunk_span_for_range entries start e =
     rbind (chunk_index_for_logical_offset entries start) (\<lambda>first_index.
     rbind (chunk_index_for_logical_offset entries (e - 1)) (\<lambda>last_index.
     rbind (ok_or (get entries first_index) ChunkTableInvalid) (\<lambda>first.
     rbind (ok_or (get entries last_index) ChunkTableInvalid) (\<lambda>last.
     rbind (ok_or (checked_add (chunk_id last) 1) ChunkTableInvalid) (\<lambda>last_exclusive.
     Ok (chunk_id first, last_exclusive))))))"

definition validate_granule_chunk_span :: "SearchGranule \<Rightarrow> ChunkEntry list \<Rightarrow> u64 \<Rightarrow> unit result" where
  "validate_granule_chunk_span granule entries original_size =
     rbind (usize_to_u64 (length entries)) (\<lambda>chunk_count.
     if sg_chunk_start granule \<ge> sg_chunk_end granule \<or> sg_chunk_end granule > chunk_count then Err ChunkTableInvalid
     else
       rbind (ok_or (checked_add (sg_logical_offset granule) (sg_byte_length granule)) LogicalRangeOutOfBounds) (\<lambda>e.
       if sg_byte_length granule = 0 \<or> e > original_size then Err LogicalRangeOutOfBounds
       else
         rbind (chunk_span_for_range entries (sg_logical_offset granule) e) (\<lambda>span.
         if span \<noteq> (sg_chunk_start granule, sg_chunk_end granule) then Err ChunkTableInvalid else Ok ())))"

text \<open>What the builder holds: the granules, the posting map and its counters.\<close>

record LineIndex =
  li_granules :: "SearchGranule list"
  li_postings :: posting_map
  li_meter :: BuildMeter

definition emit_line_granule :: "ChunkEntry list \<Rightarrow> u64 \<Rightarrow> u64 \<Rightarrow> bytes \<Rightarrow> LineIndex \<Rightarrow> LineIndex result" where
  "emit_line_granule entries line_start line_end line_bytes st =
     rbind (usize_to_u64 (length (li_granules st))) (\<lambda>granule_id.
     if granule_id \<ge> max_granules (bm_limits (li_meter st)) then Err ResourceLimitExceeded
     else
       rbind (ok_or (checked_sub line_end line_start) LogicalRangeOutOfBounds) (\<lambda>byte_length.
       rbind (chunk_span_for_range entries line_start line_end) (\<lambda>(chunk_start, chunk_end).
       let granules = li_granules st @ [\<lparr>sg_granule_id = granule_id, sg_logical_offset = line_start,
             sg_byte_length = byte_length, sg_chunk_start = chunk_start, sg_chunk_end = chunk_end,
             sg_first_line = Some granule_id, sg_line_count = Some 1\<rparr>] in
       rbind (case bm_mode (li_meter st) of
                Token \<Rightarrow> add_tokens line_bytes granule_id 0 (li_postings st, li_meter st)
              | Ngram n \<Rightarrow> add_ngrams line_bytes granule_id n (li_postings st, li_meter st)) (\<lambda>(m, meter).
       Ok \<lparr>li_granules = granules, li_postings = m, li_meter = meter\<rparr>))))"

section \<open>Building over chunks\<close>

text \<open>Between two chunks: the unfinished line and where it starts.\<close>

record LineBuild =
  lb_index :: LineIndex
  lb_carry :: bytes
  lb_line_start :: u64

definition build_line_step ::
  "ChunkEntry list \<Rightarrow> u64 \<Rightarrow> ChunkEntry \<Rightarrow> bytes \<Rightarrow> usize \<times> LineBuild \<Rightarrow> usize \<times> u8 \<Rightarrow> (usize \<times> LineBuild) result"
where
  "build_line_step entries max_line_bytes entry decoded st item =
     (case st of (consumed, b) \<Rightarrow> case item of (index, byte) \<Rightarrow>
       if byte \<noteq> LF then Ok (consumed, b)
       else
         rbind (usize_to_u64 (index + 1)) (\<lambda>i.
         rbind (checked_logical_end (logical_offset entry) i) (\<lambda>line_end.
         let segment = slice decoded consumed (index + 1) in
         rbind (usize_to_u64 (length (lb_carry b))) (\<lambda>c.
         rbind (usize_to_u64 (length segment)) (\<lambda>n.
         rbind (ok_or (checked_add c n) ResourceLimitExceeded) (\<lambda>line_size.
         if line_size > max_line_bytes then Err ResourceLimitExceeded
         else
           let line_bytes = (if lb_carry b = [] then segment else lb_carry b @ segment) in
           rbind (emit_line_granule entries (lb_line_start b) line_end line_bytes (lb_index b)) (\<lambda>li.
           Ok (index + 1, \<lparr>lb_index = li, lb_carry = [], lb_line_start = line_end\<rparr>))))))))"

definition build_chunk_step ::
  "ChunkEntry list \<Rightarrow> u64 \<Rightarrow> decoder \<Rightarrow> LineBuild \<Rightarrow> ChunkEntry \<Rightarrow> LineBuild result"
where
  "build_chunk_step entries max_line_bytes decode b entry =
     rbind (decode entry) (\<lambda>decoded.
     rbind (ok_or (from_utf8 decoded) InvalidUtf8) (\<lambda>_.
     rbind (rfold (build_line_step entries max_line_bytes entry decoded) (0, b) (enumerate 0 decoded)) (\<lambda>(consumed, b).
     if consumed < length decoded then
       rbind (usize_to_u64 (length (lb_carry b))) (\<lambda>c.
       rbind (usize_to_u64 (length decoded - consumed)) (\<lambda>n.
       rbind (ok_or (checked_add c n) ResourceLimitExceeded) (\<lambda>line_size.
       if line_size > max_line_bytes then Err ResourceLimitExceeded
       else Ok (b\<lparr>lb_carry := lb_carry b @ drop consumed decoded\<rparr>))))
     else Ok b)))"

definition key_hash :: "('h, 'x) ext_scheme \<Rightarrow> bytes \<Rightarrow> bytes" where
  "key_hash X key = take 16 (blake3_hash X key)"

definition term_of_key :: "('h, 'x) ext_scheme \<Rightarrow> bytes \<Rightarrow> TermDictionaryEntry" where
  "term_of_key X key = \<lparr>te_key = key, te_key_hash = key_hash X key, te_document_frequency = 0, te_granule_frequency = 0,
     te_posting_offset = 0, te_posting_size = 0, te_skip_offset = 0, te_skip_size = 0, te_flags = 0\<rparr>"

definition build_line_index_streaming ::
  "('h, 'x) ext_scheme \<Rightarrow> ChunkEntry list \<Rightarrow> u64 \<Rightarrow> u64 \<Rightarrow> IndexBuildLimits \<Rightarrow> decoder \<Rightarrow> BuildKeys \<Rightarrow>
   (SearchGranule list \<times> TermDictionaryEntry list \<times> u64 list list) result"
where
  "build_line_index_streaming X entries original_size max_line_bytes limits decode keys =
     rbind (rfold (build_chunk_step entries max_line_bytes decode)
       \<lparr>lb_index = \<lparr>li_granules = [], li_postings = [],
          li_meter = \<lparr>bm_limits = limits, bm_mode = keys, bm_keys = 0, bm_key_bytes = 0, bm_postings = 0\<rparr>\<rparr>,
        lb_carry = [], lb_line_start = 0\<rparr> entries) (\<lambda>b.
     rbind (if lb_carry b \<noteq> [] then emit_line_granule entries (lb_line_start b) original_size (lb_carry b) (lb_index b)
            else Ok (lb_index b)) (\<lambda>li.
     Ok (li_granules li, map (\<lambda>(key, _). term_of_key X key) (li_postings li), map snd (li_postings li))))"

section \<open>Validation and encoding\<close>

definition validate_granule_step :: "u64 \<Rightarrow> u64 option \<Rightarrow> usize \<times> SearchGranule \<Rightarrow> u64 option result" where
  "validate_granule_step source_size_bytes previous_offset item =
     (case item of (index, granule) \<Rightarrow>
       if sg_granule_id granule \<noteq> index then Err ContainerCorrupt
       else
         rbind (checked_logical_end (sg_logical_offset granule) (sg_byte_length granule)) (\<lambda>e.
         if e > source_size_bytes then Err LogicalRangeOutOfBounds
         else if (case previous_offset of Some p \<Rightarrow> sg_logical_offset granule < p | None \<Rightarrow> False) then Err ContainerCorrupt
         else if sg_chunk_end granule < sg_chunk_start granule then Err ChunkTableInvalid
         else Ok (Some (sg_logical_offset granule))))"

definition validate_granules :: "u64 \<Rightarrow> SearchGranule list \<Rightarrow> unit result" where
  "validate_granules source_size_bytes granules =
     rbind (rfold (validate_granule_step source_size_bytes) None (enumerate 0 granules)) (\<lambda>_. Ok ())"

text \<open>\<open>windows(2).all(p)\<close>\<close>

fun windows2_all :: "('a \<Rightarrow> 'a \<Rightarrow> bool) \<Rightarrow> 'a list \<Rightarrow> bool" where
  "windows2_all p (x # y # xs) \<longleftrightarrow> p x y \<and> windows2_all p (y # xs)"
| "windows2_all p xs \<longleftrightarrow> True"

definition validate_posting_list :: "usize \<Rightarrow> u64 list \<Rightarrow> unit result" where
  "validate_posting_list granule_count posting_list =
     (if \<not> windows2_all (<) posting_list then Err ContainerCorrupt
      else
        rfold (\<lambda>_ granule_id.
          rbind (u64_to_usize granule_id) (\<lambda>granule_index.
          if granule_index \<ge> granule_count then Err ContainerCorrupt else Ok ())) () posting_list)"

definition validate_term_dictionary_shape ::
  "TermDictionaryEntry list \<Rightarrow> u64 list list \<Rightarrow> usize \<Rightarrow> unit result"
where
  "validate_term_dictionary_shape terms postings granule_count =
     (if length terms \<noteq> length postings then Err ContainerCorrupt
      else if \<not> windows2_all (\<lambda>s t. te_key s < te_key t) terms then Err ContainerCorrupt
      else
        rfold (\<lambda>_ (term, posting_list).
          if te_flags term \<noteq> 0 then Err InvalidFlags
          else validate_posting_list granule_count posting_list) () (zip terms postings))"

record EncodedPostingLists =
  ep_terms :: "TermDictionaryEntry list"
  ep_postings :: "bytes list"
  ep_skips :: "SkipPoint list list"

text \<open>The first pass adds up the encoded sizes, before anything is encoded.\<close>

definition charge_posting_list :: "bool \<Rightarrow> u64 \<Rightarrow> u64 \<Rightarrow> u64 list \<Rightarrow> u64 result" where
  "charge_posting_list with_skips max_bytes sz posting_list =
     rbind (encoded_delta_varint_size posting_list) (\<lambda>n.
     rbind (charge_build sz n max_bytes) (\<lambda>sz.
     if with_skips \<and> length posting_list \<ge> 1024 then
       rbind (usize_to_u64 ((length posting_list - 1) div 128)) (\<lambda>k.
       rbind (ok_or (checked_mul k 24) ResourceLimitExceeded) (\<lambda>skips.
       charge_build sz skips max_bytes))
     else Ok sz))"

definition encode_posting_list ::
  "bool \<Rightarrow> EncodedPostingLists \<times> u64 \<times> u64 \<Rightarrow> TermDictionaryEntry \<times> u64 list \<Rightarrow> (EncodedPostingLists \<times> u64 \<times> u64) result"
where
  "encode_posting_list with_skips st item =
     (case st of (out, posting_offset, skip_offset) \<Rightarrow> case item of (term, posting_list) \<Rightarrow>
       rbind (encode_delta_varint_u64 posting_list) (\<lambda>encoded.
       rbind (if with_skips then build_skip_points posting_list encoded else Ok []) (\<lambda>skips.
       rbind (usize_to_u64 (length posting_list)) (\<lambda>frequency.
       rbind (usize_to_u64 (length encoded)) (\<lambda>posting_size.
       rbind (usize_to_u64 (length skips)) (\<lambda>k.
       rbind (ok_or (checked_mul k 24) ResourceLimitExceeded) (\<lambda>skip_size.
       rbind (ok_or (checked_add posting_offset posting_size) ResourceLimitExceeded) (\<lambda>posting_end.
       rbind (ok_or (checked_add skip_offset skip_size) ResourceLimitExceeded) (\<lambda>skip_end.
       Ok (\<lparr>ep_terms = ep_terms out @ [term\<lparr>te_document_frequency := 0, te_granule_frequency := frequency,
              te_posting_offset := posting_offset, te_posting_size := posting_size,
              te_skip_offset := skip_offset, te_skip_size := skip_size\<rparr>],
            ep_postings = ep_postings out @ [encoded],
            ep_skips = (if with_skips then ep_skips out @ [skips] else ep_skips out)\<rparr>, posting_end, skip_end))))))))))"

definition encode_posting_lists ::
  "TermDictionaryEntry list \<Rightarrow> u64 list list \<Rightarrow> bool \<Rightarrow> u64 \<Rightarrow> EncodedPostingLists result"
where
  "encode_posting_lists terms postings with_skips max_bytes =
     rbind (rfold (charge_posting_list with_skips max_bytes) 0 postings) (\<lambda>_.
     rbind (rfold (encode_posting_list with_skips) (\<lparr>ep_terms = [], ep_postings = [], ep_skips = []\<rparr>, 0, 0) (zip terms postings))
       (\<lambda>(out, _).
     Ok out))"

end
