(* ===== verification/Search.thy ===== *)
theory Search
  imports Search_Index
begin

text \<open>
  Searching with the transient indexes (src/src/search.rs): the two indexes with their
  constructors, the planner that looks up and intersects posting lists, and the verification
  of candidate lines against the original bytes under the limits of a query. The elapsed time
  and the size ratio of the metrics, and the score of a hit, which these searches leave unset,
  are floating-point numbers and not part of the model;
  \<open>binary_search_by\<close> on the term dictionary is a lookup by key, which the constructors make
  unique by checking that the keys are strictly ascending.
\<close>

section \<open>Options and reports\<close>

record SearchOptions =
  max_query_bytes :: u64
  max_query_terms :: u64
  max_posting_bytes_per_query :: u64
  max_posting_ids_per_query :: u64
  max_posting_work :: u64
  max_candidate_granules :: u64
  max_decoded_bytes :: u64
  max_physical_decoded_bytes :: u64
  max_physical_decoded_chunks :: u64
  max_search_results :: u64

definition SearchOptions_default :: SearchOptions where
  "SearchOptions_default = \<lparr>max_query_bytes = 4 * 1024, max_query_terms = 256,
     max_posting_bytes_per_query = 128 * 1024 * 1024, max_posting_ids_per_query = 10000000, max_posting_work = 20000000,
     max_candidate_granules = 10000, max_decoded_bytes = 256 * 1024 * 1024,
     max_physical_decoded_bytes = 256 * 1024 * 1024, max_physical_decoded_chunks = 10000, max_search_results = 10000\<rparr>"

record PlannerDecision =
  pd_required_keys :: "bytes list"
  pd_selected_keys :: "bytes list"
  pd_missing_keys :: "bytes list"
  pd_high_df_keys :: "bytes list"
  pd_used_skip_data :: bool

definition PlannerDecision_new :: "bytes list \<Rightarrow> PlannerDecision" where
  "PlannerDecision_new required_keys = \<lparr>pd_required_keys = required_keys, pd_selected_keys = [], pd_missing_keys = [],
     pd_high_df_keys = [], pd_used_skip_data = False\<rparr>"

record SearchHit =
  sh_logical_offset :: u64
  sh_byte_length :: u64
  sh_chunk_start :: u64
  sh_chunk_end :: u64
  sh_source :: string

record SearchMetrics =
  sm_query :: bytes
  sm_index_kind :: string
  sm_posting_granularity :: string
  sm_index_size_bytes :: u64
  sm_source_size_bytes :: u64
  sm_term_lookups :: u64
  sm_posting_bytes_read :: u64
  sm_candidate_granules :: u64
  sm_candidate_chunks :: u64
  sm_decoded_bytes :: u64
  sm_physical_decoded_bytes :: u64
  sm_physical_decoded_chunks :: u64
  sm_verified_matches :: u64

record SearchReport =
  sr_hits :: "SearchHit list"
  sr_metrics :: SearchMetrics
  sr_capped :: bool
  sr_stop_reason :: "string option"
  sr_index_complete_declared :: bool
  sr_index_coverage_verified :: bool
  sr_planner :: PlannerDecision
  sr_incomplete_reason :: "string option"

definition empty_search_metrics :: "bytes \<Rightarrow> string \<Rightarrow> u64 \<Rightarrow> u64 \<Rightarrow> SearchMetrics" where
  "empty_search_metrics query index_kind index_size original =
     \<lparr>sm_query = query, sm_index_kind = index_kind, sm_posting_granularity = ''line'', sm_index_size_bytes = index_size,
      sm_source_size_bytes = original, sm_term_lookups = 0, sm_posting_bytes_read = 0, sm_candidate_granules = 0,
      sm_candidate_chunks = 0, sm_decoded_bytes = 0, sm_physical_decoded_bytes = 0, sm_physical_decoded_chunks = 0,
      sm_verified_matches = 0\<rparr>"

definition early_exit_report ::
  "SearchMetrics \<Rightarrow> PlannerDecision \<Rightarrow> string option \<Rightarrow> string option \<Rightarrow> bool \<Rightarrow> SearchReport"
where
  "early_exit_report metrics planner stop_reason incomplete_reason index_complete_declared =
     \<lparr>sr_hits = [], sr_metrics = metrics, sr_capped = (stop_reason \<noteq> None), sr_stop_reason = stop_reason,
      sr_index_complete_declared = index_complete_declared, sr_index_coverage_verified = False, sr_planner = planner,
      sr_incomplete_reason = incomplete_reason\<rparr>"

section \<open>Queries\<close>

definition validate_query_bytes :: "bytes \<Rightarrow> SearchOptions \<Rightarrow> unit result" where
  "validate_query_bytes query options =
     rbind (usize_to_u64 (length query)) (\<lambda>n.
     if n > max_query_bytes options then Err ResourceLimitExceeded else Ok ())"

text \<open>A bounded insertion into the ordered set of keys.\<close>

definition insert_query_key :: "SearchOptions \<Rightarrow> bytes list \<Rightarrow> bytes \<Rightarrow> bytes list result" where
  "insert_query_key options keys key =
     (if key \<in> set keys then Ok keys
      else
        rbind (usize_to_u64 (length keys)) (\<lambda>n.
        if n \<ge> max_query_terms options then Err ResourceLimitExceeded else Ok (insort key keys)))"

function query_tokens :: "SearchOptions \<Rightarrow> bytes \<Rightarrow> usize \<Rightarrow> bytes list \<Rightarrow> bytes list result" where
  "query_tokens options bs cursor keys =
     (if cursor < length bs then
        let start = skip_bytes (\<lambda>b. \<not> is_token_byte b) bs cursor;
            cursor = skip_bytes is_token_byte bs start in
        if start < cursor then
          rbind (insert_query_key options keys (map to_ascii_lowercase (slice bs start cursor))) (\<lambda>keys.
          query_tokens options bs cursor keys)
        else query_tokens options bs cursor keys
      else Ok keys)"
  by pat_completeness auto
termination
  by (relation "measure (\<lambda>(options, bs, cursor, keys). length bs - cursor)")
     (rule wf_measure, unfold in_measure prod.case, (erule (2) token_measure)+)

declare query_tokens.simps [simp del]

definition unique_query_keys :: "bytes \<Rightarrow> SearchOptions \<Rightarrow> bytes list result" where
  "unique_query_keys query options =
     rbind (validate_query_bytes query options) (\<lambda>_. query_tokens options query 0 [])"

definition ngram_keys_for_query :: "bytes \<Rightarrow> usize \<Rightarrow> SearchOptions \<Rightarrow> bytes list result" where
  "ngram_keys_for_query query n options =
     rbind (validate_query_bytes query options) (\<lambda>_.
     if n = 0 then Err ResourceLimitExceeded
     else
       let starts = char_starts query @ [length query] in
       if length starts - 1 < n then Ok []
       else
         rfold (\<lambda>keys window_start.
           insert_query_key options keys (slice query (starts ! window_start) (starts ! (window_start + n))))
           [] [0 ..< length starts - 1 - n + 1])"

section \<open>Matches in a line\<close>

record TokenSpan =
  ts_key :: bytes
  ts_start :: usize
  ts_end :: usize

text \<open>
  One scratch serves all lines of a granule: a key was seen in the current line if its mark is
  the generation of the line, so nothing is cleared between lines until the generation wraps.
\<close>

record LineMatchScratch =
  ms_seen :: "u64 list"
  ms_generation :: u64
  ms_matches :: "(usize \<times> usize \<times> usize) list"

definition match_token ::
  "bytes list \<Rightarrow> usize \<Rightarrow> bytes \<Rightarrow> usize \<Rightarrow> usize \<Rightarrow> LineMatchScratch \<times> usize \<Rightarrow> LineMatchScratch \<times> usize"
where
  "match_token query_keys limit bs start cursor st =
     (case st of (scratch, seen_count) \<Rightarrow>
       case find (\<lambda>i. map to_ascii_lowercase (slice bs start cursor) = map to_ascii_lowercase (query_keys ! i))
              [0 ..< length query_keys] of
         None \<Rightarrow> (scratch, seen_count)
       | Some index \<Rightarrow>
           let (scratch, seen_count) =
                 (if ms_seen scratch ! index \<noteq> ms_generation scratch
                  then (scratch\<lparr>ms_seen := (ms_seen scratch)[index := ms_generation scratch]\<rparr>, seen_count + 1)
                  else (scratch, seen_count)) in
           (if length (ms_matches scratch) < limit
            then scratch\<lparr>ms_matches := ms_matches scratch @ [(index, start, cursor)]\<rparr> else scratch, seen_count))"

function line_span_loop ::
  "bytes \<Rightarrow> bytes list \<Rightarrow> usize \<Rightarrow> bool \<Rightarrow> bool \<Rightarrow> usize \<Rightarrow> LineMatchScratch \<times> usize \<Rightarrow> LineMatchScratch \<times> usize"
where
  "line_span_loop bs query_keys limit left_continues right_continues cursor st =
     (if cursor < length bs then
        let start = skip_bytes (\<lambda>b. \<not> is_token_byte b) bs cursor;
            cursor = skip_bytes is_token_byte bs start in
        if start = cursor then
          line_span_loop bs query_keys limit left_continues right_continues cursor st
        else if (start = 0 \<and> left_continues) \<or> (cursor = length bs \<and> right_continues) then
          line_span_loop bs query_keys limit left_continues right_continues cursor st
        else
          let st = match_token query_keys limit bs start cursor st in
          if length (ms_matches (fst st)) = limit \<and> snd st = length query_keys then st
          else line_span_loop bs query_keys limit left_continues right_continues cursor st
      else st)"
  by pat_completeness auto
termination
  by (relation "measure (\<lambda>(bs, query_keys, limit, l, r, cursor, st). length bs - cursor)")
     (rule wf_measure, unfold in_measure prod.case, (erule (2) token_measure)+)

declare line_span_loop.simps [simp del]

definition verified_line_spans ::
  "bytes \<Rightarrow> bytes list \<Rightarrow> usize \<Rightarrow> bool \<Rightarrow> bool \<Rightarrow> LineMatchScratch \<Rightarrow> bool \<times> LineMatchScratch"
where
  "verified_line_spans bs query_keys limit left_continues right_continues scratch =
     (let (scratch, seen_count) = line_span_loop bs query_keys limit left_continues right_continues 0 (scratch, 0) in
      (seen_count = length query_keys, scratch))"

text \<open>\<open>bytes.split_inclusive(|byte| *byte == b'\n')\<close>\<close>

fun split_inclusive_lf :: "bytes \<Rightarrow> bytes \<Rightarrow> bytes list" where
  "split_inclusive_lf [] part = (if part = [] then [] else [part])"
| "split_inclusive_lf (b # bs) part =
     (if b = LF then (part @ [b]) # split_inclusive_lf bs [] else split_inclusive_lf bs (part @ [b]))"

text \<open>The scratch for the next line: \<open>wrapping_add\<close> on the generation, and a refill when it wraps.\<close>

definition next_generation :: "LineMatchScratch \<Rightarrow> LineMatchScratch" where
  "next_generation scratch =
     (let generation = (ms_generation scratch + 1) mod u64_end;
          scratch = scratch\<lparr>ms_generation := generation\<rparr>;
          scratch = (if generation = 0
                     then scratch\<lparr>ms_seen := replicate (length (ms_seen scratch)) 0, ms_generation := 1\<rparr> else scratch) in
      scratch\<lparr>ms_matches := []\<rparr>)"

fun verified_spans_loop ::
  "bytes list \<Rightarrow> usize \<Rightarrow> usize \<Rightarrow> bytes list \<Rightarrow> usize \<Rightarrow> bool \<Rightarrow> bool \<Rightarrow> LineMatchScratch \<Rightarrow> TokenSpan list \<Rightarrow> TokenSpan list"
where
  "verified_spans_loop [] line_start len query_keys limit left_continues right_continues scratch spans = spans"
| "verified_spans_loop (line # rest) line_start len query_keys limit left_continues right_continues scratch spans =
     (let line_end = line_start + length line; remaining = limit - length spans in
      if remaining = 0 then spans
      else
        let (complete_line, scratch) = verified_line_spans line query_keys remaining
              (line_start = 0 \<and> left_continues) (line_end = len \<and> right_continues) (next_generation scratch);
            spans = (if complete_line
                     then spans @ map (\<lambda>(key_index, start, e). \<lparr>ts_key = query_keys ! key_index,
                       ts_start = line_start + start, ts_end = line_start + e\<rparr>) (ms_matches scratch)
                     else spans) in
        if length spans = limit then spans
        else verified_spans_loop rest line_end len query_keys limit left_continues right_continues scratch spans)"

definition verified_spans :: "bytes \<Rightarrow> bytes list \<Rightarrow> usize \<Rightarrow> bool \<Rightarrow> bool \<Rightarrow> TokenSpan list" where
  "verified_spans bs query_keys limit left_continues right_continues =
     verified_spans_loop (split_inclusive_lf bs []) 0 (length bs) query_keys limit left_continues right_continues
       \<lparr>ms_seen = replicate (length query_keys) 0, ms_generation = 0, ms_matches = []\<rparr> []"

fun substring_loop :: "bytes \<Rightarrow> bytes \<Rightarrow> usize \<Rightarrow> TokenSpan list \<Rightarrow> usize list \<Rightarrow> TokenSpan list" where
  "substring_loop bs query limit spans [] = spans"
| "substring_loop bs query limit spans (start # rest) =
     (let e = start + length query in
      if slice bs start e = query then
        let spans = spans @ [\<lparr>ts_key = query, ts_start = start, ts_end = e\<rparr>] in
        if length spans = limit then spans else substring_loop bs query limit spans rest
      else substring_loop bs query limit spans rest)"

definition substring_spans :: "bytes \<Rightarrow> bytes \<Rightarrow> usize \<Rightarrow> TokenSpan list" where
  "substring_spans bs query limit =
     (if limit = 0 \<or> query = [] \<or> length query > length bs then []
      else substring_loop bs query limit [] [0 ..< length bs - length query + 1])"

section \<open>Candidates\<close>

type_synonym range_read = "u64 \<Rightarrow> u64 \<Rightarrow> ChunkDecodeCache \<Rightarrow> bytes result \<times> ChunkDecodeCache"

type_synonym span_matcher = "bytes \<Rightarrow> usize \<Rightarrow> bool \<Rightarrow> bool \<Rightarrow> TokenSpan list"

record CandidateVerification =
  cv_hits :: "SearchHit list"
  cv_stop_reason :: "string option"
  cv_decoded_bytes :: u64
  cv_physical_decoded_bytes :: u64
  cv_physical_decoded_chunks :: u64

record VerifyState =
  vs_hits :: "SearchHit list"
  vs_decoded_bytes :: u64
  vs_cache :: ChunkDecodeCache

text \<open>The hits of one granule; the flag says that the result limit was reached.\<close>

fun push_hits ::
  "SearchOptions \<Rightarrow> SearchGranule \<Rightarrow> TokenSpan list \<Rightarrow> SearchHit list \<Rightarrow> (SearchHit list \<times> bool) result"
where
  "push_hits options granule [] hits = Ok (hits, False)"
| "push_hits options granule (span # spans) hits =
     rbind (usize_to_u64 (ts_start span)) (\<lambda>span_offset.
     rbind (usize_to_u64 (ts_end span - ts_start span)) (\<lambda>span_len.
     rbind (ok_or (checked_add (sg_logical_offset granule) span_offset) LogicalRangeOutOfBounds) (\<lambda>offset.
     let hits = hits @ [\<lparr>sh_logical_offset = offset, sh_byte_length = span_len, sh_chunk_start = sg_chunk_start granule,
           sh_chunk_end = sg_chunk_end granule, sh_source = ''verified_original_bytes''\<rparr>] in
     rbind (usize_to_u64 (length hits)) (\<lambda>n.
     if n \<ge> max_search_results options then Ok (hits, True) else push_hits options granule spans hits))))"

text \<open>
  Whether a token goes on behind the granule: the reason to stop, if the byte may not be read,
  and the answer with the new byte count and cache otherwise.
\<close>

definition probe_right ::
  "ChunkEntry list \<Rightarrow> range_read \<Rightarrow> SearchOptions \<Rightarrow> u64 \<Rightarrow> u64 \<Rightarrow> ChunkDecodeCache \<Rightarrow>
   (string option \<times> bool \<times> u64 \<times> ChunkDecodeCache) result"
where
  "probe_right entries read_range options position decoded_bytes cache =
     rbind (ok_or (checked_add decoded_bytes 1) ResourceLimitExceeded) (\<lambda>next_decoded.
     if next_decoded > max_decoded_bytes options then Ok (Some ''max_decoded_bytes'', False, decoded_bytes, cache)
     else
       rbind (ok_or (checked_add position 1) LogicalRangeOutOfBounds) (\<lambda>e.
       rbind (chunk_span_for_range entries position e) (\<lambda>(start_chunk, end_chunk).
       rbind (search_limit_for_span cache entries start_chunk end_chunk (max_physical_decoded_bytes options)
                (max_physical_decoded_chunks options)) (\<lambda>reason.
       case reason of
         Some reason \<Rightarrow> Ok (Some reason, False, decoded_bytes, cache)
       | None \<Rightarrow>
           (case read_range position 1 cache of (r, cache) \<Rightarrow>
             rbind r (\<lambda>bs. Ok (None, bs \<noteq> [] \<and> is_token_byte (hd bs), next_decoded, cache)))))))"

text \<open>Reading a granule and matching in it, after the limits allowed it: the new state, and the reason to stop.\<close>

definition match_granule ::
  "SkeletonDetails \<Rightarrow> range_read \<Rightarrow> span_matcher \<Rightarrow> bool \<Rightarrow> SearchOptions \<Rightarrow> VerifyState \<Rightarrow> SearchGranule \<Rightarrow>
   u64 \<Rightarrow> u64 \<Rightarrow> u64 \<Rightarrow> u64 \<Rightarrow> (VerifyState \<times> string option) result"
where
  "match_granule details read_range spans_for token_boundaries options st granule granule_end read_start read_length next_decoded =
     (case read_range read_start read_length (vs_cache st) of (r, cache) \<Rightarrow>
       rbind r (\<lambda>decoded.
       rbind (u64_to_usize (sg_logical_offset granule - read_start)) (\<lambda>start.
       rbind (ok_or (get_slice decoded start (length decoded)) ContainerCorrupt) (\<lambda>original.
       let left_continues = (start > 0 \<and> is_token_byte (decoded ! (start - 1))) in
       rbind (if token_boundaries \<and> original \<noteq> [] \<and> is_token_byte (last original) \<and>
                granule_end < ss_original_size (sk_summary details)
              then probe_right (sk_chunk_entries details) read_range options granule_end next_decoded cache
              else Ok (None, False, next_decoded, cache)) (\<lambda>(stop, right_continues, decoded_bytes, cache).
       case stop of
         Some reason \<Rightarrow> Ok (\<lparr>vs_hits = vs_hits st, vs_decoded_bytes = decoded_bytes, vs_cache = cache\<rparr>, Some reason)
       | None \<Rightarrow>
           rbind (usize_to_u64 (length (vs_hits st))) (\<lambda>n.
           let span_limit = max_search_results options - n in
           rbind (push_hits options granule (spans_for original span_limit left_continues right_continues) (vs_hits st))
             (\<lambda>(hits, full).
           Ok (\<lparr>vs_hits = hits, vs_decoded_bytes = decoded_bytes, vs_cache = cache\<rparr>,
               if full then Some ''max_search_results'' else None))))))))"

text \<open>One granule: the new state, and the reason to stop after it.\<close>

definition verify_candidate ::
  "SkeletonDetails \<Rightarrow> (u64 \<Rightarrow> SearchGranule result) \<Rightarrow> range_read \<Rightarrow> span_matcher \<Rightarrow> bool \<Rightarrow> SearchOptions \<Rightarrow>
   VerifyState \<Rightarrow> u64 \<Rightarrow> (VerifyState \<times> string option) result"
where
  "verify_candidate details granule_at read_range spans_for token_boundaries options st granule_id =
     rbind (granule_at granule_id) (\<lambda>granule.
     rbind (ok_or (checked_add (sg_logical_offset granule) (sg_byte_length granule)) LogicalRangeOutOfBounds) (\<lambda>granule_end.
     let read_start = (if token_boundaries then sg_logical_offset granule - 1 else sg_logical_offset granule) in
     rbind (ok_or (checked_sub granule_end read_start) LogicalRangeOutOfBounds) (\<lambda>read_length.
     rbind (ok_or (checked_add (vs_decoded_bytes st) read_length) ResourceLimitExceeded) (\<lambda>next_decoded.
     if next_decoded > max_decoded_bytes options then Ok (st, Some ''max_decoded_bytes'')
     else
       rbind (if token_boundaries then chunk_span_for_range (sk_chunk_entries details) read_start granule_end
              else Ok (sg_chunk_start granule, sg_chunk_end granule)) (\<lambda>(chunk_start, chunk_end).
       rbind (search_limit_for_span (vs_cache st) (sk_chunk_entries details) chunk_start chunk_end
                (max_physical_decoded_bytes options) (max_physical_decoded_chunks options)) (\<lambda>reason.
       case reason of
         Some reason \<Rightarrow> Ok (st, Some reason)
       | None \<Rightarrow>
           match_granule details read_range spans_for token_boundaries options st granule granule_end read_start read_length
             next_decoded))))))"

fun verify_loop ::
  "(VerifyState \<Rightarrow> u64 \<Rightarrow> (VerifyState \<times> string option) result) \<Rightarrow> VerifyState \<Rightarrow> u64 list \<Rightarrow>
   (VerifyState \<times> string option) result"
where
  "verify_loop step st [] = Ok (st, None)"
| "verify_loop step st (granule_id # rest) =
     rbind (step st granule_id) (\<lambda>(st, stop).
     case stop of Some reason \<Rightarrow> Ok (st, Some reason) | None \<Rightarrow> verify_loop step st rest)"

definition verify_candidates ::
  "u64 list \<Rightarrow> SkeletonDetails \<Rightarrow> (u64 \<Rightarrow> SearchGranule result) \<Rightarrow> range_read \<Rightarrow> span_matcher \<Rightarrow> bool \<Rightarrow> SearchOptions \<Rightarrow>
   CandidateVerification result"
where
  "verify_candidates candidates details granule_at read_range spans_for token_boundaries options =
     rbind (verify_loop (verify_candidate details granule_at read_range spans_for token_boundaries options)
       \<lparr>vs_hits = [], vs_decoded_bytes = 0, vs_cache = ChunkDecodeCache_new\<rparr> candidates) (\<lambda>(st, stop_reason).
     Ok \<lparr>cv_hits = vs_hits st, cv_stop_reason = stop_reason, cv_decoded_bytes = vs_decoded_bytes st,
         cv_physical_decoded_bytes = cc_physical_decoded_bytes (vs_cache st),
         cv_physical_decoded_chunks = cc_decoded_chunks (vs_cache st)\<rparr>)"

definition count_chunk_spans :: "SearchGranule list \<Rightarrow> u64 result" where
  "count_chunk_spans granules =
     rbind (rmap (\<lambda>granule.
         if sg_chunk_start granule \<ge> sg_chunk_end granule then Err ChunkTableInvalid
         else Ok (sg_chunk_start granule, sg_chunk_end granule)) granules) (\<lambda>spans.
     rbind (rfold (\<lambda>(counted, covered_end) (start, e).
         let uncovered_start = max start covered_end in
         if e > uncovered_start then
           rbind (ok_or (checked_add counted (e - uncovered_start)) ResourceLimitExceeded) (\<lambda>counted. Ok (counted, e))
         else Ok (counted, covered_end)) (0, 0) (sort_key fst spans)) (\<lambda>(counted, _).
     Ok counted))"

definition count_chunks :: "SearchGranule list \<Rightarrow> u64 result" where
  "count_chunks granules = count_chunk_spans granules"

definition candidate_granule :: "SearchGranule list \<Rightarrow> ChunkEntry list \<Rightarrow> u64 \<Rightarrow> u64 \<Rightarrow> SearchGranule result" where
  "candidate_granule granules entries original_size granule_id =
     rbind (u64_to_usize granule_id) (\<lambda>granule_index.
     rbind (ok_or (get granules granule_index) ContainerCorrupt) (\<lambda>granule.
     rbind (validate_granule_chunk_span granule entries original_size) (\<lambda>_.
     if sg_chunk_start granule \<ge> sg_chunk_end granule then Err ChunkTableInvalid else Ok granule)))"

definition count_candidate_chunks :: "SearchGranule list \<Rightarrow> u64 list \<Rightarrow> ChunkEntry list \<Rightarrow> u64 \<Rightarrow> u64 result" where
  "count_candidate_chunks granules candidates entries original_size =
     rbind (rmap (candidate_granule granules entries original_size) candidates) count_chunk_spans"

definition check_raw_posting_budget ::
  "usize list \<Rightarrow> u64 list list \<Rightarrow> bytes list \<Rightarrow> SearchOptions \<Rightarrow> unit result"
where
  "check_raw_posting_budget indexes postings encoded options =
     rbind (rfold (\<lambda>(bs, ids) index.
         rbind (usize_to_u64 (length (encoded ! index))) (\<lambda>n.
         rbind (ok_or (checked_add bs n) ResourceLimitExceeded) (\<lambda>bs.
         rbind (usize_to_u64 (length (postings ! index))) (\<lambda>n.
         rbind (ok_or (checked_add ids n) ResourceLimitExceeded) (\<lambda>ids.
         if bs > max_posting_bytes_per_query options \<or> ids > max_posting_ids_per_query options then Err ResourceLimitExceeded
         else Ok (bs, ids)))))) (0, 0) indexes) (\<lambda>_. Ok ())"

section \<open>Index sizes\<close>

definition COMPACT_LINE_GRANULE_RECORD_LEN :: usize where
  "COMPACT_LINE_GRANULE_RECORD_LEN = 20"

definition LEGACY_LINE_GRANULE_RECORD_LEN :: usize where
  "LEGACY_LINE_GRANULE_RECORD_LEN = 56"

definition compact_line_granules_supported :: "SearchGranule list \<Rightarrow> bool" where
  "compact_line_granules_supported granules =
     list_all (\<lambda>(index, granule). sg_granule_id granule = index \<and> sg_first_line granule = Some index \<and>
       sg_line_count granule = Some 1 \<and> sg_byte_length granule < u32_end \<and> sg_chunk_start granule < u32_end \<and>
       sg_chunk_end granule - sg_chunk_start granule < u32_end) (enumerate 0 granules)"

definition saturating_mul :: "u64 \<Rightarrow> u64 \<Rightarrow> u64" where
  "saturating_mul a b = min (a * b) (u64_end - 1)"

definition serialized_granule_bytes :: "SearchGranule list \<Rightarrow> usize" where
  "serialized_granule_bytes granules =
     (let record_len = (if compact_line_granules_supported granules then COMPACT_LINE_GRANULE_RECORD_LEN
                        else LEGACY_LINE_GRANULE_RECORD_LEN) in
      saturating_add 8 (saturating_mul (length granules) record_len))"

definition term_size_bytes :: "TermDictionaryEntry \<Rightarrow> usize" where
  "term_size_bytes term =
     saturating_add (saturating_add (saturating_add (length (te_key term)) (varuint_len (length (te_key term))))
       (varuint_len (te_granule_frequency term))) (varuint_len (te_posting_size term))"

text \<open>The sums are over parts of one process image and stay below the width.\<close>

definition index_size_bytes :: "SearchGranule list \<Rightarrow> TermDictionaryEntry list \<Rightarrow> bytes list \<Rightarrow> u64" where
  "index_size_bytes granules terms encoded_postings =
     saturating_add (saturating_add (serialized_granule_bytes granules)
       (saturating_add 8 (sum_list (map term_size_bytes terms)))) (sum_list (map length encoded_postings))"

definition term_index_for_key :: "TermDictionaryEntry list \<Rightarrow> bytes \<Rightarrow> usize option" where
  "term_index_for_key terms key = find (\<lambda>i. te_key (terms ! i) = key) [0 ..< length terms]"

section \<open>The token index\<close>

record RawTokenIndex =
  rt_container_id :: bytes
  rt_source_size_bytes :: u64
  rt_source :: SearchIndexSource
  rt_posting_granularity :: PostingGranularity
  rt_complete :: bool
  rt_granules :: "SearchGranule list"
  rt_terms :: "TermDictionaryEntry list"
  rt_postings :: "u64 list list"
  rt_encoded_postings :: "bytes list"

definition RawTokenIndex_from_parts ::
  "bytes \<Rightarrow> u64 \<Rightarrow> SearchGranule list \<Rightarrow> TermDictionaryEntry list \<Rightarrow> u64 list list \<Rightarrow> IndexBuildLimits \<Rightarrow> RawTokenIndex result"
where
  "RawTokenIndex_from_parts cid original granules terms postings limits =
     rbind (check_parts limits granules terms postings) (\<lambda>_.
     rbind (validate_granules original granules) (\<lambda>_.
     rbind (validate_term_dictionary_shape terms postings (length granules)) (\<lambda>_.
     rbind (encode_posting_lists terms postings False (max_encoded_bytes limits)) (\<lambda>encoded.
     Ok \<lparr>rt_container_id = cid, rt_source_size_bytes = original, rt_source = RawUtf8, rt_posting_granularity = Line,
         rt_complete = True, rt_granules = granules, rt_terms = ep_terms encoded, rt_postings = postings,
         rt_encoded_postings = ep_postings encoded\<rparr>))))"

definition RawTokenIndex_build_from_file ::
  "('h, 'x) ext_scheme \<Rightarrow> QztFileReader \<Rightarrow> TokenIndexBuildOptions \<Rightarrow> RawTokenIndex result"
where
  "RawTokenIndex_build_from_file X r options =
     (if to_source options = NormalizedUtf8 then Err (UnsupportedIndexMode ''normalized_utf8 token index'')
      else
        let details = fr_details r in
        rbind (case to_posting_granularity options of
                 Line \<Rightarrow> build_line_index_streaming X (sk_chunk_entries details) (ss_original_size (sk_summary details))
                   (to_max_line_bytes options) (to_limits options) (QztFileReader_decode_entry X r) Token)
          (\<lambda>(granules, terms, postings).
        RawTokenIndex_from_parts (ss_container_id (sk_summary details)) (ss_original_size (sk_summary details))
          granules terms postings (to_limits options)))"

definition RawTokenIndex_build_from_container ::
  "('h, 'x) ext_scheme \<Rightarrow> bytes \<Rightarrow> TokenIndexBuildOptions \<Rightarrow> RawTokenIndex result"
where
  "RawTokenIndex_build_from_container X bs options =
     rbind (usize_to_u64 (length bs)) (\<lambda>len.
     rbind (QztFileReader_open_read_at X (slice_read_exact_at bs) len) (\<lambda>r.
     RawTokenIndex_build_from_file X r options))"

definition posting_list_for_key :: "RawTokenIndex \<Rightarrow> bytes \<Rightarrow> u64 list option" where
  "posting_list_for_key self key =
     (case term_index_for_key (rt_terms self) key of None \<Rightarrow> None | Some index \<Rightarrow> get (rt_postings self) index)"

text \<open>The lookup of the required keys: the key that is missing, or the indexes and the bytes they cost.\<close>

fun lookup_tokens :: "RawTokenIndex \<Rightarrow> bytes list \<Rightarrow> usize list \<Rightarrow> u64 \<Rightarrow> (bytes \<times> u64 + usize list \<times> u64) result" where
  "lookup_tokens self [] indexes posting_bytes = Ok (Inr (indexes, posting_bytes))"
| "lookup_tokens self (key # keys) indexes posting_bytes =
     (case term_index_for_key (rt_terms self) key of
        None \<Rightarrow> Ok (Inl (key, posting_bytes))
      | Some index \<Rightarrow>
          rbind (ok_or (checked_add posting_bytes (te_posting_size (rt_terms self ! index))) ResourceLimitExceeded) (\<lambda>n.
          lookup_tokens self keys (indexes @ [index]) n))"

definition granule_lookup :: "SearchGranule list \<Rightarrow> u64 \<Rightarrow> SearchGranule result" where
  "granule_lookup granules granule_id =
     rbind (u64_to_usize granule_id) (\<lambda>granule_index. ok_or (get granules granule_index) ContainerCorrupt)"

text \<open>The tail of both searches, after the posting lists are chosen.\<close>

definition search_postings ::
  "SearchGranule list \<Rightarrow> bool \<Rightarrow> SkeletonDetails \<Rightarrow> SearchOptions \<Rightarrow> range_read \<Rightarrow> span_matcher \<Rightarrow> bool \<Rightarrow>
   u64 list list \<Rightarrow> PlannerDecision \<Rightarrow> SearchMetrics \<Rightarrow> SearchReport result"
where
  "search_postings granules complete details options read_range spans_for token_boundaries posting_refs planner metrics =
     rbind (intersect_postings posting_refs (max_posting_work options)) (\<lambda>candidates.
     rbind (usize_to_u64 (length candidates)) (\<lambda>n.
     rbind (count_candidate_chunks granules candidates (sk_chunk_entries details) (ss_original_size (sk_summary details))) (\<lambda>chunks.
     let metrics = metrics\<lparr>sm_candidate_granules := n, sm_candidate_chunks := chunks\<rparr> in
     if n > max_candidate_granules options then
       Ok (early_exit_report metrics planner (Some ''max_candidate_granules'') None complete)
     else if max_search_results options = 0 then
       Ok (early_exit_report metrics planner (Some ''max_search_results'') None complete)
     else
       rbind (verify_candidates candidates details (granule_lookup granules) read_range spans_for token_boundaries options)
         (\<lambda>verification.
       rbind (usize_to_u64 (length (cv_hits verification))) (\<lambda>matches.
       Ok \<lparr>sr_hits = cv_hits verification,
           sr_metrics = metrics\<lparr>sm_decoded_bytes := cv_decoded_bytes verification,
             sm_physical_decoded_bytes := cv_physical_decoded_bytes verification,
             sm_physical_decoded_chunks := cv_physical_decoded_chunks verification, sm_verified_matches := matches\<rparr>,
           sr_capped = (cv_stop_reason verification \<noteq> None), sr_stop_reason = cv_stop_reason verification,
           sr_index_complete_declared = complete, sr_index_coverage_verified = False, sr_planner = planner,
           sr_incomplete_reason = None\<rparr>)))))"

definition incomplete_index_reason :: "bool \<Rightarrow> string option" where
  "incomplete_index_reason complete = (if complete then None else Some ''missing_required_key_in_incomplete_index'')"

definition RawTokenIndex_search_impl ::
  "RawTokenIndex \<Rightarrow> SkeletonDetails \<Rightarrow> bytes \<Rightarrow> SearchOptions \<Rightarrow> range_read \<Rightarrow> SearchReport result"
where
  "RawTokenIndex_search_impl self details query options read_range =
     rbind (unique_query_keys query options) (\<lambda>query_keys.
     let planner = PlannerDecision_new query_keys;
         metrics = empty_search_metrics query ''token''
           (index_size_bytes (rt_granules self) (rt_terms self) (rt_encoded_postings self)) (rt_source_size_bytes self) in
     rbind (usize_to_u64 (length query_keys)) (\<lambda>n.
     let metrics = metrics\<lparr>sm_term_lookups := n\<rparr> in
     if query_keys = [] then
       Ok (early_exit_report metrics planner None (Some ''query_has_no_indexable_tokens'') (rt_complete self))
     else
       rbind (lookup_tokens self query_keys [] 0) (\<lambda>found.
       case found of
         Inl (key, posting_bytes) \<Rightarrow>
           Ok (early_exit_report (metrics\<lparr>sm_posting_bytes_read := posting_bytes\<rparr>) (planner\<lparr>pd_missing_keys := [key]\<rparr>) None
             (incomplete_index_reason (rt_complete self)) (rt_complete self))
       | Inr (indexes, posting_bytes) \<Rightarrow>
           rbind (check_raw_posting_budget indexes (rt_postings self) (rt_encoded_postings self) options) (\<lambda>_.
           let indexes = sort_key (\<lambda>index. length (rt_postings self ! index)) indexes;
               planner = planner\<lparr>pd_selected_keys := map (\<lambda>index. te_key (rt_terms self ! index)) indexes\<rparr> in
           search_postings (rt_granules self) (rt_complete self) details options read_range
             (\<lambda>decoded limit left_continues right_continues. verified_spans decoded query_keys limit left_continues right_continues)
             True (map (\<lambda>index. rt_postings self ! index) indexes) planner (metrics\<lparr>sm_posting_bytes_read := posting_bytes\<rparr>)))))"

definition RawTokenIndex_search ::
  "('h, 'x) ext_scheme \<Rightarrow> RawTokenIndex \<Rightarrow> QztReader \<Rightarrow> bytes \<Rightarrow> SearchOptions \<Rightarrow> SearchReport result"
where
  "RawTokenIndex_search X self r query options =
     RawTokenIndex_search_impl self (qr_details r) query options (QztReader_read_range_cached X r)"

definition RawTokenIndex_search_file ::
  "('h, 'x) ext_scheme \<Rightarrow> RawTokenIndex \<Rightarrow> QztFileReader \<Rightarrow> bytes \<Rightarrow> SearchOptions \<Rightarrow> SearchReport result"
where
  "RawTokenIndex_search_file X self r query options =
     RawTokenIndex_search_impl self (fr_details r) query options (QztFileReader_read_range_cached X r)"

section \<open>The n-gram index\<close>

record RawNgramIndex =
  rn_container_id :: bytes
  rn_source_size_bytes :: u64
  rn_source :: SearchIndexSource
  rn_posting_granularity :: PostingGranularity
  rn_complete :: bool
  rn_declaration :: NgramDeclaration
  rn_planner_config :: PlannerConfig
  rn_granules :: "SearchGranule list"
  rn_terms :: "TermDictionaryEntry list"
  rn_postings :: "u64 list list"
  rn_skip_data :: "SkipPoint list list"
  rn_encoded_postings :: "bytes list"

definition RawNgramIndex_from_parts ::
  "bytes \<Rightarrow> u64 \<Rightarrow> SearchGranule list \<Rightarrow> TermDictionaryEntry list \<Rightarrow> u64 list list \<Rightarrow> NgramIndexBuildOptions \<Rightarrow> RawNgramIndex result"
where
  "RawNgramIndex_from_parts cid original granules terms postings options =
     (if no_n options = 0 then Err ResourceLimitExceeded
      else
        rbind (check_parts (no_limits options) granules terms postings) (\<lambda>_.
        rbind (validate_granules original granules) (\<lambda>_.
        rbind (validate_term_dictionary_shape terms postings (length granules)) (\<lambda>_.
        rbind (encode_posting_lists terms postings True (max_encoded_bytes (no_limits options))) (\<lambda>encoded.
        Ok \<lparr>rn_container_id = cid, rn_source_size_bytes = original, rn_source = RawUtf8, rn_posting_granularity = Line,
            rn_complete = no_complete options,
            rn_declaration = \<lparr>nd_n = no_n options, nd_unit = UnicodeScalar, nd_normalization = ''none'', nd_case_fold = False,
              nd_boundary_mode = ''adjacent_decode'', nd_boundary_window_bytes = 4096\<rparr>,
            rn_planner_config = PlannerConfig_default\<lparr>pc_high_df_per_million := no_high_df_per_million options\<rparr>,
            rn_granules = granules, rn_terms = ep_terms encoded, rn_postings = postings, rn_skip_data = ep_skips encoded,
            rn_encoded_postings = ep_postings encoded\<rparr>)))))"

definition RawNgramIndex_build_from_file ::
  "('h, 'x) ext_scheme \<Rightarrow> QztFileReader \<Rightarrow> NgramIndexBuildOptions \<Rightarrow> RawNgramIndex result"
where
  "RawNgramIndex_build_from_file X r options =
     (if no_source options = NormalizedUtf8 then Err (UnsupportedIndexMode ''normalized_utf8 ngram index'')
      else if no_n options = 0 then Err ResourceLimitExceeded
      else
        let details = fr_details r in
        rbind (case no_posting_granularity options of
                 Line \<Rightarrow> build_line_index_streaming X (sk_chunk_entries details) (ss_original_size (sk_summary details))
                   (no_max_line_bytes options) (no_limits options) (QztFileReader_decode_entry X r) (Ngram (no_n options)))
          (\<lambda>(granules, terms, postings).
        RawNgramIndex_from_parts (ss_container_id (sk_summary details)) (ss_original_size (sk_summary details))
          granules terms postings options))"

definition RawNgramIndex_build_from_container ::
  "('h, 'x) ext_scheme \<Rightarrow> bytes \<Rightarrow> NgramIndexBuildOptions \<Rightarrow> RawNgramIndex result"
where
  "RawNgramIndex_build_from_container X bs options =
     rbind (usize_to_u64 (length bs)) (\<lambda>len.
     rbind (QztFileReader_open_read_at X (slice_read_exact_at bs) len) (\<lambda>r.
     RawNgramIndex_build_from_file X r options))"

definition term_for_key :: "RawNgramIndex \<Rightarrow> bytes \<Rightarrow> TermDictionaryEntry option" where
  "term_for_key self key =
     (case term_index_for_key (rn_terms self) key of None \<Rightarrow> None | Some index \<Rightarrow> get (rn_terms self) index)"

definition is_high_df :: "RawNgramIndex \<Rightarrow> usize \<Rightarrow> bool" where
  "is_high_df self term_index =
     (let granule_count = max (length (rn_granules self)) 1;
          frequency = te_granule_frequency (rn_terms self ! term_index);
          per_million = min (frequency * 1000000) (2 ^ 128 - 1) div granule_count in
      per_million \<ge> pc_high_df_per_million (rn_planner_config self))"

definition reported_posting_bytes_read :: "RawNgramIndex \<Rightarrow> usize \<Rightarrow> u64 result" where
  "reported_posting_bytes_read self term_index =
     (let term = rn_terms self ! term_index in
      if rn_skip_data self ! term_index = [] then Ok (te_posting_size term)
      else
        rbind (usize_to_u64 (saturating_mul (length (rn_skip_data self ! term_index)) 24)) (\<lambda>n.
        rbind (ok_or (checked_add n 16) ResourceLimitExceeded) (\<lambda>skip_probe_bytes.
        Ok (min skip_probe_bytes (te_posting_size term)))))"

fun lookup_ngrams :: "RawNgramIndex \<Rightarrow> bytes list \<Rightarrow> usize list \<Rightarrow> bytes + usize list" where
  "lookup_ngrams self [] indexes = Inr indexes"
| "lookup_ngrams self (key # keys) indexes =
     (case term_index_for_key (rn_terms self) key of
        None \<Rightarrow> Inl key
      | Some index \<Rightarrow> lookup_ngrams self keys (indexes @ [index]))"

definition RawNgramIndex_search_impl ::
  "RawNgramIndex \<Rightarrow> SkeletonDetails \<Rightarrow> bytes \<Rightarrow> SearchOptions \<Rightarrow> range_read \<Rightarrow> SearchReport result"
where
  "RawNgramIndex_search_impl self details query options read_range =
     rbind (ngram_keys_for_query query (nd_n (rn_declaration self)) options) (\<lambda>query_keys.
     let planner = PlannerDecision_new query_keys;
         metrics = empty_search_metrics query ''ngram''
           (index_size_bytes (rn_granules self) (rn_terms self) (rn_encoded_postings self)) (rn_source_size_bytes self) in
     rbind (usize_to_u64 (length query_keys)) (\<lambda>n.
     let metrics = metrics\<lparr>sm_term_lookups := n\<rparr> in
     if query_keys = [] then
       Ok (early_exit_report metrics planner None (Some ''query_shorter_than_ngram_n'') (rn_complete self))
     else
       case lookup_ngrams self query_keys [] of
         Inl key \<Rightarrow>
           Ok (early_exit_report metrics (planner\<lparr>pd_missing_keys := [key]\<rparr>) None
             (incomplete_index_reason (rn_complete self)) (rn_complete self))
       | Inr indexes \<Rightarrow>
           let indexes = sort_key (\<lambda>index. (is_high_df self index, te_granule_frequency (rn_terms self ! index))) indexes;
               planner = planner\<lparr>pd_high_df_keys := map (\<lambda>index. te_key (rn_terms self ! index)) (filter (is_high_df self) indexes),
                 pd_used_skip_data := list_ex (\<lambda>index. rn_skip_data self ! index \<noteq> []) indexes,
                 pd_selected_keys := map (\<lambda>index. te_key (rn_terms self ! index)) indexes\<rparr> in
           rbind (rfold (\<lambda>posting_bytes index.
               rbind (reported_posting_bytes_read self index) (\<lambda>n.
               ok_or (checked_add posting_bytes n) ResourceLimitExceeded)) 0 indexes) (\<lambda>posting_bytes.
           rbind (check_raw_posting_budget indexes (rn_postings self) (rn_encoded_postings self) options) (\<lambda>_.
           search_postings (rn_granules self) (rn_complete self) details options read_range
             (\<lambda>decoded limit _ _. substring_spans decoded query limit) False
             (map (\<lambda>index. rn_postings self ! index) indexes) planner (metrics\<lparr>sm_posting_bytes_read := posting_bytes\<rparr>)))))"

definition RawNgramIndex_search ::
  "('h, 'x) ext_scheme \<Rightarrow> RawNgramIndex \<Rightarrow> QztReader \<Rightarrow> bytes \<Rightarrow> SearchOptions \<Rightarrow> SearchReport result"
where
  "RawNgramIndex_search X self r query options =
     RawNgramIndex_search_impl self (qr_details r) query options (QztReader_read_range_cached X r)"

definition RawNgramIndex_search_file ::
  "('h, 'x) ext_scheme \<Rightarrow> RawNgramIndex \<Rightarrow> QztFileReader \<Rightarrow> bytes \<Rightarrow> SearchOptions \<Rightarrow> SearchReport result"
where
  "RawNgramIndex_search_file X self r query options =
     RawNgramIndex_search_impl self (fr_details r) query options (QztFileReader_read_range_cached X r)"

end
