(* ===== verification/Sidecar.thy ===== *)
theory Sidecar
  imports Search
begin

text \<open>
  The QZI sidecar (src/src/sidecar.rs): a search index kept in a file beside its container. A
  sidecar is a magic number, a CBOR manifest that binds it to one container, and three
  checksummed sections for granules, terms and postings. The source has two readers: one
  restores the whole index in memory, the other keeps only the term dictionary and fetches
  postings and granules through positioned reads for every query. Both are translated.
  Cursors of the source are returned updated; \<open>candidates.binary_search\<close> is a lookup by
  value in a list that the intersection keeps strictly ascending; the growth of vectors in
  steps (\<open>try_reserve\<close> inside loops) is not modelled, and neither is opening by path.
\<close>

section \<open>Types\<close>

definition SIDECAR_MAGIC :: bytes where
  "SIDECAR_MAGIC = [0x51, 0x5A, 0x49, 0x53, 0x49, 0x44, 0x45, 0x31]"

definition SIDECAR_HEADER_LEN :: usize where
  "SIDECAR_HEADER_LEN = 16"

definition SIDECAR_LEGACY_RECORD_LEN :: u64 where
  "SIDECAR_LEGACY_RECORD_LEN = 56"

definition SIDECAR_COMPACT_RECORD_LEN :: u64 where
  "SIDECAR_COMPACT_RECORD_LEN = 20"

record SidecarLimits =
  sl_max_manifest_size :: u64
  sl_max_terms_size :: u64
  sl_max_term_count :: u64
  sl_max_granule_count :: u64
  sl_max_postings_size :: u64
  sl_max_posting_list_size :: u64
  sl_max_posting_bytes_per_query :: u64
  sl_max_decoded_posting_ids :: u64

definition SidecarLimits_default :: SidecarLimits where
  "SidecarLimits_default = \<lparr>sl_max_manifest_size = 16 * 1024 * 1024, sl_max_terms_size = 64 * 1024 * 1024,
     sl_max_term_count = 2000000, sl_max_granule_count = 10000000, sl_max_postings_size = 256 * 1024 * 1024,
     sl_max_posting_list_size = 64 * 1024 * 1024, sl_max_posting_bytes_per_query = 128 * 1024 * 1024,
     sl_max_decoded_posting_ids = 10000000\<rparr>"

definition reconstruction_limits :: "SidecarLimits \<Rightarrow> IndexBuildLimits" where
  "reconstruction_limits self = \<lparr>max_granules = sl_max_granule_count self, max_distinct_keys = sl_max_term_count self,
     max_posting_ids = sl_max_decoded_posting_ids self, max_key_bytes = sl_max_terms_size self,
     max_encoded_bytes = u64_end - 1\<rparr>"

record SidecarBuildOptions =
  sb_max_line_bytes :: u64
  sb_limits :: IndexBuildLimits

definition SidecarBuildOptions_default :: SidecarBuildOptions where
  "SidecarBuildOptions_default = \<lparr>sb_max_line_bytes = 16 * 1024 * 1024, sb_limits = IndexBuildLimits_default\<rparr>"

datatype GranuleEncoding = GranuleLegacyV1 | LineImpliedV2

datatype TermEncoding = TermLegacyV1 | CompactV2

fun TermEncoding_manifest_name :: "TermEncoding \<Rightarrow> string" where
  "TermEncoding_manifest_name TermLegacyV1 = ''legacy-v1''"
| "TermEncoding_manifest_name CompactV2 = ''key-posting-varint-v2''"

datatype SidecarFormatVersion = V1 | V2

fun schema_name :: "SidecarFormatVersion \<Rightarrow> string" where
  "schema_name V1 = ''qzt.sidecar.v1''"
| "schema_name V2 = ''qzt.sidecar.v2''"

fun record_len :: "GranuleEncoding \<Rightarrow> u64" where
  "record_len GranuleLegacyV1 = SIDECAR_LEGACY_RECORD_LEN"
| "record_len LineImpliedV2 = SIDECAR_COMPACT_RECORD_LEN"

fun GranuleEncoding_manifest_name :: "GranuleEncoding \<Rightarrow> string" where
  "GranuleEncoding_manifest_name GranuleLegacyV1 = ''legacy-v1''"
| "GranuleEncoding_manifest_name LineImpliedV2 = ''line-implied-v2''"

datatype SidecarIndexKind = TokenKind | NgramKind usize

datatype SidecarSearchIndex = TokenIndex RawTokenIndex | NgramIndex RawNgramIndex

record SectionRef =
  sec_offset :: u64
  sec_size :: u64
  sec_checksum :: Checksum

record SidecarManifest =
  mf_source_container_id :: bytes
  mf_source_original_checksum :: Checksum
  mf_source_qzt_footer_checksum :: Checksum
  mf_index_type :: string
  mf_ngram_n :: "usize option"
  mf_complete :: bool
  mf_high_df_per_million :: u32
  mf_index_size_bytes :: u64
  mf_source_size_bytes :: u64
  mf_format_version :: SidecarFormatVersion
  mf_granule_encoding :: GranuleEncoding
  mf_term_encoding :: TermEncoding
  mf_granules :: SectionRef
  mf_terms :: SectionRef
  mf_postings :: SectionRef

section \<open>Reading and writing numbers\<close>

text \<open>\<open>write_u64\<close> and \<open>write_u32\<close> append little-endian bytes.\<close>

definition write_u64 :: "u64 \<Rightarrow> bytes" where
  "write_u64 v = le_bytes 8 v"

definition write_u32 :: "u32 \<Rightarrow> bytes" where
  "write_u32 v = le_bytes 4 v"

function sidecar_write_varuint :: "u64 \<Rightarrow> bytes" where
  "sidecar_write_varuint value =
     (let byte = word_of_nat value AND 0x7f; value = drop_bit 7 value in
      if value \<noteq> 0 then (byte OR 0x80) # sidecar_write_varuint value else [byte])"
  by pat_completeness auto
termination
  by (relation "measure id") (auto simp: drop_bit_eq_div)

declare sidecar_write_varuint.simps [simp del]

definition sidecar_read_exact :: "bytes \<Rightarrow> usize \<Rightarrow> usize \<Rightarrow> (bytes \<times> usize) result" where
  "sidecar_read_exact bs cursor len =
     rbind (ok_or (checked_add cursor len) ResourceLimitExceeded) (\<lambda>e.
     rbind (ok_or (get_slice bs cursor e) UnexpectedEof) (\<lambda>part. Ok (part, e)))"

definition read_u64_cursor :: "bytes \<Rightarrow> usize \<Rightarrow> (u64 \<times> usize) result" where
  "read_u64_cursor bs cursor =
     rbind (sidecar_read_exact bs cursor 8) (\<lambda>(part, cursor).
     rbind (read_u64_le part) (\<lambda>v. Ok (v, cursor)))"

definition read_u32_cursor :: "bytes \<Rightarrow> usize \<Rightarrow> (u32 \<times> usize) result" where
  "read_u32_cursor bs cursor =
     rbind (sidecar_read_exact bs cursor 4) (\<lambda>(part, cursor).
     rbind (read_u32_le part) (\<lambda>v. Ok (v, cursor)))"

text \<open>The loop runs over the shifts \<open>(0..64).step_by(7)\<close>.\<close>

fun sidecar_varuint_loop :: "bytes \<Rightarrow> usize \<Rightarrow> u32 list \<Rightarrow> usize \<Rightarrow> u64 \<Rightarrow> (u64 \<times> usize) result" where
  "sidecar_varuint_loop bs start [] cursor value = Err ContainerCorrupt"
| "sidecar_varuint_loop bs start (shift # shifts) cursor value =
     rbind (sidecar_read_exact bs cursor 1) (\<lambda>(part, cursor).
     rbind (ok_or (get part 0) UnexpectedEof) (\<lambda>byte.
     let payload = unat (byte AND 0x7f) in
     if shift = 63 \<and> payload > 1 then Err ContainerCorrupt
     else
       rbind (ok_or (checked_shl payload shift) ContainerCorrupt) (\<lambda>b.
       let value = value OR b in
       if byte AND 0x80 = 0 then
         if length (sidecar_write_varuint value) \<noteq> cursor - start then Err ContainerCorrupt else Ok (value, cursor)
       else sidecar_varuint_loop bs start shifts cursor value)))"

definition sidecar_read_varuint :: "bytes \<Rightarrow> usize \<Rightarrow> (u64 \<times> usize) result" where
  "sidecar_read_varuint bs cursor =
     sidecar_varuint_loop bs cursor [0, 7, 14, 21, 28, 35, 42, 49, 56, 63] cursor 0"

definition none_if_max :: "u64 \<Rightarrow> u64 option" where
  "none_if_max v = (if v \<noteq> u64_end - 1 then Some v else None)"

definition u32_try_from :: "u64 \<Rightarrow> u32 result" where
  "u32_try_from v = (if v < u32_end then Ok v else Err ResourceLimitExceeded)"

section \<open>The manifest\<close>

definition section_ref_value :: "SectionRef \<Rightarrow> CborValue" where
  "section_ref_value s =
     CMap [text_pair ''offset'' (u64_value (sec_offset s)), text_pair ''size'' (u64_value (sec_size s)),
       text_pair ''checksum'' (checksum_value (sec_checksum s))]"

definition index_manifest_entries :: "SidecarManifest \<Rightarrow> entries" where
  "index_manifest_entries m =
     [text_pair ''schema'' (Text ''qzt.search-index.v1''),
      text_pair ''kind'' (Text (mf_index_type m)),
      text_pair ''posting_granularity'' (Text ''line''),
      text_pair ''index_size_bytes'' (u64_value (mf_index_size_bytes m)),
      text_pair ''source_size_bytes'' (u64_value (mf_source_size_bytes m))]"

definition section_entries :: "SidecarManifest \<Rightarrow> entries" where
  "section_entries m =
     [text_pair ''granules'' (section_ref_value (mf_granules m)),
      text_pair ''terms'' (section_ref_value (mf_terms m)),
      text_pair ''postings'' (section_ref_value (mf_postings m))]"

definition manifest_entries :: "SidecarManifest \<Rightarrow> entries" where
  "manifest_entries m =
     [text_pair ''schema'' (Text (schema_name (mf_format_version m))),
      text_pair ''source_container_id'' (Bytes (mf_source_container_id m)),
      text_pair ''source_format_version'' (Array [Integer 0, Integer 1]),
      text_pair ''source_original_checksum'' (checksum_value (mf_source_original_checksum m)),
      text_pair ''source_qzt_footer_checksum'' (checksum_value (mf_source_qzt_footer_checksum m)),
      text_pair ''index_type'' (Text (mf_index_type m)),
      text_pair ''ngram_n'' (case mf_ngram_n m of None \<Rightarrow> CNull | Some n \<Rightarrow> Integer (int n)),
      text_pair ''complete'' (CBool (mf_complete m)),
      text_pair ''high_df_per_million'' (Integer (int (mf_high_df_per_million m))),
      text_pair ''granule_encoding'' (Text (GranuleEncoding_manifest_name (mf_granule_encoding m))),
      text_pair ''term_encoding'' (Text (TermEncoding_manifest_name (mf_term_encoding m))),
      text_pair ''index_manifest'' (CMap (index_manifest_entries m)),
      text_pair ''sections'' (CMap (section_entries m))]"

definition encode_manifest :: "SidecarManifest \<Rightarrow> bytes result" where
  "encode_manifest m = encode_deterministic (CMap (manifest_entries m))"

fun parse_format_version_component :: "CborValue \<Rightarrow> u16 result" where
  "parse_format_version_component (Integer v) = (if 0 \<le> v \<and> v < 2 ^ 16 then Ok (nat v) else Err ContainerCorrupt)"
| "parse_format_version_component _ = Err ContainerCorrupt"

definition expect_source_format_version :: "entries \<Rightarrow> unit result" where
  "expect_source_format_version m =
     rbind (field m ''source_format_version'' ContainerCorrupt) (\<lambda>v.
     case v of
       Array values \<Rightarrow>
         if length values = 2 then
           rbind (parse_format_version_component (values ! 0)) (\<lambda>major.
           rbind (parse_format_version_component (values ! 1)) (\<lambda>minor.
           if major \<noteq> MAJOR_VERSION \<or> minor \<noteq> MINOR_VERSION then Err UnsupportedVersion else Ok ()))
         else Err ContainerCorrupt
     | _ \<Rightarrow> Err ContainerCorrupt)"

definition section_ref_from :: "entries \<Rightarrow> string \<Rightarrow> SectionRef result" where
  "section_ref_from m key =
     rbind (rbind (field m key ContainerCorrupt) (\<lambda>v. as_map v ContainerCorrupt)) (\<lambda>sect.
     rbind (required_u64_with_overflow sect ''offset'' ContainerCorrupt ResourceLimitExceeded) (\<lambda>off.
     rbind (required_u64_with_overflow sect ''size'' ContainerCorrupt ResourceLimitExceeded) (\<lambda>sz.
     rbind (required_checksum sect ''checksum'' ContainerCorrupt) (\<lambda>c.
     Ok \<lparr>sec_offset = off, sec_size = sz, sec_checksum = c\<rparr>))))"

text \<open>\<open>encoding_field\<close>: the value of a key, if it is there\<close>

fun encoding_field :: "entries \<Rightarrow> string \<Rightarrow> CborValue option" where
  "encoding_field [] name = None"
| "encoding_field ((Text text, v) # es) name = (if text = name then Some v else encoding_field es name)"
| "encoding_field (_ # es) name = encoding_field es name"

definition decode_encodings :: "SidecarFormatVersion \<Rightarrow> entries \<Rightarrow> (GranuleEncoding \<times> TermEncoding) result" where
  "decode_encodings format_version m =
     (let granule_field = encoding_field m ''granule_encoding'';
          term_field = encoding_field m ''term_encoding'' in
      case format_version of
        V1 \<Rightarrow> if granule_field = None \<and> term_field = None then Ok (GranuleLegacyV1, TermLegacyV1) else Err ContainerCorrupt
      | V2 \<Rightarrow>
          rbind (if granule_field = Some (Text ''legacy-v1'') then Ok GranuleLegacyV1
                 else if granule_field = Some (Text ''line-implied-v2'') then Ok LineImpliedV2
                 else Err ContainerCorrupt) (\<lambda>granule_encoding.
          if term_field = Some (Text ''key-posting-varint-v2'') then Ok (granule_encoding, CompactV2)
          else Err ContainerCorrupt))"

definition decode_ngram_n :: "entries \<Rightarrow> usize option result" where
  "decode_ngram_n m =
     rbind (field m ''ngram_n'' ContainerCorrupt) (\<lambda>v.
     case v of
       CNull \<Rightarrow> Ok None
     | Integer n \<Rightarrow>
         if n \<ge> 0 then rbind (ok_or (u64_try_from n) ResourceLimitExceeded) (\<lambda>n. Ok (Some n)) else Err ContainerCorrupt
     | _ \<Rightarrow> Err ContainerCorrupt)"

definition decode_manifest :: "bytes \<Rightarrow> SidecarManifest result" where
  "decode_manifest bs =
     rbind (validate_deterministic bs) (\<lambda>v.
     rbind (as_map v ContainerCorrupt) (\<lambda>m.
     rbind (required_text m ''schema'' ContainerCorrupt) (\<lambda>schema.
     rbind (if schema = ''qzt.sidecar.v1'' then Ok V1 else if schema = ''qzt.sidecar.v2'' then Ok V2
            else Err ContainerCorrupt) (\<lambda>format_version.
     rbind (expect_source_format_version m) (\<lambda>_.
     rbind (required_bstr16 m ''source_container_id'' ContainerCorrupt) (\<lambda>cid.
     rbind (required_checksum m ''source_original_checksum'' ContainerCorrupt) (\<lambda>original_checksum.
     rbind (required_checksum m ''source_qzt_footer_checksum'' ContainerCorrupt) (\<lambda>footer_checksum.
     rbind (required_text m ''index_type'' ContainerCorrupt) (\<lambda>index_type.
     rbind (decode_ngram_n m) (\<lambda>ngram_n.
     rbind (required_bool m ''complete'' ContainerCorrupt) (\<lambda>complete.
     rbind (rbind (required_u64_with_overflow m ''high_df_per_million'' ContainerCorrupt ResourceLimitExceeded) u32_try_from)
       (\<lambda>high_df_per_million.
     rbind (decode_encodings format_version m) (\<lambda>(granule_encoding, term_encoding).
     rbind (rbind (field m ''index_manifest'' ContainerCorrupt) (\<lambda>v. as_map v ContainerCorrupt)) (\<lambda>index_manifest.
     rbind (required_text index_manifest ''schema'' ContainerCorrupt) (\<lambda>index_schema.
     if index_schema \<noteq> ''qzt.search-index.v1'' then Err ContainerCorrupt
     else
       rbind (required_text index_manifest ''kind'' ContainerCorrupt) (\<lambda>kind.
       if kind \<noteq> index_type then Err ContainerCorrupt
       else
         rbind (required_text index_manifest ''posting_granularity'' ContainerCorrupt) (\<lambda>granularity.
         if granularity \<noteq> ''line'' then Err ContainerCorrupt
         else
           rbind (required_u64_with_overflow index_manifest ''index_size_bytes'' ContainerCorrupt ResourceLimitExceeded)
             (\<lambda>index_size_bytes.
           rbind (required_u64_with_overflow index_manifest ''source_size_bytes'' ContainerCorrupt ResourceLimitExceeded)
             (\<lambda>source_size_bytes.
           rbind (rbind (field m ''sections'' ContainerCorrupt) (\<lambda>v. as_map v ContainerCorrupt)) (\<lambda>sections.
           rbind (section_ref_from sections ''granules'') (\<lambda>granules.
           rbind (section_ref_from sections ''terms'') (\<lambda>terms.
           rbind (section_ref_from sections ''postings'') (\<lambda>postings.
           Ok \<lparr>mf_source_container_id = cid, mf_source_original_checksum = original_checksum,
               mf_source_qzt_footer_checksum = footer_checksum, mf_index_type = index_type, mf_ngram_n = ngram_n,
               mf_complete = complete, mf_high_df_per_million = high_df_per_million,
               mf_index_size_bytes = index_size_bytes, mf_source_size_bytes = source_size_bytes,
               mf_format_version = format_version, mf_granule_encoding = granule_encoding,
               mf_term_encoding = term_encoding, mf_granules = granules, mf_terms = terms, mf_postings = postings\<rparr>
           )))))))))))))))))))))))"

definition validate_manifest_layout :: "SidecarManifest \<Rightarrow> u64 \<Rightarrow> unit result" where
  "validate_manifest_layout m payload_size =
     (let terms_offset = sec_size (mf_granules m) in
      rbind (ok_or (checked_add terms_offset (sec_size (mf_terms m))) ResourceLimitExceeded) (\<lambda>postings_offset.
      rbind (ok_or (checked_add postings_offset (sec_size (mf_postings m))) ResourceLimitExceeded) (\<lambda>expected_size.
      if sec_offset (mf_granules m) \<noteq> 0 \<or> sec_offset (mf_terms m) \<noteq> terms_offset \<or>
         sec_offset (mf_postings m) \<noteq> postings_offset \<or> mf_index_size_bytes m \<noteq> expected_size
      then Err ContainerCorrupt
      else if payload_size < expected_size then Err UnexpectedEof
      else if payload_size > expected_size then Err ContainerCorrupt
      else Ok ())))"

definition validate_manifest_resource_limits :: "SidecarManifest \<Rightarrow> SidecarLimits \<Rightarrow> unit result" where
  "validate_manifest_resource_limits m limits =
     rbind (rbind (ok_or (checked_mul (sl_max_granule_count limits) (record_len (mf_granule_encoding m))) ResourceLimitExceeded)
       (\<lambda>sz. ok_or (checked_add sz 8) ResourceLimitExceeded)) (\<lambda>maximum_granules_size.
     if sec_size (mf_granules m) > maximum_granules_size then Err ResourceLimitExceeded
     else if sec_size (mf_terms m) > sl_max_terms_size limits then Err ResourceLimitExceeded
     else if sec_size (mf_postings m) > sl_max_postings_size limits then Err ResourceLimitExceeded
     else Ok ())"

section \<open>Granules\<close>

fun encode_granule :: "GranuleEncoding \<Rightarrow> SearchGranule \<Rightarrow> bytes result" where
  "encode_granule GranuleLegacyV1 g = Ok (write_u64 (sg_granule_id g) @ write_u64 (sg_logical_offset g) @
     write_u64 (sg_byte_length g) @ write_u64 (sg_chunk_start g) @ write_u64 (sg_chunk_end g) @
     write_u64 (case sg_first_line g of None \<Rightarrow> u64_end - 1 | Some v \<Rightarrow> v) @
     write_u64 (case sg_line_count g of None \<Rightarrow> u64_end - 1 | Some v \<Rightarrow> v))"
| "encode_granule LineImpliedV2 g =
     rbind (u32_try_from (sg_byte_length g)) (\<lambda>len.
     rbind (u32_try_from (sg_chunk_start g)) (\<lambda>chunk_start.
     rbind (ok_or (checked_sub (sg_chunk_end g) (sg_chunk_start g)) ChunkTableInvalid) (\<lambda>span.
     rbind (u32_try_from span) (\<lambda>span.
     Ok (write_u64 (sg_logical_offset g) @ write_u32 len @ write_u32 chunk_start @ write_u32 span)))))"

definition encode_granules :: "SearchGranule list \<Rightarrow> GranuleEncoding \<Rightarrow> bytes result" where
  "encode_granules granules encoding =
     rbind (usize_to_u64 (length granules)) (\<lambda>n.
     rfold (\<lambda>bs g. rbind (encode_granule encoding g) (\<lambda>b. Ok (bs @ b))) (write_u64 n) granules)"

definition decode_granule_fields :: "GranuleEncoding \<Rightarrow> bytes \<Rightarrow> u64 \<Rightarrow> (SearchGranule \<times> usize) result" where
  "decode_granule_fields encoding bs expected_granule_id =
     (case encoding of
        GranuleLegacyV1 \<Rightarrow>
          rbind (read_u64_cursor bs 0) (\<lambda>(granule_id, cursor).
          rbind (read_u64_cursor bs cursor) (\<lambda>(offset, cursor).
          rbind (read_u64_cursor bs cursor) (\<lambda>(len, cursor).
          rbind (read_u64_cursor bs cursor) (\<lambda>(chunk_start, cursor).
          rbind (read_u64_cursor bs cursor) (\<lambda>(chunk_end, cursor).
          rbind (read_u64_cursor bs cursor) (\<lambda>(line, cursor).
          rbind (read_u64_cursor bs cursor) (\<lambda>(lines, cursor).
          Ok (\<lparr>sg_granule_id = granule_id, sg_logical_offset = offset, sg_byte_length = len,
               sg_chunk_start = chunk_start, sg_chunk_end = chunk_end, sg_first_line = none_if_max line,
               sg_line_count = none_if_max lines\<rparr>, cursor))))))))
      | LineImpliedV2 \<Rightarrow>
          rbind (read_u64_cursor bs 0) (\<lambda>(offset, cursor).
          rbind (read_u32_cursor bs cursor) (\<lambda>(len, cursor).
          rbind (read_u32_cursor bs cursor) (\<lambda>(chunk_start, cursor).
          rbind (read_u32_cursor bs cursor) (\<lambda>(chunk_span, cursor).
          rbind (ok_or (checked_add chunk_start chunk_span) ResourceLimitExceeded) (\<lambda>chunk_end.
          Ok (\<lparr>sg_granule_id = expected_granule_id, sg_logical_offset = offset, sg_byte_length = len,
               sg_chunk_start = chunk_start, sg_chunk_end = chunk_end, sg_first_line = Some expected_granule_id,
               sg_line_count = Some 1\<rparr>, cursor)))))))"

definition decode_granule_record :: "bytes \<Rightarrow> u64 \<Rightarrow> GranuleEncoding \<Rightarrow> SearchGranule result" where
  "decode_granule_record bs expected_granule_id encoding =
     rbind (decode_granule_fields encoding bs expected_granule_id) (\<lambda>(granule, cursor).
     if cursor \<noteq> length bs \<or> sg_granule_id granule \<noteq> expected_granule_id then Err ContainerCorrupt else Ok granule)"

definition decode_granules :: "bytes \<Rightarrow> GranuleEncoding \<Rightarrow> SidecarLimits \<Rightarrow> SearchGranule list result" where
  "decode_granules bs encoding limits =
     rbind (read_u64_cursor bs 0) (\<lambda>(n, cursor).
     if n > sl_max_granule_count limits then Err ResourceLimitExceeded
     else
       rbind (rbind (ok_or (checked_mul n (record_len encoding)) ResourceLimitExceeded)
         (\<lambda>records. ok_or (checked_add records 8) ResourceLimitExceeded)) (\<lambda>expected_len.
       rbind (usize_to_u64 (length bs)) (\<lambda>actual.
       if expected_len \<noteq> actual then Err ContainerCorrupt
       else
         rbind (u64_to_usize n) (\<lambda>n.
         rbind (rfold (\<lambda>(granules, cursor) granule_id.
             rbind (u64_to_usize (record_len encoding)) (\<lambda>len.
             rbind (sidecar_read_exact bs cursor len) (\<lambda>(part, cursor).
             rbind (decode_granule_record part granule_id encoding) (\<lambda>granule.
             Ok (granules @ [granule], cursor))))) ([], cursor) [0 ..< n]) (\<lambda>(granules, cursor).
         if cursor \<noteq> length bs then Err ContainerCorrupt else Ok granules)))))"

section \<open>Terms\<close>

fun encode_term :: "TermEncoding \<Rightarrow> TermDictionaryEntry \<Rightarrow> bytes result" where
  "encode_term TermLegacyV1 term =
     rbind (usize_to_u64 (length (te_key term))) (\<lambda>n.
     Ok (write_u64 n @ te_key term @ te_key_hash term @ write_u64 (te_document_frequency term) @
       write_u64 (te_granule_frequency term) @ write_u64 (te_posting_offset term) @ write_u64 (te_posting_size term) @
       write_u64 (te_skip_offset term) @ write_u64 (te_skip_size term) @ write_u64 (te_flags term)))"
| "encode_term CompactV2 term =
     rbind (usize_to_u64 (length (te_key term))) (\<lambda>n.
     Ok (sidecar_write_varuint n @ te_key term @ sidecar_write_varuint (te_granule_frequency term) @
       sidecar_write_varuint (te_posting_size term)))"

definition encode_terms :: "TermDictionaryEntry list \<Rightarrow> TermEncoding \<Rightarrow> bytes result" where
  "encode_terms terms encoding =
     rbind (usize_to_u64 (length terms)) (\<lambda>n.
     rfold (\<lambda>bs term. rbind (encode_term encoding term) (\<lambda>b. Ok (bs @ b))) (write_u64 n) terms)"

definition decode_legacy_term :: "bytes \<Rightarrow> usize \<Rightarrow> (TermDictionaryEntry \<times> usize) result" where
  "decode_legacy_term bs cursor =
     rbind (read_u64_cursor bs cursor) (\<lambda>(n, cursor).
     rbind (u64_to_usize n) (\<lambda>key_len.
     if key_len = 0 then Err ContainerCorrupt
     else
       rbind (sidecar_read_exact bs cursor key_len) (\<lambda>(key, cursor).
       rbind (sidecar_read_exact bs cursor 16) (\<lambda>(hash, cursor).
       rbind (read_u64_cursor bs cursor) (\<lambda>(document_frequency, cursor).
       rbind (read_u64_cursor bs cursor) (\<lambda>(granule_frequency, cursor).
       rbind (read_u64_cursor bs cursor) (\<lambda>(posting_offset, cursor).
       rbind (read_u64_cursor bs cursor) (\<lambda>(posting_size, cursor).
       rbind (read_u64_cursor bs cursor) (\<lambda>(skip_offset, cursor).
       rbind (read_u64_cursor bs cursor) (\<lambda>(skip_size, cursor).
       rbind (read_u64_cursor bs cursor) (\<lambda>(fl, cursor).
       Ok (\<lparr>te_key = key, te_key_hash = hash, te_document_frequency = document_frequency,
            te_granule_frequency = granule_frequency, te_posting_offset = posting_offset,
            te_posting_size = posting_size, te_skip_offset = skip_offset, te_skip_size = skip_size,
            te_flags = fl\<rparr>, cursor))))))))))))"

definition decode_compact_term ::
  "('h, 'x) ext_scheme \<Rightarrow> bytes \<Rightarrow> usize \<Rightarrow> u64 \<Rightarrow> (TermDictionaryEntry \<times> usize \<times> u64) result"
where
  "decode_compact_term X bs cursor posting_offset =
     rbind (sidecar_read_varuint bs cursor) (\<lambda>(n, cursor).
     rbind (u64_to_usize n) (\<lambda>key_len.
     if key_len = 0 then Err ContainerCorrupt
     else
       rbind (sidecar_read_exact bs cursor key_len) (\<lambda>(key, cursor).
       rbind (sidecar_read_varuint bs cursor) (\<lambda>(granule_frequency, cursor).
       rbind (sidecar_read_varuint bs cursor) (\<lambda>(posting_size, cursor).
       rbind (ok_or (checked_add posting_offset posting_size) ResourceLimitExceeded) (\<lambda>posting_end.
       Ok (\<lparr>te_key = key, te_key_hash = key_hash X key, te_document_frequency = 0,
            te_granule_frequency = granule_frequency, te_posting_offset = posting_offset,
            te_posting_size = posting_size, te_skip_offset = 0, te_skip_size = 0, te_flags = 0\<rparr>, cursor, posting_end)))))))"

definition decode_term ::
  "('h, 'x) ext_scheme \<Rightarrow> bytes \<Rightarrow> TermEncoding \<Rightarrow> TermDictionaryEntry list \<times> usize \<times> u64 \<Rightarrow>
   (TermDictionaryEntry list \<times> usize \<times> u64) result"
where
  "decode_term X bs encoding st =
     (case st of (terms, cursor, posting_offset) \<Rightarrow>
       rbind (case encoding of
                TermLegacyV1 \<Rightarrow> rbind (decode_legacy_term bs cursor) (\<lambda>(term, cursor). Ok (term, cursor, posting_offset))
              | CompactV2 \<Rightarrow> decode_compact_term X bs cursor posting_offset) (\<lambda>(term, cursor, posting_offset).
       if te_granule_frequency term = 0 \<or> te_posting_size term = 0 \<or> te_flags term \<noteq> 0 \<or>
          (encoding = TermLegacyV1 \<and> te_key_hash term \<noteq> key_hash X (te_key term)) \<or>
          (terms \<noteq> [] \<and> te_key (last terms) \<ge> te_key term)
       then Err ContainerCorrupt else Ok (terms @ [term], cursor, posting_offset)))"

definition decode_terms ::
  "('h, 'x) ext_scheme \<Rightarrow> bytes \<Rightarrow> TermEncoding \<Rightarrow> SidecarLimits \<Rightarrow> TermDictionaryEntry list result"
where
  "decode_terms X bs encoding limits =
     rbind (usize_to_u64 (length bs)) (\<lambda>len.
     if len > sl_max_terms_size limits then Err ResourceLimitExceeded
     else
       rbind (read_u64_cursor bs 0) (\<lambda>(n, cursor).
       if n > sl_max_term_count limits then Err ResourceLimitExceeded
       else
         let minimum_record_len = (case encoding of TermLegacyV1 \<Rightarrow> 80 | CompactV2 \<Rightarrow> 3) in
         rbind (usize_to_u64 (length bs - cursor)) (\<lambda>available.
         if n > available div minimum_record_len then Err ContainerCorrupt
         else
           rbind (u64_to_usize n) (\<lambda>n.
           rbind (rfold (\<lambda>st _. decode_term X bs encoding st) ([], cursor, 0) [0 ..< n]) (\<lambda>(terms, cursor, _).
           if cursor \<noteq> length bs then Err ContainerCorrupt else Ok terms)))))"

definition validate_file_term ::
  "('h, 'x) ext_scheme \<Rightarrow> TermEncoding \<Rightarrow> u64 \<Rightarrow> u64 \<times> u64 \<Rightarrow> TermDictionaryEntry \<Rightarrow> (u64 \<times> u64) result"
where
  "validate_file_term X encoding granule_count st term =
     (case st of (expected_posting_offset, expected_skip_offset) \<Rightarrow>
       if te_key term = [] \<or> (encoding = TermLegacyV1 \<and> te_key_hash term \<noteq> key_hash X (te_key term)) then Err ContainerCorrupt
       else if te_flags term \<noteq> 0 then Err InvalidFlags
       else if te_document_frequency term \<noteq> 0 \<or> te_granule_frequency term = 0 \<or>
               te_granule_frequency term > granule_count \<or> te_posting_size term = 0 then Err ContainerCorrupt
       else if te_posting_offset term \<noteq> expected_posting_offset \<or>
               (encoding = TermLegacyV1 \<and> (te_skip_offset term \<noteq> expected_skip_offset \<or> te_skip_size term mod 24 \<noteq> 0)) \<or>
               (encoding = CompactV2 \<and> (te_skip_offset term \<noteq> 0 \<or> te_skip_size term \<noteq> 0)) then Err ContainerCorrupt
       else
         rbind (ok_or (checked_add expected_posting_offset (te_posting_size term)) ResourceLimitExceeded) (\<lambda>p.
         rbind (ok_or (checked_add expected_skip_offset (te_skip_size term)) ResourceLimitExceeded) (\<lambda>s.
         Ok (p, s))))"

definition validate_file_term_dictionary ::
  "('h, 'x) ext_scheme \<Rightarrow> TermDictionaryEntry list \<Rightarrow> u64 \<Rightarrow> TermEncoding \<Rightarrow> u64 \<Rightarrow> unit result"
where
  "validate_file_term_dictionary X terms postings_size encoding granule_count =
     rbind (rfold (validate_file_term X encoding granule_count) (0, 0) terms) (\<lambda>(expected_posting_offset, _).
     if \<not> windows2_all (\<lambda>a b. te_key a < te_key b) terms \<or> expected_posting_offset \<noteq> postings_size
     then Err ContainerCorrupt else Ok ())"

section \<open>Postings\<close>

definition encode_posting_section :: "u64 list list \<Rightarrow> bytes result" where
  "encode_posting_section postings =
     rfold (\<lambda>bs posting. rbind (encode_delta_varint_u64 posting) (\<lambda>b. Ok (bs @ b))) [] postings"

definition decode_section_posting ::
  "bytes \<Rightarrow> SidecarLimits \<Rightarrow> u64 list list \<times> u64 \<Rightarrow> TermDictionaryEntry \<Rightarrow> (u64 list list \<times> u64) result"
where
  "decode_section_posting bs limits st term =
     (case st of (postings, remaining_ids) \<Rightarrow>
       if te_posting_size term > sl_max_posting_list_size limits then Err ResourceLimitExceeded
       else
         rbind (u64_to_usize (te_posting_offset term)) (\<lambda>start.
         rbind (rbind (u64_to_usize (te_posting_size term)) (\<lambda>n. ok_or (checked_add start n) ResourceLimitExceeded)) (\<lambda>e.
         rbind (ok_or (get_slice bs start e) UnexpectedEof) (\<lambda>encoded.
         rbind (decode_delta_varint_u64_with_limit encoded remaining_ids) (\<lambda>posting.
         rbind (rbind (usize_to_u64 (length posting)) (\<lambda>n. ok_or (checked_sub remaining_ids n) ResourceLimitExceeded))
           (\<lambda>remaining_ids.
         Ok (postings @ [posting], remaining_ids)))))))"

definition decode_posting_section ::
  "bytes \<Rightarrow> TermDictionaryEntry list \<Rightarrow> SidecarLimits \<Rightarrow> u64 list list result"
where
  "decode_posting_section bs terms limits =
     rbind (usize_to_u64 (length bs)) (\<lambda>len.
     if len > sl_max_postings_size limits then Err ResourceLimitExceeded
     else
       rbind (rfold (decode_section_posting bs limits) ([], sl_max_decoded_posting_ids limits) terms) (\<lambda>(postings, _).
       Ok postings))"

definition validate_decoded_postings :: "TermDictionaryEntry list \<Rightarrow> u64 list list \<Rightarrow> usize \<Rightarrow> unit result" where
  "validate_decoded_postings terms postings granule_count =
     (if length terms \<noteq> length postings then Err ContainerCorrupt
      else
        rbind (usize_to_u64 granule_count) (\<lambda>granule_count.
        rfold (\<lambda>_ (term, posting).
            rbind (usize_to_u64 (length posting)) (\<lambda>n.
            if te_granule_frequency term \<noteq> n \<or> list_ex (\<lambda>id. id \<ge> granule_count) posting then Err ContainerCorrupt
            else Ok ())) () (zip terms postings)))"

section \<open>Building\<close>

text \<open>The running size of the sections, refused as soon as it passes the limit.\<close>

definition add_section_size :: "u64 \<Rightarrow> u64 \<Rightarrow> u64 \<Rightarrow> u64 result" where
  "add_section_size limit sz n =
     rbind (ok_or (checked_add sz n) ResourceLimitExceeded) (\<lambda>sz.
     if sz > limit then Err ResourceLimitExceeded else Ok sz)"

definition check_build_section_size ::
  "SearchGranule list \<Rightarrow> TermDictionaryEntry list \<Rightarrow> u64 list list \<Rightarrow> GranuleEncoding \<Rightarrow> u64 \<Rightarrow> unit result"
where
  "check_build_section_size granules terms postings encoding limit =
     (let width = (case encoding of LineImpliedV2 \<Rightarrow> SIDECAR_COMPACT_RECORD_LEN | GranuleLegacyV1 \<Rightarrow> SIDECAR_LEGACY_RECORD_LEN) in
      rbind (rbind (usize_to_u64 (length granules)) (\<lambda>n.
        rbind (ok_or (checked_mul n width) ResourceLimitExceeded) (\<lambda>v. ok_or (checked_add v 16) ResourceLimitExceeded))) (\<lambda>sz.
      rbind (add_section_size limit sz 0) (\<lambda>sz.
      rbind (rfold (\<lambda>sz (term, posting).
          rbind (usize_to_u64 (length (te_key term))) (\<lambda>len.
          rbind (add_section_size limit sz len) (\<lambda>sz.
          rbind (rfold (\<lambda>sz v. add_section_size limit sz (varuint_len v)) sz
            [len, te_granule_frequency term, te_posting_size term]) (\<lambda>sz.
          rbind (encoded_delta_varint_size posting) (add_section_size limit sz))))) sz (zip terms postings)) (\<lambda>_.
      Ok ()))))"

type_synonym index_parts =
  "string \<times> usize option \<times> bool \<times> u32 \<times> SearchGranule list \<times> TermDictionaryEntry list \<times> u64 list list"

definition build_index_parts ::
  "('h, 'x) ext_scheme \<Rightarrow> QztFileReader \<Rightarrow> SidecarIndexKind \<Rightarrow> SidecarBuildOptions \<Rightarrow> index_parts result"
where
  "build_index_parts X r kind options =
     (case kind of
        TokenKind \<Rightarrow>
          rbind (RawTokenIndex_build_from_file X r (TokenIndexBuildOptions_default\<lparr>to_max_line_bytes := sb_max_line_bytes options,
              to_limits := sb_limits options\<rparr>)) (\<lambda>index.
          Ok (''token'', None, rt_complete index, 200000, rt_granules index, rt_terms index, rt_postings index))
      | NgramKind n \<Rightarrow>
          rbind (RawNgramIndex_build_from_file X r (NgramIndexBuildOptions_default\<lparr>no_max_line_bytes := sb_max_line_bytes options,
              no_limits := sb_limits options, no_n := n\<rparr>)) (\<lambda>index.
          Ok (''ngram'', Some n, rn_complete index, pc_high_df_per_million (rn_planner_config index), rn_granules index,
              rn_terms index, rn_postings index)))"

definition build_search_sidecar_from_file_with_options ::
  "('h, 'x) ext_scheme \<Rightarrow> QztFileReader \<Rightarrow> SidecarIndexKind \<Rightarrow> SidecarBuildOptions \<Rightarrow> bytes result"
where
  "build_search_sidecar_from_file_with_options X r kind options =
     (let details = fr_details r in
      rbind (QztFileReader_footer_checksum X r) (\<lambda>footer_checksum.
      rbind (build_index_parts X r kind options)
        (\<lambda>(index_type, ngram_n, complete, high_df_per_million, granules, terms, postings).
      let granule_encoding = (if compact_line_granules_supported granules then LineImpliedV2 else GranuleLegacyV1) in
      rbind (check_build_section_size granules terms postings granule_encoding (max_encoded_bytes (sb_limits options))) (\<lambda>_.
      rbind (encode_granules granules granule_encoding) (\<lambda>granule_bytes.
      rbind (encode_posting_section postings) (\<lambda>posting_bytes.
      rbind (encode_terms terms CompactV2) (\<lambda>term_bytes.
      rbind (usize_to_u64 (length granule_bytes)) (\<lambda>terms_offset.
      rbind (usize_to_u64 (length term_bytes)) (\<lambda>terms_size.
      rbind (ok_or (checked_add terms_offset terms_size) ResourceLimitExceeded) (\<lambda>postings_offset.
      rbind (usize_to_u64 (length posting_bytes)) (\<lambda>postings_size.
      rbind (ok_or (checked_add postings_offset postings_size) ResourceLimitExceeded) (\<lambda>index_size_bytes.
      let manifest = \<lparr>mf_source_container_id = ss_container_id (sk_summary details),
            mf_source_original_checksum = md_original_checksum (sk_metadata details),
            mf_source_qzt_footer_checksum = footer_checksum, mf_index_type = index_type, mf_ngram_n = ngram_n,
            mf_complete = complete, mf_high_df_per_million = high_df_per_million,
            mf_index_size_bytes = index_size_bytes, mf_source_size_bytes = ss_original_size (sk_summary details),
            mf_format_version = V2, mf_granule_encoding = granule_encoding, mf_term_encoding = CompactV2,
            mf_granules = \<lparr>sec_offset = 0, sec_size = terms_offset, sec_checksum = Checksum_blake3 X granule_bytes\<rparr>,
            mf_terms = \<lparr>sec_offset = terms_offset, sec_size = terms_size, sec_checksum = Checksum_blake3 X term_bytes\<rparr>,
            mf_postings = \<lparr>sec_offset = postings_offset, sec_size = postings_size,
              sec_checksum = Checksum_blake3 X posting_bytes\<rparr>\<rparr> in
      rbind (encode_manifest manifest) (\<lambda>manifest_bytes.
      rbind (ok_or (checked_add SIDECAR_HEADER_LEN (length manifest_bytes)) ResourceLimitExceeded) (\<lambda>capacity.
      rbind (ok_or (checked_add capacity (length granule_bytes)) ResourceLimitExceeded) (\<lambda>capacity.
      rbind (ok_or (checked_add capacity (length term_bytes)) ResourceLimitExceeded) (\<lambda>capacity.
      rbind (ok_or (checked_add capacity (length posting_bytes)) ResourceLimitExceeded) (\<lambda>capacity.
      rbind (ok_or (try_reserve_exact capacity) ResourceLimitExceeded) (\<lambda>_.
      rbind (usize_to_u64 (length manifest_bytes)) (\<lambda>manifest_size.
      Ok (SIDECAR_MAGIC @ le_bytes 8 manifest_size @ manifest_bytes @ granule_bytes @ term_bytes @ posting_bytes))))))))))))))))))))"

definition build_search_sidecar_from_file ::
  "('h, 'x) ext_scheme \<Rightarrow> QztFileReader \<Rightarrow> SidecarIndexKind \<Rightarrow> bytes result"
where
  "build_search_sidecar_from_file X r kind =
     build_search_sidecar_from_file_with_options X r kind SidecarBuildOptions_default"

definition build_search_sidecar :: "('h, 'x) ext_scheme \<Rightarrow> bytes \<Rightarrow> SidecarIndexKind \<Rightarrow> bytes result" where
  "build_search_sidecar X qzt_bytes kind =
     rbind (usize_to_u64 (length qzt_bytes)) (\<lambda>len.
     rbind (QztFileReader_open_read_at X (slice_read_exact_at qzt_bytes) len) (\<lambda>r.
     build_search_sidecar_from_file X r kind))"

end
