(* ===== verification/Sidecar_Reader.thy ===== *)
theory Sidecar_Reader
  imports Sidecar
begin

text \<open>
  The two readers of a QZI sidecar (src/src/sidecar.rs): \<open>QziSidecar\<close>, which restores the index
  in memory, and \<open>QziFileSidecar\<close>, which reads postings and granules per query from a positioned
  source.
\<close>

section \<open>Binding to a container\<close>

definition validate_reader_binding :: "SidecarManifest \<Rightarrow> SkeletonDetails \<Rightarrow> Checksum \<Rightarrow> unit result" where
  "validate_reader_binding m details footer_checksum =
     (if mf_source_container_id m \<noteq> ss_container_id (sk_summary details) then Err ContainerIdMismatch
      else if mf_source_original_checksum m \<noteq> md_original_checksum (sk_metadata details) \<or>
              mf_source_qzt_footer_checksum m \<noteq> footer_checksum \<or>
              mf_source_size_bytes m \<noteq> ss_original_size (sk_summary details) then Err ContainerCorrupt
      else Ok ())"

definition qzt_footer_checksum :: "('h, 'x) ext_scheme \<Rightarrow> bytes \<Rightarrow> u64 \<Rightarrow> Checksum result" where
  "qzt_footer_checksum X qzt_bytes offset =
     rbind (u64_to_usize offset) (\<lambda>start.
     rbind (ok_or (checked_sub (length qzt_bytes) FOOTER_TRAILER_LEN) InvalidFooterTrailer) (\<lambda>e.
     rbind (ok_or (get_slice qzt_bytes start e) UnexpectedEof) (\<lambda>footer.
     Ok (Checksum_blake3 X footer))))"

section \<open>In memory\<close>

record QziSidecar =
  qs_manifest :: SidecarManifest
  qs_index :: SidecarSearchIndex

definition section_slice :: "('h, 'x) ext_scheme \<Rightarrow> bytes \<Rightarrow> usize \<Rightarrow> SectionRef \<Rightarrow> bytes result" where
  "section_slice X bs section_base s =
     rbind (rbind (u64_to_usize (sec_offset s)) (\<lambda>n. ok_or (checked_add section_base n) ResourceLimitExceeded)) (\<lambda>start.
     rbind (rbind (u64_to_usize (sec_size s)) (\<lambda>n. ok_or (checked_add start n) ResourceLimitExceeded)) (\<lambda>e.
     rbind (ok_or (get_slice bs start e) UnexpectedEof) (\<lambda>part.
     if Checksum_blake3 X part \<noteq> sec_checksum s then Err ContainerCorrupt else Ok part)))"

definition restore_index ::
  "SidecarManifest \<Rightarrow> SidecarLimits \<Rightarrow> SearchGranule list \<Rightarrow> TermDictionaryEntry list \<Rightarrow> u64 list list \<Rightarrow> SidecarSearchIndex result"
where
  "restore_index m limits granules terms postings =
     (if mf_index_type m = ''token'' then
        rbind (RawTokenIndex_from_parts (mf_source_container_id m) (mf_source_size_bytes m) granules terms postings
          (reconstruction_limits limits)) (\<lambda>index. Ok (TokenIndex (index\<lparr>rt_complete := mf_complete m\<rparr>)))
      else if mf_index_type m = ''ngram'' then
        rbind (ok_or (mf_ngram_n m) ContainerCorrupt) (\<lambda>n.
        rbind (RawNgramIndex_from_parts (mf_source_container_id m) (mf_source_size_bytes m) granules terms postings
          (NgramIndexBuildOptions_default\<lparr>no_n := n, no_complete := mf_complete m,
             no_high_df_per_million := mf_high_df_per_million m, no_limits := reconstruction_limits limits\<rparr>)) (\<lambda>index.
        Ok (NgramIndex index)))
      else Err ContainerCorrupt)"

definition QziSidecar_open_with_limits ::
  "('h, 'x) ext_scheme \<Rightarrow> bytes \<Rightarrow> bytes \<Rightarrow> SidecarLimits \<Rightarrow> QziSidecar result"
where
  "QziSidecar_open_with_limits X qzt_bytes sidecar_bytes limits =
     (if length sidecar_bytes < SIDECAR_HEADER_LEN \<or> slice sidecar_bytes 0 8 \<noteq> SIDECAR_MAGIC then Err InvalidHeader
      else
        rbind (read_u64_le (slice sidecar_bytes 8 16)) (\<lambda>manifest_size.
        if manifest_size > sl_max_manifest_size limits then Err ResourceLimitExceeded
        else
          rbind (u64_to_usize manifest_size) (\<lambda>n.
          rbind (ok_or (checked_add SIDECAR_HEADER_LEN n) ResourceLimitExceeded) (\<lambda>manifest_end.
          rbind (ok_or (get_slice sidecar_bytes SIDECAR_HEADER_LEN manifest_end) UnexpectedEof) (\<lambda>manifest_bytes.
          rbind (decode_manifest manifest_bytes) (\<lambda>manifest.
          rbind (validate_manifest_resource_limits manifest limits) (\<lambda>_.
          rbind (open_skeleton_details X qzt_bytes) (\<lambda>details.
          if mf_source_container_id manifest \<noteq> ss_container_id (sk_summary details) then Err ContainerIdMismatch
          else if mf_source_original_checksum manifest \<noteq> md_original_checksum (sk_metadata details) then Err ContainerCorrupt
          else
            rbind (qzt_footer_checksum X qzt_bytes (sk_footer_payload_offset details)) (\<lambda>footer_checksum.
            if mf_source_qzt_footer_checksum manifest \<noteq> footer_checksum then Err ContainerCorrupt
            else if mf_source_size_bytes manifest \<noteq> ss_original_size (sk_summary details) then Err ContainerCorrupt
            else
              rbind (usize_to_u64 (length sidecar_bytes - manifest_end)) (\<lambda>payload_size.
              rbind (validate_manifest_layout manifest payload_size) (\<lambda>_.
              rbind (section_slice X sidecar_bytes manifest_end (mf_granules manifest)) (\<lambda>granule_bytes.
              rbind (section_slice X sidecar_bytes manifest_end (mf_terms manifest)) (\<lambda>term_bytes.
              rbind (section_slice X sidecar_bytes manifest_end (mf_postings manifest)) (\<lambda>posting_bytes.
              rbind (decode_granules granule_bytes (mf_granule_encoding manifest) limits) (\<lambda>granules.
              rbind (rfold (\<lambda>_ g. validate_granule_chunk_span g (sk_chunk_entries details)
                (ss_original_size (sk_summary details))) () granules) (\<lambda>_.
              rbind (decode_terms X term_bytes (mf_term_encoding manifest) limits) (\<lambda>terms.
              rbind (usize_to_u64 (length granules)) (\<lambda>granule_count.
              rbind (validate_file_term_dictionary X terms (sec_size (mf_postings manifest)) (mf_term_encoding manifest)
                granule_count) (\<lambda>_.
              rbind (decode_posting_section posting_bytes terms limits) (\<lambda>postings.
              rbind (validate_decoded_postings terms postings (length granules)) (\<lambda>_.
              rbind (restore_index manifest limits granules terms postings) (\<lambda>index.
              Ok \<lparr>qs_manifest = manifest, qs_index = index\<rparr>))))))))))))))))))))))"

definition QziSidecar_open :: "('h, 'x) ext_scheme \<Rightarrow> bytes \<Rightarrow> bytes \<Rightarrow> QziSidecar result" where
  "QziSidecar_open X qzt_bytes sidecar_bytes = QziSidecar_open_with_limits X qzt_bytes sidecar_bytes SidecarLimits_default"

definition QziSidecar_search ::
  "('h, 'x) ext_scheme \<Rightarrow> QziSidecar \<Rightarrow> QztReader \<Rightarrow> bytes \<Rightarrow> SearchOptions \<Rightarrow> SearchReport result"
where
  "QziSidecar_search X self r query options =
     rbind (QztReader_footer_checksum X r) (\<lambda>footer_checksum.
     rbind (validate_reader_binding (qs_manifest self) (qr_details r) footer_checksum) (\<lambda>_.
     case qs_index self of
       TokenIndex index \<Rightarrow> RawTokenIndex_search X index r query options
     | NgramIndex index \<Rightarrow> RawNgramIndex_search X index r query options))"

section \<open>Through positioned reads\<close>

record QziFileSidecar =
  fs_manifest :: SidecarManifest
  fs_source :: reader
  fs_section_base :: u64
  fs_granule_count :: u64
  fs_terms :: "TermDictionaryEntry list"
  fs_limits :: SidecarLimits

fun map_read_error :: "ErrorKind \<Rightarrow> QztError" where
  "map_read_error KindUnexpectedEof = UnexpectedEof"
| "map_read_error _ = ContainerCorrupt"

definition read_vec :: "reader \<Rightarrow> u64 \<Rightarrow> u64 \<Rightarrow> bytes result" where
  "read_vec source offset sz = rbind (u64_to_usize sz) (\<lambda>len. map_err map_read_error (source offset len))"

definition verify_section_checksum ::
  "('h, 'x) ext_scheme \<Rightarrow> reader \<Rightarrow> u64 \<Rightarrow> u64 \<Rightarrow> SectionRef \<Rightarrow> unit result"
where
  "verify_section_checksum X source len section_base s =
     rbind (ok_or (checked_add section_base (sec_offset s)) ResourceLimitExceeded) (\<lambda>start.
     rbind (ok_or (checked_add start (sec_size s)) ResourceLimitExceeded) (\<lambda>e.
     if e > len then Err UnexpectedEof
     else
       rbind (map_err map_read_error (hash_read_at_range X source start (sec_size s))) (\<lambda>hasher.
       if Checksum_from_hasher X hasher \<noteq> sec_checksum s then Err ContainerCorrupt else Ok ())))"

definition check_index_type :: "SidecarManifest \<Rightarrow> unit result" where
  "check_index_type m =
     (if mf_index_type m = ''token'' then Ok ()
      else if mf_index_type m = ''ngram'' then
        rbind (ok_or (mf_ngram_n m) ContainerCorrupt) (\<lambda>n. if n = 0 then Err ContainerCorrupt else Ok ())
      else Err ContainerCorrupt)"

definition QziFileSidecar_open_read_at_with_limits ::
  "('h, 'x) ext_scheme \<Rightarrow> reader \<Rightarrow> u64 \<Rightarrow> QztFileReader \<Rightarrow> SidecarLimits \<Rightarrow> QziFileSidecar result"
where
  "QziFileSidecar_open_read_at_with_limits X source len container limits =
     (if len < SIDECAR_HEADER_LEN then Err InvalidHeader
      else
        rbind (map_err map_read_error (source 0 SIDECAR_HEADER_LEN)) (\<lambda>header.
        if slice header 0 8 \<noteq> SIDECAR_MAGIC then Err InvalidHeader
        else
          rbind (read_u64_le (slice header 8 16)) (\<lambda>manifest_size.
          if manifest_size > sl_max_manifest_size limits then Err ResourceLimitExceeded
          else
            rbind (ok_or (checked_add SIDECAR_HEADER_LEN manifest_size) ResourceLimitExceeded) (\<lambda>manifest_end.
            if manifest_end > len then Err UnexpectedEof
            else
              rbind (read_vec source SIDECAR_HEADER_LEN manifest_size) (\<lambda>manifest_bytes.
              rbind (decode_manifest manifest_bytes) (\<lambda>manifest.
              rbind (validate_manifest_resource_limits manifest limits) (\<lambda>_.
              let details = fr_details container in
              if mf_source_container_id manifest \<noteq> ss_container_id (sk_summary details) then Err ContainerIdMismatch
              else if mf_source_original_checksum manifest \<noteq> md_original_checksum (sk_metadata details)
              then Err ContainerCorrupt
              else
                rbind (QztFileReader_footer_checksum X container) (\<lambda>footer_checksum.
                if mf_source_qzt_footer_checksum manifest \<noteq> footer_checksum then Err ContainerCorrupt
                else if mf_source_size_bytes manifest \<noteq> ss_original_size (sk_summary details) then Err ContainerCorrupt
                else
                  rbind (check_index_type manifest) (\<lambda>_.
                  rbind (validate_manifest_layout manifest (len - manifest_end)) (\<lambda>_.
                  rbind (rfold (\<lambda>_ s. verify_section_checksum X source len manifest_end s) ()
                    [mf_granules manifest, mf_terms manifest, mf_postings manifest]) (\<lambda>_.
                  if sec_size (mf_granules manifest) < 8 then Err ContainerCorrupt
                  else
                    rbind (ok_or (checked_add manifest_end (sec_offset (mf_granules manifest))) ResourceLimitExceeded)
                      (\<lambda>granule_section_offset.
                    rbind (read_vec source granule_section_offset 8) (\<lambda>count_bytes.
                    rbind (read_u64_le count_bytes) (\<lambda>granule_count.
                    if granule_count > sl_max_granule_count limits then Err ResourceLimitExceeded
                    else
                      rbind (rbind (ok_or (checked_mul granule_count (record_len (mf_granule_encoding manifest)))
                          ResourceLimitExceeded) (\<lambda>records. ok_or (checked_add records 8) ResourceLimitExceeded))
                        (\<lambda>expected_granule_size.
                      if expected_granule_size \<noteq> sec_size (mf_granules manifest) then Err ContainerCorrupt
                      else
                        rbind (ok_or (checked_add manifest_end (sec_offset (mf_terms manifest))) ResourceLimitExceeded)
                          (\<lambda>terms_offset.
                        rbind (read_vec source terms_offset (sec_size (mf_terms manifest))) (\<lambda>term_bytes.
                        rbind (decode_terms X term_bytes (mf_term_encoding manifest) limits) (\<lambda>terms.
                        rbind (validate_file_term_dictionary X terms (sec_size (mf_postings manifest))
                          (mf_term_encoding manifest) granule_count) (\<lambda>_.
                        Ok \<lparr>fs_manifest = manifest, fs_source = source, fs_section_base = manifest_end,
                            fs_granule_count = granule_count, fs_terms = terms, fs_limits = limits\<rparr>)))))))))))))))))))"

definition QziFileSidecar_open_read_at ::
  "('h, 'x) ext_scheme \<Rightarrow> reader \<Rightarrow> u64 \<Rightarrow> QztFileReader \<Rightarrow> QziFileSidecar result"
where
  "QziFileSidecar_open_read_at X source len container =
     QziFileSidecar_open_read_at_with_limits X source len container SidecarLimits_default"

definition QziFileSidecar_term_count :: "QziFileSidecar \<Rightarrow> usize" where
  "QziFileSidecar_term_count self = length (fs_terms self)"

definition QziFileSidecar_postings_size_bytes :: "QziFileSidecar \<Rightarrow> u64" where
  "QziFileSidecar_postings_size_bytes self = sec_size (mf_postings (fs_manifest self))"

definition QziFileSidecar_is_high_df :: "QziFileSidecar \<Rightarrow> usize \<Rightarrow> bool" where
  "QziFileSidecar_is_high_df self term_index =
     (let granule_count = max (fs_granule_count self) 1;
          frequency = te_granule_frequency (fs_terms self ! term_index);
          per_million = min (frequency * 1000000) (2 ^ 128 - 1) div granule_count in
      per_million \<ge> mf_high_df_per_million (fs_manifest self))"

definition fetch_postings :: "QziFileSidecar \<Rightarrow> usize \<Rightarrow> u64 \<Rightarrow> u64 list result" where
  "fetch_postings self term_index max_ids =
     rbind (ok_or (get (fs_terms self) term_index) ContainerCorrupt) (\<lambda>term.
     if te_posting_size term > sl_max_posting_list_size (fs_limits self) then Err ResourceLimitExceeded
     else
       rbind (rbind (ok_or (checked_add (fs_section_base self) (sec_offset (mf_postings (fs_manifest self)))) ResourceLimitExceeded)
         (\<lambda>base. ok_or (checked_add base (te_posting_offset term)) ResourceLimitExceeded)) (\<lambda>offset.
       rbind (read_vec (fs_source self) offset (te_posting_size term)) (\<lambda>bs.
       rbind (decode_delta_varint_u64_with_limit bs max_ids) (\<lambda>postings.
       rbind (usize_to_u64 (length postings)) (\<lambda>n.
       if n \<noteq> te_granule_frequency term then Err ContainerCorrupt
       else if list_ex (\<lambda>granule_id. granule_id \<ge> fs_granule_count self) postings then Err ContainerCorrupt
       else Ok postings)))))"

definition fetch_granule :: "QziFileSidecar \<Rightarrow> ChunkEntry list \<Rightarrow> u64 \<Rightarrow> SearchGranule result" where
  "fetch_granule self entries granule_id =
     (if granule_id \<ge> fs_granule_count self then Err ContainerCorrupt
      else
        let encoding = mf_granule_encoding (fs_manifest self) in
        rbind (ok_or (checked_mul granule_id (record_len encoding)) ResourceLimitExceeded) (\<lambda>relative.
        rbind (ok_or (checked_add relative 8) ResourceLimitExceeded) (\<lambda>relative.
        rbind (ok_or (checked_add relative (sec_offset (mf_granules (fs_manifest self)))) ResourceLimitExceeded) (\<lambda>relative.
        rbind (ok_or (checked_add relative (fs_section_base self)) ResourceLimitExceeded) (\<lambda>record_offset.
        rbind (read_vec (fs_source self) record_offset (record_len encoding)) (\<lambda>bs.
        rbind (decode_granule_record bs granule_id encoding) (\<lambda>granule.
        if sg_granule_id granule \<noteq> granule_id then Err ContainerCorrupt
        else
          rbind (validate_granule_chunk_span granule entries (mf_source_size_bytes (fs_manifest self))) (\<lambda>_.
          Ok granule))))))))"

fun lookup_file_terms ::
  "TermDictionaryEntry list \<Rightarrow> bytes list \<Rightarrow> usize list \<Rightarrow> u64 \<Rightarrow> (bytes \<times> u64 + usize list \<times> u64) result"
where
  "lookup_file_terms terms [] indexes posting_bytes = Ok (Inr (indexes, posting_bytes))"
| "lookup_file_terms terms (key # keys) indexes posting_bytes =
     (case term_index_for_key terms key of
        None \<Rightarrow> Ok (Inl (key, posting_bytes))
      | Some index \<Rightarrow>
          rbind (ok_or (checked_add posting_bytes (te_posting_size (terms ! index))) ResourceLimitExceeded) (\<lambda>n.
          lookup_file_terms terms keys (indexes @ [index]) n))"

text \<open>The posting lists of a query, within what is left of the budget of decoded ids.\<close>

definition fetch_step :: "QziFileSidecar \<Rightarrow> u64 list list \<times> u64 \<Rightarrow> usize \<Rightarrow> (u64 list list \<times> u64) result" where
  "fetch_step self st index =
     (case st of (posting_lists, remaining_ids) \<Rightarrow>
       if te_granule_frequency (fs_terms self ! index) > remaining_ids then Err ResourceLimitExceeded
       else
         rbind (fetch_postings self index remaining_ids) (\<lambda>postings.
         rbind (rbind (usize_to_u64 (length postings)) (\<lambda>n. ok_or (checked_sub remaining_ids n) ResourceLimitExceeded))
           (\<lambda>remaining_ids.
         Ok (posting_lists @ [postings], remaining_ids))))"

text \<open>The granules fetched for the candidates, found again by the position of their id.\<close>

definition candidate_lookup :: "u64 list \<Rightarrow> SearchGranule list \<Rightarrow> u64 \<Rightarrow> SearchGranule result" where
  "candidate_lookup candidates granules granule_id =
     rbind (ok_or (find (\<lambda>i. candidates ! i = granule_id) [0 ..< length candidates]) ContainerCorrupt) (\<lambda>position.
     ok_or (get granules position) ContainerCorrupt)"

text \<open>The tail of the search, after the terms are found.\<close>

definition search_fetched ::
  "QziFileSidecar \<Rightarrow> SkeletonDetails \<Rightarrow> SearchOptions \<Rightarrow> range_read \<Rightarrow> span_matcher \<Rightarrow> bool \<Rightarrow> usize list \<Rightarrow>
   PlannerDecision \<Rightarrow> SearchMetrics \<Rightarrow> SearchReport result"
where
  "search_fetched self details options read_range spans_for token_boundaries indexes planner metrics =
     (if sm_posting_bytes_read metrics >
           min (sl_max_posting_bytes_per_query (fs_limits self)) (max_posting_bytes_per_query options)
      then Err ResourceLimitExceeded
      else
        let remaining_ids = min (sl_max_decoded_posting_ids (fs_limits self)) (max_posting_ids_per_query options) in
        rbind (rfold (\<lambda>total index. ok_or (checked_add total (te_granule_frequency (fs_terms self ! index))) ResourceLimitExceeded)
          0 indexes) (\<lambda>declared_ids.
        if declared_ids > remaining_ids then Err ResourceLimitExceeded
        else
          rbind (rfold (fetch_step self) ([], remaining_ids) indexes) (\<lambda>(posting_lists, _).
          rbind (intersect_postings posting_lists (max_posting_work options)) (\<lambda>candidates.
          rbind (usize_to_u64 (length candidates)) (\<lambda>n.
          let metrics = metrics\<lparr>sm_candidate_granules := n\<rparr>; complete = mf_complete (fs_manifest self) in
          if n > max_candidate_granules options \<or> max_search_results options = 0 then
            Ok (early_exit_report metrics planner
              (Some (if n > max_candidate_granules options then ''max_candidate_granules'' else ''max_search_results''))
              None complete)
          else
            rbind (rmap (fetch_granule self (sk_chunk_entries details)) candidates) (\<lambda>granules.
            rbind (count_chunks granules) (\<lambda>chunks.
            rbind (verify_candidates candidates details (candidate_lookup candidates granules) read_range spans_for
              token_boundaries options) (\<lambda>verification.
            rbind (usize_to_u64 (length (cv_hits verification))) (\<lambda>matches.
            Ok \<lparr>sr_hits = cv_hits verification,
                sr_metrics = metrics\<lparr>sm_candidate_chunks := chunks, sm_decoded_bytes := cv_decoded_bytes verification,
                  sm_physical_decoded_bytes := cv_physical_decoded_bytes verification,
                  sm_physical_decoded_chunks := cv_physical_decoded_chunks verification, sm_verified_matches := matches\<rparr>,
                sr_capped = (cv_stop_reason verification \<noteq> None), sr_stop_reason = cv_stop_reason verification,
                sr_index_complete_declared = complete, sr_index_coverage_verified = False, sr_planner = planner,
                sr_incomplete_reason = None\<rparr>)))))))))"

definition QziFileSidecar_search ::
  "('h, 'x) ext_scheme \<Rightarrow> QziFileSidecar \<Rightarrow> QztFileReader \<Rightarrow> bytes \<Rightarrow> SearchOptions \<Rightarrow> SearchReport result"
where
  "QziFileSidecar_search X self r query options =
     rbind (QztFileReader_footer_checksum X r) (\<lambda>footer_checksum.
     rbind (validate_reader_binding (fs_manifest self) (fr_details r) footer_checksum) (\<lambda>_.
     let is_ngram = (mf_index_type (fs_manifest self) = ''ngram'') in
     rbind (if is_ngram then
              rbind (ok_or (mf_ngram_n (fs_manifest self)) ContainerCorrupt) (\<lambda>n. ngram_keys_for_query query n options)
            else unique_query_keys query options) (\<lambda>query_keys.
     let planner = PlannerDecision_new query_keys;
         metrics = empty_search_metrics query (if is_ngram then ''ngram'' else ''token'')
           (mf_index_size_bytes (fs_manifest self)) (mf_source_size_bytes (fs_manifest self)) in
     rbind (usize_to_u64 (length query_keys)) (\<lambda>n.
     let metrics = metrics\<lparr>sm_term_lookups := n\<rparr> in
     if query_keys = [] then
       Ok (early_exit_report metrics planner None
         (Some (if is_ngram then ''query_shorter_than_ngram_n'' else ''query_has_no_indexable_tokens''))
         (mf_complete (fs_manifest self)))
     else
       rbind (lookup_file_terms (fs_terms self) query_keys [] 0) (\<lambda>found.
       case found of
         Inl (key, posting_bytes) \<Rightarrow>
           Ok (early_exit_report (metrics\<lparr>sm_posting_bytes_read := posting_bytes\<rparr>) (planner\<lparr>pd_missing_keys := [key]\<rparr>) None
             (incomplete_index_reason (mf_complete (fs_manifest self))) (mf_complete (fs_manifest self)))
       | Inr (indexes, posting_bytes) \<Rightarrow>
           let frequency = (\<lambda>index. te_granule_frequency (fs_terms self ! index));
               key_of = (\<lambda>index. te_key (fs_terms self ! index));
               indexes = (if is_ngram then sort_key (\<lambda>index. (QziFileSidecar_is_high_df self index, frequency index)) indexes
                          else sort_key frequency indexes);
               planner = (if is_ngram then
                            planner\<lparr>pd_high_df_keys := map key_of (filter (QziFileSidecar_is_high_df self) indexes)\<rparr>
                          else planner)\<lparr>pd_selected_keys := map key_of indexes\<rparr> in
           search_fetched self (fr_details r) options (QztFileReader_read_range_cached X r)
             (if is_ngram then (\<lambda>decoded limit _ _. substring_spans decoded query limit)
              else (\<lambda>decoded limit left right. verified_spans decoded query_keys limit left right))
             (\<not> is_ngram) indexes planner (metrics\<lparr>sm_posting_bytes_read := posting_bytes\<rparr>))))))"

end
