(* ===== verification/Search_Tokens.thy ===== *)
theory Search_Tokens
  imports Search
begin

text \<open>
  Tokens as the search code scans for them, against their definition: a token is a maximal run
  of token bytes. The three scanning loops (index construction, query keys, matches in a line)
  are folds over the list of these runs, and the matcher with its shared scratch and its limit
  returns a prefix of the matches that the definition gives.
\<close>

section \<open>Runs of token bytes\<close>

definition token_at :: "bytes \<Rightarrow> nat \<Rightarrow> nat \<Rightarrow> bool" where
  "token_at bs s e \<longleftrightarrow> s < e \<and> e \<le> length bs \<and> (\<forall>i. s \<le> i \<and> i < e \<longrightarrow> is_token_byte (bs ! i)) \<and>
     (0 < s \<longrightarrow> \<not> is_token_byte (bs ! (s - 1))) \<and> (e < length bs \<longrightarrow> \<not> is_token_byte (bs ! e))"

definition lower :: "bytes \<Rightarrow> bytes" where
  "lower bs = map to_ascii_lowercase bs"

function token_runs :: "bytes \<Rightarrow> nat \<Rightarrow> (nat \<times> nat) list" where
  "token_runs bs cursor =
     (if cursor < length bs then
        let start = skip_bytes (\<lambda>b. \<not> is_token_byte b) bs cursor;
            cursor = skip_bytes is_token_byte bs start in
        if start < cursor then (start, cursor) # token_runs bs cursor else token_runs bs cursor
      else [])"
  by pat_completeness auto
termination
  by (relation "measure (\<lambda>(bs, cursor). length bs - cursor)")
     (rule wf_measure, unfold in_measure prod.case, (erule (2) token_measure)+)

declare token_runs.simps [simp del]

lemma skip_bytes_spec:
  assumes "c \<le> length bs"
  shows "c \<le> skip_bytes p bs c" and "skip_bytes p bs c \<le> length bs"
    and "c \<le> i \<Longrightarrow> i < skip_bytes p bs c \<Longrightarrow> p (bs ! i)"
    and "skip_bytes p bs c < length bs \<Longrightarrow> \<not> p (bs ! skip_bytes p bs c)"
proof -
  have "c \<le> skip_bytes p bs c \<and> skip_bytes p bs c \<le> length bs \<and> (\<forall>i. c \<le> i \<longrightarrow> i < skip_bytes p bs c \<longrightarrow> p (bs ! i)) \<and>
      (skip_bytes p bs c < length bs \<longrightarrow> \<not> p (bs ! skip_bytes p bs c))"
    using assms
  proof (induction p bs c rule: skip_bytes.induct)
    case (1 p bs c)
    show ?case
    proof (cases "c < length bs \<and> p (bs ! c)")
      case True
      then have "skip_bytes p bs c = skip_bytes p bs (c + 1)" by (subst skip_bytes.simps) simp
      moreover have "p (bs ! i)" if "c \<le> i" "i < skip_bytes p bs (c + 1)" for i
        using 1 True that by (cases "i = c") auto
      ultimately show ?thesis using 1 True by auto
    next
      case False
      then have "skip_bytes p bs c = c" by (subst skip_bytes.simps) auto
      then show ?thesis using 1(2) False by auto
    qed
  qed
  then show "c \<le> skip_bytes p bs c" "skip_bytes p bs c \<le> length bs"
    "c \<le> i \<Longrightarrow> i < skip_bytes p bs c \<Longrightarrow> p (bs ! i)" "skip_bytes p bs c < length bs \<Longrightarrow> \<not> p (bs ! skip_bytes p bs c)" by blast+
qed

text \<open>A position no token crosses.\<close>

definition token_cut :: "bytes \<Rightarrow> nat \<Rightarrow> bool" where
  "token_cut bs c \<longleftrightarrow> c = 0 \<or> length bs \<le> c \<or> \<not> is_token_byte (bs ! (c - 1)) \<or> \<not> is_token_byte (bs ! c)"

lemma token_at_starts: "token_at bs s e \<Longrightarrow> token_at bs s' e' \<Longrightarrow> s' < e \<Longrightarrow> s' \<le> s"
proof (rule ccontr)
  assume t: "token_at bs s e" "token_at bs s' e'" "s' < e" "\<not> s' \<le> s"
  then have "s \<le> s' - 1" "s' - 1 < e" by simp_all
  then have "is_token_byte (bs ! (s' - 1))" using t(1) by (simp add: token_at_def)
  then show False using t(2,4) by (auto simp: token_at_def)
qed

lemma token_at_unique:
  assumes "token_at bs s e" and "token_at bs s' e'" and "s < e'" and "s' < e"
  shows "s = s' \<and> e = e'"
proof -
  have "s = s'" using token_at_starts [OF assms(1,2,4)] token_at_starts [OF assms(2,1,3)] by simp
  moreover have "\<not> e < e'" "\<not> e' < e" using assms by (auto simp: token_at_def)
  ultimately show ?thesis by simp
qed

text \<open>One round of a scanning loop.\<close>

lemma token_scan_step:
  assumes "c < length bs" and "token_cut bs c"
    and "start = skip_bytes (\<lambda>b. \<not> is_token_byte b) bs c" and "e = skip_bytes is_token_byte bs start"
  shows "c \<le> start" and "start \<le> e" and "e \<le> length bs" and "c < e" and "token_cut bs e"
    and "start < e \<Longrightarrow> token_at bs start e"
    and "c \<le> s \<Longrightarrow> s < e \<Longrightarrow> token_at bs s e' \<Longrightarrow> s = start \<and> e' = e"
    and "start = e \<Longrightarrow> e = length bs"
proof -
  have c: "c \<le> length bs" using assms(1) by simp
  note a = skip_bytes_spec [OF c, where p = "\<lambda>b. \<not> is_token_byte b", folded assms(3)]
  note b = skip_bytes_spec [OF a(2), where p = is_token_byte, folded assms(4)]
  show "c \<le> start" "start \<le> e" "e \<le> length bs" by (rule a b)+
  show full: "e = length bs" if "start = e" using that a(2,4) b(4) by (cases "e < length bs") auto
  show "c < e" using full a(1) b(1) assms(1) by (cases "start = e") auto
  show "token_cut bs e" using b(2,4) by (auto simp: token_cut_def)
  show run: "token_at bs start e" if "start < e"
  proof -
    have "\<not> is_token_byte (bs ! (start - 1))" if "0 < start"
    proof (cases "c < start")
      case True
      then show ?thesis using a(3) [of "start - 1"] by simp
    next
      case False
      then have "c = start" using a(1) by simp
      then show ?thesis using assms(1,2) that b(3) [of start] \<open>start < e\<close> by (auto simp: token_cut_def)
    qed
    then show ?thesis using that b by (auto simp: token_at_def)
  qed
  show "s = start \<and> e' = e" if t: "c \<le> s" "s < e" "token_at bs s e'"
  proof -
    have "is_token_byte (bs ! s)" using t(3) by (simp add: token_at_def)
    then have "start \<le> s" using a(3) [OF t(1)] by fastforce
    then have "start < e" using t(2) by simp
    then show ?thesis using token_at_unique [OF run t(3)] t(2) \<open>start \<le> s\<close> t(3) by (auto simp: token_at_def)
  qed
qed

text \<open>Induction over the rounds of a scan.\<close>

lemma token_scan_induct [case_names stop scan]:
  assumes "\<And>c. \<not> c < length bs \<Longrightarrow> P c"
    and "\<And>c a b. c < length bs \<Longrightarrow> a = skip_bytes (\<lambda>b. \<not> is_token_byte b) bs c \<Longrightarrow> b = skip_bytes is_token_byte bs a \<Longrightarrow>
      P b \<Longrightarrow> P c"
  shows "P c"
proof (induction "length bs - c" arbitrary: c rule: less_induct)
  case less
  show ?case
  proof (cases "c < length bs")
    case True
    show ?thesis using assms(2) [OF True refl refl] less [OF token_measure [OF True refl refl]] by blast
  qed (rule assms(1))
qed

lemma token_runs_round:
  assumes "c < length bs" and "a = skip_bytes (\<lambda>b. \<not> is_token_byte b) bs c" and "b = skip_bytes is_token_byte bs a"
  shows "token_runs bs c = (if a < b then (a, b) # token_runs bs b else token_runs bs b)"
  using assms by (subst token_runs.simps) (simp add: Let_def)

lemma token_runs_end [simp]: "\<not> c < length bs \<Longrightarrow> token_runs bs c = []"
  by (subst token_runs.simps) simp

lemma token_runs_exact:
  "token_cut bs c \<Longrightarrow> (s, e) \<in> set (token_runs bs c) \<longleftrightarrow> c \<le> s \<and> token_at bs s e"
proof (induction c rule: token_scan_induct [where bs = bs])
  case (scan c a b)
  note st = token_scan_step [OF scan(1) scan.prems scan(2,3)]
  have IH: "(s, e) \<in> set (token_runs bs b) \<longleftrightarrow> b \<le> s \<and> token_at bs s e" using scan.IH st(5) .
  show ?case
  proof (cases "b \<le> s")
    case True
    then show ?thesis using IH st(1,2) by (auto simp: token_runs_round [OF scan(1-3)])
  next
    case False
    then show ?thesis using IH st(1,2,6) st(7) [of s e] by (auto simp: token_runs_round [OF scan(1-3)])
  qed
qed (auto simp: token_at_def)

lemma token_runs_set: "set (token_runs bs 0) = {(s, e). token_at bs s e}"
  using token_runs_exact [of bs 0] by (auto simp: token_cut_def)

lemma token_runs_sorted: "token_cut bs c \<Longrightarrow> sorted_wrt (\<lambda>x y. snd x \<le> fst y) (token_runs bs c)"
proof (induction c rule: token_scan_induct [where bs = bs])
  case (scan c a b)
  note st = token_scan_step [OF scan(1) scan.prems scan(2,3)]
  show ?case using scan.IH [OF st(5)] token_runs_exact [OF st(5)] by (auto simp: token_runs_round [OF scan(1-3)])
qed simp

section \<open>The loops are folds over the runs\<close>

lemma add_tokens_fold:
  "add_tokens line g c st = rfold (\<lambda>st (s, e). add_key (snd st) (fst st) (slice line s e) True g) st (token_runs line c)"
proof (induction c arbitrary: st rule: token_scan_induct [where bs = line])
  case (stop c)
  then show ?case by (subst add_tokens.simps) simp
next
  case (scan c a b)
  have "add_tokens line g c st = (if a < b
      then rbind (add_key (snd st) (fst st) (slice line a b) True g) (add_tokens line g b) else add_tokens line g b st)"
    using scan(1-3) by (subst add_tokens.simps) (simp add: Let_def)
  then show ?case by (auto simp: token_runs_round [OF scan(1-3)] scan.IH intro!: rbind_cong)
qed

lemma query_tokens_fold:
  "query_tokens opts bs c ks = rfold (\<lambda>ks (s, e). insert_query_key opts ks (lower (slice bs s e))) ks (token_runs bs c)"
proof (induction c arbitrary: ks rule: token_scan_induct [where bs = bs])
  case (stop c)
  then show ?case by (subst query_tokens.simps) simp
next
  case (scan c a b)
  have "query_tokens opts bs c ks = (if a < b
      then rbind (insert_query_key opts ks (lower (slice bs a b))) (query_tokens opts bs b) else query_tokens opts bs b ks)"
    using scan(1-3) by (subst query_tokens.simps) (simp add: Let_def lower_def)
  then show ?case by (auto simp: token_runs_round [OF scan(1-3)] scan.IH intro!: rbind_cong)
qed

section \<open>Matches in a line\<close>

definition key_index :: "bytes list \<Rightarrow> bytes \<Rightarrow> nat option" where
  "key_index ks tok = find (\<lambda>i. lower tok = lower (ks ! i)) [0 ..< length ks]"

text \<open>The runs of a line that match a key and do not go on outside the line.\<close>

definition run_hits :: "bytes \<Rightarrow> bytes list \<Rightarrow> bool \<Rightarrow> bool \<Rightarrow> nat \<times> nat \<Rightarrow> (nat \<times> nat \<times> nat) list" where
  "run_hits line ks l r run = (case run of (s, e) \<Rightarrow>
     if (s = 0 \<and> l) \<or> (e = length line \<and> r) then []
     else case key_index ks (slice line s e) of None \<Rightarrow> [] | Some i \<Rightarrow> [(i, s, e)])"

definition line_hits :: "bytes \<Rightarrow> bytes list \<Rightarrow> bool \<Rightarrow> bool \<Rightarrow> (nat \<times> nat \<times> nat) list" where
  "line_hits line ks l r = concat (map (run_hits line ks l r) (token_runs line 0))"

definition covers :: "bytes list \<Rightarrow> (nat \<times> nat \<times> nat) list \<Rightarrow> bool" where
  "covers ks hits \<longleftrightarrow> {..< length ks} \<subseteq> fst ` set hits"

fun match_runs ::
  "bytes \<Rightarrow> bytes list \<Rightarrow> nat \<Rightarrow> bool \<Rightarrow> bool \<Rightarrow> (nat \<times> nat) list \<Rightarrow> LineMatchScratch \<times> nat \<Rightarrow> LineMatchScratch \<times> nat"
where
  "match_runs bs ks limit l r [] st = st"
| "match_runs bs ks limit l r ((s, e) # runs) st =
     (if (s = 0 \<and> l) \<or> (e = length bs \<and> r) then match_runs bs ks limit l r runs st
      else
        let st = match_token ks limit bs s e st in
        if length (ms_matches (fst st)) = limit \<and> snd st = length ks then st else match_runs bs ks limit l r runs st)"

lemma line_span_loop_runs: "line_span_loop bs ks limit l r c st = match_runs bs ks limit l r (token_runs bs c) st"
proof (induction c arbitrary: st rule: token_scan_induct [where bs = bs])
  case (stop c)
  then show ?case by (subst line_span_loop.simps) simp
next
  case (scan c a b)
  have "a \<le> b" using skip_bytes_le [of a is_token_byte bs] scan(3) by simp
  moreover have "line_span_loop bs ks limit l r c st =
      (if a = b \<or> (a = 0 \<and> l) \<or> (b = length bs \<and> r) then line_span_loop bs ks limit l r b st
       else
         let st = match_token ks limit bs a b st in
         if length (ms_matches (fst st)) = limit \<and> snd st = length ks then st else line_span_loop bs ks limit l r b st)"
    by (subst line_span_loop.simps, simp only: Let_def scan(1) scan(2) [symmetric] scan(3) [symmetric] if_True, cases "a = b")
       simp_all
  ultimately show ?case by (cases "a = b") (simp_all add: token_runs_round [OF scan(1-3)] scan.IH Let_def)
qed

text \<open>What the scratch and the counter say after some hits.\<close>

definition seen_hits :: "bytes list \<Rightarrow> nat \<Rightarrow> (nat \<times> nat \<times> nat) list \<Rightarrow> LineMatchScratch \<times> nat \<Rightarrow> bool" where
  "seen_hits ks limit hits st \<longleftrightarrow> length (ms_seen (fst st)) = length ks \<and>
     {i. i < length ks \<and> ms_seen (fst st) ! i = ms_generation (fst st)} = fst ` set hits \<and>
     snd st = card (fst ` set hits) \<and> ms_matches (fst st) = take limit hits \<and>
     (\<forall>m \<in> set (ms_seen (fst st)). m \<le> ms_generation (fst st))"

lemma key_index_less: "key_index ks tok = Some i \<Longrightarrow> i < length ks"
  by (auto simp: key_index_def find_Some_iff)

lemma match_token_seen:
  assumes "seen_hits ks limit hits st"
  shows "seen_hits ks limit (hits @ (case key_index ks (slice bs s e) of None \<Rightarrow> [] | Some i \<Rightarrow> [(i, s, e)]))
     (match_token ks limit bs s e st)"
    and "ms_generation (fst (match_token ks limit bs s e st)) = ms_generation (fst st)"
proof -
  obtain sc n where st: "st = (sc, n)" by fastforce
  have find: "find (\<lambda>i. map to_ascii_lowercase (slice bs s e) = map to_ascii_lowercase (ks ! i)) [0 ..< length ks] =
      key_index ks (slice bs s e)" by (simp add: key_index_def lower_def)
  show "ms_generation (fst (match_token ks limit bs s e st)) = ms_generation (fst st)"
    by (simp add: match_token_def st split: option.split)
  show "seen_hits ks limit (hits @ (case key_index ks (slice bs s e) of None \<Rightarrow> [] | Some i \<Rightarrow> [(i, s, e)]))
     (match_token ks limit bs s e st)"
  proof (cases "key_index ks (slice bs s e)")
    case None
    then show ?thesis using assms by (simp add: match_token_def find st)
  next
    case (Some i)
    have i: "i < length ks" using key_index_less [OF Some] .
    note h = assms [unfolded seen_hits_def st fst_conv snd_conv]
    have iff: "ms_seen sc ! i = ms_generation sc \<longleftrightarrow> i \<in> fst ` set hits" using h i by blast
    have marks: "{j. j < length ks \<and> ((ms_seen sc)[i := ms_generation sc]) ! j = ms_generation sc} = insert i (fst ` set hits)"
      using h i by (auto simp: nth_list_update)
    have le: "\<forall>m \<in> set ((ms_seen sc)[i := ms_generation sc]). m \<le> ms_generation sc"
      using h set_update_subset_insert [of "ms_seen sc" i] by fastforce
    have m: "take limit (hits @ [(i, s, e)]) =
        (if length (take limit hits) < limit then take limit hits @ [(i, s, e)] else take limit hits)" by (auto simp: min_def)
    show ?thesis
    proof (cases "i \<in> fst ` set hits")
      case True
      then show ?thesis using h iff m Some
        by (auto simp: match_token_def find st seen_hits_def insert_absorb)
    next
      case False
      then show ?thesis using h iff m Some marks le
        by (auto simp: match_token_def find st seen_hits_def)
    qed
  qed
qed

lemma seen_hits_covers: "seen_hits ks limit hits st \<Longrightarrow> snd st = length ks \<longleftrightarrow> covers ks hits"
proof -
  assume h: "seen_hits ks limit hits st"
  have sub: "fst ` set hits \<subseteq> {..< length ks}" using h by (auto simp: seen_hits_def)
  have "card (fst ` set hits) = card {..< length ks} \<longleftrightarrow> fst ` set hits = {..< length ks}"
    using card_subset_eq [OF _ sub] by auto
  then show ?thesis using h sub by (auto simp: seen_hits_def covers_def)
qed

lemma match_runs_exact:
  fixes bs :: bytes and runs :: "(nat \<times> nat) list" and l r :: bool
  assumes "seen_hits ks limit hits st"
  defines "all \<equiv> hits @ concat (map (run_hits bs ks l r) runs)"
  shows "ms_matches (fst (match_runs bs ks limit l r runs st)) = take limit all"
    and "snd (match_runs bs ks limit l r runs st) = length ks \<longleftrightarrow> covers ks all"
    and "ms_generation (fst (match_runs bs ks limit l r runs st)) = ms_generation (fst st)"
    and "length (ms_seen (fst (match_runs bs ks limit l r runs st))) = length ks"
    and "\<forall>m \<in> set (ms_seen (fst (match_runs bs ks limit l r runs st))). m \<le> ms_generation (fst st)"
proof -
  have "ms_matches (fst (match_runs bs ks limit l r runs st)) = take limit all \<and>
      (snd (match_runs bs ks limit l r runs st) = length ks \<longleftrightarrow> covers ks all) \<and>
      ms_generation (fst (match_runs bs ks limit l r runs st)) = ms_generation (fst st) \<and>
      length (ms_seen (fst (match_runs bs ks limit l r runs st))) = length ks \<and>
      (\<forall>m \<in> set (ms_seen (fst (match_runs bs ks limit l r runs st))). m \<le> ms_generation (fst st))"
    using assms(1) unfolding all_def
  proof (induction bs ks limit l r runs st arbitrary: hits rule: match_runs.induct)
    case (1 bs ks limit l r st)
    then show ?case using seen_hits_covers [OF 1] by (simp add: seen_hits_def)
  next
    case (2 bs ks limit l r s e runs st)
    show ?case
    proof (cases "(s = 0 \<and> l) \<or> (e = length bs \<and> r)")
      case True
      then show ?thesis using 2(1) [OF True 2(3)] by (simp add: run_hits_def)
    next
      case False
      let ?st = "match_token ks limit bs s e st" and ?new = "run_hits bs ks l r (s, e)"
      have "?new = (case key_index ks (slice bs s e) of None \<Rightarrow> [] | Some i \<Rightarrow> [(i, s, e)])"
        using False by (auto simp: run_hits_def split: option.split)
      then have nw: "seen_hits ks limit (hits @ ?new) ?st" and gen: "ms_generation (fst ?st) = ms_generation (fst st)"
        using match_token_seen [OF 2(3)] by simp_all
      show ?thesis
      proof (cases "length (ms_matches (fst ?st)) = limit \<and> snd ?st = length ks")
        case True
        have "take limit (hits @ ?new) = take limit (hits @ ?new @ rest)" for rest
          using nw True by (auto simp: seen_hits_def min_def split: if_splits)
        moreover have "covers ks (hits @ ?new @ rest)" for rest
          using seen_hits_covers [OF nw] True by (auto simp: covers_def)
        moreover have "match_runs bs ks limit l r ((s, e) # runs) st = ?st"
          using False True by (simp only: match_runs.simps Let_def if_False if_True simp_thms)
        ultimately show ?thesis using True nw gen by (simp add: seen_hits_def del: take_append)
      next
        case no: False
        have "match_runs bs ks limit l r ((s, e) # runs) st = match_runs bs ks limit l r runs ?st"
          using False no by (simp only: match_runs.simps Let_def if_False)
        then show ?thesis using 2(2) [OF False refl no nw] gen by simp
      qed
    qed
  qed
  then show "ms_matches (fst (match_runs bs ks limit l r runs st)) = take limit all"
    "snd (match_runs bs ks limit l r runs st) = length ks \<longleftrightarrow> covers ks all"
    "ms_generation (fst (match_runs bs ks limit l r runs st)) = ms_generation (fst st)"
    "length (ms_seen (fst (match_runs bs ks limit l r runs st))) = length ks"
    "\<forall>m \<in> set (ms_seen (fst (match_runs bs ks limit l r runs st))). m \<le> ms_generation (fst st)"
    by blast+
qed

text \<open>No mark of an earlier line is taken for the current one, also when the generation wraps.\<close>

definition fresh_scratch :: "bytes list \<Rightarrow> LineMatchScratch \<Rightarrow> bool" where
  "fresh_scratch ks sc \<longleftrightarrow> length (ms_seen sc) = length ks \<and> (\<forall>m \<in> set (ms_seen sc). m \<le> ms_generation sc) \<and>
     ms_generation sc < u64_end"

lemma next_generation_fresh:
  assumes "fresh_scratch ks sc"
  shows "seen_hits ks limit [] (next_generation sc, 0)" and "ms_generation (next_generation sc) < u64_end"
proof -
  have "seen_hits ks limit [] (next_generation sc, 0) \<and> ms_generation (next_generation sc) < u64_end"
  proof (cases "ms_generation sc + 1 = u64_end")
    case True
    then show ?thesis using assms by (auto simp: next_generation_def seen_hits_def fresh_scratch_def u64_end_def)
  next
    case False
    then have g: "(ms_generation sc + 1) mod u64_end = ms_generation sc + 1" "ms_generation sc + 1 < u64_end"
      using assms by (auto simp: fresh_scratch_def)
    have "ms_seen sc ! i \<noteq> ms_generation sc + 1" if "i < length ks" for i
      using assms that nth_mem [of i "ms_seen sc"] by (fastforce simp: fresh_scratch_def)
    then show ?thesis using assms g by (auto simp: next_generation_def seen_hits_def fresh_scratch_def)
  qed
  then show "seen_hits ks limit [] (next_generation sc, 0)" "ms_generation (next_generation sc) < u64_end" by blast+
qed

lemma verified_line_spans_exact:
  assumes "fresh_scratch ks sc"
  obtains sc' where "verified_line_spans line ks limit l r (next_generation sc) = (covers ks (line_hits line ks l r), sc')"
    and "ms_matches sc' = take limit (line_hits line ks l r)" and "fresh_scratch ks sc'"
proof -
  obtain sc' n where m: "match_runs line ks limit l r (token_runs line 0) (next_generation sc, 0) = (sc', n)" by fastforce
  note ex = match_runs_exact [OF next_generation_fresh(1) [OF assms], of line limit l r "token_runs line 0", unfolded m]
  show thesis
  proof (rule that)
    show "verified_line_spans line ks limit l r (next_generation sc) = (covers ks (line_hits line ks l r), sc')"
      using ex(2) by (simp add: verified_line_spans_def line_span_loop_runs m line_hits_def)
    show "ms_matches sc' = take limit (line_hits line ks l r)" using ex(1) by (simp add: line_hits_def)
    show "fresh_scratch ks sc'"
      using ex(3-5) next_generation_fresh(2) [OF assms] by (simp add: fresh_scratch_def)
  qed
qed

section \<open>Matches in a granule\<close>

definition token_spans :: "bytes list \<Rightarrow> nat \<Rightarrow> (nat \<times> nat \<times> nat) list \<Rightarrow> TokenSpan list" where
  "token_spans ks start hits =
     (if covers ks hits then map (\<lambda>(i, s, e). \<lparr>ts_key = ks ! i, ts_start = start + s, ts_end = start + e\<rparr>) hits else [])"

fun spans_from :: "bytes list \<Rightarrow> nat \<Rightarrow> nat \<Rightarrow> bytes list \<Rightarrow> bool \<Rightarrow> bool \<Rightarrow> TokenSpan list" where
  "spans_from [] start len ks l r = []"
| "spans_from (line # rest) start len ks l r =
     token_spans ks start (line_hits line ks (start = 0 \<and> l) (start + length line = len \<and> r)) @
     spans_from rest (start + length line) len ks l r"

lemma verified_spans_loop_exact:
  assumes "fresh_scratch ks sc" and "length spans \<le> limit"
  shows "verified_spans_loop lines start len ks limit l r sc spans = take limit (spans @ spans_from lines start len ks l r)"
  using assms
proof (induction lines arbitrary: start sc spans)
  case (Cons line rest)
  let ?l = "start = 0 \<and> l" and ?r = "start + length line = len \<and> r" and ?m = "limit - length spans"
  let ?h = "line_hits line ks ?l ?r"
  obtain sc' where v: "verified_line_spans line ks ?m ?l ?r (next_generation sc) = (covers ks ?h, sc')"
      "ms_matches sc' = take ?m ?h" "fresh_scratch ks sc'"
    by (rule verified_line_spans_exact [OF Cons.prems(1)])
  let ?out = "spans @ take ?m (token_spans ks start ?h)"
  have out: "(if covers ks ?h then spans @ map (\<lambda>(key_index, s, e). \<lparr>ts_key = ks ! key_index,
       ts_start = start + s, ts_end = start + e\<rparr>) (ms_matches sc') else spans) = ?out"
    by (simp add: token_spans_def v(2) take_map)
  show ?case
  proof (cases "?m = 0")
    case True
    then show ?thesis using Cons.prems(2) by simp
  next
    case False
    have "verified_spans_loop (line # rest) start len ks limit l r sc spans =
        (if length ?out = limit then ?out else verified_spans_loop rest (start + length line) len ks limit l r sc' ?out)"
      using False by (simp only: verified_spans_loop.simps Let_def v(1) prod.case out if_False)
    moreover have "verified_spans_loop rest (start + length line) len ks limit l r sc' ?out =
        take limit (?out @ spans_from rest (start + length line) len ks l r)"
      using Cons.prems(2) by (intro Cons.IH [OF v(3)]) simp
    moreover have "take ?m (token_spans ks start ?h) = token_spans ks start ?h" if "length ?out \<noteq> limit"
      using that Cons.prems(2) by auto
    ultimately show ?thesis using Cons.prems(2) by (cases "length ?out = limit") (auto simp del: verified_spans_loop.simps)
  qed
qed simp

lemma verified_spans_take:
  "verified_spans bs ks limit l r = take limit (spans_from (split_inclusive_lf bs []) 0 (length bs) ks l r)"
  unfolding verified_spans_def
  by (subst verified_spans_loop_exact) (auto simp: fresh_scratch_def u64_end_def)

text \<open>A granule of one line.\<close>

lemma split_one_line: "LF \<notin> set (butlast line) \<Longrightarrow> line \<noteq> [] \<Longrightarrow> split_inclusive_lf line part = [part @ line]"
  by (induction line arbitrary: part) (auto split: if_splits)

lemma one_line_spans:
  assumes "line \<noteq> []" and "LF \<notin> set (butlast line)"
  shows "verified_spans line ks limit False False = take limit (token_spans ks 0 (line_hits line ks False False))"
  using assms by (simp add: verified_spans_take split_one_line)

section \<open>What the hits of a line are\<close>

definition token_keys :: "bytes \<Rightarrow> bytes set" where
  "token_keys line = {lower (slice line s e) | s e. token_at line s e}"

lemma key_index_iff:
  assumes "distinct (map lower ks)"
  shows "key_index ks tok = Some i \<longleftrightarrow> i < length ks \<and> lower (ks ! i) = lower tok"
proof -
  have "i = j" if "i < length ks" "j < length ks" "lower (ks ! i) = lower (ks ! j)" for i j
    using assms that by (metis distinct_conv_nth length_map nth_map)
  then have "(\<forall>j < i. lower tok \<noteq> lower (ks ! j))" if "i < length ks" "lower (ks ! i) = lower tok"
    using that by (metis less_irrefl less_trans)
  then show ?thesis by (auto simp: key_index_def find_Some_iff intro!: exI [of _ i])
qed

lemma line_hits_iff:
  assumes "distinct (map lower ks)"
  shows "(i, s, e) \<in> set (line_hits line ks False False) \<longleftrightarrow>
     token_at line s e \<and> i < length ks \<and> lower (ks ! i) = lower (slice line s e)"
  using key_index_iff [OF assms, of "slice line s e" i]
  by (auto simp: line_hits_def run_hits_def token_runs_set split: option.splits)

lemma covers_iff:
  assumes "distinct (map lower ks)"
  shows "covers ks (line_hits line ks False False) \<longleftrightarrow> lower ` set ks \<subseteq> token_keys line"
proof
  assume c: "covers ks (line_hits line ks False False)"
  show "lower ` set ks \<subseteq> token_keys line"
  proof
    fix k assume "k \<in> lower ` set ks"
    then obtain i where i: "i < length ks" "k = lower (ks ! i)" by (auto simp: in_set_conv_nth)
    then obtain s e where "(i, s, e) \<in> set (line_hits line ks False False)" using c by (force simp: covers_def)
    then show "k \<in> token_keys line" using i by (auto simp: line_hits_iff [OF assms] token_keys_def)
  qed
next
  assume c: "lower ` set ks \<subseteq> token_keys line"
  have "i \<in> fst ` set (line_hits line ks False False)" if i: "i < length ks" for i
  proof -
    obtain s e where "token_at line s e" "lower (ks ! i) = lower (slice line s e)"
      using subsetD [OF c imageI [OF nth_mem [OF i], of lower]] by (auto simp: token_keys_def)
    then have "(i, s, e) \<in> set (line_hits line ks False False)" using i by (simp add: line_hits_iff [OF assms])
    then show ?thesis by force
  qed
  then show "covers ks (line_hits line ks False False)" by (auto simp: covers_def)
qed

lemma line_hits_ascending: "sorted_wrt (\<lambda>x y. fst (snd x) < fst (snd y)) (line_hits line ks l r)"
proof -
  have "sorted_wrt (\<lambda>x y. fst (snd x) < fst (snd y)) (concat (map (run_hits line ks l r) runs))"
    if "sorted_wrt (\<lambda>x y. fst x < fst y) runs" for runs
    using that
  proof (induction runs)
    case (Cons run runs)
    have start: "fst (snd x) = fst run" if "x \<in> set (run_hits line ks l r run)" for x run
      using that by (auto simp: run_hits_def split: option.splits prod.splits if_splits)
    have "sorted_wrt (\<lambda>x y. fst (snd x) < fst (snd y)) (run_hits line ks l r run)"
      by (auto simp: run_hits_def split: option.splits prod.splits)
    then show ?case using Cons start by (simp add: sorted_wrt_append)
  qed simp
  moreover have "sorted_wrt (\<lambda>x y. fst x < fst y) (token_runs line 0)"
  proof (rule sorted_wrt_mono_rel [OF _ token_runs_sorted])
    show "token_cut line 0" by (simp add: token_cut_def)
    fix x y assume x: "x \<in> set (token_runs line 0)" "snd x \<le> (fst y :: nat)"
    then have "fst x < snd x" by (auto simp: token_runs_set token_at_def)
    then show "fst x < fst y" using x(2) by simp
  qed
  ultimately show ?thesis unfolding line_hits_def by blast
qed

section \<open>Query keys\<close>

lemma insert_query_key_Ok:
  assumes "insert_query_key opts ks k = Ok ks'" and "sorted ks" and "distinct ks"
  shows "set ks' = insert k (set ks)" and "sorted ks'" and "distinct ks'"
  using assms by (auto simp: insert_query_key_def result_simps set_insort_key sorted_insort distinct_insort split: if_splits)

lemma insert_query_keys_Ok:
  assumes "rfold (\<lambda>ks x. insert_query_key opts ks (f x)) ks xs = Ok ks'" and "sorted ks" and "distinct ks"
  shows "set ks' = set ks \<union> f ` set xs" and "sorted ks'" and "distinct ks'"
proof -
  have "set ks' = set ks \<union> f ` set xs \<and> sorted ks' \<and> distinct ks'"
    using assms
  proof (induction xs arbitrary: ks)
    case (Cons x xs)
    then obtain k1 where k: "insert_query_key opts ks (f x) = Ok k1"
        "rfold (\<lambda>ks x. insert_query_key opts ks (f x)) k1 xs = Ok ks'"
      by (auto simp: result_simps)
    note i = insert_query_key_Ok [OF k(1) Cons.prems(2,3)]
    show ?case using Cons.IH [OF k(2) i(2,3)] i(1) by auto
  qed simp
  then show "set ks' = set ks \<union> f ` set xs" "sorted ks'" "distinct ks'" by blast+
qed

lemma lower_lower [simp]: "lower (lower bs) = lower bs"
proof -
  have "to_ascii_lowercase (to_ascii_lowercase b) = to_ascii_lowercase b" for b :: u8
  proof (cases "is_ascii_uppercase b")
    case True
    then have "\<not> b + 0x20 \<le> 0x5a" unfolding is_ascii_uppercase_def by unat_arith simp
    then show ?thesis by (auto simp: to_ascii_lowercase_def is_ascii_uppercase_def)
  qed (simp add: to_ascii_lowercase_def)
  then show ?thesis by (simp add: lower_def)
qed

lemma unique_query_keys_Ok:
  assumes "unique_query_keys query opts = Ok ks"
  shows "set ks = token_keys query" and "distinct (map lower ks)" and "map lower ks = ks"
proof -
  have "rfold (\<lambda>ks (s, e). insert_query_key opts ks (lower (slice query s e))) [] (token_runs query 0) = Ok ks"
    using assms by (auto simp: unique_query_keys_def query_tokens_fold result_simps)
  then have "rfold (\<lambda>ks x. insert_query_key opts ks (lower (slice query (fst x) (snd x)))) [] (token_runs query 0) = Ok ks"
    by (simp add: case_prod_unfold)
  note ok = insert_query_keys_Ok [OF this]
  show s: "set ks = token_keys query"
    unfolding ok(1) [simplified] token_runs_set by (auto simp: token_keys_def image_def)
  show "map lower ks = ks" using s by (intro map_idI) (auto simp: token_keys_def)
  then show "distinct (map lower ks)" using ok(3) by simp
qed

end
