(* ===== verification/Search_Build.thy ===== *)
theory Search_Build
  imports Search_Tokens
begin

text \<open>
  Correctness of index construction (src/src/search.rs): although the builder sees the text
  chunk by chunk and keeps only an unfinished line, the granules it emits are the lines of the
  text, and the posting list of a key holds, in ascending order, the numbers of exactly the
  lines that contain it. The contract of the ordered map it collects postings in is the locale
  \<open>ordered_map\<close>.
\<close>

section \<open>The ordered map\<close>

text \<open>Adding a granule to the list of a key, without the counters.\<close>

definition post_granule ::
  "('m \<Rightarrow> 'k \<Rightarrow> nat list option) \<Rightarrow> ('m \<Rightarrow> 'k \<Rightarrow> nat list \<Rightarrow> 'm) \<Rightarrow> nat \<Rightarrow> 'm \<Rightarrow> 'k \<Rightarrow> 'm"
where
  "post_granule lookup ins g m k =
     (case lookup m k of
        None \<Rightarrow> ins m k [g]
      | Some posting_list \<Rightarrow> if posting_list \<noteq> [] \<and> last posting_list = g then m else ins m k (posting_list @ [g]))"

locale ordered_map =
  fixes ordered :: "'m \<Rightarrow> bool" and lookup :: "'m \<Rightarrow> 'k \<Rightarrow> nat list option" and ins :: "'m \<Rightarrow> 'k \<Rightarrow> nat list \<Rightarrow> 'm"
  assumes ordered_ins: "ordered m \<Longrightarrow> ordered (ins m k v)"
    and lookup_ins: "ordered m \<Longrightarrow> lookup (ins m k v) k' = (if k' = k then Some v else lookup m k')"
begin

lemma post_all:
  assumes "ordered m" and "\<And>k l. lookup m k = Some l \<Longrightarrow> \<forall>i \<in> set l. i < g"
  shows "ordered (foldl (post_granule lookup ins g) m ks)"
    and "lookup (foldl (post_granule lookup ins g) m ks) k =
      (if k \<in> set ks then Some (case lookup m k of None \<Rightarrow> [g] | Some l \<Rightarrow> l @ [g]) else lookup m k)"
proof -
  have "ordered (foldl (post_granule lookup ins g) m ks) \<and> (\<forall>k. lookup (foldl (post_granule lookup ins g) m ks) k =
      (if k \<in> set ks then Some (case lookup m k of None \<Rightarrow> [g] | Some l \<Rightarrow> l @ [g]) else lookup m k))"
  proof (induction ks rule: rev_induct)
    case (snoc k0 ks)
    let ?m = "foldl (post_granule lookup ins g) m ks"
    have IH: "ordered ?m" "\<And>k. lookup ?m k = (if k \<in> set ks then Some (case lookup m k of None \<Rightarrow> [g] | Some l \<Rightarrow> l @ [g]) else lookup m k)"
      using snoc by blast+
    show ?case
    proof (cases "k0 \<in> set ks")
      case True
      then have "post_granule lookup ins g ?m k0 = ?m"
        by (simp add: post_granule_def IH(2) split: option.split)
      then show ?thesis using IH True by auto
    next
      case False
      have "\<not> (l \<noteq> [] \<and> last l = g)" if "lookup m k0 = Some l" for l using assms(2) [OF that] by (cases l rule: rev_cases) auto
      then have "post_granule lookup ins g ?m k0 = ins ?m k0 (case lookup m k0 of None \<Rightarrow> [g] | Some l \<Rightarrow> l @ [g])"
        using False by (auto simp: post_granule_def IH(2) split: option.split)
      then show ?thesis using IH ordered_ins lookup_ins by auto
    qed
  qed (simp add: assms(1))
  then show "ordered (foldl (post_granule lookup ins g) m ks)"
    "lookup (foldl (post_granule lookup ins g) m ks) k =
      (if k \<in> set ks then Some (case lookup m k of None \<Rightarrow> [g] | Some l \<Rightarrow> l @ [g]) else lookup m k)" by blast+
qed

end

definition btree_ordered :: "posting_map \<Rightarrow> bool" where
  "btree_ordered m \<longleftrightarrow> sorted_wrt (<) (map fst m)"

lemma btree_insert_keys: "fst ` set (btree_insert m k v) = insert k (fst ` set m)"
  by (induction m k v rule: btree_insert.induct) auto

interpretation btree: ordered_map btree_ordered btree_get btree_insert
proof
  fix m k v
  assume "btree_ordered m"
  then show "btree_ordered (btree_insert m k v)"
  proof (induction m k v rule: btree_insert.induct)
    case (2 k w rest key v)
    have "\<forall>x \<in> fst ` set (btree_insert rest key v). k < x" if "k < key"
      using 2(2) that by (auto simp: btree_insert_keys btree_ordered_def)
    then show ?case using 2 by (auto simp: btree_ordered_def)
  qed (simp add: btree_ordered_def)
next
  fix m k v k'
  assume "btree_ordered m"
  then show "btree_get (btree_insert m k v) k' = (if k' = k then Some v else btree_get m k')"
  proof (induction m k v rule: btree_insert.induct)
    case (2 k w rest key v)
    then show ?case by (auto simp: btree_ordered_def)
  qed simp
qed

section \<open>Keys of a line\<close>

lemma no_uppercase_lower: "\<not> list_ex is_ascii_uppercase key \<Longrightarrow> lower key = key"
  by (induction key) (auto simp: lower_def to_ascii_lowercase_def)

lemma add_key_Ok:
  assumes "add_key meter m key c g = Ok (m', meter')"
  shows "m' = post_granule btree_get btree_insert g m (if c then lower key else key)"
    and "bm_mode meter' = bm_mode meter"
proof -
  define k where "k = (if c then lower key else key)"
  have "(if c \<and> list_ex is_ascii_uppercase key then map to_ascii_lowercase key else key) = k"
    using no_uppercase_lower [of key] by (auto simp: k_def lower_def)
  then have "m' = post_granule btree_get btree_insert g m k \<and> bm_mode meter' = bm_mode meter"
    using assms by (cases "btree_get m k") (auto simp: add_key_def Let_def result_simps post_granule_def split: if_splits)
  then show "m' = post_granule btree_get btree_insert g m (if c then lower key else key)" "bm_mode meter' = bm_mode meter"
    by (simp_all add: k_def)
qed

lemma add_keys_Ok:
  assumes "rfold (\<lambda>st x. add_key (snd st) (fst st) (f x) c g) st xs = Ok st'"
  shows "fst st' = foldl (post_granule btree_get btree_insert g) (fst st) (map (\<lambda>x. if c then lower (f x) else f x) xs)"
    and "bm_mode (snd st') = bm_mode (snd st)"
proof -
  have "fst st' = foldl (post_granule btree_get btree_insert g) (fst st) (map (\<lambda>x. if c then lower (f x) else f x) xs) \<and>
      bm_mode (snd st') = bm_mode (snd st)"
    using assms
  proof (induction xs arbitrary: st)
    case (Cons x xs)
    then obtain m' meter' where a: "add_key (snd st) (fst st) (f x) c g = Ok (m', meter')"
        "rfold (\<lambda>st x. add_key (snd st) (fst st) (f x) c g) (m', meter') xs = Ok st'"
      by (auto simp: result_simps)
    show ?case using Cons.IH [OF a(2)] add_key_Ok [OF a(1)] by simp
  qed simp
  then show "fst st' = foldl (post_granule btree_get btree_insert g) (fst st) (map (\<lambda>x. if c then lower (f x) else f x) xs)"
    "bm_mode (snd st') = bm_mode (snd st)" by blast+
qed

text \<open>The n-grams of a text: the bytes between a scalar and the n-th one after it.\<close>

definition ngram_bounds :: "nat \<Rightarrow> bytes \<Rightarrow> (nat \<times> nat) list" where
  "ngram_bounds n bs = zip (char_starts bs) (drop n (char_starts bs @ [length bs]))"

definition ngram_keys :: "nat \<Rightarrow> bytes \<Rightarrow> bytes set" where
  "ngram_keys n bs = (\<lambda>(s, e). slice bs s e) ` set (ngram_bounds n bs)"

definition keys_of :: "BuildKeys \<Rightarrow> bytes \<Rightarrow> bytes set" where
  "keys_of mode line = (case mode of Token \<Rightarrow> token_keys line | Ngram n \<Rightarrow> ngram_keys n line)"

definition indexable :: "BuildKeys \<Rightarrow> bytes \<Rightarrow> bool" where
  "indexable mode line \<longleftrightarrow> (case mode of Token \<Rightarrow> True | Ngram n \<Rightarrow> valid_utf8 line)"

lemma add_line_keys:
  assumes "(case bm_mode meter of Token \<Rightarrow> add_tokens line g 0 (m, meter) | Ngram n \<Rightarrow> add_ngrams line g n (m, meter)) = Ok (m', meter')"
  obtains ks where "m' = foldl (post_granule btree_get btree_insert g) m ks" and "set ks = keys_of (bm_mode meter) line"
    and "bm_mode meter' = bm_mode meter" and "indexable (bm_mode meter) line"
proof (cases "bm_mode meter")
  case Token
  then have "rfold (\<lambda>st x. add_key (snd st) (fst st) ((\<lambda>(s, e). slice line s e) x) True g) (m, meter) (token_runs line 0) = Ok (m', meter')"
    using assms by (simp add: add_tokens_fold case_prod_unfold)
  note a = add_keys_Ok [OF this]
  show thesis
  proof (rule that)
    show "m' = foldl (post_granule btree_get btree_insert g) m (map (\<lambda>(s, e). lower (slice line s e)) (token_runs line 0))"
      using a(1) by (simp add: case_prod_unfold)
    show "set (map (\<lambda>(s, e). lower (slice line s e)) (token_runs line 0)) = keys_of (bm_mode meter) line"
      by (auto simp: Token keys_of_def token_keys_def token_runs_set image_def)
  qed (use a(2) Token in \<open>simp_all add: indexable_def\<close>)
next
  case (Ngram n)
  then have r: "valid_utf8 line" "rfold (\<lambda>st x. add_key (snd st) (fst st) ((\<lambda>(s, e). slice line s e) x) False g) (m, meter) (ngram_bounds n line) = Ok (m', meter')"
    using assms by (auto simp: add_ngrams_def result_simps case_prod_unfold ngram_bounds_def)
  note a = add_keys_Ok [OF r(2)]
  show thesis
  proof (rule that)
    show "m' = foldl (post_granule btree_get btree_insert g) m (map (\<lambda>(s, e). slice line s e) (ngram_bounds n line))"
      using a(1) by (simp add: case_prod_unfold)
    show "set (map (\<lambda>(s, e). slice line s e) (ngram_bounds n line)) = keys_of (bm_mode meter) line"
      by (simp add: Ngram keys_of_def ngram_keys_def)
  qed (use a(2) Ngram r(1) in \<open>simp_all add: indexable_def\<close>)
qed

section \<open>Lines\<close>

definition text_lines :: "bytes \<Rightarrow> bytes list" where
  "text_lines data = split_inclusive_lf data []"

definition whole_line :: "bytes \<Rightarrow> bool" where
  "whole_line line \<longleftrightarrow> line \<noteq> [] \<and> last line = LF \<and> LF \<notin> set (butlast line)"

definition line_offset :: "bytes list \<Rightarrow> nat \<Rightarrow> nat" where
  "line_offset ls i = length (concat (take i ls))"

lemma split_inclusive_append:
  "LF \<notin> set xs \<Longrightarrow> split_inclusive_lf (xs @ LF # ys) part = (part @ xs @ [LF]) # split_inclusive_lf ys []"
  by (induction xs arbitrary: part) auto

lemma text_lines_unique:
  assumes "\<forall>l \<in> set ls. whole_line l" and "LF \<notin> set c"
  shows "text_lines (concat ls @ c) = ls @ (if c = [] then [] else [c])"
  using assms(1)
proof (induction ls)
  case Nil
  have "split_inclusive_lf c [] = (if c = [] then [] else [c])"
    using assms(2) split_one_line [of c "[]"] in_set_butlastD [of LF c] by auto
  then show ?case by (simp add: text_lines_def)
next
  case (Cons l ls)
  then have l: "l = butlast l @ [LF]" "LF \<notin> set (butlast l)" by (auto simp: whole_line_def) (metis append_butlast_last_id)
  have "text_lines (concat (l # ls) @ c) = split_inclusive_lf (butlast l @ LF # (concat ls @ c)) []"
    unfolding text_lines_def by (subst l(1)) simp
  also have "\<dots> = l # text_lines (concat ls @ c)"
    using split_inclusive_append [OF l(2), of "concat ls @ c" "[]"] l(1) by (simp add: text_lines_def)
  finally show ?case using Cons by simp
qed

section \<open>What the builder has emitted\<close>

definition ids_with :: "(bytes \<Rightarrow> bytes set) \<Rightarrow> bytes list \<Rightarrow> bytes \<Rightarrow> nat list" where
  "ids_with K ls k = filter (\<lambda>i. k \<in> K (ls ! i)) [0 ..< length ls]"

definition posts :: "(bytes \<Rightarrow> bytes set) \<Rightarrow> bytes list \<Rightarrow> posting_map \<Rightarrow> bool" where
  "posts K ls m \<longleftrightarrow> btree_ordered m \<and>
     (\<forall>k. btree_get m k = (if ids_with K ls k = [] then None else Some (ids_with K ls k)))"

definition granule_at_line :: "ChunkEntry list \<Rightarrow> bytes list \<Rightarrow> nat \<Rightarrow> SearchGranule \<Rightarrow> bool" where
  "granule_at_line entries ls i g \<longleftrightarrow> sg_granule_id g = i \<and> sg_logical_offset g = line_offset ls i \<and>
     sg_byte_length g = length (ls ! i) \<and> sg_first_line g = Some i \<and> sg_line_count g = Some 1 \<and>
     chunk_span_for_range entries (line_offset ls i) (line_offset ls i + length (ls ! i)) = Ok (sg_chunk_start g, sg_chunk_end g)"

definition granules_are_lines :: "ChunkEntry list \<Rightarrow> bytes list \<Rightarrow> SearchGranule list \<Rightarrow> bool" where
  "granules_are_lines entries ls gs \<longleftrightarrow> length gs = length ls \<and> (\<forall>i < length ls. granule_at_line entries ls i (gs ! i))"

definition line_index_of :: "ChunkEntry list \<Rightarrow> BuildKeys \<Rightarrow> bytes list \<Rightarrow> LineIndex \<Rightarrow> bool" where
  "line_index_of entries mode ls li \<longleftrightarrow> granules_are_lines entries ls (li_granules li) \<and> posts (keys_of mode) ls (li_postings li) \<and>
     bm_mode (li_meter li) = mode \<and> (\<forall>l \<in> set ls. indexable mode l)"

lemma ids_with_snoc: "ids_with K (ls @ [l]) k = ids_with K ls k @ (if k \<in> K l then [length ls] else [])"
proof -
  have "filter (\<lambda>i. k \<in> K ((ls @ [l]) ! i)) [0 ..< length ls] = filter (\<lambda>i. k \<in> K (ls ! i)) [0 ..< length ls]"
    by (intro filter_cong) (auto simp: nth_append)
  then show ?thesis by (simp add: ids_with_def)
qed

lemma posts_snoc:
  assumes "posts K ls m" and "set ks = K l"
  shows "posts K (ls @ [l]) (foldl (post_granule btree_get btree_insert (length ls)) m ks)"
proof -
  have g: "btree_ordered m" "\<And>k. btree_get m k = (if ids_with K ls k = [] then None else Some (ids_with K ls k))"
    using assms(1) by (auto simp: posts_def)
  have "\<forall>i \<in> set l. i < length ls" if "btree_get m k = Some l" for k l
    using that by (auto simp: g(2) ids_with_def split: if_splits)
  note p = btree.post_all [OF g(1) this]
  show ?thesis
    unfolding posts_def using p(1) p(2) g(2) assms(2) by (auto simp: ids_with_snoc split: option.splits)
qed

lemma line_offset_snoc: "i < length ls \<Longrightarrow> line_offset (ls @ [l]) i = line_offset ls i"
  by (simp add: line_offset_def)

lemma line_offset_last: "line_offset (ls @ [l]) (length ls) = length (concat ls)"
  by (simp add: line_offset_def)

lemma granules_snoc:
  assumes "granules_are_lines entries ls gs"
    and "granule_at_line entries (ls @ [l]) (length ls) g"
  shows "granules_are_lines entries (ls @ [l]) (gs @ [g])"
  using assms
  by (auto simp: granules_are_lines_def granule_at_line_def nth_append line_offset_snoc less_Suc_eq)

lemma emit_line_granule_Ok:
  assumes "line_index_of entries mode ls li"
    and "emit_line_granule entries (length (concat ls)) (length (concat ls) + length line) line li = Ok li'"
  shows "line_index_of entries mode (ls @ [line]) li'"
proof -
  have n: "length (li_granules li) = length ls" and mode: "bm_mode (li_meter li) = mode"
    using assms(1) by (auto simp: line_index_of_def granules_are_lines_def)
  obtain cs ce m' meter' where e: "chunk_span_for_range entries (length (concat ls)) (length (concat ls) + length line) = Ok (cs, ce)"
      "(case bm_mode (li_meter li) of Token \<Rightarrow> add_tokens line (length ls) 0 (li_postings li, li_meter li)
        | Ngram n \<Rightarrow> add_ngrams line (length ls) n (li_postings li, li_meter li)) = Ok (m', meter')"
      "li' = \<lparr>li_granules = li_granules li @ [\<lparr>sg_granule_id = length ls, sg_logical_offset = length (concat ls),
             sg_byte_length = length line, sg_chunk_start = cs, sg_chunk_end = ce,
             sg_first_line = Some (length ls), sg_line_count = Some 1\<rparr>], li_postings = m', li_meter = meter'\<rparr>"
    using assms(2) by (auto simp: emit_line_granule_def result_simps width_simps n split: prod.splits)
  obtain ks where k: "m' = foldl (post_granule btree_get btree_insert (length ls)) (li_postings li) ks"
      "set ks = keys_of mode line" "bm_mode meter' = mode" "indexable mode line"
    by (rule add_line_keys [OF e(2), unfolded mode])
  have "posts (keys_of mode) (ls @ [line]) m'"
    unfolding k(1) using assms(1) k(2) by (intro posts_snoc) (auto simp: line_index_of_def)
  moreover have "granules_are_lines entries (ls @ [line]) (li_granules li')"
    unfolding e(3) LineIndex.select_convs
    using assms(1) e(1) by (intro granules_snoc) (auto simp: line_index_of_def granule_at_line_def line_offset_last)
  ultimately show ?thesis using assms(1) k(3,4) by (auto simp: line_index_of_def e(3))
qed

text \<open>Between two bytes: the lines emitted, and the unfinished line so far.\<close>

definition built :: "ChunkEntry list \<Rightarrow> BuildKeys \<Rightarrow> bytes \<Rightarrow> bytes \<Rightarrow> bytes list \<Rightarrow> LineBuild \<Rightarrow> bool" where
  "built entries mode p part ls b \<longleftrightarrow> line_index_of entries mode ls (lb_index b) \<and> concat ls @ lb_carry b @ part = p \<and>
     (\<forall>l \<in> set ls. whole_line l) \<and> LF \<notin> set (lb_carry b @ part) \<and> lb_line_start b = length (concat ls)"

lemma slice_snoc: "a \<le> i \<Longrightarrow> i < length d \<Longrightarrow> slice d a (Suc i) = slice d a i @ [d ! i]"
  by (simp add: slice_def Suc_diff_le take_Suc_conv_app_nth)

lemma build_line_step_Ok:
  assumes "built entries mode (p @ take i d) (slice d consumed i) ls b" and "consumed \<le> i" and "i < length d"
    and "logical_offset entry = length p"
    and "build_line_step entries max_line entry d (consumed, b) (i, d ! i) = Ok (consumed', b')"
  shows "consumed' \<le> Suc i \<and> (\<exists>ls'. built entries mode (p @ take (Suc i) d) (slice d consumed' (Suc i)) ls' b')"
proof -
  have tk: "take (Suc i) d = take i d @ [d ! i]" using assms(3) by (simp add: take_Suc_conv_app_nth)
  note sl = slice_snoc [OF assms(2,3)]
  note b = assms(1) [unfolded built_def]
  show ?thesis
  proof (cases "d ! i = LF")
    case False
    then have "consumed' = consumed" "b' = b" using assms(5) by (simp_all add: build_line_step_def)
    then show ?thesis using assms(2) b False tk sl by (auto simp: built_def intro!: exI [of _ ls])
  next
    case True
    let ?line = "lb_carry b @ slice d consumed i @ [LF]"
    have line: "(if lb_carry b = [] then slice d consumed (Suc i) else lb_carry b @ slice d consumed (Suc i)) = ?line"
      using sl True by simp
    have e: "length p + (i + 1) = length (concat ls) + length ?line"
    proof -
      have "length (concat ls @ lb_carry b @ slice d consumed i) = length (p @ take i d)" using b by simp
      then show ?thesis using assms(3) by simp
    qed
    obtain li where li: "emit_line_granule entries (length (concat ls)) (length p + (i + 1)) ?line (lb_index b) = Ok li"
        "consumed' = i + 1" "b' = \<lparr>lb_index = li, lb_carry = [], lb_line_start = length p + (i + 1)\<rparr>"
      using assms(5) b True
      by (auto simp: build_line_step_def Let_def line result_simps width_simps assms(4))
    have idx: "line_index_of entries mode (ls @ [?line]) li"
      using emit_line_granule_Ok [of entries mode ls "lb_index b" ?line li] li(1) b unfolding e by blast
    moreover have "whole_line ?line" using b by (auto simp: whole_line_def butlast_append)
    moreover have "concat (ls @ [?line]) = p @ take (Suc i) d" using b tk True by auto
    ultimately have "built entries mode (p @ take (Suc i) d) (slice d consumed' (Suc i)) (ls @ [?line]) b'"
      using b li e assms(3) by (simp add: built_def min_absorb2)
    then show ?thesis using li(2) by auto
  qed
qed

lemma build_chunk_step_Ok:
  assumes "built entries mode p [] ls b" and "logical_offset entry = length p" and "decode entry = Ok d"
    and "build_chunk_step entries max_line decode b entry = Ok b'"
  shows "\<exists>ls'. built entries mode (p @ d) [] ls' b'"
proof -
  obtain consumed b1 where f: "rfold (build_line_step entries max_line entry d) (0, b) (enumerate 0 d) = Ok (consumed, b1)"
    using assms(3,4) by (auto simp: build_chunk_step_def result_simps)
  have b': "b' = (if consumed < length d then b1\<lparr>lb_carry := lb_carry b1 @ drop consumed d\<rparr> else b1)"
    using assms(3,4) f by (auto simp: build_chunk_step_def result_simps split: if_splits)
  have "(\<lambda>i st. fst st \<le> i \<and> (\<exists>ls'. built entries mode (p @ take i d) (slice d (fst st) i) ls' (snd st))) (length d) (consumed, b1)"
  proof (rule rfold_enumerate_induct [OF f])
    show "fst (0 :: nat, b) \<le> 0 \<and> (\<exists>ls'. built entries mode (p @ take 0 d) (slice d (fst (0, b)) 0) ls' (snd (0, b)))"
      using assms(1) by auto
    fix k u u'
    assume k: "k < length d" "fst u \<le> k \<and> (\<exists>ls'. built entries mode (p @ take k d) (slice d (fst u) k) ls' (snd u))"
      "build_line_step entries max_line entry d u (k, d ! k) = Ok u'"
    then show "fst u' \<le> Suc k \<and> (\<exists>ls'. built entries mode (p @ take (Suc k) d) (slice d (fst u') (Suc k)) ls' (snd u'))"
      using build_line_step_Ok [OF _ _ k(1) assms(2), of entries mode "fst u" _ "snd u" max_line "fst u'" "snd u'"] by auto
  qed
  then obtain ls' where "consumed \<le> length d" "built entries mode (p @ d) (slice d consumed (length d)) ls' b1" by auto
  then have "built entries mode (p @ d) [] ls' b'"
    by (auto simp: built_def b' slice_def)
  then show ?thesis by blast
qed

lemma rfold_list_induct:
  assumes "rfold f s xs = Ok s'" and "P 0 s"
    and "\<And>k u u'. k < length xs \<Longrightarrow> P k u \<Longrightarrow> f u (xs ! k) = Ok u' \<Longrightarrow> P (Suc k) u'"
  shows "P (length xs) s'"
proof -
  have "rfold (\<lambda>u x. f u (snd x)) u (enumerate n ys) = rfold f u ys" for u n ys
    by (induction ys arbitrary: u n) (auto intro!: rbind_cong)
  then have "rfold (\<lambda>u x. f u (snd x)) s (enumerate 0 xs) = Ok s'" using assms(1) by simp
  then show ?thesis using assms(2) by (rule rfold_enumerate_induct) (simp add: assms(3))
qed

text \<open>What a finished index holds: one granule per line, and exact posting lists.\<close>

definition index_of_text ::
  "ChunkEntry list \<Rightarrow> BuildKeys \<Rightarrow> bytes \<Rightarrow> SearchGranule list \<Rightarrow> bytes list \<Rightarrow> u64 list list \<Rightarrow> bool"
where
  "index_of_text entries mode data granules ks postings \<longleftrightarrow>
     granules_are_lines entries (text_lines data) granules \<and> sorted_wrt (<) ks \<and>
     set ks = (\<Union>l \<in> set (text_lines data). keys_of mode l) \<and>
     postings = map (ids_with (keys_of mode) (text_lines data)) ks \<and> (\<forall>l \<in> set (text_lines data). indexable mode l)"

lemma posts_keys:
  assumes "posts K ls m"
  shows "set (map fst m) = (\<Union>l \<in> set ls. K l)" and "map snd m = map (ids_with K ls) (map fst m)"
proof -
  have dom: "btree_get m k \<noteq> None \<longleftrightarrow> k \<in> fst ` set m" for k by (induction m k rule: btree_get.induct) auto
  have ids: "ids_with K ls k \<noteq> [] \<longleftrightarrow> (\<exists>l \<in> set ls. k \<in> K l)" for k
    by (force simp: ids_with_def filter_empty_conv in_set_conv_nth)
  have "k \<in> fst ` set m \<longleftrightarrow> (\<exists>l \<in> set ls. k \<in> K l)" for k
    using assms dom [of k] ids [of k] by (auto simp: posts_def)
  then show "set (map fst m) = (\<Union>l \<in> set ls. K l)" by auto
  have get: "btree_get m k = Some v" if "(k, v) \<in> set m" "btree_ordered m" for k v and m :: posting_map
    using that by (induction m) (force simp: btree_ordered_def)+
  have "snd x = ids_with K ls (fst x)" if "x \<in> set m" for x
    using get [of "fst x" "snd x" m] that assms by (auto simp: posts_def split: if_splits)
  then show "map snd m = map (ids_with K ls) (map fst m)" by simp
qed

context chunk_source
begin

lemma build_exact:
  assumes "build_line_index_streaming X entries total max_line limits decode mode = Ok (granules, terms, postings)"
  shows "\<forall>e \<in> set entries. is_ok (decode e)"
    and "index_of_text entries mode (restored_bytes decode entries) granules (map te_key terms) postings"
proof -
  let ?b0 = "\<lparr>lb_index = \<lparr>li_granules = [], li_postings = [],
          li_meter = \<lparr>bm_limits = limits, bm_mode = mode, bm_keys = 0, bm_key_bytes = 0, bm_postings = 0\<rparr>\<rparr>,
        lb_carry = [], lb_line_start = 0\<rparr>"
  obtain b li where r: "rfold (build_chunk_step entries max_line decode) ?b0 entries = Ok b"
      "(if lb_carry b \<noteq> [] then emit_line_granule entries (lb_line_start b) total (lb_carry b) (lb_index b)
            else Ok (lb_index b)) = Ok li"
      "granules = li_granules li" "terms = map (\<lambda>(key, _). term_of_key X key) (li_postings li)" "postings = map snd (li_postings li)"
    using assms by (auto simp: build_line_index_streaming_def result_simps)
  have "(\<forall>e \<in> set (take (length entries) entries). is_ok (decode e)) \<and>
      (\<exists>ls. built entries mode (restored_bytes decode (take (length entries) entries)) [] ls b)"
  proof (rule rfold_list_induct [OF r(1)])
    have "posts (keys_of mode) [] []" by (simp add: posts_def ids_with_def btree_ordered_def)
    then show "(\<forall>e \<in> set (take 0 entries). is_ok (decode e)) \<and> (\<exists>ls. built entries mode (restored_bytes decode (take 0 entries)) [] ls ?b0)"
      by (auto simp: built_def line_index_of_def granules_are_lines_def restored_bytes_def intro!: exI [of _ "[]"])
    fix k u u'
    assume k: "k < length entries" and P: "(\<forall>e \<in> set (take k entries). is_ok (decode e)) \<and>
        (\<exists>ls. built entries mode (restored_bytes decode (take k entries)) [] ls u)"
      and st: "build_chunk_step entries max_line decode u (entries ! k) = Ok u'"
    from st obtain d where d: "decode (entries ! k) = Ok d" by (auto simp: build_chunk_step_def result_simps)
    have tk: "take (Suc k) entries = take k entries @ [entries ! k]" using k by (simp add: take_Suc_conv_app_nth)
    have lo: "logical_offset (entries ! k) = length (restored_bytes decode (take k entries))"
      using layout_nth(2) [OF layout k] restored_length [of k] by simp
    have "restored_bytes decode (take (Suc k) entries) = restored_bytes decode (take k entries) @ d"
      unfolding tk using d by (simp add: restored_bytes_def chunk_or_zeros_def)
    then show "(\<forall>e \<in> set (take (Suc k) entries). is_ok (decode e)) \<and>
        (\<exists>ls. built entries mode (restored_bytes decode (take (Suc k) entries)) [] ls u')"
      using P build_chunk_step_Ok [OF _ lo d st] d unfolding tk by auto
  qed
  then obtain ls where all: "\<forall>e \<in> set entries. is_ok (decode e)" and b: "built entries mode (restored_bytes decode entries) [] ls b"
    by auto
  show "\<forall>e \<in> set entries. is_ok (decode e)" by (rule all)
  let ?data = "restored_bytes decode entries"
  have lines: "text_lines ?data = ls @ (if lb_carry b = [] then [] else [lb_carry b])"
    using text_lines_unique [of ls "lb_carry b"] b by (simp add: built_def)
  have "total = length (concat ls) + length (lb_carry b)"
    using b restored_total unfolding built_def by (metis append_Nil2 length_append)
  then have "line_index_of entries mode (text_lines ?data) li"
    using r(2) b lines emit_line_granule_Ok [of entries mode ls "lb_index b" "lb_carry b" li]
    by (auto simp: built_def split: if_splits)
  then have li: "granules_are_lines entries (text_lines ?data) granules" "posts (keys_of mode) (text_lines ?data) (li_postings li)"
      "\<forall>l \<in> set (text_lines ?data). indexable mode l"
    by (simp_all add: line_index_of_def r(3))
  have ks: "map te_key terms = map fst (li_postings li)" by (simp add: r(4) term_of_key_def case_prod_unfold)
  show "index_of_text entries mode ?data granules (map te_key terms) postings"
    using li posts_keys [OF li(2)] unfolding index_of_text_def ks r(5) by (simp add: posts_def btree_ordered_def)
qed

end

end
