(* ===== verification/Search_Verify.thy ===== *)
theory Search_Verify
  imports Search_Build "HOL-Library.Sublist"
begin

text \<open>
  Verification of candidates (src/src/search.rs). The contract between the searches and what
  they search in is the locale \<open>indexed_text\<close>: a source of chunks that all decode, and an
  index whose granules are the lines of the text and whose posting lists are exact. Under it,
  whatever the limits do, the hits are a prefix of the matches in the lines that contain all
  query keys, and all of them when no limit stopped the search.
\<close>

section \<open>Cached reads that succeed\<close>

lemma decoded_entry_Ok:
  assumes "decoded_entry c e decode = (Ok d, c')" and "cache_valid decode all c" and "e \<in> set all" and "inj_on chunk_id (set all)"
  shows "decode e = Ok d" and "cache_valid decode all c'"
  using assms
  by (auto simp: decoded_entry_def cache_valid_def Let_def split: if_splits sum.splits option.splits dest: inj_onD)

lemma read_range_loop_Ok:
  assumes "read_range_loop es offset e decode acc c = (Ok out, c')" and "cache_valid decode all c" and "set es \<subseteq> set all"
    and "inj_on chunk_id (set all)"
  shows "read_ref decode offset e acc es = Ok out" and "cache_valid decode all c'"
proof -
  have "read_ref decode offset e acc es = Ok out \<and> cache_valid decode all c'"
    using assms
  proof (induction es arbitrary: acc c)
    case (Cons en es)
    show ?case
    proof (cases "logical_offset en \<ge> e")
      case True
      then show ?thesis using Cons.prems by (auto split: sum.splits)
    next
      case False
      obtain r c1 where d: "decoded_entry c en decode = (r, c1)" by fastforce
      from Cons.prems(1) False d obtain x where x: "r = Ok x"
          "read_range_loop es offset e decode (acc @ slice x (max offset (logical_offset en) - logical_offset en)
             (min e (logical_offset en + uncompressed_size en) - logical_offset en)) c1 = (Ok out, c')"
        by (auto simp: Let_def width_simps split: sum.splits) (auto simp: result_simps width_simps)
      have "en \<in> set all" using Cons.prems(3) by simp
      note dx = decoded_entry_Ok [OF d [unfolded x(1)] Cons.prems(2) this Cons.prems(4)]
      show ?thesis using Cons.IH [OF x(2) dx(2)] Cons.prems(3,4) dx(1) False by simp
    qed
  qed simp
  then show "read_ref decode offset e acc es = Ok out" "cache_valid decode all c'" by blast+
qed

context chunk_source
begin

lemma cached_read_Ok:
  assumes "read_range_from_entries_cached entries total offset len c decode = (Ok out, c')" and "cache_valid decode entries c"
  shows "offset + len \<le> total" and "out = slice (restored_bytes decode entries) offset (offset + len)"
    and "cache_valid decode entries c'"
proof -
  have b: "offset + len \<le> total" using assms(1) out_of_bounds [of offset len c] by (cases "offset + len \<le> total") auto
  then have off: "offset < u64_end" using total_width by simp
  have "out = slice (restored_bytes decode entries) offset (offset + len) \<and> cache_valid decode entries c'"
  proof (cases "0 < len")
    case False
    then show ?thesis using assms b by (auto simp: empty_read)
  next
    case True
    obtain k where k: "chunk_index_for_logical_offset entries offset = Ok k" using loop_entry [OF b True] by metis
    obtain r c1 where l: "read_range_loop (drop k entries) offset (offset + len) decode [] c = (r, c1)" by fastforce
    have r: "r = Ok out" "c1 = c'" "usize_to_u64 (length out) = Ok len"
      using assms(1) unfolding cached_unfold [OF b True k] l by (auto simp: result_simps split: sum.splits)
    note lo = read_range_loop_Ok [OF l [unfolded r(1)] assms(2) set_drop_subset ids_distinct]
    have ends: "\<forall>en \<in> set (drop k entries). logical_offset en + uncompressed_size en < u64_end"
      using chunk_ends total_width by (meson in_set_dropD le_less_trans)
    have "fst (read_range_loop (drop k entries) offset (offset + len) decode [] ChunkDecodeCache_new) = Ok out"
      using read_range_loop_ref [OF cache_valid_new set_drop_subset ids_distinct room_drop [OF room_new] ends off] lo(1) by simp
    then have "fst (read_range_from_entries_cached entries total offset len ChunkDecodeCache_new decode) = Ok out"
      using r(3) by (simp add: cached_fst [OF b True k])
    then show ?thesis using cached_range(1) [OF cache_valid_new room_new off, of len out] lo(2) r(2) by simp
  qed
  then show "offset + len \<le> total" "out = slice (restored_bytes decode entries) offset (offset + len)"
    "cache_valid decode entries c'" using b by blast+
qed

end

section \<open>Lines of a text\<close>

lemma text_lines_shape:
  obtains ls c where "data = concat ls @ c" and "\<forall>l \<in> set ls. whole_line l" and "LF \<notin> set c"
    and "text_lines data = ls @ (if c = [] then [] else [c])"
proof -
  have "\<exists>ls c. data = concat ls @ c \<and> (\<forall>l \<in> set ls. whole_line l) \<and> LF \<notin> set c"
  proof (induction data rule: rev_induct)
    case (snoc b data)
    then obtain ls c where d: "data = concat ls @ c" "\<forall>l \<in> set ls. whole_line l" "LF \<notin> set c" by blast
    show ?case
    proof (cases "b = LF")
      case True
      then show ?thesis using d by (intro exI [of _ "ls @ [c @ [b]]"] exI [of _ "[]"]) (auto simp: whole_line_def)
    next
      case False
      then show ?thesis using d by (intro exI [of _ ls] exI [of _ "c @ [b]"]) auto
    qed
  qed (auto intro: exI [of _ "[]"])
  then show thesis using that text_lines_unique by metis
qed

lemma concat_take_nth:
  assumes "i < length ls"
  shows "slice (concat ls) (line_offset ls i) (line_offset ls i + length (ls ! i)) = ls ! i"
    and "line_offset ls i + length (ls ! i) \<le> length (concat ls)"
proof -
  have "concat ls = concat (take i ls) @ ls ! i @ concat (drop (Suc i) ls)"
    by (metis assms concat.simps(2) concat_append id_take_nth_drop)
  then show "slice (concat ls) (line_offset ls i) (line_offset ls i + length (ls ! i)) = ls ! i"
    "line_offset ls i + length (ls ! i) \<le> length (concat ls)"
    by (simp_all add: line_offset_def slice_append_mid)
qed

lemma text_lines_concat: "concat (text_lines data) = data"
  by (rule text_lines_shape [of data]) auto

lemma text_line_facts:
  assumes "i < length (text_lines data)"
  shows "text_lines data ! i \<noteq> []" and "LF \<notin> set (butlast (text_lines data ! i))"
    and "0 < line_offset (text_lines data) i \<Longrightarrow> data ! (line_offset (text_lines data) i - 1) = LF"
    and "last (text_lines data ! i) \<noteq> LF \<Longrightarrow> line_offset (text_lines data) i + length (text_lines data ! i) = length data"
    and "slice data (line_offset (text_lines data) i) (line_offset (text_lines data) i + length (text_lines data ! i)) = text_lines data ! i"
    and "line_offset (text_lines data) i + length (text_lines data ! i) \<le> length data"
proof -
  obtain ls c where d: "data = concat ls @ c" "\<forall>l \<in> set ls. whole_line l" "LF \<notin> set c"
      "text_lines data = ls @ (if c = [] then [] else [c])"
    by (rule text_lines_shape)
  have cases: "i < length ls \<or> i = length ls \<and> c \<noteq> []" using assms d(4) by (auto split: if_splits)
  then show "text_lines data ! i \<noteq> []" "LF \<notin> set (butlast (text_lines data ! i))"
    using d(2-4) by (auto simp: nth_append whole_line_def dest: in_set_butlastD)
  show "slice data (line_offset (text_lines data) i) (line_offset (text_lines data) i + length (text_lines data ! i)) = text_lines data ! i"
    "line_offset (text_lines data) i + length (text_lines data ! i) \<le> length data"
    using concat_take_nth [OF assms] by (simp_all add: text_lines_concat)
  show "line_offset (text_lines data) i + length (text_lines data ! i) = length data" if "last (text_lines data ! i) \<noteq> LF"
  proof -
    have "\<not> i < length ls" using that d(2,4) by (auto simp: nth_append whole_line_def)
    then have "i = length ls" "c \<noteq> []" using cases by auto
    then show ?thesis using arg_cong [OF d(1), of length] by (simp add: d(4) line_offset_def)
  qed
  show "data ! (line_offset (text_lines data) i - 1) = LF" if pos: "0 < line_offset (text_lines data) i"
  proof -
    have "concat (take i (text_lines data)) = concat (take i ls)" using cases d(4) by auto
    moreover obtain j where j: "i = Suc j" using pos by (cases i) (auto simp: line_offset_def)
    then have "j < length ls" using cases by auto
    then have "take i ls = take j ls @ [ls ! j]" unfolding j by (rule take_Suc_conv_app_nth)
    moreover have l: "ls ! j \<noteq> []" "last (ls ! j) = LF" using d(2) \<open>j < length ls\<close> by (auto simp: whole_line_def)
    ultimately have p: "concat (take i (text_lines data)) = (concat (take j ls) @ butlast (ls ! j)) @ [LF]" (is "_ = ?a @ _")
      by (metis append_butlast_last_id append_Nil2 append.assoc concat.simps concat_append)
    have "data = concat (take i (text_lines data)) @ concat (drop i (text_lines data))"
      by (metis append_take_drop_id concat_append text_lines_concat)
    then have "data = ?a @ LF # concat (drop i (text_lines data))" using p by simp
    from arg_cong [OF this, of "\<lambda>x. x ! length ?a"] show ?thesis by (simp add: line_offset_def p nth_append del: append_assoc)
  qed
qed

lemma LF_no_token [simp]: "\<not> is_token_byte LF"
  by (simp add: is_token_byte_def)

section \<open>Pushing hits\<close>

definition hit_at :: "SearchGranule \<Rightarrow> TokenSpan \<Rightarrow> SearchHit" where
  "hit_at g span = \<lparr>sh_logical_offset = sg_logical_offset g + ts_start span, sh_byte_length = ts_end span - ts_start span,
     sh_chunk_start = sg_chunk_start g, sh_chunk_end = sg_chunk_end g, sh_source = ''verified_original_bytes''\<rparr>"

lemma push_hits_Ok:
  assumes "push_hits options g spans hits = Ok (hits', full)"
  shows "\<exists>n. hits' = hits @ map (hit_at g) (take n spans) \<and>
     (\<not> full \<longrightarrow> length spans \<le> n \<and> (spans \<noteq> [] \<longrightarrow> length hits' < max_search_results options))"
  using assms
proof (induction spans arbitrary: hits)
  case (Cons span spans)
  let ?h = "hits @ [hit_at g span]"
  have step: "if length ?h \<ge> max_search_results options then hits' = ?h \<and> full else push_hits options g spans ?h = Ok (hits', full)"
    using Cons.prems by (auto simp: result_simps width_simps hit_at_def Let_def split: if_splits)
  show ?case
  proof (cases "length ?h \<ge> max_search_results options")
    case True
    then show ?thesis using step by (auto intro!: exI [of _ 1])
  next
    case False
    then have "push_hits options g spans ?h = Ok (hits', full)" using step by simp
    then obtain n where "hits' = ?h @ map (hit_at g) (take n spans)"
        "\<not> full \<longrightarrow> length spans \<le> n \<and> (spans \<noteq> [] \<longrightarrow> length hits' < max_search_results options)"
      using Cons.IH by blast
    then show ?thesis using False by (intro exI [of _ "Suc n"]) auto
  qed
qed auto

text \<open>A matcher that finds, in one line by itself, the first of the given matches.\<close>

definition matches_lines :: "span_matcher \<Rightarrow> (bytes \<Rightarrow> TokenSpan list) \<Rightarrow> bool" where
  "matches_lines spans_for matches \<longleftrightarrow> (\<forall>line limit. line \<noteq> [] \<longrightarrow> LF \<notin> set (butlast line) \<longrightarrow>
     spans_for line limit False False = take limit (matches line))"

text \<open>What holds while no limit was reached: the cache is right and there is room for another hit.\<close>

definition verifying :: "decoder \<Rightarrow> ChunkEntry list \<Rightarrow> SearchOptions \<Rightarrow> VerifyState \<Rightarrow> bool" where
  "verifying decode entries options st \<longleftrightarrow>
     cache_valid decode entries (vs_cache st) \<and> length (vs_hits st) < max_search_results options"

text \<open>All matches in the lines that hold every key of the query.\<close>

definition matching_hits ::
  "BuildKeys \<Rightarrow> SearchGranule list \<Rightarrow> bytes list \<Rightarrow> bytes set \<Rightarrow> (bytes \<Rightarrow> TokenSpan list) \<Rightarrow> SearchHit list"
where
  "matching_hits mode granules ls qs matches =
     concat (map (\<lambda>i. map (hit_at (granules ! i)) (matches (ls ! i))) (filter (\<lambda>i. qs \<subseteq> keys_of mode (ls ! i)) [0 ..< length ls]))"

section \<open>The contract of a search\<close>

locale indexed_text = chunk_source +
  fixes mode :: BuildKeys and granules :: "SearchGranule list" and ks :: "bytes list" and postings :: "u64 list list"
  assumes all_decode: "e \<in> set entries \<Longrightarrow> is_ok (decode e)"
    and index: "index_of_text entries mode (restored_bytes decode entries) granules ks postings"
begin

abbreviation lines :: "bytes list" where
  "lines \<equiv> text_lines (restored_bytes decode entries)"

abbreviation read_range :: range_read where
  "read_range \<equiv> \<lambda>offset len c. read_range_from_entries_cached entries total offset len c decode"

lemma granule:
  assumes "i < length lines"
  shows "granule_lookup granules i = Ok (granules ! i)"
    and "sg_logical_offset (granules ! i) = line_offset lines i" and "sg_byte_length (granules ! i) = length (lines ! i)"
    and "sg_logical_offset (granules ! i) + sg_byte_length (granules ! i) \<le> total"
proof -
  have n: "length granules = length lines" and g: "granule_at_line entries lines i (granules ! i)"
    using index assms by (auto simp: index_of_text_def granules_are_lines_def)
  show o: "sg_logical_offset (granules ! i) = line_offset lines i" "sg_byte_length (granules ! i) = length (lines ! i)"
    using g by (simp_all add: granule_at_line_def)
  show le: "sg_logical_offset (granules ! i) + sg_byte_length (granules ! i) \<le> total"
    unfolding o using text_line_facts(6) [OF assms] restored_total by simp
  have "length (restored_bytes decode entries) = sum_list (map length lines)"
    by (metis length_concat text_lines_concat)
  moreover have "length lines \<le> sum_list (map length lines)"
  proof -
    have "1 \<le> length l" if "l \<in> set lines" for l
      using that text_line_facts(1) by (metis One_nat_def Suc_leI in_set_conv_nth length_greater_0_conv)
    then have "sum_list (map (\<lambda>_. 1) lines) \<le> sum_list (map length lines)" by (intro sum_list_mono) auto
    then show ?thesis by (simp add: sum_list_triv)
  qed
  ultimately have "i < u64_end" using assms total_width restored_total by simp
  then show "granule_lookup granules i = Ok (granules ! i)"
    using assms n by (simp add: granule_lookup_def get_def)
qed

text \<open>
  The bytes read for a granule: its line, after the byte before it when token boundaries matter.
  Neither side continues a token: a line follows a line feed, and only the last line may end
  in a token byte.
\<close>

lemma granule_read:
  fixes i
  assumes "i < length lines" and "read_start = (if tb then sg_logical_offset (granules ! i) - 1 else sg_logical_offset (granules ! i))"
  defines "decoded \<equiv> slice (restored_bytes decode entries) read_start (sg_logical_offset (granules ! i) + sg_byte_length (granules ! i))"
    and "start \<equiv> sg_logical_offset (granules ! i) - read_start"
  shows "get_slice decoded start (length decoded) = Some (lines ! i)"
    and "\<not> (start > 0 \<and> is_token_byte (decoded ! (start - 1)))"
    and "\<not> (lines ! i \<noteq> [] \<and> is_token_byte (last (lines ! i)) \<and> sg_logical_offset (granules ! i) + sg_byte_length (granules ! i) < total)"
    and "start < u64_end" and "read_start \<le> sg_logical_offset (granules ! i)"
proof -
  note g = granule [OF assms(1)] and f = text_line_facts [OF assms(1)]
  let ?off = "line_offset lines i" and ?data = "restored_bytes decode entries"
  have rs: "read_start \<le> ?off" "start = ?off - read_start" "start \<le> 1" using assms(2) g(2) by (auto simp: start_def)
  show "read_start \<le> sg_logical_offset (granules ! i)" "start < u64_end" using rs g(2) by (auto simp: u64_end_def)
  have le: "?off + length (lines ! i) \<le> length ?data" by (rule f(6))
  have dec: "decoded = slice ?data read_start ?off @ lines ! i"
    unfolding decoded_def g(2,3) using slice_append_self [of read_start ?off "?off + length (lines ! i)" ?data] rs(1) f(5) by simp
  have n: "length (slice ?data read_start ?off) = start" using rs le by simp
  show "get_slice decoded start (length decoded) = Some (lines ! i)"
    using n unfolding dec by (simp add: get_slice_def slice_def)
  show "\<not> (start > 0 \<and> is_token_byte (decoded ! (start - 1)))"
  proof
    assume a: "start > 0 \<and> is_token_byte (decoded ! (start - 1))"
    then have one: "start = 1" "0 < ?off" using rs by auto
    have "decoded ! 0 = slice ?data read_start ?off ! 0" unfolding dec using n one by (simp add: nth_append)
    also have "\<dots> = ?data ! (?off - 1)" using nth_slice [of 0 ?off read_start ?data] rs one le by (auto intro!: arg_cong [of _ _ "(!) _"])
    finally show False using f(3) a one by simp
  qed
  show "\<not> (lines ! i \<noteq> [] \<and> is_token_byte (last (lines ! i)) \<and> sg_logical_offset (granules ! i) + sg_byte_length (granules ! i) < total)"
    using f(4) restored_total g(2,3) by (cases "last (lines ! i) = LF") auto
qed

lemma match_granule_Ok:
  assumes d: "sk_chunk_entries details = entries" "ss_original_size (sk_summary details) = total" and i: "i < length lines"
    and st: "verifying decode entries options st"
    and rs: "rs = (if tb then sg_logical_offset (granules ! i) - 1 else sg_logical_offset (granules ! i))"
    and spans: "matches_lines spans_for matches"
    and run: "match_granule details read_range spans_for tb options st (granules ! i)
      (sg_logical_offset (granules ! i) + sg_byte_length (granules ! i)) rs
      (sg_logical_offset (granules ! i) + sg_byte_length (granules ! i) - rs) n = Ok (st', stop)"
  obtains full where "push_hits options (granules ! i) (take (max_search_results options - length (vs_hits st)) (matches (lines ! i)))
      (vs_hits st) = Ok (vs_hits st', full)" and "stop = None \<longleftrightarrow> \<not> full" and "cache_valid decode entries (vs_cache st')"
proof -
  let ?g = "granules ! i"
  let ?ge = "sg_logical_offset ?g + sg_byte_length ?g"
  note rd = granule_read [OF i rs]
  obtain res c' where rr: "read_range rs (?ge - rs) (vs_cache st) = (res, c')" by fastforce
  then obtain decoded where "res = Ok decoded" using run by (auto simp: match_granule_def result_simps)
  note rr = rr [unfolded this]
  have c: "decoded = slice (restored_bytes decode entries) rs ?ge" "cache_valid decode entries c'"
    using cached_read_Ok [OF rr] st rd(5) by (auto simp: verifying_def)
  note rd' = rd(1,2) [folded c(1)]
  show thesis
    using that run rr d rd' rd(3,4) c(2)
      spans [unfolded matches_lines_def, rule_format, OF text_line_facts(1,2) [OF i]]
    by (auto simp: match_granule_def result_simps width_simps)
qed

lemma verify_step:
  assumes d: "sk_chunk_entries details = entries" "ss_original_size (sk_summary details) = total" and i: "i < length lines"
    and st: "verifying decode entries options st"
    and spans: "matches_lines spans_for matches"
    and run: "verify_candidate details (granule_lookup granules) read_range spans_for tb options st i = Ok (st', stop)"
  shows "\<exists>n. vs_hits st' = vs_hits st @ map (hit_at (granules ! i)) (take n (matches (lines ! i)))"
    and "stop = None \<Longrightarrow> vs_hits st' = vs_hits st @ map (hit_at (granules ! i)) (matches (lines ! i)) \<and> verifying decode entries options st'"
proof -
  let ?g = "granules ! i" and ?ms = "matches (lines ! i)" and ?room = "max_search_results options - length (vs_hits st)"
  define rs where "rs = (if tb then sg_logical_offset ?g - 1 else sg_logical_offset ?g)"
  let ?ge = "sg_logical_offset ?g + sg_byte_length ?g"
  have w: "?ge < u64_end" using granule(4) [OF i] total_width by simp
  have "st' = st \<and> stop \<noteq> None \<or>
      (\<exists>n. match_granule details read_range spans_for tb options st ?g ?ge rs (?ge - rs) n = Ok (st', stop))"
    using run unfolding verify_candidate_def Let_def granule(1) [OF i] rbind.simps rs_def [symmetric]
    by (auto simp: result_simps width_simps split: if_splits option.splits)
  then consider "st' = st" "stop \<noteq> None" | full where "push_hits options ?g (take ?room ?ms) (vs_hits st) = Ok (vs_hits st', full)"
      "stop = None \<longleftrightarrow> \<not> full" "cache_valid decode entries (vs_cache st')"
    using match_granule_Ok [OF d i st rs_def spans] by metis
  then have "(\<exists>n. vs_hits st' = vs_hits st @ map (hit_at ?g) (take n ?ms)) \<and>
      (stop = None \<longrightarrow> vs_hits st' = vs_hits st @ map (hit_at ?g) ?ms \<and> verifying decode entries options st')"
  proof cases
    case 1
    then show ?thesis by (auto intro: exI [of _ 0])
  next
    case (2 full)
    obtain n where n: "vs_hits st' = vs_hits st @ map (hit_at ?g) (take n (take ?room ?ms))"
        "\<not> full \<longrightarrow> length (take ?room ?ms) \<le> n \<and> (take ?room ?ms \<noteq> [] \<longrightarrow> length (vs_hits st') < max_search_results options)"
      using push_hits_Ok [OF 2(1)] by blast
    have room: "0 < ?room" using st by (simp add: verifying_def)
    have "take ?room ?ms = ?ms \<and> length (vs_hits st') < max_search_results options" if "\<not> full"
    proof (cases "?ms = []")
      case True
      then show ?thesis using n(1) st by (simp add: verifying_def)
    next
      case False
      then have l: "length (vs_hits st') < max_search_results options" "length (take ?room ?ms) \<le> n" using n(2) that room by auto
      then have "length (take ?room ?ms) < ?room" using n(1) by auto
      then show ?thesis using l by auto
    qed
    then show ?thesis using n 2(2,3) by (auto simp: verifying_def)
  qed
  then show "\<exists>n. vs_hits st' = vs_hits st @ map (hit_at (granules ! i)) (take n (matches (lines ! i)))"
    "stop = None \<Longrightarrow> vs_hits st' = vs_hits st @ map (hit_at (granules ! i)) (matches (lines ! i)) \<and> verifying decode entries options st'"
    by blast+
qed

lemma verify_loop_Ok:
  assumes d: "sk_chunk_entries details = entries" "ss_original_size (sk_summary details) = total"
    and spans: "matches_lines spans_for matches"
    and st: "verifying decode entries options st" and cands: "set cands \<subseteq> {..< length lines}"
    and run: "verify_loop (verify_candidate details (granule_lookup granules) read_range spans_for tb options) st cands = Ok (st', stop)"
  defines "found \<equiv> vs_hits st @ concat (map (\<lambda>i. map (hit_at (granules ! i)) (matches (lines ! i))) cands)"
  shows "prefix (vs_hits st') found \<and> (stop = None \<longrightarrow> vs_hits st' = found)"
  using st cands run unfolding found_def
proof (induction cands arbitrary: st)
  case (Cons i cands)
  obtain st1 stop1 where s1: "verify_candidate details (granule_lookup granules) read_range spans_for tb options st i = Ok (st1, stop1)"
      "(case stop1 of Some reason \<Rightarrow> Ok (st1, Some reason) | None \<Rightarrow>
         verify_loop (verify_candidate details (granule_lookup granules) read_range spans_for tb options) st1 cands) = Ok (st', stop)"
    using Cons.prems(3) by (auto simp: result_simps)
  have i: "i < length lines" using Cons.prems(2) by simp
  note step = verify_step [OF d i Cons.prems(1) spans s1(1)]
  show ?case
  proof (cases stop1)
    case None
    then show ?thesis using Cons.IH [of st1] step(2) Cons.prems(2) s1(2) by simp
  next
    case (Some reason)
    then have "st' = st1" "stop \<noteq> None" using s1(2) by auto
    moreover obtain n where "vs_hits st1 = vs_hits st @ map (hit_at (granules ! i)) (take n (matches (lines ! i)))" using step(1) by blast
    ultimately show ?thesis by (auto simp: take_map [symmetric] take_is_prefix intro!: prefix_prefix)
  qed
qed simp

lemma verify_candidates_Ok:
  assumes "sk_chunk_entries details = entries" "ss_original_size (sk_summary details) = total"
    and "matches_lines spans_for matches" and "0 < max_search_results options" and "set cands \<subseteq> {..< length lines}"
    and "verify_candidates cands details (granule_lookup granules) read_range spans_for tb options = Ok v"
  defines "found \<equiv> concat (map (\<lambda>i. map (hit_at (granules ! i)) (matches (lines ! i))) cands)"
  shows "prefix (cv_hits v) found" and "cv_stop_reason v = None \<Longrightarrow> cv_hits v = found"
proof -
  let ?st = "\<lparr>vs_hits = [], vs_decoded_bytes = 0, vs_cache = ChunkDecodeCache_new\<rparr>"
  have st: "verifying decode entries options ?st" using assms(4) by (simp add: verifying_def)
  obtain st' stop where "verify_loop (verify_candidate details (granule_lookup granules) read_range spans_for tb options) ?st cands = Ok (st', stop)"
      "cv_hits v = vs_hits st'" "cv_stop_reason v = stop"
    using assms(6) by (auto simp: verify_candidates_def result_simps)
  with verify_loop_Ok [OF assms(1-3) st assms(5)]
  show "prefix (cv_hits v) found" "cv_stop_reason v = None \<Longrightarrow> cv_hits v = found" by (auto simp: found_def)
qed

lemma candidates_Ok:
  assumes "intersect_postings (map (ids_with (keys_of mode) lines) qs) m = Ok cands" and "qs \<noteq> []"
  shows "cands = filter (\<lambda>i. set qs \<subseteq> keys_of mode (lines ! i)) [0 ..< length lines]"
proof -
  obtain q rest where q: "qs = q # rest" using assms(2) by (cases qs) auto
  have "\<forall>l \<in> set (map (ids_with (keys_of mode) lines) qs). sorted_wrt (<) l"
    by (auto simp: ids_with_def sorted_wrt_filter)
  then have "cands = filter (\<lambda>x. \<forall>l \<in> set (map (ids_with (keys_of mode) lines) rest). x \<in> set l) (ids_with (keys_of mode) lines q)"
    using intersect_postings_Ok [of "ids_with (keys_of mode) lines q" "map (ids_with (keys_of mode) lines) rest"] assms(1) q by simp
  then show ?thesis by (auto simp: ids_with_def q intro!: filter_cong)
qed

lemma search_postings_Ok:
  assumes d: "sk_chunk_entries details = entries" "ss_original_size (sk_summary details) = total"
    and spans: "matches_lines spans_for matches" and qs: "qs \<noteq> []"
    and run: "search_postings granules complete details options read_range spans_for tb
      (map (ids_with (keys_of mode) lines) qs) planner metrics = Ok report"
  shows "prefix (sr_hits report) (matching_hits mode granules lines (set qs) matches)"
    and "\<not> sr_capped report \<Longrightarrow> sr_hits report = matching_hits mode granules lines (set qs) matches"
    and "sr_incomplete_reason report = None"
proof -
  obtain cands where c: "intersect_postings (map (ids_with (keys_of mode) lines) qs) (max_posting_work options) = Ok cands"
    using run by (auto simp: search_postings_def result_simps)
  note cs = candidates_Ok [OF c qs]
  have m: "matching_hits mode granules lines (set qs) matches = concat (map (\<lambda>i. map (hit_at (granules ! i)) (matches (lines ! i))) cands)"
    by (simp add: matching_hits_def cs)
  have "sr_hits report = [] \<and> sr_capped report \<and> sr_incomplete_reason report = None \<or>
      0 < max_search_results options \<and> sr_incomplete_reason report = None \<and>
      (\<exists>v. verify_candidates cands details (granule_lookup granules) read_range spans_for tb options = Ok v \<and>
        sr_hits report = cv_hits v \<and> sr_capped report = (cv_stop_reason v \<noteq> None))"
  proof -
    obtain n chunks where n: "usize_to_u64 (length cands) = Ok n" "count_candidate_chunks granules cands entries total = Ok chunks"
      using run c d by (auto simp: search_postings_def result_simps)
    note run' = run [unfolded search_postings_def c d n rbind.simps Let_def]
    consider "n > max_candidate_granules options" | "\<not> n > max_candidate_granules options" "max_search_results options = 0" |
      "\<not> n > max_candidate_granules options" "max_search_results options \<noteq> 0" by blast
    then show ?thesis
    proof cases
      case 3
      obtain v k where v: "verify_candidates cands details (granule_lookup granules) read_range spans_for tb options = Ok v"
          "usize_to_u64 (length (cv_hits v)) = Ok k"
        using run' 3 by (auto simp: result_simps)
      then show ?thesis using run' 3 by auto
    qed (use run' in \<open>auto simp: early_exit_report_def\<close>)
  qed
  then have "prefix (sr_hits report) (matching_hits mode granules lines (set qs) matches) \<and>
      (\<not> sr_capped report \<longrightarrow> sr_hits report = matching_hits mode granules lines (set qs) matches) \<and>
      sr_incomplete_reason report = None"
  proof (elim disjE conjE exE)
    fix v assume v: "0 < max_search_results options" "sr_incomplete_reason report = None"
      "verify_candidates cands details (granule_lookup granules) read_range spans_for tb options = Ok v"
      "sr_hits report = cv_hits v" "sr_capped report = (cv_stop_reason v \<noteq> None)"
    have "set cands \<subseteq> {..< length lines}" by (auto simp: cs)
    with verify_candidates_Ok [OF d spans v(1) this v(3)] v(2,4,5) show ?thesis unfolding m by auto
  qed simp
  then show "prefix (sr_hits report) (matching_hits mode granules lines (set qs) matches)"
    "\<not> sr_capped report \<Longrightarrow> sr_hits report = matching_hits mode granules lines (set qs) matches"
    "sr_incomplete_reason report = None" by blast+
qed

text \<open>A required key that no line holds.\<close>

lemma missing_key: "k \<in> qs \<Longrightarrow> k \<notin> set ks \<Longrightarrow> matching_hits mode granules lines qs matches = []"
proof -
  assume k: "k \<in> qs" "k \<notin> set ks"
  have "k \<notin> keys_of mode l" if "l \<in> set lines" for l using k(2) that index by (auto simp: index_of_text_def)
  then have "\<not> qs \<subseteq> keys_of mode (lines ! i)" if "i < length lines" for i using k(1) that nth_mem by blast
  then have "filter (\<lambda>i. qs \<subseteq> keys_of mode (lines ! i)) [0 ..< length lines] = []" by (auto simp: filter_empty_conv)
  then show ?thesis by (simp add: matching_hits_def)
qed

lemma posting_of_key: "i < length ks \<Longrightarrow> postings ! i = ids_with (keys_of mode) lines (ks ! i)"
  using index by (simp add: index_of_text_def)

end

end
