(* ===== verification/Search_Exact.thy ===== *)
theory Search_Exact
  imports Search_Verify
begin

text \<open>
  Exactness of the transient searches (src/src/search.rs): what the constructors keep of the
  parts they are given, how query keys are looked up, and how matches within lines correspond
  to matches in the whole text.
\<close>

section \<open>Positions and lines\<close>

definition in_line :: "bytes list \<Rightarrow> nat \<Rightarrow> nat \<Rightarrow> bool" where
  "in_line ls i s \<longleftrightarrow> i < length ls \<and> line_offset ls i \<le> s \<and> s < line_offset ls i + length (ls ! i)"

lemma line_offset_Suc: "i < length ls \<Longrightarrow> line_offset ls (Suc i) = line_offset ls i + length (ls ! i)"
  by (simp add: line_offset_def take_Suc_conv_app_nth)

lemma line_offset_mono: "i \<le> j \<Longrightarrow> line_offset ls i \<le> line_offset ls j"
proof -
  assume "i \<le> j"
  then have "take j ls = take i ls @ take (j - i) (drop i ls)" by (metis le_add_diff_inverse take_add)
  then show ?thesis by (simp add: line_offset_def)
qed

lemma in_line_before:
  assumes "in_line ls i s" and "in_line ls j s'" and "i < j"
  shows "s < line_offset ls i + length (ls ! i)" and "line_offset ls i + length (ls ! i) \<le> s'"
  using assms line_offset_mono [of "Suc i" j ls] by (auto simp: in_line_def line_offset_Suc)

lemma in_line_exists: "s < length (concat ls) \<Longrightarrow> \<exists>i. in_line ls i s"
proof (induction ls rule: rev_induct)
  case (snoc l ls)
  show ?case
  proof (cases "s < length (concat ls)")
    case True
    then obtain i where "in_line ls i s" using snoc.IH by blast
    then have "in_line (ls @ [l]) i s" by (auto simp: in_line_def nth_append line_offset_snoc)
    then show ?thesis by blast
  next
    case False
    then have "in_line (ls @ [l]) (length ls) s" using snoc.prems by (auto simp: in_line_def line_offset_last)
    then show ?thesis by blast
  qed
qed simp

lemma in_line_unique: "in_line ls i s \<Longrightarrow> in_line ls j s \<Longrightarrow> i = j"
  using in_line_before by (metis leD linorder_neqE_nat)

text \<open>Two positions with no line feed from the first up to the second.\<close>

definition same_line :: "bytes \<Rightarrow> nat \<Rightarrow> nat \<Rightarrow> bool" where
  "same_line data s s' \<longleftrightarrow> LF \<notin> set (slice data (min s s') (max s s'))"

lemma LF_in_slice: "b \<le> length data \<Longrightarrow> LF \<in> set (slice data a b) \<longleftrightarrow> (\<exists>i. a \<le> i \<and> i < b \<and> data ! i = LF)"
proof -
  assume b: "b \<le> length data"
  have "LF \<in> set (slice data a b) \<longleftrightarrow> (\<exists>i < b - a. data ! (a + i) = LF)"
    using b by (auto simp: in_set_conv_nth nth_slice)
  also have "\<dots> \<longleftrightarrow> (\<exists>i. a \<le> i \<and> i < b \<and> data ! i = LF)"
  proof
    assume "\<exists>i. a \<le> i \<and> i < b \<and> data ! i = LF"
    then obtain i where "a \<le> i" "i < b" "data ! i = LF" by blast
    then show "\<exists>i < b - a. data ! (a + i) = LF" by (intro exI [of _ "i - a"]) auto
  next
    assume "\<exists>i < b - a. data ! (a + i) = LF"
    then obtain i where "i < b - a" "data ! (a + i) = LF" by blast
    then show "\<exists>i. a \<le> i \<and> i < b \<and> data ! i = LF" by (intro exI [of _ "a + i"]) auto
  qed
  finally show ?thesis .
qed

lemma line_bytes:
  assumes "i < length (text_lines data)" and "k < length (text_lines data ! i)"
  shows "data ! (line_offset (text_lines data) i + k) = text_lines data ! i ! k"
proof -
  note f = text_line_facts [OF assms(1)]
  show ?thesis
    using nth_slice [of k "line_offset (text_lines data) i + length (text_lines data ! i)" "line_offset (text_lines data) i" data]
      f(5,6) assms(2) by simp
qed

lemma same_line_iff:
  assumes "in_line (text_lines data) i s" and "in_line (text_lines data) j s'"
  shows "same_line data s s' \<longleftrightarrow> i = j"
proof -
  have one: "same_line data s s' \<longleftrightarrow> i = j" if a: "in_line (text_lines data) i s" "in_line (text_lines data) j s'" "s \<le> s'" for i j s s'
  proof -
    let ?ls = "text_lines data"
    have i: "i < length ?ls" and j: "j < length ?ls" using a by (auto simp: in_line_def)
    note fi = text_line_facts [OF i] and fj = text_line_facts [OF j]
    have le: "s' < length data" using a(2) fj(6) by (auto simp: in_line_def)
    have ij: "i \<le> j" using in_line_before [OF a(2,1)] a(3) by (metis leD le_less_trans not_le)
    show ?thesis
    proof (cases "i = j")
      case True
      have "data ! k \<noteq> LF" if k: "s \<le> k" "k < s'" for k
      proof -
        define m where "m = k - line_offset ?ls i"
        have m: "k = line_offset ?ls i + m" "m < length (?ls ! i) - 1"
          using a(1,2) k True by (auto simp: in_line_def m_def)
        have "?ls ! i ! m \<in> set (butlast (?ls ! i))" using m(2) by (metis length_butlast nth_butlast nth_mem)
        then show ?thesis using fi(2) line_bytes [OF i, of m] m by auto
      qed
      then show ?thesis using True a(3) le by (auto simp: same_line_def LF_in_slice)
    next
      case False
      then have lt: "i < j" using ij by simp
      note b = in_line_before [OF a(1,2) lt]
      have "last (?ls ! i) = LF" using fi(4) b(2) le by (metis leD)
      then have "data ! (line_offset ?ls i + (length (?ls ! i) - 1)) = LF"
        using line_bytes [OF i, of "length (?ls ! i) - 1"] fi(1) by (simp add: last_conv_nth)
      moreover have "s \<le> line_offset ?ls i + (length (?ls ! i) - 1)" "line_offset ?ls i + (length (?ls ! i) - 1) < s'"
        using b a(1) fi(1) by (auto simp: in_line_def)
      ultimately show ?thesis using False a(3) le by (auto simp: same_line_def LF_in_slice)
    qed
  qed
  show ?thesis
  proof (cases "s \<le> s'")
    case False
    then have "same_line data s' s \<longleftrightarrow> j = i" using one [OF assms(2,1)] by simp
    then show ?thesis by (auto simp: same_line_def min.commute max.commute)
  qed (rule one [OF assms])
qed

section \<open>Tokens of a line are tokens of the text\<close>

lemma line_token:
  assumes "i < length (text_lines data)"
  shows "token_at (text_lines data ! i) s e \<longleftrightarrow>
     s < length (text_lines data ! i) \<and> token_at data (line_offset (text_lines data) i + s) (line_offset (text_lines data) i + e)"
    (is "?A \<longleftrightarrow> ?B")
proof
  let ?o = "line_offset (text_lines data) i" and ?l = "text_lines data ! i"
  note f = text_line_facts [OF assms] and lb = line_bytes [OF assms]
  {
    assume A: ?A
    then have t: "s < e" "e \<le> length ?l" "\<And>k. s \<le> k \<Longrightarrow> k < e \<Longrightarrow> is_token_byte (?l ! k)"
      "0 < s \<Longrightarrow> \<not> is_token_byte (?l ! (s - 1))" "e < length ?l \<Longrightarrow> \<not> is_token_byte (?l ! e)"
      by (auto simp: token_at_def)
    have in_run: "is_token_byte (data ! k)" if "?o + s \<le> k" "k < ?o + e" for k
      using t(2) t(3) [of "k - ?o"] lb [of "k - ?o"] that by auto
    have left: "\<not> is_token_byte (data ! (?o + s - 1))" if "0 < ?o + s"
      using that f(3) t(1,2,4) lb [of "s - 1"] by (cases "s = 0") auto
    have right: "\<not> is_token_byte (data ! (?o + e))" if "?o + e < length data"
    proof (cases "e < length ?l")
      case False
      then have "e = length ?l" using t(2) by simp
      then have "is_token_byte (last ?l)" using t(1) t(3) [of "e - 1"] f(1) by (simp add: last_conv_nth)
      then have "last ?l \<noteq> LF" by (auto simp: is_token_byte_def)
      then show ?thesis using f(4) that \<open>e = length ?l\<close> by simp
    qed (use t(5) lb in simp)
    show ?B using t(1,2) f(6) in_run left right by (auto simp: token_at_def)
  next
    assume B: ?B
    then have t: "s < e" "?o + e \<le> length data" "\<And>k. ?o + s \<le> k \<Longrightarrow> k < ?o + e \<Longrightarrow> is_token_byte (data ! k)"
      "0 < ?o + s \<Longrightarrow> \<not> is_token_byte (data ! (?o + s - 1))" "?o + e < length data \<Longrightarrow> \<not> is_token_byte (data ! (?o + e))"
      and s: "s < length ?l"
      by (auto simp: token_at_def)
    have e: "e \<le> length ?l"
    proof (rule ccontr)
      assume c: "\<not> e \<le> length ?l"
      then have "is_token_byte (data ! (?o + (length ?l - 1)))" using s by (intro t(3)) auto
      then have "is_token_byte (last ?l)" using lb [of "length ?l - 1"] f(1) by (simp add: last_conv_nth)
      then have "last ?l \<noteq> LF" by (auto simp: is_token_byte_def)
      then show False using f(4) t(2) c by simp
    qed
    have "is_token_byte (?l ! k)" if "s \<le> k" "k < e" for k using t(3) [of "?o + k"] lb [of k] that e by simp
    moreover have "\<not> is_token_byte (?l ! (s - 1))" if "0 < s" using t(4) lb [of "s - 1"] s that by simp
    moreover have "\<not> is_token_byte (?l ! e)" if "e < length ?l" using t(5) lb [of e] f(6) that by simp
    ultimately show ?A using t(1) e by (simp add: token_at_def)
  }
qed

lemma line_slice:
  assumes "i < length (text_lines data)" and "e \<le> length (text_lines data ! i)"
  shows "slice data (line_offset (text_lines data) i + s) (line_offset (text_lines data) i + e) = slice (text_lines data ! i) s e"
proof -
  let ?o = "line_offset (text_lines data) i"
  have "slice (text_lines data ! i) s e = slice (slice data ?o (?o + length (text_lines data ! i))) s e"
    using text_line_facts(5) [OF assms(1)] by simp
  also have "\<dots> = slice data (?o + s) (?o + e)" using assms(2) by (simp add: slice_def drop_take min_def add.commute)
  finally show ?thesis by simp
qed

section \<open>What the constructors keep\<close>

lemma encode_posting_lists_Ok:
  assumes "encode_posting_lists terms postings with_skips m = Ok out" and "length terms = length postings"
  shows "map te_key (ep_terms out) = map te_key terms"
    and "list_all2 (\<lambda>p e. encode_delta_varint_u64 p = Ok e) postings (ep_postings out)"
proof -
  let ?b0 = "(\<lparr>ep_terms = [], ep_postings = [], ep_skips = []\<rparr>, 0, 0)"
  obtain po so where r: "rfold (encode_posting_list with_skips) ?b0 (zip terms postings) = Ok (out, po, so)"
    using assms(1) by (auto simp: encode_posting_lists_def result_simps)
  have "map te_key (ep_terms (fst st')) = map te_key (ep_terms (fst st)) @ map (te_key \<circ> fst) xs \<and>
      (\<exists>es. ep_postings (fst st') = ep_postings (fst st) @ es \<and> list_all2 (\<lambda>p e. encode_delta_varint_u64 p = Ok e) (map snd xs) es)"
    if "rfold (encode_posting_list with_skips) st xs = Ok st'" for st st' xs
    using that
  proof (induction xs arbitrary: st)
    case (Cons x xs)
    then obtain st1 where s1: "encode_posting_list with_skips st x = Ok st1" "rfold (encode_posting_list with_skips) st1 xs = Ok st'"
      by (auto simp: result_simps)
    obtain e where "map te_key (ep_terms (fst st1)) = map te_key (ep_terms (fst st)) @ [te_key (fst x)]"
        "ep_postings (fst st1) = ep_postings (fst st) @ [e]" "encode_delta_varint_u64 (snd x) = Ok e"
      using s1(1) by (auto simp: encode_posting_list_def result_simps split: prod.splits)
    then show ?case using Cons.IH [OF s1(2)] by auto
  qed simp
  from this [OF r] assms(2) show "map te_key (ep_terms out) = map te_key terms"
    "list_all2 (\<lambda>p e. encode_delta_varint_u64 p = Ok e) postings (ep_postings out)" by (simp_all flip: map_map)
qed

lemma term_index_Some:
  assumes "distinct (map te_key terms)"
  shows "term_index_for_key terms k = Some i \<longleftrightarrow> i < length terms \<and> te_key (terms ! i) = k"
proof -
  have "i = j" if "i < length terms" "j < length terms" "te_key (terms ! i) = te_key (terms ! j)" for i j
    using assms that by (metis distinct_conv_nth length_map nth_map)
  then have "\<forall>j < i. te_key (terms ! j) \<noteq> k" if "i < length terms" "te_key (terms ! i) = k"
    using that by (metis less_irrefl less_trans)
  then show ?thesis by (auto simp: term_index_for_key_def find_Some_iff intro!: exI [of _ i])
qed

lemma term_index_None: "term_index_for_key terms k = None \<longleftrightarrow> k \<notin> set (map te_key terms)"
  unfolding in_set_conv_nth by (auto simp: term_index_for_key_def find_None_iff)

lemma lookup_tokens_Inl:
  "lookup_tokens ix qs acc n = Ok (Inl (k, m)) \<Longrightarrow> k \<in> set qs \<and> k \<notin> set (map te_key (rt_terms ix))"
  by (induction qs arbitrary: acc n) (auto simp: result_simps term_index_None split: option.splits)

lemma lookup_tokens_Inr:
  assumes "lookup_tokens ix qs acc n = Ok (Inr (is, m))" and "distinct (map te_key (rt_terms ix))"
  shows "\<exists>js. is = acc @ js \<and> map (\<lambda>i. te_key (rt_terms ix ! i)) js = qs \<and> (\<forall>j \<in> set js. j < length (rt_terms ix))"
  using assms(1)
proof (induction qs arbitrary: acc n)
  case (Cons q qs)
  then obtain i n' where i: "term_index_for_key (rt_terms ix) q = Some i" "lookup_tokens ix qs (acc @ [i]) n' = Ok (Inr (is, m))"
    by (auto simp: result_simps split: option.splits)
  then obtain js where "is = (acc @ [i]) @ js" "map (\<lambda>i. te_key (rt_terms ix ! i)) js = qs" "\<forall>j \<in> set js. j < length (rt_terms ix)"
    using Cons.IH by blast
  then show ?case using i(1) by (intro exI [of _ "i # js"]) (auto simp: term_index_Some [OF assms(2)])
qed simp

lemma lookup_ngrams_Inl:
  "lookup_ngrams ix qs acc = Inl k \<Longrightarrow> k \<in> set qs \<and> k \<notin> set (map te_key (rn_terms ix))"
  by (induction qs arbitrary: acc) (auto simp: term_index_None split: option.splits)

lemma lookup_ngrams_Inr:
  assumes "lookup_ngrams ix qs acc = Inr is" and "distinct (map te_key (rn_terms ix))"
  shows "\<exists>js. is = acc @ js \<and> map (\<lambda>i. te_key (rn_terms ix ! i)) js = qs \<and> (\<forall>j \<in> set js. j < length (rn_terms ix))"
  using assms(1)
proof (induction qs arbitrary: acc)
  case (Cons q qs)
  then obtain i where i: "term_index_for_key (rn_terms ix) q = Some i" "lookup_ngrams ix qs (acc @ [i]) = Inr is"
    by (auto split: option.splits)
  then obtain js where "is = (acc @ [i]) @ js" "map (\<lambda>i. te_key (rn_terms ix ! i)) js = qs" "\<forall>j \<in> set js. j < length (rn_terms ix)"
    using Cons.IH by blast
  then show ?case using i(1) by (intro exI [of _ "i # js"]) (auto simp: term_index_Some [OF assms(2)])
qed simp

section \<open>Indexes of opened containers\<close>

lemma built_for_reader:
  assumes "opened_reader X bs limits = Some r"
    and "build_line_index_streaming X (sk_chunk_entries (qr_details r)) (ss_original_size (sk_summary (qr_details r))) max_line
      build_limits (QztReader_decode_entry X r) mode = Ok (granules, terms, postings)"
  shows "indexed_text (sk_chunk_entries (qr_details r)) (QztReader_decode_entry X r) (ss_original_size (sk_summary (qr_details r)))
     mode granules (map te_key terms) postings"
proof -
  have cs: "chunk_source (sk_chunk_entries (qr_details r)) (QztReader_decode_entry X r) (ss_original_size (sk_summary (qr_details r)))"
    using memory.chunk_source_axioms [of X bs limits] by (simp add: assms(1) opened_Some_defs)
  note b = chunk_source.build_exact [OF cs assms(2)]
  show ?thesis using cs b by (simp add: indexed_text_def indexed_text_axioms_def)
qed

text \<open>Opening through positioned reads of a slice is opening the slice.\<close>

lemma open_slice:
  assumes "QztFileReader_open_read_at X (slice_read_exact_at bs) (length bs) = Ok f" and "length bs < isize_end"
  shows "\<exists>d. opened_reader X bs ResourceLimits_default = Some \<lparr>qr_bytes = bs, qr_details = d\<rparr> \<and> fr_details f = d \<and>
     QztFileReader_decode_entry X f = QztReader_decode_entry X \<lparr>qr_bytes = bs, qr_details = d\<rparr>"
  using assms(1) slice_source.open_read_at [OF assms(2), of X ResourceLimits_default]
    slice_source.decode_agrees [OF assms(2), of X]
  by (auto simp: QztFileReader_open_read_at_def QztFileReader_open_read_at_with_limits_def opened_reader_Some result_simps)

text \<open>A container together with an index built from it.\<close>

definition token_indexed :: "('h, 'x) ext_scheme \<Rightarrow> bytes \<Rightarrow> TokenIndexBuildOptions \<Rightarrow> (QztReader \<times> RawTokenIndex) option" where
  "token_indexed X bs options =
     (case (opened_reader X bs ResourceLimits_default, RawTokenIndex_build_from_container X bs options) of
        (Some r, Inr ix) \<Rightarrow> if length bs < isize_end then Some (r, ix) else None
      | _ \<Rightarrow> None)"

definition ngram_indexed :: "('h, 'x) ext_scheme \<Rightarrow> bytes \<Rightarrow> NgramIndexBuildOptions \<Rightarrow> (QztReader \<times> RawNgramIndex) option" where
  "ngram_indexed X bs options =
     (case (opened_reader X bs ResourceLimits_default, RawNgramIndex_build_from_container X bs options) of
        (Some r, Inr ix) \<Rightarrow> if length bs < isize_end then Some (r, ix) else None
      | _ \<Rightarrow> None)"

lemma token_indexed_Some:
  assumes "token_indexed X bs options = Some (r, ix)"
  shows "indexed_text (sk_chunk_entries (qr_details r)) (QztReader_decode_entry X r) (ss_original_size (sk_summary (qr_details r)))
     Token (rt_granules ix) (map te_key (rt_terms ix)) (rt_postings ix)" and "rt_complete ix"
    and "list_all2 (\<lambda>p e. encode_delta_varint_u64 p = Ok e) (rt_postings ix) (rt_encoded_postings ix)"
proof -
  have r: "opened_reader X bs ResourceLimits_default = Some r" and l: "length bs < isize_end"
    and b: "RawTokenIndex_build_from_container X bs options = Ok ix"
    using assms by (auto simp: token_indexed_def split: option.splits sum.splits if_splits)
  obtain f where f: "QztFileReader_open_read_at X (slice_read_exact_at bs) (length bs) = Ok f"
      "RawTokenIndex_build_from_file X f options = Ok ix"
    using b isize_u64 [OF l] by (auto simp: RawTokenIndex_build_from_container_def result_simps)
  obtain d where d: "r = \<lparr>qr_bytes = bs, qr_details = d\<rparr>" "fr_details f = d" "QztFileReader_decode_entry X f = QztReader_decode_entry X r"
    using open_slice [OF f(1) l] r by auto
  obtain g t p where g: "build_line_index_streaming X (sk_chunk_entries d) (ss_original_size (sk_summary d)) (to_max_line_bytes options)
        (to_limits options) (QztReader_decode_entry X r) Token = Ok (g, t, p)"
      "RawTokenIndex_from_parts (ss_container_id (sk_summary d)) (ss_original_size (sk_summary d)) g t p (to_limits options) = Ok ix"
    using f(2) by (auto simp: RawTokenIndex_build_from_file_def result_simps d(2,3) Let_def split: PostingGranularity.splits)
  obtain out where out: "validate_term_dictionary_shape t p (length g) = Ok ()"
      "encode_posting_lists t p False (max_encoded_bytes (to_limits options)) = Ok out"
      "rt_granules ix = g" "rt_terms ix = ep_terms out" "rt_postings ix = p" "rt_complete ix"
      "rt_encoded_postings ix = ep_postings out"
    using g(2) by (auto simp: RawTokenIndex_from_parts_def result_simps)
  have "length t = length p" using out(1) by (simp add: validate_term_dictionary_shape_def split: if_splits)
  note enc = encode_posting_lists_Ok [OF out(2) this]
  show "rt_complete ix" by (rule out)
  show "list_all2 (\<lambda>p e. encode_delta_varint_u64 p = Ok e) (rt_postings ix) (rt_encoded_postings ix)"
    unfolding out(5,7) by (rule enc(2))
  show "indexed_text (sk_chunk_entries (qr_details r)) (QztReader_decode_entry X r) (ss_original_size (sk_summary (qr_details r)))
     Token (rt_granules ix) (map te_key (rt_terms ix)) (rt_postings ix)"
    using built_for_reader [OF r, of "to_max_line_bytes options" "to_limits options" Token g t p] g(1) d(1)
    by (simp add: out(3-5) enc(1))
qed

lemma ngram_indexed_Some:
  assumes "ngram_indexed X bs options = Some (r, ix)"
  shows "indexed_text (sk_chunk_entries (qr_details r)) (QztReader_decode_entry X r) (ss_original_size (sk_summary (qr_details r)))
     (Ngram (no_n options)) (rn_granules ix) (map te_key (rn_terms ix)) (rn_postings ix)"
    and "rn_complete ix = no_complete options" and "nd_n (rn_declaration ix) = no_n options" and "0 < no_n options"
proof -
  have r: "opened_reader X bs ResourceLimits_default = Some r" and l: "length bs < isize_end"
    and b: "RawNgramIndex_build_from_container X bs options = Ok ix"
    using assms by (auto simp: ngram_indexed_def split: option.splits sum.splits if_splits)
  obtain f where f: "QztFileReader_open_read_at X (slice_read_exact_at bs) (length bs) = Ok f"
      "RawNgramIndex_build_from_file X f options = Ok ix"
    using b isize_u64 [OF l] by (auto simp: RawNgramIndex_build_from_container_def result_simps)
  obtain d where d: "r = \<lparr>qr_bytes = bs, qr_details = d\<rparr>" "fr_details f = d" "QztFileReader_decode_entry X f = QztReader_decode_entry X r"
    using open_slice [OF f(1) l] r by auto
  obtain g t p where g: "build_line_index_streaming X (sk_chunk_entries d) (ss_original_size (sk_summary d)) (no_max_line_bytes options)
        (no_limits options) (QztReader_decode_entry X r) (Ngram (no_n options)) = Ok (g, t, p)"
      "RawNgramIndex_from_parts (ss_container_id (sk_summary d)) (ss_original_size (sk_summary d)) g t p options = Ok ix"
    using f(2) by (auto simp: RawNgramIndex_build_from_file_def result_simps d(2,3) Let_def split: PostingGranularity.splits)
  obtain out where out: "validate_term_dictionary_shape t p (length g) = Ok ()"
      "encode_posting_lists t p True (max_encoded_bytes (no_limits options)) = Ok out"
      "rn_granules ix = g" "rn_terms ix = ep_terms out" "rn_postings ix = p" "rn_complete ix = no_complete options"
      "nd_n (rn_declaration ix) = no_n options" "0 < no_n options"
    using g(2) by (auto simp: RawNgramIndex_from_parts_def result_simps)
  have "length t = length p" using out(1) by (simp add: validate_term_dictionary_shape_def split: if_splits)
  note enc = encode_posting_lists_Ok [OF out(2) this]
  show "rn_complete ix = no_complete options" "nd_n (rn_declaration ix) = no_n options" "0 < no_n options" by (rule out)+
  show "indexed_text (sk_chunk_entries (qr_details r)) (QztReader_decode_entry X r) (ss_original_size (sk_summary (qr_details r)))
     (Ngram (no_n options)) (rn_granules ix) (map te_key (rn_terms ix)) (rn_postings ix)"
    using built_for_reader [OF r, of "no_max_line_bytes options" "no_limits options" "Ngram (no_n options)" g t p] g(1) d(1)
    by (simp add: out(3-5) enc(1))
qed

text \<open>The contract holds for both indexes; without an index it holds of the empty text.\<close>

lemma empty_indexed: "indexed_text [] (opened_decode X None) 0 mode [] [] []"
  by unfold_locales
     (simp_all add: chunk_layout_def u64_end_def index_of_text_def granules_are_lines_def restored_bytes_def text_lines_def)

interpretation token: indexed_text "opened_entries (map_option fst (token_indexed X bs build))"
    "opened_decode X (map_option fst (token_indexed X bs build))" "opened_total (map_option fst (token_indexed X bs build))"
    Token "case token_indexed X bs build of None \<Rightarrow> [] | Some (r, ix) \<Rightarrow> rt_granules ix"
    "case token_indexed X bs build of None \<Rightarrow> [] | Some (r, ix) \<Rightarrow> map te_key (rt_terms ix)"
    "case token_indexed X bs build of None \<Rightarrow> [] | Some (r, ix) \<Rightarrow> rt_postings ix" for X bs build
  using token_indexed_Some(1) [of X bs build] empty_indexed [of X Token]
  by (cases "token_indexed X bs build") (auto simp: opened_Some_defs opened_entries_def opened_total_def)

interpretation ngram: indexed_text "opened_entries (map_option fst (ngram_indexed X bs build))"
    "opened_decode X (map_option fst (ngram_indexed X bs build))" "opened_total (map_option fst (ngram_indexed X bs build))"
    "Ngram (no_n build)" "case ngram_indexed X bs build of None \<Rightarrow> [] | Some (r, ix) \<Rightarrow> rn_granules ix"
    "case ngram_indexed X bs build of None \<Rightarrow> [] | Some (r, ix) \<Rightarrow> map te_key (rn_terms ix)"
    "case ngram_indexed X bs build of None \<Rightarrow> [] | Some (r, ix) \<Rightarrow> rn_postings ix" for X bs build
  using ngram_indexed_Some(1) [of X bs build] empty_indexed [of X "Ngram (no_n build)"]
  by (cases "ngram_indexed X bs build") (auto simp: opened_Some_defs opened_entries_def opened_total_def)

section \<open>What a search returns\<close>

definition token_matches :: "bytes list \<Rightarrow> bytes \<Rightarrow> TokenSpan list" where
  "token_matches qs line = token_spans qs 0 (line_hits line qs False False)"

lemma token_matches_lines:
  "matches_lines (\<lambda>decoded limit l r. verified_spans decoded qs limit l r) (token_matches qs)"
  by (simp add: matches_lines_def token_matches_def one_line_spans)

lemma token_search_hits:
  assumes ti: "token_indexed X bs options = Some (r, ix)" and run: "RawTokenIndex_search X ix r query so = Ok report"
    and inc: "sr_incomplete_reason report = None"
  obtains qs where "set qs = token_keys query" and "distinct (map lower qs)" and "map lower qs = qs" and "qs \<noteq> []"
    and "prefix (sr_hits report) (matching_hits Token (rt_granules ix)
      (text_lines (restored_bytes (QztReader_decode_entry X r) (sk_chunk_entries (qr_details r)))) (set qs) (token_matches qs))"
    and "\<not> sr_capped report \<longrightarrow> sr_hits report = matching_hits Token (rt_granules ix)
      (text_lines (restored_bytes (QztReader_decode_entry X r) (sk_chunk_entries (qr_details r)))) (set qs) (token_matches qs)"
proof -
  let ?ls = "text_lines (restored_bytes (QztReader_decode_entry X r) (sk_chunk_entries (qr_details r)))"
  let ?rd = "\<lambda>offset len c. read_range_from_entries_cached (sk_chunk_entries (qr_details r))
      (ss_original_size (sk_summary (qr_details r))) offset len c (QztReader_decode_entry X r)"
  note conv = ti option.map option.case prod.case fst_conv opened_Some_defs
  have rd: "QztReader_read_range_cached X r = ?rd" by (intro ext) (simp add: QztReader_read_range_cached_def)
  have idx: "index_of_text (sk_chunk_entries (qr_details r)) Token (restored_bytes (QztReader_decode_entry X r) (sk_chunk_entries (qr_details r)))
      (rt_granules ix) (map te_key (rt_terms ix)) (rt_postings ix)"
    using token.index [of X bs options, unfolded conv] .
  then have dist: "distinct (map te_key (rt_terms ix))" and len: "length (rt_postings ix) = length (rt_terms ix)"
    by (auto simp: index_of_text_def strict_sorted_iff)
  note run' = run [unfolded RawTokenIndex_search_def rd RawTokenIndex_search_impl_def]
  obtain qs where q: "unique_query_keys query so = Ok qs" "usize_to_u64 (length qs) = Ok (length qs)"
    using run' by (auto simp: Let_def result_simps width_simps)
  note uq = unique_query_keys_Ok [OF q(1)]
  note run2 = run' [unfolded q rbind.simps Let_def]
  have ne: "qs \<noteq> []" using run2 inc by (auto simp: early_exit_report_def)
  obtain found where fd: "lookup_tokens ix qs [] 0 = Ok found" using run2 ne by (auto simp: result_simps)
  note run3 = run2 [unfolded fd rbind.simps]
  show thesis
  proof (cases found)
    case (Inl k)
    then have k: "fst k \<in> set qs" "fst k \<notin> set (map te_key (rt_terms ix))"
      using lookup_tokens_Inl [of ix qs "[]" 0 "fst k" "snd k"] fd by auto
    have "matching_hits Token (rt_granules ix) ?ls (set qs) (token_matches qs) = []"
      using token.missing_key [of "fst k" "set qs" X bs options, unfolded conv] k by blast
    moreover have "sr_hits report = []" using run3 ne Inl by (auto simp: early_exit_report_def split: prod.splits)
    ultimately show thesis using that [OF uq ne] by simp
  next
    case (Inr im)
    obtain "is" m where im: "im = (is, m)" by fastforce
    obtain js where js: "is = js" "map (\<lambda>i. te_key (rt_terms ix ! i)) js = qs" "\<forall>j \<in> set js. j < length (rt_terms ix)"
      using lookup_tokens_Inr [of ix qs "[]" 0 "is" m] fd Inr im dist by auto
    define sj where "sj = sort_key (\<lambda>index. length (rt_postings ix ! index)) is"
    define qs' where "qs' = map (\<lambda>i. te_key (rt_terms ix ! i)) sj"
    have sj: "set sj = set js" by (simp add: sj_def js(1))
    have qs': "set qs' = set qs" "qs' \<noteq> []" using sj js(2) ne by (auto simp: qs'_def)
    have refs: "map (\<lambda>index. rt_postings ix ! index) sj = map (ids_with (keys_of Token) ?ls) qs'"
      using idx js(3) sj by (auto simp: index_of_text_def qs'_def)
    obtain planner metrics where sp: "search_postings (rt_granules ix) (rt_complete ix) (qr_details r) so ?rd
        (\<lambda>decoded limit l r. verified_spans decoded qs limit l r) True (map (ids_with (keys_of Token) ?ls) qs') planner metrics = Ok report"
      using run3 ne Inr im by (auto simp: result_simps sj_def [symmetric] refs)
    note ok = token.search_postings_Ok [where X = X and bs = bs and build = options, unfolded conv,
        OF refl refl token_matches_lines qs'(2) sp]
    show thesis using that [OF uq ne] ok qs'(1) by simp
  qed
qed

end
