(* ===== verification/Search_Ngrams.thy ===== *)
theory Search_Ngrams
  imports Search_Exact
begin

text \<open>
  N-grams and substring matches (src/src/search.rs): the matcher returns the first occurrences
  of the query, and a line that contains the query contains all its n-grams, because in valid
  UTF-8 an occurrence of a text starts and ends at scalar boundaries.
\<close>

section \<open>Occurrences\<close>

definition occurs_at :: "bytes \<Rightarrow> bytes \<Rightarrow> nat \<Rightarrow> bool" where
  "occurs_at bs query s \<longleftrightarrow> s + length query \<le> length bs \<and> slice bs s (s + length query) = query"

definition substring_matches :: "bytes \<Rightarrow> bytes \<Rightarrow> TokenSpan list" where
  "substring_matches query line =
     (if query = [] then [] else
      map (\<lambda>s. \<lparr>ts_key = query, ts_start = s, ts_end = s + length query\<rparr>) (filter (occurs_at line query) [0 ..< length line]))"

lemma substring_loop_take:
  assumes "\<forall>s \<in> set ss. s + length query \<le> length bs" and "length spans < limit"
  shows "substring_loop bs query limit spans ss =
     take limit (spans @ map (\<lambda>s. \<lparr>ts_key = query, ts_start = s, ts_end = s + length query\<rparr>) (filter (occurs_at bs query) ss))"
  using assms
proof (induction ss arbitrary: spans)
  case (Cons s ss)
  then show ?case by (auto simp: Let_def occurs_at_def take_Cons')
qed simp

lemma substring_spans_take: "substring_spans bs query limit = take limit (substring_matches query bs)"
proof (cases "limit = 0 \<or> query = [] \<or> length query > length bs")
  case True
  then show ?thesis by (auto simp: substring_spans_def substring_matches_def occurs_at_def filter_empty_conv)
next
  case False
  have "filter (occurs_at bs query) [0 ..< length bs] = filter (occurs_at bs query) [0 ..< length bs - length query + 1]"
  proof -
    have "[0 ..< length bs] = [0 ..< length bs - length query + 1] @ [length bs - length query + 1 ..< length bs]"
    proof -
      have "length bs - length query + 1 \<le> length bs" using False by (cases query) auto
      then show ?thesis by (intro nth_equalityI) (auto simp: nth_append simp del: upt_Suc)
    qed
    moreover have "filter (occurs_at bs query) [length bs - length query + 1 ..< length bs] = []"
      by (auto simp: filter_empty_conv occurs_at_def)
    ultimately show ?thesis by (metis append_Nil2 filter_append)
  qed
  moreover have "\<forall>s \<in> set [0 ..< length bs - length query + 1]. s + length query \<le> length bs" using False by auto
  then have "substring_loop bs query limit [] [0 ..< length bs - length query + 1] = take limit
      (map (\<lambda>s. \<lparr>ts_key = query, ts_start = s, ts_end = s + length query\<rparr>)
        (filter (occurs_at bs query) [0 ..< length bs - length query + 1]))"
    using substring_loop_take [where spans = "[]" and limit = limit] False by (metis append_Nil list.size(3) neq0_conv)
  ultimately show ?thesis using False unfolding substring_spans_def substring_matches_def by simp
qed

lemma substring_matches_lines: "matches_lines (\<lambda>decoded limit _ _. substring_spans decoded query limit) (substring_matches query)"
  by (simp add: matches_lines_def substring_spans_take)

section \<open>Scalar boundaries\<close>

lemma valid_utf8_rest: "valid_utf8 q \<Longrightarrow> valid_utf8 (q @ bs) \<Longrightarrow> valid_utf8 bs"
proof (induction q rule: valid_utf8.induct)
  case (1 q)
  show ?case
  proof (cases "q = []")
    case False
    with "1.prems"(1) have k: "0 < utf8_len q" and v: "valid_utf8 (drop (utf8_len q) q)"
      by (auto simp: valid_utf8.simps [of q] split: if_splits)
    have "valid_utf8 (drop (utf8_len q) q @ bs)"
      using "1.prems"(2) False k utf8_len_le [of q]
      by (simp add: valid_utf8.simps [of "q @ bs"] utf8_len_append split: if_splits)
    then show ?thesis using "1.IH" False k v by simp
  qed (use "1.prems" in simp)
qed

lemma valid_utf8_head: "valid_utf8 bs \<Longrightarrow> bs \<noteq> [] \<Longrightarrow> \<not> is_cont (hd bs)"
  using utf8_len_head [of bs] by (auto simp: valid_utf8.simps [of bs] split: if_splits)

lemma char_starts_append: "char_starts (xs @ ys) = char_starts xs @ map ((+) (length xs)) (char_starts ys)"
proof -
  have "[0 ..< length xs + length ys] = [0 ..< length xs] @ map ((+) (length xs)) [0 ..< length ys]"
    by (rule nth_equalityI) (auto simp: nth_append)
  moreover have "filter (\<lambda>i. \<not> is_cont ((xs @ ys) ! i)) [0 ..< length xs] = filter (\<lambda>i. \<not> is_cont (xs ! i)) [0 ..< length xs]"
    by (intro filter_cong) (auto simp: nth_append)
  ultimately show ?thesis by (simp add: char_starts_def filter_map comp_def)
qed

lemma char_starts_Cons: "valid_utf8 bs \<Longrightarrow> bs \<noteq> [] \<Longrightarrow> \<exists>cs. char_starts bs = 0 # cs"
  using valid_utf8_head [of bs] by (cases bs) (auto simp: char_starts_def upt_conv_Cons simp del: upt_Suc)

text \<open>The boundaries of the scalars, with the end of the text.\<close>

definition boundaries :: "bytes \<Rightarrow> nat list" where
  "boundaries bs = char_starts bs @ [length bs]"

lemma ngram_bounds_nth:
  assumes "0 < n"
  shows "set (ngram_bounds n bs) = {(boundaries bs ! w, boundaries bs ! (w + n)) | w. w + n < length (boundaries bs)}"
proof -
  have "(s, e) \<in> set (ngram_bounds n bs) \<longleftrightarrow>
      (\<exists>w. w + n < length (boundaries bs) \<and> s = boundaries bs ! w \<and> e = boundaries bs ! (w + n))" for s e
  proof -
    have "(s, e) \<in> set (ngram_bounds n bs) \<longleftrightarrow>
        (\<exists>w < length (ngram_bounds n bs). (s, e) = ngram_bounds n bs ! w)" by (metis in_set_conv_nth)
    moreover have "w < length (ngram_bounds n bs) \<longleftrightarrow> w + n < length (boundaries bs)" for w
      using assms by (auto simp: ngram_bounds_def boundaries_def)
    moreover have "ngram_bounds n bs ! w = (boundaries bs ! w, boundaries bs ! (w + n))" if "w + n < length (boundaries bs)" for w
    proof -
      have "ngram_bounds n bs ! w = (char_starts bs ! w, (char_starts bs @ [length bs]) ! (n + w))"
        using that assms by (simp add: ngram_bounds_def boundaries_def del: drop_append)
      then show ?thesis using that assms by (simp add: boundaries_def nth_append add.commute)
    qed
    ultimately show ?thesis by auto
  qed
  then show ?thesis by auto
qed

text \<open>The boundaries of a text inside a text.\<close>

lemma boundaries_inside:
  assumes "valid_utf8 (xs @ q @ ys)" and "valid_utf8 q" and "q \<noteq> []"
  shows "\<exists>a b. boundaries (xs @ q @ ys) = a @ map ((+) (length xs)) (boundaries q) @ b"
proof -
  have "\<not> is_cont ((xs @ q @ ys) ! length xs)" using valid_utf8_head [OF assms(2,3)] assms(3) by (simp add: nth_append hd_conv_nth)
  then have "valid_utf8 (drop (length xs) (xs @ q @ ys))" using valid_utf8_split [OF assms(1), of "length xs"] by auto
  then have ys: "valid_utf8 ys" using valid_utf8_rest [OF assms(2)] by simp
  have ch: "char_starts (xs @ q @ ys) = char_starts xs @ map ((+) (length xs)) (char_starts q) @ map ((+) (length xs + length q)) (char_starts ys)"
    by (simp add: char_starts_append comp_def add.assoc)
  show ?thesis
  proof (cases "ys = []")
    case True
    then show ?thesis by (intro exI [of _ "char_starts xs"] exI [of _ "[]"]) (simp add: boundaries_def char_starts_append)
  next
    case False
    then obtain cs where "char_starts ys = 0 # cs" using char_starts_Cons [OF ys] by blast
    then show ?thesis using ch
      by (intro exI [of _ "char_starts xs"] exI [of _ "map ((+) (length xs + length q)) cs @ [length (xs @ q @ ys)]"])
         (simp add: boundaries_def)
  qed
qed

lemma slice_slice: "e \<le> n \<Longrightarrow> slice (slice xs a (a + n)) s e = slice xs (a + s) (a + e)"
  by (simp add: slice_def drop_take min_def add.commute)

lemma ngrams_included:
  assumes "valid_utf8 line" and "valid_utf8 q" and "q \<noteq> []" and "occurs_at line q s" and "0 < n"
  shows "ngram_keys n q \<subseteq> ngram_keys n line"
proof
  fix k assume "k \<in> ngram_keys n q"
  then obtain w where w: "w + n < length (boundaries q)" "k = slice q (boundaries q ! w) (boundaries q ! (w + n))"
    by (auto simp: ngram_keys_def ngram_bounds_nth [OF assms(5)])
  let ?xs = "take s line" and ?ys = "drop (s + length q) line"
  have line: "line = ?xs @ q @ ?ys" and s: "length ?xs = s"
    using assms(4) append_take_drop_id [of s line] append_take_drop_id [of "length q" "drop s line"]
    by (auto simp: occurs_at_def slice_def add.commute)
  obtain a b where ab: "boundaries line = a @ map ((+) s) (boundaries q) @ b"
    using boundaries_inside [of ?xs q ?ys] assms(1-3) line s by metis
  have nth: "boundaries line ! (length a + i) = s + boundaries q ! i" if "i < length (boundaries q)" for i
    using that by (simp add: ab nth_append)
  have "boundaries q ! (w + n) \<le> length q"
  proof -
    have "\<forall>x \<in> set (boundaries q). x \<le> length q" by (auto simp: boundaries_def char_starts_def)
    then show ?thesis using nth_mem [OF w(1)] by blast
  qed
  then have "slice line (s + boundaries q ! w) (s + boundaries q ! (w + n)) = k"
    using slice_slice [of "boundaries q ! (w + n)" "length q" line s "boundaries q ! w"] assms(4) w(2) by (simp add: occurs_at_def)
  moreover have "(boundaries line ! (length a + w), boundaries line ! (length a + w + n)) \<in> set (ngram_bounds n line)"
    unfolding ngram_bounds_nth [OF assms(5)] using w(1) ab by (intro CollectI exI [of _ "length a + w"]) auto
  moreover have "boundaries line ! (length a + w + n) = s + boundaries q ! (w + n)" using nth [of "w + n"] w(1) by (simp add: add.assoc)
  ultimately show "k \<in> ngram_keys n line" using nth [of w] w(1) by (force simp: ngram_keys_def)
qed

section \<open>Query keys\<close>

lemma ngram_keys_for_query_Ok:
  assumes "ngram_keys_for_query query n so = Ok qs"
  shows "set qs = ngram_keys n query" and "0 < n"
proof -
  show n: "0 < n" using assms by (auto simp: ngram_keys_for_query_def result_simps split: if_splits)
  show "set qs = ngram_keys n query"
  proof (cases "length (boundaries query) - 1 < n")
    case True
    then have "qs = []" using assms n by (auto simp: ngram_keys_for_query_def result_simps Let_def boundaries_def)
    moreover have "ngram_keys n query = {}" using True n by (auto simp: ngram_keys_def ngram_bounds_nth)
    ultimately show ?thesis by simp
  next
    case False
    let ?f = "\<lambda>w. slice query (boundaries query ! w) (boundaries query ! (w + n))"
    have r: "rfold (\<lambda>ks w. insert_query_key so ks (?f w)) [] [0 ..< length (boundaries query) - 1 - n + 1] = Ok qs"
      using assms n False by (auto simp: ngram_keys_for_query_def result_simps Let_def boundaries_def)
    have "{0 ..< length (boundaries query) - 1 - n + 1} = {w. w + n < length (boundaries query)}"
      using False by (auto simp: boundaries_def)
    then have "set qs = ?f ` {w. w + n < length (boundaries query)}"
      using insert_query_keys_Ok(1) [OF r] unfolding set_upt by simp
    then show ?thesis by (auto simp: ngram_keys_def ngram_bounds_nth [OF n])
  qed
qed

section \<open>What a search returns\<close>

lemma ngram_search_hits:
  assumes ti: "ngram_indexed X bs options = Some (r, ix)" and run: "RawNgramIndex_search X ix r query so = Ok report"
    and inc: "sr_incomplete_reason report = None"
  defines "ls \<equiv> text_lines (restored_bytes (QztReader_decode_entry X r) (sk_chunk_entries (qr_details r)))"
  shows "ngram_keys (no_n options) query \<noteq> {}"
    and "prefix (sr_hits report) (matching_hits (Ngram (no_n options)) (rn_granules ix) ls
      (ngram_keys (no_n options) query) (substring_matches query))"
    and "\<not> sr_capped report \<Longrightarrow> sr_hits report = matching_hits (Ngram (no_n options)) (rn_granules ix) ls
      (ngram_keys (no_n options) query) (substring_matches query)"
proof -
  let ?mode = "Ngram (no_n options)"
  let ?rd = "\<lambda>offset len c. read_range_from_entries_cached (sk_chunk_entries (qr_details r))
      (ss_original_size (sk_summary (qr_details r))) offset len c (QztReader_decode_entry X r)"
  note conv = ti option.map option.case prod.case fst_conv opened_Some_defs
  have rd: "QztReader_read_range_cached X r = ?rd" by (intro ext) (simp add: QztReader_read_range_cached_def)
  have idx: "index_of_text (sk_chunk_entries (qr_details r)) ?mode (restored_bytes (QztReader_decode_entry X r) (sk_chunk_entries (qr_details r)))
      (rn_granules ix) (map te_key (rn_terms ix)) (rn_postings ix)"
    using ngram.index [where X = X and bs = bs and build = options, unfolded conv] .
  then have dist: "distinct (map te_key (rn_terms ix))" by (auto simp: index_of_text_def strict_sorted_iff)
  note run' = run [unfolded RawNgramIndex_search_def rd RawNgramIndex_search_impl_def ngram_indexed_Some(3) [OF ti]]
  obtain qs where q: "ngram_keys_for_query query (no_n options) so = Ok qs" "usize_to_u64 (length qs) = Ok (length qs)"
    using run' by (auto simp: Let_def result_simps width_simps)
  note uq = ngram_keys_for_query_Ok [OF q(1)]
  note run2 = run' [unfolded q rbind.simps Let_def]
  have ne: "qs \<noteq> []" using run2 inc by (auto simp: early_exit_report_def)
  show "ngram_keys (no_n options) query \<noteq> {}" using ne uq(1) by auto
  have "prefix (sr_hits report) (matching_hits ?mode (rn_granules ix) ls (set qs) (substring_matches query)) \<and>
      (\<not> sr_capped report \<longrightarrow> sr_hits report = matching_hits ?mode (rn_granules ix) ls (set qs) (substring_matches query))"
  proof (cases "lookup_ngrams ix qs []")
    case (Inl k)
    then have k: "k \<in> set qs" "k \<notin> set (map te_key (rn_terms ix))" using lookup_ngrams_Inl by blast+
    have "matching_hits ?mode (rn_granules ix) ls (set qs) (substring_matches query) = []"
      unfolding ls_def using ngram.missing_key [where X = X and bs = bs and build = options and k = k and qs = "set qs", unfolded conv] k by blast
    moreover have "sr_hits report = []" using run2 ne Inl by (auto simp: early_exit_report_def)
    ultimately show ?thesis by simp
  next
    case (Inr "is")
    obtain js where js: "is = js" "map (\<lambda>i. te_key (rn_terms ix ! i)) js = qs" "\<forall>j \<in> set js. j < length (rn_terms ix)"
      using lookup_ngrams_Inr [OF Inr dist] by auto
    define sj where "sj = sort_key (\<lambda>index. (is_high_df ix index, te_granule_frequency (rn_terms ix ! index))) is"
    define qs' where "qs' = map (\<lambda>i. te_key (rn_terms ix ! i)) sj"
    have sj: "set sj = set js" by (simp add: sj_def js(1))
    have qs': "set qs' = set qs" "qs' \<noteq> []" using sj js(2) ne by (auto simp: qs'_def)
    have refs: "map (\<lambda>index. rn_postings ix ! index) sj = map (ids_with (keys_of ?mode) ls) qs'"
      using idx js(3) sj by (auto simp: index_of_text_def qs'_def ls_def)
    obtain planner metrics where sp: "search_postings (rn_granules ix) (rn_complete ix) (qr_details r) so ?rd
        (\<lambda>decoded limit _ _. substring_spans decoded query limit) False (map (ids_with (keys_of ?mode) ls) qs') planner metrics = Ok report"
      using run2 ne Inr by (auto simp: result_simps sj_def [symmetric] refs)
    note ok = ngram.search_postings_Ok [where X = X and bs = bs and build = options, unfolded conv, folded ls_def,
        OF refl refl substring_matches_lines qs'(2) sp]
    show ?thesis using ok qs'(1) by simp
  qed
  then show "prefix (sr_hits report) (matching_hits ?mode (rn_granules ix) ls (ngram_keys (no_n options) query) (substring_matches query))"
    "\<not> sr_capped report \<Longrightarrow> sr_hits report = matching_hits ?mode (rn_granules ix) ls (ngram_keys (no_n options) query) (substring_matches query)"
    by (simp_all add: uq(1))
qed

section \<open>The order of hits\<close>

lemma matching_hits_ascending:
  assumes g: "granules_are_lines entries ls gs"
    and m: "\<And>i. i < length ls \<Longrightarrow> sorted_wrt (<) (map ts_start (matches (ls ! i)))"
      "\<And>i sp. i < length ls \<Longrightarrow> sp \<in> set (matches (ls ! i)) \<Longrightarrow> ts_start sp < length (ls ! i)"
  shows "sorted_wrt (<) (map sh_logical_offset (matching_hits mode gs ls qs matches))"
proof -
  have off: "sh_logical_offset (hit_at (gs ! i) sp) = line_offset ls i + ts_start sp" if "i < length ls" for i sp
    using g that by (simp add: granules_are_lines_def granule_at_line_def hit_at_def)
  have "sorted_wrt (<) (map sh_logical_offset (concat (map (\<lambda>i. map (hit_at (gs ! i)) (matches (ls ! i))) is)))"
    if "sorted_wrt (<) is" "\<forall>i \<in> set is. i < length ls" for "is"
    using that
  proof (induction "is")
    case (Cons i "is")
    have i: "i < length ls" using Cons.prems(2) by simp
    have "sorted_wrt (<) (map (\<lambda>sp. line_offset ls i + ts_start sp) (matches (ls ! i)))"
      using m(1) [OF i] by (simp add: sorted_wrt_map)
    moreover have "map sh_logical_offset (map (hit_at (gs ! i)) (matches (ls ! i))) =
        map (\<lambda>sp. line_offset ls i + ts_start sp) (matches (ls ! i))" using off [OF i] by simp
    moreover have "line_offset ls i + ts_start sp < line_offset ls j + ts_start sp'"
      if "j \<in> set is" "sp \<in> set (matches (ls ! i))" for j sp sp'
    proof -
      have "Suc i \<le> j" using Cons.prems(1) that(1) by auto
      then show ?thesis using line_offset_mono [of "Suc i" j ls] m(2) [OF i that(2)] by (simp add: line_offset_Suc [OF i])
    qed
    ultimately show ?case using Cons off i by (auto simp: sorted_wrt_append simp del: map_map)
  qed simp
  then show ?thesis unfolding matching_hits_def by (simp add: sorted_wrt_filter)
qed

end
