(* ===== verification/Search_Properties.thy ===== *)
theory Search_Properties
  imports Search_Ngrams Writer_Total
begin

text \<open>
  The properties of the transient searches (src/src/search.rs) over a whole container: posting
  lists are canonical, an index built from a container is exact, and a search that no limit
  stopped returns exactly the matches in the original text.
\<close>

section \<open>Token hits in the text\<close>

text \<open>
  A token of the text that is one of the query's, in a line that holds all of them.
\<close>

definition token_hit :: "bytes \<Rightarrow> bytes set \<Rightarrow> nat \<Rightarrow> nat \<Rightarrow> bool" where
  "token_hit data qs s e \<longleftrightarrow> token_at data s e \<and> lower (slice data s e) \<in> qs \<and>
     (\<forall>k \<in> qs. \<exists>s' e'. token_at data s' e' \<and> lower (slice data s' e') = k \<and> same_line data s s')"

definition hit_span :: "SearchHit \<Rightarrow> nat \<times> nat" where
  "hit_span h = (sh_logical_offset h, sh_logical_offset h + sh_byte_length h)"

lemma token_keys_line:
  assumes "in_line (text_lines data) i s"
  shows "k \<in> token_keys (text_lines data ! i) \<longleftrightarrow>
     (\<exists>s' e'. token_at data s' e' \<and> lower (slice data s' e') = k \<and> same_line data s s')"
proof
  let ?o = "line_offset (text_lines data) i"
  have i: "i < length (text_lines data)" using assms by (simp add: in_line_def)
  {
    assume "k \<in> token_keys (text_lines data ! i)"
    then obtain s' e' where t: "token_at (text_lines data ! i) s' e'" "k = lower (slice (text_lines data ! i) s' e')"
      by (auto simp: token_keys_def)
    then have "s' < length (text_lines data ! i)" "e' \<le> length (text_lines data ! i)" by (auto simp: token_at_def)
    then show "\<exists>s' e'. token_at data s' e' \<and> lower (slice data s' e') = k \<and> same_line data s s'"
      using t line_token [OF i, of s' e'] line_slice [OF i, of e' s'] same_line_iff [OF assms, of i "?o + s'"] i
      by (intro exI [of _ "?o + s'"] exI [of _ "?o + e'"]) (auto simp: in_line_def)
  next
    assume "\<exists>s' e'. token_at data s' e' \<and> lower (slice data s' e') = k \<and> same_line data s s'"
    then obtain s' e' where t: "token_at data s' e'" "lower (slice data s' e') = k" "same_line data s s'" by blast
    have "s' < length (concat (text_lines data))" using t(1) by (auto simp: token_at_def text_lines_concat)
    then obtain j where j: "in_line (text_lines data) j s'" using in_line_exists by blast
    then have "i = j" using same_line_iff [OF assms j] t(3) by simp
    then have l: "?o \<le> s'" "s' - ?o < length (text_lines data ! i)" "s' < e'" using j t(1) by (auto simp: in_line_def token_at_def)
    then have lt: "token_at (text_lines data ! i) (s' - ?o) (e' - ?o)" using line_token [OF i, of "s' - ?o" "e' - ?o"] t(1) by simp
    then have "slice (text_lines data ! i) (s' - ?o) (e' - ?o) = slice data s' e'"
      using line_slice [OF i, of "e' - ?o" "s' - ?o"] l by (simp add: token_at_def)
    then show "k \<in> token_keys (text_lines data ! i)" using lt t(2) by (force simp: token_keys_def)
  }
qed

lemma token_hit_line:
  assumes "in_line (text_lines data) i s"
  shows "token_hit data qs s e \<longleftrightarrow> qs \<subseteq> token_keys (text_lines data ! i) \<and>
     (\<exists>e'. e = line_offset (text_lines data) i + e' \<and> token_at (text_lines data ! i) (s - line_offset (text_lines data) i) e' \<and>
       lower (slice (text_lines data ! i) (s - line_offset (text_lines data) i) e') \<in> qs)"
proof -
  let ?o = "line_offset (text_lines data) i" and ?l = "text_lines data ! i"
  have i: "i < length (text_lines data)" and s: "?o \<le> s" "s - ?o < length ?l" using assms by (auto simp: in_line_def)
  have "token_at data s e \<and> lower (slice data s e) \<in> qs \<longleftrightarrow>
      (\<exists>e'. e = ?o + e' \<and> token_at ?l (s - ?o) e' \<and> lower (slice ?l (s - ?o) e') \<in> qs)"
  proof
    assume t: "token_at data s e \<and> lower (slice data s e) \<in> qs"
    then have "?o \<le> e" using s(1) by (auto simp: token_at_def)
    then have lt: "token_at ?l (s - ?o) (e - ?o)" using line_token [OF i, of "s - ?o" "e - ?o"] t s by simp
    then have "slice ?l (s - ?o) (e - ?o) = slice data s e"
      using line_slice [OF i, of "e - ?o" "s - ?o"] s \<open>?o \<le> e\<close> by (simp add: token_at_def)
    then show "\<exists>e'. e = ?o + e' \<and> token_at ?l (s - ?o) e' \<and> lower (slice ?l (s - ?o) e') \<in> qs"
      using lt t \<open>?o \<le> e\<close> by (intro exI [of _ "e - ?o"]) simp
  next
    assume "\<exists>e'. e = ?o + e' \<and> token_at ?l (s - ?o) e' \<and> lower (slice ?l (s - ?o) e') \<in> qs"
    then obtain e' where e: "e = ?o + e'" "token_at ?l (s - ?o) e'" "lower (slice ?l (s - ?o) e') \<in> qs" by blast
    then show "token_at data s e \<and> lower (slice data s e) \<in> qs"
      using line_token [OF i, of "s - ?o" e'] line_slice [OF i, of e' "s - ?o"] s by (simp add: token_at_def)
  qed
  then show ?thesis unfolding token_hit_def using token_keys_line [OF assms] by blast
qed

lemma token_spans_iff:
  assumes "distinct (map lower qs)" and "map lower qs = qs" and "set qs \<subseteq> token_keys line"
  shows "(\<exists>sp \<in> set (token_matches qs line). ts_start sp = s \<and> ts_end sp = e) \<longleftrightarrow>
     token_at line s e \<and> lower (slice line s e) \<in> set qs"
proof -
  have low: "lower ` set qs = set qs" by (metis assms(2) set_map)
  have nth: "lower (qs ! i) = qs ! i" if "i < length qs" for i by (metis assms(2) nth_map that)
  from low have "covers qs (line_hits line qs False False)" using covers_iff [OF assms(1)] assms(3) by simp
  then have "(\<exists>sp \<in> set (token_matches qs line). ts_start sp = s \<and> ts_end sp = e) \<longleftrightarrow>
      (\<exists>i. (i, s, e) \<in> set (line_hits line qs False False))"
    by (force simp: token_matches_def token_spans_def)
  also have "\<dots> \<longleftrightarrow> token_at line s e \<and> lower (slice line s e) \<in> set qs"
    unfolding line_hits_iff [OF assms(1)] in_set_conv_nth [of _ qs] using nth by auto
  finally show ?thesis .
qed

lemma token_hits_exact:
  assumes "granules_are_lines entries (text_lines data) gs" and qs: "distinct (map lower qs)" "map lower qs = qs"
  shows "hit_span ` set (matching_hits Token gs (text_lines data) (set qs) (token_matches qs)) = {(s, e). token_hit data (set qs) s e}"
    and "sorted_wrt (<) (map sh_logical_offset (matching_hits Token gs (text_lines data) (set qs) (token_matches qs)))"
proof -
  let ?ls = "text_lines data"
  have g: "hit_span (hit_at (gs ! i) sp) = (line_offset ?ls i + ts_start sp, line_offset ?ls i + ts_start sp + (ts_end sp - ts_start sp))"
    if "i < length ?ls" for i sp
    using assms(1) that by (simp add: granules_are_lines_def granule_at_line_def hit_at_def hit_span_def)
  have tok: "token_at line (ts_start sp) (ts_end sp)" if "sp \<in> set (token_matches qs line)" for sp line
    using that by (auto simp: token_matches_def token_spans_def line_hits_iff [OF qs(1)] split: if_splits)
  have mem: "(s, e) \<in> hit_span ` set (matching_hits Token gs ?ls (set qs) (token_matches qs)) \<longleftrightarrow>
      (\<exists>i < length ?ls. set qs \<subseteq> token_keys (?ls ! i) \<and> (\<exists>sp \<in> set (token_matches qs (?ls ! i)).
        s = line_offset ?ls i + ts_start sp \<and> e = line_offset ?ls i + ts_end sp))" for s e
  proof -
    have eq: "(s, e) = hit_span (hit_at (gs ! i) sp) \<longleftrightarrow> s = line_offset ?ls i + ts_start sp \<and> e = line_offset ?ls i + ts_end sp"
      if "i < length ?ls" "sp \<in> set (token_matches qs (?ls ! i))" for i sp
      using g [OF that(1)] tok [OF that(2)] by (auto simp: token_at_def)
    have "(s, e) \<in> hit_span ` set (matching_hits Token gs ?ls (set qs) (token_matches qs)) \<longleftrightarrow>
        (\<exists>i < length ?ls. set qs \<subseteq> token_keys (?ls ! i) \<and> (\<exists>sp \<in> set (token_matches qs (?ls ! i)). (s, e) = hit_span (hit_at (gs ! i) sp)))"
      by (auto simp: matching_hits_def keys_of_def)
    then show ?thesis using eq by blast
  qed
  have "(s, e) \<in> hit_span ` set (matching_hits Token gs ?ls (set qs) (token_matches qs)) \<longleftrightarrow> token_hit data (set qs) s e" for s e
  proof
    assume "(s, e) \<in> hit_span ` set (matching_hits Token gs ?ls (set qs) (token_matches qs))"
    then obtain i sp where i: "i < length ?ls" "set qs \<subseteq> token_keys (?ls ! i)" "sp \<in> set (token_matches qs (?ls ! i))"
        "s = line_offset ?ls i + ts_start sp" "e = line_offset ?ls i + ts_end sp" using mem by blast
    have "in_line ?ls i s" using tok [OF i(3)] i(1,4) by (auto simp: in_line_def token_at_def)
    then show "token_hit data (set qs) s e"
      using token_hit_line [of data i s "set qs" e] tok [OF i(3)] token_spans_iff [OF qs i(2), of "ts_start sp" "ts_end sp"] i(2-5)
      by (metis add_diff_cancel_left')
  next
    assume t: "token_hit data (set qs) s e"
    then have "s < length (concat ?ls)" by (auto simp: token_hit_def token_at_def text_lines_concat)
    then obtain i where i: "in_line ?ls i s" using in_line_exists by blast
    from iffD1 [OF token_hit_line [OF i] t] obtain e' where e: "set qs \<subseteq> token_keys (?ls ! i)" "e = line_offset ?ls i + e'" "token_at (?ls ! i) (s - line_offset ?ls i) e'"
        "lower (slice (?ls ! i) (s - line_offset ?ls i) e') \<in> set qs"
      by (elim conjE exE)
    then obtain sp where "sp \<in> set (token_matches qs (?ls ! i))" "ts_start sp = s - line_offset ?ls i" "ts_end sp = e'"
      using token_spans_iff [OF qs e(1)] by blast
    then show "(s, e) \<in> hit_span ` set (matching_hits Token gs ?ls (set qs) (token_matches qs))"
      unfolding mem using i e(1,2) by (intro exI [of _ i]) (auto simp: in_line_def intro!: bexI [of _ sp])
  qed
  then show "hit_span ` set (matching_hits Token gs ?ls (set qs) (token_matches qs)) = {(s, e). token_hit data (set qs) s e}" by auto
  have token_start: "ts_start sp < length line" if "sp \<in> set (token_matches qs line)" for sp line
    using tok [OF that] by (simp add: token_at_def)
  have "sorted_wrt (<) (map ts_start (token_matches qs line))" for line
    using line_hits_ascending [of line qs False False]
    by (auto simp: token_matches_def token_spans_def sorted_wrt_map case_prod_unfold)
  then show "sorted_wrt (<) (map sh_logical_offset (matching_hits Token gs ?ls (set qs) (token_matches qs)))"
    using token_start by (intro matching_hits_ascending [OF assms(1)])
qed

section \<open>Occurrences in the text\<close>



section \<open>Properties\<close>

text \<open>
  C38: posting lists have one encoding. Bytes decode to a list, under a limit on its length,
  exactly if the list is within the limit and its encoding is these bytes; so truncated,
  overlong, unordered and overflowing encodings are all rejected, and the size computed before
  encoding is the size of the encoding.
\<close>

theorem posting_list_roundtrip:
  assumes "m < u64_end" and "length bs < u64_end"
  shows "decode_delta_varint_u64_with_limit bs m = Ok vs \<longleftrightarrow>
     encode_delta_varint_u64 vs = Ok bs \<and> encoded_delta_varint_size vs = Ok (length bs) \<and> length vs \<le> m \<and> (\<forall>v \<in> set vs. v < u64_end)"
  using assms by (auto simp: decode_delta_iff encode_delta_Ok_iff encoded_size_Ok_iff' posting_ok_def)

lemma token_indexedI:
  assumes "RawTokenIndex_build_from_container X bs options = Ok ix" and "QztReader_open X bs = Ok r" and "length bs < 2 ^ 63"
  shows "token_indexed X bs options = Some (r, ix)"
  using assms by (simp add: token_indexed_def QztReader_open_limits open_reader_conv isize_end_def)


lemma exported_data:
  assumes "QztReader_open X bs = Ok r" and "\<And>e. e \<in> set (sk_chunk_entries (qr_details r)) \<Longrightarrow> is_ok (QztReader_decode_entry X r e)"
  shows "QztReader_export_all X r = Ok (restored_bytes (QztReader_decode_entry X r) (sk_chunk_entries (qr_details r)))"
  using export_all_Ok_iff [OF assms(1) [unfolded QztReader_open_limits]] assms(2) by simp

lemma posting_list_ids:
  assumes "index_of_text entries Token data granules (map te_key (rt_terms ix)) (rt_postings ix)"
  shows "posting_list_for_key ix k =
     (if ids_with token_keys (text_lines data) k = [] then None else Some (ids_with token_keys (text_lines data) k))"
proof -
  have K: "keys_of Token = token_keys" by (simp add: keys_of_def fun_eq_iff)
  note ix = assms [unfolded index_of_text_def K]
  have dist: "distinct (map te_key (rt_terms ix))" using ix by (auto simp: strict_sorted_iff)
  have ids: "ids_with token_keys (text_lines data) k = [] \<longleftrightarrow> k \<notin> set (map te_key (rt_terms ix))"
    using ix by (force simp: ids_with_def filter_empty_conv in_set_conv_nth [of _ "text_lines data"])
  show ?thesis
  proof (cases "term_index_for_key (rt_terms ix) k")
    case None
    then show ?thesis using ids iffD1 [OF term_index_None None] by (simp add: posting_list_for_key_def)
  next
    case (Some i)
    then have i: "i < length (rt_terms ix)" "te_key (rt_terms ix ! i) = k" by (simp_all add: term_index_Some [OF dist])
    then have "k \<in> set (map te_key (rt_terms ix))" by (metis length_map nth_map nth_mem)
    moreover have "rt_postings ix ! i = ids_with token_keys (text_lines data) k" "i < length (rt_postings ix)" using ix i by auto
    ultimately show ?thesis using ids Some by (simp add: posting_list_for_key_def get_def)
  qed
qed

text \<open>
  C15: an index built from a container is the index of its text. The builder sees one chunk at
  a time, yet if it succeeds the container exports completely, there is one granule per line
  of the text, in order and with the bytes of that line, the posting list of a key holds
  in ascending order the numbers of exactly the lines with that token (without regard to ASCII
  case), keys of no line have no list, and every encoded list decodes to the list.
\<close>

theorem token_index_exact:
  assumes "RawTokenIndex_build_from_container X bs options = Ok ix" and "QztReader_open X bs = Ok r" and "length bs < 2 ^ 63"
  shows "\<exists>data. QztReader_export_all X r = Ok data \<and> length (rt_granules ix) = length (text_lines data) \<and>
     (\<forall>i < length (text_lines data). let g = rt_granules ix ! i in sg_granule_id g = i \<and> sg_first_line g = Some i \<and>
        slice data (sg_logical_offset g) (sg_logical_offset g + sg_byte_length g) = text_lines data ! i) \<and>
     (\<forall>key. posting_list_for_key ix key =
        (let ids = filter (\<lambda>i. key \<in> token_keys (text_lines data ! i)) [0 ..< length (text_lines data)] in
         if ids = [] then None else Some ids)) \<and>
     list_all2 (\<lambda>ids encoded. encode_delta_varint_u64 ids = Ok encoded) (rt_postings ix) (rt_encoded_postings ix)"
proof -
  note ti = token_indexedI [OF assms]
  note conv = ti option.map option.case prod.case fst_conv opened_Some_defs
  let ?data = "restored_bytes (QztReader_decode_entry X r) (sk_chunk_entries (qr_details r))"
  have x: "QztReader_export_all X r = Ok ?data"
    using exported_data [OF assms(2)] token.all_decode [where X = X and bs = bs and build = options, unfolded conv] by blast
  have idx: "index_of_text (sk_chunk_entries (qr_details r)) Token ?data (rt_granules ix) (map te_key (rt_terms ix)) (rt_postings ix)"
    using token.index [where X = X and bs = bs and build = options, unfolded conv] .
  have "length (rt_granules ix) = length (text_lines ?data)" using idx by (simp add: index_of_text_def granules_are_lines_def)
  moreover have "let g = rt_granules ix ! i in sg_granule_id g = i \<and> sg_first_line g = Some i \<and>
      slice ?data (sg_logical_offset g) (sg_logical_offset g + sg_byte_length g) = text_lines ?data ! i"
    if "i < length (text_lines ?data)" for i
    using idx that text_line_facts(5) [OF that] by (simp add: index_of_text_def granules_are_lines_def granule_at_line_def Let_def)
  ultimately show ?thesis
    using x posting_list_ids [OF idx] token_indexed_Some(3) [OF ti] by (auto simp: ids_with_def Let_def)
qed

text \<open>
  C6: token search finds exactly what it should. With an index built from the container, the
  hits of a query are, in ascending order, the tokens of the text that equal one of the query's
  tokens up to ASCII case and stand in a line that has all of them: a prefix of these when a
  limit of the query stopped the search, and all of them when none did. Candidates come from
  intersected posting lists and are matched line by line against decoded bytes.
\<close>

theorem token_search_exact:
  assumes "RawTokenIndex_build_from_container X bs options = Ok ix" and "QztReader_open X bs = Ok r" and "length bs < 2 ^ 63"
    and "RawTokenIndex_search X ix r query so = Ok report" and "sr_incomplete_reason report = None"
  shows "\<exists>data hits. QztReader_export_all X r = Ok data \<and> sorted_wrt (<) (map sh_logical_offset hits) \<and>
     hit_span ` set hits = {(s, e). token_hit data (token_keys query) s e} \<and>
     prefix (sr_hits report) hits \<and> (\<not> sr_capped report \<longrightarrow> sr_hits report = hits)"
proof -
  note ti = token_indexedI [OF assms(1-3)]
  note conv = ti option.map option.case prod.case fst_conv opened_Some_defs
  let ?data = "restored_bytes (QztReader_decode_entry X r) (sk_chunk_entries (qr_details r))"
  have x: "QztReader_export_all X r = Ok ?data"
    using exported_data [OF assms(2)] token.all_decode [where X = X and bs = bs and build = options, unfolded conv] by blast
  have g: "granules_are_lines (sk_chunk_entries (qr_details r)) (text_lines ?data) (rt_granules ix)"
    using token.index [where X = X and bs = bs and build = options, unfolded conv] by (simp add: index_of_text_def)
  obtain qs where qs: "set qs = token_keys query" "distinct (map lower qs)" "map lower qs = qs" "qs \<noteq> []"
      "prefix (sr_hits report) (matching_hits Token (rt_granules ix) (text_lines ?data) (set qs) (token_matches qs))"
      "\<not> sr_capped report \<longrightarrow> sr_hits report = matching_hits Token (rt_granules ix) (text_lines ?data) (set qs) (token_matches qs)"
    by (rule token_search_hits [OF ti assms(4,5)])
  show ?thesis using x token_hits_exact [OF g qs(2,3)] qs(1,5,6) by auto
qed


section \<open>Witnesses\<close>

text \<open>The searches over the text \<open>a\<close>, with a token index and an index of single scalars.\<close>

abbreviation "one_line \<equiv> \<lparr>sg_granule_id = 0, sg_logical_offset = 0, sg_byte_length = 1, sg_chunk_start = 0,
   sg_chunk_end = 1, sg_first_line = Some 0, sg_line_count = Some 1\<rparr>"

lemma one_byte_plan: "\<exists>plan. plan_chunks [97] sample_options = Ok plan"
proof -
  have "greedy_cuts [97] sample_options 0 [1]" by (simp add: greedy_cut_def sample_options_def)
  from plan_chunks_greedy [OF this] show ?thesis
    by (auto simp: sample_options_def ChunkerOptions_validate_def table_capacity_def u64_end_def valid_utf8.simps)
qed

text \<open>The container of the text \<open>a\<close>: one chunk of one byte.\<close>

lemma one_byte_container:
  obtains bs r e where "QztReader_open toy_ext bs = Ok r" and "length bs < 2 ^ 46" and "QztReader_export_all toy_ext r = Ok [97]"
    and "sk_chunk_entries (qr_details r) = [e]" and "chunk_id e = 0" and "logical_offset e = 0" and "uncompressed_size e = 1"
    and "QztReader_decode_entry toy_ext r e = Ok [97]" and "ss_original_size (sk_summary (qr_details r)) = 1"
    and "compressed_size e < u64_end"
proof -
  obtain plan where "plan_chunks [97] (wo_chunker sample_writer_options) = Ok plan"
    using one_byte_plan by (auto simp: sample_writer_options_def)
  from pack_bytes_succeeds [OF toy_blake3 toy_compresses sample_writer_options_valid(2,1) this,
      of "container_id_from_input toy_ext [97]"]
  obtain bs where bs: "WriterBuilder_pack toy_ext sample_builder [97] = Ok bs"
    using sample_writer_options_valid(1)
    by (auto simp: WriterBuilder_pack_def sample_builder_def WriterBuilder_options_def WriterBuilder_new_def is_ok_iff
        pack_bytes_with_container_id_def container_id_from_input_def container_id_from_hash_def blake3_length [OF toy_blake3])
  have "builder_typed sample_builder"
    using sample_writer_options_valid(2)
    by (simp add: builder_typed_def sample_builder_def WriterBuilder_options_def WriterBuilder_new_def typed_documents_def)
  then have "\<exists>r. QztReader_open toy_ext bs = Ok r \<and> QztReader_export_all toy_ext r = Ok [97] \<and>
      (\<forall>level. is_ok (QztReader_verify toy_ext r level)) \<and> length bs < 2 ^ 46"
    by (rule builder_run [OF bs _ toy_blake3]) (rule written_reads_back [OF _ _ _ toy_zstd])
  then obtain r where r: "QztReader_open toy_ext bs = Ok r" "QztReader_export_all toy_ext r = Ok [97]" "length bs < 2 ^ 46" by blast
  note o = r(1) [unfolded QztReader_open_limits]
  have ro: "opened_reader toy_ext bs ResourceLimits_default = Some r" using o by (simp add: open_reader_conv)
  let ?es = "sk_chunk_entries (qr_details r)" and ?dec = "QztReader_decode_entry toy_ext r"
  have x: "\<forall>e \<in> set ?es. is_ok (?dec e)" "restored_bytes ?dec ?es = [97]" using iffD1 [OF export_all_Ok_iff [OF o] r(2)] by auto
  note src = memory.layout [of toy_ext bs ResourceLimits_default, unfolded ro opened_Some_defs]
    memory.entries_le_total [of toy_ext bs ResourceLimits_default, unfolded ro opened_Some_defs]
    memory.restored_total [of toy_ext bs ResourceLimits_default, unfolded ro opened_Some_defs]
    memory.room_new [of toy_ext bs ResourceLimits_default, unfolded ro opened_Some_defs]
  have tot: "ss_original_size (sk_summary (qr_details r)) = 1" using src(3) x(2) by simp
  moreover have "?es \<noteq> []" using x(2) by (auto simp: restored_bytes_def)
  ultimately obtain e where e: "?es = [e]" using src(2) by (cases ?es) auto
  have d: "?dec e = Ok [97]" using x e by (auto simp: restored_bytes_def chunk_or_zeros_def is_ok_iff)
  have "length (chunk_or_zeros ?dec e) = uncompressed_size e"
    using memory.chunk_size [of e toy_ext bs ResourceLimits_default, unfolded ro opened_Some_defs] e by simp
  then have "uncompressed_size e = 1" using d by (simp add: chunk_or_zeros_def)
  moreover have "compressed_size e < u64_end" using src(4) e by (simp add: cache_room_def)
  ultimately show thesis using that [OF r(1,3,2) e _ _ _ d tot] layout_nth(1,2) [OF src(1), of 0] e by simp
qed

lemma one_entry_span:
  assumes "chunk_id e = 0" and "logical_offset e = 0" and "uncompressed_size e = 1"
  shows "chunk_index_for_logical_offset [e] 0 = Ok 0" "chunk_span_for_range [e] 0 1 = Ok (0, 1)"
  using assms
  by (simp_all add: chunk_span_for_range_def chunk_index_for_logical_offset_def partition_by_end_def
      partition_loop.simps entry_logical_end_def checked_logical_end_def checked_add_def u64_end_def get_def)

lemma one_byte_runs: "token_runs [97] 0 = [(0, 1)]"
  by (simp add: token_runs.simps skip_bytes.simps is_token_byte_def Let_def)

lemma one_byte_build:
  assumes "chunk_id e = 0" "logical_offset e = 0" "uncompressed_size e = 1" "decode e = Ok [97]"
  shows "build_line_index_streaming X [e] 1 (16 * 1024 * 1024) IndexBuildLimits_default decode Token =
    Ok ([one_line],
        [term_of_key X [97]], [[0]])"
  using one_entry_span [OF assms(1-3)] assms(4)
  by (simp add: build_line_index_streaming_def build_chunk_step_def build_line_step_def emit_line_granule_def add_tokens_fold
    one_byte_runs add_key_def charge_build_def checked_add_def checked_sub_def usize_to_u64_def u64_end_def IndexBuildLimits_default_def Let_def slice_def is_ascii_uppercase_def
    from_utf8_def valid_utf8.simps)


lemma open_slice_Ok:
  assumes "QztReader_open X bs = Ok r" and "length bs < isize_end"
  shows "\<exists>f. QztFileReader_open_read_at X (slice_read_exact_at bs) (length bs) = Ok f \<and> fr_details f = qr_details r \<and>
     QztFileReader_decode_entry X f = QztReader_decode_entry X r"
proof -
  have "opened_reader X bs ResourceLimits_default = Some r" using assms(1) by (simp add: QztReader_open_limits open_reader_conv)
  then obtain d where d: "open_skeleton_details_with_limits X bs ResourceLimits_default = Ok d" "r = \<lparr>qr_bytes = bs, qr_details = d\<rparr>"
    by (auto simp: opened_reader_Some)
  then show ?thesis
    using slice_source.open_read_at [OF assms(2), of X ResourceLimits_default] slice_source.decode_agrees [OF assms(2), of X d]
    by (auto simp: QztFileReader_open_read_at_def QztFileReader_open_read_at_with_limits_def)
qed

definition one_byte_index :: "bytes \<Rightarrow> RawTokenIndex" where
  "one_byte_index cid = \<lparr>rt_container_id = cid, rt_source_size_bytes = 1, rt_source = RawUtf8, rt_posting_granularity = Line,
     rt_complete = True, rt_granules = [one_line],
     rt_terms = [(term_of_key toy_ext [97])\<lparr>te_granule_frequency := 1, te_posting_size := 1\<rparr>], rt_postings = [[0]],
     rt_encoded_postings = [[0]]\<rparr>"

lemma one_byte_parts:
  "RawTokenIndex_from_parts cid 1 [one_line]
        [term_of_key toy_ext [97]] [[0]] IndexBuildLimits_default = Ok (one_byte_index cid)"
    by (simp add: RawTokenIndex_from_parts_def
        check_parts_def charge_build_def checked_add_def usize_to_u64_def u64_to_usize_def u64_end_def IndexBuildLimits_default_def term_of_key_def
        validate_granules_def validate_granule_step_def checked_logical_end_def validate_term_dictionary_shape_def
        validate_posting_list_def encode_posting_lists_def charge_posting_list_def encoded_delta_varint_size_def
        posting_delta_def encode_posting_list_def encode_delta_varint_u64_def checked_mul_def one_byte_index_def varuint_len.simps
        write_varuint.simps)

lemma one_byte_index_built:
  assumes "QztReader_open toy_ext bs = Ok r" and "length bs < isize_end" and "sk_chunk_entries (qr_details r) = [e]"
    and "chunk_id e = 0" "logical_offset e = 0" "uncompressed_size e = 1" "QztReader_decode_entry toy_ext r e = Ok [97]"
    and "ss_original_size (sk_summary (qr_details r)) = 1"
  shows "RawTokenIndex_build_from_container toy_ext bs TokenIndexBuildOptions_default =
     Ok (one_byte_index (ss_container_id (sk_summary (qr_details r))))"
proof -
  obtain f where f: "QztFileReader_open_read_at toy_ext (slice_read_exact_at bs) (length bs) = Ok f" "fr_details f = qr_details r"
      "QztFileReader_decode_entry toy_ext f = QztReader_decode_entry toy_ext r"
    using open_slice_Ok [OF assms(1,2)] by blast
  have b: "build_line_index_streaming toy_ext (sk_chunk_entries (fr_details f)) (ss_original_size (sk_summary (fr_details f)))
      (to_max_line_bytes TokenIndexBuildOptions_default) (to_limits TokenIndexBuildOptions_default) (QztFileReader_decode_entry toy_ext f) Token =
    Ok ([one_line],
        [term_of_key toy_ext [97]], [[0]])"
    using one_byte_build [where decode = "QztReader_decode_entry toy_ext r", OF assms(4-7), of toy_ext]
    by (simp only: f(2,3) assms(3,8) TokenIndexBuildOptions_default_def TokenIndexBuildOptions.simps)
  have "RawTokenIndex_build_from_file toy_ext f TokenIndexBuildOptions_default =
      Ok (one_byte_index (ss_container_id (sk_summary (qr_details r))))"
    using one_byte_parts
    unfolding RawTokenIndex_build_from_file_def Let_def b by (simp add: f(2) assms(8) TokenIndexBuildOptions_default_def)
  then show ?thesis using f(1) isize_u64 [OF assms(2)] by (simp add: RawTokenIndex_build_from_container_def)
qed


lemma one_byte_read:
  assumes "chunk_id e = 0" "logical_offset e = 0" "uncompressed_size e = 1" "decode e = Ok [97]" and "compressed_size e < u64_end"
  shows "\<exists>c. read_range_from_entries_cached [e] 1 0 1 ChunkDecodeCache_new decode = (Ok [97], c)"
  using one_entry_span [OF assms(1-3)] assms
  by (simp add: read_range_from_entries_cached_def checked_logical_end_def checked_add_def u64_end_def decoded_entry_def
      ChunkDecodeCache_new_def u64_to_usize_def usize_to_u64_def slice_def Let_def)

lemma one_byte_verify:
  assumes "chunk_id e = 0" "logical_offset e = 0" "uncompressed_size e = 1" and "sk_chunk_entries d = [e]" "ss_original_size (sk_summary d) = 1"
    and "rd 0 1 ChunkDecodeCache_new = (Ok [97], c)" and "spans_for [97] 10000 False False = [\<lparr>ts_key = k, ts_start = 0, ts_end = 1\<rparr>]"
  shows "\<exists>cv. verify_candidates [0] d (granule_lookup [one_line]) rd spans_for tb SearchOptions_default = Ok cv \<and>
     length (cv_hits cv) = 1 \<and> cv_stop_reason cv = None"
  using one_entry_span [OF assms(1-3)] assms
  apply (simp add: verify_candidates_def verify_candidate_def granule_lookup_def u64_to_usize_def u64_end_def get_def checked_add_def checked_sub_def
    SearchOptions_default_def search_limit_for_span_def get_slice_def slice_def)
  apply (simp add: ChunkDecodeCache_new_def checked_add_def u64_end_def match_granule_def)
  apply (simp add: get_slice_def slice_def usize_to_u64_def u64_end_def checked_add_def)
  done

lemma one_byte_postings:
  assumes "chunk_id e = 0" "logical_offset e = 0" "uncompressed_size e = 1" and "sk_chunk_entries d = [e]" "ss_original_size (sk_summary d) = 1"
    and "rd 0 1 ChunkDecodeCache_new = (Ok [97], c)" and "spans_for [97] 10000 False False = [\<lparr>ts_key = k, ts_start = 0, ts_end = 1\<rparr>]"
  shows "\<exists>rep. search_postings [one_line] True d SearchOptions_default rd spans_for tb [[0]] planner metrics = Ok rep \<and>
     length (sr_hits rep) = 1 \<and> \<not> sr_capped rep \<and> sr_incomplete_reason rep = None"
proof -
  obtain cv where "verify_candidates [0] d (granule_lookup [one_line]) rd spans_for tb SearchOptions_default = Ok cv"
      "length (cv_hits cv) = 1" "cv_stop_reason cv = None" using one_byte_verify [where rd = rd and spans_for = spans_for, OF assms] by blast
  moreover have "intersect_postings [[0]] (max_posting_work SearchOptions_default) = Ok [0]"
    by (simp add: intersect_postings_def usize_to_u64_def u64_end_def SearchOptions_default_def)
  moreover have "count_candidate_chunks [one_line] [0] [e] 1 = Ok 1"
    using one_entry_span [OF assms(1-3)]
    by (simp add: count_candidate_chunks_def candidate_granule_def u64_to_usize_def usize_to_u64_def u64_end_def get_def validate_granule_chunk_span_def
      checked_add_def count_chunk_spans_def)
  moreover have "max_candidate_granules SearchOptions_default = 10000" "max_search_results SearchOptions_default = 10000" 
    by (simp_all add: SearchOptions_default_def)
  ultimately show ?thesis using assms(4,5)
    by (simp add: search_postings_def usize_to_u64_def u64_end_def Let_def)
qed

lemma one_byte_search:
  assumes "chunk_id e = 0" "logical_offset e = 0" "uncompressed_size e = 1" and "sk_chunk_entries d = [e]" "ss_original_size (sk_summary d) = 1"
    and "rd 0 1 ChunkDecodeCache_new = (Ok [97], c)"
  shows "\<exists>rep. RawTokenIndex_search_impl (one_byte_index cid) d [97] SearchOptions_default rd = Ok rep \<and>
     length (sr_hits rep) = 1 \<and> \<not> sr_capped rep \<and> sr_incomplete_reason rep = None"
proof -
  have k: "unique_query_keys [97] SearchOptions_default = Ok [[97]]"
    by (simp add: unique_query_keys_def validate_query_bytes_def usize_to_u64_def u64_end_def SearchOptions_default_def
      query_tokens.simps skip_bytes.simps is_token_byte_def Let_def insert_query_key_def slice_def to_ascii_lowercase_def is_ascii_uppercase_def)
  have l: "lookup_tokens (one_byte_index cid) [[97]] [] 0 = Ok (Inr ([0], 1))"
    by (simp add: one_byte_index_def term_index_for_key_def term_of_key_def checked_add_def u64_end_def)
  have c: "check_raw_posting_budget [0] [[0]] [[0]] SearchOptions_default = Ok ()"
    by (simp add: check_raw_posting_budget_def usize_to_u64_def u64_end_def checked_add_def SearchOptions_default_def)
  have v: "verified_spans [97] [[97]] 10000 False False = [\<lparr>ts_key = [97], ts_start = 0, ts_end = 1\<rparr>]"
    by (simp add: verified_spans_def next_generation_def u64_end_def verified_line_spans_def line_span_loop.simps skip_bytes.simps
      is_token_byte_def match_token_def slice_def Let_def)
  obtain rep where "search_postings [one_line] True d SearchOptions_default rd
             (\<lambda>decoded limit left_continues right_continues. verified_spans decoded [[97]] limit left_continues right_continues)
             True [[0]] ((PlannerDecision_new [[97]])\<lparr>pd_selected_keys := [[97]]\<rparr>)
             ((empty_search_metrics [97] ''token'' (index_size_bytes [one_line] (rt_terms (one_byte_index cid)) [[0]]) 1)\<lparr>sm_term_lookups := 1, sm_posting_bytes_read := 1\<rparr>) = Ok rep"
      "length (sr_hits rep) = 1" "\<not> sr_capped rep" "sr_incomplete_reason rep = None"
    using one_byte_postings [where rd = rd and d = d and spans_for = "\<lambda>decoded limit l r. verified_spans decoded [[97]] limit l r", OF assms v] by blast
  moreover have "rt_granules (one_byte_index cid) = [one_line]" "rt_postings (one_byte_index cid) = [[0]]" "rt_encoded_postings (one_byte_index cid) = [[0]]"
     "rt_source_size_bytes (one_byte_index cid) = 1" "rt_complete (one_byte_index cid)" "te_key (rt_terms (one_byte_index cid) ! 0) = [97]"
    by (simp_all add: one_byte_index_def term_of_key_def)
  ultimately show ?thesis using k l c 
    by (simp add: RawTokenIndex_search_impl_def usize_to_u64_def u64_end_def Let_def)
qed








text \<open>The same search through a reader of the container.\<close>

lemma one_byte_reads:
  assumes "sk_chunk_entries (qr_details r) = [e]" "chunk_id e = 0" "logical_offset e = 0" "uncompressed_size e = 1"
    "QztReader_decode_entry toy_ext r e = Ok [97]" "ss_original_size (sk_summary (qr_details r)) = 1" "compressed_size e < u64_end"
  obtains c where "QztReader_read_range_cached toy_ext r 0 1 ChunkDecodeCache_new = (Ok [97], c)"
  using one_byte_read [where decode = "QztReader_decode_entry toy_ext r", OF assms(2-5,7)] assms(1,6) by (auto simp: QztReader_read_range_cached_def)

theorem posting_list_roundtrip_witness:
  "(1 :: nat) < u64_end \<and> length [3 :: u8] < u64_end \<and> encode_delta_varint_u64 [3] = Ok [3] \<and>
   decode_delta_varint_u64_with_limit [3] 1 = Ok [3]"
  using posting_list_roundtrip [of 1 "[3]" "[3]"]
  by (simp add: u64_end_def encode_delta_varint_u64_def encoded_delta_varint_size_def posting_delta_def write_varuint.simps
      varuint_len.simps usize_to_u64_def u64_to_usize_def checked_add_def checked_mul_def)

theorem token_index_exact_witness:
  "\<exists>bs r ix data. RawTokenIndex_build_from_container toy_ext bs TokenIndexBuildOptions_default = Ok ix \<and> QztReader_open toy_ext bs = Ok r \<and>
     length bs < 2 ^ 63 \<and> QztReader_export_all toy_ext r = Ok data \<and> data = [97] \<and> length (rt_granules ix) = length (text_lines data) \<and>
     posting_list_for_key ix [97] =
        (let ids = filter (\<lambda>i. [97] \<in> token_keys (text_lines data ! i)) [0 ..< length (text_lines data)] in
         if ids = [] then None else Some ids)"
proof (rule one_byte_container)
  fix bs r e
  assume c: "QztReader_open toy_ext bs = Ok r" "length bs < 2 ^ 46" "QztReader_export_all toy_ext r = Ok [97]"
    "sk_chunk_entries (qr_details r) = [e]" "chunk_id e = 0" "logical_offset e = 0" "uncompressed_size e = 1"
    "QztReader_decode_entry toy_ext r e = Ok [97]" "ss_original_size (sk_summary (qr_details r)) = 1" "compressed_size e < u64_end"
  have l: "length bs < isize_end" "length bs < 2 ^ 63" using c(2) by (simp_all add: isize_end_def)
  note b = one_byte_index_built [OF c(1) l(1) c(4-9)]
  let ?ix = "one_byte_index (ss_container_id (sk_summary (qr_details r)))"
  have "length (rt_granules ?ix) = length (text_lines [97])"
    and "posting_list_for_key ?ix [97] =
        (let ids = filter (\<lambda>i. [97] \<in> token_keys (text_lines [97] ! i)) [0 ..< length (text_lines [97])] in
         if ids = [] then None else Some ids)"
    using token_index_exact [OF b c(1) l(2)] c(3) by auto
  then show ?thesis using b c(1,3) l(2) by blast
qed

theorem token_search_exact_witness:
  "\<exists>bs r ix report hits. RawTokenIndex_build_from_container toy_ext bs TokenIndexBuildOptions_default = Ok ix \<and> QztReader_open toy_ext bs = Ok r \<and>
     length bs < 2 ^ 63 \<and> RawTokenIndex_search toy_ext ix r [97] SearchOptions_default = Ok report \<and> sr_incomplete_reason report = None \<and>
     length (sr_hits report) = 1 \<and> hit_span ` set hits = {(s, e). token_hit [97] (token_keys [97]) s e} \<and> sr_hits report = hits"
proof (rule one_byte_container)
  fix bs r e
  assume c: "QztReader_open toy_ext bs = Ok r" "length bs < 2 ^ 46" "QztReader_export_all toy_ext r = Ok [97]"
    "sk_chunk_entries (qr_details r) = [e]" "chunk_id e = 0" "logical_offset e = 0" "uncompressed_size e = 1"
    "QztReader_decode_entry toy_ext r e = Ok [97]" "ss_original_size (sk_summary (qr_details r)) = 1" "compressed_size e < u64_end"
  have l: "length bs < isize_end" "length bs < 2 ^ 63" using c(2) by (simp_all add: isize_end_def)
  note b = one_byte_index_built [OF c(1) l(1) c(4-9)]
  obtain ch where "QztReader_read_range_cached toy_ext r 0 1 ChunkDecodeCache_new = (Ok [97], ch)" by (rule one_byte_reads [OF c(4-10)])
  from one_byte_search [where d = "qr_details r" and rd = "QztReader_read_range_cached toy_ext r", OF c(5-7,4,9) this]
  obtain rep where s: "RawTokenIndex_search toy_ext (one_byte_index (ss_container_id (sk_summary (qr_details r)))) r [97] SearchOptions_default = Ok rep"
      "sr_incomplete_reason rep = None" "length (sr_hits rep) = 1" "\<not> sr_capped rep"
    unfolding RawTokenIndex_search_def by blast
  show ?thesis using token_search_exact [OF b c(1) l(2) s(1,2)] b c(1,3) l(2) s by auto
qed


end
