(* ===== verification/Sidecar_Genuine.thy ===== *)
theory Sidecar_Genuine
  imports Sidecar_Reader Search_Properties
begin

text \<open>
  Verified search (src/src/sidecar.rs, src/src/search.rs): whatever an index says, a hit is a match
  in the text. Nothing is assumed of the index here, so the results hold for sidecars that
  were forged or belong to another text: they may hide matches, but cannot invent one.
\<close>

section \<open>Matches in a part of the text\<close>

text \<open>A part of the text, and whether a token goes on outside it on either side.\<close>

definition goes_on_left :: "bytes \<Rightarrow> nat \<Rightarrow> bool" where
  "goes_on_left data off \<longleftrightarrow> 0 < off \<and> is_token_byte (data ! (off - 1))"

definition goes_on_right :: "bytes \<Rightarrow> nat \<Rightarrow> nat \<Rightarrow> bool" where
  "goes_on_right data off len \<longleftrightarrow> 0 < len \<and> is_token_byte (data ! (off + len - 1)) \<and> off + len < length data \<and>
     is_token_byte (data ! (off + len))"

lemma part_token:
  assumes "off + len \<le> length data" and "token_at (slice data off (off + len)) a b"
    and "a = 0 \<Longrightarrow> \<not> goes_on_left data off" and "b = len \<Longrightarrow> \<not> goes_on_right data off len"
  shows "token_at data (off + a) (off + b)"
proof -
  have n: "slice data off (off + len) ! i = data ! (off + i)" if "i < len" for i
    using nth_slice [of i "off + len" off data] that assms(1) by simp
  have t: "a < b" "b \<le> len" "\<And>i. a \<le> i \<Longrightarrow> i < b \<Longrightarrow> is_token_byte (data ! (off + i))"
      "0 < a \<Longrightarrow> \<not> is_token_byte (data ! (off + (a - 1)))" "b < len \<Longrightarrow> \<not> is_token_byte (data ! (off + b))"
    using assms(1,2) n by (auto simp: token_at_def)
  have "is_token_byte (data ! i)" if "off + a \<le> i" "i < off + b" for i
    using t(3) [of "i - off"] that by simp
  moreover have "\<not> is_token_byte (data ! (off + a - 1))" if "0 < off + a"
    using that assms(3) t(4) by (cases "a = 0") (auto simp: goes_on_left_def)
  moreover have "\<not> is_token_byte (data ! (off + b))" if "off + b < length data"
  proof (cases "b = len")
    case True
    then have "is_token_byte (data ! (off + len - 1))" using t(1) t(3) [of "len - 1"] by simp
    then show ?thesis using assms(4) True that t(1) by (auto simp: goes_on_right_def)
  qed (use t(2,5) in simp)
  ultimately show ?thesis using t(1,2) assms(1) by (auto simp: token_at_def)
qed

lemma spans_from_iff:
  "sp \<in> set (spans_from ls start len ks l r) \<longleftrightarrow> (\<exists>i < length ls. let o' = start + line_offset ls i in
     sp \<in> set (token_spans ks o' (line_hits (ls ! i) ks (o' = 0 \<and> l) (o' + length (ls ! i) = len \<and> r))))"
proof (induction ls arbitrary: start)
  case (Cons line rest)
  have o: "line_offset (line # rest) (Suc i) = length line + line_offset rest i" for i by (simp add: line_offset_def)
  show ?case
    unfolding spans_from.simps set_append Un_iff Cons.IH length_Cons Ex_less_Suc2
    by (simp add: o Let_def line_offset_def add.assoc)
qed simp

lemma line_hits_clipped:
  "(i, s, e) \<in> set (line_hits line ks l r) \<longleftrightarrow>
     (i, s, e) \<in> set (line_hits line ks False False) \<and> \<not> (s = 0 \<and> l) \<and> \<not> (e = length line \<and> r)"
  by (auto simp: line_hits_def run_hits_def split: option.splits)

lemma part_same_line:
  assumes "off + len \<le> length data" and "same_line (slice data off (off + len)) p p'" and "p \<le> len" and "p' \<le> len"
  shows "same_line data (off + p) (off + p')"
  using assms(2-4) slice_slice [of p' len data off p] slice_slice [of p len data off p']
  by (cases "p \<le> p'") (simp_all add: same_line_def)

text \<open>A span that the token matcher reports in a part of the text is a hit in the whole text.\<close>

lemma token_span_genuine:
  assumes len: "off + len \<le> length data" and ks: "distinct (map lower ks)"
    and sp: "sp \<in> set (verified_spans (slice data off (off + len)) ks limit (goes_on_left data off) (goes_on_right data off len))"
  shows "token_hit data (lower ` set ks) (off + ts_start sp) (off + ts_end sp)" and "ts_start sp \<le> ts_end sp"
proof -
  define G where "G = slice data off (off + len)"
  have G: "length G = len" using len by (simp add: G_def)
  obtain i where i: "i < length (text_lines G)" and s: "let o' = line_offset (text_lines G) i in
      sp \<in> set (token_spans ks o' (line_hits (text_lines G ! i) ks (o' = 0 \<and> goes_on_left data off)
        (o' + length (text_lines G ! i) = len \<and> goes_on_right data off len)))"
  proof -
    have "sp \<in> set (spans_from (text_lines G) 0 len ks (goes_on_left data off) (goes_on_right data off len))"
      using sp [unfolded verified_spans_take G_def [symmetric] text_lines_def [symmetric] G] by (rule in_set_takeD)
    then show thesis using that unfolding spans_from_iff add_0 by blast
  qed
  define o' where "o' = line_offset (text_lines G) i"
  let ?hits = "line_hits (text_lines G ! i) ks (o' = 0 \<and> goes_on_left data off) (o' + length (text_lines G ! i) = len \<and> goes_on_right data off len)"
  have tok: "token_at data (off + (o' + a)) (off + (o' + b)) \<and> lower (slice data (off + (o' + a)) (off + (o' + b))) = lower (ks ! k) \<and>
      in_line (text_lines G) i (o' + a) \<and> o' + a \<le> len \<and> k < length ks" if h: "(k, a, b) \<in> set ?hits" for k a b
  proof -
    note h = iffD1 [OF line_hits_clipped h]
    have t: "token_at (text_lines G ! i) a b" "k < length ks" "lower (ks ! k) = lower (slice (text_lines G ! i) a b)"
      using h line_hits_iff [OF ks] by auto
    have le: "o' + length (text_lines G ! i) \<le> len" "a < b" "b \<le> length (text_lines G ! i)"
      using text_line_facts(6) [OF i] G t(1) by (auto simp: o'_def token_at_def)
    have tG: "token_at G (o' + a) (o' + b)" using line_token [OF i] t(1) by (simp add: o'_def)
    have "token_at data (off + (o' + a)) (off + (o' + b))"
      using part_token [OF len tG [unfolded G_def]] h le by auto
    moreover have "slice (text_lines G ! i) a b = slice data (off + (o' + a)) (off + (o' + b))"
      using line_slice [OF i le(3), of a] slice_slice [of "o' + b" len data off "o' + a"] le by (simp add: o'_def G_def)
    ultimately show ?thesis using t i le by (simp add: in_line_def o'_def)
  qed
  have c: "covers ks ?hits" and "\<exists>k a b. (k, a, b) \<in> set ?hits \<and> ts_start sp = o' + a \<and> ts_end sp = o' + b"
    using s by (auto simp: Let_def o'_def token_spans_def split: if_splits)
  then obtain k a b where h: "(k, a, b) \<in> set ?hits" "ts_start sp = o' + a" "ts_end sp = o' + b" by blast
  note t = tok [OF h(1)]
  have "\<exists>s' e'. token_at data s' e' \<and> lower (slice data s' e') = q \<and> same_line data (off + (o' + a)) s'" if q: "q \<in> lower ` set ks" for q
  proof -
    obtain j where j: "j < length ks" "q = lower (ks ! j)" using q by (auto simp: in_set_conv_nth)
    then obtain a' b' where h': "(j, a', b') \<in> set ?hits" using c by (force simp: covers_def)
    note t' = tok [OF h']
    have "same_line G (o' + a) (o' + a')" using same_line_iff [of G i "o' + a" i "o' + a'"] t t' by simp
    then have "same_line data (off + (o' + a)) (off + (o' + a'))" using part_same_line [OF len] t t' by (simp add: G_def)
    then show ?thesis using t' j(2) by blast
  qed
  moreover have "lower (slice data (off + (o' + a)) (off + (o' + b))) \<in> lower ` set ks" using t by auto
  ultimately show "token_hit data (lower ` set ks) (off + ts_start sp) (off + ts_end sp)" using t by (simp add: token_hit_def h)
  show "ts_start sp \<le> ts_end sp" using t by (simp add: h token_at_def)
qed

lemma substring_span_genuine:
  assumes len: "off + len \<le> length data" and sp: "sp \<in> set (substring_spans (slice data off (off + len)) query limit)"
  shows "occurs_at data query (off + ts_start sp)" and "ts_end sp = ts_start sp + length query"
proof -
  have "sp \<in> set (substring_matches query (slice data off (off + len)))"
    using sp by (metis substring_spans_take in_set_takeD)
  then have o: "occurs_at (slice data off (off + len)) query (ts_start sp)" "ts_end sp = ts_start sp + length query"
    by (auto simp: substring_matches_def split: if_splits)
  then show "ts_end sp = ts_start sp + length query" by simp
  show "occurs_at data query (off + ts_start sp)"
    using o(1) slice_slice [of "ts_start sp + length query" len data off "ts_start sp"] len by (simp add: occurs_at_def add.assoc)
qed

section \<open>Verification of candidates is sound\<close>

text \<open>A matcher whose spans in any part of the text, told what goes on outside, satisfy \<open>P\<close> in the text.\<close>

definition sound_spans :: "bytes \<Rightarrow> span_matcher \<Rightarrow> bool \<Rightarrow> (nat \<Rightarrow> nat \<Rightarrow> bool) \<Rightarrow> bool" where
  "sound_spans data spans_for tb P \<longleftrightarrow> (\<forall>off len limit sp. off + len \<le> length data \<longrightarrow>
     sp \<in> set (spans_for (slice data off (off + len)) limit (tb \<and> goes_on_left data off) (tb \<and> goes_on_right data off len)) \<longrightarrow>
     ts_start sp \<le> ts_end sp \<and> P (off + ts_start sp) (off + ts_end sp))"

definition sound_hits :: "(nat \<Rightarrow> nat \<Rightarrow> bool) \<Rightarrow> SearchHit list \<Rightarrow> bool" where
  "sound_hits P hits \<longleftrightarrow> (\<forall>h \<in> set hits. P (sh_logical_offset h) (sh_logical_offset h + sh_byte_length h))"

lemma token_spans_sound:
  "distinct (map lower ks) \<Longrightarrow> sound_spans data (\<lambda>decoded limit l r. verified_spans decoded ks limit l r) True (token_hit data (lower ` set ks))"
  using token_span_genuine by (auto simp: sound_spans_def)

lemma substring_spans_sound:
  "sound_spans data (\<lambda>decoded limit l r. substring_spans decoded query limit) False (\<lambda>s e. occurs_at data query s \<and> e = s + length query)"
  using substring_span_genuine by (fastforce simp: sound_spans_def)

lemma pushed_sound:
  assumes "push_hits options g spans hits = Ok (hits', full)" and "sound_hits P hits"
    and "\<And>sp. sp \<in> set spans \<Longrightarrow> ts_start sp \<le> ts_end sp \<and> P (sg_logical_offset g + ts_start sp) (sg_logical_offset g + ts_end sp)"
  shows "sound_hits P hits'"
proof -
  obtain n where "hits' = hits @ map (hit_at g) (take n spans)" using push_hits_Ok [OF assms(1)] by blast
  then show ?thesis using assms(2,3) by (auto simp: sound_hits_def hit_at_def dest: in_set_takeD)
qed

context chunk_source
begin

abbreviation cached_read :: range_read where
  "cached_read \<equiv> \<lambda>offset len c. read_range_from_entries_cached entries total offset len c decode"

lemma probe_right_sound:
  assumes "probe_right entries cached_read options position n c = Ok (None, right, n', c')" and "cache_valid decode entries c"
  shows "right \<longleftrightarrow> position < total \<and> is_token_byte (restored_bytes decode entries ! position)" and "cache_valid decode entries c'"
proof -
  obtain r c1 where rd: "cached_read position 1 c = (r, c1)" by fastforce
  then obtain bs where b: "r = Ok bs" "right = (bs \<noteq> [] \<and> is_token_byte (hd bs))" "c1 = c'"
    using assms(1) by (auto simp: probe_right_def result_simps split: if_splits option.splits)
  note ok = cached_read_Ok [OF rd [unfolded b(1)] assms(2)]
  have "bs = [restored_bytes decode entries ! position]"
    using ok(1,2) restored_total by (simp add: slice_def take_Suc_conv_app_nth hd_drop_conv_nth take_Suc drop_eq_Nil2)
  then show "right \<longleftrightarrow> position < total \<and> is_token_byte (restored_bytes decode entries ! position)" "cache_valid decode entries c'"
    using b ok(1,3) by auto
qed

lemma match_granule_sound:
  fixes g :: SearchGranule
  defines "ge \<equiv> sg_logical_offset g + sg_byte_length g"
  assumes d: "sk_chunk_entries details = entries" "ss_original_size (sk_summary details) = total"
    and st: "cache_valid decode entries (vs_cache st)" "sound_hits P (vs_hits st)"
    and spans: "sound_spans (restored_bytes decode entries) spans_for tb P"
    and rs: "rs = (if tb then sg_logical_offset g - 1 else sg_logical_offset g)"
    and run: "match_granule details cached_read spans_for tb options st g ge rs (ge - rs) n = Ok (st', stop)"
  shows "sound_hits P (vs_hits st')" and "stop = None \<Longrightarrow> cache_valid decode entries (vs_cache st')"
proof -
  let ?data = "restored_bytes decode entries" and ?off = "sg_logical_offset g" and ?len = "sg_byte_length g"
  obtain r c where rd: "cached_read rs (ge - rs) (vs_cache st) = (r, c)" by fastforce
  then obtain decoded where "r = Ok decoded" using run by (auto simp: match_granule_def result_simps)
  note rd = rd [unfolded this]
  have le: "rs \<le> ?off" "?off - rs \<le> 1" using rs by auto
  note ok = cached_read_Ok [OF rd st(1)]
  have ge: "rs + (ge - rs) = ge" "ge \<le> total" "?off + ?len = ge" using ok(1) le by (auto simp: ge_def)
  have dec: "decoded = slice ?data rs ?off @ slice ?data ?off ge"
  proof -
    have "decoded = slice ?data rs ge" using ok(2) unfolding ge(1) .
    moreover have "?off \<le> ge" using ge(3) by simp
    ultimately show ?thesis using slice_append_self [of rs ?off ge ?data] le(1) by simp
  qed
  have gl: "?off + ?len \<le> length ?data" using ge(2) restored_total by (simp add: ge_def)
  have offle: "?off \<le> length ?data" using ge(2,3) restored_total by simp
  then have n: "length (slice ?data rs ?off) = ?off - rs" by simp
  have orig: "get_slice decoded (?off - rs) (length decoded) = Some (slice ?data ?off ge)"
  proof -
    have "drop (?off - rs) decoded = slice ?data ?off ge" using n unfolding dec by simp
    moreover have "?off - rs \<le> length decoded" using n by (simp add: dec)
    moreover have "slice decoded (?off - rs) (length decoded) = drop (?off - rs) decoded" by (simp add: slice_def)
    ultimately show ?thesis by (simp only: get_slice_def order.refl if_True simp_thms)
  qed
  have left: "(?off - rs > 0 \<and> is_token_byte (decoded ! (?off - rs - 1))) \<longleftrightarrow> tb \<and> goes_on_left ?data ?off"
  proof (cases "?off - rs > 0")
    case True
    then have one: "?off - rs = 1" "tb" "rs = ?off - 1" "0 < ?off" using le rs by (auto split: if_splits)
    have "decoded ! 0 = slice ?data rs ?off ! 0" unfolding dec using n one by (simp add: nth_append)
    also have "\<dots> = ?data ! (?off - 1)" using nth_slice [of 0 ?off rs ?data] one offle by simp
    finally show ?thesis using one by (simp add: goes_on_left_def)
  next
    case False
    then show ?thesis using rs by (auto simp: goes_on_left_def split: if_splits)
  qed
  let ?cond = "tb \<and> slice ?data ?off ge \<noteq> [] \<and> is_token_byte (last (slice ?data ?off ge)) \<and> ge < total"
  have cond: "?cond \<longleftrightarrow> tb \<and> 0 < ?len \<and> is_token_byte (?data ! (?off + ?len - 1)) \<and> ?off + ?len < total"
  proof -
    have l: "length (slice ?data ?off ge) = ?len" using gl by (simp add: ge_def)
    then have ne: "slice ?data ?off ge \<noteq> [] \<longleftrightarrow> 0 < ?len" by (metis length_greater_0_conv)
    then have "0 < ?len \<Longrightarrow> last (slice ?data ?off ge) = ?data ! (?off + ?len - 1)"
      using nth_slice [of "?len - 1" ge ?off ?data] gl l by (simp add: last_conv_nth ge_def)
    then show ?thesis unfolding ne by (auto simp: ge_def)
  qed
  define pr where "pr = (if ?cond then probe_right entries cached_read options ge n c else Ok (None, False, n, c))"
  have small: "u64_to_usize (?off - rs) = Ok (?off - rs)" using le(2) by (simp add: u64_to_usize_def u64_end_def)
  have eq: "match_granule details cached_read spans_for tb options st g ge rs (ge - rs) n =
      rbind pr (\<lambda>(stop, right, n1, c1). case stop of
         Some reason \<Rightarrow> Ok (\<lparr>vs_hits = vs_hits st, vs_decoded_bytes = n1, vs_cache = c1\<rparr>, Some reason)
       | None \<Rightarrow>
           rbind (usize_to_u64 (length (vs_hits st))) (\<lambda>n.
           rbind (push_hits options g (spans_for (slice ?data ?off ge) (max_search_results options - n) (tb \<and> goes_on_left ?data ?off) right) (vs_hits st))
             (\<lambda>(hits, full). Ok (\<lparr>vs_hits = hits, vs_decoded_bytes = n1, vs_cache = c1\<rparr>,
               if full then Some ''max_search_results'' else None))))"
    unfolding match_granule_def rd prod.case rbind.simps small orig ok_or_Some left d pr_def Let_def by (rule refl)
  obtain stop1 right n1 c1 where pr1: "pr = Ok (stop1, right, n1, c1)" using run unfolding eq by (auto simp: result_simps)
  have "sound_hits P (vs_hits st') \<and> (stop = None \<longrightarrow> cache_valid decode entries (vs_cache st'))"
  proof (cases stop1)
    case None
    obtain m hits full where m: "push_hits options g (spans_for (slice ?data ?off ge) m (tb \<and> goes_on_left ?data ?off) right) (vs_hits st) = Ok (hits, full)"
        "vs_hits st' = hits" "vs_cache st' = c1"
      using run unfolding eq pr1 None by (auto simp: result_simps)
    have c1: "right \<longleftrightarrow> tb \<and> goes_on_right ?data ?off ?len" "cache_valid decode entries c1"
    proof -
      have "(right \<longleftrightarrow> tb \<and> goes_on_right ?data ?off ?len) \<and> cache_valid decode entries c1"
      proof (cases ?cond)
        case True
        then have "probe_right entries cached_read options ge n c = Ok (None, right, n1, c1)" using pr1 None by (simp add: pr_def)
        from probe_right_sound [OF this ok(3)] show ?thesis using True cond restored_total by (auto simp: goes_on_right_def ge_def)
      next
        case False
        then have "\<not> right" "c1 = c" using pr1 None unfolding pr_def by auto
        then show ?thesis using False cond ok(3) restored_total by (auto simp: goes_on_right_def)
      qed
      then show "right \<longleftrightarrow> tb \<and> goes_on_right ?data ?off ?len" "cache_valid decode entries c1" by blast+
    qed
    have "sound_hits P hits"
      by (rule pushed_sound [OF m(1) st(2)])
        (use spans gl in \<open>simp add: sound_spans_def c1(1) ge_def\<close>)
    then show ?thesis using m c1(2) by simp
  next
    case (Some reason)
    then show ?thesis using run st(2) unfolding eq pr1 Some by auto
  qed
  then show "sound_hits P (vs_hits st')" "stop = None \<Longrightarrow> cache_valid decode entries (vs_cache st')" by blast+
qed

lemma verify_candidate_sound:
  assumes d: "sk_chunk_entries details = entries" "ss_original_size (sk_summary details) = total"
    and st: "cache_valid decode entries (vs_cache st)" "sound_hits P (vs_hits st)"
    and spans: "sound_spans (restored_bytes decode entries) spans_for tb P"
    and run: "verify_candidate details granule_at cached_read spans_for tb options st i = Ok (st', stop)"
  shows "sound_hits P (vs_hits st')" and "stop = None \<Longrightarrow> cache_valid decode entries (vs_cache st')"
proof -
  obtain g where g: "granule_at i = Ok g" using run by (auto simp: verify_candidate_def result_simps)
  let ?ge = "sg_logical_offset g + sg_byte_length g" and ?rs = "if tb then sg_logical_offset g - 1 else sg_logical_offset g"
  have "st' = st \<and> stop \<noteq> None \<or>
      (\<exists>n. match_granule details cached_read spans_for tb options st g ?ge ?rs (?ge - ?rs) n = Ok (st', stop))"
    using run unfolding verify_candidate_def Let_def g rbind.simps
    by (auto simp: result_simps width_simps split: if_splits option.splits)
  then have "sound_hits P (vs_hits st') \<and> (stop = None \<longrightarrow> cache_valid decode entries (vs_cache st'))"
    using st match_granule_sound [OF d st spans refl] by blast
  then show "sound_hits P (vs_hits st')" "stop = None \<Longrightarrow> cache_valid decode entries (vs_cache st')" by blast+
qed

lemma verify_loop_sound:
  assumes d: "sk_chunk_entries details = entries" "ss_original_size (sk_summary details) = total"
    and spans: "sound_spans (restored_bytes decode entries) spans_for tb P"
    and st: "cache_valid decode entries (vs_cache st)" "sound_hits P (vs_hits st)"
    and run: "verify_loop (verify_candidate details granule_at cached_read spans_for tb options) st cands = Ok (st', stop)"
  shows "sound_hits P (vs_hits st')"
  using st run
proof (induction cands arbitrary: st)
  case (Cons i cands)
  obtain st1 stop1 where s1: "verify_candidate details granule_at cached_read spans_for tb options st i = Ok (st1, stop1)"
      "(case stop1 of Some reason \<Rightarrow> Ok (st1, Some reason) | None \<Rightarrow>
         verify_loop (verify_candidate details granule_at cached_read spans_for tb options) st1 cands) = Ok (st', stop)"
    using Cons.prems(3) by (auto simp: result_simps)
  note step = verify_candidate_sound [OF d Cons.prems(1,2) spans s1(1)]
  show ?case using Cons.IH [of st1] step s1(2) by (cases stop1) auto
qed simp

lemma verify_candidates_sound:
  assumes "sk_chunk_entries details = entries" and "ss_original_size (sk_summary details) = total"
    and "sound_spans (restored_bytes decode entries) spans_for tb P"
    and "verify_candidates cands details granule_at cached_read spans_for tb options = Ok v"
  shows "sound_hits P (cv_hits v)"
proof -
  obtain st stop where v: "verify_loop (verify_candidate details granule_at cached_read spans_for tb options)
      \<lparr>vs_hits = [], vs_decoded_bytes = 0, vs_cache = ChunkDecodeCache_new\<rparr> cands = Ok (st, stop)" "cv_hits v = vs_hits st"
    using assms(4) by (auto simp: verify_candidates_def result_simps)
  show ?thesis unfolding v(2) by (rule verify_loop_sound [OF assms(1-3) _ _ v(1)]) (simp_all add: sound_hits_def)
qed

lemma search_postings_sound:
  assumes "sk_chunk_entries details = entries" and "ss_original_size (sk_summary details) = total"
    and "sound_spans (restored_bytes decode entries) spans_for tb P"
    and "search_postings granules complete details options cached_read spans_for tb refs planner metrics = Ok report"
  shows "sound_hits P (sr_hits report)"
proof -
  have "sr_hits report = [] \<or> (\<exists>cands v. verify_candidates cands details (granule_lookup granules) cached_read spans_for tb options = Ok v \<and>
      sr_hits report = cv_hits v)"
  proof -
    obtain cands n chunks where c: "intersect_postings refs (max_posting_work options) = Ok cands" "usize_to_u64 (length cands) = Ok n"
        "count_candidate_chunks granules cands (sk_chunk_entries details) (ss_original_size (sk_summary details)) = Ok chunks"
      using assms(4) by (auto simp: search_postings_def rbind_Ok_iff)
    note run = assms(4) [unfolded search_postings_def c rbind.simps Let_def]
    show ?thesis
    proof (cases "n > max_candidate_granules options \<or> max_search_results options = 0")
      case True
      then show ?thesis using run by (auto simp: early_exit_report_def split: if_splits)
    next
      case False
      then obtain v where "verify_candidates cands details (granule_lookup granules) cached_read spans_for tb options = Ok v"
          "sr_hits report = cv_hits v" using run by (auto simp: rbind_Ok_iff)
      then show ?thesis by blast
    qed
  qed
  then show ?thesis using verify_candidates_sound [OF assms(1-3)] by (auto simp: sound_hits_def)
qed

lemma search_fetched_sound:
  assumes "sk_chunk_entries details = entries" and "ss_original_size (sk_summary details) = total"
    and "sound_spans (restored_bytes decode entries) spans_for tb P"
    and "search_fetched fs details options cached_read spans_for tb indexes planner metrics = Ok report"
  shows "sound_hits P (sr_hits report)"
proof -
  have "sr_hits report = [] \<or> (\<exists>cands at v. verify_candidates cands details at cached_read spans_for tb options = Ok v \<and>
      sr_hits report = cv_hits v)"
  proof -
    have budget: "\<not> sm_posting_bytes_read metrics > min (sl_max_posting_bytes_per_query (fs_limits fs)) (max_posting_bytes_per_query options)"
      using assms(4) by (auto simp: search_fetched_def)
    note run = assms(4) [unfolded search_fetched_def if_not_P [OF budget] Let_def]
    obtain ids where ids: "rfold (\<lambda>total index. ok_or (checked_add total (te_granule_frequency (fs_terms fs ! index))) ResourceLimitExceeded) 0 indexes = Ok ids"
        "\<not> ids > min (sl_max_decoded_posting_ids (fs_limits fs)) (max_posting_ids_per_query options)"
      using run by (auto simp: rbind_Ok_iff split: if_splits)
    note run = run [unfolded ids(1) rbind.simps if_not_P [OF ids(2)]]
    obtain lists k cands n where c: "rfold (fetch_step fs) ([], min (sl_max_decoded_posting_ids (fs_limits fs)) (max_posting_ids_per_query options)) indexes = Ok (lists, k)"
        "intersect_postings lists (max_posting_work options) = Ok cands" "usize_to_u64 (length cands) = Ok n"
      using run by (auto simp: rbind_Ok_iff)
    note run = run [unfolded c rbind.simps prod.case]
    show ?thesis
    proof (cases "n > max_candidate_granules options \<or> max_search_results options = 0")
      case True
      then show ?thesis using run by (auto simp: early_exit_report_def)
    next
      case False
      then obtain at v where "verify_candidates cands details at cached_read spans_for tb options = Ok v"
          "sr_hits report = cv_hits v" using run by (auto simp: rbind_Ok_iff)
      then show ?thesis by blast
    qed
  qed
  then show ?thesis using verify_candidates_sound [OF assms(1-3)] by (auto simp: sound_hits_def)
qed

end

section \<open>Searches report no false hit\<close>

definition genuine_hit :: "bytes \<Rightarrow> bytes \<Rightarrow> bool \<Rightarrow> nat \<Rightarrow> nat \<Rightarrow> bool" where
  "genuine_hit data query is_ngram s e \<longleftrightarrow>
     (if is_ngram then occurs_at data query s \<and> e = s + length query else token_hit data (token_keys query) s e)"

lemma query_spans_sound:
  assumes "unique_query_keys query so = Ok ks"
  shows "sound_spans data (\<lambda>decoded limit l r. verified_spans decoded ks limit l r) True (genuine_hit data query False)"
proof -
  note k = unique_query_keys_Ok [OF assms]
  have "lower ` set ks = token_keys query" using k(1,3) by (metis set_map)
  then show ?thesis using token_spans_sound [OF k(2), of data] by (simp add: genuine_hit_def [abs_def])
qed

context chunk_source
begin

lemma token_search_sound:
  assumes "sk_chunk_entries details = entries" and "ss_original_size (sk_summary details) = total"
    and "RawTokenIndex_search_impl ix details query so cached_read = Ok report"
  shows "sound_hits (genuine_hit (restored_bytes decode entries) query False) (sr_hits report)"
proof -
  obtain ks n where k: "unique_query_keys query so = Ok ks" "usize_to_u64 (length ks) = Ok n"
    using assms(3) by (auto simp: RawTokenIndex_search_impl_def rbind_Ok_iff Let_def)
  note run = assms(3) [unfolded RawTokenIndex_search_impl_def k rbind.simps Let_def]
  show ?thesis
  proof (cases "ks = []")
    case True
    then show ?thesis using run by (auto simp: early_exit_report_def sound_hits_def)
  next
    case False
    then obtain found where f: "lookup_tokens ix ks [] 0 = Ok found" using run by (auto simp: rbind_Ok_iff)
    note run = run [unfolded f rbind.simps if_not_P [OF False]]
    show ?thesis
    proof (cases found)
      case (Inl x)
      then show ?thesis using run by (auto simp: early_exit_report_def sound_hits_def split: prod.splits)
    next
      case (Inr x)
      then obtain refs planner metrics where "search_postings (rt_granules ix) (rt_complete ix) details so cached_read
          (\<lambda>decoded limit l r. verified_spans decoded ks limit l r) True refs planner metrics = Ok report"
        using run by (auto simp: rbind_Ok_iff split: prod.splits)
      then show ?thesis by (rule search_postings_sound [OF assms(1,2) query_spans_sound [OF k(1)]])
    qed
  qed
qed

lemma ngram_search_sound:
  assumes "sk_chunk_entries details = entries" and "ss_original_size (sk_summary details) = total"
    and "RawNgramIndex_search_impl ix details query so cached_read = Ok report"
  shows "sound_hits (genuine_hit (restored_bytes decode entries) query True) (sr_hits report)"
proof -
  obtain ks n where k: "ngram_keys_for_query query (nd_n (rn_declaration ix)) so = Ok ks" "usize_to_u64 (length ks) = Ok n"
    using assms(3) by (auto simp: RawNgramIndex_search_impl_def rbind_Ok_iff Let_def)
  note run = assms(3) [unfolded RawNgramIndex_search_impl_def k rbind.simps Let_def]
  show ?thesis
  proof (cases "ks = [] \<or> (\<exists>key. lookup_ngrams ix ks [] = Inl key)")
    case True
    then show ?thesis using run by (auto simp: early_exit_report_def sound_hits_def split: if_splits)
  next
    case False
    then obtain "is" where i: "ks \<noteq> []" "lookup_ngrams ix ks [] = Inr is" by (cases "lookup_ngrams ix ks []") auto
    then obtain refs planner metrics where "search_postings (rn_granules ix) (rn_complete ix) details so cached_read
        (\<lambda>decoded limit l r. substring_spans decoded query limit) False refs planner metrics = Ok report"
      using run by (auto simp: rbind_Ok_iff)
    then show ?thesis
      using search_postings_sound [OF assms(1,2) substring_spans_sound] by (simp add: genuine_hit_def [abs_def])
  qed
qed

end

end
