(* ===== verification/Sidecar_Manifest.thy ===== *)
theory Sidecar_Manifest
  imports Sidecar_Genuine
begin

text \<open>
  The manifest of a sidecar survives encoding (src/src/sidecar.rs).
\<close>

section \<open>Parts\<close>

definition SectionRef_wf :: "SectionRef \<Rightarrow> bool" where
  "SectionRef_wf s \<longleftrightarrow> sec_offset s < u64_end \<and> sec_size s < u64_end \<and> Checksum_wf (sec_checksum s)"

definition SidecarManifest_wf :: "SidecarManifest \<Rightarrow> bool" where
  "SidecarManifest_wf m \<longleftrightarrow> length (mf_source_container_id m) = 16 \<and> Checksum_wf (mf_source_original_checksum m) \<and>
     Checksum_wf (mf_source_qzt_footer_checksum m) \<and> mf_index_type m \<in> {''token'', ''ngram''} \<and>
     (case mf_ngram_n m of None \<Rightarrow> True | Some n \<Rightarrow> n < u64_end) \<and> mf_high_df_per_million m < u32_end \<and>
     mf_index_size_bytes m < u64_end \<and> mf_source_size_bytes m < u64_end \<and> mf_format_version m = V2 \<and>
     mf_term_encoding m = CompactV2 \<and> SectionRef_wf (mf_granules m) \<and> SectionRef_wf (mf_terms m) \<and> SectionRef_wf (mf_postings m)"

lemma ok_section_ref [encodable]: "SectionRef_wf s \<Longrightarrow> is_ok (encode_value (section_ref_value s))"
  unfolding section_ref_value_def
  by (rule encode_text_map_ok [OF block_ref_keys])
     (auto simp: text_pair_def SectionRef_wf_def simp del: encode_value.simps intro: encodable, simp add: u64_end_def)

lemma section_ref_measures:
  assumes "SectionRef_wf s"
  shows "texts_valid (section_ref_value s)" "nesting (section_ref_value s) = 2"
    "cbor_items (section_ref_value s) = 11" "cbor_alloc (section_ref_value s) = 107"
  using assms checksum_measures [of "sec_checksum s"]
  by (simp_all add: section_ref_value_def text_pair_def u64_value_def SectionRef_wf_def ascii_valid head_len_def)

lemma section_ref_centries:
  assumes "text_keys es" and "map_of es (Text key) = Some (section_ref_value s)" and "SectionRef_wf s"
  shows "section_ref_from (centries es) key = Ok s"
proof -
  let ?es = "[text_pair ''offset'' (u64_value (sec_offset s)), text_pair ''size'' (u64_value (sec_size s)),
    text_pair ''checksum'' (checksum_value (sec_checksum s))]"
  have k: "text_keys ?es" by (rule block_ref_keys)
  have "field (centries es) key ContainerCorrupt = Ok (CMap (centries ?es))"
    by (simp add: field_centries [OF assms(1)] assms(2) section_ref_value_def)
  moreover have "required_checksum (centries ?es) ''checksum'' ContainerCorrupt = Ok (sec_checksum s)"
    using assms(3) by (intro required_checksum_centries [OF k]) (simp_all add: text_pair_def SectionRef_wf_def)
  ultimately show ?thesis
    using assms(3)
    by (simp add: section_ref_from_def accessor_defs field_centries [OF k])
       (simp add: text_pair_def SectionRef_wf_def)
qed

section \<open>The whole manifest\<close>

lemma manifest_keys:
  "text_keys (manifest_entries m)" "text_keys (index_manifest_entries m)" "text_keys (section_entries m)"
  by (simp_all add: manifest_entries_def index_manifest_entries_def section_entries_def text_keys_simps)

lemma manifest_lookups:
  "map_of (manifest_entries m) (Text ''schema'') = Some (Text (schema_name (mf_format_version m)))"
  "map_of (manifest_entries m) (Text ''source_container_id'') = Some (Bytes (mf_source_container_id m))"
  "map_of (manifest_entries m) (Text ''source_format_version'') = Some (Array [Integer 0, Integer 1])"
  "map_of (manifest_entries m) (Text ''source_original_checksum'') = Some (checksum_value (mf_source_original_checksum m))"
  "map_of (manifest_entries m) (Text ''source_qzt_footer_checksum'') = Some (checksum_value (mf_source_qzt_footer_checksum m))"
  "map_of (manifest_entries m) (Text ''index_type'') = Some (Text (mf_index_type m))"
  "map_of (manifest_entries m) (Text ''ngram_n'') = Some (case mf_ngram_n m of None \<Rightarrow> CNull | Some n \<Rightarrow> Integer (int n))"
  "map_of (manifest_entries m) (Text ''complete'') = Some (CBool (mf_complete m))"
  "map_of (manifest_entries m) (Text ''high_df_per_million'') = Some (Integer (int (mf_high_df_per_million m)))"
  "map_of (manifest_entries m) (Text ''granule_encoding'') = Some (Text (GranuleEncoding_manifest_name (mf_granule_encoding m)))"
  "map_of (manifest_entries m) (Text ''term_encoding'') = Some (Text (TermEncoding_manifest_name (mf_term_encoding m)))"
  "map_of (manifest_entries m) (Text ''index_manifest'') = Some (CMap (index_manifest_entries m))"
  "map_of (manifest_entries m) (Text ''sections'') = Some (CMap (section_entries m))"
  by (simp_all add: manifest_entries_def text_pair_def)

lemma index_manifest_lookups:
  "map_of (index_manifest_entries m) (Text ''schema'') = Some (Text ''qzt.search-index.v1'')"
  "map_of (index_manifest_entries m) (Text ''kind'') = Some (Text (mf_index_type m))"
  "map_of (index_manifest_entries m) (Text ''posting_granularity'') = Some (Text ''line'')"
  "map_of (index_manifest_entries m) (Text ''index_size_bytes'') = Some (u64_value (mf_index_size_bytes m))"
  "map_of (index_manifest_entries m) (Text ''source_size_bytes'') = Some (u64_value (mf_source_size_bytes m))"
  by (simp_all add: index_manifest_entries_def text_pair_def)

lemma sidecar_section_lookups:
  "map_of (section_entries m) (Text ''granules'') = Some (section_ref_value (mf_granules m))"
  "map_of (section_entries m) (Text ''terms'') = Some (section_ref_value (mf_terms m))"
  "map_of (section_entries m) (Text ''postings'') = Some (section_ref_value (mf_postings m))"
  by (simp_all add: section_entries_def text_pair_def)

lemma encoding_field_map_of: "encoding_field es key = map_of es (Text key)"
  by (induction es key rule: encoding_field.induct) auto

lemma encoding_field_centries:
  "text_keys es \<Longrightarrow> encoding_field (centries es) key = map_option canon (map_of es (Text key))"
  by (simp add: encoding_field_map_of map_of_centries)

lemma ok_int [encodable]: "n < u64_end \<Longrightarrow> is_ok (encode_value (Integer (int n)))"
  using ok_simple(5) [of n] by (simp add: u64_value_def)

lemma manifest_decodable:
  assumes "SidecarManifest_wf m"
  shows "decodable (CMap (manifest_entries m))"
proof -
  have small: "mf_high_df_per_million m < u64_end" using assms by (simp add: SidecarManifest_wf_def u32_end_def u64_end_def)
  have "is_ok (encode_value (CMap (index_manifest_entries m)))"
    by (rule encode_text_map_ok [OF manifest_keys(2)])
       (use assms in \<open>auto simp: index_manifest_entries_def text_pair_def SidecarManifest_wf_def u64_end_def
          simp del: encode_value.simps intro!: encodable\<close>)
  moreover have "is_ok (encode_value (CMap (section_entries m)))"
    by (rule encode_text_map_ok [OF manifest_keys(3)])
       (use assms in \<open>auto simp: section_entries_def text_pair_def SidecarManifest_wf_def u64_end_def
          simp del: encode_value.simps intro!: encodable\<close>)
  moreover have "is_ok (encode_value (Array [Integer 0, Integer 1]))" using ok_version by (simp add: version_value_def)
  moreover have "length (GranuleEncoding_manifest_name (mf_granule_encoding m)) < u64_end"
    by (cases "mf_granule_encoding m") (simp_all add: u64_end_def)
  ultimately have "is_ok (encode_value (CMap (manifest_entries m)))"
    by (intro encode_text_map_ok [OF manifest_keys(1)])
       (use assms small in \<open>auto simp: manifest_entries_def text_pair_def SidecarManifest_wf_def u64_end_def
          simp del: encode_value.simps intro!: encodable split: option.splits\<close>)
  then show ?thesis
    using assms section_ref_measures [of "mf_granules m"] section_ref_measures [of "mf_terms m"] section_ref_measures [of "mf_postings m"]
      checksum_measures
    by (cases "mf_ngram_n m"; cases "mf_granule_encoding m")
       (auto simp add: decodable_def manifest_entries_def index_manifest_entries_def section_entries_def text_pair_def u64_value_def
          SidecarManifest_wf_def ascii_valid head_len_def MAX_NESTING_DEPTH_def CborLimits_default_def)
qed

lemma manifest_roundtrip:
  assumes "SidecarManifest_wf m"
  shows "encode_manifest m = Ok (enc (CMap (manifest_entries m)))"
    and "decode_manifest (enc (CMap (manifest_entries m))) = Ok m"
    and "length (enc (CMap (manifest_entries m))) \<le> 16 * 1024 * 1024"
proof -
  note d = manifest_decodable [OF assms]
  show "encode_manifest m = Ok (enc (CMap (manifest_entries m)))"
    using decodable_validates(1) [OF d] by (simp add: encode_manifest_def)
  have v: "validate_deterministic (enc (CMap (manifest_entries m))) = Ok (CMap (centries (manifest_entries m)))"
    using decodable_validates(2) [OF d] by simp
  note look = field_centries [OF manifest_keys(1)] manifest_lookups field_centries [OF manifest_keys(2)] index_manifest_lookups
  have version: "expect_source_format_version (centries (manifest_entries m)) = Ok ()"
    by (simp add: expect_source_format_version_def look MAJOR_VERSION_def MINOR_VERSION_def)
  have n: "decode_ngram_n (centries (manifest_entries m)) = Ok (mf_ngram_n m)"
    using assms by (cases "mf_ngram_n m") (simp_all add: decode_ngram_n_def look SidecarManifest_wf_def)
  have encs: "decode_encodings V2 (centries (manifest_entries m)) = Ok (mf_granule_encoding m, mf_term_encoding m)"
    using assms by (cases "mf_granule_encoding m")
      (simp_all add: decode_encodings_def encoding_field_centries [OF manifest_keys(1)] manifest_lookups SidecarManifest_wf_def)
  have checksums: "required_checksum (centries (manifest_entries m)) ''source_original_checksum'' ContainerCorrupt = Ok (mf_source_original_checksum m)"
      "required_checksum (centries (manifest_entries m)) ''source_qzt_footer_checksum'' ContainerCorrupt = Ok (mf_source_qzt_footer_checksum m)"
    using assms by (simp_all add: required_checksum_centries [OF manifest_keys(1)] manifest_lookups SidecarManifest_wf_def)
  have secs: "section_ref_from (centries (section_entries m)) ''granules'' = Ok (mf_granules m)"
      "section_ref_from (centries (section_entries m)) ''terms'' = Ok (mf_terms m)"
      "section_ref_from (centries (section_entries m)) ''postings'' = Ok (mf_postings m)"
    using assms by (simp_all add: section_ref_centries [OF manifest_keys(3)] sidecar_section_lookups SidecarManifest_wf_def)
  have small: "u32_try_from (mf_high_df_per_million m) = Ok (mf_high_df_per_million m)" "mf_high_df_per_million m < u64_end"
    using assms by (simp_all add: SidecarManifest_wf_def u32_try_from_def u32_end_def u64_end_def)
  have V2: "schema_name (mf_format_version m) = ''qzt.sidecar.v2''" "mf_format_version m = V2"
    using assms by (simp_all add: SidecarManifest_wf_def)
  show "decode_manifest (enc (CMap (manifest_entries m))) = Ok m"
    using assms unfolding decode_manifest_def v rbind.simps as_map.simps version checksums n
    by (simp add: accessor_defs look V2 encs secs small SidecarManifest_wf_def)
  have "length (enc (CMap (manifest_entries m))) = cbor_size (CMap (manifest_entries m))"
    using d [unfolded decodable_def] by (intro encode_length encode_enc) blast
  also have "\<dots> \<le> 9 * cbor_items (CMap (manifest_entries m)) + cbor_alloc (CMap (manifest_entries m))" by (rule cbor_size_bound)
  also have "\<dots> \<le> 16 * 1024 * 1024"
    using assms section_ref_measures [of "mf_granules m"] section_ref_measures [of "mf_terms m"] section_ref_measures [of "mf_postings m"]
      checksum_measures
    by (cases "mf_ngram_n m"; cases "mf_granule_encoding m")
       (auto simp add: manifest_entries_def index_manifest_entries_def section_entries_def text_pair_def u64_value_def
          SidecarManifest_wf_def head_len_def)
  finally show "length (enc (CMap (manifest_entries m))) \<le> 16 * 1024 * 1024" .
qed

end
