(* ===== verification/Sidecar_Sections.thy ===== *)
theory Sidecar_Sections
  imports Sidecar_Manifest
begin

text \<open>
  The sections of a sidecar (src/src/sidecar.rs): what is written for granules, terms and postings
  is read back unchanged.
\<close>

section \<open>Folds by position\<close>

lemma rfold_nth:
  assumes "\<And>k. k < length xs \<Longrightarrow> f (S k) (xs ! k) = Ok (S (Suc k))"
  shows "rfold f (S 0) xs = Ok (S (length xs))"
proof -
  have "rfold f (S 0) (take k xs) = Ok (S k)" if "k \<le> length xs" for k
    using that by (induction k) (simp_all add: take_Suc_conv_app_nth rfold_append assms)
  from this [of "length xs"] show ?thesis by simp
qed

lemma rfold_upt:
  assumes "\<And>k. k < n \<Longrightarrow> f (S k) k = Ok (S (Suc k))"
  shows "rfold f (S 0) [0 ..< n] = Ok (S n)"
  using rfold_nth [of "[0 ..< n]" f S] assms by simp

lemma rfold_concat_Ok:
  assumes "rfold (\<lambda>bs x. rbind (h x) (\<lambda>b. Ok (bs @ b))) a xs = Ok out"
  obtains bss where "list_all2 (\<lambda>x b. h x = Ok b) xs bss" and "out = a @ concat bss"
proof -
  have "\<exists>bss. list_all2 (\<lambda>x b. h x = Ok b) xs bss \<and> out = a @ concat bss"
    using assms
  proof (induction xs arbitrary: a)
    case (Cons x xs)
    then obtain b where b: "h x = Ok b" "rfold (\<lambda>bs x. rbind (h x) (\<lambda>b. Ok (bs @ b))) (a @ b) xs = Ok out"
      by (auto simp: rbind_Ok_iff)
    from Cons.IH [OF b(2)] obtain bss where "list_all2 (\<lambda>x b. h x = Ok b) xs bss" "out = (a @ b) @ concat bss" by blast
    then show ?case using b(1) by (intro exI [of _ "b # bss"]) simp
  qed simp
  then show thesis using that by blast
qed

lemma drop_concat_nth:
  assumes "k < length bss"
  shows "drop (length (concat (take k bss))) (concat bss) = bss ! k @ concat (drop (Suc k) bss)"
    and "length (concat (take (Suc k) bss)) = length (concat (take k bss)) + length (bss ! k)"
proof -
  have "concat bss = concat (take k bss) @ bss ! k @ concat (drop (Suc k) bss)"
    by (metis assms concat.simps(2) concat_append id_take_nth_drop)
  then show "drop (length (concat (take k bss))) (concat bss) = bss ! k @ concat (drop (Suc k) bss)" by simp
  show "length (concat (take (Suc k) bss)) = length (concat (take k bss)) + length (bss ! k)"
    using assms by (simp add: take_Suc_conv_app_nth)
qed

section \<open>Reading at a cursor\<close>

text \<open>What is left to read at a cursor.\<close>

definition remains :: "bytes \<Rightarrow> nat \<Rightarrow> bytes \<Rightarrow> bool" where
  "remains bs c rest \<longleftrightarrow> drop c bs = rest \<and> c \<le> length bs \<and> length bs < u64_end"

lemma remains_start: "length bs < u64_end \<Longrightarrow> remains bs 0 bs"
  by (simp add: remains_def)

lemma remains_end: "remains bs c [] \<Longrightarrow> c = length bs"
  by (simp add: remains_def)

lemma read_exact_remains:
  assumes "remains bs c (x @ rest)"
  shows "sidecar_read_exact bs c (length x) = Ok (x, c + length x)" and "remains bs (c + length x) rest"
proof -
  note r = assms [unfolded remains_def]
  have "length bs - c = length x + length rest" using r by (metis length_append length_drop)
  then have l: "length bs = c + length x + length rest" using r by linarith
  have "drop (c + length x) bs = rest" using r by (metis add.commute append_eq_conv_conj drop_drop)
  then show "remains bs (c + length x) rest" using l r by (simp add: remains_def)
  have "slice bs c (c + length x) = x" using r by (simp add: slice_def)
  then show "sidecar_read_exact bs c (length x) = Ok (x, c + length x)"
    using l r by (simp add: sidecar_read_exact_def checked_add_def get_slice_def)
qed

lemma read_u64_remains:
  assumes "remains bs c (write_u64 v @ rest)" and "v < u64_end"
  shows "read_u64_cursor bs c = Ok (v, c + 8)" and "remains bs (c + 8) rest"
  using read_exact_remains [OF assms(1)] read_u64_le_bytes [OF assms(2)] by (simp_all add: read_u64_cursor_def write_u64_def)

lemma read_u32_remains:
  assumes "remains bs c (write_u32 v @ rest)" and "v < u32_end"
  shows "read_u32_cursor bs c = Ok (v, c + 4)" and "remains bs (c + 4) rest"
  using read_exact_remains [OF assms(1)] read_u32_le_bytes [OF assms(2)] by (simp_all add: read_u32_cursor_def write_u32_def)

lemma sidecar_write_varuint_eq: "sidecar_write_varuint v = write_varuint v"
proof (induction v rule: sidecar_write_varuint.induct)
  case (1 v)
  have d: "drop_bit 7 v \<noteq> 0 \<longleftrightarrow> v \<ge> 0x80" by (auto simp: drop_bit_eq_div)
  have low: "word_of_nat v AND 0x7f = (word_of_nat v :: u8)" if "\<not> v \<ge> 0x80"
  proof -
    have "unat (word_of_nat v AND 0x7f :: u8) = unat (word_of_nat v :: u8)" using that by (simp add: byte_low7 unat_byte_of_nat)
    then show ?thesis by (rule unsigned_word_eqI)
  qed
  show ?case using 1 d low by (simp add: sidecar_write_varuint.simps [of v] write_varuint.simps [of v] Let_def)
qed

lemma sidecar_varuint_step:
  assumes "read_varuint_loop bs cursor val (7 * k) len = Ok (v, c)" and "k < 10" and "length bs < u64_end"
    and "\<And>cursor val len. read_varuint_loop bs cursor val (7 * Suc k) len = Ok (v, c) \<Longrightarrow> Suc k < 10 \<Longrightarrow>
      sidecar_varuint_loop bs start (map ((*) 7) [Suc k ..< 10]) cursor val = res"
    and "res = (if length (write_varuint v) \<noteq> c - start then Err ContainerCorrupt else Ok (v, c))"
  shows "sidecar_varuint_loop bs start (map ((*) 7) [k ..< 10]) cursor val = res"
proof -
  note run = assms(1) [unfolded read_varuint_loop.simps [of bs cursor val "7 * k" len]]
  obtain byte where g: "get bs cursor = Some byte" and sh: "7 * k < 64" "\<not> (7 * k = 63 \<and> byte AND 0x7f > 1)"
    using run by (auto simp: rbind_Ok_iff result_simps Let_def split: if_splits)
  have cur: "cursor < length bs" "bs ! cursor = byte" using g by (auto simp: get_def split: if_splits)
  then have rd: "sidecar_read_exact bs cursor 1 = Ok ([byte], Suc cursor)"
    using assms(3) by (simp add: sidecar_read_exact_def checked_add_def get_slice_def slice_def take_Suc hd_drop_conv_nth drop_eq_Nil2 ok_or_def)
  let ?b = "push_bit (7 * k) (unat (byte AND 0x7f)) mod u64_end"
  have cs: "checked_shl (unat (byte AND 0x7f)) (7 * k) = Some ?b" using sh by (simp add: checked_shl_def)
  have big: "\<not> (7 * k = 63 \<and> unat (byte AND 0x7f) > 1)" using sh(2) by (simp add: word_less_nat_alt)
  have l: "map ((*) 7) [k ..< 10] = 7 * k # map ((*) 7) [Suc k ..< 10]" using assms(2) by (simp add: upt_conv_Cons)
  have g1: "get [byte] 0 = Some byte" by (simp add: get_def)
  have step: "sidecar_varuint_loop bs start (map ((*) 7) [k ..< 10]) cursor val = (if byte AND 0x80 = 0
      then if length (write_varuint (val OR ?b)) \<noteq> Suc cursor - start then Err ContainerCorrupt else Ok (val OR ?b, Suc cursor)
      else sidecar_varuint_loop bs start (map ((*) 7) [Suc k ..< 10]) (Suc cursor) (val OR ?b))"
    unfolding l sidecar_varuint_loop.simps rd rbind.simps prod.case g1 ok_or_Some Let_def if_not_P [OF big] cs sidecar_write_varuint_eq
    by (rule refl)
  show ?thesis
  proof (cases "byte AND 0x80 = 0")
    case True
    then have "v = val OR ?b" "c = cursor + 1" using run g sh by (auto simp: Let_def split: if_splits)
    then show ?thesis unfolding step using True assms(5) by simp
  next
    case False
    then have more: "\<not> 7 * k + 7 > 63" "read_varuint_loop bs (cursor + 1) (val OR ?b) (7 * k + 7) (len + 1) = Ok (v, c)"
      using run g sh by (auto simp: Let_def split: if_splits)
    have "sidecar_varuint_loop bs start (map ((*) 7) [Suc k ..< 10]) (cursor + 1) (val OR ?b) = res"
      using assms(4) [of "cursor + 1" "val OR ?b" "len + 1"] more by (simp add: add.commute)
    then show ?thesis unfolding step using False by simp
  qed
qed

lemma sidecar_varuint_agrees:
  assumes "read_varuint_loop bs cursor val (7 * k) len = Ok (v, c)" and "k < 10" and "length bs < u64_end"
  shows "sidecar_varuint_loop bs start (map ((*) 7) [k ..< 10]) cursor val =
     (if length (write_varuint v) \<noteq> c - start then Err ContainerCorrupt else Ok (v, c))"
  using assms(1,2)
proof (induction "10 - k" arbitrary: k cursor val len rule: less_induct)
  case less
  show ?case
    by (rule sidecar_varuint_step [OF less.prems assms(3) _ refl]) (rule less.hyps, use less.prems(2) in auto)
qed

lemma read_sidecar_varuint_remains:
  assumes "remains bs c (sidecar_write_varuint v @ rest)" and "v < u64_end"
  shows "sidecar_read_varuint bs c = Ok (v, c + length (sidecar_write_varuint v))" and "remains bs (c + length (sidecar_write_varuint v)) rest"
proof -
  note w = sidecar_write_varuint_eq
  note d = read_exact_remains [OF assms(1)]
  show "remains bs (c + length (sidecar_write_varuint v)) rest" by (rule d(2))
  have "posting_varuint bs c = Ok (v, c + length (write_varuint v))"
    unfolding posting_varuint_drop using assms d(2) by (simp add: w remains_def)
  then have "read_varuint_loop bs c 0 (7 * 0) 0 = Ok (v, c + length (write_varuint v))"
    using read_varuint_iff [of bs c v] posting_varuint_iff [of bs c v] by (simp add: read_varuint_def)
  from sidecar_varuint_agrees [OF this, of c]
  have "sidecar_varuint_loop bs c (map ((*) 7) [0 ..< 10]) c 0 = Ok (v, c + length (write_varuint v))"
    using assms(1) by (simp add: remains_def)
  moreover have "map ((*) 7) [0 ..< 10] = [0, 7, 14, 21, 28, 35, 42, 49, 56, 63 :: nat]" by (simp add: upt_rec)
  ultimately show "sidecar_read_varuint bs c = Ok (v, c + length (sidecar_write_varuint v))"
    by (simp add: sidecar_read_varuint_def w)
qed

section \<open>Granules\<close>

text \<open>What a granule in position \<open>i\<close> must satisfy to be recorded.\<close>

definition granule_ok :: "GranuleEncoding \<Rightarrow> nat \<Rightarrow> SearchGranule \<Rightarrow> bool" where
  "granule_ok encoding i g \<longleftrightarrow> sg_granule_id g = i \<and> i < u64_end - 1 \<and> sg_logical_offset g < u64_end \<and> sg_byte_length g < u64_end \<and>
     sg_chunk_start g \<le> sg_chunk_end g \<and> sg_chunk_end g < u64_end \<and> sg_first_line g = Some i \<and> sg_line_count g = Some 1 \<and>
     (encoding = LineImpliedV2 \<longrightarrow> sg_byte_length g < u32_end \<and> sg_chunk_start g < u32_end \<and> sg_chunk_end g - sg_chunk_start g < u32_end)"

lemma granule_record:
  assumes "granule_ok encoding i g"
  obtains b where "encode_granule encoding g = Ok b" and "length b = record_len encoding" and "decode_granule_record b i encoding = Ok g"
proof (cases encoding)
  case GranuleLegacyV1
  let ?b = "write_u64 i @ write_u64 (sg_logical_offset g) @ write_u64 (sg_byte_length g) @ write_u64 (sg_chunk_start g) @
    write_u64 (sg_chunk_end g) @ write_u64 i @ write_u64 1 @ []"
  note ok = assms [unfolded granule_ok_def]
  have small: "i < u64_end" "sg_logical_offset g < u64_end" "sg_byte_length g < u64_end" "sg_chunk_start g < u64_end"
      "sg_chunk_end g < u64_end" "1 < u64_end" using ok by (auto simp: u64_end_def)
  have len: "length ?b = 56" by (simp add: write_u64_def)
  have "remains ?b 0 ?b" by (rule remains_start) (simp only: len, simp add: u64_end_def)
  note f0 = read_u64_remains [OF this small(1)]
  note f1 = read_u64_remains [OF f0(2) small(2)]
  note f2 = read_u64_remains [OF f1(2) small(3)]
  note f3 = read_u64_remains [OF f2(2) small(4)]
  note f4 = read_u64_remains [OF f3(2) small(5)]
  note f5 = read_u64_remains [OF f4(2) small(1)]
  note f6 = read_u64_remains [OF f5(2) small(6)]
  have nm: "none_if_max i = Some i" "none_if_max 1 = Some 1" using ok by (simp_all add: none_if_max_def u64_end_def)
  have "decode_granule_record ?b i encoding = Ok g"
    unfolding decode_granule_record_def decode_granule_fields_def GranuleLegacyV1 GranuleEncoding.case
      f0(1) f1(1) f2(1) f3(1) f4(1) f5(1) f6(1) rbind.simps prod.case nm
    using ok remains_end [OF f6(2)] by simp
  moreover have "encode_granule encoding g = Ok ?b" using ok GranuleLegacyV1 by simp
  ultimately show thesis using that len GranuleLegacyV1 by (simp add: SIDECAR_LEGACY_RECORD_LEN_def)
next
  case LineImpliedV2
  let ?span = "sg_chunk_end g - sg_chunk_start g"
  let ?b = "write_u64 (sg_logical_offset g) @ write_u32 (sg_byte_length g) @ write_u32 (sg_chunk_start g) @ write_u32 ?span @ []"
  note ok = assms [unfolded granule_ok_def LineImpliedV2]
  have small: "sg_logical_offset g < u64_end" "sg_byte_length g < u32_end" "sg_chunk_start g < u32_end" "?span < u32_end" using ok by auto
  have len: "length ?b = 20" by (simp add: write_u64_def write_u32_def)
  have "remains ?b 0 ?b" by (rule remains_start) (simp only: len, simp add: u64_end_def)
  note f0 = read_u64_remains [OF this small(1)]
  note f1 = read_u32_remains [OF f0(2) small(2)]
  note f2 = read_u32_remains [OF f1(2) small(3)]
  note f3 = read_u32_remains [OF f2(2) small(4)]
  have sum: "checked_add (sg_chunk_start g) ?span = Some (sg_chunk_end g)" using ok by (simp add: checked_add_def)
  have "decode_granule_record ?b i encoding = Ok g"
    unfolding decode_granule_record_def decode_granule_fields_def LineImpliedV2 GranuleEncoding.case
      f0(1) f1(1) f2(1) f3(1) rbind.simps prod.case sum ok_or_Some
    using ok remains_end [OF f3(2)] by simp
  moreover have "encode_granule encoding g = Ok ?b"
    using ok small LineImpliedV2 by (simp add: u32_try_from_def checked_sub_def)
  ultimately show thesis using that len LineImpliedV2 by (simp add: SIDECAR_COMPACT_RECORD_LEN_def)
qed

text \<open>A section is a count followed by its records.\<close>

lemma remains_record:
  assumes "k < length bss" and "length (write_u64 n @ concat bss) < u64_end"
  shows "remains (write_u64 n @ concat bss) (8 + length (concat (take k bss))) (bss ! k @ concat (drop (Suc k) bss))"
proof -
  have "length (concat bss) = length (concat (take k bss)) + length (concat (drop k bss))"
    by (metis append_take_drop_id concat_append length_append)
  then show ?thesis using assms drop_concat_nth(1) [OF assms(1)] by (simp add: remains_def write_u64_def)
qed

lemma read_count:
  assumes "length (write_u64 n @ rest) < u64_end" and "n < u64_end"
  shows "read_u64_cursor (write_u64 n @ rest) 0 = Ok (n, 8)"
  using read_u64_remains(1) [OF remains_start [OF assms(1)] assms(2)] by simp

lemma sum_list_length_const:
  assumes "\<And>b. b \<in> set bss \<Longrightarrow> length b = l"
  shows "length (concat bss) = length bss * l"
  using assms by (induction bss) auto

lemma concat_min: "(\<And>b. b \<in> set bss \<Longrightarrow> l \<le> length b) \<Longrightarrow> length bss * l \<le> length (concat bss)"
  by (induction bss) (simp_all add: add_mono)

lemma granules_roundtrip:
  assumes "encode_granules gs encoding = Ok bs" and "\<And>i. i < length gs \<Longrightarrow> granule_ok encoding i (gs ! i)"
    and "length gs \<le> sl_max_granule_count limits" and "length gs * record_len encoding + 8 < u64_end"
  shows "length bs = length gs * record_len encoding + 8" and "decode_granules bs encoding limits = Ok gs"
proof -
  have "rfold (\<lambda>bs g. rbind (encode_granule encoding g) (\<lambda>b. Ok (bs @ b))) (write_u64 (length gs)) gs = Ok bs"
    using assms(1) by (auto simp: encode_granules_def rbind_Ok_iff usize_to_u64_def split: if_splits)
  then obtain bss where bss: "list_all2 (\<lambda>g b. encode_granule encoding g = Ok b) gs bss" "bs = write_u64 (length gs) @ concat bss"
    by (rule rfold_concat_Ok)
  have n: "length bss = length gs" using bss(1) by (simp add: list_all2_lengthD)
  have rec: "length (bss ! i) = record_len encoding" "decode_granule_record (bss ! i) i encoding = Ok (gs ! i)" if "i < length gs" for i
  proof -
    from granule_record [OF assms(2) [OF that]] obtain b where "encode_granule encoding (gs ! i) = Ok b" "length b = record_len encoding"
        "decode_granule_record b i encoding = Ok (gs ! i)" by blast
    moreover have "encode_granule encoding (gs ! i) = Ok (bss ! i)" using bss(1) that by (simp add: list_all2_conv_all_nth)
    ultimately show "length (bss ! i) = record_len encoding" "decode_granule_record (bss ! i) i encoding = Ok (gs ! i)" by auto
  qed
  have part: "length (concat (take k bss)) = k * record_len encoding" if "k \<le> length gs" for k
  proof -
    have "length b = record_len encoding" if "b \<in> set (take k bss)" for b
      using in_set_takeD [OF that] n rec(1) by (auto simp: in_set_conv_nth)
    from sum_list_length_const [of "take k bss", OF this] show ?thesis using that n by simp
  qed
  show len: "length bs = length gs * record_len encoding + 8"
    using part [of "length gs"] n by (simp add: bss(2) write_u64_def)
  have small: "length bs < u64_end" "length gs < u64_end" "length gs * record_len encoding < u64_end"
      "record_len encoding < u64_end"
    using assms(4) len by (cases encoding; simp add: SIDECAR_LEGACY_RECORD_LEN_def SIDECAR_COMPACT_RECORD_LEN_def u64_end_def)+
  let ?step = "\<lambda>(granules, cursor) granule_id.
             rbind (u64_to_usize (record_len encoding)) (\<lambda>len.
             rbind (sidecar_read_exact bs cursor len) (\<lambda>(part, cursor).
             rbind (decode_granule_record part granule_id encoding) (\<lambda>granule.
             Ok (granules @ [granule], cursor))))"
  have "rfold ?step (take 0 gs, 8 + 0 * record_len encoding) [0 ..< length gs] = Ok (take (length gs) gs, 8 + length gs * record_len encoding)"
  proof (rule rfold_upt [of _ _ "\<lambda>k. (take k gs, 8 + k * record_len encoding)"])
    fix k assume k: "k < length gs"
    have "remains bs (8 + k * record_len encoding) (bss ! k @ concat (drop (Suc k) bss))"
      using remains_record [of k bss "length gs"] k n small(1) part [of k] by (simp add: bss(2))
    from read_exact_remains(1) [OF this]
    have "sidecar_read_exact bs (8 + k * record_len encoding) (record_len encoding) = Ok (bss ! k, 8 + Suc k * record_len encoding)"
      using rec(1) [OF k] by (simp add: add.commute add.left_commute)
    then show "?step (take k gs, 8 + k * record_len encoding) k = Ok (take (Suc k) gs, 8 + Suc k * record_len encoding)"
      using k rec(2) [OF k] small(4) by (simp add: u64_to_usize_def take_Suc_conv_app_nth)
  qed
  moreover have "read_u64_cursor bs 0 = Ok (length gs, 8)"
    unfolding bss(2) using small by (intro read_count) (simp_all add: bss(2))
  ultimately show "decode_granules bs encoding limits = Ok gs"
    using assms(3,4) small len
    by (simp add: decode_granules_def checked_mul_def checked_add_def usize_to_u64_def u64_to_usize_def)
qed

section \<open>Terms\<close>

text \<open>What the term at an offset of the postings must satisfy, and what the compact encoding keeps of it.\<close>

definition term_ok :: "('h, 'x) ext_scheme \<Rightarrow> nat \<Rightarrow> TermDictionaryEntry \<Rightarrow> bool" where
  "term_ok X offset t \<longleftrightarrow> te_key t \<noteq> [] \<and> length (te_key t) < u64_end \<and> te_key_hash t = key_hash X (te_key t) \<and>
     te_document_frequency t = 0 \<and> te_flags t = 0 \<and> 0 < te_granule_frequency t \<and> te_granule_frequency t < u64_end \<and>
     0 < te_posting_size t \<and> te_posting_offset t = offset \<and> offset + te_posting_size t < u64_end"

definition compact_term :: "TermDictionaryEntry \<Rightarrow> TermDictionaryEntry" where
  "compact_term t = t\<lparr>te_skip_offset := 0, te_skip_size := 0\<rparr>"

lemma compact_term_simps [simp]:
  "te_key (compact_term t) = te_key t" "te_granule_frequency (compact_term t) = te_granule_frequency t" "te_flags (compact_term t) = te_flags t"
  "te_posting_size (compact_term t) = te_posting_size t" "te_posting_offset (compact_term t) = te_posting_offset t"
  "te_document_frequency (compact_term t) = te_document_frequency t" "te_skip_offset (compact_term t) = 0" "te_skip_size (compact_term t) = 0"
  by (simp_all add: compact_term_def)

lemma encode_term_compact:
  assumes "encode_term CompactV2 t = Ok b"
  shows "b = sidecar_write_varuint (length (te_key t)) @ te_key t @ sidecar_write_varuint (te_granule_frequency t) @
     sidecar_write_varuint (te_posting_size t)"
  using assms by (auto simp: rbind_Ok_iff width_simps)

lemma varuint_nonempty: "1 \<le> length (sidecar_write_varuint v)"
  by (subst sidecar_write_varuint.simps) (simp add: Let_def)

lemma compact_term_decodes:
  assumes "term_ok X offset t" and "encode_term CompactV2 t = Ok b" and "remains bs c (b @ rest)"
  shows "decode_compact_term X bs c offset = Ok (compact_term t, c + length b, offset + te_posting_size t)"
proof -
  note ok = assms(1) [unfolded term_ok_def]
  have small: "length (te_key t) < u64_end" "te_granule_frequency t < u64_end" "te_posting_size t < u64_end" using ok by auto
  note b = encode_term_compact [OF assms(2)]
  note f0 = read_sidecar_varuint_remains [OF assms(3) [unfolded b append_assoc] small(1)]
  note f1 = read_exact_remains [OF f0(2)]
  note f2 = read_sidecar_varuint_remains [OF f1(2) small(2)]
  note f3 = read_sidecar_varuint_remains [OF f2(2) small(3)]
  show ?thesis
    unfolding decode_compact_term_def f0(1) f1(1) f2(1) f3(1) rbind.simps prod.case
    using ok f1(1) f2(1) f3(1) by (simp add: u64_to_usize_def checked_add_def b compact_term_def add.assoc)
qed

definition posting_offset_at :: "TermDictionaryEntry list \<Rightarrow> nat \<Rightarrow> nat" where
  "posting_offset_at terms k = sum_list (map te_posting_size (take k terms))"

lemma posting_offset_Suc: "k < length terms \<Longrightarrow> posting_offset_at terms (Suc k) = posting_offset_at terms k + te_posting_size (terms ! k)"
  by (simp add: posting_offset_at_def take_Suc_conv_app_nth)

lemma terms_roundtrip:
  assumes "encode_terms terms CompactV2 = Ok bs" and "\<And>i. i < length terms \<Longrightarrow> term_ok X (posting_offset_at terms i) (terms ! i)"
    and "sorted_wrt (<) (map te_key terms)" and "length terms \<le> sl_max_term_count limits" and "length bs \<le> sl_max_terms_size limits"
    and "length bs < u64_end"
  shows "decode_terms X bs CompactV2 limits = Ok (map compact_term terms)"
proof -
  have n: "length terms < u64_end"
    and "rfold (\<lambda>bs t. rbind (encode_term CompactV2 t) (\<lambda>b. Ok (bs @ b))) (write_u64 (length terms)) terms = Ok bs"
    using assms(1) by (auto simp: encode_terms_def rbind_Ok_iff usize_to_u64_def split: if_splits)
  from this(2) obtain bss where bss: "list_all2 (\<lambda>t b. encode_term CompactV2 t = Ok b) terms bss" "bs = write_u64 (length terms) @ concat bss"
    by (rule rfold_concat_Ok)
  have l: "length bss = length terms" using bss(1) by (simp add: list_all2_lengthD)
  have enc: "encode_term CompactV2 (terms ! i) = Ok (bss ! i)" if "i < length terms" for i
    using bss(1) that by (simp add: list_all2_conv_all_nth)
  have three: "3 \<le> length b" if "b \<in> set bss" for b
  proof -
    obtain i where i: "i < length terms" "b = bss ! i" using \<open>b \<in> set bss\<close> l by (auto simp: in_set_conv_nth)
    then show ?thesis
      using encode_term_compact [OF enc [OF i(1)]] varuint_nonempty [of "length (te_key (terms ! i))"]
        varuint_nonempty [of "te_granule_frequency (terms ! i)"] varuint_nonempty [of "te_posting_size (terms ! i)"] by simp
  qed
  then have "length bss * 3 \<le> length (concat bss)" by (rule concat_min)
  then have min: "length terms * 3 \<le> length bs - 8" "8 \<le> length bs" using l by (simp_all add: bss(2) write_u64_def)
  let ?S = "\<lambda>k. (map compact_term (take k terms), 8 + length (concat (take k bss)), posting_offset_at terms k)"
  have "rfold (\<lambda>st _. decode_term X bs CompactV2 st) (?S 0) [0 ..< length terms] = Ok (?S (length terms))"
  proof (rule rfold_upt [of _ _ ?S])
    fix k assume k: "k < length terms"
    have "remains bs (8 + length (concat (take k bss))) (bss ! k @ concat (drop (Suc k) bss))"
      using remains_record [of k bss "length terms"] k l assms(6) by (simp add: bss(2))
    note d = compact_term_decodes [OF assms(2) [OF k] enc [OF k] this]
    have last: "te_key (last (map compact_term (take k terms))) < te_key (terms ! k)" if "k \<noteq> 0"
    proof -
      have "map compact_term (take k terms) \<noteq> []" using that k by auto
      from last_conv_nth [OF this] have "last (map compact_term (take k terms)) = compact_term (terms ! (k - 1))"
        using that k by simp
      then show ?thesis using assms(3) that k by (simp add: sorted_wrt_iff_nth_less)
    qed
    have ord: "\<not> (map compact_term (take k terms) \<noteq> [] \<and> te_key (last (map compact_term (take k terms))) \<ge> te_key (terms ! k))"
      using last leD by fastforce
    have "8 + length (concat (take (Suc k) bss)) = 8 + length (concat (take k bss)) + length (bss ! k)"
      using drop_concat_nth(2) [of k bss] k l by simp
    then have S: "?S (Suc k) = (map compact_term (take k terms) @ [compact_term (terms ! k)],
        8 + length (concat (take k bss)) + length (bss ! k), posting_offset_at terms k + te_posting_size (terms ! k))"
      using k by (simp only: posting_offset_Suc take_Suc_conv_app_nth [of k terms] map_append list.map)
    show "decode_term X bs CompactV2 (?S k) = Ok (?S (Suc k))"
      unfolding S decode_term_def prod.case TermEncoding.case d rbind.simps compact_term_simps
      using assms(2) [OF k] ord by (simp only: term_ok_def) auto
  qed
  then have "rfold (\<lambda>st _. decode_term X bs CompactV2 st) ([], 8, 0) [0 ..< length terms] = Ok (?S (length terms))"
    by (simp add: posting_offset_at_def)
  moreover have "read_u64_cursor bs 0 = Ok (length terms, 8)"
    unfolding bss(2) using assms(6) n by (intro read_count) (simp_all add: bss(2))
  moreover have "8 + length (concat (take (length terms) bss)) = length bs" using l by (simp add: bss(2) write_u64_def)
  moreover have "length terms \<le> (length bs - 8) div 3" using min(1) by simp
  ultimately show ?thesis
    using assms(4-6) n by (simp add: decode_terms_def usize_to_u64_def u64_to_usize_def)
qed

lemma term_dictionary_accepted:
  assumes "\<And>i. i < length terms \<Longrightarrow> term_ok X (posting_offset_at terms i) (terms ! i) \<and> te_granule_frequency (terms ! i) \<le> granule_count"
    and "sorted_wrt (<) (map te_key terms)"
  shows "validate_file_term_dictionary X (map compact_term terms) (posting_offset_at terms (length terms)) CompactV2 granule_count = Ok ()"
proof -
  let ?S = "\<lambda>k. (posting_offset_at terms k, 0)"
  have "rfold (validate_file_term X CompactV2 granule_count) (?S 0) (map compact_term terms) = Ok (?S (length (map compact_term terms)))"
  proof (rule rfold_nth)
    fix k assume "k < length (map compact_term terms)"
    then have k: "k < length terms" by simp
    show "validate_file_term X CompactV2 granule_count (?S k) (map compact_term terms ! k) = Ok (?S (Suc k))"
      using assms(1) [OF k] k by (auto simp: validate_file_term_def term_ok_def posting_offset_Suc checked_add_def u64_end_def)
  qed
  moreover have "windows2_all (\<lambda>a b. te_key a < te_key b) (map compact_term terms)"
    using assms(2) by (induction terms rule: induct_list012) simp_all
  ultimately show ?thesis by (simp add: validate_file_term_dictionary_def posting_offset_at_def)
qed

section \<open>Postings\<close>

text \<open>What a term says of its posting list.\<close>

definition describes :: "TermDictionaryEntry \<Rightarrow> u64 list \<Rightarrow> bool" where
  "describes t posting \<longleftrightarrow> te_granule_frequency t = length posting \<and> encoded_delta_varint_size posting = Ok (te_posting_size t) \<and>
     (\<forall>v \<in> set posting. v < u64_end)"

definition ids_before :: "u64 list list \<Rightarrow> nat \<Rightarrow> nat" where
  "ids_before postings k = sum_list (map length (take k postings))"

lemma ids_before_Suc: "k < length postings \<Longrightarrow> ids_before postings (Suc k) = ids_before postings k + length (postings ! k)"
  by (simp add: ids_before_def take_Suc_conv_app_nth)

lemma ids_before_mono: "j \<le> k \<Longrightarrow> ids_before postings j \<le> ids_before postings k"
  by (auto simp: ids_before_def le_iff_add take_add)

lemma posting_offset_mono: "j \<le> k \<Longrightarrow> posting_offset_at terms j \<le> posting_offset_at terms k"
  by (auto simp: posting_offset_at_def le_iff_add take_add)

lemma postings_roundtrip:
  assumes "encode_posting_section postings = Ok bs" and "list_all2 describes terms postings"
    and "\<And>i. i < length terms \<Longrightarrow> te_posting_offset (terms ! i) = posting_offset_at terms i"
    and "ids_before postings (length postings) \<le> sl_max_decoded_posting_ids limits"
    and "\<And>t. t \<in> set terms \<Longrightarrow> te_posting_size t \<le> sl_max_posting_list_size limits"
    and "length bs \<le> sl_max_postings_size limits" and "length bs < u64_end" and "sl_max_decoded_posting_ids limits < u64_end"
  shows "length bs = posting_offset_at terms (length terms)" and "decode_posting_section bs (map compact_term terms) limits = Ok postings"
proof -
  obtain bss where bss: "list_all2 (\<lambda>p b. encode_delta_varint_u64 p = Ok b) postings bss" "bs = concat bss"
    using assms(1) by (auto simp: encode_posting_section_def elim: rfold_concat_Ok)
  have l: "length bss = length terms" "length postings = length terms"
    using bss(1) assms(2) by (simp_all add: list_all2_lengthD)
  have small: "length (postings ! i) < u64_end" if "i < length terms" for i
    using ids_before_Suc [of i postings] ids_before_mono [of "Suc i" "length postings" postings] assms(4,8) that l by simp
  have each: "encode_delta_varint_u64 (postings ! i) = Ok (bss ! i)" "length (bss ! i) = te_posting_size (terms ! i)"
      "decode_delta_varint_u64_with_limit (bss ! i) m = Ok (postings ! i)"
      if "i < length terms" "length (postings ! i) \<le> m" "m < u64_end" for i m
  proof -
    show e: "encode_delta_varint_u64 (postings ! i) = Ok (bss ! i)" using bss(1) that l by (simp add: list_all2_conv_all_nth)
    have d: "encoded_delta_varint_size (postings ! i) = Ok (te_posting_size (terms ! i))" "\<forall>v \<in> set (postings ! i). v < u64_end"
      using assms(2) that(1) by (simp_all add: list_all2_conv_all_nth describes_def)
    have b: "sorted_wrt (<) (postings ! i)" "bss ! i = write_deltas 0 (postings ! i)" using e by (simp_all add: encode_delta_Ok_iff)
    show "length (bss ! i) = te_posting_size (terms ! i)" using d(1) b by (simp add: encoded_size_Ok_iff')
    show "decode_delta_varint_u64_with_limit (bss ! i) m = Ok (postings ! i)"
      using b d(2) that(2,3) by (simp add: decode_delta_iff posting_ok_def)
  qed
  have off: "length (concat (take k bss)) = posting_offset_at terms k" if "k \<le> length terms" for k
    using that
  proof (induction k)
    case (Suc k)
    then show ?case using drop_concat_nth(2) [of k bss] each(2) [of k "length (postings ! k)"] l by (simp add: posting_offset_Suc small)
  qed (simp add: posting_offset_at_def)
  show len: "length bs = posting_offset_at terms (length terms)" using off [of "length terms"] l by (simp add: bss(2))
  let ?M = "sl_max_decoded_posting_ids limits"
  let ?S = "\<lambda>k. (take k postings, ?M - ids_before postings k)"
  have "rfold (decode_section_posting bs limits) (?S 0) (map compact_term terms) = Ok (?S (length (map compact_term terms)))"
  proof (rule rfold_nth)
    fix k assume "k < length (map compact_term terms)"
    then have k: "k < length terms" by simp
    have room: "ids_before postings k + length (postings ! k) \<le> ?M"
      using ids_before_Suc [of k postings] ids_before_mono [of "Suc k" "length postings" postings] assms(4) k l by simp
    have sz: "length (bss ! k) = te_posting_size (terms ! k)" "length (postings ! k) < u64_end"
      using each(2) [of k "length (postings ! k)"] k room assms(8) by (simp_all add: small)
    have e: "posting_offset_at terms k + te_posting_size (terms ! k) \<le> length bs"
      using posting_offset_Suc [OF k] posting_offset_mono [of "Suc k" "length terms" terms] k by (simp add: len)
    have "slice bs (posting_offset_at terms k) (posting_offset_at terms k + te_posting_size (terms ! k)) = bss ! k"
      using drop_concat_nth(1) [of k bss] off [of k] k l sz(1) by (simp add: slice_def bss(2))
    then show "decode_section_posting bs limits (?S k) (map compact_term terms ! k) = Ok (?S (Suc k))"
      using assms(3) [OF k] assms(5) [of "terms ! k"] e k l assms(7,8) each(3) [of k "?M - ids_before postings k"] room sz
      by (simp add: decode_section_posting_def u64_to_usize_def checked_add_def get_slice_def checked_sub_def ids_before_Suc
          take_Suc_conv_app_nth small)
  qed
  then show "decode_posting_section bs (map compact_term terms) limits = Ok postings"
    using assms(6,7) l by (simp add: decode_posting_section_def ids_before_def usize_to_u64_def)
qed

end
