(* ===== verification/Sidecar_Roundtrip.thy ===== *)
theory Sidecar_Roundtrip
  imports Sidecar_Sections
begin

text \<open>
  A sidecar built from a container opens beside it, with the index it was built from
  (src/src/sidecar.rs).
\<close>

section \<open>Encoded dictionaries\<close>

text \<open>The entry of a term at an offset of the postings.\<close>

definition entry_for :: "TermDictionaryEntry \<Rightarrow> u64 list \<Rightarrow> nat \<Rightarrow> TermDictionaryEntry \<Rightarrow> bool" where
  "entry_for t posting offset e \<longleftrightarrow> te_key e = te_key t \<and> te_key_hash e = te_key_hash t \<and> te_flags e = te_flags t \<and>
     te_document_frequency e = 0 \<and> te_granule_frequency e = length posting \<and> te_posting_offset e = offset \<and>
     encoded_delta_varint_size posting = Ok (te_posting_size e)"

lemma encode_posting_list_entry:
  assumes "encode_posting_list with_skips (out, po, so) (t, posting) = Ok (out', po', so')"
  obtains e where "ep_terms out' = ep_terms out @ [e]" and "entry_for t posting po e" and "po' = po + te_posting_size e" and "po' < u64_end"
proof -
  note run = assms [unfolded encode_posting_list_def prod.case]
  obtain enc skips where e1: "encode_delta_varint_u64 posting = Ok enc" "(if with_skips then build_skip_points posting enc else Ok []) = Ok skips"
    using run by (elim rbindE) blast
  note run = run [unfolded e1 rbind.simps]
  obtain k where e2: "length posting < u64_end" "length enc < u64_end" "usize_to_u64 (length skips) = Ok k"
    using run by (elim rbindE) (simp add: width_simps)
  note run = run [unfolded e2(3) usize_to_u64_small [OF e2(1)] usize_to_u64_small [OF e2(2)] rbind.simps]
  obtain sz where e3: "checked_mul k 24 = Some sz" "po + length enc < u64_end"
    using run by (elim rbindE) (simp add: width_simps result_simps)
  have e: "encode_delta_varint_u64 posting = Ok enc" "length enc < u64_end" "po' = po + length enc" "po' < u64_end"
      "ep_terms out' = ep_terms out @ [t\<lparr>te_document_frequency := 0, te_granule_frequency := length posting,
              te_posting_offset := po, te_posting_size := length enc, te_skip_offset := so, te_skip_size := sz\<rparr>]"
    using run e1 e2 e3 by (auto simp: checked_add_def split: if_splits)
  then have "encoded_delta_varint_size posting = Ok (length enc)" by (simp add: encoded_size_Ok_iff' encode_delta_Ok_iff)
  then show thesis using that [OF e(5)] e(3,4) by (simp add: entry_for_def)
qed

lemma posting_terms:
  assumes "rfold (encode_posting_list with_skips) (\<lparr>ep_terms = [], ep_postings = [], ep_skips = []\<rparr>, 0, 0) (zip t p) = Ok (out, po, so)"
    and "length t = length p"
  shows "length (ep_terms out) = length t" and "po = posting_offset_at (ep_terms out) (length t)" and "po < u64_end"
    and "\<And>i. i < length t \<Longrightarrow> entry_for (t ! i) (p ! i) (posting_offset_at (ep_terms out) i) (ep_terms out ! i)"
proof -
  let ?P = "\<lambda>k (out, po, so). length (ep_terms out) = k \<and> po = posting_offset_at (ep_terms out) k \<and> po < u64_end \<and>
     (\<forall>i < k. entry_for (t ! i) (p ! i) (posting_offset_at (ep_terms out) i) (ep_terms out ! i))"
  have "?P (length (zip t p)) (out, po, so)"
  proof (rule rfold_list_induct [OF assms(1)])
    show "?P 0 (\<lparr>ep_terms = [], ep_postings = [], ep_skips = []\<rparr>, 0, 0)" by (simp add: posting_offset_at_def u64_end_def)
    fix k u u'
    assume k: "k < length (zip t p)" and P: "?P k u" and st: "encode_posting_list with_skips u (zip t p ! k) = Ok u'"
    obtain o1 p1 s1 o2 p2 s2 where u: "u = (o1, p1, s1)" "u' = (o2, p2, s2)" by (metis surj_pair)
    have "encode_posting_list with_skips (o1, p1, s1) (t ! k, p ! k) = Ok (o2, p2, s2)" using st k by (simp add: u)
    then obtain e where e: "ep_terms o2 = ep_terms o1 @ [e]" "entry_for (t ! k) (p ! k) p1 e" "p2 = p1 + te_posting_size e" "p2 < u64_end"
      by (rule encode_posting_list_entry)
    have same: "posting_offset_at (ep_terms o2) i = posting_offset_at (ep_terms o1) i" if "i \<le> k" for i
      using that P by (simp add: posting_offset_at_def e(1) u(1))
    have "posting_offset_at (ep_terms o2) (Suc k) = p2" using P e by (simp add: posting_offset_at_def u(1))
    then show "?P (Suc k) u'" using P e same by (auto simp: u nth_append less_Suc_eq)
  qed
  then show "length (ep_terms out) = length t" "po = posting_offset_at (ep_terms out) (length t)" "po < u64_end"
    "\<And>i. i < length t \<Longrightarrow> entry_for (t ! i) (p ! i) (posting_offset_at (ep_terms out) i) (ep_terms out ! i)"
    using assms(2) by simp_all
qed

text \<open>Encoding again what was encoded changes nothing, under a larger limit.\<close>

lemma encode_posting_list_same:
  assumes "te_key t' = te_key t" and "te_key_hash t' = te_key_hash t" and "te_flags t' = te_flags t"
  shows "encode_posting_list with_skips st (t', posting) = encode_posting_list with_skips st (t, posting)"
proof -
  have "t'\<lparr>te_document_frequency := a, te_granule_frequency := b, te_posting_offset := c, te_posting_size := d, te_skip_offset := e,
      te_skip_size := f\<rparr> = t\<lparr>te_document_frequency := a, te_granule_frequency := b, te_posting_offset := c, te_posting_size := d,
      te_skip_offset := e, te_skip_size := f\<rparr>" for a b c d e f
    using assms by (cases t, cases t') simp
  then show ?thesis by (simp add: encode_posting_list_def split: prod.splits)
qed

lemma encode_again:
  assumes "list_all2 (\<lambda>t' t. te_key t' = te_key t \<and> te_key_hash t' = te_key_hash t \<and> te_flags t' = te_flags t) ts' ts"
  shows "rfold (encode_posting_list with_skips) st (zip ts' ps) = rfold (encode_posting_list with_skips) st (zip ts ps)"
  using assms
proof (induction ts' ts arbitrary: ps st rule: list_all2_induct)
  case (Cons t' ts' t ts)
  then show ?case
    using encode_posting_list_same [of t' t with_skips st] by (cases ps) (auto intro!: rbind_cong)
qed simp

lemma charge_build_iff: "charge_build v n m = Ok w \<longleftrightarrow> w = v + n \<and> w < u64_end \<and> w \<le> m"
  by (auto simp: charge_build_def checked_add_def)

lemma charge_posting_list_mono:
  "charge_posting_list w m sz p = Ok sz' \<Longrightarrow> m \<le> m' \<Longrightarrow> charge_posting_list w m' sz p = Ok sz'"
  by (auto simp: charge_posting_list_def rbind_Ok_iff charge_build_iff split: if_splits)

lemma rfold_mono:
  assumes "\<And>a x b. f a x = Ok b \<Longrightarrow> g a x = Ok b" and "rfold f a xs = Ok b"
  shows "rfold g a xs = Ok b"
  using assms(2) by (induction xs arbitrary: a) (auto simp: rbind_Ok_iff dest: assms(1))

lemma encode_posting_lists_again:
  assumes "encode_posting_lists t p w m = Ok out" and "length t = length p" and "m \<le> m'"
  shows "encode_posting_lists (map compact_term (ep_terms out)) p w m' = Ok out"
proof -
  obtain sz po so where r: "rfold (charge_posting_list w m) 0 p = Ok sz"
      "rfold (encode_posting_list w) (\<lparr>ep_terms = [], ep_postings = [], ep_skips = []\<rparr>, 0, 0) (zip t p) = Ok (out, po, so)"
    using assms(1) by (auto simp: encode_posting_lists_def rbind_Ok_iff)
  have "rfold (charge_posting_list w m') 0 p = Ok sz"
    by (rule rfold_mono [OF _ r(1)]) (rule charge_posting_list_mono [OF _ assms(3)])
  moreover have "list_all2 (\<lambda>t' t. te_key t' = te_key t \<and> te_key_hash t' = te_key_hash t \<and> te_flags t' = te_flags t)
      (map compact_term (ep_terms out)) t"
    using posting_terms(1,4) [OF r(2) assms(2)] by (simp add: list_all2_conv_all_nth entry_for_def compact_term_def)
  ultimately show ?thesis using r(2) encode_again by (simp add: encode_posting_lists_def)
qed

lemma check_parts_mono:
  assumes "check_parts l g t p = Ok ()" and "map te_key t' = map te_key t" and "max_granules l \<le> max_granules l'"
    and "max_distinct_keys l \<le> max_distinct_keys l'" and "max_key_bytes l \<le> max_key_bytes l'" and "max_posting_ids l \<le> max_posting_ids l'"
  shows "check_parts l' g t' p = Ok ()"
proof -
  let ?key = "\<lambda>l key_bytes term. rbind (usize_to_u64 (length (te_key term))) (\<lambda>n. charge_build key_bytes n (max_key_bytes l))"
  let ?ids = "\<lambda>l count0 posting_list. rbind (usize_to_u64 (length posting_list)) (\<lambda>n. charge_build count0 n (max_posting_ids l))"
  obtain n1 c1 n2 c2 c3 c4 where r: "usize_to_u64 (length g) = Ok n1" "charge_build 0 n1 (max_granules l) = Ok c1"
      "usize_to_u64 (length t) = Ok n2" "charge_build 0 n2 (max_distinct_keys l) = Ok c2" "rfold (?key l) 0 t = Ok c3" "rfold (?ids l) 0 p = Ok c4"
    using assms(1) by (auto simp: check_parts_def rbind_Ok_iff)
  have k: "rfold (?key l') a t' = rfold (\<lambda>b key. rbind (usize_to_u64 (length key)) (\<lambda>n. charge_build b n (max_key_bytes l'))) a (map te_key t')" for a and l' :: IndexBuildLimits and t'
    by (induction t' arbitrary: a) (auto intro!: rbind_cong)
  have "rfold (?key l') 0 t = Ok c3"
    by (rule rfold_mono [OF _ r(5)]) (use assms(5) in \<open>auto simp: rbind_Ok_iff charge_build_iff\<close>)
  then have "rfold (?key l') 0 t' = Ok c3" using k [of l' 0 t] k [of l' 0 t'] assms(2) by simp
  moreover have "rfold (?ids l') 0 p = Ok c4"
    by (rule rfold_mono [OF _ r(6)]) (use assms(6) in \<open>auto simp: rbind_Ok_iff charge_build_iff\<close>)
  moreover have "length t' = length t" using assms(2) by (metis length_map)
  ultimately show ?thesis
    using r assms(3,4) by (simp add: check_parts_def rbind_Ok_iff charge_build_iff)
qed

lemma windows2_keys: "windows2_all (\<lambda>s t. te_key s < te_key t) ts \<longleftrightarrow> windows2_all (<) (map te_key ts)"
  by (induction ts rule: induct_list012) simp_all

lemma shape_same:
  assumes "validate_term_dictionary_shape t p n = Ok ()" and "map te_key t' = map te_key t" and "map te_flags t' = map te_flags t"
  shows "validate_term_dictionary_shape t' p n = Ok ()"
proof -
  have l: "length t' = length t" using assms(2) by (metis length_map)
  let ?f = "\<lambda>_ (term, posting_list). if te_flags term \<noteq> 0 then Err InvalidFlags else validate_posting_list n posting_list"
  have "list_all2 (\<lambda>x y. te_flags x = te_flags y) t' t" using assms(3) l unfolding list_all2_conv_all_nth by (metis nth_map)
  then have "rfold ?f a (zip t' p) = rfold ?f a (zip t p)" for a
  proof (induction t' t arbitrary: p a rule: list_all2_induct)
    case (Cons x xs y ys)
    then show ?case by (cases p) (auto intro!: rbind_cong)
  qed simp
  then show ?thesis using assms(1,2) l by (simp add: validate_term_dictionary_shape_def windows2_keys split: if_splits)
qed

section \<open>What a built index fits\<close>

context chunk_source
begin

lemma entries_width: "length entries < u64_end"
proof -
  have "1 \<le> uncompressed_size e" if "e \<in> set entries" for e
    using that layout_nth(4) [OF layout] by (metis One_nat_def Suc_leI in_set_conv_nth)
  then have "sum_list (map (\<lambda>_. 1) entries) \<le> sum_list (map uncompressed_size entries)" by (rule sum_list_mono)
  then show ?thesis using total total_width by (simp add: sum_list_triv)
qed

lemma span_bounds:
  assumes "chunk_span_for_range entries s e = Ok (a, b)" and "s < e"
  shows "a < b" and "b \<le> length entries"
proof -
  have w: "sum_list (map uncompressed_size entries) < u64_end" using total total_width by simp
  obtain j where j: "chunk_index_for_logical_offset entries s = Ok j" "sum_list (map uncompressed_size (take j entries)) \<le> s"
    by (rule chunk_index_search [OF layout w, of s])
  obtain k where k: "chunk_index_for_logical_offset entries (e - 1) = Ok k"
      "k < length entries \<Longrightarrow> e - 1 < sum_list (map uncompressed_size (take (Suc k) entries))"
    using chunk_index_search [OF layout w, of "e - 1"] by blast
  note run = assms(1) [unfolded chunk_span_for_range_def j(1) k(1) rbind.simps]
  have l: "j < length entries" "k < length entries" "a = chunk_id (entries ! j)" "b = chunk_id (entries ! k) + 1"
    using run by (auto simp: rbind_Ok_iff result_simps get_def checked_add_def split: if_splits)
  have "j \<le> k"
  proof (rule ccontr)
    assume "\<not> j \<le> k"
    then have "sum_list (map uncompressed_size (take (Suc k) entries)) \<le> sum_list (map uncompressed_size (take j entries))"
      by (intro sum_take_mono) simp
    then show False using j(2) k(2) l(2) assms(2) by linarith
  qed
  then show "a < b" "b \<le> length entries" using l layout_nth(1) [OF layout] by simp_all
qed

end

context indexed_text
begin

lemma granules_lines: "length granules = length lines"
  using index by (simp add: index_of_text_def granules_are_lines_def)

lemma granule_facts:
  assumes "i < length granules"
  shows "granule_at_line entries lines i (granules ! i)" and "validate_granule_chunk_span (granules ! i) entries total = Ok ()"
    and "sg_chunk_start (granules ! i) < sg_chunk_end (granules ! i)" and "sg_chunk_end (granules ! i) < u64_end"
    and "sg_logical_offset (granules ! i) + sg_byte_length (granules ! i) < u64_end"
proof -
  have i: "i < length lines" using assms granules_lines by simp
  show g: "granule_at_line entries lines i (granules ! i)" using index assms by (auto simp: index_of_text_def granules_are_lines_def)
  note t = text_line_facts(1) [OF i] granule(4) [OF i]
  have span: "chunk_span_for_range entries (sg_logical_offset (granules ! i)) (sg_logical_offset (granules ! i) + sg_byte_length (granules ! i)) =
      Ok (sg_chunk_start (granules ! i), sg_chunk_end (granules ! i))"
    using g by (simp add: granule_at_line_def)
  have pos: "0 < sg_byte_length (granules ! i)" using g t(1) by (simp add: granule_at_line_def)
  note b = span_bounds [OF span]
  show c: "sg_chunk_start (granules ! i) < sg_chunk_end (granules ! i)" "sg_chunk_end (granules ! i) < u64_end"
      "sg_logical_offset (granules ! i) + sg_byte_length (granules ! i) < u64_end"
    using b pos entries_width t(2) total_width by simp_all
  show "validate_granule_chunk_span (granules ! i) entries total = Ok ()"
    using b pos c t(2) span entries_width by (simp add: validate_granule_chunk_span_def usize_to_u64_def checked_add_def)
qed

lemma granules_recorded:
  assumes "length granules < u64_end" and "i < length granules"
  shows "granule_ok (if compact_line_granules_supported granules then LineImpliedV2 else GranuleLegacyV1) i (granules ! i)"
proof -
  note f = granule_facts [OF assms(2)]
  have "sg_byte_length (granules ! i) < u32_end \<and> sg_chunk_start (granules ! i) < u32_end \<and>
      sg_chunk_end (granules ! i) - sg_chunk_start (granules ! i) < u32_end" if "compact_line_granules_supported granules"
    using that assms(2) by (auto simp: compact_line_granules_supported_def list_all_length nth_enumerate_eq)
  then show ?thesis using f assms by (auto simp: granule_ok_def granule_at_line_def)
qed

lemma posting_facts:
  assumes "k < length ks"
  shows "postings ! k \<noteq> []" and "\<forall>v \<in> set (postings ! k). v < length granules" and "length (postings ! k) \<le> length granules"
    and "length postings = length ks"
proof -
  have p: "postings ! k = ids_with (keys_of mode) lines (ks ! k)" "length postings = length ks"
    using index assms by (auto simp: index_of_text_def)
  show "length postings = length ks" by (rule p(2))
  have "ks ! k \<in> (\<Union>l \<in> set lines. keys_of mode l)" using index assms by (auto simp: index_of_text_def)
  then obtain i where "i < length lines" "ks ! k \<in> keys_of mode (lines ! i)" by (auto simp: in_set_conv_nth)
  then show "postings ! k \<noteq> []" by (auto simp: p(1) ids_with_def filter_empty_conv)
  show "\<forall>v \<in> set (postings ! k). v < length granules" by (simp add: p(1) ids_with_def granules_lines)
  show "length (postings ! k) \<le> length granules"
    using length_filter_le [of "\<lambda>i. ks ! k \<in> keys_of mode (lines ! i)" "[0 ..< length lines]"] by (simp add: p(1) ids_with_def granules_lines)
qed

lemma keys_nonempty:
  assumes "key \<in> set ks" and "mode \<noteq> Ngram 0"
  shows "key \<noteq> []"
proof -
  obtain l where l: "l \<in> set lines" "key \<in> keys_of mode l" using index assms(1) by (auto simp: index_of_text_def)
  show ?thesis
  proof (cases mode)
    case Token
    then show ?thesis using l(2) by (auto simp: keys_of_def token_keys_def lower_def token_at_def slice_def)
  next
    case (Ngram n)
    then have n: "0 < n" using assms(2) by auto
    obtain w where w: "w + n < length (boundaries l)" "key = slice l (boundaries l ! w) (boundaries l ! (w + n))"
      using l(2) by (auto simp: keys_of_def Ngram ngram_keys_def ngram_bounds_nth [OF n])
    have "sorted_wrt (<) (boundaries l)"
      by (auto simp: boundaries_def sorted_wrt_append char_starts_def sorted_wrt_filter)
    then have "boundaries l ! w < boundaries l ! (w + n)" using w(1) n by (simp add: sorted_wrt_iff_nth_less)
    moreover have "\<forall>b \<in> set (boundaries l). b \<le> length l" by (auto simp: boundaries_def char_starts_def)
    ultimately have "boundaries l ! w < boundaries l ! (w + n)" "boundaries l ! (w + n) \<le> length l" using w(1) by auto
    then show ?thesis by (auto simp: w(2) slice_def)
  qed
qed

end

section \<open>Sizes\<close>

lemma write_varuint_bits: "v < 2 ^ (7 * Suc k) \<Longrightarrow> length (write_varuint v) \<le> Suc k"
proof (induction k arbitrary: v)
  case 0
  then show ?case by (simp add: write_varuint.simps [of v])
next
  case (Suc k)
  have "drop_bit 7 v < 2 ^ (7 * Suc k)" using Suc.prems by (simp add: drop_bit_eq_div less_mult_imp_div_less power_add)
  from Suc.IH [OF this] show ?case by (simp add: write_varuint.simps [of v])
qed

lemma write_varuint_ten: "v < u64_end \<Longrightarrow> length (write_varuint v) \<le> 10"
  using write_varuint_bits [of v 9] by (simp add: u64_end_def)

lemma write_deltas_ten: "\<forall>v \<in> set vs. v < u64_end \<Longrightarrow> length (write_deltas p vs) \<le> 10 * length vs"
proof (induction vs arbitrary: p)
  case (Cons v vs)
  have "length (write_varuint (v - p)) \<le> 10" using Cons.prems by (intro write_varuint_ten) auto
  then show ?case using Cons.IH [of v] Cons.prems by simp
qed simp

lemma charged_sum:
  assumes "rfold (\<lambda>c x. rbind (usize_to_u64 (f x)) (\<lambda>n. charge_build c n m)) a xs = Ok b" and "a \<le> m"
  shows "b = a + sum_list (map f xs) \<and> b \<le> m"
  using assms
  by (induction xs arbitrary: a) (fastforce simp: rbind_Ok_iff charge_build_iff width_simps)+

lemma check_parts_bounds:
  assumes "check_parts l g t p = Ok ()"
  shows "length g \<le> max_granules l" and "length t \<le> max_distinct_keys l" and "sum_list (map (length \<circ> te_key) t) \<le> max_key_bytes l"
    and "sum_list (map length p) \<le> max_posting_ids l"
proof -
  obtain c1 c2 where c: "rfold (\<lambda>b x. rbind (usize_to_u64 ((length \<circ> te_key) x)) (\<lambda>n. charge_build b n (max_key_bytes l))) 0 t = Ok c1"
      "rfold (\<lambda>b x. rbind (usize_to_u64 (length x)) (\<lambda>n. charge_build b n (max_posting_ids l))) 0 p = Ok c2"
    "length g \<le> max_granules l" "length t \<le> max_distinct_keys l"
    using assms by (auto simp: check_parts_def rbind_Ok_iff charge_build_iff width_simps)
  show "length g \<le> max_granules l" "length t \<le> max_distinct_keys l" by (rule c)+
  show "sum_list (map (length \<circ> te_key) t) \<le> max_key_bytes l" "sum_list (map length p) \<le> max_posting_ids l"
    using charged_sum [OF c(1)] charged_sum [OF c(2)] by (simp_all add: comp_def)
qed

section \<open>The sections of a built sidecar\<close>

text \<open>What the builder of an index leaves: its parts, checked and encoded under the default limits.\<close>

definition built_parts :: "('h, 'x) ext_scheme \<Rightarrow> ChunkEntry list \<Rightarrow> decoder \<Rightarrow> nat \<Rightarrow> BuildKeys \<Rightarrow> SearchGranule list \<Rightarrow>
  TermDictionaryEntry list \<Rightarrow> u64 list list \<Rightarrow> EncodedPostingLists \<Rightarrow> bool"
where
  "built_parts X entries decode sz mode g t p out \<longleftrightarrow> indexed_text entries decode sz mode g (map te_key t) p \<and> mode \<noteq> Ngram 0 \<and>
     (\<forall>x \<in> set t. x = term_of_key X (te_key x)) \<and> check_parts IndexBuildLimits_default g t p = Ok () \<and> validate_granules sz g = Ok () \<and>
     validate_term_dictionary_shape t p (length g) = Ok () \<and>
     encode_posting_lists t p (mode \<noteq> Token) (max_encoded_bytes IndexBuildLimits_default) = Ok out"

lemma built_lengths:
  assumes "built_parts X entries decode sz mode g t p out"
  shows "length p = length t" and "length g \<le> 1000000" and "length t \<le> 262144" and "sum_list (map (length \<circ> te_key) t) \<le> 16 * 1024 * 1024"
    and "sum_list (map length p) \<le> 8000000"
proof -
  have "validate_term_dictionary_shape t p (length g) = Ok ()" "check_parts IndexBuildLimits_default g t p = Ok ()"
    using assms by (simp_all add: built_parts_def)
  then show "length p = length t" "length g \<le> 1000000" "length t \<le> 262144" "sum_list (map (length \<circ> te_key) t) \<le> 16 * 1024 * 1024"
      "sum_list (map length p) \<le> 8000000"
    using check_parts_bounds [of IndexBuildLimits_default g t p]
    by (simp_all add: validate_term_dictionary_shape_def IndexBuildLimits_default_def split: if_splits)
qed

lemma built_terms:
  assumes "built_parts X entries decode sz mode g t p out"
  shows "length (ep_terms out) = length t" and "map te_key (ep_terms out) = map te_key t" and "list_all2 describes (ep_terms out) p"
    and "posting_offset_at (ep_terms out) (length t) < u64_end"
    and "\<And>i. i < length t \<Longrightarrow> term_ok X (posting_offset_at (ep_terms out) i) (ep_terms out ! i) \<and>
       te_granule_frequency (ep_terms out ! i) \<le> length g \<and> te_posting_size (ep_terms out ! i) \<le> 10 * length (p ! i)"
proof -
  let ?ts = "ep_terms out"
  note b = assms [unfolded built_parts_def]
  have it: "indexed_text entries decode sz mode g (map te_key t) p" using b by blast
  note l = built_lengths [OF assms]
  obtain po so where r: "rfold (encode_posting_list (mode \<noteq> Token)) (\<lparr>ep_terms = [], ep_postings = [], ep_skips = []\<rparr>, 0, 0) (zip t p) = Ok (out, po, so)"
    using b by (auto simp: encode_posting_lists_def rbind_Ok_iff)
  note pt = posting_terms [OF r l(1) [symmetric]]
  show len: "length ?ts = length t" by (rule pt(1))
  show total: "posting_offset_at ?ts (length t) < u64_end" using pt(2,3) by simp
  show keys: "map te_key ?ts = map te_key t"
    using pt(4) len by (auto simp: entry_for_def intro: nth_equalityI)
  have small: "v < u64_end" if "i < length t" "v \<in> set (p ! i)" for i v
    using indexed_text.posting_facts(2) [OF it, of i] that l(2) by (fastforce simp: u64_end_def)
  have desc: "describes (?ts ! i) (p ! i)" if "i < length t" for i
    using pt(4) [OF that] small [OF that] by (simp add: describes_def entry_for_def)
  then show "list_all2 describes ?ts p" using len l(1) by (simp add: list_all2_conv_all_nth)
  fix i assume i: "i < length t"
  note e = pt(4) [OF i, unfolded entry_for_def] and d = desc [OF i, unfolded describes_def]
  have w: "te_posting_size (?ts ! i) = length (write_deltas 0 (p ! i))" using d by (simp add: encoded_size_Ok_iff')
  have ne: "p ! i \<noteq> []" "length (p ! i) \<le> length g" using indexed_text.posting_facts(1,3) [OF it, of i] i by simp_all
  have ti: "t ! i = term_of_key X (te_key (t ! i))" using b i by simp
  have th: "te_key_hash (t ! i) = key_hash X (te_key (t ! i))" "te_flags (t ! i) = 0" by (subst ti, simp add: term_of_key_def)+
  have "te_key (t ! i) \<noteq> []" using indexed_text.keys_nonempty [OF it, of "te_key (t ! i)"] b i by simp
  moreover have "length (te_key (t ! i)) < u64_end"
    using member_le_sum_list [of "length (te_key (t ! i))" "map (length \<circ> te_key) t"] i l(4) by (simp add: u64_end_def)
  moreover have "posting_offset_at ?ts i + te_posting_size (?ts ! i) < u64_end"
    using posting_offset_Suc [of i ?ts] posting_offset_mono [of "Suc i" "length t" ?ts] total i len by simp
  moreover have "0 < te_posting_size (?ts ! i)" using write_deltas_Nil_iff [of 0 "p ! i"] ne w by (cases "write_deltas 0 (p ! i)") auto
  ultimately show "term_ok X (posting_offset_at ?ts i) (?ts ! i) \<and> te_granule_frequency (?ts ! i) \<le> length g \<and>
      te_posting_size (?ts ! i) \<le> 10 * length (p ! i)"
    using e th ne l(2) w write_deltas_ten [of "p ! i" 0] small [OF i] by (simp add: term_ok_def u64_end_def)
qed

lemma term_records_length:
  assumes "list_all2 (\<lambda>t b. encode_term CompactV2 t = Ok b) ts bss" and "\<forall>t \<in> set ts. \<exists>off. term_ok X off t"
  shows "length (concat bss) \<le> sum_list (map (length \<circ> te_key) ts) + 30 * length ts"
  using assms
proof (induction ts bss rule: list_all2_induct)
  case (Cons t ts b bss)
  obtain off where "term_ok X off t" using Cons.prems by auto
  then have "length (sidecar_write_varuint (length (te_key t))) \<le> 10" "length (sidecar_write_varuint (te_granule_frequency t)) \<le> 10"
      "length (sidecar_write_varuint (te_posting_size t)) \<le> 10"
    by (auto simp: sidecar_write_varuint_eq term_ok_def intro!: write_varuint_ten)
  then have "length b \<le> length (te_key t) + 30" using encode_term_compact [OF Cons.hyps(1)] by simp
  then show ?case using Cons.IH Cons.prems by simp
qed simp

lemma posting_sizes_sum:
  "list_all2 (\<lambda>t q. te_posting_size t \<le> 10 * length q) ts ps \<Longrightarrow> sum_list (map te_posting_size ts) \<le> 10 * sum_list (map length ps)"
  by (induction ts ps rule: list_all2_induct) simp_all

lemma built_sections:
  assumes "built_parts X entries decode sz mode g t p out"
    and "encode_granules g (if compact_line_granules_supported g then LineImpliedV2 else GranuleLegacyV1) = Ok gb"
    and "encode_terms (ep_terms out) CompactV2 = Ok tb" and "encode_posting_section p = Ok pb" and "length tb < u64_end" and "length pb < u64_end"
  shows "decode_granules gb (if compact_line_granules_supported g then LineImpliedV2 else GranuleLegacyV1) SidecarLimits_default = Ok g"
    and "length gb \<le> 10000000 * record_len (if compact_line_granules_supported g then LineImpliedV2 else GranuleLegacyV1) + 8"
    and "rfold (\<lambda>_ x. validate_granule_chunk_span x entries sz) () g = Ok ()"
    and "decode_terms X tb CompactV2 SidecarLimits_default = Ok (map compact_term (ep_terms out))" and "length tb \<le> 64 * 1024 * 1024"
    and "validate_file_term_dictionary X (map compact_term (ep_terms out)) (length pb) CompactV2 (length g) = Ok ()"
    and "decode_posting_section pb (map compact_term (ep_terms out)) SidecarLimits_default = Ok p" and "length pb \<le> 256 * 1024 * 1024"
    and "validate_decoded_postings (map compact_term (ep_terms out)) p (length g) = Ok ()"
proof -
  let ?ts = "ep_terms out"
  note b = assms(1) [unfolded built_parts_def] and l = built_lengths [OF assms(1)] and bt = built_terms [OF assms(1)]
  have it: "indexed_text entries decode sz mode g (map te_key t) p" using b by blast
  have small: "length g < u64_end" using l(2) by (simp add: u64_end_def)
  note gr = granules_roundtrip [OF assms(2) indexed_text.granules_recorded [OF it small], of SidecarLimits_default]
  have rl: "record_len enc \<le> 56" for enc by (cases enc) (simp_all add: SIDECAR_LEGACY_RECORD_LEN_def SIDECAR_COMPACT_RECORD_LEN_def)
  have fits: "length g * record_len enc + 8 < u64_end" for enc
    using mult_le_mono [OF l(2) rl [of enc]] by (simp add: u64_end_def)
  show "decode_granules gb (if compact_line_granules_supported g then LineImpliedV2 else GranuleLegacyV1) SidecarLimits_default = Ok g"
      "length gb \<le> 10000000 * record_len (if compact_line_granules_supported g then LineImpliedV2 else GranuleLegacyV1) + 8"
    using gr fits l(2) by (simp_all add: SidecarLimits_default_def)
  show "rfold (\<lambda>_ x. validate_granule_chunk_span x entries sz) () g = Ok ()"
    using rfold_nth [of g "\<lambda>_ x. validate_granule_chunk_span x entries sz" "\<lambda>_. ()"] indexed_text.granule_facts(2) [OF it] by simp
  have sorted: "sorted_wrt (<) (map te_key ?ts)"
    unfolding bt(2) using indexed_text.index [OF it] by (simp add: index_of_text_def)
  have terms: "\<forall>x \<in> set ?ts. \<exists>off. term_ok X off x" using bt(1,5) by (metis in_set_conv_nth)
  show tb: "length tb \<le> 64 * 1024 * 1024"
  proof -
    have "rfold (\<lambda>bs t. rbind (encode_term CompactV2 t) (\<lambda>b. Ok (bs @ b))) (write_u64 (length ?ts)) ?ts = Ok tb"
      using assms(3) by (auto simp: encode_terms_def rbind_Ok_iff usize_to_u64_def split: if_splits)
    then obtain bss where bss: "list_all2 (\<lambda>t b. encode_term CompactV2 t = Ok b) ?ts bss" "tb = write_u64 (length ?ts) @ concat bss"
      by (rule rfold_concat_Ok)
    have "sum_list (map (length \<circ> te_key) ?ts) = sum_list (map (length \<circ> te_key) t)"
      using bt(2) by (metis map_map)
    then show ?thesis using term_records_length [OF bss(1) terms] l(3,4) bt(1) by (simp add: bss(2) write_u64_def)
  qed
  show "decode_terms X tb CompactV2 SidecarLimits_default = Ok (map compact_term ?ts)"
    using terms_roundtrip [OF assms(3) _ sorted, of X SidecarLimits_default] bt(1,5) l(3) tb assms(5)
    by (simp add: SidecarLimits_default_def)
  have ids: "ids_before p (length p) \<le> 8000000" using l(5) by (simp add: ids_before_def)
  have sizes: "list_all2 (\<lambda>t q. te_posting_size t \<le> 10 * length q) ?ts p" using bt(1,5) l(1) by (simp add: list_all2_conv_all_nth)
  have list_size: "te_posting_size x \<le> 64 * 1024 * 1024" if mem: "x \<in> set ?ts" for x
  proof -
    obtain i where i: "i < length t" "x = ?ts ! i" using mem bt(1) by (auto simp: in_set_conv_nth)
    moreover have "length (p ! i) \<le> length g" using indexed_text.posting_facts(3) [OF it, of i] i(1) by simp
    ultimately show ?thesis using bt(5) [OF i(1)] l(2) by simp
  qed
  have offs: "te_posting_offset (?ts ! i) = posting_offset_at ?ts i" if "i < length ?ts" for i
    using bt(1) bt(5) [of i] that by (simp add: term_ok_def)
  note rt = postings_roundtrip [OF assms(4) bt(3) offs]
  have pb1: "length pb = posting_offset_at ?ts (length ?ts)"
    by (rule rt(1) [of "SidecarLimits_default\<lparr>sl_max_postings_size := length pb\<rparr>"])
       (use ids list_size assms(6) in \<open>simp_all add: SidecarLimits_default_def u64_end_def\<close>)
  have pb: "length pb = posting_offset_at ?ts (length ?ts)" "length pb \<le> 256 * 1024 * 1024"
    using pb1 posting_sizes_sum [OF sizes] l(5) by (simp_all add: posting_offset_at_def)
  show "length pb \<le> 256 * 1024 * 1024" by (rule pb)
  show "decode_posting_section pb (map compact_term ?ts) SidecarLimits_default = Ok p"
    by (rule rt(2)) (use ids list_size pb(2) assms(6) in \<open>simp_all add: SidecarLimits_default_def u64_end_def\<close>)
  show "validate_file_term_dictionary X (map compact_term ?ts) (length pb) CompactV2 (length g) = Ok ()"
    unfolding pb(1) using term_dictionary_accepted [OF _ sorted, of X "length g"] bt(1,5) by simp
  have "length (p ! i) < u64_end \<and> te_granule_frequency (?ts ! i) = length (p ! i) \<and> \<not> list_ex (\<lambda>id. id \<ge> length g) (p ! i)" if "i < length p" for i
    using bt(3) indexed_text.posting_facts(2,3) [OF it, of i] that l(1) small
    by (force simp: list_all2_conv_all_nth describes_def list_ex_iff)
  then show "validate_decoded_postings (map compact_term ?ts) p (length g) = Ok ()"
    using bt(1) l(1) small rfold_nth [of "zip (map compact_term ?ts) p" "\<lambda>_ (term, posting). rbind (usize_to_u64 (length posting)) (\<lambda>n.
        if te_granule_frequency term \<noteq> n \<or> list_ex (\<lambda>id. id \<ge> length g) posting then Err ContainerCorrupt else Ok ())" "\<lambda>_. ()"]
    by (simp add: validate_decoded_postings_def)
qed

section \<open>The parts of a built index\<close>

lemma streamed_terms:
  assumes "build_line_index_streaming X entries n m l decode mode = Ok (g, t, p)"
  shows "\<forall>x \<in> set t. x = term_of_key X (te_key x)"
  using assms by (auto simp: build_line_index_streaming_def rbind_Ok_iff term_of_key_def)

lemma reconstruction_widens:
  "max_granules IndexBuildLimits_default \<le> max_granules (reconstruction_limits SidecarLimits_default)"
  "max_distinct_keys IndexBuildLimits_default \<le> max_distinct_keys (reconstruction_limits SidecarLimits_default)"
  "max_key_bytes IndexBuildLimits_default \<le> max_key_bytes (reconstruction_limits SidecarLimits_default)"
  "max_posting_ids IndexBuildLimits_default \<le> max_posting_ids (reconstruction_limits SidecarLimits_default)"
  "max_encoded_bytes IndexBuildLimits_default \<le> max_encoded_bytes (reconstruction_limits SidecarLimits_default)"
  by (simp_all add: IndexBuildLimits_default_def reconstruction_limits_def SidecarLimits_default_def u64_end_def)

text \<open>The checks that restoring an index repeats.\<close>

lemma parts_restored:
  assumes "built_parts X entries decode sz mode g t p out"
  shows "check_parts (reconstruction_limits SidecarLimits_default) g (map compact_term (ep_terms out)) p = Ok ()"
    and "validate_granules sz g = Ok ()"
    and "validate_term_dictionary_shape (map compact_term (ep_terms out)) p (length g) = Ok ()"
    and "encode_posting_lists (map compact_term (ep_terms out)) p (mode \<noteq> Token) (max_encoded_bytes (reconstruction_limits SidecarLimits_default)) = Ok out"
proof -
  note b = assms [unfolded built_parts_def] and l = built_lengths [OF assms] and bt = built_terms [OF assms]
  have keys: "map te_key (map compact_term (ep_terms out)) = map te_key t" using bt(2) by (simp add: comp_def)
  have "te_flags x = 0" if "x \<in> set t" for x
  proof -
    have "x = term_of_key X (te_key x)" using b that by blast
    then show ?thesis by (metis term_of_key_def TermDictionaryEntry.select_convs(9))
  qed
  then have flags: "map te_flags (map compact_term (ep_terms out)) = map te_flags t"
    using bt(1,5) by (intro nth_equalityI) (auto simp: term_ok_def)
  show "check_parts (reconstruction_limits SidecarLimits_default) g (map compact_term (ep_terms out)) p = Ok ()"
    by (rule check_parts_mono [OF _ keys reconstruction_widens(1-4)]) (use b in blast)
  show "validate_granules sz g = Ok ()" using b by blast
  show "validate_term_dictionary_shape (map compact_term (ep_terms out)) p (length g) = Ok ()"
    by (rule shape_same [OF _ keys flags]) (use b in blast)
  show "encode_posting_lists (map compact_term (ep_terms out)) p (mode \<noteq> Token) (max_encoded_bytes (reconstruction_limits SidecarLimits_default)) = Ok out"
    by (rule encode_posting_lists_again [OF _ l(1) [symmetric] reconstruction_widens(5)]) (use b in blast)
qed

lemma token_built_parts:
  assumes "opened_reader X bs ResourceLimits_default = Some r" and "fr_details f = qr_details r"
    and "QztFileReader_decode_entry X f = QztReader_decode_entry X r" and "RawTokenIndex_build_from_file X f TokenIndexBuildOptions_default = Ok ix"
  obtains t out where "built_parts X (sk_chunk_entries (qr_details r)) (QztReader_decode_entry X r) (ss_original_size (sk_summary (qr_details r)))
      Token (rt_granules ix) t (rt_postings ix) out" and "rt_terms ix = ep_terms out" and "rt_complete ix"
    and "RawTokenIndex_from_parts (ss_container_id (sk_summary (qr_details r))) (ss_original_size (sk_summary (qr_details r))) (rt_granules ix)
      (map compact_term (ep_terms out)) (rt_postings ix) (reconstruction_limits SidecarLimits_default) = Ok ix"
proof -
  let ?d = "qr_details r"
  obtain g t p where g: "build_line_index_streaming X (sk_chunk_entries ?d) (ss_original_size (sk_summary ?d)) (16 * 1024 * 1024)
        IndexBuildLimits_default (QztReader_decode_entry X r) Token = Ok (g, t, p)"
      "RawTokenIndex_from_parts (ss_container_id (sk_summary ?d)) (ss_original_size (sk_summary ?d)) g t p IndexBuildLimits_default = Ok ix"
    using assms(4) by (auto simp: RawTokenIndex_build_from_file_def TokenIndexBuildOptions_default_def rbind_Ok_iff assms(2,3) Let_def)
  obtain out where out: "check_parts IndexBuildLimits_default g t p = Ok ()" "validate_granules (ss_original_size (sk_summary ?d)) g = Ok ()"
      "validate_term_dictionary_shape t p (length g) = Ok ()"
      "encode_posting_lists t p False (max_encoded_bytes IndexBuildLimits_default) = Ok out"
      "ix = \<lparr>rt_container_id = ss_container_id (sk_summary ?d), rt_source_size_bytes = ss_original_size (sk_summary ?d), rt_source = RawUtf8,
         rt_posting_granularity = Line, rt_complete = True, rt_granules = g, rt_terms = ep_terms out, rt_postings = p,
         rt_encoded_postings = ep_postings out\<rparr>"
    using g(2) by (auto simp: RawTokenIndex_from_parts_def rbind_Ok_iff)
  have bp: "built_parts X (sk_chunk_entries ?d) (QztReader_decode_entry X r) (ss_original_size (sk_summary ?d)) Token g t p out"
    using built_for_reader [OF assms(1) g(1)] streamed_terms [OF g(1)] out(1-4) by (simp add: built_parts_def)
  note res = parts_restored [OF bp]
  show thesis
    by (rule that [of t out]) (use bp res out(5) in \<open>simp_all add: RawTokenIndex_from_parts_def\<close>)
qed

lemma ngram_built_parts:
  assumes "opened_reader X bs ResourceLimits_default = Some r" and "fr_details f = qr_details r"
    and "QztFileReader_decode_entry X f = QztReader_decode_entry X r"
    and "RawNgramIndex_build_from_file X f (NgramIndexBuildOptions_default\<lparr>no_n := n\<rparr>) = Ok ix"
  obtains t out where "built_parts X (sk_chunk_entries (qr_details r)) (QztReader_decode_entry X r) (ss_original_size (sk_summary (qr_details r)))
      (Ngram n) (rn_granules ix) t (rn_postings ix) out" and "rn_terms ix = ep_terms out" and "rn_complete ix" and "pc_high_df_per_million (rn_planner_config ix) = 200000"
    and "RawNgramIndex_from_parts (ss_container_id (sk_summary (qr_details r))) (ss_original_size (sk_summary (qr_details r))) (rn_granules ix)
      (map compact_term (ep_terms out)) (rn_postings ix) (NgramIndexBuildOptions_default\<lparr>no_n := n, no_complete := True,
         no_high_df_per_million := 200000, no_limits := reconstruction_limits SidecarLimits_default\<rparr>) = Ok ix"
proof -
  let ?d = "qr_details r"
  obtain g t p where g: "build_line_index_streaming X (sk_chunk_entries ?d) (ss_original_size (sk_summary ?d)) (16 * 1024 * 1024)
        IndexBuildLimits_default (QztReader_decode_entry X r) (Ngram n) = Ok (g, t, p)"
      "RawNgramIndex_from_parts (ss_container_id (sk_summary ?d)) (ss_original_size (sk_summary ?d)) g t p (NgramIndexBuildOptions_default\<lparr>no_n := n\<rparr>) = Ok ix"
    using assms(4) by (auto simp: RawNgramIndex_build_from_file_def NgramIndexBuildOptions_default_def rbind_Ok_iff assms(2,3) Let_def split: if_splits)
  obtain out where out: "check_parts IndexBuildLimits_default g t p = Ok ()" "validate_granules (ss_original_size (sk_summary ?d)) g = Ok ()"
      "validate_term_dictionary_shape t p (length g) = Ok ()" "0 < n"
      "encode_posting_lists t p True (max_encoded_bytes IndexBuildLimits_default) = Ok out"
      "ix = \<lparr>rn_container_id = ss_container_id (sk_summary ?d), rn_source_size_bytes = ss_original_size (sk_summary ?d), rn_source = RawUtf8,
            rn_posting_granularity = Line, rn_complete = True,
            rn_declaration = \<lparr>nd_n = n, nd_unit = UnicodeScalar, nd_normalization = ''none'', nd_case_fold = False,
              nd_boundary_mode = ''adjacent_decode'', nd_boundary_window_bytes = 4096\<rparr>,
            rn_planner_config = PlannerConfig_default\<lparr>pc_high_df_per_million := 200000\<rparr>,
            rn_granules = g, rn_terms = ep_terms out, rn_postings = p, rn_skip_data = ep_skips out,
            rn_encoded_postings = ep_postings out\<rparr>"
    using g(2) by (auto simp: RawNgramIndex_from_parts_def NgramIndexBuildOptions_default_def rbind_Ok_iff split: if_splits)
  have bp: "built_parts X (sk_chunk_entries ?d) (QztReader_decode_entry X r) (ss_original_size (sk_summary ?d)) (Ngram n) g t p out"
    using built_for_reader [OF assms(1) g(1)] streamed_terms [OF g(1)] out(1-5) by (simp add: built_parts_def)
  note res = parts_restored [OF bp]
  show thesis
    by (rule that [of t out]) (use bp res out(4,6) in \<open>simp_all add: RawNgramIndex_from_parts_def NgramIndexBuildOptions_default_def\<close>)
qed

end
