(* ===== verification/Sidecar_Open.thy ===== *)
theory Sidecar_Open
  imports Sidecar_Roundtrip
begin

text \<open>
  Opening a sidecar beside the container it was built from (src/src/sidecar.rs).
\<close>

section \<open>Facts of the container\<close>

lemma required_bstr_length: "required_bstr n es key err = Ok b \<Longrightarrow> length b = n"
proof (unfold required_bstr_def, erule rbindE)
  fix v assume "(case v of Bytes bs \<Rightarrow> if length bs = n then Ok bs else Err err | _ \<Rightarrow> Err err) = Ok b"
  then show "length b = n" by (cases v) (auto split: if_splits)
qed

lemma required_checksum_wf: "required_checksum es key err = Ok c \<Longrightarrow> Checksum_wf c"
  by (auto simp: required_checksum_def required_bstr32_def rbind_Ok_iff Checksum_wf_def Checksum_from_raw_bytes_def
      dest: required_bstr_length split: if_splits)

lemma Metadata_decode_wf:
  assumes "Metadata_decode bs = Ok m"
  shows "Checksum_wf (md_original_checksum m)"
  using assms by (auto simp: Metadata_decode_def rbind_Ok_iff required_checksum_wf split: if_splits)

lemma opened_identity:
  assumes "open_skeleton_details_with_limits X bs limits = Ok d"
  shows "length (ss_container_id (sk_summary d)) = 16" and "Checksum_wf (md_original_checksum (sk_metadata d))"
proof -
  obtain h t f m r ct es dicts dense docs where p: "container_parts X bs limits h t f m r ct es"
    and d: "d = skeleton_details h t f m r es dicts dense docs"
    using assms unfolding open_Ok_iff by blast
  obtain mb where "Metadata_decode mb = Ok m" "Header_wf h" using p by (auto simp: container_parts_def)
  then show "length (ss_container_id (sk_summary d)) = 16" "Checksum_wf (md_original_checksum (sk_metadata d))"
    using Metadata_decode_wf by (auto simp: d skeleton_details_def Header_wf_def)
qed

lemma footer_checksum_same:
  assumes "QztReader_footer_checksum X \<lparr>qr_bytes = bs, qr_details = d\<rparr> = Ok c"
  shows "qzt_footer_checksum X bs (sk_footer_payload_offset d) = Ok c"
  using assms by (auto simp: QztReader_footer_checksum_def qzt_footer_checksum_def rbind_Ok_iff result_simps)

section \<open>Slices of a sidecar\<close>

lemma section_slice_at:
  assumes "bs = a @ x @ b" and "length bs < u64_end" and "base + off = length a"
  shows "section_slice X bs base \<lparr>sec_offset = off, sec_size = length x, sec_checksum = Checksum_blake3 X x\<rparr> = Ok x"
proof -
  have "slice bs (length a) (length a + length x) = x" by (simp add: assms(1) slice_def)
  then show ?thesis
    using assms by (simp add: section_slice_def u64_to_usize_def checked_add_def get_slice_def)
qed

text \<open>The manifest a build writes, with the sections it describes.\<close>

definition built_manifest :: "('h, 'x) ext_scheme \<Rightarrow> SkeletonDetails \<Rightarrow> Checksum \<Rightarrow> string \<Rightarrow> usize option \<Rightarrow> GranuleEncoding \<Rightarrow>
  bytes \<Rightarrow> bytes \<Rightarrow> bytes \<Rightarrow> SidecarManifest"
where
  "built_manifest X d fc index_type n ge gb tb pb =
     \<lparr>mf_source_container_id = ss_container_id (sk_summary d),
      mf_source_original_checksum = md_original_checksum (sk_metadata d),
      mf_source_qzt_footer_checksum = fc, mf_index_type = index_type, mf_ngram_n = n,
      mf_complete = True, mf_high_df_per_million = 200000,
      mf_index_size_bytes = length gb + length tb + length pb, mf_source_size_bytes = ss_original_size (sk_summary d),
      mf_format_version = V2, mf_granule_encoding = ge, mf_term_encoding = CompactV2,
      mf_granules = \<lparr>sec_offset = 0, sec_size = length gb, sec_checksum = Checksum_blake3 X gb\<rparr>,
      mf_terms = \<lparr>sec_offset = length gb, sec_size = length tb, sec_checksum = Checksum_blake3 X tb\<rparr>,
      mf_postings = \<lparr>sec_offset = length gb + length tb, sec_size = length pb, sec_checksum = Checksum_blake3 X pb\<rparr>\<rparr>"

lemma built_manifest_wf:
  assumes "open_skeleton_details_with_limits X bs limits = Ok d" and "blake3_documented X" and "Checksum_wf fc"
    and "index_type \<in> {''token'', ''ngram''}" and "case n of None \<Rightarrow> True | Some n \<Rightarrow> n < u64_end"
    and "length gb + length tb + length pb < u64_end"
  shows "SidecarManifest_wf (built_manifest X d fc index_type n ge gb tb pb)"
  using assms opened_identity [OF assms(1)] opened_layout(3) [OF assms(1)] Checksum_blake3_wf [OF assms(2)]
  by (simp add: SidecarManifest_wf_def built_manifest_def SectionRef_wf_def u32_end_def)

definition chosen_encoding :: "SearchGranule list \<Rightarrow> GranuleEncoding" where
  "chosen_encoding g = (if compact_line_granules_supported g then LineImpliedV2 else GranuleLegacyV1)"

lemma sidecar_opens:
  fixes X :: "('h, 'x) ext_scheme"
  assumes d: "open_skeleton_details X qzt = Ok d" and fc: "qzt_footer_checksum X qzt (sk_footer_payload_offset d) = Ok fc"
    and bp: "built_parts X (sk_chunk_entries d) decode (ss_original_size (sk_summary d)) mode g t p out"
    and enc: "encode_granules g (chosen_encoding g) = Ok gb" "encode_terms (ep_terms out) CompactV2 = Ok tb" "encode_posting_section p = Ok pb"
    and m: "m = built_manifest X d fc index_type n (chosen_encoding g) gb tb pb" "SidecarManifest_wf m" "encode_manifest m = Ok mb"
    and side: "side = SIDECAR_MAGIC @ le_bytes 8 (length mb) @ mb @ gb @ tb @ pb" "length side < u64_end"
    and ix: "restore_index m SidecarLimits_default g (map compact_term (ep_terms out)) p = Ok ix"
  shows "QziSidecar_open X qzt side = Ok \<lparr>qs_manifest = m, qs_index = ix\<rparr>"
proof -
  have ln: "length SIDECAR_MAGIC = 8" "length mb < u64_end" "length tb < u64_end" "length pb < u64_end" "length gb + length tb + length pb < u64_end"
    using side by (simp_all add: SIDECAR_MAGIC_def)
  note sec = built_sections [OF bp enc(1) [unfolded chosen_encoding_def] enc(2,3) ln(3,4), folded chosen_encoding_def]
  note rt = manifest_roundtrip [OF m(2)]
  have mb: "mb = enc (CMap (manifest_entries m))" using rt(1) m(3) by simp
  let ?e = "16 + length mb"
  have start: "\<not> (length side < SIDECAR_HEADER_LEN \<or> slice side 0 8 \<noteq> SIDECAR_MAGIC)"
    by (simp add: side(1) SIDECAR_HEADER_LEN_def SIDECAR_MAGIC_def slice_def)
  have "slice side 8 16 = le_bytes 8 (length mb)" by (simp add: side(1) slice_def SIDECAR_MAGIC_def)
  then have size: "read_u64_le (slice side 8 16) = Ok (length mb)" using read_u64_le_bytes [OF ln(2)] by simp
  have fits: "\<not> length mb > sl_max_manifest_size SidecarLimits_default" using rt(3) by (simp add: mb SidecarLimits_default_def)
  have "slice side 16 ?e = mb" by (simp add: side(1) slice_def SIDECAR_MAGIC_def)
  then have man: "get_slice side SIDECAR_HEADER_LEN ?e = Some mb" "checked_add SIDECAR_HEADER_LEN (length mb) = Some ?e"
    using side by (simp_all add: get_slice_def SIDECAR_HEADER_LEN_def checked_add_def ln(1))
  have dec: "decode_manifest mb = Ok m" using rt(2) mb by simp
  have lim: "validate_manifest_resource_limits m SidecarLimits_default = Ok ()"
    using sec(2,5,8) by (simp add: validate_manifest_resource_limits_def m(1) built_manifest_def SidecarLimits_default_def checked_mul_def
        checked_add_def chosen_encoding_def SIDECAR_LEGACY_RECORD_LEN_def SIDECAR_COMPACT_RECORD_LEN_def u64_end_def)
  have bound: "\<not> mf_source_container_id m \<noteq> ss_container_id (sk_summary d)" "\<not> mf_source_original_checksum m \<noteq> md_original_checksum (sk_metadata d)"
      "\<not> mf_source_qzt_footer_checksum m \<noteq> fc" "\<not> mf_source_size_bytes m \<noteq> ss_original_size (sk_summary d)"
    by (simp_all add: m(1) built_manifest_def)
  have payload: "usize_to_u64 (length side - ?e) = Ok (length gb + length tb + length pb)"
    using ln(5) by (simp add: side(1) ln(1) usize_to_u64_def)
  have lay: "validate_manifest_layout m (length gb + length tb + length pb) = Ok ()"
    using ln(5) by (simp add: validate_manifest_layout_def m(1) built_manifest_def checked_add_def Let_def)
  have slices: "section_slice X side ?e (mf_granules m) = Ok gb" "section_slice X side ?e (mf_terms m) = Ok tb"
      "section_slice X side ?e (mf_postings m) = Ok pb"
    using section_slice_at [of side "SIDECAR_MAGIC @ le_bytes 8 (length mb) @ mb" gb "tb @ pb" ?e 0 X]
      section_slice_at [of side "SIDECAR_MAGIC @ le_bytes 8 (length mb) @ mb @ gb" tb pb ?e "length gb" X]
      section_slice_at [of side "SIDECAR_MAGIC @ le_bytes 8 (length mb) @ mb @ gb @ tb" pb "[]" ?e "length gb + length tb" X] side ln(1)
    by (simp_all add: m(1) built_manifest_def)
  have fields: "mf_granule_encoding m = chosen_encoding g" "mf_term_encoding m = CompactV2" "sec_size (mf_postings m) = length pb"
    by (simp_all add: m(1) built_manifest_def)
  have gl: "usize_to_u64 (length g) = Ok (length g)" using built_lengths(2) [OF bp] by (simp add: usize_to_u64_def u64_end_def)
  have small: "u64_to_usize (length mb) = Ok (length mb)" using ln(2) by (simp add: u64_to_usize_def)
  show ?thesis
    unfolding QziSidecar_open_def QziSidecar_open_with_limits_def if_not_P [OF start] size rbind.simps if_not_P [OF fits] small man
      ok_or_Some dec lim d if_not_P [OF bound(1)] if_not_P [OF bound(2)] fc if_not_P [OF bound(3)] if_not_P [OF bound(4)] payload lay slices
      fields sec(1,3,4,6,7,9) gl ix
    by (rule refl)
qed

text \<open>The search through an opened sidecar is the search of its index.\<close>

lemma binding_holds:
  "validate_reader_binding (built_manifest X d fc index_type n ge gb tb pb) d fc = Ok ()"
  by (simp add: validate_reader_binding_def built_manifest_def)

section \<open>What a build returns\<close>

lemma rbind_first:
  assumes "rbind m f = Ok y"
  obtains x where "m = Ok x"
  using assms by (rule rbindE)

lemma ok_or_rbind_first:
  assumes "rbind (ok_or m e) f = Ok y"
  obtains x where "m = Some x"
  using assms by (cases m) simp_all

lemma build_parts_from_file:
  assumes "build_search_sidecar_from_file X f kind = Ok side"
    and "build_index_parts X f kind SidecarBuildOptions_default = Ok (ty, n, True, 200000, g, ts, p)"
  obtains fc gb tb pb mb where "QztFileReader_footer_checksum X f = Ok fc"
    and "encode_granules g (chosen_encoding g) = Ok gb" and "encode_terms ts CompactV2 = Ok tb" and "encode_posting_section p = Ok pb"
    and "encode_manifest (built_manifest X (fr_details f) fc ty n (chosen_encoding g) gb tb pb) = Ok mb"
    and "side = SIDECAR_MAGIC @ le_bytes 8 (length mb) @ mb @ gb @ tb @ pb" and "length side < u64_end"
proof -
  note run = assms(1) [unfolded build_search_sidecar_from_file_def build_search_sidecar_from_file_with_options_def Let_def]
  obtain fc where fc: "QztFileReader_footer_checksum X f = Ok fc" by (rule rbind_first [OF run])
  note run = run [unfolded fc assms(2) rbind.simps prod.case, folded chosen_encoding_def]
  obtain u where "check_build_section_size g ts p (chosen_encoding g) (max_encoded_bytes (sb_limits SidecarBuildOptions_default)) = Ok u"
    by (rule rbind_first [OF run])
  note run = run [unfolded this rbind.simps]
  obtain gb where gb: "encode_granules g (chosen_encoding g) = Ok gb" by (rule rbind_first [OF run])
  note run = run [unfolded gb rbind.simps]
  obtain pb where pb: "encode_posting_section p = Ok pb" by (rule rbind_first [OF run])
  note run = run [unfolded pb rbind.simps]
  obtain tb where tb: "encode_terms ts CompactV2 = Ok tb" by (rule rbind_first [OF run])
  note run = run [unfolded tb rbind.simps]
  obtain x where "usize_to_u64 (length gb) = Ok x" by (rule rbind_first [OF run])
  then have x: "usize_to_u64 (length gb) = Ok (length gb)" by (simp add: width_simps)
  note run = run [unfolded x rbind.simps]
  obtain x where "usize_to_u64 (length tb) = Ok x" by (rule rbind_first [OF run])
  then have x: "usize_to_u64 (length tb) = Ok (length tb)" by (simp add: width_simps)
  note run = run [unfolded x rbind.simps]
  obtain x where "checked_add (length gb) (length tb) = Some x" by (rule ok_or_rbind_first [OF run])
  then have x: "checked_add (length gb) (length tb) = Some (length gb + length tb)" by (simp add: width_simps)
  note run = run [unfolded x ok_or_Some rbind.simps]
  obtain x where "usize_to_u64 (length pb) = Ok x" by (rule rbind_first [OF run])
  then have x: "usize_to_u64 (length pb) = Ok (length pb)" by (simp add: width_simps)
  note run = run [unfolded x rbind.simps]
  obtain x where "checked_add (length gb + length tb) (length pb) = Some x" by (rule ok_or_rbind_first [OF run])
  then have x: "checked_add (length gb + length tb) (length pb) = Some (length gb + length tb + length pb)" by (simp add: width_simps)
  note run = run [unfolded x ok_or_Some rbind.simps, folded built_manifest_def]
  obtain mb where mb: "encode_manifest (built_manifest X (fr_details f) fc ty n (chosen_encoding g) gb tb pb) = Ok mb" by (rule rbind_first [OF run])
  note run = run [unfolded mb rbind.simps]
  have side: "side = SIDECAR_MAGIC @ le_bytes 8 (length mb) @ mb @ gb @ tb @ pb" "16 + length mb + length gb + length tb + length pb < u64_end"
    using run by (auto simp: rbind_Ok_iff result_simps width_simps SIDECAR_HEADER_LEN_def)
  then show thesis using that [OF fc gb tb pb mb side(1)] by (simp add: SIDECAR_MAGIC_def)
qed

section \<open>Round trip\<close>

lemma default_options:
  "TokenIndexBuildOptions_default\<lparr>to_max_line_bytes := sb_max_line_bytes SidecarBuildOptions_default,
     to_limits := sb_limits SidecarBuildOptions_default\<rparr> = TokenIndexBuildOptions_default"
  "NgramIndexBuildOptions_default\<lparr>no_max_line_bytes := sb_max_line_bytes SidecarBuildOptions_default,
     no_limits := sb_limits SidecarBuildOptions_default, no_n := n\<rparr> = NgramIndexBuildOptions_default\<lparr>no_n := n\<rparr>"
  by (simp_all add: TokenIndexBuildOptions_default_def NgramIndexBuildOptions_default_def SidecarBuildOptions_default_def)

text \<open>A container opened through a slice, with the checksum of its footer.\<close>

lemma opened_slice_parts:
  assumes "QztFileReader_open_read_at X (slice_read_exact_at qzt) (length qzt) = Ok f" and "length qzt < isize_end" and "blake3_documented X"
    and "QztFileReader_footer_checksum X f = Ok fc"
  obtains d where "open_skeleton_details X qzt = Ok d" and "fr_details f = d"
    and "opened_reader X qzt ResourceLimits_default = Some \<lparr>qr_bytes = qzt, qr_details = d\<rparr>"
    and "QztFileReader_decode_entry X f = QztReader_decode_entry X \<lparr>qr_bytes = qzt, qr_details = d\<rparr>"
    and "QztReader_footer_checksum X \<lparr>qr_bytes = qzt, qr_details = d\<rparr> = Ok fc" and "Checksum_wf fc"
proof -
  obtain d where d: "open_skeleton_details_with_limits X qzt ResourceLimits_default = Ok d"
      "f = \<lparr>fr_source = slice_read_exact_at qzt, fr_len = length qzt, fr_details = d\<rparr>"
    using assms(1) slice_source.open_read_at [OF assms(2), of X ResourceLimits_default]
    by (auto simp: QztFileReader_open_read_at_def QztFileReader_open_read_at_with_limits_def rbind_Ok_iff)
  have fc: "QztReader_footer_checksum X \<lparr>qr_bytes = qzt, qr_details = d\<rparr> = Ok fc"
    using slice_source.footer_checksum_agrees [OF assms(2,3) d(1)] assms(4) by (simp add: d(2))
  then have "Checksum_wf fc" using Checksum_blake3_wf [OF assms(3)] by (auto simp: QztReader_footer_checksum_def rbind_Ok_iff)
  then show thesis
    using that [of d] d fc slice_source.decode_agrees [OF assms(2), of X d] by (simp add: open_skeleton_details_def opened_reader_Some)
qed

lemma built_sidecar_opens:
  assumes "build_search_sidecar_from_file X f kind = Ok side"
    and "QztFileReader_open_read_at X (slice_read_exact_at qzt) (length qzt) = Ok f" and "length qzt < isize_end" and "blake3_documented X"
    and "build_index_parts X f kind SidecarBuildOptions_default = Ok (ty, n, True, 200000, g, ep_terms out, p)"
    and "built_parts X (sk_chunk_entries (fr_details f)) decode (ss_original_size (sk_summary (fr_details f))) mode g t p out"
    and "ty \<in> {''token'', ''ngram''}" and "case n of None \<Rightarrow> True | Some n \<Rightarrow> n < u64_end"
    and "\<And>fc gb tb pb. restore_index (built_manifest X (fr_details f) fc ty n (chosen_encoding g) gb tb pb) SidecarLimits_default g
      (map compact_term (ep_terms out)) p = Ok ix"
  obtains sc fc where "QziSidecar_open X qzt side = Ok sc" and "qs_index sc = ix"
    and "\<And>r. QztReader_open X qzt = Ok r \<Longrightarrow> QztReader_footer_checksum X r = Ok fc \<and> validate_reader_binding (qs_manifest sc) (qr_details r) fc = Ok ()"
proof -
  from assms(1,5) obtain fc gb tb pb mb where b: "QztFileReader_footer_checksum X f = Ok fc"
      "encode_granules g (chosen_encoding g) = Ok gb" "encode_terms (ep_terms out) CompactV2 = Ok tb" "encode_posting_section p = Ok pb"
      "encode_manifest (built_manifest X (fr_details f) fc ty n (chosen_encoding g) gb tb pb) = Ok mb"
      "side = SIDECAR_MAGIC @ le_bytes 8 (length mb) @ mb @ gb @ tb @ pb" "length side < u64_end"
    by (rule build_parts_from_file)
  from assms(2-4) b(1) obtain d where d: "open_skeleton_details X qzt = Ok d" "fr_details f = d"
      "QztReader_footer_checksum X \<lparr>qr_bytes = qzt, qr_details = d\<rparr> = Ok fc" "Checksum_wf fc"
    by (rule opened_slice_parts)
  let ?m = "built_manifest X d fc ty n (chosen_encoding g) gb tb pb"
  have "SidecarManifest_wf ?m"
    using built_manifest_wf [OF d(1) [unfolded open_skeleton_details_def] assms(4) d(4) assms(7,8), of gb tb pb] b(6,7) by simp
  from sidecar_opens [OF d(1) footer_checksum_same [OF d(3)] assms(6) [unfolded d(2)] b(2-4) refl this b(5) [unfolded d(2)] b(6,7)
      assms(9) [unfolded d(2)]]
  have "QziSidecar_open X qzt side = Ok \<lparr>qs_manifest = ?m, qs_index = ix\<rparr>" .
  then show thesis
    by (rule that [where fc = fc]) (use d in \<open>auto simp: QztReader_open_def binding_holds\<close>)
qed

lemma token_sidecar_roundtrip:
  assumes "build_search_sidecar X qzt TokenKind = Ok side" and "blake3_documented X" and "length qzt < 2 ^ 63"
  obtains sc ix where "QziSidecar_open X qzt side = Ok sc" and "RawTokenIndex_build_from_container X qzt TokenIndexBuildOptions_default = Ok ix"
    and "qs_index sc = TokenIndex ix"
    and "\<And>r query so. QztReader_open X qzt = Ok r \<Longrightarrow> QziSidecar_search X sc r query so = RawTokenIndex_search X ix r query so"
proof -
  have l: "length qzt < isize_end" "length qzt < u64_end" using assms(3) by (simp_all add: isize_end_def u64_end_def)
  obtain f where f: "QztFileReader_open_read_at X (slice_read_exact_at qzt) (length qzt) = Ok f" "build_search_sidecar_from_file X f TokenKind = Ok side"
    using assms(1) l(2) by (auto simp: build_search_sidecar_def rbind_Ok_iff)
  obtain ix where ix: "RawTokenIndex_build_from_file X f TokenIndexBuildOptions_default = Ok ix"
    using f(2) unfolding build_search_sidecar_from_file_def build_search_sidecar_from_file_with_options_def Let_def build_index_parts_def
      SidecarIndexKind.case default_options by (elim rbind_first rbindE)
  obtain d where d: "fr_details f = d" "opened_reader X qzt ResourceLimits_default = Some \<lparr>qr_bytes = qzt, qr_details = d\<rparr>"
      "QztFileReader_decode_entry X f = QztReader_decode_entry X \<lparr>qr_bytes = qzt, qr_details = d\<rparr>"
    using open_slice [OF f(1) l(1)] by blast
  obtain t out where p: "built_parts X (sk_chunk_entries d) (QztReader_decode_entry X \<lparr>qr_bytes = qzt, qr_details = d\<rparr>) (ss_original_size (sk_summary d))
      Token (rt_granules ix) t (rt_postings ix) out" "rt_terms ix = ep_terms out" "rt_complete ix"
      "RawTokenIndex_from_parts (ss_container_id (sk_summary d)) (ss_original_size (sk_summary d)) (rt_granules ix)
      (map compact_term (ep_terms out)) (rt_postings ix) (reconstruction_limits SidecarLimits_default) = Ok ix"
    using token_built_parts [OF d(2) _ d(3) ix] d(1) by auto
  have parts: "build_index_parts X f TokenKind SidecarBuildOptions_default =
      Ok (''token'', None, True, 200000, rt_granules ix, ep_terms out, rt_postings ix)"
    using p(2,3) ix by (simp add: build_index_parts_def default_options)
  have res: "restore_index (built_manifest X (fr_details f) fc ''token'' None (chosen_encoding (rt_granules ix)) gb tb pb) SidecarLimits_default (rt_granules ix)
      (map compact_term (ep_terms out)) (rt_postings ix) = Ok (TokenIndex ix)" for fc gb tb pb
    using p(3,4) by (simp add: restore_index_def built_manifest_def d(1))
  obtain sc fc where sc: "QziSidecar_open X qzt side = Ok sc" "qs_index sc = TokenIndex ix"
      "\<And>r. QztReader_open X qzt = Ok r \<Longrightarrow> QztReader_footer_checksum X r = Ok fc \<and> validate_reader_binding (qs_manifest sc) (qr_details r) fc = Ok ()"
    by (rule built_sidecar_opens [OF f(2,1) l(1) assms(2) parts p(1) [folded d(1)] _ _ res]) auto
  have "RawTokenIndex_build_from_container X qzt TokenIndexBuildOptions_default = Ok ix"
    using f(1) ix l(2) by (simp add: RawTokenIndex_build_from_container_def)
  then show thesis using that sc by (auto simp: QziSidecar_search_def)
qed

lemma ngram_sidecar_roundtrip:
  assumes "build_search_sidecar X qzt (NgramKind n) = Ok side" and "blake3_documented X" and "length qzt < 2 ^ 63" and "n < 2 ^ 64"
  obtains sc ix where "QziSidecar_open X qzt side = Ok sc"
    and "RawNgramIndex_build_from_container X qzt (NgramIndexBuildOptions_default\<lparr>no_n := n\<rparr>) = Ok ix" and "qs_index sc = NgramIndex ix"
    and "\<And>r query so. QztReader_open X qzt = Ok r \<Longrightarrow> QziSidecar_search X sc r query so = RawNgramIndex_search X ix r query so"
proof -
  have l: "length qzt < isize_end" "length qzt < u64_end" using assms(3) by (simp_all add: isize_end_def u64_end_def)
  obtain f where f: "QztFileReader_open_read_at X (slice_read_exact_at qzt) (length qzt) = Ok f" "build_search_sidecar_from_file X f (NgramKind n) = Ok side"
    using assms(1) l(2) by (auto simp: build_search_sidecar_def rbind_Ok_iff)
  obtain ix where ix: "RawNgramIndex_build_from_file X f (NgramIndexBuildOptions_default\<lparr>no_n := n\<rparr>) = Ok ix"
    using f(2) unfolding build_search_sidecar_from_file_def build_search_sidecar_from_file_with_options_def Let_def build_index_parts_def
      SidecarIndexKind.case default_options by (elim rbind_first rbindE)
  obtain d where d: "fr_details f = d" "opened_reader X qzt ResourceLimits_default = Some \<lparr>qr_bytes = qzt, qr_details = d\<rparr>"
      "QztFileReader_decode_entry X f = QztReader_decode_entry X \<lparr>qr_bytes = qzt, qr_details = d\<rparr>"
    using open_slice [OF f(1) l(1)] by blast
  obtain t out where p: "built_parts X (sk_chunk_entries d) (QztReader_decode_entry X \<lparr>qr_bytes = qzt, qr_details = d\<rparr>) (ss_original_size (sk_summary d))
      (Ngram n) (rn_granules ix) t (rn_postings ix) out" "rn_terms ix = ep_terms out" "rn_complete ix" "pc_high_df_per_million (rn_planner_config ix) = 200000"
      "RawNgramIndex_from_parts (ss_container_id (sk_summary d)) (ss_original_size (sk_summary d)) (rn_granules ix)
      (map compact_term (ep_terms out)) (rn_postings ix) (NgramIndexBuildOptions_default\<lparr>no_n := n, no_complete := True,
         no_high_df_per_million := 200000, no_limits := reconstruction_limits SidecarLimits_default\<rparr>) = Ok ix"
    using ngram_built_parts [OF d(2) _ d(3) ix] d(1) by auto
  have parts: "build_index_parts X f (NgramKind n) SidecarBuildOptions_default =
      Ok (''ngram'', Some n, True, 200000, rn_granules ix, ep_terms out, rn_postings ix)"
    using p(2-4) ix by (simp add: build_index_parts_def default_options)
  have res: "restore_index (built_manifest X (fr_details f) fc ''ngram'' (Some n) (chosen_encoding (rn_granules ix)) gb tb pb) SidecarLimits_default (rn_granules ix)
      (map compact_term (ep_terms out)) (rn_postings ix) = Ok (NgramIndex ix)" for fc gb tb pb
    using p(5) by (simp add: restore_index_def built_manifest_def d(1))
  obtain sc fc where sc: "QziSidecar_open X qzt side = Ok sc" "qs_index sc = NgramIndex ix"
      "\<And>r. QztReader_open X qzt = Ok r \<Longrightarrow> QztReader_footer_checksum X r = Ok fc \<and> validate_reader_binding (qs_manifest sc) (qr_details r) fc = Ok ()"
    by (rule built_sidecar_opens [OF f(2,1) l(1) assms(2) parts p(1) [folded d(1)] _ _ res]) (use assms(4) in \<open>auto simp: u64_end_def\<close>)
  have "RawNgramIndex_build_from_container X qzt (NgramIndexBuildOptions_default\<lparr>no_n := n\<rparr>) = Ok ix"
    using f(1) ix l(2) by (simp add: RawNgramIndex_build_from_container_def)
  then show thesis using that sc by (auto simp: QziSidecar_search_def)
qed

end
