(* ===== verification/Sidecar_Properties.thy ===== *)
theory Sidecar_Properties
  imports Sidecar_Open
begin

text \<open>
  The properties of sidecars (src/src/sidecar.rs): what a built sidecar restores, and what a
  search through any sidecar may report.
\<close>

definition searches_substrings :: "QziSidecar \<Rightarrow> bool" where
  "searches_substrings sc \<longleftrightarrow> (case qs_index sc of TokenIndex _ \<Rightarrow> False | NgramIndex _ \<Rightarrow> True)"

lemma cached_reader:
  "QztReader_read_range_cached X r = (\<lambda>offset len cache. read_range_from_entries_cached (sk_chunk_entries (qr_details r))
     (ss_original_size (sk_summary (qr_details r))) offset len cache (QztReader_decode_entry X r))"
  by (intro ext) (simp add: QztReader_read_range_cached_def)

text \<open>
  C8: a sidecar cannot invent a match. Whatever sidecar is searched beside an opened container,
  forged, stale or cut short, every hit it reports is a real one: with a token index a whole token
  of the text that matches the query, in a line with all its tokens; with an n-gram index an
  occurrence of the query. Nothing is assumed of the index or of its manifest.
\<close>

theorem sidecar_hits_genuine:
  assumes "QztReader_open X bs = Ok r" and "QztReader_export_all X r = Ok data"
    and "QziSidecar_search X sc r query so = Ok report" and "h \<in> set (sr_hits report)"
  shows "genuine_hit data query (searches_substrings sc) (sh_logical_offset h) (sh_logical_offset h + sh_byte_length h)"
proof -
  have o: "QztReader_open_with_limits X bs ResourceLimits_default = Ok r" using assms(1) by (simp add: QztReader_open_limits)
  then have ro: "opened_reader X bs ResourceLimits_default = Some r" by (simp add: open_reader_conv)
  have d: "data = restored_bytes (QztReader_decode_entry X r) (sk_chunk_entries (qr_details r))"
    using assms(2) export_all_Ok_iff [OF o] by simp
  note tok = memory.token_search_sound [of _ X bs ResourceLimits_default, unfolded ro opened_Some_defs, folded d cached_reader, OF refl refl]
  note ngr = memory.ngram_search_sound [of _ X bs ResourceLimits_default, unfolded ro opened_Some_defs, folded d cached_reader, OF refl refl]
  show ?thesis
  proof (cases "qs_index sc")
    case (TokenIndex ix)
    then have "RawTokenIndex_search X ix r query so = Ok report"
      using assms(3) by (auto simp: QziSidecar_search_def rbind_Ok_iff)
    from tok [OF this [unfolded RawTokenIndex_search_def]] show ?thesis
      using assms(4) by (simp add: TokenIndex searches_substrings_def sound_hits_def)
  next
    case (NgramIndex ix)
    then have "RawNgramIndex_search X ix r query so = Ok report"
      using assms(3) by (auto simp: QziSidecar_search_def rbind_Ok_iff)
    from ngr [OF this [unfolded RawNgramIndex_search_def]] show ?thesis
      using assms(4) by (simp add: NgramIndex searches_substrings_def sound_hits_def)
  qed
qed

lemma file_search_fetched:
  assumes "QziFileSidecar_search X sc f query so = Ok report" and "sr_hits report \<noteq> []"
  obtains (substring) indexes planner metrics where "mf_index_type (fs_manifest sc) = ''ngram''"
      "search_fetched sc (fr_details f) so (QztFileReader_read_range_cached X f) (\<lambda>decoded limit _ _. substring_spans decoded query limit)
         False indexes planner metrics = Ok report"
  | (token) ks indexes planner metrics where "mf_index_type (fs_manifest sc) \<noteq> ''ngram''" "unique_query_keys query so = Ok ks"
      "search_fetched sc (fr_details f) so (QztFileReader_read_range_cached X f) (\<lambda>decoded limit left right. verified_spans decoded ks limit left right)
         True indexes planner metrics = Ok report"
proof -
  let ?n = "mf_index_type (fs_manifest sc) = ''ngram''"
  obtain c u ks n where k: "QztFileReader_footer_checksum X f = Ok c" "validate_reader_binding (fs_manifest sc) (fr_details f) c = Ok u"
      "(if ?n then rbind (ok_or (mf_ngram_n (fs_manifest sc)) ContainerCorrupt) (\<lambda>n. ngram_keys_for_query query n so)
        else unique_query_keys query so) = Ok ks" "usize_to_u64 (length ks) = Ok n"
    using assms(1) by (auto simp: QziFileSidecar_search_def rbind_Ok_iff Let_def)
  note run = assms(1) [unfolded QziFileSidecar_search_def k rbind.simps Let_def]
  have ks: "ks \<noteq> []" using run assms(2) by (auto simp: early_exit_report_def)
  note run = run [unfolded if_not_P [OF ks]]
  obtain found where f: "lookup_file_terms (fs_terms sc) ks [] 0 = Ok found" using run by (auto simp: rbind_Ok_iff)
  note run = run [unfolded f rbind.simps]
  obtain x where x: "found = Inr x" using run assms(2) by (cases found) (auto simp: early_exit_report_def split: prod.splits)
  show thesis
  proof (cases ?n)
    case True
    then show ?thesis using run substring unfolding x sum.case by (auto split: prod.splits)
  next
    case False
    then show ?thesis using run k(3) token unfolding x sum.case by (auto split: prod.splits)
  qed
qed

lemma cached_file_reader:
  assumes "positioned_reads read_at contents" and "length contents < 2 ^ 63"
    and "QztFileReader_open_read_at X (file_read_exact_at read_at) (length contents) = Ok f"
  obtains r where "QztReader_open X contents = Ok r" and "fr_details f = qr_details r"
    and "QztFileReader_read_range_cached X f = QztReader_read_range_cached X r"
    and "QztFileReader_export_all X f = QztReader_export_all X r"
proof -
  have l: "length contents < isize_end" using assms(2) by (simp add: isize_end_def)
  note src = file_byte_source [OF assms(1)]
  note op = byte_source.open_read_at [OF src l, of X ResourceLimits_default]
  obtain d where d: "open_skeleton_details_with_limits X contents ResourceLimits_default = Ok d"
      "f = \<lparr>fr_source = file_read_exact_at read_at, fr_len = length contents, fr_details = d\<rparr>"
    using assms(3) op by (auto simp: QztFileReader_open_read_at_def QztFileReader_open_read_at_with_limits_def rbind_Ok_iff)
  let ?r = "\<lparr>qr_bytes = contents, qr_details = d\<rparr>"
  note dec = byte_source.decode_agrees [OF src l, of X d]
  show thesis
  proof (rule that [of ?r])
    show "QztReader_open X contents = Ok ?r" by (simp add: QztReader_open_limits QztReader_open_with_limits_def d)
    show "QztFileReader_read_range_cached X f = QztReader_read_range_cached X ?r"
      by (intro ext) (simp add: QztFileReader_read_range_cached_def QztReader_read_range_cached_def d(2) dec)
    show "QztFileReader_export_all X f = QztReader_export_all X ?r"
      by (simp add: QztFileReader_export_all_def QztReader_export_all_def QztFileReader_export_to_def QztReader_export_to_def d(2) dec)
  qed (simp add: d(2))
qed

text \<open>
  C10: the same through positioned reads. A search that fetches terms, postings and granules from a
  sidecar file, over a container file whose reads may be short, reports only real matches, whatever
  bytes the sidecar's source returns.
\<close>

theorem file_sidecar_hits_genuine:
  assumes "positioned_reads read_at contents" and "length contents < 2 ^ 63"
    and "QztFileReader_open_read_at X (file_read_exact_at read_at) (length contents) = Ok f" and "QztFileReader_export_all X f = Ok data"
    and "QziFileSidecar_search X sc f query so = Ok report" and "h \<in> set (sr_hits report)"
  shows "genuine_hit data query (mf_index_type (fs_manifest sc) = ''ngram'') (sh_logical_offset h) (sh_logical_offset h + sh_byte_length h)"
proof -
  obtain r where r: "QztReader_open X contents = Ok r" "fr_details f = qr_details r"
      "QztFileReader_read_range_cached X f = QztReader_read_range_cached X r" "QztFileReader_export_all X f = QztReader_export_all X r"
    by (rule cached_file_reader [OF assms(1-3)])
  have o: "QztReader_open_with_limits X contents ResourceLimits_default = Ok r" using r(1) by (simp add: QztReader_open_limits)
  then have ro: "opened_reader X contents ResourceLimits_default = Some r" by (simp add: open_reader_conv)
  have d: "data = restored_bytes (QztReader_decode_entry X r) (sk_chunk_entries (qr_details r))"
    using assms(4) export_all_Ok_iff [OF o] r(4) by simp
  note sound = memory.search_fetched_sound [of _ X contents ResourceLimits_default, unfolded ro opened_Some_defs, folded d cached_reader, OF refl refl]
  have ne: "sr_hits report \<noteq> []" using assms(6) by auto
  from assms(5) ne show ?thesis
  proof (cases rule: file_search_fetched)
    case substring
    then show ?thesis using sound [OF substring_spans_sound] assms(6) r(2,3) by (auto simp: genuine_hit_def sound_hits_def)
  next
    case token
    then show ?thesis using sound [OF query_spans_sound] assms(6) r(2,3) by (auto simp: sound_hits_def)
  qed
qed

text \<open>
  C9: a sidecar carries its index. A sidecar built with the default limits from a container opens
  beside it under the default limits; the index restored from its compact sections is, field by
  field, the index built from the container in memory, skip data and sizes that the file does not
  store included; and a search through the sidecar returns, errors included, what a search of that
  index returns.
\<close>

theorem sidecar_roundtrip:
  assumes "build_search_sidecar X qzt kind = Ok side" and "blake3_documented X" and "length qzt < 2 ^ 63"
    and "\<forall>n. kind = NgramKind n \<longrightarrow> n < 2 ^ 64"
  shows "\<exists>sc. QziSidecar_open X qzt side = Ok sc \<and>
     (case kind of
        TokenKind \<Rightarrow> \<exists>ix. RawTokenIndex_build_from_container X qzt TokenIndexBuildOptions_default = Ok ix \<and> qs_index sc = TokenIndex ix \<and>
          (\<forall>r query so. QztReader_open X qzt = Ok r \<longrightarrow> QziSidecar_search X sc r query so = RawTokenIndex_search X ix r query so)
      | NgramKind n \<Rightarrow> \<exists>ix. RawNgramIndex_build_from_container X qzt (NgramIndexBuildOptions_default\<lparr>no_n := n\<rparr>) = Ok ix \<and>
          qs_index sc = NgramIndex ix \<and>
          (\<forall>r query so. QztReader_open X qzt = Ok r \<longrightarrow> QziSidecar_search X sc r query so = RawNgramIndex_search X ix r query so))"
proof (cases kind)
  case TokenKind
  from assms(1) [unfolded TokenKind] assms(2,3) show ?thesis
    by (rule token_sidecar_roundtrip) (auto simp: TokenKind)
next
  case (NgramKind n)
  then have "n < 2 ^ 64" using assms(4) by blast
  with assms(1) [unfolded NgramKind] assms(2,3) show ?thesis
    by (rule ngram_sidecar_roundtrip) (auto simp: NgramKind)
qed

section \<open>Witnesses\<close>

text \<open>The sidecar of the container of the text \<open>a\<close>.\<close>

lemma opened_footer_checksum:
  assumes "open_skeleton_details_with_limits X bs limits = Ok d"
  obtains fc where "QztReader_footer_checksum X \<lparr>qr_bytes = bs, qr_details = d\<rparr> = Ok fc"
proof -
  have "192 \<le> length bs" "sk_footer_payload_offset d \<le> length bs - 64" "sk_footer_payload_offset d < u64_end"
    using opened_footer_offset [OF assms] opened_layout(7) [OF assms] by simp_all
  then show thesis
    using that by (simp add: QztReader_footer_checksum_def checked_sub_def FOOTER_TRAILER_LEN_def u64_to_usize_def get_slice_def)
qed

abbreviation one_term :: TermDictionaryEntry where
  "one_term \<equiv> (term_of_key toy_ext [97])\<lparr>te_granule_frequency := 1, te_posting_size := 1\<rparr>"

lemma one_byte_sections:
  "compact_line_granules_supported [one_line]"
  "check_build_section_size [one_line] [one_term] [[0]] LineImpliedV2 (128 * 1024 * 1024) = Ok ()"
  "encode_granules [one_line] LineImpliedV2 = Ok (write_u64 1 @ write_u64 0 @ write_u32 1 @ write_u32 0 @ write_u32 1)"
  "encode_posting_section [[0]] = Ok [0]"
  "encode_terms [one_term] CompactV2 = Ok (write_u64 1 @ [1, 97, 1, 1])"
  by (simp_all add: compact_line_granules_supported_def u32_end_def check_build_section_size_def add_section_size_def checked_mul_def checked_add_def
      u64_end_def usize_to_u64_def term_of_key_def varuint_len.simps encoded_delta_varint_size_def posting_delta_def SIDECAR_COMPACT_RECORD_LEN_def
      encode_granules_def u32_try_from_def checked_sub_def encode_posting_section_def encode_delta_varint_u64_def write_varuint.simps
      encode_terms_def sidecar_write_varuint.simps Let_def)

lemma one_byte_sidecar:
  assumes "QztReader_open toy_ext bs = Ok r" and "length bs < isize_end" and "sk_chunk_entries (qr_details r) = [e]"
    and "chunk_id e = 0" "logical_offset e = 0" "uncompressed_size e = 1" "QztReader_decode_entry toy_ext r e = Ok [97]"
    and "ss_original_size (sk_summary (qr_details r)) = 1"
  shows "\<exists>side. build_search_sidecar toy_ext bs TokenKind = Ok side"
proof -
  let ?ix = "one_byte_index (ss_container_id (sk_summary (qr_details r)))"
  obtain d where d: "open_skeleton_details_with_limits toy_ext bs ResourceLimits_default = Ok d" "qr_details r = d"
    using assms(1) by (auto simp: QztReader_open_limits QztReader_open_with_limits_def rbind_Ok_iff)
  let ?f = "\<lparr>fr_source = slice_read_exact_at bs, fr_len = length bs, fr_details = d\<rparr>"
  have f: "QztFileReader_open_read_at toy_ext (slice_read_exact_at bs) (length bs) = Ok ?f"
    using slice_source.open_read_at [OF assms(2), of toy_ext ResourceLimits_default] d(1)
    by (simp add: QztFileReader_open_read_at_def QztFileReader_open_read_at_with_limits_def)
  obtain fc where fc: "QztFileReader_footer_checksum toy_ext ?f = Ok fc" "Checksum_wf fc"
    using opened_footer_checksum [OF d(1)] slice_source.footer_checksum_agrees [OF assms(2) toy_blake3 d(1)] opened_slice_parts [OF f assms(2) toy_blake3]
    by metis
  have "RawTokenIndex_build_from_file toy_ext ?f TokenIndexBuildOptions_default = Ok ?ix"
    using one_byte_index_built [OF assms] f isize_u64 [OF assms(2)] by (simp add: RawTokenIndex_build_from_container_def)
  then have parts: "build_index_parts toy_ext ?f TokenKind SidecarBuildOptions_default = Ok (''token'', None, True, 200000, [one_line], [one_term], [[0]])"
    by (simp add: build_index_parts_def default_options one_byte_index_def)
  let ?gb = "write_u64 1 @ write_u64 0 @ write_u32 1 @ write_u32 0 @ write_u32 1" and ?tb = "write_u64 1 @ [1, 97, 1, 1]" and ?pb = "[0] :: bytes"
  have l: "length ?gb = 28" "length ?tb = 12" "length ?pb = 1" by (simp_all add: write_u64_def write_u32_def)
  let ?m = "built_manifest toy_ext d fc ''token'' None LineImpliedV2 ?gb ?tb ?pb"
  have "SidecarManifest_wf ?m"
    by (rule built_manifest_wf [OF d(1) toy_blake3 fc(2)]) (simp_all only: l, simp_all add: u64_end_def)
  note mr = manifest_roundtrip [OF this]
  obtain mb where mb: "encode_manifest ?m = Ok mb" "length mb \<le> 16 * 1024 * 1024" using mr by blast
  have lim: "max_encoded_bytes (sb_limits SidecarBuildOptions_default) = 128 * 1024 * 1024"
    by (simp add: SidecarBuildOptions_default_def IndexBuildLimits_default_def)
  have sums: "checked_add 28 12 = Some 40" "checked_add 40 1 = Some 41" by (simp_all add: checked_add_def u64_end_def)
  have m: "?m = \<lparr>mf_source_container_id = ss_container_id (sk_summary d),
      mf_source_original_checksum = md_original_checksum (sk_metadata d),
      mf_source_qzt_footer_checksum = fc, mf_index_type = ''token'', mf_ngram_n = None,
      mf_complete = True, mf_high_df_per_million = 200000,
      mf_index_size_bytes = 41, mf_source_size_bytes = ss_original_size (sk_summary d),
      mf_format_version = V2, mf_granule_encoding = LineImpliedV2, mf_term_encoding = CompactV2,
      mf_granules = \<lparr>sec_offset = 0, sec_size = 28, sec_checksum = Checksum_blake3 toy_ext ?gb\<rparr>,
      mf_terms = \<lparr>sec_offset = 28, sec_size = 12, sec_checksum = Checksum_blake3 toy_ext ?tb\<rparr>,
      mf_postings = \<lparr>sec_offset = 40, sec_size = 1, sec_checksum = Checksum_blake3 toy_ext ?pb\<rparr>\<rparr>"
    unfolding built_manifest_def l by simp
  have widths: "usize_to_u64 28 = Ok 28" "usize_to_u64 12 = Ok 12" "usize_to_u64 1 = Ok 1" by (simp_all add: usize_to_u64_def u64_end_def)
  have "\<exists>side. build_search_sidecar_from_file toy_ext ?f TokenKind = Ok side"
    unfolding build_search_sidecar_from_file_def build_search_sidecar_from_file_with_options_def Let_def fc(1) rbind.simps parts prod.case
      if_P [OF one_byte_sections(1)] lim one_byte_sections l widths sums ok_or_Some
    using mb(1) [unfolded m] mb(2) by (simp add: checked_add_def try_reserve_exact_def usize_to_u64_def u64_end_def isize_end_def SIDECAR_HEADER_LEN_def)
  then show ?thesis using f isize_u64 [OF assms(2)] by (simp add: build_search_sidecar_def)
qed

theorem sidecar_roundtrip_witness:
  "\<exists>bs side sc. build_search_sidecar toy_ext bs TokenKind = Ok side \<and> QziSidecar_open toy_ext bs side = Ok sc \<and>
     (\<exists>ix. RawTokenIndex_build_from_container toy_ext bs TokenIndexBuildOptions_default = Ok ix \<and> qs_index sc = TokenIndex ix \<and> rt_postings ix = [[0]])"
proof (rule one_byte_container)
  fix bs r e
  assume c: "QztReader_open toy_ext bs = Ok r" "length bs < 2 ^ 46" "QztReader_export_all toy_ext r = Ok [97]"
    "sk_chunk_entries (qr_details r) = [e]" "chunk_id e = 0" "logical_offset e = 0" "uncompressed_size e = 1"
    "QztReader_decode_entry toy_ext r e = Ok [97]" "ss_original_size (sk_summary (qr_details r)) = 1" "compressed_size e < u64_end"
  have l: "length bs < isize_end" "length bs < 2 ^ 63" using c(2) by (simp_all add: isize_end_def)
  obtain side where side: "build_search_sidecar toy_ext bs TokenKind = Ok side" using one_byte_sidecar [OF c(1) l(1) c(4-9)] by blast
  obtain sc ix where sc: "QziSidecar_open toy_ext bs side = Ok sc"
      "RawTokenIndex_build_from_container toy_ext bs TokenIndexBuildOptions_default = Ok ix" "qs_index sc = TokenIndex ix"
    using sidecar_roundtrip [OF side toy_blake3 l(2)] by auto
  then have "rt_postings ix = [[0]]" using one_byte_index_built [OF c(1) l(1) c(4-9)] by (auto simp: one_byte_index_def)
  then show ?thesis using side sc by blast
qed

theorem sidecar_hits_genuine_witness:
  "\<exists>bs r side sc report h. QztReader_open toy_ext bs = Ok r \<and> QztReader_export_all toy_ext r = Ok [97] \<and>
     build_search_sidecar toy_ext bs TokenKind = Ok side \<and> QziSidecar_open toy_ext bs side = Ok sc \<and>
     QziSidecar_search toy_ext sc r [97] SearchOptions_default = Ok report \<and> h \<in> set (sr_hits report) \<and>
     genuine_hit [97] [97] False (sh_logical_offset h) (sh_logical_offset h + sh_byte_length h)"
proof (rule one_byte_container)
  fix bs r e
  assume c: "QztReader_open toy_ext bs = Ok r" "length bs < 2 ^ 46" "QztReader_export_all toy_ext r = Ok [97]"
    "sk_chunk_entries (qr_details r) = [e]" "chunk_id e = 0" "logical_offset e = 0" "uncompressed_size e = 1"
    "QztReader_decode_entry toy_ext r e = Ok [97]" "ss_original_size (sk_summary (qr_details r)) = 1" "compressed_size e < u64_end"
  have l: "length bs < isize_end" "length bs < 2 ^ 63" using c(2) by (simp_all add: isize_end_def)
  obtain side where side: "build_search_sidecar toy_ext bs TokenKind = Ok side" using one_byte_sidecar [OF c(1) l(1) c(4-9)] by blast
  obtain ch where "QztReader_read_range_cached toy_ext r 0 1 ChunkDecodeCache_new = (Ok [97], ch)" by (rule one_byte_reads [OF c(4-10)])
  from one_byte_search [where d = "qr_details r" and rd = "QztReader_read_range_cached toy_ext r", OF c(5-7,4,9) this]
  obtain rep where s: "RawTokenIndex_search toy_ext (one_byte_index (ss_container_id (sk_summary (qr_details r)))) r [97] SearchOptions_default = Ok rep"
      "length (sr_hits rep) = 1"
    unfolding RawTokenIndex_search_def by blast
  obtain sc ix where sc: "QziSidecar_open toy_ext bs side = Ok sc" "RawTokenIndex_build_from_container toy_ext bs TokenIndexBuildOptions_default = Ok ix"
      "qs_index sc = TokenIndex ix"
      "\<And>r query so. QztReader_open toy_ext bs = Ok r \<Longrightarrow> QziSidecar_search toy_ext sc r query so = RawTokenIndex_search toy_ext ix r query so"
    by (rule token_sidecar_roundtrip [OF side toy_blake3 l(2)]) blast
  have rep: "QziSidecar_search toy_ext sc r [97] SearchOptions_default = Ok rep"
    using sc(2,4) c(1) s(1) one_byte_index_built [OF c(1) l(1) c(4-9)] by simp
  obtain h where h: "h \<in> set (sr_hits rep)" using s(2) by (cases "sr_hits rep") auto
  have "\<not> searches_substrings sc" by (simp add: searches_substrings_def sc(3))
  then have "genuine_hit [97] [97] False (sh_logical_offset h) (sh_logical_offset h + sh_byte_length h)"
    using sidecar_hits_genuine [OF c(1,3) rep h] by simp
  then show ?thesis using c(1,3) side sc(1) rep h by blast
qed

text \<open>A sidecar for positioned reads with the same index: its sections, and the reader that fetches from them.\<close>

definition one_byte_source :: bytes where
  "one_byte_source = write_u64 1 @ write_u64 0 @ write_u32 1 @ write_u32 0 @ write_u32 1 @ [0]"

definition one_byte_file_sidecar :: "SkeletonDetails \<Rightarrow> Checksum \<Rightarrow> QziFileSidecar" where
  "one_byte_file_sidecar d fc =
     \<lparr>fs_manifest = built_manifest toy_ext d fc ''token'' None LineImpliedV2 (replicate 28 0) [] [0], fs_source = slice_read_exact_at one_byte_source,
      fs_section_base = 0, fs_granule_count = 1, fs_terms = [one_term], fs_limits = SidecarLimits_default\<rparr>"

lemma one_byte_fetches:
  assumes "chunk_id e = 0" "logical_offset e = 0" "uncompressed_size e = 1" and "ss_original_size (sk_summary d) = 1"
  shows "fetch_postings (one_byte_file_sidecar d fc) 0 10000000 = Ok [0]"
    and "fetch_granule (one_byte_file_sidecar d fc) [e] 0 = Ok one_line"
proof -
  have len: "length one_byte_source = 29" by (simp add: one_byte_source_def write_u64_def write_u32_def)
  have rd: "slice_read_exact_at one_byte_source off n = Ok (slice one_byte_source off (off + n))" if "off + n \<le> 29" for off n
    using that len by (simp add: slice_read_exact_at_def checked_add_def get_slice_def u64_end_def)
  have parts: "slice one_byte_source 28 29 = [0]" "slice one_byte_source 8 28 = write_u64 0 @ write_u32 1 @ write_u32 0 @ write_u32 1"
    by (simp_all add: one_byte_source_def slice_def write_u64_def write_u32_def)
  have dec: "decode_delta_varint_u64_with_limit [0] 10000000 = Ok [0]"
    by (simp add: decode_delta_iff u64_end_def posting_ok_def write_varuint.simps)
  show "fetch_postings (one_byte_file_sidecar d fc) 0 10000000 = Ok [0]"
    using rd [of 28 1] parts(1) dec
    by (simp add: fetch_postings_def one_byte_file_sidecar_def get_def SidecarLimits_default_def built_manifest_def term_of_key_def
        checked_add_def u64_end_def read_vec_def u64_to_usize_def usize_to_u64_def)
  have ok: "granule_ok LineImpliedV2 0 one_line" by (simp add: granule_ok_def u64_end_def u32_end_def)
  obtain b where "encode_granule LineImpliedV2 one_line = Ok b" "decode_granule_record b 0 LineImpliedV2 = Ok one_line"
    by (rule granule_record [OF ok])
  then have g: "decode_granule_record (write_u64 0 @ write_u32 1 @ write_u32 0 @ write_u32 1) 0 LineImpliedV2 = Ok one_line"
    by (simp add: u32_try_from_def u32_end_def checked_sub_def)
  have v: "validate_granule_chunk_span one_line [e] 1 = Ok ()"
    using one_entry_span [OF assms(1-3)] by (simp add: validate_granule_chunk_span_def usize_to_u64_def checked_add_def u64_end_def)
  show "fetch_granule (one_byte_file_sidecar d fc) [e] 0 = Ok one_line"
    using rd [of 8 20] parts(2) g v assms(4)
    by (simp add: fetch_granule_def one_byte_file_sidecar_def built_manifest_def checked_mul_def checked_add_def u64_end_def read_vec_def
        u64_to_usize_def SIDECAR_COMPACT_RECORD_LEN_def)
qed

lemma one_byte_file_search:
  assumes "chunk_id e = 0" "logical_offset e = 0" "uncompressed_size e = 1" and "sk_chunk_entries (fr_details f) = [e]"
    and "ss_original_size (sk_summary (fr_details f)) = 1" and "QztFileReader_read_range_cached toy_ext f 0 1 ChunkDecodeCache_new = (Ok [97], c)"
    and "QztFileReader_footer_checksum toy_ext f = Ok fc"
  shows "\<exists>rep. QziFileSidecar_search toy_ext (one_byte_file_sidecar (fr_details f) fc) f [97] SearchOptions_default = Ok rep \<and> length (sr_hits rep) = 1"
proof -
  let ?s = "one_byte_file_sidecar (fr_details f) fc"
  let ?spans = "\<lambda>decoded limit l r. verified_spans decoded [[97]] limit l r"
  have k: "unique_query_keys [97] SearchOptions_default = Ok [[97]]"
    by (simp add: unique_query_keys_def validate_query_bytes_def usize_to_u64_def u64_end_def SearchOptions_default_def
      query_tokens.simps skip_bytes.simps is_token_byte_def Let_def insert_query_key_def slice_def to_ascii_lowercase_def is_ascii_uppercase_def)
  have v: "verified_spans [97] [[97]] 10000 False False = [\<lparr>ts_key = [97], ts_start = 0, ts_end = 1\<rparr>]"
    by (simp add: verified_spans_def next_generation_def u64_end_def verified_line_spans_def line_span_loop.simps skip_bytes.simps
      is_token_byte_def match_token_def slice_def Let_def)
  have l: "lookup_file_terms (fs_terms ?s) [[97]] [] 0 = Ok (Inr ([0], 1))"
    by (simp add: one_byte_file_sidecar_def term_index_for_key_def term_of_key_def checked_add_def u64_end_def)
  obtain cv where cv: "verify_candidates [0] (fr_details f) (granule_lookup [one_line]) (QztFileReader_read_range_cached toy_ext f) ?spans True SearchOptions_default = Ok cv"
      "length (cv_hits cv) = 1"
    using one_byte_verify [where rd = "QztFileReader_read_range_cached toy_ext f" and spans_for = ?spans, OF assms(1-6) v] by blast
  have at: "candidate_lookup [0] [one_line] 0 = granule_lookup [one_line] 0"
    by (simp add: candidate_lookup_def granule_lookup_def get_def u64_to_usize_def u64_end_def)
  have cv': "verify_candidates [0] (fr_details f) (candidate_lookup [0] [one_line]) (QztFileReader_read_range_cached toy_ext f) ?spans True SearchOptions_default = Ok cv"
    using cv(1) by (simp only: verify_candidates_def verify_loop.simps verify_candidate_def at)
  have lim: "fs_limits ?s = SidecarLimits_default" "fs_terms ?s = [one_term]" "mf_complete (fs_manifest ?s)" "mf_index_type (fs_manifest ?s) = ''token''"
      "te_granule_frequency one_term = 1" "te_key one_term = [97]"
    by (simp_all add: one_byte_file_sidecar_def built_manifest_def term_of_key_def)
  have sl: "sl_max_posting_bytes_per_query SidecarLimits_default = 128 * 1024 * 1024" "sl_max_decoded_posting_ids SidecarLimits_default = 10000000"
    by (simp_all add: SidecarLimits_default_def)
  have so: "max_posting_bytes_per_query SearchOptions_default = 128 * 1024 * 1024" "max_posting_ids_per_query SearchOptions_default = 10000000"
      "max_candidate_granules SearchOptions_default = 10000" "max_search_results SearchOptions_default = 10000"
    by (simp_all add: SearchOptions_default_def)
  have step: "fetch_step ?s ([], 10000000) 0 = Ok ([[0]], 9999999)"
    using one_byte_fetches(1) [OF assms(1-3,5), of fc] by (simp add: fetch_step_def lim usize_to_u64_def u64_end_def checked_sub_def)
  have inter: "intersect_postings [[0]] (max_posting_work SearchOptions_default) = Ok [0]"
    by (simp add: intersect_postings_def usize_to_u64_def u64_end_def SearchOptions_default_def)
  have gr: "rmap (fetch_granule ?s (sk_chunk_entries (fr_details f))) [0] = Ok [one_line]"
    using one_byte_fetches(2) [OF assms(1-3,5), of fc] by (simp add: assms(4))
  have chunks: "count_chunks [one_line] = Ok 1" by (simp add: count_chunks_def count_chunk_spans_def usize_to_u64_def checked_add_def u64_end_def)
  have "\<exists>rep. search_fetched ?s (fr_details f) SearchOptions_default (QztFileReader_read_range_cached toy_ext f) ?spans True [0] planner
      (metrics\<lparr>sm_posting_bytes_read := 1\<rparr>) = Ok rep \<and> length (sr_hits rep) = 1" for planner metrics
    using step inter gr chunks cv' cv(2)
    by (simp add: search_fetched_def lim sl so Let_def checked_add_def u64_end_def usize_to_u64_def)
  moreover have "validate_reader_binding (fs_manifest ?s) (fr_details f) fc = Ok ()"
    by (simp add: one_byte_file_sidecar_def binding_holds)
  ultimately show ?thesis
    using k l assms(7) by (simp add: QziFileSidecar_search_def lim Let_def usize_to_u64_def u64_end_def)
qed

theorem file_sidecar_hits_genuine_witness:
  "\<exists>bs f sc report h. QztFileReader_open_read_at toy_ext (file_read_exact_at (short_reads bs)) (length bs) = Ok f \<and>
     QztFileReader_export_all toy_ext f = Ok [97] \<and> QziFileSidecar_search toy_ext sc f [97] SearchOptions_default = Ok report \<and>
     h \<in> set (sr_hits report) \<and> genuine_hit [97] [97] False (sh_logical_offset h) (sh_logical_offset h + sh_byte_length h)"
proof (rule one_byte_container)
  fix bs r e
  assume c: "QztReader_open toy_ext bs = Ok r" "length bs < 2 ^ 46" "QztReader_export_all toy_ext r = Ok [97]"
    "sk_chunk_entries (qr_details r) = [e]" "chunk_id e = 0" "logical_offset e = 0" "uncompressed_size e = 1"
    "QztReader_decode_entry toy_ext r e = Ok [97]" "ss_original_size (sk_summary (qr_details r)) = 1" "compressed_size e < u64_end"
  have l: "length bs < isize_end" "length bs < 2 ^ 63" using c(2) by (simp_all add: isize_end_def)
  note src = file_byte_source [OF short_reads_positioned [of bs]]
  obtain d where d: "open_skeleton_details_with_limits toy_ext bs ResourceLimits_default = Ok d" "r = \<lparr>qr_bytes = bs, qr_details = d\<rparr>"
    using c(1) by (auto simp: QztReader_open_limits QztReader_open_with_limits_def rbind_Ok_iff)
  let ?f = "\<lparr>fr_source = file_read_exact_at (short_reads bs), fr_len = length bs, fr_details = d\<rparr>"
  have f: "QztFileReader_open_read_at toy_ext (file_read_exact_at (short_reads bs)) (length bs) = Ok ?f"
    using byte_source.open_read_at [OF src l(1), of toy_ext ResourceLimits_default] d(1)
    by (simp add: QztFileReader_open_read_at_def QztFileReader_open_read_at_with_limits_def)
  obtain r' where r': "QztReader_open toy_ext bs = Ok r'" "QztFileReader_read_range_cached toy_ext ?f = QztReader_read_range_cached toy_ext r'"
      "QztFileReader_export_all toy_ext ?f = QztReader_export_all toy_ext r'"
    by (rule cached_file_reader [OF short_reads_positioned l(2) f])
  obtain fc where fc: "QztFileReader_footer_checksum toy_ext ?f = Ok fc"
    using opened_footer_checksum [OF d(1)] byte_source.footer_checksum_agrees [OF src l(1) toy_blake3 d(1)] by metis
  obtain ch where "QztReader_read_range_cached toy_ext r 0 1 ChunkDecodeCache_new = (Ok [97], ch)" by (rule one_byte_reads [OF c(4-10)])
  then have "QztFileReader_read_range_cached toy_ext ?f 0 1 ChunkDecodeCache_new = (Ok [97], ch)" using r' c(1) by simp
  from one_byte_file_search [where f = ?f, OF c(5-7) _ _ this fc] obtain rep where rep:
      "QziFileSidecar_search toy_ext (one_byte_file_sidecar d fc) ?f [97] SearchOptions_default = Ok rep" "length (sr_hits rep) = 1"
    using c(4,9) d(2) by auto
  obtain h where h: "h \<in> set (sr_hits rep)" using rep(2) by (cases "sr_hits rep") auto
  have x: "QztFileReader_export_all toy_ext ?f = Ok [97]" using r' c(1,3) by simp
  have "mf_index_type (fs_manifest (one_byte_file_sidecar d fc)) \<noteq> ''ngram''" by (simp add: one_byte_file_sidecar_def built_manifest_def)
  then have "genuine_hit [97] [97] False (sh_logical_offset h) (sh_logical_offset h + sh_byte_length h)"
    using file_sidecar_hits_genuine [OF short_reads_positioned l(2) f x rep(1) h] by simp
  then show ?thesis using f x rep(1) h by blast
qed

end
