(* ===== verification/Spec2Isabelle.thy ===== *)
theory Spec2Isabelle
  imports Stream_Properties Reader_Examples Sidecar_Properties
begin

text \<open>
  QZT stores a UTF-8 text as a container of separately compressed chunks with checksums, so
  that any byte range, line or document can be restored and proved genuine without
  decompressing the rest. This development models the library under src/src/ and proves
  what its users rely on. All theories are imported here; none of them assumes an axiom.

  \<^bold>\<open>How the parts of the program work together.\<close> The writer cuts the text into chunks
  (chunker.rs), compresses them (codec.rs), and writes header, chunks, metadata, optional
  indexes, chunk table, index root, footer payload and trailer (fixed.rs, chunk_table.rs,
  dense_line_index.rs, schema.rs over cbor.rs). The opener (skeleton.rs) walks from header and
  trailer through the footer to every block, checking sizes, ranges and checksums under
  resource limits (limits.rs). Readers (reader.rs) decode chunks on demand, from memory or
  through positioned reads (io.rs), and verify a container at three levels. Search (search.rs)
  builds inverted indexes over the lines of a container and verifies every candidate against
  the original bytes. A sidecar (sidecar.rs) keeps such an index in a file beside its container,
  bound to it by checksums, and is searched from memory or through positioned reads.

  \<^bold>\<open>How the model corresponds to the code.\<close>
  Names of types and functions are those of the source; a method carries the name of its type
  (\<open>QztReader_open\<close>), a field a prefix of its record where the same name occurs
  twice. A struct is a record, an enum a datatype, \<open>Result\<close> the type \<open>QztError + 'a\<close>
  with every early return a branch, \<open>&mut\<close> state an argument that is returned updated. Unsigned
  integers are natural numbers; every addition, multiplication and conversion of the source
  that is checked, saturating or wrapping is written with the operation of that name at its
  width, and \<open>usize\<close> has 64 bits. A text is the list of its UTF-8 bytes. Loops are recursive
  functions, all of them total: those that do not recurse on a list have a termination proof
  by a measure, so no theorem speaks of results only \<open>if\<close> a loop ends. The footer's search for
  its own size has the eight rounds of the source, shown to be enough.

  Theories and components:
  \<^item> \<open>Qzt_Prelude\<close>: results and their sequencing, checked arithmetic, slices, byte orders.
    \<open>Primitives\<close>: error.rs, primitives.rs. \<open>Utf8\<close>: the standard library's validity test.
  \<^item> \<open>Cbor\<close>, \<open>Cbor_Correct\<close>: cbor.rs. The parser accepts exactly the deterministic encodings,
    and its budgets are those the writer measures.
  \<^item> \<open>Fixed_Codec\<close>, \<open>Fixed\<close>, \<open>Chunk_Table\<close>: fixed.rs, format.rs, chunk_table.rs. The locale
    \<open>fixed_codec\<close> is the contract of a fixed-width record; header, trailer and chunk entry
    are its instances. Physical ranges are accepted exactly if disjoint and inside the file.
  \<^item> \<open>Limits\<close>, \<open>Chunker\<close>, \<open>Dense_Line_Index\<close>: limits.rs, chunker.rs, dense_line_index.rs. A plan
    partitions the text at character boundaries, its line data are exact, and its cuts are the
    greedy ones: \<open>greedy_cuts\<close> states them without the search loops, and planning fails
    exactly when there are more of them than table entries.
  \<^item> \<open>Codec\<close>, \<open>Io\<close>: codec.rs, io.rs. The record \<open>ext\<close> stands for the third-party hash and
    compressor, the locale \<open>byte_source\<close> for what is required of a positioned reader.
  \<^item> \<open>Schema\<close>, \<open>Schema_Correct\<close>: schema.rs. Every block is read back as it was written.
  \<^item> \<open>Skeleton\<close>, \<open>Skeleton_Correct\<close>: skeleton.rs. The two openers agree, and an accepted
    container is consistent whatever its bytes.
  \<^item> \<open>Reader\<close>, \<open>Reader_Correct\<close>, \<open>Reader_Lines\<close>, \<open>Reader_Verify\<close>, \<open>Reader_Complete\<close>,
    \<open>Reader_Access\<close>: reader.rs. The locales \<open>chunk_source\<close> and \<open>text_source\<close> are the contracts of
    a table with a decoder, and of one that passed deep verification; both are interpreted on
    opened containers. Range, line and document reads agree with the exported text.
  \<^item> \<open>Writer\<close>, \<open>Writer_Correct\<close>, \<open>Writer_Documents\<close>, \<open>Writer_Roundtrip\<close>, \<open>Writer_Total\<close>: writer.rs,
    the in-memory writer. What is packed opens, exports to the input and verifies; packing
    succeeds for every acceptable input. \<open>Reader_Examples\<close>: a packed container with two chunks
    and a document across them, on which the theorems about opener and readers are applied.
  \<^item> \<open>Stream_Writer\<close>, \<open>Stream_Cuts\<close>, \<open>Stream_Correct\<close>, \<open>Stream_Finish\<close>, \<open>Stream_Progress\<close>,
    \<open>Stream_Properties\<close>: writer.rs, the streaming writer as a state machine over a sink that may
    fail at every operation. The locales \<open>random_access_sink\<close> and \<open>reliable_sink\<close> are what is
    required of a sink; the in-memory cursor is the instance. Streaming gives the bytes that
    packing gives, however the input is cut into fragments.
  \<^item> \<open>Postings\<close>, \<open>Search_Index\<close>, \<open>Search\<close>, \<open>Search_Tokens\<close>, \<open>Search_Build\<close>, \<open>Search_Verify\<close>,
    \<open>Search_Exact\<close>, \<open>Search_Ngrams\<close>, \<open>Search_Properties\<close>: search.rs. The locale \<open>ordered_map\<close> is
    the contract of the map postings are collected in, \<open>indexed_text\<close> that of an index over the
    lines of a decodable text. Searches return exactly the matches in the text.
  \<^item> \<open>Sidecar\<close>, \<open>Sidecar_Reader\<close>: sidecar.rs, the manifest and the three sections with both
    record formats, the build, and the two readers. \<open>Sidecar_Genuine\<close>: whatever an index says, a hit
    of a search is a match in the text. \<open>Sidecar_Manifest\<close>, \<open>Sidecar_Sections\<close>,
    \<open>Sidecar_Roundtrip\<close>, \<open>Sidecar_Open\<close>: manifest and sections are read back as they were
    written, and what is built under the default limits is accepted under the default limits of
    the reader. \<open>Sidecar_Properties\<close>: a built sidecar restores the index it was built from.

  \<^bold>\<open>What is assumed of code outside the repository.\<close> Properties that depend on the hash function
  or the compressor name their assumption: \<open>blake3_documented\<close> (a digest has 32 bytes and the
  incremental interface agrees with the one-shot function), \<open>zstd_documented\<close> (decompressing a
  compressed chunk gives it back) and \<open>zstd_compresses\<close> (compression succeeds within its
  documented bound). The record \<open>toy_ext\<close> satisfies them and serves the witnesses. No property
  assumes that hashes do not collide; statements about checksums are equations of digests.

  \<^bold>\<open>What is left out.\<close> Failing allocations, except where the source turns a size above the
  address range into an error (\<open>try_reserve_exact\<close> fails exactly above \<open>isize::MAX\<close>; vectors that
  the sidecar's loops grow in steps are not); elapsed times and
  ratios in search metrics, which are floating-point numbers; opening files by path. Not
  modelled at all: the command line (main.rs, context_cli.rs, cli_json.rs, cli_attest.rs,
  cli_output_security.rs), which parses arguments and prints; benchmark.rs and corpus.rs,
  which time operations and generate samples; lib.rs, which re-exports; the fuzz targets.
\<close>

end
